(* ===== verification/Prelude.thy ===== *)
theory Prelude
  imports Complex_Main "HOL-Library.Word" "HOL-Library.Multiset"
begin

text \<open>
  What every component shares: the machine integer types, the C++ exceptions as values
  of a result type, decimal strings (\<^verbatim>\<open>std::to_string\<close> and \<^verbatim>\<open>std::stoul\<close>), and
  generic lemmas on bits, lists and options. Collections: \<open>field_simps_lib\<close> (bit
  fields), \<open>digit_lib\<close> (decimal digits), \<open>result_lib\<close> (error results).
\<close>

unbundle bit_operations_syntax

named_theorems bits_lib \<open>facts on masks and shifts used by the packed structures\<close>
named_theorems digit_lib \<open>facts on decimal digits\<close>
named_theorems result_lib \<open>case analysis of error results\<close>

type_synonym u8 = "8 word"
type_synonym u16 = "16 word"
type_synonym u32 = "32 word"
type_synonym u64 = "64 word"

section \<open>Exceptions as values\<close>

text \<open>
  A C++ function that may throw returns \<open>cxx_error + 'a\<close>. The message of the
  exception is kept. \<open>Undefined\<close> is not an exception: it marks a branch in which the
  code has undefined behaviour (an index past the end of an array), so that theorems can
  say it is never taken.
\<close>

datatype cxx_error =
    Logic_error string
  | Runtime_error string
  | Invalid_argument
  | Out_of_range
  | Not_finite
  | Undefined

type_synonym 'a result = "cxx_error + 'a"

definition bind_result :: "'a result \<Rightarrow> ('a \<Rightarrow> 'b result) \<Rightarrow> 'b result" where
  "bind_result r f = (case r of Inl e \<Rightarrow> Inl e | Inr x \<Rightarrow> f x)"

lemma bind_result_simps [simp]:
  "bind_result (Inl e) f = Inl e"
  "bind_result (Inr x) f = f x"
  by (simp_all add: bind_result_def)

lemma bind_result_eq_Inr [result_lib]:
  "bind_result r f = Inr y \<longleftrightarrow> (\<exists>x. r = Inr x \<and> f x = Inr y)"
  by (cases r) simp_all

lemma bind_result_cong [fundef_cong]:
  "r = r' \<Longrightarrow> (\<And>x. r' = Inr x \<Longrightarrow> f x = f' x) \<Longrightarrow> bind_result r f = bind_result r' f'"
  by (cases r') simp_all

section \<open>Decimal numbers as strings\<close>

text \<open>
  \<open>std_to_string\<close> is \<^verbatim>\<open>std::to_string\<close> on an unsigned value; \<open>stoul\<close> is
  \<^verbatim>\<open>std::stoul\<close> in base 10: leading white space and one sign are skipped, the longest
  run of digits is read, an empty run is \<^verbatim>\<open>invalid_argument\<close>, a value that does not fit
  64 bits is \<^verbatim>\<open>out_of_range\<close>, and a minus sign negates modulo \<open>2 ^ 64\<close>.
\<close>

definition digit_char :: "nat \<Rightarrow> char" where
  "digit_char d = char_of (48 + d)"

definition is_digit :: "char \<Rightarrow> bool" where
  "is_digit c \<longleftrightarrow> 48 \<le> (of_char c :: nat) \<and> (of_char c :: nat) \<le> 57"

definition digit_val :: "char \<Rightarrow> nat" where
  "digit_val c = of_char c - 48"

fun std_to_string :: "nat \<Rightarrow> string" where
  "std_to_string n =
     (if n < 10 then [digit_char n] else std_to_string (n div 10) @ [digit_char (n mod 10)])"

declare std_to_string.simps [simp del]

definition digits_val :: "string \<Rightarrow> nat" where
  "digits_val s = foldl (\<lambda>a c. 10 * a + digit_val c) 0 s"

definition is_space :: "char \<Rightarrow> bool" where
  "is_space c \<longleftrightarrow> of_char c \<in> {9, 10, 11, 12, 13, 32 :: nat}"

definition strip_sign :: "string \<Rightarrow> bool \<times> string" where
  "strip_sign s = (case s of [] \<Rightarrow> (False, [])
     | c # cs \<Rightarrow> if c = CHR ''-'' then (True, cs) else if c = CHR ''+'' then (False, cs) else (False, s))"

definition stoul :: "string \<Rightarrow> nat result" where
  "stoul s =
     (let (neg, rest) = strip_sign (dropWhile is_space s);
          ds = takeWhile is_digit rest;
          n = digits_val ds
      in if ds = [] then Inl Invalid_argument
         else if 2 ^ 64 \<le> n then Inl Out_of_range
         else Inr (if neg then (2 ^ 64 - n) mod 2 ^ 64 else n))"

lemma of_char_digit_char [simp, digit_lib]: "d < 10 \<Longrightarrow> of_char (digit_char d) = 48 + d"
  by (simp add: digit_char_def)

lemma digit_val_digit_char [simp, digit_lib]: "d < 10 \<Longrightarrow> digit_val (digit_char d) = d"
  by (simp add: digit_val_def)

lemma is_digit_digit_char [simp, digit_lib]: "d < 10 \<Longrightarrow> is_digit (digit_char d)"
  by (simp add: is_digit_def)

lemma is_digit_not_special:
  assumes "is_digit c"
  shows "\<not> is_space c" and "c \<noteq> CHR ''-''" and "c \<noteq> CHR ''+''" and "c \<noteq> CHR ''/''"
    and "c \<noteq> CHR ''|''" and "c \<noteq> CHR '';''"
  using assms by (auto simp: is_digit_def is_space_def)

lemma std_to_string_nonempty [simp, digit_lib]: "std_to_string n \<noteq> []"
  by (subst std_to_string.simps) simp

lemma std_to_string_digits [digit_lib]: "c \<in> set (std_to_string n) \<Longrightarrow> is_digit c"
proof (induction n rule: std_to_string.induct)
  case (1 n)
  then show ?case
    by (cases "n < 10") (auto simp: std_to_string.simps [of n])
qed

lemma digits_val_snoc [simp]: "digits_val (s @ [c]) = 10 * digits_val s + digit_val c"
  by (simp add: digits_val_def)

lemma digits_val_std_to_string [simp, digit_lib]: "digits_val (std_to_string n) = n"
proof (induction n rule: std_to_string.induct)
  case (1 n)
  show ?case
  proof (cases "n < 10")
    case True
    then show ?thesis by (simp add: std_to_string.simps [of n] digits_val_def)
  next
    case False
    with "1.IH" show ?thesis by (simp add: std_to_string.simps [of n])
  qed
qed

lemma takeWhile_digits:
  "c \<notin> Collect is_digit \<Longrightarrow> takeWhile is_digit (std_to_string n @ c # rest) = std_to_string n"
  by (subst takeWhile_append2) (auto dest: std_to_string_digits)

lemma takeWhile_digits_end: "takeWhile is_digit (std_to_string n) = std_to_string n"
  by (auto simp: takeWhile_eq_all_conv dest: std_to_string_digits)

lemma strip_digits:
  assumes "is_digit c" shows "strip_sign (dropWhile is_space (c # cs)) = (False, c # cs)"
  using is_digit_not_special [OF assms] by (simp add: strip_sign_def)

text \<open>Reading back a printed number, whatever follows it that is not a digit.\<close>

lemma stoul_std_to_string [digit_lib]:
  assumes n: "n < 2 ^ 64" and rest: "rest = [] \<or> \<not> is_digit (hd rest)"
  shows "stoul (std_to_string n @ rest) = Inr n"
proof -
  obtain c cs where c: "std_to_string n = c # cs"
    by (cases "std_to_string n") simp_all
  then have d: "is_digit c" by (intro std_to_string_digits [of c n]) simp
  have t: "takeWhile is_digit (std_to_string n @ rest) = std_to_string n"
    using rest by (cases rest) (simp_all add: takeWhile_digits takeWhile_digits_end)
  have s: "strip_sign (dropWhile is_space (std_to_string n @ rest)) = (False, std_to_string n @ rest)"
    using strip_digits [OF d] by (simp add: c)
  show ?thesis
    using n by (simp add: stoul_def s t)
qed

section \<open>Bits\<close>

lemma bit_mask_word [bits_lib]:
  "bit (mask n :: 'a::len word) i \<longleftrightarrow> i < n \<and> i < LENGTH('a)"
  by (auto simp: bit_mask_iff)

lemma and_mask_less: "unat (w AND mask n :: 'a::len word) < 2 ^ n"
  by (simp add: take_bit_eq_mask [symmetric] unsigned_take_bit_eq)

lemma word_of_nat_div [simp]: "x < 2 ^ LENGTH('a) \<Longrightarrow> unat (word_of_nat x :: 'a::len word) = x"
  by (simp add: unsigned_of_nat take_bit_nat_eq_self)

lemma unat_ucast_take_bit [bits_lib]:
  "n \<le> LENGTH('b) \<Longrightarrow> unat (ucast (take_bit n (w :: 'a::len word)) :: 'b::len word) = unat w mod 2 ^ n"
  by (simp add: unsigned_ucast_eq unsigned_take_bit_eq) (simp add: take_bit_eq_mod min_def)

lemma unat_drop_bit [bits_lib]: "unat (drop_bit n (w :: 'a::len word)) = unat w div 2 ^ n"
  by (simp only: unat_drop_bit_eq) (simp add: drop_bit_eq_div)

lemma take_bit_self_iff: "take_bit n (w :: 'a::len word) = w \<longleftrightarrow> unat w < 2 ^ n"
  by (simp only: word_unat_eq_iff unsigned_take_bit_eq take_bit_nat_eq_self_iff)

lemma unat_take_bit_less: "unat (take_bit n (w :: 'a::len word)) < 2 ^ n"
  by (simp only: unsigned_take_bit_eq take_bit_nat_less_exp)

lemma nat_fields_eq:
  fixes a b :: nat
  assumes "a mod 2 ^ n = b mod 2 ^ n" and "a div 2 ^ n = b div 2 ^ n" shows "a = b"
  using assms by (metis div_mult_mod_eq)

end
