(* ===== verification/Floats.thy ===== *)
theory Floats
  imports Prelude
begin

text \<open>
  The arithmetic of C++ \<^verbatim>\<open>float\<close> and \<^verbatim>\<open>double\<close> on finite values: a value is the
  rational it stands for, and every operation is the exact one followed by IEEE 754
  rounding to nearest, ties to even, with gradual underflow. \<open>f32\<close> rounds to
  \<^verbatim>\<open>float\<close> (24 bit significand), \<open>f64\<close> to \<^verbatim>\<open>double\<close> (53 bits). Infinities and NaN are
  not values of the model: \<open>f32\<close> and \<open>f64\<close> have no largest exponent, so a computation
  that would overflow keeps its magnitude here. The \<open>rounding\<close> locale holds what the
  client proofs use of a rounding function; both formats interpret it.
\<close>

section \<open>Rounding to an integer, ties to even\<close>

definition round_even :: "rat \<Rightarrow> int" where
  "round_even x =
     (let f = \<lfloor>x\<rfloor>; d = x - of_int f
      in if d < 1 / 2 then f else if 1 / 2 < d then f + 1 else if even f then f else f + 1)"

lemma round_even_of_int [simp]: "round_even (of_int i) = i"
  by (simp add: round_even_def Let_def)

lemma round_even_0 [simp]: "round_even 0 = 0"
  using round_even_of_int [of 0] by simp

lemma round_even_bounds: "\<lfloor>x\<rfloor> \<le> round_even x" "round_even x \<le> \<lfloor>x\<rfloor> + 1"
  by (simp_all add: round_even_def Let_def)

lemma round_even_mono:
  assumes "x \<le> y" shows "round_even x \<le> round_even y"
proof (cases "\<lfloor>x\<rfloor> = \<lfloor>y\<rfloor>")
  case True
  then show ?thesis using assms by (auto simp: round_even_def Let_def)
next
  case False
  with floor_mono [OF assms] have "\<lfloor>x\<rfloor> + 1 \<le> \<lfloor>y\<rfloor>" by simp
  then show ?thesis using round_even_bounds [of x] round_even_bounds [of y] by linarith
qed

lemma round_even_minus: "round_even (- x) = - round_even x"
proof (cases "x = of_int \<lfloor>x\<rfloor>")
  case True
  then have "round_even (- x) = round_even (of_int (- \<lfloor>x\<rfloor>))" by simp
  also have "\<dots> = - round_even x" using True by (metis round_even_of_int)
  finally show ?thesis .
next
  case False
  have f: "\<lfloor>- x\<rfloor> = - \<lfloor>x\<rfloor> - 1"
  proof (rule floor_unique)
    show "of_int (- \<lfloor>x\<rfloor> - 1) \<le> - x" using floor_correct [of x] by (simp; linarith)
    show "- x < of_int (- \<lfloor>x\<rfloor> - 1) + 1" using floor_correct [of x] False by (simp; linarith)
  qed
  show ?thesis by (auto simp: round_even_def Let_def f)
qed

section \<open>The binary exponent of a positive rational\<close>

fun bit_count :: "nat \<Rightarrow> nat" where
  "bit_count n = (if n = 0 then 0 else Suc (bit_count (n div 2)))"

declare bit_count.simps [simp del]

lemma bit_count_bounds: "0 < n \<Longrightarrow> 2 ^ (bit_count n - 1) \<le> n \<and> n < 2 ^ bit_count n \<and> 0 < bit_count n"
proof (induction n rule: bit_count.induct)
  case (1 n)
  show ?case
  proof (cases "n = 1")
    case True
    then show ?thesis by (simp add: bit_count.simps)
  next
    case False
    with 1 have IH: "2 ^ (bit_count (n div 2) - 1) \<le> n div 2 \<and> n div 2 < 2 ^ bit_count (n div 2)
        \<and> 0 < bit_count (n div 2)" by simp
    obtain k where k: "bit_count (n div 2) = Suc k" using IH by (cases "bit_count (n div 2)") auto
    have "bit_count n = Suc (Suc k)" using 1 k by (simp add: bit_count.simps [of n])
    then show ?thesis using IH k by auto
  qed
qed

text \<open>\<open>ilog2 x\<close> is the exponent \<open>k\<close> with \<open>2 powi k \<le> x < 2 powi (k + 1)\<close>.\<close>

definition ilog2 :: "rat \<Rightarrow> int" where
  "ilog2 x =
     (let (p, q) = quotient_of x; k = int (bit_count (nat p)) - int (bit_count (nat q))
      in if 2 powi k \<le> x then k else k - 1)"

lemma powi_mono: "i \<le> j \<Longrightarrow> (2::rat) powi i \<le> 2 powi j"
  by (simp add: power_int_increasing)

lemma powi_less_iff: "(2::rat) powi i < 2 powi j \<longleftrightarrow> i < j"
proof
  assume "i < j" then show "(2::rat) powi i < 2 powi j" by (simp add: power_int_strict_increasing)
next
  assume lt: "(2::rat) powi i < 2 powi j"
  show "i < j"
  proof (rule ccontr)
    assume "\<not> i < j" then have "(2::rat) powi j \<le> 2 powi i" by (simp add: powi_mono)
    with lt show False by simp
  qed
qed

lemma powi_pos: "0 < (2::rat) powi i"
  by simp

lemma frac_bounds:
  assumes p: "0 < p" and q: "0 < q" and k: "k = int (bit_count (nat p)) - int (bit_count (nat q))"
  shows "2 powi (k - 1) \<le> (of_int p :: rat) / of_int q" and "(of_int p :: rat) / of_int q < 2 powi (k + 1)"
proof -
  define P Q where "P = bit_count (nat p)" and "Q = bit_count (nat q)"
  have i: "(2::int) ^ (P - 1) \<le> p" "p < 2 ^ P" "0 < P" "(2::int) ^ (Q - 1) \<le> q" "q < 2 ^ Q" "0 < Q"
    using bit_count_bounds [of "nat p"] bit_count_bounds [of "nat q"] p q
    by (simp_all add: P_def Q_def nat_less_iff le_nat_iff)
  then have r: "(of_int (2 ^ (P - 1)) :: rat) \<le> of_int p" "(of_int p :: rat) < of_int (2 ^ P)"
    "(of_int (2 ^ (Q - 1)) :: rat) \<le> of_int q" "(of_int q :: rat) < of_int (2 ^ Q)"
    by (simp_all only: of_int_le_iff of_int_less_iff)
  have PQ: "int P - 1 = int (P - 1)" "int Q - 1 = int (Q - 1)" using i by simp_all
  have lo: "2 powi (int P - 1) \<le> (of_int p :: rat)" using r(1) by (simp add: PQ(1))
  have hi: "of_int p < (2 powi (int P) :: rat)" using r(2) by simp
  have lo': "2 powi (int Q - 1) \<le> (of_int q :: rat)" using r(3) by (simp add: PQ(2))
  have hi': "of_int q < (2 powi (int Q) :: rat)" using r(4) by simp
  have "(2::rat) powi (k - 1) * of_int q \<le> 2 powi (k - 1) * 2 powi (int Q)"
    using hi' by (intro mult_left_mono) simp_all
  also have "\<dots> = 2 powi (int P - 1)"
    by (subst power_int_add [symmetric]) (simp_all add: k P_def Q_def)
  also have "\<dots> \<le> of_int p" by (rule lo)
  finally show "2 powi (k - 1) \<le> (of_int p :: rat) / of_int q" using q by (simp add: pos_le_divide_eq)
  have "(of_int p :: rat) < 2 powi (int P)" by (rule hi)
  also have "\<dots> = 2 powi (k + 1) * 2 powi (int Q - 1)"
    by (subst power_int_add [symmetric]) (simp_all add: k P_def Q_def)
  also have "\<dots> \<le> 2 powi (k + 1) * of_int q" using lo' by (intro mult_left_mono) simp_all
  finally show "(of_int p :: rat) / of_int q < 2 powi (k + 1)" using q by (simp add: pos_divide_less_eq)
qed

lemma ilog2_bounds:
  assumes x: "0 < x" shows "2 powi (ilog2 x) \<le> x" and "x < 2 powi (ilog2 x + 1)"
proof -
  obtain p q where pq: "quotient_of x = (p, q)" by (cases "quotient_of x")
  then have q: "0 < q" and xd: "x = of_int p / of_int q"
    by (auto dest: quotient_of_denom_pos quotient_of_div)
  with x have p: "0 < p" by (simp add: zero_less_divide_iff)
  define k where "k = int (bit_count (nat p)) - int (bit_count (nat q))"
  have il: "ilog2 x = (if 2 powi k \<le> x then k else k - 1)"
    by (simp add: ilog2_def pq k_def)
  have b: "2 powi (k - 1) \<le> x" "x < 2 powi (k + 1)"
    unfolding xd by (rule frac_bounds [OF p q k_def])+
  show "2 powi (ilog2 x) \<le> x" using b by (simp add: il)
  show "x < 2 powi (ilog2 x + 1)" using b by (simp add: il)
qed

lemma ilog2_mono:
  assumes "0 < x" "x \<le> y" shows "ilog2 x \<le> ilog2 y"
proof -
  have "(2::rat) powi (ilog2 x) \<le> x" by (rule ilog2_bounds) fact
  also have "\<dots> \<le> y" by fact
  also have "\<dots> < 2 powi (ilog2 y + 1)" using assms by (intro ilog2_bounds) simp
  finally show ?thesis by (simp add: powi_less_iff)
qed

lemma ilog2_unique:
  assumes "2 powi k \<le> x" "x < 2 powi (k + 1)" shows "ilog2 x = k"
proof -
  have x: "0 < x" using assms(1) powi_pos [of k] by linarith
  have "(2::rat) powi k < 2 powi (ilog2 x + 1)" using assms(1) ilog2_bounds(2) [OF x] by linarith
  moreover have "(2::rat) powi (ilog2 x) < 2 powi (k + 1)"
    using assms(2) ilog2_bounds(1) [OF x] by linarith
  ultimately show ?thesis by (simp add: powi_less_iff)
qed

section \<open>Rounding to a binary format\<close>

text \<open>
  \<open>fl p emin\<close>: \<open>p\<close> significant bits, \<open>2 powi emin\<close> the smallest spacing.
\<close>

definition fl_exp :: "nat \<Rightarrow> int \<Rightarrow> rat \<Rightarrow> int" where
  "fl_exp p emin x = max (ilog2 \<bar>x\<bar> - (int p - 1)) emin"

definition fl :: "nat \<Rightarrow> int \<Rightarrow> rat \<Rightarrow> rat" where
  "fl p emin x =
     (if x = 0 then 0
      else let u = 2 powi (fl_exp p emin x) in of_int (round_even (x / u)) * u)"

definition f32 :: "rat \<Rightarrow> rat" where
  "f32 = fl 24 (- 149)"

definition f64 :: "rat \<Rightarrow> rat" where
  "f64 = fl 53 (- 1074)"

lemma fl_0 [simp]: "fl p emin 0 = 0"
  by (simp add: fl_def)

lemma fl_minus: "fl p emin (- x) = - fl p emin x"
  by (simp add: fl_def fl_exp_def Let_def round_even_minus)

lemma fl_nonneg: "0 \<le> x \<Longrightarrow> 0 \<le> fl p emin x"
proof -
  assume "0 \<le> x"
  then have "0 \<le> round_even (x / 2 powi (fl_exp p emin x))"
    using round_even_mono [of 0 "x / 2 powi (fl_exp p emin x)"] by simp
  then show ?thesis by (simp add: fl_def Let_def)
qed

text \<open>A multiple of the spacing with few enough digits is its own rounding.\<close>

lemma fl_exact_less:
  assumes m: "\<bar>m\<bar> < 2 ^ p" and e: "emin \<le> e"
  shows "fl p emin (of_int m * 2 powi e) = of_int m * 2 powi e"
proof (cases "m = 0")
  case False
  let ?x = "of_int m * (2::rat) powi e"
  have "2 powi (ilog2 \<bar>?x\<bar>) \<le> \<bar>?x\<bar>" using False by (intro ilog2_bounds) simp
  also have "\<bar>?x\<bar> = of_int \<bar>m\<bar> * 2 powi e" by (simp add: abs_mult)
  also have "\<dots> < of_int (2 ^ p) * 2 powi e"
    using m by (intro mult_strict_right_mono powi_pos) (simp only: of_int_less_iff)
  also have "\<dots> = 2 powi (int p + e)" by (simp add: power_int_add)
  finally have "ilog2 \<bar>?x\<bar> < int p + e" by (simp add: powi_less_iff)
  then have le: "fl_exp p emin ?x \<le> e" using e by (simp add: fl_exp_def)
  define d where "d = nat (e - fl_exp p emin ?x)"
  have split: "(2::rat) powi e = of_int (2 ^ d) * 2 powi (fl_exp p emin ?x)"
  proof -
    have "e = int d + fl_exp p emin ?x" using le by (simp add: d_def)
    then have "(2::rat) powi e = 2 powi (int d + fl_exp p emin ?x)" by simp
    also have "\<dots> = 2 powi int d * 2 powi (fl_exp p emin ?x)" by (rule power_int_add) simp
    finally show ?thesis by simp
  qed
  have q: "?x / 2 powi (fl_exp p emin ?x) = of_int (m * 2 ^ d)"
    by (subst (1) split) simp
  have nz: "?x \<noteq> 0" using False by simp
  have "fl p emin ?x = of_int (m * 2 ^ d) * 2 powi (fl_exp p emin ?x)"
    by (simp only: fl_def Let_def q round_even_of_int nz if_False)
  also have "\<dots> = of_int m * (of_int (2 ^ d) * 2 powi (fl_exp p emin ?x))"
    by (simp only: of_int_mult mult.assoc)
  also have "\<dots> = ?x" by (simp only: split [symmetric])
  finally show ?thesis .
qed simp

lemma fl_exact:
  assumes m: "\<bar>m\<bar> \<le> 2 ^ p" and e: "emin \<le> e" and p: "0 < p"
  shows "fl p emin (of_int m * 2 powi e) = of_int m * 2 powi e"
proof (cases "\<bar>m\<bar> = 2 ^ p")
  case True
  obtain k where k: "p = Suc k" using p by (cases p) auto
  have "m = sgn m * 2 ^ p" using True by (metis sgn_mult_abs)
  then have "m = sgn m * 2 ^ k * 2" by (simp add: k)
  then have "(of_int m :: rat) = of_int (sgn m * 2 ^ k * 2)" by simp
  then have "(of_int m :: rat) = of_int (sgn m * 2 ^ k) * 2" by (simp only: of_int_mult of_int_numeral)
  then have eq: "of_int m * (2::rat) powi e = of_int (sgn m * 2 ^ k) * 2 powi (e + 1)"
    by (simp add: power_int_add_1')
  have "\<bar>sgn m * 2 ^ k\<bar> < 2 ^ p" by (auto simp: k abs_mult sgn_if)
  then show ?thesis using e by (simp only: eq) (rule fl_exact_less, simp_all)
next
  case False
  then show ?thesis using m e by (intro fl_exact_less) auto
qed

text \<open>The rounding error is at most half of the spacing.\<close>

lemma round_even_error: "\<bar>of_int (round_even x) - x\<bar> \<le> 1 / 2"
  using floor_correct [of x] by (auto simp: round_even_def Let_def abs_le_iff; linarith)

lemma fl_error:
  assumes x: "\<bar>x\<bar> < 2 powi k" and e: "emin \<le> k - int p"
  shows "\<bar>fl p emin x - x\<bar> \<le> 2 powi (k - int p - 1)"
proof (cases "x = 0")
  case False
  define u where "u = (2::rat) powi (fl_exp p emin x)"
  have u: "0 < u" by (simp add: u_def)
  have "2 powi (ilog2 \<bar>x\<bar>) \<le> \<bar>x\<bar>" using False by (intro ilog2_bounds) simp
  then have "(2::rat) powi (ilog2 \<bar>x\<bar>) < 2 powi k" using x by linarith
  then have "fl_exp p emin x \<le> k - int p" using e by (simp add: powi_less_iff fl_exp_def)
  then have uk: "u \<le> 2 powi (k - int p)" unfolding u_def by (rule powi_mono)
  have "fl p emin x - x = (of_int (round_even (x / u)) - x / u) * u"
    using False u by (simp add: fl_def u_def [symmetric] Let_def algebra_simps)
  then have "\<bar>fl p emin x - x\<bar> = \<bar>of_int (round_even (x / u)) - x / u\<bar> * u" using u by (simp add: abs_mult)
  also have "\<dots> \<le> 1 / 2 * u" using u by (intro mult_right_mono round_even_error) simp
  also have "\<dots> \<le> 1 / 2 * 2 powi (k - int p)" using uk by simp
  also have "\<dots> = 2 powi (k - int p - 1)" by (simp add: power_int_diff)
  finally show ?thesis .
qed simp

lemma f32_error: "\<bar>x\<bar> < 2 powi k \<Longrightarrow> - 125 \<le> k \<Longrightarrow> \<bar>f32 x - x\<bar> \<le> 2 powi (k - 25)"
  using fl_error [of x k "- 149" 24] by (simp add: f32_def)

lemma f64_error: "\<bar>x\<bar> < 2 powi k \<Longrightarrow> - 1021 \<le> k \<Longrightarrow> \<bar>f64 x - x\<bar> \<le> 2 powi (k - 54)"
  using fl_error [of x k "- 1074" 53] by (simp add: f64_def)

lemma fl_idem:
  assumes p: "0 < p" shows "fl p emin (fl p emin x) = fl p emin x"
proof (cases "x = 0")
  case False
  let ?e = "fl_exp p emin x" let ?m = "round_even (x / 2 powi ?e)"
  have "\<bar>x\<bar> < 2 powi (ilog2 \<bar>x\<bar> + 1)" using False by (intro ilog2_bounds) simp
  also have "\<dots> \<le> 2 powi (int p + ?e)" by (rule powi_mono) (simp add: fl_exp_def)
  also have "\<dots> = of_int (2 ^ p) * 2 powi ?e" by (subst power_int_add) simp_all
  finally have "\<bar>x\<bar> / 2 powi ?e < of_int (2 ^ p)" by (simp add: divide_less_eq)
  then have b: "\<bar>x / 2 powi ?e\<bar> \<le> of_int (2 ^ p)" by (simp add: abs_divide)
  have "\<bar>?m\<bar> \<le> 2 ^ p"
  proof (rule abs_leI)
    have "x / 2 powi ?e \<le> of_int (2 ^ p)" using b by (rule abs_le_D1)
    from round_even_mono [OF this] show "?m \<le> 2 ^ p" by (simp only: round_even_of_int)
    have "- (x / 2 powi ?e) \<le> of_int (2 ^ p)" using b by (rule abs_le_D2)
    from round_even_mono [OF this] show "- ?m \<le> 2 ^ p"
      by (simp only: round_even_of_int round_even_minus)
  qed
  then have "fl p emin (of_int ?m * 2 powi ?e) = of_int ?m * 2 powi ?e"
    by (rule fl_exact) (simp_all add: p fl_exp_def)
  then show ?thesis using False by (simp add: fl_def [of p emin x] Let_def)
qed simp

lemma fl_mono_pos:
  assumes p: "0 < p" and x: "0 < x" and xy: "x \<le> y" shows "fl p emin x \<le> fl p emin y"
proof -
  define ex ey where "ex = fl_exp p emin x" and "ey = fl_exp p emin y"
  have y: "0 < y" using x xy by simp
  have fx: "fl p emin x = of_int (round_even (x / 2 powi ex)) * 2 powi ex"
    and fy: "fl p emin y = of_int (round_even (y / 2 powi ey)) * 2 powi ey"
    using x y by (simp_all add: fl_def Let_def ex_def ey_def)
  show ?thesis
  proof (cases "ex = ey")
    case True
    have "round_even (x / 2 powi ey) \<le> round_even (y / 2 powi ey)"
      using xy by (intro round_even_mono divide_right_mono) simp_all
    then show ?thesis by (simp add: fx fy True)
  next
    case False
    have "ilog2 x \<le> ilog2 y" using x xy by (rule ilog2_mono)
    with False x y have lt: "ex < ey" and ey: "ey = ilog2 y - (int p - 1)"
      and k: "ilog2 x < ilog2 y"
      by (auto simp: ex_def ey_def fl_exp_def max_def split: if_splits)
    let ?B = "(2::rat) powi (ilog2 y)"
    have "x < 2 powi (ilog2 x + 1)" using x by (rule ilog2_bounds)
    also have "\<dots> \<le> ?B" using k by (intro powi_mono) simp
    finally have xB: "x \<le> ?B" by simp
    have yB: "?B \<le> y" using y by (rule ilog2_bounds)
    have up: "fl p emin x \<le> ?B"
    proof -
      define d where "d = nat (ilog2 y - ex)"
      have "ex \<le> ilog2 y" using lt ey p by simp
      then have B: "?B = of_int (2 ^ d) * 2 powi ex"
        by (simp add: d_def flip: power_int_add power_int_of_nat)
      then have "x / 2 powi ex \<le> of_int (2 ^ d)" using xB by (simp add: divide_le_eq)
      from round_even_mono [OF this] have "round_even (x / 2 powi ex) \<le> 2 ^ d"
        by (simp only: round_even_of_int)
      then have "(of_int (round_even (x / 2 powi ex)) :: rat) \<le> of_int (2 ^ d)"
        by (simp only: of_int_le_iff)
      then show ?thesis by (simp only: fx B) (rule mult_right_mono, simp_all)
    qed
    have lo: "?B \<le> fl p emin y"
    proof -
      have B: "?B = of_int (2 ^ (p - 1)) * 2 powi ey"
        using p by (simp add: ey flip: power_int_add power_int_of_nat)
      then have "of_int (2 ^ (p - 1)) \<le> y / 2 powi ey" using yB by (simp add: le_divide_eq)
      from round_even_mono [OF this] have "2 ^ (p - 1) \<le> round_even (y / 2 powi ey)"
        by (simp only: round_even_of_int)
      then have "(of_int (2 ^ (p - 1)) :: rat) \<le> of_int (round_even (y / 2 powi ey))"
        by (simp only: of_int_le_iff)
      then show ?thesis by (simp only: fy B) (rule mult_right_mono, simp_all)
    qed
    from up lo show ?thesis by simp
  qed
qed

lemma fl_mono:
  assumes p: "0 < p" and xy: "x \<le> y" shows "fl p emin x \<le> fl p emin y"
proof -
  consider "0 < x" | "x \<le> 0" "0 \<le> y" | "y < 0" using xy by linarith
  then show ?thesis
  proof cases
    case 1 then show ?thesis using p xy by (intro fl_mono_pos)
  next
    case 2
    have "0 \<le> fl p emin (- x)" using 2 by (intro fl_nonneg) simp
    moreover have "0 \<le> fl p emin y" using 2 by (intro fl_nonneg)
    ultimately show ?thesis by (simp add: fl_minus)
  next
    case 3
    then have "fl p emin (- y) \<le> fl p emin (- x)" using p xy by (intro fl_mono_pos) simp_all
    then show ?thesis by (simp add: fl_minus)
  qed
qed

section \<open>What clients use of a rounding function\<close>

locale rounding =
  fixes rnd :: "rat \<Rightarrow> rat" and bound :: int
  assumes mono: "x \<le> y \<Longrightarrow> rnd x \<le> rnd y"
    and idem: "rnd (rnd x) = rnd x"
    and exact_int: "\<bar>i\<bar> \<le> bound \<Longrightarrow> rnd (of_int i) = of_int i"
    and bound: "1 \<le> bound"
begin

definition representable :: "rat \<Rightarrow> bool" where
  "representable x \<longleftrightarrow> rnd x = x"

lemma representable_rnd [simp]: "representable (rnd x)"
  by (simp add: representable_def idem)

lemma rnd_0 [simp]: "rnd 0 = 0"
  using exact_int [of 0] bound by simp

lemma rnd_1 [simp]: "rnd 1 = 1"
  using exact_int [of 1] bound by simp

lemma exact_nat: "int n \<le> bound \<Longrightarrow> rnd (of_nat n) = of_nat n"
  using exact_int [of "int n"] by simp

lemma nonneg: "0 \<le> x \<Longrightarrow> 0 \<le> rnd x"
  using mono [of 0 x] by simp

lemma le_1: "x \<le> 1 \<Longrightarrow> rnd x \<le> 1"
  using mono [of x 1] by simp

lemma upper: "representable y \<Longrightarrow> x \<le> y \<Longrightarrow> rnd x \<le> y"
  using mono [of x y] by (simp add: representable_def)

lemma lower: "representable y \<Longrightarrow> y \<le> x \<Longrightarrow> y \<le> rnd x"
  using mono [of y x] by (simp add: representable_def)

lemma upper_less: "representable y \<Longrightarrow> y < rnd x \<Longrightarrow> y < x"
  using upper [of y x] by force

text \<open>Scaling a representable weight by a factor of at most one does not exceed it.\<close>

lemma scale_le: "representable w \<Longrightarrow> 0 \<le> w \<Longrightarrow> s \<le> 1 \<Longrightarrow> rnd (w * s) \<le> w"
  by (rule upper) (simp_all add: mult_left_le)

lemma div_le_1: "x \<le> y \<Longrightarrow> 0 < y \<Longrightarrow> rnd (x / y) \<le> 1"
  by (rule le_1) simp

lemma add_progress:
  assumes "of_int i \<le> x" "\<bar>i\<bar> \<le> bound" shows "of_int i \<le> rnd x"
  using mono [OF assms(1)] exact_int [OF assms(2)] by simp

end

lemma fl_of_int: "\<bar>i\<bar> \<le> 2 ^ p \<Longrightarrow> emin \<le> 0 \<Longrightarrow> 0 < p \<Longrightarrow> fl p emin (of_int i) = of_int i"
  using fl_exact [of i p emin 0] by simp

interpretation float32: rounding f32 "2 ^ 24"
  by unfold_locales (simp_all add: f32_def fl_mono fl_idem fl_of_int)

interpretation float64: rounding f64 "2 ^ 53"
  by unfold_locales (simp_all add: f64_def fl_mono fl_idem fl_of_int)

section \<open>Conversions to integers\<close>

text \<open>
  \<open>c_round\<close> is \<^verbatim>\<open>std::round\<close> and \<^verbatim>\<open>std::lround\<close> (halves away from zero), \<open>c_trunc\<close> the
  conversion of a floating value to an integer (towards zero).
\<close>

definition c_trunc :: "rat \<Rightarrow> int" where
  "c_trunc x = (if 0 \<le> x then \<lfloor>x\<rfloor> else - \<lfloor>- x\<rfloor>)"

definition c_round :: "rat \<Rightarrow> int" where
  "c_round x = (if 0 \<le> x then \<lfloor>x + 1 / 2\<rfloor> else - \<lfloor>- x + 1 / 2\<rfloor>)"

lemma c_round_of_int [simp]: "c_round (of_int i) = i"
proof -
  have "\<lfloor>of_int i + (1 / 2 :: rat)\<rfloor> = i" "\<lfloor>- of_int i + (1 / 2 :: rat)\<rfloor> = - i"
    by (rule floor_unique; simp)+
  then show ?thesis by (simp add: c_round_def)
qed

lemma c_round_mono_nonneg:
  assumes "0 \<le> x" "x \<le> y" shows "c_round x \<le> c_round y"
  using assms by (simp add: c_round_def floor_mono)

lemma c_round_bounds:
  assumes "0 \<le> x" "x \<le> of_int n" shows "0 \<le> c_round x" and "c_round x \<le> n"
  using c_round_mono_nonneg [of 0 x] c_round_mono_nonneg [of x "of_int n"] assms c_round_of_int [of 0]
  by (simp_all only: of_int_0 order_refl c_round_of_int)

lemma c_trunc_of_int [simp]: "c_trunc (of_int i) = i"
  by (simp add: c_trunc_def)

lemma c_trunc_mono_nonneg: "0 \<le> x \<Longrightarrow> x \<le> y \<Longrightarrow> c_trunc x \<le> c_trunc y"
  by (simp add: c_trunc_def floor_mono)

section \<open>Distances\<close>

lemma powi_le_frac: "(2::rat) powi (- int k) = 1 / 2 ^ k"
  by (simp add: power_int_minus field_simps)

lemma f64_near:
  assumes "\<bar>x\<bar> < 2 powi k" "- 1021 \<le> k" shows "f64 x \<le> x + 2 powi (k - 54)" and "x - 2 powi (k - 54) \<le> f64 x"
  using f64_error [OF assms] by (simp_all add: abs_le_iff)

lemma near_trans: "\<bar>x - y\<bar> \<le> d \<Longrightarrow> \<bar>y - z\<bar> \<le> e \<Longrightarrow> \<bar>x - z\<bar> \<le> d + (e :: rat)"
  by (simp only: abs_le_iff; linarith)

lemma near_add: "\<bar>x - y\<bar> \<le> d \<Longrightarrow> \<bar>x' - y'\<bar> \<le> e \<Longrightarrow> \<bar>x + x' - (y + y')\<bar> \<le> d + (e :: rat)"
  by (simp only: abs_le_iff; linarith)

lemma near_bound: "\<bar>x - y\<bar> \<le> d \<Longrightarrow> \<bar>y\<bar> \<le> b \<Longrightarrow> \<bar>x\<bar> \<le> b + (d :: rat)"
  by (simp only: abs_le_iff; linarith)

lemma scaled_near:
  assumes "\<bar>k - e\<bar> \<le> d" "of_nat m \<le> (M :: rat)" "0 \<le> d" shows "\<bar>of_nat m * k - of_nat m * e\<bar> \<le> M * d"
proof -
  have "\<bar>of_nat m * k - of_nat m * e\<bar> = of_nat m * \<bar>k - e\<bar>" by (simp add: abs_mult flip: right_diff_distrib)
  also have "\<dots> \<le> M * d" using assms by (intro mult_mono) simp_all
  finally show ?thesis .
qed

lemma c_round_near:
  assumes "0 \<le> x" shows "\<bar>of_int (c_round x) - x\<bar> \<le> 1 / 2"
proof -
  have c: "c_round x = \<lfloor>x + 1 / 2\<rfloor>" using assms by (simp add: c_round_def)
  show ?thesis unfolding c
    using of_int_floor_le [of "x + 1 / 2"] conjunct2 [OF floor_correct [of "x + 1 / 2"]] by (intro abs_leI; linarith)
qed

section \<open>Evaluation on numerals\<close>

text \<open>
  The simplifier computes \<open>f32\<close> and \<open>f64\<close> of a numeral fraction with the equations
  \<open>float_eval\<close>.
\<close>

text \<open>
  \<open>fl_frac\<close> computes the rounding of a positive fraction with integers only.
\<close>

definition ilog2_frac :: "int \<Rightarrow> int \<Rightarrow> int" where
  "ilog2_frac p q =
     (let k = int (bit_count (nat p)) - int (bit_count (nat q))
      in if 0 \<le> k then (if 2 ^ nat k * q \<le> p then k else k - 1)
         else (if q \<le> 2 ^ nat (- k) * p then k else k - 1))"

lemma ilog2_frac:
  assumes p: "0 < p" and q: "0 < q"
  shows "ilog2 (of_int p / of_int q) = ilog2_frac p q"
proof -
  define k where "k = int (bit_count (nat p)) - int (bit_count (nat q))"
  let ?x = "(of_int p :: rat) / of_int q"
  have il: "ilog2 ?x = (if 2 powi k \<le> ?x then k else k - 1)"
    using frac_bounds [OF p q k_def] by (cases "2 powi k \<le> ?x") (auto intro!: ilog2_unique)
  have test: "2 powi k \<le> ?x \<longleftrightarrow> (if 0 \<le> k then 2 ^ nat k * q \<le> p else q \<le> 2 ^ nat (- k) * p)"
  proof (cases "0 \<le> k")
    case True
    have "2 powi k \<le> ?x \<longleftrightarrow> (of_int (2 ^ nat k * q) :: rat) \<le> of_int p"
      using True q by (simp add: power_int_def pos_le_divide_eq)
    then show ?thesis using True by (simp only: of_int_le_iff if_True)
  next
    case False
    have "2 powi k \<le> ?x \<longleftrightarrow> (of_int q :: rat) \<le> of_int (2 ^ nat (- k) * p)"
      using False q by (simp add: power_int_def pos_le_divide_eq field_simps)
    then show ?thesis using False by (simp only: of_int_le_iff if_False)
  qed
  show ?thesis by (simp only: il test ilog2_frac_def Let_def k_def [symmetric]) simp
qed

definition div_even :: "int \<Rightarrow> int \<Rightarrow> int" where
  "div_even a b =
     (let q = a div b; r = 2 * (a mod b)
      in if r < b then q else if b < r then q + 1 else if even q then q else q + 1)"

lemma div_even:
  assumes b: "0 < b" shows "round_even (of_int a / of_int b) = div_even a b"
proof -
  let ?x = "(of_int a :: rat) / of_int b"
  have f: "\<lfloor>?x\<rfloor> = a div b" by (rule floor_divide_of_int_eq)
  have "(of_int a :: rat) = of_int (a div b) * of_int b + of_int (a mod b)"
    by (metis div_mult_mod_eq of_int_add of_int_mult)
  then have d: "?x - of_int (a div b) = of_int (a mod b) / of_int b"
    using b by (simp add: field_simps)
  have half: "of_int (a mod b) / of_int b < (1 / 2 :: rat) \<longleftrightarrow> 2 * (a mod b) < b"
    "(1 / 2 :: rat) < of_int (a mod b) / of_int b \<longleftrightarrow> b < 2 * (a mod b)"
  proof -
    have "of_int (a mod b) / of_int b < (1 / 2 :: rat) \<longleftrightarrow> (of_int (2 * (a mod b)) :: rat) < of_int b"
      using b by (simp add: divide_less_eq mult.commute)
    then show "of_int (a mod b) / of_int b < (1 / 2 :: rat) \<longleftrightarrow> 2 * (a mod b) < b"
      by (simp only: of_int_less_iff)
    have "(1 / 2 :: rat) < of_int (a mod b) / of_int b \<longleftrightarrow> (of_int b :: rat) < of_int (2 * (a mod b))"
      using b by (simp add: less_divide_eq mult.commute)
    then show "(1 / 2 :: rat) < of_int (a mod b) / of_int b \<longleftrightarrow> b < 2 * (a mod b)"
      by (simp only: of_int_less_iff)
  qed
  show ?thesis by (simp only: round_even_def div_even_def Let_def f d half)
qed

definition fl_frac :: "nat \<Rightarrow> int \<Rightarrow> int \<Rightarrow> int \<Rightarrow> rat" where
  "fl_frac p emin a b =
     (let e = max (ilog2_frac a b - (int p - 1)) emin
      in if 0 \<le> e then of_int (div_even a (b * 2 ^ nat e) * 2 ^ nat e)
         else of_int (div_even (a * 2 ^ nat (- e)) b) / of_int (2 ^ nat (- e)))"

lemma fl_frac:
  assumes a: "0 < a" and b: "0 < b"
  shows "fl p emin (of_int a / of_int b) = fl_frac p emin a b"
proof -
  define e where "e = max (ilog2_frac a b - (int p - 1)) emin"
  let ?x = "(of_int a :: rat) / of_int b"
  have x: "0 < ?x" using a b by simp
  then have fx: "fl p emin ?x = of_int (round_even (?x / 2 powi e)) * 2 powi e"
    by (simp only: fl_def fl_exp_def Let_def e_def abs_of_pos ilog2_frac [OF a b]) simp
  show ?thesis
  proof (cases "0 \<le> e")
    case True
    then have pw: "(2::rat) powi e = of_int (2 ^ nat e)" by (simp add: power_int_def)
    have "?x / 2 powi e = of_int a / of_int (b * 2 ^ nat e)"
      by (simp only: pw of_int_mult divide_divide_eq_left)
    then have "round_even (?x / 2 powi e) = div_even a (b * 2 ^ nat e)"
      using b by (simp only:) (rule div_even, simp)
    then show ?thesis
      using True by (simp only: fx pw fl_frac_def Let_def e_def [symmetric] if_True of_int_mult)
  next
    case False
    then have pw: "(2::rat) powi e = 1 / of_int (2 ^ nat (- e))"
      by (simp add: power_int_def inverse_eq_divide power_one_over)
    have "?x / 2 powi e = of_int (a * 2 ^ nat (- e)) / of_int b"
      by (simp only: pw of_int_mult divide_divide_eq_right times_divide_eq_left)
    then have "round_even (?x / 2 powi e) = div_even (a * 2 ^ nat (- e)) b"
      by (simp only: div_even [OF b])
    then show ?thesis
      using False by (simp only: fx pw fl_frac_def Let_def e_def [symmetric] if_False) simp
  qed
qed

primrec num_len :: "num \<Rightarrow> int" where
  "num_len num.One = 1"
| "num_len (num.Bit0 n) = num_len n + 1"
| "num_len (num.Bit1 n) = num_len n + 1"

lemma bit_count_numeral: "int (bit_count (numeral n)) = num_len n"
proof (induction n)
  case One
  have "bit_count (Suc 0) = 1" by (simp add: bit_count.simps [of "Suc 0"] bit_count.simps [of 0])
  then show ?case by simp
next
  case (Bit0 n)
  have "bit_count (numeral (num.Bit0 n)) = Suc (bit_count (numeral n))"
    by (subst bit_count.simps) simp
  with Bit0 show ?case by simp
next
  case (Bit1 n)
  have "bit_count (numeral (num.Bit1 n)) = Suc (bit_count (numeral n))"
    by (subst bit_count.simps) simp
  with Bit1 show ?case by simp
qed

lemma bit_count_1: "int (bit_count (Suc 0)) = 1"
  using bit_count_numeral [of num.One] by simp

lemma fl_numeral:
  "fl p emin (numeral a / numeral b) = fl_frac p emin (numeral a) (numeral b)"
  "fl p emin (1 / numeral b) = fl_frac p emin 1 (numeral b)"
  "fl p emin (numeral a) = fl_frac p emin (numeral a) 1"
  "fl p emin 1 = fl_frac p emin 1 1"
  "fl p emin (- x) = - fl p emin x"
  using fl_frac [of "numeral a" "numeral b"] fl_frac [of 1 "numeral b"]
    fl_frac [of "numeral a" 1] fl_frac [of 1 1]
  by (simp_all add: fl_minus)

lemma floor_rat_numeral:
  "\<lfloor>numeral a / numeral b :: rat\<rfloor> = numeral a div numeral b"
  "\<lfloor>1 / numeral b :: rat\<rfloor> = 1 div numeral b"
  "\<lfloor>- (numeral a / numeral b) :: rat\<rfloor> = - numeral a div numeral b"
  "\<lfloor>- (1 / numeral b) :: rat\<rfloor> = - 1 div numeral b"
  using floor_divide_of_int_eq [of "numeral a" "numeral b", where ?'a = rat]
    floor_divide_of_int_eq [of 1 "numeral b", where ?'a = rat]
    floor_divide_of_int_eq [of "- numeral a" "numeral b", where ?'a = rat]
    floor_divide_of_int_eq [of "- 1" "numeral b", where ?'a = rat]
  by (simp_all only: of_int_numeral of_int_1 of_int_minus divide_minus_left)

lemmas float_eval =
  f32_def f64_def fl_numeral fl_frac_def ilog2_frac_def div_even_def bit_count_numeral bit_count_1
  Let_def floor_rat_numeral

end
