(* ===== verification/Graph_Id.thy ===== *)
theory Graph_Id
  imports Prelude
begin

text \<open>
  \<^verbatim>\<open>valhalla/baldr/graphid.h\<close>: the packed 64 bit identifier of a node or an edge
  (3 bits of hierarchy level, 22 bits of tile, 21 bits of index within the tile, the
  rest spare), its constructors, accessors, increments and its textual form
  \<^verbatim>\<open>level/tile/id\<close>.
\<close>

section \<open>Data\<close>

datatype graph_id = GraphId (gid_value: u64)

definition kMaxGraphTileId :: u32 where "kMaxGraphTileId = 4194303"
definition kMaxGraphId :: u32 where "kMaxGraphId = 2097151"
definition kMaxGraphHierarchy :: u32 where "kMaxGraphHierarchy = 7"
definition kInvalidGraphId :: u64 where "kInvalidGraphId = 0x3fffffffffff"
definition kIdIncrement :: u64 where "kIdIncrement = push_bit 25 1"

definition gid_less :: "graph_id \<Rightarrow> graph_id \<Rightarrow> bool" where
  "gid_less a b \<longleftrightarrow> gid_value a < gid_value b"

instantiation graph_id :: linorder
begin

definition less_eq_graph_id :: "graph_id \<Rightarrow> graph_id \<Rightarrow> bool" where
  "less_eq_graph_id a b \<longleftrightarrow> gid_value a \<le> gid_value b"

definition less_graph_id :: "graph_id \<Rightarrow> graph_id \<Rightarrow> bool" where
  "less_graph_id a b \<longleftrightarrow> gid_less a b"

instance
  by standard (auto simp: less_eq_graph_id_def less_graph_id_def gid_less_def graph_id.expand)

end

section \<open>Operations\<close>

definition gid_default :: graph_id where
  "gid_default = GraphId kInvalidGraphId"

definition tileid :: "graph_id \<Rightarrow> u32" where
  "tileid g = ucast (drop_bit 3 (gid_value g AND 0x1fffff8))"

definition level :: "graph_id \<Rightarrow> u32" where
  "level g = ucast (gid_value g AND 0x7)"

definition gid_id :: "graph_id \<Rightarrow> u32" where
  "gid_id g = ucast (drop_bit 25 (gid_value g AND 0x3ffffe000000))"

definition gid_make :: "u32 \<Rightarrow> u32 \<Rightarrow> u32 \<Rightarrow> graph_id result" where
  "gid_make tile lev i =
     (if kMaxGraphTileId < tile then Inl (Logic_error ''Tile id out of valid range'')
      else if kMaxGraphHierarchy < lev then Inl (Logic_error ''Level out of valid range'')
      else if kMaxGraphId < i then Inl (Logic_error ''Id out of valid range'')
      else Inr (GraphId (ucast (lev OR push_bit 3 tile) OR push_bit 25 (ucast i))))"

definition gid_of_value :: "u64 \<Rightarrow> graph_id result" where
  "gid_of_value v =
     (let g = GraphId v
      in if kMaxGraphTileId < tileid g then Inl (Logic_error ''Tile id out of valid range'')
         else if kMaxGraphHierarchy < level g then Inl (Logic_error ''Level out of valid range'')
         else if kMaxGraphId < gid_id g then Inl (Logic_error ''Id out of valid range'')
         else Inr g)"

text \<open>\<^verbatim>\<open>std::string::find\<close> of a character at or after a position.\<close>

definition find_from :: "char \<Rightarrow> string \<Rightarrow> nat \<Rightarrow> nat option" where
  "find_from c s p =
     (let k = length (takeWhile (\<lambda>x. x \<noteq> c) (drop p s))
      in if p + k < length s then Some (p + k) else None)"

text \<open>
  The loop of the string constructor. A value pushed to the \<^verbatim>\<open>vector<uint32_t>\<close> is the
  \<^verbatim>\<open>unsigned long\<close> of \<^verbatim>\<open>stoul\<close> cut to 32 bits; the second argument of \<^verbatim>\<open>substr\<close> is the
  position of the next separator, used as a count.
\<close>

lemma find_from_ge: "find_from c s p = Some n \<Longrightarrow> p \<le> n \<and> n < length s"
  by (auto simp: find_from_def Let_def split: if_splits)

lemma stoul_Nil [simp]: "stoul [] = Inl Invalid_argument"
  by (simp add: stoul_def strip_sign_def)

function gid_parse_loop :: "string \<Rightarrow> nat \<Rightarrow> u32 list \<Rightarrow> u32 list result" where
  "gid_parse_loop s pos acc =
     (let start = pos + (if 0 < pos then 1 else 0);
          next = find_from (CHR ''/'') s start;
          tok = (case next of None \<Rightarrow> drop start s | Some n \<Rightarrow> take n (drop start s))
      in bind_result (stoul tok) (\<lambda>v.
           case next of
             None \<Rightarrow> Inr (acc @ [word_of_nat v])
           | Some n \<Rightarrow> gid_parse_loop s n (acc @ [word_of_nat v])))"
  by pat_completeness auto
termination
proof (relation "measure (\<lambda>(s, pos, acc). length s - pos)", goal_cases)
  case (2 s pos acc start nxt tok v n)
  then have f: "find_from (CHR ''/'') s start = Some n" by simp
  have ge: "start \<le> n" "n < length s" using find_from_ge [OF f] by auto
  have "pos < n"
  proof (cases "pos = 0")
    case True
    have "n \<noteq> 0"
    proof
      assume "n = 0"
      then have "tok = []" using 2(2,3) f by simp
      then show False using 2(4) by simp
    qed
    then show ?thesis using True by simp
  next
    case False
    then show ?thesis using ge 2(1) by simp
  qed
  then show ?case using ge by simp
qed simp

declare gid_parse_loop.simps [simp del]

definition gid_of_string :: "string \<Rightarrow> graph_id result" where
  "gid_of_string s =
     bind_result (gid_parse_loop s 0 []) (\<lambda>values.
       if length values \<noteq> 3
       then Inl (Logic_error ''Tile string format does not match level/tile/id'')
       else gid_make (values ! 1) (values ! 0) (values ! 2))"

definition gid_set_id :: "graph_id \<Rightarrow> u32 \<Rightarrow> graph_id" where
  "gid_set_id g i =
     GraphId ((gid_value g AND 0x1ffffff) OR push_bit 25 (ucast (i AND 0x1fffff)))"

definition is_valid :: "graph_id \<Rightarrow> bool" where
  "is_valid g \<longleftrightarrow> gid_value g \<noteq> kInvalidGraphId"

definition tile_base :: "graph_id \<Rightarrow> graph_id result" where
  "tile_base g = gid_of_value (gid_value g AND 0x1ffffff)"

definition tile_value :: "graph_id \<Rightarrow> u32" where
  "tile_value g = ucast (gid_value g AND 0x1ffffff)"

definition gid_succ :: "graph_id \<Rightarrow> graph_id" where
  "gid_succ g = GraphId (gid_value g + kIdIncrement)"

text \<open>
  \<^verbatim>\<open>operator+\<close>: the sum is a \<^verbatim>\<open>uint64_t\<close> that the constructor's \<^verbatim>\<open>uint32_t\<close> parameter
  cuts to 32 bits; \<^verbatim>\<open>operator+=\<close> adds in 32 bits.
\<close>

definition gid_plus :: "graph_id \<Rightarrow> u64 \<Rightarrow> graph_id result" where
  "gid_plus g offset = gid_make (tileid g) (level g) (ucast (ucast (gid_id g) + offset))"

definition gid_plus_assign :: "graph_id \<Rightarrow> u32 \<Rightarrow> graph_id" where
  "gid_plus_assign g offset = gid_set_id g (gid_id g + offset)"

definition gid_to_string :: "graph_id \<Rightarrow> string" where
  "gid_to_string g =
     std_to_string (unat (level g)) @ ''/'' @ std_to_string (unat (tileid g)) @ ''/''
       @ std_to_string (unat (gid_id g))"

definition gid_hash :: "graph_id \<Rightarrow> u64" where
  "gid_hash g =
     (let v = gid_value g;
          v = v XOR drop_bit 33 v; v = v * 0xff51afd7ed558ccd;
          v = v XOR drop_bit 33 v; v = v * 0xc4ceb9fe1a85ec53
      in v XOR drop_bit 33 v)"

section \<open>The three fields as numbers\<close>

lemma const_masks [bits_lib]:
  "(0x7 :: u64) = mask 3" "(0x1ffffff :: u64) = mask 25" "(0x1fffff :: u32) = mask 21"
  "kMaxGraphTileId = mask 22" "kMaxGraphId = mask 21" "kMaxGraphHierarchy = mask 3"
  "kInvalidGraphId = mask 46" "kIdIncrement = 2 ^ 25"
  by (simp_all add: kMaxGraphTileId_def kMaxGraphId_def kMaxGraphHierarchy_def kInvalidGraphId_def
      kIdIncrement_def mask_eq_exp_minus_1 push_bit_eq_mult)

lemma drop_masks [bits_lib]:
  "drop_bit 3 ((v :: u64) AND 0x1fffff8) = take_bit 22 (drop_bit 3 v)"
  "drop_bit 25 ((v :: u64) AND 0x3ffffe000000) = take_bit 21 (drop_bit 25 v)"
proof -
  have m: "(0x1fffff8 :: u64) = push_bit 3 (mask 22)" "(0x3ffffe000000 :: u64) = push_bit 25 (mask 21)"
    by (simp_all add: mask_eq_exp_minus_1 push_bit_eq_mult)
  show "drop_bit 3 ((v :: u64) AND 0x1fffff8) = take_bit 22 (drop_bit 3 v)"
    by (rule bit_word_eqI) (auto simp: m bit_simps)
  show "drop_bit 25 ((v :: u64) AND 0x3ffffe000000) = take_bit 21 (drop_bit 25 v)"
    by (rule bit_word_eqI) (auto simp: m bit_simps)
qed

lemma field_nats:
  "unat (level g) = unat (gid_value g) mod 2 ^ 3"
  "unat (tileid g) = unat (gid_value g) div 2 ^ 3 mod 2 ^ 22"
  "unat (gid_id g) = unat (gid_value g) div 2 ^ 25 mod 2 ^ 21"
  by (simp_all only: level_def tileid_def gid_id_def const_masks(1) drop_masks unat_drop_bit
      unat_ucast_take_bit [unfolded take_bit_eq_mask] take_bit_eq_mask)
     (simp_all add: unat_ucast_take_bit unat_drop_bit flip: take_bit_eq_mask)

lemma field_bits:
  "bit (level g) n \<longleftrightarrow> n < 3 \<and> bit (gid_value g) n"
  "bit (tileid g) n \<longleftrightarrow> n < 22 \<and> bit (gid_value g) (3 + n)"
  "bit (gid_id g) n \<longleftrightarrow> n < 21 \<and> bit (gid_value g) (25 + n)"
  by (auto simp only: level_def tileid_def gid_id_def const_masks(1) drop_masks bit_simps) auto

text \<open>A value without spare bits is the sum of its fields.\<close>

lemma value_of_fields:
  "unat (gid_value g) mod 2 ^ 46 =
     unat (level g) + 2 ^ 3 * unat (tileid g) + 2 ^ 25 * unat (gid_id g)"
proof -
  define v where "v = unat (gid_value g)"
  have a: "v mod 2 ^ 46 = v mod 2 ^ 25 + 2 ^ 25 * (v div 2 ^ 25 mod 2 ^ 21)"
    using mod_mult2_eq [of v "2 ^ 25" "2 ^ 21"] by simp
  have b: "v mod 2 ^ 25 = v mod 2 ^ 3 + 2 ^ 3 * (v div 2 ^ 3 mod 2 ^ 22)"
    using mod_mult2_eq [of v "2 ^ 3" "2 ^ 22"] by simp
  show ?thesis using a b by (simp add: field_nats v_def)
qed

lemma gid_eqI:
  assumes "level g = level h" "tileid g = tileid h" "gid_id g = gid_id h"
    and "unat (gid_value g) < 2 ^ 46" "unat (gid_value h) < 2 ^ 46"
  shows "g = h"
proof -
  have "unat (gid_value g) mod 2 ^ 46 = unat (gid_value h) mod 2 ^ 46"
    by (simp only: value_of_fields assms(1-3))
  then have "gid_value g = gid_value h" using assms(4,5) by (simp add: word_unat_eq_iff)
  then show ?thesis by (simp add: graph_id.expand)
qed

section \<open>Construction\<close>

lemma packed_bits:
  fixes t l i :: u32
  assumes t: "t \<le> kMaxGraphTileId" and l: "l \<le> kMaxGraphHierarchy" and i: "i \<le> kMaxGraphId"
  defines "g \<equiv> GraphId (ucast (l OR push_bit 3 t) OR push_bit 25 (ucast i))"
  shows "level g = l" and "tileid g = t" and "gid_id g = i" and "unat (gid_value g) < 2 ^ 46"
proof -
  have lt: "take_bit 22 t = t" "take_bit 3 l = l" "take_bit 21 i = i"
    using t l i by (simp_all add: take_bit_self_iff kMaxGraphTileId_def kMaxGraphHierarchy_def
        kMaxGraphId_def word_le_nat_alt del: take_bit_word_eq_self)
  have bt: "bit t n \<longleftrightarrow> n < 22 \<and> bit t n" and bl: "bit l n \<longleftrightarrow> n < 3 \<and> bit l n"
    and bi: "bit i n \<longleftrightarrow> n < 21 \<and> bit i n" for n
    by (subst lt(1-3) [symmetric], simp add: bit_simps)+
  have v: "bit (gid_value g) n \<longleftrightarrow> (bit l n \<or> (3 \<le> n \<and> bit t (n - 3))) \<and> n < 32
      \<or> 25 \<le> n \<and> n < 64 \<and> bit i (n - 25)" for n
    by (auto simp: g_def bit_simps dest: bl [THEN iffD1])
  show "level g = l"
    by (rule bit_word_eqI) (auto simp: field_bits v dest: bl [THEN iffD1])
  show "tileid g = t"
    by (rule bit_word_eqI)
      (auto simp: field_bits v dest: bl [THEN iffD1] bt [THEN iffD1])
  show "gid_id g = i"
    by (rule bit_word_eqI)
      (auto simp: field_bits v dest: bl [THEN iffD1] bt [THEN iffD1] bi [THEN iffD1])
  have "take_bit 46 (gid_value g) = gid_value g"
    by (rule bit_word_eqI)
      (auto simp: bit_take_bit_iff v dest: bl [THEN iffD1] bt [THEN iffD1] bi [THEN iffD1])
  then show "unat (gid_value g) < 2 ^ 46"
    by (simp only: take_bit_self_iff)
qed

lemma gid_make_Inr:
  "gid_make t l i = Inr g \<longleftrightarrow>
     t \<le> kMaxGraphTileId \<and> l \<le> kMaxGraphHierarchy \<and> i \<le> kMaxGraphId
     \<and> level g = l \<and> tileid g = t \<and> gid_id g = i \<and> unat (gid_value g) < 2 ^ 46"
  (is "?L \<longleftrightarrow> ?R")
proof
  assume ?L
  then have b: "t \<le> kMaxGraphTileId" "l \<le> kMaxGraphHierarchy" "i \<le> kMaxGraphId"
    and g: "g = GraphId (ucast (l OR push_bit 3 t) OR push_bit 25 (ucast i))"
    by (auto simp: gid_make_def not_less split: if_splits)
  show ?R using b packed_bits [OF b] by (simp add: g)
next
  assume R: ?R
  then have b: "t \<le> kMaxGraphTileId" "l \<le> kMaxGraphHierarchy" "i \<le> kMaxGraphId" by simp_all
  have "g = GraphId (ucast (l OR push_bit 3 t) OR push_bit 25 (ucast i))"
    using R packed_bits [OF b] by (intro gid_eqI) simp_all
  then show ?L using b by (simp add: gid_make_def not_less [symmetric])
qed

lemma field_limits [simp]:
  "level g \<le> kMaxGraphHierarchy" "tileid g \<le> kMaxGraphTileId" "gid_id g \<le> kMaxGraphId"
proof -
  have "unat (gid_value g) mod 2 ^ 3 < 2 ^ 3" "unat (gid_value g) div 2 ^ 3 mod 2 ^ 22 < 2 ^ 22"
    "unat (gid_value g) div 2 ^ 25 mod 2 ^ 21 < 2 ^ 21" by simp_all
  then show "level g \<le> kMaxGraphHierarchy" "tileid g \<le> kMaxGraphTileId" "gid_id g \<le> kMaxGraphId"
    by (simp_all add: word_le_nat_alt field_nats kMaxGraphTileId_def kMaxGraphHierarchy_def kMaxGraphId_def)
qed

lemma field_bounds:
  "unat (level g) < 8" "unat (tileid g) < 4194304" "unat (gid_id g) < 2097152"
  using field_limits [of g]
  by (simp_all add: word_le_nat_alt kMaxGraphTileId_def kMaxGraphHierarchy_def kMaxGraphId_def)

lemma gid_of_value_total [simp]: "gid_of_value v = Inr (GraphId v)"
  using field_limits [of "GraphId v"] by (simp add: gid_of_value_def Let_def leD)

lemma take_bit_value [simp]:
  "level (GraphId (take_bit 46 v)) = level (GraphId v)"
  "tileid (GraphId (take_bit 46 v)) = tileid (GraphId v)"
  "gid_id (GraphId (take_bit 46 v)) = gid_id (GraphId v)"
  by (rule bit_word_eqI; auto simp: field_bits bit_take_bit_iff)+

lemma unat_take_bit_46 [simp]: "unat (take_bit 46 (v :: u64)) < 70368744177664"
  using unat_take_bit_less [of 46 v] by simp

lemma gid_make_fields_of:
  "gid_make (tileid g) (level g) (gid_id g) = Inr (GraphId (take_bit 46 (gid_value g)))"
  by (simp add: gid_make_Inr)

section \<open>The textual form\<close>

lemma find_from_digits:
  assumes "\<And>c. c \<in> set pre \<Longrightarrow> c \<noteq> d"
  shows "find_from d (xs @ pre @ d # post) (length xs) = Some (length xs + length pre)"
    and "find_from d (xs @ pre) (length xs) = None"
proof -
  have tw: "takeWhile (\<lambda>x. x \<noteq> d) pre = pre" using assms by (simp add: takeWhile_eq_all_conv)
  show "find_from d (xs @ pre) (length xs) = None" by (simp add: find_from_def tw)
  show "find_from d (xs @ pre @ d # post) (length xs) = Some (length xs + length pre)"
    using assms by (simp add: find_from_def takeWhile_tail)
qed

text \<open>
  One round of the loop reads one printed number: the token starts at the number and runs
  on past the separator, where \<^verbatim>\<open>stoul\<close> stops.
\<close>

lemma take_digits:
  assumes "length (std_to_string n) \<le> m"
  shows "take m (std_to_string n @ CHR ''/'' # post)
    = std_to_string n @ take (m - length (std_to_string n)) (CHR ''/'' # post)"
  using assms by simp

lemma stoul_token:
  assumes "n < 2 ^ 64" "length (std_to_string n) \<le> m"
  shows "stoul (take m (std_to_string n @ CHR ''/'' # post)) = Inr n"
proof -
  have "take k (CHR ''/'' # post) = [] \<or> \<not> is_digit (hd (take k (CHR ''/'' # post)))" for k
    by (cases k) (simp_all add: is_digit_def)
  then show ?thesis using assms by (simp only: take_digits) (rule stoul_std_to_string)
qed

lemma stoul_last: "n < 2 ^ 64 \<Longrightarrow> stoul (std_to_string n) = Inr n"
  using stoul_std_to_string [of n "[]"] by simp

lemma no_slash: "c \<in> set (std_to_string n) \<Longrightarrow> c \<noteq> CHR ''/''"
  using is_digit_not_special(4) std_to_string_digits by blast

lemma gid_parse_step:
  assumes "find_from (CHR ''/'') s (pos + (if 0 < pos then 1 else 0)) = Some n"
    and "stoul (take n (drop (pos + (if 0 < pos then 1 else 0)) s)) = Inr v"
  shows "gid_parse_loop s pos acc = gid_parse_loop s n (acc @ [word_of_nat v])"
  by (subst gid_parse_loop.simps) (simp only: Let_def assms option.case bind_result_simps)

lemma gid_parse_end:
  assumes "find_from (CHR ''/'') s (pos + (if 0 < pos then 1 else 0)) = None"
    and "stoul (drop (pos + (if 0 < pos then 1 else 0)) s) = Inr v"
  shows "gid_parse_loop s pos acc = Inr (acc @ [word_of_nat v])"
  by (subst gid_parse_loop.simps) (simp only: Let_def assms option.case bind_result_simps)

lemma gid_parse_numbers:
  assumes "a < 2 ^ 64" "b < 2 ^ 64" "c < 2 ^ 64"
  shows "gid_parse_loop (std_to_string a @ ''/'' @ std_to_string b @ ''/'' @ std_to_string c) 0 []
    = Inr [word_of_nat a, word_of_nat b, word_of_nat c]"
proof -
  let ?A = "std_to_string a" and ?B = "std_to_string b" and ?C = "std_to_string c"
  let ?s = "?A @ ''/'' @ ?B @ ''/'' @ ?C"
  let ?p1 = "length ?A" and ?p2 = "Suc (length ?A) + length ?B"
  have "gid_parse_loop ?s 0 [] = gid_parse_loop ?s ?p1 ([] @ [word_of_nat a])"
    using find_from_digits(1) [of ?A "CHR ''/''" "[]" "?B @ ''/'' @ ?C"] no_slash
      stoul_token [OF assms(1), of ?p1]
    by (intro gid_parse_step) simp_all
  also have "\<dots> = gid_parse_loop ?s ?p2 (([] @ [word_of_nat a]) @ [word_of_nat b])"
    using find_from_digits(1) [of ?B "CHR ''/''" "?A @ ''/''" ?C] no_slash
      stoul_token [OF assms(2), of ?p2 ?C]
    by (intro gid_parse_step) simp_all
  also have "\<dots> = Inr ((([] @ [word_of_nat a]) @ [word_of_nat b]) @ [word_of_nat c])"
    using find_from_digits(2) [of ?C "CHR ''/''" "?A @ ''/'' @ ?B @ ''/''"] no_slash
      stoul_last [OF assms(3)]
    by (intro gid_parse_end) simp_all
  finally show ?thesis by simp
qed

text \<open>
  Printing an identifier and parsing the text gives the identifier back, without its
  spare bits, for every 64 bit value.
\<close>

theorem gid_string_roundtrip:
  "gid_of_string (gid_to_string g) = Inr (GraphId (take_bit 46 (gid_value g)))"
proof -
  have b: "unat (level g) < 2 ^ 64" "unat (tileid g) < 2 ^ 64" "unat (gid_id g) < 2 ^ 64"
    using field_bounds [of g] by simp_all
  show ?thesis
    by (simp only: gid_of_string_def gid_to_string_def gid_parse_numbers [OF b] bind_result_simps)
      (simp add: gid_make_fields_of numeral_2_eq_2)
qed

text \<open>
  The constructor succeeds exactly on arguments in range, and then the three accessors
  return the arguments and no spare bit is set.
\<close>

theorem gid_make_correct:
  "(\<exists>g. gid_make t l i = Inr g \<and> tileid g = t \<and> level g = l \<and> gid_id g = i
      \<and> unat (gid_value g) \<le> unat kInvalidGraphId)
   \<longleftrightarrow> unat t \<le> 4194303 \<and> unat l \<le> 7 \<and> unat i \<le> 2097151"
  (is "?L \<longleftrightarrow> ?R")
proof
  assume ?L
  then show ?R
    by (auto simp: gid_make_Inr kMaxGraphTileId_def kMaxGraphHierarchy_def kMaxGraphId_def word_le_nat_alt)
next
  assume ?R
  then have "t \<le> kMaxGraphTileId" "l \<le> kMaxGraphHierarchy" "i \<le> kMaxGraphId"
    by (simp_all add: kMaxGraphTileId_def kMaxGraphHierarchy_def kMaxGraphId_def word_le_nat_alt)
  from this packed_bits [OF this] show ?L
    by (intro exI conjI) (auto simp: gid_make_def kInvalidGraphId_def)
qed

section \<open>Advancing an identifier\<close>

lemma set_id_fields:
  "level (gid_set_id g i) = level g" "tileid (gid_set_id g i) = tileid g"
  "gid_id (gid_set_id g i) = take_bit 21 i" "unat (gid_value (gid_set_id g i)) < 2 ^ 46"
proof -
  have v: "bit (gid_value (gid_set_id g i)) n \<longleftrightarrow>
      n < 25 \<and> bit (gid_value g) n \<or> 25 \<le> n \<and> n < 46 \<and> bit i (n - 25)" for n
    by (simp only: gid_set_id_def graph_id.sel const_masks(2,3)) (auto simp: bit_simps)
  show "level (gid_set_id g i) = level g" "tileid (gid_set_id g i) = tileid g"
    "gid_id (gid_set_id g i) = take_bit 21 i"
    by (rule bit_word_eqI; auto simp: field_bits v bit_take_bit_iff)+
  have "take_bit 46 (gid_value (gid_set_id g i)) = gid_value (gid_set_id g i)"
    by (rule bit_word_eqI) (auto simp: bit_take_bit_iff v)
  then show "unat (gid_value (gid_set_id g i)) < 2 ^ 46" by (simp only: take_bit_self_iff)
qed

lemma gid_plus_assign_fields:
  "level (gid_plus_assign g k) = level g" "tileid (gid_plus_assign g k) = tileid g"
  "unat (gid_id (gid_plus_assign g k)) = (unat (gid_id g) + unat k) mod 2 ^ 21"
  "unat (gid_value (gid_plus_assign g k)) < 2 ^ 46"
proof -
  have "unat (take_bit 21 (gid_id g + k)) = (unat (gid_id g) + unat k) mod 2 ^ 32 mod 2 ^ 21"
    by (simp only: unsigned_take_bit_eq take_bit_eq_mod unat_word_ariths) simp
  also have "\<dots> = (unat (gid_id g) + unat k) mod 2 ^ 21"
    by (rule mod_mod_cancel) (simp add: le_imp_power_dvd)
  finally show "unat (gid_id (gid_plus_assign g k)) = (unat (gid_id g) + unat k) mod 2 ^ 21"
    by (simp only: gid_plus_assign_def set_id_fields)
qed (simp_all only: gid_plus_assign_def set_id_fields)

lemma gid_succ_in_range:
  assumes "unat (gid_value g) < 2 ^ 46" "unat (gid_id g) + 1 \<le> 2097151"
  shows "gid_succ g = gid_plus_assign g 1"
proof -
  have eq: "unat (gid_value g) = unat (level g) + 2 ^ 3 * unat (tileid g) + 2 ^ 25 * unat (gid_id g)"
    using value_of_fields [of g] assms(1) by simp
  have "unat (gid_value (gid_plus_assign g 1)) = unat (level (gid_plus_assign g 1))
      + 2 ^ 3 * unat (tileid (gid_plus_assign g 1)) + 2 ^ 25 * unat (gid_id (gid_plus_assign g 1))"
    using value_of_fields [of "gid_plus_assign g 1"] gid_plus_assign_fields(4) [of g 1] by simp
  also have "\<dots> = unat (level g) + 2 ^ 3 * unat (tileid g) + 2 ^ 25 * (unat (gid_id g) + 1)"
    using assms(2) gid_plus_assign_fields [of g 1] by simp
  also have "\<dots> = unat (gid_value g) + 2 ^ 25" by (simp add: eq)
  finally have "unat (gid_value (gid_plus_assign g 1)) = unat (gid_value g + 2 ^ 25)"
    using assms(1) by (simp add: unat_word_ariths)
  then have "gid_value (gid_plus_assign g 1) = gid_value g + 2 ^ 25" by (simp add: word_unat_eq_iff)
  then show ?thesis by (simp add: gid_succ_def const_masks(8) graph_id.expand)
qed

text \<open>
  While the index stays in its 21 bits, the three ways to advance an identifier agree:
  \<^verbatim>\<open>operator+\<close> does not throw, it equals \<^verbatim>\<open>operator+=\<close>, a step of one equals
  \<^verbatim>\<open>operator++\<close>, and only the index changes.
\<close>

theorem gid_advance_agree:
  assumes "unat (gid_value g) < 2 ^ 46" and "unat (gid_id g) + unat k \<le> 2097151"
  shows "gid_plus g (ucast k) = Inr (gid_plus_assign g k)
    \<and> level (gid_plus_assign g k) = level g \<and> tileid (gid_plus_assign g k) = tileid g
    \<and> unat (gid_id (gid_plus_assign g k)) = unat (gid_id g) + unat k
    \<and> (k = 1 \<longrightarrow> gid_succ g = gid_plus_assign g k)"
proof -
  have i: "unat (gid_id (gid_plus_assign g k)) = unat (gid_id g) + unat k"
    using assms(2) by (simp add: gid_plus_assign_fields)
  have "unat (ucast (ucast (gid_id g) + (ucast k :: u64)) :: u32) = unat (gid_id g) + unat k"
    using assms(2) by (simp add: unsigned_ucast_eq unsigned_take_bit_eq unat_word_ariths take_bit_eq_mod)
  then have "ucast (ucast (gid_id g) + (ucast k :: u64)) = gid_id (gid_plus_assign g k)"
    by (simp add: word_unat_eq_iff i)
  then have "gid_plus g (ucast k) = gid_make (tileid (gid_plus_assign g k))
      (level (gid_plus_assign g k)) (gid_id (gid_plus_assign g k))"
    by (simp add: gid_plus_def gid_plus_assign_fields)
  also have "\<dots> = Inr (gid_plus_assign g k)"
    using gid_plus_assign_fields(4) [of g k] by (simp add: gid_make_Inr)
  finally have plus: "gid_plus g (ucast k) = Inr (gid_plus_assign g k)" .
  have "k = 1 \<longrightarrow> gid_succ g = gid_plus_assign g k" using assms by (auto intro: gid_succ_in_range)
  with plus i show ?thesis by (simp only: gid_plus_assign_fields)
qed

theorem gid_advance_agree_witness:
  "gid_plus (GraphId 0x2000012) (ucast (1 :: u32)) = Inr (gid_plus_assign (GraphId 0x2000012) 1)
    \<and> gid_succ (GraphId 0x2000012) = gid_plus_assign (GraphId 0x2000012) 1"
  using gid_advance_agree [of "GraphId 0x2000012" 1] by (simp add: field_nats)

text \<open>
  At the last index of a tile the increments diverge: \<^verbatim>\<open>operator++\<close> carries into the
  spare bits, so the index reads 0 while the value leaves the range of valid identifiers;
  \<^verbatim>\<open>operator+=\<close> wraps to index 0 of the same tile; \<^verbatim>\<open>operator+\<close> throws.
\<close>

theorem gid_advance_overflow:
  assumes "unat (gid_value g) < 2 ^ 46" and "unat (gid_id g) = 2097151"
  shows "gid_id (gid_succ g) = 0 \<and> unat kInvalidGraphId < unat (gid_value (gid_succ g))
    \<and> gid_id (gid_plus_assign g 1) = 0 \<and> gid_plus_assign g 1 < g
    \<and> gid_plus g 1 = Inl (Logic_error ''Id out of valid range'')"
proof -
  have v: "unat (gid_value g) = unat (level g) + 2 ^ 3 * unat (tileid g) + 2 ^ 25 * 2097151"
    using value_of_fields [of g] assms by simp
  have s: "unat (gid_value (gid_succ g)) = unat (gid_value g) + 2 ^ 25"
    using assms(1) by (simp add: gid_succ_def const_masks(8) unat_word_ariths)
  have b: "unat (level g) + 2 ^ 3 * unat (tileid g) < 2 ^ 25"
    using field_bounds [of g] by simp
  have "unat (gid_value (gid_succ g)) div 2 ^ 25 = 2097152"
    using b by (intro div_nat_eqI) (simp_all add: s v)
  then have "unat (gid_id (gid_succ g)) = 0" by (simp add: field_nats(3))
  then have 1: "gid_id (gid_succ g) = 0" by (simp add: word_unat_eq_iff)
  have 2: "unat kInvalidGraphId < unat (gid_value (gid_succ g))"
    by (simp add: s v kInvalidGraphId_def)
  have "unat (gid_id (gid_plus_assign g 1)) = 0"
    using assms(2) by (simp add: gid_plus_assign_fields)
  then have 3: "gid_id (gid_plus_assign g 1) = 0" by (simp add: word_unat_eq_iff)
  have "unat (gid_value (gid_plus_assign g 1)) = unat (level g) + 2 ^ 3 * unat (tileid g)"
    using value_of_fields [of "gid_plus_assign g 1"] gid_plus_assign_fields [of g 1] assms(2)
    by simp
  then have 4: "gid_plus_assign g 1 < g" by (simp add: less_graph_id_def gid_less_def word_less_nat_alt v)
  have "unat (ucast (ucast (gid_id g) + (1 :: u64)) :: u32) = 2097152"
    using assms(2) by (simp add: unsigned_ucast_eq unsigned_take_bit_eq unat_word_ariths take_bit_eq_mod)
  then have "kMaxGraphId < ucast (ucast (gid_id g) + (1 :: u64))"
    by (simp add: word_less_nat_alt kMaxGraphId_def)
  then have 5: "gid_plus g 1 = Inl (Logic_error ''Id out of valid range'')"
    by (simp add: gid_plus_def gid_make_def leD)
  from 1 2 3 4 5 show ?thesis by blast
qed

theorem gid_advance_overflow_witness:
  "gid_id (gid_succ (GraphId 0x3ffffe000000)) = 0
    \<and> gid_plus (GraphId 0x3ffffe000000) 1 = Inl (Logic_error ''Id out of valid range'')"
  using gid_advance_overflow [of "GraphId 0x3ffffe000000"] by (simp add: field_nats)

text \<open>
  The tile of an identifier is found without an error, keeps level and tile, has index
  0, and two identifiers have the same tile value exactly when they have the same tile base.
\<close>

theorem tile_base_correct:
  "\<exists>b. tile_base g = Inr b \<and> level b = level g \<and> tileid b = tileid g \<and> gid_id b = 0
     \<and> tile_base b = Inr b \<and> b \<le> g
     \<and> (tile_base h = Inr b \<longleftrightarrow> tile_value h = tile_value g)"
proof -
  let ?b = "GraphId (take_bit 25 (gid_value g))"
  have tb: "tile_base x = Inr (GraphId (take_bit 25 (gid_value x)))" for x
    by (simp only: tile_base_def gid_of_value_total const_masks(2) take_bit_eq_mask)
  have f: "level ?b = level g" "tileid ?b = tileid g" "gid_id ?b = 0"
    by (rule bit_word_eqI; auto simp: field_bits bit_take_bit_iff)+
  have nat: "unat (take_bit 25 (gid_value x)) = unat (gid_value x) mod 2 ^ 25" for x
    by (rule trans [OF unsigned_take_bit_eq]) (rule take_bit_eq_mod)
  have le: "?b \<le> g"
    by (simp only: less_eq_graph_id_def graph_id.sel word_le_nat_alt nat mod_less_eq_dividend)
  have tv: "unat (tile_value x) = unat (gid_value x) mod 2 ^ 25" for x
    by (simp only: tile_value_def const_masks(2) take_bit_eq_mask [symmetric]) (rule unat_ucast_take_bit, simp)
  have iff: "tile_base h = Inr ?b \<longleftrightarrow> tile_value h = tile_value g"
    by (simp only: tb sum.inject graph_id.inject word_unat_eq_iff tv nat)
  have idem: "tile_base ?b = Inr ?b"
    by (simp only: tb graph_id.sel take_bit_take_bit min.idem)
  show ?thesis using tb [of g] f le iff idem by blast
qed

text \<open>
  Identifiers without spare bits are ordered by index first, then tile, then level: the
  order in which containers keyed by identifier iterate.
\<close>

theorem gid_order_lexicographic:
  assumes "unat (gid_value g) < 2 ^ 46" and "unat (gid_value h) < 2 ^ 46"
  shows "g < h \<longleftrightarrow>
    gid_id g < gid_id h \<or> gid_id g = gid_id h
      \<and> (tileid g < tileid h \<or> tileid g = tileid h \<and> level g < level h)"
proof -
  have v: "unat (gid_value g) = unat (level g) + 2 ^ 3 * unat (tileid g) + 2 ^ 25 * unat (gid_id g)"
    "unat (gid_value h) = unat (level h) + 2 ^ 3 * unat (tileid h) + 2 ^ 25 * unat (gid_id h)"
    using value_of_fields [of g] value_of_fields [of h] assms by simp_all
  show ?thesis
    using field_bounds [of g] field_bounds [of h]
    by (auto simp: less_graph_id_def gid_less_def word_less_nat_alt word_unat_eq_iff v)
qed

theorem gid_order_lexicographic_witness:
  "GraphId 0x7 < GraphId 0x2000000 \<and> level (GraphId 0x7) = 7"
  using gid_order_lexicographic [of "GraphId 0x7" "GraphId 0x2000000"]
  by (simp add: field_nats word_less_nat_alt word_unat_eq_iff)

end
