(* ===== verification/Varint.thy ===== *)
theory Varint
  imports Floats
begin

text \<open>
  \<^verbatim>\<open>valhalla/midgard/encoded.h\<close>: the two text encodings of a shape. A coordinate
  difference is an \<^verbatim>\<open>int32\<close>, here an \<open>int\<close> with the wrap-around \<open>to_i32\<close> written out;
  a byte is a \<open>u8\<close>. The locale \<open>int_codec\<close> is what the shape functions use of a codec for
  one integer; the 7 bit and the 5 bit codec interpret it.
\<close>

section \<open>32 bit arithmetic\<close>

definition to_i32 :: "int \<Rightarrow> int" where
  "to_i32 x = (x + 2 ^ 31) mod 2 ^ 32 - 2 ^ 31"

lemma to_i32_id [simp]: "- 2147483648 \<le> x \<Longrightarrow> x < 2147483648 \<Longrightarrow> to_i32 x = x"
  by (simp add: to_i32_def)

definition schar :: "u8 \<Rightarrow> int" where
  "schar b = sint b"

section \<open>One integer, seven bits to the byte\<close>

text \<open>The lambda \<^verbatim>\<open>serialize\<close> of \<^verbatim>\<open>encode7\<close>: sign to the lowest bit, then 7 bit chunks.\<close>

definition zigzag :: "int \<Rightarrow> int" where
  "zigzag n = (if n < 0 then to_i32 (NOT (push_bit 1 (n mod 2 ^ 32))) else to_i32 (push_bit 1 n))"

function chunks7 :: "int \<Rightarrow> u8 list" where
  "chunks7 n =
     (if 0x7f < n then word_of_int (0x80 OR (n AND 0x7f)) # chunks7 (drop_bit 7 n)
      else [word_of_int (n AND 0x7f)])"
  by pat_completeness auto
termination
  by (relation "measure nat") (auto simp: drop_bit_eq_div)

declare chunks7.simps [simp del]

definition serialize7 :: "int \<Rightarrow> u8 list" where
  "serialize7 n = chunks7 (zigzag n)"

text \<open>
  \<^verbatim>\<open>Shape7Decoder::next\<close> before it adds the previous coordinate. The bytes left are the
  state; a shift of 32 or more is undefined in C++.
\<close>

fun next7_loop :: "u8 list \<Rightarrow> nat \<Rightarrow> int \<Rightarrow> (int \<times> u8 list) result" where
  "next7_loop [] shift res = Inl (Runtime_error ''Bad encoded polyline'')"
| "next7_loop (b # bs) shift res =
     (if 32 \<le> shift then Inl Undefined
      else let byte = schar b;
               res = to_i32 (res OR push_bit shift (byte AND 0x7f))
           in if byte AND 0x80 \<noteq> 0 then next7_loop bs (shift + 7) res else Inr (res, bs))"

definition unzigzag7 :: "int \<Rightarrow> int" where
  "unzigzag7 r = drop_bit 1 (if r AND 1 \<noteq> 0 then NOT r else r)"

definition next7 :: "u8 list \<Rightarrow> (int \<times> u8 list) result" where
  "next7 bs = bind_result (next7_loop bs 0 0) (\<lambda>(r, rest). Inr (unzigzag7 r, rest))"

section \<open>One integer, five bits to the printable character\<close>

function chunks5 :: "int \<Rightarrow> u8 list" where
  "chunks5 n =
     (if 0x20 \<le> n then word_of_int ((0x20 OR (n AND 0x1f)) + 63) # chunks5 (drop_bit 5 n)
      else [word_of_int (n + 63)])"
  by pat_completeness auto
termination
  by (relation "measure nat") (auto simp: drop_bit_eq_div)

declare chunks5.simps [simp del]

definition serialize5 :: "int \<Rightarrow> u8 list" where
  "serialize5 n = chunks5 (zigzag n)"

fun next5_loop :: "u8 list \<Rightarrow> nat \<Rightarrow> int \<Rightarrow> (int \<times> u8 list) result" where
  "next5_loop [] shift res = Inl (Runtime_error ''Bad encoded polyline'')"
| "next5_loop (b # bs) shift res =
     (if 32 \<le> shift then Inl Undefined
      else let byte = schar b - 63;
               res = to_i32 (res OR push_bit shift (byte AND 0x1f))
           in if 0x20 \<le> byte then next5_loop bs (shift + 5) res else Inr (res, bs))"

definition unzigzag5 :: "int \<Rightarrow> int" where
  "unzigzag5 r = (if r AND 1 \<noteq> 0 then NOT (drop_bit 1 r) else drop_bit 1 r)"

definition next5 :: "u8 list \<Rightarrow> (int \<times> u8 list) result" where
  "next5 bs = bind_result (next5_loop bs 0 0) (\<lambda>(r, rest). Inr (unzigzag5 r, rest))"

section \<open>Decoding what was encoded\<close>

definition delta_ok :: "int \<Rightarrow> bool" where
  "delta_ok n \<longleftrightarrow> - (2 ^ 30) \<le> n \<and> n < 2 ^ 30"

lemma zigzag_value:
  assumes "delta_ok n"
  shows "zigzag n = (if n < 0 then - 2 * n - 1 else 2 * n)" and "0 \<le> zigzag n" and "zigzag n < 2 ^ 31"
proof -
  have n: "- 1073741824 \<le> n" "n < 1073741824" using assms by (simp_all add: delta_ok_def)
  have eq: "zigzag n = (if n < 0 then - 2 * n - 1 else 2 * n)"
  proof (cases "n < 0")
    case True
    have m: "n mod 4294967296 = n + 4294967296"
      using n True mod_mult_self1 [of n 1 "4294967296 :: int"]
        mod_pos_pos_trivial [of "n + 4294967296" "4294967296 :: int"] by simp
    have "(2147483648 - (1 + 2 * (n + 4294967296))) mod 4294967296 = 2147483648 - 1 - 2 * n"
    proof -
      have "2147483648 - (1 + 2 * (n + 4294967296)) = (2147483648 - 1 - 2 * n) + (- 2) * 4294967296"
        by simp
      also have "\<dots> mod 4294967296 = (2147483648 - 1 - 2 * n) mod 4294967296"
        by (rule mod_mult_self1)
      also have "\<dots> = 2147483648 - 1 - 2 * n" using n True by (intro mod_pos_pos_trivial) simp_all
      finally show ?thesis .
    qed
    then show ?thesis
      using True by (simp add: zigzag_def to_i32_def push_bit_eq_mult not_int_def m algebra_simps)
  next
    case False
    then show ?thesis using n by (simp add: zigzag_def push_bit_eq_mult)
  qed
  then show "zigzag n = (if n < 0 then - 2 * n - 1 else 2 * n)" .
  show "0 \<le> zigzag n" "zigzag n < 2 ^ 31" using n by (simp_all add: eq)
qed

lemma unzigzag7_zigzag [simp]: "delta_ok n \<Longrightarrow> unzigzag7 (zigzag n) = n"
  by (simp add: zigzag_value(1) unzigzag7_def and_one_eq drop_bit_eq_div not_int_def)
    (simp add: mod_eq_0_iff_dvd; presburger)

lemma unzigzag5_zigzag [simp]: "delta_ok n \<Longrightarrow> unzigzag5 (zigzag n) = n"
  by (simp add: zigzag_value(1) unzigzag5_def and_one_eq drop_bit_eq_div not_int_def)
    (simp add: mod_eq_0_iff_dvd; presburger)

lemma or_push_bit:
  fixes r c :: int
  assumes "0 \<le> r" "r < 2 ^ s" shows "r OR push_bit s c = r + c * 2 ^ s"
proof -
  have "take_bit s r = r" using assms by (simp add: take_bit_int_eq_self_iff)
  then show ?thesis
    using concat_bit_eq [of s r c] by (simp add: concat_bit_def push_bit_eq_mult)
qed

lemma schar_word_of_int:
  assumes "0 \<le> k" "k < 256"
  shows "schar (word_of_int k) = (if k < 128 then k else k - 256)"
proof -
  have "schar (word_of_int k) = (k + 128) mod 256 - 128"
    using assms by (simp add: schar_def signed_of_int signed_take_bit_eq_take_bit_shift take_bit_eq_mod)
  also have "(k + 128) mod 256 = (if k < 128 then k + 128 else k - 128)"
    using assms mod_add_self2 [of "k - 128" "256 :: int"]
      mod_pos_pos_trivial [of "k - 128" "256 :: int"] by (cases "k < 128") (simp_all add: add.commute)
  finally show ?thesis by simp
qed

lemma and_127: "(x :: int) AND 127 = x mod 128"
  using take_bit_eq_mask [of 7 x] by (simp add: mask_eq_exp_minus_1 take_bit_eq_mod)

lemma and_31: "(x :: int) AND 31 = x mod 32"
  using take_bit_eq_mask [of 5 x] by (simp add: mask_eq_exp_minus_1 take_bit_eq_mod)

lemma or_high_bit:
  "(128 :: int) OR (x mod 128) = 128 + x mod 128"
  "(32 :: int) OR (x mod 32) = 32 + x mod 32"
  using or_push_bit [of "x mod 128" 7 1] or_push_bit [of "x mod 32" 5 1]
  by (simp_all add: push_bit_eq_mult or.commute)

lemma and_push_bit_1: "(x :: int) AND push_bit n 1 = push_bit n (drop_bit n x AND 1)"
  by (rule bit_eqI) (auto simp: bit_and_iff bit_push_bit_iff bit_drop_bit_eq bit_exp_iff)

lemma and_128: "(x :: int) AND 128 = 128 * (x div 128 mod 2)"
  using and_push_bit_1 [of x 7] by (simp add: push_bit_eq_mult and_one_eq drop_bit_eq_div)

section \<open>The loops undo each other\<close>

lemma to_i32_step:
  fixes r x :: int
  assumes "0 \<le> r" "r < 2 ^ s" "0 \<le> c" "r + c * 2 ^ s < 2 ^ 31"
  shows "to_i32 (r OR push_bit s c) = r + c * 2 ^ s"
proof -
  have "0 \<le> c * 2 ^ s" using assms(3) by simp
  then have "- 2147483648 \<le> r + c * 2 ^ s" using assms(1) by linarith
  then have "to_i32 (r + c * 2 ^ s) = r + c * 2 ^ s" using assms(4) by (intro to_i32_id) simp_all
  then show ?thesis by (simp only: or_push_bit [OF assms(1,2)])
qed

lemma chunk_split:
  fixes x r :: int
  assumes "0 \<le> x" "0 \<le> r" "r < 2 ^ s"
  shows "r + (x mod 2 ^ k) * 2 ^ s + (x div 2 ^ k) * 2 ^ (s + k) = r + x * 2 ^ s"
    and "r + (x mod 2 ^ k) * 2 ^ s < 2 ^ (s + k)"
    and "r + (x mod 2 ^ k) * 2 ^ s \<le> r + x * 2 ^ s"
proof -
  have x: "x = x div 2 ^ k * 2 ^ k + x mod 2 ^ k" by (rule div_mult_mod_eq [symmetric])
  show eq: "r + (x mod 2 ^ k) * 2 ^ s + (x div 2 ^ k) * 2 ^ (s + k) = r + x * 2 ^ s"
  proof -
    have "r + b * S + a * (S * K) = r + (a * K + b) * S" for a b S K :: int
      by (simp add: algebra_simps)
    then show ?thesis by (simp only: power_add x [symmetric])
  qed
  have "0 \<le> x div 2 ^ k" using assms(1) by (simp add: pos_imp_zdiv_nonneg_iff)
  then have "0 \<le> (x div 2 ^ k) * 2 ^ (s + k)" by simp
  with eq show "r + (x mod 2 ^ k) * 2 ^ s \<le> r + x * 2 ^ s" by linarith
  have "x mod 2 ^ k \<le> 2 ^ k - 1" using pos_mod_bound [of "2 ^ k" x] by simp
  then have "(x mod 2 ^ k) * 2 ^ s \<le> (2 ^ k - 1) * 2 ^ s" by (intro mult_right_mono) simp_all
  with assms(3) show "r + (x mod 2 ^ k) * 2 ^ s < 2 ^ (s + k)" by (simp add: algebra_simps power_add)
qed

lemma shift_below_32:
  fixes x :: int
  assumes "0 < x" "x * 2 ^ s < 2 ^ 31" shows "s < 32"
proof (rule ccontr)
  assume "\<not> s < 32"
  then have "(2::int) ^ 32 \<le> 2 ^ s" by (intro power_increasing) simp_all
  moreover have "1 * 2 ^ s \<le> x * 2 ^ s" using assms(1) by (intro mult_right_mono) simp_all
  ultimately have "(2::int) ^ 32 \<le> x * 2 ^ s" by linarith
  with assms(2) show False by simp
qed

lemma chunk_step:
  fixes x r K :: int
  assumes x: "0 \<le> x" and r: "0 \<le> r" "r < 2 ^ s" and small: "r + x * 2 ^ s < 2 ^ 31" and K: "K = 2 ^ k"
  shows "to_i32 (r OR push_bit s (x mod K)) = r + x mod K * 2 ^ s"
    and "0 \<le> r + x mod K * 2 ^ s" and "r + x mod K * 2 ^ s < 2 ^ (s + k)"
    and "r + x mod K * 2 ^ s + x div K * 2 ^ (s + k) = r + x * 2 ^ s"
    and "K \<le> x \<Longrightarrow> s + k < 32"
proof -
  note split = chunk_split [OF x r, of k, folded K]
  have m: "0 \<le> x mod K" by (simp add: K)
  show "to_i32 (r OR push_bit s (x mod K)) = r + x mod K * 2 ^ s"
    using r m order_le_less_trans [OF split(3) small] by (intro to_i32_step)
  have mm: "0 \<le> x mod K * 2 ^ s" using m by simp
  then show nn: "0 \<le> r + x mod K * 2 ^ s" using r by linarith
  show "r + x mod K * 2 ^ s < 2 ^ (s + k)" by (rule split)
  show "r + x mod K * 2 ^ s + x div K * 2 ^ (s + k) = r + x * 2 ^ s" by (rule split)
  assume "K \<le> x"
  then have "0 < x div K" by (simp add: K pos_imp_zdiv_pos_iff)
  moreover have "x div K * 2 ^ (s + k) < 2 ^ 31" using nn split(1) small by linarith
  ultimately show "s + k < 32" by (rule shift_below_32)
qed

lemma mod_minus_div: "(x mod K - K) div K = - 1" "(x mod K - K) mod K = x mod K" if "0 < (K :: int)"
proof -
  show "(x mod K - K) mod K = x mod K"
    using mod_add_self2 [of "x mod K - K" K] by simp
  show "(x mod K - K) div K = - 1"
    using that div_add_self1 [of K "x mod K - K"] div_pos_pos_trivial [of "x mod K" K] by simp
qed

lemma next7_loop_more:
  "schar b = y \<Longrightarrow> y AND 127 = c \<Longrightarrow> y AND 128 \<noteq> 0 \<Longrightarrow> s < 32
    \<Longrightarrow> next7_loop (b # bs) s r = next7_loop bs (s + 7) (to_i32 (r OR push_bit s c))"
  by (auto simp: Let_def simp del: push_bit_and)

lemma next5_loop_more:
  "schar b - 63 = y \<Longrightarrow> y AND 31 = c \<Longrightarrow> 32 \<le> y \<Longrightarrow> s < 32
    \<Longrightarrow> next5_loop (b # bs) s r = next5_loop bs (s + 5) (to_i32 (r OR push_bit s c))"
  by (auto simp: Let_def simp del: push_bit_and)

lemma next7_loop_chunks7:
  assumes "0 \<le> x" "0 \<le> r" "r < 2 ^ s" "r + x * 2 ^ s < 2 ^ 31" "s < 32"
  shows "next7_loop (chunks7 x @ rest) s r = Inr (r + x * 2 ^ s, rest)"
  using assms
proof (induction x arbitrary: s r rest rule: chunks7.induct)
  case (1 x)
  have K: "(128 :: int) = 2 ^ 7" by simp
  note step = chunk_step [OF 1(2-5) K]
  show ?case
  proof (cases "127 < x")
    case True
    have byte: "schar (word_of_int (128 OR (x AND 127))) = x mod 128 - 128"
      using schar_word_of_int [of "128 + x mod 128"]
      by (simp only: and_127 or_high_bit) (simp del: of_int_add)
    have low: "(x mod 128 - 128) AND 127 = x mod 128"
      by (simp add: and_127 mod_minus_div)
    have cont: "(x mod 128 - 128) AND 128 \<noteq> 0"
      by (simp add: and_128 mod_minus_div)
    have "next7_loop (chunks7 (drop_bit 7 x) @ rest) (s + 7) (r + (x mod 128) * 2 ^ s)
        = Inr (r + (x mod 128) * 2 ^ s + drop_bit 7 x * 2 ^ (s + 7), rest)"
    proof (rule "1.IH" [OF True])
      have d: "drop_bit 7 x = x div 128" by (simp add: drop_bit_eq_div)
      show "0 \<le> drop_bit 7 x" using 1(2) by simp
      show "r + x mod 128 * 2 ^ s + drop_bit 7 x * 2 ^ (s + 7) < 2 ^ 31"
        unfolding d step(4) by (rule 1(5))
    qed (use step True in simp_all)
    then show ?thesis
      using step(4) 1(6) True next7_loop_more [OF byte low cont 1(6)]
      by (subst chunks7.simps) (simp add: step(1) drop_bit_eq_div del: next7_loop.simps)
  next
    case False
    then have "x AND 127 = x" "x mod 128 = x" using 1 by (simp_all add: and_127)
    moreover have "x AND 128 = 0" using False 1 by (simp add: and_128 div_pos_pos_trivial)
    ultimately show ?thesis
      using step(1) False 1 by (subst chunks7.simps) (simp add: schar_word_of_int del: push_bit_and)
  qed
qed

lemma next5_loop_chunks5:
  assumes "0 \<le> x" "0 \<le> r" "r < 2 ^ s" "r + x * 2 ^ s < 2 ^ 31" "s < 32"
  shows "next5_loop (chunks5 x @ rest) s r = Inr (r + x * 2 ^ s, rest)"
  using assms
proof (induction x arbitrary: s r rest rule: chunks5.induct)
  case (1 x)
  have K: "(32 :: int) = 2 ^ 5" by simp
  note step = chunk_step [OF 1(2-5) K]
  show ?case
  proof (cases "32 \<le> x")
    case True
    have "0 \<le> x mod 32" "x mod 32 < 32" by simp_all
    then have byte: "schar (word_of_int ((32 OR (x AND 31)) + 63)) - 63 = 32 + x mod 32"
      using schar_word_of_int [of "95 + x mod 32"]
      by (simp only: and_31 or_high_bit) (simp del: of_int_add add: algebra_simps)
    have low: "(32 + x mod 32) AND 31 = x mod 32" by (simp add: and_31)
    have cont: "32 \<le> 32 + x mod 32" by simp
    have "next5_loop (chunks5 (drop_bit 5 x) @ rest) (s + 5) (r + (x mod 32) * 2 ^ s)
        = Inr (r + (x mod 32) * 2 ^ s + drop_bit 5 x * 2 ^ (s + 5), rest)"
    proof (rule "1.IH" [OF True])
      have d: "drop_bit 5 x = x div 32" by (simp add: drop_bit_eq_div)
      show "0 \<le> drop_bit 5 x" using 1(2) by simp
      show "r + x mod 32 * 2 ^ s + drop_bit 5 x * 2 ^ (s + 5) < 2 ^ 31"
        unfolding d step(4) by (rule 1(5))
    qed (use step True in simp_all)
    then show ?thesis
      using step(4) 1(6) True next5_loop_more [OF byte low cont 1(6)]
      by (subst chunks5.simps) (simp add: step(1) drop_bit_eq_div del: next5_loop.simps of_int_add)
  next
    case False
    then have "x mod 32 = x" "schar (word_of_int (x + 63)) = x + 63"
      using 1 schar_word_of_int [of "x + 63"] by (simp_all del: of_int_add)
    then show ?thesis
      using step(1) False 1 by (subst chunks5.simps) (simp add: and_31 del: of_int_add)
  qed
qed

lemma next7_serialize7: "delta_ok n \<Longrightarrow> next7 (serialize7 n @ rest) = Inr (n, rest)"
  using next7_loop_chunks7 [of "zigzag n" 0 0 rest] zigzag_value(2,3) [of n]
  by (simp add: next7_def serialize7_def)

lemma next5_serialize5: "delta_ok n \<Longrightarrow> next5 (serialize5 n @ rest) = Inr (n, rest)"
  using next5_loop_chunks5 [of "zigzag n" 0 0 rest] zigzag_value(2,3) [of n]
  by (simp add: next5_def serialize5_def)

lemma chunks7_nonempty [simp]: "chunks7 n \<noteq> []" by (subst chunks7.simps) simp
lemma chunks5_nonempty [simp]: "chunks5 n \<noteq> []" by (subst chunks5.simps) simp

section \<open>Shapes\<close>

text \<open>
  A shape is a list of (longitude, latitude) pairs. Encoding quantises each coordinate and
  writes the difference to the previous point, latitude first; a value that does not fit
  an \<^verbatim>\<open>int\<close> is undefined behaviour. The codec for one integer is the argument.
\<close>

type_synonym point = "rat \<times> rat"

definition checked_i32 :: "int \<Rightarrow> int result" where
  "checked_i32 x = (if - (2 ^ 31) \<le> x \<and> x < 2 ^ 31 then Inr x else Inl Undefined)"

definition ENCODE_PRECISION :: int where
  "ENCODE_PRECISION = 1000000"

definition DECODE_PRECISION :: rat where
  "DECODE_PRECISION = f64 (1 / 1000000)"

definition quantise :: "int \<Rightarrow> rat \<Rightarrow> int result" where
  "quantise prec x = checked_i32 (c_round (f64 (x * of_int prec)))"

fun encode_loop :: "(int \<Rightarrow> u8 list) \<Rightarrow> int \<Rightarrow> int \<Rightarrow> int \<Rightarrow> point list \<Rightarrow> u8 list result" where
  "encode_loop serialize prec last_lon last_lat [] = Inr []"
| "encode_loop serialize prec last_lon last_lat (p # ps) =
     bind_result (quantise prec (fst p)) (\<lambda>lon.
     bind_result (quantise prec (snd p)) (\<lambda>lat.
     bind_result (checked_i32 (lat - last_lat)) (\<lambda>dlat.
     bind_result (checked_i32 (lon - last_lon)) (\<lambda>dlon.
     bind_result (encode_loop serialize prec lon lat ps) (\<lambda>out.
     Inr (serialize dlat @ serialize dlon @ out))))))"

definition encode :: "int \<Rightarrow> point list \<Rightarrow> u8 list result" where
  "encode prec points = encode_loop serialize5 prec 0 0 points"

definition encode7 :: "int \<Rightarrow> point list \<Rightarrow> u8 list result" where
  "encode7 prec points = encode_loop serialize7 prec 0 0 points"

text \<open>
  The decoder's members are the bytes left and the last \<^verbatim>\<open>lat\<close> and \<^verbatim>\<open>lon\<close>.
\<close>

record shape_decoder =
  bytes_left :: "u8 list"
  last_lat :: int
  last_lon :: int

definition shape_pop ::
  "(u8 list \<Rightarrow> (int \<times> u8 list) result) \<Rightarrow> rat \<Rightarrow> shape_decoder \<Rightarrow> (point \<times> shape_decoder) result" where
  "shape_pop next prec d =
     bind_result (next (bytes_left d)) (\<lambda>(dlat, bs1).
     bind_result (checked_i32 (last_lat d + dlat)) (\<lambda>lat.
     bind_result (next bs1) (\<lambda>(dlon, bs2).
     bind_result (checked_i32 (last_lon d + dlon)) (\<lambda>lon.
     Inr ((f64 (of_int lon * prec), f64 (of_int lat * prec)),
          d\<lparr>bytes_left := bs2, last_lat := lat, last_lon := lon\<rparr>)))))"

text \<open>
  The loop \<^verbatim>\<open>while (!shape.empty())\<close>. The fuel is the number of bytes; \<open>decode_fuel\<close> below
  shows that it is never used up.
\<close>

fun decode_loop ::
  "nat \<Rightarrow> (u8 list \<Rightarrow> (int \<times> u8 list) result) \<Rightarrow> rat \<Rightarrow> shape_decoder \<Rightarrow> point list result" where
  "decode_loop fuel next prec d =
     (if bytes_left d = [] then Inr []
      else case fuel of 0 \<Rightarrow> Inl (Logic_error ''out of fuel'')
      | Suc fuel' \<Rightarrow> bind_result (shape_pop next prec d) (\<lambda>(p, d').
          bind_result (decode_loop fuel' next prec d') (\<lambda>ps. Inr (p # ps))))"

declare decode_loop.simps [simp del]

definition decoder_init :: "u8 list \<Rightarrow> shape_decoder" where
  "decoder_init bs = \<lparr>bytes_left = bs, last_lat = 0, last_lon = 0\<rparr>"

definition decode :: "rat \<Rightarrow> u8 list \<Rightarrow> point list result" where
  "decode prec bs = decode_loop (length bs) next5 prec (decoder_init bs)"

definition decode7 :: "rat \<Rightarrow> u8 list \<Rightarrow> point list result" where
  "decode7 prec bs = decode_loop (length bs) next7 prec (decoder_init bs)"

section \<open>What a shape needs of its integer codec\<close>

definition grid_ok :: "int \<times> int \<Rightarrow> bool" where
  "grid_ok q \<longleftrightarrow> \<bar>fst q\<bar> \<le> 180000000 \<and> \<bar>snd q\<bar> \<le> 90000000"

definition unquantise :: "rat \<Rightarrow> int \<times> int \<Rightarrow> point" where
  "unquantise prec q = (f64 (of_int (fst q) * prec), f64 (of_int (snd q) * prec))"

fun deltas :: "(int \<Rightarrow> u8 list) \<Rightarrow> int \<Rightarrow> int \<Rightarrow> (int \<times> int) list \<Rightarrow> u8 list" where
  "deltas enc lon lat [] = []"
| "deltas enc lon lat (q # qs) = enc (snd q - lat) @ enc (fst q - lon) @ deltas enc (fst q) (snd q) qs"

locale int_codec =
  fixes enc :: "int \<Rightarrow> u8 list" and dec :: "u8 list \<Rightarrow> (int \<times> u8 list) result"
  assumes dec_enc: "delta_ok n \<Longrightarrow> dec (enc n @ rest) = Inr (n, rest)"
    and enc_nonempty: "enc n \<noteq> []"
    and dec_consumes: "dec bs = Inr (n, rest) \<Longrightarrow> length rest < length bs"
begin

lemma delta_ok_grid:
  "grid_ok (x, y) \<Longrightarrow> grid_ok (x', y') \<Longrightarrow> delta_ok (x' - x) \<and> delta_ok (y' - y)"
  by (auto simp: grid_ok_def delta_ok_def)

lemma decode_deltas:
  assumes "grid_ok (lon, lat)" "\<forall>q \<in> set qs. grid_ok q" "length (deltas enc lon lat qs) \<le> fuel"
  shows "decode_loop fuel dec prec \<lparr>bytes_left = deltas enc lon lat qs, last_lat = lat, last_lon = lon\<rparr>
    = Inr (map (unquantise prec) qs)"
  using assms
proof (induction qs arbitrary: lon lat fuel)
  case Nil
  then show ?case by (subst decode_loop.simps) simp
next
  case (Cons q qs)
  obtain x y where q: "q = (x, y)" by (cases q)
  have ok: "delta_ok (x - lon)" "delta_ok (y - lat)"
    using Cons.prems delta_ok_grid [of lon lat x y] by (simp_all add: q)
  have c: "checked_i32 x = Inr x" "checked_i32 y = Inr y"
    using Cons.prems by (auto simp: q grid_ok_def checked_i32_def)
  obtain f where f: "fuel = Suc f"
    using Cons.prems(3) enc_nonempty [of "y - lat"] by (cases fuel) (simp_all add: q)
  have "length (deltas enc x y qs) \<le> f"
    using Cons.prems(3) enc_nonempty [of "y - lat"] by (cases "enc (y - lat)") (simp_all add: q f)
  then have "decode_loop f dec prec \<lparr>bytes_left = deltas enc x y qs, last_lat = y, last_lon = x\<rparr>
      = Inr (map (unquantise prec) qs)"
    using Cons.prems by (intro Cons.IH) (simp_all add: q)
  then show ?case
    using enc_nonempty by (subst decode_loop.simps)
      (simp add: q f shape_pop_def dec_enc ok c unquantise_def)
qed

lemma encode_deltas:
  assumes "\<forall>(x, y) \<in> set ps. quantise prec x = Inr (qx x) \<and> quantise prec y = Inr (qx y)
      \<and> grid_ok (qx x, qx y)"
    and "grid_ok (lon, lat)"
  shows "encode_loop enc prec lon lat ps = Inr (deltas enc lon lat (map (\<lambda>(x, y). (qx x, qx y)) ps))"
  using assms
proof (induction ps arbitrary: lon lat)
  case (Cons p ps)
  obtain x y where p: "p = (x, y)" by (cases p)
  have c: "checked_i32 (qx y - lat) = Inr (qx y - lat)" "checked_i32 (qx x - lon) = Inr (qx x - lon)"
    using Cons.prems by (auto simp: p grid_ok_def checked_i32_def)
  show ?case using Cons.prems Cons.IH [of "qx x" "qx y"] by (auto simp: p c)
qed simp

lemma decode_fuel:
  assumes "length (bytes_left d) \<le> fuel" and "\<And>bs. dec bs \<noteq> Inl (Logic_error ''out of fuel'')"
  shows "decode_loop fuel dec prec d \<noteq> Inl (Logic_error ''out of fuel'')"
  using assms(1)
proof (induction fuel arbitrary: d)
  case 0
  then show ?case by (subst decode_loop.simps) simp
next
  case (Suc fuel)
  show ?case
  proof (cases "shape_pop dec prec d")
    case (Inl e)
    then have "e \<noteq> Logic_error ''out of fuel''"
      using assms(2) by (auto simp: shape_pop_def bind_result_def checked_i32_def
        split: sum.splits prod.splits if_splits)
    then show ?thesis using Inl by (subst decode_loop.simps) simp
  next
    case (Inr r)
    obtain p d' where r: "r = (p, d')" by (cases r)
    have "length (bytes_left d') < length (bytes_left d)"
      using Inr by (auto simp: r shape_pop_def bind_result_eq_Inr dest!: dec_consumes)
    then have "decode_loop fuel dec prec d' \<noteq> Inl (Logic_error ''out of fuel'')"
      using Suc by simp
    then show ?thesis
      using Inr by (subst decode_loop.simps) (auto simp: r bind_result_def split: sum.splits)
  qed
qed

end

lemma next7_loop_consumes: "next7_loop bs s r = Inr (n, rest) \<Longrightarrow> length rest < length bs"
proof (induction bs s r rule: next7_loop.induct)
  case (2 b bs shift res)
  then show ?case by (force simp: Let_def simp del: push_bit_and split: if_splits)
qed simp

lemma next5_loop_consumes: "next5_loop bs s r = Inr (n, rest) \<Longrightarrow> length rest < length bs"
proof (induction bs s r rule: next5_loop.induct)
  case (2 b bs shift res)
  then show ?case by (force simp: Let_def simp del: push_bit_and split: if_splits)
qed simp

interpretation codec7: int_codec serialize7 next7
  by unfold_locales
    (rule next7_serialize7, assumption, simp add: serialize7_def,
      auto simp: next7_def bind_result_eq_Inr dest!: next7_loop_consumes)

interpretation codec5: int_codec serialize5 next5
  by unfold_locales
    (rule next5_serialize5, assumption, simp add: serialize5_def,
      auto simp: next5_def bind_result_eq_Inr dest!: next5_loop_consumes)

section \<open>Quantising a coordinate\<close>

lemma f64_dyadic: "\<bar>m\<bar> \<le> 2 ^ 53 \<Longrightarrow> f64 (of_int m * (1 / 2 ^ k)) = of_int m * (1 / 2 ^ k)" if "k \<le> 1074"
  using fl_exact [of m 53 "- 1074" "- int k"] that
  by (simp add: f64_def power_int_minus inverse_eq_divide)

lemma f64_upto: "\<bar>m\<bar> \<le> 2 ^ 53 \<Longrightarrow> k \<le> 1074 \<Longrightarrow> x \<le> of_int m * (1 / 2 ^ k) \<Longrightarrow> f64 x \<le> of_int m * (1 / 2 ^ k)"
  by (rule float64.upper) (simp_all only: float64.representable_def f64_dyadic)

lemma f64_downto: "\<bar>m\<bar> \<le> 2 ^ 53 \<Longrightarrow> k \<le> 1074 \<Longrightarrow> of_int m * (1 / 2 ^ k) \<le> x \<Longrightarrow> of_int m * (1 / 2 ^ k) \<le> f64 x"
  by (rule float64.lower) (simp_all only: float64.representable_def f64_dyadic)

lemma c_round_minus: "c_round (- x) = - c_round x"
proof -
  have "\<lfloor>1 / 2 :: rat\<rfloor> = 0" by (simp add: floor_eq_iff)
  then show ?thesis by (cases "x = 0") (auto simp: c_round_def)
qed

lemma c_round_half: "\<bar>x - of_int (c_round x)\<bar> \<le> 1 / 2"
proof (cases "0 \<le> x")
  case True
  then have "c_round x = \<lfloor>x + 1 / 2\<rfloor>" by (simp add: c_round_def)
  with floor_correct [of "x + 1 / 2"] show ?thesis unfolding abs_le_iff by linarith
next
  case False
  then have "c_round x = - \<lfloor>- x + 1 / 2\<rfloor>" by (simp add: c_round_def)
  with floor_correct [of "- x + 1 / 2"] show ?thesis unfolding abs_le_iff of_int_minus by linarith
qed

lemma c_round_unique: "\<bar>x - of_int i\<bar> < 1 / 2 \<Longrightarrow> c_round x = i"
  using c_round_half [of x] by linarith

definition quantised :: "rat \<Rightarrow> int" where
  "quantised x = c_round (f64 (x * 1000000))"

lemma quantised_bound:
  assumes "\<bar>x\<bar> \<le> of_int n" "n \<le> 180" shows "\<bar>quantised x\<bar> \<le> 1000000 * n"
proof -
  have pos: "\<bar>c_round (f64 (y * 1000000))\<bar> \<le> 1000000 * n" if "0 \<le> y" "y \<le> of_int n" for y
  proof -
    have "y * 1000000 \<le> of_int (1000000 * n)" using that by simp
    moreover have "0 \<le> n" using that by (simp flip: of_int_0_le_iff)
    ultimately have "f64 (y * 1000000) \<le> of_int (1000000 * n)"
      using assms(2) float64.upper [of "of_int (1000000 * n)" "y * 1000000"]
        float64.exact_int [of "1000000 * n"] by (simp add: float64.representable_def)
    then show ?thesis
      using that c_round_bounds [of "f64 (y * 1000000)" "1000000 * n"] by (simp add: float64.nonneg)
  qed
  show ?thesis
  proof (cases "0 \<le> x")
    case False
    have "f64 (x * 1000000) = - f64 (- x * 1000000)" by (simp add: f64_def fl_minus)
    then show ?thesis using False assms pos [of "- x"] by (simp add: quantised_def c_round_minus)
  qed (use assms pos in \<open>simp add: quantised_def\<close>)
qed

lemma DECODE_PRECISION_bounds:
  "1 / 1000000 - 1 / 2 ^ 70 \<le> DECODE_PRECISION" "DECODE_PRECISION \<le> 1 / 1000000 + 1 / 2 ^ 70"
  unfolding DECODE_PRECISION_def by (simp_all add: float_eval)

text \<open>The stored value is within an eighth of a unit of the sixth digit.\<close>

lemma stored_near:
  assumes "\<bar>i\<bar> \<le> 180000000"
  shows "\<bar>f64 (of_int i * DECODE_PRECISION) * 1000000 - of_int i\<bar> \<le> 1 / 8"
proof -
  have "(of_int (- 180000000) :: rat) \<le> of_int i" "(of_int i :: rat) \<le> of_int 180000000"
    by (rule of_int_le_iff [THEN iffD2], use assms in linarith)+
  then have i: "- 180000000 \<le> (of_int i :: rat)" "(of_int i :: rat) \<le> 180000000" by simp_all
  let ?e = "of_int i * DECODE_PRECISION - of_int i / 1000000 :: rat"
  have "\<bar>DECODE_PRECISION - 1 / 1000000\<bar> \<le> 1 / 2 ^ 70"
    using DECODE_PRECISION_bounds unfolding abs_le_iff by linarith
  then have "\<bar>of_int i\<bar> * \<bar>DECODE_PRECISION - 1 / 1000000\<bar> \<le> 180000000 * (1 / 2 ^ 70)"
    using assms by (intro mult_mono) (simp_all flip: of_int_abs)
  then have "\<bar>?e\<bar> \<le> 180000000 * (1 / 2 ^ 70)"
    by (simp only: abs_mult [symmetric] right_diff_distrib mult_1_right times_divide_eq_right)
  then have e: "of_int i * DECODE_PRECISION \<le> of_int i / 1000000 + 1 / 2 ^ 40"
    "of_int i / 1000000 - 1 / 2 ^ 40 \<le> of_int i * DECODE_PRECISION"
    unfolding abs_le_iff by (simp_all add: field_simps)
  have fl: "\<exists>u :: int. of_int u \<le> t \<and> t < of_int u + 1" for t :: rat
    by (rule exI [of _ "\<lfloor>t\<rfloor>"]) linarith
  have ce: "\<exists>l :: int. t \<le> of_int l \<and> of_int l - 1 < t" for t :: rat
    by (rule exI [of _ "\<lceil>t\<rceil>"]) linarith
  from fl obtain u :: int where up: "of_int u \<le> (of_int i + 1 / 8 :: rat) / 1000000 * 2 ^ 32"
      "(of_int i + 1 / 8 :: rat) / 1000000 * 2 ^ 32 < of_int u + 1" by blast
  from ce obtain l :: int where lo: "(of_int i - 1 / 8 :: rat) / 1000000 * 2 ^ 32 \<le> of_int l"
      "of_int l - 1 < (of_int i - 1 / 8 :: rat) / 1000000 * 2 ^ 32" by blast
  have "(of_int \<bar>u\<bar> :: rat) \<le> of_int (2 ^ 53)"
    using up i unfolding of_int_abs abs_le_iff by simp
  then have "\<bar>u\<bar> \<le> 2 ^ 53" by (simp only: of_int_le_iff)
  then have U: "f64 (of_int i * DECODE_PRECISION) \<le> of_int u * (1 / 2 ^ 32)"
    using up e by (intro f64_upto) simp_all
  have "(of_int \<bar>l\<bar> :: rat) \<le> of_int (2 ^ 53)"
    using lo i unfolding of_int_abs abs_le_iff by simp
  then have "\<bar>l\<bar> \<le> 2 ^ 53" by (simp only: of_int_le_iff)
  then have L: "of_int l * (1 / 2 ^ 32) \<le> f64 (of_int i * DECODE_PRECISION)"
    using lo e by (intro f64_downto) simp_all
  show ?thesis using U L up lo unfolding abs_le_iff by simp
qed

lemma requantise: "\<bar>i\<bar> \<le> 180000000 \<Longrightarrow> quantised (f64 (of_int i * DECODE_PRECISION)) = i"
proof -
  assume i: "\<bar>i\<bar> \<le> 180000000"
  let ?y = "f64 (of_int i * DECODE_PRECISION) * 1000000"
  have near: "of_int i - 1 / 8 \<le> ?y" "?y \<le> of_int i + 1 / 8"
    using stored_near [OF i] unfolding abs_le_iff by linarith+
  have "f64 ?y \<le> of_int (8 * i + 1) * (1 / 2 ^ 3)"
    using near i by (intro f64_upto) simp_all
  moreover have "of_int (8 * i - 1) * (1 / 2 ^ 3) \<le> f64 ?y"
    using near i by (intro f64_downto) simp_all
  ultimately have "f64 ?y \<le> of_int i + 1 / 8" "of_int i - 1 / 8 \<le> f64 ?y" by simp_all
  then have "\<bar>f64 ?y - of_int i\<bar> < 1 / 2" unfolding abs_less_iff by linarith
  then show ?thesis unfolding quantised_def by (rule c_round_unique)
qed

lemma stored_error:
  assumes "\<bar>x\<bar> \<le> 180"
  shows "\<bar>f64 (of_int (quantised x) * DECODE_PRECISION) - x\<bar> \<le> 3 / 4 / 1000000"
proof -
  let ?i = "quantised x" and ?z = "f64 (x * 1000000)"
  have i: "\<bar>?i\<bar> \<le> 180000000" using quantised_bound [of x 180] assms by simp
  have z: "\<bar>?z - of_int ?i\<bar> \<le> 1 / 2" unfolding quantised_def by (rule c_round_half)
  have up: "x * 1000000 \<le> of_int (8 * ?i + 5) * (1 / 2 ^ 3)"
  proof (rule ccontr)
    assume "\<not> ?thesis"
    then have "of_int (8 * ?i + 5) * (1 / 2 ^ 3) \<le> ?z" using i by (intro f64_downto) simp_all
    with z show False by (simp add: abs_le_iff)
  qed
  have lo: "of_int (8 * ?i - 5) * (1 / 2 ^ 3) \<le> x * 1000000"
  proof (rule ccontr)
    assume "\<not> ?thesis"
    then have "?z \<le> of_int (8 * ?i - 5) * (1 / 2 ^ 3)" using i by (intro f64_upto) simp_all
    with z show False by (simp add: abs_le_iff)
  qed
  have "of_int ?i - 1 / 8 \<le> f64 (of_int ?i * DECODE_PRECISION) * 1000000"
    "f64 (of_int ?i * DECODE_PRECISION) * 1000000 \<le> of_int ?i + 1 / 8"
    using stored_near [OF i] unfolding abs_le_iff by linarith+
  moreover have "x * 1000000 \<le> of_int ?i + 5 / 8" "of_int ?i - 5 / 8 \<le> x * 1000000"
    using up lo by simp_all
  ultimately show ?thesis unfolding abs_le_iff by (auto simp: field_simps)
qed

section \<open>Properties\<close>

definition valid_point :: "point \<Rightarrow> bool" where
  "valid_point p \<longleftrightarrow> \<bar>fst p\<bar> \<le> 180 \<and> \<bar>snd p\<bar> \<le> 90"

definition snap :: "point \<Rightarrow> point" where
  "snap p = unquantise DECODE_PRECISION (quantised (fst p), quantised (snd p))"

lemma valid_quantise:
  assumes "valid_point (x, y)"
  shows "quantise ENCODE_PRECISION x = Inr (quantised x)"
    and "quantise ENCODE_PRECISION y = Inr (quantised y)"
    and "grid_ok (quantised x, quantised y)"
proof -
  have b: "\<bar>quantised x\<bar> \<le> 180000000" "\<bar>quantised y\<bar> \<le> 90000000"
    using quantised_bound [of x 180] quantised_bound [of y 90] assms by (simp_all add: valid_point_def)
  then show "quantise ENCODE_PRECISION x = Inr (quantised x)"
    "quantise ENCODE_PRECISION y = Inr (quantised y)"
    unfolding quantise_def ENCODE_PRECISION_def of_int_numeral quantised_def [symmetric]
    by (auto simp: checked_i32_def)
  show "grid_ok (quantised x, quantised y)" using b by (simp add: grid_ok_def)
qed

lemma snap_valid:
  assumes "valid_point p"
  shows "quantised (fst (snap p)) = quantised (fst p)" and "quantised (snd (snap p)) = quantised (snd p)"
  using assms quantised_bound [of "fst p" 180] quantised_bound [of "snd p" 90]
  by (simp_all add: snap_def unquantise_def requantise valid_point_def)

lemma snap_ok:
  assumes "valid_point p"
  shows "case snap p of (x, y) \<Rightarrow> quantise ENCODE_PRECISION x = Inr (quantised x) \<and>
    quantise ENCODE_PRECISION y = Inr (quantised y) \<and> grid_ok (quantised x, quantised y)"
proof -
  obtain x y where xy: "snap p = (x, y)" by (cases "snap p")
  have "grid_ok (quantised (fst p), quantised (snd p))"
    using valid_quantise [of "fst p" "snd p"] assms by simp
  then have g: "grid_ok (quantised x, quantised y)" using snap_valid [OF assms] by (simp add: xy)
  then show ?thesis
    unfolding xy quantise_def ENCODE_PRECISION_def of_int_numeral quantised_def [symmetric]
    by (auto simp: checked_i32_def grid_ok_def)
qed

context int_codec
begin

lemma encode_valid:
  assumes "\<forall>p \<in> set ps. valid_point p"
  shows "encode_loop enc ENCODE_PRECISION 0 0 ps
    = Inr (deltas enc 0 0 (map (\<lambda>(x, y). (quantised x, quantised y)) ps))"
  using assms valid_quantise by (intro encode_deltas) (auto simp: grid_ok_def)

lemma encode_snapped:
  assumes "\<forall>p \<in> set ps. valid_point p"
  shows "encode_loop enc ENCODE_PRECISION 0 0 (map snap ps) = encode_loop enc ENCODE_PRECISION 0 0 ps"
proof -
  have q: "map (\<lambda>(x, y). (quantised x, quantised y)) (map snap ps)
      = map (\<lambda>(x, y). (quantised x, quantised y)) ps"
    using assms snap_valid by (auto simp: split_beta)
  have "encode_loop enc ENCODE_PRECISION 0 0 (map snap ps)
      = Inr (deltas enc 0 0 (map (\<lambda>(x, y). (quantised x, quantised y)) (map snap ps)))"
  proof (rule encode_deltas)
    show "\<forall>(x, y) \<in> set (map snap ps). quantise ENCODE_PRECISION x = Inr (quantised x) \<and>
        quantise ENCODE_PRECISION y = Inr (quantised y) \<and> grid_ok (quantised x, quantised y)"
    proof
      fix q assume "q \<in> set (map snap ps)"
      then obtain p where "p \<in> set ps" "q = snap p" by auto
      then show "case q of (x, y) \<Rightarrow> quantise ENCODE_PRECISION x = Inr (quantised x) \<and>
          quantise ENCODE_PRECISION y = Inr (quantised y) \<and> grid_ok (quantised x, quantised y)"
        using snap_ok [of p] assms by simp
    qed
  qed (simp add: grid_ok_def)
  then show ?thesis using encode_valid [OF assms] by (simp only: q)
qed

lemma shape_roundtrip:
  assumes "\<forall>p \<in> set ps. valid_point p"
  obtains bs where "encode_loop enc ENCODE_PRECISION 0 0 ps = Inr bs"
    and "decode_loop (length bs) dec DECODE_PRECISION (decoder_init bs) = Inr (map snap ps)"
proof -
  let ?qs = "map (\<lambda>(x, y). (quantised x, quantised y)) ps"
  have "decode_loop (length (deltas enc 0 0 ?qs)) dec DECODE_PRECISION (decoder_init (deltas enc 0 0 ?qs))
      = Inr (map (unquantise DECODE_PRECISION) ?qs)"
    unfolding decoder_init_def
    using assms valid_quantise(3) by (intro decode_deltas) (auto simp: grid_ok_def)
  moreover have "map (unquantise DECODE_PRECISION) ?qs = map snap ps"
    by (auto simp: snap_def split_beta)
  ultimately show ?thesis using that encode_valid [OF assms] by metis
qed

end

text \<open>
  C24: A shape in valid coordinates survives the storage encoding: \<open>encode7\<close> succeeds, decoding
  its bytes gives back every point in order, snapped to the six digit grid, and a stored
  coordinate is off by less than a millionth of a degree; floating point rounding in both
  directions is included.
\<close>

theorem shape7_roundtrip:
  assumes "\<forall>p \<in> set ps. valid_point p"
  shows "(\<exists>bs. encode7 ENCODE_PRECISION ps = Inr bs \<and> decode7 DECODE_PRECISION bs = Inr (map snap ps))
    \<and> (\<forall>p \<in> set ps. \<bar>fst (snap p) - fst p\<bar> < 1 / 1000000 \<and> \<bar>snd (snap p) - snd p\<bar> < 1 / 1000000)"
proof (intro conjI ballI)
  show "\<exists>bs. encode7 ENCODE_PRECISION ps = Inr bs \<and> decode7 DECODE_PRECISION bs = Inr (map snap ps)"
    unfolding encode7_def decode7_def by (rule codec7.shape_roundtrip [OF assms]) blast
  fix p assume "p \<in> set ps"
  then have "\<bar>fst p\<bar> \<le> 180" "\<bar>snd p\<bar> \<le> 180" using assms by (auto simp: valid_point_def)
  from this [THEN stored_error]
  show "\<bar>fst (snap p) - fst p\<bar> < 1 / 1000000" "\<bar>snd (snap p) - snd p\<bar> < 1 / 1000000"
    by (simp_all add: snap_def unquantise_def)
qed

definition sample_shape7 :: "point list" where
  "sample_shape7 = [(- 97 / 8, 171 / 4), (2433 / 16, - 53 / 2)]"

theorem shape7_roundtrip_witness:
  "\<exists>bs. encode7 ENCODE_PRECISION sample_shape7 = Inr bs
    \<and> decode7 DECODE_PRECISION bs = Inr (map snap sample_shape7)"
proof -
  have "\<forall>p \<in> set sample_shape7. valid_point p" by (simp add: sample_shape7_def valid_point_def)
  from shape7_roundtrip [OF this] show ?thesis by blast
qed

lemma chunks5_printable: "0 \<le> n \<Longrightarrow> b \<in> set (chunks5 n) \<Longrightarrow> 63 \<le> unat b \<and> unat b \<le> 126"
proof (induction n rule: chunks5.induct)
  case (1 n)
  have u: "unat (word_of_int k :: u8) = nat k" if "0 \<le> k" "k < 256" for k
    using that by (simp add: unat_eq_nat_uint unsigned_of_int take_bit_eq_mod nat_mod_distrib)
  show ?case
  proof (cases "32 \<le> n")
    case True
    have "0 \<le> n mod 32" "n mod 32 < 32" by simp_all
    then have "unat (word_of_int ((32 OR (n AND 31)) + 63) :: u8) = nat (95 + n mod 32)"
      using u [of "95 + n mod 32"]
      by (simp only: and_31 or_high_bit) (simp del: of_int_add add: algebra_simps)
    then show ?thesis
      using 1 True by (subst (asm) (2) chunks5.simps) (auto simp: nat_le_iff)
  next
    case False
    then show ?thesis
      using 1 u [of "n + 63"] by (subst (asm) (2) chunks5.simps) (auto simp del: of_int_add)
  qed
qed

lemma deltas_printable:
  assumes "grid_ok (lon, lat)" "\<forall>q \<in> set qs. grid_ok q" "b \<in> set (deltas serialize5 lon lat qs)"
  shows "63 \<le> unat b \<and> unat b \<le> 126"
  using assms
proof (induction qs arbitrary: lon lat)
  case (Cons q qs)
  have "delta_ok (fst q - lon)" "delta_ok (snd q - lat)"
    using Cons.prems codec5.delta_ok_grid [of lon lat "fst q" "snd q"] by simp_all
  then have "0 \<le> zigzag (fst q - lon)" "0 \<le> zigzag (snd q - lat)" by (simp_all only: zigzag_value(2))
  moreover have "grid_ok (fst q, snd q)" using Cons.prems by simp
  ultimately show ?case
    using Cons.prems Cons.IH [of "fst q" "snd q"] chunks5_printable by (simp add: serialize5_def) blast
qed simp

text \<open>
  The web encoding \<open>encode\<close> round-trips like the storage encoding, and its text is
  printable: every byte is an ASCII character from \<^verbatim>\<open>?\<close> (63) to \<^verbatim>\<open>~\<close> (126).
\<close>

theorem shape5_roundtrip:
  assumes "\<forall>p \<in> set ps. valid_point p"
  shows "\<exists>bs. encode ENCODE_PRECISION ps = Inr bs \<and> decode DECODE_PRECISION bs = Inr (map snap ps)
    \<and> (\<forall>b \<in> set bs. 63 \<le> unat b \<and> unat b \<le> 126)"
proof -
  obtain bs where bs: "encode_loop serialize5 ENCODE_PRECISION 0 0 ps = Inr bs"
    "decode_loop (length bs) next5 DECODE_PRECISION (decoder_init bs) = Inr (map snap ps)"
    by (rule codec5.shape_roundtrip [OF assms])
  have "63 \<le> unat b \<and> unat b \<le> 126" if "b \<in> set bs" for b
  proof (rule deltas_printable [of 0 0])
    show "\<forall>q \<in> set (map (\<lambda>(x, y). (quantised x, quantised y)) ps). grid_ok q"
      using assms valid_quantise(3) by auto
  qed (use that bs(1) codec5.encode_valid [OF assms] in \<open>simp_all add: grid_ok_def\<close>)
  with bs show ?thesis unfolding encode_def decode_def by blast
qed

definition sample_shape5 :: "point list" where
  "sample_shape5 = [(- 1201 / 10, 385 / 10), (- 1209 / 10, 4007 / 100)]"

theorem shape5_roundtrip_witness:
  "\<exists>bs. encode ENCODE_PRECISION sample_shape5 = Inr bs
    \<and> decode DECODE_PRECISION bs = Inr (map snap sample_shape5) \<and> list_all (\<lambda>b. 63 \<le> unat b \<and> unat b \<le> 126) bs"
proof -
  have "\<forall>p \<in> set sample_shape5. valid_point p" by (simp add: sample_shape5_def valid_point_def)
  from shape5_roundtrip [OF this] show ?thesis by (auto simp: list_all_iff)
qed

text \<open>
  Storing a shape a second time changes nothing: encoding the points that were decoded gives
  the same bytes, in both encodings, so a tile can be read and rewritten without drift.
\<close>

theorem shape_reencode:
  assumes "\<forall>p \<in> set ps. valid_point p"
  shows "bind_result (bind_result (encode7 ENCODE_PRECISION ps) (decode7 DECODE_PRECISION))
      (encode7 ENCODE_PRECISION) = encode7 ENCODE_PRECISION ps
    \<and> bind_result (bind_result (encode ENCODE_PRECISION ps) (decode DECODE_PRECISION))
      (encode ENCODE_PRECISION) = encode ENCODE_PRECISION ps"
proof
  obtain bs where "encode_loop serialize7 ENCODE_PRECISION 0 0 ps = Inr bs"
    "decode_loop (length bs) next7 DECODE_PRECISION (decoder_init bs) = Inr (map snap ps)"
    by (rule codec7.shape_roundtrip [OF assms])
  then show "bind_result (bind_result (encode7 ENCODE_PRECISION ps) (decode7 DECODE_PRECISION))
      (encode7 ENCODE_PRECISION) = encode7 ENCODE_PRECISION ps"
    by (simp add: encode7_def decode7_def codec7.encode_snapped [OF assms])
  obtain bs where "encode_loop serialize5 ENCODE_PRECISION 0 0 ps = Inr bs"
    "decode_loop (length bs) next5 DECODE_PRECISION (decoder_init bs) = Inr (map snap ps)"
    by (rule codec5.shape_roundtrip [OF assms])
  then show "bind_result (bind_result (encode ENCODE_PRECISION ps) (decode DECODE_PRECISION))
      (encode ENCODE_PRECISION) = encode ENCODE_PRECISION ps"
    by (simp add: encode_def decode_def codec5.encode_snapped [OF assms])
qed

theorem shape_reencode_witness:
  "bind_result (bind_result (encode7 ENCODE_PRECISION sample_shape5) (decode7 DECODE_PRECISION))
      (encode7 ENCODE_PRECISION) = encode7 ENCODE_PRECISION sample_shape5
    \<and> bind_result (bind_result (encode ENCODE_PRECISION sample_shape5) (decode DECODE_PRECISION))
      (encode ENCODE_PRECISION) = encode ENCODE_PRECISION sample_shape5"
  by (rule shape_reencode) (simp add: sample_shape5_def valid_point_def)

lemma next7_loop_last:
  "next7_loop bs s r = Inr (n, rest) \<Longrightarrow> \<exists>pre b. bs = pre @ b # rest \<and> schar b AND 128 = 0"
proof (induction bs s r rule: next7_loop.induct)
  case (2 b bs shift res)
  show ?case
  proof (cases "schar b AND 128 = 0")
    case True
    then have "bs = rest" using 2(2) by (simp add: Let_def split: if_splits)
    then show ?thesis using True by (intro exI [of _ "[]"]) simp
  next
    case False
    then have "\<exists>pre c. bs = pre @ c # rest \<and> schar c AND 128 = 0"
      using 2 by (auto simp: Let_def simp del: push_bit_and split: if_splits)
    then obtain pre c where "bs = pre @ c # rest" "schar c AND 128 = 0" by blast
    then show ?thesis by (intro exI [of _ "b # pre"]) simp
  qed
qed simp

lemma next7_last: "next7 bs = Inr (n, rest) \<Longrightarrow> \<exists>pre b. bs = pre @ b # rest \<and> schar b AND 128 = 0"
  by (auto simp: next7_def bind_result_eq_Inr dest: next7_loop_last)

lemma shape_pop7_last:
  assumes "shape_pop next7 prec d = Inr (p, d')"
  shows "\<exists>pre b. bytes_left d = pre @ b # bytes_left d' \<and> schar b AND 128 = 0"
  using assms by (auto simp: shape_pop_def bind_result_eq_Inr dest!: next7_last)

lemma decode7_loop_last:
  assumes "decode_loop fuel next7 prec d = Inr ps" "bytes_left d \<noteq> []"
  shows "schar (last (bytes_left d)) AND 128 = 0"
  using assms
proof (induction fuel arbitrary: d ps)
  case 0
  then show ?case by (subst (asm) decode_loop.simps) simp
next
  case (Suc fuel)
  from Suc.prems obtain p d' qs where pop: "shape_pop next7 prec d = Inr (p, d')"
    and rest: "decode_loop fuel next7 prec d' = Inr qs"
    by (subst (asm) decode_loop.simps) (auto simp: bind_result_eq_Inr)
  obtain pre b where b: "bytes_left d = pre @ b # bytes_left d'" "schar b AND 128 = 0"
    using shape_pop7_last [OF pop] by blast
  show ?case using Suc.IH [OF rest] b by (cases "bytes_left d' = []") simp_all
qed

lemma next_no_fuel_error:
  "next7 bs \<noteq> Inl (Logic_error ''out of fuel'')" "next5 bs \<noteq> Inl (Logic_error ''out of fuel'')"
proof -
  have "next7_loop bs s r \<noteq> Inl (Logic_error ''out of fuel'')" for s r
    by (induction bs s r rule: next7_loop.induct) (auto simp: Let_def)
  then show "next7 bs \<noteq> Inl (Logic_error ''out of fuel'')"
    by (auto simp: next7_def bind_result_def split: sum.splits)
  have "next5_loop bs s r \<noteq> Inl (Logic_error ''out of fuel'')" for s r
    by (induction bs s r rule: next5_loop.induct) (auto simp: Let_def)
  then show "next5 bs \<noteq> Inl (Logic_error ''out of fuel'')"
    by (auto simp: next5_def bind_result_def split: sum.splits)
qed

text \<open>
  The decoding loop returns on every byte string: the fuel that bounds it, the number of
  bytes, is never used up, and a string whose last byte announces more bytes is never
  accepted.
\<close>

theorem shape_decode_total:
  "decode7 prec bs \<noteq> Inl (Logic_error ''out of fuel'') \<and> decode prec bs \<noteq> Inl (Logic_error ''out of fuel'')
    \<and> \<not> (bs \<noteq> [] \<and> schar (last bs) AND 128 \<noteq> 0 \<and> decode7 prec bs \<in> range Inr)"
  using codec7.decode_fuel [of "decoder_init bs" "length bs" prec] next_no_fuel_error
    codec5.decode_fuel [of "decoder_init bs" "length bs" prec]
    decode7_loop_last [of "length bs" prec "decoder_init bs"]
  by (auto simp: decode7_def decode_def decoder_init_def)

end
