(* ===== verification/Layout.thy ===== *)
theory Layout
  imports Prelude
begin

text \<open>
  Packed structures. A C++ bit-field of width \<open>w\<close> is a field of type \<open>w word\<close> (a flag is a
  \<open>bool\<close>); a structure is packed from its lowest bit upwards and stored least significant byte
  first, as GCC and Clang lay it out on x86-64 and ARM64. The locale \<open>binary_format\<close> is what the tile
  code relies on when it casts a pointer into the tile to a structure; every stored structure
  that the code writes from its fields interprets it.
\<close>

section \<open>A limit several structures share\<close>

definition kMaxAssumedSpeed :: u32 where "kMaxAssumedSpeed = 140"

section \<open>Fields of an integer\<close>

type_synonym field = "nat \<times> nat"

definition fld :: "'a::len word \<Rightarrow> field" where
  "fld w = (LENGTH('a), unat w)"

definition flag :: "bool \<Rightarrow> field" where
  "flag b = (1, of_bool b)"

definition wf_field :: "field \<Rightarrow> bool" where
  "wf_field f \<longleftrightarrow> snd f < 2 ^ fst f"

fun pack_fields :: "field list \<Rightarrow> nat" where
  "pack_fields [] = 0"
| "pack_fields (f # fs) = snd f + 2 ^ fst f * pack_fields fs"

fun unpack_fields :: "nat list \<Rightarrow> nat \<Rightarrow> nat list" where
  "unpack_fields [] n = []"
| "unpack_fields (w # ws) n = n mod 2 ^ w # unpack_fields ws (n div 2 ^ w)"

definition unflag :: "nat \<Rightarrow> bool" where
  "unflag n \<longleftrightarrow> n \<noteq> 0"

lemma wf_fld [simp]: "wf_field (fld (w :: 'a::len word))"
  by (simp add: wf_field_def fld_def unsigned_less)

lemma wf_flag [simp]: "wf_field (flag b)"
  by (simp add: wf_field_def flag_def)

lemma fst_fld [simp]: "fst (fld (w :: 'a::len word)) = LENGTH('a)" "fst (flag b) = 1"
  by (simp_all add: fld_def flag_def)

lemma snd_fld [simp]:
  "word_of_nat (snd (fld (w :: 'a::len word))) = w" "unflag (snd (flag b)) = b"
  by (simp_all add: fld_def flag_def unflag_def)

lemma unpack_pack:
  "list_all wf_field fs \<Longrightarrow> unpack_fields (map fst fs) (pack_fields fs) = map snd fs"
  by (induction fs) (simp_all add: wf_field_def)

lemma pack_less: "list_all wf_field fs \<Longrightarrow> pack_fields fs < 2 ^ sum_list (map fst fs)"
proof (induction fs)
  case (Cons f fs)
  then have "snd f < 2 ^ fst f" "pack_fields fs + 1 \<le> 2 ^ sum_list (map fst fs)"
    by (simp_all add: wf_field_def)
  then have "snd f + 2 ^ fst f * pack_fields fs < 2 ^ fst f * (pack_fields fs + 1)"
    by (simp add: algebra_simps)
  also have "\<dots> \<le> 2 ^ fst f * 2 ^ sum_list (map fst fs)"
    using \<open>pack_fields fs + 1 \<le> 2 ^ sum_list (map fst fs)\<close> by (intro mult_left_mono) simp_all
  finally show ?case by (simp add: power_add)
qed simp

section \<open>Bytes\<close>

fun le_bytes :: "nat \<Rightarrow> nat \<Rightarrow> u8 list" where
  "le_bytes 0 n = []"
| "le_bytes (Suc k) n = word_of_nat n # le_bytes k (n div 256)"

fun of_le_bytes :: "u8 list \<Rightarrow> nat" where
  "of_le_bytes [] = 0"
| "of_le_bytes (b # bs) = unat b + 256 * of_le_bytes bs"

lemma length_le_bytes [simp]: "length (le_bytes k n) = k"
  by (induction k arbitrary: n) simp_all

lemma of_le_bytes_le_bytes: "of_le_bytes (le_bytes k n) = n mod 256 ^ k"
proof (induction k arbitrary: n)
  case (Suc k)
  have "n mod (256 * 256 ^ k) = 256 * (n div 256 mod 256 ^ k) + n mod 256"
    by (rule mod_mult2_eq)
  then show ?case by (simp add: Suc unsigned_of_nat take_bit_eq_mod)
qed simp

lemma le_bytes_of_le_bytes: "le_bytes (length bs) (of_le_bytes bs) = bs"
proof (induction bs)
  case (Cons b bs)
  have "unat b < 256" using unsigned_less [of b, where ?'a = nat] by simp
  then have "(unat b + 256 * of_le_bytes bs) div 256 = of_le_bytes bs" by simp
  moreover have "(word_of_nat (unat b + 256 * of_le_bytes bs) :: u8) = word_of_nat (unat b)"
    by (simp only: word_of_nat_eq_iff) (simp add: take_bit_eq_mod)
  moreover have "(word_of_nat (unat b) :: u8) = b" by simp
  ultimately show ?case using Cons by (simp only: of_le_bytes.simps list.size le_bytes.simps add_Suc_right add_0_right)
qed simp

lemma of_le_bytes_less: "of_le_bytes bs < 256 ^ length bs"
  using of_le_bytes_le_bytes [of "length bs" "of_le_bytes bs"]
  by (metis le_bytes_of_le_bytes mod_less_divisor zero_less_power zero_less_numeral)

text \<open>Reading \<open>n\<close> bytes of memory; reading past its end is undefined behaviour.\<close>

definition take_bytes :: "nat \<Rightarrow> u8 list \<Rightarrow> (u8 list \<times> u8 list) result" where
  "take_bytes n bs = (if length bs < n then Inl Undefined else Inr (take n bs, drop n bs))"

lemma take_bytes_append [simp]: "n = length xs \<Longrightarrow> take_bytes n (xs @ ys) = Inr (xs, ys)"
  by (simp add: take_bytes_def)

section \<open>Structures in memory\<close>

fun read_array :: "nat \<Rightarrow> (u8 list \<Rightarrow> 'a) \<Rightarrow> nat \<Rightarrow> u8 list \<Rightarrow> ('a list \<times> u8 list) result" where
  "read_array sz rd 0 bs = Inr ([], bs)"
| "read_array sz rd (Suc n) bs =
     bind_result (take_bytes sz bs) (\<lambda>(x, rest).
     bind_result (read_array sz rd n rest) (\<lambda>(xs, rest'). Inr (rd x # xs, rest')))"

locale binary_format =
  fixes wr :: "'a \<Rightarrow> u8 list" and rd :: "u8 list \<Rightarrow> 'a" and sz :: nat
  assumes read_write [simp]: "rd (wr x) = x" and length_write [simp]: "length (wr x) = sz"
begin

lemma read_one: "bind_result (take_bytes sz (wr x @ rest)) (\<lambda>(b, r). Inr (rd b, r)) = Inr (x, rest)"
  by simp

lemma read_array_write: "read_array sz rd (length xs) (concat (map wr xs) @ rest) = Inr (xs, rest)"
  by (induction xs) simp_all

lemma length_concat [simp]: "length (concat (map wr xs)) = length xs * sz"
  by (induction xs) simp_all

lemma write_inj: "wr x = wr y \<longleftrightarrow> x = y"
  using read_write by metis

end

definition write_layout :: "nat \<Rightarrow> field list \<Rightarrow> u8 list" where
  "write_layout k fs = le_bytes k (pack_fields fs)"

definition read_layout :: "nat list \<Rightarrow> u8 list \<Rightarrow> nat list" where
  "read_layout ws bs = unpack_fields ws (of_le_bytes bs)"

text \<open>The layout theorem: what a structure of full width was packed from is read back.\<close>

lemma read_write_layout:
  assumes "list_all wf_field fs" "ws = map fst fs" "sum_list (map fst fs) = 8 * k"
  shows "read_layout ws (write_layout k fs) = map snd fs"
proof -
  have "pack_fields fs < 256 ^ k" using pack_less [OF assms(1)] by (simp add: assms(3) power_mult)
  then show ?thesis
    using assms by (simp add: read_layout_def write_layout_def of_le_bytes_le_bytes unpack_pack)
qed

lemma length_write_layout [simp]: "length (write_layout k fs) = k"
  by (simp add: write_layout_def)

lemma read_layout_zero [simp]: "read_layout ws (replicate k 0) = replicate (length ws) 0"
proof -
  have "of_le_bytes (replicate k 0) = 0" by (induction k) simp_all
  moreover have "unpack_fields ws 0 = replicate (length ws) 0" by (induction ws) simp_all
  ultimately show ?thesis by (simp add: read_layout_def)
qed

end
