(* ===== verification/Edge_Info.thy ===== *)
theory Edge_Info
  imports Varint Layout
begin

text \<open>
  The edge info records of a tile: \<^verbatim>\<open>src/mjolnir/edgeinfobuilder.cc\<close> (building and writing
  them), \<^verbatim>\<open>src/baldr/edgeinfo.cc\<close> and \<^verbatim>\<open>valhalla/baldr/edgeinfo.h\<close> (reading them), and the
  encoding of the level tag in \<^verbatim>\<open>src/mjolnir/osmway.cc\<close>. Memory is a list of bytes; reading past
  its end is \<open>Undefined\<close>.
\<close>

section \<open>Constants and stored structures\<close>

definition kMaxNamesPerEdge :: nat where "kMaxNamesPerEdge = 15"
definition kMaxEncodedShapeSize :: nat where "kMaxEncodedShapeSize = 65535"
definition kMaxGeoJsonLayers :: nat where "kMaxGeoJsonLayers = 4"
definition kEnvironmentPayloadSize :: nat where "kEnvironmentPayloadSize = 1 + kMaxGeoJsonLayers"
definition kMaxTreeCanopy :: u8 where "kMaxTreeCanopy = 127"
definition kMaxStoredElevation :: u32 where "kMaxStoredElevation = 4095"
definition kElevationBinSize :: rat where "kElevationBinSize = 2"
definition kMinElevation :: rat where "kMinElevation = - 500"
definition kUnlimitedSpeedLimit :: u32 where "kUnlimitedSpeedLimit = 255"
definition kLevelRangeSeparator :: rat where "kLevelRangeSeparator = 1048575"

datatype tagged_value =
    kLayer | kLinguistic | kBssInfo | kLevel | kLevelRef | kLandmark | kConditionalSpeedLimits
  | kLevels | kEnvironment | kTunnel | kBridge

fun tag_byte :: "tagged_value \<Rightarrow> u8" where
  "tag_byte kLayer = 1"
| "tag_byte kLinguistic = 2"
| "tag_byte kBssInfo = 3"
| "tag_byte kLevel = 4"
| "tag_byte kLevelRef = 5"
| "tag_byte kLandmark = 6"
| "tag_byte kConditionalSpeedLimits = 7"
| "tag_byte kLevels = 8"
| "tag_byte kEnvironment = 9"
| "tag_byte kTunnel = 49"
| "tag_byte kBridge = 50"

definition all_tags :: "tagged_value list" where
  "all_tags = [kLayer, kLinguistic, kBssInfo, kLevel, kLevelRef, kLandmark, kConditionalSpeedLimits,
     kLevels, kEnvironment, kTunnel, kBridge]"

text \<open>The cast of a byte to the enumeration; a byte with no enumerator is \<open>None\<close>.\<close>

definition tag_of_byte :: "u8 \<Rightarrow> tagged_value option" where
  "tag_of_byte b = find (\<lambda>t. tag_byte t = b) all_tags"

lemma tag_of_tag_byte [simp]: "tag_of_byte (tag_byte t) = Some t"
  by (cases t) (simp_all add: tag_of_byte_def all_tags_def)

record name_info =
  name_offset_f :: "24 word"
  additional_fields_f :: "4 word"
  is_route_num_f :: bool
  tagged_f :: bool
  spare_f :: "2 word"

record edge_info_inner =
  wayid_f :: u32
  mean_elevation_f :: "12 word"
  bike_network_f :: "4 word"
  speed_limit_f :: "8 word"
  extended_wayid0_f :: "8 word"
  name_count_f :: "4 word"
  encoded_shape_size_f :: "16 word"
  extended_wayid1_f :: "8 word"
  extended_wayid_size_f :: "2 word"
  has_elevation_f :: bool
  spare0_f :: "1 word"

definition write_name_info :: "name_info \<Rightarrow> u8 list" where
  "write_name_info ni = write_layout 4 [fld (name_offset_f ni), fld (additional_fields_f ni),
     flag (is_route_num_f ni), flag (tagged_f ni), fld (spare_f ni)]"

definition read_name_info :: "u8 list \<Rightarrow> name_info" where
  "read_name_info bs = (let v = read_layout [24, 4, 1, 1, 2] bs in
     \<lparr>name_offset_f = word_of_nat (v ! 0), additional_fields_f = word_of_nat (v ! 1),
      is_route_num_f = unflag (v ! 2), tagged_f = unflag (v ! 3), spare_f = word_of_nat (v ! 4)\<rparr>)"

definition write_edge_info_inner :: "edge_info_inner \<Rightarrow> u8 list" where
  "write_edge_info_inner ei = write_layout 12 [fld (wayid_f ei),
     fld (mean_elevation_f ei), fld (bike_network_f ei), fld (speed_limit_f ei), fld (extended_wayid0_f ei),
     fld (name_count_f ei), fld (encoded_shape_size_f ei), fld (extended_wayid1_f ei),
     fld (extended_wayid_size_f ei), flag (has_elevation_f ei), fld (spare0_f ei)]"

definition read_edge_info_inner :: "u8 list \<Rightarrow> edge_info_inner" where
  "read_edge_info_inner bs = (let v = read_layout [32, 12, 4, 8, 8, 4, 16, 8, 2, 1, 1] bs in
     \<lparr>wayid_f = word_of_nat (v ! 0), mean_elevation_f = word_of_nat (v ! 1),
      bike_network_f = word_of_nat (v ! 2), speed_limit_f = word_of_nat (v ! 3),
      extended_wayid0_f = word_of_nat (v ! 4), name_count_f = word_of_nat (v ! 5),
      encoded_shape_size_f = word_of_nat (v ! 6), extended_wayid1_f = word_of_nat (v ! 7),
      extended_wayid_size_f = word_of_nat (v ! 8), has_elevation_f = unflag (v ! 9),
      spare0_f = word_of_nat (v ! 10)\<rparr>)"

interpretation name_info_format: binary_format write_name_info read_name_info 4
proof
  fix ni :: name_info
  show "length (write_name_info ni) = 4" by (simp add: write_name_info_def)
  show "read_name_info (write_name_info ni) = ni"
    unfolding read_name_info_def write_name_info_def
    by (subst read_write_layout) (simp_all add: Let_def)
qed

interpretation edge_info_inner_format: binary_format write_edge_info_inner read_edge_info_inner 12
proof
  fix ei :: edge_info_inner
  show "length (write_edge_info_inner ei) = 12" by (simp add: write_edge_info_inner_def)
  show "read_edge_info_inner (write_edge_info_inner ei) = ei"
    unfolding read_edge_info_inner_def write_edge_info_inner_def
    by (subst read_write_layout) (simp_all add: Let_def)
qed

section \<open>The builder\<close>

text \<open>\<^verbatim>\<open>EdgeInfoBuilder\<close>; an assignment to a bit-field keeps the low bits (\<open>ucast\<close>).\<close>

record edge_info_builder =
  b_ei :: edge_info_inner
  b_extended_wayid2 :: u8
  b_extended_wayid3 :: u8
  b_name_info_list :: "name_info list"
  b_encoded_shape :: "u8 list"
  b_encoded_elevation :: "u8 list"

definition edge_info_inner_zero :: edge_info_inner where
  "edge_info_inner_zero =
     \<lparr>wayid_f = 0, mean_elevation_f = 0, bike_network_f = 0, speed_limit_f = 0, extended_wayid0_f = 0,
      name_count_f = 0, encoded_shape_size_f = 0, extended_wayid1_f = 0, extended_wayid_size_f = 0,
      has_elevation_f = False, spare0_f = 0\<rparr>"

text \<open>
  A fresh builder: \<open>ei_f\<close> is zero initialised, the two way id bytes are not (arguments here).
\<close>

definition new_builder :: "u8 \<Rightarrow> u8 \<Rightarrow> edge_info_builder" where
  "new_builder junk2 junk3 =
     \<lparr>b_ei = edge_info_inner_zero, b_extended_wayid2 = junk2, b_extended_wayid3 = junk3,
      b_name_info_list = [], b_encoded_shape = [], b_encoded_elevation = []\<rparr>"

definition set_wayid :: "u64 \<Rightarrow> edge_info_builder \<Rightarrow> edge_info_builder" where
  "set_wayid wayid eb =
     (let ext2 = ucast (drop_bit 48 wayid AND 0xFF);
          ext3 = ucast (drop_bit 56 wayid AND 0xFF)
      in eb\<lparr>b_ei := (b_ei eb)\<lparr>wayid_f := ucast (wayid AND 0xFFFFFFFF),
              extended_wayid0_f := ucast (drop_bit 32 wayid AND 0xFF),
              extended_wayid1_f := ucast (drop_bit 40 wayid AND 0xFF),
              extended_wayid_size_f := (if 0 < ext3 then 2 else if 0 < ext2 then 1 else 0)\<rparr>,
           b_extended_wayid2 := ext2, b_extended_wayid3 := ext3\<rparr>)"

definition set_mean_elevation :: "rat \<Rightarrow> edge_info_builder \<Rightarrow> edge_info_builder" where
  "set_mean_elevation mean_elev eb =
     (if mean_elev \<le> kMinElevation then eb\<lparr>b_ei := (b_ei eb)\<lparr>mean_elevation_f := 0\<rparr>\<rparr>
      else let elev = word_of_int (c_trunc (f32 (f32 (mean_elev - kMinElevation) / kElevationBinSize))) :: u32
           in eb\<lparr>b_ei := (b_ei eb)\<lparr>mean_elevation_f :=
                ucast (if kMaxStoredElevation < elev then kMaxStoredElevation else elev)\<rparr>\<rparr>)"

definition set_bike_network :: "u32 \<Rightarrow> edge_info_builder \<Rightarrow> edge_info_builder" where
  "set_bike_network m eb = eb\<lparr>b_ei := (b_ei eb)\<lparr>bike_network_f := ucast m\<rparr>\<rparr>"

definition set_speed_limit :: "u32 \<Rightarrow> edge_info_builder \<Rightarrow> edge_info_builder" where
  "set_speed_limit s eb =
     (if s = kUnlimitedSpeedLimit then eb\<lparr>b_ei := (b_ei eb)\<lparr>speed_limit_f := ucast kUnlimitedSpeedLimit\<rparr>\<rparr>
      else if kMaxAssumedSpeed < s then eb\<lparr>b_ei := (b_ei eb)\<lparr>speed_limit_f := ucast kMaxAssumedSpeed\<rparr>\<rparr>
      else eb\<lparr>b_ei := (b_ei eb)\<lparr>speed_limit_f := ucast s\<rparr>\<rparr>)"

definition set_has_elevation :: "bool \<Rightarrow> edge_info_builder \<Rightarrow> edge_info_builder" where
  "set_has_elevation e eb = eb\<lparr>b_ei := (b_ei eb)\<lparr>has_elevation_f := e\<rparr>\<rparr>"

definition set_name_info_list :: "name_info list \<Rightarrow> edge_info_builder \<Rightarrow> edge_info_builder" where
  "set_name_info_list nis eb =
     (if kMaxNamesPerEdge < length nis then eb else eb\<lparr>b_name_info_list := nis\<rparr>)"

definition AddNameInfo :: "name_info \<Rightarrow> edge_info_builder \<Rightarrow> edge_info_builder" where
  "AddNameInfo ni eb =
     (if length (b_name_info_list eb) = kMaxNamesPerEdge then eb
      else eb\<lparr>b_name_info_list := b_name_info_list eb @ [ni]\<rparr>)"

definition set_shape :: "point list \<Rightarrow> edge_info_builder \<Rightarrow> edge_info_builder result" where
  "set_shape ps eb =
     bind_result (encode7 ENCODE_PRECISION ps) (\<lambda>bs. Inr (eb\<lparr>b_encoded_shape := bs\<rparr>))"

definition set_encoded_shape :: "u8 list \<Rightarrow> edge_info_builder \<Rightarrow> edge_info_builder" where
  "set_encoded_shape bs eb = eb\<lparr>b_encoded_shape := b_encoded_shape eb @ bs\<rparr>"

definition set_encoded_elevation :: "u8 list \<Rightarrow> edge_info_builder \<Rightarrow> edge_info_builder" where
  "set_encoded_elevation bs eb = (if bs \<noteq> [] then eb\<lparr>b_encoded_elevation := bs\<rparr> else eb)"

definition name_info_count :: "edge_info_builder \<Rightarrow> nat" where
  "name_info_count eb = length (b_name_info_list eb)"

definition has_name_info :: "u32 \<Rightarrow> edge_info_builder \<Rightarrow> bool" where
  "has_name_info offset eb \<longleftrightarrow> (\<exists>ni \<in> set (b_name_info_list eb). ucast (name_offset_f ni) = offset)"

definition BaseSizeOf :: "edge_info_builder \<Rightarrow> nat" where
  "BaseSizeOf eb = 12 + length (b_name_info_list eb) * 4 + length (b_encoded_shape eb)
     + unat (extended_wayid_size_f (b_ei eb)) + length (b_encoded_elevation eb)"

definition SizeOf :: "edge_info_builder \<Rightarrow> nat" where
  "SizeOf eb = (let size = BaseSizeOf eb; n = size mod 4 in if n \<noteq> 0 then size + (4 - n) else size)"

text \<open>\<^verbatim>\<open>operator<<\<close>: the bytes a builder writes.\<close>

definition write_edge_info :: "edge_info_builder \<Rightarrow> u8 list" where
  "write_edge_info eb =
     (let name_count = (if kMaxNamesPerEdge < length (b_name_info_list eb) then kMaxNamesPerEdge
                        else length (b_name_info_list eb));
          shape_size = (if kMaxEncodedShapeSize < length (b_encoded_shape eb) then kMaxEncodedShapeSize
                        else length (b_encoded_shape eb));
          ei = (b_ei eb)\<lparr>name_count_f := word_of_nat name_count,
                 encoded_shape_size_f := word_of_nat shape_size,
                 has_elevation_f := (b_encoded_elevation eb \<noteq> [])\<rparr>;
          padding = BaseSizeOf eb mod 4
      in write_edge_info_inner ei
         @ concat (map write_name_info (take name_count (b_name_info_list eb)))
         @ b_encoded_shape eb
         @ (if 0 < extended_wayid_size_f ei then [b_extended_wayid2 eb] else [])
         @ (if 1 < extended_wayid_size_f ei then [b_extended_wayid3 eb] else [])
         @ b_encoded_elevation eb
         @ replicate (if 0 < padding then 4 - padding else 0) 0)"

section \<open>The reader\<close>

text \<open>
  \<^verbatim>\<open>EdgeInfo\<close>: what its constructor sets up from the memory at \<^verbatim>\<open>ptr\<close>. \<open>encoded_elevation_f\<close> is a
  pointer, here the memory from it on; \<open>names_list_f\<close> is the text list of the tile.
\<close>

record edge_info =
  ei_f :: edge_info_inner
  name_info_list_f :: "name_info list"
  encoded_shape_f :: "u8 list"
  extended_wayid2_f :: u8
  extended_wayid3_f :: u8
  encoded_elevation_f :: "u8 list"
  names_list_f :: "u8 list"

definition read_edge_info :: "u8 list \<Rightarrow> u8 list \<Rightarrow> edge_info result" where
  "read_edge_info ptr names_list =
     bind_result (take_bytes 12 ptr) (\<lambda>(hd, p1).
     let ei = read_edge_info_inner hd in
     bind_result (read_array 4 read_name_info (unat (name_count_f ei)) p1) (\<lambda>(nis, p2).
     bind_result (take_bytes (unat (encoded_shape_size_f ei)) p2) (\<lambda>(shape, p3).
     bind_result (if 0 < extended_wayid_size_f ei
       then bind_result (take_bytes 1 p3) (\<lambda>(b, r). Inr (b ! 0, r)) else Inr (0, p3)) (\<lambda>(ext2, p4).
     bind_result (if 1 < extended_wayid_size_f ei
       then bind_result (take_bytes 1 p4) (\<lambda>(b, r). Inr (b ! 0, r)) else Inr (0, p4)) (\<lambda>(ext3, p5).
     Inr \<lparr>ei_f = ei, name_info_list_f = nis, encoded_shape_f = shape, extended_wayid2_f = ext2,
          extended_wayid3_f = ext3, encoded_elevation_f = p5, names_list_f = names_list\<rparr>)))))"

definition wayid :: "edge_info \<Rightarrow> u64" where
  "wayid e = push_bit 56 (ucast (extended_wayid3_f e)) OR push_bit 48 (ucast (extended_wayid2_f e))
     OR push_bit 40 (ucast (extended_wayid1_f (ei_f e))) OR push_bit 32 (ucast (extended_wayid0_f (ei_f e)))
     OR ucast (wayid_f (ei_f e))"

definition mean_elevation :: "edge_info \<Rightarrow> rat" where
  "mean_elevation e = f32 (kMinElevation + f32 (of_nat (unat (mean_elevation_f (ei_f e))) * kElevationBinSize))"

definition bike_network :: "edge_info \<Rightarrow> u32" where
  "bike_network e = ucast (bike_network_f (ei_f e))"

definition speed_limit :: "edge_info \<Rightarrow> u32" where
  "speed_limit e = ucast (speed_limit_f (ei_f e))"

definition name_count :: "edge_info \<Rightarrow> nat" where
  "name_count e = unat (name_count_f (ei_f e))"

definition GetNameInfo :: "edge_info \<Rightarrow> u8 \<Rightarrow> name_info result" where
  "GetNameInfo e index =
     (if index < ucast (name_count_f (ei_f e)) then Inr (name_info_list_f e ! unat index)
      else Inl (Runtime_error ''StreetNameOffset index was out of bounds''))"

definition shape :: "edge_info \<Rightarrow> point list result" where
  "shape e = decode7 DECODE_PRECISION (encoded_shape_f e)"

section \<open>What was written is read back\<close>

definition builder_ok :: "edge_info_builder \<Rightarrow> bool" where
  "builder_ok eb \<longleftrightarrow> length (b_name_info_list eb) \<le> kMaxNamesPerEdge
     \<and> length (b_encoded_shape eb) \<le> kMaxEncodedShapeSize \<and> unat (extended_wayid_size_f (b_ei eb)) \<le> 2"

lemma le_bytes_0 [simp]: "le_bytes k 0 = replicate k 0"
  by (induction k) simp_all

lemma ext_size_cases:
  assumes "unat (s :: 2 word) \<le> 2"
  obtains "s = 0" | "s = 1" | "s = 2"
proof -
  have "unat s = 0 \<or> unat s = 1 \<or> unat s = 2" using assms by linarith
  then have "s = 0 \<or> s = 1 \<or> s = 2" by (auto simp: word_unat_eq_iff)
  then show ?thesis using that by blast
qed

lemma read_array_names:
  "read_array 4 read_name_info (length nis) (concat (map write_name_info nis) @ rest) = Inr (nis, rest)"
  by (rule name_info_format.read_array_write)

definition written_inner :: "edge_info_builder \<Rightarrow> edge_info_inner" where
  "written_inner eb = (b_ei eb)\<lparr>name_count_f := word_of_nat (length (b_name_info_list eb)),
     encoded_shape_size_f := word_of_nat (length (b_encoded_shape eb)),
     has_elevation_f := (b_encoded_elevation eb \<noteq> [])\<rparr>"

lemma write_edge_info_ok:
  assumes "builder_ok eb"
  shows "write_edge_info eb = write_edge_info_inner (written_inner eb)
     @ concat (map write_name_info (b_name_info_list eb)) @ b_encoded_shape eb
     @ (if 0 < extended_wayid_size_f (b_ei eb) then [b_extended_wayid2 eb] else [])
     @ (if 1 < extended_wayid_size_f (b_ei eb) then [b_extended_wayid3 eb] else [])
     @ b_encoded_elevation eb
     @ replicate (if 0 < BaseSizeOf eb mod 4 then 4 - BaseSizeOf eb mod 4 else 0) 0"
  using assms by (simp add: write_edge_info_def written_inner_def Let_def builder_ok_def)

lemma edge_info_read_write:
  assumes "builder_ok eb"
  shows "\<exists>tl. read_edge_info (write_edge_info eb @ rest) names = Inr
    \<lparr>ei_f = written_inner eb, name_info_list_f = b_name_info_list eb, encoded_shape_f = b_encoded_shape eb,
     extended_wayid2_f = (if 0 < extended_wayid_size_f (b_ei eb) then b_extended_wayid2 eb else 0),
     extended_wayid3_f = (if 1 < extended_wayid_size_f (b_ei eb) then b_extended_wayid3 eb else 0),
     encoded_elevation_f = b_encoded_elevation eb @ tl, names_list_f = names\<rparr>"
proof -
  let ?s = "extended_wayid_size_f (b_ei eb)"
  have n: "unat (word_of_nat (length (b_name_info_list eb)) :: 4 word) = length (b_name_info_list eb)"
    using assms by (intro word_of_nat_div) (simp add: builder_ok_def kMaxNamesPerEdge_def)
  have z: "unat (word_of_nat (length (b_encoded_shape eb)) :: 16 word) = length (b_encoded_shape eb)"
    using assms by (intro word_of_nat_div) (simp add: builder_ok_def kMaxEncodedShapeSize_def)
  have "unat ?s \<le> 2" using assms by (simp add: builder_ok_def)
  then show ?thesis
    unfolding write_edge_info_ok [OF assms] read_edge_info_def
    by (cases rule: ext_size_cases)
      (simp_all add: Let_def written_inner_def n z read_array_names take_bytes_def)
qed

lemma u64_byte: "(ucast ((w :: u64) AND 0xFF) :: u8) = ucast w"
proof -
  have m: "(0xFF :: u64) = mask 8" by (simp add: mask_eq_exp_minus_1)
  show ?thesis unfolding m by (rule bit_word_eqI) (auto simp: bit_simps)
qed

lemma u64_low32: "(ucast ((w :: u64) AND 0xFFFFFFFF) :: u32) = ucast w"
proof -
  have m: "(0xFFFFFFFF :: u64) = mask 32" by (simp add: mask_eq_exp_minus_1)
  show ?thesis unfolding m by (rule bit_word_eqI) (auto simp: bit_simps)
qed

lemma wayid_bytes:
  fixes w :: u64
  shows "push_bit 56 (ucast (ucast (drop_bit 56 w) :: u8)) OR push_bit 48 (ucast (ucast (drop_bit 48 w) :: u8))
    OR push_bit 40 (ucast (ucast (drop_bit 40 w) :: u8)) OR push_bit 32 (ucast (ucast (drop_bit 32 w) :: u8))
    OR ucast (ucast w :: u32) = w" (is "?l = w")
proof (rule bit_word_eqI)
  fix n assume n: "n < LENGTH(64)"
  consider "n < 32" | "32 \<le> n" "n < 40" | "40 \<le> n" "n < 48" | "48 \<le> n" "n < 56" | "56 \<le> n" using n by linarith
  then show "bit ?l n \<longleftrightarrow> bit w n"
    using n by cases (auto simp: bit_simps)
qed

lemma word_pos_iff: "0 < (x :: 'a::len word) \<longleftrightarrow> x \<noteq> 0"
  by (simp add: word_neq_0_conv)

text \<open>
  C23: An edge info record read from the bytes its builder wrote has everything the builder was
  given: the name list, the encoded shape, the bike network, the speed limit, the mean elevation,
  the elevation bytes and all 64 bits of the way id, whose top two bytes are only stored when
  needed; the bytes that follow the record in the tile do not matter.
\<close>

theorem edge_info_roundtrip:
  assumes "length (b_name_info_list eb) \<le> 15" "length (b_encoded_shape eb) \<le> 65535"
  shows "\<exists>e tl. read_edge_info (write_edge_info (set_wayid w eb) @ rest) names = Inr e
    \<and> wayid e = w \<and> name_info_list_f e = b_name_info_list eb \<and> name_count e = length (b_name_info_list eb)
    \<and> encoded_shape_f e = b_encoded_shape eb \<and> encoded_elevation_f e = b_encoded_elevation eb @ tl
    \<and> bike_network e = ucast (bike_network_f (b_ei eb)) \<and> speed_limit e = ucast (speed_limit_f (b_ei eb))
    \<and> mean_elevation_f (ei_f e) = mean_elevation_f (b_ei eb)
    \<and> has_elevation_f (ei_f e) = (b_encoded_elevation eb \<noteq> [])"
proof -
  let ?eb = "set_wayid w eb"
  have ok: "builder_ok ?eb"
    using assms by (simp add: builder_ok_def set_wayid_def kMaxNamesPerEdge_def kMaxEncodedShapeSize_def Let_def)
  have n: "unat (word_of_nat (length (b_name_info_list eb)) :: 4 word) = length (b_name_info_list eb)"
    using assms by (intro word_of_nat_div) simp
  let ?s = "extended_wayid_size_f (b_ei ?eb)"
  obtain e tl where e: "read_edge_info (write_edge_info ?eb @ rest) names = Inr e"
    and fields: "ei_f e = written_inner ?eb" "name_info_list_f e = b_name_info_list eb"
      "encoded_shape_f e = b_encoded_shape eb" "encoded_elevation_f e = b_encoded_elevation eb @ tl"
      "extended_wayid2_f e = (if 0 < ?s then b_extended_wayid2 ?eb else 0)"
      "extended_wayid3_f e = (if 1 < ?s then b_extended_wayid3 ?eb else 0)"
    using edge_info_read_write [OF ok, of rest names] by (auto simp: set_wayid_def Let_def)
  have x2: "extended_wayid2_f e = ucast (drop_bit 48 w)"
    by (simp add: fields set_wayid_def Let_def u64_byte word_pos_iff)
  have x3: "extended_wayid3_f e = ucast (drop_bit 56 w)"
    by (simp add: fields set_wayid_def Let_def u64_byte word_pos_iff)
  have "wayid e = w"
    unfolding wayid_def x2 x3
    by (simp add: fields written_inner_def set_wayid_def Let_def u64_byte u64_low32 wayid_bytes)
  with e fields n show ?thesis
    by (auto simp: name_count_def bike_network_def speed_limit_def written_inner_def set_wayid_def Let_def)
qed

theorem edge_info_roundtrip_witness:
  "\<exists>e tl. read_edge_info (write_edge_info (set_wayid 0x0102030405060708 (AddNameInfo
      \<lparr>name_offset_f = 7, additional_fields_f = 0, is_route_num_f = True, tagged_f = False, spare_f = 0\<rparr>
      (new_builder 1 2))) @ [9]) [] = Inr e
    \<and> wayid e = 0x0102030405060708
    \<and> name_info_list_f e = b_name_info_list (AddNameInfo
      \<lparr>name_offset_f = 7, additional_fields_f = 0, is_route_num_f = True, tagged_f = False, spare_f = 0\<rparr>
      (new_builder 1 2))"
  using edge_info_roundtrip [of "AddNameInfo
      \<lparr>name_offset_f = 7, additional_fields_f = 0, is_route_num_f = True, tagged_f = False, spare_f = 0\<rparr>
      (new_builder 1 2)" "0x0102030405060708" "[9]" "[]"]
  by (auto simp: AddNameInfo_def new_builder_def kMaxNamesPerEdge_def)

lemma builder_ok_ops:
  "builder_ok (new_builder j2 j3)"
  "builder_ok eb \<Longrightarrow> builder_ok (set_wayid w eb)"
  "builder_ok eb \<Longrightarrow> builder_ok (set_mean_elevation h eb)"
  "builder_ok eb \<Longrightarrow> builder_ok (set_bike_network m eb)"
  "builder_ok eb \<Longrightarrow> builder_ok (set_speed_limit s eb)"
  "builder_ok eb \<Longrightarrow> builder_ok (set_has_elevation b eb)"
  "builder_ok eb \<Longrightarrow> builder_ok (set_name_info_list nis eb)"
  "builder_ok eb \<Longrightarrow> builder_ok (AddNameInfo ni eb)"
  "builder_ok eb \<Longrightarrow> builder_ok (set_encoded_elevation bs eb)"
  by (auto simp: builder_ok_def new_builder_def edge_info_inner_zero_def set_wayid_def set_mean_elevation_def
    set_bike_network_def set_speed_limit_def set_has_elevation_def set_name_info_list_def AddNameInfo_def
    set_encoded_elevation_def Let_def)

lemma SizeOf_value: "SizeOf eb = BaseSizeOf eb + (if 0 < BaseSizeOf eb mod 4 then 4 - BaseSizeOf eb mod 4 else 0)"
  by (simp add: SizeOf_def Let_def)

lemma SizeOf_aligned: "SizeOf eb mod 4 = 0"
proof -
  have "(n + (if 0 < n mod 4 then 4 - n mod 4 else 0)) mod 4 = 0" for n :: nat by presburger
  then show ?thesis by (simp only: SizeOf_value)
qed

lemma length_write_edge_info:
  assumes "builder_ok eb" shows "length (write_edge_info eb) = SizeOf eb"
proof -
  let ?s = "extended_wayid_size_f (b_ei eb)"
  have "unat ?s \<le> 2" using assms by (simp add: builder_ok_def)
  then have e: "(if 0 < ?s then 1 else 0) + (if 1 < ?s then 1 else 0) = unat ?s"
    by (cases rule: ext_size_cases) simp_all
  have b: "BaseSizeOf eb = 12 + length (b_name_info_list eb) * 4 + length (b_encoded_shape eb)
     + ((if 0 < ?s then 1 else 0) + (if 1 < ?s then 1 else 0)) + length (b_encoded_elevation eb)"
    by (simp only: BaseSizeOf_def e)
  have "length (write_edge_info eb)
      = BaseSizeOf eb + (if 0 < BaseSizeOf eb mod 4 then 4 - BaseSizeOf eb mod 4 else 0)"
    by (simp only: write_edge_info_ok [OF assms] length_append length_replicate
        name_info_format.length_concat edge_info_inner_format.length_write b) simp
  then show ?thesis by (simp only: SizeOf_value)
qed

text \<open>
  The size a builder announces is the number of bytes it writes, and it is a multiple of four,
  whatever calls built it (\<open>builder_ok\<close> holds of a fresh builder and no call breaks it as long as
  the shape stays within the limit); so the offsets the tile builder computes from \<open>SizeOf\<close> are
  the offsets in the file.
\<close>

theorem edge_info_size:
  assumes "builder_ok eb"
  shows "length (write_edge_info eb) = SizeOf eb \<and> SizeOf eb mod 4 = 0
    \<and> builder_ok (AddNameInfo ni eb) \<and> builder_ok (set_wayid w eb) \<and> builder_ok (set_name_info_list nis eb)
    \<and> SizeOf eb \<le> SizeOf (AddNameInfo ni eb) \<and> SizeOf (AddNameInfo ni eb) \<le> SizeOf eb + 4"
proof -
  have "BaseSizeOf (AddNameInfo ni eb) = BaseSizeOf eb \<or> BaseSizeOf (AddNameInfo ni eb) = BaseSizeOf eb + 4"
    by (simp add: AddNameInfo_def BaseSizeOf_def)
  then have "SizeOf (AddNameInfo ni eb) = SizeOf eb \<or> SizeOf (AddNameInfo ni eb) = SizeOf eb + 4"
    by (auto simp: SizeOf_value)
  then show ?thesis
    using assms builder_ok_ops length_write_edge_info SizeOf_aligned by auto
qed

theorem edge_info_size_witness:
  "length (write_edge_info (new_builder 0 0)) = SizeOf (new_builder 0 0)
    \<and> SizeOf (new_builder 0 0) mod 4 = 0"
  using edge_info_size [OF builder_ok_ops(1) [of 0 0]] by blast

lemma stored_elevation:
  assumes "kMinElevation < h"
  shows "unat (mean_elevation_f (b_ei (set_mean_elevation h eb)))
    = (if c_trunc (f32 (f32 (h + 500) / 2)) mod 2 ^ 32 \<le> 4095
       then nat (c_trunc (f32 (f32 (h + 500) / 2)) mod 2 ^ 32) else 4095)"
proof -
  let ?t = "c_trunc (f32 (f32 (h + 500) / 2))"
  let ?e = "word_of_int ?t :: u32"
  have u: "unat ?e = nat (?t mod 2 ^ 32)"
    by (simp add: unat_eq_nat_uint unsigned_of_int take_bit_eq_mod)
  have c: "unat (ucast x :: 12 word) = unat x" if "unat x \<le> 4095" for x :: u32
    using that by (simp add: unsigned_ucast_eq take_bit_nat_eq_self)
  have lt: "kMaxStoredElevation < ?e \<longleftrightarrow> \<not> ?t mod 2 ^ 32 \<le> 4095"
    by (simp add: kMaxStoredElevation_def word_less_nat_alt u nat_le_iff not_le flip: nat_less_eq_zless)
  show ?thesis
    using assms lt c [of ?e] c [of kMaxStoredElevation] u
    by (auto simp: set_mean_elevation_def Let_def kMinElevation_def kElevationBinSize_def
      kMaxStoredElevation_def)
qed

lemma f32_int_bounds:
  assumes "\<bar>i\<bar> \<le> 2 ^ 24"
  shows "of_int i \<le> x \<Longrightarrow> of_int i \<le> f32 x" and "x \<le> of_int i \<Longrightarrow> f32 x \<le> of_int i"
  using float32.lower [of "of_int i" x] float32.upper [of "of_int i" x] float32.exact_int [OF assms]
  by (simp_all add: float32.representable_def)

lemma elevation_bins:
  assumes "- 500 < h" "h \<le> 1000000"
  defines "k \<equiv> c_trunc (f32 (f32 (h + 500) / 2))"
  shows "0 \<le> k" and "k \<le> 500250" and "2 * of_int k \<le> h + 501" and "h + 500 \<le> 2 * of_int k + 2"
proof -
  let ?x = "h + 500" let ?z = "f32 (f32 (h + 500) / 2)"
  have x0: "0 \<le> ?z" using assms by (intro float32.nonneg) (simp add: float32.nonneg)
  then have k: "k = \<lfloor>?z\<rfloor>" by (simp add: k_def c_trunc_def)
  have "f32 ?x \<le> 1000500" using f32_int_bounds(2) [of 1000500 ?x] assms by simp
  then have "?z \<le> 500250" using f32_int_bounds(2) [of 500250 "f32 ?x / 2"] by simp
  then show k0: "0 \<le> k" and k1: "k \<le> 500250"
    using x0 k by (simp_all add: floor_le_iff)
  show "2 * of_int k \<le> h + 501"
  proof (rule ccontr)
    assume "\<not> ?thesis"
    then have "?x \<le> of_int (2 * k - 1)" by simp
    then have "f32 ?x \<le> of_int (2 * k - 1)" using k0 k1 by (intro f32_int_bounds) simp_all
    then have "f32 ?x / 2 \<le> of_int (2 * k - 1) / 2" by simp
    moreover have "f32 (of_int (2 * k - 1) / 2) = of_int (2 * k - 1) / 2"
      using fl_exact [of "2 * k - 1" 24 "- 149" "- 1"] k0 k1 by (simp add: f32_def power_int_minus)
    ultimately have "?z \<le> of_int (2 * k - 1) / 2" by (metis float32.mono)
    then have "?z < of_int k" by simp
    then show False using k by (simp add: floor_less_iff [symmetric])
  qed
  show "h + 500 \<le> 2 * of_int k + 2"
  proof (rule ccontr)
    assume "\<not> ?thesis"
    then have "of_int (2 * k + 2) \<le> ?x" by simp
    then have "of_int (2 * k + 2) \<le> f32 ?x" using k0 k1 by (intro f32_int_bounds) simp_all
    then have "of_int (k + 1) \<le> f32 ?x / 2" by simp
    then have "of_int (k + 1) \<le> ?z" using k0 k1 by (intro f32_int_bounds) simp_all
    then have "k + 1 \<le> k" unfolding k by (simp only: le_floor_iff)
    then show False by simp
  qed
qed

lemma mean_elevation_value:
  "mean_elevation e = 2 * of_nat (unat (mean_elevation_f (ei_f e))) - 500"
proof -
  have "unat (mean_elevation_f (ei_f e)) < 4096" using unsigned_less [of "mean_elevation_f (ei_f e)"] by simp
  then obtain n where u: "unat (mean_elevation_f (ei_f e)) = n" and n: "n < 4096" by blast
  have "f32 (of_int (2 * int n)) = of_int (2 * int n)"
    using n by (intro float32.exact_int) simp
  moreover have "f32 (of_int (2 * int n - 500)) = of_int (2 * int n - 500)"
    using n by (intro float32.exact_int) simp
  ultimately show ?thesis
    by (simp add: mean_elevation_def kMinElevation_def kElevationBinSize_def mult.commute u)
qed

text \<open>
  The mean elevation survives its twelve bits: for a height between the two limits (-500 m and
  7690 m) what the reader returns is within 2 m of what was set, rounding of the single
  precision arithmetic included, and a height outside the limits is clamped to the nearer one.
\<close>

theorem mean_elevation_roundtrip:
  assumes "h \<le> 1000000" "mean_elevation_f (ei_f e) = mean_elevation_f (b_ei (set_mean_elevation h eb))"
  shows "if h \<le> - 500 then mean_elevation e = - 500
    else if h \<le> 7690 then \<bar>mean_elevation e - h\<bar> \<le> 2 else mean_elevation e = 7690"
proof (cases "h \<le> - 500")
  case True
  then show ?thesis
    using assms(2) by (simp add: mean_elevation_value set_mean_elevation_def kMinElevation_def)
next
  case False
  obtain k where k: "k = c_trunc (f32 (f32 (h + 500) / 2))" by blast
  have b: "0 \<le> k" "k \<le> 500250" "2 * of_int k \<le> h + 501" "h + 500 \<le> 2 * of_int k + 2"
    using elevation_bins [of h] False assms(1) by (simp_all add: k)
  have e: "unat (mean_elevation_f (ei_f e)) = (if k \<le> 4095 then nat k else 4095)"
    using stored_elevation [of h eb] False assms(2) b(1,2) by (simp add: kMinElevation_def k)
  show ?thesis
  proof (cases "k \<le> 4095")
    case True
    then have m: "mean_elevation e = 2 * of_int k - 500" using e b(1) by (simp add: mean_elevation_value)
    show ?thesis
    proof (cases "h \<le> 7690")
      case True
      then show ?thesis using b(3,4) False unfolding m abs_le_iff by simp
    next
      case high: False
      then have "of_int 4094 < (of_int k :: rat)" using b(4) by simp
      then have "k = 4095" using True by (simp only: of_int_less_iff)
      then show ?thesis using m high False by simp
    qed
  next
    case big: False
    then have "mean_elevation e = 7690" using e by (simp add: mean_elevation_value)
    moreover have "7690 < h"
    proof -
      have "(of_int 4096 :: rat) \<le> of_int k" using big by (subst of_int_le_iff) simp
      then show ?thesis using b(3) by simp
    qed
    ultimately show ?thesis using False by simp
  qed
qed

theorem mean_elevation_roundtrip_witness:
  "\<exists>e. mean_elevation_f (ei_f e) = mean_elevation_f (b_ei (set_mean_elevation (2469 / 2) (new_builder 0 0)))
    \<and> \<bar>mean_elevation e - 2469 / 2\<bar> \<le> 2"
proof -
  let ?e = "\<lparr>ei_f = b_ei (set_mean_elevation (2469 / 2) (new_builder 0 0)), name_info_list_f = [],
    encoded_shape_f = [], extended_wayid2_f = 0, extended_wayid3_f = 0, encoded_elevation_f = [], names_list_f = []\<rparr>"
  have "\<bar>mean_elevation ?e - 2469 / 2\<bar> \<le> 2"
    using mean_elevation_roundtrip [of "2469 / 2" ?e "new_builder 0 0"] by simp
  then show ?thesis by (intro exI [of _ ?e]) simp
qed

end
