(* ===== verification/Edge_Tags.thy ===== *)
theory Edge_Tags
  imports Edge_Info
begin

text \<open>
  The names and tagged values of an edge: \<^verbatim>\<open>EdgeInfo::GetNames\<close>, \<^verbatim>\<open>GetTags\<close>,
  \<^verbatim>\<open>environment\<close>, \<^verbatim>\<open>layer\<close>, \<^verbatim>\<open>levels\<close> and their kin in \<^verbatim>\<open>src/baldr/edgeinfo.cc\<close>, and the
  level encoder of \<^verbatim>\<open>src/mjolnir/osmway.cc\<close>. A name is a C string in the text list of the tile;
  \<open>c_str\<close> reads up to the terminating zero and is \<open>Undefined\<close> if there is none.
\<close>

section \<open>Strings in the text list\<close>

definition c_str :: "u8 list \<Rightarrow> u8 list result" where
  "c_str mem = (let s = takeWhile (\<lambda>b. b \<noteq> 0) mem in if length s = length mem then Inl Undefined else Inr s)"

definition read_byte :: "u8 list \<Rightarrow> u8 result" where
  "read_byte mem = (case mem of [] \<Rightarrow> Inl Undefined | b # _ \<Rightarrow> Inr b)"

text \<open>\<^verbatim>\<open>std::string(ptr, n)\<close>; a negative length wraps to a huge one, which the string rejects.\<close>

definition std_string :: "u8 list \<Rightarrow> int \<Rightarrow> u8 list result" where
  "std_string mem n =
     (if n < 0 then Inl (Logic_error ''basic_string::_M_create'')
      else if int (length mem) < n then Inl Undefined else Inr (take (nat n) mem))"

fun collect :: "('a \<Rightarrow> 'b list result) \<Rightarrow> 'a list \<Rightarrow> 'b list result" where
  "collect f [] = Inr []"
| "collect f (x # xs) = bind_result (f x) (\<lambda>ys. bind_result (collect f xs) (\<lambda>zs. Inr (ys @ zs)))"

text \<open>The bytes from a name's offset on, or the exception each reader throws.\<close>

definition name_at :: "string \<Rightarrow> edge_info \<Rightarrow> name_info \<Rightarrow> u8 list result" where
  "name_at msg e ni =
     (if unat (name_offset_f ni) < length (names_list_f e) then Inr (drop (unat (name_offset_f ni)) (names_list_f e))
      else Inl (Runtime_error msg))"

section \<open>Names\<close>

definition IsNonLiguisticTagValue :: "u8 \<Rightarrow> bool" where
  "IsNonLiguisticTagValue ch \<longleftrightarrow> ch \<noteq> tag_byte kLinguistic"

definition GetNames :: "edge_info \<Rightarrow> u8 list list result" where
  "GetNames e = collect (\<lambda>ni.
     if tagged_f ni then Inr []
     else bind_result (name_at ''GetNames: offset exceeds size of text list'' e ni) (\<lambda>mem.
          bind_result (c_str mem) (\<lambda>s. Inr [s]))) (name_info_list_f e)"

definition GetNames_tagged :: "edge_info \<Rightarrow> bool \<Rightarrow> (u8 list \<times> bool) list result" where
  "GetNames_tagged e include_tagged_values = collect (\<lambda>ni.
     if tagged_f ni \<and> \<not> include_tagged_values then Inr []
     else if tagged_f ni then
       bind_result (name_at ''GetNames: offset exceeds size of text list'' e ni) (\<lambda>mem.
       bind_result (read_byte mem) (\<lambda>tag.
       if IsNonLiguisticTagValue tag then bind_result (c_str (drop 1 mem)) (\<lambda>s. Inr [(s, False)])
       else Inr []))
     else bind_result (name_at ''GetNames: offset exceeds size of text list'' e ni) (\<lambda>mem.
          bind_result (c_str mem) (\<lambda>s. Inr [(s, is_route_num_f ni)]))) (name_info_list_f e)"

definition GetNamesAndTypes :: "edge_info \<Rightarrow> bool \<Rightarrow> (u8 list \<times> bool \<times> u8) list result" where
  "GetNamesAndTypes e include_tagged_values = collect (\<lambda>ni.
     if tagged_f ni \<and> \<not> include_tagged_values then Inr []
     else if tagged_f ni then
       bind_result (name_at ''GetNamesAndTypes: offset exceeds size of text list'' e ni) (\<lambda>mem.
       bind_result (read_byte mem) (\<lambda>tag.
       if IsNonLiguisticTagValue tag then bind_result (c_str (drop 1 mem)) (\<lambda>s. Inr [(s, False, tag)])
       else Inr []))
     else bind_result (name_at ''GetNamesAndTypes: offset exceeds size of text list'' e ni) (\<lambda>mem.
          bind_result (c_str mem) (\<lambda>s. Inr [(s, is_route_num_f ni, 0)]))) (name_info_list_f e)"

definition GetTypes :: "edge_info \<Rightarrow> u16" where
  "GetTypes e = foldl (\<lambda>types i. types OR push_bit i (of_bool (is_route_num_f (name_info_list_f e ! i))))
     0 [0..<length (name_info_list_f e)]"

section \<open>Linguistic records\<close>

record linguistic_header =
  language_f :: u8
  length_f :: u8
  phonetic_alphabet_f :: "3 word"
  name_index_f :: "4 word"

definition kLinguisticHeaderSize :: nat where "kLinguisticHeaderSize = 3"

definition read_linguistic_header :: "u8 list \<Rightarrow> linguistic_header" where
  "read_linguistic_header bs = (let v = read_layout [8, 8, 3, 4, 1, 8] bs in
     \<lparr>language_f = word_of_nat (v ! 0), length_f = word_of_nat (v ! 1),
      phonetic_alphabet_f = word_of_nat (v ! 2), name_index_f = word_of_nat (v ! 3)\<rparr>)"

text \<open>The loop \<^verbatim>\<open>while (*name != 0)\<close>: four bytes are read for a header of three.\<close>

function linguistic_records :: "u8 list \<Rightarrow> (u8 list \<times> linguistic_header \<times> u8 list) list result" where
  "linguistic_records name =
     (case name of [] \<Rightarrow> Inl Undefined
      | b # _ \<Rightarrow>
        if b = 0 then Inr []
        else bind_result (take_bytes 4 name) (\<lambda>(raw, _).
             let header = read_linguistic_header raw; n = unat (length_f header) in
             bind_result (std_string (drop kLinguisticHeaderSize name) (int n)) (\<lambda>text.
             bind_result (linguistic_records (drop (n + kLinguisticHeaderSize) name)) (\<lambda>rs.
             Inr ((take kLinguisticHeaderSize raw, header, text) # rs)))))"
  by pat_completeness auto
termination
  by (relation "measure length") (simp_all add: kLinguisticHeaderSize_def split: list.splits)

declare linguistic_records.simps [simp del]

definition linguistic_of_name :: "string \<Rightarrow> edge_info \<Rightarrow> name_info \<Rightarrow> (u8 list \<times> linguistic_header \<times> u8 list) list result" where
  "linguistic_of_name msg e ni =
     (if \<not> tagged_f ni then Inr []
      else bind_result (name_at msg e ni) (\<lambda>mem.
           bind_result (read_byte mem) (\<lambda>tag.
           if tag = tag_byte kLinguistic then linguistic_records (drop 1 mem) else Inr [])))"

definition GetLinguisticTaggedValues :: "edge_info \<Rightarrow> u8 list list result" where
  "GetLinguisticTaggedValues e =
     collect (\<lambda>ni. bind_result (linguistic_of_name ''GetTaggedNames: offset exceeds size of text list'' e ni)
       (\<lambda>rs. Inr (map (\<lambda>(raw, _, text). raw @ text) rs))) (name_info_list_f e)"

text \<open>
  The linguistic map: name index to (language, alphabet, pronunciation). A later record replaces
  an earlier one for the same name only if its alphabet ranks higher, is not \<open>kNone\<close> (5), and the
  language is the same.
\<close>

definition linguistic_insert ::
  "(u8 \<rightharpoonup> u8 \<times> u8 \<times> u8 list) \<Rightarrow> linguistic_header \<times> u8 list \<Rightarrow> (u8 \<rightharpoonup> u8 \<times> u8 \<times> u8 list)" where
  "linguistic_insert m r =
     (let (header, text) = r; key = ucast (name_index_f header); alphabet = ucast (phonetic_alphabet_f header);
          v = (language_f header, alphabet, text)
      in case m key of None \<Rightarrow> m(key \<mapsto> v)
         | Some (lang0, alphabet0, text0) \<Rightarrow>
             if alphabet0 < alphabet \<and> alphabet \<noteq> 5 \<and> language_f header = lang0 then m(key \<mapsto> v) else m)"

definition GetLinguisticMap :: "edge_info \<Rightarrow> (u8 \<rightharpoonup> u8 \<times> u8 \<times> u8 list) result" where
  "GetLinguisticMap e =
     bind_result (collect (linguistic_of_name ''GetLinguisticMap: offset exceeds size of text list'' e)
       (name_info_list_f e))
     (\<lambda>rs. Inr (foldl linguistic_insert Map.empty (map snd rs)))"

section \<open>Tagged values\<close>

text \<open>
  \<^verbatim>\<open>parse_varint\<close>: the loop runs while the last byte has its top bit set, and once at least.
\<close>

fun parse_varint_loop :: "u8 list \<Rightarrow> nat \<Rightarrow> int \<Rightarrow> (int \<times> u8 list) result" where
  "parse_varint_loop [] shift res = Inl Undefined"
| "parse_varint_loop (b # bs) shift res =
     (if 32 \<le> shift then Inl Undefined
      else let byte = schar b;
               res = to_i32 (res OR push_bit shift (byte AND 0x7f))
           in if byte AND 0x80 \<noteq> 0 then parse_varint_loop bs (shift + 7) res else Inr (res, bs))"

definition parse_varint :: "u8 list \<Rightarrow> (int \<times> u8 list) result" where
  "parse_varint encoded = bind_result (parse_varint_loop encoded 0 0) (\<lambda>(res, rest).
     Inr (drop_bit 1 (if res AND 1 \<noteq> 0 then NOT res else res), rest))"

definition parse_tagged_value :: "u8 list \<Rightarrow> u8 list list result" where
  "parse_tagged_value ptr =
     bind_result (read_byte ptr) (\<lambda>b.
     case tag_of_byte b of
       None \<Rightarrow> Inr []
     | Some kLinguistic \<Rightarrow> Inr []
     | Some kLandmark \<Rightarrow>
         bind_result (c_str (drop 10 ptr)) (\<lambda>landmark_name.
         bind_result (std_string ptr (int (length landmark_name) + 10)) (\<lambda>s. Inr [s]))
     | Some kLevels \<Rightarrow>
         bind_result (parse_varint (drop 1 ptr)) (\<lambda>(size, rest).
         bind_result (std_string ptr (int (length ptr - length rest) + size)) (\<lambda>s. Inr [s]))
     | Some kConditionalSpeedLimits \<Rightarrow> bind_result (std_string ptr (1 + 8)) (\<lambda>s. Inr [s])
     | Some kEnvironment \<Rightarrow>
         bind_result (std_string ptr (1 + int kEnvironmentPayloadSize)) (\<lambda>s. Inr [s])
     | Some _ \<Rightarrow> bind_result (c_str ptr) (\<lambda>s. Inr [s]))"

definition GetTaggedValues :: "edge_info \<Rightarrow> u8 list list result" where
  "GetTaggedValues e = collect (\<lambda>ni.
     if \<not> tagged_f ni then Inr []
     else bind_result (name_at ''GetTaggedNames: offset exceeds size of text list'' e ni) (\<lambda>tagval.
          bind_result (read_byte tagval) (\<lambda>tag.
          if tag = tag_byte kLinguistic then Inr []
          else case parse_tagged_value tagval of
            Inl Invalid_argument \<Rightarrow> Inr []
          | r \<Rightarrow> r))) (name_info_list_f e)"

definition is_logic_error :: "cxx_error \<Rightarrow> bool" where
  "is_logic_error e \<longleftrightarrow> (case e of Logic_error _ \<Rightarrow> True | Invalid_argument \<Rightarrow> True | Out_of_range \<Rightarrow> True | _ \<Rightarrow> False)"

definition substr1 :: "u8 list \<Rightarrow> u8 list result" where
  "substr1 s = (if s = [] then Inl Out_of_range else Inr (drop 1 s))"

text \<open>
  \<^verbatim>\<open>GetTags\<close>: the multimap as the list of its insertions; the entries of one tag keep their
  order, which is what \<^verbatim>\<open>find\<close> and \<^verbatim>\<open>equal_range\<close> see. The cache does not change the value.
\<close>

definition tag_entries :: "u8 list \<Rightarrow> (tagged_value \<times> u8 list) list result" where
  "tag_entries tagval =
     bind_result (read_byte tagval) (\<lambda>b.
     case tag_of_byte b of
       None \<Rightarrow> Inr []
     | Some tv \<Rightarrow>
         if tv = kLinguistic then Inr []
         else case bind_result (parse_tagged_value tagval) (collect (\<lambda>c.
               bind_result (substr1 c) (\<lambda>content. Inr [(tv, content)]))) of
           Inl err \<Rightarrow> if is_logic_error err then Inr [] else Inl err
         | Inr es \<Rightarrow> Inr es)"

definition GetTags :: "edge_info \<Rightarrow> (tagged_value \<times> u8 list) list result" where
  "GetTags e = collect (\<lambda>ni.
     if \<not> tagged_f ni then Inr []
     else bind_result (name_at ''GetTags: offset exceeds size of text list'' e ni) tag_entries)
     (name_info_list_f e)"

definition find_tag :: "tagged_value \<Rightarrow> (tagged_value \<times> u8 list) list \<Rightarrow> u8 list option" where
  "find_tag t tags = map_option snd (find (\<lambda>(k, _). k = t) tags)"

definition equal_range :: "tagged_value \<Rightarrow> (tagged_value \<times> u8 list) list \<Rightarrow> u8 list list" where
  "equal_range t tags = map snd (filter (\<lambda>(k, _). k = t) tags)"

definition conditional_speed_limits :: "edge_info \<Rightarrow> u64 list result" where
  "conditional_speed_limits e = bind_result (GetTags e) (\<lambda>tags.
     collect (\<lambda>c. bind_result (take_bytes 8 c) (\<lambda>(raw, _). Inr [word_of_nat (of_le_bytes raw)]))
       (equal_range kConditionalSpeedLimits tags))"

record environment_scores =
  tree_canopy :: u8
  layer_scores :: "u8 list"

definition no_scores :: environment_scores where
  "no_scores = \<lparr>tree_canopy = 0, layer_scores = replicate kMaxGeoJsonLayers 0\<rparr>"

definition environment :: "edge_info \<Rightarrow> environment_scores result" where
  "environment e = bind_result (GetTags e) (\<lambda>tags.
     case find_tag kEnvironment tags of
       None \<Rightarrow> Inr no_scores
     | Some payload \<Rightarrow>
         if length payload < kEnvironmentPayloadSize then Inr no_scores
         else Inr \<lparr>tree_canopy = payload ! 0 - 1,
                   layer_scores = map (\<lambda>i. payload ! (1 + i) - 1) [0..<kMaxGeoJsonLayers]\<rparr>)"

definition EncodeEnvironment :: "environment_scores \<Rightarrow> u8 list" where
  "EncodeEnvironment s = (min (tree_canopy s) kMaxTreeCanopy + 1)
     # map (\<lambda>i. min (layer_scores s ! i) 254 + 1) [0..<kMaxGeoJsonLayers]"

definition layer :: "edge_info \<Rightarrow> int result" where
  "layer e = bind_result (GetTags e) (\<lambda>tags.
     case find_tag kLayer tags of
       None \<Rightarrow> Inr 0
     | Some tagval \<Rightarrow>
         if length tagval \<noteq> 1 then Inl (Runtime_error ''layer must contain 1-byte value'')
         else Inr (schar (hd tagval)))"

definition level_ref :: "edge_info \<Rightarrow> u8 list list result" where
  "level_ref e = bind_result (GetTags e) (\<lambda>tags. Inr (equal_range kLevelRef tags))"

section \<open>Levels\<close>

lemma parse_varint_loop_consumes: "parse_varint_loop bs s r = Inr (n, rest) \<Longrightarrow> length rest < length bs"
proof (induction bs s r rule: parse_varint_loop.induct)
  case (2 b bs shift res)
  then show ?case by (force simp: Let_def simp del: push_bit_and split: if_splits)
qed simp

lemma parse_varint_consumes: "parse_varint bs = Inr (n, rest) \<Longrightarrow> length rest < length bs"
  by (auto simp: parse_varint_def bind_result_eq_Inr dest: parse_varint_loop_consumes)

text \<open>
  The loop of \<^verbatim>\<open>decode_levels\<close>: \<open>at_end\<close> is how many bytes are left when \<^verbatim>\<open>ptr == end\<close>. A varint that
  runs past \<^verbatim>\<open>end\<close> is not noticed: the loop then reads on until memory ends.
\<close>

function levels_loop ::
  "nat \<Rightarrow> int \<Rightarrow> u8 list \<Rightarrow> bool \<Rightarrow> (rat \<times> rat) list \<Rightarrow> (rat \<times> rat) list result" where
  "levels_loop precision at_end mem prev decoded =
     (if int (length mem) = at_end then Inr decoded
      else bind_result (parse_varint mem) (\<lambda>(val, rest).
        if f32 (of_int val) = kLevelRangeSeparator then levels_loop precision at_end rest False decoded
        else let f = (if precision = 0 then f32 (of_int val)
                      else f32 (f32 (of_int val) / f32 (of_nat precision)))
             in if \<not> prev then levels_loop precision at_end rest True (decoded @ [(f, f)])
                else levels_loop precision at_end rest prev
                       (butlast decoded @ [(fst (last decoded), f)])))"
  by pat_completeness auto
termination
  by (relation "measure (\<lambda>(_, _, mem, _, _). length mem)") (auto dest: parse_varint_consumes)

declare levels_loop.simps [simp del]

text \<open>
  \<^verbatim>\<open>int32_t prec_power = parse_varint(ptr) > 0\<close> initialises \<open>prec_power\<close> with the comparison, so
  it is 1 for every positive exponent. The byte after the string is its terminating zero.
\<close>

definition decode_levels :: "u8 list \<Rightarrow> ((rat \<times> rat) list \<times> nat) result" where
  "decode_levels encoded =
     bind_result (parse_varint (encoded @ [0])) (\<lambda>(size, p1).
     bind_result (parse_varint p1) (\<lambda>(p, p2).
     let prec_power = (if p > 0 then 1 else 0 :: nat);
         precision = (if prec_power \<noteq> 0 then 10 ^ prec_power else 0)
     in bind_result (levels_loop precision (int (length p1) - size) p2 False [])
          (\<lambda>decoded. Inr (decoded, precision))))"

definition levels :: "edge_info \<Rightarrow> ((rat \<times> rat) list \<times> nat) result" where
  "levels e = bind_result (GetTags e) (\<lambda>tags.
     case find_tag kLevels tags of
       None \<Rightarrow> Inr ([], 0)
     | Some content \<Rightarrow>
         (case decode_levels content of
            Inl Undefined \<Rightarrow> Inl Undefined
          | Inl _ \<Rightarrow> Inl (Runtime_error ''failed to decode levels'')
          | Inr r \<Rightarrow> Inr r))"

text \<open>
  \<^verbatim>\<open>std::lower_bound\<close> on ranges in increasing order (its precondition): the first range whose
  upper end is not below the level.
\<close>

definition includes_level :: "edge_info \<Rightarrow> rat \<Rightarrow> bool result" where
  "includes_level e lvl = bind_result (GetTags e) (\<lambda>tags.
     case find_tag kLevels tags of
       None \<Rightarrow> Inr False
     | Some content \<Rightarrow> bind_result (decode_levels content) (\<lambda>(decoded, _).
         case dropWhile (\<lambda>val. snd val < lvl) decoded of
           [] \<Rightarrow> Inr False
         | lower # _ \<Rightarrow> Inr (fst lower \<le> lvl \<and> lvl \<le> snd lower)))"

text \<open>
  The encoder in \<^verbatim>\<open>osmway.cc\<close>. Its chunk loop is the same as that of the shape encoder. The level is
  a \<^verbatim>\<open>float\<close>; the product with the power of ten is a \<^verbatim>\<open>double\<close>.
\<close>

definition encode_level :: "rat \<Rightarrow> nat \<Rightarrow> u8 list" where
  "encode_level lvl precision = chunks7 (zigzag (c_trunc (f64 (lvl * 10 ^ precision))))"

fun encode_ranges :: "nat \<Rightarrow> (rat \<times> rat) list \<Rightarrow> u8 list" where
  "encode_ranges precision [] = []"
| "encode_ranges precision (r # rs) =
     encode_level (f32 (f64 (fst r * 10 ^ precision))) 0
     @ (if fst r \<noteq> snd r then encode_level (f32 (f64 (snd r * 10 ^ precision))) 0 else [])
     @ (if rs \<noteq> [] then encode_level kLevelRangeSeparator 0 else [])
     @ encode_ranges precision rs"

definition encode_levels :: "nat \<Rightarrow> (rat \<times> rat) list \<Rightarrow> u8 list" where
  "encode_levels precision values =
     (let levels_encoded = encode_ranges precision (sort_key fst values);
          precision_enc = encode_level (f32 (of_nat precision)) 0
      in tag_byte kLevels
         # encode_level (f32 (of_nat (length levels_encoded + length precision_enc))) 0
         @ precision_enc @ levels_encoded)"

section \<open>Properties\<close>

lemma collect_append:
  "collect f (xs @ ys) = bind_result (collect f xs) (\<lambda>a. bind_result (collect f ys) (\<lambda>b. Inr (a @ b)))"
  by (induction xs) (auto simp: bind_result_def split: sum.splits)

lemma collect_Inr: "(\<And>x. x \<in> set xs \<Longrightarrow> f x = Inr (g x)) \<Longrightarrow> collect f xs = Inr (concat (map g xs))"
  by (induction xs) simp_all

lemma collect_map_result:
  assumes "\<And>x. x \<in> set xs \<Longrightarrow> bind_result (f x) (\<lambda>ys. Inr (map h ys)) = g x"
  shows "bind_result (collect f xs) (\<lambda>ys. Inr (map h ys)) = collect g xs"
  using assms
proof (induction xs)
  case (Cons x xs)
  have "collect g xs = bind_result (collect f xs) (\<lambda>ys. Inr (map h ys))" using Cons by simp
  moreover have "g x = bind_result (f x) (\<lambda>ys. Inr (map h ys))" using Cons.prems by simp
  ultimately show ?case by (cases "f x"; cases "collect f xs") auto
qed simp

text \<open>
  The three readers of names agree: \<open>GetNames\<close> is the list of names of the flagged
  variant without tagged values, including the exception, and with tagged values the flagged
  variant and \<open>GetNamesAndTypes\<close> return the same texts and flags in the same order (only the
  text of their exceptions differs).
\<close>

theorem names_agree:
  "GetNames e = bind_result (GetNames_tagged e False) (\<lambda>xs. Inr (map fst xs))
   \<and> map_sum (\<lambda>_. ()) (\<lambda>xs. xs) (GetNames_tagged e b)
     = map_sum (\<lambda>_. ()) (map (\<lambda>(s, r, _). (s, r))) (GetNamesAndTypes e b)"
proof
  show "GetNames e = bind_result (GetNames_tagged e False) (\<lambda>xs. Inr (map fst xs))"
    unfolding GetNames_def GetNames_tagged_def
    by (subst collect_map_result) (auto simp: bind_result_def split: sum.splits)
  have weak: "map_sum (\<lambda>_. ()) (\<lambda>xs. xs) (collect f xs) = map_sum (\<lambda>_. ()) (map h) (collect g xs)"
    if "\<And>x. x \<in> set xs \<Longrightarrow> map_sum (\<lambda>_. ()) (\<lambda>xs. xs) (f x) = map_sum (\<lambda>_. ()) (map h) (g x)"
    for f :: "name_info \<Rightarrow> (u8 list \<times> bool) list result" and g h xs
    using that
  proof (induction xs)
    case (Cons x xs)
    then have "map_sum (\<lambda>_. ()) (\<lambda>xs. xs) (f x) = map_sum (\<lambda>_. ()) (map h) (g x)"
      "map_sum (\<lambda>_. ()) (\<lambda>xs. xs) (collect f xs) = map_sum (\<lambda>_. ()) (map h) (collect g xs)" by auto
    then show ?case by (cases "f x"; cases "g x"; cases "collect f xs"; cases "collect g xs") auto
  qed simp
  show "map_sum (\<lambda>_. ()) (\<lambda>xs. xs) (GetNames_tagged e b)
     = map_sum (\<lambda>_. ()) (map (\<lambda>(s, r, _). (s, r))) (GetNamesAndTypes e b)"
    unfolding GetNames_tagged_def GetNamesAndTypes_def
    by (rule weak) (auto simp: bind_result_def name_at_def split: sum.splits)
qed

definition clamp_scores :: "environment_scores \<Rightarrow> environment_scores" where
  "clamp_scores s = \<lparr>tree_canopy = min (tree_canopy s) 127,
     layer_scores = map (\<lambda>i. min (layer_scores s ! i) 254) [0..<4]\<rparr>"

definition is_environment_entry :: "edge_info \<Rightarrow> name_info \<Rightarrow> bool" where
  "is_environment_entry e ni \<longleftrightarrow> tagged_f ni
     \<and> tag_of_byte (names_list_f e ! unat (name_offset_f ni)) = Some kEnvironment"

lemma EncodeEnvironment_length [simp]: "length (EncodeEnvironment s) = 5"
  by (simp add: EncodeEnvironment_def kMaxGeoJsonLayers_def)

lemma min_plus_1: "(0 :: u8) < k \<Longrightarrow> k \<le> 254 \<Longrightarrow> min x k + 1 \<noteq> 0"
proof -
  assume "0 < k" "k \<le> 254"
  then have "unat (min x k) \<le> 254" by (auto simp: min_def word_le_nat_alt not_le word_less_nat_alt)
  then have "unat (min x k + 1) = unat (min x k) + 1"
    using unat_add_lem [of "min x k" 1] by simp
  then show ?thesis by force
qed

lemma EncodeEnvironment_null_free: "0 \<notin> set (EncodeEnvironment s)"
  using min_plus_1 [of 127] min_plus_1 [of 254]
  by (auto simp: EncodeEnvironment_def kMaxTreeCanopy_def word_less_nat_alt word_le_nat_alt)

lemma tag_entries_environment:
  assumes "tagval = tag_byte kEnvironment # EncodeEnvironment s @ rest"
  shows "tag_entries tagval = Inr [(kEnvironment, EncodeEnvironment s)]"
  using tag_of_tag_byte [of kEnvironment]
  by (simp add: assms tag_entries_def read_byte_def parse_tagged_value_def std_string_def substr1_def
    kEnvironmentPayloadSize_def kMaxGeoJsonLayers_def numeral_eq_Suc)

lemma tag_entries_other:
  assumes "tag_entries tagval = Inr es" "tagval \<noteq> []" "tag_of_byte (hd tagval) \<noteq> Some t"
  shows "\<forall>(k, c) \<in> set es. k \<noteq> t"
proof -
  obtain b bs where v: "tagval = b # bs" using assms(2) by (cases tagval) auto
  have r: "read_byte tagval = Inr b" by (simp add: v read_byte_def)
  have keys: "\<forall>(k, c) \<in> set ys. k = tv"
    if "collect (\<lambda>c. bind_result (substr1 c) (\<lambda>content. Inr [(tv, content)])) xs = Inr ys" for tv xs ys
    using that
    by (induction xs arbitrary: ys) (fastforce simp: bind_result_eq_Inr)+
  show ?thesis
  proof (cases "tag_of_byte b")
    case None
    then show ?thesis using assms(1) by (simp add: tag_entries_def r)
  next
    case (Some tv)
    then have "tv \<noteq> t" using assms(3) by (simp add: v)
    have "\<forall>(k, c) \<in> set es. k = tv"
      using assms(1)
      by (auto simp: tag_entries_def r Some bind_result_eq_Inr split: if_splits sum.splits dest!: keys)
    then show ?thesis using \<open>tv \<noteq> t\<close> by auto
  qed
qed

definition entry_tags :: "edge_info \<Rightarrow> name_info \<Rightarrow> (tagged_value \<times> u8 list) list result" where
  "entry_tags e ni =
     (if \<not> tagged_f ni then Inr []
      else bind_result (name_at ''GetTags: offset exceeds size of text list'' e ni) tag_entries)"

lemma GetTags_entries: "GetTags e = collect (entry_tags e) (name_info_list_f e)"
  by (simp add: GetTags_def entry_tags_def [abs_def])

lemma entry_tags_other:
  assumes "entry_tags e ni = Inr es" "\<not> is_environment_entry e ni"
  shows "\<forall>(k, c) \<in> set es. k \<noteq> kEnvironment"
proof (cases "tagged_f ni")
  case True
  let ?v = "drop (unat (name_offset_f ni)) (names_list_f e)"
  have lt: "unat (name_offset_f ni) < length (names_list_f e)" and es: "tag_entries ?v = Inr es"
    using assms(1) True by (auto simp: entry_tags_def name_at_def split: if_splits)
  have "hd ?v = names_list_f e ! unat (name_offset_f ni)" using lt by (simp add: hd_drop_conv_nth)
  then show ?thesis
    using tag_entries_other [OF es, of kEnvironment] lt assms(2) True by (simp add: is_environment_entry_def)
qed (use assms in \<open>simp add: entry_tags_def\<close>)

lemma collect_other:
  assumes "collect (entry_tags e) nis = Inr es" "\<forall>ni \<in> set nis. \<not> is_environment_entry e ni"
  shows "\<forall>(k, c) \<in> set es. k \<noteq> kEnvironment"
  using assms
proof (induction nis arbitrary: es)
  case (Cons ni nis)
  then obtain a b where a: "entry_tags e ni = Inr a" and b: "collect (entry_tags e) nis = Inr b" and es: "es = a @ b"
    by (auto simp: bind_result_eq_Inr)
  have "\<forall>(k, c) \<in> set a. k \<noteq> kEnvironment" using entry_tags_other [OF a] Cons.prems by simp
  moreover have "\<forall>(k, c) \<in> set b. k \<noteq> kEnvironment" using Cons.IH [OF b] Cons.prems by simp
  ultimately show ?case by (auto simp: es)
qed simp

lemma find_tag_first:
  assumes "\<forall>(k, c) \<in> set xs. k \<noteq> t" shows "find_tag t (xs @ (t, c) # ys) = Some c"
  using assms by (induction xs) (auto simp: find_tag_def)

text \<open>The first environment entry of the name list is the one the reader uses.\<close>

lemma environment_first:
  assumes list: "name_info_list_f e = pre @ ni # post" and ni: "tagged_f ni"
    and at: "drop (unat (name_offset_f ni)) (names_list_f e) = tag_byte kEnvironment # EncodeEnvironment s @ rest"
    and pre: "\<forall>n \<in> set pre. \<not> is_environment_entry e n" and tags: "GetTags e = Inr tags"
  shows "find_tag kEnvironment tags = Some (EncodeEnvironment s)"
proof -
  have lt: "unat (name_offset_f ni) < length (names_list_f e)"
    using at by (cases "unat (name_offset_f ni) < length (names_list_f e)") simp_all
  have e: "entry_tags e ni = Inr [(kEnvironment, EncodeEnvironment s)]"
    using tag_entries_environment [OF at] ni lt by (simp add: entry_tags_def name_at_def at)
  obtain a b where a: "collect (entry_tags e) pre = Inr a" and t: "tags = a @ (kEnvironment, EncodeEnvironment s) # b"
    using tags by (auto simp: GetTags_entries list collect_append e bind_result_eq_Inr)
  show ?thesis unfolding t by (rule find_tag_first [OF collect_other [OF a pre]])
qed

lemma decode_payload:
  "\<lparr>tree_canopy = EncodeEnvironment s ! 0 - 1,
    layer_scores = map (\<lambda>i. EncodeEnvironment s ! (1 + i) - 1) [0..<kMaxGeoJsonLayers]\<rparr> = clamp_scores s"
  by (simp add: EncodeEnvironment_def clamp_scores_def kMaxGeoJsonLayers_def kMaxTreeCanopy_def)

text \<open>
  C16: Scores stored on an edge are the scores read back. If a tagged entry of the name list points
  at a kEnvironment tag followed by \<open>EncodeEnvironment s\<close>, no earlier entry carries an environment
  tag, and the tags can be read, then \<open>environment\<close> returns the scores, canopy clamped to 127 and
  layers to 254; the payload has five bytes, none of them zero, so it never ends the text early.
\<close>

theorem environment_roundtrip:
  assumes "name_info_list_f e = pre @ ni # post" "tagged_f ni"
    and "drop (unat (name_offset_f ni)) (names_list_f e) = tag_byte kEnvironment # EncodeEnvironment s @ rest"
    and "\<forall>n \<in> set pre. \<not> is_environment_entry e n" "GetTags e = Inr tags"
  shows "environment e = Inr (clamp_scores s)
    \<and> length (EncodeEnvironment s) = kEnvironmentPayloadSize \<and> 0 \<notin> set (EncodeEnvironment s)"
  using environment_first [OF assms] decode_payload [of s] EncodeEnvironment_null_free [of s]
  by (simp add: environment_def assms(5) kEnvironmentPayloadSize_def kMaxGeoJsonLayers_def)

definition sample_scores :: environment_scores where
  "sample_scores = \<lparr>tree_canopy = 200, layer_scores = [0, 17, 255, 254]\<rparr>"

definition sample_edge :: edge_info where
  "sample_edge = \<lparr>ei_f = edge_info_inner_zero, name_info_list_f =
      [\<lparr>name_offset_f = 1, additional_fields_f = 0, is_route_num_f = True, tagged_f = False, spare_f = 0\<rparr>,
       \<lparr>name_offset_f = 3, additional_fields_f = 0, is_route_num_f = False, tagged_f = True, spare_f = 0\<rparr>],
    encoded_shape_f = [], extended_wayid2_f = 0, extended_wayid3_f = 0, encoded_elevation_f = [],
    names_list_f = [0, 65, 0, 9, 128, 1, 18, 255, 255, 0]\<rparr>"

theorem environment_roundtrip_witness:
  "environment sample_edge = Inr \<lparr>tree_canopy = 127, layer_scores = [0, 17, 254, 254]\<rparr>"
proof -
  have p: "EncodeEnvironment sample_scores = [128, 1, 18, 255, 255]"
    by (simp add: EncodeEnvironment_def sample_scores_def kMaxGeoJsonLayers_def kMaxTreeCanopy_def upt_rec)
  have t: "GetTags sample_edge = Inr [(kEnvironment, [128, 1, 18, 255, 255])]"
    using tag_entries_environment [of "[9, 128, 1, 18, 255, 255, 0]" sample_scores "[0]"]
    by (simp add: GetTags_def sample_edge_def name_at_def p)
  have "environment sample_edge = Inr (clamp_scores sample_scores)"
    using environment_roundtrip [of sample_edge "[name_info_list_f sample_edge ! 0]"
        "name_info_list_f sample_edge ! 1" "[]" sample_scores "[0]", OF _ _ _ _ t]
    by (simp add: sample_edge_def p is_environment_entry_def)
  then show ?thesis by (simp add: clamp_scores_def sample_scores_def upt_rec)
qed

text \<open>The varint of the text list is the integer codec of the shapes.\<close>

lemma parse_varint_loop_next7: "next7_loop bs s r = Inr x \<Longrightarrow> parse_varint_loop bs s r = Inr x"
proof (induction bs s r rule: next7_loop.induct)
  case (2 b bs shift res)
  then show ?case by (auto simp: Let_def simp del: push_bit_and split: if_splits)
qed simp

lemma parse_varint_serialize7: "delta_ok n \<Longrightarrow> parse_varint (serialize7 n @ rest) = Inr (n, rest)"
  using parse_varint_loop_next7 [of "serialize7 n @ rest" 0 0] next7_serialize7 [of n rest]
  by (force simp: parse_varint_def next7_def bind_result_eq_Inr unzigzag7_def)

interpretation varint: int_codec serialize7 parse_varint
  by unfold_locales
    (rule parse_varint_serialize7, assumption, simp add: serialize7_def, rule parse_varint_consumes)

lemma encode_level_int:
  assumes "\<bar>v\<bar> \<le> 2 ^ 24"
  shows "encode_level (of_int v) 0 = serialize7 v" and "f32 (f64 (of_int v * 10 ^ 0)) = of_int v"
proof -
  have "f64 (of_int v) = of_int v" "f32 (of_int v) = of_int v"
    using assms by (simp_all add: float64.exact_int float32.exact_int)
  then show "encode_level (of_int v) 0 = serialize7 v" "f32 (f64 (of_int v * 10 ^ 0)) = of_int v"
    by (simp_all add: encode_level_def serialize7_def)
qed

definition level_range :: "int \<times> int \<Rightarrow> rat \<times> rat" where
  "level_range r = (of_int (fst r), of_int (snd r))"

definition level_ok :: "int \<times> int \<Rightarrow> bool" where
  "level_ok r \<longleftrightarrow> \<bar>fst r\<bar> \<le> 1000000 \<and> \<bar>snd r\<bar> \<le> 1000000"

definition int_ranges :: "(int \<times> int) list \<Rightarrow> u8 list" where
  "int_ranges rs = encode_ranges 0 (map level_range rs)"

lemma int_ranges_simps:
  "int_ranges [] = []"
  "level_ok r \<Longrightarrow> int_ranges (r # rs) = serialize7 (fst r) @ (if fst r \<noteq> snd r then serialize7 (snd r) else [])
     @ (if rs \<noteq> [] then serialize7 1048575 else []) @ int_ranges rs"
  using encode_level_int(1) [of 1048575] encode_level_int [of "fst r"] encode_level_int [of "snd r"]
  by (auto simp: int_ranges_def level_range_def level_ok_def kLevelRangeSeparator_def)

lemma serialize7_longer: "int (length (serialize7 v @ xs @ rest)) \<noteq> int (length rest)"
  using varint.enc_nonempty [of v] by (cases "serialize7 v") simp_all

lemma levels_loop_unfold:
  assumes "delta_ok v" "at_end = int (length rest)"
  shows "levels_loop 0 at_end (serialize7 v @ suf @ rest) prev dec =
    (if f32 (of_int v) = 1048575 then levels_loop 0 at_end (suf @ rest) False dec
     else levels_loop 0 at_end (suf @ rest) True
        (if prev then butlast dec @ [(fst (last dec), f32 (of_int v))] else dec @ [(f32 (of_int v), f32 (of_int v))]))"
  unfolding assms(2)
  by (subst levels_loop.simps)
    (simp only: serialize7_longer if_False parse_varint_serialize7 [OF assms(1)] bind_result_simps
      kLevelRangeSeparator_def Let_def prod.case simp_thms if_True cong: if_cong; simp)

lemma levels_loop_step:
  assumes "\<bar>v\<bar> \<le> 1000000" "at_end = int (length rest)"
  shows "levels_loop 0 at_end (serialize7 v @ suf @ rest) prev dec
    = levels_loop 0 at_end (suf @ rest) True
        (if prev then butlast dec @ [(fst (last dec), of_int v)] else dec @ [(of_int v, of_int v)])"
proof -
  have f: "f32 (of_int v) = of_int v" using assms(1) by (intro float32.exact_int) simp
  have d: "delta_ok v" using assms(1) by (auto simp: delta_ok_def)
  have "(of_int v :: rat) \<noteq> of_int 1048575" using assms(1) by (subst of_int_eq_iff) linarith
  then show ?thesis by (simp only: levels_loop_unfold [OF d assms(2)] f of_int_numeral if_False)
qed

lemma levels_loop_sep:
  assumes "at_end = int (length rest)"
  shows "levels_loop 0 at_end (serialize7 1048575 @ suf @ rest) prev dec = levels_loop 0 at_end (suf @ rest) False dec"
proof -
  have f: "f32 (of_int 1048575) = 1048575" using float32.exact_int [of 1048575] by simp
  have d: "delta_ok 1048575" by (simp add: delta_ok_def)
  show ?thesis by (simp only: levels_loop_unfold [OF d assms] f simp_thms if_True)
qed

lemma levels_loop_ranges:
  assumes "\<forall>r \<in> set rs. level_ok r" "at_end = int (length rest)"
  shows "levels_loop 0 at_end (int_ranges rs @ rest) False dec = Inr (dec @ map level_range rs)"
  using assms(1)
proof (induction rs arbitrary: dec)
  case Nil
  then show ?case by (subst levels_loop.simps) (simp add: int_ranges_simps assms(2))
next
  case (Cons r rs)
  let ?sep = "if rs \<noteq> [] then serialize7 1048575 else []"
  let ?snd = "if fst r \<noteq> snd r then serialize7 (snd r) else []"
  have r: "level_ok r" using Cons.prems by simp
  then have small: "\<bar>fst r\<bar> \<le> 1000000" "\<bar>snd r\<bar> \<le> 1000000" by (simp_all add: level_ok_def)
  have first: "levels_loop 0 at_end (int_ranges (r # rs) @ rest) False dec
      = levels_loop 0 at_end (?snd @ ?sep @ int_ranges rs @ rest) True (dec @ [(of_int (fst r), of_int (fst r))])"
    using levels_loop_step [OF small(1) assms(2), of "?snd @ ?sep @ int_ranges rs" False dec]
    by (simp add: int_ranges_simps r)
  have second: "levels_loop 0 at_end (?snd @ ?sep @ int_ranges rs @ rest) True (dec @ [(of_int (fst r), of_int (fst r))])
      = levels_loop 0 at_end (?sep @ int_ranges rs @ rest) True (dec @ [level_range r])"
    using levels_loop_step [OF small(2) assms(2), of "?sep @ int_ranges rs" True "dec @ [(of_int (fst r), of_int (fst r))]"]
    by (cases "fst r = snd r") (simp_all add: level_range_def split del: if_split)
  have third: "levels_loop 0 at_end (?sep @ int_ranges rs @ rest) True (dec @ [level_range r])
      = Inr (dec @ level_range r # map level_range rs)"
  proof (cases "rs = []")
    case True
    then show ?thesis by (subst levels_loop.simps) (simp add: int_ranges_simps assms(2))
  next
    case False
    then show ?thesis
      using levels_loop_sep [OF assms(2), of "int_ranges rs" True "dec @ [level_range r]"]
        Cons.IH [of "dec @ [level_range r]"] Cons.prems by simp
  qed
  show ?case by (simp only: first second third list.map)
qed

lemma encode_levels_int:
  assumes "\<forall>r \<in> set rs. level_ok r" "sorted (map fst rs)" "length (int_ranges rs) \<le> 1000000"
  shows "encode_levels 0 (map level_range rs)
    = tag_byte kLevels # serialize7 (int (length (int_ranges rs)) + 1) @ serialize7 0 @ int_ranges rs"
proof -
  have s: "sort_key fst (map level_range rs) = map level_range rs"
    using assms(2) by (intro sort_key_id_if_sorted) (simp add: comp_def level_range_def sorted_wrt_map)
  have z: "serialize7 0 = [0]"
    by (simp add: serialize7_def zigzag_def chunks7.simps)
  have n: "f32 (of_nat (length (int_ranges rs) + length (serialize7 0)))
      = of_int (int (length (int_ranges rs)) + 1)"
    using assms(3) float32.exact_int [of "int (length (int_ranges rs)) + 1"] by (simp add: z add.commute)
  have p: "encode_level (f32 (of_nat 0)) 0 = serialize7 0"
    using encode_level_int(1) [of 0] by simp
  have q: "encode_level (of_int (int (length (int_ranges rs)) + 1)) 0 = serialize7 (int (length (int_ranges rs)) + 1)"
    using assms(3) by (intro encode_level_int) simp
  show ?thesis
    unfolding encode_levels_def Let_def s int_ranges_def [symmetric] p n q by simp
qed

text \<open>
  Whole levels survive the text list: the tag written for a list of level ranges (in increasing
  order, precision 0) is recognised by \<open>parse_tagged_value\<close> as exactly the bytes that were
  written, whatever text follows, and \<open>decode_levels\<close> returns the same ranges, single levels and
  ranges apart.
\<close>

theorem levels_roundtrip:
  assumes "\<forall>r \<in> set rs. level_ok r" "sorted (map fst rs)" "length (int_ranges rs) \<le> 1000000"
  shows "parse_tagged_value (encode_levels 0 (map level_range rs) @ rest) = Inr [encode_levels 0 (map level_range rs)]
    \<and> decode_levels (drop 1 (encode_levels 0 (map level_range rs))) = Inr (map level_range rs, 0)"
proof
  let ?n = "int (length (int_ranges rs)) + 1"
  note enc = encode_levels_int [OF assms]
  have z: "length (serialize7 0) = 1" by (simp add: serialize7_def zigzag_def chunks7.simps)
  have n: "delta_ok ?n" using assms(3) by (simp add: delta_ok_def)
  have p: "parse_varint (serialize7 ?n @ suf) = Inr (?n, suf)" for suf
    by (rule parse_varint_serialize7 [OF n])
  have t: "tag_of_byte 8 = Some kLevels" using tag_of_tag_byte [of kLevels] by simp
  show "parse_tagged_value (encode_levels 0 (map level_range rs) @ rest) = Inr [encode_levels 0 (map level_range rs)]"
    using p [of "serialize7 0 @ int_ranges rs @ rest"]
    by (simp add: enc parse_tagged_value_def read_byte_def t std_string_def z nat_add_distrib)
  have "levels_loop 0 1 (int_ranges rs @ [0]) False [] = Inr ([] @ map level_range rs)"
    by (rule levels_loop_ranges [OF assms(1)]) simp
  then show "decode_levels (drop 1 (encode_levels 0 (map level_range rs))) = Inr (map level_range rs, 0)"
    using p [of "serialize7 0 @ int_ranges rs @ [0]"] parse_varint_serialize7 [of 0 "int_ranges rs @ [0]"]
    by (simp add: enc decode_levels_def z delta_ok_def)
qed

theorem levels_roundtrip_witness:
  "decode_levels (drop 1 (encode_levels 0 (map level_range [(-2, -2), (0, 3), (14, 14)])))
    = Inr ([(- 2, - 2), (0, 3), (14, 14)], 0)"
proof -
  have s: "serialize7 n = [word_of_int (if n < 0 then - 2 * n - 1 else 2 * n)]" if "- 60 \<le> n" "n \<le> 60" for n
  proof -
    have "delta_ok n" using that by (simp add: delta_ok_def)
    then show ?thesis
      using that by (simp add: serialize7_def zigzag_value(1) chunks7.simps and_127 mod_pos_pos_trivial)
  qed
  have big: "length (serialize7 1048575) \<le> 10"
    by (simp add: serialize7_def zigzag_def chunks7.simps and_127 push_bit_eq_mult drop_bit_eq_div)
  have "length (int_ranges [(-2, -2), (0, 3), (14, 14)]) \<le> 1000000"
    using big by (simp add: int_ranges_simps level_ok_def s)
  then show ?thesis
    using levels_roundtrip [of "[(-2, -2), (0, 3), (14, 14)]"]
    by (simp add: level_ok_def level_range_def)
qed

lemma parse_varint_small: "unat b < 128 \<Longrightarrow> parse_varint (b # bs) = Inr (unzigzag7 (int (unat b)), bs)"
proof -
  assume "unat b < 128"
  then obtain n where n: "unat b = n" "n < 128" by blast
  have w: "b = word_of_int (int n)" by (simp flip: n(1))
  have s: "schar b = int n"
    using schar_word_of_int [of "int n"] n by (simp only: w [symmetric]) simp
  have i: "to_i32 (int n) = int n" using n(2) by (intro to_i32_id) simp_all
  have a: "int n AND 127 = int n" "int n AND 128 = 0"
    unfolding and_127 and_128 using n(2) by (simp_all add: div_pos_pos_trivial)
  show ?thesis
    by (simp only: n(1) parse_varint_def parse_varint_loop.simps Let_def s a push_bit_0_id id_apply)
      (simp add: i unzigzag7_def)
qed

text \<open>
  C26: The decoder loses the decimal precision: whatever positive exponent the encoder stored, the
  values are divided by ten, so the tag of the single level 0.25 (stored as 25 with
  exponent 2) is read back as level 2.5.
\<close>

theorem levels_precision_lost:
  "(0 < p \<and> p < 64 \<and> unat sz < 128 \<longrightarrow>
      decode_levels (sz # word_of_nat (2 * p) # body) = decode_levels (sz # 2 # body))
   \<and> decode_levels (drop 1 (encode_levels 2 [(1 / 4, 1 / 4)])) = Inr ([(5 / 2, 5 / 2)], 10)"
proof
  have two: "parse_varint (word_of_nat (2 * p) # bs) = Inr (int p, bs)" if "p < 64" for p bs
  proof -
    have "unat (word_of_nat (2 * p) :: u8) = 2 * p" using that by (intro word_of_nat_div) simp
    moreover have "unzigzag7 (int (2 * p)) = int p" by (simp add: unzigzag7_def and_one_eq drop_bit_eq_div)
    ultimately show ?thesis
      using parse_varint_small [of "word_of_nat (2 * p)" bs] that by (simp del: of_nat_mult)
  qed
  have one: "parse_varint (2 # bs) = Inr (1, bs)" for bs using two [of 1 bs] by simp
  have "decode_levels (sz # word_of_nat (2 * p) # body) = decode_levels (sz # 2 # body)"
    if "0 < p" "p < 64" "unat sz < 128"
    unfolding decode_levels_def append_Cons parse_varint_small [OF that(3)] bind_result_simps prod.case
      two [OF that(2)] one using that(1) by simp
  then show "0 < p \<and> p < 64 \<and> unat sz < 128 \<longrightarrow>
      decode_levels (sz # word_of_nat (2 * p) # body) = decode_levels (sz # 2 # body)" by blast
  have e: "encode_level (f32 (f64 ((1 / 4) * 10 ^ 2))) 0 = [50]" "encode_level (f32 (of_nat 2)) 0 = [4]"
    "encode_level (f32 (of_nat 2)) 0 = [4]"
    by (simp_all add: encode_level_def float_eval c_trunc_def zigzag_def push_bit_eq_mult chunks7.simps and_127)
  have enc: "encode_levels 2 [(1 / 4, 1 / 4)] = [8, 4, 4, 50]"
    using e by (simp add: encode_levels_def Let_def)
  have v: "parse_varint [4, 4, 50, 0] = Inr (2, [4, 50, 0])" "parse_varint [4, 50, 0] = Inr (2, [50, 0])"
    "parse_varint [50, 0] = Inr (25, [0])"
    by (simp_all add: parse_varint_small unzigzag7_def and_one_eq drop_bit_eq_div)
  have f: "f32 25 = 25" "f32 10 = 10" "f32 (5 / 2) = 5 / 2"
    by (simp_all add: float_eval)
  have "levels_loop 10 1 [0] True [(5 / 2, 5 / 2)] = Inr [(5 / 2, 5 / 2)]" by (subst levels_loop.simps) simp
  moreover have "levels_loop 10 1 [50, 0] False [] = levels_loop 10 1 [0] True [(5 / 2, 5 / 2)]"
    by (subst levels_loop.simps) (simp add: v f kLevelRangeSeparator_def Let_def)
  ultimately show "decode_levels (drop 1 (encode_levels 2 [(1 / 4, 1 / 4)])) = Inr ([(5 / 2, 5 / 2)], 10)"
    by (simp add: enc decode_levels_def v)
qed

theorem levels_precision_lost_witness:
  "decode_levels [6, 6, 50] = decode_levels [6, 2, 50]"
  using levels_precision_lost [of 3 6 "[50]"] by simp

end
