(* ===== verification/Directed_Edge.thy ===== *)
theory Directed_Edge
  imports Graph_Id Layout Floats
begin

text \<open>
  \<^verbatim>\<open>valhalla/baldr/directededge.h\<close> and \<^verbatim>\<open>src/baldr/directededge.cc\<close>: the 48 byte record of a
  directed edge, its bit-fields in the order of the header, and its setters, which clamp or
  mask what does not fit. A flag of width one is a \<open>bool\<close>. The fields indexed by the local index
  of the inbound edge (turn type, stop impact, edges to the left and right, name consistency)
  are eight slots of three or one bits. The union of the stop impact and the transit line id is its two
  parts; the line id is their concatenation.
\<close>

section \<open>Data\<close>

definition kMaxEdgeInfoOffset :: u32 where "kMaxEdgeInfoOffset = 33554431"
definition kMaxEdgeLength :: u32 where "kMaxEdgeLength = 16777215"
definition kMaxTurnRestrictionEdges :: nat where "kMaxTurnRestrictionEdges = 8"
definition kMaxLaneCount :: u32 where "kMaxLaneCount = 15"
definition kMaxShortcutsFromNode :: u32 where "kMaxShortcutsFromNode = 7"
definition kMaxStopImpact :: u32 where "kMaxStopImpact = 7"
definition kMaxGradeFactor :: u32 where "kMaxGradeFactor = 15"
definition kMaxCurvatureFactor :: u32 where "kMaxCurvatureFactor = 15"
definition kMaxDensity :: u32 where "kMaxDensity = 15"
definition kMaxEdgesPerNode :: u32 where "kMaxEdgesPerNode = 127"
definition kMaxLocalEdgeIndex :: u32 where "kMaxLocalEdgeIndex = 7"
definition kAllAccess :: u32 where "kAllAccess = 4095"
definition kAutoAccess :: u32 where "kAutoAccess = 1"
definition kHOVAccess :: u32 where "kHOVAccess = 128"

record directed_edge =
  de_endnode :: "46 word"
  de_restrictions :: "8 word"
  de_opp_index :: "7 word"
  de_forward :: bool
  de_leaves_tile :: bool
  de_ctry_crossing :: bool
  de_edgeinfo_offset :: "25 word"
  de_access_restriction :: "12 word"
  de_start_restriction :: "12 word"
  de_end_restriction :: "12 word"
  de_complex_restriction :: bool
  de_dest_only :: bool
  de_not_thru :: bool
  de_speed :: "8 word"
  de_free_flow_speed :: "8 word"
  de_constrained_flow_speed :: "8 word"
  de_truck_speed :: "8 word"
  de_name_consistency :: "8 word"
  de_use :: "6 word"
  de_lanecount :: "4 word"
  de_density :: "4 word"
  de_classification :: "3 word"
  de_surface :: "3 word"
  de_toll :: bool
  de_roundabout :: bool
  de_truck_route :: bool
  de_has_predicted_speed :: bool
  de_forwardaccess :: "12 word"
  de_reverseaccess :: "12 word"
  de_max_up_slope :: "5 word"
  de_max_down_slope :: "5 word"
  de_sac_scale :: "3 word"
  de_cycle_lane :: "2 word"
  de_bike_network :: bool
  de_use_sidepath :: bool
  de_dismount :: bool
  de_sidewalk_left :: bool
  de_sidewalk_right :: bool
  de_shoulder :: bool
  de_lane_conn :: bool
  de_turnlanes :: bool
  de_sign :: bool
  de_internal :: bool
  de_tunnel :: bool
  de_bridge :: bool
  de_traffic_signal :: bool
  de_spare1 :: bool
  de_deadend :: bool
  de_bss_connection :: bool
  de_stop_sign :: bool
  de_yield_sign :: bool
  de_hov_type :: "1 word"
  de_indoor :: bool
  de_lit :: bool
  de_dest_only_hgv :: bool
  de_spare4 :: "3 word"
  de_turntype :: "24 word"
  de_edge_to_left :: "8 word"
  de_length :: "24 word"
  de_weighted_grade :: "4 word"
  de_curvature :: "4 word"
  de_stopimpact :: "24 word"
  de_edge_to_right :: "8 word"
  de_localedgeidx :: "7 word"
  de_opp_local_idx :: "7 word"
  de_shortcut :: "7 word"
  de_superseded :: "7 word"
  de_is_shortcut :: bool
  de_speed_type :: "1 word"
  de_named :: bool
  de_link :: bool

definition read_directed_edge :: "u8 list \<Rightarrow> directed_edge" where
  "read_directed_edge bs = (let v = read_layout [
      46, 8, 7, 1, 1, 1, 25, 12, 12, 12, 1, 1, 1, 8, 8, 8, 8, 8, 6, 4, 4, 3, 3, 1, 1, 1, 1, 12,
      12, 5, 5, 3, 2, 1, 1, 1, 1, 1, 1, 1, 1, 1, 1, 1, 1, 1, 1, 1, 1, 1, 1, 1, 1, 1, 1, 3, 24,
      8, 24, 4, 4, 24, 8, 7, 7, 7, 7, 1, 1, 1, 1] bs in \<lparr>
    de_endnode = word_of_nat (v ! 0), de_restrictions = word_of_nat (v ! 1),
    de_opp_index = word_of_nat (v ! 2), de_forward = unflag (v ! 3),
    de_leaves_tile = unflag (v ! 4), de_ctry_crossing = unflag (v ! 5),
    de_edgeinfo_offset = word_of_nat (v ! 6), de_access_restriction = word_of_nat (v ! 7),
    de_start_restriction = word_of_nat (v ! 8), de_end_restriction = word_of_nat (v ! 9),
    de_complex_restriction = unflag (v ! 10), de_dest_only = unflag (v ! 11),
    de_not_thru = unflag (v ! 12), de_speed = word_of_nat (v ! 13),
    de_free_flow_speed = word_of_nat (v ! 14), de_constrained_flow_speed = word_of_nat (v ! 15),
    de_truck_speed = word_of_nat (v ! 16), de_name_consistency = word_of_nat (v ! 17),
    de_use = word_of_nat (v ! 18), de_lanecount = word_of_nat (v ! 19),
    de_density = word_of_nat (v ! 20), de_classification = word_of_nat (v ! 21),
    de_surface = word_of_nat (v ! 22), de_toll = unflag (v ! 23),
    de_roundabout = unflag (v ! 24), de_truck_route = unflag (v ! 25),
    de_has_predicted_speed = unflag (v ! 26), de_forwardaccess = word_of_nat (v ! 27),
    de_reverseaccess = word_of_nat (v ! 28), de_max_up_slope = word_of_nat (v ! 29),
    de_max_down_slope = word_of_nat (v ! 30), de_sac_scale = word_of_nat (v ! 31),
    de_cycle_lane = word_of_nat (v ! 32), de_bike_network = unflag (v ! 33),
    de_use_sidepath = unflag (v ! 34), de_dismount = unflag (v ! 35),
    de_sidewalk_left = unflag (v ! 36), de_sidewalk_right = unflag (v ! 37),
    de_shoulder = unflag (v ! 38), de_lane_conn = unflag (v ! 39),
    de_turnlanes = unflag (v ! 40), de_sign = unflag (v ! 41), de_internal = unflag (v ! 42),
    de_tunnel = unflag (v ! 43), de_bridge = unflag (v ! 44),
    de_traffic_signal = unflag (v ! 45), de_spare1 = unflag (v ! 46),
    de_deadend = unflag (v ! 47), de_bss_connection = unflag (v ! 48),
    de_stop_sign = unflag (v ! 49), de_yield_sign = unflag (v ! 50),
    de_hov_type = word_of_nat (v ! 51), de_indoor = unflag (v ! 52), de_lit = unflag (v ! 53),
    de_dest_only_hgv = unflag (v ! 54), de_spare4 = word_of_nat (v ! 55),
    de_turntype = word_of_nat (v ! 56), de_edge_to_left = word_of_nat (v ! 57),
    de_length = word_of_nat (v ! 58), de_weighted_grade = word_of_nat (v ! 59),
    de_curvature = word_of_nat (v ! 60), de_stopimpact = word_of_nat (v ! 61),
    de_edge_to_right = word_of_nat (v ! 62), de_localedgeidx = word_of_nat (v ! 63),
    de_opp_local_idx = word_of_nat (v ! 64), de_shortcut = word_of_nat (v ! 65),
    de_superseded = word_of_nat (v ! 66), de_is_shortcut = unflag (v ! 67),
    de_speed_type = word_of_nat (v ! 68), de_named = unflag (v ! 69),
    de_link = unflag (v ! 70)\<rparr>)"

text \<open>The constructor: all zero, except the weighted grade, whose zero grade is 6.\<close>

definition new_directed_edge :: directed_edge where
  "new_directed_edge = (read_directed_edge (replicate 48 0))\<lparr>de_weighted_grade := 6\<rparr>"

section \<open>Slots of a bit-field\<close>

definition OverwriteBits :: "u32 \<Rightarrow> u32 \<Rightarrow> nat \<Rightarrow> nat \<Rightarrow> u32" where
  "OverwriteBits dst src pos len =
     (let shift = pos * len; m = push_bit shift (push_bit len 1 - 1)
      in (dst AND NOT m) OR push_bit shift src)"

definition OverwriteBit :: "u32 \<Rightarrow> u32 \<Rightarrow> nat \<Rightarrow> u32" where
  "OverwriteBit dst src pos = (let m = push_bit pos 1 in (dst AND NOT m) OR push_bit pos src)"

section \<open>Setters\<close>

definition de_set_endnode :: "graph_id \<Rightarrow> directed_edge \<Rightarrow> directed_edge" where
  "de_set_endnode g e = e\<lparr>de_endnode := ucast (gid_value g)\<rparr>"

definition de_set_free_flow_speed :: "u32 \<Rightarrow> directed_edge \<Rightarrow> directed_edge" where
  "de_set_free_flow_speed x e = e\<lparr>de_free_flow_speed := (if kMaxAssumedSpeed < x then ucast kMaxAssumedSpeed else ucast x)\<rparr>"

definition de_set_constrained_flow_speed :: "u32 \<Rightarrow> directed_edge \<Rightarrow> directed_edge" where
  "de_set_constrained_flow_speed x e = e\<lparr>de_constrained_flow_speed := (if kMaxAssumedSpeed < x then ucast kMaxAssumedSpeed else ucast x)\<rparr>"

definition de_set_has_predicted_speed :: "bool \<Rightarrow> directed_edge \<Rightarrow> directed_edge" where
  "de_set_has_predicted_speed x e = e\<lparr>de_has_predicted_speed := x\<rparr>"

definition de_set_edgeinfo_offset :: "u32 \<Rightarrow> directed_edge \<Rightarrow> directed_edge result" where
  "de_set_edgeinfo_offset offset e =
     (if kMaxEdgeInfoOffset < offset then Inl (Runtime_error ''DirectedEdge: exceeded maximum edgeinfo offset'')
      else Inr (e\<lparr>de_edgeinfo_offset := ucast offset\<rparr>))"

definition de_set_access_restriction :: "u32 \<Rightarrow> directed_edge \<Rightarrow> directed_edge" where
  "de_set_access_restriction x e = e\<lparr>de_access_restriction := ucast x\<rparr>"

definition de_set_sign :: "bool \<Rightarrow> directed_edge \<Rightarrow> directed_edge" where
  "de_set_sign x e = e\<lparr>de_sign := x\<rparr>"

definition de_set_length :: "u32 \<Rightarrow> bool \<Rightarrow> directed_edge \<Rightarrow> directed_edge result" where
  "de_set_length len should_error e =
     (if kMaxEdgeLength < len then
        if should_error then Inl (Runtime_error ''DirectedEdgeBuilder: exceeded maximum edge length'')
        else Inr (e\<lparr>de_length := ucast kMaxEdgeLength\<rparr>)
      else Inr (e\<lparr>de_length := ucast len\<rparr>))"

definition de_set_weighted_grade :: "u32 \<Rightarrow> directed_edge \<Rightarrow> directed_edge" where
  "de_set_weighted_grade x e = e\<lparr>de_weighted_grade := (if kMaxGradeFactor < x then 6 else ucast x)\<rparr>"

definition de_set_curvature :: "u32 \<Rightarrow> directed_edge \<Rightarrow> directed_edge" where
  "de_set_curvature x e = e\<lparr>de_curvature := (if kMaxCurvatureFactor < x then 0 else ucast x)\<rparr>"

definition de_set_laneconnectivity :: "bool \<Rightarrow> directed_edge \<Rightarrow> directed_edge" where
  "de_set_laneconnectivity x e = e\<lparr>de_lane_conn := x\<rparr>"

definition de_set_shoulder :: "bool \<Rightarrow> directed_edge \<Rightarrow> directed_edge" where
  "de_set_shoulder x e = e\<lparr>de_shoulder := x\<rparr>"

definition de_set_dismount :: "bool \<Rightarrow> directed_edge \<Rightarrow> directed_edge" where
  "de_set_dismount x e = e\<lparr>de_dismount := x\<rparr>"

definition de_set_use_sidepath :: "bool \<Rightarrow> directed_edge \<Rightarrow> directed_edge" where
  "de_set_use_sidepath x e = e\<lparr>de_use_sidepath := x\<rparr>"

definition de_set_deadend :: "bool \<Rightarrow> directed_edge \<Rightarrow> directed_edge" where
  "de_set_deadend x e = e\<lparr>de_deadend := x\<rparr>"

definition de_set_toll :: "bool \<Rightarrow> directed_edge \<Rightarrow> directed_edge" where
  "de_set_toll x e = e\<lparr>de_toll := x\<rparr>"

definition de_set_dest_only :: "bool \<Rightarrow> directed_edge \<Rightarrow> directed_edge" where
  "de_set_dest_only x e = e\<lparr>de_dest_only := x\<rparr>"

definition de_set_dest_only_hgv :: "bool \<Rightarrow> directed_edge \<Rightarrow> directed_edge" where
  "de_set_dest_only_hgv x e = e\<lparr>de_dest_only_hgv := x\<rparr>"

definition de_set_tunnel :: "bool \<Rightarrow> directed_edge \<Rightarrow> directed_edge" where
  "de_set_tunnel x e = e\<lparr>de_tunnel := x\<rparr>"

definition de_set_bridge :: "bool \<Rightarrow> directed_edge \<Rightarrow> directed_edge" where
  "de_set_bridge x e = e\<lparr>de_bridge := x\<rparr>"

definition de_set_indoor :: "bool \<Rightarrow> directed_edge \<Rightarrow> directed_edge" where
  "de_set_indoor x e = e\<lparr>de_indoor := x\<rparr>"

definition de_set_hov_type :: "u32 \<Rightarrow> directed_edge \<Rightarrow> directed_edge" where
  "de_set_hov_type x e = e\<lparr>de_hov_type := ucast x\<rparr>"

definition is_hov_only :: "directed_edge \<Rightarrow> bool" where
  "is_hov_only e \<longleftrightarrow> ucast (de_forwardaccess e) AND kHOVAccess \<noteq> 0 \<and> \<not> ucast (de_forwardaccess e) AND kAutoAccess \<noteq> 0"

definition de_set_roundabout :: "bool \<Rightarrow> directed_edge \<Rightarrow> directed_edge" where
  "de_set_roundabout x e = e\<lparr>de_roundabout := x\<rparr>"

definition de_set_traffic_signal :: "bool \<Rightarrow> directed_edge \<Rightarrow> directed_edge" where
  "de_set_traffic_signal x e = e\<lparr>de_traffic_signal := x\<rparr>"

definition de_set_stop_sign :: "bool \<Rightarrow> directed_edge \<Rightarrow> directed_edge" where
  "de_set_stop_sign x e = e\<lparr>de_stop_sign := x\<rparr>"

definition de_set_yield_sign :: "bool \<Rightarrow> directed_edge \<Rightarrow> directed_edge" where
  "de_set_yield_sign x e = e\<lparr>de_yield_sign := x\<rparr>"

definition de_set_forward :: "bool \<Rightarrow> directed_edge \<Rightarrow> directed_edge" where
  "de_set_forward x e = e\<lparr>de_forward := x\<rparr>"

definition de_set_not_thru :: "bool \<Rightarrow> directed_edge \<Rightarrow> directed_edge" where
  "de_set_not_thru x e = e\<lparr>de_not_thru := x\<rparr>"

definition de_set_opp_index :: "u32 \<Rightarrow> directed_edge \<Rightarrow> directed_edge" where
  "de_set_opp_index x e = e\<lparr>de_opp_index := ucast x\<rparr>"

definition de_set_cyclelane :: "u32 \<Rightarrow> directed_edge \<Rightarrow> directed_edge" where
  "de_set_cyclelane x e = e\<lparr>de_cycle_lane := ucast x\<rparr>"

definition de_set_bike_network :: "bool \<Rightarrow> directed_edge \<Rightarrow> directed_edge" where
  "de_set_bike_network x e = e\<lparr>de_bike_network := x\<rparr>"

definition de_set_truck_route :: "bool \<Rightarrow> directed_edge \<Rightarrow> directed_edge" where
  "de_set_truck_route x e = e\<lparr>de_truck_route := x\<rparr>"

definition de_set_lanecount :: "u32 \<Rightarrow> directed_edge \<Rightarrow> directed_edge" where
  "de_set_lanecount x e = e\<lparr>de_lanecount :=
     (if kMaxLaneCount < x then ucast kMaxLaneCount else if x = 0 then 1 else ucast x)\<rparr>"

definition de_set_restrictions :: "u32 \<Rightarrow> directed_edge \<Rightarrow> directed_edge" where
  "de_set_restrictions m e =
     (if push_bit kMaxTurnRestrictionEdges 1 \<le> m
      then e\<lparr>de_restrictions := ucast (m AND (push_bit kMaxTurnRestrictionEdges 1 - 1))\<rparr>
      else e\<lparr>de_restrictions := ucast m\<rparr>)"

definition de_set_use :: "u32 \<Rightarrow> directed_edge \<Rightarrow> directed_edge" where
  "de_set_use x e = e\<lparr>de_use := ucast x\<rparr>"

definition de_set_speed_type :: "u32 \<Rightarrow> directed_edge \<Rightarrow> directed_edge" where
  "de_set_speed_type x e = e\<lparr>de_speed_type := ucast x\<rparr>"

definition de_set_ctry_crossing :: "bool \<Rightarrow> directed_edge \<Rightarrow> directed_edge" where
  "de_set_ctry_crossing x e = e\<lparr>de_ctry_crossing := x\<rparr>"

definition de_set_forwardaccess :: "u32 \<Rightarrow> directed_edge \<Rightarrow> directed_edge" where
  "de_set_forwardaccess modes e = e\<lparr>de_forwardaccess :=
     (if kAllAccess < modes then ucast (modes AND kAllAccess) else ucast modes)\<rparr>"

definition de_set_all_forward_access :: "directed_edge \<Rightarrow> directed_edge" where
  "de_set_all_forward_access e = e\<lparr>de_forwardaccess := ucast kAllAccess, de_reverseaccess := ucast kAllAccess\<rparr>"

definition de_set_reverseaccess :: "u32 \<Rightarrow> directed_edge \<Rightarrow> directed_edge" where
  "de_set_reverseaccess modes e = e\<lparr>de_reverseaccess :=
     (if kAllAccess < modes then ucast (modes AND kAllAccess) else ucast modes)\<rparr>"

definition de_set_speed :: "u32 \<Rightarrow> directed_edge \<Rightarrow> directed_edge" where
  "de_set_speed x e = e\<lparr>de_speed := (if kMaxAssumedSpeed < x then ucast kMaxAssumedSpeed else ucast x)\<rparr>"

definition de_set_truck_speed :: "u32 \<Rightarrow> directed_edge \<Rightarrow> directed_edge" where
  "de_set_truck_speed x e = e\<lparr>de_truck_speed := (if kMaxAssumedSpeed < x then ucast kMaxAssumedSpeed else ucast x)\<rparr>"

definition de_set_classification :: "u32 \<Rightarrow> directed_edge \<Rightarrow> directed_edge" where
  "de_set_classification x e = e\<lparr>de_classification := ucast x\<rparr>"

definition de_set_sac_scale :: "u32 \<Rightarrow> directed_edge \<Rightarrow> directed_edge" where
  "de_set_sac_scale x e = e\<lparr>de_sac_scale := ucast x\<rparr>"

definition de_set_name_consistency :: "u32 \<Rightarrow> bool \<Rightarrow> directed_edge \<Rightarrow> directed_edge" where
  "de_set_name_consistency idx c e =
     (if kMaxLocalEdgeIndex < idx then e
      else e\<lparr>de_name_consistency :=
             ucast (OverwriteBit (ucast (de_name_consistency e)) (of_bool c) (unat idx))\<rparr>)"

definition de_set_name_consistency_mask :: "u8 \<Rightarrow> directed_edge \<Rightarrow> directed_edge" where
  "de_set_name_consistency_mask m e = e\<lparr>de_name_consistency := m\<rparr>"

definition de_set_surface :: "u32 \<Rightarrow> directed_edge \<Rightarrow> directed_edge" where
  "de_set_surface x e = e\<lparr>de_surface := ucast x\<rparr>"

definition de_set_link :: "bool \<Rightarrow> directed_edge \<Rightarrow> directed_edge" where
  "de_set_link x e = e\<lparr>de_link := x\<rparr>"

definition de_set_internal :: "bool \<Rightarrow> directed_edge \<Rightarrow> directed_edge" where
  "de_set_internal x e = e\<lparr>de_internal := x\<rparr>"

definition de_set_start_restriction :: "u32 \<Rightarrow> directed_edge \<Rightarrow> directed_edge" where
  "de_set_start_restriction x e = e\<lparr>de_start_restriction := ucast x\<rparr>"

definition de_set_end_restriction :: "u32 \<Rightarrow> directed_edge \<Rightarrow> directed_edge" where
  "de_set_end_restriction x e = e\<lparr>de_end_restriction := ucast x\<rparr>"

definition de_set_complex_restriction :: "bool \<Rightarrow> directed_edge \<Rightarrow> directed_edge" where
  "de_set_complex_restriction x e = e\<lparr>de_complex_restriction := x\<rparr>"

definition de_set_density :: "u32 \<Rightarrow> directed_edge \<Rightarrow> directed_edge" where
  "de_set_density x e = e\<lparr>de_density := (if kMaxDensity < x then ucast kMaxDensity else ucast x)\<rparr>"

definition de_set_named :: "bool \<Rightarrow> directed_edge \<Rightarrow> directed_edge" where
  "de_set_named x e = e\<lparr>de_named := x\<rparr>"

definition de_set_sidewalk_left :: "bool \<Rightarrow> directed_edge \<Rightarrow> directed_edge" where
  "de_set_sidewalk_left x e = e\<lparr>de_sidewalk_left := x\<rparr>"

definition de_set_sidewalk_right :: "bool \<Rightarrow> directed_edge \<Rightarrow> directed_edge" where
  "de_set_sidewalk_right x e = e\<lparr>de_sidewalk_right := x\<rparr>"

definition de_set_turntype :: "u32 \<Rightarrow> u32 \<Rightarrow> directed_edge \<Rightarrow> directed_edge" where
  "de_set_turntype localidx turntype e =
     (if kMaxLocalEdgeIndex < localidx then e
      else e\<lparr>de_turntype := ucast (OverwriteBits (ucast (de_turntype e)) turntype (unat localidx) 3)\<rparr>)"

definition de_set_edge_to_left :: "u32 \<Rightarrow> bool \<Rightarrow> directed_edge \<Rightarrow> directed_edge" where
  "de_set_edge_to_left localidx left e =
     (if kMaxLocalEdgeIndex < localidx then e
      else e\<lparr>de_edge_to_left := ucast (OverwriteBits (ucast (de_edge_to_left e)) (of_bool left) (unat localidx) 1)\<rparr>)"

text \<open>The local index is not checked here; a shift of 32 or more is undefined.\<close>

definition de_set_stopimpact :: "u32 \<Rightarrow> u32 \<Rightarrow> directed_edge \<Rightarrow> directed_edge result" where
  "de_set_stopimpact localidx stopimpact e =
     (if 32 \<le> unat (localidx * 3) then Inl Undefined
      else if kMaxStopImpact < stopimpact
      then Inr (e\<lparr>de_stopimpact := ucast (OverwriteBits (ucast (de_stopimpact e)) kMaxStopImpact (unat localidx) 3)\<rparr>)
      else Inr (e\<lparr>de_stopimpact := ucast (OverwriteBits (ucast (de_stopimpact e)) stopimpact (unat localidx) 3)\<rparr>))"

definition de_set_lineid :: "u32 \<Rightarrow> directed_edge \<Rightarrow> directed_edge" where
  "de_set_lineid l e = e\<lparr>de_stopimpact := ucast l, de_edge_to_right := ucast (drop_bit 24 l)\<rparr>"

definition de_set_edge_to_right :: "u32 \<Rightarrow> bool \<Rightarrow> directed_edge \<Rightarrow> directed_edge" where
  "de_set_edge_to_right localidx right e =
     (if kMaxLocalEdgeIndex < localidx then e
      else e\<lparr>de_edge_to_right := ucast (OverwriteBits (ucast (de_edge_to_right e)) (of_bool right) (unat localidx) 1)\<rparr>)"

definition de_set_localedgeidx :: "u32 \<Rightarrow> directed_edge \<Rightarrow> directed_edge" where
  "de_set_localedgeidx x e = e\<lparr>de_localedgeidx := (if kMaxEdgesPerNode < x then ucast kMaxEdgesPerNode else ucast x)\<rparr>"

definition de_set_opp_local_idx :: "u32 \<Rightarrow> directed_edge \<Rightarrow> directed_edge" where
  "de_set_opp_local_idx x e = e\<lparr>de_opp_local_idx := (if kMaxEdgesPerNode < x then ucast kMaxEdgesPerNode else ucast x)\<rparr>"

definition de_set_hierarchy_roadclass :: "u32 \<Rightarrow> bool \<Rightarrow> directed_edge \<Rightarrow> directed_edge" where
  "de_set_hierarchy_roadclass rc reset e = e\<lparr>de_shortcut := ucast rc, de_is_shortcut := \<not> reset\<rparr>"

definition de_set_shortcut :: "u32 \<Rightarrow> directed_edge \<Rightarrow> directed_edge" where
  "de_set_shortcut shortcut e =
     (if shortcut = 0 then e
      else let e' = (if shortcut \<le> kMaxShortcutsFromNode
                     then e\<lparr>de_shortcut := ucast (push_bit (unat (shortcut - 1)) (1 :: u32))\<rparr> else e)
           in e'\<lparr>de_is_shortcut := True\<rparr>)"

definition de_set_superseded :: "u32 \<Rightarrow> directed_edge \<Rightarrow> directed_edge" where
  "de_set_superseded superseded e =
     (if kMaxShortcutsFromNode < superseded then e
      else if superseded = 0 then e\<lparr>de_superseded := 0\<rparr>
      else e\<lparr>de_superseded := ucast (push_bit (unat (superseded - 1)) (1 :: u32))\<rparr>)"

definition de_set_leaves_tile :: "bool \<Rightarrow> directed_edge \<Rightarrow> directed_edge" where
  "de_set_leaves_tile x e = e\<lparr>de_leaves_tile := x\<rparr>"

text \<open>Slopes are \<^verbatim>\<open>float\<close>s; the arguments are finite.\<close>

definition de_set_max_up_slope :: "rat \<Rightarrow> directed_edge \<Rightarrow> directed_edge" where
  "de_set_max_up_slope slope e = e\<lparr>de_max_up_slope :=
     (if slope < 0 then 0
      else if slope < 16 then word_of_int \<lceil>slope\<rceil>
      else if slope < 76 then word_of_int (0x10 OR \<lceil>f32 (f32 (slope - 16) * (1 / 4))\<rceil>)
      else 0x1f)\<rparr>"

definition de_set_max_down_slope :: "rat \<Rightarrow> directed_edge \<Rightarrow> directed_edge" where
  "de_set_max_down_slope slope e = e\<lparr>de_max_down_slope :=
     (if slope > 0 then 0
      else if slope > - 16 then word_of_int \<lceil>- slope\<rceil>
      else if slope > - 76 then word_of_int (0x10 OR \<lceil>f32 (f32 (- slope - 16) * (1 / 4))\<rceil>)
      else 0x1f)\<rparr>"

definition de_set_bss_connection :: "bool \<Rightarrow> directed_edge \<Rightarrow> directed_edge" where
  "de_set_bss_connection x e = e\<lparr>de_bss_connection := x\<rparr>"

definition de_set_lit :: "bool \<Rightarrow> directed_edge \<Rightarrow> directed_edge" where
  "de_set_lit x e = e\<lparr>de_lit := x\<rparr>"

section \<open>Accessors that compute\<close>

definition de_get_endnode :: "directed_edge \<Rightarrow> graph_id result" where
  "de_get_endnode e = gid_of_value (ucast (de_endnode e))"

definition max_up_slope :: "directed_edge \<Rightarrow> int" where
  "max_up_slope e =
     (let v = uint (de_max_up_slope e) in if v AND 0x10 = 0 then v else 16 + (v AND 0xf) * 4)"

definition max_down_slope :: "directed_edge \<Rightarrow> int" where
  "max_down_slope e =
     (let v = uint (de_max_down_slope e) in if v AND 0x10 = 0 then - v else - (16 + (v AND 0xf) * 4))"

definition name_consistency :: "directed_edge \<Rightarrow> nat \<Rightarrow> bool" where
  "name_consistency e idx \<longleftrightarrow> (ucast (de_name_consistency e) :: u32) AND push_bit idx 1 \<noteq> 0"

definition turntype :: "directed_edge \<Rightarrow> nat \<Rightarrow> u32" where
  "turntype e localidx =
     (let shift = localidx * 3 in drop_bit shift (ucast (de_turntype e) AND push_bit shift 7))"

definition edge_to_left :: "directed_edge \<Rightarrow> nat \<Rightarrow> bool" where
  "edge_to_left e localidx \<longleftrightarrow> (ucast (de_edge_to_left e) :: u32) AND push_bit localidx 1 \<noteq> 0"

definition stopimpact :: "directed_edge \<Rightarrow> nat \<Rightarrow> u32" where
  "stopimpact e localidx =
     (let shift = localidx * 3 in drop_bit shift (ucast (de_stopimpact e) AND push_bit shift 7))"

definition lineid :: "directed_edge \<Rightarrow> u32" where
  "lineid e = ucast (de_stopimpact e) OR push_bit 24 (ucast (de_edge_to_right e))"

definition edge_to_right :: "directed_edge \<Rightarrow> nat \<Rightarrow> bool" where
  "edge_to_right e localidx \<longleftrightarrow> (ucast (de_edge_to_right e) :: u32) AND push_bit localidx 1 \<noteq> 0"

text \<open>\<^verbatim>\<open>ffs\<close>: the position of the lowest set bit, counted from one, or 0.\<close>

fun ffs_loop :: "nat \<Rightarrow> u32 \<Rightarrow> nat \<Rightarrow> nat" where
  "ffs_loop 0 m idx = idx"
| "ffs_loop (Suc k) m idx = (if m AND 1 \<noteq> 0 then idx else ffs_loop k (drop_bit 1 m) (idx + 1))"

definition superseded_idx :: "directed_edge \<Rightarrow> nat" where
  "superseded_idx e = (let m = ucast (de_superseded e) in if m = 0 then 0 else ffs_loop 32 m 1)"

section \<open>Properties\<close>

lemma exp_minus_1: "push_bit k 1 - 1 = (mask k :: 'a::len word)"
  by (simp add: mask_eq_exp_minus_1)

lemma low_bits: "unat (w :: 'a::len word) < 2 ^ k \<Longrightarrow> bit w n \<Longrightarrow> n < k"
proof -
  assume "unat w < 2 ^ k" "bit w n"
  then have "take_bit k w = w" by (simp add: take_bit_self_iff)
  then show "n < k" using \<open>bit w n\<close> by (metis bit_take_bit_iff)
qed

lemma bit_OverwriteBits:
  assumes "unat src < 2 ^ len"
  shows "bit (OverwriteBits dst src pos len) n \<longleftrightarrow>
    n < 32 \<and> (if pos * len \<le> n \<and> n < pos * len + len then bit src (n - pos * len) else bit dst n)"
proof -
  have "\<not> bit src (n - pos * len)" if "\<not> n < pos * len + len"
    using that low_bits [OF assms, of "n - pos * len"] by auto
  then show ?thesis
    unfolding OverwriteBits_def Let_def exp_minus_1 by (auto simp: bit_simps dest: bit_imp_le_length)
qed

lemma OverwriteBit_bits: "OverwriteBit dst src pos = OverwriteBits dst src pos 1"
  by (simp add: OverwriteBit_def OverwriteBits_def)

lemma slot3: "(7 :: u32) = mask 3"
  by (simp add: mask_eq_exp_minus_1)

lemma bit_slot:
  "bit (drop_bit (j * 3) ((w :: u32) AND push_bit (j * 3) 7)) n \<longleftrightarrow> n < 3 \<and> bit w (j * 3 + n)"
  by (auto simp: slot3 bit_simps dest: bit_imp_le_length)

lemma flag_slot: "(w :: u32) AND push_bit j 1 \<noteq> 0 \<longleftrightarrow> bit w j"
proof -
  have "w AND push_bit j 1 = 0 \<longleftrightarrow> \<not> bit w j"
    by (simp add: and_exp_eq_0_iff_not_bit)
  then show ?thesis by simp
qed

lemma local_index: "\<not> kMaxLocalEdgeIndex < i \<Longrightarrow> unat i \<le> 7"
  by (simp add: kMaxLocalEdgeIndex_def word_less_nat_alt)

lemma slot3_set:
  assumes t: "unat t < 8" and i: "i \<le> 7" "j \<le> 7"
  shows "drop_bit (j * 3) ((ucast (ucast (OverwriteBits (ucast (w :: 24 word)) t i 3) :: 24 word) :: u32)
      AND push_bit (j * 3) 7) = (if j = i then t else drop_bit (j * 3) (ucast w AND push_bit (j * 3) 7))"
proof (rule bit_word_eqI)
  fix n assume "n < LENGTH(32)"
  have inj: "j * 3 + n < i * 3 + 3 \<and> i * 3 \<le> j * 3 + n \<longleftrightarrow> j = i" if "n < 3" using that by auto
  have tb: "bit t n \<Longrightarrow> n < 3" using low_bits [of t 3] t by simp
  have lt: "j * 3 + n < 24" if "n < 3" using that i by simp
  have ow: "bit (OverwriteBits (ucast w) t i 3) m \<longleftrightarrow>
      m < 32 \<and> (if i * 3 \<le> m \<and> m < i * 3 + 3 then bit t (m - i * 3) else bit (ucast w :: u32) m)" for m
    using t by (intro bit_OverwriteBits) simp
  show "bit (drop_bit (j * 3) ((ucast (ucast (OverwriteBits (ucast w) t i 3) :: 24 word) :: u32)
      AND push_bit (j * 3) 7)) n
    = bit (if j = i then t else drop_bit (j * 3) (ucast w AND push_bit (j * 3) 7)) n"
    unfolding if_distrib [of "\<lambda>x. bit x n"] bit_slot
    using tb lt inj by (cases "n < 3") (auto simp: ow bit_ucast_iff)
qed

lemma flag_set:
  assumes "i \<le> 7" "j \<le> 7"
  shows "(ucast (ucast (OverwriteBits (ucast (w :: 8 word)) (of_bool b) i 1) :: 8 word) :: u32) AND push_bit j 1 \<noteq> 0
    \<longleftrightarrow> (if j = i then b else (ucast w :: u32) AND push_bit j 1 \<noteq> 0)"
proof -
  have "bit (OverwriteBits (ucast w) (of_bool b) i 1) m \<longleftrightarrow>
      m < 32 \<and> (if i * 1 \<le> m \<and> m < i * 1 + 1 then bit (of_bool b :: u32) (m - i * 1) else bit (ucast w :: u32) m)" for m
    by (rule bit_OverwriteBits) simp
  then show ?thesis unfolding flag_slot using assms by (auto simp: bit_ucast_iff)
qed

text \<open>
  C25: The eight slots for the inbound edges are independent: after a setter for a local index up to 7
  the slot of that index holds the value and every other slot what it held, for the turn
  types, the stop impacts (clamped to 7), the flags for edges to the left and right, and name
  consistency.
\<close>

theorem local_slots:
  assumes "unat i \<le> 7" "j \<le> 7" "unat t \<le> 7"
  shows "turntype (de_set_turntype i t e) j = (if j = unat i then t else turntype e j)
    \<and> (\<exists>e'. de_set_stopimpact i s e = Inr e'
        \<and> stopimpact e' j = (if j = unat i then min s kMaxStopImpact else stopimpact e j)
        \<and> edge_to_right e' j = edge_to_right e j)
    \<and> edge_to_left (de_set_edge_to_left i b e) j = (if j = unat i then b else edge_to_left e j)
    \<and> edge_to_right (de_set_edge_to_right i b e) j = (if j = unat i then b else edge_to_right e j)
    \<and> name_consistency (de_set_name_consistency i b e) j = (if j = unat i then b else name_consistency e j)"
proof -
  have i: "\<not> kMaxLocalEdgeIndex < i" using assms(1) by (simp add: kMaxLocalEdgeIndex_def word_less_nat_alt)
  have shift: "\<not> 32 \<le> unat (i * 3)"
  proof -
    have "unat (i * 3) = unat i * 3"
      using assms(1) unat_mult_lem [of i 3] by simp
    then show ?thesis using assms(1) by simp
  qed
  have k: "unat kMaxStopImpact < 8" by (simp add: kMaxStopImpact_def)
  have s: "unat s < 8" if "\<not> kMaxStopImpact < s"
    using that by (simp add: kMaxStopImpact_def word_less_nat_alt)
  have t: "unat t < 8" using assms(3) by simp
  show ?thesis
    using slot3_set [OF t assms(1,2)] slot3_set [OF k assms(1,2)] slot3_set [OF s assms(1,2)]
      flag_set [OF assms(1,2)] i shift
    by (auto simp: turntype_def de_set_turntype_def stopimpact_def de_set_stopimpact_def edge_to_left_def
      de_set_edge_to_left_def edge_to_right_def de_set_edge_to_right_def name_consistency_def
      de_set_name_consistency_def OverwriteBit_bits Let_def min_def)
qed

theorem local_slots_witness:
  "turntype (de_set_turntype 5 6 new_directed_edge) 5 = 6
    \<and> turntype (de_set_turntype 5 6 new_directed_edge) 4 = turntype new_directed_edge 4"
  using local_slots [of 5 5 6 new_directed_edge 0 True] local_slots [of 5 4 6 new_directed_edge 0 True] by simp

lemma ucast_capped:
  assumes "unat k < 2 ^ LENGTH('a::len)"
  shows "unat (ucast (min x k) :: 'a word) = min (unat x) (unat (k :: u32))"
proof -
  have "unat (min x k) = min (unat x) (unat k)" by (simp add: min_def word_le_nat_alt)
  then show ?thesis
    using assms by (simp add: unsigned_ucast_eq take_bit_nat_eq_self min_less_iff_disj)
qed

lemma masked:
  fixes m :: u32
  assumes that: "k \<le> LENGTH('a)"
  shows "unat (ucast (m AND mask k) :: 'a::len word) = unat m mod 2 ^ k"
proof -
  have "unat (m AND mask k) = unat m mod 2 ^ k"
    by (simp add: take_bit_eq_mask [symmetric] unsigned_take_bit_eq) (simp add: take_bit_eq_mod)
  moreover have "unat m mod 2 ^ k < 2 ^ LENGTH('a)"
    using that power_increasing [of k "LENGTH('a)" "2 :: nat"] mod_less_divisor [of "2 ^ k" "unat m"]
    by (meson less_le_trans one_le_numeral zero_less_numeral zero_less_power)
  ultimately show ?thesis by (simp add: unsigned_ucast_eq take_bit_nat_eq_self)
qed

text \<open>
  What does not fit a field is clamped or masked and never spills into a neighbour: speeds are
  capped at 140 kph, density at 15, the lane count is between 1 and 15, access masks keep their
  twelve low bits and restriction masks their eight low bits, a length above the limit is
  stored as the limit or rejected; what fits is stored exactly.
\<close>

theorem setters_clamp:
  "unat (de_speed (de_set_speed x e)) = min (unat x) 140
   \<and> unat (de_truck_speed (de_set_truck_speed x e)) = min (unat x) 140
   \<and> unat (de_free_flow_speed (de_set_free_flow_speed x e)) = min (unat x) 140
   \<and> unat (de_constrained_flow_speed (de_set_constrained_flow_speed x e)) = min (unat x) 140
   \<and> unat (de_density (de_set_density x e)) = min (unat x) 15
   \<and> unat (de_lanecount (de_set_lanecount x e)) = max 1 (min (unat x) 15)
   \<and> unat (de_localedgeidx (de_set_localedgeidx x e)) = min (unat x) 127
   \<and> unat (de_forwardaccess (de_set_forwardaccess x e)) = unat x mod 4096
   \<and> unat (de_restrictions (de_set_restrictions x e)) = unat x mod 256
   \<and> de_set_length x False e = Inr (e\<lparr>de_length := word_of_nat (min (unat x) 16777215)\<rparr>)
   \<and> (de_set_length x True e = (if unat x \<le> 16777215 then Inr (e\<lparr>de_length := ucast x\<rparr>)
        else Inl (Runtime_error ''DirectedEdgeBuilder: exceeded maximum edge length'')))"
proof -
  have sp: "unat (ucast (min x kMaxAssumedSpeed) :: 8 word) = min (unat x) 140"
    by (subst ucast_capped) (simp_all add: kMaxAssumedSpeed_def)
  have dn: "unat (ucast (min x kMaxDensity) :: 4 word) = min (unat x) 15"
    by (subst ucast_capped) (simp_all add: kMaxDensity_def)
  have ln: "unat (ucast (min x kMaxLaneCount) :: 4 word) = min (unat x) 15"
    by (subst ucast_capped) (simp_all add: kMaxLaneCount_def)
  have li: "unat (ucast (min x kMaxEdgesPerNode) :: 7 word) = min (unat x) 127"
    by (subst ucast_capped) (simp_all add: kMaxEdgesPerNode_def)
  have le: "unat (ucast (min x kMaxEdgeLength) :: 24 word) = min (unat x) 16777215"
    by (subst ucast_capped) (simp_all add: kMaxEdgeLength_def)
  have wl: "(ucast (min x kMaxEdgeLength) :: 24 word) = word_of_nat (min (unat x) 16777215)"
    by (simp flip: le)
  have fits: "(m :: u32) AND mask k = m" if "unat m < 2 ^ k" for m k
    using that by (simp add: take_bit_eq_mask [symmetric] take_bit_self_iff)
  have a: "kAllAccess = mask 12"
    by (simp add: kAllAccess_def mask_eq_exp_minus_1)
  have fa: "unat (de_forwardaccess (de_set_forwardaccess x e)) = unat x mod 4096"
    using masked [of 12, where ?'a = 12 and m = x] fits [of x 12]
    by (auto simp: de_set_forwardaccess_def a word_less_nat_alt mask_eq_exp_minus_1 not_less)
  have rs: "unat (de_restrictions (de_set_restrictions x e)) = unat x mod 256"
    using masked [of 8, where ?'a = 8 and m = x] fits [of x 8]
    by (auto simp: de_set_restrictions_def kMaxTurnRestrictionEdges_def word_le_nat_alt mask_eq_exp_minus_1)
  have lc: "unat (de_lanecount (de_set_lanecount x e)) = max 1 (min (unat x) 15)"
    using ln by (auto simp: de_set_lanecount_def min_def max_def word_less_nat_alt not_less word_le_nat_alt
      kMaxLaneCount_def Suc_le_eq unat_gt_0 split: if_splits)
  have cap: "(if k < x then ucast k else ucast x) = ucast (min x k)" for k
    by (auto simp: min_def)
  have big: "kMaxEdgeLength < x \<longleftrightarrow> \<not> unat x \<le> 16777215"
    by (simp add: kMaxEdgeLength_def word_less_nat_alt not_le)
  show ?thesis
  proof (intro conjI)
    show "unat (de_speed (de_set_speed x e)) = min (unat x) 140"
      unfolding de_set_speed_def cap by (simp add: sp)
    show "unat (de_truck_speed (de_set_truck_speed x e)) = min (unat x) 140"
      unfolding de_set_truck_speed_def cap by (simp add: sp)
    show "unat (de_free_flow_speed (de_set_free_flow_speed x e)) = min (unat x) 140"
      unfolding de_set_free_flow_speed_def cap by (simp add: sp)
    show "unat (de_constrained_flow_speed (de_set_constrained_flow_speed x e)) = min (unat x) 140"
      unfolding de_set_constrained_flow_speed_def cap by (simp add: sp)
    show "unat (de_density (de_set_density x e)) = min (unat x) 15"
      unfolding de_set_density_def cap by (simp add: dn)
    show "unat (de_localedgeidx (de_set_localedgeidx x e)) = min (unat x) 127"
      unfolding de_set_localedgeidx_def cap by (simp add: li)
    show "de_set_length x False e = Inr (e\<lparr>de_length := word_of_nat (min (unat x) 16777215)\<rparr>)"
      unfolding wl [symmetric] by (auto simp: de_set_length_def min_def)
    show "de_set_length x True e = (if unat x \<le> 16777215 then Inr (e\<lparr>de_length := ucast x\<rparr>)
        else Inl (Runtime_error ''DirectedEdgeBuilder: exceeded maximum edge length''))"
      unfolding de_set_length_def big by simp
  qed (fact lc fa rs)+
qed

lemma ffs_loop_single:
  "k < fuel \<Longrightarrow> k < 32 \<Longrightarrow> ffs_loop fuel (push_bit k 1) idx = idx + k"
proof (induction fuel arbitrary: k idx)
  case (Suc fuel)
  show ?case
  proof (cases k)
    case (Suc j)
    have "push_bit k (1 :: u32) AND 1 = 0" by (rule bit_word_eqI) (auto simp: Suc bit_simps)
    moreover have "drop_bit 1 (push_bit k (1 :: u32)) = push_bit j 1"
      using Suc.prems by (intro bit_word_eqI) (auto simp: Suc bit_simps)
    ultimately show ?thesis using Suc.IH [of j "idx + 1"] Suc.prems Suc by simp
  qed simp
qed simp

text \<open>
  The shortcut masks identify their edge: the index that a superseded mask was set from is
  the index read back for all eight values the builder uses, a larger one leaves the mask as it was,
  and setting a shortcut keeps the mask within its seven bits while the flag is set for every
  non-zero index.
\<close>

theorem superseded_roundtrip:
  "superseded_idx (de_set_superseded s e) = (if unat s \<le> 7 then unat s else superseded_idx e)
   \<and> de_is_shortcut (de_set_shortcut s e) = (if s = 0 then de_is_shortcut e else True)
   \<and> (de_shortcut (de_set_shortcut s e)
      = (if 1 \<le> unat s \<and> unat s \<le> 7 then push_bit (unat s - 1) 1 else de_shortcut e))"
proof -
  have le: "s \<le> kMaxShortcutsFromNode \<longleftrightarrow> unat s \<le> 7" "kMaxShortcutsFromNode < s \<longleftrightarrow> \<not> unat s \<le> 7"
    by (simp_all add: kMaxShortcutsFromNode_def word_le_nat_alt word_less_nat_alt not_le)
  have z: "s = 0 \<longleftrightarrow> unat s = 0" by (simp add: unat_eq_0)
  have m: "unat (s - 1) = unat s - 1" if "s \<noteq> 0" using that by (simp add: unat_minus_one)
  have c: "ucast (push_bit k (1 :: u32)) = (push_bit k 1 :: 7 word)" if "k < 7" for k
    using that by (intro bit_word_eqI) (auto simp: bit_simps)
  have u: "ucast (push_bit k 1 :: 7 word) = (push_bit k 1 :: u32)" if "k < 7" for k
    using that by (intro bit_word_eqI) (auto simp: bit_simps)
  have nz: "push_bit k 1 \<noteq> (0 :: u32)" if "k < 7" for k
    using that by (simp add: push_bit_eq_mult)
  have "superseded_idx (de_set_superseded s e) = unat s" if "unat s \<le> 7"
  proof (cases "s = 0")
    case True
    then show ?thesis by (simp add: superseded_idx_def de_set_superseded_def le)
  next
    case False
    then have k: "unat s - 1 < 7" "unat s \<noteq> 0" using that z by auto
    then show ?thesis
      using False that ffs_loop_single [of "unat s - 1" 32 1]
      by (simp add: superseded_idx_def de_set_superseded_def le m c u nz Let_def del: push_bit_of_1)
  qed
  then show ?thesis
    using z c [of "unat s - 1"] by (auto simp: superseded_idx_def de_set_superseded_def de_set_shortcut_def le m Let_def)
qed

end
