(* ===== verification/Tile_Builder.thy ===== *)
theory Tile_Builder
  imports Edge_Tags Directed_Edge
begin

text \<open>
  The part of \<^verbatim>\<open>GraphTileBuilder\<close> (\<^verbatim>\<open>src/mjolnir/graphtilebuilder.cc\<close>) that stores edge infos
  and names: the list of edge info builders, the offsets of directed edges into it, and the text
  list. The builder works on a tile read back from disk (\<^verbatim>\<open>AddTaggedValues\<close>) or on one being
  built (\<^verbatim>\<open>AddEdgeInfo\<close>). A pointer to an edge info builder is its index in the list. Hash maps are
  association lists; their iteration order does not matter because their keys are distinct.
\<close>

section \<open>State\<close>

type_synonym edge_tuple = "u32 \<times> graph_id \<times> graph_id"

record tile_builder =
  graphid :: graph_id
  directededgecount :: u32
  directededges_builder :: "directed_edge list"
  edgeinfo_list :: "edge_info_builder list"
  edgeinfo_offset_map :: "(u32 \<times> nat) list"
  edge_offset_map :: "(edge_tuple \<times> nat) list"
  edge_info_offset :: nat
  textlistbuilder :: "u8 list list"
  text_offset_map :: "(u8 list \<times> u32) list"
  text_list_offset :: u32

text \<open>The members of a builder that was constructed without reading a tile.\<close>

definition new_tile_builder :: "graph_id \<Rightarrow> tile_builder" where
  "new_tile_builder g =
     \<lparr>graphid = g, directededgecount = 0, directededges_builder = [], edgeinfo_list = [],
      edgeinfo_offset_map = [], edge_offset_map = [], edge_info_offset = 0,
      textlistbuilder = [[]], text_offset_map = [([], 0)], text_list_offset = 1\<rparr>"

section \<open>Names\<close>

definition AddName :: "u8 list \<Rightarrow> tile_builder \<Rightarrow> u32 \<times> tile_builder" where
  "AddName name tb =
     (if name = [] then (0, tb)
      else case map_of (text_offset_map tb) name of
        None \<Rightarrow> (text_list_offset tb,
                 tb\<lparr>textlistbuilder := textlistbuilder tb @ [name],
                    text_offset_map := (name, text_list_offset tb) # text_offset_map tb,
                    text_list_offset := text_list_offset tb + (word_of_nat (length name) + 1)\<rparr>)
      | Some off \<Rightarrow> (off, tb))"

definition make_name_info :: "u32 \<Rightarrow> bool \<Rightarrow> bool \<Rightarrow> name_info" where
  "make_name_info offset route tagged =
     \<lparr>name_offset_f = ucast offset, additional_fields_f = 0, is_route_num_f = route, tagged_f = tagged, spare_f = 0\<rparr>"

section \<open>Adding edge infos\<close>

definition EdgeTuple :: "u32 \<Rightarrow> graph_id \<Rightarrow> graph_id \<Rightarrow> edge_tuple" where
  "EdgeTuple edgeindex nodea nodeb =
     (if nodea < nodeb then (edgeindex, nodea, nodeb) else (edgeindex, nodeb, nodea))"

definition HasEdgeInfo :: "u32 \<Rightarrow> graph_id \<Rightarrow> graph_id \<Rightarrow> tile_builder \<Rightarrow> u32 option" where
  "HasEdgeInfo edgeindex nodea nodeb tb =
     map_option word_of_nat (map_of (edge_offset_map tb) (EdgeTuple edgeindex nodea nodeb))"

text \<open>
  The two loops that collect the name list, and the linguistic record at its end. The name count is
  the length of the list so far; \<open>location\<close> counts blank names too.
\<close>

fun add_names_loop ::
  "u16 \<Rightarrow> u8 list list \<Rightarrow> nat \<Rightarrow> tile_builder \<Rightarrow> name_info list \<Rightarrow> tile_builder \<times> name_info list" where
  "add_names_loop types [] location tb acc = (tb, acc)"
| "add_names_loop types (name # names) location tb acc =
     (if length acc = kMaxNamesPerEdge then (tb, acc)
      else if name \<noteq> [] then
        let (off, tb') = AddName name tb
        in add_names_loop types names (location + 1) tb' (acc @ [make_name_info off (bit types location) False])
      else add_names_loop types names (location + 1) tb acc)"

fun add_tagged_loop ::
  "u8 list list \<Rightarrow> tile_builder \<Rightarrow> name_info list \<Rightarrow> tile_builder \<times> name_info list" where
  "add_tagged_loop [] tb acc = (tb, acc)"
| "add_tagged_loop (name # names) tb acc =
     (if length acc = kMaxNamesPerEdge then (tb, acc)
      else if name \<noteq> [] then
        let (off, tb') = AddName name tb
        in add_tagged_loop names tb' (acc @ [make_name_info off False True])
      else add_tagged_loop names tb acc)"

definition ProcessTaggedValues ::
  "u8 list list \<Rightarrow> tile_builder \<Rightarrow> name_info list \<Rightarrow> tile_builder \<times> name_info list" where
  "ProcessTaggedValues names tb acc =
     (if names \<noteq> [] \<and> length acc \<noteq> kMaxNamesPerEdge then
        let (off, tb') = AddName (tag_byte kLinguistic # concat names) tb
        in (tb', acc @ [make_name_info off False True])
      else (tb, acc))"

definition add_edge_info_names ::
  "u16 \<Rightarrow> u8 list list \<Rightarrow> u8 list list \<Rightarrow> u8 list list \<Rightarrow> tile_builder \<Rightarrow> tile_builder \<times> name_info list" where
  "add_edge_info_names types names tagged_values linguistics tb =
     (let (tb1, l1) = add_names_loop types names 0 tb [];
          (tb2, l2) = add_tagged_loop tagged_values tb1 l1
      in ProcessTaggedValues linguistics tb2 l2)"

text \<open>
  \<^verbatim>\<open>AddEdgeInfo\<close>: \<open>put_shape\<close> is the call that sets the shape, \<^verbatim>\<open>set_shape\<close> of points in one
  overload and \<^verbatim>\<open>set_encoded_shape\<close> in the other; the rest of the two is the same text. The
  result is the offset, the flag \<^verbatim>\<open>added\<close> and the builder.
\<close>

definition add_edge_info ::
  "(edge_info_builder \<Rightarrow> edge_info_builder result) \<Rightarrow> u32 \<Rightarrow> graph_id \<Rightarrow> graph_id \<Rightarrow> u64 \<Rightarrow> rat \<Rightarrow> u32 \<Rightarrow> u32
    \<Rightarrow> u8 list list \<Rightarrow> u8 list list \<Rightarrow> u8 list list \<Rightarrow> u16 \<Rightarrow> bool \<Rightarrow> tile_builder
    \<Rightarrow> (u32 \<times> bool \<times> tile_builder) result" where
  "add_edge_info put_shape edgeindex nodea nodeb way elev bn spd names tagged_values linguistics types diff_names tb =
     (let key = EdgeTuple edgeindex nodea nodeb; existing = map_of (edge_offset_map tb) key
      in if diff_names \<or> existing = None then
           bind_result (put_shape (set_speed_limit spd (set_bike_network bn
             (set_mean_elevation elev (set_wayid way (new_builder 0 0)))))) (\<lambda>eb.
           let (tb', nis) = add_edge_info_names types names tagged_values linguistics tb;
               eb' = set_name_info_list nis eb
           in Inr (word_of_nat (edge_info_offset tb'), True,
                tb'\<lparr>edgeinfo_list := edgeinfo_list tb' @ [eb'],
                    edge_offset_map := (if existing = None then (key, edge_info_offset tb') # edge_offset_map tb'
                                        else edge_offset_map tb'),
                    edge_info_offset := edge_info_offset tb' + SizeOf eb'\<rparr>))
         else Inr (word_of_nat (the existing), False, tb))"

definition AddEdgeInfo_points where
  "AddEdgeInfo_points lls = add_edge_info (set_shape lls)"

definition AddEdgeInfo_encoded where
  "AddEdgeInfo_encoded llstr = add_edge_info (\<lambda>eb. Inr (set_encoded_shape llstr eb))"

definition tb_set_mean_elevation :: "rat \<Rightarrow> tile_builder \<Rightarrow> tile_builder result" where
  "tb_set_mean_elevation elev tb =
     (if edgeinfo_list tb = [] then Inl Undefined
      else Inr (tb\<lparr>edgeinfo_list := butlast (edgeinfo_list tb) @ [set_mean_elevation elev (last (edgeinfo_list tb))]\<rparr>))"

definition set_elevation :: "u32 \<Rightarrow> rat \<Rightarrow> u8 list \<Rightarrow> tile_builder \<Rightarrow> u32 \<times> tile_builder" where
  "set_elevation offset mean encoded tb =
     (case map_of (edgeinfo_offset_map tb) offset of
        None \<Rightarrow> (0, tb)
      | Some i \<Rightarrow>
          let eb = set_mean_elevation mean (edgeinfo_list tb ! i);
              eb' = (if encoded \<noteq> [] then set_has_elevation True (set_encoded_elevation encoded eb) else eb)
          in (word_of_nat (SizeOf eb'), tb\<lparr>edgeinfo_list := (edgeinfo_list tb)[i := eb']\<rparr>))"

section \<open>Tagged values\<close>

text \<open>\<^verbatim>\<open>std::map\<close> from original offset to added bytes, in key order.\<close>

fun growth_add :: "u32 \<Rightarrow> u32 \<Rightarrow> (u32 \<times> u32) list \<Rightarrow> (u32 \<times> u32) list" where
  "growth_add k n [] = [(k, n)]"
| "growth_add k n ((k', n') # g) =
     (if k < k' then (k, n) # (k', n') # g
      else if k = k' then (k', n' + n) # g
      else (k', n') # growth_add k n g)"

type_synonym tag_state = "tile_builder \<times> (u32 \<times> u32) list \<times> nat"

definition add_tagged_step ::
  "tagged_value \<Rightarrow> graph_id \<times> u8 list \<Rightarrow> tag_state \<Rightarrow> tag_state result" where
  "add_tagged_step tag ev st =
     (let (edge_id, val) = ev; (tb, growth, added) = st
      in bind_result (tile_base (graphid tb)) (\<lambda>base.
         bind_result (tile_base edge_id) (\<lambda>ebase.
         if base \<noteq> ebase
         then Inl (Runtime_error ''Can't add tagged value: tile id or hierarchy level doesn't match with the current builder'')
         else if directededgecount tb \<le> gid_id edge_id
         then Inl (Runtime_error ''Given edge doesn't exist: edge id is larger than total edge size in this tile'')
         else if length (directededges_builder tb) \<le> unat (gid_id edge_id) then Inl Undefined
         else
           let original_offset = ucast (de_edgeinfo_offset (directededges_builder tb ! unat (gid_id edge_id)))
           in case map_of (edgeinfo_offset_map tb) original_offset of
             None \<Rightarrow> Inl (Runtime_error (''Couldn't find edge info for the given edge: '' @ gid_to_string edge_id))
           | Some i \<Rightarrow>
               let eb = edgeinfo_list tb ! i
               in if kMaxNamesPerEdge \<le> name_info_count eb then Inr st
                  else
                    let (name_offset, tb') = AddName (tag_byte tag # val) tb
                    in if has_name_info name_offset eb then Inr (tb', growth, added)
                       else Inr (tb'\<lparr>edgeinfo_list := (edgeinfo_list tb')[i := AddNameInfo (make_name_info name_offset False True) eb]\<rparr>,
                                 growth_add original_offset 4 growth, added + 1))))"

fun add_tagged_values_loop ::
  "tagged_value \<Rightarrow> (graph_id \<times> u8 list) list \<Rightarrow> tag_state \<Rightarrow> tag_state result" where
  "add_tagged_values_loop tag [] st = Inr st"
| "add_tagged_values_loop tag (ev # evs) st =
     bind_result (add_tagged_step tag ev st) (add_tagged_values_loop tag evs)"

text \<open>The prefix sums, and \<^verbatim>\<open>shift_for\<close>: \<^verbatim>\<open>std::lower_bound\<close> and one step back.\<close>

fun cumulate :: "u32 \<Rightarrow> (u32 \<times> u32) list \<Rightarrow> (u32 \<times> u32) list" where
  "cumulate before [] = []"
| "cumulate before ((k, n) # g) = (k, before + n) # cumulate (before + n) g"

definition shift_for :: "(u32 \<times> u32) list \<Rightarrow> u32 \<Rightarrow> u32" where
  "shift_for cumulative offset =
     (let below = takeWhile (\<lambda>entry. fst entry < offset) cumulative
      in if below = [] then 0 else snd (last below))"

fun shift_edges :: "(u32 \<times> u32) list \<Rightarrow> directed_edge list \<Rightarrow> directed_edge list result" where
  "shift_edges c [] = Inr []"
| "shift_edges c (e # es) =
     bind_result (de_set_edgeinfo_offset (ucast (de_edgeinfo_offset e) + shift_for c (ucast (de_edgeinfo_offset e))) e)
       (\<lambda>e'. bind_result (shift_edges c es) (\<lambda>es'. Inr (e' # es')))"

fun shift_map :: "(u32 \<times> u32) list \<Rightarrow> (u32 \<times> nat) list \<Rightarrow> (u32 \<times> nat) list \<Rightarrow> (u32 \<times> nat) list" where
  "shift_map c [] acc = acc"
| "shift_map c ((k, i) # m) acc =
     (let k' = k + shift_for c k
      in shift_map c m (if map_of acc k' = None then (k', i) # acc else acc))"

definition AddTaggedValues ::
  "tagged_value \<Rightarrow> (graph_id \<times> u8 list) list \<Rightarrow> tile_builder \<Rightarrow> (nat \<times> tile_builder) result" where
  "AddTaggedValues tag vals tb =
     bind_result (add_tagged_values_loop tag vals (tb, [], 0)) (\<lambda>(tb', growth, added).
     if added = 0 then Inr (0, tb')
     else let cumulative = cumulate 0 growth;
              grown = (if cumulative = [] then 0 else snd (last cumulative))
          in bind_result (shift_edges cumulative (directededges_builder tb')) (\<lambda>es.
             Inr (added, tb'\<lparr>edge_info_offset := edge_info_offset tb' + unat grown,
                            directededges_builder := es,
                            edgeinfo_offset_map := shift_map cumulative (edgeinfo_offset_map tb') []\<rparr>)))"

definition AddTaggedValue :: "graph_id \<Rightarrow> tagged_value \<Rightarrow> u8 list \<Rightarrow> tile_builder \<Rightarrow> (bool \<times> tile_builder) result" where
  "AddTaggedValue edge_id tag val tb =
     bind_result (AddTaggedValues tag [(edge_id, val)] tb) (\<lambda>(n, tb'). Inr (n > 0, tb'))"

definition AddLandmark :: "graph_id \<Rightarrow> u8 list \<Rightarrow> tile_builder \<Rightarrow> tile_builder result" where
  "AddLandmark edge_id landmark_str tb =
     bind_result (AddTaggedValue edge_id kLandmark landmark_str tb) (\<lambda>(_, tb'). Inr tb')"

text \<open>The bytes \<^verbatim>\<open>StoreTileData\<close> writes for the edge infos and the text list.\<close>

definition edgeinfo_bytes :: "tile_builder \<Rightarrow> u8 list" where
  "edgeinfo_bytes tb = concat (map write_edge_info (edgeinfo_list tb))"

definition text_bytes :: "tile_builder \<Rightarrow> u8 list" where
  "text_bytes tb = concat (map (\<lambda>s. s @ [0]) (textlistbuilder tb))"

section \<open>The growth table\<close>

definition sorted_keys :: "(u32 \<times> u32) list \<Rightarrow> bool" where
  "sorted_keys g \<longleftrightarrow> sorted_wrt (\<lambda>a b. fst a < fst b) g"

definition grown_by :: "(u32 \<times> u32) list \<Rightarrow> u32 \<Rightarrow> nat" where
  "grown_by g k = (case map_of g k of None \<Rightarrow> 0 | Some n \<Rightarrow> unat n)"

definition growth_sum :: "(u32 \<times> u32) list \<Rightarrow> nat" where
  "growth_sum g = sum_list (map (\<lambda>e. unat (snd e)) g)"

lemma growth_sum_simps [simp]:
  "growth_sum [] = 0" "growth_sum (e # g) = unat (snd e) + growth_sum g"
  by (simp_all add: growth_sum_def)

lemma set_growth_add: "fst ` set (growth_add k n g) = insert k (fst ` set g)"
  by (induction k n g rule: growth_add.induct) auto

lemma sorted_growth_add: "sorted_keys g \<Longrightarrow> sorted_keys (growth_add k n g)"
proof (induction k n g rule: growth_add.induct)
  case (2 k n k' n' g)
  have keys: "\<forall>x \<in> set (growth_add k n g). fst x \<in> insert k (fst ` set g)"
    using set_growth_add [of k n g] by blast
  show ?case
  proof (cases "k < k'")
    case False
    have "\<forall>y \<in> fst ` set g. k' < y" using 2(2) by (auto simp: sorted_keys_def)
    then have "k \<noteq> k' \<Longrightarrow> \<forall>x \<in> set (growth_add k n g). k' < fst x" using keys False by fastforce
    then show ?thesis
      using 2 False by (auto simp: sorted_keys_def)
  qed (use 2 in \<open>auto simp: sorted_keys_def\<close>)
qed (simp add: sorted_keys_def)

lemma unat_add_small: "unat a + unat b < 2 ^ LENGTH('a) \<Longrightarrow> unat (a + b) = unat a + unat (b :: 'a::len word)"
  using unat_add_lem by blast

lemma growth_add_facts:
  "sorted_keys g \<Longrightarrow> growth_sum g + unat n < 2 ^ 32 \<Longrightarrow>
    growth_sum (growth_add k n g) = growth_sum g + unat n
    \<and> (\<forall>k'. grown_by (growth_add k n g) k' = grown_by g k' + (if k' = k then unat n else 0))"
proof (induction k n g rule: growth_add.induct)
  case (2 k n k1 n1 g)
  have u: "unat (n1 + n) = unat n1 + unat n" using 2(3) by (intro unat_add_small) simp
  have none: "map_of g k = None" if "k < k1 \<or> k = k1"
  proof -
    have "k \<notin> fst ` set g" using 2(2) that by (auto simp: sorted_keys_def)
    then show ?thesis by (simp add: map_of_eq_None_iff)
  qed
  have tl: "sorted_keys g" "growth_sum g + unat n < 2 ^ 32" using 2(2,3) by (simp_all add: sorted_keys_def)
  show ?case
  proof (cases "k < k1 \<or> k = k1")
    case True
    then show ?thesis using u none by (auto simp: grown_by_def split: option.splits)
  next
    case False
    then have "growth_sum (growth_add k n g) = growth_sum g + unat n
      \<and> (\<forall>k'. grown_by (growth_add k n g) k' = grown_by g k' + (if k' = k then unat n else 0))"
      using "2.IH" tl by blast
    then show ?thesis using False by (auto simp: grown_by_def)
  qed
qed (simp add: grown_by_def)

lemma sum_grown:
  assumes "sorted_keys g"
  shows "growth_sum (filter (\<lambda>e. P (fst e)) g) = (\<Sum>k \<in> {k \<in> fst ` set g. P k}. grown_by g k)"
  using assms
proof (induction g)
  case (Cons e g)
  have s: "sorted_keys g" and lt: "\<forall>k \<in> fst ` set g. fst e < k" using Cons.prems by (auto simp: sorted_keys_def)
  have ne: "fst e \<notin> fst ` set g" using lt by blast
  have same: "grown_by (e # g) k = grown_by g k" if "k \<in> fst ` set g" for k
  proof -
    have "k \<noteq> fst e" using that ne by blast
    then show ?thesis by (simp add: grown_by_def)
  qed
  have rest: "(\<Sum>k \<in> {k \<in> fst ` set g. P k}. grown_by (e # g) k) = (\<Sum>k \<in> {k \<in> fst ` set g. P k}. grown_by g k)"
    by (rule sum.cong) (simp_all add: same)
  show ?case
  proof (cases "P (fst e)")
    case True
    then have "{k \<in> fst ` set (e # g). P k} = insert (fst e) {k \<in> fst ` set g. P k}" by auto
    then show ?thesis using Cons.IH [OF s] rest ne True by (simp add: grown_by_def)
  next
    case False
    then have "{k \<in> fst ` set (e # g). P k} = {k \<in> fst ` set g. P k}" by auto
    then show ?thesis using Cons.IH [OF s] rest False by simp
  qed
qed simp

lemma shift_for_cumulate:
  assumes "sorted_keys g" "unat before + growth_sum g < 2 ^ 32"
  shows "unat (let below = takeWhile (\<lambda>e. fst e < off) (cumulate before g)
      in if below = [] then before else snd (last below))
    = unat before + growth_sum (filter (\<lambda>e. fst e < off) g)"
  using assms
proof (induction before g rule: cumulate.induct)
  case (2 before k n g)
  have u: "unat (before + n) = unat before + unat n" using 2(3) by (intro unat_add_small) simp
  have s: "sorted_keys g" and lt: "\<forall>e \<in> set g. k < fst e" using 2(2) by (auto simp: sorted_keys_def)
  show ?case
  proof (cases "k < off")
    case True
    have "unat (let below = takeWhile (\<lambda>e. fst e < off) (cumulate (before + n) g)
        in if below = [] then before + n else snd (last below))
      = unat (before + n) + growth_sum (filter (\<lambda>e. fst e < off) g)"
      using 2(3) u by (intro "2.IH" s) simp
    then show ?thesis using True u by (auto simp: Let_def split: if_splits)
  next
    case False
    then have "filter (\<lambda>e. fst e < off) g = []" using lt by (auto simp: filter_empty_conv)
    then show ?thesis using False by simp
  qed
qed simp

lemma cumulate_last:
  "unat before + growth_sum g < 2 ^ 32 \<Longrightarrow> g \<noteq> [] \<Longrightarrow> unat (snd (last (cumulate before g))) = unat before + growth_sum g"
proof (induction before g rule: cumulate.induct)
  case (2 before k n g)
  have u: "unat (before + n) = unat before + unat n" using 2(2) by (intro unat_add_small) simp
  show ?case
  proof (cases g)
    case Nil
    then show ?thesis using u by simp
  next
    case (Cons e g')
    then have "cumulate (before + n) g \<noteq> []" by (cases e) simp
    then show ?thesis using 2 u Cons by simp
  qed
qed simp

lemma unat_shift_for:
  assumes "sorted_keys g" "growth_sum g < 2 ^ 32"
  shows "unat (shift_for (cumulate 0 g) off) = (\<Sum>k \<in> {k \<in> fst ` set g. k < off}. grown_by g k)"
  using shift_for_cumulate [of g 0 off] assms sum_grown [OF assms(1), of "\<lambda>k. k < off"] by (simp add: shift_for_def)

section \<open>Offsets and records\<close>

text \<open>
  \<open>info_offset infos i\<close> is where the bytes of the \<open>i\<close>-th edge info start; \<open>offsets_ok\<close> is the invariant
  of a tile read back from disk: every edge info is found under its offset and nothing
  else is in the map.
\<close>

definition info_offset :: "edge_info_builder list \<Rightarrow> nat \<Rightarrow> nat" where
  "info_offset infos i = sum_list (map SizeOf (take i infos))"

definition offsets_ok :: "tile_builder \<Rightarrow> bool" where
  "offsets_ok tb \<longleftrightarrow>
     (let infos = edgeinfo_list tb; n = length infos in
        (\<forall>i < n. map_of (edgeinfo_offset_map tb) (word_of_nat (info_offset infos i)) = Some i)
      \<and> (\<forall>(k, i) \<in> set (edgeinfo_offset_map tb). i < n \<and> k = word_of_nat (info_offset infos i))
      \<and> edge_info_offset tb = info_offset infos n \<and> info_offset infos n < 2 ^ 25
      \<and> (\<forall>eb \<in> set infos. builder_ok eb))"

definition edge_info_index :: "tile_builder \<Rightarrow> nat \<Rightarrow> nat option" where
  "edge_info_index tb j = map_of (edgeinfo_offset_map tb) (ucast (de_edgeinfo_offset (directededges_builder tb ! j)))"

definition edge_record :: "tile_builder \<Rightarrow> nat \<Rightarrow> edge_info result" where
  "edge_record tb j =
     read_edge_info (drop (unat (de_edgeinfo_offset (directededges_builder tb ! j))) (edgeinfo_bytes tb)) (text_bytes tb)"

lemma SizeOf_pos: "12 \<le> SizeOf eb"
  by (simp add: SizeOf_value BaseSizeOf_def)

lemma info_offset_sum: "i \<le> length infos \<Longrightarrow> info_offset infos i = (\<Sum>j<i. SizeOf (infos ! j))"
  by (simp add: info_offset_def sum_list_sum_nth atLeast0LessThan)

lemma info_offset_Suc: "i < length infos \<Longrightarrow> info_offset infos (Suc i) = info_offset infos i + SizeOf (infos ! i)"
  by (simp add: info_offset_def take_Suc_conv_app_nth)

lemma info_offset_mono: "i \<le> j \<Longrightarrow> info_offset infos i \<le> info_offset infos j"
  by (auto simp: le_iff_add info_offset_def take_add)

lemma info_offset_less: "i < j \<Longrightarrow> j \<le> length infos \<Longrightarrow> info_offset infos i < info_offset infos j"
  using info_offset_Suc [of i infos] info_offset_mono [of "Suc i" j infos] SizeOf_pos [of "infos ! i"] by simp

lemma edgeinfo_bytes_at:
  assumes "\<forall>eb \<in> set (edgeinfo_list tb). builder_ok eb" "i < length (edgeinfo_list tb)"
  shows "\<exists>rest. drop (info_offset (edgeinfo_list tb) i) (edgeinfo_bytes tb) = write_edge_info (edgeinfo_list tb ! i) @ rest"
proof -
  let ?l = "edgeinfo_list tb"
  have split: "?l = take i ?l @ ?l ! i # drop (Suc i) ?l" using assms(2) by (simp add: id_take_nth_drop)
  have "length (concat (map write_edge_info xs)) = sum_list (map SizeOf xs)" if "\<forall>eb \<in> set xs. builder_ok eb" for xs
    using that by (induction xs) (simp_all add: length_write_edge_info)
  then have "length (concat (map write_edge_info (take i ?l))) = info_offset ?l i"
    using assms(1) by (auto simp: info_offset_def dest: in_set_takeD)
  moreover have "edgeinfo_bytes tb = concat (map write_edge_info (take i ?l))
      @ write_edge_info (?l ! i) @ concat (map write_edge_info (drop (Suc i) ?l))"
    unfolding edgeinfo_bytes_def by (subst split) simp
  ultimately show ?thesis by auto
qed

section \<open>The loop that appends\<close>

text \<open>What appending names to an edge info keeps.\<close>

definition extends :: "edge_info_builder \<Rightarrow> edge_info_builder \<Rightarrow> bool" where
  "extends eb eb' \<longleftrightarrow> eb' = eb\<lparr>b_name_info_list := b_name_info_list eb'\<rparr>
     \<and> take (length (b_name_info_list eb)) (b_name_info_list eb') = b_name_info_list eb"

lemma extends_refl [simp]: "extends eb eb"
  by (simp add: extends_def)

lemma extends_AddNameInfo: "extends eb eb' \<Longrightarrow> extends eb (AddNameInfo ni eb')"
proof -
  assume e: "extends eb eb'"
  then have "length (b_name_info_list eb) \<le> length (b_name_info_list eb')"
    unfolding extends_def by (metis length_take min.cobounded1)
  then show ?thesis using e
    by (cases eb; cases eb') (auto simp: extends_def AddNameInfo_def)
qed

lemma SizeOf_AddNameInfo:
  "name_info_count eb < kMaxNamesPerEdge \<Longrightarrow> SizeOf (AddNameInfo ni eb) = SizeOf eb + 4"
proof -
  assume "name_info_count eb < kMaxNamesPerEdge"
  then have "BaseSizeOf (AddNameInfo ni eb) = BaseSizeOf eb + 4"
    by (simp add: AddNameInfo_def name_info_count_def BaseSizeOf_def)
  then show ?thesis by (simp only: SizeOf_value mod_add_self2)
qed

definition loop_inv :: "tile_builder \<Rightarrow> nat \<Rightarrow> tag_state \<Rightarrow> bool" where
  "loop_inv tb0 bound st \<longleftrightarrow> (case st of (tb, g, added) \<Rightarrow>
     graphid tb = graphid tb0 \<and> directededgecount tb = directededgecount tb0
   \<and> directededges_builder tb = directededges_builder tb0
   \<and> edgeinfo_offset_map tb = edgeinfo_offset_map tb0 \<and> edge_info_offset tb = edge_info_offset tb0
   \<and> length (edgeinfo_list tb) = length (edgeinfo_list tb0)
   \<and> (\<forall>i < length (edgeinfo_list tb0). extends (edgeinfo_list tb0 ! i) (edgeinfo_list tb ! i)
        \<and> builder_ok (edgeinfo_list tb ! i)
        \<and> SizeOf (edgeinfo_list tb ! i) = SizeOf (edgeinfo_list tb0 ! i)
            + grown_by g (word_of_nat (info_offset (edgeinfo_list tb0) i)))
   \<and> sorted_keys g \<and> fst ` set g \<subseteq> (\<lambda>i. word_of_nat (info_offset (edgeinfo_list tb0) i)) ` {..<length (edgeinfo_list tb0)}
   \<and> growth_sum g = 4 * added \<and> added \<le> bound \<and> (added = 0 \<longrightarrow> g = []))"

lemma AddName_keeps:
  assumes "AddName name tb = (off, tb')"
  shows "graphid tb' = graphid tb" "directededgecount tb' = directededgecount tb"
    "directededges_builder tb' = directededges_builder tb" "edgeinfo_list tb' = edgeinfo_list tb"
    "edgeinfo_offset_map tb' = edgeinfo_offset_map tb" "edge_info_offset tb' = edge_info_offset tb"
  using assms by (auto simp: AddName_def split: if_splits option.splits)

lemma offset_word_inj:
  assumes "offsets_ok tb" "i < length (edgeinfo_list tb)" "j < length (edgeinfo_list tb)"
    and "(word_of_nat (info_offset (edgeinfo_list tb) i) :: u32) = word_of_nat (info_offset (edgeinfo_list tb) j)"
  shows "i = j"
proof -
  have "map_of (edgeinfo_offset_map tb) (word_of_nat (info_offset (edgeinfo_list tb) i)) = Some i"
    and j: "map_of (edgeinfo_offset_map tb) (word_of_nat (info_offset (edgeinfo_list tb) j)) = Some j"
    using assms(1-3) by (simp_all add: offsets_ok_def Let_def)
  then have "Some i = Some j" unfolding assms(4) by (elim trans [OF sym])
  then show ?thesis by simp
qed

lemma add_tagged_step_inv:
  assumes ok: "offsets_ok tb0" and inv: "loop_inv tb0 b st" and b: "4 * Suc b < 2 ^ 32"
    and step: "add_tagged_step tag ev st = Inr st'"
  shows "loop_inv tb0 (Suc b) st'"
proof -
  obtain tb g added where st: "st = (tb, g, added)" by (cases st)
  obtain edge_id val where ev: "ev = (edge_id, val)" by (cases ev)
  let ?off = "ucast (de_edgeinfo_offset (directededges_builder tb ! unat (gid_id edge_id))) :: u32"
  obtain i where i: "map_of (edgeinfo_offset_map tb) ?off = Some i"
    and r: "(if kMaxNamesPerEdge \<le> name_info_count (edgeinfo_list tb ! i) then Inr st
        else let (name_offset, tb') = AddName (tag_byte tag # val) tb
             in if has_name_info name_offset (edgeinfo_list tb ! i) then Inr (tb', g, added)
                else Inr (tb'\<lparr>edgeinfo_list := (edgeinfo_list tb')[i := AddNameInfo (make_name_info name_offset False True) (edgeinfo_list tb ! i)]\<rparr>,
                          growth_add ?off 4 g, added + 1)) = (Inr st' :: tag_state result)"
    using step by (auto simp: add_tagged_step_def st ev Let_def bind_result_eq_Inr split: if_splits option.splits)
  have maps: "edgeinfo_offset_map tb = edgeinfo_offset_map tb0" "length (edgeinfo_list tb) = length (edgeinfo_list tb0)"
    using inv by (simp_all add: loop_inv_def st)
  have "(?off, i) \<in> set (edgeinfo_offset_map tb0)" using i maps(1) by (simp add: map_of_SomeD)
  then have il: "i < length (edgeinfo_list tb0)" and off: "?off = word_of_nat (info_offset (edgeinfo_list tb0) i)"
    using ok by (auto simp: offsets_ok_def Let_def)
  show ?thesis
  proof (cases "kMaxNamesPerEdge \<le> name_info_count (edgeinfo_list tb ! i)")
    case True
    then show ?thesis using r inv by (auto simp: loop_inv_def)
  next
    case False
    obtain no tb1 where an: "AddName (tag_byte tag # val) tb = (no, tb1)" by (cases "AddName (tag_byte tag # val) tb")
    note keeps = AddName_keeps [OF an]
    show ?thesis
    proof (cases "has_name_info no (edgeinfo_list tb ! i)")
      case True
      then have "st' = (tb1, g, added)" using r False by (simp add: an)
      then show ?thesis using inv by (auto simp: loop_inv_def st keeps)
    next
      case new: False
      let ?eb = "AddNameInfo (make_name_info no False True) (edgeinfo_list tb ! i)"
      have st': "st' = (tb1\<lparr>edgeinfo_list := (edgeinfo_list tb1)[i := ?eb]\<rparr>, growth_add ?off 4 g, added + 1)"
        using r False new by (simp add: an)
      have s: "sorted_keys g" and sum: "growth_sum g = 4 * added" "added \<le> b" using inv by (auto simp: loop_inv_def st)
      have gs: "growth_sum g + unat (4 :: u32) < 2 ^ 32" using sum b by simp
      note ga = growth_add_facts [OF s gs, of ?off]
      have sub: "fst ` set g \<subseteq> (\<lambda>i. word_of_nat (info_offset (edgeinfo_list tb0) i)) ` {..<length (edgeinfo_list tb0)}"
        using inv by (simp add: loop_inv_def st)
      have mem: "?off \<in> (\<lambda>i. word_of_nat (info_offset (edgeinfo_list tb0) i)) ` {..<length (edgeinfo_list tb0)}"
        unfolding off using il by blast
      have grown: "grown_by (growth_add ?off 4 g) (word_of_nat (info_offset (edgeinfo_list tb0) j))
          = grown_by g (word_of_nat (info_offset (edgeinfo_list tb0) j)) + (if j = i then 4 else 0)"
        if "j < length (edgeinfo_list tb0)" for j
        using ga offset_word_inj [OF ok that il] by (auto simp: off)
      have "SizeOf ?eb = SizeOf (edgeinfo_list tb ! i) + 4" using False by (intro SizeOf_AddNameInfo) simp
      moreover have "builder_ok ?eb" using inv il by (intro builder_ok_ops) (simp add: loop_inv_def st)
      moreover have "extends (edgeinfo_list tb0 ! i) ?eb" using inv il by (intro extends_AddNameInfo) (simp add: loop_inv_def st)
      moreover have "fst ` set (growth_add ?off 4 g)
          \<subseteq> (\<lambda>i. word_of_nat (info_offset (edgeinfo_list tb0) i)) ` {..<length (edgeinfo_list tb0)}"
        using sub mem by (simp only: set_growth_add insert_subset)
      moreover have "sorted_keys (growth_add ?off 4 g)" by (rule sorted_growth_add [OF s])
      ultimately show ?thesis
        using inv ga sum grown by (auto simp: loop_inv_def st st' keeps nth_list_update)
    qed
  qed
qed

lemma add_tagged_values_loop_inv:
  assumes "offsets_ok tb0" "loop_inv tb0 b st" "4 * (b + length evs) < 2 ^ 32"
    and "add_tagged_values_loop tag evs st = Inr st'"
  shows "loop_inv tb0 (b + length evs) st'"
  using assms(2-4)
proof (induction evs arbitrary: b st)
  case (Cons ev evs)
  then obtain st1 where st1: "add_tagged_step tag ev st = Inr st1" and rest: "add_tagged_values_loop tag evs st1 = Inr st'"
    by (auto simp: bind_result_eq_Inr)
  have "loop_inv tb0 (Suc b) st1"
    using Cons.prems by (intro add_tagged_step_inv [OF assms(1) Cons.prems(1) _ st1]) simp
  then show ?case using Cons.IH [of "Suc b" st1] rest Cons.prems(2) by simp
qed (simp add: loop_inv_def)

section \<open>Fixing the offsets\<close>

text \<open>What the loop has established when it is done, for a tile with room for what was added.\<close>

definition tagged_tile :: "tile_builder \<Rightarrow> tile_builder \<Rightarrow> (u32 \<times> u32) list \<Rightarrow> nat \<Rightarrow> nat \<Rightarrow> bool" where
  "tagged_tile tb0 tb g added b \<longleftrightarrow> offsets_ok tb0 \<and> loop_inv tb0 b (tb, g, added)
     \<and> info_offset (edgeinfo_list tb0) (length (edgeinfo_list tb0)) + 4 * b < 2 ^ 25"

abbreviation ninfos :: "tile_builder \<Rightarrow> nat" where
  "ninfos tb \<equiv> length (edgeinfo_list tb)"

abbreviation info_key :: "tile_builder \<Rightarrow> nat \<Rightarrow> u32" where
  "info_key tb i \<equiv> word_of_nat (info_offset (edgeinfo_list tb) i)"

lemma tagged_facts:
  assumes "tagged_tile tb0 tb g added b"
  shows "offsets_ok tb0" and "ninfos tb = ninfos tb0" and "sorted_keys g"
    and "fst ` set g \<subseteq> info_key tb0 ` {..<ninfos tb0}" and "growth_sum g = 4 * added" and "added \<le> b"
    and "i < ninfos tb0 \<Longrightarrow> SizeOf (edgeinfo_list tb ! i) = SizeOf (edgeinfo_list tb0 ! i) + grown_by g (info_key tb0 i)"
    and "i < ninfos tb0 \<Longrightarrow> builder_ok (edgeinfo_list tb ! i)"
    and "i < ninfos tb0 \<Longrightarrow> extends (edgeinfo_list tb0 ! i) (edgeinfo_list tb ! i)"
    and "info_offset (edgeinfo_list tb0) (ninfos tb0) + growth_sum g < 2 ^ 25" and "growth_sum g < 2 ^ 32"
    and "i \<le> ninfos tb0 \<Longrightarrow> info_offset (edgeinfo_list tb0) i < 2 ^ 25"
  using assms info_offset_mono [of i "ninfos tb0" "edgeinfo_list tb0"]
  by (auto simp: tagged_tile_def loop_inv_def)

lemma unat_key: "info_offset (edgeinfo_list tb) i < 2 ^ 25 \<Longrightarrow> unat (info_key tb i) = info_offset (edgeinfo_list tb) i"
  by (intro word_of_nat_div) simp

lemma info_offset_less_iff:
  "i \<le> length infos \<Longrightarrow> j \<le> length infos \<Longrightarrow> info_offset infos i < info_offset infos j \<longleftrightarrow> i < j"
  using info_offset_less [of i j infos] info_offset_mono [of j i infos] by (metis not_le)

lemma inj_key0: "tagged_tile tb0 tb g added b \<Longrightarrow> i \<le> ninfos tb0 \<Longrightarrow> inj_on (info_key tb0) {..<i}"
  using offset_word_inj [OF tagged_facts(1)] by (intro inj_onI) auto

lemma sum_keys:
  assumes T: "tagged_tile tb0 tb g added b" and i: "i \<le> ninfos tb0"
  shows "(\<Sum>j<i. grown_by g (info_key tb0 j)) = (\<Sum>k \<in> {k \<in> fst ` set g. k \<in> info_key tb0 ` {..<i}}. grown_by g k)"
proof -
  have "(\<Sum>j<i. grown_by g (info_key tb0 j)) = sum (grown_by g) (info_key tb0 ` {..<i})"
    using inj_key0 [OF T i] by (simp add: sum.reindex)
  also have "\<dots> = (\<Sum>k \<in> {k \<in> fst ` set g. k \<in> info_key tb0 ` {..<i}}. grown_by g k)"
  proof (rule sum.mono_neutral_right)
    show "\<forall>k \<in> info_key tb0 ` {..<i} - {k \<in> fst ` set g. k \<in> info_key tb0 ` {..<i}}. grown_by g k = 0"
    proof
      fix k assume "k \<in> info_key tb0 ` {..<i} - {k \<in> fst ` set g. k \<in> info_key tb0 ` {..<i}}"
      then have "map_of g k = None" by (simp only: map_of_eq_None_iff) blast
      then show "grown_by g k = 0" by (simp add: grown_by_def)
    qed
  qed auto
  finally show ?thesis .
qed

lemma shift_value:
  assumes T: "tagged_tile tb0 tb g added b" and i: "i < ninfos tb0"
  shows "unat (shift_for (cumulate 0 g) (info_key tb0 i)) = (\<Sum>j<i. grown_by g (info_key tb0 j))"
proof -
  note F = tagged_facts [OF T]
  have "{k \<in> fst ` set g. k < info_key tb0 i} = {k \<in> fst ` set g. k \<in> info_key tb0 ` {..<i}}"
  proof (intro Collect_cong conj_cong refl)
    fix k assume "k \<in> fst ` set g"
    then obtain j where j: "j < ninfos tb0" "k = info_key tb0 j" using F(4) by blast
    have ui: "unat (info_key tb0 i) = info_offset (edgeinfo_list tb0) i"
      by (rule unat_key [OF F(12) [OF less_imp_le_nat [OF i]]])
    have uj: "unat (info_key tb0 j) = info_offset (edgeinfo_list tb0) j"
      by (rule unat_key [OF F(12) [OF less_imp_le_nat [OF j(1)]]])
    have "k < info_key tb0 i \<longleftrightarrow> j < i"
      unfolding j(2) word_less_nat_alt ui uj
      by (rule info_offset_less_iff [OF less_imp_le_nat [OF j(1)] less_imp_le_nat [OF i]])
    moreover have "k \<in> info_key tb0 ` {..<i} \<longleftrightarrow> j < i"
    proof
      assume "k \<in> info_key tb0 ` {..<i}"
      then obtain m where m: "k = info_key tb0 m" "m \<in> {..<i}" by (rule imageE)
      then have "m < ninfos tb0" using i by simp
      then have "j = m" by (rule offset_word_inj [OF F(1) j(1) _ trans [OF sym [OF j(2)] m(1)]])
      then show "j < i" using m(2) by simp
    next
      assume "j < i"
      then show "k \<in> info_key tb0 ` {..<i}" unfolding j(2) by (intro imageI) simp
    qed
    ultimately show "k < info_key tb0 i \<longleftrightarrow> k \<in> info_key tb0 ` {..<i}" by (rule trans [OF _ sym])
  qed
  then show ?thesis
    using unat_shift_for [OF F(3) F(11), of "info_key tb0 i"] sum_keys [OF T, of i] i by simp
qed

lemma new_offset:
  assumes T: "tagged_tile tb0 tb g added b" and i: "i \<le> ninfos tb0"
  shows "info_offset (edgeinfo_list tb) i = info_offset (edgeinfo_list tb0) i + (\<Sum>j<i. grown_by g (info_key tb0 j))"
  using i tagged_facts(2,7) [OF T] by (simp add: info_offset_sum sum.distrib)

lemma new_total:
  assumes T: "tagged_tile tb0 tb g added b"
  shows "info_offset (edgeinfo_list tb) (ninfos tb0) = info_offset (edgeinfo_list tb0) (ninfos tb0) + growth_sum g"
proof -
  have "{k \<in> fst ` set g. k \<in> info_key tb0 ` {..<ninfos tb0}} = {k \<in> fst ` set g. True}"
    using tagged_facts(4) [OF T] by blast
  then have "(\<Sum>j<ninfos tb0. grown_by g (info_key tb0 j)) = growth_sum g"
    using sum_keys [OF T, of "ninfos tb0"] sum_grown [OF tagged_facts(3) [OF T], of "\<lambda>_. True"] by simp
  then show ?thesis using new_offset [OF T, of "ninfos tb0"] by simp
qed

lemma new_offset_small:
  assumes T: "tagged_tile tb0 tb g added b" and i: "i \<le> ninfos tb0"
  shows "info_offset (edgeinfo_list tb) i < 2 ^ 25"
  using tagged_facts(10) [OF T] new_total [OF T] info_offset_mono [OF i, of "edgeinfo_list tb"] by simp

lemma new_key:
  assumes T: "tagged_tile tb0 tb g added b" and i: "i < ninfos tb0"
  shows "info_key tb0 i + shift_for (cumulate 0 g) (info_key tb0 i) = info_key tb i"
proof -
  have "word_of_nat (unat (info_key tb0 i) + unat (shift_for (cumulate 0 g) (info_key tb0 i)))
      = info_key tb0 i + shift_for (cumulate 0 g) (info_key tb0 i)" by simp
  then show ?thesis
    using i tagged_facts(12) [OF T, of i] by (simp add: unat_key shift_value [OF T] new_offset [OF T])
qed

lemma new_key_inj:
  assumes T: "tagged_tile tb0 tb g added b" and ij: "i < ninfos tb0" "j < ninfos tb0"
    and eq: "info_key tb i = info_key tb j"
  shows "i = j"
proof -
  have ui: "unat (info_key tb i) = info_offset (edgeinfo_list tb) i"
    by (rule unat_key [OF new_offset_small [OF T less_imp_le_nat [OF ij(1)]]])
  have uj: "unat (info_key tb j) = info_offset (edgeinfo_list tb) j"
    by (rule unat_key [OF new_offset_small [OF T less_imp_le_nat [OF ij(2)]]])
  have "info_offset (edgeinfo_list tb) i = info_offset (edgeinfo_list tb) j"
    by (rule trans [OF ui [symmetric] trans [OF arg_cong [OF eq, of unat] uj]])
  moreover have "i \<le> length (edgeinfo_list tb)" "j \<le> length (edgeinfo_list tb)"
    using ij tagged_facts(2) [OF T] by simp_all
  ultimately show ?thesis
    using info_offset_less_iff [of i "edgeinfo_list tb" j] info_offset_less_iff [of j "edgeinfo_list tb" i]
    by (metis less_not_refl linorder_neqE_nat)
qed

lemma shift_map_entries:
  "set (shift_map c m acc) \<subseteq> set acc \<union> (\<lambda>(k, i). (k + shift_for c k, i)) ` set m"
  "fst ` set (shift_map c m acc) = fst ` set acc \<union> (\<lambda>(k, i). k + shift_for c k) ` set m"
proof (induction c m acc rule: shift_map.induct)
  case (2 c k i m acc)
  let ?acc = "if map_of acc (k + shift_for c k) = None then (k + shift_for c k, i) # acc else acc"
  {
    case 1
    show ?case using 2(1) [OF refl] by (auto simp: Let_def split: if_splits)
  next
    case 2
    have "fst ` set ?acc = insert (k + shift_for c k) (fst ` set acc)"
      by (auto simp: map_of_eq_None_iff insert_absorb)
    then show ?case using "2.IH"(2) [OF refl] by (simp add: Let_def Un_assoc [symmetric])
  }
qed simp_all

text \<open>The new map finds every edge info under its new offset.\<close>

lemma new_map:
  assumes T: "tagged_tile tb0 tb g added b"
  shows "i < ninfos tb0 \<Longrightarrow> map_of (shift_map (cumulate 0 g) (edgeinfo_offset_map tb0) []) (info_key tb i) = Some i"
    and "(k, i) \<in> set (shift_map (cumulate 0 g) (edgeinfo_offset_map tb0) []) \<Longrightarrow> i < ninfos tb0 \<and> k = info_key tb i"
proof -
  let ?m = "shift_map (cumulate 0 g) (edgeinfo_offset_map tb0) []"
  have ok: "offsets_ok tb0" by (rule tagged_facts(1) [OF T])
  show entry: "i < ninfos tb0 \<and> k = info_key tb i" if "(k, i) \<in> set ?m" for k i
  proof -
    have "(k, i) \<in> (\<lambda>(k, i). (k + shift_for (cumulate 0 g) k, i)) ` set (edgeinfo_offset_map tb0)"
      using that shift_map_entries(1) [of "cumulate 0 g" "edgeinfo_offset_map tb0" "[]"] by auto
    then obtain k0 where k0: "(k0, i) \<in> set (edgeinfo_offset_map tb0)" "k = k0 + shift_for (cumulate 0 g) k0" by auto
    then have i: "i < ninfos tb0" and "k0 = info_key tb0 i" using ok by (auto simp: offsets_ok_def Let_def)
    then show ?thesis using new_key [OF T i] k0(2) by simp
  qed
  show "map_of ?m (info_key tb i) = Some i" if i: "i < ninfos tb0"
  proof -
    have "(info_key tb0 i, i) \<in> set (edgeinfo_offset_map tb0)"
      using ok i by (intro map_of_SomeD) (simp add: offsets_ok_def Let_def)
    then have "info_key tb0 i + shift_for (cumulate 0 g) (info_key tb0 i) \<in> fst ` set ?m"
      unfolding shift_map_entries(2) by force
    then have "info_key tb i \<in> fst ` set ?m" unfolding new_key [OF T i] .
    then obtain j where j: "map_of ?m (info_key tb i) = Some j"
      by (metis map_of_eq_None_iff not_None_eq)
    then have "j < ninfos tb0" "info_key tb i = info_key tb j"
      using entry [OF map_of_SomeD [OF j]] by blast+
    then have "i = j" by (intro new_key_inj [OF T i])
    then show ?thesis using j by simp
  qed
qed

lemma ucast_25: "unat (x :: u32) < 2 ^ 25 \<Longrightarrow> ucast (ucast x :: 25 word) = x"
  using low_bits [of x 25] by (intro bit_word_eqI) (auto simp: bit_ucast_iff)

lemma shift_edges_ok:
  assumes "\<And>e. e \<in> set es \<Longrightarrow>
      unat (ucast (de_edgeinfo_offset e) + shift_for c (ucast (de_edgeinfo_offset e)) :: u32) < 2 ^ 25"
  shows "\<exists>es'. shift_edges c es = Inr es' \<and> length es' = length es
    \<and> (\<forall>j < length es. ucast (de_edgeinfo_offset (es' ! j))
        = (ucast (de_edgeinfo_offset (es ! j)) + shift_for c (ucast (de_edgeinfo_offset (es ! j))) :: u32))"
  using assms
proof (induction es)
  case (Cons e es)
  let ?o = "ucast (de_edgeinfo_offset e) + shift_for c (ucast (de_edgeinfo_offset e)) :: u32"
  have lt: "unat ?o < 2 ^ 25" using Cons.prems by simp
  then have small: "\<not> kMaxEdgeInfoOffset < ?o" by (simp add: kMaxEdgeInfoOffset_def word_less_nat_alt)
  have same: "ucast (ucast ?o :: 25 word) = ?o"
    by (rule ucast_25 [OF lt])
  obtain es' where es': "shift_edges c es = Inr es'" "length es' = length es"
    "\<forall>j < length es. ucast (de_edgeinfo_offset (es' ! j))
        = (ucast (de_edgeinfo_offset (es ! j)) + shift_for c (ucast (de_edgeinfo_offset (es ! j))) :: u32)"
    using Cons by auto
  have "shift_edges c (e # es) = Inr (e\<lparr>de_edgeinfo_offset := ucast ?o\<rparr> # es')"
    using small es'(1) by (simp add: de_set_edgeinfo_offset_def)
  moreover have "\<forall>j < length (e # es). ucast (de_edgeinfo_offset ((e\<lparr>de_edgeinfo_offset := ucast ?o\<rparr> # es') ! j))
        = (ucast (de_edgeinfo_offset ((e # es) ! j)) + shift_for c (ucast (de_edgeinfo_offset ((e # es) ! j))) :: u32)"
    using es'(3) same by (auto simp: nth_Cons split: nat.splits)
  ultimately show ?case using es'(2) by auto
qed simp

section \<open>Properties\<close>

definition edges_resolve :: "tile_builder \<Rightarrow> bool" where
  "edges_resolve tb \<longleftrightarrow> (\<forall>j < length (directededges_builder tb). edge_info_index tb j \<noteq> None)"

definition same_tile :: "tile_builder \<Rightarrow> (graph_id \<times> u8 list) list \<Rightarrow> bool" where
  "same_tile tb vals \<longleftrightarrow> unat (directededgecount tb) = length (directededges_builder tb)
     \<and> (\<forall>(g, v) \<in> set vals. tile_value g = tile_value (graphid tb) \<and> gid_id g < directededgecount tb)"

lemma edge_points_at:
  assumes "offsets_ok tb" "edge_info_index tb j = Some i"
  shows "i < ninfos tb" and "ucast (de_edgeinfo_offset (directededges_builder tb ! j)) = info_key tb i"
    and "unat (de_edgeinfo_offset (directededges_builder tb ! j)) = info_offset (edgeinfo_list tb) i"
proof -
  have m: "(ucast (de_edgeinfo_offset (directededges_builder tb ! j)), i) \<in> set (edgeinfo_offset_map tb)"
    using assms(2) by (simp add: edge_info_index_def map_of_SomeD)
  then show i: "i < ninfos tb" and k: "ucast (de_edgeinfo_offset (directededges_builder tb ! j)) = info_key tb i"
    using assms(1) by (auto simp: offsets_ok_def Let_def)
  have "info_offset (edgeinfo_list tb) i < 2 ^ 25"
    using assms(1) i info_offset_mono [of i "ninfos tb" "edgeinfo_list tb"] by (simp add: offsets_ok_def Let_def)
  then have "unat (info_key tb i) = info_offset (edgeinfo_list tb) i" by (rule unat_key)
  moreover have "unat (de_edgeinfo_offset (directededges_builder tb ! j))
      = unat (ucast (de_edgeinfo_offset (directededges_builder tb ! j)) :: u32)"
    by (simp add: unsigned_ucast_eq take_bit_nat_eq_self order_less_trans [OF unsigned_less])
  ultimately show "unat (de_edgeinfo_offset (directededges_builder tb ! j)) = info_offset (edgeinfo_list tb) i"
    by (simp only: k)
qed

lemma edge_record_value:
  assumes ok: "offsets_ok tb" and j: "edge_info_index tb j = Some i"
  shows "\<exists>e. edge_record tb j = Inr e \<and> name_info_list_f e = b_name_info_list (edgeinfo_list tb ! i)
    \<and> encoded_shape_f e = b_encoded_shape (edgeinfo_list tb ! i)
    \<and> wayid e = wayid \<lparr>ei_f = b_ei (edgeinfo_list tb ! i), name_info_list_f = [], encoded_shape_f = [],
        extended_wayid2_f = (if 0 < extended_wayid_size_f (b_ei (edgeinfo_list tb ! i)) then b_extended_wayid2 (edgeinfo_list tb ! i) else 0),
        extended_wayid3_f = (if 1 < extended_wayid_size_f (b_ei (edgeinfo_list tb ! i)) then b_extended_wayid3 (edgeinfo_list tb ! i) else 0),
        encoded_elevation_f = [], names_list_f = []\<rparr>"
proof -
  note p = edge_points_at [OF ok j]
  have b: "\<forall>eb \<in> set (edgeinfo_list tb). builder_ok eb" using ok by (simp add: offsets_ok_def Let_def)
  obtain rest where rest: "drop (info_offset (edgeinfo_list tb) i) (edgeinfo_bytes tb) = write_edge_info (edgeinfo_list tb ! i) @ rest"
    using edgeinfo_bytes_at [OF b p(1)] by blast
  have "builder_ok (edgeinfo_list tb ! i)" using b p(1) by simp
  from edge_info_read_write [OF this, of rest "text_bytes tb"] obtain e tl where
    "edge_record tb j = Inr e" "e = \<lparr>ei_f = written_inner (edgeinfo_list tb ! i),
       name_info_list_f = b_name_info_list (edgeinfo_list tb ! i), encoded_shape_f = b_encoded_shape (edgeinfo_list tb ! i),
       extended_wayid2_f = (if 0 < extended_wayid_size_f (b_ei (edgeinfo_list tb ! i)) then b_extended_wayid2 (edgeinfo_list tb ! i) else 0),
       extended_wayid3_f = (if 1 < extended_wayid_size_f (b_ei (edgeinfo_list tb ! i)) then b_extended_wayid3 (edgeinfo_list tb ! i) else 0),
       encoded_elevation_f = b_encoded_elevation (edgeinfo_list tb ! i) @ tl, names_list_f = text_bytes tb\<rparr>"
    by (auto simp: edge_record_def p(3) rest)
  then show ?thesis by (simp add: wayid_def written_inner_def)
qed

lemma edge_record_extends:
  assumes "offsets_ok tb" "edge_info_index tb j = Some i" "offsets_ok tb'" "edge_info_index tb' j = Some i"
    and "extends (edgeinfo_list tb ! i) (edgeinfo_list tb' ! i)"
  shows "\<exists>e e' xs. edge_record tb j = Inr e \<and> edge_record tb' j = Inr e' \<and> wayid e' = wayid e
    \<and> encoded_shape_f e' = encoded_shape_f e \<and> name_info_list_f e' = name_info_list_f e @ xs"
proof -
  have x: "edgeinfo_list tb' ! i = (edgeinfo_list tb ! i)\<lparr>b_name_info_list := b_name_info_list (edgeinfo_list tb' ! i)\<rparr>"
    and pre: "take (length (b_name_info_list (edgeinfo_list tb ! i))) (b_name_info_list (edgeinfo_list tb' ! i))
      = b_name_info_list (edgeinfo_list tb ! i)"
    using assms(5) by (simp_all add: extends_def)
  have "\<exists>xs. b_name_info_list (edgeinfo_list tb' ! i) = b_name_info_list (edgeinfo_list tb ! i) @ xs"
    using pre append_take_drop_id by metis
  moreover have "b_ei (edgeinfo_list tb' ! i) = b_ei (edgeinfo_list tb ! i)"
    "b_extended_wayid2 (edgeinfo_list tb' ! i) = b_extended_wayid2 (edgeinfo_list tb ! i)"
    "b_extended_wayid3 (edgeinfo_list tb' ! i) = b_extended_wayid3 (edgeinfo_list tb ! i)"
    "b_encoded_shape (edgeinfo_list tb' ! i) = b_encoded_shape (edgeinfo_list tb ! i)"
    by (subst x, simp)+
  ultimately show ?thesis
    using edge_record_value [OF assms(1,2)] edge_record_value [OF assms(3,4)] by auto
qed

lemma step_succeeds:
  assumes inv: "loop_inv tb0 b st" and r: "edges_resolve tb0"
    and n: "unat (directededgecount tb0) = length (directededges_builder tb0)"
    and e: "tile_value (fst ev) = tile_value (graphid tb0)" "gid_id (fst ev) < directededgecount tb0"
  shows "\<exists>st'. add_tagged_step tag ev st = Inr st'"
proof -
  obtain tb g added where st: "st = (tb, g, added)" by (cases st)
  obtain edge_id val where ev: "ev = (edge_id, val)" by (cases ev)
  have k: "graphid tb = graphid tb0" "directededgecount tb = directededgecount tb0"
    "directededges_builder tb = directededges_builder tb0" "edgeinfo_offset_map tb = edgeinfo_offset_map tb0"
    using inv by (simp_all add: loop_inv_def st)
  obtain base where base: "tile_base (graphid tb0) = Inr base" "tile_base edge_id = Inr base"
    using tile_base_correct [of "graphid tb0" edge_id] e(1) by (auto simp: ev)
  have count: "\<not> directededgecount tb0 \<le> gid_id edge_id" using e(2) by (simp add: ev)
  then have lt: "\<not> length (directededges_builder tb0) \<le> unat (gid_id edge_id)"
    using n by (simp add: word_le_nat_alt)
  then have "edge_info_index tb0 (unat (gid_id edge_id)) \<noteq> None" using r unfolding edges_resolve_def not_le by blast
  then obtain i where "edge_info_index tb0 (unat (gid_id edge_id)) = Some i" by blast
  then have i: "map_of (edgeinfo_offset_map tb0)
      (ucast (de_edgeinfo_offset (directededges_builder tb0 ! unat (gid_id edge_id)))) = Some i"
    by (simp add: edge_info_index_def)
  obtain off tb' where "AddName (tag_byte tag # val) tb = (off, tb')" by (cases "AddName (tag_byte tag # val) tb")
  then show ?thesis
    unfolding add_tagged_step_def st ev Let_def k prod.case base i
    by (simp only: bind_result_simps count lt option.case prod.case if_False not_True_eq_False)
      (auto split: if_splits)
qed

lemma loop_succeeds:
  assumes "offsets_ok tb0" "loop_inv tb0 b st" "edges_resolve tb0" "same_tile tb0 evs" "4 * (b + length evs) < 2 ^ 32"
  shows "\<exists>st'. add_tagged_values_loop tag evs st = Inr st'"
  using assms(2,4,5)
proof (induction evs arbitrary: b st)
  case (Cons ev evs)
  have same: "unat (directededgecount tb0) = length (directededges_builder tb0)"
    "tile_value (fst ev) = tile_value (graphid tb0)" "gid_id (fst ev) < directededgecount tb0" "same_tile tb0 evs"
    using Cons.prems(2) by (auto simp: same_tile_def)
  obtain st1 where st1: "add_tagged_step tag ev st = Inr st1"
    using step_succeeds [OF Cons.prems(1) assms(3) same(1-3)] by blast
  have "loop_inv tb0 (Suc b) st1"
    using Cons.prems(3) by (intro add_tagged_step_inv [OF assms(1) Cons.prems(1) _ st1]) simp
  then show ?case using Cons.IH [of "Suc b" st1] same(4) Cons.prems(3) st1 by simp
qed (rule exI, rule add_tagged_values_loop.simps)

lemma loop_inv_start: "offsets_ok tb \<Longrightarrow> loop_inv tb 0 (tb, [], 0)"
  by (auto simp: loop_inv_def offsets_ok_def Let_def sorted_keys_def grown_by_def)

lemma loop_inv_mono: "loop_inv tb0 b st \<Longrightarrow> b \<le> b' \<Longrightarrow> loop_inv tb0 b' st"
  by (auto simp: loop_inv_def split: prod.splits)

lemma grown_none:
  assumes T: "tagged_tile tb0 tb [] added b"
  shows "i \<le> ninfos tb0 \<Longrightarrow> info_offset (edgeinfo_list tb) i = info_offset (edgeinfo_list tb0) i"
  using new_offset [OF T] by (simp add: grown_by_def)

text \<open>A tile whose records are those of \<open>tb1\<close> and whose offsets are the new ones is as claimed.\<close>

lemma tagged_result:
  assumes T: "tagged_tile tb tb1 g added b" and r: "edges_resolve tb"
    and infos: "edgeinfo_list tb' = edgeinfo_list tb1" and off: "edge_info_offset tb' = edge_info_offset tb + 4 * added"
    and len: "length (directededges_builder tb') = length (directededges_builder tb)"
    and found: "\<And>i. i < ninfos tb \<Longrightarrow> map_of (edgeinfo_offset_map tb') (info_key tb1 i) = Some i"
    and only: "\<And>k i. (k, i) \<in> set (edgeinfo_offset_map tb') \<Longrightarrow> i < ninfos tb \<and> k = info_key tb1 i"
    and edges: "\<And>j i. j < length (directededges_builder tb) \<Longrightarrow> edge_info_index tb j = Some i
      \<Longrightarrow> ucast (de_edgeinfo_offset (directededges_builder tb' ! j)) = info_key tb1 i"
  shows "offsets_ok tb' \<and> edges_resolve tb' \<and> (\<forall>j < length (directededges_builder tb). edge_info_index tb' j = edge_info_index tb j
        \<and> (\<exists>e e' xs. edge_record tb j = Inr e \<and> edge_record tb' j = Inr e' \<and> wayid e' = wayid e
            \<and> encoded_shape_f e' = encoded_shape_f e \<and> name_info_list_f e' = name_info_list_f e @ xs))"
proof -
  note F = tagged_facts [OF T]
  have io: "edge_info_offset tb = info_offset (edgeinfo_list tb) (ninfos tb)"
    using F(1) by (simp add: offsets_ok_def Let_def)
  have bok: "\<forall>eb \<in> set (edgeinfo_list tb1). builder_ok eb" using F(2,8) by (auto simp: in_set_conv_nth)
  have n1: "ninfos tb1 = ninfos tb" by (rule F(2))
  have total: "info_offset (edgeinfo_list tb1) (ninfos tb) = info_offset (edgeinfo_list tb) (ninfos tb) + 4 * added"
    using new_total [OF T] F(5) by simp
  have lt: "info_offset (edgeinfo_list tb1) (ninfos tb) < 2 ^ 25" by (rule new_offset_small [OF T order_refl])
  have ok': "offsets_ok tb'"
    unfolding offsets_ok_def Let_def infos n1
  proof (intro conjI allI impI ballI)
    show "edge_info_offset tb' = info_offset (edgeinfo_list tb1) (ninfos tb)" by (simp only: off io total)
    fix x assume x: "x \<in> set (edgeinfo_offset_map tb')"
    obtain k i where "x = (k, i)" by (rule prod.exhaust)
    then show "case x of (k, i) \<Rightarrow> i < ninfos tb \<and> k = info_key tb1 i" using only x by simp
  qed (use found bok lt in blast)+
  have index: "edge_info_index tb' j = edge_info_index tb j" if j: "j < length (directededges_builder tb)" for j
  proof -
    have "edge_info_index tb j \<noteq> None" using r j unfolding edges_resolve_def by blast
    then obtain i where i: "edge_info_index tb j = Some i" by blast
    have "i < ninfos tb" by (rule edge_points_at(1) [OF F(1) i])
    then have "edge_info_index tb' j = Some i"
      unfolding edge_info_index_def edges [OF j i] by (rule found)
    then show ?thesis by (simp only: i)
  qed
  have res': "edges_resolve tb'"
    unfolding edges_resolve_def len using index r unfolding edges_resolve_def by simp
  show ?thesis
  proof (intro conjI allI impI ok' res')
    fix j assume j: "j < length (directededges_builder tb)"
    show "edge_info_index tb' j = edge_info_index tb j" by (rule index [OF j])
    have "edge_info_index tb j \<noteq> None" using r j unfolding edges_resolve_def by blast
    then obtain i where i: "edge_info_index tb j = Some i" by blast
    then have i': "edge_info_index tb' j = Some i" using index [OF j] by simp
    have "extends (edgeinfo_list tb ! i) (edgeinfo_list tb' ! i)"
      unfolding infos by (rule F(9) [OF edge_points_at(1) [OF F(1) i]])
    then show "\<exists>e e' xs. edge_record tb j = Inr e \<and> edge_record tb' j = Inr e' \<and> wayid e' = wayid e
            \<and> encoded_shape_f e' = encoded_shape_f e \<and> name_info_list_f e' = name_info_list_f e @ xs"
      by (rule edge_record_extends [OF F(1) i ok' i'])
  qed
qed

text \<open>
  C1: Tagging edges in bulk keeps every edge attached to its record. Given a tile whose offsets are
  in order, whose edges all point at a record and with room for the new entries, and values for
  edges of that tile only, \<open>AddTaggedValues\<close> succeeds; offsets are in order again, and every
  directed edge (tagged or not) still reads its own record: the same way id and shape, and
  the old names followed by what was appended. The result is the number of entries appended.
\<close>

theorem AddTaggedValues_correct:
  assumes ok: "offsets_ok tb" and r: "edges_resolve tb" and same: "same_tile tb vals"
    and room: "info_offset (edgeinfo_list tb) (length (edgeinfo_list tb)) + 4 * length vals < 2 ^ 25"
  shows "\<exists>added tb'. AddTaggedValues tag vals tb = Inr (added, tb') \<and> offsets_ok tb' \<and> edges_resolve tb'
    \<and> edge_info_offset tb' = edge_info_offset tb + 4 * added
    \<and> length (directededges_builder tb') = length (directededges_builder tb)
    \<and> (\<forall>j < length (directededges_builder tb). edge_info_index tb' j = edge_info_index tb j
        \<and> (\<exists>e e' xs. edge_record tb j = Inr e \<and> edge_record tb' j = Inr e' \<and> wayid e' = wayid e
            \<and> encoded_shape_f e' = encoded_shape_f e \<and> name_info_list_f e' = name_info_list_f e @ xs))"
proof -
  have small: "4 * (0 + length vals) < 2 ^ 32" using room by simp
  obtain st where st: "add_tagged_values_loop tag vals (tb, [], 0) = Inr st"
    using loop_succeeds [OF ok loop_inv_start [OF ok] r same small] by blast
  obtain tb1 g added where st1: "st = (tb1, g, added)" by (cases st)
  have inv: "loop_inv tb (length vals) (tb1, g, added)"
    using add_tagged_values_loop_inv [OF ok loop_inv_start [OF ok] small st] by (simp add: st1)
  have T: "tagged_tile tb tb1 g added (length vals)" using ok inv room by (simp add: tagged_tile_def)
  note F = tagged_facts [OF T]
  have keep: "directededges_builder tb1 = directededges_builder tb" "edgeinfo_offset_map tb1 = edgeinfo_offset_map tb"
    "edge_info_offset tb1 = edge_info_offset tb" and zero: "added = 0 \<Longrightarrow> g = []"
    using inv by (auto simp: loop_inv_def)
  let ?m = "shift_map (cumulate 0 g) (edgeinfo_offset_map tb) []"
  have shifted: "ucast (de_edgeinfo_offset e) + shift_for (cumulate 0 g) (ucast (de_edgeinfo_offset e)) = info_key tb1 i
      \<and> unat (ucast (de_edgeinfo_offset e) + shift_for (cumulate 0 g) (ucast (de_edgeinfo_offset e)) :: u32) < 2 ^ 25"
    if "map_of (edgeinfo_offset_map tb) (ucast (de_edgeinfo_offset e)) = Some i" for e i
  proof -
    have i: "i < ninfos tb" and k: "ucast (de_edgeinfo_offset e) = info_key tb i"
      using that ok map_of_SomeD [OF that] by (auto simp: offsets_ok_def Let_def)
    have "info_offset (edgeinfo_list tb1) i < 2 ^ 25" using new_offset_small [OF T] i by simp
    then have "unat (info_key tb1 i) < 2 ^ 25" by (simp only: unat_key)
    then show ?thesis unfolding k new_key [OF T i] by blast
  qed
  have "\<exists>es'. shift_edges (cumulate 0 g) (directededges_builder tb) = Inr es' \<and> length es' = length (directededges_builder tb)
    \<and> (\<forall>j < length (directededges_builder tb). ucast (de_edgeinfo_offset (es' ! j))
        = (ucast (de_edgeinfo_offset (directededges_builder tb ! j))
           + shift_for (cumulate 0 g) (ucast (de_edgeinfo_offset (directededges_builder tb ! j))) :: u32))"
  proof (rule shift_edges_ok)
    fix e assume "e \<in> set (directededges_builder tb)"
    then obtain j where j: "j < length (directededges_builder tb)" "e = directededges_builder tb ! j"
      by (auto simp: in_set_conv_nth)
    then have "edge_info_index tb j \<noteq> None" using r unfolding edges_resolve_def by blast
    then obtain i where "map_of (edgeinfo_offset_map tb) (ucast (de_edgeinfo_offset e)) = Some i"
      by (auto simp: edge_info_index_def j(2))
    from shifted [OF this]
    show "unat (ucast (de_edgeinfo_offset e) + shift_for (cumulate 0 g) (ucast (de_edgeinfo_offset e)) :: u32) < 2 ^ 25" ..
  qed
  then obtain es' where es': "shift_edges (cumulate 0 g) (directededges_builder tb) = Inr es'"
    "length es' = length (directededges_builder tb)"
    and key': "\<And>j. j < length (directededges_builder tb) \<Longrightarrow> ucast (de_edgeinfo_offset (es' ! j))
        = (ucast (de_edgeinfo_offset (directededges_builder tb ! j))
           + shift_for (cumulate 0 g) (ucast (de_edgeinfo_offset (directededges_builder tb ! j))) :: u32)"
    by blast
  define tb' where "tb' = (if added = 0 then tb1 else tb1\<lparr>edge_info_offset := edge_info_offset tb1
      + unat (if cumulate 0 g = [] then 0 else snd (last (cumulate 0 g))), directededges_builder := es',
      edgeinfo_offset_map := ?m\<rparr>)"
  have result: "AddTaggedValues tag vals tb = Inr (added, tb')"
    using es'(1) by (simp add: AddTaggedValues_def st st1 tb'_def keep Let_def)
  have "offsets_ok tb' \<and> edges_resolve tb' \<and> (\<forall>j < length (directededges_builder tb). edge_info_index tb' j = edge_info_index tb j
        \<and> (\<exists>e e' xs. edge_record tb j = Inr e \<and> edge_record tb' j = Inr e' \<and> wayid e' = wayid e
            \<and> encoded_shape_f e' = encoded_shape_f e \<and> name_info_list_f e' = name_info_list_f e @ xs))
      \<and> edge_info_offset tb' = edge_info_offset tb + 4 * added
      \<and> length (directededges_builder tb') = length (directededges_builder tb)"
  proof (cases "added = 0")
    case True
    then have g: "g = []" by (rule zero)
    have tb': "tb' = tb1" using True by (simp add: tb'_def)
    have k: "info_key tb1 i = info_key tb i" if "i < ninfos tb" for i
      using grown_none [OF T [unfolded g], of i] that by simp
    have keys: "map_of (edgeinfo_offset_map tb) (info_key tb i) = Some i" if "i < ninfos tb" for i
      using ok that by (simp add: offsets_ok_def Let_def)
    have entries: "i < ninfos tb \<and> k = info_key tb i" if "(k, i) \<in> set (edgeinfo_offset_map tb)" for k i
      using ok that by (auto simp: offsets_ok_def Let_def)
    have "offsets_ok tb1 \<and> edges_resolve tb1 \<and> (\<forall>j < length (directededges_builder tb). edge_info_index tb1 j = edge_info_index tb j
        \<and> (\<exists>e e' xs. edge_record tb j = Inr e \<and> edge_record tb1 j = Inr e' \<and> wayid e' = wayid e
            \<and> encoded_shape_f e' = encoded_shape_f e \<and> name_info_list_f e' = name_info_list_f e @ xs))"
    proof (rule tagged_result [OF T r])
      fix j i assume "edge_info_index tb j = Some i"
      from edge_points_at(1,2) [OF ok this]
      show "ucast (de_edgeinfo_offset (directededges_builder tb1 ! j)) = info_key tb1 i"
        unfolding keep by (simp only: k)
    next
      fix i assume i: "i < ninfos tb"
      show "map_of (edgeinfo_offset_map tb1) (info_key tb1 i) = Some i" unfolding keep k [OF i] by (rule keys [OF i])
    next
      fix k' i assume "(k', i) \<in> set (edgeinfo_offset_map tb1)"
      then have "i < ninfos tb \<and> k' = info_key tb i" unfolding keep by (rule entries)
      then show "i < ninfos tb \<and> k' = info_key tb1 i" using k by simp
    qed (simp_all add: keep True)
    then show ?thesis by (simp add: tb' keep True)
  next
    case False
    then have gne: "g \<noteq> []" using F(5) by auto
    then have cne: "cumulate 0 g \<noteq> []" by (cases g) auto
    have grown: "unat (if cumulate 0 g = [] then 0 else snd (last (cumulate 0 g))) = 4 * added"
      using cumulate_last [of 0 g] gne cne F(5,11) by simp
    have off: "edge_info_offset tb' = edge_info_offset tb + 4 * added"
      using False grown by (simp add: tb'_def keep)
    have sel: "edgeinfo_list tb' = edgeinfo_list tb1" "directededges_builder tb' = es'" "edgeinfo_offset_map tb' = ?m"
      using False by (simp_all add: tb'_def)
    have "offsets_ok tb' \<and> edges_resolve tb' \<and> (\<forall>j < length (directededges_builder tb). edge_info_index tb' j = edge_info_index tb j
        \<and> (\<exists>e e' xs. edge_record tb j = Inr e \<and> edge_record tb' j = Inr e' \<and> wayid e' = wayid e
            \<and> encoded_shape_f e' = encoded_shape_f e \<and> name_info_list_f e' = name_info_list_f e @ xs))"
    proof (rule tagged_result [OF T r sel(1) off])
      fix j i assume j: "j < length (directededges_builder tb)" and i: "edge_info_index tb j = Some i"
      have "map_of (edgeinfo_offset_map tb) (ucast (de_edgeinfo_offset (directededges_builder tb ! j))) = Some i"
        using i by (simp add: edge_info_index_def)
      from shifted [OF this] show "ucast (de_edgeinfo_offset (directededges_builder tb' ! j)) = info_key tb1 i"
        unfolding sel key' [OF j] by (rule conjunct1)
    next
      fix i assume i: "i < ninfos tb"
      show "map_of (edgeinfo_offset_map tb') (info_key tb1 i) = Some i" unfolding sel by (rule new_map(1) [OF T i])
    next
      fix k i assume "(k, i) \<in> set (edgeinfo_offset_map tb')"
      then show "i < ninfos tb \<and> k = info_key tb1 i" unfolding sel by (rule new_map(2) [OF T])
    qed (simp add: sel es'(2))
    moreover have "length (directededges_builder tb') = length (directededges_builder tb)"
      by (simp only: sel es'(2))
    ultimately show ?thesis using off by blast
  qed
  with result show ?thesis by blast
qed

definition sample_tile :: tile_builder where
  "sample_tile = (new_tile_builder (GraphId 0))
     \<lparr>directededgecount := 2,
      directededges_builder := [new_directed_edge, new_directed_edge\<lparr>de_edgeinfo_offset := 12\<rparr>],
      edgeinfo_list := [new_builder 0 0, new_builder 0 0],
      edgeinfo_offset_map := [(0, 0), (12, 1)], edge_info_offset := 24\<rparr>"

lemma sample_tile_ok:
  "offsets_ok sample_tile" "edges_resolve sample_tile" "same_tile sample_tile [(GraphId 0, [1]), (GraphId 0x2000000, [2])]"
  "info_offset (edgeinfo_list sample_tile) (length (edgeinfo_list sample_tile)) = 24"
proof -
  have s: "SizeOf (new_builder 0 0) = 12"
    by (simp add: SizeOf_value BaseSizeOf_def new_builder_def edge_info_inner_zero_def)
  have o: "de_edgeinfo_offset new_directed_edge = 0"
    by (simp add: new_directed_edge_def read_directed_edge_def Let_def)
  have two: "i < Suc (Suc 0) \<longleftrightarrow> i = 0 \<or> i = 1" for i by auto
  show "offsets_ok sample_tile"
    using builder_ok_ops(1) by (auto simp: offsets_ok_def sample_tile_def new_tile_builder_def Let_def two info_offset_def s)
  show "edges_resolve sample_tile"
    by (auto simp: edges_resolve_def sample_tile_def new_tile_builder_def edge_info_index_def two o)
  show "same_tile sample_tile [(GraphId 0, [1]), (GraphId 0x2000000, [2])]"
    by (simp add: same_tile_def sample_tile_def new_tile_builder_def tile_value_def gid_id_def)
  show "info_offset (edgeinfo_list sample_tile) (length (edgeinfo_list sample_tile)) = 24"
    by (simp add: info_offset_def sample_tile_def s)
qed

theorem AddTaggedValues_correct_witness:
  "\<exists>added tb'. AddTaggedValues kEnvironment [(GraphId 0, [1]), (GraphId 0x2000000, [2])] sample_tile = Inr (added, tb')
    \<and> offsets_ok tb' \<and> edge_info_offset tb' = 24 + 4 * added"
proof -
  have "info_offset (edgeinfo_list sample_tile) (length (edgeinfo_list sample_tile))
      + 4 * length [(GraphId 0, [1 :: u8]), (GraphId 0x2000000, [2])] < 2 ^ 25"
    unfolding sample_tile_ok(4) by simp
  moreover have "edge_info_offset sample_tile = 24" by (simp add: sample_tile_def)
  ultimately show ?thesis
    using AddTaggedValues_correct [OF sample_tile_ok(1,2,3), of kEnvironment] by auto
qed

definition text_ok :: "tile_builder \<Rightarrow> bool" where
  "text_ok tb \<longleftrightarrow> unat (text_list_offset tb) = length (text_bytes tb)
     \<and> (\<forall>(s, off) \<in> set (text_offset_map tb).
          take (length s + 1) (drop (unat off) (text_bytes tb)) = s @ [0])"

lemma c_str_take:
  assumes "take (length s + 1) mem = s @ [0]" "0 \<notin> set s"
  shows "c_str mem = Inr s"
proof -
  have mem: "mem = s @ 0 # drop (length s + 1) mem"
    using assms(1) append_take_drop_id [of "length s + 1" mem] by simp
  have "takeWhile (\<lambda>b. b \<noteq> 0) (s @ 0 # r) = s" for r :: "u8 list"
    using assms(2) by (subst takeWhile_append2) auto
  then have "takeWhile (\<lambda>b. b \<noteq> 0) mem = s" by (subst mem) simp
  moreover have "length s \<noteq> length mem" by (subst mem) simp
  ultimately show ?thesis by (simp add: c_str_def)
qed

lemma take_drop_append:
  "take k (drop i xs) = ys \<Longrightarrow> length ys = k \<Longrightarrow> take k (drop i (xs @ zs)) = ys"
  by auto

text \<open>
  A name added to the text list can be read back at the offset that was returned: the C string
  there is the name, a name added before gets its old offset, and what the list held before is
  untouched, so that every offset handed out earlier stays valid.
\<close>

theorem AddName_correct:
  assumes ok: "text_ok tb" and name: "name \<noteq> []" "0 \<notin> set name"
    and room: "length (text_bytes tb) + length name + 1 < 2 ^ 32"
  shows "\<exists>off tb' more. AddName name tb = (off, tb') \<and> text_ok tb' \<and> text_bytes tb' = text_bytes tb @ more
    \<and> c_str (drop (unat off) (text_bytes tb')) = Inr name \<and> map_of (text_offset_map tb') name = Some off
    \<and> AddName name tb' = (off, tb') \<and> unat off \<le> length (text_bytes tb)"
proof (cases "map_of (text_offset_map tb) name")
  case None
  let ?off = "text_list_offset tb"
  let ?tb' = "tb\<lparr>textlistbuilder := textlistbuilder tb @ [name], text_offset_map := (name, ?off) # text_offset_map tb,
      text_list_offset := ?off + (word_of_nat (length name) + 1)\<rparr>"
  have off: "unat ?off = length (text_bytes tb)" using ok by (simp add: text_ok_def)
  have bytes: "text_bytes ?tb' = text_bytes tb @ name @ [0]" by (simp add: text_bytes_def)
  have l: "unat (word_of_nat (length name) + 1 :: u32) = length name + 1"
  proof -
    have "(word_of_nat (length name) + 1 :: u32) = word_of_nat (length name + 1)" by (simp only: of_nat_add of_nat_1)
    moreover have "unat (word_of_nat (length name + 1) :: u32) = length name + 1"
      using room by (intro word_of_nat_div) simp
    ultimately show ?thesis by (simp only:)
  qed
  have next_off: "unat (?off + (word_of_nat (length name) + 1)) = length (text_bytes ?tb')"
    using room off l by (subst unat_add_small) (simp_all add: bytes)
  have here: "take (length name + 1) (drop (unat ?off) (text_bytes ?tb')) = name @ [0]" by (simp add: bytes off)
  have "text_ok ?tb'"
    unfolding text_ok_def
  proof (intro conjI ballI)
    show "unat (text_list_offset ?tb') = length (text_bytes ?tb')" using next_off by simp
    fix x assume "x \<in> set (text_offset_map ?tb')"
    then consider "x = (name, ?off)" | "x \<in> set (text_offset_map tb)" by auto
    then show "case x of (s, off) \<Rightarrow> take (length s + 1) (drop (unat off) (text_bytes ?tb')) = s @ [0]"
    proof cases
      case 1
      then show ?thesis using here by simp
    next
      case 2
      obtain s off' where x: "x = (s, off')" by (cases x)
      have "take (length s + 1) (drop (unat off') (text_bytes tb)) = s @ [0]" using ok 2 by (auto simp: text_ok_def x)
      then show ?thesis unfolding x prod.case bytes by (rule take_drop_append) simp
    qed
  qed
  then show ?thesis
    using None name here off bytes c_str_take [OF here name(2)] by (auto simp: AddName_def)
next
  case (Some off)
  have at: "take (length name + 1) (drop (unat off) (text_bytes tb)) = name @ [0]"
    using ok map_of_SomeD [OF Some] by (auto simp: text_ok_def)
  then have "unat off \<le> length (text_bytes tb)"
    by (metis append_is_Nil_conv drop_all le_cases list.distinct(1) take_Nil)
  then show ?thesis using Some ok name c_str_take [OF at name(2)] by (auto simp: AddName_def)
qed

theorem AddName_correct_witness:
  "\<exists>off tb' more. AddName [65, 66] (new_tile_builder (GraphId 0)) = (off, tb')
    \<and> text_bytes tb' = text_bytes (new_tile_builder (GraphId 0)) @ more
    \<and> c_str (drop (unat off) (text_bytes tb')) = Inr [65, 66]"
proof -
  have "text_ok (new_tile_builder (GraphId 0))"
    by (simp add: text_ok_def new_tile_builder_def text_bytes_def)
  then show ?thesis
    using AddName_correct [of "new_tile_builder (GraphId 0)" "[65, 66]"]
    by (auto simp: new_tile_builder_def text_bytes_def)
qed

end
