(* ===== verification/Geo_Index.thy ===== *)
theory Geo_Index
  imports Varint
begin

text \<open>
  The spatial part of the environment scorer (\<^verbatim>\<open>src/mjolnir/environment.cc\<close>): the uniform grid
  that maps cells to feature indexes, the polygon rings with their latitude bands, the distance
  of a point to a segment, and \<^verbatim>\<open>PointLL::Distance\<close> (\<^verbatim>\<open>src/midgard/pointll.cc\<close>). A point is
  (longitude, latitude); every operation on \<^verbatim>\<open>double\<close> is rounded by \<open>f64\<close>. The functions of the C
  library that are not correctly rounded by IEEE 754 are a parameter, the record \<open>libm\<close>.
\<close>

section \<open>Distances\<close>

record libm =
  m_sin :: "rat \<Rightarrow> rat"
  m_cos :: "rat \<Rightarrow> rat"
  m_asin :: "rat \<Rightarrow> rat"
  m_sqrt :: "rat \<Rightarrow> rat"

definition kPiD :: rat where
  "kPiD = f64 (314159265358979323846264338327950288 / 100000000000000000000000000000000000)"

definition kRadPerDegD :: rat where "kRadPerDegD = f64 (kPiD / 180)"
definition kRadEarthMeters :: rat where "kRadEarthMeters = f32 (6378160187 / 1000)"
definition kMetersPerDegree :: rat where "kMetersPerDegree = 111320"

definition Distance :: "libm \<Rightarrow> point \<Rightarrow> point \<Rightarrow> rat" where
  "Distance m p q =
     (if p = q then 0
      else let phi1 = f64 (snd p * kRadPerDegD); phi2 = f64 (snd q * kRadPerDegD); dphi = f64 (phi2 - phi1);
               lambda1 = f64 (fst p * kRadPerDegD); lambda2 = f64 (fst q * kRadPerDegD);
               dlambda = f64 (lambda2 - lambda1);
               c1 = m_cos m phi1; c2 = m_cos m phi2;
               sdphi2 = m_sin m (f64 (dphi / 2)); sdlmb2 = m_sin m (f64 (dlambda / 2));
               h = f64 (f64 (sdphi2 * sdphi2) + f64 (f64 (f64 (c1 * c2) * sdlmb2) * sdlmb2));
               d = f64 (2 * m_asin m (m_sqrt m (min 1 (max 0 h))))
           in f64 (kRadEarthMeters * d))"

text \<open>\<^verbatim>\<open>Segment\<close> and \<^verbatim>\<open>point_segment_distance_m\<close>.\<close>

record segment =
  seg_a :: point
  seg_b :: point
  seg_value :: rat

definition point_segment_distance_m :: "libm \<Rightarrow> point \<Rightarrow> segment \<Rightarrow> rat" where
  "point_segment_distance_m m p seg =
     (let coslat = m_cos m (f64 (snd p * kRadPerDegD));
          ax = f64 (f64 (f64 (fst (seg_a seg) - fst p) * kMetersPerDegree) * coslat);
          ay = f64 (f64 (snd (seg_a seg) - snd p) * kMetersPerDegree);
          bx = f64 (f64 (f64 (fst (seg_b seg) - fst p) * kMetersPerDegree) * coslat);
          by = f64 (f64 (snd (seg_b seg) - snd p) * kMetersPerDegree);
          dx = f64 (bx - ax); dy = f64 (by - ay);
          len_sq = f64 (f64 (dx * dx) + f64 (dy * dy));
          t = (if 0 < len_sq then f64 (- f64 (f64 (ax * dx) + f64 (ay * dy)) / len_sq) else 0);
          t = min (max t 0) 1;
          cx = f64 (ax + f64 (t * dx)); cy = f64 (ay + f64 (t * dy))
      in m_sqrt m (f64 (f64 (cx * cx) + f64 (cy * cy))))"

section \<open>The grid\<close>

text \<open>
  \<^verbatim>\<open>GridIndex\<close>: cell indexes are \<^verbatim>\<open>int32_t\<close>; a coordinate outside that range, or an increment past
  it, is undefined in C++. A cell that is absent and an empty one are read alike.
\<close>

record grid_index =
  grid_cell :: rat
  grid_cells :: "int \<Rightarrow> nat list"

definition new_grid :: "rat \<Rightarrow> grid_index" where
  "new_grid cell_size_deg = \<lparr>grid_cell = cell_size_deg, grid_cells = (\<lambda>_. [])\<rparr>"

definition cell_of :: "grid_index \<Rightarrow> rat \<Rightarrow> int result" where
  "cell_of g v = checked_i32 \<lfloor>f64 (v / grid_cell g)\<rfloor>"

definition grid_key :: "int \<Rightarrow> int \<Rightarrow> int" where
  "grid_key x y = push_bit 32 x OR (y mod 2 ^ 32)"

definition push_cell :: "nat \<Rightarrow> int \<times> int \<Rightarrow> (int \<Rightarrow> nat list) \<Rightarrow> int \<Rightarrow> nat list" where
  "push_cell i c m = m(grid_key (fst c) (snd c) := m (grid_key (fst c) (snd c)) @ [i])"

definition grid_insert :: "rat \<Rightarrow> rat \<Rightarrow> nat \<Rightarrow> grid_index \<Rightarrow> grid_index result" where
  "grid_insert lng lat i g =
     bind_result (cell_of g lng) (\<lambda>x. bind_result (cell_of g lat) (\<lambda>y.
     Inr (g\<lparr>grid_cells := push_cell i (x, y) (grid_cells g)\<rparr>)))"

text \<open>The last \<^verbatim>\<open>++x\<close> of a loop up to \<open>hi\<close> must not overflow.\<close>

definition loop_range :: "int \<Rightarrow> int \<Rightarrow> int list result" where
  "loop_range lo hi = (if hi < lo then Inr [] else bind_result (checked_i32 (hi + 1)) (\<lambda>_. Inr [lo..hi]))"

definition insert_bbox :: "rat \<Rightarrow> rat \<Rightarrow> rat \<Rightarrow> rat \<Rightarrow> nat \<Rightarrow> grid_index \<Rightarrow> grid_index result" where
  "insert_bbox minx miny maxx maxy i g =
     bind_result (cell_of g minx) (\<lambda>x0. bind_result (cell_of g maxx) (\<lambda>x1.
     bind_result (loop_range x0 x1) (\<lambda>xs.
     if xs = [] then Inr g
     else bind_result (cell_of g miny) (\<lambda>y0. bind_result (cell_of g maxy) (\<lambda>y1.
          bind_result (loop_range y0 y1) (\<lambda>ys.
          Inr (g\<lparr>grid_cells := fold (push_cell i) (List.product xs ys) (grid_cells g)\<rparr>)))))))"

definition query_neighborhood :: "grid_index \<Rightarrow> rat \<Rightarrow> rat \<Rightarrow> nat list result" where
  "query_neighborhood g lng lat =
     bind_result (cell_of g lng) (\<lambda>cx. bind_result (cell_of g lat) (\<lambda>cy.
     bind_result (checked_i32 (cx - 1)) (\<lambda>x0. bind_result (checked_i32 (cx + 1)) (\<lambda>x1.
     bind_result (loop_range x0 x1) (\<lambda>xs.
     bind_result (checked_i32 (cy - 1)) (\<lambda>y0. bind_result (checked_i32 (cy + 1)) (\<lambda>y1.
     bind_result (loop_range y0 y1) (\<lambda>ys.
     Inr (concat (map (\<lambda>c. grid_cells g (grid_key (fst c) (snd c))) (List.product xs ys)))))))))))"

definition query_cell :: "grid_index \<Rightarrow> rat \<Rightarrow> rat \<Rightarrow> nat list result" where
  "query_cell g lng lat =
     bind_result (cell_of g lng) (\<lambda>x. bind_result (cell_of g lat) (\<lambda>y. Inr (grid_cells g (grid_key x y))))"

section \<open>Rings\<close>

record ring =
  pts :: "point list"
  minx :: rat
  miny :: rat
  maxx :: rat
  maxy :: rat
  ring_value :: rat
  band_height :: rat
  bands :: "nat list list"

text \<open>The index of the other end of the segment that ends in point \<open>i\<close>.\<close>

definition prev_index :: "nat \<Rightarrow> nat \<Rightarrow> nat" where
  "prev_index n i = (if i = 0 then n - 1 else i - 1)"

definition band_for :: "ring \<Rightarrow> rat \<Rightarrow> nat" where
  "band_for r lat =
     (let clamped = min (max lat (miny r)) (maxy r)
      in min (nat (c_trunc (f64 (f64 (clamped - miny r) / band_height r)))) (length (bands r) - 1))"

definition band_span :: "ring \<Rightarrow> nat \<Rightarrow> nat list" where
  "band_span r i =
     (let a = snd (pts r ! i); b = snd (pts r ! prev_index (length (pts r)) i)
      in [band_for r (min a b)..<Suc (band_for r (max a b))])"

definition push_band :: "nat \<Rightarrow> nat \<Rightarrow> nat list list \<Rightarrow> nat list list" where
  "push_band i b bs = bs[b := bs ! b @ [i]]"

definition build_bands :: "ring \<Rightarrow> ring" where
  "build_bands r =
     (let band_count = min (max (length (pts r) div 8) 1) 4096;
          h = f64 (f64 (maxy r - miny r) / of_nat band_count);
          r0 = r\<lparr>band_height := (if h \<le> 0 then 1 else h), bands := replicate band_count []\<rparr>
      in r0\<lparr>bands := fold (\<lambda>i. fold (push_band i) (band_span r0 i)) [0..<length (pts r)] (bands r0)\<rparr>)"

text \<open>One step of the even-odd scan: does the ray from \<open>p\<close> cross the segment ending in \<open>i\<close>?\<close>

definition crosses :: "point list \<Rightarrow> point \<Rightarrow> nat \<Rightarrow> bool" where
  "crosses ps p i =
     (let (xi, yi) = ps ! i; (xj, yj) = ps ! prev_index (length ps) i
      in ((yi > snd p) \<noteq> (yj > snd p))
         \<and> fst p < f64 (f64 (f64 (f64 (xj - xi) * f64 (snd p - yi)) / f64 (yj - yi)) + xi))"

definition outside_bbox :: "ring \<Rightarrow> point \<Rightarrow> bool" where
  "outside_bbox r p \<longleftrightarrow> fst p < minx r \<or> maxx r < fst p \<or> snd p < miny r \<or> maxy r < snd p"

definition ring_contains :: "ring \<Rightarrow> point \<Rightarrow> bool" where
  "ring_contains r p =
     (if outside_bbox r p then False
      else fold (\<lambda>i inside. if crosses (pts r) p i then \<not> inside else inside) (bands r ! band_for r (snd p)) False)"

text \<open>\<^verbatim>\<open>add_ring\<close>: the ring that is appended, if the point list is one.\<close>

definition make_ring :: "point list \<Rightarrow> rat \<Rightarrow> ring option" where
  "make_ring ps v =
     (if length ps < 3 then None
      else Some (build_bands
        \<lparr>pts = ps, minx = fold min (map fst ps) (fst (hd ps)), miny = fold min (map snd ps) (snd (hd ps)),
         maxx = fold max (map fst ps) (fst (hd ps)), maxy = fold max (map snd ps) (snd (hd ps)),
         ring_value = v, band_height = 0, bands = []\<rparr>))"

section \<open>The bands decide containment as a scan of all segments does\<close>

lemma push_band_length [simp]: "length (push_band i b bs) = length bs"
  by (simp add: push_band_def)

lemma fold_push_band_length [simp]: "length (fold (push_band i) spn bs) = length bs"
  by (induction spn arbitrary: bs) simp_all

lemma fold_push_band:
  assumes "distinct spn" "b < length bs"
  shows "fold (push_band i) spn bs ! b = bs ! b @ (if b \<in> set spn then [i] else [])"
  using assms
proof (induction spn arbitrary: bs)
  case (Cons a spn)
  then show ?case by (cases "a = b") (auto simp: push_band_def)
qed simp

lemma fold_bands_length [simp]: "length (fold (\<lambda>i. fold (push_band i) (spn i)) xs bs) = length bs"
  by (induction xs arbitrary: bs) simp_all

lemma fold_bands:
  assumes "\<And>i. distinct (spn i)" "b < length bs"
  shows "fold (\<lambda>i. fold (push_band i) (spn i)) xs bs ! b = bs ! b @ filter (\<lambda>i. b \<in> set (spn i)) xs"
  using assms(2) by (induction xs arbitrary: bs) (simp_all add: fold_push_band assms(1))

lemma toggle_fold:
  "fold (\<lambda>i inside. if P i then \<not> inside else inside) xs b = (odd (length (filter P xs)) \<noteq> b)"
  by (induction xs arbitrary: b) auto

lemma band_for_bound: "bands r \<noteq> [] \<Longrightarrow> band_for r lat < length (bands r)"
  by (cases "bands r") (auto simp: band_for_def Let_def less_Suc_eq_le)

lemma band_for_mono:
  assumes h: "0 < band_height r" and le: "a \<le> b" shows "band_for r a \<le> band_for r b"
proof -
  let ?c = "\<lambda>x. min (max x (miny r)) (maxy r)"
  have f: "f64 (?c a - miny r) \<le> f64 (?c b - miny r)" using le by (intro float64.mono diff_right_mono min.mono max.mono) simp_all
  have q: "f64 (f64 (?c a - miny r) / band_height r) \<le> f64 (f64 (?c b - miny r) / band_height r)"
    by (rule float64.mono, rule divide_right_mono [OF f]) (use h in simp)
  have t: "nat (c_trunc x) \<le> nat (c_trunc y)" if "x \<le> y" for x y :: rat
  proof (cases "0 \<le> x")
    case True
    then show ?thesis using c_trunc_mono_nonneg [OF True that] by (intro nat_mono)
  next
    case False
    then have "c_trunc x \<le> 0" by (simp add: c_trunc_def)
    then show ?thesis by simp
  qed
  show ?thesis unfolding band_for_def Let_def using t [OF q] by (intro min.mono) simp_all
qed

lemma crosses_in_span:
  assumes h: "0 < band_height r" and c: "crosses (pts r) p i"
  shows "band_for r (snd p) \<in> set (band_span r i)"
proof -
  let ?a = "snd (pts r ! i)" and ?b = "snd (pts r ! prev_index (length (pts r)) i)"
  have "min ?a ?b \<le> snd p" "snd p \<le> max ?a ?b"
    using c by (auto simp: crosses_def split: prod.splits)
  then show ?thesis
    using band_for_mono [OF h, of "min ?a ?b" "snd p"] band_for_mono [OF h, of "snd p" "max ?a ?b"]
    by (auto simp: band_span_def Let_def less_Suc_eq_le)
qed

lemma build_bands_fields [simp]:
  "pts (build_bands r) = pts r" "minx (build_bands r) = minx r" "miny (build_bands r) = miny r"
  "maxx (build_bands r) = maxx r" "maxy (build_bands r) = maxy r" "ring_value (build_bands r) = ring_value r"
  by (simp_all add: build_bands_def Let_def)

lemma build_bands_shape:
  "0 < band_height (build_bands r)" "bands (build_bands r) \<noteq> []"
  by (simp_all add: build_bands_def Let_def flip: length_0_conv)

lemma band_for_bands:
  "length bs = length (bands r) \<Longrightarrow> band_for (r\<lparr>bands := bs\<rparr>) = band_for r"
  "length bs = length (bands r) \<Longrightarrow> band_span (r\<lparr>bands := bs\<rparr>) = band_span r"
  by (simp_all add: band_for_def band_span_def fun_eq_iff)

lemma build_bands_nth:
  assumes "b < length (bands (build_bands r))"
  shows "bands (build_bands r) ! b = filter (\<lambda>i. b \<in> set (band_span (build_bands r) i)) [0..<length (pts r)]"
proof -
  let ?n = "min (max (length (pts r) div 8) 1) 4096"
  let ?h = "f64 (f64 (maxy r - miny r) / of_nat ?n)"
  let ?r0 = "r\<lparr>band_height := (if ?h \<le> 0 then 1 else ?h), bands := replicate ?n []\<rparr>"
  have "build_bands r = ?r0\<lparr>bands := fold (\<lambda>i. fold (push_band i) (band_span ?r0 i)) [0..<length (pts r)] (bands ?r0)\<rparr>"
    by (simp only: build_bands_def Let_def)
  moreover have "\<forall>b < length (bands ?r0). bands ?r0 ! b = []" by simp
  ultimately obtain r0 where r0: "build_bands r
      = r0\<lparr>bands := fold (\<lambda>i. fold (push_band i) (band_span r0 i)) [0..<length (pts r)] (bands r0)\<rparr>"
    and e: "\<forall>b < length (bands r0). bands r0 ! b = []"
    by blast
  have d: "distinct (band_span r0 i)" for i by (simp add: band_span_def Let_def)
  have l: "b < length (bands r0)" using assms by (simp add: r0)
  have s: "band_span (build_bands r) = band_span r0" by (simp add: r0 band_for_bands)
  show ?thesis unfolding s using e l by (simp add: r0 fold_bands [OF d])
qed

definition inside_scan :: "point list \<Rightarrow> point \<Rightarrow> bool" where
  "inside_scan ps p \<longleftrightarrow> odd (length (filter (crosses ps p) [0..<length ps]))"

lemma ring_contains_build:
  "ring_contains (build_bands r) p \<longleftrightarrow> \<not> outside_bbox r p \<and> inside_scan (pts r) p"
proof -
  let ?r = "build_bands r" and ?b = "band_for (build_bands r) (snd p)"
  have b: "bands ?r ! ?b = filter (\<lambda>i. ?b \<in> set (band_span ?r i)) [0..<length (pts r)]"
    by (intro build_bands_nth band_for_bound build_bands_shape)
  have "crosses (pts r) p i \<Longrightarrow> ?b \<in> set (band_span ?r i)" for i
    using crosses_in_span [OF build_bands_shape(1), of r p i] by simp
  then have f: "filter (crosses (pts r) p) (bands ?r ! ?b) = filter (crosses (pts r) p) [0..<length (pts r)]"
    unfolding b filter_filter by (intro filter_cong) auto
  have o: "outside_bbox ?r p = outside_bbox r p" by (simp add: outside_bbox_def)
  show ?thesis by (simp add: ring_contains_def o toggle_fold f inside_scan_def)
qed

lemma fold_min_Min: "fold min xs a = Min (insert a (set xs))" for a :: "'a::linorder"
proof (induction xs arbitrary: a)
  case (Cons x xs)
  show ?case by (cases "xs = []") (simp_all add: Cons min.commute min.left_commute insert_commute [of a x])
qed simp

lemma fold_max_Max: "fold max xs a = Max (insert a (set xs))" for a :: "'a::linorder"
proof (induction xs arbitrary: a)
  case (Cons x xs)
  show ?case by (cases "xs = []") (simp_all add: Cons max.commute max.left_commute insert_commute [of a x])
qed simp

lemma make_ring_fields:
  assumes "make_ring ps v = Some r"
  shows "pts r = ps" "ring_value r = v" "3 \<le> length ps" "minx r = Min (fst ` set ps)" "maxx r = Max (fst ` set ps)"
    "miny r = Min (snd ` set ps)" "maxy r = Max (snd ` set ps)"
proof -
  have l: "3 \<le> length ps" and r: "r = build_bands
        \<lparr>pts = ps, minx = fold min (map fst ps) (fst (hd ps)), miny = fold min (map snd ps) (snd (hd ps)),
         maxx = fold max (map fst ps) (fst (hd ps)), maxy = fold max (map snd ps) (snd (hd ps)),
         ring_value = v, band_height = 0, bands = []\<rparr>"
    using assms by (auto simp: make_ring_def not_less split: if_splits)
  then have i: "insert (f (hd ps)) (f ` set ps) = f ` set ps" for f :: "point \<Rightarrow> rat"
    by (cases ps) auto
  show "pts r = ps" "ring_value r = v" "3 \<le> length ps" "minx r = Min (fst ` set ps)" "maxx r = Max (fst ` set ps)"
    "miny r = Min (snd ` set ps)" "maxy r = Max (snd ` set ps)"
    by (simp_all add: r l fold_min_Min fold_max_Max i)
qed

lemma make_ring_build: "make_ring ps v = Some r \<Longrightarrow> \<exists>r0. r = build_bands r0"
  by (auto simp: make_ring_def split: if_splits)

lemma make_ring_contains:
  assumes "make_ring ps v = Some r"
  shows "ring_contains r p \<longleftrightarrow> \<not> outside_bbox r p \<and> inside_scan ps p"
proof -
  obtain r0 where r0: "r = build_bands r0" using make_ring_build [OF assms] by blast
  then have "pts r0 = ps" using make_ring_fields(1) [OF assms] by simp
  then show ?thesis by (simp add: r0 ring_contains_build outside_bbox_def)
qed

text \<open>
  The latitude bands are a pure optimisation: a ring built from at least three points contains
  a point exactly when the point is in the bounding box of the ring and a scan of all its segments
  counts an odd number of crossings, for every point and every rounding that occurs; with fewer
  points no ring is built.
\<close>

theorem ring_contains_scan:
  "case make_ring ps v of
     None \<Rightarrow> length ps < 3
   | Some r \<Rightarrow> ring_contains r p
       = (Min (fst ` set ps) \<le> fst p \<and> fst p \<le> Max (fst ` set ps) \<and> Min (snd ` set ps) \<le> snd p
          \<and> snd p \<le> Max (snd ` set ps) \<and> odd (length (filter (crosses ps p) [0..<length ps])))"
proof (cases "make_ring ps v")
  case None
  then show ?thesis by (simp add: make_ring_def split: if_splits)
next
  case (Some r)
  then show ?thesis
    by (simp add: make_ring_contains [OF Some] outside_bbox_def make_ring_fields [OF Some] not_less inside_scan_def)
qed

section \<open>What the cells of a grid hold\<close>

definition i32 :: "int \<Rightarrow> bool" where
  "i32 x \<longleftrightarrow> - (2 ^ 31) \<le> x \<and> x < 2 ^ 31"

lemma checked_i32_Inr: "checked_i32 x = Inr y \<longleftrightarrow> i32 x \<and> y = x"
  by (auto simp: checked_i32_def i32_def)

lemma grid_key_inj:
  assumes "grid_key x y = grid_key x' y'" "i32 y" "i32 y'" shows "x = x' \<and> y = y'"
proof -
  have key: "grid_key a b = push_bit 32 a OR take_bit 32 b" for a b
    by (simp add: grid_key_def take_bit_eq_mod)
  have low: "take_bit 32 (grid_key a b) = take_bit 32 b" for a b
    by (simp add: key take_bit_or take_bit_push_bit)
  have high: "drop_bit 32 (grid_key a b) = a" for a b
    by (simp add: key drop_bit_or drop_bit_push_bit drop_bit_take_bit)
  have "x = x'" using high [of x y] high [of x' y'] assms(1) by simp
  moreover have "y mod 2 ^ 32 = y' mod 2 ^ 32" using low [of x y] low [of x' y'] assms(1) by (simp add: take_bit_eq_mod)
  then have "2 ^ 32 dvd y - y'" by (simp only: mod_eq_dvd_iff)
  then obtain k where k: "y - y' = 2 ^ 32 * k" by (elim dvdE)
  then have "k < 1" "- 1 < k" using assms(2,3) by (auto simp: i32_def)
  then have "y = y'" using k by simp
  ultimately show ?thesis by blast
qed

text \<open>The loops of \<^verbatim>\<open>load_source\<close> that insert every feature of a list under its position.\<close>

fun index_loop :: "(nat \<Rightarrow> 'a \<Rightarrow> grid_index \<Rightarrow> grid_index result) \<Rightarrow> 'a list \<Rightarrow> nat \<Rightarrow> grid_index \<Rightarrow> grid_index result" where
  "index_loop ins [] k g = Inr g"
| "index_loop ins (x # xs) k g = bind_result (ins k x g) (index_loop ins xs (k + 1))"

definition insert_point :: "nat \<Rightarrow> point \<Rightarrow> grid_index \<Rightarrow> grid_index result" where
  "insert_point i p = grid_insert (fst p) (snd p) i"

definition insert_box :: "nat \<Rightarrow> point \<times> point \<Rightarrow> grid_index \<Rightarrow> grid_index result" where
  "insert_box i b = insert_bbox (fst (fst b)) (snd (fst b)) (fst (snd b)) (snd (snd b)) i"

text \<open>
  \<open>covers c a x y\<close>: the footprint of item \<open>a\<close> contains cell \<open>(x, y)\<close> of a grid with cells of
  size \<open>c\<close>. An insertion appends the index to exactly the cells of the footprint.
\<close>

locale indexer =
  fixes ins :: "nat \<Rightarrow> 'a \<Rightarrow> grid_index \<Rightarrow> grid_index result"
    and covers :: "rat \<Rightarrow> 'a \<Rightarrow> int \<Rightarrow> int \<Rightarrow> bool"
  assumes ins_cell: "ins i a g = Inr g' \<Longrightarrow> grid_cell g' = grid_cell g"
    and ins_cells: "ins i a g = Inr g' \<Longrightarrow> i32 x \<Longrightarrow> i32 y \<Longrightarrow>
      grid_cells g' (grid_key x y) = grid_cells g (grid_key x y) @ (if covers (grid_cell g) a x y then [i] else [])"
begin

lemma loop_cell: "index_loop ins xs k g = Inr g' \<Longrightarrow> grid_cell g' = grid_cell g"
  by (induction xs arbitrary: k g) (auto simp: bind_result_eq_Inr dest: ins_cell)

lemma loop_cells:
  assumes "index_loop ins xs k g = Inr g'" "i32 x" "i32 y"
  shows "grid_cells g' (grid_key x y)
    = grid_cells g (grid_key x y) @ filter (\<lambda>i. covers (grid_cell g) (xs ! (i - k)) x y) [k..<k + length xs]"
  using assms(1)
proof (induction xs arbitrary: k g)
  case (Cons a xs)
  obtain g1 where 1: "ins k a g = Inr g1" and 2: "index_loop ins xs (k + 1) g1 = Inr g'"
    using Cons.prems by (auto simp: bind_result_eq_Inr)
  have "filter (\<lambda>i. covers c (xs ! (i - (k + 1))) x y) [k + 1..<k + 1 + length xs]
      = filter (\<lambda>i. covers c ((a # xs) ! (i - k)) x y) [k + 1..<k + 1 + length xs]" for c
    by (intro filter_cong) (auto simp: nth_Cons' Suc_diff_Suc)
  moreover have "[k..<k + length (a # xs)] = k # [k + 1..<k + 1 + length xs]"
    by (subst upt_conv_Cons) simp_all
  ultimately show ?case
    using Cons.IH [OF 2] ins_cells [OF 1 assms(2,3)] ins_cell [OF 1] by simp
qed simp

lemma filled:
  assumes "index_loop ins xs 0 (new_grid c) = Inr g" "i32 x" "i32 y"
  shows "grid_cells g (grid_key x y) = filter (\<lambda>i. covers c (xs ! i) x y) [0..<length xs]"
  using loop_cells [OF assms] by (simp add: new_grid_def)

lemma filled_cell: "index_loop ins xs 0 (new_grid c) = Inr g \<Longrightarrow> grid_cell g = c"
  by (drule loop_cell) (simp add: new_grid_def)

end

definition cell_at :: "rat \<Rightarrow> rat \<Rightarrow> int" where
  "cell_at c v = \<lfloor>f64 (v / c)\<rfloor>"

lemma cell_of_eq:
  "cell_of g v = (if i32 (cell_at (grid_cell g) v) then Inr (cell_at (grid_cell g) v) else Inl Undefined)"
  by (simp add: cell_of_def cell_at_def checked_i32_def i32_def)

lemma cell_of_Inr: "cell_of g v = Inr x \<longleftrightarrow> i32 x \<and> x = cell_at (grid_cell g) v"
  by (auto simp: cell_of_def cell_at_def checked_i32_Inr)

definition point_covers :: "rat \<Rightarrow> point \<Rightarrow> int \<Rightarrow> int \<Rightarrow> bool" where
  "point_covers c p x y \<longleftrightarrow> x = cell_at c (fst p) \<and> y = cell_at c (snd p)"

definition box_covers :: "rat \<Rightarrow> point \<times> point \<Rightarrow> int \<Rightarrow> int \<Rightarrow> bool" where
  "box_covers c b x y \<longleftrightarrow> cell_at c (fst (fst b)) \<le> x \<and> x \<le> cell_at c (fst (snd b))
     \<and> cell_at c (snd (fst b)) \<le> y \<and> y \<le> cell_at c (snd (snd b))"

lemma loop_range_Inr: "loop_range lo hi = Inr xs \<Longrightarrow> xs = [lo..hi]"
  by (auto simp: loop_range_def bind_result_eq_Inr split: if_splits)

lemma fold_push_cell:
  assumes "distinct cs" "\<forall>c \<in> set cs. i32 (snd c)" "i32 y"
  shows "fold (push_cell i) cs m (grid_key x y) = m (grid_key x y) @ (if (x, y) \<in> set cs then [i] else [])"
  using assms(1,2)
proof (induction cs arbitrary: m)
  case (Cons c cs)
  have k: "grid_key (fst c) (snd c) = grid_key x y \<longleftrightarrow> c = (x, y)"
    using grid_key_inj [of "fst c" "snd c" x y] Cons.prems(2) assms(3) by (cases c) auto
  show ?case
  proof (cases "c = (x, y)")
    case True
    then show ?thesis using Cons by (simp add: push_cell_def)
  next
    case False
    then have "grid_key x y \<noteq> grid_key (fst c) (snd c)" using k by metis
    then show ?thesis using Cons False by (simp add: push_cell_def)
  qed
qed simp

interpretation point_index: indexer insert_point point_covers
proof
  fix i a x y and g g' :: grid_index
  assume "insert_point i a g = Inr g'"
  then have c: "i32 (cell_at (grid_cell g) (snd a))"
    and g': "g' = g\<lparr>grid_cells := push_cell i (cell_at (grid_cell g) (fst a), cell_at (grid_cell g) (snd a)) (grid_cells g)\<rparr>"
    by (auto simp: insert_point_def grid_insert_def bind_result_eq_Inr cell_of_Inr)
  show "grid_cell g' = grid_cell g" by (simp add: g')
  assume "i32 x" "i32 y"
  then show "grid_cells g' (grid_key x y) = grid_cells g (grid_key x y) @ (if point_covers (grid_cell g) a x y then [i] else [])"
    using fold_push_cell [of "[(cell_at (grid_cell g) (fst a), cell_at (grid_cell g) (snd a))]" y i "grid_cells g" x] c
    by (auto simp: g' point_covers_def)
qed

interpretation box_index: indexer insert_box box_covers
proof
  fix i a x y and g g' :: grid_index
  let ?c = "cell_at (grid_cell g)"
  let ?cs = "List.product [?c (fst (fst a))..?c (fst (snd a))] [?c (snd (fst a))..?c (snd (snd a))]"
  assume "insert_box i a g = Inr g'"
  then have *: "g' = g \<and> ?c (fst (snd a)) < ?c (fst (fst a))
      \<or> g' = g\<lparr>grid_cells := fold (push_cell i) ?cs (grid_cells g)\<rparr>
        \<and> i32 (?c (snd (fst a))) \<and> i32 (?c (snd (snd a)))"
    by (auto simp: insert_box_def insert_bbox_def bind_result_eq_Inr cell_of_Inr dest!: loop_range_Inr split: if_splits)
  then show "grid_cell g' = grid_cell g" by auto
  assume y: "i32 x" "i32 y"
  from * show "grid_cells g' (grid_key x y) = grid_cells g (grid_key x y) @ (if box_covers (grid_cell g) a x y then [i] else [])"
  proof (elim disjE conjE)
    assume g': "g' = g\<lparr>grid_cells := fold (push_cell i) ?cs (grid_cells g)\<rparr>"
      and b: "i32 (?c (snd (fst a)))" "i32 (?c (snd (snd a)))"
    have "\<forall>c \<in> set ?cs. i32 (snd c)" using b by (auto simp: i32_def)
    moreover have "distinct ?cs" by (simp add: distinct_product)
    ultimately show ?thesis
      using fold_push_cell [of ?cs y i "grid_cells g" x] y by (simp add: g' box_covers_def conj_assoc)
  qed (simp add: box_covers_def)
qed

section \<open>A neighbourhood query misses nothing nearby\<close>

lemma dyadic_exact:
  assumes "\<bar>k\<bar> \<le> 2 ^ 22" shows "f64 (of_int k - 1 / 2 ^ 30) = of_int k - 1 / 2 ^ 30"
proof -
  have e: "(of_int k - 1 / 2 ^ 30 :: rat) = of_int (k * 2 ^ 30 - 1) * 2 powi (- 30)"
    by (simp add: power_int_minus field_simps)
  have "\<bar>k * 2 ^ 30 - 1\<bar> \<le> 2 ^ 53" using assms by (auto simp: abs_le_iff)
  then show ?thesis unfolding e f64_def by (intro fl_exact) simp_all
qed

lemma cell_step:
  assumes c: "0 < c" and v: "v \<le> u + (1 - 1 / 2 ^ 30) * c" and u: "\<bar>u\<bar> \<le> 2 ^ 21 * c + c"
  shows "cell_at c v \<le> cell_at c u + 1"
proof -
  obtain k where k: "k = cell_at c u" by blast
  have u': "\<bar>u / c\<bar> \<le> of_int (2 ^ 21 + 1)" using u c by (simp add: field_simps abs_divide)
  have "f64 (of_int (2 ^ 21 + 1)) = of_int (2 ^ 21 + 1)" "f64 (of_int (- (2 ^ 21 + 1))) = of_int (- (2 ^ 21 + 1))"
    by (rule float64.exact_int; simp)+
  then have "f64 (u / c) \<le> of_int (2 ^ 21 + 1)" "of_int (- (2 ^ 21 + 1)) \<le> f64 (u / c)"
    using float64.mono [of "u / c" "of_int (2 ^ 21 + 1)"] float64.mono [of "of_int (- (2 ^ 21 + 1))" "u / c"] u'
    unfolding abs_le_iff by simp_all
  then have kb: "k \<le> 2 ^ 21 + 1" "- (2 ^ 21 + 1) \<le> k"
    unfolding k cell_at_def by (simp_all add: floor_le_iff le_floor_iff)
  have "f64 (u / c) < of_int (k + 1)" unfolding k cell_at_def
    using floor_correct [of "f64 (u / c)"] by simp
  then have "u / c < of_int (k + 1)"
    using float64.mono [of "of_int (k + 1)" "u / c"] float64.exact_int [of "k + 1"] kb by (force simp: not_less)
  moreover have "v / c \<le> u / c + (1 - 1 / 2 ^ 30)" using v c by (simp add: field_simps)
  ultimately have "v / c \<le> of_int (k + 2) - 1 / 2 ^ 30" by simp
  then have "f64 (v / c) \<le> of_int (k + 2) - 1 / 2 ^ 30"
    using float64.mono [of "v / c" "of_int (k + 2) - 1 / 2 ^ 30"] dyadic_exact [of "k + 2"] kb by simp
  then have "f64 (v / c) < of_int (k + 2)" by (rule le_less_trans) simp
  then show ?thesis unfolding k [symmetric] by (subst cell_at_def) (simp add: floor_le_iff)
qed

definition near :: "rat \<Rightarrow> rat \<Rightarrow> rat \<Rightarrow> bool" where
  "near c u v \<longleftrightarrow> \<bar>u - v\<bar> \<le> (1 - 1 / 2 ^ 30) * c \<and> \<bar>u\<bar> \<le> 2 ^ 21 * c"

lemma near_cells:
  assumes c: "0 < c" and n: "near c u v"
  shows "cell_at c v \<le> cell_at c u + 1 \<and> cell_at c u \<le> cell_at c v + 1"
proof
  have b: "\<bar>u - v\<bar> \<le> (1 - 1 / 2 ^ 30) * c" "\<bar>u\<bar> \<le> 2 ^ 21 * c" using n by (simp_all add: near_def)
  then have d: "u - v \<le> (1 - 1 / 2 ^ 30) * c" "v - u \<le> (1 - 1 / 2 ^ 30) * c" unfolding abs_le_iff by simp_all
  have s: "(1 - 1 / 2 ^ 30) * c \<le> c" using c by (simp add: field_simps)
  have "\<bar>v\<bar> \<le> \<bar>u\<bar> + \<bar>u - v\<bar>" by simp
  then have v: "\<bar>v\<bar> \<le> 2 ^ 21 * c + c" using b s by linarith
  show "cell_at c v \<le> cell_at c u + 1" by (rule cell_step [OF c]) (use d b c in simp_all)
  show "cell_at c u \<le> cell_at c v + 1" by (rule cell_step [OF c _ v]) (use d in simp)
qed

lemma query_neighborhood_set:
  assumes "query_neighborhood g lng lat = Inr ids"
  shows "i \<in> set ids \<longleftrightarrow> (\<exists>x y. \<bar>x - cell_at (grid_cell g) lng\<bar> \<le> 1 \<and> \<bar>y - cell_at (grid_cell g) lat\<bar> \<le> 1
      \<and> i32 x \<and> i32 y \<and> i \<in> set (grid_cells g (grid_key x y)))"
proof -
  let ?x = "cell_at (grid_cell g) lng" and ?y = "cell_at (grid_cell g) lat"
  have r: "i32 (?x - 1)" "i32 (?x + 1)" "i32 (?y - 1)" "i32 (?y + 1)"
    and ids: "ids = concat (map (\<lambda>c. grid_cells g (grid_key (fst c) (snd c)))
      (List.product [?x - 1..?x + 1] [?y - 1..?y + 1]))"
    using assms by (auto simp: query_neighborhood_def bind_result_eq_Inr cell_of_Inr checked_i32_Inr dest!: loop_range_Inr)
  have s: "a \<in> {b - 1..b + 1} \<longleftrightarrow> \<bar>a - b\<bar> \<le> 1" for a b :: int by (auto simp: abs_le_iff)
  have i: "\<bar>x - ?x\<bar> \<le> 1 \<Longrightarrow> i32 x" "\<bar>y - ?y\<bar> \<le> 1 \<Longrightarrow> i32 y" for x y
    using r by (auto simp: i32_def abs_le_iff)
  have "i \<in> set ids \<longleftrightarrow> (\<exists>x y. x \<in> {?x - 1..?x + 1} \<and> y \<in> {?y - 1..?y + 1} \<and> i \<in> set (grid_cells g (grid_key x y)))"
    unfolding ids by (simp only: set_concat set_map set_product set_upto UN_iff image_iff mem_Times_iff) force
  then show ?thesis unfolding s using i by blast
qed

text \<open>
  C34: A neighbourhood query returns every feature whose footprint comes closer than one cell in
  both coordinates (up to a relative margin of one in 2^30 that covers the rounding), for indexes
  filled with points and for indexes filled with bounding boxes; and for both, everything it
  returns is the position of an indexed feature whose footprint has a cell in the 3x3 block.
\<close>

theorem neighborhood_complete:
  assumes c: "0 < c" and near: "near c lng (fst q)" "near c lat (snd q)" and i: "i < n"
    and pg: "index_loop insert_point ps 0 (new_grid c) = Inr pg" "query_neighborhood pg lng lat = Inr pids"
    and bg: "index_loop insert_box bs 0 (new_grid c) = Inr bg" "query_neighborhood bg lng lat = Inr bids"
    and n: "length ps = n" "length bs = n"
  shows "(ps ! i = q \<longrightarrow> i \<in> set pids)
    \<and> (fst (fst (bs ! i)) \<le> fst q \<and> fst q \<le> fst (snd (bs ! i))
       \<and> snd (fst (bs ! i)) \<le> snd q \<and> snd q \<le> snd (snd (bs ! i)) \<longrightarrow> i \<in> set bids)
    \<and> (\<forall>j \<in> set pids. j < n \<and> \<bar>cell_at c (fst (ps ! j)) - cell_at c lng\<bar> \<le> 1 \<and> \<bar>cell_at c (snd (ps ! j)) - cell_at c lat\<bar> \<le> 1)
    \<and> (\<forall>j \<in> set bids. j < n \<and> (\<exists>x y. \<bar>x - cell_at c lng\<bar> \<le> 1 \<and> \<bar>y - cell_at c lat\<bar> \<le> 1 \<and> box_covers c (bs ! j) x y))"
proof (intro conjI impI)
  let ?x = "cell_at c (fst q)" and ?y = "cell_at c (snd q)"
  have xy: "\<bar>?x - cell_at c lng\<bar> \<le> 1" "\<bar>?y - cell_at c lat\<bar> \<le> 1"
    using near_cells [OF c near(1)] near_cells [OF c near(2)] by (auto simp: abs_le_iff)
  have pc: "grid_cell pg = c" and bc: "grid_cell bg = c"
    using point_index.filled_cell [OF pg(1)] box_index.filled_cell [OF bg(1)] by simp_all
  have "i32 (cell_at c lng - 1)" "i32 (cell_at c lng + 1)" "i32 (cell_at c lat - 1)" "i32 (cell_at c lat + 1)"
    using pg(2) by (auto simp: query_neighborhood_def bind_result_eq_Inr cell_of_Inr checked_i32_Inr pc)
  then have r: "i32 ?x" "i32 ?y" using xy by (auto simp: i32_def abs_le_iff)
  show "i \<in> set pids" if "ps ! i = q"
    unfolding query_neighborhood_set [OF pg(2)] pc
    using xy r that i n by (intro exI [of _ ?x] exI [of _ ?y]) (simp add: point_index.filled [OF pg(1)] point_covers_def)
  show "i \<in> set bids" if "fst (fst (bs ! i)) \<le> fst q \<and> fst q \<le> fst (snd (bs ! i))
       \<and> snd (fst (bs ! i)) \<le> snd q \<and> snd q \<le> snd (snd (bs ! i))"
  proof -
    have m: "cell_at c u \<le> cell_at c v" if "u \<le> v" for u v
      unfolding cell_at_def using that c by (intro floor_mono float64.mono divide_right_mono) simp_all
    show ?thesis
      unfolding query_neighborhood_set [OF bg(2)] bc
      using xy r that i n m by (intro exI [of _ ?x] exI [of _ ?y]) (simp add: box_index.filled [OF bg(1)] box_covers_def)
  qed
  show "\<forall>j \<in> set pids. j < n \<and> \<bar>cell_at c (fst (ps ! j)) - cell_at c lng\<bar> \<le> 1 \<and> \<bar>cell_at c (snd (ps ! j)) - cell_at c lat\<bar> \<le> 1"
  proof
    fix j assume "j \<in> set pids"
    then obtain x y where "\<bar>x - cell_at c lng\<bar> \<le> 1" "\<bar>y - cell_at c lat\<bar> \<le> 1" "i32 x" "i32 y"
      "j \<in> set (grid_cells pg (grid_key x y))"
      unfolding query_neighborhood_set [OF pg(2)] pc by blast
    then show "j < n \<and> \<bar>cell_at c (fst (ps ! j)) - cell_at c lng\<bar> \<le> 1 \<and> \<bar>cell_at c (snd (ps ! j)) - cell_at c lat\<bar> \<le> 1"
      by (auto simp: point_index.filled [OF pg(1)] point_covers_def n)
  qed
  show "\<forall>j \<in> set bids. j < n \<and> (\<exists>x y. \<bar>x - cell_at c lng\<bar> \<le> 1 \<and> \<bar>y - cell_at c lat\<bar> \<le> 1 \<and> box_covers c (bs ! j) x y)"
  proof
    fix j assume "j \<in> set bids"
    then obtain x y where "\<bar>x - cell_at c lng\<bar> \<le> 1" "\<bar>y - cell_at c lat\<bar> \<le> 1" "i32 x" "i32 y"
      "j \<in> set (grid_cells bg (grid_key x y))"
      unfolding query_neighborhood_set [OF bg(2)] bc by blast
    then show "j < n \<and> (\<exists>x y. \<bar>x - cell_at c lng\<bar> \<le> 1 \<and> \<bar>y - cell_at c lat\<bar> \<le> 1 \<and> box_covers c (bs ! j) x y)"
      using n by (auto simp: box_index.filled [OF bg(1)])
  qed
qed

theorem neighborhood_complete_witness:
  "\<exists>pg pids. index_loop insert_point [(5, 5), (1 / 8, 1 / 8)] 0 (new_grid (1 / 4)) = Inr pg
    \<and> query_neighborhood pg (5 / 16) (- 1 / 16) = Inr pids \<and> 1 \<in> set pids"
proof -
  let ?c = "1 / 4 :: rat"
  let ?bs = "[((5, 5), (6, 6)), ((0, 0), (1 / 4, 1 / 4))] :: (point \<times> point) list"
  have cells: "cell_at ?c 5 = 20" "cell_at ?c 6 = 24" "cell_at ?c (1 / 8) = 0" "cell_at ?c 0 = 0" "cell_at ?c (1 / 4) = 1"
    "cell_at ?c (5 / 16) = 1" "cell_at ?c (- (1 / 16)) = - 1"
    by (simp_all add: cell_at_def float_eval)
  have rng: "loop_range lo hi = Inr [lo..hi]" if "- 100 \<le> hi" "hi \<le> 100" for lo hi
    using that by (auto simp: loop_range_def checked_i32_def)
  obtain pg where pg: "index_loop insert_point [(5, 5), (1 / 8, 1 / 8)] 0 (new_grid ?c) = Inr pg"
    by (simp add: insert_point_def grid_insert_def cell_of_eq new_grid_def cells i32_def)
  obtain bg where bg: "index_loop insert_box ?bs 0 (new_grid ?c) = Inr bg"
    by (simp add: insert_box_def insert_bbox_def cell_of_eq new_grid_def cells i32_def rng)
  have q: "\<exists>ids. query_neighborhood g (5 / 16) (- 1 / 16) = Inr ids" if "grid_cell g = ?c" for g
    by (simp add: query_neighborhood_def cell_of_eq that cells i32_def rng checked_i32_def)
  obtain pids bids where ids: "query_neighborhood pg (5 / 16) (- 1 / 16) = Inr pids"
    "query_neighborhood bg (5 / 16) (- 1 / 16) = Inr bids"
    using q [OF point_index.filled_cell [OF pg]] q [OF box_index.filled_cell [OF bg]] by blast
  have "1 \<in> set pids"
    using neighborhood_complete [of ?c "5 / 16" "(1 / 8, 1 / 8)" "- 1 / 16" 1 2, OF _ _ _ _ pg ids(1) bg ids(2)]
    by (simp add: near_def)
  then show ?thesis using pg ids by blast
qed

end
