(* ===== verification/Environment_Sources.thy ===== *)
theory Environment_Sources
  imports Geo_Index Edge_Tags
begin

text \<open>
  The inputs of the environment scorer (\<^verbatim>\<open>src/mjolnir/environment.cc\<close>): the region manifest, the
  source configurations, and \<^verbatim>\<open>load_source\<close>, which turns a GeoJSON document into an indexed
  \<^verbatim>\<open>FeatureStore\<close>. Parsing of the JSON text is rapidjson's: a file is missing, unparsable or a
  document. The accessors of a rapidjson value throw a \<^verbatim>\<open>std::logic_error\<close> on a value of another
  type (\<^verbatim>\<open>valhalla/baldr/rapidjson_fwd.h\<close> defines its assertion so); the text of that exception is
  not modelled.
\<close>

section \<open>JSON documents\<close>

text \<open>
  \<open>JDouble d\<close> holds the double the parser produced, on which \<open>f64\<close> is the identity. Integers keep
  their type, because \<^verbatim>\<open>GetUint\<close> accepts no other number.
\<close>

datatype json =
    JNull
  | JBool bool
  | JInt int
  | JDouble rat
  | JString string
  | JArray "json list"
  | JObject "(string \<times> json) list"

datatype file_content = Missing | Unparsable | Document json

definition json_assert :: cxx_error where
  "json_assert = Logic_error ''rapidjson assertion''"

definition has_member :: "string \<Rightarrow> json \<Rightarrow> bool" where
  "has_member k j = (case j of JObject ms \<Rightarrow> map_of ms k \<noteq> None | _ \<Rightarrow> False)"

definition get_member :: "string \<Rightarrow> json \<Rightarrow> json result" where
  "get_member k j = (case j of
      JObject ms \<Rightarrow> (case map_of ms k of None \<Rightarrow> Inl json_assert | Some v \<Rightarrow> Inr v)
    | _ \<Rightarrow> Inl json_assert)"

fun is_object :: "json \<Rightarrow> bool" where
  "is_object (JObject ms) = True"
| "is_object _ = False"

fun is_number :: "json \<Rightarrow> bool" where
  "is_number (JInt i) = True"
| "is_number (JDouble d) = True"
| "is_number _ = False"

fun get_array :: "json \<Rightarrow> json list result" where
  "get_array (JArray xs) = Inr xs"
| "get_array _ = Inl json_assert"

fun get_double :: "json \<Rightarrow> rat result" where
  "get_double (JInt i) = Inr (f64 (of_int i))"
| "get_double (JDouble d) = Inr (f64 d)"
| "get_double _ = Inl json_assert"

fun get_uint :: "json \<Rightarrow> nat result" where
  "get_uint (JInt i) = (if 0 \<le> i \<and> i < 2 ^ 32 then Inr (nat i) else Inl json_assert)"
| "get_uint _ = Inl json_assert"

text \<open>\<^verbatim>\<open>GetString\<close> is a C string: what follows a zero byte is lost.\<close>

fun get_string :: "json \<Rightarrow> string result" where
  "get_string (JString s) = Inr (takeWhile (\<lambda>c. c \<noteq> CHR 0x00) s)"
| "get_string _ = Inl json_assert"

text \<open>A loop over a list that threads a state and stops at the first exception.\<close>

fun fold_result :: "('a \<Rightarrow> 's \<Rightarrow> 's result) \<Rightarrow> 'a list \<Rightarrow> 's \<Rightarrow> 's result" where
  "fold_result f [] s = Inr s"
| "fold_result f (x # xs) s = bind_result (f x s) (fold_result f xs)"

lemma fold_result_invariant:
  assumes "fold_result f xs s = Inr s'" "I s" "\<And>x s t. x \<in> set xs \<Longrightarrow> I s \<Longrightarrow> f x s = Inr t \<Longrightarrow> I t"
  shows "I s'"
  using assms by (induction xs arbitrary: s) (auto simp: bind_result_eq_Inr)

lemma collect_all:
  assumes "collect f xs = Inr ys" "\<And>x zs. x \<in> set xs \<Longrightarrow> f x = Inr zs \<Longrightarrow> \<forall>z \<in> set zs. P z"
  shows "\<forall>y \<in> set ys. P y"
  using assms by (induction xs arbitrary: ys) (fastforce simp: bind_result_eq_Inr)+

section \<open>Configurations\<close>

datatype source_kind = kPoint | kLine | kPolygon

record source_config =
  cfg_file :: string
  cfg_kind :: source_kind
  radius_m :: rat
  saturation :: rat
  proximity_m :: rat
  cfg_weight :: rat
  value_property :: string
  value_scale :: rat

record slot_config =
  slot :: nat
  slot_name :: string
  slot_sources :: "source_config list"

record manifest =
  canopy :: "source_config list"
  layers :: "slot_config list"

definition default_source :: source_config where
  "default_source = \<lparr>cfg_file = [], cfg_kind = kPoint, radius_m = 20, saturation = 4, proximity_m = 0,
     cfg_weight = 1, value_property = [], value_scale = 100\<rparr>"

text \<open>\<^verbatim>\<open>if (v.HasMember(k) && v[k].IsNumber()) ... v[k].GetDouble()\<close>\<close>

definition opt_number :: "string \<Rightarrow> json \<Rightarrow> rat option" where
  "opt_number k v = (case v of
      JObject ms \<Rightarrow> (case map_of ms k of
          Some (JInt i) \<Rightarrow> Some (f64 (of_int i))
        | Some (JDouble d) \<Rightarrow> Some (f64 d)
        | _ \<Rightarrow> None)
    | _ \<Rightarrow> None)"

definition opt_string :: "string \<Rightarrow> json \<Rightarrow> string option" where
  "opt_string k v = (case v of
      JObject ms \<Rightarrow> (case map_of ms k of
          Some (JString s) \<Rightarrow> Some (takeWhile (\<lambda>c. c \<noteq> CHR 0x00) s)
        | _ \<Rightarrow> None)
    | _ \<Rightarrow> None)"

definition the_default :: "'a \<Rightarrow> 'a option \<Rightarrow> 'a" where
  "the_default d x = (case x of None \<Rightarrow> d | Some y \<Rightarrow> y)"

definition parse_kind :: "string \<Rightarrow> source_kind result" where
  "parse_kind kind =
     (if kind = ''point'' then Inr kPoint
      else if kind = ''line'' then Inr kLine
      else if kind = ''polygon'' then Inr kPolygon
      else Inl (Runtime_error (''Unknown source kind: '' @ kind)))"

definition parse_source :: "json \<Rightarrow> source_config result" where
  "parse_source v =
     (if \<not> is_object v \<or> \<not> has_member ''file'' v \<or> \<not> has_member ''kind'' v
      then Inl (Runtime_error ''Each source needs at least a \"file\" and a \"kind\"'')
      else bind_result (get_member ''file'' v) (\<lambda>f. bind_result (get_string f) (\<lambda>file.
           bind_result (get_member ''kind'' v) (\<lambda>k. bind_result (get_string k) (\<lambda>kind.
           bind_result (parse_kind kind) (\<lambda>sk.
           let d = default_source
           in Inr \<lparr>cfg_file = file, cfg_kind = sk,
                   radius_m = the_default (radius_m d) (opt_number ''radius_m'' v),
                   saturation = the_default (saturation d) (map_option (\<lambda>x. max x 1) (opt_number ''saturation'' v)),
                   proximity_m = the_default (proximity_m d) (opt_number ''proximity_m'' v),
                   cfg_weight = the_default (cfg_weight d) (map_option (\<lambda>x. max x 0) (opt_number ''weight'' v)),
                   value_property = the_default (value_property d) (opt_string ''value_property'' v),
                   value_scale = the_default (value_scale d) (opt_number ''value_scale'' v)\<rparr>))))))"

definition parse_sources :: "json list \<Rightarrow> source_config list result" where
  "parse_sources = collect (\<lambda>s. bind_result (parse_source s) (\<lambda>cfg. Inr [cfg]))"

definition parse_layer :: "json \<Rightarrow> slot_config list result" where
  "parse_layer l =
     (if \<not> is_object l \<or> \<not> has_member ''slot'' l \<or> \<not> has_member ''sources'' l then Inr []
      else bind_result (get_member ''slot'' l) (\<lambda>sj. bind_result (get_uint sj) (\<lambda>n.
           if kMaxGeoJsonLayers \<le> n
           then Inl (Runtime_error (''Layer slot '' @ std_to_string n @ '' exceeds the max of ''
                  @ std_to_string (kMaxGeoJsonLayers - 1)))
           else bind_result (get_member ''sources'' l) (\<lambda>ss. bind_result (get_array ss) (\<lambda>sl.
                bind_result (parse_sources sl) (\<lambda>cfgs.
                Inr [\<lparr>slot = n, slot_name = the_default [] (opt_string ''name'' l), slot_sources = cfgs\<rparr>]))))))"

definition manifest_canopy :: "json \<Rightarrow> source_config list result" where
  "manifest_canopy doc = (case doc of
      JObject ms \<Rightarrow> (case map_of ms ''canopy'' of
          Some (JObject cs) \<Rightarrow> (case map_of cs ''sources'' of Some (JArray ss) \<Rightarrow> parse_sources ss | _ \<Rightarrow> Inr [])
        | _ \<Rightarrow> Inr [])
    | _ \<Rightarrow> Inr [])"

definition manifest_layers :: "json \<Rightarrow> slot_config list result" where
  "manifest_layers doc = (case doc of
      JObject ms \<Rightarrow> (case map_of ms ''layers'' of Some (JArray ls) \<Rightarrow> collect parse_layer ls | _ \<Rightarrow> Inr [])
    | _ \<Rightarrow> Inr [])"

definition parse_manifest :: "(string \<Rightarrow> file_content) \<Rightarrow> string \<Rightarrow> manifest result" where
  "parse_manifest files manifest_path =
     (case files manifest_path of
        Missing \<Rightarrow> Inl (Runtime_error (''Cannot open region manifest: '' @ manifest_path))
      | Unparsable \<Rightarrow> Inl (Runtime_error (''Region manifest is not valid JSON: '' @ manifest_path))
      | Document doc \<Rightarrow>
          if \<not> is_object doc then Inl (Runtime_error (''Region manifest is not valid JSON: '' @ manifest_path))
          else bind_result (manifest_canopy doc) (\<lambda>c. bind_result (manifest_layers doc) (\<lambda>l.
               if c = [] \<and> l = [] then Inl (Runtime_error ''Region manifest declares no canopy sources and no layers'')
               else Inr \<lparr>canopy = c, layers = l\<rparr>)))"

section \<open>Loading a source\<close>

record feature_store =
  st_cfg :: source_config
  st_points :: "point list"
  line_count :: nat
  st_segments :: "segment list"
  st_rings :: "ring list"
  st_grid :: "grid_index option"
  segment_grid :: "grid_index option"

definition feature_count :: "feature_store \<Rightarrow> nat" where
  "feature_count st = (case cfg_kind (st_cfg st) of
      kPoint \<Rightarrow> length (st_points st) | kLine \<Rightarrow> line_count st | kPolygon \<Rightarrow> length (st_rings st))"

definition parse_position :: "json \<Rightarrow> point list result" where
  "parse_position c = (case c of
      JArray (x # y # _) \<Rightarrow> bind_result (get_double x) (\<lambda>lng. bind_result (get_double y) (\<lambda>lat. Inr [(lng, lat)]))
    | _ \<Rightarrow> Inr [])"

definition parse_coord_ring :: "json \<Rightarrow> point list result" where
  "parse_coord_ring coords = bind_result (get_array coords) (collect parse_position)"

definition add_ring :: "point list \<Rightarrow> rat \<Rightarrow> feature_store \<Rightarrow> feature_store" where
  "add_ring ps v st = (case make_ring ps v of None \<Rightarrow> st | Some r \<Rightarrow> st\<lparr>st_rings := st_rings st @ [r]\<rparr>)"

definition feature_value :: "source_config \<Rightarrow> json \<Rightarrow> rat result" where
  "feature_value cfg feature =
     (if value_property cfg = [] then Inr 1
      else if has_member ''properties'' feature then
        bind_result (get_member ''properties'' feature) (\<lambda>props.
        case opt_number (value_property cfg) props of
          None \<Rightarrow> Inr 0
        | Some d \<Rightarrow>
            let scale = (if 0 < value_scale cfg then value_scale cfg else 100)
            in Inr (min (max (f64 (d / scale)) 0) 1))
      else Inr 0)"

definition line_segments :: "point list \<Rightarrow> segment list" where
  "line_segments ps = map (\<lambda>i. \<lparr>seg_a = ps ! (i - 1), seg_b = ps ! i, seg_value = 1\<rparr>) [1..<length ps]"

definition add_line :: "point list \<Rightarrow> feature_store \<Rightarrow> feature_store" where
  "add_line ps st =
     (if length ps < 2 then st
      else st\<lparr>st_segments := st_segments st @ line_segments ps, line_count := line_count st + 1\<rparr>)"

definition ring_boundary :: "ring \<Rightarrow> segment list" where
  "ring_boundary r = map (\<lambda>i. \<lparr>seg_a = pts r ! prev_index (length (pts r)) i, seg_b = pts r ! i,
     seg_value = ring_value r\<rparr>) [0..<length (pts r)]"

definition add_ring_or_line :: "rat \<Rightarrow> json \<Rightarrow> feature_store \<Rightarrow> feature_store result" where
  "add_ring_or_line v coords st = bind_result (parse_coord_ring coords) (\<lambda>ps.
     Inr (if cfg_kind (st_cfg st) = kLine then add_line ps st else add_ring ps v st))"

definition load_geometry :: "rat \<Rightarrow> string \<Rightarrow> json \<Rightarrow> feature_store \<Rightarrow> feature_store result" where
  "load_geometry v type coords st = (case coords of
      JArray cs \<Rightarrow>
        if type = ''Point'' then
          (if 2 \<le> length cs then
             bind_result (get_double (cs ! 0)) (\<lambda>x. bind_result (get_double (cs ! 1)) (\<lambda>y.
             Inr (st\<lparr>st_points := st_points st @ [(x, y)]\<rparr>)))
           else Inr st)
        else if type = ''MultiPoint'' then
          bind_result (collect parse_position cs) (\<lambda>ps. Inr (st\<lparr>st_points := st_points st @ ps\<rparr>))
        else if type = ''LineString'' then
          bind_result (parse_coord_ring coords) (\<lambda>ps. Inr (add_line ps st))
        else if type = ''MultiLineString'' then
          fold_result (\<lambda>line st. bind_result (parse_coord_ring line) (\<lambda>ps. Inr (add_line ps st))) cs st
        else if type = ''Polygon'' then fold_result (add_ring_or_line v) cs st
        else if type = ''MultiPolygon'' then
          fold_result (\<lambda>poly st. bind_result (get_array poly) (\<lambda>rs. fold_result (add_ring_or_line v) rs st)) cs st
        else Inr st
    | _ \<Rightarrow> Inr st)"

definition load_feature :: "json \<Rightarrow> feature_store \<Rightarrow> feature_store result" where
  "load_feature feature st =
     (if \<not> is_object feature \<or> \<not> has_member ''geometry'' feature then Inr st
      else bind_result (get_member ''geometry'' feature) (\<lambda>geom.
           if \<not> is_object geom \<or> \<not> has_member ''type'' geom \<or> \<not> has_member ''coordinates'' geom then Inr st
           else bind_result (get_member ''type'' geom) (\<lambda>t. bind_result (get_string t) (\<lambda>type.
                bind_result (get_member ''coordinates'' geom) (\<lambda>coords.
                bind_result (if cfg_kind (st_cfg st) = kPolygon then feature_value (st_cfg st) feature else Inr 1) (\<lambda>v.
                load_geometry v type coords st))))))"

text \<open>The cell size, and the two indexes built over the loaded features.\<close>

definition cell_degrees :: "source_config \<Rightarrow> rat" where
  "cell_degrees cfg =
     (let query_m = max (radius_m cfg) (max (proximity_m cfg) 30)
      in f64 ((if cfg_kind cfg = kPolygon then max query_m 150 else query_m) / kMetersPerDegree))"

definition ring_box :: "ring \<Rightarrow> point \<times> point" where
  "ring_box r = ((minx r, miny r), (maxx r, maxy r))"

definition segment_box :: "segment \<Rightarrow> point \<times> point" where
  "segment_box s =
     ((min (fst (seg_a s)) (fst (seg_b s)), min (snd (seg_a s)) (snd (seg_b s))),
      (max (fst (seg_a s)) (fst (seg_b s)), max (snd (seg_a s)) (snd (seg_b s))))"

definition build_grid :: "feature_store \<Rightarrow> feature_store result" where
  "build_grid st =
     (let g = new_grid (cell_degrees (st_cfg st))
      in case cfg_kind (st_cfg st) of
           kPoint \<Rightarrow> bind_result (index_loop insert_point (st_points st) 0 g) (\<lambda>g. Inr (st\<lparr>st_grid := Some g\<rparr>))
         | kLine \<Rightarrow> Inr (st\<lparr>st_grid := Some g\<rparr>)
         | kPolygon \<Rightarrow> bind_result (index_loop insert_box (map ring_box (st_rings st)) 0 g) (\<lambda>g.
             Inr (st\<lparr>st_grid := Some g,
                     st_segments := (if 0 < proximity_m (st_cfg st)
                       then st_segments st @ concat (map ring_boundary (st_rings st)) else st_segments st)\<rparr>)))"

definition build_segment_grid :: "feature_store \<Rightarrow> feature_store result" where
  "build_segment_grid st =
     (if st_segments st = [] then Inr st
      else bind_result (index_loop insert_box (map segment_box (st_segments st)) 0 (new_grid (cell_degrees (st_cfg st))))
             (\<lambda>g. Inr (st\<lparr>segment_grid := Some g\<rparr>)))"

definition empty_store :: "source_config \<Rightarrow> feature_store" where
  "empty_store cfg = \<lparr>st_cfg = cfg, st_points = [], line_count = 0, st_segments = [], st_rings = [],
     st_grid = None, segment_grid = None\<rparr>"

text \<open>\<^verbatim>\<open>base_dir / cfg.file\<close> of \<^verbatim>\<open>std::filesystem\<close>.\<close>

definition path_join :: "string \<Rightarrow> string \<Rightarrow> string" where
  "path_join base file =
     (if file \<noteq> [] \<and> hd file = CHR ''/'' then file
      else if base = [] \<or> last base = CHR ''/'' then base @ file
      else base @ ''/'' @ file)"

definition load_source :: "(string \<Rightarrow> file_content) \<Rightarrow> string \<Rightarrow> source_config \<Rightarrow> feature_store result" where
  "load_source files base_dir cfg =
     (let path = path_join base_dir (cfg_file cfg)
      in case files path of
           Missing \<Rightarrow> Inl (Runtime_error (''Cannot open GeoJSON source: '' @ path))
         | Unparsable \<Rightarrow> Inl (Runtime_error (''Invalid GeoJSON FeatureCollection: '' @ path))
         | Document doc \<Rightarrow>
             if \<not> is_object doc \<or> \<not> has_member ''features'' doc
             then Inl (Runtime_error (''Invalid GeoJSON FeatureCollection: '' @ path))
             else bind_result (get_member ''features'' doc) (\<lambda>fs. bind_result (get_array fs) (\<lambda>features.
                  bind_result (fold_result load_feature features (empty_store cfg)) (\<lambda>st.
                  bind_result (build_grid st) build_segment_grid))))"

section \<open>What parsing and loading establish\<close>

definition cfg_ok :: "source_config \<Rightarrow> bool" where
  "cfg_ok cfg \<longleftrightarrow> 1 \<le> saturation cfg \<and> 0 \<le> cfg_weight cfg \<and> f64 (cfg_weight cfg) = cfg_weight cfg"

lemma opt_number_double: "opt_number k v = Some d \<Longrightarrow> f64 d = d"
  by (auto simp: opt_number_def float64.idem split: json.splits option.splits)

lemma the_default_max:
  assumes "f64 m = m" "m \<le> d" "f64 d = d"
  shows "m \<le> the_default d (map_option (\<lambda>x. max x m) (opt_number k v))"
    and "f64 (the_default d (map_option (\<lambda>x. max x m) (opt_number k v)))
      = the_default d (map_option (\<lambda>x. max x m) (opt_number k v))"
  using assms opt_number_double [of k v]
  by (cases "opt_number k v"; simp add: the_default_def max_def)+

lemma parse_source_ok:
  assumes "parse_source v = Inr cfg" shows "cfg_ok cfg"
proof -
  have f: "saturation cfg = the_default 4 (map_option (\<lambda>x. max x 1) (opt_number ''saturation'' v))"
    "cfg_weight cfg = the_default 1 (map_option (\<lambda>x. max x 0) (opt_number ''weight'' v))"
    using assms unfolding parse_source_def
    by (auto simp only: bind_result_eq_Inr Let_def default_source_def source_config.simps sum.inject split: if_splits)
  have "f64 4 = 4" using float64.exact_int [of 4] by simp
  then show ?thesis
    using the_default_max [of 1 4 "''saturation''" v] the_default_max [of 0 1 "''weight''" v] by (simp add: cfg_ok_def f)
qed

lemma parse_sources_ok:
  assumes "parse_sources ss = Inr cfgs" shows "\<forall>cfg \<in> set cfgs. cfg_ok cfg"
  using assms unfolding parse_sources_def
  by (rule collect_all) (auto simp: bind_result_eq_Inr dest: parse_source_ok)

lemma parse_layer_ok:
  assumes "parse_layer l = Inr sls"
  shows "\<forall>sl \<in> set sls. slot sl < kMaxGeoJsonLayers \<and> (\<forall>cfg \<in> set (slot_sources sl). cfg_ok cfg)"
  using assms by (auto simp: parse_layer_def bind_result_eq_Inr not_le dest!: parse_sources_ok split: if_splits)

text \<open>Errors of the parsers are exceptions: no branch of them is undefined.\<close>

lemma bind_result_eq_Inl: "bind_result r f = Inl e \<longleftrightarrow> r = Inl e \<or> (\<exists>x. r = Inr x \<and> f x = Inl e)"
  by (cases r) simp_all

lemma collect_error:
  assumes "collect f xs = Inl e" shows "\<exists>x \<in> set xs. f x = Inl e"
  using assms by (induction xs) (auto simp: bind_result_eq_Inl)

lemma accessor_errors:
  "get_member k j = Inl e \<Longrightarrow> e \<noteq> Undefined" "get_string j = Inl e \<Longrightarrow> e \<noteq> Undefined"
  "get_uint j = Inl e \<Longrightarrow> e \<noteq> Undefined" "get_array j = Inl e \<Longrightarrow> e \<noteq> Undefined"
  "parse_kind s = Inl e \<Longrightarrow> e \<noteq> Undefined"
  by (auto simp: get_member_def json_assert_def parse_kind_def elim!: get_string.elims get_uint.elims get_array.elims
    split: json.splits option.splits if_splits)

lemma parse_errors:
  "parse_source v = Inl e \<Longrightarrow> e \<noteq> Undefined" "parse_sources ss = Inl e \<Longrightarrow> e \<noteq> Undefined"
proof -
  show s: "parse_source v = Inl e \<Longrightarrow> e \<noteq> Undefined" for v
    by (auto simp: parse_source_def bind_result_eq_Inl Let_def split: if_splits dest: accessor_errors)
  show "parse_sources ss = Inl e \<Longrightarrow> e \<noteq> Undefined"
    unfolding parse_sources_def by (drule collect_error) (use s in \<open>auto simp: bind_result_eq_Inl\<close>)
qed

lemma parse_layer_error: "parse_layer l = Inl e \<Longrightarrow> e \<noteq> Undefined"
  by (auto simp: parse_layer_def bind_result_eq_Inl split: if_splits dest: accessor_errors parse_errors)

lemma no_undefined_manifest:
  "manifest_canopy doc \<noteq> Inl Undefined" "manifest_layers doc \<noteq> Inl Undefined"
  by (auto simp: manifest_canopy_def manifest_layers_def split: json.splits option.splits
    dest: parse_errors collect_error parse_layer_error)

text \<open>
  What a valid manifest is, by the shape of its document: a source is an object with a file name and
  the name of a kind; a layer that declares a slot and sources has a slot below four and an array of valid
  sources, and any other entry of the layers is skipped; and there is something to score.
\<close>

definition members :: "string \<Rightarrow> json \<Rightarrow> json list" where
  "members k j = (case j of
      JObject ms \<Rightarrow> (case map_of ms k of Some (JArray xs) \<Rightarrow> xs | _ \<Rightarrow> [])
    | _ \<Rightarrow> [])"

definition canopy_entries :: "json \<Rightarrow> json list" where
  "canopy_entries doc = (case doc of
      JObject ms \<Rightarrow> (case map_of ms ''canopy'' of Some c \<Rightarrow> members ''sources'' c | None \<Rightarrow> [])
    | _ \<Rightarrow> [])"

definition layer_entries :: "json \<Rightarrow> json list" where
  "layer_entries doc = filter (\<lambda>l. has_member ''slot'' l \<and> has_member ''sources'' l) (members ''layers'' doc)"

fun kind_name :: "source_kind \<Rightarrow> string" where
  "kind_name kPoint = ''point''"
| "kind_name kLine = ''line''"
| "kind_name kPolygon = ''polygon''"

definition valid_source :: "json \<Rightarrow> bool" where
  "valid_source v \<longleftrightarrow> opt_string ''file'' v \<noteq> None
     \<and> (\<exists>k \<in> {kPoint, kLine, kPolygon}. opt_string ''kind'' v = Some (kind_name k))"

definition valid_layer :: "json \<Rightarrow> bool" where
  "valid_layer l \<longleftrightarrow> get_member ''slot'' l \<in> {Inr (JInt 0), Inr (JInt 1), Inr (JInt 2), Inr (JInt 3)}
     \<and> get_member ''sources'' l = Inr (JArray (members ''sources'' l)) \<and> list_all valid_source (members ''sources'' l)"

definition valid_manifest :: "json \<Rightarrow> bool" where
  "valid_manifest doc \<longleftrightarrow> is_object doc \<and> list_all valid_source (canopy_entries doc)
     \<and> list_all valid_layer (layer_entries doc) \<and> (canopy_entries doc \<noteq> [] \<or> layer_entries doc \<noteq> [])"

text \<open>The configuration that belongs to an entry.\<close>

definition source_of :: "json \<Rightarrow> source_config \<Rightarrow> bool" where
  "source_of v cfg \<longleftrightarrow> opt_string ''file'' v = Some (cfg_file cfg)
     \<and> opt_string ''kind'' v = Some (kind_name (cfg_kind cfg)) \<and> cfg_ok cfg"

definition layer_of :: "json \<Rightarrow> slot_config \<Rightarrow> bool" where
  "layer_of l sl \<longleftrightarrow> slot sl < 4 \<and> get_member ''slot'' l = Inr (JInt (int (slot sl)))
     \<and> list_all2 source_of (members ''sources'' l) (slot_sources sl)"

lemma member_string: "opt_string k v = Some s \<longleftrightarrow> (\<exists>x. get_member k v = Inr x \<and> get_string x = Inr s)"
proof (cases v)
  case (JObject ms)
  show ?thesis
  proof (cases "map_of ms k")
    case (Some x)
    then show ?thesis by (cases x) (simp_all add: opt_string_def get_member_def JObject json_assert_def)
  qed (simp add: opt_string_def get_member_def JObject)
qed (simp_all add: opt_string_def get_member_def)

lemma parse_kind_Inr: "parse_kind s = Inr k \<longleftrightarrow> s = kind_name k"
  by (cases k) (auto simp: parse_kind_def)

lemma opt_string_member: "opt_string k v = Some s \<Longrightarrow> is_object v \<and> has_member k v"
  by (cases v) (auto simp: opt_string_def has_member_def split: option.splits)

lemma parse_source_of: "parse_source v = Inr cfg \<Longrightarrow> source_of v cfg"
  using parse_source_ok [of v cfg]
  unfolding parse_source_def source_of_def member_string
  by (auto simp: bind_result_eq_Inr parse_kind_Inr Let_def split: if_splits)

lemma parse_source_accepts: "valid_source v \<Longrightarrow> \<exists>cfg. parse_source v = Inr cfg"
proof -
  assume "valid_source v"
  then obtain f k where fk: "opt_string ''file'' v = Some f" "opt_string ''kind'' v = Some (kind_name k)"
    unfolding valid_source_def by blast
  then show ?thesis
    using opt_string_member [OF fk(1)] opt_string_member [OF fk(2)] fk
    unfolding parse_source_def member_string
    by (auto simp: bind_result_eq_Inr parse_kind_Inr Let_def)
qed

lemma source_of_valid: "source_of v cfg \<Longrightarrow> valid_source v"
  by (cases "cfg_kind cfg") (auto simp: source_of_def valid_source_def)

lemma parse_sources_of: "parse_sources vs = Inr cfgs \<Longrightarrow> list_all2 source_of vs cfgs"
  unfolding parse_sources_def
  by (induction vs arbitrary: cfgs) (auto simp: bind_result_eq_Inr parse_source_of)

lemma parse_sources_accepts: "list_all valid_source vs \<Longrightarrow> \<exists>cfgs. parse_sources vs = Inr cfgs"
  unfolding parse_sources_def
  by (induction vs) (auto simp: bind_result_eq_Inr dest!: parse_source_accepts)

lemma sources_of_valid: "list_all2 source_of vs cfgs \<Longrightarrow> list_all valid_source vs"
  by (induction rule: list_all2_induct) (auto dest: source_of_valid)

text \<open>One entry of the layers: skipped, or one slot.\<close>

lemma parse_layer_skips:
  "\<not> (has_member ''slot'' l \<and> has_member ''sources'' l) \<Longrightarrow> parse_layer l = Inr []"
  by (auto simp: parse_layer_def)

lemma member_object: "has_member k l \<Longrightarrow> is_object l"
  by (cases l) (simp_all add: has_member_def)

lemma get_array_Inr: "get_array x = Inr xs \<longleftrightarrow> x = JArray xs"
  by (cases x) (simp_all add: json_assert_def)

lemma get_uint_Inr: "get_uint x = Inr n \<longleftrightarrow> x = JInt (int n) \<and> n < 2 ^ 32"
  by (cases x) (auto simp: json_assert_def)

lemma members_of: "get_member k l = Inr (JArray xs) \<Longrightarrow> members k l = xs"
  by (cases l) (auto simp: get_member_def members_def json_assert_def split: option.splits)

lemma parse_layer_of:
  assumes "has_member ''slot'' l" "has_member ''sources'' l" "parse_layer l = Inr sls"
  shows "\<exists>sl. sls = [sl] \<and> layer_of l sl \<and> valid_layer l"
proof -
  obtain n ss cfgs where n: "get_member ''slot'' l = Inr (JInt (int n))" "n < 4"
    and ss: "get_member ''sources'' l = Inr (JArray ss)" "parse_sources ss = Inr cfgs"
    and sls: "sls = [\<lparr>slot = n, slot_name = the_default [] (opt_string ''name'' l), slot_sources = cfgs\<rparr>]"
    using assms member_object [OF assms(1)]
    by (auto simp: parse_layer_def bind_result_eq_Inr get_uint_Inr get_array_Inr kMaxGeoJsonLayers_def split: if_splits)
  have "n = 0 \<or> n = 1 \<or> n = 2 \<or> n = 3" using n(2) by arith
  then show ?thesis
    using n ss(1) parse_sources_of [OF ss(2)] sources_of_valid [OF parse_sources_of [OF ss(2)]]
    by (auto simp: sls layer_of_def valid_layer_def members_of [OF ss(1)])
qed

lemma parse_layer_accepts:
  assumes "valid_layer l" shows "\<exists>sls. parse_layer l = Inr sls"
proof -
  obtain n cfgs where n: "get_member ''slot'' l = Inr (JInt (int n))" "n < 4"
    and ss: "get_member ''sources'' l = Inr (JArray (members ''sources'' l))"
      "parse_sources (members ''sources'' l) = Inr cfgs"
    using assms parse_sources_accepts [of "members ''sources'' l"] unfolding valid_layer_def
    by (elim conjE insertE emptyE) (force dest: spec [of _ 0] spec [of _ 1] spec [of _ 2] spec [of _ 3])+
  then show ?thesis
    by (auto simp: parse_layer_def bind_result_eq_Inr get_uint_Inr get_array_Inr kMaxGeoJsonLayers_def)
qed

lemma parse_layers_of:
  assumes "collect parse_layer ls = Inr sls"
  shows "list_all2 layer_of (filter (\<lambda>l. has_member ''slot'' l \<and> has_member ''sources'' l) ls) sls"
    and "list_all valid_layer (filter (\<lambda>l. has_member ''slot'' l \<and> has_member ''sources'' l) ls)"
  using assms by (induction ls arbitrary: sls) (auto simp: bind_result_eq_Inr parse_layer_skips dest!: parse_layer_of)

lemma parse_layers_accepts:
  "list_all valid_layer (filter (\<lambda>l. has_member ''slot'' l \<and> has_member ''sources'' l) ls)
     \<Longrightarrow> \<exists>sls. collect parse_layer ls = Inr sls"
proof (induction ls)
  case (Cons l ls)
  then show ?case
    using parse_layer_accepts [of l] parse_layer_skips [of l]
    by (cases "has_member ''slot'' l \<and> has_member ''sources'' l") (auto simp: bind_result_eq_Inr)
qed simp

lemma manifest_canopy_entries: "manifest_canopy doc = parse_sources (canopy_entries doc)"
  by (simp add: manifest_canopy_def canopy_entries_def members_def parse_sources_def split: json.split option.split)

lemma manifest_layer_entries: "manifest_layers doc = collect parse_layer (members ''layers'' doc)"
  by (simp add: manifest_layers_def members_def split: json.split option.split)

text \<open>
  C33: A manifest is accepted exactly if its document is valid, and what it is parsed into is what it says:
  one configuration per canopy source and one slot per layer entry that declares a slot and sources, in
  order, with the file and kind of each source, slots below four (so that they index the array of layer
  sources), saturations of at least one and weights that are not negative. A file that is missing,
  unparsable or not an object is rejected with the exception that names it, and any other document
  that is not valid is rejected with an exception, never with undefined behaviour.
\<close>

theorem parse_manifest_correct:
  "case parse_manifest files path of
     Inr m \<Rightarrow> \<exists>doc. files path = Document doc \<and> valid_manifest doc
       \<and> list_all2 source_of (canopy_entries doc) (canopy m) \<and> list_all2 layer_of (layer_entries doc) (layers m)
   | Inl e \<Rightarrow> (case files path of
         Missing \<Rightarrow> e = Runtime_error (''Cannot open region manifest: '' @ path)
       | Unparsable \<Rightarrow> e = Runtime_error (''Region manifest is not valid JSON: '' @ path)
       | Document doc \<Rightarrow> \<not> valid_manifest doc
           \<and> (if is_object doc then e \<noteq> Undefined else e = Runtime_error (''Region manifest is not valid JSON: '' @ path)))"
proof (cases "parse_manifest files path")
  case (Inr m)
  then obtain doc where *: "files path = Document doc" "is_object doc" "parse_sources (canopy_entries doc) = Inr (canopy m)"
    "collect parse_layer (members ''layers'' doc) = Inr (layers m)" "canopy m \<noteq> [] \<or> layers m \<noteq> []"
    by (auto simp: parse_manifest_def bind_result_eq_Inr manifest_canopy_entries manifest_layer_entries
        split: file_content.splits if_splits)
  note c = parse_sources_of [OF *(3)] and l = parse_layers_of [OF *(4), folded layer_entries_def]
  have "canopy_entries doc \<noteq> [] \<or> layer_entries doc \<noteq> []" using *(5) c l(1) by auto
  then show ?thesis using * c l sources_of_valid [OF c] Inr by (simp add: valid_manifest_def)
next
  case (Inl e)
  show ?thesis
  proof (cases "files path")
    case (Document doc)
    have "\<not> valid_manifest doc"
    proof
      assume v: "valid_manifest doc"
      obtain cfgs sls where p: "parse_sources (canopy_entries doc) = Inr cfgs"
        "collect parse_layer (members ''layers'' doc) = Inr sls"
        using v parse_sources_accepts parse_layers_accepts by (fastforce simp: valid_manifest_def layer_entries_def)
      have "cfgs \<noteq> [] \<or> sls \<noteq> []"
        using v parse_sources_of [OF p(1)] parse_layers_of(1) [OF p(2), folded layer_entries_def]
        by (auto simp: valid_manifest_def)
      then show False
        using Inl v p by (auto simp: parse_manifest_def Document manifest_canopy_entries manifest_layer_entries
            valid_manifest_def split: if_splits)
    qed
    then show ?thesis
      using Inl no_undefined_manifest by (auto simp: parse_manifest_def Document bind_result_eq_Inl split: if_splits)
  qed (use Inl in \<open>simp_all add: parse_manifest_def\<close>)
qed

section \<open>The invariant of a loaded store\<close>

text \<open>
  \<open>grid_filled\<close>: a grid is what the insertion loop makes of a list of features.
\<close>

definition store_ok :: "feature_store \<Rightarrow> bool" where
  "store_ok st \<longleftrightarrow>
     (\<forall>r \<in> set (st_rings st). 0 \<le> ring_value r \<and> ring_value r \<le> 1 \<and> make_ring (pts r) (ring_value r) = Some r)
     \<and> (\<forall>s \<in> set (st_segments st). 0 \<le> seg_value s \<and> seg_value s \<le> 1)"

definition indexed_ok :: "feature_store \<Rightarrow> bool" where
  "indexed_ok st \<longleftrightarrow>
     (let g0 = new_grid (cell_degrees (st_cfg st))
      in (cfg_kind (st_cfg st) = kPoint \<longrightarrow> (\<exists>g. st_grid st = Some g \<and> index_loop insert_point (st_points st) 0 g0 = Inr g))
       \<and> (cfg_kind (st_cfg st) = kPolygon \<longrightarrow>
            (\<exists>g. st_grid st = Some g \<and> index_loop insert_box (map ring_box (st_rings st)) 0 g0 = Inr g))
       \<and> (case segment_grid st of None \<Rightarrow> st_segments st = []
          | Some g \<Rightarrow> index_loop insert_box (map segment_box (st_segments st)) 0 g0 = Inr g))"

lemma make_ring_self: "make_ring ps v = Some r \<Longrightarrow> ring_value r = v \<and> make_ring (pts r) v = Some r"
  using make_ring_fields(1,2) [of ps v r] by simp

lemma add_ring_ok: "store_ok st \<Longrightarrow> 0 \<le> v \<Longrightarrow> v \<le> 1 \<Longrightarrow> store_ok (add_ring ps v st)"
  by (auto simp: add_ring_def store_ok_def dest: make_ring_self split: option.splits)

lemma add_line_ok: "store_ok st \<Longrightarrow> store_ok (add_line ps st)"
  by (auto simp: add_line_def store_ok_def line_segments_def)

lemma add_keeps [simp]:
  "st_cfg (add_ring ps v st) = st_cfg st" "st_cfg (add_line ps st) = st_cfg st"
  "st_grid (add_ring ps v st) = st_grid st" "st_grid (add_line ps st) = st_grid st"
  "segment_grid (add_ring ps v st) = segment_grid st" "segment_grid (add_line ps st) = segment_grid st"
  by (simp_all add: add_ring_def add_line_def split: option.splits)

definition loading :: "source_config \<Rightarrow> feature_store \<Rightarrow> bool" where
  "loading cfg st \<longleftrightarrow> store_ok st \<and> st_cfg st = cfg \<and> segment_grid st = None"

lemma loading_add:
  "loading cfg st \<Longrightarrow> 0 \<le> v \<Longrightarrow> v \<le> 1 \<Longrightarrow> loading cfg (add_ring ps v st)"
  "loading cfg st \<Longrightarrow> loading cfg (add_line ps st)"
  by (simp_all add: loading_def add_ring_ok add_line_ok)

lemma add_ring_or_line_ok:
  "add_ring_or_line v c st = Inr st' \<Longrightarrow> loading cfg st \<Longrightarrow> 0 \<le> v \<Longrightarrow> v \<le> 1 \<Longrightarrow> loading cfg st'"
  by (auto simp: add_ring_or_line_def bind_result_eq_Inr loading_add)

lemma load_geometry_ok:
  assumes "load_geometry v type coords st = Inr st'" "loading cfg st" "0 \<le> v" "v \<le> 1"
  shows "loading cfg st'"
proof (cases coords)
  case (JArray cs)
  have pts: "loading cfg (st\<lparr>st_points := ps\<rparr>)" for ps
    using assms(2) by (simp add: loading_def store_ok_def)
  have rings: "loading cfg t" if "fold_result (add_ring_or_line v) rs s = Inr t" "loading cfg s" for rs s t
    by (rule fold_result_invariant [where I = "loading cfg", OF that]) (rule add_ring_or_line_ok [OF _ _ assms(3,4)])
  have polys: "loading cfg t" if "fold_result (\<lambda>poly st. bind_result (get_array poly) (\<lambda>rs. fold_result (add_ring_or_line v) rs st)) ps s = Inr t"
    "loading cfg s" for ps s t
    by (rule fold_result_invariant [where I = "loading cfg", OF that]) (auto simp: bind_result_eq_Inr intro: rings)
  have lines: "loading cfg t" if "fold_result (\<lambda>line st. bind_result (parse_coord_ring line) (\<lambda>ps. Inr (add_line ps st))) ls s = Inr t"
    "loading cfg s" for ls s t
    by (rule fold_result_invariant [where I = "loading cfg", OF that]) (auto simp: bind_result_eq_Inr loading_add)
  show ?thesis
    using assms(1,2) by (auto simp: load_geometry_def JArray bind_result_eq_Inr loading_add pts split: if_splits
      intro: rings polys lines)
qed (use assms in \<open>simp_all add: load_geometry_def\<close>)

lemma feature_value_range: "feature_value cfg f = Inr v \<Longrightarrow> 0 \<le> v \<and> v \<le> 1"
  by (auto simp: feature_value_def bind_result_eq_Inr Let_def split: if_splits option.splits)

lemma load_feature_ok:
  "load_feature f st = Inr st' \<Longrightarrow> loading cfg st \<Longrightarrow> loading cfg st'"
  by (auto simp: load_feature_def bind_result_eq_Inr split: if_splits dest: feature_value_range
    intro: load_geometry_ok)

lemma build_grid_ok:
  assumes "bind_result (build_grid st) build_segment_grid = Inr st'" "loading cfg st"
  shows "store_ok st' \<and> indexed_ok st' \<and> st_cfg st' = cfg"
proof -
  obtain s1 where 1: "build_grid st = Inr s1" and 2: "build_segment_grid s1 = Inr st'"
    using assms(1) by (auto simp: bind_result_eq_Inr)
  have "store_ok s1"
    using 1 assms(2) by (auto simp: build_grid_def bind_result_eq_Inr loading_def store_ok_def ring_boundary_def Let_def
      split: source_kind.splits if_splits)
  moreover have "st_cfg s1 = cfg \<and> segment_grid s1 = None"
    using 1 assms(2) by (auto simp: build_grid_def bind_result_eq_Inr loading_def Let_def split: source_kind.splits)
  moreover have "indexed_ok (st'\<lparr>segment_grid := None, st_segments := []\<rparr>)"
    using 1 2 assms(2) by (auto simp: build_grid_def build_segment_grid_def bind_result_eq_Inr loading_def Let_def
      indexed_ok_def split: source_kind.splits if_splits)
  ultimately show ?thesis
    using 2 by (auto simp: build_segment_grid_def bind_result_eq_Inr store_ok_def indexed_ok_def Let_def split: if_splits)
qed

lemma load_source_ok:
  assumes "load_source files base cfg = Inr st"
  shows "store_ok st \<and> indexed_ok st \<and> st_cfg st = cfg"
proof -
  obtain features s where f: "fold_result load_feature features (empty_store cfg) = Inr s"
    and b: "bind_result (build_grid s) build_segment_grid = Inr st"
    using assms by (auto simp: load_source_def Let_def bind_result_eq_Inr split: file_content.splits if_splits)
  have "loading cfg (empty_store cfg)" by (simp add: loading_def empty_store_def store_ok_def)
  then have "loading cfg s" by (rule fold_result_invariant [where I = "loading cfg", OF f]) (rule load_feature_ok)
  then show ?thesis by (rule build_grid_ok [OF b])
qed

text \<open>
  What a grid over a list of features holds: in every cell, in order, the positions of the features whose
  footprint contains it.
\<close>

definition indexes_points :: "rat \<Rightarrow> point list \<Rightarrow> grid_index \<Rightarrow> bool" where
  "indexes_points c ps g \<longleftrightarrow> (\<forall>x y. i32 x \<and> i32 y \<longrightarrow>
     grid_cells g (grid_key x y) = filter (\<lambda>i. point_covers c (ps ! i) x y) [0..<length ps])"

definition indexes_boxes :: "rat \<Rightarrow> (point \<times> point) list \<Rightarrow> grid_index \<Rightarrow> bool" where
  "indexes_boxes c bs g \<longleftrightarrow> (\<forall>x y. i32 x \<and> i32 y \<longrightarrow>
     grid_cells g (grid_key x y) = filter (\<lambda>i. box_covers c (bs ! i) x y) [0..<length bs])"

lemma indexes_loop:
  "index_loop insert_point ps 0 (new_grid c) = Inr g \<Longrightarrow> indexes_points c ps g"
  "index_loop insert_box bs 0 (new_grid c) = Inr g \<Longrightarrow> indexes_boxes c bs g"
  by (simp_all add: indexes_points_def indexes_boxes_def point_index.filled box_index.filled)

lemma ring_box_made:
  "make_ring ps v = Some r \<Longrightarrow> ring_box r = ((Min (fst ` set ps), Min (snd ` set ps)), (Max (fst ` set ps), Max (snd ` set ps)))"
  by (simp add: ring_box_def make_ring_fields)

text \<open>
  C32: A GeoJSON source that loads becomes a store whose indexes can be trusted. The box of every ring is the
  least one around its points, and asking the ring through its latitude bands for any position gives
  the same answer as scanning all its sides; rings and segments carry values between 0 and 1; and
  every cell of the grids over points, ring boxes and segment boxes holds exactly the positions of the
  features that reach into it, each once and in order.
\<close>

theorem load_source_correct:
  assumes "load_source files base cfg = Inr st"
  shows "st_cfg st = cfg
    \<and> list_all (\<lambda>r. 0 \<le> ring_value r \<and> ring_value r \<le> 1
        \<and> ring_box r = ((Min (fst ` set (pts r)), Min (snd ` set (pts r))), (Max (fst ` set (pts r)), Max (snd ` set (pts r))))
        \<and> (\<forall>p. ring_contains r p = (\<not> outside_bbox r p \<and> inside_scan (pts r) p))) (st_rings st)
    \<and> list_all (\<lambda>s. 0 \<le> seg_value s \<and> seg_value s \<le> 1) (st_segments st)
    \<and> (case segment_grid st of
         None \<Rightarrow> st_segments st = []
       | Some g \<Rightarrow> indexes_boxes (cell_degrees cfg) (map segment_box (st_segments st)) g)
    \<and> (case cfg_kind cfg of
         kPoint \<Rightarrow> (\<exists>g. st_grid st = Some g \<and> indexes_points (cell_degrees cfg) (st_points st) g)
       | kLine \<Rightarrow> True
       | kPolygon \<Rightarrow> (\<exists>g. st_grid st = Some g \<and> indexes_boxes (cell_degrees cfg) (map ring_box (st_rings st)) g))"
proof -
  note ok = load_source_ok [OF assms]
  have rings: "list_all (\<lambda>r. 0 \<le> ring_value r \<and> ring_value r \<le> 1
        \<and> ring_box r = ((Min (fst ` set (pts r)), Min (snd ` set (pts r))), (Max (fst ` set (pts r)), Max (snd ` set (pts r))))
        \<and> (\<forall>p. ring_contains r p = (\<not> outside_bbox r p \<and> inside_scan (pts r) p))) (st_rings st)"
    unfolding list_all_iff
  proof (intro ballI conjI allI)
    fix r p assume r: "r \<in> set (st_rings st)"
    then show "0 \<le> ring_value r" "ring_value r \<le> 1" using ok by (simp_all add: store_ok_def)
    have m: "make_ring (pts r) (ring_value r) = Some r" using ok r by (simp add: store_ok_def)
    show "ring_contains r p = (\<not> outside_bbox r p \<and> inside_scan (pts r) p)" by (rule make_ring_contains [OF m])
    show "ring_box r = ((Min (fst ` set (pts r)), Min (snd ` set (pts r))), (Max (fst ` set (pts r)), Max (snd ` set (pts r))))"
      by (rule ring_box_made [OF m])
  qed
  show ?thesis
    using ok rings indexes_loop
    by (auto simp: store_ok_def indexed_ok_def list_all_iff Let_def split: source_kind.splits option.splits)
qed

text \<open>A file with one triangle, in a grid whose cells are one degree wide.\<close>

definition triangle_source :: source_config where
  "triangle_source = default_source\<lparr>cfg_file := ''park'', cfg_kind := kPolygon, radius_m := 111320\<rparr>"

definition triangle_file :: file_content where
  "triangle_file = Document (JObject [(''features'', JArray [JObject [(''geometry'', JObject [(''type'', JString ''Polygon''),
     (''coordinates'', JArray [JArray [JArray [JInt 0, JInt 0], JArray [JInt 1, JInt 0], JArray [JInt 0, JInt 1]]])])]])])"

lemma triangle_cells: "cell_degrees triangle_source = 1"
  by (simp add: cell_degrees_def triangle_source_def default_source_def kMetersPerDegree_def)

lemma triangle_loads:
  "\<exists>st r. load_source (\<lambda>_. triangle_file) ''tiles'' triangle_source = Inr st \<and> st_rings st = [r]
    \<and> pts r = [(0, 0), (1, 0), (0, 1)]"
proof -
  let ?ps = "[(0, 0), (1, 0), (0, 1)] :: point list"
  obtain r where r: "make_ring ?ps 1 = Some r" by (simp add: make_ring_def)
  have box: "ring_box r = ((0, 0), (1, 1))" using ring_box_made [OF r] by simp
  have cells: "cell_at 1 0 = 0" "cell_at 1 1 = 1" by (simp_all add: cell_at_def)
  have rng: "loop_range 0 1 = Inr [0..1]" by (simp add: loop_range_def checked_i32_def)
  obtain g where g: "index_loop insert_box (map ring_box [r]) 0 (new_grid 1) = Inr g"
    by (simp add: box insert_box_def insert_bbox_def cell_of_eq new_grid_def cells i32_def rng)
  have "fold_result load_feature [JObject [(''geometry'', JObject [(''type'', JString ''Polygon''),
     (''coordinates'', JArray [JArray [JArray [JInt 0, JInt 0], JArray [JInt 1, JInt 0], JArray [JInt 0, JInt 1]]])])]]
     (empty_store triangle_source) = Inr ((empty_store triangle_source)\<lparr>st_rings := [r]\<rparr>)"
    by (simp add: load_feature_def has_member_def get_member_def load_geometry_def add_ring_or_line_def parse_coord_ring_def
        parse_position_def feature_value_def triangle_source_def default_source_def empty_store_def add_ring_def r)
  then have "load_source (\<lambda>_. triangle_file) ''tiles'' triangle_source
      = bind_result (build_grid ((empty_store triangle_source)\<lparr>st_rings := [r]\<rparr>)) build_segment_grid"
    by (simp add: load_source_def triangle_file_def has_member_def get_member_def)
  also have "\<dots> = Inr ((empty_store triangle_source)\<lparr>st_rings := [r], st_grid := Some g\<rparr>)"
    using g triangle_cells
    by (simp add: build_grid_def build_segment_grid_def empty_store_def triangle_source_def default_source_def)
  finally show ?thesis using make_ring_fields(1) [OF r] by (intro exI [of _ r] exI conjI) (assumption, simp_all)
qed

theorem load_source_correct_witness:
  "\<exists>st r. load_source (\<lambda>_. triangle_file) ''tiles'' triangle_source = Inr st \<and> st_rings st = [r]
    \<and> ring_box r = ((0, 0), (1, 1)) \<and> (\<exists>g. st_grid st = Some g \<and> indexes_boxes 1 [((0, 0), (1, 1))] g)"
proof -
  obtain st r where st: "load_source (\<lambda>_. triangle_file) ''tiles'' triangle_source = Inr st" "st_rings st = [r]"
    "pts r = [(0, 0), (1, 0), (0, 1)]"
    using triangle_loads by blast
  show ?thesis
    using load_source_correct [OF st(1)] st triangle_cells by (auto simp: triangle_source_def)
qed

end
