(* ===== verification/Environment.thy ===== *)
theory Environment
  imports Environment_Sources Tile_Builder
begin

text \<open>
  The environment scorer itself (\<^verbatim>\<open>src/mjolnir/environment.cc\<close>): the score of one sample, of one edge,
  the sampling of a shape, the pass over one tile and the workers that share the tiles.
\<close>

section \<open>Scoring a sample\<close>

definition score_point :: "libm \<Rightarrow> feature_store \<Rightarrow> point \<Rightarrow> nat list \<Rightarrow> rat" where
  "score_point m st sample ids =
     min (f64 (f64 (of_nat (length (filter (\<lambda>i. Distance m sample (st_points st ! i) \<le> radius_m (st_cfg st)) ids)))
          / saturation (st_cfg st))) 1"

definition best_ring :: "feature_store \<Rightarrow> point \<Rightarrow> nat list \<Rightarrow> rat \<Rightarrow> rat" where
  "best_ring st sample = fold (\<lambda>i best.
     let r = st_rings st ! i in if best < ring_value r \<and> ring_contains r sample then ring_value r else best)"

definition best_segment :: "libm \<Rightarrow> feature_store \<Rightarrow> point \<Rightarrow> nat list \<Rightarrow> rat \<Rightarrow> rat" where
  "best_segment m st sample = fold (\<lambda>i best.
     let s = st_segments st ! i
     in if best < seg_value s \<and> point_segment_distance_m m sample s \<le> proximity_m (st_cfg st) then seg_value s else best)"

text \<open>
  A grid that was never built is a null pointer: \<open>Undefined\<close> where the code does not test it.
\<close>

definition score_sample :: "libm \<Rightarrow> feature_store \<Rightarrow> point \<Rightarrow> rat result" where
  "score_sample m st sample =
     (case cfg_kind (st_cfg st) of
        kPoint \<Rightarrow> (case st_grid st of None \<Rightarrow> Inl Undefined | Some g \<Rightarrow>
          bind_result (query_neighborhood g (fst sample) (snd sample)) (\<lambda>ids. Inr (score_point m st sample ids)))
      | kLine \<Rightarrow> (case segment_grid st of None \<Rightarrow> Inr 0 | Some g \<Rightarrow>
          bind_result (query_neighborhood g (fst sample) (snd sample)) (\<lambda>ids.
          Inr (if \<exists>i \<in> set ids. point_segment_distance_m m sample (st_segments st ! i) \<le> radius_m (st_cfg st) then 1 else 0)))
      | kPolygon \<Rightarrow> (case st_grid st of None \<Rightarrow> Inl Undefined | Some g \<Rightarrow>
          bind_result (query_cell g (fst sample) (snd sample)) (\<lambda>ids.
          let best = best_ring st sample ids 0
          in case segment_grid st of
               None \<Rightarrow> Inr best
             | Some sg \<Rightarrow>
                 if best < 1 \<and> 0 < proximity_m (st_cfg st) then
                   bind_result (query_neighborhood sg (fst sample) (snd sample)) (\<lambda>sids.
                   Inr (best_segment m st sample sids best))
                 else Inr best)))"

section \<open>Scoring an edge\<close>

definition sum_scores :: "libm \<Rightarrow> feature_store \<Rightarrow> point list \<Rightarrow> rat result" where
  "sum_scores m st samples =
     fold_result (\<lambda>sample sum. bind_result (score_sample m st sample) (\<lambda>s. Inr (f64 (sum + s)))) samples 0"

definition add_source :: "libm \<Rightarrow> point list \<Rightarrow> feature_store \<Rightarrow> rat \<times> rat \<Rightarrow> (rat \<times> rat) result" where
  "add_source m samples st acc =
     bind_result (sum_scores m st samples) (\<lambda>sum.
     Inr (f64 (fst acc + f64 (cfg_weight (st_cfg st) * f64 (sum / f64 (of_nat (length samples))))),
          f64 (snd acc + cfg_weight (st_cfg st))))"

definition score_edge :: "libm \<Rightarrow> feature_store list \<Rightarrow> point list \<Rightarrow> rat result" where
  "score_edge m sources samples =
     bind_result (fold_result (add_source m samples) sources (0, 0)) (\<lambda>(blended, total_weight).
     Inr (if 0 < total_weight then f64 (blended / total_weight) else 0))"

section \<open>Sampling a shape\<close>

definition kSampleSpacingMeters :: rat where "kSampleSpacingMeters = 10"
definition kMaxSamplesPerEdge :: nat where "kMaxSamplesPerEdge = 48"

definition sample_at :: "point \<Rightarrow> point \<Rightarrow> rat \<Rightarrow> point" where
  "sample_at a b t = (f64 (fst a + f64 (f64 (fst b - fst a) * t)), f64 (snd a + f64 (f64 (snd b - snd a) * t)))"

text \<open>
  \<^verbatim>\<open>while (along < seg)\<close>: the samples and the value of \<open>along\<close> when the loop ends. \<open>None\<close> means that
  the fuel is used up.
\<close>

fun walk_segment :: "nat \<Rightarrow> point \<Rightarrow> point \<Rightarrow> rat \<Rightarrow> rat \<Rightarrow> rat \<Rightarrow> (point list \<times> rat) option" where
  "walk_segment fuel a b seg spacing along =
     (if along < seg then
        (case fuel of 0 \<Rightarrow> None
         | Suc fuel' \<Rightarrow>
             (case walk_segment fuel' a b seg spacing (f64 (along + spacing)) of
                None \<Rightarrow> None
              | Some (ps, e) \<Rightarrow> Some (sample_at a b (f64 (along / seg)) # ps, e)))
      else Some ([], along))"

declare walk_segment.simps [simp del]

fun walk_shape :: "libm \<Rightarrow> nat \<Rightarrow> rat \<Rightarrow> rat \<Rightarrow> point list \<Rightarrow> point list option" where
  "walk_shape m fuel spacing carried (a # b # ps) =
     (let seg = Distance m a b
      in if seg \<le> 0 then walk_shape m fuel spacing carried (b # ps)
         else case walk_segment fuel a b seg spacing (f64 (spacing - carried)) of
           None \<Rightarrow> None
         | Some (out, along) \<Rightarrow>
             map_option (\<lambda>rest. out @ rest)
               (walk_shape m fuel spacing (f64 (seg - f64 (along - spacing))) (b # ps)))"
| "walk_shape m fuel spacing carried ps = Some []"

definition sample_spacing :: "rat \<Rightarrow> rat" where
  "sample_spacing edge_length_m = max kSampleSpacingMeters (f64 (edge_length_m / of_nat kMaxSamplesPerEdge))"

definition sample_shape :: "libm \<Rightarrow> nat \<Rightarrow> point list \<Rightarrow> rat \<Rightarrow> point list option" where
  "sample_shape m fuel sh edge_length_m =
     (case sh of
        [] \<Rightarrow> Some []
      | p # _ \<Rightarrow> map_option (\<lambda>rest. p # rest) (walk_shape m fuel (sample_spacing edge_length_m) 0 sh))"

section \<open>The pass over one tile\<close>

text \<open>\<^verbatim>\<open>GraphTile\<close>: the edges, the edge info bytes from \<^verbatim>\<open>edgeinfo_\<close> on, and the text list.\<close>

record graph_tile =
  gt_id :: graph_id
  gt_edges :: "directed_edge list"
  gt_edgeinfo :: "u8 list"
  gt_textlist :: "u8 list"

definition tile_edgeinfo :: "graph_tile \<Rightarrow> directed_edge \<Rightarrow> edge_info result" where
  "tile_edgeinfo t e = read_edge_info (drop (unat (de_edgeinfo_offset e)) (gt_edgeinfo t)) (gt_textlist t)"

definition canopy_score :: "libm \<Rightarrow> feature_store list \<Rightarrow> point list \<Rightarrow> u8 result" where
  "canopy_score m sources samples =
     (if sources = [] then Inr 0
      else bind_result (score_edge m sources samples) (\<lambda>s.
           Inr (word_of_int (c_round (f64 (of_nat (unat kMaxTreeCanopy) * s))))))"

definition layer_score :: "libm \<Rightarrow> feature_store list \<Rightarrow> point list \<Rightarrow> u8 result" where
  "layer_score m sources samples =
     (if sources = [] then Inr 0
      else bind_result (score_edge m sources samples) (\<lambda>s. Inr (word_of_int (c_round (f64 (254 * s))))))"

definition edge_scores ::
  "libm \<Rightarrow> feature_store list \<Rightarrow> feature_store list list \<Rightarrow> point list \<Rightarrow> environment_scores result" where
  "edge_scores m canopy_sources layer_sources samples =
     (if samples = [] then Inr no_scores
      else bind_result (canopy_score m canopy_sources samples) (\<lambda>c.
           bind_result (collect (\<lambda>sources. bind_result (layer_score m sources samples) (\<lambda>s. Inr [s])) layer_sources) (\<lambda>ls.
           Inr \<lparr>tree_canopy = c, layer_scores = ls\<rparr>)))"

definition is_zero :: "environment_scores \<Rightarrow> bool" where
  "is_zero s \<longleftrightarrow> tree_canopy s = 0 \<and> list_all (\<lambda>v. v = 0) (layer_scores s)"

text \<open>
  One edge of the scoring loop: \<open>scored\<close> is the map from edge info offset to scores. The shape is
  read through the edge info; \<open>fuel\<close> bounds the sampling loop.
\<close>

definition score_step ::
  "libm \<Rightarrow> nat \<Rightarrow> feature_store list \<Rightarrow> feature_store list list \<Rightarrow> graph_tile \<Rightarrow> directed_edge
    \<Rightarrow> (u32 \<times> environment_scores) list \<Rightarrow> (u32 \<times> environment_scores) list result" where
  "score_step m fuel cs ls t e scored =
     (let offset = ucast (de_edgeinfo_offset e)
      in if map_of scored offset \<noteq> None then Inr scored
         else bind_result (tile_edgeinfo t e) (\<lambda>ei. bind_result (shape ei) (\<lambda>sh.
              case sample_shape m fuel sh (of_nat (unat (de_length e))) of
                None \<Rightarrow> Inl (Logic_error ''out of fuel'')
              | Some samples \<Rightarrow> bind_result (edge_scores m cs ls samples) (\<lambda>s. Inr ((offset, s) # scored)))))"

definition tagged_entries ::
  "graph_tile \<Rightarrow> (u32 \<times> environment_scores) list \<Rightarrow> (graph_id \<times> u8 list) list result" where
  "tagged_entries t scored =
     collect (\<lambda>(i, e).
       let s = the_default no_scores (map_of scored (ucast (de_edgeinfo_offset e)))
       in if is_zero s then Inr []
          else bind_result (gid_make (tileid (gt_id t)) (level (gt_id t)) (word_of_nat i)) (\<lambda>g. Inr [(g, EncodeEnvironment s)]))
       (enumerate 0 (gt_edges t))"

text \<open>
  The body of the worker for one tile: \<open>builder\<close> is the \<^verbatim>\<open>GraphTileBuilder\<close> that deserialises the
  tile. The result is the number of tagged edge infos and the builder whose data is stored, or
  \<open>None\<close> if the tile is left alone.
\<close>

definition score_tile ::
  "libm \<Rightarrow> nat \<Rightarrow> feature_store list \<Rightarrow> feature_store list list \<Rightarrow> graph_tile \<Rightarrow> tile_builder
    \<Rightarrow> (nat \<times> tile_builder) option result" where
  "score_tile m fuel cs ls t builder =
     bind_result (fold_result (score_step m fuel cs ls t) (gt_edges t) []) (\<lambda>scored.
     if list_all (\<lambda>kv. is_zero (snd kv)) scored then Inr None
     else bind_result (tagged_entries t scored) (\<lambda>tagged.
          bind_result (AddTaggedValues kEnvironment tagged builder) (\<lambda>r. Inr (Some r))))"

text \<open>
  The start of \<^verbatim>\<open>AddEnvironment\<close>: the manifest and all its sources. The sources of a slot are
  collected over all layers that name it, in order.
\<close>

definition load_sources :: "(string \<Rightarrow> file_content) \<Rightarrow> string \<Rightarrow> source_config list \<Rightarrow> feature_store list result" where
  "load_sources files base_dir = collect (\<lambda>cfg. bind_result (load_source files base_dir cfg) (\<lambda>st. Inr [st]))"

definition load_layer ::
  "(string \<Rightarrow> file_content) \<Rightarrow> string \<Rightarrow> slot_config \<Rightarrow> feature_store list list \<Rightarrow> feature_store list list result" where
  "load_layer files base_dir sl ls = bind_result (load_sources files base_dir (slot_sources sl)) (\<lambda>sts.
     if slot sl < length ls then Inr (ls[slot sl := ls ! slot sl @ sts]) else Inl Undefined)"

definition load_environment ::
  "(string \<Rightarrow> file_content) \<Rightarrow> string \<Rightarrow> string \<Rightarrow> (feature_store list \<times> feature_store list list) result" where
  "load_environment files base_dir manifest_path =
     bind_result (parse_manifest files manifest_path) (\<lambda>mf.
     bind_result (load_sources files base_dir (canopy mf)) (\<lambda>cs.
     bind_result (fold_result (load_layer files base_dir) (layers mf) (replicate kMaxGeoJsonLayers [])) (\<lambda>ls.
     Inr (cs, ls))))"

section \<open>A polygon source scores by the strongest ring around the sample\<close>

lemma Max_insert_max:
  fixes a b :: "'a::linorder"
  assumes "finite S" shows "Max (insert (max a b) S) = Max (insert a (insert b S))"
  using assms by (cases "S = {}") (simp_all add: max.assoc)

lemma best_fold:
  "fold (\<lambda>i best. if best < v i \<and> P i then v i else best) ids a = Max (insert a (v ` {i \<in> set ids. P i}))"
  for v :: "nat \<Rightarrow> rat"
proof (induction ids arbitrary: a)
  case (Cons i ids)
  let ?S = "\<lambda>ids. v ` {i \<in> set ids. P i}"
  have f: "finite (?S ids)" for ids by simp
  show ?case
  proof (cases "P i")
    case True
    then have "?S (i # ids) = insert (v i) (?S ids)" by auto
    moreover have "(if a < v i \<and> P i then v i else a) = max a (v i)" using True by (auto simp: max_def)
    moreover have "Max (insert (max a (v i)) (?S ids)) = Max (insert a (insert (v i) (?S ids)))"
      by (rule Max_insert_max [OF f])
    ultimately show ?thesis by (simp add: Cons.IH)
  next
    case False
    then have "?S (i # ids) = ?S ids" by auto
    then show ?thesis using False by (simp add: Cons.IH)
  qed
qed simp

lemma best_ring_Max:
  "best_ring st p ids a
    = Max (insert a ((\<lambda>i. ring_value (st_rings st ! i)) ` {i \<in> set ids. ring_contains (st_rings st ! i) p}))"
  unfolding best_ring_def Let_def by (rule best_fold)

lemma cell_degrees_pos: "0 < cell_degrees cfg"
proof -
  have "1 / 2 ^ 12 \<le> (if cfg_kind cfg = kPolygon then max (max (radius_m cfg) (max (proximity_m cfg) 30)) 150
      else max (radius_m cfg) (max (proximity_m cfg) 30)) / kMetersPerDegree"
    by (auto simp: kMetersPerDegree_def field_simps le_max_iff_disj)
  then have "f64 (1 / 2 ^ 12) \<le> cell_degrees cfg"
    unfolding cell_degrees_def Let_def by (rule float64.mono)
  moreover have "f64 (1 / 2 ^ 12) = 1 / 2 ^ 12"
    using fl_exact [of 1 53 "- 1074" "- 12"] by (simp add: f64_def power_int_minus)
  ultimately show ?thesis by simp
qed

lemma cell_at_mono: "0 < c \<Longrightarrow> u \<le> v \<Longrightarrow> cell_at c u \<le> cell_at c v"
  unfolding cell_at_def by (intro floor_mono float64.mono divide_right_mono) simp_all

text \<open>The cell of a sample lists every ring that contains it.\<close>

lemma query_cell_rings:
  assumes ok: "store_ok st" and g: "index_loop insert_box (map ring_box (st_rings st)) 0 (new_grid c) = Inr g"
    and c: "0 < c" and q: "query_cell g (fst p) (snd p) = Inr ids"
  shows "{i \<in> set ids. ring_contains (st_rings st ! i) p} = {i. i < length (st_rings st) \<and> ring_contains (st_rings st ! i) p}"
proof -
  let ?x = "cell_at c (fst p)" and ?y = "cell_at c (snd p)"
  have "i32 ?x" "i32 ?y" and "ids = grid_cells g (grid_key ?x ?y)"
    using q box_index.filled_cell [OF g] by (auto simp: query_cell_def bind_result_eq_Inr cell_of_Inr)
  then have ids: "ids = filter (\<lambda>i. box_covers c (map ring_box (st_rings st) ! i) ?x ?y) [0..<length (st_rings st)]"
    using box_index.filled [OF g] by simp
  have "box_covers c (ring_box r) ?x ?y" if "r \<in> set (st_rings st)" "ring_contains r p" for r
  proof -
    have "make_ring (pts r) (ring_value r) = Some r" using ok that(1) by (simp add: store_ok_def)
    then have "\<not> outside_bbox r p" using that(2) make_ring_contains by blast
    then show ?thesis
      by (simp add: box_covers_def ring_box_def outside_bbox_def not_less cell_at_mono [OF c])
  qed
  then show ?thesis unfolding ids by auto
qed

text \<open>
  C28: The grid and the bands are pure optimisations of polygon sources: in any store that
  \<open>load_source\<close> returns for a polygon source without proximity, a sample whose cell is in range
  scores the largest value among all rings that contain it by the plain scan of their segments, and
  zero if there is none.
\<close>

theorem polygon_score_exact:
  assumes load: "load_source files base cfg = Inr st" and kind: "cfg_kind cfg = kPolygon" "proximity_m cfg \<le> 0"
    and cells: "i32 (cell_at (cell_degrees cfg) (fst p))" "i32 (cell_at (cell_degrees cfg) (snd p))"
  shows "score_sample m st p = Inr (Max (insert 0 (ring_value ` {r \<in> set (st_rings st).
      \<not> outside_bbox r p \<and> inside_scan (pts r) p})))"
proof -
  have ok: "store_ok st" "indexed_ok st" and cfg: "st_cfg st = cfg" using load_source_ok [OF load] by simp_all
  then obtain g where g: "st_grid st = Some g"
    "index_loop insert_box (map ring_box (st_rings st)) 0 (new_grid (cell_degrees cfg)) = Inr g"
    using kind by (auto simp: indexed_ok_def Let_def)
  obtain ids where ids: "query_cell g (fst p) (snd p) = Inr ids"
    using cells box_index.filled_cell [OF g(2)] by (auto simp: query_cell_def cell_of_def cell_at_def checked_i32_def i32_def)
  let ?I = "{i. i < length (st_rings st) \<and> ring_contains (st_rings st ! i) p}"
  have "(\<lambda>i. ring_value (st_rings st ! i)) ` ?I = ring_value ` {r \<in> set (st_rings st). ring_contains r p}"
    by (force simp: in_set_conv_nth image_iff)
  also have "{r \<in> set (st_rings st). ring_contains r p}
      = {r \<in> set (st_rings st). \<not> outside_bbox r p \<and> inside_scan (pts r) p}"
  proof -
    have "ring_contains r p \<longleftrightarrow> \<not> outside_bbox r p \<and> inside_scan (pts r) p" if "r \<in> set (st_rings st)" for r
      using ok(1) that by (intro make_ring_contains [of _ "ring_value r"]) (simp add: store_ok_def)
    then show ?thesis by blast
  qed
  finally have "best_ring st p ids 0
      = Max (insert 0 (ring_value ` {r \<in> set (st_rings st). \<not> outside_bbox r p \<and> inside_scan (pts r) p}))"
    unfolding best_ring_Max query_cell_rings [OF ok(1) g(2) cell_degrees_pos ids] by simp
  then show ?thesis
    using kind by (simp add: score_sample_def cfg g(1) ids Let_def split: option.split)
qed

text \<open>A triangle near the origin, and a sample inside it.\<close>

definition triangle_doc :: json where
  "triangle_doc = JObject [(''features'', JArray [JObject [(''geometry'', JObject
     [(''type'', JString ''Polygon''),
      (''coordinates'', JArray [JArray [JArray [JInt 0, JInt 0], JArray [JDouble (1 / 1024), JInt 0],
                                        JArray [JInt 0, JDouble (1 / 1024)]]])])]])]"

definition polygon_cfg :: source_config where
  "polygon_cfg = default_source\<lparr>cfg_kind := kPolygon\<rparr>"

lemma triangle_load:
  obtains r st where "make_ring [(0, 0), (1 / 1024, 0), (0, 1 / 1024)] 1 = Some r" "st_rings st = [r]"
    "load_source (\<lambda>_. Document triangle_doc) [] polygon_cfg = Inr st"
proof -
  let ?ps = "[(0, 0), (1 / 1024, 0), (0, 1 / 1024)] :: point list"
  have k: "cfg_kind polygon_cfg = kPolygon" "cfg_file polygon_cfg = []" "value_property polygon_cfg = []"
    "\<not> 0 < proximity_m polygon_cfg"
    by (simp_all add: polygon_cfg_def default_source_def)
  have c: "cell_at (cell_degrees polygon_cfg) 0 = 0" "cell_at (cell_degrees polygon_cfg) (1 / 1024) = 0"
    by (simp_all add: cell_at_def cell_degrees_def polygon_cfg_def default_source_def kMetersPerDegree_def float_eval)
  obtain r where r: "make_ring ?ps 1 = Some r" by (simp add: make_ring_def)
  have b: "ring_box r = ((0, 0), (1 / 1024, 1 / 1024))"
    by (simp add: ring_box_def make_ring_fields [OF r])
  have f: "f64 (1 / 1024) = 1 / 1024" by (simp add: float_eval)
  obtain g where g: "index_loop insert_box [ring_box r] 0 (new_grid (cell_degrees polygon_cfg)) = Inr g"
    by (simp add: b insert_box_def insert_bbox_def cell_of_eq new_grid_def c i32_def loop_range_def checked_i32_def)
  let ?st = "(empty_store polygon_cfg)\<lparr>st_rings := [r], st_grid := Some g\<rparr>"
  have "load_source (\<lambda>_. Document triangle_doc) [] polygon_cfg = Inr ?st"
    using g by (simp add: load_source_def triangle_doc_def has_member_def get_member_def load_feature_def k feature_value_def
      load_geometry_def add_ring_or_line_def parse_coord_ring_def parse_position_def f add_ring_def r empty_store_def
      build_grid_def build_segment_grid_def Let_def)
  then show ?thesis using r by (intro that [of r ?st]) simp_all
qed

theorem polygon_score_exact_witness:
  "\<exists>st. load_source (\<lambda>_. Document triangle_doc) [] polygon_cfg = Inr st
    \<and> score_sample \<lparr>m_sin = \<lambda>x. x, m_cos = \<lambda>x. 1, m_asin = \<lambda>x. x, m_sqrt = \<lambda>x. x\<rparr> st (1 / 4096, 1 / 4096) = Inr 1"
proof -
  let ?ps = "[(0, 0), (1 / 1024, 0), (0, 1 / 1024)] :: point list" and ?p = "(1 / 4096, 1 / 4096) :: point"
  obtain r st where r: "make_ring ?ps 1 = Some r" and st: "st_rings st = [r]"
    and load: "load_source (\<lambda>_. Document triangle_doc) [] polygon_cfg = Inr st"
    by (rule triangle_load)
  have c: "cell_at (cell_degrees polygon_cfg) (1 / 4096) = 0"
    by (simp add: cell_at_def cell_degrees_def polygon_cfg_def default_source_def kMetersPerDegree_def float_eval)
  have k: "cfg_kind polygon_cfg = kPolygon" "proximity_m polygon_cfg \<le> 0"
    by (simp_all add: polygon_cfg_def default_source_def)
  have out: "\<not> outside_bbox r ?p" by (simp add: outside_bbox_def make_ring_fields [OF r])
  have i: "[0..<3] = [0, 1, 2]" by (simp add: upt_rec)
  have "inside_scan ?ps ?p"
    by (simp add: inside_scan_def i crosses_def prev_index_def float_eval)
  then have s: "{r \<in> set (st_rings st). \<not> outside_bbox r ?p \<and> inside_scan (pts r) ?p} = {r}"
    using out by (auto simp: st make_ring_fields(1) [OF r])
  have "score_sample m st ?p = Inr (Max (insert 0 (ring_value ` {r \<in> set (st_rings st).
      \<not> outside_bbox r ?p \<and> inside_scan (pts r) ?p})))"
    for m by (rule polygon_score_exact [OF load]; simp add: c k i32_def)
  then show ?thesis using load by (simp add: s make_ring_fields(2) [OF r])
qed

section \<open>Scores stay between zero and one\<close>

lemma best_range:
  assumes "\<forall>i \<in> set ids. 0 \<le> v i \<and> v i \<le> 1" "0 \<le> a" "a \<le> (1 :: rat)"
  shows "0 \<le> fold (\<lambda>i best. if best < v i \<and> P i then v i else best) ids a
    \<and> fold (\<lambda>i best. if best < v i \<and> P i then v i else best) ids a \<le> 1"
  using assms by (induction ids arbitrary: a) simp_all

lemma query_cell_bound:
  assumes "index_loop insert_box bs 0 (new_grid c) = Inr g" "query_cell g x y = Inr ids"
  shows "\<forall>i \<in> set ids. i < length bs"
  using assms box_index.filled_cell [OF assms(1)] box_index.filled [OF assms(1)]
  by (auto simp: query_cell_def bind_result_eq_Inr cell_of_Inr)

lemma query_neighborhood_bound:
  assumes "index_loop insert_box bs 0 (new_grid c) = Inr g" "query_neighborhood g x y = Inr ids"
  shows "\<forall>i \<in> set ids. i < length bs"
  using query_neighborhood_set [OF assms(2)] box_index.filled [OF assms(1)] by auto

lemma score_point_range:
  assumes "1 \<le> saturation (st_cfg st)" shows "0 \<le> score_point m st p ids \<and> score_point m st p ids \<le> 1"
proof -
  have "0 \<le> f64 (of_nat n)" for n by (intro float64.nonneg) simp
  then have "0 \<le> f64 (f64 (of_nat n) / saturation (st_cfg st))" for n
    using assms by (intro float64.nonneg divide_nonneg_pos) simp_all
  then show ?thesis by (simp add: score_point_def)
qed

lemma score_sample_range:
  assumes ok: "store_ok st" "indexed_ok st" "cfg_ok (st_cfg st)" and s: "score_sample m st p = Inr v"
  shows "0 \<le> v \<and> v \<le> 1"
proof (cases "cfg_kind (st_cfg st)")
  case kPoint
  then show ?thesis
    using s ok(3) score_point_range [of st m p]
    by (auto simp: score_sample_def cfg_ok_def bind_result_eq_Inr split: option.splits)
next
  case kLine
  then show ?thesis using s by (auto simp: score_sample_def bind_result_eq_Inr split: option.splits)
next
  case kPolygon
  let ?g0 = "new_grid (cell_degrees (st_cfg st))"
  obtain g where g: "st_grid st = Some g" "index_loop insert_box (map ring_box (st_rings st)) 0 ?g0 = Inr g"
    using ok(2) kPolygon by (auto simp: indexed_ok_def Let_def)
  have sg: "index_loop insert_box (map segment_box (st_segments st)) 0 ?g0 = Inr h" if "segment_grid st = Some h" for h
    using ok(2) that by (simp add: indexed_ok_def Let_def)
  obtain ids where ids: "query_cell g (fst p) (snd p) = Inr ids"
    using s kPolygon g by (auto simp: score_sample_def bind_result_eq_Inr)
  let ?b = "best_ring st p ids 0"
  have "\<forall>i \<in> set ids. 0 \<le> ring_value (st_rings st ! i) \<and> ring_value (st_rings st ! i) \<le> 1"
    using query_cell_bound [OF g(2) ids] ok(1) by (auto simp: store_ok_def)
  then have b: "0 \<le> ?b" "?b \<le> 1"
    using best_range [of ids "\<lambda>i. ring_value (st_rings st ! i)" 0] by (auto simp: best_ring_def Let_def)
  have "0 \<le> best_segment m st p sids ?b \<and> best_segment m st p sids ?b \<le> 1"
    if "segment_grid st = Some h" "query_neighborhood h (fst p) (snd p) = Inr sids" for h sids
  proof -
    have "\<forall>i \<in> set sids. 0 \<le> seg_value (st_segments st ! i) \<and> seg_value (st_segments st ! i) \<le> 1"
      using query_neighborhood_bound [OF sg [OF that(1)] that(2)] ok(1) by (auto simp: store_ok_def)
    then show ?thesis
      using best_range [of sids "\<lambda>i. seg_value (st_segments st ! i)" ?b] b by (auto simp: best_segment_def Let_def)
  qed
  then show ?thesis
    using s kPolygon g b
    by (auto simp: score_sample_def ids bind_result_eq_Inr Let_def split: option.splits if_splits)
qed

definition source_ok :: "feature_store \<Rightarrow> bool" where
  "source_ok st \<longleftrightarrow> store_ok st \<and> indexed_ok st \<and> cfg_ok (st_cfg st)"

text \<open>Adding a score of at most one keeps a sum below the number of summands, however many there are.\<close>

lemma add_score:
  assumes "s \<le> 1" "x \<le> of_nat n" "x \<le> 2 ^ 53"
  shows "f64 (x + s) \<le> of_nat (n + 1) \<and> f64 (x + s) \<le> 2 ^ 53"
proof
  have top: "f64 (2 ^ 53 + 1) = 2 ^ 53" by (simp add: float_eval)
  have "x + s \<le> 2 ^ 53 + 1" using assms by simp
  from float64.mono [OF this] show b: "f64 (x + s) \<le> 2 ^ 53" using top by simp
  show "f64 (x + s) \<le> of_nat (n + 1)"
  proof (cases "n + 1 \<le> 2 ^ 53")
    case True
    have "f64 (x + s) \<le> f64 (of_nat (n + 1))" using assms by (intro float64.mono) simp
    also have "f64 (of_nat (n + 1)) = of_nat (n + 1)" using True by (intro float64.exact_nat) simp
    finally show ?thesis .
  next
    case False
    then have "(2 ^ 53 :: rat) \<le> of_nat (n + 1)"
      by (metis nat_le_linear of_nat_le_iff of_nat_numeral of_nat_power)
    then show ?thesis using b by simp
  qed
qed

lemma sum_scores_range:
  assumes ok: "source_ok st" and s: "sum_scores m st samples = Inr v"
  shows "0 \<le> v \<and> v \<le> of_nat (length samples) \<and> v \<le> 2 ^ 53"
proof -
  have "0 \<le> v \<and> v \<le> of_nat (n + length ps) \<and> v \<le> 2 ^ 53"
    if "fold_result (\<lambda>sample sum. bind_result (score_sample m st sample) (\<lambda>s. Inr (f64 (sum + s)))) ps x = Inr v"
      "0 \<le> x" "x \<le> of_nat n" "x \<le> 2 ^ 53" for ps x n
    using that
  proof (induction ps arbitrary: x n)
    case (Cons p ps)
    obtain sc where sc: "score_sample m st p = Inr sc" and rest:
      "fold_result (\<lambda>sample sum. bind_result (score_sample m st sample) (\<lambda>s. Inr (f64 (sum + s)))) ps (f64 (x + sc)) = Inr v"
      using Cons.prems(1) by (auto simp: bind_result_eq_Inr)
    have r: "0 \<le> sc" "sc \<le> 1" using score_sample_range [OF _ _ _ sc] ok by (auto simp: source_ok_def)
    have "0 \<le> f64 (x + sc)" using r(1) Cons.prems(2) by (intro float64.nonneg) simp
    moreover have "f64 (x + sc) \<le> of_nat (n + 1)" "f64 (x + sc) \<le> 2 ^ 53"
      using add_score [OF r(2) Cons.prems(3,4)] by blast+
    ultimately have "0 \<le> v \<and> v \<le> of_nat ((n + 1) + length ps) \<and> v \<le> 2 ^ 53" by (rule Cons.IH [OF rest])
    then show ?case by simp
  qed simp
  from this [of samples 0 0] show ?thesis using s by (simp add: sum_scores_def)
qed

lemma mean_range:
  assumes ok: "source_ok st" and s: "sum_scores m st samples = Inr v"
  shows "0 \<le> f64 (v / f64 (of_nat (length samples))) \<and> f64 (v / f64 (of_nat (length samples))) \<le> 1"
proof -
  let ?n = "f64 (of_nat (length samples))"
  have v: "0 \<le> v" "v \<le> of_nat (length samples)" "v \<le> 2 ^ 53" using sum_scores_range [OF assms] by blast+
  have n: "0 \<le> ?n" by (intro float64.nonneg) simp
  have "v \<le> ?n"
  proof (cases "length samples \<le> 2 ^ 53")
    case True
    then have "?n = of_nat (length samples)" by (intro float64.exact_nat) simp
    then show ?thesis using v by simp
  next
    case False
    then have "(2 ^ 53 :: rat) \<le> of_nat (length samples)"
      by (metis nat_le_linear of_nat_le_iff of_nat_numeral of_nat_power)
    then have "f64 (2 ^ 53) \<le> ?n" by (rule float64.mono)
    moreover have "f64 (2 ^ 53) = 2 ^ 53" using float64.exact_int [of "2 ^ 53"] by simp
    ultimately show ?thesis using v by simp
  qed
  then have "v / ?n \<le> 1" using v n by (cases "?n = 0") simp_all
  moreover have "0 \<le> v / ?n" using v n by simp
  ultimately show ?thesis by (simp add: float64.nonneg float64.le_1)
qed

lemma score_edge_range:
  assumes ok: "\<forall>st \<in> set sources. source_ok st" and s: "score_edge m sources samples = Inr v"
  shows "0 \<le> v \<and> v \<le> 1"
proof -
  define I where "I = (\<lambda>acc :: rat \<times> rat. 0 \<le> fst acc \<and> fst acc \<le> snd acc)"
  obtain acc where f: "fold_result (add_source m samples) sources (0, 0) = Inr acc"
    and v: "v = (if 0 < snd acc then f64 (fst acc / snd acc) else 0)"
    using s by (auto simp: score_edge_def bind_result_eq_Inr)
  have "I acc"
  proof (rule fold_result_invariant [where I = I, OF f])
    show "I (0, 0)" by (simp add: I_def)
    fix st a b assume st: "st \<in> set sources" and a: "I a" and b: "add_source m samples st a = Inr b"
    let ?w = "cfg_weight (st_cfg st)"
    have w: "0 \<le> ?w" "float64.representable ?w"
      using ok st by (auto simp: source_ok_def cfg_ok_def float64.representable_def)
    obtain q where q: "0 \<le> q" "q \<le> 1" and b': "b = (f64 (fst a + f64 (?w * q)), f64 (snd a + ?w))"
      using b mean_range [of st m samples] ok st by (auto simp: add_source_def bind_result_eq_Inr)
    have 0: "0 \<le> f64 (?w * q)" using w q by (intro float64.nonneg) simp
    have "f64 (?w * q) \<le> ?w" using w q by (intro float64.scale_le)
    then have "f64 (fst a + f64 (?w * q)) \<le> f64 (snd a + ?w)" using a by (intro float64.mono) (simp add: I_def)
    moreover have "0 \<le> f64 (fst a + f64 (?w * q))" using 0 a by (intro float64.nonneg) (simp add: I_def)
    ultimately show "I b" by (simp add: I_def b')
  qed
  then show ?thesis
    by (auto simp: v I_def intro!: float64.nonneg float64.div_le_1)
qed

lemma scaled_score:
  assumes "0 \<le> s" "s \<le> 1" "k \<le> 255" shows "unat (word_of_int (c_round (f64 (of_nat k * s))) :: u8) \<le> k"
proof -
  have "of_nat k * s \<le> of_nat k" using assms by (simp add: mult_left_le)
  then have "f64 (of_nat k * s) \<le> f64 (of_nat k)" by (rule float64.mono)
  also have "f64 (of_nat k) = of_nat k" using assms(3) by (intro float64.exact_nat) simp
  finally have "f64 (of_nat k * s) \<le> of_int (int k)" by simp
  moreover have "0 \<le> f64 (of_nat k * s)" using assms(1) by (intro float64.nonneg) simp
  ultimately have "0 \<le> c_round (f64 (of_nat k * s))" "c_round (f64 (of_nat k * s)) \<le> int k"
    using c_round_bounds [of "f64 (of_nat k * s)" "int k"] by blast+
  then obtain j where j: "c_round (f64 (of_nat k * s)) = int j" "j \<le> k"
    by (metis nonneg_int_cases of_nat_le_iff)
  have "unat (word_of_nat j :: u8) = j" using j(2) assms(3) by (intro word_of_nat_div) simp
  then show ?thesis using j by simp
qed

lemma load_sources_ok:
  assumes "load_sources files base cfgs = Inr sts" "\<forall>cfg \<in> set cfgs. cfg_ok cfg"
  shows "\<forall>st \<in> set sts. source_ok st"
  using assms(1) unfolding load_sources_def
  by (rule collect_all) (use assms(2) in \<open>auto simp: bind_result_eq_Inr source_ok_def dest: load_source_ok\<close>)

lemma load_environment_ok:
  assumes "load_environment files base path = Inr (cs, ls)"
  shows "(\<forall>st \<in> set cs. source_ok st) \<and> length ls = 4 \<and> (\<forall>sts \<in> set ls. \<forall>st \<in> set sts. source_ok st)"
proof -
  obtain mf where mf: "parse_manifest files path = Inr mf"
    and cs: "load_sources files base (canopy mf) = Inr cs"
    and ls: "fold_result (load_layer files base) (layers mf) (replicate kMaxGeoJsonLayers []) = Inr ls"
    using assms by (auto simp: load_environment_def bind_result_eq_Inr)
  obtain doc where d: "manifest_canopy doc = Inr (canopy mf)" "manifest_layers doc = Inr (layers mf)"
    using mf by (auto simp: parse_manifest_def bind_result_eq_Inr split: file_content.splits if_splits)
  have c: "\<forall>cfg \<in> set (canopy mf). cfg_ok cfg"
    using d(1) by (auto simp: manifest_canopy_def dest: parse_sources_ok split: json.splits option.splits)
  have l: "\<forall>sl \<in> set (layers mf). slot sl < kMaxGeoJsonLayers \<and> (\<forall>cfg \<in> set (slot_sources sl). cfg_ok cfg)"
    using d(2) by (auto simp: manifest_layers_def split: json.splits option.splits dest!: collect_all [OF _ parse_layer_ok])
  define I where "I = (\<lambda>ls :: feature_store list list. length ls = 4 \<and> (\<forall>sts \<in> set ls. \<forall>st \<in> set sts. source_ok st))"
  have "I ls"
  proof (rule fold_result_invariant [where I = I, OF ls])
    show "I (replicate kMaxGeoJsonLayers [])" by (simp add: I_def kMaxGeoJsonLayers_def)
    fix sl a b assume sl: "sl \<in> set (layers mf)" and a: "I a" and b: "load_layer files base sl a = Inr b"
    obtain sts where sts: "load_sources files base (slot_sources sl) = Inr sts"
      and s: "slot sl < length a" and b': "b = a[slot sl := a ! slot sl @ sts]"
      using b by (auto simp: load_layer_def bind_result_eq_Inr split: if_splits)
    have "\<forall>st \<in> set sts. source_ok st" using load_sources_ok [OF sts] l sl by blast
    moreover have "\<forall>st \<in> set (a ! slot sl). source_ok st" using a nth_mem [OF s] by (auto simp: I_def)
    ultimately show "I b"
      using a by (auto simp: I_def b' dest!: subsetD [OF set_update_subset_insert])
  qed
  then show ?thesis using load_sources_ok [OF cs c] by (simp add: I_def)
qed

lemma canopy_score_bound:
  "canopy_score m cs ps = Inr v \<Longrightarrow> \<forall>st \<in> set cs. source_ok st \<Longrightarrow> unat v \<le> 127"
  using score_edge_range [of cs m ps] scaled_score [of _ 127]
  by (auto simp: canopy_score_def bind_result_eq_Inr kMaxTreeCanopy_def split: if_splits)

lemma layer_score_bound:
  "layer_score m cs ps = Inr v \<Longrightarrow> \<forall>st \<in> set cs. source_ok st \<Longrightarrow> unat v \<le> 254"
  using score_edge_range [of cs m ps] scaled_score [of _ 254]
  by (auto simp: layer_score_def bind_result_eq_Inr split: if_splits)

lemma collect_length:
  "collect (\<lambda>x. bind_result (f x) (\<lambda>y. Inr [y])) xs = Inr ys \<Longrightarrow> length ys = length xs"
  by (induction xs arbitrary: ys) (auto simp: bind_result_eq_Inr)

lemma clamp_id:
  assumes "unat (tree_canopy s) \<le> 127" "length (layer_scores s) = 4" "\<forall>v \<in> set (layer_scores s). unat v \<le> 254"
  shows "clamp_scores s = s"
proof -
  have "map (\<lambda>i. min (layer_scores s ! i) 254) [0..<4] = map (\<lambda>i. layer_scores s ! i) [0..<length (layer_scores s)]"
    unfolding assms(2) using assms by (intro map_cong) (auto simp: min_def word_le_nat_alt)
  also have "\<dots> = layer_scores s" by (rule map_nth)
  finally show ?thesis using assms(1) by (simp add: clamp_scores_def min_def word_le_nat_alt)
qed

lemma edge_scores_range:
  assumes "edge_scores m cs ls samples = Inr s" "\<forall>st \<in> set cs. source_ok st" "length ls = 4"
    "\<forall>sts \<in> set ls. \<forall>st \<in> set sts. source_ok st"
  shows "unat (tree_canopy s) \<le> 127 \<and> length (layer_scores s) = 4 \<and> (\<forall>v \<in> set (layer_scores s). unat v \<le> 254)"
proof (cases "samples = []")
  case True
  then show ?thesis using assms(1) by (auto simp: edge_scores_def no_scores_def kMaxGeoJsonLayers_def)
next
  case False
  then obtain c l where c: "canopy_score m cs samples = Inr c"
    and l: "collect (\<lambda>sources. bind_result (layer_score m sources samples) (\<lambda>s. Inr [s])) ls = Inr l"
    and s: "s = \<lparr>tree_canopy = c, layer_scores = l\<rparr>"
    using assms(1) by (auto simp: edge_scores_def bind_result_eq_Inr)
  have "\<forall>v \<in> set l. unat v \<le> 254"
    by (rule collect_all [OF l]) (use assms(4) in \<open>auto simp: bind_result_eq_Inr dest: layer_score_bound\<close>)
  then show ?thesis
    using canopy_score_bound [OF c assms(2)] collect_length [OF l] assms(3) by (simp add: s)
qed

text \<open>
  C27: The computed scores always fit their storage. For every manifest that loads, whatever the
  GeoJSON, the shape and the values of the C library's functions, an edge that can be scored gets a
  canopy of at most 127 and four layer scores of at most 254, rounding of every operation included;
  the clamping in \<open>EncodeEnvironment\<close> never changes them.
\<close>

theorem scores_bounded:
  "case load_environment files base path of
     Inl e \<Rightarrow> True
   | Inr (cs, ls) \<Rightarrow> (case edge_scores m cs ls samples of
       Inl e \<Rightarrow> True
     | Inr s \<Rightarrow> unat (tree_canopy s) \<le> 127 \<and> length (layer_scores s) = 4
         \<and> list_all (\<lambda>v. unat v \<le> 254) (layer_scores s) \<and> clamp_scores s = s)"
  using edge_scores_range [of m _ _ samples] load_environment_ok [of files base path]
  by (auto split: sum.splits simp: list_all_iff intro!: clamp_id)

section \<open>Sampling ends\<close>

lemma walk_unfold:
  "\<not> along < seg \<Longrightarrow> walk_segment fuel a b seg spacing along = Some ([], along)"
  "along < seg \<Longrightarrow> walk_segment 0 a b seg spacing along = None"
  "along < seg \<Longrightarrow> walk_segment (Suc fuel) a b seg spacing along
     = map_option (\<lambda>(ps, e). (sample_at a b (f64 (along / seg)) # ps, e))
         (walk_segment fuel a b seg spacing (f64 (along + spacing)))"
  by (subst walk_segment.simps; simp split: option.splits)+

lemma walk_segment_progress:
  assumes "of_int i \<le> along" "- (2 ^ 50) \<le> i" "i \<le> 2 ^ 50 + 10" "10 \<le> spacing" "seg \<le> of_int B" "B \<le> 2 ^ 50"
    "nat (B - i) \<le> fuel"
  shows "\<exists>ps e. walk_segment fuel a b seg spacing along = Some (ps, e) \<and> seg \<le> e
    \<and> 10 * int (length ps) \<le> max 0 (B - i + 9)"
  using assms(1,2,3,7)
proof (induction fuel arbitrary: i along)
  case 0
  then have "of_int B \<le> (of_int i :: rat)" by (simp add: nat_le_eq_zle)
  then have "\<not> along < seg" using 0 assms(5) by linarith
  then show ?case by (simp add: walk_unfold(1))
next
  case (Suc fuel)
  show ?case
  proof (cases "along < seg")
    case True
    then have "(of_int i :: rat) < of_int B" using Suc.prems(1) assms(5) by linarith
    then have i: "i < B" by simp
    have "of_int (i + 10) \<le> f64 (along + spacing)"
      using Suc.prems i assms(4,6) by (intro float64.add_progress) (auto simp: abs_le_iff)
    moreover have "nat (B - (i + 10)) \<le> fuel" using Suc.prems(4) by simp
    ultimately obtain ps e where *: "walk_segment fuel a b seg spacing (f64 (along + spacing)) = Some (ps, e)"
      "seg \<le> e" "10 * int (length ps) \<le> max 0 (B - (i + 10) + 9)"
      using Suc.IH [of "i + 10" "f64 (along + spacing)"] Suc.prems i assms(6) by auto
    have "10 * int (length (sample_at a b (f64 (along / seg)) # ps)) \<le> max 0 (B - i + 9)" using *(3) i by simp
    then show ?thesis using True *(1,2) by (simp add: walk_unfold(3))
  qed (simp add: walk_unfold(1))
qed

lemma walk_segment_fuel:
  "walk_segment fuel a b seg spacing along = Some r \<Longrightarrow> fuel \<le> fuel' \<Longrightarrow> walk_segment fuel' a b seg spacing along = Some r"
proof (induction fuel arbitrary: fuel' along r)
  case 0
  show ?case using 0(1) by (cases "along < seg") (simp_all add: walk_unfold)
next
  case (Suc fuel)
  obtain f where f: "fuel' = Suc f" "fuel \<le> f" using Suc.prems(2) by (cases fuel') auto
  show ?case
  proof (cases "along < seg")
    case True
    then obtain s where s: "walk_segment fuel a b seg spacing (f64 (along + spacing)) = Some s"
      and r: "r = (sample_at a b (f64 (along / seg)) # fst s, snd s)"
      using Suc.prems(1) by (auto simp: walk_unfold(3))
    from Suc.IH [OF s f(2)] show ?thesis unfolding f(1) r by (simp add: walk_unfold(3) [OF True] split_beta)
  next
    case False
    then show ?thesis using Suc.prems(1) by (simp add: walk_unfold(1))
  qed
qed

lemma walk_shape_fuel:
  "walk_shape m fuel spacing carried ps = Some r \<Longrightarrow> fuel \<le> fuel' \<Longrightarrow> walk_shape m fuel' spacing carried ps = Some r"
proof (induction m fuel spacing carried ps arbitrary: r rule: walk_shape.induct)
  case (1 m fuel spacing carried a b ps)
  then show ?case
    by (auto simp: Let_def split: if_splits option.splits dest: walk_segment_fuel)
qed simp_all

definition legs :: "libm \<Rightarrow> point list \<Rightarrow> rat list" where
  "legs m sh = map (\<lambda>(a, b). Distance m a b) (zip sh (tl sh))"

lemma legs_simps [simp]: "legs m [] = []" "legs m [p] = []" "legs m (a # b # ps) = Distance m a b # legs m (b # ps)"
  by (simp_all add: legs_def)

text \<open>What the next segment starts with is never more than two metres behind its first point.\<close>

lemma carried_bound:
  assumes "seg \<le> e" "10 \<le> spacing" "spacing \<le> 2 ^ 40" "0 < seg" "seg \<le> 2 ^ 50"
  shows "of_int (- 2) \<le> f64 (spacing - f64 (seg - f64 (e - spacing)))"
proof -
  obtain j where j: "j = \<lfloor>seg - spacing\<rfloor>" by blast
  have jb: "of_int j \<le> seg - spacing" "seg - spacing < of_int j + 1" using floor_correct [of "seg - spacing"] by (simp_all add: j)
  have "(of_int j :: rat) \<le> of_int (2 ^ 50)" using jb(1) assms by simp
  then have j1: "j \<le> 2 ^ 50" by (simp only: of_int_le_iff)
  have "(of_int (- (2 ^ 50)) :: rat) \<le> of_int (j + 1)" using jb(2) assms by simp
  then have "- (2 ^ 50) \<le> j + 1" by (simp only: of_int_le_iff)
  then have jr: "\<bar>j\<bar> \<le> 2 ^ 53" using j1 by simp
  have "of_int j \<le> f64 (e - spacing)" using jb(1) assms(1) jr by (intro float64.add_progress) simp_all
  then have "seg - f64 (e - spacing) \<le> spacing + 1" using jb(2) by linarith
  moreover obtain k where k: "k = \<lceil>spacing\<rceil>" by blast
  have kb: "spacing \<le> of_int k" "of_int k < spacing + 1" using ceiling_correct [of spacing] by (simp_all add: k)
  then have "(of_int k :: rat) < of_int (2 ^ 40 + 1)" "(of_int 0 :: rat) < of_int k" using assms(2,3) by simp_all
  then have "k < 2 ^ 40 + 1" "0 < k" by (simp_all only: of_int_less_iff)
  then have kr: "\<bar>k + 1\<bar> \<le> 2 ^ 53" by simp
  ultimately have "seg - f64 (e - spacing) \<le> of_int (k + 1)" using kb(1) by simp
  then have "f64 (seg - f64 (e - spacing)) \<le> f64 (of_int (k + 1))" by (rule float64.mono)
  also have "\<dots> = of_int (k + 1)" by (rule float64.exact_int [OF kr])
  finally have "of_int (- 2) \<le> spacing - f64 (seg - f64 (e - spacing))" using kb(2) by simp
  then show ?thesis by (rule float64.add_progress) simp
qed

lemma walk_shape_ends:
  assumes "10 \<le> spacing" "spacing \<le> 2 ^ 40" "D \<le> 2 ^ 50" "\<forall>d \<in> set (legs m sh). d \<le> of_nat D"
    "of_int (- 2) \<le> f64 (spacing - carried)"
  shows "\<exists>ps. walk_shape m (D + 2) spacing carried sh = Some ps
    \<and> 10 * length ps \<le> sum_list (map (\<lambda>d. nat \<lceil>d\<rceil> + 11) (legs m sh))"
proof -
  have D: "int D \<le> 2 ^ 50" using assms(3) by simp
  show ?thesis
  using assms(4,5)
proof (induction sh arbitrary: carried rule: induct_list012)
  case (3 a b sh)
  let ?d = "Distance m a b"
  show ?case
  proof (cases "?d \<le> 0")
    case True
    then show ?thesis using "3.IH"(2) [of carried] "3.prems" by fastforce
  next
    case False
    have d: "0 < ?d" "?d \<le> of_nat D" using False "3.prems"(1) by simp_all
    have c: "\<lceil>?d\<rceil> \<le> int D" "?d \<le> of_int \<lceil>?d\<rceil>" "0 < \<lceil>?d\<rceil>" using d by (simp_all add: ceiling_le_iff)
    obtain out e where w: "walk_segment (D + 2) a b ?d spacing (f64 (spacing - carried)) = Some (out, e)"
      and e: "?d \<le> e" and out: "10 * int (length out) \<le> max 0 (\<lceil>?d\<rceil> - - 2 + 9)"
    proof -
      have "nat (\<lceil>?d\<rceil> - - 2) \<le> D + 2" using c(1) by (simp add: nat_le_iff)
      moreover have "\<lceil>?d\<rceil> \<le> 2 ^ 50" using c(1) D by linarith
      ultimately show ?thesis
        using walk_segment_progress [OF "3.prems"(2) _ _ assms(1) c(2), of "D + 2" a b] that by auto
    qed
    have "?d \<le> 2 ^ 50"
    proof -
      have "(of_nat D :: rat) \<le> of_nat (2 ^ 50)" using assms(3) by (simp only: of_nat_le_iff)
      then show ?thesis using d(2) by simp
    qed
    then have "of_int (- 2) \<le> f64 (spacing - f64 (?d - f64 (e - spacing)))"
      by (rule carried_bound [OF e assms(1,2) d(1)])
    then obtain ps where ps: "walk_shape m (D + 2) spacing (f64 (?d - f64 (e - spacing))) (b # sh) = Some ps"
      "10 * length ps \<le> sum_list (map (\<lambda>d. nat \<lceil>d\<rceil> + 11) (legs m (b # sh)))"
      using "3.IH"(2) "3.prems"(1) by auto
    have "10 * length (out @ ps) \<le> sum_list (map (\<lambda>d. nat \<lceil>d\<rceil> + 11) (legs m (a # b # sh)))"
      using out ps(2) c(3) by simp
    then show ?thesis using False w ps(1) by (simp add: Let_def)
  qed
qed simp_all
qed

text \<open>
  Sampling ends on every shape: if no leg of the shape is longer than \<open>D\<close> metres, a fuel of
  \<open>D + 2\<close> is enough and more fuel changes nothing. The samples start with the first point of the
  shape (there is none exactly for the empty shape), and there are at most one per ten metres of
  each leg plus two, whatever the rounding of the running distance does.
\<close>

theorem sample_shape_ends:
  assumes "\<forall>d \<in> set (legs m sh). d \<le> of_nat D" "D \<le> 2 ^ 50" "edge_length_m \<le> 2 ^ 40"
  shows "\<exists>ps. (\<forall>fuel \<ge> D + 2. sample_shape m fuel sh edge_length_m = Some ps) \<and> (ps = [] \<longleftrightarrow> sh = [])
    \<and> take 1 ps = take 1 sh \<and> 10 * length ps \<le> 10 + sum_list (map (\<lambda>d. nat \<lceil>d\<rceil> + 11) (legs m sh))"
proof (cases sh)
  case (Cons p sh')
  let ?s = "sample_spacing edge_length_m"
  have "edge_length_m / of_nat kMaxSamplesPerEdge \<le> of_int (2 ^ 40)"
    using assms(3) by (simp add: kMaxSamplesPerEdge_def)
  then have "f64 (edge_length_m / of_nat kMaxSamplesPerEdge) \<le> f64 (of_int (2 ^ 40))" by (rule float64.mono)
  also have "\<dots> = of_int (2 ^ 40)" by (rule float64.exact_int) simp
  finally have s: "10 \<le> ?s" "?s \<le> 2 ^ 40" by (simp_all add: sample_spacing_def kSampleSpacingMeters_def)
  have "of_int (- 2) \<le> f64 (?s - 0)" using s(1) by (intro float64.add_progress) simp_all
  then obtain ps where ps: "walk_shape m (D + 2) ?s 0 sh = Some ps"
    "10 * length ps \<le> sum_list (map (\<lambda>d. nat \<lceil>d\<rceil> + 11) (legs m sh))"
    using walk_shape_ends [OF s assms(2,1)] by blast
  have "\<forall>fuel \<ge> D + 2. sample_shape m fuel sh edge_length_m = Some (p # ps)"
    using walk_shape_fuel [OF ps(1)] by (simp add: sample_shape_def Cons)
  then show ?thesis using ps(2) by (intro exI [of _ "p # ps"]) (simp add: Cons)
qed (simp add: sample_shape_def)

theorem sample_shape_ends_witness:
  "\<exists>ps. sample_shape \<lparr>m_sin = \<lambda>x. x, m_cos = \<lambda>x. 1, m_asin = \<lambda>x. 1 / 2 ^ 17, m_sqrt = \<lambda>x. x\<rparr>
      500 [(0, 0), (1 / 1024, 0), (1 / 512, 0)] 195 = Some ps \<and> take 1 ps = [(0, 0)]"
proof -
  let ?m = "\<lparr>m_sin = \<lambda>x. x, m_cos = \<lambda>x. 1, m_asin = \<lambda>x. 1 / 2 ^ 17, m_sqrt = \<lambda>x. x\<rparr>"
  let ?sh = "[(0, 0), (1 / 1024, 0), (1 / 512, 0)] :: point list"
  have "Distance ?m p q \<le> 98" for p q
    by (simp add: Distance_def Let_def kRadEarthMeters_def float_eval)
  then have "\<forall>d \<in> set (legs ?m ?sh). d \<le> of_nat 98" by simp
  then show ?thesis using sample_shape_ends [of ?m ?sh 98 195] by auto
qed

section \<open>Away from the equator the neighbourhood is too narrow\<close>

text \<open>One line feature at 60 degrees north, given as GeoJSON.\<close>

definition missed_doc :: json where
  "missed_doc = JObject [(''features'', JArray [JObject [(''geometry'', JObject
     [(''type'', JString ''LineString''),
      (''coordinates'', JArray [JArray [JDouble (9 / 16384), JInt 60],
                                JArray [JDouble (9 / 16384), JDouble (491521 / 8192)]])])]])]"

definition line_cfg :: source_config where
  "line_cfg = default_source\<lparr>cfg_kind := kLine, radius_m := 30\<rparr>"

definition missed_segment :: segment where
  "missed_segment = \<lparr>seg_a = (9 / 16384, 60), seg_b = (9 / 16384, 491521 / 8192), seg_value = 1\<rparr>"

lemma missed_cells:
  "cell_at (cell_degrees line_cfg) (1 / 4096) = 0" "cell_at (cell_degrees line_cfg) (9 / 16384) = 2"
  "cell_at (cell_degrees line_cfg) 60 = 222640" "cell_at (cell_degrees line_cfg) (491521 / 8192) = 222640"
  by (simp_all add: cell_at_def cell_degrees_def line_cfg_def default_source_def kMetersPerDegree_def float_eval)

lemma missed_load:
  obtains g where "load_source (\<lambda>_. Document missed_doc) [] line_cfg
      = Inr \<lparr>st_cfg = line_cfg, st_points = [], line_count = 1, st_segments = [missed_segment], st_rings = [],
          st_grid = Some (new_grid (cell_degrees line_cfg)), segment_grid = Some g\<rparr>"
    and "index_loop insert_box [segment_box missed_segment] 0 (new_grid (cell_degrees line_cfg)) = Inr g"
proof -
  have f: "f64 (9 / 16384) = 9 / 16384" "f64 (491521 / 8192) = 491521 / 8192" "f64 60 = 60"
    by (simp_all add: float_eval)
  have k: "cfg_kind line_cfg = kLine" "cfg_file line_cfg = []" by (simp_all add: line_cfg_def default_source_def)
  have coords: "parse_coord_ring (JArray [JArray [JDouble (9 / 16384), JInt 60], JArray [JDouble (9 / 16384), JDouble (491521 / 8192)]])
      = Inr [(9 / 16384, 60), (9 / 16384, 491521 / 8192)]"
    by (simp add: parse_coord_ring_def parse_position_def f)
  have seg: "line_segments [(9 / 16384, 60), (9 / 16384, 491521 / 8192)] = [missed_segment]"
    by (simp add: line_segments_def missed_segment_def)
  have box: "segment_box missed_segment = ((9 / 16384, 60), (9 / 16384, 491521 / 8192))"
    by (simp add: segment_box_def missed_segment_def)
  have cell: "grid_cell (new_grid (cell_degrees line_cfg)) = cell_degrees line_cfg" by (simp add: new_grid_def)
  obtain g where g: "index_loop insert_box [segment_box missed_segment] 0 (new_grid (cell_degrees line_cfg)) = Inr g"
    by (simp add: box insert_box_def insert_bbox_def cell_of_eq cell missed_cells i32_def loop_range_def checked_i32_def)
  have "load_source (\<lambda>_. Document missed_doc) [] line_cfg
      = bind_result (bind_result (load_geometry 1 ''LineString''
          (JArray [JArray [JDouble (9 / 16384), JInt 60], JArray [JDouble (9 / 16384), JDouble (491521 / 8192)]])
          (empty_store line_cfg)) build_grid) build_segment_grid"
    by (simp add: load_source_def missed_doc_def Let_def has_member_def get_member_def load_feature_def k empty_store_def
      bind_result_def split: sum.splits)
  also have "\<dots> = Inr \<lparr>st_cfg = line_cfg, st_points = [], line_count = 1, st_segments = [missed_segment], st_rings = [],
          st_grid = Some (new_grid (cell_degrees line_cfg)), segment_grid = Some g\<rparr>"
    using g by (simp add: load_geometry_def coords add_line_def seg empty_store_def build_grid_def Let_def k build_segment_grid_def)
  finally show ?thesis using g by (rule that)
qed

text \<open>
  C29: The 3x3 neighbourhood does not cover a radius query away from the equator, because a cell is
  sized by the length of a degree of latitude while a degree of longitude shrinks. At 60 degrees
  north a line feature within the radius of 30 m scores zero: the distance test that would accept
  it is never reached. Used of the C library: the cosine of 60 degrees lies between 0 and 0.6, and
  square roots of values up to 900 do not exceed 30.
\<close>

theorem line_score_misses:
  assumes cos: "0 \<le> m_cos m (f64 (60 * kRadPerDegD))" "m_cos m (f64 (60 * kRadPerDegD)) \<le> 3 / 5"
    and sqrt: "\<And>v. 0 \<le> v \<Longrightarrow> v \<le> 900 \<Longrightarrow> m_sqrt m v \<le> 30"
  shows "\<exists>st. load_source (\<lambda>_. Document missed_doc) [] line_cfg = Inr st \<and> st_segments st = [missed_segment]
    \<and> radius_m (st_cfg st) = 30 \<and> point_segment_distance_m m (1 / 4096, 60) missed_segment \<le> 30
    \<and> score_sample m st (1 / 4096, 60) = Inr 0"
proof -
  obtain g where load: "load_source (\<lambda>_. Document missed_doc) [] line_cfg
      = Inr \<lparr>st_cfg = line_cfg, st_points = [], line_count = 1, st_segments = [missed_segment], st_rings = [],
          st_grid = Some (new_grid (cell_degrees line_cfg)), segment_grid = Some g\<rparr>" (is "_ = Inr ?st")
    and g: "index_loop insert_box [segment_box missed_segment] 0 (new_grid (cell_degrees line_cfg)) = Inr g"
    by (rule missed_load)
  let ?c = "m_cos m (f64 (60 * kRadPerDegD))"
  obtain ax where ax: "ax = f64 (f64 (f64 (9 / 16384 - 1 / 4096) * kMetersPerDegree) * ?c)" by blast
  have f: "f64 (f64 (9 / 16384 - 1 / 4096) * kMetersPerDegree) = 69575 / 2048"
    by (simp add: kMetersPerDegree_def float_eval)
  have axb: "0 \<le> ax" "ax \<le> 21"
  proof -
    show "0 \<le> ax" unfolding ax f using cos(1) by (intro float64.nonneg) simp
    have "69575 / 2048 * ?c \<le> 21" using cos(2) by simp
    then show "ax \<le> 21" unfolding ax f using float64.mono [of _ 21] float64.exact_int [of 21] by simp
  qed
  have d: "point_segment_distance_m m (1 / 4096, 60) missed_segment = m_sqrt m (f64 (f64 (ax * ax)))"
  proof -
    have dy: "f64 (f64 (491521 / 8192 - 60) * kMetersPerDegree) = 13915 / 1024" by (simp add: kMetersPerDegree_def float_eval)
    have len: "0 < f64 (f64 (13915 / 1024 * (13915 / 1024)))" "f64 (13915 / 1024) = 13915 / 1024" by (simp_all add: float_eval)
    show ?thesis
      unfolding point_segment_distance_m_def missed_segment_def Let_def
      using ax by (simp add: float64.idem dy len)
  qed
  have "ax * ax \<le> 21 * 21" using axb by (intro mult_mono) simp_all
  then have "f64 (ax * ax) \<le> 441" using float64.mono [of "ax * ax" 441] float64.exact_int [of 441] by simp
  then have "f64 (f64 (ax * ax)) \<le> 900" by (simp add: float64.idem)
  moreover have "0 \<le> f64 (f64 (ax * ax))" by (intro float64.nonneg) simp
  ultimately have near: "point_segment_distance_m m (1 / 4096, 60) missed_segment \<le> 30" unfolding d by (intro sqrt)
  have cell: "grid_cell g = cell_degrees line_cfg" by (rule box_index.filled_cell [OF g])
  obtain ids where ids: "query_neighborhood g (1 / 4096) 60 = Inr ids"
    by (simp add: query_neighborhood_def cell_of_eq i32_def checked_i32_def cell missed_cells loop_range_def)
  have "i \<notin> set ids" for i
    unfolding query_neighborhood_set [OF ids] cell missed_cells
    by (auto simp: box_index.filled [OF g] box_covers_def segment_box_def missed_segment_def missed_cells abs_le_iff)
  then have "ids = []" by (metis last_in_set)
  then have "score_sample m ?st (1 / 4096, 60) = Inr 0"
    by (simp add: score_sample_def line_cfg_def ids)
  then show ?thesis using load near by (simp add: line_cfg_def)
qed

theorem line_score_misses_witness:
  "\<exists>st. load_source (\<lambda>_. Document missed_doc) [] line_cfg = Inr st
    \<and> score_sample \<lparr>m_sin = \<lambda>x. x, m_cos = \<lambda>x. 1 / 2, m_asin = \<lambda>x. x, m_sqrt = \<lambda>x. x / 30\<rparr> st (1 / 4096, 60) = Inr 0"
  using line_score_misses [of "\<lparr>m_sin = \<lambda>x. x, m_cos = \<lambda>x. 1 / 2, m_asin = \<lambda>x. x, m_sqrt = \<lambda>x. x / 30\<rparr>"] by auto

end
