(* ===== verification/Environment_Workers.thy ===== *)
theory Environment_Workers
  imports Environment
begin

text \<open>
  The threads of \<^verbatim>\<open>AddEnvironment\<close> (\<^verbatim>\<open>src/mjolnir/environment.cc\<close>) as a step relation. The shared
  state is the four atomics \<^verbatim>\<open>next_tile\<close>, \<^verbatim>\<open>scored_edges\<close>, \<^verbatim>\<open>updated_tiles\<close> and \<^verbatim>\<open>failed\<close>; each worker
  has a program counter. \<^verbatim>\<open>next_tile.fetch_add(1)\<close> and \<^verbatim>\<open>failed.load()\<close> are two steps, so another
  worker may run between them. \<open>score i\<close> is what scoring tile \<open>i\<close> does: an exception, nothing
  (\<open>None\<close>: the tile is left alone), or a number of tagged edge infos. The order of the finished
  tiles is a history variable that the code does not have.
\<close>

section \<open>Steps\<close>

datatype worker_pc = Claiming | Claimed nat | Scoring nat | Stopped

record pool =
  next_tile :: nat
  failed :: bool
  scored_edges :: nat
  updated_tiles :: nat
  pcs :: "worker_pc list"
  finished :: "nat list"

definition init_pool :: "nat \<Rightarrow> pool" where
  "init_pool num_threads = \<lparr>next_tile = 0, failed = False, scored_edges = 0, updated_tiles = 0,
     pcs = replicate (max num_threads 1) Claiming, finished = []\<rparr>"

definition record_result :: "nat option \<Rightarrow> pool \<Rightarrow> pool" where
  "record_result r s = (case r of
      None \<Rightarrow> s
    | Some added \<Rightarrow> s\<lparr>scored_edges := scored_edges s + added, updated_tiles := updated_tiles s + 1\<rparr>)"

definition set_pc :: "nat \<Rightarrow> worker_pc \<Rightarrow> pool \<Rightarrow> pool" where
  "set_pc w c s = s\<lparr>pcs := (pcs s)[w := c]\<rparr>"

inductive worker_step :: "(nat \<Rightarrow> nat option result) \<Rightarrow> nat \<Rightarrow> pool \<Rightarrow> pool \<Rightarrow> bool"
  for score :: "nat \<Rightarrow> nat option result" and tiles :: nat where
  claim: "w < length (pcs s) \<Longrightarrow> pcs s ! w = Claiming \<Longrightarrow>
    worker_step score tiles s (set_pc w (Claimed (next_tile s)) (s\<lparr>next_tile := next_tile s + 1\<rparr>))"
| stop: "w < length (pcs s) \<Longrightarrow> pcs s ! w = Claimed i \<Longrightarrow> tiles \<le> i \<or> failed s \<Longrightarrow>
    worker_step score tiles s (set_pc w Stopped s)"
| start: "w < length (pcs s) \<Longrightarrow> pcs s ! w = Claimed i \<Longrightarrow> i < tiles \<Longrightarrow> \<not> failed s \<Longrightarrow>
    worker_step score tiles s (set_pc w (Scoring i) s)"
| finish: "w < length (pcs s) \<Longrightarrow> pcs s ! w = Scoring i \<Longrightarrow> score i = Inr r \<Longrightarrow>
    worker_step score tiles s (set_pc w Claiming (record_result r (s\<lparr>finished := finished s @ [i]\<rparr>)))"
| throw: "w < length (pcs s) \<Longrightarrow> pcs s ! w = Scoring i \<Longrightarrow> score i = Inl e \<Longrightarrow>
    worker_step score tiles s (set_pc w Claiming (s\<lparr>failed := True\<rparr>))"

inductive_cases worker_stepE: "worker_step score tiles s s'"

text \<open>What \<^verbatim>\<open>AddEnvironment\<close> returns once the threads are joined.\<close>

definition all_stopped :: "pool \<Rightarrow> bool" where
  "all_stopped s \<longleftrightarrow> list_all (\<lambda>c. c = Stopped) (pcs s)"

definition AddEnvironment_result :: "pool \<Rightarrow> bool" where
  "AddEnvironment_result s = (\<not> failed s)"

section \<open>The invariant\<close>

text \<open>
  The tile a program counter holds. Every index below \<^verbatim>\<open>next_tile\<close> is held by one worker, finished,
  or lost to the failure; \<open>lost\<close> collects the latter, so that all three together are exactly the
  claimed indexes.
\<close>

fun held :: "worker_pc \<Rightarrow> nat list" where
  "held (Claimed i) = [i]"
| "held (Scoring i) = [i]"
| "held _ = []"

definition holding :: "pool \<Rightarrow> nat multiset" where
  "holding s = (\<Sum>c\<leftarrow>pcs s. mset (held c))"

definition total_added :: "(nat \<Rightarrow> nat option result) \<Rightarrow> nat list \<Rightarrow> nat" where
  "total_added score is = sum_list (map (\<lambda>i. case score i of Inr (Some n) \<Rightarrow> n | _ \<Rightarrow> 0) is)"

definition updates :: "(nat \<Rightarrow> nat option result) \<Rightarrow> nat list \<Rightarrow> nat" where
  "updates score is = length (filter (\<lambda>i. case score i of Inr (Some n) \<Rightarrow> True | _ \<Rightarrow> False) is)"

definition pool_inv :: "(nat \<Rightarrow> nat option result) \<Rightarrow> nat \<Rightarrow> nat multiset \<Rightarrow> pool \<Rightarrow> bool" where
  "pool_inv score tiles lost s \<longleftrightarrow> pcs s \<noteq> []
     \<and> mset [0..<next_tile s] = holding s + mset (finished s) + lost
     \<and> (\<forall>i \<in># mset (finished s). i < tiles \<and> (\<exists>r. score i = Inr r))
     \<and> (\<forall>w < length (pcs s). \<forall>i. pcs s ! w = Scoring i \<longrightarrow> i < tiles)
     \<and> (\<forall>w < length (pcs s). pcs s ! w = Stopped \<longrightarrow> failed s \<or> tiles \<le> next_tile s)
     \<and> (\<not> failed s \<longrightarrow> (\<forall>i \<in># lost. tiles \<le> i))
     \<and> (failed s \<longrightarrow> (\<exists>i < tiles. \<exists>e. score i = Inl e))
     \<and> scored_edges s = total_added score (finished s) \<and> updated_tiles s = updates score (finished s)"

lemma holding_set_pc:
  assumes "w < length (pcs s)"
  shows "holding (set_pc w c s) + mset (held (pcs s ! w)) = holding s + mset (held c)"
proof -
  have "(\<Sum>c\<leftarrow>xs[w := c]. mset (held c)) + mset (held (xs ! w)) = (\<Sum>c\<leftarrow>xs. mset (held c)) + mset (held c)"
    if "w < length xs" for xs
    using that by (induction xs arbitrary: w) (auto simp: less_Suc_eq_0_disj add_ac)
  then show ?thesis using assms by (simp add: holding_def set_pc_def)
qed

lemma set_pc_simps [simp]:
  "next_tile (set_pc w c s) = next_tile s" "failed (set_pc w c s) = failed s"
  "scored_edges (set_pc w c s) = scored_edges s" "updated_tiles (set_pc w c s) = updated_tiles s"
  "finished (set_pc w c s) = finished s" "pcs (set_pc w c s) = (pcs s)[w := c]"
  by (simp_all add: set_pc_def)

lemma record_result_simps [simp]:
  "next_tile (record_result r s) = next_tile s" "failed (record_result r s) = failed s"
  "pcs (record_result r s) = pcs s" "finished (record_result r s) = finished s"
  "scored_edges (record_result r s) = scored_edges s + (case r of None \<Rightarrow> 0 | Some n \<Rightarrow> n)"
  "updated_tiles (record_result r s) = updated_tiles s + (case r of None \<Rightarrow> 0 | Some n \<Rightarrow> 1)"
  by (simp_all add: record_result_def split: option.split)

lemma holding_cong: "pcs s = pcs t \<Longrightarrow> holding s = holding t"
  by (simp add: holding_def)

lemma pool_inv_init: "pool_inv score tiles {#} (init_pool k)"
proof -
  have "holding (init_pool k) = {#}"
  proof -
    have "(\<Sum>c\<leftarrow>replicate n Claiming. mset (held c)) = {#}" for n by (induction n) simp_all
    then show ?thesis by (simp add: holding_def init_pool_def)
  qed
  then show ?thesis by (simp add: pool_inv_def) (simp add: init_pool_def total_added_def updates_def nth_replicate)
qed

lemma pool_inv_step:
  assumes step: "worker_step score tiles s s'" and inv: "pool_inv score tiles lost s"
  shows "\<exists>lost'. pool_inv score tiles lost' s'"
  using step
proof (cases rule: worker_step.cases)
  case (claim w)
  have h: "holding s' = holding s + {#next_tile s#}"
    using holding_set_pc [of w "s\<lparr>next_tile := next_tile s + 1\<rparr>" "Claimed (next_tile s)"] claim
      holding_cong [of "s\<lparr>next_tile := next_tile s + 1\<rparr>" s] by simp
  have "pool_inv score tiles lost s'"
    using inv unfolding pool_inv_def h by (auto simp: claim nth_list_update)
  then show ?thesis ..
next
  case (stop w i)
  have h: "holding s' + {#i#} = holding s" using holding_set_pc [of w s Stopped] stop by simp
  have "mset [0..<next_tile s] = holding s' + mset (finished s) + (lost + {#i#})"
    using inv by (simp add: pool_inv_def flip: h)
  moreover have "i \<in># mset [0..<next_tile s]" using calculation by simp
  then have "i < next_tile s" by simp
  ultimately have "pool_inv score tiles (lost + {#i#}) s'"
    using inv stop(4) unfolding pool_inv_def by (auto simp: stop(1,2,3) nth_list_update)
  then show ?thesis ..
next
  case (start w i)
  have h: "holding s' = holding s" using holding_set_pc [of w s "Scoring i"] start by simp
  have "pool_inv score tiles lost s'"
    using inv start(4) unfolding pool_inv_def h by (auto simp: start nth_list_update)
  then show ?thesis ..
next
  case (finish w i r)
  have h: "holding s' + {#i#} = holding s"
    using holding_set_pc [of w "record_result r (s\<lparr>finished := finished s @ [i]\<rparr>)" Claiming] finish
      holding_cong [of "record_result r (s\<lparr>finished := finished s @ [i]\<rparr>)" s] by simp
  have "mset [0..<next_tile s] = holding s' + mset (finished s @ [i]) + lost"
    using inv by (simp add: pool_inv_def flip: h)
  moreover have "i < tiles" using inv finish(2,3) by (auto simp: pool_inv_def)
  moreover have "total_added score (finished s @ [i]) = total_added score (finished s) + (case r of None \<Rightarrow> 0 | Some n \<Rightarrow> n)"
    "updates score (finished s @ [i]) = updates score (finished s) + (case r of None \<Rightarrow> 0 | Some n \<Rightarrow> 1)"
    using finish(4) by (simp_all add: total_added_def updates_def split: option.split)
  ultimately have "pool_inv score tiles lost s'"
    using inv finish(4) unfolding pool_inv_def by (auto simp: finish nth_list_update)
  then show ?thesis ..
next
  case (throw w i e)
  have h: "holding s' + {#i#} = holding s"
    using holding_set_pc [of w "s\<lparr>failed := True\<rparr>" Claiming] throw holding_cong [of "s\<lparr>failed := True\<rparr>" s] by simp
  have "mset [0..<next_tile s] = holding s' + mset (finished s) + (lost + {#i#})"
    using inv by (simp add: pool_inv_def flip: h)
  moreover have "i < tiles" using inv throw(2,3) by (auto simp: pool_inv_def)
  ultimately have "pool_inv score tiles (lost + {#i#}) s'"
    using inv throw(4) unfolding pool_inv_def by (auto simp: throw nth_list_update)
  then show ?thesis ..
qed

lemma reachable_inv:
  assumes "(worker_step score tiles)\<^sup>*\<^sup>* (init_pool k) s" shows "\<exists>lost. pool_inv score tiles lost s"
  using assms by (induction rule: rtranclp_induct) (auto intro: pool_inv_init dest: pool_inv_step)

lemma distinct_of_count: "(\<And>x. count (mset xs) x \<le> 1) \<Longrightarrow> distinct xs"
proof (induction xs)
  case (Cons a xs)
  have "count (mset xs) x \<le> 1" for x by (rule le_trans [OF _ Cons.prems [of x]]) simp
  moreover have "a \<notin> set xs"
  proof
    assume "a \<in> set xs"
    then have "0 < count (mset xs) a" by simp
    then show False using Cons.prems [of a] by simp
  qed
  ultimately show ?case using Cons.IH by simp
qed simp

lemma filter_upt_less: "m \<le> n \<Longrightarrow> filter (\<lambda>i. i < m) [0..<n] = [0..<m]"
  by (induction n) (auto simp: le_Suc_eq)

text \<open>
  C30: The worker threads share the tiles safely, for every number of threads and every
  interleaving. No tile is ever held or finished twice, every finished tile exists and was scored
  without an exception. \<^verbatim>\<open>scored_edges\<close> is the number of edge infos tagged in the finished tiles, and
  \<^verbatim>\<open>updated_tiles\<close> the number of finished tiles that had scores to store. Once all threads have stopped, \<^verbatim>\<open>AddEnvironment\<close> returns true exactly if no tile throws, and
  then every tile has been finished exactly once.
\<close>

theorem workers_safe:
  assumes "(worker_step score tiles)\<^sup>*\<^sup>* (init_pool k) s"
  shows "distinct (finished s @ concat (map held (pcs s))) \<and> set (finished s) \<subseteq> {0..<tiles}
    \<and> scored_edges s = sum_list (map (\<lambda>i. case score i of Inr (Some n) \<Rightarrow> n | _ \<Rightarrow> 0) (finished s))
    \<and> updated_tiles s = length (filter (\<lambda>i. case score i of Inr (Some n) \<Rightarrow> True | _ \<Rightarrow> False) (finished s))
    \<and> (all_stopped s \<longrightarrow> AddEnvironment_result s = (\<forall>i < tiles. \<exists>r. score i = Inr r)
        \<and> (AddEnvironment_result s \<longrightarrow> mset (finished s) = mset [0..<tiles]))"
proof -
  obtain lost where inv: "pool_inv score tiles lost s" using reachable_inv [OF assms] by blast
  have claimed: "mset [0..<next_tile s] = holding s + mset (finished s) + lost" using inv by (simp add: pool_inv_def)
  have held: "holding s = mset (concat (map held (pcs s)))"
    unfolding holding_def by (induction "pcs s" arbitrary: s) (simp_all add: mset_concat comp_def)
  have sub: "mset (finished s @ concat (map held (pcs s))) \<subseteq># mset [0..<next_tile s]"
    using claimed held by (simp add: add_ac)
  have 1: "distinct (finished s @ concat (map held (pcs s)))"
  proof -
    have "count (mset [0..<next_tile s]) x \<le> 1" for x
      using distinct_count_atmost_1 [of "[0..<next_tile s]"] by (simp del: mset_upt)
    then have "count (mset (finished s @ concat (map held (pcs s)))) x \<le> 1" for x
      using mset_subset_eq_count [OF sub, of x] le_trans by blast
    then show ?thesis by (rule distinct_of_count)
  qed
  have 2: "set (finished s) \<subseteq> {0..<tiles}" using inv by (auto simp: pool_inv_def)
  have 3: "AddEnvironment_result s = (\<forall>i < tiles. \<exists>r. score i = Inr r)
      \<and> (AddEnvironment_result s \<longrightarrow> mset (finished s) = mset [0..<tiles])" if stopped: "all_stopped s"
  proof (cases "failed s")
    case True
    then show ?thesis using inv by (auto simp: pool_inv_def AddEnvironment_result_def)
  next
    case False
    have "holding s = {#}" using stopped unfolding held all_stopped_def by (auto simp: list_all_iff)
    then have m: "mset [0..<next_tile s] = mset (finished s) + lost" using claimed by simp
    have "tiles \<le> next_tile s"
      using inv False stopped by (auto simp: pool_inv_def all_stopped_def list_all_length dest!: spec [of _ 0])
    then have "mset [0..<tiles] = filter_mset (\<lambda>i. i < tiles) (mset [0..<next_tile s])"
      by (simp only: mset_filter [symmetric] filter_upt_less)
    also have "\<dots> = filter_mset (\<lambda>i. i < tiles) (mset (finished s)) + filter_mset (\<lambda>i. i < tiles) lost"
      by (simp only: m filter_union_mset)
    also have "filter_mset (\<lambda>i. i < tiles) lost = {#}"
      using inv False by (auto simp: pool_inv_def filter_mset_eq_conv intro: multiset_eqI)
    also have "filter_mset (\<lambda>i. i < tiles) (mset (finished s)) = mset (finished s)"
      using 2 by (intro filter_mset_eq_conv [THEN iffD2]) auto
    finally have all: "mset (finished s) = mset [0..<tiles]" by simp
    then have "set (finished s) = {0..<tiles}" by (metis mset_eq_setD set_upt atLeast_upt atLeast0LessThan)
    then have "\<forall>i < tiles. \<exists>r. score i = Inr r" using inv by (auto simp: pool_inv_def)
    then show ?thesis using False all by (simp add: AddEnvironment_result_def)
  qed
  show ?thesis using 1 2 3 inv by (simp add: pool_inv_def total_added_def updates_def)
qed

theorem workers_safe_witness:
  "distinct (finished (set_pc 0 (Claimed 0) ((init_pool 2)\<lparr>next_tile := 1\<rparr>))
     @ concat (map held (pcs (set_pc 0 (Claimed 0) ((init_pool 2)\<lparr>next_tile := 1\<rparr>)))))"
proof -
  have "worker_step (\<lambda>_. Inr None) 5 (init_pool 2) (set_pc 0 (Claimed 0) ((init_pool 2)\<lparr>next_tile := 1\<rparr>))"
    using worker_step.claim [of 0 "init_pool 2" "\<lambda>_. Inr None" 5] by (simp add: init_pool_def)
  then show ?thesis using workers_safe [of "\<lambda>_. Inr None" 5 2] by blast
qed

section \<open>The threads stop\<close>

fun pc_weight :: "nat \<Rightarrow> worker_pc \<Rightarrow> nat" where
  "pc_weight tiles Claiming = 3"
| "pc_weight tiles (Claimed i) = (if i < tiles then 5 else 1)"
| "pc_weight tiles (Scoring i) = 4"
| "pc_weight tiles Stopped = 0"

definition work_left :: "nat \<Rightarrow> pool \<Rightarrow> nat" where
  "work_left tiles s = 4 * (tiles - next_tile s) + sum_list (map (pc_weight tiles) (pcs s))"

lemma sum_list_map_update:
  "w < length xs \<Longrightarrow> sum_list (map f (xs[w := c])) + f (xs ! w) = sum_list (map f xs) + (f c :: nat)"
  by (induction xs arbitrary: w) (auto simp: less_Suc_eq_0_disj)

lemma work_decreases: "worker_step score tiles s s' \<Longrightarrow> work_left tiles s' < work_left tiles s"
proof (induction rule: worker_step.induct)
  case (claim w s)
  then show ?case
    using sum_list_map_update [of w "pcs s" "pc_weight tiles" "Claimed (next_tile s)"]
    by (cases "next_tile s < tiles") (auto simp: work_left_def)
next
  case (stop w s i)
  then show ?case
    using sum_list_map_update [of w "pcs s" "pc_weight tiles" Stopped] by (auto simp: work_left_def split: if_splits)
next
  case (start w s i)
  then show ?case
    using sum_list_map_update [of w "pcs s" "pc_weight tiles" "Scoring i"] by (auto simp: work_left_def)
next
  case (finish w s i r)
  then show ?case
    using sum_list_map_update [of w "pcs s" "pc_weight tiles" Claiming] by (auto simp: work_left_def)
next
  case (throw w s i e)
  then show ?case
    using sum_list_map_update [of w "pcs s" "pc_weight tiles" Claiming] by (auto simp: work_left_def)
qed

lemma worker_progress:
  assumes "\<not> all_stopped s" shows "\<exists>s'. worker_step score tiles s s'"
proof -
  obtain w where w: "w < length (pcs s)" "pcs s ! w \<noteq> Stopped"
    using assms by (auto simp: all_stopped_def list_all_length)
  show ?thesis
  proof (cases "pcs s ! w")
    case Claiming
    then show ?thesis using worker_step.claim [OF w(1)] by blast
  next
    case (Claimed i)
    then show ?thesis using worker_step.stop [OF w(1) Claimed] worker_step.start [OF w(1) Claimed] not_le by blast
  next
    case (Scoring i)
    then show ?thesis
      using worker_step.finish [OF w(1) Scoring] worker_step.throw [OF w(1) Scoring] by (cases "score i") blast+
  qed (use w in simp)
qed

text \<open>
  C31: The threads always come to an end: a run from the start has at most four steps per tile and
  three per thread, whatever the interleaving and whatever the tiles throw, and a state from which
  no step is possible is one where every thread has stopped, so the joins in \<^verbatim>\<open>AddEnvironment\<close> return.
\<close>

theorem workers_end:
  assumes "(worker_step score tiles ^^ n) (init_pool k) s"
  shows "n \<le> 4 * tiles + 3 * max k 1 \<and> ((\<exists>s'. worker_step score tiles s s') = (\<not> all_stopped s))"
proof
  have "work_left tiles s + n \<le> work_left tiles (init_pool k)"
    using assms
  proof (induction n arbitrary: s)
    case (Suc n)
    then obtain t where "(worker_step score tiles ^^ n) (init_pool k) t" "worker_step score tiles t s" by auto
    then show ?case using Suc.IH [of t] work_decreases [of score tiles t s] by simp
  qed simp
  moreover have "work_left tiles (init_pool k) = 4 * tiles + 3 * max k 1"
    by (simp add: work_left_def init_pool_def sum_list_replicate)
  ultimately show "n \<le> 4 * tiles + 3 * max k 1" by simp
  have "\<not> worker_step score tiles s s'" if "all_stopped s" for s'
    using that by (auto simp: all_stopped_def list_all_length elim: worker_stepE)
  then show "(\<exists>s'. worker_step score tiles s s') = (\<not> all_stopped s)" using worker_progress by blast
qed

theorem workers_end_witness:
  "(\<exists>s'. worker_step (\<lambda>_. Inr None) 5 (init_pool 2) s') = (\<not> all_stopped (init_pool 2))"
  using workers_end [where score = "\<lambda>_. Inr None" and tiles = 5 and n = 0 and k = 2 and s = "init_pool 2"] by simp

end
