(* ===== verification/Bucket_Queue.thy ===== *)
theory Bucket_Queue
  imports Floats
begin

text \<open>
  \<^verbatim>\<open>DoubleBucketQueue\<close> (\<^verbatim>\<open>valhalla/baldr/double_bucket_queue.h\<close>), the adjacency list of the
  path algorithms: label indexes sorted into buckets by their sort cost, and an overflow
  bucket for what lies beyond the range. The members are the fields of \<open>bucket_queue\<close>; the
  iterator \<^verbatim>\<open>currentbucket_\<close> is the index of the bucket. \<^verbatim>\<open>mincost_\<close> is a \<^verbatim>\<open>double\<close>, the other
  costs are \<^verbatim>\<open>float\<close>. The label container belongs to the caller: it is the argument
  \<open>sc\<close>, the sort cost of a label index.

  \<open>queue_at\<close> is the invariant of a queue with the bucket size 1 that all path algorithms
  use. Under it the operations refine a multiset of labels from which \<^verbatim>\<open>pop\<close> takes one of
  the cheapest, up to the size of a bucket.
\<close>

section \<open>The members and the operations\<close>

record bucket_queue =
  bq_range :: rat
  bq_size :: rat
  bq_inv :: rat
  bq_mincost :: rat
  bq_maxcost :: rat
  bq_cost :: rat
  bq_buckets :: "u32 list list"
  bq_current :: nat
  bq_overflow :: "u32 list"

definition kInvalidLabel :: u32 where
  "kInvalidLabel = 0xffffffff"

text \<open>The object before \<^verbatim>\<open>reuse\<close> has been called the first time.\<close>

definition raw_queue :: bucket_queue where
  "raw_queue = \<lparr>bq_range = 0, bq_size = 0, bq_inv = 0, bq_mincost = 0, bq_maxcost = 0, bq_cost = 0,
     bq_buckets = [], bq_current = 0, bq_overflow = []\<rparr>"

definition resize_buckets :: "nat \<Rightarrow> u32 list list \<Rightarrow> u32 list list" where
  "resize_buckets n bs = take n bs @ replicate (n - length bs) []"

definition to_u32 :: "rat \<Rightarrow> u32 result" where
  "to_u32 x = (let i = c_trunc x in if 0 \<le> i \<and> i < 2 ^ 32 then Inr (word_of_int i) else Inl Undefined)"

definition bq_reuse :: "rat \<Rightarrow> rat \<Rightarrow> u32 \<Rightarrow> bucket_queue \<Rightarrow> bucket_queue result" where
  "bq_reuse mincost brange bucketsize q =
     (if bucketsize < 1 then Inl (Runtime_error ''Bucketsize must be 1 or greater'')
      else if brange \<le> 0 then Inl (Runtime_error ''Bucketrange must be greater than 0'')
      else bind_result (to_u32 mincost) (\<lambda>c.
        let currentcost = f32 (of_nat (unat (c - c mod bucketsize)));
            bsize = f32 (of_nat (unat bucketsize))
        in Inr (q\<lparr>bq_cost := currentcost, bq_mincost := currentcost, bq_range := brange, bq_size := bsize,
             bq_inv := f32 (1 / bsize), bq_maxcost := f32 (f64 (currentcost + brange)),
             bq_buckets := resize_buckets (nat (c_trunc (f32 (f32 (brange / bsize) + 1)))) (bq_buckets q),
             bq_current := 0\<rparr>)))"

definition new_queue :: "rat \<Rightarrow> rat \<Rightarrow> u32 \<Rightarrow> bucket_queue result" where
  "new_queue mincost brange bucketsize = bq_reuse mincost brange bucketsize raw_queue"

definition default_queue :: "bucket_queue result" where
  "default_queue = new_queue 0 1 1"

text \<open>\<^verbatim>\<open>clear\<close> walks from the current bucket to the end: the buckets before it are not touched.\<close>

definition bq_clear :: "bucket_queue \<Rightarrow> bucket_queue" where
  "bq_clear q =
     q\<lparr>bq_overflow := [],
       bq_buckets := take (bq_current q) (bq_buckets q) @ map (\<lambda>_. []) (drop (bq_current q) (bq_buckets q)),
       bq_cost := f32 (bq_mincost q), bq_current := 0\<rparr>"

text \<open>
  The bucket of a cost, as a reference into the queue. Reading past the buckets, through the
  end iterator or by a negative or too large index, is undefined.
\<close>

datatype place = Bucket nat | Overflow

definition bucket_index :: "bucket_queue \<Rightarrow> rat \<Rightarrow> nat result" where
  "bucket_index q cost =
     (let i = c_trunc (f64 (f64 (cost - bq_mincost q) * bq_inv q))
      in if 0 \<le> i \<and> i < int (length (bq_buckets q)) then Inr (nat i) else Inl Undefined)"

definition bq_get_bucket :: "bucket_queue \<Rightarrow> rat \<Rightarrow> place result" where
  "bq_get_bucket q cost =
     (if cost < bq_cost q
      then if bq_current q < length (bq_buckets q) then Inr (Bucket (bq_current q)) else Inl Undefined
      else if cost < bq_maxcost q then bind_result (bucket_index q cost) (\<lambda>i. Inr (Bucket i))
      else Inr Overflow)"

definition content_of :: "bucket_queue \<Rightarrow> place \<Rightarrow> u32 list" where
  "content_of q p = (case p of Bucket i \<Rightarrow> bq_buckets q ! i | Overflow \<Rightarrow> bq_overflow q)"

definition set_content :: "place \<Rightarrow> u32 list \<Rightarrow> bucket_queue \<Rightarrow> bucket_queue" where
  "set_content p ls q =
     (case p of Bucket i \<Rightarrow> q\<lparr>bq_buckets := (bq_buckets q)[i := ls]\<rparr> | Overflow \<Rightarrow> q\<lparr>bq_overflow := ls\<rparr>)"

definition bq_push :: "place \<Rightarrow> u32 \<Rightarrow> bucket_queue \<Rightarrow> bucket_queue" where
  "bq_push p label q = set_content p (content_of q p @ [label]) q"

definition bq_add :: "(u32 \<Rightarrow> rat) \<Rightarrow> u32 \<Rightarrow> bucket_queue \<Rightarrow> bucket_queue result" where
  "bq_add sc label q = bind_result (bq_get_bucket q (sc label)) (\<lambda>p. Inr (bq_push p label q))"

text \<open>
  \<^verbatim>\<open>erase(std::remove(...))\<close> with one iterator erases one element: the one at the new end of
  the compacted vector, whose tail keeps its old values. Without the label that is the
  end iterator, which cannot be erased.
\<close>

definition erase_remove :: "u32 \<Rightarrow> u32 list \<Rightarrow> u32 list result" where
  "erase_remove label ls =
     (let kept = [l \<leftarrow> ls. l \<noteq> label]
      in if length kept = length ls then Inl Undefined else Inr (kept @ drop (Suc (length kept)) ls))"

text \<open>The two buckets are compared by their contents, as \<^verbatim>\<open>operator!=\<close> of vectors does.\<close>

definition bq_decrease :: "(u32 \<Rightarrow> rat) \<Rightarrow> u32 \<Rightarrow> rat \<Rightarrow> bucket_queue \<Rightarrow> bucket_queue result" where
  "bq_decrease sc label newcost q =
     bind_result (bq_get_bucket q (sc label)) (\<lambda>prev.
     bind_result (bq_get_bucket q newcost) (\<lambda>new.
       if content_of q prev \<noteq> content_of q new
       then let q1 = bq_push new label q
            in bind_result (erase_remove label (content_of q1 prev)) (\<lambda>ls. Inr (set_content prev ls q1))
       else Inr q))"

function bq_empty :: "bucket_queue \<Rightarrow> bool \<times> bucket_queue" where
  "bq_empty q =
     (if bq_current q < length (bq_buckets q) \<and> bq_buckets q ! bq_current q = []
      then bq_empty (q\<lparr>bq_current := bq_current q + 1, bq_cost := f32 (bq_cost q + bq_size q)\<rparr>)
      else (bq_current q = length (bq_buckets q), q))"
  by pat_completeness auto
termination
  by (relation "measure (\<lambda>q. length (bq_buckets q) - bq_current q)") auto

declare bq_empty.simps [simp del]

definition min_element :: "(u32 \<Rightarrow> rat) \<Rightarrow> u32 \<Rightarrow> u32 list \<Rightarrow> u32" where
  "min_element sc l ls = foldl (\<lambda>best x. if sc x < sc best then x else best) l ls"

text \<open>The new start of the range, with the two corrections for precision.\<close>

definition shifted_mincost :: "rat \<Rightarrow> rat \<Rightarrow> rat \<Rightarrow> rat" where
  "shifted_mincost mincost brange least =
     (let m = f64 (mincost + f64 (of_int \<lfloor>f64 (f64 (least - mincost) / brange)\<rfloor> * brange))
      in if least < m then f64 (m - brange)
         else if f64 (m + brange) < least then f64 (m + brange)
         else m)"

fun move_labels :: "(u32 \<Rightarrow> rat) \<Rightarrow> u32 list \<Rightarrow> bucket_queue \<Rightarrow> bucket_queue result" where
  "move_labels sc [] q = Inr q"
| "move_labels sc (l # ls) q =
     (if sc l < bq_maxcost q
      then bind_result (bucket_index q (sc l)) (\<lambda>i. move_labels sc ls (bq_push (Bucket i) l q))
      else move_labels sc ls q)"

definition restart :: "bucket_queue \<Rightarrow> bucket_queue" where
  "restart q = q\<lparr>bq_cost := f32 (bq_mincost q), bq_current := 0\<rparr>"

definition bq_empty_overflow :: "(u32 \<Rightarrow> rat) \<Rightarrow> bucket_queue \<Rightarrow> bucket_queue result" where
  "bq_empty_overflow sc q =
     (case bq_overflow q of
        [] \<Rightarrow> Inr (restart q)
      | l # ls \<Rightarrow>
          let m = shifted_mincost (bq_mincost q) (bq_range q) (sc (min_element sc l ls));
              q1 = q\<lparr>bq_mincost := m, bq_maxcost := f32 (f64 (m + bq_range q))\<rparr>
          in bind_result (move_labels sc (l # ls) q1) (\<lambda>q2.
             Inr (restart (q2\<lparr>bq_overflow := [x \<leftarrow> l # ls. \<not> sc x < bq_maxcost q1]\<rparr>))))"

definition take_back :: "bucket_queue \<Rightarrow> u32 \<times> bucket_queue" where
  "take_back q =
     (let b = bq_buckets q ! bq_current q
      in (last b, q\<lparr>bq_buckets := (bq_buckets q)[bq_current q := butlast b]\<rparr>))"

definition bq_pop :: "(u32 \<Rightarrow> rat) \<Rightarrow> bucket_queue \<Rightarrow> (u32 \<times> bucket_queue) result" where
  "bq_pop sc q =
     (let (e, q1) = bq_empty q
      in if e
         then if bq_overflow q1 = [] then Inr (kInvalidLabel, q1\<lparr>bq_current := bq_current q1 - 1\<rparr>)
              else bind_result (bq_empty_overflow sc q1) (\<lambda>q2.
                let (e2, q3) = bq_empty q2
                in if e2 then Inr (kInvalidLabel, q3) else Inr (take_back q3))
         else Inr (take_back q1))"

section \<open>Exact differences of costs\<close>

text \<open>
  A \<^verbatim>\<open>float\<close> of at least one is a multiple of \<open>2 powi - 23\<close>, so its difference to an integer
  is exact in \<^verbatim>\<open>double\<close> as long as both stay below \<open>2 ^ 24\<close>.
\<close>

lemma float_grid:
  assumes f: "f32 c = c" and c: "1 \<le> c"
  obtains K where "c = of_int K * 2 powi (- 23)"
proof -
  define e where "e = fl_exp 24 (- 149) c"
  have il: "0 \<le> ilog2 c"
  proof (rule ccontr)
    assume "\<not> 0 \<le> ilog2 c"
    then have "2 powi (ilog2 c + 1) \<le> (2::rat) powi 0" by (intro powi_mono) simp
    moreover have "c < 2 powi (ilog2 c + 1)" using c by (intro ilog2_bounds) simp
    ultimately show False using c by simp
  qed
  have e: "- 23 \<le> e" using il c by (simp add: e_def fl_exp_def)
  define k where "k = round_even (c / 2 powi e)"
  have "c = of_int k * 2 powi e"
    using f c by (simp add: f32_def fl_def e_def k_def Let_def)
  also have "2 powi e = of_int (2 ^ nat (e + 23)) * (2::rat) powi (- 23)"
  proof -
    have "e = int (nat (e + 23)) + (- 23)" using e by simp
    then have "(2::rat) powi e = 2 powi (int (nat (e + 23)) + (- 23))" by simp
    also have "\<dots> = 2 powi int (nat (e + 23)) * 2 powi (- 23)" by (rule power_int_add) simp
    finally show ?thesis by (simp only: power_int_of_nat of_int_power of_int_numeral)
  qed
  finally have "c = of_int (k * 2 ^ nat (e + 23)) * 2 powi (- 23)"
    by (simp only: of_int_mult mult.assoc)
  then show ?thesis by (rule that)
qed

lemma float_is_double: "f32 c = c \<Longrightarrow> f64 c = c"
proof -
  assume f: "f32 c = c"
  show "f64 c = c"
  proof (cases "c = 0")
    case False
    define e where "e = fl_exp 24 (- 149) c"
    define k where "k = round_even (c / 2 powi e)"
    have c: "c = of_int k * 2 powi e" using f False by (simp add: f32_def fl_def e_def k_def Let_def)
    have "\<bar>c\<bar> < 2 powi (ilog2 \<bar>c\<bar> + 1)" using False by (intro ilog2_bounds) simp
    also have "\<dots> \<le> 2 powi (24 + e)" by (rule powi_mono) (simp add: e_def fl_exp_def)
    also have "\<dots> = of_int (2 ^ 24) * 2 powi e" by (subst power_int_add) simp_all
    finally have "\<bar>c\<bar> / 2 powi e < of_int (2 ^ 24)" by (simp add: divide_less_eq)
    moreover have "\<bar>c\<bar> / 2 powi e = of_int \<bar>k\<bar>" by (subst c) (simp add: abs_mult)
    ultimately have "(of_int \<bar>k\<bar> :: rat) < of_int (2 ^ 24)" by simp
    then have "\<bar>k\<bar> < 2 ^ 24" by (simp only: of_int_less_iff)
    then have "fl 53 (- 1074) (of_int k * 2 powi e) = of_int k * 2 powi e"
      by (intro fl_exact_less) (simp_all add: e_def fl_exp_def)
    then show ?thesis by (simp only: f64_def c [symmetric])
  qed (simp add: f64_def)
qed

lemma float_diff_exact:
  assumes f: "f32 c = c" and lo: "of_nat m \<le> c" and hi: "c \<le> 2 ^ 24"
  shows "f64 (c - of_nat m) = c - of_nat m"
proof (cases "m = 0")
  case True
  then show ?thesis using float_is_double [OF f] by simp
next
  case False
  then have "(1::rat) \<le> of_nat m" by simp
  then have "1 \<le> c" using lo by (rule order_trans)
  then obtain K where K: "c = of_int K * 2 powi (- 23)" using float_grid [OF f] by blast
  define D where "D = K - int m * 2 ^ 23"
  have d: "c - of_nat m = of_int D * 2 powi (- 23)"
    by (simp add: K D_def algebra_simps power_int_minus)
  have "0 \<le> c - of_nat m" using lo by simp
  then have "0 \<le> (of_int D :: rat) * 2 powi (- 23)" by (simp only: d)
  then have "(0::rat) \<le> of_int D"
    by (rule zero_le_mult_iff [THEN iffD1, THEN disjE]) (use powi_pos [of "- 23"] in auto)
  then have D0: "0 \<le> D" by simp
  have "(of_int D :: rat) * 2 powi (- 23) \<le> 2 ^ 24" using hi lo d by simp
  then have "(of_int D :: rat) \<le> of_int (2 ^ 47)" by (simp add: power_int_minus field_simps)
  then have "D \<le> 2 ^ 47" by (simp only: of_int_le_iff)
  then have "\<bar>D\<bar> \<le> 2 ^ 53" using D0 by simp
  then show ?thesis by (simp only: d f64_def) (rule fl_exact, simp_all)
qed

section \<open>The invariant\<close>

text \<open>
  \<open>range_at n m\<close>: \<open>n\<close> buckets of size 1 (and one more) from the cost \<open>m\<close> on.
  \<open>content_at\<close>: every label lies in the bucket of its cost, labels of a cost below the
  current bucket in the current one, and the buckets before it are empty.
\<close>

definition range_at :: "nat \<Rightarrow> nat \<Rightarrow> bucket_queue \<Rightarrow> bool" where
  "range_at n m q \<longleftrightarrow>
     0 < n \<and> m + n + 1 \<le> 2 ^ 24 \<and> bq_range q = of_nat n \<and> bq_size q = 1 \<and> bq_inv q = 1 \<and>
     bq_mincost q = of_nat m \<and> bq_maxcost q = of_nat (m + n) \<and> length (bq_buckets q) = n + 1"

definition in_place :: "(u32 \<Rightarrow> rat) \<Rightarrow> nat \<Rightarrow> nat \<Rightarrow> nat \<Rightarrow> nat \<Rightarrow> u32 \<Rightarrow> bool" where
  "in_place sc n m cur i l \<longleftrightarrow>
     sc l < of_nat (m + i + 1) \<and> sc l < of_nat (m + n) \<and> (i \<noteq> cur \<longrightarrow> cur < i \<and> of_nat (m + i) \<le> sc l)"

definition content_at :: "(u32 \<Rightarrow> rat) \<Rightarrow> nat \<Rightarrow> nat \<Rightarrow> nat \<Rightarrow> u32 list list \<Rightarrow> bool" where
  "content_at sc n m cur bs \<longleftrightarrow> (\<forall>i<length bs. \<forall>l\<in>set (bs ! i). in_place sc n m cur i l)"

definition queue_at :: "(u32 \<Rightarrow> rat) \<Rightarrow> nat \<Rightarrow> nat \<Rightarrow> bucket_queue \<Rightarrow> bool" where
  "queue_at sc n m q \<longleftrightarrow>
     range_at n m q \<and> bq_cost q = of_nat (m + bq_current q) \<and> bq_current q \<le> n + 1 \<and>
     content_at sc n m (bq_current q) (bq_buckets q) \<and> (\<forall>l\<in>set (bq_overflow q). of_nat (m + n) \<le> sc l)"

definition queue_ok :: "(u32 \<Rightarrow> rat) \<Rightarrow> nat \<Rightarrow> bucket_queue \<Rightarrow> bool" where
  "queue_ok sc n q \<longleftrightarrow> (\<exists>m. queue_at sc n m q) \<and> bq_current q \<le> n"

text \<open>A sort cost that the \<^verbatim>\<open>float\<close> arithmetic of a queue of range \<open>n\<close> handles exactly.\<close>

definition cost_ok :: "nat \<Rightarrow> rat \<Rightarrow> bool" where
  "cost_ok n c \<longleftrightarrow> f32 c = c \<and> c + of_nat n + 1 \<le> 2 ^ 24"

definition labels :: "bucket_queue \<Rightarrow> u32 multiset" where
  "labels q = mset (concat (bq_buckets q)) + mset (bq_overflow q)"

lemma in_labels:
  "x \<in># labels q \<longleftrightarrow> (\<exists>i<length (bq_buckets q). x \<in> set (bq_buckets q ! i)) \<or> x \<in> set (bq_overflow q)"
proof -
  have "x \<in> set (concat bs) \<longleftrightarrow> (\<exists>i<length bs. x \<in> set (bs ! i))" for bs :: "u32 list list"
    by (auto simp: in_set_conv_nth [of _ bs] dest: nth_mem)
  then show ?thesis by (simp add: labels_def)
qed

lemma concat_update:
  "i < length bs \<Longrightarrow> mset (concat (bs[i := b])) + mset (bs ! i) = mset (concat bs) + mset b"
proof (induction bs arbitrary: i)
  case (Cons a bs)
  then show ?case by (cases i) (simp_all add: ac_simps)
qed simp

lemma content_at_empty: "\<forall>i<length bs. bs ! i = [] \<Longrightarrow> content_at sc n m cur bs"
  by (simp add: content_at_def)

lemma content_at_update:
  "content_at sc n m cur bs \<Longrightarrow> \<forall>l\<in>set b. in_place sc n m cur i l \<Longrightarrow> content_at sc n m cur (bs[i := b])"
  by (cases "i < length bs") (simp_all add: content_at_def nth_list_update)

lemma content_at_push:
  "content_at sc n m cur bs \<Longrightarrow> i < length bs \<Longrightarrow> in_place sc n m cur i l
    \<Longrightarrow> content_at sc n m cur (bs[i := bs ! i @ [l]])"
  by (rule content_at_update) (auto simp: content_at_def)

lemma range_at_buckets [simp]:
  "length bs = length (bq_buckets q) \<Longrightarrow> range_at n m (q\<lparr>bq_buckets := bs\<rparr>) = range_at n m q"
  "range_at n m (q\<lparr>bq_overflow := os\<rparr>) = range_at n m q"
  "range_at n m (q\<lparr>bq_current := c\<rparr>) = range_at n m q"
  "range_at n m (q\<lparr>bq_cost := k\<rparr>) = range_at n m q"
  by (simp_all add: range_at_def)

section \<open>The bucket of a cost\<close>

lemma bucket_index_at:
  assumes q: "range_at n m q" and c: "f32 c = c" "of_nat m \<le> c" "c < of_nat (m + n)"
  obtains i where "bucket_index q c = Inr i" and "i < n" and "of_nat (m + i) \<le> c" and "c < of_nat (m + i + 1)"
proof -
  have mn: "m + n + 1 \<le> 2 ^ 24" using q by (simp only: range_at_def)
  have "(of_nat (m + n) :: rat) \<le> of_nat (2 ^ 24)" using mn by (simp only: of_nat_le_iff)
  then have hi: "c \<le> 2 ^ 24" using c(3) by simp
  define i where "i = nat \<lfloor>c - of_nat m\<rfloor>"
  have i: "int i = \<lfloor>c - of_nat m\<rfloor>" using c(2) by (simp add: i_def)
  then have b: "of_nat i \<le> c - of_nat m" "c - of_nat m < of_nat i + 1"
    using floor_correct [of "c - of_nat m"] by (simp_all flip: i)
  have "(of_nat i :: rat) < of_nat n" using b(1) c(3) by simp
  then have n: "i < n" by simp
  have d: "f64 (c - of_nat m) = c - of_nat m" by (rule float_diff_exact [OF c(1,2) hi])
  have "c_trunc (f64 (f64 (c - bq_mincost q) * bq_inv q)) = int i"
    using q c(2) by (simp add: range_at_def d c_trunc_def i)
  then have "bucket_index q c = Inr i"
    using q n by (simp add: bucket_index_def range_at_def)
  then show ?thesis using n b by (intro that [of i]) simp_all
qed

text \<open>The place of a cost: no undefined behaviour, and the label fits there.\<close>

definition fits :: "(u32 \<Rightarrow> rat) \<Rightarrow> nat \<Rightarrow> nat \<Rightarrow> bucket_queue \<Rightarrow> place \<Rightarrow> u32 \<Rightarrow> bool" where
  "fits sc n m q p l = (case p of
     Bucket i \<Rightarrow> i < length (bq_buckets q) \<and> in_place sc n m (bq_current q) i l
   | Overflow \<Rightarrow> of_nat (m + n) \<le> sc l)"

lemma get_bucket_at:
  assumes q: "queue_at sc n m q" and cur: "bq_current q \<le> n" and c: "cost_ok n (sc l)"
  obtains p where "bq_get_bucket q (sc l) = Inr p" and "fits sc n m q p l"
proof -
  have r: "range_at n m q" and len: "length (bq_buckets q) = n + 1"
    and cost: "bq_cost q = of_nat (m + bq_current q)" and mx: "bq_maxcost q = of_nat (m + n)"
    using q by (simp_all add: queue_at_def range_at_def)
  consider "sc l < bq_cost q" | "bq_cost q \<le> sc l" "sc l < bq_maxcost q" | "bq_cost q \<le> sc l" "bq_maxcost q \<le> sc l"
    by linarith
  then show ?thesis
  proof cases
    case 1
    then have "bq_get_bucket q (sc l) = Inr (Bucket (bq_current q))"
      using cur len by (simp add: bq_get_bucket_def)
    moreover have "fits sc n m q (Bucket (bq_current q)) l"
      using 1 cur len by (simp add: fits_def in_place_def cost)
    ultimately show ?thesis by (rule that)
  next
    case 2
    then have "of_nat m \<le> sc l" by (simp add: cost)
    then obtain i where i: "bucket_index q (sc l) = Inr i" "i < n" "of_nat (m + i) \<le> sc l"
      "sc l < of_nat (m + i + 1)"
      using bucket_index_at [OF r, of "sc l"] c 2 by (auto simp: cost_ok_def mx)
    have "(of_nat (m + bq_current q) :: rat) < of_nat (m + i + 1)" using 2(1) i(4) by (simp add: cost)
    then have ci: "bq_current q \<le> i" by (simp only: of_nat_less_iff)
    have "bq_get_bucket q (sc l) = Inr (Bucket i)" using 2 i(1) by (simp add: bq_get_bucket_def)
    moreover have "fits sc n m q (Bucket i) l"
      using i ci len by (simp add: fits_def in_place_def)
    ultimately show ?thesis by (rule that)
  next
    case 3
    then have "bq_get_bucket q (sc l) = Inr Overflow" by (simp add: bq_get_bucket_def)
    moreover have "fits sc n m q Overflow l" using 3 by (simp add: fits_def mx)
    ultimately show ?thesis by (rule that)
  qed
qed

lemma push_at:
  assumes "queue_at sc n m q" and "fits sc n m q p l"
  shows "queue_at sc n m (bq_push p l q)" and "labels (bq_push p l q) = add_mset l (labels q)"
    and "bq_current (bq_push p l q) = bq_current q" and "bq_cost (bq_push p l q) = bq_cost q"
proof -
  show "queue_at sc n m (bq_push p l q)"
    using assms
    by (cases p) (auto simp: queue_at_def fits_def bq_push_def set_content_def content_of_def
        intro: content_at_push)
  show "labels (bq_push p l q) = add_mset l (labels q)"
  proof (cases p)
    case (Bucket i)
    then have "i < length (bq_buckets q)" using assms by (simp add: fits_def)
    from concat_update [OF this, of "bq_buckets q ! i @ [l]"] Bucket show ?thesis
      by (simp add: bq_push_def set_content_def content_of_def labels_def)
  qed (simp add: bq_push_def set_content_def content_of_def labels_def)
  show "bq_current (bq_push p l q) = bq_current q" "bq_cost (bq_push p l q) = bq_cost q"
    by (cases p; simp add: bq_push_def set_content_def)+
qed

lemma add_at:
  assumes "queue_ok sc n q" and "cost_ok n (sc l)"
  obtains q' where "bq_add sc l q = Inr q'" and "queue_ok sc n q'" and "labels q' = add_mset l (labels q)"
    and "bq_cost q' = bq_cost q"
proof -
  obtain m where m: "queue_at sc n m q" and cur: "bq_current q \<le> n" using assms(1) by (auto simp: queue_ok_def)
  obtain p where p: "bq_get_bucket q (sc l) = Inr p" "fits sc n m q p l"
    using get_bucket_at [OF m cur assms(2)] .
  show ?thesis
  proof (rule that)
    show "bq_add sc l q = Inr (bq_push p l q)" by (simp add: bq_add_def p)
  qed (use push_at [OF m p(2)] cur in \<open>auto simp: queue_ok_def\<close>)
qed

section \<open>Advancing to the next label\<close>

lemma content_at_next:
  assumes c: "content_at sc n m cur bs" and e: "cur < length bs" "bs ! cur = []"
  shows "content_at sc n m (cur + 1) bs"
  unfolding content_at_def
proof (intro allI impI ballI)
  fix i l assume i: "i < length bs" and l: "l \<in> set (bs ! i)"
  then have "in_place sc n m cur i l" "i \<noteq> cur" using c e by (auto simp: content_at_def)
  then show "in_place sc n m (cur + 1) i l" by (auto simp: in_place_def)
qed

lemma empty_at:
  assumes "queue_at sc n m q"
  shows "\<exists>c. bq_empty q = (c = n + 1, q\<lparr>bq_current := c, bq_cost := of_nat (m + c)\<rparr>)
      \<and> queue_at sc n m (q\<lparr>bq_current := c, bq_cost := of_nat (m + c)\<rparr>)
      \<and> bq_current q \<le> c \<and> (c < n + 1 \<longrightarrow> bq_buckets q ! c \<noteq> [])
      \<and> (\<forall>i<c. bq_buckets q ! i = [])"
  using assms
proof (induction q rule: bq_empty.induct)
  case (1 q)
  have r: "range_at n m q" and len: "length (bq_buckets q) = n + 1"
    and cost: "bq_cost q = of_nat (m + bq_current q)" and cur: "bq_current q \<le> n + 1"
    and con: "content_at sc n m (bq_current q) (bq_buckets q)"
    and mn: "m + n + 1 \<le> 2 ^ 24" and size: "bq_size q = 1"
    using 1(2) by (simp_all add: queue_at_def range_at_def)
  have before: "bq_buckets q ! i = []" if "i < bq_current q" for i
  proof (rule ccontr)
    assume "bq_buckets q ! i \<noteq> []"
    then have "hd (bq_buckets q ! i) \<in> set (bq_buckets q ! i)" by simp
    moreover have "i < length (bq_buckets q)" using that cur len by simp
    ultimately have "in_place sc n m (bq_current q) i (hd (bq_buckets q ! i))"
      using con by (simp add: content_at_def)
    then show False using that by (simp add: in_place_def)
  qed
  show ?case
  proof (cases "bq_current q < length (bq_buckets q) \<and> bq_buckets q ! bq_current q = []")
    case True
    have "int (m + bq_current q + 1) \<le> 2 ^ 24" using True len mn by simp
    then have "f32 (of_nat (m + bq_current q + 1)) = of_nat (m + bq_current q + 1)"
      by (rule float32.exact_nat)
    then have c1: "f32 (bq_cost q + bq_size q) = of_nat (m + (bq_current q + 1))"
      by (simp add: cost size ac_simps)
    define q1 where "q1 = q\<lparr>bq_current := bq_current q + 1, bq_cost := of_nat (m + (bq_current q + 1))\<rparr>"
    have "queue_at sc n m q1"
      using 1(2) True len content_at_next [OF con] by (simp add: q1_def queue_at_def)
    from 1(1) [OF True, unfolded c1, folded q1_def, OF this] obtain c where
      IH: "bq_empty q1 = (c = n + 1, q1\<lparr>bq_current := c, bq_cost := of_nat (m + c)\<rparr>)"
        "queue_at sc n m (q1\<lparr>bq_current := c, bq_cost := of_nat (m + c)\<rparr>)"
        "bq_current q1 \<le> c" "c < n + 1 \<longrightarrow> bq_buckets q1 ! c \<noteq> []" "\<forall>i<c. bq_buckets q1 ! i = []"
      by blast
    have eq: "q1\<lparr>bq_current := c, bq_cost := of_nat (m + c)\<rparr> = q\<lparr>bq_current := c, bq_cost := of_nat (m + c)\<rparr>"
      by (simp add: q1_def)
    have "bq_empty q = bq_empty q1" using True by (simp add: bq_empty.simps [of q] c1 q1_def)
    then show ?thesis using IH unfolding eq by (intro exI [of _ c]) (simp add: q1_def)
  next
    case False
    have eq: "q\<lparr>bq_current := bq_current q, bq_cost := of_nat (m + bq_current q)\<rparr> = q"
      using cost by simp
    have "bq_empty q = (bq_current q = n + 1, q)"
      by (subst bq_empty.simps, subst if_not_P [OF False]) (simp add: len)
    then show ?thesis
      using 1(2) False len before by (intro exI [of _ "bq_current q"]) (simp only: eq, simp)
  qed
qed

section \<open>Moving the overflow into the buckets\<close>

lemma min_element_is_min:
  "min_element sc l ls \<in> set (l # ls) \<and> (\<forall>x\<in>set (l # ls). sc (min_element sc l ls) \<le> sc x)"
proof (induction ls arbitrary: l)
  case (Cons a ls)
  define b where "b = (if sc a < sc l then a else l)"
  have "min_element sc l (a # ls) = min_element sc b ls" by (simp add: min_element_def b_def)
  moreover have "b \<in> {a, l}" "sc b \<le> sc a" "sc b \<le> sc l" by (auto simp: b_def)
  moreover have "min_element sc b ls \<in> set (b # ls)" "\<forall>x\<in>set (b # ls). sc (min_element sc b ls) \<le> sc x"
    using Cons.IH [of b] by blast+
  ultimately show ?case by auto
qed (simp add: min_element_def)

lemma shifted_mincost_at:
  assumes n: "0 < n" and lo: "of_nat (m + n) \<le> c" and c: "f32 c = c" "c + of_nat n + 1 \<le> 2 ^ 24"
  obtains m' where "shifted_mincost (of_nat m) (of_nat n) c = of_nat m'"
    and "of_nat m' \<le> c" and "c < of_nat (m' + n)" and "m + n \<le> m'" and "m' + n + 1 \<le> 2 ^ 24"
proof -
  have lo': "of_nat m \<le> c" using lo by simp
  have d: "f64 (c - of_nat m) = c - of_nat m" using c by (intro float_diff_exact lo') simp_all
  define x where "x = (c - of_nat m) / of_nat n"
  define K where "K = nat \<lfloor>x\<rfloor>"
  have x1: "1 \<le> x" using lo n by (simp add: x_def le_divide_eq)
  then have K: "\<lfloor>x\<rfloor> = int K" by (simp add: K_def)
  then have Kx: "of_nat K \<le> x" "x < of_nat K + 1" using floor_correct [of x] by simp_all
  have K1: "1 \<le> K" using x1 by (simp add: K_def le_nat_iff)
  have c_eq: "c = of_nat m + x * of_nat n" using n by (simp add: x_def)
  have mK: "of_nat (m + K * n) \<le> c"
  proof -
    have "(of_nat K :: rat) * of_nat n \<le> x * of_nat n" using Kx(1) by (intro mult_right_mono) simp_all
    then show ?thesis by (simp add: c_eq)
  qed
  have Kc: "c < of_nat (m + K * n + n)"
  proof -
    have "x * of_nat n < (of_nat K + 1) * of_nat n" using Kx(2) n by (intro mult_strict_right_mono) simp_all
    then show ?thesis by (simp add: c_eq algebra_simps)
  qed
  have "(of_nat (m + K * n) + of_nat n + 1 :: rat) \<le> 2 ^ 24" using mK c(2) by linarith
  then have "(of_nat (m + K * n + n + 1) :: rat) \<le> of_nat (2 ^ 24)" by simp
  then have mb: "m + K * n + n + 1 \<le> 2 ^ 24" by (simp only: of_nat_le_iff)
  have ex: "f64 (of_nat j) = of_nat j" if "j \<le> m + K * n + n" for j
    using mb that by (intro float64.exact_nat) simp
  have Kn: "K \<le> K * n" using n by simp
  have "(of_nat K :: rat) \<le> f64 x"
    using float64.mono [OF Kx(1)] ex [of K] Kn by simp
  moreover have "f64 x \<le> of_nat (K + 1)"
    using float64.mono [of x "of_nat (K + 1)"] Kx(2) ex [of "K + 1"] Kn n by simp
  ultimately consider "\<lfloor>f64 x\<rfloor> = int K" | "\<lfloor>f64 x\<rfloor> = int (K + 1)"
  proof -
    assume a: "(of_nat K :: rat) \<le> f64 x" "f64 x \<le> of_nat (K + 1)"
    have "int K \<le> \<lfloor>f64 x\<rfloor>" using a(1) by (simp add: le_floor_iff)
    moreover have "\<lfloor>f64 x\<rfloor> \<le> int (K + 1)" using floor_mono [OF a(2)] by simp
    ultimately show ?thesis using that by linarith
  qed
  then have "shifted_mincost (of_nat m) (of_nat n) c = of_nat (m + K * n)"
  proof cases
    case 1
    have "f64 (of_int \<lfloor>f64 x\<rfloor> * of_nat n) = of_nat (K * n)"
      using ex [of "K * n"] by (simp add: 1)
    moreover have "f64 (of_nat m + of_nat (K * n)) = of_nat (m + K * n)" using ex [of "m + K * n"] by simp
    moreover have "f64 (of_nat (m + K * n) + of_nat n) = of_nat (m + K * n + n)"
      using ex [of "m + K * n + n"] by simp
    ultimately show ?thesis
      using mK Kc by (simp only: shifted_mincost_def d x_def [symmetric] Let_def) auto
  next
    case 2
    have "f64 (of_int \<lfloor>f64 x\<rfloor> * of_nat n) = of_nat (K * n + n)"
      using ex [of "K * n + n"] by (simp add: 2 algebra_simps)
    moreover have "f64 (of_nat m + of_nat (K * n + n)) = of_nat (m + K * n + n)"
      using ex [of "m + K * n + n"] by (simp add: ac_simps)
    moreover have "f64 (of_nat (m + K * n + n) - of_nat n) = of_nat (m + K * n)"
      using ex [of "m + K * n"] by simp
    ultimately show ?thesis
      using Kc by (simp only: shifted_mincost_def d x_def [symmetric] Let_def) simp
  qed
  moreover have "m + n \<le> m + K * n" using K1 by simp
  ultimately show ?thesis using mK Kc mb by (intro that [of "m + K * n"])
qed

lemma move_labels_at:
  assumes "range_at n m q" and "content_at sc n m 0 (bq_buckets q)"
    and "\<forall>l\<in>set ls. f32 (sc l) = sc l \<and> of_nat m \<le> sc l"
  shows "\<exists>bs. move_labels sc ls q = Inr (q\<lparr>bq_buckets := bs\<rparr>) \<and> range_at n m (q\<lparr>bq_buckets := bs\<rparr>)
    \<and> content_at sc n m 0 bs
    \<and> mset (concat bs) = mset (concat (bq_buckets q)) + mset [l \<leftarrow> ls. sc l < bq_maxcost q]"
  using assms
proof (induction ls arbitrary: q)
  case Nil
  then show ?case by (intro exI [of _ "bq_buckets q"]) simp
next
  case (Cons l ls)
  have r: "range_at n m q" and c: "content_at sc n m 0 (bq_buckets q)"
    and l: "f32 (sc l) = sc l" "of_nat m \<le> sc l"
    and ls: "\<forall>l\<in>set ls. f32 (sc l) = sc l \<and> of_nat m \<le> sc l" using Cons.prems by simp_all
  have len: "length (bq_buckets q) = n + 1" and mx: "bq_maxcost q = of_nat (m + n)"
    using r by (simp_all only: range_at_def)
  show ?case
  proof (cases "sc l < bq_maxcost q")
    case True
    obtain i where i: "bucket_index q (sc l) = Inr i" "i < n" "of_nat (m + i) \<le> sc l" "sc l < of_nat (m + i + 1)"
      using bucket_index_at [OF r l] True unfolding mx by blast
    define q1 where "q1 = bq_push (Bucket i) l q"
    have q1: "q1 = q\<lparr>bq_buckets := (bq_buckets q)[i := bq_buckets q ! i @ [l]]\<rparr>"
      by (simp add: q1_def bq_push_def set_content_def content_of_def)
    have "range_at n m q1" using r by (simp add: q1)
    moreover have "content_at sc n m 0 (bq_buckets q1)"
      using c i len by (simp add: q1) (rule content_at_push, simp_all add: in_place_def)
    ultimately obtain bs where bs: "move_labels sc ls q1 = Inr (q1\<lparr>bq_buckets := bs\<rparr>)"
      "range_at n m (q1\<lparr>bq_buckets := bs\<rparr>)" "content_at sc n m 0 bs"
      "mset (concat bs) = mset (concat (bq_buckets q1)) + mset [l \<leftarrow> ls. sc l < bq_maxcost q1]"
      using Cons.IH [of q1] ls by blast
    have upd: "q1\<lparr>bq_buckets := bs\<rparr> = q\<lparr>bq_buckets := bs\<rparr>" by (simp add: q1)
    have "mset (concat (bq_buckets q1)) = add_mset l (mset (concat (bq_buckets q)))"
      using concat_update [of i "bq_buckets q" "bq_buckets q ! i @ [l]"] i(2) len by (simp add: q1)
    then have "mset (concat bs) = mset (concat (bq_buckets q)) + mset [l \<leftarrow> l # ls. sc l < bq_maxcost q]"
      using bs(4) True by (simp add: q1)
    moreover have "move_labels sc (l # ls) q = Inr (q\<lparr>bq_buckets := bs\<rparr>)"
      using True i(1) bs(1) by (simp add: q1_def [symmetric] upd)
    ultimately show ?thesis using bs(2,3) unfolding upd by blast
  next
    case False
    then show ?thesis using Cons.IH [OF r c ls] by simp
  qed
qed

lemma in_place_unique: "in_place sc n m cur i l \<Longrightarrow> in_place sc n m cur j l \<Longrightarrow> i = j"
proof -
  assume i: "in_place sc n m cur i l" and j: "in_place sc n m cur j l"
  have "a \<le> b" if a: "in_place sc n m cur a l" and b: "in_place sc n m cur b l" for a b
  proof (cases "a = cur")
    case True
    then show ?thesis using b by (auto simp: in_place_def)
  next
    case False
    then have "(of_nat (m + a) :: rat) < of_nat (m + b + 1)" using a b by (auto simp: in_place_def)
    then show ?thesis by (simp only: of_nat_less_iff)
  qed
  from this [OF i j] this [OF j i] show "i = j" by simp
qed

lemma all_empty_at_end:
  assumes q: "queue_at sc n m q" and e: "\<forall>i<n + 1. bq_buckets q ! i = []"
  shows "concat (bq_buckets q) = []" and "labels q = mset (bq_overflow q)"
proof -
  have "length (bq_buckets q) = n + 1" using q by (simp add: queue_at_def range_at_def)
  with e show "concat (bq_buckets q) = []" by (auto simp: in_set_conv_nth [of _ "bq_buckets q"])
  then show "labels q = mset (bq_overflow q)" by (simp add: labels_def)
qed

lemma empty_overflow_at:
  assumes q: "queue_at sc n m q" and e: "\<forall>i<n + 1. bq_buckets q ! i = []"
    and ne: "bq_overflow q \<noteq> []" and ok: "\<forall>l\<in>#labels q. cost_ok n (sc l)"
  obtains m' q' where "bq_empty_overflow sc q = Inr q'" and "queue_at sc n m' q'" and "bq_current q' = 0"
    and "labels q' = labels q" and "m + n \<le> m'" and "concat (bq_buckets q') \<noteq> []"
    and "\<forall>x\<in>#labels q. of_nat m' \<le> sc x"
proof -
  have r: "range_at n m q" and over: "\<forall>l\<in>set (bq_overflow q). of_nat (m + n) \<le> sc l"
    using q by (simp_all add: queue_at_def)
  have n: "0 < n" and rm: "bq_range q = of_nat n" "bq_mincost q = of_nat m" "length (bq_buckets q) = n + 1"
    using r by (simp_all add: range_at_def)
  note lab = all_empty_at_end [OF q e]
  obtain l ls where os: "bq_overflow q = l # ls" using ne by (cases "bq_overflow q") auto
  define least where "least = min_element sc l ls"
  have least: "least \<in> set (bq_overflow q)" "\<forall>x\<in>set (bq_overflow q). sc least \<le> sc x"
    using min_element_is_min [of sc l ls] unfolding os least_def by blast+
  have lc: "cost_ok n (sc least)" using ok least(1) by (simp add: lab)
  obtain m' where m': "shifted_mincost (of_nat m) (of_nat n) (sc least) = of_nat m'" "of_nat m' \<le> sc least"
    "sc least < of_nat (m' + n)" "m + n \<le> m'" "m' + n + 1 \<le> 2 ^ 24"
    using shifted_mincost_at [OF n, of m "sc least"] over least(1) lc by (auto simp: cost_ok_def)
  have fm: "f32 (of_nat m') = of_nat m'" "f32 (of_nat (m' + n)) = of_nat (m' + n)"
    "f64 (of_nat (m' + n)) = of_nat (m' + n)"
    using m'(5) by (intro float32.exact_nat float64.exact_nat; simp)+
  define q1 where "q1 = q\<lparr>bq_mincost := of_nat m', bq_maxcost := of_nat (m' + n)\<rparr>"
  have q1: "bq_maxcost q1 = of_nat (m' + n)" "bq_buckets q1 = bq_buckets q" by (simp_all add: q1_def)
  have r1: "range_at n m' q1" using r m'(5) by (simp add: range_at_def q1_def)
  have c1: "content_at sc n m' 0 (bq_buckets q1)"
    using e rm(3) by (intro content_at_empty) (simp add: q1)
  have ge: "\<forall>x\<in>set (l # ls). f32 (sc x) = sc x \<and> of_nat m' \<le> sc x"
    using ok least(2) m'(2) by (fastforce simp: lab os cost_ok_def)
  obtain bs where bs: "move_labels sc (l # ls) q1 = Inr (q1\<lparr>bq_buckets := bs\<rparr>)"
    "range_at n m' (q1\<lparr>bq_buckets := bs\<rparr>)" "content_at sc n m' 0 bs"
    "mset (concat bs) = mset [x \<leftarrow> l # ls. sc x < of_nat (m' + n)]"
    using move_labels_at [OF r1 c1 ge] by (auto simp: q1 lab)
  define rest where "rest = [x \<leftarrow> l # ls. \<not> sc x < of_nat (m' + n)]"
  define q' where "q' = restart (q1\<lparr>bq_buckets := bs, bq_overflow := rest\<rparr>)"
  show ?thesis
  proof (rule that [of q' m'])
    have "bq_empty_overflow sc q = bind_result (move_labels sc (l # ls) q1)
        (\<lambda>q2. Inr (restart (q2\<lparr>bq_overflow := [x \<leftarrow> l # ls. \<not> sc x < bq_maxcost q1]\<rparr>)))"
      using fm(2,3) by (simp add: bq_empty_overflow_def os rm least_def [symmetric] m'(1) Let_def q1_def)
    then show "bq_empty_overflow sc q = Inr q'" by (simp only: bs(1) bind_result_simps q1 q'_def rest_def)
    show "queue_at sc n m' q'"
      using bs(2,3) fm(1) r1 by (simp add: queue_at_def q'_def restart_def rest_def range_at_def)
    show "labels q' = labels q"
    proof -
      have "labels q' = mset (concat bs) + mset rest" by (simp add: labels_def q'_def restart_def)
      also have "\<dots> = mset (l # ls)"
        by (simp only: bs(4) rest_def mset_filter multiset_partition [symmetric])
      finally show ?thesis by (simp only: lab os)
    qed
    have "least \<in># mset (concat bs)" using least(1) m'(3) by (simp only: bs(4)) (auto simp: os)
    then have "concat bs \<noteq> []" by (metis empty_iff set_empty set_mset_mset)
    moreover have "bq_buckets q' = bs" by (simp add: q'_def restart_def)
    ultimately show "concat (bq_buckets q') \<noteq> []" by (simp only: not_False_eq_True)
    show "\<forall>x\<in>#labels q. of_nat m' \<le> sc x" using ge by (simp add: lab os)
  qed (simp_all add: q'_def restart_def m'(4))
qed

section \<open>Taking the cheapest label\<close>

lemma take_back_at:
  assumes q: "queue_at sc n m q" and cur: "bq_current q \<le> n" and ne: "bq_buckets q ! bq_current q \<noteq> []"
  obtains l q' where "take_back q = (l, q')" and "queue_at sc n m q'" and "bq_current q' = bq_current q"
    and "bq_cost q' = bq_cost q" and "labels q = add_mset l (labels q')" and "sc l < of_nat (m + bq_current q + 1)"
proof -
  define b where "b = bq_buckets q ! bq_current q"
  define q' where "q' = q\<lparr>bq_buckets := (bq_buckets q)[bq_current q := butlast b]\<rparr>"
  have len: "length (bq_buckets q) = n + 1" and c: "content_at sc n m (bq_current q) (bq_buckets q)"
    using q by (simp_all add: queue_at_def range_at_def)
  have b: "b = butlast b @ [last b]" using ne by (simp add: b_def)
  have pl: "\<forall>l\<in>set b. in_place sc n m (bq_current q) (bq_current q) l"
    using c cur len by (simp add: content_at_def b_def)
  show ?thesis
  proof (rule that)
    show "take_back q = (last b, q')" by (simp add: take_back_def b_def q'_def Let_def)
    show "queue_at sc n m q'"
      using q pl by (auto simp: queue_at_def q'_def intro!: content_at_update dest: in_set_butlastD)
    have "mset (concat (bq_buckets q')) + mset b = mset (concat (bq_buckets q)) + mset (butlast b)"
      using concat_update [of "bq_current q" "bq_buckets q" "butlast b"] cur len by (simp add: q'_def b_def)
    then have "mset (concat (bq_buckets q)) = add_mset (last b) (mset (concat (bq_buckets q')))"
      by (subst (asm) b) simp
    then show "labels q = add_mset (last b) (labels q')" by (simp add: labels_def q'_def)
    show "sc (last b) < of_nat (m + bq_current q + 1)"
      using pl ne by (simp add: in_place_def b_def)
  qed (simp_all add: q'_def)
qed

lemma place_bound:
  assumes q: "queue_at sc n m q" and c: "\<forall>i<c. bq_buckets q ! i = []" "bq_current q \<le> c" "c \<le> n"
    and x: "x \<in># labels q"
  shows "of_nat (m + c) \<le> max (sc x) (bq_cost q)"
  using x unfolding in_labels
proof (elim disjE exE conjE)
  fix i assume i: "i < length (bq_buckets q)" and xi: "x \<in> set (bq_buckets q ! i)"
  have ci: "c \<le> i" using c(1) xi by (cases "i < c") auto
  have p: "in_place sc n m (bq_current q) i x" using q i xi by (simp add: queue_at_def content_at_def)
  show ?thesis
  proof (cases "i = bq_current q")
    case True
    then show ?thesis using ci c(2) q by (simp add: queue_at_def)
  next
    case False
    then have "of_nat (m + i) \<le> sc x" using p by (simp add: in_place_def)
    moreover have "(of_nat (m + c) :: rat) \<le> of_nat (m + i)" using ci by (simp only: of_nat_le_iff)
    ultimately show ?thesis by simp
  qed
next
  assume "x \<in> set (bq_overflow q)"
  then have "of_nat (m + n) \<le> sc x" using q by (simp add: queue_at_def)
  moreover have "(of_nat (m + c) :: rat) \<le> of_nat (m + n)" using c(3) by (simp only: of_nat_le_iff)
  ultimately show ?thesis by simp
qed

lemma pop_at:
  assumes q: "queue_ok sc n q" and ne: "labels q \<noteq> {#}" and ok: "\<forall>l\<in>#labels q. cost_ok n (sc l)"
  obtains l q' where "bq_pop sc q = Inr (l, q')" and "queue_ok sc n q'" and "labels q = add_mset l (labels q')"
    and "bq_cost q \<le> bq_cost q'" and "sc l < bq_cost q' + 1"
    and "\<forall>x\<in>#labels q. bq_cost q' \<le> max (sc x) (bq_cost q)"
proof -
  obtain m where m: "queue_at sc n m q" and cur: "bq_current q \<le> n" using q by (auto simp: queue_ok_def)
  obtain c where c: "bq_empty q = (c = n + 1, q\<lparr>bq_current := c, bq_cost := of_nat (m + c)\<rparr>)"
    "queue_at sc n m (q\<lparr>bq_current := c, bq_cost := of_nat (m + c)\<rparr>)"
    "bq_current q \<le> c" "c < n + 1 \<longrightarrow> bq_buckets q ! c \<noteq> []" "\<forall>i<c. bq_buckets q ! i = []"
    using empty_at [OF m] by blast
  define q1 where "q1 = q\<lparr>bq_current := c, bq_cost := of_nat (m + c)\<rparr>"
  have q1: "bq_current q1 = c" "bq_buckets q1 = bq_buckets q" "bq_overflow q1 = bq_overflow q"
    "bq_cost q1 = of_nat (m + c)" "labels q1 = labels q" by (simp_all add: q1_def labels_def)
  have m1: "queue_at sc n m q1" using c(2) by (simp only: q1_def)
  have step: "bq_empty q = (c = n + 1, q1)" using c(1) by (simp only: q1_def)
  have cost: "bq_cost q = of_nat (m + bq_current q)" using m by (simp add: queue_at_def)
  show ?thesis
  proof (cases "c = n + 1")
    case False
    then have cn: "c \<le> n" using m1 q1(1) by (simp add: queue_at_def)
    obtain l q' where t: "take_back q1 = (l, q')" "queue_at sc n m q'" "bq_current q' = c"
      "bq_cost q' = of_nat (m + c)" "labels q = add_mset l (labels q')" "sc l < of_nat (m + c + 1)"
      using take_back_at [OF m1] cn c(4) by (auto simp: q1)
    show ?thesis
    proof (rule that)
      show "bq_pop sc q = Inr (l, q')" using False by (simp add: bq_pop_def step t(1))
      show "queue_ok sc n q'" using t cn by (auto simp: queue_ok_def)
      show "bq_cost q \<le> bq_cost q'" using c(3) by (simp add: cost t)
      show "sc l < bq_cost q' + 1" using t(6) by (simp add: t(4))
      show "\<forall>x\<in>#labels q. bq_cost q' \<le> max (sc x) (bq_cost q)"
        unfolding t(4) using place_bound [OF m c(5,3) cn] by blast
    qed (rule t)
  next
    case True
    have e: "\<forall>i<n + 1. bq_buckets q1 ! i = []" using c(5) by (simp add: True q1)
    have over: "bq_overflow q1 \<noteq> []" using ne all_empty_at_end(2) [OF m1 e] by (simp add: q1)
    have ok1: "\<forall>l\<in>#labels q1. cost_ok n (sc l)" using ok by (simp only: q1(5))
    obtain m' q2 where o: "bq_empty_overflow sc q1 = Inr q2" "queue_at sc n m' q2" "bq_current q2 = 0"
      "labels q2 = labels q" "m + n \<le> m'" "concat (bq_buckets q2) \<noteq> []" "\<forall>x\<in>#labels q. of_nat m' \<le> sc x"
      using empty_overflow_at [OF m1 e over ok1] unfolding q1(5) .
    obtain d where d: "bq_empty q2 = (d = n + 1, q2\<lparr>bq_current := d, bq_cost := of_nat (m' + d)\<rparr>)"
      "queue_at sc n m' (q2\<lparr>bq_current := d, bq_cost := of_nat (m' + d)\<rparr>)"
      "bq_current q2 \<le> d" "d < n + 1 \<longrightarrow> bq_buckets q2 ! d \<noteq> []" "\<forall>i<d. bq_buckets q2 ! i = []"
      using empty_at [OF o(2)] by blast
    define q3 where "q3 = q2\<lparr>bq_current := d, bq_cost := of_nat (m' + d)\<rparr>"
    have q3: "bq_current q3 = d" "bq_buckets q3 = bq_buckets q2" "bq_cost q3 = of_nat (m' + d)"
      "labels q3 = labels q" using o(4) by (simp_all add: q3_def labels_def)
    have step2: "bq_empty q2 = (d = n + 1, q3)" using d(1) by (simp only: q3_def)
    have m3: "queue_at sc n m' q3" using d(2) by (simp only: q3_def)
    have "d \<noteq> n + 1" using all_empty_at_end(1) [OF o(2)] d(5) o(6) by auto
    then have dn: "d \<le> n" using m3 q3(1) by (simp add: queue_at_def)
    obtain l q' where t: "take_back q3 = (l, q')" "queue_at sc n m' q'" "bq_current q' = d"
      "bq_cost q' = of_nat (m' + d)" "labels q = add_mset l (labels q')" "sc l < of_nat (m' + d + 1)"
      using take_back_at [OF m3] dn d(4) by (auto simp: q3)
    have c2: "bq_cost q2 = of_nat m'" using o(2,3) by (simp add: queue_at_def)
    show ?thesis
    proof (rule that)
      show "bq_pop sc q = Inr (l, q')"
        using True over \<open>d \<noteq> n + 1\<close> by (simp add: bq_pop_def step o(1) step2 t(1))
      show "queue_ok sc n q'" using t dn by (auto simp: queue_ok_def)
      have "m + bq_current q \<le> m' + d" using o(5) cur by simp
      then have "(of_nat (m + bq_current q) :: rat) \<le> of_nat (m' + d)" by (simp only: of_nat_le_iff)
      then show "bq_cost q \<le> bq_cost q'" by (simp only: cost t(4))
      show "sc l < bq_cost q' + 1" using t(6) by (simp add: t(4))
      show "\<forall>x\<in>#labels q. bq_cost q' \<le> max (sc x) (bq_cost q)"
      proof
        fix x assume x: "x \<in># labels q"
        then have "of_nat (m' + d) \<le> max (sc x) (of_nat m')"
          using place_bound [OF o(2) d(5,3) dn] by (simp add: o(4) c2)
        also have "\<dots> = sc x" using o(7) x by simp
        finally show "bq_cost q' \<le> max (sc x) (bq_cost q)" by (simp add: t(4))
      qed
    qed (rule t)
  qed
qed

text \<open>Without labels \<^verbatim>\<open>pop\<close> answers \<^verbatim>\<open>kInvalidLabel\<close> and steps one past the last bucket's cost.\<close>

lemma pop_exhausted:
  assumes m: "queue_at sc n m q" and e: "labels q = {#}"
  shows "bq_pop sc q = Inr (kInvalidLabel, q\<lparr>bq_current := n, bq_cost := of_nat (m + n + 1)\<rparr>)"
proof -
  obtain c where c: "bq_empty q = (c = n + 1, q\<lparr>bq_current := c, bq_cost := of_nat (m + c)\<rparr>)"
    "queue_at sc n m (q\<lparr>bq_current := c, bq_cost := of_nat (m + c)\<rparr>)"
    "c < n + 1 \<longrightarrow> bq_buckets q ! c \<noteq> []"
    using empty_at [OF m] by blast
  have len: "length (bq_buckets q) = n + 1" using m by (simp add: queue_at_def range_at_def)
  have "bq_buckets q ! i = []" if "i < n + 1" for i
    using e that nth_mem [of i "bq_buckets q"] by (simp add: labels_def len)
  then have "c = n + 1" using c(2,3) by (auto simp: queue_at_def)
  moreover have "bq_overflow q = []" using e by (simp add: labels_def)
  ultimately show ?thesis by (simp add: bq_pop_def c(1) ac_simps)
qed

section \<open>Decreasing a cost\<close>

lemma erase_remove_one:
  assumes "count (mset ls) l = 1"
  obtains ls' where "erase_remove l ls = Inr ls'" and "mset ls = add_mset l (mset ls')" and "l \<notin> set ls'"
    and "set ls' \<subseteq> set ls"
proof -
  have "l \<in># mset ls" using assms by (metis count_eq_zero_iff zero_neq_one)
  then obtain a b where ls: "ls = a @ l # b" by (auto simp: in_set_conv_decomp)
  then have "count (mset a) l = 0" "count (mset b) l = 0" using assms by simp_all
  then have ab: "l \<notin> set a" "l \<notin> set b" by (simp_all only: count_eq_zero_iff set_mset_mset not_False_eq_True)
  then have "filter (\<lambda>x. x \<noteq> l) a = a" "filter (\<lambda>x. x \<noteq> l) b = b" by (auto simp: filter_id_conv)
  then have "erase_remove l ls = Inr (a @ b)" by (simp add: erase_remove_def ls)
  then show ?thesis using ab by (intro that [of "a @ b"]) (auto simp: ls)
qed

text \<open>A label lies in the bucket that its cost names.\<close>

lemma get_bucket_holds:
  assumes q: "queue_at sc n m q" and cur: "bq_current q \<le> n" and c: "cost_ok n (sc l)" and l: "l \<in># labels q"
  obtains p where "bq_get_bucket q (sc l) = Inr p" and "fits sc n m q p l" and "l \<in> set (content_of q p)"
proof -
  obtain p where p: "bq_get_bucket q (sc l) = Inr p" "fits sc n m q p l"
    using get_bucket_at [OF q cur c] .
  have pl: "in_place sc n m (bq_current q) i l" if "i < length (bq_buckets q)" "l \<in> set (bq_buckets q ! i)" for i
    using q that by (simp add: queue_at_def content_at_def)
  have over: "of_nat (m + n) \<le> sc l" if "l \<in> set (bq_overflow q)"
    using q that by (simp add: queue_at_def)
  have "l \<in> set (content_of q p)"
  proof (cases p)
    case (Bucket i)
    then have i: "in_place sc n m (bq_current q) i l" using p(2) by (simp add: fits_def)
    then have "l \<notin> set (bq_overflow q)" using over by (auto simp: in_place_def)
    then obtain j where "j < length (bq_buckets q)" "l \<in> set (bq_buckets q ! j)"
      using l by (auto simp: in_labels)
    with in_place_unique [OF i pl] show ?thesis by (simp add: Bucket content_of_def)
  next
    case Overflow
    then have "of_nat (m + n) \<le> sc l" using p(2) by (simp add: fits_def)
    then have "l \<notin> set (bq_buckets q ! j)" if "j < length (bq_buckets q)" for j
      using pl [OF that] by (auto simp: in_place_def)
    then show ?thesis using l by (auto simp: in_labels Overflow content_of_def)
  qed
  with p show ?thesis by (intro that [of p])
qed

lemma in_place_new_cost:
  "x \<noteq> l \<Longrightarrow> in_place (sc(l := c)) n m cur i x = in_place sc n m cur i x"
  by (simp add: in_place_def)

lemma queue_at_new_cost:
  assumes "queue_at sc n m q" and "l \<notin># labels q"
  shows "queue_at (sc(l := c)) n m q"
  using assms by (auto simp: queue_at_def content_at_def in_place_def in_labels)

lemma labels_set_content:
  assumes "fits sc n m q p l"
  shows "labels (set_content p ls q) + mset (content_of q p) = labels q + mset ls"
  using assms concat_update [of _ "bq_buckets q" ls]
  by (cases p) (auto simp: fits_def labels_def set_content_def content_of_def)

text \<open>Removing the label and putting it into the new bucket commute when the buckets differ.\<close>

lemma set_content_push:
  assumes "p \<noteq> r"
  shows "content_of (bq_push r l q) p = content_of q p"
    and "set_content p ls (bq_push r l q) = bq_push r l (set_content p ls q)"
  using assms
  by (cases p; cases r; simp add: content_of_def set_content_def bq_push_def list_update_swap)+

lemma set_content_at:
  assumes q: "queue_at sc n m q" and f: "fits sc n m q p l" and s: "set ls \<subseteq> set (content_of q p)"
  shows "queue_at sc n m (set_content p ls q)"
proof (cases p)
  case (Bucket i)
  then have "i < length (bq_buckets q)" using f by (simp add: fits_def)
  then have "\<forall>x\<in>set ls. in_place sc n m (bq_current q) i x"
    using q s by (auto simp: queue_at_def content_at_def content_of_def Bucket)
  then show ?thesis
    using q by (auto simp: queue_at_def set_content_def Bucket intro: content_at_update)
next
  case Overflow
  then show ?thesis using q s by (auto simp: queue_at_def set_content_def content_of_def range_at_def)
qed

lemma fits_set_content: "fits sc n m (set_content p ls q) r l = fits sc n m q r l"
  by (cases p; cases r; simp add: fits_def set_content_def)

lemma decrease_at:
  assumes q: "queue_at sc n m q" and cur: "bq_current q \<le> n" and ok: "cost_ok n (sc l)" "cost_ok n c"
    and one: "count (labels q) l = 1"
  obtains q' where "bq_decrease sc l c q = Inr q'" and "queue_at (sc(l := c)) n m q'" and "labels q' = labels q"
    and "bq_current q' = bq_current q" and "bq_cost q' = bq_cost q"
proof -
  have l: "l \<in># labels q" using one by (metis count_eq_zero_iff zero_neq_one)
  obtain p where p: "bq_get_bucket q (sc l) = Inr p" "fits sc n m q p l" "l \<in> set (content_of q p)"
    using get_bucket_holds [OF q cur ok(1) l] .
  have le: "count (mset (content_of q p)) l \<le> 1"
    using labels_set_content [OF p(2), of "[]"] one
    by (metis add.right_neutral count_union le_add2 mset.simps(1))
  moreover have "0 < count (mset (content_of q p)) l" using p(3) by simp
  ultimately have "count (mset (content_of q p)) l = 1" by linarith
  from erase_remove_one [OF this] obtain ls where ls: "erase_remove l (content_of q p) = Inr ls"
    "mset (content_of q p) = add_mset l (mset ls)" "l \<notin> set ls" "set ls \<subseteq> set (content_of q p)" .
  define q0 where "q0 = set_content p ls q"
  have lab: "labels q = add_mset l (labels q0)"
    using labels_set_content [OF p(2), of ls] by (simp add: q0_def ls(2))
  then have no: "l \<notin># labels q0" using one by (simp add: count_eq_zero_iff)
  have q0: "queue_at (sc(l := c)) n m q0"
    using set_content_at [OF q p(2) ls(4)] no by (simp add: q0_def queue_at_new_cost)
  have cur0: "bq_current q0 = bq_current q" "bq_cost q0 = bq_cost q"
    by (cases p; simp add: q0_def set_content_def)+
  obtain r where r: "bq_get_bucket q0 c = Inr r" "fits (sc(l := c)) n m q0 r l"
    using get_bucket_at [OF q0, of l] cur cur0 ok(2) by auto
  have gr: "bq_get_bucket q c = Inr r"
  proof -
    have "bq_get_bucket q0 c = bq_get_bucket q c"
      by (cases p) (simp_all add: q0_def set_content_def bq_get_bucket_def bucket_index_def)
    then show ?thesis using r(1) by simp
  qed
  have fin: "queue_at (sc(l := c)) n m (bq_push r l q0)" "labels (bq_push r l q0) = labels q"
    "bq_current (bq_push r l q0) = bq_current q" "bq_cost (bq_push r l q0) = bq_cost q"
    using push_at [OF q0 r(2)] lab cur0 by simp_all
  show ?thesis
  proof (cases "p = r")
    case True
    have "queue_at (sc(l := c)) n m q"
    proof -
      have fit: "case p of Bucket i \<Rightarrow> in_place (sc(l := c)) n m (bq_current q) i l
          | Overflow \<Rightarrow> of_nat (m + n) \<le> (sc(l := c)) l"
        using r(2) cur0 by (simp add: True fits_def split: place.splits)
      have other: "in_place sc n m (bq_current q) i l \<Longrightarrow> p = Bucket i" for i
        using p(2) q in_place_unique by (cases p) (auto simp: fits_def in_place_def dest: in_place_unique)
      have over: "of_nat (m + n) \<le> sc l \<Longrightarrow> p = Overflow"
        using p(2) by (cases p) (auto simp: fits_def in_place_def)
      show ?thesis
        unfolding queue_at_def content_at_def
      proof (intro conjI allI impI ballI)
        fix i x assume i: "i < length (bq_buckets q)" and x: "x \<in> set (bq_buckets q ! i)"
        then have "in_place sc n m (bq_current q) i x" using q by (simp add: queue_at_def content_at_def)
        then show "in_place (sc(l := c)) n m (bq_current q) i x"
          using fit other [of i] by (cases "x = l") (auto simp: in_place_new_cost)
      next
        fix x assume "x \<in> set (bq_overflow q)"
        then have "of_nat (m + n) \<le> sc x" using q by (simp add: queue_at_def)
        then show "of_nat (m + n) \<le> (sc(l := c)) x" using fit over by (cases "x = l") auto
      qed (use q in \<open>simp_all add: queue_at_def\<close>)
    qed
    moreover have "bq_decrease sc l c q = Inr q" by (simp add: bq_decrease_def p(1) gr True)
    ultimately show ?thesis by (intro that [of q]) simp_all
  next
    case False
    have "l \<notin> set (content_of q r)"
    proof -
      have "content_of q0 r = content_of q r"
        using False by (cases p; cases r; simp add: q0_def content_of_def set_content_def)
      moreover have "l \<notin> set (content_of q0 r)"
        using no r(2) by (cases r) (auto simp: in_labels content_of_def fits_def)
      ultimately show ?thesis by simp
    qed
    then have "content_of q p \<noteq> content_of q r" using p(3) by auto
    then have "bq_decrease sc l c q = Inr (bq_push r l q0)"
      using False by (simp add: bq_decrease_def p(1) gr set_content_push ls(1) Let_def q0_def)
    then show ?thesis using fin by (intro that [of "bq_push r l q0"])
  qed
qed

section \<open>Starting and clearing\<close>

lemma fresh_at:
  assumes r: "range_at n m q" and e: "concat (bq_buckets q) = []" "bq_overflow q = []"
    and c: "bq_cost q = of_nat m" "bq_current q = 0"
  shows "queue_at sc n m q" and "labels q = {#}"
proof -
  have "\<forall>i<length (bq_buckets q). bq_buckets q ! i = []" using e(1) nth_mem by auto
  then show "queue_at sc n m q" using r e(2) c by (simp add: queue_at_def content_at_empty)
  show "labels q = {#}" by (simp add: labels_def e)
qed

lemma reuse_at:
  assumes n: "0 < n" and c: "0 \<le> mincost" "nat \<lfloor>mincost\<rfloor> + n + 1 \<le> 2 ^ 24"
    and e: "concat (bq_buckets q) = []" "bq_overflow q = []"
  obtains q' where "bq_reuse mincost (of_nat n) 1 q = Inr q'" and "queue_at sc n (nat \<lfloor>mincost\<rfloor>) q'"
    and "bq_current q' = 0" and "labels q' = {#}"
proof -
  define m where "m = nat \<lfloor>mincost\<rfloor>"
  have m: "\<lfloor>mincost\<rfloor> = int m" using c(1) by (simp add: m_def)
  have mn: "m + n + 1 \<le> 2 ^ 24" using c(2) by (simp add: m_def)
  have m32: "int m < 2 ^ 32" using mn by simp
  have u: "to_u32 mincost = Inr (word_of_nat m)"
    using c(1) m m32 by (simp add: to_u32_def c_trunc_def Let_def)
  have um: "unat (word_of_nat m :: u32) = m" using m32 by (intro word_of_nat_div) simp
  have ur: "unsigned (word_of_nat m :: u32) = (of_nat m :: rat)"
    using of_nat_unat [of "word_of_nat m :: u32", where ?'a = rat] by (simp only: um)
  have f: "f32 (of_nat j) = of_nat j" "f64 (of_nat j) = of_nat j" if "j \<le> m + n + 1" for j
    using mn that by (intro float32.exact_nat float64.exact_nat; simp)+
  have fm: "f32 (of_nat m) = of_nat m" "f32 (of_nat n) = of_nat n" "f32 (of_nat n + 1) = of_nat n + 1"
    "f64 (of_nat m + of_nat n) = of_nat m + of_nat n" "f32 (of_nat m + of_nat n) = of_nat m + of_nat n"
    using f [of m] f [of n] f [of "n + 1"] f [of "m + n"] by (simp_all add: ac_simps)
  define bs where "bs = resize_buckets (n + 1) (bq_buckets q)"
  have count: "nat (c_trunc (of_nat n + 1)) = n + 1"
    using c_trunc_of_int [of "int (n + 1)"] by (simp add: ac_simps)
  define q' where "q' = q\<lparr>bq_cost := of_nat m, bq_mincost := of_nat m, bq_range := of_nat n, bq_size := 1,
     bq_inv := 1, bq_maxcost := of_nat (m + n), bq_buckets := bs, bq_current := 0\<rparr>"
  have q': "bq_reuse mincost (of_nat n) 1 q = Inr q'"
    using n by (simp add: bq_reuse_def u ur fm count q'_def bs_def Let_def)
  have bs: "length bs = n + 1" "concat bs = []"
    using e(1) by (auto simp: bs_def resize_buckets_def dest: in_set_takeD)
  have r: "range_at n m q'" using n mn bs(1) by (simp add: range_at_def q'_def)
  have "concat (bq_buckets q') = []" "bq_overflow q' = []" "bq_cost q' = of_nat m" "bq_current q' = 0"
    using bs(2) e(2) by (simp_all add: q'_def)
  from fresh_at [OF r this] q' show ?thesis
    by (intro that [of q']) (simp_all add: m_def [symmetric] q'_def)
qed

lemma clear_at:
  assumes r: "range_at n m q" and e: "\<forall>i<bq_current q. bq_buckets q ! i = []"
  shows "queue_at sc n m (bq_clear q)" and "labels (bq_clear q) = {#}" and "bq_current (bq_clear q) = 0"
proof -
  have "b = []" if "b \<in> set (take (bq_current q) (bq_buckets q))" for b
    using that e by (auto simp: in_set_conv_nth)
  then have "concat (bq_buckets (bq_clear q)) = []" by (auto simp: bq_clear_def)
  moreover have "range_at n m (bq_clear q)" using r by (simp add: range_at_def bq_clear_def)
  moreover have "f32 (of_nat m) = of_nat m" using r by (intro float32.exact_nat) (simp add: range_at_def)
  then have "bq_cost (bq_clear q) = of_nat m" using r by (simp add: range_at_def bq_clear_def)
  ultimately show "queue_at sc n m (bq_clear q)" "labels (bq_clear q) = {#}" "bq_current (bq_clear q) = 0"
    using fresh_at [of n m "bq_clear q"] by (simp_all add: bq_clear_def)
qed

section \<open>The interface of the path algorithms\<close>

text \<open>
  What a search relies on: \<^verbatim>\<open>add\<close> and \<^verbatim>\<open>pop\<close> act on a multiset of labels, and the level (the
  cost of the current bucket) only grows and stays within one bucket of the cheapest label.
\<close>

locale cost_queue =
  fixes insert_label :: "'l \<Rightarrow> 'q \<Rightarrow> 'e + 'q" and pop :: "'q \<Rightarrow> 'e + ('l \<times> 'q)"
    and content :: "'q \<Rightarrow> 'l multiset" and inv :: "'q \<Rightarrow> bool" and level :: "'q \<Rightarrow> rat"
    and key :: "'l \<Rightarrow> rat" and ok :: "'l \<Rightarrow> bool"
  assumes insert_law: "inv q \<Longrightarrow> ok l \<Longrightarrow> \<exists>q'. insert_label l q = Inr q' \<and> inv q'
      \<and> content q' = add_mset l (content q) \<and> level q' = level q"
    and pop_law: "inv q \<Longrightarrow> content q \<noteq> {#} \<Longrightarrow> \<forall>l\<in>#content q. ok l \<Longrightarrow>
      \<exists>l q'. pop q = Inr (l, q') \<and> inv q' \<and> content q = add_mset l (content q') \<and> level q \<le> level q'
        \<and> key l < level q' + 1 \<and> (\<forall>x\<in>#content q. level q' \<le> max (key x) (level q))"

fun fill :: "('l \<Rightarrow> 'q \<Rightarrow> 'e + 'q) \<Rightarrow> 'l list \<Rightarrow> 'q \<Rightarrow> 'e + 'q" where
  "fill add [] q = Inr q"
| "fill add (l # ls) q = (case add l q of Inl e \<Rightarrow> Inl e | Inr q' \<Rightarrow> fill add ls q')"

fun drain :: "('q \<Rightarrow> 'e + ('l \<times> 'q)) \<Rightarrow> nat \<Rightarrow> 'q \<Rightarrow> 'e + ('l list \<times> 'q)" where
  "drain pop 0 q = Inr ([], q)"
| "drain pop (Suc k) q = (case pop q of Inl e \<Rightarrow> Inl e | Inr (l, q') \<Rightarrow>
     (case drain pop k q' of Inl e \<Rightarrow> Inl e | Inr (ls, q2) \<Rightarrow> Inr (l # ls, q2)))"

context cost_queue begin

lemma fill_correct:
  "inv q \<Longrightarrow> \<forall>l\<in>set ls. ok l \<Longrightarrow> \<exists>q'. fill insert_label ls q = Inr q' \<and> inv q'
     \<and> content q' = content q + mset ls \<and> level q' = level q"
proof (induction ls arbitrary: q)
  case (Cons l ls)
  obtain q1 where q1: "insert_label l q = Inr q1" "inv q1" "content q1 = add_mset l (content q)" "level q1 = level q"
    using insert_law [OF Cons.prems(1), of l] Cons.prems(2) by auto
  with Cons.IH [OF q1(2)] Cons.prems(2) show ?case by auto
qed simp

lemma drain_sorted:
  "inv q \<Longrightarrow> \<forall>l\<in>#content q. ok l \<and> level q \<le> key l \<Longrightarrow> size (content q) = k \<Longrightarrow>
   \<exists>ls q'. drain pop k q = Inr (ls, q') \<and> inv q' \<and> content q' = {#} \<and> mset ls = content q
     \<and> sorted_wrt (\<lambda>a b. key a < key b + 1) ls"
proof (induction k arbitrary: q)
  case 0
  then show ?case by simp
next
  case (Suc k)
  then have ne: "content q \<noteq> {#}" by auto
  obtain l q1 where q1: "pop q = Inr (l, q1)" "inv q1" "content q = add_mset l (content q1)"
    "level q \<le> level q1" "key l < level q1 + 1" "\<forall>x\<in>#content q. level q1 \<le> max (key x) (level q)"
    using pop_law [OF Suc.prems(1) ne] Suc.prems(2) by blast
  have above: "\<forall>x\<in>#content q. level q1 \<le> key x"
    using q1(6) Suc.prems(2) by (metis max_absorb1)
  then have "\<forall>x\<in>#content q1. ok x \<and> level q1 \<le> key x" using Suc.prems(2) by (simp add: q1(3))
  moreover have "size (content q1) = k" using Suc.prems(3) by (simp add: q1(3))
  ultimately obtain ls q2 where q2: "drain pop k q1 = Inr (ls, q2)" "inv q2" "content q2 = {#}"
    "mset ls = content q1" "sorted_wrt (\<lambda>a b. key a < key b + 1) ls"
    using Suc.IH [OF q1(2)] by blast
  have "key l < key x + 1" if "x \<in> set ls" for x
  proof -
    have "x \<in># content q" using that q2(4) by (simp add: q1(3) flip: set_mset_mset)
    then show ?thesis using above q1(5) by force
  qed
  then show ?case using q1(1,3) q2 by simp
qed

end

interpretation queue: cost_queue "bq_add sc" "bq_pop sc" labels "queue_ok sc n" bq_cost sc "\<lambda>l. cost_ok n (sc l)"
  for sc n
proof unfold_locales
  fix q l
  assume "queue_ok sc n q" and "cost_ok n (sc l)"
  then show "\<exists>q'. bq_add sc l q = Inr q' \<and> queue_ok sc n q' \<and> labels q' = add_mset l (labels q)
      \<and> bq_cost q' = bq_cost q"
    using add_at by blast
next
  fix q
  assume "queue_ok sc n q" and "labels q \<noteq> {#}" and "\<forall>l\<in>#labels q. cost_ok n (sc l)"
  then show "\<exists>l q'. bq_pop sc q = Inr (l, q') \<and> queue_ok sc n q' \<and> labels q = add_mset l (labels q')
      \<and> bq_cost q \<le> bq_cost q' \<and> sc l < bq_cost q' + 1 \<and> (\<forall>x\<in>#labels q. bq_cost q' \<le> max (sc x) (bq_cost q))"
    using pop_at by blast
qed

section \<open>Properties\<close>

text \<open>
  C19: The queue sorts. A queue built for the range of \<open>n\<close> costs from \<open>mincost\<close> on takes any
  labels with costs of at least \<open>mincost\<close> (exact \<^verbatim>\<open>float\<close>s that leave room for the range
  below \<open>2 ^ 24\<close>) and pops each of them exactly once, ordered by cost up to the bucket size of 1:
  no label is popped before one that is cheaper by one or more. This holds across any
  number of moves from the overflow bucket and with every rounding included.
\<close>

theorem bucket_queue_sorts:
  assumes "0 < n" and "0 \<le> mincost" and "nat \<lfloor>mincost\<rfloor> + n + 1 \<le> 2 ^ 24"
    and ls: "\<forall>l\<in>set ls. cost_ok n (sc l) \<and> mincost \<le> sc l"
  shows "\<exists>q q1 out q2. new_queue mincost (of_nat n) 1 = Inr q \<and> fill (bq_add sc) ls q = Inr q1
    \<and> drain (bq_pop sc) (length ls) q1 = Inr (out, q2)
    \<and> mset out = mset ls \<and> sorted_wrt (\<lambda>a b. sc a < sc b + 1) out \<and> labels q2 = {#}"
proof -
  have raw: "concat (bq_buckets raw_queue) = []" "bq_overflow raw_queue = []" by (simp_all add: raw_queue_def)
  obtain q where q: "new_queue mincost (of_nat n) 1 = Inr q" "queue_at sc n (nat \<lfloor>mincost\<rfloor>) q"
    "bq_current q = 0" "labels q = {#}"
    using reuse_at [OF assms(1-3) raw] unfolding new_queue_def by blast
  then have ok: "queue_ok sc n q" by (auto simp: queue_ok_def)
  have cost: "bq_cost q \<le> mincost"
    using q(2,3) assms(2) of_int_floor_le [of mincost] by (simp add: queue_at_def)
  obtain q1 where q1: "fill (bq_add sc) ls q = Inr q1" "queue_ok sc n q1" "labels q1 = mset ls" "bq_cost q1 = bq_cost q"
    using queue.fill_correct [OF ok, where ls = ls] ls q(4) by auto
  have "\<forall>l\<in>#labels q1. cost_ok n (sc l) \<and> bq_cost q1 \<le> sc l" using ls cost by (fastforce simp: q1)
  from queue.drain_sorted [OF q1(2) this, where k = "length ls"] q(1) q1 show ?thesis by auto
qed

text \<open>
  Taking the cheapest label. In every reachable state with labels left \<^verbatim>\<open>pop\<close> returns one
  of them, removes only it and keeps the invariant. The current cost never falls. The label
  costs less than one more than every label of the queue, where labels added below the
  current cost count as having the current cost.
\<close>

theorem pop_correct:
  assumes "queue_ok sc n q" and "labels q \<noteq> {#}" and "\<forall>l\<in>#labels q. cost_ok n (sc l)"
  shows "\<exists>l q'. bq_pop sc q = Inr (l, q') \<and> queue_ok sc n q' \<and> labels q = add_mset l (labels q')
    \<and> bq_cost q \<le> bq_cost q' \<and> (\<forall>x\<in>#labels q. sc l < max (sc x) (bq_cost q) + 1)"
  using queue.pop_law [OF assms] by force

text \<open>
  C22: Lowering a cost. For a label that is in the queue once, \<^verbatim>\<open>decrease\<close> (called before the
  caller updates the label) keeps the labels and leaves a queue that is correct for the new
  cost, whichever of the bucket, the current bucket and the overflow bucket the old and the new
  cost belong to; comparing the buckets by their contents does no harm.
\<close>

theorem decrease_correct:
  assumes q: "queue_ok sc n q" and ok: "cost_ok n (sc l)" "cost_ok n c" and one: "count (labels q) l = 1"
  shows "\<exists>q'. bq_decrease sc l c q = Inr q' \<and> queue_ok (sc(l := c)) n q' \<and> labels q' = labels q
    \<and> bq_cost q' = bq_cost q"
proof -
  obtain m where m: "queue_at sc n m q" and cur: "bq_current q \<le> n" using q by (auto simp: queue_ok_def)
  from decrease_at [OF m cur ok one] obtain q' where "bq_decrease sc l c q = Inr q'"
    "queue_at (sc(l := c)) n m q'" "labels q' = labels q" "bq_current q' = bq_current q" "bq_cost q' = bq_cost q" .
  then show ?thesis using cur by (auto simp: queue_ok_def)
qed

text \<open>
  An exhausted queue forgets the order. When \<^verbatim>\<open>pop\<close> finds no label it answers
  \<^verbatim>\<open>kInvalidLabel\<close> and leaves the queue at its last bucket with a current cost beyond the range,
  so all labels added afterwards that cost less than the range share that bucket: of two
  such labels the one added last is returned, whatever they cost. (\<^verbatim>\<open>clear\<close> makes the
  queue usable again.)
\<close>

theorem exhausted_order_lost:
  assumes q: "queue_ok sc n q" "labels q = {#}" and ab: "sc a < bq_maxcost q" "sc b < bq_maxcost q"
  shows "\<exists>q1 q2 q3 q4. bq_pop sc q = Inr (kInvalidLabel, q1) \<and> bq_add sc a q1 = Inr q2
    \<and> bq_add sc b q2 = Inr q3 \<and> bq_pop sc q3 = Inr (b, q4)
    \<and> queue_ok sc n (bq_clear q1) \<and> labels (bq_clear q1) = {#}"
proof -
  obtain m where m: "queue_at sc n m q" using q(1) by (auto simp: queue_ok_def)
  have r: "range_at n m q" using m by (simp add: queue_at_def)
  have len: "length (bq_buckets q) = n + 1" and mx: "bq_maxcost q = of_nat (m + n)"
    using r by (simp_all add: range_at_def)
  define q1 where "q1 = q\<lparr>bq_current := n, bq_cost := of_nat (m + n + 1)\<rparr>"
  have pop: "bq_pop sc q = Inr (kInvalidLabel, q1)" using pop_exhausted [OF m q(2)] by (simp only: q1_def)
  have e: "bq_buckets q ! i = []" if "i < n + 1" for i
    using q(2) that nth_mem [of i "bq_buckets q"] by (simp add: labels_def len)
  define q2 where "q2 = q1\<lparr>bq_buckets := (bq_buckets q)[n := [a]]\<rparr>"
  define q3 where "q3 = q1\<lparr>bq_buckets := (bq_buckets q)[n := [a, b]]\<rparr>"
  have "bq_add sc a q1 = Inr q2"
    using ab e [of n] by (simp add: bq_add_def bq_get_bucket_def q1_def q2_def bq_push_def set_content_def
        content_of_def mx len)
  moreover have "bq_add sc b q2 = Inr q3"
    using ab by (simp add: bq_add_def bq_get_bucket_def q1_def q2_def q3_def bq_push_def set_content_def
        content_of_def mx len)
  moreover have "bq_empty q3 = (False, q3)"
    by (subst bq_empty.simps) (simp add: q3_def q1_def len)
  then have "bq_pop sc q3 = Inr (take_back q3)" by (simp add: bq_pop_def)
  moreover have "fst (take_back q3) = b" by (simp add: take_back_def q3_def q1_def len Let_def)
  moreover have "range_at n m q1" using r by (simp add: q1_def)
  then have "queue_at sc n m (bq_clear q1)" "labels (bq_clear q1) = {#}" "bq_current (bq_clear q1) = 0"
    using clear_at(1) [of n m q1 sc] clear_at(2,3) [of n m q1] e by (simp_all add: q1_def)
  ultimately show ?thesis using pop by (cases "take_back q3") (auto simp: queue_ok_def)
qed

section \<open>Witnesses\<close>

definition demo_cost :: "u32 \<Rightarrow> rat" where
  "demo_cost l = (if l = 7 then 5 / 2 else if l = 8 then 1 / 2 else 9)"

definition demo_queue :: bucket_queue where
  "demo_queue = \<lparr>bq_range = 4, bq_size = 1, bq_inv = 1, bq_mincost = 0, bq_maxcost = 4, bq_cost = 0,
     bq_buckets = [[8], [], [7], [], []], bq_current = 0, bq_overflow = [9]\<rparr>"

definition demo_empty :: bucket_queue where
  "demo_empty = demo_queue\<lparr>bq_buckets := [[], [], [], [], []], bq_overflow := []\<rparr>"

lemma demo_cost_values: "demo_cost 7 = 5 / 2" "demo_cost 8 = 1 / 2" "demo_cost 9 = 9"
  by (simp_all add: demo_cost_def)

lemma demo_cost_ok: "cost_ok 4 (demo_cost 7)" "cost_ok 4 (demo_cost 8)" "cost_ok 4 (demo_cost 9)" "cost_ok 4 (3 / 2)"
  unfolding demo_cost_values cost_ok_def by (simp_all add: float_eval)

lemma all_less_5: "(\<forall>i<Suc (Suc (Suc (Suc (Suc 0)))). P i) \<longleftrightarrow> P 0 \<and> P 1 \<and> P 2 \<and> P 3 \<and> P (4::nat)"
  by (auto simp: less_Suc_eq eval_nat_numeral)

lemma demo_queue_ok: "queue_ok demo_cost 4 demo_queue"
  unfolding queue_ok_def
  by (intro conjI exI [of _ 0])
    (simp_all add: queue_at_def range_at_def content_at_def in_place_def demo_queue_def demo_cost_def all_less_5)

lemma demo_empty_ok: "queue_ok demo_cost 4 demo_empty"
  unfolding queue_ok_def
  by (intro conjI exI [of _ 0])
    (simp_all add: queue_at_def range_at_def content_at_def demo_empty_def demo_queue_def all_less_5)

lemma demo_labels: "labels demo_queue = {#7, 8, 9#}" "labels demo_empty = {#}"
  by (simp_all add: labels_def demo_queue_def demo_empty_def)

theorem bucket_queue_sorts_witness:
  "\<exists>q q1 out q2. new_queue 0 (of_nat 4) 1 = Inr q \<and> fill (bq_add demo_cost) [9, 7, 8] q = Inr q1
    \<and> drain (bq_pop demo_cost) (length [9, 7, 8 :: u32]) q1 = Inr (out, q2)
    \<and> mset out = mset [9, 7, 8] \<and> sorted_wrt (\<lambda>a b. demo_cost a < demo_cost b + 1) out \<and> labels q2 = {#}"
proof (rule bucket_queue_sorts)
  show "\<forall>l\<in>set [9, 7, 8]. cost_ok 4 (demo_cost l) \<and> 0 \<le> demo_cost l"
    using demo_cost_ok by (simp add: demo_cost_values)
qed simp_all

theorem pop_correct_witness:
  "\<exists>l q'. bq_pop demo_cost demo_queue = Inr (l, q') \<and> queue_ok demo_cost 4 q' \<and> {#7, 8, 9#} = add_mset l (labels q')"
  using pop_correct [OF demo_queue_ok] demo_cost_ok unfolding demo_labels by auto

theorem decrease_correct_witness:
  "\<exists>q'. bq_decrease demo_cost 9 (3 / 2) demo_queue = Inr q' \<and> queue_ok (demo_cost(9 := 3 / 2)) 4 q'
    \<and> labels q' = {#7, 8, 9#} \<and> bq_cost q' = bq_cost demo_queue"
  using decrease_correct [OF demo_queue_ok demo_cost_ok(3,4)] unfolding demo_labels by simp

theorem exhausted_order_lost_witness:
  "\<exists>q1 q2 q3 q4. bq_pop demo_cost demo_empty = Inr (kInvalidLabel, q1) \<and> bq_add demo_cost 8 q1 = Inr q2
    \<and> bq_add demo_cost 7 q2 = Inr q3 \<and> bq_pop demo_cost q3 = Inr (7, q4)
    \<and> queue_ok demo_cost 4 (bq_clear q1) \<and> labels (bq_clear q1) = {#}"
  by (rule exhausted_order_lost [OF demo_empty_ok demo_labels(2)])
    (simp_all add: demo_cost_values demo_empty_def demo_queue_def)

end
