(* ===== verification/Edge_Status.thy ===== *)
theory Edge_Status
  imports Graph_Id
begin

text \<open>
  \<^verbatim>\<open>EdgeStatus\<close> (\<^verbatim>\<open>valhalla/thor/edgestatus.h\<close>): for every directed edge and path, the set an
  edge label belongs to during a search and the index of the label. The status lives in one
  array per tile and path, allocated with the number of directed edges of the tile when the
  first edge of the tile is reached. The tile is an argument as the number of its
  directed edges. The section on refinement shows that this store of packed arrays is a
  plain map from edges and paths to statuses.
\<close>

section \<open>Data\<close>

datatype edge_set = Unreached_or_reset | Permanent | Temporary | Skipped

fun edge_set_num :: "edge_set \<Rightarrow> u32" where
  "edge_set_num Unreached_or_reset = 0"
| "edge_set_num Permanent = 1"
| "edge_set_num Temporary = 2"
| "edge_set_num Skipped = 3"

text \<open>The two bit fields, of 28 and of 4 bits.\<close>

record edge_status_info =
  info_index :: u32
  info_set :: u32

definition default_info :: edge_status_info where
  "default_info = \<lparr>info_index = 0, info_set = 0\<rparr>"

definition make_info :: "edge_set \<Rightarrow> u32 \<Rightarrow> edge_status_info" where
  "make_info s index = \<lparr>info_index = take_bit 28 index, info_set = take_bit 4 (edge_set_num s)\<rparr>"

definition status_set :: "edge_status_info \<Rightarrow> edge_set result" where
  "status_set i =
     (if info_set i = 0 then Inr Unreached_or_reset else if info_set i = 1 then Inr Permanent
      else if info_set i = 2 then Inr Temporary else if info_set i = 3 then Inr Skipped else Inl Undefined)"

text \<open>\<^verbatim>\<open>edgestatus_\<close>: the arrays, by the tile and the path.\<close>

type_synonym edge_status = "u32 \<rightharpoonup> edge_status_info list"

definition shift_path_id :: "u8 \<Rightarrow> u32" where
  "shift_path_id path_id = push_bit 25 (ucast path_id)"

definition status_key :: "graph_id \<Rightarrow> u8 \<Rightarrow> u32" where
  "status_key edgeid path_id = tile_value edgeid OR shift_path_id path_id"

definition kMaxMultiPathId :: u8 where
  "kMaxMultiPathId = 127"

section \<open>Operations\<close>

text \<open>Writing and reading an element of an array; past its end is undefined.\<close>

definition put_element :: "u32 \<Rightarrow> nat \<Rightarrow> edge_status_info \<Rightarrow> edge_status_info list \<Rightarrow> edge_status \<Rightarrow> edge_status result" where
  "put_element key i info arr st = (if i < length arr then Inr (st(key \<mapsto> arr[i := info])) else Inl Undefined)"

definition get_element :: "nat \<Rightarrow> edge_status_info list \<Rightarrow> edge_status_info result" where
  "get_element i arr = (if i < length arr then Inr (arr ! i) else Inl Undefined)"

definition es_clear :: "edge_status \<Rightarrow> edge_status" where
  "es_clear st = Map.empty"

definition es_Set :: "graph_id \<Rightarrow> edge_set \<Rightarrow> u32 \<Rightarrow> nat \<Rightarrow> u8 \<Rightarrow> edge_status \<Rightarrow> edge_status result" where
  "es_Set edgeid s index edgecount path_id st =
     (let key = status_key edgeid path_id; i = unat (gid_id edgeid)
      in case st key of
           Some arr \<Rightarrow> put_element key i (make_info s index) arr st
         | None \<Rightarrow>
             let fresh = replicate edgecount default_info
             in put_element key i (make_info s index) fresh (st(key \<mapsto> fresh)))"

definition es_Update :: "graph_id \<Rightarrow> edge_set \<Rightarrow> u8 \<Rightarrow> edge_status \<Rightarrow> edge_status result" where
  "es_Update edgeid s path_id st =
     (let key = status_key edgeid path_id; i = unat (gid_id edgeid)
      in case st key of
           Some arr \<Rightarrow> bind_result (get_element i arr) (\<lambda>info.
             put_element key i (info\<lparr>info_set := take_bit 4 (edge_set_num s)\<rparr>) arr st)
         | None \<Rightarrow> Inl (Runtime_error ''EdgeStatus Update on edge not previously set''))"

definition es_Get :: "graph_id \<Rightarrow> u8 \<Rightarrow> edge_status \<Rightarrow> edge_status_info result" where
  "es_Get edgeid path_id st =
     (case st (status_key edgeid path_id) of
        None \<Rightarrow> Inr default_info
      | Some arr \<Rightarrow> get_element (unat (gid_id edgeid)) arr)"

text \<open>A pointer into an array: its key and the position. \<open>es_deref\<close> reads through it.\<close>

definition es_GetPtr :: "graph_id \<Rightarrow> nat \<Rightarrow> u8 \<Rightarrow> edge_status \<Rightarrow> (u32 \<times> nat) \<times> edge_status" where
  "es_GetPtr edgeid edgecount path_id st =
     (let key = status_key edgeid path_id; i = unat (gid_id edgeid)
      in case st key of
           Some arr \<Rightarrow> ((key, i), st)
         | None \<Rightarrow> ((key, i), st(key \<mapsto> replicate edgecount default_info)))"

definition es_deref :: "u32 \<times> nat \<Rightarrow> edge_status \<Rightarrow> edge_status_info result" where
  "es_deref p st = (case st (fst p) of None \<Rightarrow> Inl Undefined | Some arr \<Rightarrow> get_element (snd p) arr)"

section \<open>Keys\<close>

lemma tile_value_less: "unat (tile_value e) < 2 ^ 25"
proof -
  have "unat (tile_value e) = unat (gid_value e) mod 2 ^ 25"
    by (simp only: tile_value_def const_masks(2) take_bit_eq_mask [symmetric]) (rule unat_ucast_take_bit, simp)
  then show ?thesis by (simp only:) (rule mod_less_divisor, simp)
qed

text \<open>The low 25 bits of a key are the tile, the high 7 bits the path.\<close>

lemma status_key_fields:
  assumes "path_id \<le> kMaxMultiPathId"
  shows "take_bit 25 (status_key e path_id) = tile_value e" and "drop_bit 25 (status_key e path_id) = ucast path_id"
proof -
  have tv: "take_bit 25 (tile_value e) = tile_value e"
    using tile_value_less by (simp only: take_bit_self_iff)
  have low: "bit (tile_value e) i \<Longrightarrow> i < 25" for i
    using tv by (metis bit_take_bit_iff)
  show "take_bit 25 (status_key e path_id) = tile_value e"
    by (simp add: status_key_def shift_path_id_def take_bit_or tv take_bit_push_bit)
  have "unat path_id < 2 ^ 7" using assms by (simp add: kMaxMultiPathId_def word_le_nat_alt)
  then have "take_bit 7 path_id = path_id" by (simp only: take_bit_self_iff)
  then have seven: "bit path_id i \<Longrightarrow> i < 7" for i by (metis bit_take_bit_iff)
  show "drop_bit 25 (status_key e path_id) = ucast path_id"
  proof (rule bit_word_eqI)
    fix i assume "i < LENGTH(32)"
    then show "bit (drop_bit 25 (status_key e path_id)) i = bit (ucast path_id :: u32) i"
      using low [of "25 + i"] seven [of i]
      by (auto simp: status_key_def shift_path_id_def bit_drop_bit_eq bit_or_iff bit_push_bit_iff bit_ucast_iff)
  qed
qed

text \<open>What an entry of the status is for: an edge, by its tile and its index, and a path.\<close>

definition same_entry :: "graph_id \<Rightarrow> u8 \<Rightarrow> graph_id \<Rightarrow> u8 \<Rightarrow> bool" where
  "same_entry e p e' p' \<longleftrightarrow> tile_value e = tile_value e' \<and> gid_id e = gid_id e' \<and> p = p'"

lemma status_key_eq_iff:
  assumes "p \<le> kMaxMultiPathId" "p' \<le> kMaxMultiPathId"
  shows "status_key e p = status_key e' p' \<longleftrightarrow> tile_value e = tile_value e' \<and> p = p'"
proof
  assume eq: "status_key e p = status_key e' p'"
  have t: "tile_value e = tile_value e'"
    using status_key_fields(1) [OF assms(1), of e] status_key_fields(1) [OF assms(2), of e'] eq by simp
  have u: "unat (ucast q :: u32) = unat q" for q :: u8
    using unsigned_less [of q, where ?'a = nat]
    by (simp only: unsigned_ucast_eq) (rule take_bit_nat_eq_self, simp)
  have "(ucast p :: u32) = ucast p'"
    using status_key_fields(2) [OF assms(1), of e] status_key_fields(2) [OF assms(2), of e'] eq by simp
  then have "unat (ucast p :: u32) = unat (ucast p' :: u32)" by simp
  then have "p = p'" by (simp only: u word_unat_eq_iff)
  with t show "tile_value e = tile_value e' \<and> p = p'" by simp
qed (simp add: status_key_def)

section \<open>Refinement of a map\<close>

text \<open>
  The abstract state: which arrays exist (by tile and path) and the status of every entry.
  The concrete one represents it if every array has the size of its tile
  (\<open>edges\<close>, by the tile value) and every existing entry reads as the abstract one.
\<close>

record status_map =
  reached :: "u32 \<Rightarrow> u8 \<Rightarrow> bool"
  status :: "u32 \<Rightarrow> u8 \<Rightarrow> nat \<Rightarrow> edge_status_info"

definition empty_map :: status_map where
  "empty_map = \<lparr>reached = (\<lambda>_ _. False), status = (\<lambda>_ _ _. default_info)\<rparr>"

definition map_put :: "u32 \<Rightarrow> u8 \<Rightarrow> nat \<Rightarrow> edge_status_info \<Rightarrow> status_map \<Rightarrow> status_map" where
  "map_put t p i info a =
     \<lparr>reached = (\<lambda>t' p'. t' = t \<and> p' = p \<or> reached a t' p'),
      status = (\<lambda>t' p' i'. if t' = t \<and> p' = p \<and> i' = i then info else status a t' p' i')\<rparr>"

definition represents :: "(u32 \<Rightarrow> nat) \<Rightarrow> edge_status \<Rightarrow> status_map \<Rightarrow> bool" where
  "represents edges st a \<longleftrightarrow>
     (\<forall>e p. p \<le> kMaxMultiPathId \<longrightarrow>
        (case st (status_key e p) of
           None \<Rightarrow> \<not> reached a (tile_value e) p \<and> (\<forall>i. status a (tile_value e) p i = default_info)
         | Some arr \<Rightarrow> reached a (tile_value e) p \<and> length arr = edges (tile_value e)
             \<and> (\<forall>i<length arr. arr ! i = status a (tile_value e) p i)))"

lemma representsD:
  assumes "represents edges st a" "p \<le> kMaxMultiPathId"
  shows "st (status_key e p) = None \<Longrightarrow>
      \<not> reached a (tile_value e) p \<and> status a (tile_value e) p i = default_info"
    and "st (status_key e p) = Some arr \<Longrightarrow> reached a (tile_value e) p \<and> length arr = edges (tile_value e)
      \<and> (\<forall>i<length arr. arr ! i = status a (tile_value e) p i)"
  using assms unfolding represents_def by (force split: option.splits)+

lemma represents_put:
  assumes r: "represents edges st a" and p: "p \<le> kMaxMultiPathId"
    and arr: "length arr = edges (tile_value e)" "\<forall>j<length arr. arr ! j = status a (tile_value e) p j"
    and i: "i < length arr"
  shows "represents edges (st(status_key e p \<mapsto> arr[i := info])) (map_put (tile_value e) p i info a)"
  unfolding represents_def
proof (intro allI impI)
  fix e' p' assume p': "(p' :: u8) \<le> kMaxMultiPathId"
  let ?st = "st(status_key e p \<mapsto> arr[i := info])" and ?a = "map_put (tile_value e) p i info a"
  show "case ?st (status_key e' p') of
      None \<Rightarrow> \<not> reached ?a (tile_value e') p' \<and> (\<forall>i. status ?a (tile_value e') p' i = default_info)
    | Some arr \<Rightarrow> reached ?a (tile_value e') p' \<and> length arr = edges (tile_value e')
        \<and> (\<forall>i<length arr. arr ! i = status ?a (tile_value e') p' i)"
  proof (cases "tile_value e' = tile_value e \<and> p' = p")
    case True
    then have "status_key e' p' = status_key e p" by (simp add: status_key_def)
    then show ?thesis using True arr i by (simp add: map_put_def nth_list_update)
  next
    case False
    then have k: "status_key e' p' \<noteq> status_key e p" using status_key_eq_iff [OF p' p] by blast
    have "(case st (status_key e' p') of
        None \<Rightarrow> \<not> reached a (tile_value e') p' \<and> (\<forall>i. status a (tile_value e') p' i = default_info)
      | Some arr \<Rightarrow> reached a (tile_value e') p' \<and> length arr = edges (tile_value e')
          \<and> (\<forall>i<length arr. arr ! i = status a (tile_value e') p' i))"
      using r p' unfolding represents_def by blast
    then show ?thesis using k False by (auto simp: map_put_def split: option.splits)
  qed
qed

lemma represents_empty: "represents edges Map.empty empty_map"
  by (simp add: represents_def empty_map_def)

lemma put_element_represents:
  assumes r: "represents edges st a" and p: "p \<le> kMaxMultiPathId"
    and arr: "length arr = edges (tile_value e)" "\<forall>j<length arr. arr ! j = status a (tile_value e) p j"
    and i: "i < edges (tile_value e)"
  shows "\<exists>st'. put_element (status_key e p) i info arr st = Inr st'
    \<and> represents edges st' (map_put (tile_value e) p i info a)"
  using represents_put [OF r p arr, of i info] i arr(1) by (simp add: put_element_def)

lemma put_element_overwrites: "put_element k i info arr (st(k \<mapsto> arr')) = put_element k i info arr st"
  by (simp add: put_element_def)

lemma Set_represents:
  assumes r: "represents edges st a" and p: "p \<le> kMaxMultiPathId" and i: "unat (gid_id e) < edges (tile_value e)"
  shows "\<exists>st'. es_Set e s index (edges (tile_value e)) p st = Inr st'
    \<and> represents edges st' (map_put (tile_value e) p (unat (gid_id e)) (make_info s index) a)"
proof (cases "st (status_key e p)")
  case None
  let ?arr = "replicate (edges (tile_value e)) default_info"
  have arr: "length ?arr = edges (tile_value e)" "\<forall>j<length ?arr. ?arr ! j = status a (tile_value e) p j"
    using representsD(1) [OF r p None] by auto
  show ?thesis
    using put_element_represents [OF r p arr i] by (simp add: es_Set_def Let_def None put_element_overwrites)
next
  case (Some arr)
  have arr: "length arr = edges (tile_value e)" "\<forall>j<length arr. arr ! j = status a (tile_value e) p j"
    using representsD(2) [OF r p Some] by auto
  show ?thesis
    using put_element_represents [OF r p arr i] by (simp add: es_Set_def Let_def Some)
qed

lemma Get_represents:
  assumes r: "represents edges st a" and p: "p \<le> kMaxMultiPathId" and i: "unat (gid_id e) < edges (tile_value e)"
  shows "es_Get e p st = Inr (status a (tile_value e) p (unat (gid_id e)))"
  using representsD [OF r p, of e] i
  by (cases "st (status_key e p)") (auto simp: es_Get_def get_element_def)

lemma Update_represents:
  assumes r: "represents edges st a" and p: "p \<le> kMaxMultiPathId" and i: "unat (gid_id e) < edges (tile_value e)"
    and seen: "reached a (tile_value e) p"
  shows "\<exists>st'. es_Update e s p st = Inr st' \<and> represents edges st' (map_put (tile_value e) p (unat (gid_id e))
      ((status a (tile_value e) p (unat (gid_id e)))\<lparr>info_set := take_bit 4 (edge_set_num s)\<rparr>) a)"
proof -
  obtain arr where some: "st (status_key e p) = Some arr"
    using representsD(1) [OF r p] seen by (cases "st (status_key e p)") auto
  have arr: "length arr = edges (tile_value e)" "\<forall>j<length arr. arr ! j = status a (tile_value e) p j"
    using representsD(2) [OF r p some] by auto
  have "get_element (unat (gid_id e)) arr = Inr (status a (tile_value e) p (unat (gid_id e)))"
    using i arr by (simp add: get_element_def)
  then show ?thesis
    using put_element_represents [OF r p arr i] by (simp add: es_Update_def Let_def some)
qed

lemma Update_unreached:
  assumes "represents edges st a" "p \<le> kMaxMultiPathId" "\<not> reached a (tile_value e) p"
  shows "es_Update e s p st = Inl (Runtime_error ''EdgeStatus Update on edge not previously set'')"
  using representsD(2) [OF assms(1,2), of e] assms(3)
  by (cases "st (status_key e p)") (auto simp: es_Update_def Let_def)

text \<open>The pointer of an edge reads as \<^verbatim>\<open>Get\<close>, and stepping it reads the next edges of the tile.\<close>

lemma GetPtr_represents:
  assumes r: "represents edges st a" and p: "p \<le> kMaxMultiPathId" and i: "unat (gid_id e) + k < edges (tile_value e)"
  obtains st' where "es_GetPtr e (edges (tile_value e)) p st = ((status_key e p, unat (gid_id e)), st')"
    and "es_deref (status_key e p, unat (gid_id e) + k) st' = Inr (status a (tile_value e) p (unat (gid_id e) + k))"
proof (cases "st (status_key e p)")
  case None
  then show ?thesis
    using i representsD(1) [OF r p None]
    by (auto simp: es_GetPtr_def es_deref_def get_element_def Let_def intro!: that)
next
  case (Some arr)
  then show ?thesis
    using i representsD(2) [OF r p Some]
    by (auto simp: es_GetPtr_def es_deref_def get_element_def Let_def intro!: that)
qed

section \<open>Runs of operations\<close>

datatype status_op =
    Op_set graph_id edge_set u32 u8
  | Op_update graph_id edge_set u8
  | Op_clear

fun run_op :: "(u32 \<Rightarrow> nat) \<Rightarrow> status_op \<Rightarrow> edge_status \<Rightarrow> edge_status result" where
  "run_op edges (Op_set e s i p) st = es_Set e s i (edges (tile_value e)) p st"
| "run_op edges (Op_update e s p) st = es_Update e s p st"
| "run_op edges Op_clear st = Inr (es_clear st)"

fun map_op :: "status_op \<Rightarrow> status_map \<Rightarrow> status_map result" where
  "map_op (Op_set e s i p) a = Inr (map_put (tile_value e) p (unat (gid_id e)) (make_info s i) a)"
| "map_op (Op_update e s p) a =
     (if reached a (tile_value e) p
      then Inr (map_put (tile_value e) p (unat (gid_id e))
        ((status a (tile_value e) p (unat (gid_id e)))\<lparr>info_set := take_bit 4 (edge_set_num s)\<rparr>) a)
      else Inl (Runtime_error ''EdgeStatus Update on edge not previously set''))"
| "map_op Op_clear a = Inr empty_map"

fun op_in_range :: "(u32 \<Rightarrow> nat) \<Rightarrow> status_op \<Rightarrow> bool" where
  "op_in_range edges (Op_set e s i p) \<longleftrightarrow> p \<le> kMaxMultiPathId \<and> unat (gid_id e) < edges (tile_value e)"
| "op_in_range edges (Op_update e s p) \<longleftrightarrow> p \<le> kMaxMultiPathId \<and> unat (gid_id e) < edges (tile_value e)"
| "op_in_range edges Op_clear \<longleftrightarrow> True"

fun run_ops :: "('o \<Rightarrow> 's \<Rightarrow> 's result) \<Rightarrow> 'o list \<Rightarrow> 's \<Rightarrow> 's result" where
  "run_ops f [] s = Inr s"
| "run_ops f (x # xs) s = bind_result (f x s) (run_ops f xs)"

definition matches :: "('s \<Rightarrow> 'a \<Rightarrow> bool) \<Rightarrow> 's result \<Rightarrow> 'a result \<Rightarrow> bool" where
  "matches R x y = (case (x, y) of (Inl e, Inl e') \<Rightarrow> e = e' | (Inr s, Inr a) \<Rightarrow> R s a | _ \<Rightarrow> False)"

lemma matches_bind:
  "matches R x y \<Longrightarrow> (\<And>s a. R s a \<Longrightarrow> matches R' (f s) (g a)) \<Longrightarrow> matches R' (bind_result x f) (bind_result y g)"
  by (cases x; cases y; simp add: matches_def)

lemma run_op_matches:
  assumes r: "represents edges st a" and ok: "op_in_range edges x"
  shows "matches (represents edges) (run_op edges x st) (map_op x a)"
proof (cases x)
  case (Op_set e s i p)
  then have "p \<le> kMaxMultiPathId" "unat (gid_id e) < edges (tile_value e)" using ok by simp_all
  from Set_represents [OF r this, of s i] show ?thesis by (auto simp: matches_def Op_set)
next
  case (Op_update e s p)
  then have p: "p \<le> kMaxMultiPathId" "unat (gid_id e) < edges (tile_value e)" using ok by simp_all
  show ?thesis
  proof (cases "reached a (tile_value e) p")
    case True
    from Update_represents [OF r p True, of s] True show ?thesis by (auto simp: matches_def Op_update)
  next
    case False
    from Update_unreached [OF r p(1) False, of s] False show ?thesis by (simp add: matches_def Op_update)
  qed
next
  case Op_clear
  then show ?thesis by (simp add: matches_def es_clear_def represents_empty)
qed

lemma run_ops_matches:
  "represents edges st a \<Longrightarrow> list_all (op_in_range edges) xs
    \<Longrightarrow> matches (represents edges) (run_ops (run_op edges) xs st) (run_ops map_op xs a)"
proof (induction xs arbitrary: st a)
  case (Cons x xs)
  have "matches (represents edges) (run_op edges x st) (map_op x a)"
    using Cons.prems by (intro run_op_matches) simp_all
  then show ?case
    unfolding run_ops.simps by (rule matches_bind) (rule Cons.IH, use Cons.prems(2) in simp_all)
qed (simp add: matches_def)

text \<open>
  C20: The edge status refines a map. For any sequence of \<^verbatim>\<open>Set\<close>, \<^verbatim>\<open>Update\<close> and \<^verbatim>\<open>clear\<close> on
  edges within their tiles and paths up to 127, the arrays keyed by the packed tile and path
  behave as a map from edges and paths to statuses: the sequence throws exactly when the map
  does (\<^verbatim>\<open>Update\<close> in a tile without any status), never reads or writes outside an
  array, and afterwards \<^verbatim>\<open>Get\<close> reads for every edge and path what the map holds, the default if
  it was never set. No two entries share a cell.
\<close>

theorem edge_status_refines:
  assumes "list_all (op_in_range edges) xs"
    and "p \<le> kMaxMultiPathId" and "unat (gid_id e) < edges (tile_value e)"
  shows "bind_result (run_ops (run_op edges) xs Map.empty) (es_Get e p)
    = bind_result (run_ops map_op xs empty_map) (\<lambda>a. Inr (status a (tile_value e) p (unat (gid_id e))))"
  using run_ops_matches [OF represents_empty assms(1)] Get_represents assms(2,3)
  by (auto simp: matches_def split: sum.splits)

theorem edge_status_refines_witness:
  "bind_result (run_ops (run_op (\<lambda>_. 2)) [Op_set (GraphId 9) Temporary 5 1, Op_update (GraphId 9) Permanent 1] Map.empty)
      (es_Get (GraphId 9) 1) = Inr \<lparr>info_index = 5, info_set = 1\<rparr>"
proof -
  have "list_all (op_in_range (\<lambda>_. 2)) [Op_set (GraphId 9) Temporary 5 1, Op_update (GraphId 9) Permanent 1]"
    by (simp add: kMaxMultiPathId_def gid_id_def)
  from edge_status_refines [OF this, of 1 "GraphId 9"] show ?thesis
    by (simp add: kMaxMultiPathId_def gid_id_def map_put_def empty_map_def make_info_def take_bit_eq_mask mask_numeral)
qed

end
