(* ===== verification/Cost_Options.thy ===== *)
theory Cost_Options
  imports Environment_Sources
begin

text \<open>
  The costing options of a request: \<^verbatim>\<open>ParseBaseCostOptions\<close>, the macros and the ranges of
  \<^verbatim>\<open>src/sif/dynamiccost.cc\<close> and \<^verbatim>\<open>valhalla/sif/dynamiccost.h\<close>, and the pedestrian options of
  \<^verbatim>\<open>src/sif/pedestriancost.cc\<close>. \<^verbatim>\<open>Costing::Options\<close> is generated from a protobuf message:
  \<open>costing_options\<close> keeps its numeric and boolean fields by their names, a field that is not set being
  absent. \<^verbatim>\<open>boost::lexical_cast\<close> is the parameter \<open>lexer\<close>. It also takes texts like \<^verbatim>\<open>inf\<close> and \<^verbatim>\<open>nan\<close>.
  An infinite number is out of every range and becomes the default; one that is not a number
  passes the comparisons of \<^verbatim>\<open>ranged_default_t\<close>, and the program goes on with it as the value of the
  option, where the model stops with \<open>Not_finite\<close>, since its values are finite.

  The lemmas show that whatever a request holds, every option that is a number ends within its range.
\<close>

named_theorems options_lib \<open>how the parsing steps change the options\<close>

section \<open>Reading JSON leniently\<close>

datatype float_value = Finite rat | Infinite | Not_a_number

record lexer =
  lex_float :: "string \<Rightarrow> float_value option"
  lex_uint :: "string \<Rightarrow> u32 option"
  lex_bool :: "string \<Rightarrow> bool option"

text \<open>One step of a JSON pointer: a member of an object or an element of an array.\<close>

definition array_token :: "string \<Rightarrow> nat option" where
  "array_token t =
     (if t \<noteq> [] \<and> list_all is_digit t \<and> (hd t \<noteq> CHR ''0'' \<or> length t = 1) then Some (digits_val t) else None)"

definition child :: "string \<Rightarrow> json \<Rightarrow> json option" where
  "child t j = (case j of
     JObject ms \<Rightarrow> map_of ms t
   | JArray xs \<Rightarrow> (case array_token t of
        None \<Rightarrow> None
      | Some i \<Rightarrow> if i < length xs then Some (xs ! i) else None)
   | _ \<Rightarrow> None)"

fun child_path :: "string list \<Rightarrow> json \<Rightarrow> json option" where
  "child_path [] j = Some j"
| "child_path (t # ts) j = (case child t j of None \<Rightarrow> None | Some v \<Rightarrow> child_path ts v)"

text \<open>
  \<^verbatim>\<open>rapidjson::get\<close> for \<^verbatim>\<open>float\<close>, \<^verbatim>\<open>uint32_t\<close>, \<^verbatim>\<open>bool\<close> and strings. A negative integer wraps
  when it becomes a \<^verbatim>\<open>uint32_t\<close>; a \<^verbatim>\<open>double\<close> out of its range is undefined behaviour.
\<close>

definition get_float :: "lexer \<Rightarrow> string list \<Rightarrow> json \<Rightarrow> rat \<Rightarrow> float_value" where
  "get_float lx ts j d = (case child_path ts j of
     None \<Rightarrow> Finite d
   | Some v \<Rightarrow> (case v of
        JDouble r \<Rightarrow> Finite (f32 r)
      | JString s \<Rightarrow> (case lex_float lx s of None \<Rightarrow> Finite d | Some x \<Rightarrow> x)
      | JBool b \<Rightarrow> Finite (of_bool b)
      | JInt i \<Rightarrow> Finite (f32 (of_int i))
      | _ \<Rightarrow> Finite d))"

definition get_uint32 :: "lexer \<Rightarrow> string list \<Rightarrow> json \<Rightarrow> u32 \<Rightarrow> u32 result" where
  "get_uint32 lx ts j d = (case child_path ts j of
     None \<Rightarrow> Inr d
   | Some v \<Rightarrow> (case v of
        JInt i \<Rightarrow> Inr (word_of_int i)
      | JString s \<Rightarrow> Inr (case lex_uint lx s of None \<Rightarrow> d | Some x \<Rightarrow> x)
      | JBool b \<Rightarrow> Inr (of_bool b)
      | JDouble r \<Rightarrow> if 0 \<le> c_trunc r \<and> c_trunc r < 2 ^ 32 then Inr (word_of_int (c_trunc r)) else Inl Undefined
      | _ \<Rightarrow> Inr d))"

definition get_bool :: "lexer \<Rightarrow> string list \<Rightarrow> json \<Rightarrow> bool \<Rightarrow> bool" where
  "get_bool lx ts j d = (case child_path ts j of
     None \<Rightarrow> d
   | Some v \<Rightarrow> (case v of
        JBool b \<Rightarrow> b
      | JString s \<Rightarrow> (case lex_bool lx s of None \<Rightarrow> d | Some b \<Rightarrow> b)
      | JInt i \<Rightarrow> i \<noteq> 0
      | JDouble r \<Rightarrow> r \<noteq> 0
      | _ \<Rightarrow> d))"

definition get_text :: "string list \<Rightarrow> json \<Rightarrow> string option" where
  "get_text ts j = (case child_path ts j of Some (JString s) \<Rightarrow> Some s | _ \<Rightarrow> None)"

section \<open>Ranges and options\<close>

record ranged_default =
  rd_min :: rat
  rd_def :: rat
  rd_max :: rat

definition ranged :: "ranged_default \<Rightarrow> rat \<Rightarrow> rat" where
  "ranged r v = (if v < rd_min r \<or> rd_max r < v then rd_def r else v)"

definition ranged_float :: "ranged_default \<Rightarrow> float_value \<Rightarrow> rat result" where
  "ranged_float r x = (case x of Finite v \<Rightarrow> Inr (ranged r v) | Infinite \<Rightarrow> Inr (rd_def r) | Not_a_number \<Rightarrow> Inl Not_finite)"

definition rng :: "rat \<Rightarrow> rat \<Rightarrow> rat \<Rightarrow> ranged_default" where
  "rng lo d hi = \<lparr>rd_min = lo, rd_def = d, rd_max = hi\<rparr>"

record layer_factor =
  lf_slot :: nat
  lf_name :: string
  lf_factor :: rat
  lf_max_reduction :: "rat option"
  lf_base_multiplier :: "rat option"

record hierarchy_limit =
  max_up_transitions :: u32
  expand_within_dist :: rat

record costing_options =
  num :: "string \<rightharpoonup> rat"
  flag :: "string \<Rightarrow> bool"
  flow_mask :: "u32 option"
  costing_name :: string
  transport_type :: "string option"
  hierarchy :: "(nat \<times> hierarchy_limit) list"
  layer_factors :: "layer_factor list"
  exclude_edges :: "(u64 \<times> rat) list"

definition num_or :: "rat \<Rightarrow> string \<Rightarrow> costing_options \<Rightarrow> rat" where
  "num_or d n co = (case num co n of None \<Rightarrow> d | Some v \<Rightarrow> v)"

text \<open>The macros. A uint option goes through \<^verbatim>\<open>ranged_default_t<uint32_t>\<close>: same comparison on numbers.\<close>

definition pbf_ranged :: "lexer \<Rightarrow> json \<Rightarrow> string \<times> string \<times> ranged_default \<Rightarrow> costing_options \<Rightarrow> costing_options result" where
  "pbf_ranged lx j = (\<lambda>(key, name, r) co.
     bind_result (ranged_float r (get_float lx [key] j (num_or (rd_def r) name co))) (\<lambda>v.
       Inr (co\<lparr>num := (num co)(name \<mapsto> v)\<rparr>)))"

definition pbf_ranged_uint :: "lexer \<Rightarrow> json \<Rightarrow> string \<times> string \<times> ranged_default \<Rightarrow> costing_options \<Rightarrow> costing_options result" where
  "pbf_ranged_uint lx j = (\<lambda>(key, name, r) co.
     bind_result (get_uint32 lx [key] j (word_of_int (c_trunc (num_or (rd_def r) name co)))) (\<lambda>v.
       Inr (co\<lparr>num := (num co)(name \<mapsto> ranged r (of_nat (unat v)))\<rparr>)))"

text \<open>The variants for fields without presence: the value 0 counts as not set.\<close>

definition nonzero_or :: "rat \<Rightarrow> string \<Rightarrow> costing_options \<Rightarrow> rat" where
  "nonzero_or d n co = (if num_or 0 n co \<noteq> 0 then num_or 0 n co else d)"

definition pbf_ranged_v2 :: "lexer \<Rightarrow> json \<Rightarrow> string \<times> string \<times> ranged_default \<Rightarrow> costing_options \<Rightarrow> costing_options result" where
  "pbf_ranged_v2 lx j = (\<lambda>(key, name, r) co.
     bind_result (ranged_float r (get_float lx [key] j (nonzero_or (rd_def r) name co))) (\<lambda>v.
       Inr (co\<lparr>num := (num co)(name \<mapsto> v)\<rparr>)))"

definition pbf_ranged_uint_v2 :: "lexer \<Rightarrow> json \<Rightarrow> string \<times> string \<times> ranged_default \<Rightarrow> costing_options \<Rightarrow> costing_options result" where
  "pbf_ranged_uint_v2 lx j = (\<lambda>(key, name, r) co.
     bind_result (get_uint32 lx [key] j (word_of_int (c_trunc (nonzero_or (rd_def r) name co)))) (\<lambda>v.
       Inr (co\<lparr>num := (num co)(name \<mapsto> ranged r (of_nat (unat v)))\<rparr>)))"

definition pbf_flag_v2 :: "lexer \<Rightarrow> json \<Rightarrow> string \<times> bool \<Rightarrow> costing_options \<Rightarrow> costing_options" where
  "pbf_flag_v2 lx j = (\<lambda>(name, d) co.
     co\<lparr>flag := (flag co)(name := get_bool lx [name] j (if flag co name then flag co name else d))\<rparr>)"

section \<open>The defaults\<close>

definition kSecPerHour :: rat where "kSecPerHour = 3600"
definition kMaxPenalty :: rat where "kMaxPenalty = f32 (12 * kSecPerHour)"
definition kMaxFerryPenalty :: rat where "kMaxFerryPenalty = f32 (6 * kSecPerHour)"
definition kMinFactor :: rat where "kMinFactor = f32 (1 / 10)"
definition kMaxFactor :: rat where "kMaxFactor = 100000"
definition kMaxSpeedKph :: rat where "kMaxSpeedKph = max 252 140"
definition kDefaultFlowMask :: u32 where "kDefaultFlowMask = 1 OR 2 OR 4 OR 8"
definition kUnlimitedTransitions :: u32 where "kUnlimitedTransitions = - 1"
definition kMaxDistance :: rat where "kMaxDistance = (2 ^ 24 - 1) * 2 ^ 104"

record base_config =
  dest_only_penalty :: ranged_default
  maneuver_penalty :: ranged_default
  alley_penalty :: ranged_default
  gate_cost :: ranged_default
  gate_penalty :: ranged_default
  private_access_penalty :: ranged_default
  country_crossing_cost :: ranged_default
  country_crossing_penalty :: ranged_default
  disable_toll_booth :: bool
  toll_booth_cost :: ranged_default
  toll_booth_penalty :: ranged_default
  disable_ferry :: bool
  ferry_cost :: ranged_default
  use_ferry :: ranged_default
  disable_rail_ferry :: bool
  rail_ferry_cost :: ranged_default
  use_rail_ferry :: ranged_default
  service_penalty :: ranged_default
  service_factor :: ranged_default
  use_tracks :: ranged_default
  use_living_streets :: ranged_default
  use_lit :: ranged_default
  closure_factor :: ranged_default
  tree_canopy_factor :: ranged_default

text \<open>Every \<^verbatim>\<open>exclude_\<close> and \<^verbatim>\<open>include_\<close> flag of the configuration is false.\<close>

definition base_default :: base_config where
  "base_default = \<lparr>
     dest_only_penalty = rng 0 600 kMaxPenalty,
     maneuver_penalty = rng 0 5 kMaxPenalty,
     alley_penalty = rng 0 5 kMaxPenalty,
     gate_cost = rng 0 30 kMaxPenalty,
     gate_penalty = rng 0 300 kMaxPenalty,
     private_access_penalty = rng 0 450 kMaxPenalty,
     country_crossing_cost = rng 0 600 kMaxPenalty,
     country_crossing_penalty = rng 0 0 kMaxPenalty,
     disable_toll_booth = False,
     toll_booth_cost = rng 0 15 kMaxPenalty,
     toll_booth_penalty = rng 0 0 kMaxPenalty,
     disable_ferry = False,
     ferry_cost = rng 0 300 kMaxPenalty,
     use_ferry = rng 0 (1 / 2) 1,
     disable_rail_ferry = False,
     rail_ferry_cost = rng 0 300 kMaxPenalty,
     use_rail_ferry = rng 0 (f32 (2 / 5)) 1,
     service_penalty = rng 0 15 kMaxPenalty,
     service_factor = rng kMinFactor 1 kMaxFactor,
     use_tracks = rng 0 (1 / 2) 1,
     use_living_streets = rng 0 (f32 (1 / 10)) 1,
     use_lit = rng 0 0 1,
     closure_factor = rng 1 9 10,
     tree_canopy_factor = rng 0 1 2\<rparr>"

definition pedestrian_config :: base_config where
  "pedestrian_config = base_default\<lparr>
     gate_penalty := (gate_penalty base_default)\<lparr>rd_def := 10\<rparr>,
     private_access_penalty := (private_access_penalty base_default)\<lparr>rd_def := 600\<rparr>,
     disable_toll_booth := True,
     disable_rail_ferry := True,
     service_penalty := (service_penalty base_default)\<lparr>rd_def := 0\<rparr>,
     use_ferry := (use_ferry base_default)\<lparr>rd_def := 1\<rparr>,
     use_living_streets := (use_living_streets base_default)\<lparr>rd_def := f32 (3 / 5)\<rparr>,
     use_lit := (use_lit base_default)\<lparr>rd_def := 0\<rparr>\<rparr>"

section \<open>Parsing the base options\<close>

definition speed_type_mask :: "string \<Rightarrow> u32" where
  "speed_type_mask s =
     (if s = ''freeflow'' then 1 else if s = ''constrained'' then 2
      else if s = ''predicted'' then 4 else if s = ''current'' then 8 else 0)"

definition SpeedMask_Parse :: "json option \<Rightarrow> u32" where
  "SpeedMask_Parse t = (case t of
     Some (JArray xs) \<Rightarrow>
       foldl (\<lambda>mask x. case x of JString s \<Rightarrow> mask OR speed_type_mask (takeWhile (\<lambda>c. c \<noteq> CHR 0x00) s) | _ \<Rightarrow> mask) 0 xs
   | _ \<Rightarrow> kDefaultFlowMask)"

definition parse_flow_mask :: "json \<Rightarrow> costing_options \<Rightarrow> costing_options" where
  "parse_flow_mask j co =
     (let co1 = (case flow_mask co of
            Some m \<Rightarrow> if kDefaultFlowMask < m then co\<lparr>flow_mask := None\<rparr> else co
          | None \<Rightarrow> co);
          t = child_path [''speed_types''] j
      in if t \<noteq> None \<or> flow_mask co1 = None then co1\<lparr>flow_mask := Some (SpeedMask_Parse t)\<rparr> else co1)"

definition parse_name :: "json \<Rightarrow> costing_options \<Rightarrow> costing_options" where
  "parse_name j co = (case get_text [''name''] j of None \<Rightarrow> co | Some s \<Rightarrow> co\<lparr>costing_name := s\<rparr>)"

definition traversal_flags :: "string list" where
  "traversal_flags = [''ignore_restrictions'', ''ignore_oneways'', ''ignore_access'', ''ignore_closures'',
     ''ignore_construction'', ''ignore_non_vehicular_restrictions'', ''shortest'']"

definition parse_flags :: "lexer \<Rightarrow> json \<Rightarrow> string list \<Rightarrow> costing_options \<Rightarrow> costing_options" where
  "parse_flags lx j names co = foldl (\<lambda>co n. pbf_flag_v2 lx j (n, False) co) co names"

definition parse_pruning :: "lexer \<Rightarrow> json \<Rightarrow> costing_options \<Rightarrow> costing_options" where
  "parse_pruning lx j co =
     co\<lparr>flag := (flag co)(''disable_hierarchy_pruning'' :=
        get_bool lx [''disable_hierarchy_pruning''] j (flag co ''disable_hierarchy_pruning''))\<rparr>"

text \<open>The limits of one level; \<^verbatim>\<open>insert\<close> keeps an entry that is there.\<close>

definition parse_level :: "lexer \<Rightarrow> json \<Rightarrow> nat \<Rightarrow> costing_options \<Rightarrow> costing_options result" where
  "parse_level lx j level co =
     bind_result (get_uint32 lx [''hierarchy_limits'', std_to_string level, ''max_up_transitions''] j
       kUnlimitedTransitions) (\<lambda>up.
     case get_float lx [''hierarchy_limits'', std_to_string level, ''expand_within_distance''] j kMaxDistance of
       Finite far \<Rightarrow>
         if up = kUnlimitedTransitions \<and> far = kMaxDistance then Inr co
         else if map_of (hierarchy co) level = None
           then Inr (co\<lparr>hierarchy := hierarchy co @ [(level, \<lparr>max_up_transitions = up, expand_within_dist = far\<rparr>)]\<rparr>)
           else Inr co
     | _ \<Rightarrow> if map_of (hierarchy co) level = None then Inl Not_finite else Inr co)"

definition penalty_ranges :: "base_config \<Rightarrow> (string \<times> string \<times> ranged_default) list" where
  "penalty_ranges cfg =
     [(''destination_only_penalty'', ''destination_only_penalty'', dest_only_penalty cfg),
      (''maneuver_penalty'', ''maneuver_penalty'', maneuver_penalty cfg),
      (''alley_penalty'', ''alley_penalty'', alley_penalty cfg),
      (''gate_cost'', ''gate_cost'', gate_cost cfg),
      (''gate_penalty'', ''gate_penalty'', gate_penalty cfg),
      (''private_access_penalty'', ''private_access_penalty'', private_access_penalty cfg),
      (''country_crossing_cost'', ''country_crossing_cost'', country_crossing_cost cfg),
      (''country_crossing_penalty'', ''country_crossing_penalty'', country_crossing_penalty cfg)]
     @ (if disable_toll_booth cfg then [] else
          [(''toll_booth_cost'', ''toll_booth_cost'', toll_booth_cost cfg),
           (''toll_booth_penalty'', ''toll_booth_penalty'', toll_booth_penalty cfg)])
     @ (if disable_ferry cfg then [] else
          [(''ferry_cost'', ''ferry_cost'', ferry_cost cfg), (''use_ferry'', ''use_ferry'', use_ferry cfg)])
     @ (if disable_rail_ferry cfg then [] else
          [(''rail_ferry_cost'', ''rail_ferry_cost'', rail_ferry_cost cfg),
           (''use_rail_ferry'', ''use_rail_ferry'', use_rail_ferry cfg)])"

definition exclude_flags :: "string list" where
  "exclude_flags = [''exclude_unpaved'', ''exclude_bridges'', ''exclude_tunnels'', ''exclude_tolls'',
     ''exclude_highways'', ''exclude_ferries'', ''exclude_cash_only_tolls'']"

definition preference_ranges :: "base_config \<Rightarrow> (string \<times> string \<times> ranged_default) list" where
  "preference_ranges cfg =
     [(''service_penalty'', ''service_penalty'', service_penalty cfg),
      (''service_factor'', ''service_factor'', service_factor cfg),
      (''use_tracks'', ''use_tracks'', use_tracks cfg),
      (''use_living_streets'', ''use_living_streets'', use_living_streets cfg)]"

definition comfort_ranges :: "base_config \<Rightarrow> (string \<times> string \<times> ranged_default) list" where
  "comfort_ranges cfg =
     [(''closure_factor'', ''closure_factor'', closure_factor cfg),
      (''tree_canopy_factor'', ''tree_canopy_factor'', tree_canopy_factor cfg)]"

definition parse_ranges :: "lexer \<Rightarrow> json \<Rightarrow> (string \<times> string \<times> ranged_default) list \<Rightarrow> costing_options
    \<Rightarrow> costing_options result" where
  "parse_ranges lx j = fold_result (pbf_ranged lx j)"

text \<open>The factors of the supplemental layers, appended to the ones of the request.\<close>

definition number_member :: "string \<Rightarrow> json \<Rightarrow> rat option" where
  "number_member k j = (case child k j of
     Some (JInt i) \<Rightarrow> Some (f32 (f64 (of_int i))) | Some (JDouble r) \<Rightarrow> Some (f32 (f64 r)) | _ \<Rightarrow> None)"

definition parse_layer_factor :: "json \<Rightarrow> layer_factor" where
  "parse_layer_factor e =
     \<lparr>lf_slot = (case child ''slot'' e of Some (JInt i) \<Rightarrow> if 0 \<le> i \<and> i < 2 ^ 32 then nat i else 0 | _ \<Rightarrow> 0),
      lf_name = (case child ''name'' e of Some (JString s) \<Rightarrow> takeWhile (\<lambda>c. c \<noteq> CHR 0x00) s | _ \<Rightarrow> []),
      lf_factor = (case number_member ''factor'' e of Some x \<Rightarrow> x | None \<Rightarrow> 1),
      lf_max_reduction = number_member ''max_reduction'' e,
      lf_base_multiplier = number_member ''base_multiplier'' e\<rparr>"

definition parse_layer_factors :: "json \<Rightarrow> costing_options \<Rightarrow> costing_options" where
  "parse_layer_factors j co = (case child_path [''geojson_layer_factors''] j of
     Some (JArray xs) \<Rightarrow> co\<lparr>layer_factors := layer_factors co @ map parse_layer_factor (filter is_object xs)\<rparr>
   | _ \<Rightarrow> co)"

definition hov_flags :: "string list" where
  "hov_flags = [''include_hot'', ''include_hov2'', ''include_hov3'']"

definition kFixedSpeedRange :: ranged_default where
  "kFixedSpeedRange = rng 0 0 kMaxSpeedKph"

definition ParseBaseCostOptions :: "lexer \<Rightarrow> base_config \<Rightarrow> json \<Rightarrow> costing_options \<Rightarrow> costing_options result" where
  "ParseBaseCostOptions lx cfg j co =
     (let co1 = parse_pruning lx j (parse_flags lx j traversal_flags (parse_name j (parse_flow_mask j co)))
      in bind_result (fold_result (parse_level lx j) [0, 1, 2] co1) (\<lambda>co2.
         bind_result (parse_ranges lx j (penalty_ranges cfg) co2) (\<lambda>co3.
         bind_result (parse_ranges lx j (preference_ranges cfg) (parse_flags lx j exclude_flags co3)) (\<lambda>co4.
         bind_result (pbf_ranged_v2 lx j (''use_lit'', ''use_lit'', use_lit cfg) co4) (\<lambda>co5.
         bind_result (parse_ranges lx j (comfort_ranges cfg) co5) (\<lambda>co6.
           pbf_ranged_uint_v2 lx j (''fixed_speed'', ''fixed_speed'', kFixedSpeedRange)
             (parse_flags lx j hov_flags (parse_layer_factors j co6))))))))"

section \<open>Every option ends within its range\<close>

definition fits_range :: "ranged_default \<Rightarrow> rat \<Rightarrow> bool" where
  "fits_range r v \<longleftrightarrow> rd_min r \<le> v \<and> v \<le> rd_max r"

definition sane :: "ranged_default \<Rightarrow> bool" where
  "sane r \<longleftrightarrow> fits_range r (rd_def r)"

text \<open>The options that a step may write, and the ones it leaves within a range.\<close>

definition holds_range :: "costing_options \<Rightarrow> string \<Rightarrow> ranged_default \<Rightarrow> bool" where
  "holds_range co n r \<longleftrightarrow> (case num co n of None \<Rightarrow> False | Some v \<Rightarrow> fits_range r v)"

lemma within_ranged: "sane r \<Longrightarrow> fits_range r (ranged r v)"
  by (auto simp: sane_def fits_range_def ranged_def)

lemma within_ranged_float: "sane r \<Longrightarrow> ranged_float r x = Inr v \<Longrightarrow> fits_range r v"
  using within_ranged [of r] by (auto simp: ranged_float_def sane_def split: float_value.splits)

lemma num_pbf:
  "pbf_ranged lx j (k, n, r) co = Inr co' \<Longrightarrow> \<exists>x v. ranged_float r x = Inr v \<and> num co' = (num co)(n \<mapsto> v)"
  "pbf_ranged_v2 lx j (k, n, r) co = Inr co' \<Longrightarrow> \<exists>x v. ranged_float r x = Inr v \<and> num co' = (num co)(n \<mapsto> v)"
  by (auto simp: pbf_ranged_def pbf_ranged_v2_def bind_result_eq_Inr; blast)+

lemma num_pbf_flag [options_lib]: "num (pbf_flag_v2 lx j f co) = num co"
  by (simp add: pbf_flag_v2_def split: prod.splits)

lemma num_flags [options_lib]: "num (parse_flags lx j fs co) = num co"
proof -
  have "num (foldl (\<lambda>co n. pbf_flag_v2 lx j (n, False) co) co fs) = num co"
    by (induction fs arbitrary: co) (simp_all add: options_lib)
  then show ?thesis by (simp add: parse_flags_def)
qed

lemma num_plain [options_lib]:
  "num (parse_flow_mask j co) = num co" "num (parse_name j co) = num co" "num (parse_pruning lx j co) = num co"
  "num (parse_layer_factors j co) = num co"
  by (auto simp: parse_flow_mask_def parse_name_def parse_pruning_def parse_layer_factors_def Let_def
      split: option.splits json.splits)

lemma num_level [options_lib]: "parse_level lx j l co = Inr co' \<Longrightarrow> num co' = num co"
  by (cases "get_float lx [''hierarchy_limits'', std_to_string l, ''expand_within_distance''] j kMaxDistance")
    (auto simp: parse_level_def bind_result_eq_Inr split: if_splits)

lemma num_levels [options_lib]: "fold_result (parse_level lx j) ls co = Inr co' \<Longrightarrow> num co' = num co"
  by (induction ls arbitrary: co) (auto simp: bind_result_eq_Inr dest: num_level)

lemma parse_ranges_other:
  "parse_ranges lx j rs co = Inr co' \<Longrightarrow> n \<notin> (\<lambda>(k, n, r). n) ` set rs \<Longrightarrow> num co' n = num co n"
  unfolding parse_ranges_def
  by (induction rs arbitrary: co) (auto simp: bind_result_eq_Inr dest!: num_pbf(1))

lemma parse_ranges_within:
  assumes "parse_ranges lx j rs co = Inr co'" and "(k, n, r) \<in> set rs" and "distinct (map (\<lambda>(k, n, r). n) rs)" and "sane r"
  shows "holds_range co' n r"
  using assms
proof (induction rs arbitrary: co)
  case (Cons x rs)
  obtain co1 where co1: "pbf_ranged lx j x co = Inr co1" "parse_ranges lx j rs co1 = Inr co'"
    using Cons.prems(1) by (auto simp: parse_ranges_def bind_result_eq_Inr)
  show ?case
  proof (cases "x = (k, n, r)")
    case True
    then have "n \<notin> (\<lambda>(k, n, r). n) ` set rs" using Cons.prems(3) by (auto simp: image_iff)
    moreover obtain v where "fits_range r v" "num co1 n = Some v"
      using num_pbf(1) [OF co1(1) [unfolded True]] within_ranged_float [OF Cons.prems(4)] by (metis fun_upd_same)
    ultimately show ?thesis using parse_ranges_other [OF co1(2)] by (simp add: holds_range_def)
  next
    case False
    then show ?thesis using Cons.IH [OF co1(2)] Cons.prems by simp
  qed
qed simp

lemma holds_range_cong: "num co' n = num co n \<Longrightarrow> holds_range co' n r = holds_range co n r"
  by (simp add: holds_range_def)

lemma num_fixed_speed:
  "pbf_ranged_uint_v2 lx j (k, m, r) co = Inr co' \<Longrightarrow> n \<noteq> m \<Longrightarrow> num co' n = num co n"
  by (auto simp: pbf_ranged_uint_v2_def bind_result_eq_Inr)

text \<open>
  The options of \<^verbatim>\<open>ParseBaseCostOptions\<close> with their ranges, and the state they are parsed from:
  the numeric options after each group depend on the groups alone.
\<close>

definition base_ranges :: "base_config \<Rightarrow> (string \<times> string \<times> ranged_default) list" where
  "base_ranges cfg = penalty_ranges cfg @ preference_ranges cfg @ [(''use_lit'', ''use_lit'', use_lit cfg)]
     @ comfort_ranges cfg"

definition option_names :: "(string \<times> string \<times> ranged_default) list \<Rightarrow> string list" where
  "option_names rs = map (\<lambda>(k, n, r). n) rs"

lemma distinct_base_names: "distinct (option_names (base_ranges cfg) @ [''fixed_speed''])"
  by (simp add: option_names_def base_ranges_def penalty_ranges_def preference_ranges_def comfort_ranges_def)

lemma parse_base_num:
  assumes "ParseBaseCostOptions lx cfg j co = Inr co'"
  obtains co2 co3 co3' co4 co5 co6 where "num co2 = num co"
    and "parse_ranges lx j (penalty_ranges cfg) co2 = Inr co3" and "num co3' = num co3"
    and "parse_ranges lx j (preference_ranges cfg) co3' = Inr co4"
    and "pbf_ranged_v2 lx j (''use_lit'', ''use_lit'', use_lit cfg) co4 = Inr co5"
    and "parse_ranges lx j (comfort_ranges cfg) co5 = Inr co6"
    and "\<forall>n. n \<noteq> ''fixed_speed'' \<longrightarrow> num co' n = num co6 n"
proof -
  obtain co2 co3 co4 co5 co6 where c: "fold_result (parse_level lx j) [0, 1, 2]
      (parse_pruning lx j (parse_flags lx j traversal_flags (parse_name j (parse_flow_mask j co)))) = Inr co2"
    "parse_ranges lx j (penalty_ranges cfg) co2 = Inr co3"
    "parse_ranges lx j (preference_ranges cfg) (parse_flags lx j exclude_flags co3) = Inr co4"
    "pbf_ranged_v2 lx j (''use_lit'', ''use_lit'', use_lit cfg) co4 = Inr co5"
    "parse_ranges lx j (comfort_ranges cfg) co5 = Inr co6"
    "pbf_ranged_uint_v2 lx j (''fixed_speed'', ''fixed_speed'', kFixedSpeedRange)
      (parse_flags lx j hov_flags (parse_layer_factors j co6)) = Inr co'"
    using assms by (auto simp: ParseBaseCostOptions_def bind_result_eq_Inr Let_def)
  show ?thesis
  proof (rule that [OF _ c(2) num_flags c(3-5)])
    show "num co2 = num co" using num_levels [OF c(1)] by (simp add: options_lib)
    show "\<forall>n. n \<noteq> ''fixed_speed'' \<longrightarrow> num co' n = num co6 n"
      using num_fixed_speed [OF c(6)] by (simp add: options_lib)
  qed
qed

lemma ParseBaseCostOptions_within:
  assumes p: "ParseBaseCostOptions lx cfg j co = Inr co'" and m: "(k, n, r) \<in> set (base_ranges cfg)" and s: "sane r"
  shows "holds_range co' n r"
proof -
  obtain co2 co3 co3' co4 co5 co6 where "num co2 = num co"
    and c: "parse_ranges lx j (penalty_ranges cfg) co2 = Inr co3" "num co3' = num co3"
    "parse_ranges lx j (preference_ranges cfg) co3' = Inr co4"
    "pbf_ranged_v2 lx j (''use_lit'', ''use_lit'', use_lit cfg) co4 = Inr co5"
    "parse_ranges lx j (comfort_ranges cfg) co5 = Inr co6" and fin: "\<forall>n. n \<noteq> ''fixed_speed'' \<longrightarrow> num co' n = num co6 n"
    using parse_base_num [OF p] .
  obtain x v where lit: "ranged_float (use_lit cfg) x = Inr v" "num co5 = (num co4)(''use_lit'' \<mapsto> v)"
    using num_pbf(2) [OF c(4)] by blast
  let ?names = "\<lambda>rs. (\<lambda>(k, n, r). n) ` set rs"
  have d: "distinct (map (\<lambda>(k, n, r). n) (base_ranges cfg))" and fs: "n \<noteq> ''fixed_speed''"
    using distinct_base_names [of cfg] m by (force simp: option_names_def)+
  have sep: "?names (penalty_ranges cfg) \<inter> ?names (preference_ranges cfg) = {}"
    "?names (penalty_ranges cfg) \<inter> ?names (comfort_ranges cfg) = {}"
    "?names (preference_ranges cfg) \<inter> ?names (comfort_ranges cfg) = {}"
    "''use_lit'' \<notin> ?names (penalty_ranges cfg)" "''use_lit'' \<notin> ?names (preference_ranges cfg)"
    "''use_lit'' \<notin> ?names (comfort_ranges cfg)"
    by (auto simp: penalty_ranges_def preference_ranges_def comfort_ranges_def)
  have dd: "distinct (map (\<lambda>(k, n, r). n) (penalty_ranges cfg))" "distinct (map (\<lambda>(k, n, r). n) (preference_ranges cfg))"
    "distinct (map (\<lambda>(k, n, r). n) (comfort_ranges cfg))"
    using d by (simp_all only: base_ranges_def map_append distinct_append)
  have img: "n \<in> ?names rs" if "(k, n, r) \<in> set rs" for rs
    using that by force
  have notin: "n \<notin> B" if "A \<inter> B = {}" "n \<in> A" for A B :: "string set"
    using that by auto
  note late = fin [rule_format, OF fs] parse_ranges_other [OF c(5)]
  consider "(k, n, r) \<in> set (penalty_ranges cfg)" | "(k, n, r) \<in> set (preference_ranges cfg)"
    | "n = ''use_lit''" "r = use_lit cfg" | "(k, n, r) \<in> set (comfort_ranges cfg)"
    using m by (auto simp: base_ranges_def)
  then show ?thesis
  proof cases
    case 1
    have "n \<notin> ?names (preference_ranges cfg)" "n \<notin> ?names (comfort_ranges cfg)" "n \<noteq> ''use_lit''"
      by (rule notin [OF sep(1) img [OF 1]]) (rule notin [OF sep(2) img [OF 1]], use img [OF 1] sep(4) in metis)
    then show ?thesis
      using parse_ranges_within [OF c(1) 1 dd(1) s] late parse_ranges_other [OF c(3)] c(2) lit(2)
      by (simp add: holds_range_def)
  next
    case 2
    have "n \<notin> ?names (comfort_ranges cfg)" "n \<noteq> ''use_lit''"
      by (rule notin [OF sep(3) img [OF 2]]) (use img [OF 2] sep(5) in metis)
    then show ?thesis
      using parse_ranges_within [OF c(3) 2 dd(2) s] late lit(2) by (simp add: holds_range_def)
  next
    case 3
    then show ?thesis
      using within_ranged_float [OF s lit(1) [folded 3(2)]] late lit(2) sep(6) by (simp add: holds_range_def)
  next
    case 4
    then show ?thesis
      using parse_ranges_within [OF c(5) 4 dd(3) s] late by (simp add: holds_range_def)
  qed
qed

end
