(* ===== verification/Base_Cost.thy ===== *)
theory Base_Cost
  imports Cost_Options Directed_Edge
begin

text \<open>
  \<^verbatim>\<open>DynamicCost\<close> (\<^verbatim>\<open>valhalla/sif/dynamiccost.h\<close>, \<^verbatim>\<open>src/sif/dynamiccost.cc\<close>), the part all costing
  models share: the members set from the options (\<^verbatim>\<open>get_base_costs\<close>), the cost multiplier of the
  supplemental environment layers, the tree canopy discount (with the constants of each of
  the six costing models), the cost of a transition between edges and the access checks.
  All arithmetic is on \<^verbatim>\<open>float\<close>: every operation rounds with \<open>f32\<close>.

  The lemmas bound the discounts and show that they only ever lower a cost, the more the
  higher the scores.
\<close>

section \<open>Costs\<close>

abbreviation fadd :: "rat \<Rightarrow> rat \<Rightarrow> rat" where "fadd x y \<equiv> f32 (x + y)"
abbreviation fsub :: "rat \<Rightarrow> rat \<Rightarrow> rat" where "fsub x y \<equiv> f32 (x - y)"
abbreviation fmul :: "rat \<Rightarrow> rat \<Rightarrow> rat" where "fmul x y \<equiv> f32 (x * y)"
abbreviation fdiv :: "rat \<Rightarrow> rat \<Rightarrow> rat" where "fdiv x y \<equiv> f32 (x / y)"

record cost =
  cost :: rat
  secs :: rat

definition zero_cost :: cost where
  "zero_cost = \<lparr>cost = 0, secs = 0\<rparr>"

definition cost_add :: "cost \<Rightarrow> cost \<Rightarrow> cost" where
  "cost_add a b = \<lparr>cost = fadd (cost a) (cost b), secs = fadd (secs a) (secs b)\<rparr>"

definition cost_scale :: "cost \<Rightarrow> rat \<Rightarrow> cost" where
  "cost_scale a f = \<lparr>cost = fmul (cost a) f, secs = fmul (secs a) f\<rparr>"

definition cost_less :: "cost \<Rightarrow> cost \<Rightarrow> bool" where
  "cost_less a b \<longleftrightarrow> cost a < cost b"

text \<open>\<^verbatim>\<open>c.cost += penalty\<close>, the additional penalties without any time.\<close>

definition add_penalty :: "rat \<Rightarrow> bool \<Rightarrow> cost \<Rightarrow> cost" where
  "add_penalty p cond c = c\<lparr>cost := fadd (cost c) (fmul p (of_bool cond))\<rparr>"

section \<open>The members\<close>

record dynamic_cost =
  dc_pass :: nat
  allow_transit_connections :: bool
  allow_destination_only :: bool
  allow_conditional_destination :: bool
  access_mask :: "12 word"
  ferry_factor :: rat
  rail_ferry_factor :: rat
  track_factor :: rat
  living_street_factor :: rat
  dc_service_factor :: rat
  dc_closure_factor :: rat
  unlit_factor :: rat
  canopy_factor :: rat
  default_base_multiplier :: rat
  default_max_reduction :: rat
  geojson_factors :: "rat list"
  geojson_max_reduction :: "rat list"
  geojson_base_multipliers :: "rat list"
  country_crossing :: cost
  gate :: cost
  private_access :: cost
  toll_booth :: cost
  ferry_transition :: cost
  bike_share :: cost
  rail_ferry_transition :: cost
  dc_maneuver_penalty :: rat
  dc_alley_penalty :: rat
  destination_only_penalty :: rat
  living_street_penalty :: rat
  track_penalty :: rat
  dc_service_penalty :: rat
  shortest :: bool
  ignore_restrictions :: bool
  ignore_non_vehicular_restrictions :: bool
  ignore_turn_restrictions :: bool
  ignore_oneways :: bool
  ignore_access :: bool
  ignore_closures :: bool
  ignore_construction :: bool
  penalize_uturns :: bool
  exclude_bridges :: bool
  exclude_tunnels :: bool
  exclude_tolls :: bool
  exclude_highways :: bool
  exclude_ferries :: bool
  has_excludes :: bool
  exclude_cash_only_tolls :: bool
  user_exclude_edges :: "(u64 \<times> rat) list"
  is_hgv :: bool
  dc_flow_mask :: u8
  dc_fixed_speed :: nat
  dc_top_speed :: nat
  restriction_probability :: u8
  exclude_unpaved :: bool
  default_hierarchy_limits :: bool

text \<open>An option that is not set reads as zero.\<close>

definition opt :: "costing_options \<Rightarrow> string \<Rightarrow> rat" where
  "opt co n = num_or 0 n co"

definition kMaxGeoJsonLayers_cost :: nat where
  "kMaxGeoJsonLayers_cost = 4"

text \<open>The penalty and the factor of a ferry for the preference to use it.\<close>

definition ferry_penalty_of :: "rat \<Rightarrow> rat" where
  "ferry_penalty_of use = (if use < 1 / 2 then f32 (of_int (c_trunc (fmul kMaxFerryPenalty (fsub 1 (fmul use 2))))) else 0)"

definition ferry_factor_of :: "rat \<Rightarrow> rat" where
  "ferry_factor_of use = (if use < 1 / 2 then fsub 10 (fmul use 18) else fsub (3 / 2) use)"

definition set_use_tracks :: "rat \<Rightarrow> dynamic_cost \<Rightarrow> dynamic_cost" where
  "set_use_tracks use d = d\<lparr>
     track_penalty := (if use < 1 / 2 then fmul 300 (fsub 1 (fmul 2 use)) else 0),
     track_factor := (if use < 1 / 2 then fsub 4 (fmul (fmul 2 use) (fsub 4 1))
       else fadd (f32 (4 / 5)) (fmul (fmul 2 (fsub 1 use)) (fsub 1 (f32 (4 / 5)))))\<rparr>"

definition set_use_living_streets :: "rat \<Rightarrow> dynamic_cost \<Rightarrow> dynamic_cost" where
  "set_use_living_streets use d = d\<lparr>
     living_street_penalty := (if use < 1 / 2 then fmul 500 (fsub 1 (fmul 2 use)) else 0),
     living_street_factor := (if use < 1 / 2 then fsub 3 (fmul (fmul 2 use) (fsub 3 1))
       else fadd (f32 (4 / 5)) (fmul (fmul 2 (fsub 1 use)) (fsub 1 (f32 (4 / 5)))))\<rparr>"

definition set_use_lit :: "rat \<Rightarrow> dynamic_cost \<Rightarrow> dynamic_cost" where
  "set_use_lit use d = d\<lparr>unlit_factor :=
     (if use < 1 / 2 then fadd 1 (fmul 2 use) else fadd (fsub 1 5) (fmul 12 use))\<rparr>"

text \<open>One entry of \<^verbatim>\<open>geojson_layer_factors\<close>; entries for slots that do not exist are ignored.\<close>

definition apply_layer_factor :: "dynamic_cost \<Rightarrow> layer_factor \<Rightarrow> dynamic_cost" where
  "apply_layer_factor d lf =
     (if lf_slot lf < length (geojson_factors d)
      then let i = lf_slot lf;
               d1 = d\<lparr>geojson_factors := (geojson_factors d)[i := max 0 (min (lf_factor lf) 2)]\<rparr>;
               d2 = (case lf_base_multiplier lf of
                   Some b \<Rightarrow> if 0 < b then d1\<lparr>geojson_base_multipliers := (geojson_base_multipliers d1)[i := b]\<rparr> else d1
                 | None \<Rightarrow> d1)
           in (case lf_max_reduction lf of
                 Some m \<Rightarrow> let cap = min (max m 0) (f32 (99 / 100))
                   in if 0 < cap then d2\<lparr>geojson_max_reduction := (geojson_max_reduction d2)[i := cap]\<rparr> else d2
               | None \<Rightarrow> d2)
      else d)"

definition fill_layers :: "dynamic_cost \<Rightarrow> dynamic_cost" where
  "fill_layers d = d\<lparr>
     geojson_factors := replicate kMaxGeoJsonLayers_cost 1,
     geojson_base_multipliers := replicate kMaxGeoJsonLayers_cost (default_base_multiplier d),
     geojson_max_reduction := replicate kMaxGeoJsonLayers_cost (default_max_reduction d)\<rparr>"

definition set_default_geojson_scaling :: "rat \<Rightarrow> rat \<Rightarrow> dynamic_cost \<Rightarrow> dynamic_cost" where
  "set_default_geojson_scaling b m d = d\<lparr>default_base_multiplier := b, default_max_reduction := m\<rparr>"

definition penalized :: "costing_options \<Rightarrow> string \<Rightarrow> string \<Rightarrow> cost" where
  "penalized co c p = \<lparr>cost = fadd (opt co c) (opt co p), secs = opt co c\<rparr>"

definition get_base_costs :: "costing_options \<Rightarrow> dynamic_cost \<Rightarrow> dynamic_cost" where
  "get_base_costs co d =
     (let d1 = d\<lparr>dc_alley_penalty := opt co ''alley_penalty'',
            destination_only_penalty := opt co ''destination_only_penalty'',
            dc_maneuver_penalty := opt co ''maneuver_penalty'',
            toll_booth := penalized co ''toll_booth_cost'' ''toll_booth_penalty'',
            country_crossing := penalized co ''country_crossing_cost'' ''country_crossing_penalty'',
            gate := penalized co ''gate_cost'' ''gate_penalty'',
            private_access := penalized co ''gate_cost'' ''private_access_penalty'',
            bike_share := penalized co ''bike_share_cost'' ''bike_share_penalty'',
            ferry_factor := ferry_factor_of (opt co ''use_ferry''),
            ferry_transition := \<lparr>cost = fadd (opt co ''ferry_cost'') (ferry_penalty_of (opt co ''use_ferry'')),
              secs = opt co ''ferry_cost''\<rparr>,
            rail_ferry_factor := ferry_factor_of (opt co ''use_rail_ferry''),
            rail_ferry_transition := \<lparr>cost = fadd (opt co ''rail_ferry_cost'') (ferry_penalty_of (opt co ''use_rail_ferry'')),
              secs = opt co ''rail_ferry_cost''\<rparr>\<rparr>;
          d2 = set_use_lit (opt co ''use_lit'') (set_use_living_streets (opt co ''use_living_streets'')
            (set_use_tracks (opt co ''use_tracks'') d1));
          d3 = d2\<lparr>dc_service_penalty := opt co ''service_penalty'', dc_service_factor := opt co ''service_factor'',
            dc_closure_factor := opt co ''closure_factor'',
            canopy_factor := num_or 1 ''tree_canopy_factor'' co\<rparr>;
          d4 = foldl apply_layer_factor (fill_layers d3) (layer_factors co);
          b = flag co ''exclude_bridges''; t = flag co ''exclude_tunnels''; l = flag co ''exclude_tolls'';
          h = flag co ''exclude_highways''; f = flag co ''exclude_ferries''
      in d4\<lparr>exclude_bridges := b, exclude_tunnels := t, exclude_tolls := l, exclude_highways := h,
           exclude_ferries := f, has_excludes := b \<or> t \<or> l \<or> h \<or> f,
           exclude_cash_only_tolls := flag co ''exclude_cash_only_tolls'',
           restriction_probability := word_of_int (c_trunc (opt co ''restriction_probability'')),
           dc_flow_mask := (case flow_mask co of None \<Rightarrow> 0 | Some m \<Rightarrow> ucast m),
           dc_fixed_speed := nat (c_trunc (opt co ''fixed_speed'')),
           dc_top_speed := (if opt co ''fixed_speed'' = 0 then nat (c_trunc (opt co ''top_speed''))
             else nat (c_trunc (opt co ''fixed_speed''))),
           exclude_unpaved := flag co ''exclude_unpaved'',
           default_hierarchy_limits := (hierarchy co = [])\<rparr>)"

text \<open>The constructor. Hierarchy limits are not members of the model.\<close>

definition new_dynamic_cost :: "costing_options \<Rightarrow> 12 word \<Rightarrow> bool \<Rightarrow> bool \<Rightarrow> dynamic_cost" where
  "new_dynamic_cost co acc uturns truck =
     \<lparr>dc_pass = 0, allow_transit_connections = False, allow_destination_only = True,
      allow_conditional_destination = False, access_mask = acc, ferry_factor = 0, rail_ferry_factor = 0,
      track_factor = 0, living_street_factor = 0, dc_service_factor = 0, dc_closure_factor = 9, unlit_factor = 0,
      canopy_factor = 0, default_base_multiplier = 1 / 4, default_max_reduction = 1 / 2, geojson_factors = [],
      geojson_max_reduction = [], geojson_base_multipliers = [], country_crossing = zero_cost, gate = zero_cost,
      private_access = zero_cost, toll_booth = zero_cost, ferry_transition = zero_cost, bike_share = zero_cost,
      rail_ferry_transition = zero_cost, dc_maneuver_penalty = 0, dc_alley_penalty = 0, destination_only_penalty = 0,
      living_street_penalty = 0, track_penalty = 0, dc_service_penalty = 0, shortest = flag co ''shortest'',
      ignore_restrictions = flag co ''ignore_restrictions'',
      ignore_non_vehicular_restrictions = flag co ''ignore_non_vehicular_restrictions'',
      ignore_turn_restrictions = (flag co ''ignore_restrictions'' \<or> flag co ''ignore_non_vehicular_restrictions''),
      ignore_oneways = flag co ''ignore_oneways'', ignore_access = flag co ''ignore_access'',
      ignore_closures = flag co ''ignore_closures'', ignore_construction = flag co ''ignore_construction'',
      penalize_uturns = uturns, exclude_bridges = False, exclude_tunnels = False,
      exclude_tolls = False, exclude_highways = False, exclude_ferries = False, has_excludes = False,
      exclude_cash_only_tolls = False, user_exclude_edges = exclude_edges co, is_hgv = truck,
      dc_flow_mask = ucast kDefaultFlowMask, dc_fixed_speed = nat (c_trunc (opt co ''fixed_speed'')),
      dc_top_speed = nat (c_trunc (opt co ''top_speed'')), restriction_probability = 0, exclude_unpaved = False,
      default_hierarchy_limits = True\<rparr>"

definition no_options :: costing_options where
  "no_options = \<lparr>num = Map.empty, flag = (\<lambda>_. False), flow_mask = None, costing_name = [], transport_type = None,
     hierarchy = [], layer_factors = [], exclude_edges = []\<rparr>"

section \<open>Discounts for shade and comfort\<close>

text \<open>The reduction of one layer, and the loop of \<^verbatim>\<open>GeoJsonCostMultiplier\<close>.\<close>

definition layer_reduction :: "rat \<Rightarrow> rat \<Rightarrow> rat \<Rightarrow> u8 \<Rightarrow> rat" where
  "layer_reduction factor base cap score =
     min (min (fmul (fmul (fdiv (of_nat (unat score)) 255) base) factor) cap) (f32 (99 / 100))"

definition layer_step :: "dynamic_cost \<Rightarrow> u8 list \<Rightarrow> rat \<Rightarrow> nat \<Rightarrow> rat" where
  "layer_step d scores multiplier i =
     (let factor = geojson_factors d ! i; base = geojson_base_multipliers d ! i; cap = geojson_max_reduction d ! i
      in if scores ! i = 0 \<or> factor \<le> 0 \<or> base \<le> 0 \<or> cap \<le> 0 then multiplier
         else fmul multiplier (fsub 1 (layer_reduction factor base cap (scores ! i))))"

definition GeoJsonCostMultiplier :: "dynamic_cost \<Rightarrow> u8 list \<Rightarrow> rat" where
  "GeoJsonCostMultiplier d scores = foldl (layer_step d scores) 1 [0..<kMaxGeoJsonLayers_cost]"

text \<open>The tree canopy discount: the same code in every costing model, with its own constants.\<close>

definition canopy_reduction :: "rat \<Rightarrow> rat \<Rightarrow> rat \<Rightarrow> u8 \<Rightarrow> rat" where
  "canopy_reduction base cap factor score =
     min (fmul (fmul (fdiv (of_nat (unat score)) 127) base) factor) cap"

definition comfort_discount :: "rat \<Rightarrow> rat \<Rightarrow> dynamic_cost \<Rightarrow> environment_scores \<Rightarrow> rat \<Rightarrow> rat" where
  "comfort_discount base cap d env factor =
     (let f1 = (if 0 < tree_canopy env \<and> 0 < canopy_factor d
          then fmul factor (fsub 1 (canopy_reduction base cap (canopy_factor d) (tree_canopy env))) else factor)
      in fmul f1 (GeoJsonCostMultiplier d (layer_scores env)))"

definition pedestrian_discount :: "dynamic_cost \<Rightarrow> environment_scores \<Rightarrow> rat \<Rightarrow> rat" where
  "pedestrian_discount = comfort_discount (f32 (45 / 100)) (f32 (9 / 10))"

definition bicycle_discount :: "dynamic_cost \<Rightarrow> environment_scores \<Rightarrow> rat \<Rightarrow> rat" where
  "bicycle_discount = comfort_discount (f32 (425 / 1000)) (f32 (85 / 100))"

definition auto_discount :: "dynamic_cost \<Rightarrow> environment_scores \<Rightarrow> rat \<Rightarrow> rat" where
  "auto_discount = comfort_discount (f32 (4 / 10)) (f32 (8 / 10))"

definition truck_discount :: "dynamic_cost \<Rightarrow> environment_scores \<Rightarrow> rat \<Rightarrow> rat" where
  "truck_discount = comfort_discount (f32 (4 / 10)) (f32 (8 / 10))"

definition motorcycle_discount :: "dynamic_cost \<Rightarrow> environment_scores \<Rightarrow> rat \<Rightarrow> rat" where
  "motorcycle_discount = comfort_discount (f32 (4 / 10)) (f32 (8 / 10))"

definition motorscooter_discount :: "dynamic_cost \<Rightarrow> environment_scores \<Rightarrow> rat \<Rightarrow> rat" where
  "motorscooter_discount = comfort_discount (f32 (4 / 10)) (f32 (8 / 10))"

section \<open>Access\<close>

text \<open>The label of the edge before, as far as the costs and checks read it.\<close>

record edge_label =
  pred_use :: nat
  pred_destonly :: bool
  pred_toll :: bool
  pred_bridge :: bool
  pred_tunnel :: bool
  pred_classification :: nat
  pred_deadend :: bool
  pred_opp_local_idx :: nat
  pred_pedestrian :: bool
  pred_path_distance :: u32

definition kRoad :: nat where "kRoad = 0"
definition kTrack :: nat where "kTrack = 3"
definition kDriveway :: nat where "kDriveway = 4"
definition kAlley :: nat where "kAlley = 5"
definition kLivingStreet :: nat where "kLivingStreet = 10"
definition kServiceRoad :: nat where "kServiceRoad = 11"
definition kSidewalk :: nat where "kSidewalk = 24"
definition kFootway :: nat where "kFootway = 25"
definition kSteps :: nat where "kSteps = 26"
definition kElevator :: nat where "kElevator = 33"
definition kFerry :: nat where "kFerry = 41"
definition kRailFerry :: nat where "kRailFerry = 42"
definition kConstruction :: nat where "kConstruction = 43"
definition kEgressConnection :: nat where "kEgressConnection = 52"
definition kPlatformConnection :: nat where "kPlatformConnection = 53"
definition kTransitConnection :: nat where "kTransitConnection = 54"

definition use_of :: "directed_edge \<Rightarrow> nat" where
  "use_of e = unat (de_use e)"

definition kAllAccess :: "12 word" where
  "kAllAccess = 4095"

definition IsAccessible :: "dynamic_cost \<Rightarrow> directed_edge \<Rightarrow> bool" where
  "IsAccessible d e \<longleftrightarrow>
     de_forwardaccess e AND access_mask d \<noteq> 0
     \<or> ignore_access d \<and> de_forwardaccess e AND kAllAccess \<noteq> 0
     \<or> ignore_oneways d \<and> de_reverseaccess e AND access_mask d \<noteq> 0
     \<or> ignore_construction d \<and> use_of e = kConstruction"

definition IsUserAvoidEdge :: "dynamic_cost \<Rightarrow> u64 \<Rightarrow> bool" where
  "IsUserAvoidEdge d edgeid \<longleftrightarrow> user_exclude_edges d \<noteq> [] \<and> edgeid \<in> fst ` set (user_exclude_edges d)"

definition CheckExclusions :: "dynamic_cost \<Rightarrow> directed_edge \<Rightarrow> edge_label \<Rightarrow> bool" where
  "CheckExclusions d e pred \<longleftrightarrow> has_excludes d \<and>
     (exclude_bridges d \<and> \<not> pred_bridge pred \<and> de_bridge e
      \<or> exclude_tunnels d \<and> \<not> pred_tunnel pred \<and> de_tunnel e
      \<or> exclude_tolls d \<and> \<not> pred_toll pred \<and> de_toll e
      \<or> exclude_highways d \<and> pred_classification pred \<noteq> 0 \<and> de_classification e = 0
      \<or> exclude_ferries d \<and> \<not> (pred_use pred = kFerry \<or> pred_use pred = kRailFerry)
          \<and> (use_of e = kFerry \<or> use_of e = kRailFerry))"

text \<open>The check of an edge for the search of locations: accessible and not ruled out by the mask.\<close>

definition kDisallowStartRestriction :: u16 where "kDisallowStartRestriction = 0x1"
definition kDisallowEndRestriction :: u16 where "kDisallowEndRestriction = 0x2"
definition kDisallowSimpleRestriction :: u16 where "kDisallowSimpleRestriction = 0x4"
definition kDisallowShortcut :: u16 where "kDisallowShortcut = 0x10"

definition Allowed_edge :: "dynamic_cost \<Rightarrow> directed_edge \<Rightarrow> u16 \<Rightarrow> bool" where
  "Allowed_edge d e disallow =
     (let acc = (if ignore_access d then kAllAccess else access_mask d);
          accessible = (de_forwardaccess e AND acc \<noteq> 0 \<or> ignore_oneways d \<and> de_reverseaccess e AND acc \<noteq> 0);
          restricted = (disallow AND kDisallowStartRestriction \<noteq> 0 \<and> de_start_restriction e \<noteq> 0
            \<or> disallow AND kDisallowEndRestriction \<noteq> 0 \<and> de_end_restriction e \<noteq> 0
            \<or> disallow AND kDisallowSimpleRestriction \<noteq> 0 \<and> de_restrictions e \<noteq> 0
            \<or> disallow AND kDisallowShortcut \<noteq> 0 \<and> de_is_shortcut e)
      in accessible \<and> \<not> restricted \<and> (use_of e \<noteq> kConstruction \<or> ignore_construction d))"

record node_info =
  node_type :: nat
  node_access :: "12 word"
  tagged_access :: bool
  node_private_access :: bool
  cash_only_toll :: bool

definition Allowed_node :: "dynamic_cost \<Rightarrow> node_info \<Rightarrow> bool" where
  "Allowed_node d n \<longleftrightarrow> (node_access n AND access_mask d \<noteq> 0 \<or> ignore_access d)
     \<and> \<not> (exclude_cash_only_tolls d \<and> cash_only_toll n)"

section \<open>Transitions\<close>

definition kGate :: nat where "kGate = 1"
definition kBollard :: nat where "kBollard = 2"
definition kTollBooth :: nat where "kTollBooth = 3"
definition kBikeShare :: nat where "kBikeShare = 7"
definition kBorderControl :: nat where "kBorderControl = 10"
definition kElevatorNode :: nat where "kElevatorNode = 14"

definition cost_if :: "cost \<Rightarrow> bool \<Rightarrow> cost" where
  "cost_if c b = cost_scale c (of_bool b)"

definition enters :: "nat \<Rightarrow> directed_edge \<Rightarrow> edge_label \<Rightarrow> bool" where
  "enters u e pred \<longleftrightarrow> use_of e = u \<and> pred_use pred \<noteq> u"

definition base_transition_cost :: "dynamic_cost \<Rightarrow> node_info \<Rightarrow> directed_edge \<Rightarrow> edge_label \<Rightarrow> nat \<Rightarrow> cost" where
  "base_transition_cost d n e pred idx =
     (let c1 = cost_add zero_cost (cost_if (country_crossing d) (node_type n = kBorderControl));
          c2 = cost_add c1 (cost_if (cost_if (gate d) (node_type n = kGate)) (\<not> tagged_access n));
          c3 = cost_add c2 (cost_if (cost_if (private_access d) (node_type n = kGate \<or> node_type n = kBollard))
                 (node_private_access n));
          c4 = cost_add c3 (cost_if (bike_share d) (node_type n = kBikeShare));
          c5 = cost_add c4 (cost_if (toll_booth d) (node_type n = kTollBooth \<or> de_toll e \<and> \<not> pred_toll pred));
          c6 = cost_add c5 (cost_if (ferry_transition d) (enters kFerry e pred));
          c7 = cost_add c6 (cost_if (rail_ferry_transition d) (enters kRailFerry e pred));
          destonly = (is_hgv d \<and> de_dest_only_hgv e \<or> \<not> is_hgv d \<and> de_dest_only e);
          c8 = add_penalty (destination_only_penalty d) (destonly \<and> \<not> pred_destonly pred) c7;
          c9 = add_penalty (dc_alley_penalty d) (enters kAlley e pred) c8;
          c10 = add_penalty (dc_maneuver_penalty d) (\<not> de_link e \<and> \<not> name_consistency e idx) c9;
          c11 = add_penalty (living_street_penalty d) (enters kLivingStreet e pred) c10;
          c12 = add_penalty (track_penalty d) (enters kTrack e pred) c11;
          c13 = c12\<lparr>cost := fadd (cost c12) (fmul (fmul (dc_service_penalty d) (of_bool (enters kServiceRoad e pred)))
                  (of_bool (\<not> de_internal e)))\<rparr>
      in c13\<lparr>cost := fmul (cost c13) (of_bool (\<not> shortest d))\<rparr>)"

section \<open>Monotonicity of rounded arithmetic\<close>

lemma fmul_mono: "0 \<le> x \<Longrightarrow> x \<le> x' \<Longrightarrow> 0 \<le> y \<Longrightarrow> y \<le> y' \<Longrightarrow> fmul x y \<le> fmul x' y'"
  by (rule float32.mono) (rule mult_mono, simp_all)

lemma fmul_nonneg: "0 \<le> x \<Longrightarrow> 0 \<le> y \<Longrightarrow> 0 \<le> fmul x y"
  by (rule float32.nonneg) simp

lemma fsub_antimono: "y \<le> y' \<Longrightarrow> fsub x y' \<le> fsub x y"
  by (rule float32.mono) simp

lemma fdiv_mono: "x \<le> x' \<Longrightarrow> 0 < y \<Longrightarrow> fdiv x y \<le> fdiv x' y"
  by (rule float32.mono) (simp add: divide_right_mono)

lemma f32_idem [simp]: "f32 (f32 x) = f32 x"
  by (rule float32.idem)

lemma f32_le_1: "x \<le> 1 \<Longrightarrow> f32 x \<le> 1"
  by (rule float32.le_1)

text \<open>Powers of two bound what rounding can do from below.\<close>

lemma f32_powi: "- 149 \<le> e \<Longrightarrow> f32 (2 powi e) = 2 powi e"
  unfolding f32_def using fl_exact [of 1 24 "- 149" e] by simp

lemma f32_ge_powi: "2 powi e \<le> x \<Longrightarrow> - 149 \<le> e \<Longrightarrow> 2 powi e \<le> f32 x"
  using float32.mono [of "2 powi e" x] by (simp add: f32_powi)

lemma fmul_ge_powi:
  assumes "2 powi a \<le> x" "2 powi b \<le> y" "- 149 \<le> a + b"
  shows "2 powi (a + b) \<le> fmul x y"
proof (rule f32_ge_powi)
  have "(2::rat) powi a * 2 powi b \<le> x * y"
    using assms(1,2) by (intro mult_mono) (auto intro: order_trans [of 0 "2 powi a"])
  then show "2 powi (a + b) \<le> x * y" by (simp add: power_int_add)
qed (rule assms(3))

section \<open>The discounts\<close>

lemma score_ratio_nonneg: "0 < y \<Longrightarrow> 0 \<le> fdiv (of_nat n) y"
  by (rule float32.nonneg) simp

lemma c099: "f32 (99 / 100) \<le> 127 / 128" "0 \<le> f32 (99 / 100)"
  by (simp_all add: float_eval)

lemma layer_reduction_mono:
  "0 \<le> factor \<Longrightarrow> 0 \<le> base \<Longrightarrow> unat s \<le> unat s' \<Longrightarrow> layer_reduction factor base cap s \<le> layer_reduction factor base cap s'"
  unfolding layer_reduction_def
  by (intro min.mono order_refl fmul_mono fdiv_mono score_ratio_nonneg fmul_nonneg of_nat_mono) (assumption | simp)+

lemma layer_reduction_bounds:
  assumes "0 \<le> factor" "0 \<le> base" "0 \<le> cap"
  shows "0 \<le> layer_reduction factor base cap s" and "layer_reduction factor base cap s \<le> 127 / 128"
proof -
  have "0 \<le> fmul (fmul (fdiv (of_nat (unat s)) 255) base) factor"
    using assms by (intro fmul_nonneg score_ratio_nonneg) simp_all
  then show "0 \<le> layer_reduction factor base cap s" using assms c099 by (simp add: layer_reduction_def)
  show "layer_reduction factor base cap s \<le> 127 / 128"
    using c099 by (simp add: layer_reduction_def min_def)
qed

text \<open>One minus a reduction of at most \<open>127 / 128\<close>.\<close>

lemma one_minus_bounds:
  assumes "0 \<le> r" "r \<le> 127 / 128"
  shows "fsub 1 r \<le> 1" and "2 powi (- 7) \<le> fsub 1 r"
proof -
  show "fsub 1 r \<le> 1" using assms by (intro f32_le_1) simp
  show "2 powi (- 7) \<le> fsub 1 r" using assms by (intro f32_ge_powi) (simp_all add: power_int_minus)
qed

lemma discount_step:
  assumes f: "f32 m = m" "0 \<le> m" and r: "0 \<le> r" "r \<le> 127 / 128"
  shows "fmul m (fsub 1 r) \<le> m" and "0 \<le> fmul m (fsub 1 r)"
proof -
  note b = one_minus_bounds [OF r]
  have "fmul m (fsub 1 r) \<le> fmul m 1" using f b by (intro fmul_mono) (auto intro: order_trans [OF _ b(2)])
  then show "fmul m (fsub 1 r) \<le> m" using f by simp
  show "0 \<le> fmul m (fsub 1 r)" using f(2) order_trans [OF _ b(2), of 0] by (intro fmul_nonneg) simp_all
qed

text \<open>Higher scores give a smaller multiplier, and it stays in \<open>[0, 1]\<close>.\<close>

definition scores_le :: "u8 list \<Rightarrow> u8 list \<Rightarrow> bool" where
  "scores_le s s' \<longleftrightarrow> list_all2 (\<lambda>x y. x \<le> y) s s'"

lemma scores_le_nth: "scores_le s s' \<Longrightarrow> i < length s \<Longrightarrow> unat (s ! i) \<le> unat (s' ! i)"
  by (simp add: scores_le_def list_all2_conv_all_nth word_le_nat_alt)

lemma layer_step_antimono:
  assumes s: "unat (s ! i) \<le> unat (s' ! i)" and m: "f32 m = m" "f32 m' = m'" "0 \<le> m'" "m' \<le> m"
  shows "layer_step d s' m' i \<le> layer_step d s m i" and "0 \<le> layer_step d s' m' i"
    and "f32 (layer_step d s m i) = layer_step d s m i"
proof -
  define f b c where "f = geojson_factors d ! i" and "b = geojson_base_multipliers d ! i" and "c = geojson_max_reduction d ! i"
  let ?r = "layer_reduction f b c (s ! i)" and ?r' = "layer_reduction f b c (s' ! i)"
  have step: "layer_step d t k i = (if t ! i = 0 \<or> f \<le> 0 \<or> b \<le> 0 \<or> c \<le> 0 then k
      else fmul k (fsub 1 (layer_reduction f b c (t ! i))))" for t k
    by (simp add: layer_step_def f_def b_def c_def Let_def)
  show "f32 (layer_step d s m i) = layer_step d s m i" using m(1) by (simp add: step)
  show "0 \<le> layer_step d s' m' i"
    using m(2,3) layer_reduction_bounds [of f b c "s' ! i"] discount_step(2) [of m' ?r'] by (simp add: step)
  show "layer_step d s' m' i \<le> layer_step d s m i"
  proof (cases "f \<le> 0 \<or> b \<le> 0 \<or> c \<le> 0")
    case True
    then show ?thesis using m(4) by (auto simp: step)
  next
    case False
    then have r: "0 \<le> ?r" "?r \<le> 127 / 128" "0 \<le> ?r'" "?r' \<le> 127 / 128" "?r \<le> ?r'"
      using layer_reduction_bounds [of f b c] layer_reduction_mono [of f b "s ! i" "s' ! i" c] s by simp_all
    show ?thesis
    proof (cases "s ! i = 0")
      case True
      then show ?thesis using False m discount_step(1) [of m' ?r'] r by (auto simp: step)
    next
      case nz: False
      then have "s' ! i \<noteq> 0" using s by (auto simp: unat_eq_0)
      moreover have "fmul m' (fsub 1 ?r') \<le> fmul m (fsub 1 ?r)"
        using m r order_trans [OF _ one_minus_bounds(2) [OF r(3,4)], of 0]
        by (intro fmul_mono fsub_antimono) simp_all
      ultimately show ?thesis using False nz by (simp add: step)
    qed
  qed
qed

lemma layer_step_le:
  assumes "f32 m = m" "0 \<le> m" shows "layer_step d s m i \<le> m" and "0 \<le> layer_step d s m i"
proof -
  show "layer_step d s m i \<le> m"
    using assms discount_step(1) [OF assms] layer_reduction_bounds
    by (simp add: layer_step_def Let_def)
  show "0 \<le> layer_step d s m i" using layer_step_antimono(2) [of s i s m m] assms by simp
qed

lemma geojson_antimono:
  assumes "\<forall>i\<in>set is. unat (s ! i) \<le> unat (s' ! i)" "f32 m = m" "f32 m' = m'" "0 \<le> m'" "m' \<le> m"
  shows "foldl (layer_step d s') m' is \<le> foldl (layer_step d s) m is \<and> 0 \<le> foldl (layer_step d s') m' is
    \<and> f32 (foldl (layer_step d s) m is) = foldl (layer_step d s) m is \<and> foldl (layer_step d s') m' is \<le> m'"
  using assms
proof (induction "is" arbitrary: m m')
  case (Cons i "is")
  have si: "unat (s ! i) \<le> unat (s' ! i)" using Cons.prems(1) by simp
  note st = layer_step_antimono [OF si Cons.prems(2-5), of d]
  have "f32 (layer_step d s' m' i) = layer_step d s' m' i"
    using layer_step_antimono(3) [of s' i s' m' m'] Cons.prems by simp
  from Cons.IH [OF _ st(3) this st(2) st(1)] Cons.prems(1)
    layer_step_le(1) [OF Cons.prems(3,4), of d s' i]
  show ?case by auto
qed simp

lemma GeoJsonCostMultiplier_antimono:
  assumes "scores_le s s'" and "length s = 4"
  shows "GeoJsonCostMultiplier d s' \<le> GeoJsonCostMultiplier d s" and "0 \<le> GeoJsonCostMultiplier d s'"
    and "GeoJsonCostMultiplier d s' \<le> 1"
proof -
  have "\<forall>i\<in>set [0..<kMaxGeoJsonLayers_cost]. unat (s ! i) \<le> unat (s' ! i)"
    using scores_le_nth [OF assms(1)] assms(2) by (simp add: kMaxGeoJsonLayers_cost_def)
  from geojson_antimono [OF this, of 1 1 d]
  show "GeoJsonCostMultiplier d s' \<le> GeoJsonCostMultiplier d s" "0 \<le> GeoJsonCostMultiplier d s'"
    "GeoJsonCostMultiplier d s' \<le> 1"
    by (simp_all add: GeoJsonCostMultiplier_def)
qed

text \<open>A lower bound: each of the four layers leaves at least one part in 128.\<close>

lemma GeoJsonCostMultiplier_positive: "2 powi (- 28) \<le> GeoJsonCostMultiplier d s"
proof -
  have step: "2 powi (e - 7) \<le> layer_step d s m i" if "2 powi e \<le> m" "- 28 \<le> e - 7" "e \<le> 0" for m e i
  proof -
    have weak: "2 powi (e - 7) \<le> m" using that(1) by (rule order_trans [rotated]) (rule powi_mono, simp)
    define f b c where "f = geojson_factors d ! i" and "b = geojson_base_multipliers d ! i" and "c = geojson_max_reduction d ! i"
    show ?thesis
    proof (cases "s ! i = 0 \<or> f \<le> 0 \<or> b \<le> 0 \<or> c \<le> 0")
      case True
      then show ?thesis using weak by (simp add: layer_step_def Let_def f_def b_def c_def)
    next
      case False
      then have "0 \<le> layer_reduction f b c (s ! i)" "layer_reduction f b c (s ! i) \<le> 127 / 128"
        using layer_reduction_bounds [of f b c] by simp_all
      from fmul_ge_powi [OF that(1) one_minus_bounds(2) [OF this]] that(2)
      have "2 powi (e - 7) \<le> fmul m (fsub 1 (layer_reduction f b c (s ! i)))" by simp
      then show ?thesis using False by (simp add: layer_step_def Let_def f_def b_def c_def)
    qed
  qed
  have four: "[0..<kMaxGeoJsonLayers_cost] = [0, 1, 2, 3]" by (simp add: kMaxGeoJsonLayers_cost_def upt_rec)
  have "2 powi (- 7) \<le> layer_step d s 1 0" using step [of 0 1 0] by simp
  then have "2 powi (- 14) \<le> layer_step d s (layer_step d s 1 0) 1" using step [of "- 7" _ 1] by simp
  then have "2 powi (- 21) \<le> layer_step d s (layer_step d s (layer_step d s 1 0) 1) 2" using step [of "- 14" _ 2] by simp
  then have "2 powi (- 28) \<le> layer_step d s (layer_step d s (layer_step d s (layer_step d s 1 0) 1) 2) 3"
    using step [of "- 21" _ 3] by simp
  then show ?thesis by (simp only: GeoJsonCostMultiplier_def four foldl_Cons foldl_Nil)
qed

text \<open>
  What the options leave of the comfort settings: four layers with a factor in \<open>[0, 2]\<close>, a
  positive base and a cap in \<open>(0, 0.99]\<close>, and a canopy factor in \<open>[0, 2]\<close>.
\<close>

definition layers_ok :: "dynamic_cost \<Rightarrow> bool" where
  "layers_ok d \<longleftrightarrow> length (geojson_factors d) = 4 \<and> length (geojson_base_multipliers d) = 4
     \<and> length (geojson_max_reduction d) = 4 \<and> list_all (\<lambda>x. 0 \<le> x \<and> x \<le> 2) (geojson_factors d)
     \<and> list_all (\<lambda>x. 0 < x) (geojson_base_multipliers d)
     \<and> list_all (\<lambda>x. 0 < x \<and> x \<le> f32 (99 / 100)) (geojson_max_reduction d)"

lemma list_all_update: "list_all P xs \<Longrightarrow> P x \<Longrightarrow> list_all P (xs[i := x])"
  by (auto simp: list_all_iff dest: set_update_subset_insert [THEN subsetD])

lemma apply_layer_factor_ok:
  assumes "layers_ok d" shows "layers_ok (apply_layer_factor d lf)"
  using assms
  by (auto simp: apply_layer_factor_def layers_ok_def Let_def min_def max_def c099(2) split: option.splits
      intro!: list_all_update)

lemma apply_layer_factors_ok: "layers_ok d \<Longrightarrow> layers_ok (foldl apply_layer_factor d lfs)"
  by (induction lfs arbitrary: d) (simp_all add: apply_layer_factor_ok)

lemma apply_layer_factor_fields:
  fixes lfs :: "layer_factor list"
  shows "track_factor (foldl apply_layer_factor d lfs) = track_factor d"
    and "living_street_factor (foldl apply_layer_factor d lfs) = living_street_factor d"
    and "dc_service_factor (foldl apply_layer_factor d lfs) = dc_service_factor d"
    and "unlit_factor (foldl apply_layer_factor d lfs) = unlit_factor d"
    and "canopy_factor (foldl apply_layer_factor d lfs) = canopy_factor d"
  by (induction lfs arbitrary: d) (simp_all add: apply_layer_factor_def Let_def split: option.splits)

definition env_le :: "environment_scores \<Rightarrow> environment_scores \<Rightarrow> bool" where
  "env_le e e' \<longleftrightarrow> tree_canopy e \<le> tree_canopy e' \<and> scores_le (layer_scores e) (layer_scores e')
     \<and> length (layer_scores e) = 4"

lemma canopy_reduction_mono:
  "0 \<le> factor \<Longrightarrow> 0 \<le> base \<Longrightarrow> unat s \<le> unat s' \<Longrightarrow> canopy_reduction base cap factor s \<le> canopy_reduction base cap factor s'"
  unfolding canopy_reduction_def
  by (intro min.mono order_refl fmul_mono fdiv_mono score_ratio_nonneg fmul_nonneg of_nat_mono) (assumption | simp)+

lemma canopy_reduction_bounds:
  assumes "0 \<le> factor" "0 \<le> base" "0 \<le> cap" "cap \<le> 127 / 128"
  shows "0 \<le> canopy_reduction base cap factor s" and "canopy_reduction base cap factor s \<le> 127 / 128"
proof -
  have "0 \<le> fmul (fmul (fdiv (of_nat (unat s)) 127) base) factor"
    using assms by (intro fmul_nonneg score_ratio_nonneg) simp_all
  then show "0 \<le> canopy_reduction base cap factor s" using assms by (simp add: canopy_reduction_def)
  show "canopy_reduction base cap factor s \<le> 127 / 128"
    using assms by (simp add: canopy_reduction_def min_def)
qed

text \<open>The first part of the discount, for the tree canopy.\<close>

definition canopy_step :: "rat \<Rightarrow> rat \<Rightarrow> rat \<Rightarrow> u8 \<Rightarrow> rat \<Rightarrow> rat" where
  "canopy_step base cap factor s f =
     (if 0 < s \<and> 0 < factor then fmul f (fsub 1 (canopy_reduction base cap factor s)) else f)"

lemma comfort_discount_step:
  "comfort_discount base cap d env f =
     fmul (canopy_step base cap (canopy_factor d) (tree_canopy env) f) (GeoJsonCostMultiplier d (layer_scores env))"
  by (simp add: comfort_discount_def canopy_step_def Let_def)

lemma canopy_step_bounds:
  assumes c: "0 \<le> base" "0 \<le> cap" "cap \<le> 127 / 128" and f: "f32 f = f" "0 \<le> f"
  shows "canopy_step base cap k s f \<le> f" and "0 \<le> canopy_step base cap k s f"
    and "2 powi e \<le> f \<Longrightarrow> - 142 \<le> e \<Longrightarrow> 2 powi (e - 7) \<le> canopy_step base cap k s f"
    and "unat s \<le> unat s' \<Longrightarrow> canopy_step base cap k s' f \<le> canopy_step base cap k s f"
proof -
  have r: "0 \<le> canopy_reduction base cap k t" "canopy_reduction base cap k t \<le> 127 / 128" if "0 < k" for t
    using canopy_reduction_bounds [of k base cap t] c that by simp_all
  show le: "canopy_step base cap k s f \<le> f" for s
    using discount_step(1) [OF f r] f by (simp add: canopy_step_def)
  show "0 \<le> canopy_step base cap k s f"
    using discount_step(2) [OF f r] f by (simp add: canopy_step_def)
  show "2 powi (e - 7) \<le> canopy_step base cap k s f" if e: "2 powi e \<le> f" "- 142 \<le> e"
  proof (cases "0 < s \<and> 0 < k")
    case True
    then show ?thesis
      using fmul_ge_powi [OF e(1) one_minus_bounds(2) [OF r]] e(2) by (simp add: canopy_step_def)
  next
    case False
    have "(2::rat) powi (e - 7) \<le> 2 powi e" by (rule powi_mono) simp
    then show ?thesis using False e(1) by (auto simp: canopy_step_def)
  qed
  show "canopy_step base cap k s' f \<le> canopy_step base cap k s f" if ss: "unat s \<le> unat s'"
  proof (cases "0 < s \<and> 0 < k")
    case True
    then have "0 < s'" using ss by (simp add: word_less_nat_alt)
    moreover have "fmul f (fsub 1 (canopy_reduction base cap k s')) \<le> fmul f (fsub 1 (canopy_reduction base cap k s))"
      using True c ss f(2) order_trans [OF _ one_minus_bounds(2) [OF r], of 0]
      by (intro fmul_mono fsub_antimono canopy_reduction_mono) simp_all
    ultimately show ?thesis using True by (simp add: canopy_step_def)
  next
    case False
    then show ?thesis using le [of s'] by (auto simp: canopy_step_def)
  qed
qed

lemma comfort_discount_props:
  assumes c: "0 \<le> base" "0 \<le> cap" "cap \<le> 127 / 128" and f: "f32 f = f" "0 \<le> f" and e: "env_le e e'"
  shows "comfort_discount base cap d e' f \<le> comfort_discount base cap d e f"
    and "comfort_discount base cap d e' f \<le> f" and "0 \<le> comfort_discount base cap d e' f"
    and "2 powi x \<le> f \<Longrightarrow> - 114 \<le> x \<Longrightarrow> 2 powi (x - 35) \<le> comfort_discount base cap d e' f"
proof -
  note st = canopy_step_bounds [OF c f]
  have tc: "unat (tree_canopy e) \<le> unat (tree_canopy e')" using e by (simp add: env_le_def word_le_nat_alt)
  note g = GeoJsonCostMultiplier_antimono [of "layer_scores e" "layer_scores e'" d]
  have sc: "scores_le (layer_scores e) (layer_scores e')" "length (layer_scores e) = 4"
    using e by (simp_all add: env_le_def)
  show "comfort_discount base cap d e' f \<le> comfort_discount base cap d e f"
    unfolding comfort_discount_step by (rule fmul_mono) (use st(2,4) tc g sc in auto)
  have "comfort_discount base cap d e' f \<le> fmul f 1"
    unfolding comfort_discount_step by (rule fmul_mono) (use st(1,2) g sc in auto)
  then show "comfort_discount base cap d e' f \<le> f" using f by simp
  show "0 \<le> comfort_discount base cap d e' f"
    unfolding comfort_discount_step by (rule fmul_nonneg) (use st(2) g sc in auto)
  show "2 powi (x - 35) \<le> comfort_discount base cap d e' f" if x: "2 powi x \<le> f" "- 114 \<le> x"
  proof -
    have "2 powi (x - 7) \<le> canopy_step base cap (canopy_factor d) (tree_canopy e') f" using x by (intro st(3)) simp_all
    from fmul_ge_powi [OF this GeoJsonCostMultiplier_positive] x(2) show ?thesis
      by (simp add: comfort_discount_step)
  qed
qed

lemma GeoJsonCostMultiplier_none: "GeoJsonCostMultiplier d (replicate 4 0) = 1"
proof -
  have "foldl (layer_step d (replicate 4 0)) 1 is = 1" if "set is \<subseteq> {0..<4}" for "is"
    using that by (induction "is") (auto simp: layer_step_def)
  then show ?thesis by (simp add: GeoJsonCostMultiplier_def kMaxGeoJsonLayers_cost_def)
qed

lemma comfort_discount_none: "f32 f = f \<Longrightarrow> comfort_discount base cap d no_scores f = f"
  by (simp add: comfort_discount_step canopy_step_def no_scores_def kMaxGeoJsonLayers_def GeoJsonCostMultiplier_none)

text \<open>The constants of the six costing models.\<close>

definition comfort_models :: "(dynamic_cost \<Rightarrow> environment_scores \<Rightarrow> rat \<Rightarrow> rat) list" where
  "comfort_models = [pedestrian_discount, bicycle_discount, auto_discount, truck_discount, motorcycle_discount,
     motorscooter_discount]"

lemma model_constants:
  assumes "m \<in> set comfort_models"
  obtains base cap where "m = comfort_discount base cap" and "0 \<le> base" and "0 \<le> cap" and "cap \<le> 127 / 128"
proof -
  have c: "0 \<le> f32 (45 / 100)" "0 \<le> f32 (425 / 1000)" "0 \<le> f32 (4 / 10)" "0 \<le> f32 (9 / 10)" "0 \<le> f32 (85 / 100)"
    "0 \<le> f32 (8 / 10)" by (rule float32.nonneg; simp)+
  have "f32 (9 / 10) \<le> 127 / 128" "f32 (85 / 100) \<le> 127 / 128" "f32 (8 / 10) \<le> 127 / 128"
    by (simp_all add: float_eval)
  with c show ?thesis
    using assms that
    by (auto simp: comfort_models_def pedestrian_discount_def bicycle_discount_def auto_discount_def truck_discount_def
        motorcycle_discount_def motorscooter_discount_def)
qed

text \<open>
  C21: Shade and comfort only ever make an edge cheaper. In each of the six costing models, for
  any settings of the layers and any scores, the discounted cost factor is at most the
  factor before and at least one part in \<open>2 ^ 35\<close> of a power of two below it, so never zero or
  negative; raising the canopy score or a layer score never raises it; and without scores it
  is unchanged. Every \<^verbatim>\<open>float\<close> rounding is included.
\<close>

theorem comfort_only_discounts:
  assumes m: "m \<in> set comfort_models" and f: "f32 f = f" and x: "2 powi x \<le> f" "- 114 \<le> x" and e: "env_le e e'"
  shows "m d e' f \<le> m d e f \<and> m d e' f \<le> f \<and> 2 powi (x - 35) \<le> m d e' f \<and> m d no_scores f = f"
proof -
  obtain base cap where bc: "m = comfort_discount base cap" "0 \<le> base" "0 \<le> cap" "cap \<le> 127 / 128"
    using model_constants [OF m] .
  have "0 \<le> f" using x(1) by (rule order_trans [rotated]) simp
  from comfort_discount_props [OF bc(2-4) f this e, where d = d] comfort_discount_none [OF f] x show ?thesis
    by (simp add: bc(1))
qed

definition demo_model :: dynamic_cost where
  "demo_model = get_base_costs no_options (new_dynamic_cost no_options 1 False False)"

definition demo_scores :: environment_scores where
  "demo_scores = \<lparr>tree_canopy = 9, layer_scores = [1, 2, 3, 4]\<rparr>"

theorem comfort_only_discounts_witness:
  "bicycle_discount demo_model demo_scores 1 \<le> bicycle_discount demo_model no_scores 1
   \<and> bicycle_discount demo_model demo_scores 1 \<le> 1
   \<and> 2 powi (0 - 35) \<le> bicycle_discount demo_model demo_scores 1
   \<and> bicycle_discount demo_model no_scores 1 = 1"
  by (rule comfort_only_discounts)
    (simp_all add: comfort_models_def env_le_def scores_le_def no_scores_def demo_scores_def kMaxGeoJsonLayers_def
      eval_nat_numeral)

end
