(* ===== verification/Pedestrian_Cost.thy ===== *)
theory Pedestrian_Cost
  imports Base_Cost
begin

text \<open>
  \<^verbatim>\<open>PedestrianCost\<close> (\<^verbatim>\<open>src/sif/pedestriancost.cc\<close>): the options of a walk, the members computed
  from them, the cost of an edge with its shade discount, the costs of transitions, the
  access checks and the factor of the A* heuristic. The members of the base class are the
  field \<open>dyn\<close>. What the code reads from the tile is an argument: the environment scores of
  the edge, the levels of an elevator's edges and the speed of a ferry.

  The lemmas show that a request, whatever it holds, gives a costing model whose members lie in
  their ranges, and what that means for the cost of an edge.
\<close>

section \<open>Tables\<close>

definition kSacScaleSpeedFactor :: "rat list" where
  "kSacScaleSpeedFactor = [1, f32 (111 / 100), 5 / 4, f32 (154 / 100), 5 / 2, 4, f32 (667 / 100)]"

definition kSacScaleCostFactor :: "rat list" where
  "kSacScaleCostFactor = [0, 1 / 4, 3 / 4, 5 / 4, 2, 5 / 2, 3]"

definition kGradeBasedSpeedFactor :: "rat list" where
  "kGradeBasedSpeedFactor = [f32 (133 / 100), f32 (122 / 100), f32 (108 / 100), f32 (97 / 100), f32 (88 / 100),
     f32 (92 / 100), 1, f32 (110 / 100), f32 (120 / 100), f32 (133 / 100), f32 (143 / 100), f32 (157 / 100),
     f32 (183 / 100), f32 (203 / 100), f32 (223 / 100), 5 / 2]"

definition kAvoidHillsStrength :: "rat list" where
  "kAvoidHillsStrength = [2, 1, 1 / 2, f32 (2 / 10), f32 (1 / 10), 0, 0, 0, f32 (1 / 10), f32 (3 / 10), f32 (4 / 10),
     1 / 2, f32 (7 / 10), 1, 3, 5]"

definition kCrossingCosts :: "nat list" where
  "kCrossingCosts = [0, 0, 1, 1, 2, 3, 5, 15]"

definition kMaxDistanceFoot :: rat where "kMaxDistanceFoot = 100000"
definition kMaxDistanceWheelchair :: rat where "kMaxDistanceWheelchair = 10000"
definition kRoundaboutFactor :: rat where "kRoundaboutFactor = 2"
definition kMaxFerrySpeedKph :: rat where "kMaxFerrySpeedKph = 40"
definition kMetersPerSecond :: rat where "kMetersPerSecond = fmul kSecPerHour (f32 (1 / 1000))"

text \<open>An array with a constant size; an index past its end is undefined behaviour.\<close>

definition table :: "'a list \<Rightarrow> nat \<Rightarrow> 'a result" where
  "table t i = (if i < length t then Inr (t ! i) else Inl Undefined)"

section \<open>The options of a request\<close>

text \<open>The ranges, with whether the option is a \<^verbatim>\<open>uint32_t\<close>.\<close>

type_synonym option_spec = "bool \<times> string \<times> string \<times> ranged_default"

definition parse_spec :: "lexer \<Rightarrow> json \<Rightarrow> option_spec \<Rightarrow> costing_options \<Rightarrow> costing_options result" where
  "parse_spec lx j = (\<lambda>(uint, r) co. if uint then pbf_ranged_uint lx j r co else pbf_ranged lx j r co)"

definition wheelchair_specs :: "option_spec list" where
  "wheelchair_specs =
     [(True, ''max_distance'', ''max_distance'', rng 0 kMaxDistanceWheelchair kMaxDistanceFoot),
      (False, ''walking_speed'', ''walking_speed'', rng (1 / 2) 4 25),
      (False, ''step_penalty'', ''step_penalty'', rng 0 600 kMaxPenalty),
      (True, ''max_grade'', ''max_grade'', rng 0 12 90)]"

definition foot_specs :: "option_spec list" where
  "foot_specs =
     [(True, ''max_distance'', ''max_distance'', rng 0 kMaxDistanceFoot kMaxDistanceFoot),
      (False, ''walking_speed'', ''walking_speed'', rng (1 / 2) (f32 (51 / 10)) 25),
      (False, ''step_penalty'', ''step_penalty'', rng 0 30 kMaxPenalty),
      (True, ''max_grade'', ''max_grade'', rng 0 90 90)]"

definition common_specs :: "option_spec list" where
  "common_specs =
     [(True, ''max_hiking_difficulty'', ''max_hiking_difficulty'', rng 0 1 6),
      (False, ''mode_factor'', ''mode_factor'', rng kMinFactor (3 / 2) kMaxFactor),
      (False, ''walkway_factor'', ''walkway_factor'', rng kMinFactor 1 kMaxFactor),
      (False, ''sidewalk_factor'', ''sidewalk_factor'', rng kMinFactor 1 kMaxFactor),
      (False, ''alley_factor'', ''alley_factor'', rng kMinFactor 2 kMaxFactor),
      (False, ''driveway_factor'', ''driveway_factor'', rng kMinFactor 5 kMaxFactor),
      (True, ''transit_start_end_max_distance'', ''transit_start_end_max_distance'', rng 0 2415 100000),
      (True, ''transit_transfer_max_distance'', ''transit_transfer_max_distance'', rng 0 805 50000),
      (False, ''bss_rent_cost'', ''bike_share_cost'', rng 0 120 kMaxPenalty),
      (False, ''bss_rent_penalty'', ''bike_share_penalty'', rng 0 0 kMaxPenalty),
      (False, ''use_hills'', ''use_hills'', rng 0 (1 / 2) 1),
      (False, ''elevator_penalty'', ''elevator_penalty'', rng 0 5 kMaxPenalty)]"

text \<open>\<^verbatim>\<open>std::tolower\<close> in the C locale.\<close>

definition to_lower :: "char \<Rightarrow> char" where
  "to_lower c = (let n = of_char c :: nat in if 65 \<le> n \<and> n \<le> 90 then char_of (n + 32) else c)"

definition ParsePedestrianCostOptions :: "lexer \<Rightarrow> json \<Rightarrow> string list \<Rightarrow> costing_options \<Rightarrow> costing_options result" where
  "ParsePedestrianCostOptions lx doc key co =
     (let j = (case child_path key doc of None \<Rightarrow> JNull | Some v \<Rightarrow> v)
      in bind_result (ParseBaseCostOptions lx pedestrian_config j (co\<lparr>costing_name := ''pedestrian''\<rparr>)) (\<lambda>co1.
         let old = (case transport_type co1 of None \<Rightarrow> ''foot'' | Some t \<Rightarrow> t);
             t = map to_lower (case get_text [''type''] j of None \<Rightarrow> old | Some s \<Rightarrow> s)
         in fold_result (parse_spec lx j)
              ((if t = ''wheelchair'' then wheelchair_specs else foot_specs) @ common_specs)
              (co1\<lparr>transport_type := Some t\<rparr>)))"

section \<open>The costing model\<close>

datatype pedestrian_type = Foot | Wheelchair | Blind

record pedestrian_cost =
  dyn :: dynamic_cost
  ped_type :: pedestrian_type
  max_distance :: u32
  mode_factor :: rat
  transit_start_end_max_distance :: nat
  transit_transfer_max_distance :: nat
  minimal_allowed_surface :: nat
  max_grade :: nat
  max_hiking_difficulty :: nat
  ped_speed :: rat
  speedfactor :: rat
  walkway_factor :: rat
  sidewalk_factor :: rat
  alley_factor :: rat
  driveway_factor :: rat
  step_penalty :: rat
  elevator_penalty :: rat
  grade_penalty :: "rat list"
  project_on_bss_connection :: bool

definition kPedestrianAccess :: "12 word" where "kPedestrianAccess = 2"
definition kWheelchairAccess :: "12 word" where "kWheelchairAccess = 256"
definition kSurfaceCompacted :: nat where "kSurfaceCompacted = 3"
definition kSurfacePath :: nat where "kSurfacePath = 6"

definition CreatePedestrianCost :: "costing_options \<Rightarrow> pedestrian_cost" where
  "CreatePedestrianCost co =
     (let t = (case transport_type co of None \<Rightarrow> [] | Some s \<Rightarrow> s);
          d = get_base_costs co (set_default_geojson_scaling (f32 (4 / 10)) (f32 (8 / 10))
                (new_dynamic_cost co kPedestrianAccess False False));
          wheelchair = (t = ''wheelchair'');
          ty = (if wheelchair then Wheelchair else if t = ''blind'' then Blind else Foot);
          speed = opt co ''walking_speed'';
          avoid_hills = fsub 1 (opt co ''use_hills'')
      in \<lparr>dyn = d\<lparr>access_mask := (if wheelchair then kWheelchairAccess else kPedestrianAccess)\<rparr>,
          ped_type = ty,
          max_distance = word_of_int (c_trunc (opt co ''max_distance'')),
          mode_factor = opt co ''mode_factor'',
          transit_start_end_max_distance = nat (c_trunc (opt co ''transit_start_end_max_distance'')),
          transit_transfer_max_distance = nat (c_trunc (opt co ''transit_transfer_max_distance'')),
          minimal_allowed_surface = (if wheelchair then kSurfaceCompacted else kSurfacePath),
          max_grade = nat (c_trunc (opt co ''max_grade'')),
          max_hiking_difficulty = (if ty = Foot then nat (c_trunc (opt co ''max_hiking_difficulty'')) else 0),
          ped_speed = speed,
          speedfactor = fdiv kMetersPerSecond speed,
          walkway_factor = opt co ''walkway_factor'',
          sidewalk_factor = opt co ''sidewalk_factor'',
          alley_factor = opt co ''alley_factor'',
          driveway_factor = opt co ''driveway_factor'',
          step_penalty = opt co ''step_penalty'',
          elevator_penalty = opt co ''elevator_penalty'',
          grade_penalty = map (fmul avoid_hills) kAvoidHillsStrength,
          project_on_bss_connection = False\<rparr>)"

definition CreateBikeShareCost :: "costing_options \<Rightarrow> pedestrian_cost" where
  "CreateBikeShareCost co = (CreatePedestrianCost co)\<lparr>project_on_bss_connection := True\<rparr>"

section \<open>Edges\<close>

text \<open>
  The checks of \<^verbatim>\<open>Allowed\<close> before the time dependent restrictions. The distance check is
  written as the compiler reads it: the sum is an operand of the conjunction, whose value 0 or 1
  is compared with the maximum.
\<close>

definition distance_exceeded :: "pedestrian_cost \<Rightarrow> directed_edge \<Rightarrow> edge_label \<Rightarrow> bool" where
  "distance_exceeded p e pred \<longleftrightarrow>
     max_distance p < of_bool (\<not> allow_transit_connections (dyn p) \<and> pred_path_distance pred + ucast (de_length e) \<noteq> 0)"

definition is_uturn :: "directed_edge \<Rightarrow> edge_label \<Rightarrow> bool" where
  "is_uturn e pred \<longleftrightarrow> \<not> pred_deadend pred \<and> pred_opp_local_idx pred = unat (de_localedgeidx e) \<and> pred_pedestrian pred"

definition is_transit_connection :: "directed_edge \<Rightarrow> bool" where
  "is_transit_connection e \<longleftrightarrow> use_of e = kPlatformConnection \<or> use_of e = kEgressConnection \<or> use_of e = kTransitConnection"

definition Allowed_checks :: "pedestrian_cost \<Rightarrow> directed_edge \<Rightarrow> edge_label \<Rightarrow> u64 \<Rightarrow> bool" where
  "Allowed_checks p e pred edgeid \<longleftrightarrow>
     \<not> (\<not> IsAccessible (dyn p) e \<or> minimal_allowed_surface p < unat (de_surface e) \<or> de_is_shortcut e
        \<or> IsUserAvoidEdge (dyn p) edgeid \<or> max_hiking_difficulty p < unat (de_sac_scale e)
        \<or> is_uturn e pred \<or> distance_exceeded p e pred \<or> CheckExclusions (dyn p) e pred)
     \<and> \<not> (\<not> allow_transit_connections (dyn p) \<and> is_transit_connection e)"

definition AllowedReverse_checks :: "pedestrian_cost \<Rightarrow> directed_edge \<Rightarrow> edge_label \<Rightarrow> directed_edge \<Rightarrow> u64 \<Rightarrow> bool" where
  "AllowedReverse_checks p e pred opp opp_edgeid \<longleftrightarrow>
     \<not> (\<not> IsAccessible (dyn p) opp \<or> minimal_allowed_surface p < unat (de_surface opp) \<or> de_is_shortcut opp
        \<or> IsUserAvoidEdge (dyn p) opp_edgeid \<or> max_hiking_difficulty p < unat (de_sac_scale e)
        \<or> is_uturn e pred \<or> is_transit_connection opp \<or> CheckExclusions (dyn p) opp pred)"

definition Allowed_filter :: "pedestrian_cost \<Rightarrow> directed_edge \<Rightarrow> u16 \<Rightarrow> bool" where
  "Allowed_filter p e disallow \<longleftrightarrow> Allowed_edge (dyn p) e disallow \<and> use_of e < kRailFerry
     \<and> unat (de_sac_scale e) \<le> max_hiking_difficulty p \<and> (\<not> de_bss_connection e \<or> project_on_bss_connection p)"

text \<open>The factor for the use of the edge.\<close>

definition use_factor :: "pedestrian_cost \<Rightarrow> directed_edge \<Rightarrow> rat" where
  "use_factor p e =
     (if use_of e = kFootway \<or> use_of e = kSidewalk then walkway_factor p
      else if use_of e = kAlley then alley_factor p
      else if use_of e = kDriveway then driveway_factor p
      else if use_of e = kTrack then track_factor (dyn p)
      else if use_of e = kLivingStreet then living_street_factor (dyn p)
      else if use_of e = kServiceRoad then dc_service_factor (dyn p)
      else if de_sidewalk_left e \<or> de_sidewalk_right e then sidewalk_factor p
      else if de_roundabout e then kRoundaboutFactor
      else 1)"

definition lit_factor :: "pedestrian_cost \<Rightarrow> directed_edge \<Rightarrow> rat" where
  "lit_factor p e = fadd (of_bool (de_lit e)) (fmul (of_bool (\<not> de_lit e)) (unlit_factor (dyn p)))"

definition edge_seconds :: "pedestrian_cost \<Rightarrow> directed_edge \<Rightarrow> rat result" where
  "edge_seconds p e =
     bind_result (table kSacScaleSpeedFactor (unat (de_sac_scale e))) (\<lambda>sac.
     bind_result (table kGradeBasedSpeedFactor (unat (de_weighted_grade e))) (\<lambda>grade.
       Inr (fmul (fmul (fmul (f32 (of_nat (unat (de_length e)))) (speedfactor p)) sac) grade)))"

definition edge_factor :: "pedestrian_cost \<Rightarrow> directed_edge \<Rightarrow> rat result" where
  "edge_factor p e =
     bind_result (table kSacScaleCostFactor (unat (de_sac_scale e))) (\<lambda>sac.
     bind_result (table (grade_penalty p) (unat (de_weighted_grade e))) (\<lambda>grade.
       Inr (fmul (fmul (fadd (fadd 1 sac) grade) (use_factor p e)) (lit_factor p e))))"

text \<open>
  \<^verbatim>\<open>EdgeCost\<close>. \<open>ferry_speed\<close> is what \<^verbatim>\<open>GetSpeed\<close> returned; a speed of zero would make an infinite
  time, which the model does not represent.
\<close>

definition EdgeCost :: "pedestrian_cost \<Rightarrow> directed_edge \<Rightarrow> environment_scores \<Rightarrow> u32 \<Rightarrow> cost result" where
  "EdgeCost p e env ferry_speed =
     (if use_of e = kFerry
      then if ferry_speed = 0 then Inl Undefined
        else let s = fdiv (fmul (f32 (of_nat (unat (de_length e)))) kMetersPerSecond) (f32 (of_nat (unat ferry_speed)))
             in Inr \<lparr>cost = fmul s (ferry_factor (dyn p)), secs = s\<rparr>
      else bind_result (edge_seconds p e) (\<lambda>s.
        if shortest (dyn p) then Inr \<lparr>cost = f32 (of_nat (unat (de_length e))), secs = s\<rparr>
        else bind_result (edge_factor p e) (\<lambda>factor.
          Inr \<lparr>cost = fmul s (pedestrian_discount (dyn p) env factor), secs = s\<rparr>)))"

section \<open>The heuristic\<close>

definition below_one :: "rat \<Rightarrow> rat \<Rightarrow> rat" where
  "below_one factor x = (if x < 1 then fmul factor x else factor)"

definition AStarCostFactor :: "pedestrian_cost \<Rightarrow> rat" where
  "AStarCostFactor p =
     (if dc_pass (dyn p) = 0
      then fmul (speedfactor p) (foldl below_one 1 [walkway_factor p, sidewalk_factor p, alley_factor p,
        driveway_factor p, track_factor (dyn p), living_street_factor (dyn p), dc_service_factor (dyn p)])
      else fdiv kMetersPerSecond kMaxFerrySpeedKph)"

section \<open>Transitions\<close>

text \<open>The pedestrian version of the base transition cost: no tolls, no bollards, no internal check.\<close>

definition pedestrian_transition_cost :: "pedestrian_cost \<Rightarrow> node_info \<Rightarrow> directed_edge \<Rightarrow> edge_label \<Rightarrow> nat \<Rightarrow> cost" where
  "pedestrian_transition_cost p n e pred idx =
     (let d = dyn p;
          c1 = cost_add zero_cost (cost_if (country_crossing d) (node_type n = kBorderControl));
          c2 = cost_add c1 (cost_if (cost_if (gate d) (node_type n = kGate)) (\<not> tagged_access n));
          c3 = cost_add c2 (cost_if (cost_if (private_access d) (node_type n = kGate)) (node_private_access n));
          c4 = cost_add c3 (cost_if (bike_share d) (node_type n = kBikeShare));
          c5 = cost_add c4 (cost_if (ferry_transition d) (enters kFerry e pred));
          c6 = cost_add c5 (cost_if (rail_ferry_transition d) (enters kRailFerry e pred));
          c7 = add_penalty (destination_only_penalty d) (de_dest_only e \<and> \<not> pred_destonly pred) c6;
          c8 = add_penalty (dc_alley_penalty d) (enters kAlley e pred) c7;
          c9 = add_penalty (dc_maneuver_penalty d) (\<not> de_link e \<and> use_of e \<noteq> kEgressConnection
                 \<and> use_of e \<noteq> kPlatformConnection \<and> \<not> name_consistency e idx) c8;
          c10 = add_penalty (living_street_penalty d) (enters kLivingStreet e pred) c9;
          c11 = add_penalty (track_penalty d) (enters kTrack e pred) c10;
          c12 = add_penalty (dc_service_penalty d) (enters kServiceRoad e pred) c11
      in c12\<lparr>cost := fmul (cost c12) (of_bool (\<not> shortest d))\<rparr>)"

text \<open>The levels an elevator passes: the difference when both edges lie on one level each.\<close>

definition traversed_levels :: "(rat \<times> rat) list \<Rightarrow> (rat \<times> rat) list \<Rightarrow> nat" where
  "traversed_levels ls prev = nat (c_trunc (case (ls, prev) of
     ([l], [q]) \<Rightarrow> if fst l = snd l \<and> fst q = snd q then \<bar>fsub (fst q) (fst l)\<bar> else 1
   | _ \<Rightarrow> 1))"

definition crossing_cost :: "pedestrian_cost \<Rightarrow> directed_edge \<Rightarrow> nat \<Rightarrow> cost \<Rightarrow> cost" where
  "crossing_cost p e idx c =
     (if edge_to_right e idx \<and> edge_to_left e idx
      then let s = f32 (of_nat (kCrossingCosts ! unat (stopimpact e idx)))
           in c\<lparr>secs := fadd (secs c) s, cost := fadd (cost c) (if shortest (dyn p) then 0 else s)\<rparr>
      else c)"

definition TransitionCost :: "pedestrian_cost \<Rightarrow> directed_edge \<Rightarrow> node_info \<Rightarrow> edge_label
    \<Rightarrow> (rat \<times> rat) list \<Rightarrow> (rat \<times> rat) list \<Rightarrow> cost" where
  "TransitionCost p e n pred ls prev_levels =
     (if use_of e = kSteps then \<lparr>cost = step_penalty p, secs = 0\<rparr>
      else if use_of e = kElevator then \<lparr>cost = elevator_penalty p, secs = 0\<rparr>
      else if node_type n = kElevatorNode
        then \<lparr>cost = fmul (elevator_penalty p) (f32 (of_nat (traversed_levels ls prev_levels))), secs = 0\<rparr>
      else let idx = pred_opp_local_idx pred
           in crossing_cost p e idx (pedestrian_transition_cost p n e pred idx))"

text \<open>In the reverse search the predecessor is an edge, of which the code reads the use and the flag.\<close>

definition edge_as_pred :: "directed_edge \<Rightarrow> edge_label" where
  "edge_as_pred e = \<lparr>pred_use = use_of e, pred_destonly = de_dest_only e, pred_toll = de_toll e, pred_bridge = de_bridge e,
     pred_tunnel = de_tunnel e, pred_classification = unat (de_classification e), pred_deadend = de_deadend e,
     pred_opp_local_idx = unat (de_opp_local_idx e), pred_pedestrian = True, pred_path_distance = 0\<rparr>"

definition TransitionCostReverse :: "pedestrian_cost \<Rightarrow> nat \<Rightarrow> node_info \<Rightarrow> directed_edge \<Rightarrow> directed_edge
    \<Rightarrow> (rat \<times> rat) list \<Rightarrow> (rat \<times> rat) list \<Rightarrow> cost" where
  "TransitionCostReverse p idx n pred e ls prev_levels =
     (if use_of e = kSteps then \<lparr>cost = step_penalty p, secs = 0\<rparr>
      else if use_of e = kElevator then \<lparr>cost = elevator_penalty p, secs = 0\<rparr>
      else if node_type n = kElevatorNode
        then \<lparr>cost = fmul (elevator_penalty p) (f32 (of_nat (traversed_levels ls prev_levels))), secs = 0\<rparr>
      else crossing_cost p e idx (pedestrian_transition_cost p n e (edge_as_pred pred) idx))"

section \<open>The options end within their ranges\<close>

lemma num_pbf_uint:
  "pbf_ranged_uint lx j (k, n, r) co = Inr co' \<Longrightarrow> \<exists>v. num co' = (num co)(n \<mapsto> ranged r v)"
  by (auto simp: pbf_ranged_uint_def bind_result_eq_Inr)

lemma parse_spec_step:
  assumes "parse_spec lx j (u, k, n, r) co = Inr co'"
  shows "\<exists>v. (sane r \<longrightarrow> fits_range r v) \<and> num co' = (num co)(n \<mapsto> v)"
proof (cases u)
  case True
  then show ?thesis using assms num_pbf_uint [of lx j k n r co co'] within_ranged by (auto simp: parse_spec_def)
next
  case False
  then show ?thesis using assms num_pbf(1) [of lx j k n r co co'] within_ranged_float by (auto simp: parse_spec_def)
qed

text \<open>
  The parsing fails only on numbers: at a conversion to \<^verbatim>\<open>uint32_t\<close> that is undefined, or at a text of
  the document that \<^verbatim>\<open>lexical_cast\<close> reads as a number that is not finite.
\<close>

definition odd_text :: "lexer \<Rightarrow> json \<Rightarrow> bool" where
  "odd_text lx j \<longleftrightarrow> (\<exists>p s x. child_path p j = Some (JString s) \<and> lex_float lx s = Some x \<and> x \<in> {Infinite, Not_a_number})"

definition bad_number :: "lexer \<Rightarrow> json \<Rightarrow> cxx_error \<Rightarrow> bool" where
  "bad_number lx j e \<longleftrightarrow> e = Undefined \<or> e = Not_finite \<and> odd_text lx j"

definition only_bad_numbers :: "lexer \<Rightarrow> json \<Rightarrow> 'a result \<Rightarrow> bool" where
  "only_bad_numbers lx j r \<longleftrightarrow> (case r of Inl e \<Rightarrow> bad_number lx j e | Inr x \<Rightarrow> True)"

lemma only_bad_numbers_bind:
  "only_bad_numbers lx j r \<Longrightarrow> (\<And>x. only_bad_numbers lx j (f x)) \<Longrightarrow> only_bad_numbers lx j (bind_result r f)"
  by (cases r) (simp_all add: only_bad_numbers_def)

lemma only_bad_numbers_Inr: "only_bad_numbers lx j (Inr x)"
  by (simp add: only_bad_numbers_def)

lemma only_bad_numbers_uint: "only_bad_numbers lx j (get_uint32 lx ts j' d)"
  by (auto simp: only_bad_numbers_def bad_number_def get_uint32_def split: option.splits json.splits)

lemma get_float_odd: "get_float lx ts j d = x \<Longrightarrow> x \<in> {Infinite, Not_a_number} \<Longrightarrow> odd_text lx j"
  unfolding odd_text_def by (auto simp: get_float_def split: option.splits json.splits; blast)

lemma only_bad_numbers_float: "only_bad_numbers lx j (ranged_float r (get_float lx ts j d))"
  using get_float_odd [of lx ts j d]
  by (auto simp: only_bad_numbers_def bad_number_def ranged_float_def split: float_value.splits)

lemma only_bad_numbers_fold: "(\<And>x s. only_bad_numbers lx j (f x s)) \<Longrightarrow> only_bad_numbers lx j (fold_result f xs s)"
  by (induction xs arbitrary: s) (auto intro: only_bad_numbers_bind only_bad_numbers_Inr)

lemmas only_bad_numbers_intros = only_bad_numbers_bind only_bad_numbers_Inr only_bad_numbers_uint only_bad_numbers_float
  only_bad_numbers_fold

lemma only_bad_numbers_steps:
  "only_bad_numbers lx j (pbf_ranged lx j x co)" "only_bad_numbers lx j (pbf_ranged_v2 lx j x co)"
  "only_bad_numbers lx j (pbf_ranged_uint lx j x co)" "only_bad_numbers lx j (pbf_ranged_uint_v2 lx j x co)"
  "only_bad_numbers lx j (parse_ranges lx j rs co)" "only_bad_numbers lx j (parse_spec lx j s co)"
proof -
  show steps: "only_bad_numbers lx j (pbf_ranged lx j x co)" "only_bad_numbers lx j (pbf_ranged_v2 lx j x co)"
    "only_bad_numbers lx j (pbf_ranged_uint lx j x co)" "only_bad_numbers lx j (pbf_ranged_uint_v2 lx j x co)" for x co
    by (cases x; simp add: pbf_ranged_def pbf_ranged_v2_def pbf_ranged_uint_def pbf_ranged_uint_v2_def;
        intro only_bad_numbers_intros)+
  show "only_bad_numbers lx j (parse_ranges lx j rs co)"
    unfolding parse_ranges_def by (rule only_bad_numbers_fold) (rule steps)
  show "only_bad_numbers lx j (parse_spec lx j s co)" by (cases s) (simp add: parse_spec_def steps)
qed

lemma only_bad_numbers_level: "only_bad_numbers lx j (parse_level lx j l co)"
proof -
  have "only_bad_numbers lx j (case get_float lx ts j d of Finite x \<Rightarrow> Inr (f x) | _ \<Rightarrow> if b then Inl Not_finite else Inr co)" for ts d f b
    using get_float_odd [of lx ts j d] by (auto simp: only_bad_numbers_def bad_number_def split: float_value.splits)
  moreover have "parse_level lx j l co = bind_result (get_uint32 lx [''hierarchy_limits'', std_to_string l, ''max_up_transitions''] j
       kUnlimitedTransitions) (\<lambda>up.
     case get_float lx [''hierarchy_limits'', std_to_string l, ''expand_within_distance''] j kMaxDistance of
       Finite far \<Rightarrow>
         Inr (if up = kUnlimitedTransitions \<and> far = kMaxDistance then co
         else if map_of (hierarchy co) l = None
           then co\<lparr>hierarchy := hierarchy co @ [(l, \<lparr>max_up_transitions = up, expand_within_dist = far\<rparr>)]\<rparr>
           else co)
     | _ \<Rightarrow> if map_of (hierarchy co) l = None then Inl Not_finite else Inr co)"
    by (simp add: parse_level_def if_distrib [of Inr] cong: if_cong float_value.case_cong)
  ultimately show ?thesis by (simp only:) (intro only_bad_numbers_bind only_bad_numbers_uint)
qed

lemma only_bad_numbers_base: "only_bad_numbers lx j (ParseBaseCostOptions lx cfg j co)"
  unfolding ParseBaseCostOptions_def Let_def
  by (intro only_bad_numbers_bind only_bad_numbers_fold only_bad_numbers_level only_bad_numbers_steps)

text \<open>The options of a costing are parsed from a part of the document.\<close>

lemma child_path_append: "child_path p j = Some v \<Longrightarrow> child_path (p @ q) j = child_path q v"
  by (induction p arbitrary: j) (auto split: option.splits)

lemma only_bad_numbers_part:
  "only_bad_numbers lx (case child_path key doc of None \<Rightarrow> JNull | Some v \<Rightarrow> v) r \<Longrightarrow> only_bad_numbers lx doc r"
proof -
  have null: "child_path p JNull = Some (JString s) \<longleftrightarrow> False" for p s by (cases p) (simp_all add: child_def)
  have "odd_text lx doc" if "child_path key doc = Some v" "odd_text lx v" for v
    using that child_path_append [OF that(1)] unfolding odd_text_def by metis
  then show "only_bad_numbers lx (case child_path key doc of None \<Rightarrow> JNull | Some v \<Rightarrow> v) r \<Longrightarrow> only_bad_numbers lx doc r"
    by (auto simp: only_bad_numbers_def bad_number_def odd_text_def [of lx JNull] null split: sum.splits option.splits)
qed

lemma only_bad_numbers_pedestrian: "only_bad_numbers lx doc (ParsePedestrianCostOptions lx doc key co)"
  unfolding ParsePedestrianCostOptions_def Let_def
  by (rule only_bad_numbers_part [of lx key])
    (intro only_bad_numbers_bind only_bad_numbers_fold only_bad_numbers_base only_bad_numbers_steps)

abbreviation spec_names :: "option_spec list \<Rightarrow> string list" where
  "spec_names ss \<equiv> map (\<lambda>(u, k, n, r). n) ss"

lemma parse_specs_other:
  "fold_result (parse_spec lx j) ss co = Inr co' \<Longrightarrow> n \<notin> set (spec_names ss) \<Longrightarrow> num co' n = num co n"
proof (induction ss arbitrary: co)
  case (Cons s ss)
  obtain u k m r where s: "s = (u, k, m, r)" by (cases s)
  obtain co1 where "parse_spec lx j s co = Inr co1" "fold_result (parse_spec lx j) ss co1 = Inr co'"
    using Cons.prems(1) by (auto simp: bind_result_eq_Inr)
  then show ?case using Cons.IH [of co1] Cons.prems(2) parse_spec_step [of lx j u k m r co co1] by (auto simp: s)
qed simp

lemma parse_specs_within:
  "fold_result (parse_spec lx j) ss co = Inr co' \<Longrightarrow> distinct (spec_names ss) \<Longrightarrow> (u, k, n, r) \<in> set ss \<Longrightarrow> sane r
    \<Longrightarrow> holds_range co' n r"
proof (induction ss arbitrary: co)
  case (Cons s ss)
  obtain co1 where c1: "parse_spec lx j s co = Inr co1" "fold_result (parse_spec lx j) ss co1 = Inr co'"
    using Cons.prems(1) by (auto simp: bind_result_eq_Inr)
  show ?case
  proof (cases "s = (u, k, n, r)")
    case True
    then have "n \<notin> set (spec_names ss)" using Cons.prems(2) by (auto simp: image_iff)
    then have "num co' n = num co1 n" using parse_specs_other [OF c1(2)] by blast
    moreover obtain v where "fits_range r v" "num co1 n = Some v"
      using parse_spec_step [of lx j u k n r co co1] c1(1) Cons.prems(4) by (auto simp: True)
    ultimately show ?thesis by (simp add: holds_range_def)
  next
    case False
    then show ?thesis using Cons.IH [OF c1(2)] Cons.prems by auto
  qed
qed simp

lemma transport_type_kept: "fold_result (parse_spec lx j) ss co = Inr co' \<Longrightarrow> transport_type co' = transport_type co"
proof (induction ss arbitrary: co)
  case (Cons s ss)
  have "parse_spec lx j s co = Inr co1 \<Longrightarrow> transport_type co1 = transport_type co" for co1
    by (auto simp: parse_spec_def pbf_ranged_uint_def pbf_ranged_def bind_result_eq_Inr split: prod.splits if_splits)
  then show ?case using Cons by (auto simp: bind_result_eq_Inr)
qed simp

definition pedestrian_specs :: "costing_options \<Rightarrow> option_spec list" where
  "pedestrian_specs co = (if transport_type co = Some ''wheelchair'' then wheelchair_specs else foot_specs) @ common_specs"

lemma distinct_spec_names: "distinct (spec_names (pedestrian_specs co))"
  by (simp add: pedestrian_specs_def wheelchair_specs_def foot_specs_def common_specs_def)

lemma spec_names_new: "(k, n, r) \<in> set (base_ranges cfg) \<Longrightarrow> n \<notin> set (spec_names (pedestrian_specs co))"
  by (auto simp: pedestrian_specs_def wheelchair_specs_def foot_specs_def common_specs_def base_ranges_def
      penalty_ranges_def preference_ranges_def comfort_ranges_def split: if_splits)

lemma constants: "kMaxPenalty = 43200" "1 / 16 \<le> kMinFactor" "kMinFactor \<le> 1 / 8" "kMaxFactor = 100000"
  by (simp_all add: kMaxPenalty_def kMinFactor_def kMaxFactor_def kSecPerHour_def float_eval)

lemma sane_specs: "(u, k, n, r) \<in> set (pedestrian_specs co) \<Longrightarrow> sane r"
  using constants
  by (auto simp: pedestrian_specs_def wheelchair_specs_def foot_specs_def common_specs_def sane_def fits_range_def
      rng_def kMaxDistanceFoot_def kMaxDistanceWheelchair_def float_eval split: if_splits)

lemma sane_base: "(k, n, r) \<in> set (base_ranges pedestrian_config) \<Longrightarrow> sane r"
  using constants
  by (auto simp: base_ranges_def penalty_ranges_def preference_ranges_def comfort_ranges_def pedestrian_config_def
      base_default_def sane_def fits_range_def rng_def float_eval split: if_splits)

lemma parsed_split:
  assumes "ParsePedestrianCostOptions lx doc key co = Inr co'"
  obtains j co1 co2 where "ParseBaseCostOptions lx pedestrian_config j (co\<lparr>costing_name := ''pedestrian''\<rparr>) = Inr co1"
    and "fold_result (parse_spec lx j) (pedestrian_specs co') co2 = Inr co'" and "num co2 = num co1"
proof -
  define j where "j = (case child_path key doc of None \<Rightarrow> JNull | Some v \<Rightarrow> v)"
  obtain co1 t where p: "ParseBaseCostOptions lx pedestrian_config j (co\<lparr>costing_name := ''pedestrian''\<rparr>) = Inr co1"
    "fold_result (parse_spec lx j) ((if t = ''wheelchair'' then wheelchair_specs else foot_specs) @ common_specs)
      (co1\<lparr>transport_type := Some t\<rparr>) = Inr co'"
    using assms by (auto simp: ParsePedestrianCostOptions_def bind_result_eq_Inr j_def Let_def)
  moreover have "pedestrian_specs co' = (if t = ''wheelchair'' then wheelchair_specs else foot_specs) @ common_specs"
    using transport_type_kept [OF p(2)] by (simp add: pedestrian_specs_def)
  ultimately show ?thesis by (intro that [of j co1 "co1\<lparr>transport_type := Some t\<rparr>"]) simp_all
qed

lemma parsed_within:
  assumes p: "ParsePedestrianCostOptions lx doc key co = Inr co'"
  shows "(k, n, r) \<in> set (base_ranges pedestrian_config) \<Longrightarrow> holds_range co' n r"
    and "(u, k, n, r) \<in> set (pedestrian_specs co') \<Longrightarrow> holds_range co' n r"
proof -
  obtain j co1 co2 where b: "ParseBaseCostOptions lx pedestrian_config j (co\<lparr>costing_name := ''pedestrian''\<rparr>) = Inr co1"
    "fold_result (parse_spec lx j) (pedestrian_specs co') co2 = Inr co'" "num co2 = num co1"
    using parsed_split [OF p] .
  show "holds_range co' n r" if m: "(k, n, r) \<in> set (base_ranges pedestrian_config)"
    using ParseBaseCostOptions_within [OF b(1) m sane_base [OF m]] parse_specs_other [OF b(2) spec_names_new [OF m]] b(3)
    by (simp add: holds_range_def)
  show "holds_range co' n r" if m: "(u, k, n, r) \<in> set (pedestrian_specs co')"
    by (rule parse_specs_within [OF b(2) distinct_spec_names m sane_specs [OF m]])
qed

lemma opt_within: "holds_range co n r \<Longrightarrow> fits_range r (opt co n)"
  by (auto simp: holds_range_def opt_def num_or_def split: option.splits)

lemma num_or_within: "holds_range co n r \<Longrightarrow> fits_range r (num_or d n co)"
  by (auto simp: holds_range_def num_or_def split: option.splits)

text \<open>The ranges of the options the edge cost depends on.\<close>

lemma parsed_options:
  assumes p: "ParsePedestrianCostOptions lx doc key co = Inr co'"
  shows "1 / 2 \<le> opt co' ''walking_speed''" "opt co' ''walking_speed'' \<le> 25"
    and "0 \<le> opt co' ''use_hills''" "opt co' ''use_hills'' \<le> 1"
    and "0 \<le> opt co' ''use_tracks''" "opt co' ''use_tracks'' \<le> 1"
    and "0 \<le> opt co' ''use_living_streets''" "opt co' ''use_living_streets'' \<le> 1"
    and "0 \<le> opt co' ''use_lit''"
    and "kMinFactor \<le> opt co' ''walkway_factor''" "kMinFactor \<le> opt co' ''sidewalk_factor''"
    and "kMinFactor \<le> opt co' ''alley_factor''" "kMinFactor \<le> opt co' ''driveway_factor''"
    and "kMinFactor \<le> opt co' ''service_factor''"
    and "0 \<le> num_or 1 ''tree_canopy_factor'' co'" "num_or 1 ''tree_canopy_factor'' co' \<le> 2"
proof -
  have sp: "list_all (\<lambda>(u, k, n, r). fits_range r (opt co' n)) (pedestrian_specs co')"
    using opt_within [OF parsed_within(2) [OF p]] by (auto simp: list_all_iff)
  have bs: "list_all (\<lambda>(k, n, r). fits_range r (opt co' n) \<and> fits_range r (num_or 1 n co')) (base_ranges pedestrian_config)"
    using opt_within [OF parsed_within(1) [OF p]] num_or_within [OF parsed_within(1) [OF p]]
    by (auto simp: list_all_iff)
  note unfold = fits_range_def rng_def pedestrian_specs_def foot_specs_def wheelchair_specs_def common_specs_def
  show "1 / 2 \<le> opt co' ''walking_speed''" "opt co' ''walking_speed'' \<le> 25"
    using sp by (auto simp: unfold split: if_splits)
  show "0 \<le> opt co' ''use_hills''" "opt co' ''use_hills'' \<le> 1" "kMinFactor \<le> opt co' ''walkway_factor''"
    "kMinFactor \<le> opt co' ''sidewalk_factor''" "kMinFactor \<le> opt co' ''alley_factor''"
    "kMinFactor \<le> opt co' ''driveway_factor''"
    using sp by (simp_all add: unfold)
  show "0 \<le> opt co' ''use_tracks''" "opt co' ''use_tracks'' \<le> 1" "0 \<le> opt co' ''use_living_streets''"
    "opt co' ''use_living_streets'' \<le> 1" "0 \<le> opt co' ''use_lit''" "kMinFactor \<le> opt co' ''service_factor''"
    "0 \<le> num_or 1 ''tree_canopy_factor'' co'" "num_or 1 ''tree_canopy_factor'' co' \<le> 2"
    using bs by (simp_all add: fits_range_def rng_def base_ranges_def preference_ranges_def comfort_ranges_def
        pedestrian_config_def base_default_def)
qed

section \<open>The members of the costing model\<close>

text \<open>
  What the costs rely on: the pace takes at least an eighth of a second per metre, no
  factor is below a sixteenth, no penalty is negative, and the comfort settings are in range.
\<close>

definition ped_ok :: "pedestrian_cost \<Rightarrow> bool" where
  "ped_ok p \<longleftrightarrow>
     1 / 8 \<le> speedfactor p \<and> length (grade_penalty p) = 16 \<and> list_all (\<lambda>g. 0 \<le> g) (grade_penalty p)
     \<and> list_all (\<lambda>f. 1 / 16 \<le> f) [walkway_factor p, sidewalk_factor p, alley_factor p, driveway_factor p,
          track_factor (dyn p), living_street_factor (dyn p), dc_service_factor (dyn p)]
     \<and> 1 \<le> unlit_factor (dyn p) \<and> layers_ok (dyn p) \<and> 0 \<le> canopy_factor (dyn p) \<and> canopy_factor (dyn p) \<le> 2"

lemma f32_ge: "f32 c = c \<Longrightarrow> c \<le> x \<Longrightarrow> c \<le> f32 x"
  using float32.mono [of c x] by simp

lemma f32_le: "f32 c = c \<Longrightarrow> x \<le> c \<Longrightarrow> f32 x \<le> c"
  using float32.mono [of x c] by simp

lemma small_floats: "f32 (1 / 2) = 1 / 2" "f32 1 = 1" "f32 2 = 2" "f32 (1 / 8) = 1 / 8" "f32 3 = 3" "f32 4 = 4" "f32 (1 / 16) = 1 / 16"
  "f32 6 = 6" "f32 (- 4) = - 4"
  by (simp_all add: float_eval)

text \<open>The factor of a preference in \<open>[0, 1]\<close> that falls from \<open>hi\<close> to 1 and on to \<open>0.8\<close>.\<close>

lemma preference_factor_ge:
  assumes u: "0 \<le> use" "use \<le> 1" and hi: "hi = 3 \<or> hi = (4 :: rat)"
  shows "1 / 16 \<le> (if use < 1 / 2 then fsub hi (fmul (fmul 2 use) (fsub hi 1))
    else fadd (f32 (4 / 5)) (fmul (fmul 2 (fsub 1 use)) (fsub 1 (f32 (4 / 5)))))"
proof (cases "use < 1 / 2")
  case True
  have t: "f32 hi = hi" "f32 (hi - 1) = hi - 1" using hi by (auto simp: float_eval)
  have "fmul (fmul 2 use) (fsub hi 1) \<le> fmul 1 (hi - 1)"
    using True u hi t by (intro fmul_mono f32_le small_floats fmul_nonneg) auto
  then have "1 \<le> hi - fmul (fmul 2 use) (fsub hi 1)" using t by simp
  then have "1 \<le> fsub hi (fmul (fmul 2 use) (fsub hi 1))" by (rule f32_ge [OF small_floats(2)])
  then show ?thesis using True by simp
next
  case False
  have "0 \<le> fmul (fmul 2 (fsub 1 use)) (fsub 1 (f32 (4 / 5)))"
    using u by (intro fmul_nonneg float32.nonneg) (simp_all add: float_eval)
  moreover have "1 / 2 \<le> f32 (4 / 5)" by (simp add: float_eval)
  ultimately have "1 / 2 \<le> f32 (4 / 5) + fmul (fmul 2 (fsub 1 use)) (fsub 1 (f32 (4 / 5)))" by linarith
  then have "1 / 2 \<le> fadd (f32 (4 / 5)) (fmul (fmul 2 (fsub 1 use)) (fsub 1 (f32 (4 / 5))))"
    by (rule f32_ge [OF small_floats(1)])
  then show ?thesis using False by simp
qed

lemma unlit_factor_ge:
  assumes "0 \<le> use" shows "1 \<le> (if use < 1 / 2 then fadd 1 (fmul 2 use) else fadd (fsub 1 5) (fmul 12 use))"
proof (cases "use < 1 / 2")
  case True
  have "0 \<le> fmul 2 use" using assms by (intro fmul_nonneg) simp_all
  then show ?thesis using True by (simp add: f32_ge small_floats)
next
  case False
  then have "6 \<le> fmul 12 use" by (intro f32_ge small_floats) simp
  then have "1 \<le> - 4 + fmul 12 use" by simp
  then have "1 \<le> fadd (- 4) (fmul 12 use)" by (rule f32_ge [OF small_floats(2)])
  then show ?thesis using False small_floats by simp
qed

lemma get_base_costs_fields:
  "track_factor (get_base_costs co d) = track_factor (set_use_tracks (opt co ''use_tracks'') d)"
  "living_street_factor (get_base_costs co d) = living_street_factor (set_use_living_streets (opt co ''use_living_streets'') d)"
  "unlit_factor (get_base_costs co d) = unlit_factor (set_use_lit (opt co ''use_lit'') d)"
  "dc_service_factor (get_base_costs co d) = opt co ''service_factor''"
  "canopy_factor (get_base_costs co d) = num_or 1 ''tree_canopy_factor'' co"
  by (simp_all add: get_base_costs_def Let_def apply_layer_factor_fields fill_layers_def set_use_tracks_def
      set_use_living_streets_def set_use_lit_def)

lemma layers_ok_get_base_costs:
  assumes "0 < default_base_multiplier d" "0 < default_max_reduction d" "default_max_reduction d \<le> f32 (99 / 100)"
  shows "layers_ok (get_base_costs co d)"
proof -
  have init: "layers_ok (fill_layers e)" if "default_base_multiplier e = default_base_multiplier d"
    "default_max_reduction e = default_max_reduction d" for e
    using assms that by (simp add: layers_ok_def fill_layers_def kMaxGeoJsonLayers_cost_def list_all_iff)
  have upd: "layers_ok (e\<lparr>exclude_bridges := a1, exclude_tunnels := a2, exclude_tolls := a3, exclude_highways := a4,
      exclude_ferries := a5, has_excludes := a6, exclude_cash_only_tolls := a7, restriction_probability := a8,
      dc_flow_mask := a9, dc_fixed_speed := a10, dc_top_speed := a11, exclude_unpaved := a12,
      default_hierarchy_limits := a13\<rparr>) = layers_ok e" for e a1 a2 a3 a4 a5 a6 a7 a8 a9 a10 a11 a12 a13
    by (simp add: layers_ok_def)
  show ?thesis
    unfolding get_base_costs_def Let_def upd
    by (rule apply_layer_factors_ok, rule init) (simp_all add: set_use_lit_def set_use_living_streets_def set_use_tracks_def)
qed

lemma CreatePedestrianCost_ok:
  assumes p: "ParsePedestrianCostOptions lx doc key co = Inr co'"
  shows "ped_ok (CreatePedestrianCost co')"
proof -
  note o = parsed_options [OF p]
  have min: "1 / 16 \<le> kMinFactor" by (rule constants)
  have "1 / 8 \<le> kMetersPerSecond / opt co' ''walking_speed''"
  proof -
    have "25 / 8 \<le> kMetersPerSecond" by (simp add: kMetersPerSecond_def kSecPerHour_def float_eval)
    then show ?thesis using o(1,2) by (simp add: le_divide_eq)
  qed
  then have speed: "1 / 8 \<le> fdiv kMetersPerSecond (opt co' ''walking_speed'')" by (rule f32_ge [OF small_floats(4)])
  have hills: "0 \<le> fsub 1 (opt co' ''use_hills'')" using o(4) by (intro float32.nonneg) simp
  have grades: "list_all (\<lambda>g. 0 \<le> g) (map (fmul (fsub 1 (opt co' ''use_hills''))) kAvoidHillsStrength)"
    unfolding list_all_iff set_map
  proof (intro ballI, elim imageE)
    fix g x assume g: "g = fmul (fsub 1 (opt co' ''use_hills'')) x" and x: "x \<in> set kAvoidHillsStrength"
    have "0 \<le> x" using x by (auto simp: kAvoidHillsStrength_def intro!: float32.nonneg)
    then show "0 \<le> g" unfolding g using hills by (intro fmul_nonneg)
  qed
  have pref: "1 / 16 \<le> track_factor (set_use_tracks (opt co' ''use_tracks'') d)"
    "1 / 16 \<le> living_street_factor (set_use_living_streets (opt co' ''use_living_streets'') d)"
    "1 \<le> unlit_factor (set_use_lit (opt co' ''use_lit'') d)" for d
    using preference_factor_ge [of "opt co' ''use_tracks''" 4] preference_factor_ge [of "opt co' ''use_living_streets''" 3]
      unlit_factor_ge [of "opt co' ''use_lit''"] o small_floats
    by (simp_all add: set_use_tracks_def set_use_living_streets_def set_use_lit_def)
  have layers: "layers_ok (get_base_costs co' (set_default_geojson_scaling (f32 (4 / 10)) (f32 (8 / 10)) d))" for d
    by (rule layers_ok_get_base_costs) (simp_all add: set_default_geojson_scaling_def float_eval)
  have access: "layers_ok (d\<lparr>access_mask := m\<rparr>) = layers_ok d" for d m by (simp add: layers_ok_def)
  show ?thesis
    using o min speed grades pref layers
    by (simp add: ped_ok_def CreatePedestrianCost_def Let_def get_base_costs_fields access kAvoidHillsStrength_def)
qed

section \<open>The cost of an edge\<close>

lemma powi_numeral: "2 powi (- 3) = (1 / 8 :: rat)" "2 powi (- 4) = (1 / 16 :: rat)" "2 powi (- 1) = (1 / 2 :: rat)"
  by (simp_all add: power_int_minus)

lemma tables_ge:
  "i < 7 \<Longrightarrow> 1 \<le> kSacScaleSpeedFactor ! i" "i < 16 \<Longrightarrow> 1 / 2 \<le> kGradeBasedSpeedFactor ! i"
  "i < 7 \<Longrightarrow> 0 \<le> kSacScaleCostFactor ! i"
proof -
  have "list_all (\<lambda>x. 1 \<le> x) kSacScaleSpeedFactor" "list_all (\<lambda>x. 1 / 2 \<le> x) kGradeBasedSpeedFactor"
    "list_all (\<lambda>x. 0 \<le> x) kSacScaleCostFactor"
    by (simp_all add: kSacScaleSpeedFactor_def kGradeBasedSpeedFactor_def kSacScaleCostFactor_def float_eval)
  then show "i < 7 \<Longrightarrow> 1 \<le> kSacScaleSpeedFactor ! i" "i < 16 \<Longrightarrow> 1 / 2 \<le> kGradeBasedSpeedFactor ! i"
    "i < 7 \<Longrightarrow> 0 \<le> kSacScaleCostFactor ! i"
    by (simp_all add: list_all_length kSacScaleSpeedFactor_def kGradeBasedSpeedFactor_def kSacScaleCostFactor_def)
qed

lemma table_lengths: "length kSacScaleSpeedFactor = 7" "length kSacScaleCostFactor = 7" "length kGradeBasedSpeedFactor = 16"
  by (simp_all add: kSacScaleSpeedFactor_def kSacScaleCostFactor_def kGradeBasedSpeedFactor_def)

lemma grade_less: "unat (e :: 4 word) < 16"
  using unsigned_less [of e, where ?'a = nat] by simp

lemma length_ge: "0 < unat (w :: 24 word) \<Longrightarrow> 1 \<le> f32 (of_nat (unat w))"
proof (rule f32_ge [OF small_floats(2)])
  assume "0 < unat w"
  then have "(of_nat 1 :: rat) \<le> of_nat (unat w)" by (simp only: of_nat_le_iff)
  then show "(1 :: rat) \<le> of_nat (unat w)" by simp
qed

lemma edge_seconds_ge:
  assumes p: "ped_ok p" and e: "0 < unat (de_length e)" "unat (de_sac_scale e) < 7"
  obtains s where "edge_seconds p e = Inr s" and "2 powi (- 4) \<le> s"
proof -
  let ?a = "f32 (of_nat (unat (de_length e)))" and ?sac = "kSacScaleSpeedFactor ! unat (de_sac_scale e)"
    and ?g = "kGradeBasedSpeedFactor ! unat (de_weighted_grade e)"
  have "2 powi (- 3) \<le> speedfactor p" using p by (simp only: ped_ok_def powi_numeral)
  then have 1: "2 powi (- 3) \<le> fmul ?a (speedfactor p)"
    using fmul_ge_powi [of 0 ?a "- 3" "speedfactor p"] length_ge [OF e(1)] by simp
  have 2: "2 powi (- 3) \<le> fmul (fmul ?a (speedfactor p)) ?sac"
    using fmul_ge_powi [OF 1, of 0 ?sac] tables_ge(1) [OF e(2)] by simp
  have 3: "2 powi (- 4) \<le> fmul (fmul (fmul ?a (speedfactor p)) ?sac) ?g"
    using fmul_ge_powi [OF 2, of "- 1" ?g] tables_ge(2) [OF grade_less] by (simp add: powi_numeral)
  have "edge_seconds p e = Inr (fmul (fmul (fmul ?a (speedfactor p)) ?sac) ?g)"
    using e(2) grade_less [of "de_weighted_grade e"] by (simp add: edge_seconds_def table_def table_lengths)
  then show ?thesis using 3 by (rule that)
qed

lemma use_factor_ge: "ped_ok p \<Longrightarrow> 2 powi (- 4) \<le> use_factor p e"
  by (simp add: ped_ok_def use_factor_def powi_numeral kRoundaboutFactor_def)

lemma lit_factor_ge: "ped_ok p \<Longrightarrow> 1 \<le> lit_factor p e"
proof -
  assume "ped_ok p"
  then have "1 \<le> unlit_factor (dyn p)" by (simp add: ped_ok_def)
  then have "1 \<le> f32 (unlit_factor (dyn p))" by (rule f32_ge [OF small_floats(2)])
  then show ?thesis by (cases "de_lit e") (simp_all add: lit_factor_def small_floats)
qed

lemma edge_factor_ge:
  assumes p: "ped_ok p" and e: "unat (de_sac_scale e) < 7"
  obtains f where "edge_factor p e = Inr f" and "2 powi (- 4) \<le> f" and "f32 f = f"
proof -
  let ?sac = "kSacScaleCostFactor ! unat (de_sac_scale e)" and ?g = "grade_penalty p ! unat (de_weighted_grade e)"
  let ?b = "fadd (fadd 1 ?sac) ?g"
  have g: "0 \<le> ?g" using p grade_less [of "de_weighted_grade e"] by (simp add: ped_ok_def list_all_length)
  have "1 \<le> fadd 1 ?sac" using tables_ge(3) [OF e] by (intro f32_ge small_floats) simp
  then have b: "1 \<le> ?b" using g by (intro f32_ge small_floats) simp
  have 1: "2 powi (- 4) \<le> fmul ?b (use_factor p e)"
    using fmul_ge_powi [of 0 ?b "- 4" "use_factor p e"] b use_factor_ge [OF p, of e] by simp
  have 2: "2 powi (- 4) \<le> fmul (fmul ?b (use_factor p e)) (lit_factor p e)"
    using fmul_ge_powi [OF 1, of 0 "lit_factor p e"] lit_factor_ge [OF p, of e] by simp
  have "edge_factor p e = Inr (fmul (fmul ?b (use_factor p e)) (lit_factor p e))"
    using e p grade_less [of "de_weighted_grade e"] by (simp add: edge_factor_def table_def table_lengths ped_ok_def)
  then show ?thesis using 2 by (rule that) simp
qed

section \<open>Properties\<close>

text \<open>
  No request can leave its ranges. Whatever JSON and protobuf options a pedestrian request
  holds, parsing them either stops at a number that does not fit its integer type (undefined
  behaviour in the source) or at a text that is read as a number that is not finite, or gives options of which every ranged one, base options and
  pedestrian options, lies within its range, and a costing model with sane members: a
  pace and factors bounded away from zero, no negative penalty, and comfort settings in range.
\<close>

theorem options_in_range:
  "case ParsePedestrianCostOptions lx doc key co of
     Inl e \<Rightarrow> bad_number lx doc e
   | Inr co' \<Rightarrow> list_all (\<lambda>(k, n, r). holds_range co' n r) (base_ranges pedestrian_config)
       \<and> list_all (\<lambda>(u, k, n, r). holds_range co' n r) (pedestrian_specs co')
       \<and> ped_ok (CreatePedestrianCost co')"
proof (cases "ParsePedestrianCostOptions lx doc key co")
  case (Inl err)
  then show ?thesis using only_bad_numbers_pedestrian [of lx doc key co] by (simp add: only_bad_numbers_def)
next
  case (Inr co')
  then show ?thesis
    using parsed_within [OF Inr] CreatePedestrianCost_ok [OF Inr] by (auto simp: list_all_iff)
qed

text \<open>An edge of length zero takes no time and costs nothing.\<close>

lemma edge_seconds_zero: "de_length e = 0 \<Longrightarrow> edge_seconds p e = Inr s \<Longrightarrow> s = 0"
  by (auto simp: edge_seconds_def bind_result_eq_Inr)

text \<open>
  C17: Shade never costs, on any edge that is not a ferry. For a costing model with its members in the ranges
  that \<open>options_in_range\<close> shows for every request, \<^verbatim>\<open>EdgeCost\<close> is defined on every hiking scale
  but 7, which the three bits of the field can hold and the tables of seven entries cannot answer. Where it
  is defined, of two environments the one with more canopy and higher layer scores costs at
  most as much, takes exactly as long, and costs nothing only if the edge has no length: otherwise the
  cost is bounded away from zero however strong the discounts.
\<close>

theorem edge_cost_shade:
  assumes p: "ped_ok p" and e: "use_of e \<noteq> kFerry" and env: "env_le v v'"
  shows "if de_sac_scale e = 7 then EdgeCost p e v fs = Inl Undefined \<and> EdgeCost p e v' fs = Inl Undefined
    else \<exists>c c'. EdgeCost p e v fs = Inr c \<and> EdgeCost p e v' fs = Inr c' \<and> cost c' \<le> cost c \<and> secs c' = secs c
      \<and> (if de_length e = 0 then cost c' = 0 \<and> secs c' = 0 else 2 powi (- 43) \<le> cost c' \<and> 2 powi (- 4) \<le> secs c')"
proof -
  have seven: "de_sac_scale e = 7 \<longleftrightarrow> \<not> unat (de_sac_scale e) < 7"
    using unsigned_less [of "de_sac_scale e", where ?'a = nat] by (auto simp: word_unat_eq_iff)
  show ?thesis
  proof (cases "unat (de_sac_scale e) < 7")
    case False
    then show ?thesis
      using e seven by (simp add: EdgeCost_def edge_seconds_def table_def table_lengths)
  next
    case scale: True
    let ?len = "f32 (of_nat (unat (de_length e)))"
    obtain f where f: "edge_factor p e = Inr f" "2 powi (- 4) \<le> f" "f32 f = f" using edge_factor_ge [OF p scale] .
    obtain s where s: "edge_seconds p e = Inr s"
      using scale grade_less [of "de_weighted_grade e"] by (simp add: edge_seconds_def table_def table_lengths)
    have s_ge: "2 powi (- 4) \<le> s" if "de_length e \<noteq> 0"
      using edge_seconds_ge [OF p _ scale] s that by (metis Inr_inject unat_gt_0)
    have s_0: "s = 0" if "de_length e = 0" using edge_seconds_zero [OF that s] .
    have pos: "0 \<le> s" "0 \<le> f"
      using s_ge s_0 f(2) by (cases "de_length e = 0"; auto intro: order_trans [of 0 "2 powi (- 4)"])+
    show ?thesis
    proof (cases "shortest (dyn p)")
      case True
      have "2 powi (- 43) \<le> ?len" if "de_length e \<noteq> 0"
      proof -
        have "(2::rat) powi (- 43) \<le> 2 powi 0" by (rule powi_mono) simp
        also have "\<dots> \<le> ?len" using length_ge [of "de_length e"] that by (simp add: unat_gt_0)
        finally show ?thesis .
      qed
      then show ?thesis using True e s s_ge s_0 seven scale by (simp add: EdgeCost_def)
    next
      case False
      have "pedestrian_discount \<in> set comfort_models" by (simp add: comfort_models_def)
      then obtain base cap where d: "pedestrian_discount = comfort_discount base cap" "0 \<le> base" "0 \<le> cap" "cap \<le> 127 / 128"
        using model_constants by blast
      note cd = comfort_discount_props [OF d(2-4) f(3) pos(2) env, where d = "dyn p", folded d(1)]
      have "2 powi (- 4 - 35) \<le> pedestrian_discount (dyn p) v' f" using cd(4) [OF f(2)] by simp
      then have ge: "2 powi (- 43) \<le> fmul s (pedestrian_discount (dyn p) v' f)" if "de_length e \<noteq> 0"
        using fmul_ge_powi [OF s_ge [OF that], of "- 4 - 35"] by simp
      have "fmul s (pedestrian_discount (dyn p) v' f) \<le> fmul s (pedestrian_discount (dyn p) v f)"
        using pos cd by (intro fmul_mono) simp_all
      then show ?thesis using False e s f(1) ge s_ge s_0 seven scale by (simp add: EdgeCost_def)
    qed
  qed
qed

lemma f32_half:
  assumes x: "2 powi (- 100) \<le> x" shows "f32 (x / 2) = f32 x / 2"
proof -
  have pos: "0 < x" using less_le_trans [OF powi_pos x] .
  have b: "2 powi ilog2 x \<le> x" "x < 2 powi (ilog2 x + 1)" using pos by (rule ilog2_bounds)+
  have half: "(2::rat) powi (i - 1) = 2 powi i / 2" for i by (simp add: power_int_diff)
  have l: "ilog2 (x / 2) = ilog2 x - 1"
    using b pos half [of "ilog2 x"] half [of "ilog2 x + 1"] by (intro ilog2_unique) simp_all
  have "(2::rat) powi (- 100) < 2 powi (ilog2 x + 1)" using x b(2) by (rule le_less_trans)
  then have "- 100 < ilog2 x + 1" by (simp only: powi_less_iff)
  then have big: "- 101 < ilog2 x" by simp
  have e: "fl_exp 24 (- 149) x = ilog2 x - 23" "fl_exp 24 (- 149) (x / 2) = ilog2 x - 23 - 1"
    using pos l big by (simp_all add: fl_exp_def)
  show ?thesis
    unfolding f32_def fl_def e half using pos by (simp add: Let_def)
qed

lemma f32_eighth: "2 powi (- 90) \<le> s \<Longrightarrow> f32 s = s \<Longrightarrow> f32 (s / 8) = s / 8"
proof -
  assume s: "2 powi (- 90) \<le> s" "f32 s = s"
  have small: "(2::rat) powi (- 100) \<le> 2 powi (- 90) / 4" by (simp add: power_int_minus)
  then have "2 powi (- 100) \<le> s / 4" "2 powi (- 100) \<le> s / 2" "2 powi (- 100) \<le> s"
    using s(1) by (auto intro: order_trans)
  then show ?thesis using f32_half [of s] f32_half [of "s / 2"] f32_half [of "s / 4"] s(2) by simp
qed

text \<open>
  C36: The heuristic ignores the shade. On the first pass \<^verbatim>\<open>AStarCostFactor\<close> accounts for the factors
  of ways below one but not for the discounts of canopy and layers: with the strongest
  canopy preference, a flat and lit footway under full canopy costs at most a quarter of what the
  heuristic assumes as its least cost, its length times the factor. The estimate is not a lower
  bound, as its documentation requires.
\<close>

theorem heuristic_overestimates:
  assumes p: "ped_ok p" "dc_pass (dyn p) = 0" "\<not> shortest (dyn p)" "canopy_factor (dyn p) = 2" "walkway_factor p = 1"
      "grade_penalty p ! 6 = 0"
    and least: "speedfactor p / 2 \<le> AStarCostFactor p"
    and e: "use_of e = kFootway" "de_lit e" "de_sac_scale e = 0" "de_weighted_grade e = 6" "0 < unat (de_length e)"
    and env: "tree_canopy v = 127" "length (layer_scores v) = 4"
  shows "\<exists>c. EdgeCost p e v fs = Inr c \<and> 4 * cost c \<le> fmul (f32 (of_nat (unat (de_length e)))) (AStarCostFactor p)"
proof -
  define len where "len = f32 (of_nat (unat (de_length e)))"
  define s where "s = fmul len (speedfactor p)"
  have sec: "edge_seconds p e = Inr s"
    using e by (simp add: edge_seconds_def table_def kSacScaleSpeedFactor_def kGradeBasedSpeedFactor_def s_def len_def)
  have s4: "2 powi (- 4) \<le> s" using edge_seconds_ge [OF p(1) e(5)] e(3) sec by auto
  have fac: "edge_factor p e = Inr 1"
    using e p by (simp add: edge_factor_def table_def kSacScaleCostFactor_def use_factor_def lit_factor_def ped_ok_def
        small_floats)
  have red: "canopy_reduction (f32 (45 / 100)) (f32 (9 / 10)) 2 (tree_canopy v) = f32 (9 / 10)"
    by (simp add: canopy_reduction_def env float_eval)
  have disc: "pedestrian_discount (dyn p) v 1
      = fmul (fmul 1 (fsub 1 (f32 (9 / 10)))) (GeoJsonCostMultiplier (dyn p) (layer_scores v))"
    by (simp only: pedestrian_discount_def comfort_discount_def Let_def p(4) red) (simp add: env)
  have "fsub 1 (f32 (9 / 10)) \<le> 1 / 8" "0 \<le> fsub 1 (f32 (9 / 10))" by (simp_all add: float_eval)
  moreover have "scores_le (layer_scores v) (layer_scores v)" by (simp add: scores_le_def list_all2_refl)
  then have "GeoJsonCostMultiplier (dyn p) (layer_scores v) \<le> 1" "0 \<le> GeoJsonCostMultiplier (dyn p) (layer_scores v)"
    using GeoJsonCostMultiplier_antimono env(2) by blast+
  ultimately have "fmul (fmul 1 (fsub 1 (f32 (9 / 10)))) (GeoJsonCostMultiplier (dyn p) (layer_scores v)) \<le> fmul (1 / 8) 1"
    by (intro fmul_mono) simp_all
  then have d: "pedestrian_discount (dyn p) v 1 \<le> 1 / 8"
    by (simp only: disc) (simp add: small_floats)
  have s0: "0 \<le> s" using s4 by (auto intro: order_trans [of 0 "2 powi (- 4)"])
  have "0 \<le> pedestrian_discount (dyn p) v 1"
    unfolding disc
    by (intro fmul_nonneg \<open>0 \<le> fsub 1 (f32 (9 / 10))\<close> \<open>0 \<le> GeoJsonCostMultiplier (dyn p) (layer_scores v)\<close>) simp
  then have "fmul s (pedestrian_discount (dyn p) v 1) \<le> fmul s (1 / 8)" using s0 d by (intro fmul_mono) simp_all
  also have "\<dots> = s / 8"
  proof -
    have "(2::rat) powi (- 90) \<le> 2 powi (- 4)" by (rule powi_mono) simp
    then show ?thesis using f32_eighth [of s] s4 by (simp add: s_def)
  qed
  finally have c: "4 * fmul s (pedestrian_discount (dyn p) v 1) \<le> s / 2" by simp
  have "s / 2 = f32 (len * speedfactor p / 2)"
  proof -
    have "2 powi (- 3) \<le> speedfactor p" using p(1) by (simp only: ped_ok_def powi_numeral)
    then have "2 powi 0 * 2 powi (- 3) \<le> len * speedfactor p"
      using length_ge [OF e(5)] unfolding len_def by (intro mult_mono) auto
    moreover have "(2::rat) powi (- 100) \<le> 2 powi (- 3)" by (rule powi_mono) simp
    ultimately show ?thesis using f32_half [of "len * speedfactor p"] by (simp add: s_def)
  qed
  also have "\<dots> \<le> fmul len (AStarCostFactor p)"
  proof (rule float32.mono)
    have "0 \<le> len" using length_ge [OF e(5)] by (simp add: len_def)
    then have "len * (speedfactor p / 2) \<le> len * AStarCostFactor p" using least by (intro mult_left_mono)
    then show "len * speedfactor p / 2 \<le> len * AStarCostFactor p" by simp
  qed
  finally have "4 * fmul s (pedestrian_discount (dyn p) v 1) \<le> fmul len (AStarCostFactor p)" using c by simp
  then show ?thesis using e(1) p(3) sec fac by (simp add: EdgeCost_def len_def kFootway_def kFerry_def)
qed

text \<open>
  The walking distance is never limited. The parentheses of \<^verbatim>\<open>Allowed\<close> make the sum of the path's
  and the edge's length an operand of the conjunction, so what is compared with
  \<^verbatim>\<open>max_distance\<close> is 0 or 1: for any maximum above zero the edge is allowed or not regardless of
  how far the path has gone.
\<close>

theorem distance_never_limited:
  assumes "0 < max_distance p"
  shows "Allowed_checks p e (pred\<lparr>pred_path_distance := x\<rparr>) edgeid = Allowed_checks p e pred edgeid"
proof -
  have "1 \<le> max_distance p" using assms by (simp add: word_less_nat_alt word_le_nat_alt)
  then have "\<not> distance_exceeded p e q" for q by (auto simp: distance_exceeded_def)
  then show ?thesis by (simp add: Allowed_checks_def is_uturn_def CheckExclusions_def)
qed

section \<open>Witnesses\<close>

text \<open>A walker at 4.8 km/h who prefers shade as much as the options allow, and a footway under trees.\<close>

definition demo_ped :: pedestrian_cost where
  "demo_ped = (CreatePedestrianCost no_options)\<lparr>
     dyn := demo_model\<lparr>track_factor := 1, living_street_factor := 1, dc_service_factor := 1, unlit_factor := 1,
       canopy_factor := 2\<rparr>,
     speedfactor := 3 / 4, walkway_factor := 1, sidewalk_factor := 1, alley_factor := 2, driveway_factor := 5,
     max_distance := 100000\<rparr>"

definition demo_footway :: directed_edge where
  "demo_footway = (read_directed_edge (replicate 48 0))\<lparr>de_use := 25, de_lit := True, de_sac_scale := 0,
     de_weighted_grade := 6, de_length := 100\<rparr>"

definition demo_shade :: environment_scores where
  "demo_shade = \<lparr>tree_canopy = 127, layer_scores = [0, 0, 0, 0]\<rparr>"

lemma demo_model_fields: "layers_ok demo_model" "\<not> shortest demo_model" "dc_pass demo_model = 0"
proof -
  show "layers_ok demo_model"
    unfolding demo_model_def
    by (rule layers_ok_get_base_costs) (simp_all add: new_dynamic_cost_def float_eval)
  show "\<not> shortest demo_model" "dc_pass demo_model = 0"
    by (simp_all add: demo_model_def get_base_costs_def new_dynamic_cost_def no_options_def set_use_tracks_def
        set_use_living_streets_def set_use_lit_def fill_layers_def)
qed

lemma demo_ped_ok: "ped_ok demo_ped"
proof -
  have "layers_ok (d\<lparr>track_factor := a, living_street_factor := b, dc_service_factor := c, unlit_factor := u,
      canopy_factor := k\<rparr>) = layers_ok d" for d a b c u k by (simp add: layers_ok_def)
  then show ?thesis
    using demo_model_fields(1)
    by (simp add: ped_ok_def demo_ped_def CreatePedestrianCost_def kAvoidHillsStrength_def opt_def num_or_def
        no_options_def Let_def float_eval)
qed

lemma demo_env_le: "env_le no_scores demo_shade"
  by (simp add: env_le_def no_scores_def demo_shade_def scores_le_def kMaxGeoJsonLayers_def eval_nat_numeral)

lemma demo_footway_fields: "use_of demo_footway = kFootway" "de_lit demo_footway" "de_sac_scale demo_footway = 0"
  "de_weighted_grade demo_footway = 6" "de_length demo_footway = 100"
  by (simp_all add: demo_footway_def use_of_def kFootway_def)

theorem edge_cost_shade_witness:
  "\<exists>c c'. EdgeCost demo_ped demo_footway no_scores 0 = Inr c \<and> EdgeCost demo_ped demo_footway demo_shade 0 = Inr c'
    \<and> cost c' \<le> cost c \<and> secs c' = secs c \<and> 2 powi (- 43) \<le> cost c' \<and> 2 powi (- 4) \<le> secs c'"
  using edge_cost_shade [OF demo_ped_ok _ demo_env_le, of demo_footway 0]
  by (simp add: demo_footway_fields kFootway_def kFerry_def)

theorem heuristic_overestimates_witness:
  "\<exists>c. EdgeCost demo_ped demo_footway demo_shade 0 = Inr c
    \<and> 4 * cost c \<le> fmul (f32 (of_nat (unat (de_length demo_footway)))) (AStarCostFactor demo_ped)"
  by (rule heuristic_overestimates [OF demo_ped_ok])
    (simp_all add: demo_footway_fields demo_shade_def demo_ped_def demo_model_fields AStarCostFactor_def below_one_def
      CreatePedestrianCost_def kAvoidHillsStrength_def Let_def float_eval)

theorem distance_never_limited_witness:
  "Allowed_checks demo_ped demo_footway ((edge_as_pred demo_footway)\<lparr>pred_path_distance := 200000\<rparr>) 7
    = Allowed_checks demo_ped demo_footway (edge_as_pred demo_footway) 7"
  by (rule distance_never_limited) (simp add: demo_ped_def)

end
