(* ===== verification/Time_Info.thy ===== *)
theory Time_Info
  imports Floats
begin

text \<open>
  \<^verbatim>\<open>TimeInfo\<close> (\<^verbatim>\<open>valhalla/baldr/time_info.h\<close>): the local time, the second of the week and the
  distance from now, carried along a path by \<^verbatim>\<open>forward\<close> and \<^verbatim>\<open>reverse\<close>. The bit fields keep
  their widths. The difference between two time zones at a moment comes from the time zone
  database: it is the parameter \<open>tzdiff\<close>. The cache of it is not modelled. A conversion
  of a \<^verbatim>\<open>float\<close> out of the range of its integer type and signed overflow are \<open>Undefined\<close>.

  The lemmas show that a path forward and back by the same whole seconds ends where it
  began, and where the second of the week leaves its range.
\<close>

record time_info =
  ti_valid :: bool
  timezone_index :: "9 word"
  local_time :: "54 word"
  second_of_week :: "20 word"
  seconds_from_now :: "43 word"
  negative_seconds_from_now :: bool

definition kSecondsPerDay :: u32 where "kSecondsPerDay = 86400"
definition kSecondsPerWeek :: u32 where "kSecondsPerWeek = 604800"
definition kInvalidSecondsOfWeek :: u64 where "kInvalidSecondsOfWeek = mask 20"

definition invalid_time :: time_info where
  "invalid_time = \<lparr>ti_valid = False, timezone_index = 0, local_time = 0,
     second_of_week = ucast kInvalidSecondsOfWeek, seconds_from_now = 0, negative_seconds_from_now = False\<rparr>"

text \<open>\<^verbatim>\<open>static_cast\<close> from \<^verbatim>\<open>float\<close> to \<^verbatim>\<open>uint64_t\<close> and \<^verbatim>\<open>int32_t\<close>, and arithmetic on \<^verbatim>\<open>int32_t\<close>.\<close>

definition to_u64 :: "rat \<Rightarrow> u64 result" where
  "to_u64 x = (let i = c_trunc x in if 0 \<le> i \<and> i < 2 ^ 64 then Inr (word_of_int i) else Inl Undefined)"

definition int32_ok :: "int \<Rightarrow> int result" where
  "int32_ok i = (if - (2 ^ 31) \<le> i \<and> i < 2 ^ 31 then Inr i else Inl Undefined)"

text \<open>The steps \<^verbatim>\<open>forward\<close> and \<^verbatim>\<open>reverse\<close> share.\<close>

definition add_timezone :: "(u64 \<Rightarrow> nat \<Rightarrow> nat \<Rightarrow> int) \<Rightarrow> time_info \<Rightarrow> u64 \<Rightarrow> nat \<Rightarrow> int \<Rightarrow> int result" where
  "add_timezone tzdiff t lt tz sw =
     (if tz \<noteq> unat (timezone_index t) then int32_ok (sw + tzdiff lt (unat (timezone_index t)) tz) else Inr sw)"

definition wrap_week :: "int \<Rightarrow> int" where
  "wrap_week sw =
     (if sw < 0 then sw + uint kSecondsPerWeek
      else if uint kSecondsPerWeek < sw then sw - uint kSecondsPerWeek else sw)"

definition signed_from_now :: "time_info \<Rightarrow> int" where
  "signed_from_now t = uint (seconds_from_now t) * (of_bool (negative_seconds_from_now t) * - 2 + 1)"

definition shifted_time :: "time_info \<Rightarrow> nat \<Rightarrow> u64 \<Rightarrow> int \<Rightarrow> int \<Rightarrow> time_info" where
  "shifted_time t tz lt sw sfn =
     \<lparr>ti_valid = ti_valid t, timezone_index = of_nat tz, local_time = ucast lt, second_of_week = word_of_int sw,
      seconds_from_now = word_of_int \<bar>sfn\<bar>, negative_seconds_from_now = sfn < 0\<rparr>"

definition time_forward :: "(u64 \<Rightarrow> nat \<Rightarrow> nat \<Rightarrow> int) \<Rightarrow> time_info \<Rightarrow> rat \<Rightarrow> nat \<Rightarrow> time_info result" where
  "time_forward tzdiff t seconds tz =
     (if \<not> ti_valid t then Inr t
      else bind_result (to_u64 seconds) (\<lambda>s.
        let lt = ucast (local_time t) + s
        in bind_result (int32_ok (c_trunc (f32 (of_nat (unat (second_of_week t)) + seconds)))) (\<lambda>sw.
           bind_result (add_timezone tzdiff t lt tz sw) (\<lambda>sw.
             Inr (shifted_time t tz lt (wrap_week sw) (signed_from_now t + uint s))))))"

definition time_reverse :: "(u64 \<Rightarrow> nat \<Rightarrow> nat \<Rightarrow> int) \<Rightarrow> time_info \<Rightarrow> rat \<Rightarrow> nat \<Rightarrow> time_info result" where
  "time_reverse tzdiff t seconds tz =
     (if \<not> ti_valid t then Inr t
      else bind_result (to_u64 seconds) (\<lambda>s.
        let lt = ucast (local_time t) - s
        in bind_result (int32_ok (c_trunc seconds)) (\<lambda>off.
           bind_result (int32_ok (uint (second_of_week t) - off)) (\<lambda>sw.
           bind_result (add_timezone tzdiff t lt tz sw) (\<lambda>sw.
             Inr (shifted_time t tz lt (wrap_week sw) (signed_from_now t - uint s)))))))"

definition day_seconds :: "time_info \<Rightarrow> u32" where
  "day_seconds t = ucast (second_of_week t) mod kSecondsPerDay"

section \<open>Whole seconds\<close>

lemma seconds_per_week [simp]: "uint kSecondsPerWeek = 604800"
  by (simp add: kSecondsPerWeek_def)

lemma to_u64_nat: "n < 2 ^ 64 \<Longrightarrow> to_u64 (of_nat n) = Inr (word_of_nat n)"
  using c_trunc_of_int [of "int n"] by (simp add: to_u64_def Let_def)

lemma int32_ok_in: "- (2 ^ 31) \<le> i \<Longrightarrow> i < 2 ^ 31 \<Longrightarrow> int32_ok i = Inr i"
  by (simp add: int32_ok_def)

lemma uint_word_nat: "n \<le> 604800 \<Longrightarrow> uint (word_of_nat n :: u64) = int n"
  by (simp add: unsigned_of_nat take_bit_nat_eq_self_iff)

text \<open>The second of the week after \<open>n\<close> seconds forward in the same zone, for at most a week.\<close>

lemma time_forward_nat:
  assumes t: "ti_valid t" "uint (second_of_week t) = int k" "k < 604800" and n: "n \<le> 604800"
  shows "time_forward tzdiff t (of_nat n) (unat (timezone_index t)) = Inr (shifted_time t (unat (timezone_index t))
    (ucast (local_time t) + word_of_nat n) (wrap_week (int k + int n)) (signed_from_now t + int n))"
proof -
  have u: "unat (second_of_week t) = k" using t(2) by (simp add: unat_eq_nat_uint)
  have "f32 (of_nat (k + n)) = of_nat (k + n)"
    by (rule float32.exact_nat) (use t n in simp)
  then have f: "f32 (of_nat k + of_nat n) = of_int (int (k + n))" by simp
  have "c_trunc (f32 (of_nat (unat (second_of_week t)) + of_nat n)) = int k + int n"
    by (simp only: u f c_trunc_of_int of_nat_add)
  moreover have "uint (word_of_nat n :: u64) = int n" using n by (simp add: uint_word_nat)
  ultimately show ?thesis
    using t n by (simp add: time_forward_def to_u64_nat int32_ok_in add_timezone_def Let_def)
qed

lemma time_reverse_nat:
  assumes t: "ti_valid t" "uint (second_of_week t) = int k" "k \<le> 604800" and n: "n \<le> 604800"
  shows "time_reverse tzdiff t (of_nat n) (unat (timezone_index t)) = Inr (shifted_time t (unat (timezone_index t))
    (ucast (local_time t) - word_of_nat n) (wrap_week (int k - int n)) (signed_from_now t - int n))"
proof -
  have "uint (word_of_nat n :: u64) = int n" using n by (simp add: uint_word_nat)
  moreover have "c_trunc (of_nat n) = int n" using c_trunc_of_int [of "int n"] by simp
  ultimately show ?thesis
    using t n by (simp add: time_reverse_def to_u64_nat int32_ok_in add_timezone_def Let_def)
qed

lemma wrap_week_bounds:
  assumes "0 \<le> i" "i \<le> 2 * 604800" shows "0 \<le> wrap_week i" and "wrap_week i \<le> 604800"
  using assms by (auto simp: wrap_week_def)

lemma wrap_week_back: "0 \<le> k \<Longrightarrow> k < 604800 \<Longrightarrow> 0 \<le> n \<Longrightarrow> n \<le> 604800 \<Longrightarrow> wrap_week (wrap_week (k + n) - n) = k"
  by (simp add: wrap_week_def)

lemma signed_sum_bound: "m + n < N \<Longrightarrow> \<bar>int m * (of_bool b * - 2 + 1) + int n\<bar> < int N"
  by (cases b) simp_all

lemma signed_from_now_bound: "unat (seconds_from_now t) + n < N \<Longrightarrow> \<bar>signed_from_now t + int n\<bar> < int N"
  unfolding signed_from_now_def uint_nat by (rule signed_sum_bound)

text \<open>The 54 bits of the local time survive the 64 bit arithmetic.\<close>

lemma take_bit_54_64:
  fixes a b :: int
  shows "take_bit 54 (take_bit 64 a + take_bit 64 b) = take_bit 54 (a + b)"
    and "take_bit 54 (take_bit 64 a - take_bit 64 b) = take_bit 54 (a - b)"
  using take_bit_add [of 54 "take_bit 64 a" "take_bit 64 b"] take_bit_add [of 54 a b]
    take_bit_diff [of 54 "take_bit 64 a" "take_bit 64 b"] take_bit_diff [of 54 a b] by simp_all

lemma ucast_down_plus: "(ucast (a + b :: u64) :: 54 word) = ucast a + ucast b"
  by transfer (simp add: take_bit_54_64)

lemma ucast_down_minus: "(ucast (a - b :: u64) :: 54 word) = ucast a - ucast b"
  by transfer (simp add: take_bit_54_64)

lemma ucast_down_up: "(ucast (ucast (a :: 54 word) :: u64) :: 54 word) = a"
  by transfer simp

lemma local_time_back: "ucast (ucast (ucast (ucast (l :: 54 word) + s :: u64) :: 54 word) - s :: u64) = l"
  by (simp only: ucast_down_plus ucast_down_minus ucast_down_up add_diff_cancel_right')

text \<open>The fields of a shifted time.\<close>

lemma shifted_week: "0 \<le> sw \<Longrightarrow> sw \<le> 604800 \<Longrightarrow> uint (second_of_week (shifted_time t tz lt sw sfn)) = sw"
  by (simp add: shifted_time_def unsigned_of_int take_bit_int_eq_self)

lemma shifted_from_now: "\<bar>sfn\<bar> < 2 ^ 43 \<Longrightarrow> signed_from_now (shifted_time t tz lt sw sfn) = sfn"
  by (simp add: shifted_time_def signed_from_now_def unsigned_of_int take_bit_int_eq_self)

lemma from_now_back:
  assumes "negative_seconds_from_now t \<Longrightarrow> seconds_from_now t \<noteq> 0"
  shows "word_of_int \<bar>signed_from_now t\<bar> = seconds_from_now t"
    and "signed_from_now t < 0 \<longleftrightarrow> negative_seconds_from_now t"
proof -
  have "0 < uint (seconds_from_now t)" if "negative_seconds_from_now t"
    using assms [OF that] uint_ge_0 [of "seconds_from_now t"] by (simp add: order_less_le uint_0_iff)
  then show "signed_from_now t < 0 \<longleftrightarrow> negative_seconds_from_now t"
    by (auto simp: signed_from_now_def)
  show "word_of_int \<bar>signed_from_now t\<bar> = seconds_from_now t"
    by (cases "negative_seconds_from_now t") (simp_all add: signed_from_now_def)
qed

text \<open>
  C39: A detour in time. Going forward by any whole number of seconds up to a week and back by
  the same number in one time zone restores the time: local time, second of the
  week (wherever the week wraps), distance from now (where it fits its 43 bits) and its sign.
\<close>

theorem time_roundtrip:
  assumes t: "ti_valid t" "unat (second_of_week t) < 604800" and n: "n \<le> 604800"
    and now: "unat (seconds_from_now t) + n < 2 ^ 43" "negative_seconds_from_now t \<Longrightarrow> seconds_from_now t \<noteq> 0"
  shows "bind_result (time_forward tzdiff t (of_nat n) (unat (timezone_index t)))
      (\<lambda>t1. time_reverse tzdiff t1 (of_nat n) (unat (timezone_index t1))) = Inr t"
proof -
  define k where "k = unat (second_of_week t)"
  have k: "uint (second_of_week t) = int k" "k < 604800" using t(2) by (simp_all add: k_def)
  define w where "w = wrap_week (int k + int n)"
  have w: "0 \<le> w" "w \<le> 604800" using wrap_week_bounds [of "int k + int n"] k n by (simp_all add: w_def)
  define s where "s = signed_from_now t + int n"
  have s: "\<bar>s\<bar> < 2 ^ 43" using signed_from_now_bound [OF now(1)] by (simp add: s_def)
  define t1 where "t1 = shifted_time t (unat (timezone_index t)) (ucast (local_time t) + word_of_nat n) w s"
  have f: "time_forward tzdiff t (of_nat n) (unat (timezone_index t)) = Inr t1"
    using time_forward_nat [OF t(1) k n] by (simp only: t1_def w_def s_def)
  have t1: "ti_valid t1" "timezone_index t1 = timezone_index t" using t(1) by (simp_all add: t1_def shifted_time_def)
  have u: "uint (second_of_week t1) = int (nat w)" using shifted_week w by (simp add: t1_def)
  have l: "ucast (ucast (local_time t1) - word_of_nat n :: u64) = local_time t"
    using local_time_back by (simp add: t1_def shifted_time_def)
  have "time_reverse tzdiff t1 (of_nat n) (unat (timezone_index t1)) = Inr (shifted_time t1 (unat (timezone_index t1))
    (ucast (local_time t1) - word_of_nat n) (wrap_week (w - int n)) (s - int n))"
    using time_reverse_nat [OF t1(1) u _ n] w shifted_from_now [OF s] by (simp add: t1_def)
  moreover have "wrap_week (w - int n) = int k" using wrap_week_back [of "int k" "int n"] k n by (simp add: w_def)
  moreover have "s - int n = signed_from_now t" by (simp add: s_def)
  moreover have "word_of_int (int k) = second_of_week t" by (simp only: k(1) [symmetric] word_of_int_uint)
  ultimately show ?thesis
    using l t1 from_now_back [OF now(2)] t(1) by (simp add: f shifted_time_def)
qed

text \<open>
  The week has one second too many. After \<open>n\<close> whole seconds forward in one time zone the
  second of the week is the sum modulo a week, except when the sum is exactly a
  week: then it is 604800, one more than the last second the constants document.
\<close>

theorem week_boundary:
  assumes t: "ti_valid t" "unat (second_of_week t) < 604800" and n: "n \<le> 604800"
  shows "\<exists>t1. time_forward tzdiff t (of_nat n) (unat (timezone_index t)) = Inr t1
    \<and> unat (second_of_week t1) = (let k = unat (second_of_week t) + n in if k = 604800 then k else k mod 604800)"
proof -
  define k where "k = unat (second_of_week t)"
  have k: "uint (second_of_week t) = int k" "k < 604800" using t(2) by (simp_all add: k_def)
  note w = wrap_week_bounds [of "int k + int n"]
  have "unat (second_of_week (shifted_time t tz lt (wrap_week (int k + int n)) sfn)) = nat (wrap_week (int k + int n))" for tz lt sfn
    using shifted_week [OF w] k n by (simp add: unat_eq_nat_uint)
  moreover have "nat (wrap_week (int k + int n)) = (if k + n = 604800 then k + n else (k + n) mod 604800)"
    using k(2) n by (auto simp: wrap_week_def nat_diff_distrib le_mod_geq)
  ultimately show ?thesis
    using time_forward_nat [OF t(1) k n] unfolding Let_def k_def [symmetric] by auto
qed

section \<open>Witnesses\<close>

definition demo_time :: time_info where
  "demo_time = \<lparr>ti_valid = True, timezone_index = 3, local_time = 1700000000, second_of_week = 604000,
     seconds_from_now = 50, negative_seconds_from_now = True\<rparr>"

theorem time_roundtrip_witness:
  "bind_result (time_forward (\<lambda>_ _ _. 0) demo_time (of_nat 1000) (unat (timezone_index demo_time)))
      (\<lambda>t1. time_reverse (\<lambda>_ _ _. 0) t1 (of_nat 1000) (unat (timezone_index t1))) = Inr demo_time"
  by (rule time_roundtrip) (simp_all add: demo_time_def)

theorem week_boundary_witness:
  "\<exists>t1. time_forward (\<lambda>_ _ _. 0) demo_time (of_nat 800) (unat (timezone_index demo_time)) = Inr t1
    \<and> unat (second_of_week t1) = 604800"
  using week_boundary [of demo_time 800 "\<lambda>_ _ _. 0"] by (simp add: demo_time_def)

end
