(* ===== verification/Node_Info.thy ===== *)
theory Node_Info
  imports Directed_Edge Floats
begin

text \<open>
  \<^verbatim>\<open>NodeInfo\<close> (\<^verbatim>\<open>valhalla/baldr/nodeinfo.h\<close>, \<^verbatim>\<open>src/baldr/nodeinfo.cc\<close>), the 32 bytes of a node
  in a tile: the bit fields in their order and widths, the constructors, every setter with
  its clamping and its errors, and the getters that compute. A getter that only returns its
  field is the selector of the record. Coordinates are \<^verbatim>\<open>double\<close>s in the order longitude, latitude.
  The log messages and the json writer are left out.

  The lemmas show that the stored position is within the precision of the grid, and
  that headings and driveabilities are kept per local edge.
\<close>

section \<open>Limits\<close>

definition kMaxAdminsPerTile :: u32 where "kMaxAdminsPerTile = 4095"
definition kMaxTimeZoneIdExt1 :: u32 where "kMaxTimeZoneIdExt1 = 1023"
definition kNodeMaxStoredElevation :: u32 where "kNodeMaxStoredElevation = 32767"
definition kNodeElevationPrecision :: rat where "kNodeElevationPrecision = 1 / 4"
definition kNodeMinElevation :: rat where "kNodeMinElevation = - 500"
definition kHeadingShrinkFactor :: rat where "kHeadingShrinkFactor = f32 (255 / 359)"
definition kHeadingExpandFactor :: rat where "kHeadingExpandFactor = f32 (359 / 255)"

text \<open>\<^verbatim>\<open>Traversability\<close>, and the types of nodes and intersections the methods compare with.\<close>

datatype traversability = Trav_none | Trav_forward | Trav_backward | Trav_both

definition traversability_num :: "traversability \<Rightarrow> u32" where
  "traversability_num t = (case t of Trav_none \<Rightarrow> 0 | Trav_forward \<Rightarrow> 1 | Trav_backward \<Rightarrow> 2 | Trav_both \<Rightarrow> 3)"

definition traversability_of :: "u32 \<Rightarrow> traversability" where
  "traversability_of w = (if w = 0 then Trav_none else if w = 1 then Trav_forward else if w = 2 then Trav_backward else Trav_both)"

definition kGateType :: "4 word" where "kGateType = 1"
definition kTollBoothType :: "4 word" where "kTollBoothType = 3"
definition kMultiUseTransitPlatform :: "4 word" where "kMultiUseTransitPlatform = 6"
definition kTollGantry :: "4 word" where "kTollGantry = 11"
definition kSumpBuster :: "4 word" where "kSumpBuster = 12"
definition kFork :: "4 word" where "kFork = 3"

section \<open>The structure\<close>

record nodeinfo =
  ni_lat_offset :: "22 word"
  ni_lat_offset7 :: "4 word"
  ni_lon_offset :: "22 word"
  ni_lon_offset7 :: "4 word"
  ni_access :: "12 word"
  ni_edge_index :: "21 word"
  ni_edge_count :: "7 word"
  ni_admin_index :: "12 word"
  ni_timezone :: "9 word"
  ni_intersection :: "4 word"
  ni_type :: "4 word"
  ni_density :: "4 word"
  ni_traffic_signal :: bool
  ni_mode_change :: bool
  ni_named :: bool
  ni_transition_index :: "21 word"
  ni_transition_count :: "3 word"
  ni_local_driveability :: "16 word"
  ni_local_edge_count :: "3 word"
  ni_drive_on_right :: bool
  ni_tagged_access :: bool
  ni_private_access :: bool
  ni_cash_only_toll :: bool
  ni_elevation :: "15 word"
  ni_timezone_ext_1 :: bool
  ni_spare2 :: bool
  ni_headings :: u64

definition read_nodeinfo :: "u8 list \<Rightarrow> nodeinfo" where
  "read_nodeinfo bs = (let v = read_layout [
      22, 4, 22, 4, 12, 21, 7, 12, 9, 4, 4, 4, 1, 1, 1, 21, 3, 16, 3, 1, 1, 1, 1, 15, 1, 1, 64] bs in \<lparr>
    ni_lat_offset = word_of_nat (v ! 0), ni_lat_offset7 = word_of_nat (v ! 1),
    ni_lon_offset = word_of_nat (v ! 2), ni_lon_offset7 = word_of_nat (v ! 3),
    ni_access = word_of_nat (v ! 4), ni_edge_index = word_of_nat (v ! 5),
    ni_edge_count = word_of_nat (v ! 6), ni_admin_index = word_of_nat (v ! 7),
    ni_timezone = word_of_nat (v ! 8), ni_intersection = word_of_nat (v ! 9),
    ni_type = word_of_nat (v ! 10), ni_density = word_of_nat (v ! 11),
    ni_traffic_signal = unflag (v ! 12), ni_mode_change = unflag (v ! 13),
    ni_named = unflag (v ! 14), ni_transition_index = word_of_nat (v ! 15),
    ni_transition_count = word_of_nat (v ! 16), ni_local_driveability = word_of_nat (v ! 17),
    ni_local_edge_count = word_of_nat (v ! 18), ni_drive_on_right = unflag (v ! 19),
    ni_tagged_access = unflag (v ! 20), ni_private_access = unflag (v ! 21),
    ni_cash_only_toll = unflag (v ! 22), ni_elevation = word_of_nat (v ! 23),
    ni_timezone_ext_1 = unflag (v ! 24), ni_spare2 = unflag (v ! 25), ni_headings = word_of_nat (v ! 26)\<rparr>)"

definition new_nodeinfo :: nodeinfo where
  "new_nodeinfo = read_nodeinfo (replicate 32 0)"

section \<open>Setters\<close>

text \<open>
  One coordinate of \<^verbatim>\<open>set_latlng\<close>: the six digits and the seventh digit, or \<open>None\<close> where the code
  leaves the seventh digit as it was. A conversion out of range is undefined.
\<close>

definition to_bits :: "rat \<Rightarrow> u64 result" where
  "to_bits x = (let i = c_trunc x in if 0 \<le> i \<and> i < 2 ^ 64 then Inr (word_of_int i) else Inl Undefined)"

definition set_offset :: "rat \<Rightarrow> rat \<Rightarrow> (22 word \<times> 4 word option) result" where
  "set_offset corner x =
     (if corner < x
      then let q = of_int (c_round (f64 (f64 (x - corner) / f64 (1 / 10 ^ 7))))
           in bind_result (to_bits (f64 (q / 10))) (\<lambda>off.
              let six = ucast off :: 22 word
              in bind_result (to_bits (f64 (q - of_nat (unat six * 10)))) (\<lambda>seven. Inr (six, Some (ucast seven))))
      else Inr (0, None))"

definition seventh :: "4 word option \<Rightarrow> 4 word \<Rightarrow> 4 word" where
  "seventh s old = (case s of None \<Rightarrow> old | Some d \<Rightarrow> d)"

definition set_latlng :: "rat \<times> rat \<Rightarrow> rat \<times> rat \<Rightarrow> nodeinfo \<Rightarrow> nodeinfo result" where
  "set_latlng corner ll n =
     bind_result (set_offset (snd corner) (snd ll)) (\<lambda>(lat, lat7).
     bind_result (set_offset (fst corner) (fst ll)) (\<lambda>(lon, lon7).
       Inr (n\<lparr>ni_lat_offset := lat, ni_lat_offset7 := seventh lat7 (ni_lat_offset7 n),
         ni_lon_offset := lon, ni_lon_offset7 := seventh lon7 (ni_lon_offset7 n)\<rparr>)))"

definition set_edge_index :: "u32 \<Rightarrow> nodeinfo \<Rightarrow> nodeinfo result" where
  "set_edge_index i n =
     (if kMaxGraphId < i then Inl (Runtime_error ''NodeInfo: edge index exceeds max'')
      else Inr (n\<lparr>ni_edge_index := ucast i\<rparr>))"

definition set_edge_count :: "u32 \<Rightarrow> nodeinfo \<Rightarrow> nodeinfo" where
  "set_edge_count c n = n\<lparr>ni_edge_count := ucast (if kMaxEdgesPerNode < c then kMaxEdgesPerNode else c)\<rparr>"

definition set_access :: "u32 \<Rightarrow> nodeinfo \<Rightarrow> nodeinfo" where
  "set_access a n = n\<lparr>ni_access := ucast (if kAllAccess < a then a AND kAllAccess else a)\<rparr>"

definition set_intersection :: "u32 \<Rightarrow> nodeinfo \<Rightarrow> nodeinfo" where
  "set_intersection t n = n\<lparr>ni_intersection := ucast t\<rparr>"

definition set_admin_index :: "u16 \<Rightarrow> nodeinfo \<Rightarrow> nodeinfo" where
  "set_admin_index a n = n\<lparr>ni_admin_index := (if kMaxAdminsPerTile < ucast a then ucast kMaxAdminsPerTile else ucast a)\<rparr>"

definition set_timezone :: "u32 \<Rightarrow> nodeinfo \<Rightarrow> nodeinfo result" where
  "set_timezone tz n =
     (if kMaxTimeZoneIdExt1 < tz
      then Inl (Runtime_error (''NodeInfo: timezone index exceeds max: '' @ std_to_string (unat tz)))
      else Inr (n\<lparr>ni_timezone := ucast (tz AND 511), ni_timezone_ext_1 := tz AND 512 \<noteq> 0\<rparr>))"

definition set_local_driveability :: "u32 \<Rightarrow> traversability \<Rightarrow> nodeinfo \<Rightarrow> nodeinfo" where
  "set_local_driveability i t n =
     (if kMaxLocalEdgeIndex < i then n
      else n\<lparr>ni_local_driveability :=
        ucast (OverwriteBits (ucast (ni_local_driveability n)) (traversability_num t) (unat i) 2)\<rparr>)"

definition set_density :: "u32 \<Rightarrow> nodeinfo \<Rightarrow> nodeinfo" where
  "set_density d n = n\<lparr>ni_density := ucast (if kMaxDensity < d then kMaxDensity else d)\<rparr>"

definition set_type :: "u32 \<Rightarrow> nodeinfo \<Rightarrow> nodeinfo" where
  "set_type t n = n\<lparr>ni_type := ucast t\<rparr>"

definition set_local_edge_count :: "u32 \<Rightarrow> nodeinfo \<Rightarrow> nodeinfo" where
  "set_local_edge_count c n =
     (if kMaxLocalEdgeIndex + 1 < c then n\<lparr>ni_local_edge_count := ucast kMaxLocalEdgeIndex\<rparr>
      else if c = 0 then n
      else n\<lparr>ni_local_edge_count := ucast (c - 1)\<rparr>)"

definition set_drive_on_right :: "bool \<Rightarrow> nodeinfo \<Rightarrow> nodeinfo" where
  "set_drive_on_right b n = n\<lparr>ni_drive_on_right := b\<rparr>"

definition set_node_elevation :: "rat \<Rightarrow> nodeinfo \<Rightarrow> nodeinfo result" where
  "set_node_elevation e n =
     (if e < kNodeMinElevation then Inr (n\<lparr>ni_elevation := 0\<rparr>)
      else let i = c_trunc (f32 (f32 (e - kNodeMinElevation) / kNodeElevationPrecision))
           in if i < 2 ^ 32
              then let w = word_of_int i :: u32
                   in Inr (n\<lparr>ni_elevation := ucast (if kNodeMaxStoredElevation < w then kNodeMaxStoredElevation else w)\<rparr>)
              else Inl Undefined)"

definition set_tagged_access :: "bool \<Rightarrow> nodeinfo \<Rightarrow> nodeinfo" where
  "set_tagged_access b n = n\<lparr>ni_tagged_access := b\<rparr>"

definition set_private_access :: "bool \<Rightarrow> nodeinfo \<Rightarrow> nodeinfo" where
  "set_private_access b n = n\<lparr>ni_private_access := b\<rparr>"

definition set_cash_only_toll :: "bool \<Rightarrow> nodeinfo \<Rightarrow> nodeinfo" where
  "set_cash_only_toll b n = n\<lparr>ni_cash_only_toll := b\<rparr>"

definition set_mode_change :: "bool \<Rightarrow> nodeinfo \<Rightarrow> nodeinfo" where
  "set_mode_change b n = n\<lparr>ni_mode_change := b\<rparr>"

definition set_named_intersection :: "bool \<Rightarrow> nodeinfo \<Rightarrow> nodeinfo" where
  "set_named_intersection b n = n\<lparr>ni_named := b\<rparr>"

definition set_traffic_signal :: "bool \<Rightarrow> nodeinfo \<Rightarrow> nodeinfo" where
  "set_traffic_signal b n = n\<lparr>ni_traffic_signal := b\<rparr>"

definition set_stop_index :: "u32 \<Rightarrow> nodeinfo \<Rightarrow> nodeinfo" where
  "set_stop_index i n = n\<lparr>ni_transition_index := ucast i\<rparr>"

definition set_transition_index :: "u32 \<Rightarrow> nodeinfo \<Rightarrow> nodeinfo" where
  "set_transition_index i n = n\<lparr>ni_transition_index := ucast i\<rparr>"

definition set_transition_count :: "u32 \<Rightarrow> nodeinfo \<Rightarrow> nodeinfo" where
  "set_transition_count c n = n\<lparr>ni_transition_count := ucast c\<rparr>"

definition shrink_heading :: "u32 \<Rightarrow> int" where
  "shrink_heading h = c_round (f32 (of_nat (unat (h mod 360)) * kHeadingShrinkFactor))"

definition set_heading :: "u32 \<Rightarrow> u32 \<Rightarrow> nodeinfo \<Rightarrow> nodeinfo" where
  "set_heading i h n =
     (if kMaxLocalEdgeIndex < i then n
      else n\<lparr>ni_headings := ni_headings n OR push_bit (unat i * 8) (word_of_int (shrink_heading h))\<rparr>)"

definition set_connecting_wayid :: "u64 \<Rightarrow> nodeinfo \<Rightarrow> nodeinfo result" where
  "set_connecting_wayid w n =
     (if drop_bit 63 w \<noteq> 0
      then Inl (Logic_error ''Way ids larger than 63 bits are not allowed for transit connections'')
      else Inr (n\<lparr>ni_headings := w\<rparr>))"

text \<open>\<^verbatim>\<open>PointLL\<close> as 63 bits: 32 of the longitude and 31 of the latitude. A negative \<^verbatim>\<open>double\<close> has no \<^verbatim>\<open>uint64_t\<close>.\<close>

definition point_to_bits :: "rat \<times> rat \<Rightarrow> u64 result" where
  "point_to_bits p =
     bind_result (to_bits (f64 (fst p * 10 ^ 7))) (\<lambda>x.
     bind_result (to_bits (f64 (snd p * 10 ^ 7))) (\<lambda>y.
       Inr (push_bit 31 ((x + 1800000000) AND mask 32) OR ((y + 900000000) AND mask 31))))"

definition point_of_bits :: "u64 \<Rightarrow> rat \<times> rat" where
  "point_of_bits w =
     (f64 (f64 (of_int (uint (drop_bit 31 w AND mask 32)) - 1800000000) * f64 (1 / 10 ^ 7)),
      f64 (f64 (of_int (uint (w AND mask 31)) - 900000000) * f64 (1 / 10 ^ 7)))"

definition in_range :: "rat \<times> rat \<Rightarrow> bool" where
  "in_range p \<longleftrightarrow> - 180 \<le> fst p \<and> fst p \<le> 180 \<and> - 90 \<le> snd p \<and> snd p \<le> 90"

definition set_connecting_point :: "rat \<times> rat \<Rightarrow> nodeinfo \<Rightarrow> nodeinfo result" where
  "set_connecting_point p n =
     (if \<not> in_range p then Inl (Logic_error ''Invalid coordinates are not allowed for transit connections'')
      else bind_result (point_to_bits p) (\<lambda>w. Inr (n\<lparr>ni_headings := w OR push_bit 63 1\<rparr>)))"

definition make_nodeinfo :: "rat \<times> rat \<Rightarrow> rat \<times> rat \<Rightarrow> u32 \<Rightarrow> u32 \<Rightarrow> bool \<Rightarrow> bool \<Rightarrow> bool \<Rightarrow> bool \<Rightarrow> nodeinfo result" where
  "make_nodeinfo corner ll acc type signal tagged private cash =
     bind_result (set_latlng corner ll new_nodeinfo) (\<lambda>n.
       Inr (set_cash_only_toll cash (set_private_access private (set_tagged_access tagged
         (set_traffic_signal signal (set_type type (set_access acc n)))))))"

section \<open>Getters\<close>

definition coordinate :: "rat \<Rightarrow> 22 word \<Rightarrow> 4 word \<Rightarrow> rat" where
  "coordinate corner six seven =
     f64 (corner + f64 (f64 (of_nat (unat six) * f64 (1 / 10 ^ 6)) + f64 (of_nat (unat seven) * f64 (1 / 10 ^ 7))))"

definition latlng :: "rat \<times> rat \<Rightarrow> nodeinfo \<Rightarrow> rat \<times> rat" where
  "latlng corner n = (coordinate (fst corner) (ni_lon_offset n) (ni_lon_offset7 n),
     coordinate (snd corner) (ni_lat_offset n) (ni_lat_offset7 n))"

definition timezone :: "nodeinfo \<Rightarrow> u32" where
  "timezone n = ucast (ni_timezone n) OR push_bit 9 (of_bool (ni_timezone_ext_1 n))"

definition local_driveability :: "nodeinfo \<Rightarrow> nat \<Rightarrow> traversability" where
  "local_driveability n i =
     traversability_of (drop_bit (i * 2) (ucast (ni_local_driveability n) AND push_bit (i * 2) 3))"

definition can_contract :: "nodeinfo \<Rightarrow> bool" where
  "can_contract n \<longleftrightarrow> 2 \<le> ni_edge_count n \<and> ni_intersection n \<noteq> kFork \<and> ni_type n \<noteq> kGateType
     \<and> ni_type n \<noteq> kTollBoothType \<and> ni_type n \<noteq> kTollGantry \<and> ni_type n \<noteq> kSumpBuster"

definition is_transit :: "nodeinfo \<Rightarrow> bool" where
  "is_transit n \<longleftrightarrow> ni_type n = kMultiUseTransitPlatform"

definition local_edge_count :: "nodeinfo \<Rightarrow> u32" where
  "local_edge_count n = ucast (ni_local_edge_count n) + 1"

definition node_elevation :: "nodeinfo \<Rightarrow> rat" where
  "node_elevation n = f32 (kNodeMinElevation + f32 (of_nat (unat (ni_elevation n)) * kNodeElevationPrecision))"

definition connecting_wayid :: "nodeinfo \<Rightarrow> u64" where
  "connecting_wayid n = (if drop_bit 63 (ni_headings n) \<noteq> 0 then 0 else ni_headings n)"

text \<open>A default \<^verbatim>\<open>PointLL\<close> is invalid: \<open>None\<close>.\<close>

definition connecting_point :: "nodeinfo \<Rightarrow> (rat \<times> rat) option" where
  "connecting_point n = (if drop_bit 63 (ni_headings n) \<noteq> 0 then Some (point_of_bits (ni_headings n)) else None)"

definition expand_heading :: "nat \<Rightarrow> int" where
  "expand_heading b = c_round (f32 (of_nat b * kHeadingExpandFactor))"

definition heading :: "nodeinfo \<Rightarrow> u32 \<Rightarrow> u32" where
  "heading n i =
     (if kMaxLocalEdgeIndex < i then 0
      else word_of_int (expand_heading (unat (drop_bit (unat i * 8) (ni_headings n AND push_bit (unat i * 8) 255)))))"

section \<open>Positions\<close>

lemma tiny_constants:
  "1 / 10 ^ 7 - 1 / 2 ^ 77 \<le> f64 (1 / 10 ^ 7)" "f64 (1 / 10 ^ 7) \<le> 1 / 10 ^ 7 + 1 / 2 ^ 77"
  "1 / 10 ^ 6 - 1 / 2 ^ 73 \<le> f64 (1 / 10 ^ 6)" "f64 (1 / 10 ^ 6) \<le> 1 / 10 ^ 6 + 1 / 2 ^ 73"
proof -
  have k: "(2::rat) powi (- 23 - 54) = 1 / 2 ^ 77" "(2::rat) powi (- 19 - 54) = 1 / 2 ^ 73"
    using powi_le_frac [of 77] powi_le_frac [of 73] by simp_all
  have b: "\<bar>1 / 10 ^ 7\<bar> < (2::rat) powi (- 23)" "\<bar>1 / 10 ^ 6\<bar> < (2::rat) powi (- 19)"
    using powi_le_frac [of 23] powi_le_frac [of 19] by simp_all
  show "1 / 10 ^ 7 - 1 / 2 ^ 77 \<le> f64 (1 / 10 ^ 7)" "f64 (1 / 10 ^ 7) \<le> 1 / 10 ^ 7 + 1 / 2 ^ 77"
    using f64_near [OF b(1)] by (simp_all only: k)
  show "1 / 10 ^ 6 - 1 / 2 ^ 73 \<le> f64 (1 / 10 ^ 6)" "f64 (1 / 10 ^ 6) \<le> 1 / 10 ^ 6 + 1 / 2 ^ 73"
    using f64_near [OF b(2)] by (simp_all only: k)
qed

text \<open>The quotient the code rounds is the distance in steps of the grid, up to a thousandth.\<close>

lemma grid_quotient:
  assumes "0 < D" "D \<le> 4" shows "\<bar>f64 (f64 D / f64 (1 / 10 ^ 7)) - D * 10 ^ 7\<bar> \<le> 1 / 1000"
proof -
  define t d where "t = f64 (1 / 10 ^ 7)" and "d = f64 D"
  have t: "1 / 10 ^ 7 - 1 / 2 ^ 77 \<le> t" "t \<le> 1 / 10 ^ 7 + 1 / 2 ^ 77"
    unfolding t_def by (rule tiny_constants)+
  have "d \<le> D + 2 powi (3 - 54)" "D - 2 powi (3 - 54) \<le> d" "0 \<le> d" unfolding d_def
    using f64_near [of D 3] assms float64.nonneg [of D] by simp_all
  then have d: "d \<le> D + 1 / 2 ^ 51" "D - 1 / 2 ^ 51 \<le> d" "0 \<le> d" using powi_le_frac [of 51] by simp_all
  have tpos: "9 / 10 ^ 8 \<le> t" using t(1) by simp
  have mul: "D * 10 ^ 7 * t \<le> D + 1 / 10 ^ 12" "D - 1 / 10 ^ 12 \<le> D * 10 ^ 7 * t"
  proof -
    have "D * 10 ^ 7 * t \<le> D * 10 ^ 7 * (1 / 10 ^ 7 + 1 / 2 ^ 77)" using t(2) assms by (intro mult_left_mono) simp_all
    also have "\<dots> \<le> D + 1 / 10 ^ 12" using assms by (simp add: algebra_simps)
    finally show "D * 10 ^ 7 * t \<le> D + 1 / 10 ^ 12" .
    have "D - 1 / 10 ^ 12 \<le> D * 10 ^ 7 * (1 / 10 ^ 7 - 1 / 2 ^ 77)" using assms by (simp add: algebra_simps)
    also have "\<dots> \<le> D * 10 ^ 7 * t" using t(1) assms by (intro mult_left_mono) simp_all
    finally show "D - 1 / 10 ^ 12 \<le> D * 10 ^ 7 * t" .
  qed
  have q: "d / t \<le> D * 10 ^ 7 + 1 / 10 ^ 4" "D * 10 ^ 7 - 1 / 10 ^ 4 \<le> d / t"
  proof -
    have e: "9 / 10 ^ 12 \<le> 1 / 10 ^ 4 * t" using tpos by simp
    have "d \<le> (D * 10 ^ 7 + 1 / 10 ^ 4) * t" using d(1) mul(2) e by (simp add: algebra_simps)
    then show "d / t \<le> D * 10 ^ 7 + 1 / 10 ^ 4" using tpos by (simp add: pos_divide_le_eq)
    have "(D * 10 ^ 7 - 1 / 10 ^ 4) * t \<le> d" using d(2) mul(1) e by (simp add: algebra_simps)
    then show "D * 10 ^ 7 - 1 / 10 ^ 4 \<le> d / t" using tpos by (simp add: pos_le_divide_eq)
  qed
  have "0 \<le> d / t" using d(3) tpos by simp
  then have "\<bar>d / t\<bar> < 2 powi 26" using q(1) assms by simp
  from f64_near [OF this] powi_le_frac [of 28]
  have "f64 (d / t) \<le> d / t + 1 / 2 ^ 28" "d / t - 1 / 2 ^ 28 \<le> f64 (d / t)" by simp_all
  moreover define F where "F = f64 (d / t)"
  ultimately have "F - D * 10 ^ 7 \<le> 1 / 1000" "- (F - D * 10 ^ 7) \<le> 1 / 1000" using q by simp_all
  then have "\<bar>F - D * 10 ^ 7\<bar> \<le> 1 / 1000" by (rule abs_leI)
  then show ?thesis by (simp only: F_def t_def d_def)
qed

text \<open>The digits: the number of steps is split into six digits and the seventh.\<close>

lemma f64_tenth:
  assumes "n < 2 ^ 40" shows "c_trunc (f64 (of_nat n / 10)) = int (n div 10)"
proof -
  define k where "k = n div 10"
  have n: "n = 10 * k + n mod 10" "n mod 10 < 10" by (simp_all add: k_def)
  then have nr: "of_nat n = 10 * of_nat k + (of_nat (n mod 10) :: rat)" by (metis of_nat_add of_nat_mult of_nat_numeral)
  have r: "(of_nat (n mod 10) :: rat) \<le> 9" using n(2) by simp
  have k40: "k < 2 ^ 40" using assms n(1) by simp
  have "f64 (of_nat k) \<le> f64 (of_nat n / 10)" by (rule float64.mono) (simp add: nr)
  then have lo: "of_nat k \<le> f64 (of_nat n / 10)" using float64.exact_nat [of k] k40 by simp
  have ex: "f64 (of_int (16 * int k + 15) * 2 powi (- 4)) = of_int (16 * int k + 15) * 2 powi (- 4)"
    unfolding f64_def by (rule fl_exact_less) (use k40 in simp_all)
  have v: "of_int (16 * int k + 15) * (2::rat) powi (- 4) = of_nat k + 15 / 16"
    using powi_le_frac [of 4] by simp
  have "f64 (of_nat n / 10) \<le> f64 (of_nat k + 15 / 16)" by (rule float64.mono) (use r in \<open>simp add: nr\<close>)
  then have hi: "f64 (of_nat n / 10) \<le> of_nat k + 15 / 16" using ex by (simp only: v)
  have "\<lfloor>f64 (of_nat n / 10)\<rfloor> = int k" by (rule floor_unique) (use lo hi in simp_all)
  then show ?thesis using order_trans [OF of_nat_0_le_iff lo] by (simp add: c_trunc_def k_def)
qed

lemma to_bits_nat: "n < 2 ^ 64 \<Longrightarrow> to_bits (of_nat n) = Inr (word_of_nat n)"
  using c_trunc_of_int [of "int n"] by (simp add: to_bits_def Let_def)

lemma set_offset_digits:
  assumes x: "corner < x" "x - corner \<le> 4"
  shows "\<exists>n. set_offset corner x = Inr (word_of_nat (n div 10), Some (word_of_nat (n mod 10)))
    \<and> n div 10 < 2 ^ 22 \<and> \<bar>of_nat n - (x - corner) * 10 ^ 7\<bar> \<le> 501 / 1000"
proof -
  define q where "q = f64 (f64 (x - corner) / f64 (1 / 10 ^ 7))"
  have q: "\<bar>q - (x - corner) * 10 ^ 7\<bar> \<le> 1 / 1000" unfolding q_def by (rule grid_quotient) (use x in simp_all)
  have "0 \<le> f64 (x - corner)" "0 \<le> f64 (1 / 10 ^ 7)" using x by (simp_all add: float64.nonneg)
  then have q0: "0 \<le> q" unfolding q_def by (rule float64.nonneg [OF divide_nonneg_nonneg])
  define n where "n = nat (c_round q)"
  have cr: "c_round q = \<lfloor>q + 1 / 2\<rfloor>" "0 \<le> c_round q" using q0 by (simp_all add: c_round_def)
  then have n: "(of_int (c_round q) :: rat) = of_nat n" "of_nat n \<le> q + 1 / 2" "q - 1 / 2 \<le> of_nat n"
    using floor_correct [of "q + 1 / 2"] by (simp_all add: n_def)
  have dist: "\<bar>of_nat n - (x - corner) * 10 ^ 7\<bar> \<le> 501 / 1000"
    using abs_le_D1 [OF q] abs_le_D2 [OF q] n(2,3) by (intro abs_leI; linarith)
  have "of_nat n \<le> (x - corner) * 10 ^ 7 + 501 / 1000" using abs_le_D1 [OF dist] by linarith
  also have "\<dots> \<le> of_nat 40000001" using x by simp
  finally have nb: "n \<le> 40000001" by (simp only: of_nat_le_iff)
  then have d22: "n div 10 < 2 ^ 22" by simp
  have u: "unat (word_of_nat (n div 10) :: 22 word) = n div 10" using d22 by (simp add: unsigned_of_nat take_bit_nat_eq_self)
  then have ur: "(unsigned (word_of_nat (n div 10) :: 22 word) :: rat) = of_nat (n div 10)" by (metis of_nat_unat)
  have uc: "(ucast (word_of_nat (n div 10) :: u64) :: 22 word) = word_of_nat (n div 10)"
      "(ucast (word_of_nat (n mod 10) :: u64) :: 4 word) = word_of_nat (n mod 10)"
    using d22 by (simp_all add: unsigned_of_nat take_bit_nat_eq_self)
  have "to_bits (f64 (of_nat n / 10)) = Inr (word_of_nat (n div 10))"
    using f64_tenth [of n] nb by (simp add: to_bits_def Let_def)
  moreover have "(of_nat n :: rat) - of_nat (n div 10 * 10) = of_nat (n mod 10)"
    by (metis add_diff_cancel_left' div_mult_mod_eq of_nat_add)
  moreover have "f64 (of_nat (n mod 10)) = of_nat (n mod 10)" by (rule float64.exact_nat) simp
  moreover have "to_bits (of_nat (n mod 10)) = Inr (word_of_nat (n mod 10))" by (rule to_bits_nat) simp
  ultimately have "set_offset corner x = Inr (word_of_nat (n div 10), Some (word_of_nat (n mod 10)))"
    unfolding set_offset_def q_def [symmetric] n(1) Let_def using x(1) u ur uc by simp
  then show ?thesis using d22 dist by blast
qed

lemma coordinate_near:
  assumes c: "\<bar>corner\<bar> \<le> 180" and n: "n \<le> 40000001"
  shows "\<bar>coordinate corner (word_of_nat (n div 10)) (word_of_nat (n mod 10)) - (corner + of_nat n / 10 ^ 7)\<bar> \<le> 1 / 10 ^ 12"
proof -
  define six seven where "six = n div 10" and "seven = n mod 10"
  have ns: "n = 10 * six + seven" "seven \<le> 9" "six \<le> 4000000" using n by (simp_all add: six_def seven_def)
  have nr: "(of_nat n :: rat) = 10 * of_nat six + of_nat seven" by (simp add: ns(1))
  have b: "(of_nat six :: rat) \<le> 4000000" "(of_nat seven :: rat) \<le> 9" using ns(2,3) by simp_all
  have u: "unat (word_of_nat six :: 22 word) = six" "unat (word_of_nat seven :: 4 word) = seven"
    using ns(2,3) by (simp_all add: unsigned_of_nat take_bit_nat_eq_self)
  define t6 t7 where "t6 = f64 (1 / 10 ^ 6)" and "t7 = f64 (1 / 10 ^ 7)"
  have t6: "\<bar>t6 - 1 / 10 ^ 6\<bar> \<le> 1 / 2 ^ 73" using tiny_constants(3,4) unfolding t6_def by (intro abs_leI) linarith+
  have t7: "\<bar>t7 - 1 / 10 ^ 7\<bar> \<le> 1 / 2 ^ 77" using tiny_constants(1,2) unfolding t7_def by (intro abs_leI) linarith+
  have p6: "\<bar>of_nat six * t6 - of_nat six * (1 / 10 ^ 6)\<bar> \<le> 4000000 * (1 / 2 ^ 73)" by (rule scaled_near [OF t6 b(1)]) simp
  have p7: "\<bar>of_nat seven * t7 - of_nat seven * (1 / 10 ^ 7)\<bar> \<le> 9 * (1 / 2 ^ 77)" by (rule scaled_near [OF t7 b(2)]) simp
  have z: "0 \<le> t6" "0 \<le> t7" unfolding t6_def t7_def by (rule float64.nonneg; simp)+
  have z6: "0 \<le> of_nat six * t6" and z7: "0 \<le> of_nat seven * t7" using z by simp_all
  have e: "4000000 * (1 / 2 ^ 73) \<le> (1 :: rat)" "9 * (1 / 2 ^ 77) \<le> (1 / 2 :: rat)" by simp_all
  have "of_nat six * (1 / 10 ^ 6) \<le> (4 :: rat)" "of_nat seven * (1 / 10 ^ 7) \<le> (1 :: rat)" using ns by simp_all
  then have "of_nat six * t6 < 8" "of_nat seven * t7 < 2"
    using order_trans [OF abs_le_D1 [OF p6] e(1)] order_trans [OF abs_le_D1 [OF p7] e(2)] by simp_all
  then have s6: "\<bar>of_nat six * t6\<bar> < 2 powi 3" and s7: "\<bar>of_nat seven * t7\<bar> < 2 powi 1" using z6 z7 by simp_all
  define a b7 where "a = f64 (of_nat six * t6)" and "b7 = f64 (of_nat seven * t7)"
  have a: "\<bar>a - of_nat six * t6\<bar> \<le> 1 / 2 ^ 51" using f64_error [OF s6] powi_le_frac [of 51] by (simp add: a_def)
  have b7: "\<bar>b7 - of_nat seven * t7\<bar> \<le> 1 / 2 ^ 53" using f64_error [OF s7] powi_le_frac [of 53] by (simp add: b7_def)
  have ab: "\<bar>a + b7 - of_nat n / 10 ^ 7\<bar> \<le> 1 / 2 ^ 49" 
  proof -
    have "of_nat n / 10 ^ 7 = of_nat six * (1 / 10 ^ 6) + of_nat seven * (1 / (10 :: rat) ^ 7)" by (simp add: nr)
    then have "\<bar>a + b7 - of_nat n / 10 ^ 7\<bar>
        \<le> (1 / 2 ^ 51 + 4000000 * (1 / 2 ^ 73)) + (1 / 2 ^ 53 + 9 * (1 / 2 ^ 77))"
      using near_add [OF near_trans [OF a p6] near_trans [OF b7 p7]] by (simp only:)
    then show ?thesis by (rule order_trans) simp
  qed
  have nb: "\<bar>(of_nat n :: rat) / 10 ^ 7\<bar> \<le> 5" using n by simp
  have sab: "\<bar>a + b7\<bar> < 2 powi 3" using near_bound [OF ab nb] by (rule order_le_less_trans) simp
  define s where "s = f64 (a + b7)"
  have s: "\<bar>s - (a + b7)\<bar> \<le> 1 / 2 ^ 51" using f64_error [OF sab] powi_le_frac [of 51] by (simp add: s_def)
  have sn: "\<bar>s - of_nat n / 10 ^ 7\<bar> \<le> 1 / 2 ^ 51 + 1 / 2 ^ 49" by (rule near_trans [OF s ab])
  have "\<bar>corner + s\<bar> \<le> 180 + (5 + (1 / 2 ^ 51 + 1 / 2 ^ 49))"
    using abs_triangle_ineq [of corner s] c near_bound [OF sn nb] by (meson add_mono order_trans)
  then have cs: "\<bar>corner + s\<bar> < 2 powi 8" by (rule order_le_less_trans) simp
  have r: "\<bar>f64 (corner + s) - (corner + s)\<bar> \<le> 1 / 2 ^ 46" using f64_error [OF cs] powi_le_frac [of 46] by simp
  have "\<bar>corner + s - (corner + of_nat n / 10 ^ 7)\<bar> \<le> 1 / 2 ^ 51 + 1 / 2 ^ 49" using sn by simp
  from near_trans [OF r this]
  have "\<bar>f64 (corner + s) - (corner + of_nat n / 10 ^ 7)\<bar> \<le> 1 / 10 ^ 12" by (rule order_trans) simp
  then show ?thesis
    by (simp only: coordinate_def six_def [symmetric] seven_def [symmetric] u t6_def t7_def a_def b7_def s_def)
qed

lemma coordinate_roundtrip:
  assumes x: "corner < x" "x - corner \<le> 4" and c: "\<bar>corner\<bar> \<le> 180"
  shows "\<exists>six seven. set_offset corner x = Inr (six, Some seven) \<and> \<bar>coordinate corner six seven - x\<bar> \<le> 502 / 10 ^ 10"
proof -
  obtain n where n: "set_offset corner x = Inr (word_of_nat (n div 10), Some (word_of_nat (n mod 10)))"
    "\<bar>of_nat n - (x - corner) * 10 ^ 7\<bar> \<le> 501 / 1000" using set_offset_digits [OF x] by blast
  have "of_nat n \<le> (x - corner) * 10 ^ 7 + 501 / 1000" using abs_le_D1 [OF n(2)] by linarith
  also have "\<dots> \<le> of_nat 40000001" using x by simp
  finally have "n \<le> 40000001" by (simp only: of_nat_le_iff)
  note near = coordinate_near [OF c this]
  have "\<bar>corner + of_nat n / 10 ^ 7 - x\<bar> = \<bar>of_nat n - (x - corner) * 10 ^ 7\<bar> / 10 ^ 7"
  proof -
    have "corner + of_nat n / 10 ^ 7 - x = (of_nat n - (x - corner) * 10 ^ 7) / 10 ^ 7" by (simp add: field_simps)
    then show ?thesis by (simp only: abs_divide) simp
  qed
  also have "\<dots> \<le> 501 / 1000 / 10 ^ 7" using n(2) by (rule divide_right_mono) simp
  finally have "\<bar>corner + of_nat n / 10 ^ 7 - x\<bar> \<le> 501 / 1000 / 10 ^ 7" .
  from near_trans [OF near this]
  have "\<bar>coordinate corner (word_of_nat (n div 10)) (word_of_nat (n mod 10)) - x\<bar> \<le> 502 / 10 ^ 10"
    by (rule order_trans) simp
  then show ?thesis using n(1) by blast
qed

section \<open>Headings\<close>

lemma heading_factors:
  "\<bar>kHeadingShrinkFactor - 255 / 359\<bar> \<le> 1 / 2 ^ 25" "\<bar>kHeadingExpandFactor - 359 / 255\<bar> \<le> 1 / 2 ^ 24"
  "0 \<le> kHeadingShrinkFactor" "0 \<le> kHeadingExpandFactor"
  using f32_error [of "255 / 359" 0] f32_error [of "359 / 255" 1] powi_le_frac [of 25] powi_le_frac [of 24]
  by (simp_all add: kHeadingShrinkFactor_def kHeadingExpandFactor_def float32.nonneg)

lemma shrink_heading_near:
  assumes h: "unat (h mod 360) = m" and m: "m < 360"
  shows "\<bar>of_int (shrink_heading h) - of_nat m * (255 / 359)\<bar> \<le> (1 / 2 + 1 / 2 ^ 15 :: rat)"
    and "0 \<le> shrink_heading h" and "shrink_heading h \<le> 255"
proof -
  define y where "y = f32 (of_nat m * kHeadingShrinkFactor)"
  have mb: "of_nat m \<le> (359 :: rat)" using m by simp
  have p: "\<bar>of_nat m * kHeadingShrinkFactor - of_nat m * (255 / 359)\<bar> \<le> 359 * (1 / 2 ^ 25)"
    by (rule scaled_near [OF heading_factors(1) mb]) simp
  have "\<bar>of_nat m * (255 / 359 :: rat)\<bar> \<le> 255" using mb by simp
  from near_bound [OF p this] have "\<bar>of_nat m * kHeadingShrinkFactor\<bar> < 2 powi 8" by (rule order_le_less_trans) simp
  from f32_error [OF this] have "\<bar>y - of_nat m * kHeadingShrinkFactor\<bar> \<le> 1 / 2 ^ 17"
    using powi_le_frac [of 17] by (simp add: y_def)
  from near_trans [OF this p] have "\<bar>y - of_nat m * (255 / 359)\<bar> \<le> 1 / 2 ^ 17 + 359 * (1 / 2 ^ 25)" .
  note yn = this
  have y0: "0 \<le> y" unfolding y_def by (rule float32.nonneg) (use heading_factors(3) in simp)
  from near_trans [OF c_round_near [OF this] yn] have near: "\<bar>of_int (c_round y) - of_nat m * (255 / 359)\<bar> \<le> (1 / 2 + 1 / 2 ^ 15 :: rat)" by (rule order_trans) simp
  then show "\<bar>of_int (shrink_heading h) - of_nat m * (255 / 359)\<bar> \<le> (1 / 2 + 1 / 2 ^ 15 :: rat)"
    by (simp only: shrink_heading_def h y_def)
  show "0 \<le> shrink_heading h" using y0 by (simp only: shrink_heading_def h y_def) (simp add: c_round_def)
  have "(of_int (c_round y) :: rat) \<le> of_nat m * (255 / 359) + (1 / 2 + 1 / 2 ^ 15)" using abs_le_D1 [OF near] by linarith
  also have "\<dots> < of_int 256" using mb by simp
  finally have "c_round y < 256" by (simp only: of_int_less_iff)
  then show "shrink_heading h \<le> 255" by (simp only: shrink_heading_def h y_def)
qed

lemma expand_shrink_heading:
  assumes m: "unat (h mod 360) = m" "m < 360"
  shows "\<bar>expand_heading (nat (shrink_heading h)) - int m\<bar> \<le> 1" and "0 \<le> expand_heading (nat (shrink_heading h))"
proof -
  define b where "b = nat (shrink_heading h)"
  note sh = shrink_heading_near [OF m]
  have bi: "shrink_heading h = int b" and bb: "of_nat b \<le> (255 :: rat)" using sh(2,3) by (simp_all add: b_def)
  have b1: "\<bar>of_nat b - of_nat m * (255 / 359)\<bar> \<le> (1 / 2 + 1 / 2 ^ 15 :: rat)" using sh(1) by (simp add: bi)
  define z where "z = f32 (of_nat b * kHeadingExpandFactor)"
  have p: "\<bar>of_nat b * kHeadingExpandFactor - of_nat b * (359 / 255)\<bar> \<le> 255 * (1 / 2 ^ 24)"
    by (rule scaled_near [OF heading_factors(2) bb]) simp
  have "\<bar>of_nat b * (359 / 255 :: rat)\<bar> \<le> 359" using bb by simp
  from near_bound [OF p this] have "\<bar>of_nat b * kHeadingExpandFactor\<bar> < 2 powi 9" by (rule order_le_less_trans) simp
  from f32_error [OF this] have "\<bar>z - of_nat b * kHeadingExpandFactor\<bar> \<le> 1 / 2 ^ 16"
    using powi_le_frac [of 16] by (simp add: z_def)
  from near_trans [OF this p] have zb: "\<bar>z - of_nat b * (359 / 255)\<bar> \<le> 1 / 2 ^ 16 + 255 * (1 / 2 ^ 24)" .
  have "of_nat b * (359 / 255) - of_nat m = (of_nat b - of_nat m * (255 / 359)) * (359 / 255 :: rat)"
    by (simp add: algebra_simps)
  then have "\<bar>of_nat b * (359 / 255) - of_nat m\<bar> \<le> (1 / 2 + 1 / 2 ^ 15) * (359 / 255 :: rat)"
    using mult_right_mono [OF b1, of "359 / 255"] by (simp only: abs_mult) simp
  from near_trans [OF zb this] have "\<bar>z - of_nat m\<bar> \<le> 3 / 4" by (rule order_trans) simp
  note zn = this
  have z0: "0 \<le> z" unfolding z_def by (rule float32.nonneg) (use heading_factors(4) in simp)
  from near_trans [OF c_round_near [OF this] zn] have "\<bar>of_int (c_round z) - of_nat m\<bar> \<le> 1 / 2 + (3 / 4 :: rat)" .
  then have "of_int \<bar>c_round z - int m\<bar> < (of_int 2 :: rat)" by (simp add: abs_le_iff)
  then have "\<bar>c_round z - int m\<bar> < 2" by (simp only: of_int_less_iff)
  then show "\<bar>expand_heading (nat (shrink_heading h)) - int m\<bar> \<le> 1"
    by (simp only: expand_heading_def b_def [symmetric] z_def)
  show "0 \<le> expand_heading (nat (shrink_heading h))"
    using z0 by (simp only: expand_heading_def b_def [symmetric] z_def) (simp add: c_round_def)
qed

text \<open>The eight slots of eight bits.\<close>

lemma slot8: "(255 :: u64) = mask 8"
  by (simp add: mask_eq_exp_minus_1)

lemma slot8_or:
  assumes v: "unat v < 2 ^ 8"
  shows "drop_bit (j * 8) (((w :: u64) OR push_bit (i * 8) v) AND push_bit (j * 8) 255)
    = (if j = i then drop_bit (j * 8) (w AND push_bit (j * 8) 255) OR drop_bit (j * 8) (push_bit (j * 8) v)
       else drop_bit (j * 8) (w AND push_bit (j * 8) 255))"
proof (rule bit_word_eqI)
  fix n assume "n < LENGTH(64)"
  have slot: "i = j" if "bit v (j * 8 + n - i * 8)" "i * 8 \<le> j * 8 + n" "n < 8"
    using low_bits [OF v that(1)] that(2,3) by presburger
  show "bit (drop_bit (j * 8) ((w OR push_bit (i * 8) v) AND push_bit (j * 8) 255)) n \<longleftrightarrow>
    bit (if j = i then drop_bit (j * 8) (w AND push_bit (j * 8) 255) OR drop_bit (j * 8) (push_bit (j * 8) v)
       else drop_bit (j * 8) (w AND push_bit (j * 8) 255)) n"
    using slot low_bits [OF v, of n] by (auto simp: slot8 bit_simps)
qed

lemma set_heading_slots:
  assumes i: "i \<le> kMaxLocalEdgeIndex" and j: "j \<le> kMaxLocalEdgeIndex"
    and empty: "ni_headings n AND push_bit (unat i * 8) 255 = 0"
  shows "heading (set_heading i h n) j =
    (if j = i then word_of_int (expand_heading (nat (shrink_heading h))) else heading n j)"
proof -
  obtain m where m: "unat (h mod 360) = m" "m < 360" by (simp add: unat_mod)
  note sh = shrink_heading_near(2,3) [OF m]
  define v where "v = (word_of_int (shrink_heading h) :: u64)"
  have v: "unat v = nat (shrink_heading h)" using sh by (simp add: v_def unsigned_of_int take_bit_int_eq_self)
  have v8: "unat v < 2 ^ 8" using sh by (simp add: v nat_less_iff)
  have k: "\<not> kMaxLocalEdgeIndex < i" "\<not> kMaxLocalEdgeIndex < j" using i j by simp_all
  have j7: "unat j \<le> 7" using local_index [OF k(2)] .
  have shifted: "drop_bit (unat j * 8) (push_bit (unat j * 8) v) = v"
  proof (rule bit_word_eqI)
    fix b assume "b < LENGTH(64)"
    show "bit (drop_bit (unat j * 8) (push_bit (unat j * 8) v)) b \<longleftrightarrow> bit v b"
      using low_bits [OF v8, of b] j7 by (auto simp: bit_simps)
  qed
  have eq: "unat j = unat i \<longleftrightarrow> j = i" by (simp add: word_unat_eq_iff)
  have "drop_bit (unat j * 8) ((ni_headings n OR push_bit (unat i * 8) v) AND push_bit (unat j * 8) 255)
    = (if j = i then v else drop_bit (unat j * 8) (ni_headings n AND push_bit (unat j * 8) 255))"
    using slot8_or [OF v8, of "unat j" "ni_headings n" "unat i"] empty shifted by (auto simp: eq)
  then show ?thesis using k v by (simp add: heading_def set_heading_def v_def [symmetric])
qed

lemma driveability_slot:
  assumes "i \<le> 7" "j \<le> 7" "unat t < 4"
  shows "drop_bit (j * 2) ((ucast (ucast (OverwriteBits (ucast (w :: 16 word)) t i 2) :: 16 word) :: u32) AND push_bit (j * 2) 3)
    = (if j = i then t else drop_bit (j * 2) (ucast w AND push_bit (j * 2) 3))"
proof (rule bit_word_eqI)
  fix n assume "n < LENGTH(32)"
  have tb: "bit t k \<Longrightarrow> k < 2" for k using low_bits [of t 2] assms(3) by simp
  have slot: "j = i" if "j * 2 + n < i * 2 + 2" "i * 2 \<le> j * 2 + n" "n < 2" using that by presburger
  have three: "(3 :: u32) = mask 2" by (simp add: mask_eq_exp_minus_1)
  have ow: "bit (OverwriteBits (ucast w) t i 2) m \<longleftrightarrow>
      m < 32 \<and> (if i * 2 \<le> m \<and> m < i * 2 + 2 then bit t (m - i * 2) else bit (ucast w :: u32) m)" for m
    by (rule bit_OverwriteBits) (use assms(3) in simp)
  show "bit (drop_bit (j * 2) ((ucast (ucast (OverwriteBits (ucast w) t i 2) :: 16 word) :: u32) AND push_bit (j * 2) 3)) n
    \<longleftrightarrow> bit (if j = i then t else drop_bit (j * 2) (ucast w AND push_bit (j * 2) 3)) n"
    using slot tb [of n] assms(1,2) by (auto simp: three bit_simps ow split: if_splits)
qed

text \<open>
  C38: Where a node is. For any corner of a tile and any position up to four degrees north and
  east of it, \<^verbatim>\<open>set_latlng\<close> succeeds and \<^verbatim>\<open>latlng\<close> gives the position back within
  half of the seventh decimal (and two parts in \<open>10 ^ 10\<close>), all roundings of \<^verbatim>\<open>double\<close> included.
\<close>

theorem node_position:
  assumes corner: "in_range corner"
    and ll: "fst corner < fst ll" "fst ll - fst corner \<le> 4" "snd corner < snd ll" "snd ll - snd corner \<le> 4"
  shows "\<exists>n'. set_latlng corner ll n = Inr n' \<and> \<bar>fst (latlng corner n') - fst ll\<bar> \<le> 502 / 10 ^ 10
    \<and> \<bar>snd (latlng corner n') - snd ll\<bar> \<le> 502 / 10 ^ 10"
proof -
  have c: "\<bar>fst corner\<bar> \<le> 180" "\<bar>snd corner\<bar> \<le> 180" using corner by (auto simp: in_range_def abs_le_iff)
  from coordinate_roundtrip [OF ll(1,2) c(1)] coordinate_roundtrip [OF ll(3,4) c(2)]
  show ?thesis by (auto simp: set_latlng_def latlng_def seventh_def)
qed

text \<open>
  Local edges of a node. A heading set in an empty slot is read back within one degree
  (modulo 360), and a driveability exactly; the slots of the seven other local edges keep
  what they hold.
\<close>

theorem local_edge_slots:
  assumes i: "i \<le> kMaxLocalEdgeIndex" and j: "j \<le> kMaxLocalEdgeIndex"
    and empty: "ni_headings n AND push_bit (unat i * 8) 255 = 0"
  shows "\<bar>uint (heading (set_heading i h n) i) - uint (h mod 360)\<bar> \<le> 1
    \<and> (j \<noteq> i \<longrightarrow> heading (set_heading i h n) j = heading n j)
    \<and> local_driveability (set_local_driveability i t n) (unat j) =
        (if j = i then t else local_driveability n (unat j))"
proof -
  obtain m where m: "unat (h mod 360) = m" "m < 360" by (simp add: unat_mod)
  have um: "uint (h mod 360) = int m" using m(1) by (simp only: uint_nat)
  note e = expand_shrink_heading [OF m]
  have "uint (word_of_int (expand_heading (nat (shrink_heading h))) :: u32) = expand_heading (nat (shrink_heading h))"
    using e m(2) by (simp add: unsigned_of_int take_bit_int_eq_self)
  then have h: "\<bar>uint (heading (set_heading i h n) i) - uint (h mod 360)\<bar> \<le> 1"
    using set_heading_slots [OF i i empty] e(1) by (simp add: um)
  have k: "\<not> kMaxLocalEdgeIndex < i" "\<not> kMaxLocalEdgeIndex < j" using i j by simp_all
  have t4: "unat (traversability_num t) < 4" by (cases t) (simp_all add: traversability_num_def)
  have tt: "traversability_of (traversability_num t) = t"
    by (cases t) (simp_all add: traversability_num_def traversability_of_def)
  have "unat j = unat i \<longleftrightarrow> j = i" by (simp add: word_unat_eq_iff)
  then have "local_driveability (set_local_driveability i t n) (unat j) = (if j = i then t else local_driveability n (unat j))"
    using driveability_slot [OF local_index [OF k(1)] local_index [OF k(2)] t4] k tt
    by (simp add: local_driveability_def set_local_driveability_def)
  with h set_heading_slots [OF i j empty] show ?thesis by simp
qed

text \<open>The time zone of a node, ten bits in two fields.\<close>

lemma timezone_roundtrip:
  assumes "tz \<le> kMaxTimeZoneIdExt1" shows "\<exists>n'. set_timezone tz n = Inr n' \<and> timezone n' = tz"
proof -
  have ten: "bit tz k \<Longrightarrow> k < 10" for k
    using low_bits [of tz 10] assms by (simp add: kMaxTimeZoneIdExt1_def word_le_nat_alt)
  have "(511 :: u32) = mask 9" "(512 :: u32) = push_bit 9 1" by (simp_all add: mask_eq_exp_minus_1)
  moreover have "bit (ucast (ucast (tz AND mask 9) :: 9 word) OR push_bit 9 (of_bool (tz AND push_bit 9 1 \<noteq> 0)) :: u32) k \<longleftrightarrow> bit tz k"
    if "k < 32" for k
    using ten [of k] that flag_slot [of tz 9] by (cases "k = 9") (auto simp: bit_simps)
  ultimately have "timezone (n\<lparr>ni_timezone := ucast (tz AND 511), ni_timezone_ext_1 := tz AND 512 \<noteq> 0\<rparr>) = tz"
    by (intro bit_word_eqI) (simp add: timezone_def)
  then show ?thesis using assms by (simp add: set_timezone_def)
qed

text \<open>
  What \<^verbatim>\<open>set_latlng\<close> leaves of an old position: at the corner itself the seventh digit stays,
  so a reused node can end up almost a millionth of a degree off.
\<close>

lemma stale_seventh_digit:
  "set_latlng c c n = Inr (n\<lparr>ni_lat_offset := 0, ni_lon_offset := 0\<rparr>)"
  by (simp add: set_latlng_def set_offset_def seventh_def)

section \<open>Witnesses\<close>

theorem node_position_witness:
  "\<exists>n'. set_latlng (- 122, 37) (- 487 / 4, 301 / 8) new_nodeinfo = Inr n'
    \<and> \<bar>fst (latlng (- 122, 37) n') - (- 487 / 4)\<bar> \<le> 502 / 10 ^ 10 \<and> \<bar>snd (latlng (- 122, 37) n') - 301 / 8\<bar> \<le> 502 / 10 ^ 10"
  using node_position [of "(- 122, 37)" "(- 487 / 4, 301 / 8)" new_nodeinfo] by (simp add: in_range_def)

theorem local_edge_slots_witness:
  "\<bar>uint (heading (set_heading 2 271 new_nodeinfo) 2) - uint ((271 :: u32) mod 360)\<bar> \<le> 1
    \<and> heading (set_heading 2 271 new_nodeinfo) 5 = heading new_nodeinfo 5
    \<and> local_driveability (set_local_driveability 2 Trav_both new_nodeinfo) (unat (2 :: u32)) = Trav_both"
  using local_edge_slots [of 2 2 new_nodeinfo 271 Trav_both] local_edge_slots [of 2 5 new_nodeinfo 271 Trav_both]
  by (simp add: kMaxLocalEdgeIndex_def new_nodeinfo_def read_nodeinfo_def)

end
