(* ===== verification/Tile_Records.thy ===== *)
theory Tile_Records
  imports Layout Graph_Id
begin

text \<open>
  The small structures of a tile that restrict and connect edges: \<^verbatim>\<open>NodeTransition\<close>
  (\<^verbatim>\<open>nodetransition.h\<close>), \<^verbatim>\<open>AccessRestriction\<close> (\<^verbatim>\<open>accessrestriction.h\<close> and \<^verbatim>\<open>.cc\<close>), \<^verbatim>\<open>TimeDomain\<close>
  (\<^verbatim>\<open>timedomain.h\<close>) and \<^verbatim>\<open>ComplexRestriction\<close> (\<^verbatim>\<open>complexrestriction.h\<close>) with its builder
  (\<^verbatim>\<open>complexrestrictionbuilder.h\<close> and \<^verbatim>\<open>.cc\<close>): layouts, setters with their errors, and the
  variable part of a complex restriction, the list of via edges that follows it in memory.

  The lemmas are the round trips of time domains, of complex restrictions and of the identifiers of
  their via edges, the structures that code writes as values or byte by byte.
\<close>

section \<open>NodeTransition\<close>

record node_transition =
  nt_endnode :: "46 word"
  nt_up :: bool
  nt_spare :: "17 word"

definition new_node_transition :: "graph_id \<Rightarrow> bool \<Rightarrow> node_transition" where
  "new_node_transition g up = \<lparr>nt_endnode = ucast (gid_value g), nt_up = up, nt_spare = 0\<rparr>"

definition transition_endnode :: "node_transition \<Rightarrow> graph_id" where
  "transition_endnode t = GraphId (ucast (nt_endnode t))"

definition read_node_transition :: "u8 list \<Rightarrow> node_transition" where
  "read_node_transition bs = (let v = read_layout [46, 1, 17] bs in
     \<lparr>nt_endnode = word_of_nat (v ! 0), nt_up = unflag (v ! 1), nt_spare = word_of_nat (v ! 2)\<rparr>)"

section \<open>AccessRestriction\<close>

record access_restriction =
  ar_edgeindex :: "22 word"
  ar_type :: "6 word"
  ar_modes :: "12 word"
  ar_except_destination :: bool
  ar_spare :: "23 word"
  ar_value :: u64

definition new_access_restriction :: "u32 \<Rightarrow> u32 \<Rightarrow> u32 \<Rightarrow> u64 \<Rightarrow> bool \<Rightarrow> access_restriction" where
  "new_access_restriction i type modes v except =
     \<lparr>ar_edgeindex = ucast i, ar_type = ucast type, ar_modes = ucast modes, ar_except_destination = except,
      ar_spare = 0, ar_value = v\<rparr>"

definition ar_set_edgeindex :: "u32 \<Rightarrow> access_restriction \<Rightarrow> access_restriction" where
  "ar_set_edgeindex i r = r\<lparr>ar_edgeindex := ucast i\<rparr>"

definition ar_set_except_destination :: "bool \<Rightarrow> access_restriction \<Rightarrow> access_restriction" where
  "ar_set_except_destination b r = r\<lparr>ar_except_destination := b\<rparr>"

definition ar_set_value :: "u64 \<Rightarrow> access_restriction \<Rightarrow> access_restriction" where
  "ar_set_value v r = r\<lparr>ar_value := v\<rparr>"

definition ar_less :: "access_restriction \<Rightarrow> access_restriction \<Rightarrow> bool" where
  "ar_less r s =
     (if ar_edgeindex r = ar_edgeindex s
      then if ar_modes r = ar_modes s
        then if ar_type r = ar_type s then ar_value r < ar_value s else ar_type r < ar_type s
        else ar_modes r < ar_modes s
      else ar_edgeindex r < ar_edgeindex s)"

definition read_access_restriction :: "u8 list \<Rightarrow> access_restriction" where
  "read_access_restriction bs = (let v = read_layout [22, 6, 12, 1, 23, 64] bs in
     \<lparr>ar_edgeindex = word_of_nat (v ! 0), ar_type = word_of_nat (v ! 1), ar_modes = word_of_nat (v ! 2),
      ar_except_destination = unflag (v ! 3), ar_spare = word_of_nat (v ! 4), ar_value = word_of_nat (v ! 5)\<rparr>)"

section \<open>TimeDomain\<close>

definition kMaxDateRangeWeek :: u8 where "kMaxDateRangeWeek = 5"
definition kMaxDateRangeDowMask :: u8 where "kMaxDateRangeDowMask = 127"
definition kMaxDateRangeHrs :: u8 where "kMaxDateRangeHrs = 23"
definition kMaxDateRangeMins :: u8 where "kMaxDateRangeMins = 59"
definition kMaxDateRangeMonth :: u8 where "kMaxDateRangeMonth = 12"
definition kMaxDateRangeDay :: u8 where "kMaxDateRangeDay = 31"
definition kMaxDateRangeDow :: u8 where "kMaxDateRangeDow = 7"

text \<open>The type is \<^verbatim>\<open>kYMD\<close> (false) or \<^verbatim>\<open>kNthDow\<close> (true).\<close>

record time_domain =
  td_type :: bool
  td_dow :: "7 word"
  td_begin_hrs :: "5 word"
  td_begin_mins :: "6 word"
  td_begin_month :: "4 word"
  td_begin_day_dow :: "5 word"
  td_begin_week :: "3 word"
  td_end_hrs :: "5 word"
  td_end_mins :: "6 word"
  td_end_month :: "4 word"
  td_end_day_dow :: "5 word"
  td_end_week :: "3 word"
  td_spare :: "10 word"

definition write_time_domain :: "time_domain \<Rightarrow> u8 list" where
  "write_time_domain d = write_layout 8 [flag (td_type d), fld (td_dow d), fld (td_begin_hrs d), fld (td_begin_mins d),
     fld (td_begin_month d), fld (td_begin_day_dow d), fld (td_begin_week d), fld (td_end_hrs d), fld (td_end_mins d),
     fld (td_end_month d), fld (td_end_day_dow d), fld (td_end_week d), fld (td_spare d)]"

definition read_time_domain :: "u8 list \<Rightarrow> time_domain" where
  "read_time_domain bs = (let v = read_layout [1, 7, 5, 6, 4, 5, 3, 5, 6, 4, 5, 3, 10] bs in
     \<lparr>td_type = unflag (v ! 0), td_dow = word_of_nat (v ! 1), td_begin_hrs = word_of_nat (v ! 2),
      td_begin_mins = word_of_nat (v ! 3), td_begin_month = word_of_nat (v ! 4), td_begin_day_dow = word_of_nat (v ! 5),
      td_begin_week = word_of_nat (v ! 6), td_end_hrs = word_of_nat (v ! 7), td_end_mins = word_of_nat (v ! 8),
      td_end_month = word_of_nat (v ! 9), td_end_day_dow = word_of_nat (v ! 10), td_end_week = word_of_nat (v ! 11),
      td_spare = word_of_nat (v ! 12)\<rparr>)"

interpretation time_domain_format: binary_format write_time_domain read_time_domain 8
proof
  fix d :: time_domain
  show "length (write_time_domain d) = 8" by (simp add: write_time_domain_def)
  show "read_time_domain (write_time_domain d) = d"
    unfolding read_time_domain_def write_time_domain_def
    by (subst read_write_layout) (simp_all add: Let_def)
qed

text \<open>The union with its 64 bit value.\<close>

definition td_of_value :: "u64 \<Rightarrow> time_domain" where
  "td_of_value v = read_time_domain (le_bytes 8 (unat v))"

definition td_value :: "time_domain \<Rightarrow> u64" where
  "td_value d = word_of_nat (of_le_bytes (write_time_domain d))"

definition td_set_type :: "bool \<Rightarrow> time_domain \<Rightarrow> time_domain" where
  "td_set_type b d = d\<lparr>td_type := b\<rparr>"

definition td_set_dow :: "u8 \<Rightarrow> time_domain \<Rightarrow> time_domain result" where
  "td_set_dow v d = (if kMaxDateRangeDowMask < v then Inl (Runtime_error ''Exceeding max dow value. Skipping'')
     else Inr (d\<lparr>td_dow := ucast v\<rparr>))"

definition td_set_begin_hrs :: "u8 \<Rightarrow> time_domain \<Rightarrow> time_domain result" where
  "td_set_begin_hrs v d = (if v = 24 then Inr (d\<lparr>td_begin_hrs := 0\<rparr>)
     else if kMaxDateRangeHrs < v then Inl (Runtime_error ''Exceeding max begin hrs value. Skipping'')
     else Inr (d\<lparr>td_begin_hrs := ucast v\<rparr>))"

definition td_set_begin_mins :: "u8 \<Rightarrow> time_domain \<Rightarrow> time_domain result" where
  "td_set_begin_mins v d = (if v = 60 then Inr (d\<lparr>td_begin_mins := 0\<rparr>)
     else if kMaxDateRangeMins < v then Inl (Runtime_error ''Exceeding max begin mins value. Skipping'')
     else Inr (d\<lparr>td_begin_mins := ucast v\<rparr>))"

definition td_set_begin_month :: "u8 \<Rightarrow> time_domain \<Rightarrow> time_domain result" where
  "td_set_begin_month v d = (if kMaxDateRangeMonth < v then Inl (Runtime_error ''Exceeding max begin month value. Skipping'')
     else Inr (d\<lparr>td_begin_month := ucast v\<rparr>))"

definition td_set_begin_day_dow :: "u8 \<Rightarrow> time_domain \<Rightarrow> time_domain result" where
  "td_set_begin_day_dow v d =
     (if \<not> td_type d \<and> kMaxDateRangeDay < v then Inl (Runtime_error ''Exceeding max begin day value. Skipping'')
      else if td_type d \<and> kMaxDateRangeDow < v then Inl (Runtime_error ''Exceeding max begin dow value. Skipping'')
      else Inr (d\<lparr>td_begin_day_dow := ucast v\<rparr>))"

definition td_set_begin_week :: "u8 \<Rightarrow> time_domain \<Rightarrow> time_domain result" where
  "td_set_begin_week v d = (if kMaxDateRangeWeek < v then Inl (Runtime_error ''Exceeding max begin week value. Skipping'')
     else Inr (d\<lparr>td_begin_week := ucast v\<rparr>))"

definition td_set_end_hrs :: "u8 \<Rightarrow> time_domain \<Rightarrow> time_domain result" where
  "td_set_end_hrs v d = (if v = 24 then Inr (d\<lparr>td_end_hrs := 0\<rparr>)
     else if kMaxDateRangeHrs < v then Inl (Runtime_error ''Exceeding max end hrs value. Skipping'')
     else Inr (d\<lparr>td_end_hrs := ucast v\<rparr>))"

definition td_set_end_mins :: "u8 \<Rightarrow> time_domain \<Rightarrow> time_domain result" where
  "td_set_end_mins v d = (if v = 60 then Inr (d\<lparr>td_end_mins := 0\<rparr>)
     else if kMaxDateRangeMins < v then Inl (Runtime_error ''Exceeding max end mins value. Skipping'')
     else Inr (d\<lparr>td_end_mins := ucast v\<rparr>))"

definition td_set_end_month :: "u8 \<Rightarrow> time_domain \<Rightarrow> time_domain result" where
  "td_set_end_month v d = (if kMaxDateRangeMonth < v then Inl (Runtime_error ''Exceeding max end month value. Skipping'')
     else Inr (d\<lparr>td_end_month := ucast v\<rparr>))"

definition td_set_end_day_dow :: "u8 \<Rightarrow> time_domain \<Rightarrow> time_domain result" where
  "td_set_end_day_dow v d =
     (if \<not> td_type d \<and> kMaxDateRangeDay < v then Inl (Runtime_error ''Exceeding max end day value. Skipping'')
      else if td_type d \<and> kMaxDateRangeDow < v then Inl (Runtime_error ''Exceeding max end dow value. Skipping'')
      else Inr (d\<lparr>td_end_day_dow := ucast v\<rparr>))"

definition td_set_end_week :: "u8 \<Rightarrow> time_domain \<Rightarrow> time_domain result" where
  "td_set_end_week v d = (if kMaxDateRangeWeek < v then Inl (Runtime_error ''Exceeding max end week value. Skipping'')
     else Inr (d\<lparr>td_end_week := ucast v\<rparr>))"

section \<open>ComplexRestriction\<close>

definition kMaxViasPerRestriction :: nat where "kMaxViasPerRestriction = 31"
definition kOnlyProbable :: "4 word" where "kOnlyProbable = 10"
definition kNoProbable :: "4 word" where "kNoProbable = 11"

record complex_restriction =
  cr_from :: "46 word"
  cr_has_dt :: bool
  cr_begin_day_dow :: "5 word"
  cr_begin_month :: "4 word"
  cr_begin_week :: "3 word"
  cr_begin_hrs :: "5 word"
  cr_to :: "46 word"
  cr_dt_type :: bool
  cr_end_day_dow :: "5 word"
  cr_end_month :: "4 word"
  cr_end_week :: "3 word"
  cr_end_hrs :: "5 word"
  cr_type :: "4 word"
  cr_modes :: "12 word"
  cr_via_count :: "5 word"
  cr_dow :: "7 word"
  cr_begin_mins :: "6 word"
  cr_end_mins :: "6 word"
  cr_probability :: "7 word"
  cr_spare :: "17 word"

definition from_graphid :: "complex_restriction \<Rightarrow> graph_id" where
  "from_graphid r = GraphId (ucast (cr_from r))"

definition to_graphid :: "complex_restriction \<Rightarrow> graph_id" where
  "to_graphid r = GraphId (ucast (cr_to r))"

definition write_complex_restriction :: "complex_restriction \<Rightarrow> u8 list" where
  "write_complex_restriction r = write_layout 24 [fld (cr_from r), flag (cr_has_dt r), fld (cr_begin_day_dow r),
     fld (cr_begin_month r), fld (cr_begin_week r), fld (cr_begin_hrs r), fld (cr_to r), flag (cr_dt_type r),
     fld (cr_end_day_dow r), fld (cr_end_month r), fld (cr_end_week r), fld (cr_end_hrs r), fld (cr_type r),
     fld (cr_modes r), fld (cr_via_count r), fld (cr_dow r), fld (cr_begin_mins r), fld (cr_end_mins r),
     fld (cr_probability r), fld (cr_spare r)]"

definition read_complex_restriction :: "u8 list \<Rightarrow> complex_restriction" where
  "read_complex_restriction bs =
     (let v = read_layout [46, 1, 5, 4, 3, 5, 46, 1, 5, 4, 3, 5, 4, 12, 5, 7, 6, 6, 7, 17] bs in
     \<lparr>cr_from = word_of_nat (v ! 0), cr_has_dt = unflag (v ! 1), cr_begin_day_dow = word_of_nat (v ! 2),
      cr_begin_month = word_of_nat (v ! 3), cr_begin_week = word_of_nat (v ! 4), cr_begin_hrs = word_of_nat (v ! 5),
      cr_to = word_of_nat (v ! 6), cr_dt_type = unflag (v ! 7), cr_end_day_dow = word_of_nat (v ! 8),
      cr_end_month = word_of_nat (v ! 9), cr_end_week = word_of_nat (v ! 10), cr_end_hrs = word_of_nat (v ! 11),
      cr_type = word_of_nat (v ! 12), cr_modes = word_of_nat (v ! 13), cr_via_count = word_of_nat (v ! 14),
      cr_dow = word_of_nat (v ! 15), cr_begin_mins = word_of_nat (v ! 16), cr_end_mins = word_of_nat (v ! 17),
      cr_probability = word_of_nat (v ! 18), cr_spare = word_of_nat (v ! 19)\<rparr>)"

interpretation complex_restriction_format: binary_format write_complex_restriction read_complex_restriction 24
proof
  fix r :: complex_restriction
  show "length (write_complex_restriction r) = 24" by (simp add: write_complex_restriction_def)
  show "read_complex_restriction (write_complex_restriction r) = r"
    unfolding read_complex_restriction_def write_complex_restriction_def
    by (subst read_write_layout) (simp_all add: Let_def)
qed

text \<open>\<^verbatim>\<open>GraphId\<close> in memory: its 64 bits.\<close>

definition write_graph_id :: "graph_id \<Rightarrow> u8 list" where
  "write_graph_id g = write_layout 8 [fld (gid_value g)]"

definition read_graph_id :: "u8 list \<Rightarrow> graph_id" where
  "read_graph_id bs = GraphId (word_of_nat (read_layout [64] bs ! 0))"

interpretation graph_id_format: binary_format write_graph_id read_graph_id 8
proof
  fix g :: graph_id
  show "length (write_graph_id g) = 8" by (simp add: write_graph_id_def)
  show "read_graph_id (write_graph_id g) = g"
    unfolding read_graph_id_def write_graph_id_def by (subst read_write_layout) simp_all
qed

section \<open>The builder of complex restrictions\<close>

record restriction_builder =
  rb_fixed :: complex_restriction
  rb_vias :: "graph_id list"

definition set_via_list :: "graph_id list \<Rightarrow> restriction_builder \<Rightarrow> restriction_builder" where
  "set_via_list vias b =
     (let b1 = (if kMaxViasPerRestriction < length vias then b else b\<lparr>rb_vias := vias\<rparr>)
      in b1\<lparr>rb_fixed := (rb_fixed b1)\<lparr>cr_via_count := word_of_nat (length (rb_vias b1))\<rparr>\<rparr>)"

definition write_restriction :: "restriction_builder \<Rightarrow> u8 list" where
  "write_restriction b =
     (let count = min (length (rb_vias b)) kMaxViasPerRestriction
      in write_complex_restriction (rb_fixed b) @ concat (map write_graph_id (take count (rb_vias b))))"

definition same_dates :: "complex_restriction \<Rightarrow> complex_restriction \<Rightarrow> bool" where
  "same_dates r s \<longleftrightarrow> cr_begin_day_dow r = cr_begin_day_dow s \<and> cr_begin_hrs r = cr_begin_hrs s
     \<and> cr_begin_mins r = cr_begin_mins s \<and> cr_begin_month r = cr_begin_month s \<and> cr_begin_week r = cr_begin_week s
     \<and> cr_dow r = cr_dow s \<and> cr_dt_type r = cr_dt_type s \<and> cr_end_day_dow r = cr_end_day_dow s
     \<and> cr_end_hrs r = cr_end_hrs s \<and> cr_end_mins r = cr_end_mins s \<and> cr_end_month r = cr_end_month s
     \<and> cr_end_week r = cr_end_week s"

definition same_restriction :: "restriction_builder \<Rightarrow> restriction_builder \<Rightarrow> bool" where
  "same_restriction b c \<longleftrightarrow>
     (let r = rb_fixed b; s = rb_fixed c
      in cr_from r = cr_from s \<and> cr_to r = cr_to s \<and> cr_type r = cr_type s \<and> cr_modes r = cr_modes s
         \<and> cr_has_dt r = cr_has_dt s \<and> cr_probability r = cr_probability s
         \<and> (cr_has_dt r \<longrightarrow> same_dates r s) \<and> rb_vias b = rb_vias c)"

text \<open>Reading a restriction and its vias at the start of the memory, and the size the code steps by.\<close>

definition read_restriction :: "u8 list \<Rightarrow> ((complex_restriction \<times> graph_id list) \<times> u8 list) result" where
  "read_restriction bs =
     bind_result (take_bytes 24 bs) (\<lambda>(h, rest).
       let r = read_complex_restriction h
       in bind_result (read_array 8 read_graph_id (unat (cr_via_count r)) rest) (\<lambda>(vias, rest').
            Inr ((r, vias), rest')))"

definition cr_SizeOf :: "complex_restriction \<Rightarrow> nat" where
  "cr_SizeOf r = 24 + unat (cr_via_count r) * 8"

section \<open>Round trips\<close>

lemma td_of_value_of: "td_of_value (td_value d) = d"
proof -
  have len: "length (write_time_domain d) = 8" by (rule time_domain_format.length_write)
  then have "of_le_bytes (write_time_domain d) < 2 ^ 64" using of_le_bytes_less [of "write_time_domain d"] by simp
  then have "unat (td_value d) = of_le_bytes (write_time_domain d)"
    unfolding td_value_def by (simp add: unsigned_of_nat take_bit_nat_eq_self del: time_domain_format.length_write)
  then show ?thesis using le_bytes_of_le_bytes [of "write_time_domain d"] by (simp add: td_of_value_def len)
qed

text \<open>What the builder stores: at most 31 vias, and their number in the fixed part.\<close>

definition vias_ok :: "restriction_builder \<Rightarrow> bool" where
  "vias_ok b \<longleftrightarrow> length (rb_vias b) \<le> kMaxViasPerRestriction \<and> unat (cr_via_count (rb_fixed b)) = length (rb_vias b)"

lemma set_via_list_ok:
  assumes "length (rb_vias b) \<le> kMaxViasPerRestriction" shows "vias_ok (set_via_list vias b)"
proof -
  have "unat (word_of_nat n :: 5 word) = n" if "n \<le> 31" for n
    using that by (simp add: unsigned_of_nat take_bit_nat_eq_self)
  then show ?thesis using assms by (auto simp: vias_ok_def set_via_list_def kMaxViasPerRestriction_def Let_def)
qed

lemma read_write_restriction:
  assumes "vias_ok b" shows "read_restriction (write_restriction b @ rest) = Inr ((rb_fixed b, rb_vias b), rest)"
  using assms graph_id_format.read_array_write [of "rb_vias b" rest]
  by (simp add: read_restriction_def write_restriction_def vias_ok_def)

lemma length_write_restriction: "vias_ok b \<Longrightarrow> length (write_restriction b) = cr_SizeOf (rb_fixed b)"
  by (simp add: write_restriction_def vias_ok_def cr_SizeOf_def)

end
