(* ===== verification/Graph_Tile.thy ===== *)
theory Graph_Tile
  imports Tile_Records Node_Info Base_Cost
begin

text \<open>
  What the path algorithms read of a tile (\<^verbatim>\<open>src/baldr/graphtile.cc\<close>, \<^verbatim>\<open>valhalla/baldr/graphtile.h\<close>)
  and of the graph (\<^verbatim>\<open>src/baldr/graphreader.cc\<close>, \<^verbatim>\<open>valhalla/baldr/graphreader.h\<close>): bounds checked
  access to nodes, edges and transitions, the search for access restrictions, the walk over the
  memory of complex restrictions, and the opposing edge. The tiles themselves come from
  files and a cache: a reader is the map \<open>tile_reader\<close> from the value of the tile's identifier to the
  tile, the argument of every definition that reads the graph.

  The lemmas show that the binary search finds exactly the restrictions of an edge, and that
  the walk finds exactly the matching ones of those the builder wrote.
\<close>

section \<open>Tiles\<close>

record routing_tile =
  rt_nodes :: "nodeinfo list"
  rt_edges :: "directed_edge list"
  rt_transitions :: "node_transition list"
  rt_access_restrictions :: "access_restriction list"
  rt_forward_restrictions :: "u8 list"
  rt_reverse_restrictions :: "u8 list"

definition tile_node :: "routing_tile \<Rightarrow> graph_id \<Rightarrow> nodeinfo result" where
  "tile_node t g =
     (if unat (gid_id g) < length (rt_nodes t) then Inr (rt_nodes t ! unat (gid_id g))
      else Inl (Runtime_error ''GraphTile NodeInfo index out of bounds''))"

definition tile_edge :: "routing_tile \<Rightarrow> graph_id \<Rightarrow> directed_edge result" where
  "tile_edge t g =
     (if unat (gid_id g) < length (rt_edges t) then Inr (rt_edges t ! unat (gid_id g))
      else Inl (Runtime_error ''GraphTile DirectedEdge index out of bounds''))"

definition tile_transition :: "routing_tile \<Rightarrow> nat \<Rightarrow> node_transition result" where
  "tile_transition t i =
     (if i < length (rt_transitions t) then Inr (rt_transitions t ! i)
      else Inl (Runtime_error ''GraphTile NodeTransition index out of bounds''))"

text \<open>Reading through a pointer that was stepped past its start: past the array is undefined.\<close>

definition array_at :: "'a list \<Rightarrow> nat \<Rightarrow> 'a result" where
  "array_at xs i = (if i < length xs then Inr (xs ! i) else Inl Undefined)"

text \<open>The fields of a node that the costing reads.\<close>

definition costing_node :: "nodeinfo \<Rightarrow> node_info" where
  "costing_node n = \<lparr>node_type = unat (ni_type n), node_access = ni_access n, tagged_access = ni_tagged_access n,
     node_private_access = ni_private_access n, cash_only_toll = ni_cash_only_toll n\<rparr>"

section \<open>Access restrictions\<close>

text \<open>The binary search for the first restriction of an edge; \<open>found\<close> is the best index so far.\<close>

function search_restriction :: "access_restriction list \<Rightarrow> u32 \<Rightarrow> int \<Rightarrow> int \<Rightarrow> nat \<Rightarrow> nat" where
  "search_restriction rs idx low high found =
     (if low \<le> high
      then let m = (low + high) div 2; i = ucast (ar_edgeindex (rs ! nat m))
           in if idx = i then search_restriction rs idx low (m - 1) (nat m)
              else if idx < i then search_restriction rs idx low (m - 1) found
              else search_restriction rs idx (m + 1) high found
      else found)"
  by pat_completeness auto
termination by (relation "measure (\<lambda>(rs, idx, low, high, found). nat (high - low + 1))") auto

declare search_restriction.simps [simp del]

definition GetAccessRestrictions :: "routing_tile \<Rightarrow> u32 \<Rightarrow> 12 word \<Rightarrow> access_restriction list" where
  "GetAccessRestrictions t idx acc =
     (let rs = rt_access_restrictions t; count = length rs
      in if count = 0 then []
         else let found = search_restriction rs idx 0 (int count - 1) count
              in [r \<leftarrow> takeWhile (\<lambda>r. ucast (ar_edgeindex r) = idx) (drop found rs). ar_modes r AND acc \<noteq> 0])"

section \<open>Complex restrictions\<close>

text \<open>
  The walk over the memory of the restrictions: each one found is its fixed part and the
  memory behind it, where its vias are.
\<close>

function restrictions_in :: "u8 list \<Rightarrow> (complex_restriction \<times> u8 list) list result" where
  "restrictions_in bs =
     (if bs = [] then Inr []
      else bind_result (take_bytes 24 bs) (\<lambda>(h, rest).
        let r = read_complex_restriction h
        in bind_result (restrictions_in (drop (cr_SizeOf r) bs)) (\<lambda>rs. Inr ((r, rest) # rs))))"
  by pat_completeness auto
termination by (relation "measure length") (auto simp: cr_SizeOf_def)

declare restrictions_in.simps [simp del]

definition GetRestrictions :: "routing_tile \<Rightarrow> bool \<Rightarrow> graph_id \<Rightarrow> 12 word \<Rightarrow> (complex_restriction \<times> u8 list) list result" where
  "GetRestrictions t forward g modes =
     bind_result (restrictions_in (if forward then rt_forward_restrictions t else rt_reverse_restrictions t)) (\<lambda>rs.
       Inr [(r, m) \<leftarrow> rs. (if forward then to_graphid r else from_graphid r) = g \<and> cr_modes r AND modes \<noteq> 0])"

section \<open>The graph\<close>

type_synonym tile_reader = "u32 \<rightharpoonup> routing_tile"

definition GetGraphTile :: "tile_reader \<Rightarrow> graph_id \<Rightarrow> routing_tile option" where
  "GetGraphTile rd g = (if is_valid g then rd (tile_value g) else None)"

definition endnode :: "directed_edge \<Rightarrow> graph_id" where
  "endnode e = GraphId (ucast (de_endnode e))"

definition kRailUse :: nat where "kRailUse = 50"
definition kBusUse :: nat where "kBusUse = 51"

definition IsTransitLine :: "directed_edge \<Rightarrow> bool" where
  "IsTransitLine e \<longleftrightarrow> use_of e = kRailUse \<or> use_of e = kBusUse"

text \<open>
  The opposing edge and the tile that \<^verbatim>\<open>opp_tile\<close> refers to afterwards: it is only
  assigned once the edge is known not to be a transit line.
\<close>

definition GetOpposingEdgeId :: "tile_reader \<Rightarrow> graph_id \<Rightarrow> routing_tile option \<Rightarrow> (graph_id \<times> routing_tile option) result" where
  "GetOpposingEdgeId rd g opp_tile =
     (case GetGraphTile rd g of
        None \<Rightarrow> Inr (gid_default, opp_tile)
      | Some t \<Rightarrow> bind_result (tile_edge t g) (\<lambda>e.
          if IsTransitLine e then Inr (gid_default, opp_tile)
          else (case GetGraphTile rd (endnode e) of
              None \<Rightarrow> Inr (gid_default, None)
            | Some t2 \<Rightarrow> bind_result (tile_node t2 (endnode e)) (\<lambda>n.
                Inr (gid_set_id (endnode e) (ucast (ni_edge_index n) + ucast (de_opp_index e)), Some t2)))))"

definition GetOpposingEdge :: "tile_reader \<Rightarrow> graph_id \<Rightarrow> directed_edge option result" where
  "GetOpposingEdge rd g =
     bind_result (GetOpposingEdgeId rd g None) (\<lambda>(opp, t).
       if is_valid opp
       then (case t of None \<Rightarrow> Inl Undefined | Some t \<Rightarrow> bind_result (tile_edge t opp) (\<lambda>e. Inr (Some e)))
       else Inr None)"

section \<open>The binary search\<close>

abbreviation edge_of :: "access_restriction \<Rightarrow> u32" where
  "edge_of r \<equiv> ucast (ar_edgeindex r)"

lemma sorted_restrictions_nth:
  "sorted (map edge_of rs) \<Longrightarrow> i \<le> j \<Longrightarrow> j < length rs \<Longrightarrow> edge_of (rs ! i) \<le> edge_of (rs ! j)"
  using sorted_nth_mono [of "map edge_of rs" i j] by simp

text \<open>
  What the loop keeps: before \<open>low\<close> the edges are smaller, behind \<open>high\<close> they are not
  smaller, and \<open>found\<close> is \<open>high + 1\<close> if that restriction is one of the edge, else the length.
\<close>

definition searching :: "access_restriction list \<Rightarrow> u32 \<Rightarrow> int \<Rightarrow> int \<Rightarrow> nat \<Rightarrow> bool" where
  "searching rs idx low high found \<longleftrightarrow>
     0 \<le> low \<and> low \<le> high + 1 \<and> high < int (length rs)
     \<and> (\<forall>i<nat low. edge_of (rs ! i) < idx) \<and> (\<forall>i<length rs. high < int i \<longrightarrow> idx \<le> edge_of (rs ! i))
     \<and> found = (if nat (high + 1) < length rs \<and> edge_of (rs ! nat (high + 1)) = idx then nat (high + 1) else length rs)"

lemma search_restriction_finds:
  assumes "sorted (map edge_of rs)" and "searching rs idx low high found"
  shows "\<exists>k\<le>length rs. (\<forall>i<k. edge_of (rs ! i) < idx) \<and> (\<forall>i<length rs. k \<le> i \<longrightarrow> idx \<le> edge_of (rs ! i))
    \<and> search_restriction rs idx low high found = (if k < length rs \<and> edge_of (rs ! k) = idx then k else length rs)"
  using assms
proof (induction rs idx low high found rule: search_restriction.induct)
  case (1 rs idx low high found)
  show ?case
  proof (cases "low \<le> high")
    case False
    then have low: "low = high + 1" using "1.prems"(2) by (simp add: searching_def)
    have stop: "search_restriction rs idx low high found = found" using False by (simp add: search_restriction.simps [of rs idx low])
    show ?thesis
      using "1.prems"(2) unfolding stop unfolding low by (intro exI [of _ "nat (high + 1)"]) (auto simp: searching_def)
  next
    case True
    define m where "m = (low + high) div 2"
    have m: "low \<le> m" "m \<le> high" using True by (simp_all add: m_def)
    have b: "0 \<le> m" "nat m < length rs" using m "1.prems"(2) by (auto simp: searching_def)
    have below: "edge_of (rs ! i) \<le> edge_of (rs ! nat m)" if "i \<le> nat m" for i
      using sorted_restrictions_nth [OF "1.prems"(1) that b(2)] .
    have above: "edge_of (rs ! nat m) \<le> edge_of (rs ! i)" if "m \<le> int i" "i < length rs" for i
      using sorted_restrictions_nth [OF "1.prems"(1), of "nat m" i] that by simp
    have step: "search_restriction rs idx low high found =
        (if idx = edge_of (rs ! nat m) then search_restriction rs idx low (m - 1) (nat m)
         else if idx < edge_of (rs ! nat m) then search_restriction rs idx low (m - 1) found
         else search_restriction rs idx (m + 1) high found)"
      unfolding search_restriction.simps [of rs idx low high found] m_def using True by (simp add: Let_def)
    consider "idx = edge_of (rs ! nat m)" | "idx < edge_of (rs ! nat m)" | "edge_of (rs ! nat m) < idx" by force
    then show ?thesis
    proof cases
      case 1
      have "searching rs idx low (m - 1) (nat m)"
        using "1.prems"(2) m b above 1 by (auto simp: searching_def)
      from "1.IH"(1) [OF True m_def refl 1 "1.prems"(1) this] show ?thesis unfolding step using 1 by simp
    next
      case 2
      have behind: "idx < edge_of (rs ! i)" if "m \<le> int i" "i < length rs" for i
        using order_less_le_trans [OF 2 above [OF that]] .
      have "found = length rs"
        using "1.prems"(2) behind [of "nat (high + 1)"] m b by (auto simp: searching_def)
      then have "searching rs idx low (m - 1) found"
        using "1.prems"(2) m b behind order_less_imp_not_eq [OF 2] by (auto simp: searching_def intro: order_less_imp_le)
      with 2 order_less_imp_not_eq [OF 2] "1.IH"(2) [OF True m_def refl _ 2 "1.prems"(1)] show ?thesis unfolding step by simp
    next
      case 3
      have "searching rs idx (m + 1) high found"
        using "1.prems"(2) m b order_le_less_trans [OF below 3] by (auto simp: searching_def)
      have "\<not> idx < edge_of (rs ! nat m)" "idx \<noteq> edge_of (rs ! nat m)" using 3 by (auto dest: order_less_asym)
      with "1.IH"(3) [OF True m_def refl _ _ "1.prems"(1) \<open>searching rs idx (m + 1) high found\<close>]
      show ?thesis unfolding step by simp
    qed
  qed
qed

lemma takeWhile_sorted:
  "sorted (map f xs) \<Longrightarrow> \<forall>x\<in>set xs. (v :: 'a :: linorder) \<le> f x \<Longrightarrow> takeWhile (\<lambda>x. f x = v) xs = [x \<leftarrow> xs. f x = v]"
proof (induction xs)
  case (Cons a xs)
  have "[x \<leftarrow> xs. f x = v] = []" if "f a \<noteq> v"
    unfolding filter_empty_conv
  proof
    fix x assume "x \<in> set xs"
    then have "v \<le> f a" "f a \<le> f x" using Cons.prems by simp_all
    then show "f x \<noteq> v" using that by (metis order_antisym)
  qed
  then show ?case using Cons by (cases "f a = v") simp_all
qed simp

lemma restrictions_from_found:
  assumes "sorted (map edge_of rs)" and "found = search_restriction rs idx 0 (int (length rs) - 1) (length rs)"
  shows "takeWhile (\<lambda>r. edge_of r = idx) (drop found rs) = [r \<leftarrow> rs. edge_of r = idx]"
proof -
  have "searching rs idx 0 (int (length rs) - 1) (length rs)" by (auto simp: searching_def)
  from search_restriction_finds [OF assms(1) this] obtain k
    where k: "k \<le> length rs" "\<forall>i<k. edge_of (rs ! i) < idx" "\<forall>i<length rs. k \<le> i \<longrightarrow> idx \<le> edge_of (rs ! i)"
      and found: "found = (if k < length rs \<and> edge_of (rs ! k) = idx then k else length rs)"
    unfolding assms(2) by blast
  have "filter (\<lambda>r. edge_of r = idx) (take k rs) = []"
    using k(2) by (fastforce simp: filter_empty_conv in_set_conv_nth)
  then have all: "[r \<leftarrow> rs. edge_of r = idx] = [r \<leftarrow> drop k rs. edge_of r = idx]"
    by (metis append_take_drop_id filter_append append_Nil)
  have "\<forall>r\<in>set (drop k rs). idx \<le> edge_of r"
    using k(3) by (auto simp: in_set_conv_nth)
  moreover have "sorted (map edge_of (drop k rs))" using sorted_wrt_drop [OF assms(1), of k] by (simp add: drop_map)
  ultimately have run: "takeWhile (\<lambda>r. edge_of r = idx) (drop k rs) = [r \<leftarrow> drop k rs. edge_of r = idx]"
    by (rule takeWhile_sorted [rotated])
  show ?thesis
  proof (cases "k < length rs \<and> edge_of (rs ! k) = idx")
    case True
    then show ?thesis using found run all by simp
  next
    case False
    then have "takeWhile (\<lambda>r. edge_of r = idx) (drop k rs) = []"
      by (cases "k < length rs") (auto simp: Cons_nth_drop_Suc [symmetric])
    then show ?thesis using found run all False by simp
  qed
qed

text \<open>
  C37: Where a tile's restrictions are sorted by edge, the binary search and the scan behind it give
  exactly the restrictions of the edge that apply to one of the modes, in their order.
\<close>

lemma GetAccessRestrictions_exact:
  assumes "sorted (map (\<lambda>r. ucast (ar_edgeindex r) :: u32) (rt_access_restrictions t))"
  shows "GetAccessRestrictions t idx modes
    = [r \<leftarrow> rt_access_restrictions t. ucast (ar_edgeindex r) = idx \<and> ar_modes r AND modes \<noteq> 0]"
  using restrictions_from_found [OF assms refl, of idx]
  by (auto simp: GetAccessRestrictions_def Let_def filter_filter conj_commute simp flip: filter_filter)

lemma GetAccessRestrictions_exact_witness:
  "GetAccessRestrictions \<lparr>rt_nodes = [], rt_edges = [], rt_transitions = [],
      rt_access_restrictions = map (\<lambda>(i, m). new_access_restriction i 0 m 30 False) [(2, 1), (4, 1), (4, 8), (4, 3), (9, 1)],
      rt_forward_restrictions = [], rt_reverse_restrictions = []\<rparr> 4 1
    = [new_access_restriction 4 0 1 30 False, new_access_restriction 4 0 3 30 False]"
proof -
  have sorted: "sorted (map (\<lambda>r. ucast (ar_edgeindex r) :: u32)
      (map (\<lambda>(i, m). new_access_restriction i 0 m 30 False) [(2, 1), (4, 1), (4, 8), (4, 3), (9, 1)]))"
    by code_simp
  show ?thesis
    by (subst GetAccessRestrictions_exact) (use sorted in simp, code_simp)
qed

section \<open>The memory of the complex restrictions\<close>

text \<open>What the builder writes of each restriction, and what the walk finds there.\<close>

definition restriction_memory :: "restriction_builder list \<Rightarrow> u8 list" where
  "restriction_memory bs = concat (map write_restriction bs)"

fun found_restrictions :: "restriction_builder list \<Rightarrow> (complex_restriction \<times> u8 list) list" where
  "found_restrictions [] = []"
| "found_restrictions (b # bs) = (rb_fixed b, drop 24 (restriction_memory (b # bs))) # found_restrictions bs"

lemma restrictions_in_memory:
  "\<forall>b\<in>set bs. vias_ok b \<Longrightarrow> restrictions_in (restriction_memory bs) = Inr (found_restrictions bs)"
proof (induction bs)
  case Nil
  then show ?case by (simp add: restriction_memory_def restrictions_in.simps)
next
  case (Cons b bs)
  let ?m = "restriction_memory (b # bs)"
  have ok: "vias_ok b" using Cons.prems by simp
  have mem: "?m = write_complex_restriction (rb_fixed b) @ drop 24 ?m"
    by (simp add: restriction_memory_def write_restriction_def Let_def)
  have "drop (cr_SizeOf (rb_fixed b)) ?m = restriction_memory bs"
    using length_write_restriction [OF ok] by (simp add: restriction_memory_def)
  moreover have "take_bytes 24 ?m = Inr (write_complex_restriction (rb_fixed b), drop 24 ?m)"
    by (subst mem) (simp add: take_bytes_def)
  moreover have "?m \<noteq> []" using mem by (metis append_is_Nil_conv complex_restriction_format.length_write list.size(3) zero_neq_numeral)
  ultimately show ?case using Cons by (simp add: restrictions_in.simps [of ?m])
qed

lemma found_restrictions_fixed: "map fst (found_restrictions bs) = map rb_fixed bs"
  by (induction bs) simp_all

definition no_turn :: "46 word \<Rightarrow> 46 word \<Rightarrow> 5 word \<Rightarrow> complex_restriction" where
  "no_turn from to vias = \<lparr>cr_from = from, cr_has_dt = False, cr_begin_day_dow = 0, cr_begin_month = 0, cr_begin_week = 0,
     cr_begin_hrs = 0, cr_to = to, cr_dt_type = False, cr_end_day_dow = 0, cr_end_month = 0, cr_end_week = 0,
     cr_end_hrs = 0, cr_type = 0, cr_modes = 1, cr_via_count = vias, cr_dow = 0, cr_begin_mins = 0, cr_end_mins = 0,
     cr_probability = 0, cr_spare = 0\<rparr>"

definition forbid_turn :: restriction_builder where
  "forbid_turn = \<lparr>rb_fixed = no_turn 5 7 1, rb_vias = [GraphId 6]\<rparr>"

definition other_turn :: restriction_builder where
  "other_turn = \<lparr>rb_fixed = no_turn 5 8 0, rb_vias = []\<rparr>"

text \<open>
  On the memory that the restriction builder writes, the walk of the tile returns, without
  stepping outside, the restrictions that end (start) at the edge and apply to one of the
  modes, in the order in which they were written.
\<close>

lemma GetRestrictions_of_builders:
  assumes "\<forall>b\<in>set bs. vias_ok b"
    and "(if forward then rt_forward_restrictions t else rt_reverse_restrictions t) = concat (map write_restriction bs)"
  shows "\<exists>rs. GetRestrictions t forward g modes = Inr rs
    \<and> map fst rs = [r \<leftarrow> map rb_fixed bs. (if forward then to_graphid r else from_graphid r) = g \<and> cr_modes r AND modes \<noteq> 0]"
  using restrictions_in_memory [OF assms(1)] unfolding GetRestrictions_def assms(2)
  by (cases forward)
    (simp_all add: restriction_memory_def filter_map comp_def case_prod_unfold flip: found_restrictions_fixed)

lemma GetRestrictions_of_builders_witness:
  "\<exists>rs. GetRestrictions \<lparr>rt_nodes = [], rt_edges = [], rt_transitions = [], rt_access_restrictions = [],
        rt_forward_restrictions = concat (map write_restriction [forbid_turn, other_turn]), rt_reverse_restrictions = []\<rparr>
      True (GraphId 7) 1 = Inr rs \<and> map fst rs = [rb_fixed forbid_turn]"
proof -
  let ?t = "\<lparr>rt_nodes = [], rt_edges = [], rt_transitions = [], rt_access_restrictions = [],
    rt_forward_restrictions = concat (map write_restriction [forbid_turn, other_turn]), rt_reverse_restrictions = []\<rparr>"
  have ok: "\<forall>b\<in>set [forbid_turn, other_turn]. vias_ok b"
    by (simp add: vias_ok_def forbid_turn_def other_turn_def no_turn_def kMaxViasPerRestriction_def)
  have rest: "[r \<leftarrow> map rb_fixed [forbid_turn, other_turn]. (if True then to_graphid r else from_graphid r) = GraphId 7
    \<and> cr_modes r AND 1 \<noteq> 0] = [rb_fixed forbid_turn]"
    by (simp add: forbid_turn_def other_turn_def no_turn_def to_graphid_def)
  show ?thesis
    using GetRestrictions_of_builders [OF ok, of True ?t "GraphId 7" 1] unfolding rest by simp
qed

end
