(* ===== verification/Edge_Label.thy ===== *)
theory Edge_Label
  imports Base_Cost Bucket_Queue
begin

text \<open>
  The labels of a search (\<^verbatim>\<open>valhalla/sif/edgelabel.h\<close>): \<^verbatim>\<open>EdgeLabel\<close> with its bit fields at their
  widths, and the classes derived from it, \<^verbatim>\<open>PathEdgeLabel\<close>, \<^verbatim>\<open>BDEdgeLabel\<close> and \<^verbatim>\<open>MMEdgeLabel\<close>, as
  extensions of its record. A constructor is a definition with the arguments of the code; what a
  narrower field loses is lost here too. \<open>pred_view\<close> is what the costs and checks of \<open>Base_Cost\<close> read.
\<close>

section \<open>Data\<close>

datatype internal_turn = No_turn | Left_turn | Right_turn

fun internal_turn_num :: "internal_turn \<Rightarrow> 2 word" where
  "internal_turn_num No_turn = 0"
| "internal_turn_num Left_turn = 1"
| "internal_turn_num Right_turn = 2"

datatype travel_mode = Drive | Pedestrian | Bicycle | Public_transit

fun travel_mode_num :: "travel_mode \<Rightarrow> 4 word" where
  "travel_mode_num Drive = 0"
| "travel_mode_num Pedestrian = 1"
| "travel_mode_num Bicycle = 2"
| "travel_mode_num Public_transit = 3"

definition kInvalidRestriction :: u8 where "kInvalidRestriction = 255"
definition kCompacted :: "3 word" where "kCompacted = 3"

record sif_label =
  lab_predecessor :: u32
  lab_path_distance :: "25 word"
  lab_restrictions :: "7 word"
  lab_edgeid :: "46 word"
  lab_opp_index :: "7 word"
  lab_opp_local_idx :: "7 word"
  lab_mode :: "4 word"
  lab_endnode :: "46 word"
  lab_use :: "6 word"
  lab_classification :: "3 word"
  lab_shortcut :: bool
  lab_dest_only :: bool
  lab_origin :: bool
  lab_destination :: bool
  lab_toll :: bool
  lab_not_thru :: bool
  lab_deadend :: bool
  lab_on_complex_rest :: bool
  lab_closure_pruning :: bool
  lab_path_id :: "7 word"
  lab_restriction_idx :: u8
  lab_internal_turn :: "2 word"
  lab_unpaved :: bool
  lab_has_measured_speed :: bool
  lab_hgv_access :: bool
  lab_bridge :: bool
  lab_tunnel :: bool
  lab_destonly_mask :: "7 word"
  lab_cost :: cost
  lab_sortcost :: rat

record path_label = sif_label +
  pl_transition_cost :: cost

record bd_label = sif_label +
  bl_transition_cost :: cost
  bl_opp_edgeid :: "63 word"
  bl_not_thru_pruning :: bool
  bl_distance :: rat

record mm_label = sif_label +
  ml_transition_cost :: cost
  ml_prior_stopid :: graph_id
  ml_tripid :: u32
  ml_blockid :: "21 word"
  ml_transit_operator :: "10 word"
  ml_has_transit :: bool
  ml_walking_distance :: u32
  ml_distance :: rat

section \<open>Constructors and updates\<close>

definition unpaved :: "directed_edge \<Rightarrow> bool" where
  "unpaved e \<longleftrightarrow> kCompacted \<le> de_surface e"

definition new_label :: "u32 \<Rightarrow> graph_id \<Rightarrow> directed_edge \<Rightarrow> cost \<Rightarrow> rat \<Rightarrow> travel_mode \<Rightarrow> u32 \<Rightarrow> u8 \<Rightarrow> bool \<Rightarrow> bool
    \<Rightarrow> internal_turn \<Rightarrow> u8 \<Rightarrow> bool \<Rightarrow> bool \<Rightarrow> u8 \<Rightarrow> sif_label" where
  "new_label predecessor edgeid e c sortcost mode path_distance restriction_idx closure_pruning has_measured_speed
      turn path_id destonly hgv_access destonly_mask =
     \<lparr>lab_predecessor = predecessor, lab_path_distance = ucast path_distance,
      lab_restrictions = ucast (de_restrictions e), lab_edgeid = ucast (gid_value edgeid),
      lab_opp_index = de_opp_index e, lab_opp_local_idx = de_opp_local_idx e, lab_mode = travel_mode_num mode,
      lab_endnode = de_endnode e, lab_use = de_use e, lab_classification = de_classification e,
      lab_shortcut = bit (de_shortcut e) 0, lab_dest_only = (destonly \<or> de_dest_only e), lab_origin = False,
      lab_destination = False, lab_toll = de_toll e, lab_not_thru = de_not_thru e, lab_deadend = de_deadend e,
      lab_on_complex_rest = (de_complex_restriction e \<or> de_start_restriction e \<noteq> 0 \<or> de_end_restriction e \<noteq> 0),
      lab_closure_pruning = closure_pruning, lab_path_id = ucast path_id, lab_restriction_idx = restriction_idx,
      lab_internal_turn = internal_turn_num turn, lab_unpaved = unpaved e,
      lab_has_measured_speed = has_measured_speed, lab_hgv_access = hgv_access, lab_bridge = de_bridge e,
      lab_tunnel = de_tunnel e, lab_destonly_mask = ucast destonly_mask, lab_cost = c, lab_sortcost = sortcost\<rparr>"

definition update_label :: "u32 \<Rightarrow> cost \<Rightarrow> rat \<Rightarrow> u32 \<Rightarrow> u8 \<Rightarrow> 'a sif_label_scheme \<Rightarrow> 'a sif_label_scheme" where
  "update_label predecessor c sortcost path_distance restriction_idx l =
     l\<lparr>lab_predecessor := predecessor, lab_cost := c, lab_sortcost := sortcost,
       lab_path_distance := ucast path_distance, lab_restriction_idx := restriction_idx\<rparr>"

definition new_path_label :: "u32 \<Rightarrow> graph_id \<Rightarrow> directed_edge \<Rightarrow> cost \<Rightarrow> rat \<Rightarrow> travel_mode \<Rightarrow> u32 \<Rightarrow> cost \<Rightarrow> u8 \<Rightarrow> bool
    \<Rightarrow> bool \<Rightarrow> internal_turn \<Rightarrow> u8 \<Rightarrow> bool \<Rightarrow> bool \<Rightarrow> path_label" where
  "new_path_label predecessor edgeid e c sortcost mode path_distance tc restriction_idx closure_pruning
      has_measured_speed turn path_id destonly hgv_access =
     sif_label.extend (new_label predecessor edgeid e c sortcost mode path_distance restriction_idx closure_pruning
         has_measured_speed turn path_id destonly hgv_access 0)
       (path_label.fields tc)"

text \<open>The constructor of a bidirectional label with a heuristic, and the one without.\<close>

definition new_bd_label_dist :: "u32 \<Rightarrow> graph_id \<Rightarrow> graph_id \<Rightarrow> directed_edge \<Rightarrow> cost \<Rightarrow> rat \<Rightarrow> rat \<Rightarrow> travel_mode \<Rightarrow> cost
    \<Rightarrow> bool \<Rightarrow> bool \<Rightarrow> bool \<Rightarrow> internal_turn \<Rightarrow> u8 \<Rightarrow> u8 \<Rightarrow> bool \<Rightarrow> bool \<Rightarrow> u8 \<Rightarrow> bd_label" where
  "new_bd_label_dist predecessor edgeid oppedgeid e c sortcost d mode tc not_thru_pruning closure_pruning
      has_measured_speed turn restriction_idx path_id destonly hgv_access destonly_mask =
     sif_label.extend (new_label predecessor edgeid e c sortcost mode 0 restriction_idx closure_pruning
         has_measured_speed turn path_id destonly hgv_access destonly_mask)
       (bd_label.fields tc (ucast (gid_value oppedgeid)) not_thru_pruning d)"

definition new_bd_label :: "u32 \<Rightarrow> graph_id \<Rightarrow> graph_id \<Rightarrow> directed_edge \<Rightarrow> cost \<Rightarrow> travel_mode \<Rightarrow> cost \<Rightarrow> u32 \<Rightarrow> bool
    \<Rightarrow> bool \<Rightarrow> bool \<Rightarrow> internal_turn \<Rightarrow> u8 \<Rightarrow> u8 \<Rightarrow> bool \<Rightarrow> bool \<Rightarrow> u8 \<Rightarrow> bd_label" where
  "new_bd_label predecessor edgeid oppedgeid e c mode tc path_distance not_thru_pruning closure_pruning
      has_measured_speed turn restriction_idx path_id destonly hgv_access destonly_mask =
     sif_label.extend (new_label predecessor edgeid e c (cost c) mode path_distance restriction_idx closure_pruning
         has_measured_speed turn path_id destonly hgv_access destonly_mask)
       (bd_label.fields tc (ucast (gid_value oppedgeid)) not_thru_pruning 0)"

definition update_bd_label :: "u32 \<Rightarrow> cost \<Rightarrow> rat \<Rightarrow> cost \<Rightarrow> u32 \<Rightarrow> u8 \<Rightarrow> bd_label \<Rightarrow> bd_label" where
  "update_bd_label predecessor c sortcost tc path_distance restriction_idx l =
     l\<lparr>lab_predecessor := predecessor, lab_cost := c, lab_sortcost := sortcost, bl_transition_cost := tc,
       lab_path_distance := ucast path_distance, lab_restriction_idx := restriction_idx\<rparr>"

definition new_mm_label :: "u32 \<Rightarrow> graph_id \<Rightarrow> directed_edge \<Rightarrow> cost \<Rightarrow> rat \<Rightarrow> rat \<Rightarrow> travel_mode \<Rightarrow> u32 \<Rightarrow> u32 \<Rightarrow> u32
    \<Rightarrow> graph_id \<Rightarrow> u32 \<Rightarrow> u32 \<Rightarrow> bool \<Rightarrow> cost \<Rightarrow> u8 \<Rightarrow> u8 \<Rightarrow> bool \<Rightarrow> mm_label" where
  "new_mm_label predecessor edgeid e c sortcost d mode path_distance walking_distance tripid prior_stopid blockid
      transit_operator has_transit tc restriction_idx path_id destonly =
     sif_label.extend (new_label predecessor edgeid e c sortcost mode path_distance restriction_idx True False No_turn
         path_id destonly False 0)
       (mm_label.fields tc prior_stopid tripid (ucast blockid) (ucast transit_operator) has_transit
         walking_distance d)"

definition update_mm_label :: "u32 \<Rightarrow> cost \<Rightarrow> rat \<Rightarrow> u32 \<Rightarrow> u32 \<Rightarrow> u32 \<Rightarrow> u32 \<Rightarrow> cost \<Rightarrow> u8 \<Rightarrow> mm_label \<Rightarrow> mm_label" where
  "update_mm_label predecessor c sortcost path_distance walking_distance tripid blockid tc restriction_idx l =
     l\<lparr>lab_predecessor := predecessor, lab_cost := c, lab_sortcost := sortcost,
       lab_path_distance := ucast path_distance, ml_walking_distance := walking_distance, ml_tripid := tripid,
       ml_blockid := ucast blockid, ml_transition_cost := tc, lab_restriction_idx := restriction_idx\<rparr>"

section \<open>Accessors that compute\<close>

definition label_edgeid :: "'a sif_label_scheme \<Rightarrow> graph_id" where
  "label_edgeid l = GraphId (ucast (lab_edgeid l))"

definition label_endnode :: "'a sif_label_scheme \<Rightarrow> graph_id" where
  "label_endnode l = GraphId (ucast (lab_endnode l))"

definition label_opp_edgeid :: "bd_label \<Rightarrow> graph_id" where
  "label_opp_edgeid l = GraphId (ucast (bl_opp_edgeid l))"

definition label_path_id :: "'a sif_label_scheme \<Rightarrow> u8" where
  "label_path_id l = ucast (lab_path_id l)"

definition label_less :: "'a sif_label_scheme \<Rightarrow> 'a sif_label_scheme \<Rightarrow> bool" where
  "label_less a b \<longleftrightarrow> lab_sortcost a < lab_sortcost b"

definition pred_view :: "'a sif_label_scheme \<Rightarrow> edge_label" where
  "pred_view l = \<lparr>pred_use = unat (lab_use l), pred_destonly = lab_dest_only l, pred_toll = lab_toll l,
     pred_bridge = lab_bridge l, pred_tunnel = lab_tunnel l, pred_classification = unat (lab_classification l),
     pred_deadend = lab_deadend l, pred_opp_local_idx = unat (lab_opp_local_idx l),
     pred_pedestrian = (lab_mode l = travel_mode_num Pedestrian), pred_path_distance = ucast (lab_path_distance l)\<rparr>"

section \<open>What a label keeps of its arguments\<close>

lemma ucast_ucast_take_bit: "ucast (ucast (v :: u64) :: 46 word) = (take_bit 46 v :: u64)"
  by (rule bit_word_eqI) (auto simp: bit_ucast_iff bit_take_bit_iff)

lemma new_bd_label_sel [simp]:
  "lab_predecessor (new_bd_label p g og e c md tc d nt cp ms t ri pid dst hgv m) = p"
  "lab_edgeid (new_bd_label p g og e c md tc d nt cp ms t ri pid dst hgv m) = ucast (gid_value g)"
  "lab_endnode (new_bd_label p g og e c md tc d nt cp ms t ri pid dst hgv m) = de_endnode e"
  "lab_cost (new_bd_label p g og e c md tc d nt cp ms t ri pid dst hgv m) = c"
  "lab_sortcost (new_bd_label p g og e c md tc d nt cp ms t ri pid dst hgv m) = cost c"
  "lab_path_id (new_bd_label p g og e c md tc d nt cp ms t ri pid dst hgv m) = ucast pid"
  "lab_origin (new_bd_label p g og e c md tc d nt cp ms t ri pid dst hgv m) = False"
  "bl_transition_cost (new_bd_label p g og e c md tc d nt cp ms t ri pid dst hgv m) = tc"
  "label_path_id (new_bd_label p g og e c md tc d nt cp ms t ri pid dst hgv m) = ucast (ucast pid :: 7 word)"
  by (simp_all add: new_bd_label_def new_label_def sif_label.defs bd_label.defs label_path_id_def)

lemma update_bd_label_sel [simp]:
  "lab_predecessor (update_bd_label p c s tc d ri l) = p"
  "lab_edgeid (update_bd_label p c s tc d ri l) = lab_edgeid l"
  "lab_endnode (update_bd_label p c s tc d ri l) = lab_endnode l"
  "lab_cost (update_bd_label p c s tc d ri l) = c"
  "lab_sortcost (update_bd_label p c s tc d ri l) = s"
  "lab_path_id (update_bd_label p c s tc d ri l) = lab_path_id l"
  "lab_origin (update_bd_label p c s tc d ri l) = lab_origin l"
  "bl_transition_cost (update_bd_label p c s tc d ri l) = tc"
  "label_edgeid (update_bd_label p c s tc d ri l) = label_edgeid l"
  "label_path_id (update_bd_label p c s tc d ri l) = label_path_id l"
  "label_endnode (update_bd_label p c s tc d ri l) = label_endnode l"
  by (simp_all add: update_bd_label_def label_edgeid_def label_path_id_def label_endnode_def)

text \<open>The identifier of an edge survives the 46 bits of a label, but for its spare bits.\<close>

lemma label_edgeid_new_bd [simp]:
  "label_edgeid (new_bd_label p g og e c md tc d nt cp ms t ri pid dst hgv m) = GraphId (take_bit 46 (gid_value g))"
  by (simp add: label_edgeid_def ucast_ucast_take_bit)

text \<open>
  A turn restriction onto the eighth edge of a node is lost. The mask of a directed edge has
  eight bits, one per local edge, and the setter keeps them all; the mask of a label has seven.
\<close>

lemma label_drops_restriction:
  "bit (lab_restrictions (new_label p g e c s md d ri cp ms t pid dst hgv m)) i
     \<longleftrightarrow> i < 7 \<and> bit (de_restrictions e) i"
  "unat (de_restrictions (de_set_restrictions 0x80 e')) = 0x80"
  "lab_restrictions (new_label p g (de_set_restrictions 0x80 e') c s md d ri cp ms t pid dst hgv m) = 0"
  by (simp_all add: new_label_def bit_ucast_iff de_set_restrictions_def kMaxTurnRestrictionEdges_def)

end
