(* ===== verification/Restrictions.thy ===== *)
theory Restrictions
  imports Graph_Tile Pedestrian_Cost Edge_Label Edge_Status
begin

text \<open>
  The restrictions of \<^verbatim>\<open>DynamicCost\<close> (\<^verbatim>\<open>valhalla/sif/dynamiccost.h\<close>): complex turn restrictions
  against the path that leads to an edge (\<open>Restricted\<close>), access restrictions by time and mode
  (\<open>EvaluateRestrictions\<close>), their exemptions for destinations, closures, avoided edges and internal
  turns, and with them the whole \<open>Allowed\<close> and \<open>AllowedReverse\<close> of \<^verbatim>\<open>src/sif/pedestriancost.cc\<close>.

  Whether a time window is active, \<^verbatim>\<open>DateTime::is_conditional_active\<close>, rests on the calendar and the
  time zone database of the date library: it is the parameter \<open>active\<close>. The labels of the search
  are the argument \<open>ls\<close>; reading past them is undefined.

  The lemmas give both checks a declarative form: which restrictions apply to a path, and that
  only the first one that applies counts where no time is given.
\<close>

section \<open>Time windows\<close>

text \<open>The window, the time in seconds and the index of the time zone.\<close>

type_synonym conditional_active = "time_domain \<Rightarrow> u64 \<Rightarrow> u32 \<Rightarrow> bool"

definition IsConditionalActive :: "conditional_active \<Rightarrow> u64 \<Rightarrow> u64 \<Rightarrow> u32 \<Rightarrow> bool" where
  "IsConditionalActive active restriction time tz = active ((td_of_value restriction)\<lparr>td_spare := 0\<rparr>) time tz"

definition window_of :: "complex_restriction \<Rightarrow> time_domain" where
  "window_of r = \<lparr>td_type = cr_dt_type r, td_dow = cr_dow r, td_begin_hrs = cr_begin_hrs r,
     td_begin_mins = cr_begin_mins r, td_begin_month = cr_begin_month r, td_begin_day_dow = cr_begin_day_dow r,
     td_begin_week = cr_begin_week r, td_end_hrs = cr_end_hrs r, td_end_mins = cr_end_mins r,
     td_end_month = cr_end_month r, td_end_day_dow = cr_end_day_dow r, td_end_week = cr_end_week r, td_spare = 0\<rparr>"

section \<open>Complex restrictions\<close>

definition label_at :: "'a list \<Rightarrow> u32 \<Rightarrow> 'a result" where
  "label_at ls i = (if unat i < length ls then Inr (ls ! unat i) else Inl Undefined)"

definition next_predecessor :: "'a sif_label_scheme list \<Rightarrow> 'a sif_label_scheme \<Rightarrow> 'a sif_label_scheme result" where
  "next_predecessor ls l = (if lab_predecessor l = kInvalidLabel then Inr l else label_at ls (lab_predecessor l))"

text \<open>
  Walking the vias, which lie behind the restriction in memory: whether they all match the path,
  the label reached, and the edges collected on the way.
\<close>

fun walk_vias :: "'a sif_label_scheme list \<Rightarrow> nat \<Rightarrow> u8 list \<Rightarrow> 'a sif_label_scheme \<Rightarrow> graph_id list
    \<Rightarrow> (bool \<times> 'a sif_label_scheme \<times> graph_id list) result" where
  "walk_vias ls 0 mem p ids = Inr (True, p, ids)"
| "walk_vias ls (Suc k) mem p ids =
     bind_result (take_bytes 8 mem) (\<lambda>(via, rest).
       if gid_value (read_graph_id via) \<noteq> gid_value (label_edgeid p) then Inr (False, p, ids)
       else bind_result (next_predecessor ls p) (\<lambda>p'. walk_vias ls k rest p' (ids @ [label_edgeid p])))"

definition reset_edge_status :: "graph_id list \<Rightarrow> edge_status option \<Rightarrow> edge_status option result" where
  "reset_edge_status ids st =
     (case st of
        None \<Rightarrow> Inr None
      | Some s \<Rightarrow> bind_result (fold_result (\<lambda>g s. es_Update g Unreached_or_reset 0 s) (butlast ids) s) (\<lambda>s'. Inr (Some s')))"

definition is_probable :: "complex_restriction \<Rightarrow> bool" where
  "is_probable r \<longleftrightarrow> cr_type r = kNoProbable \<or> cr_type r = kOnlyProbable"

definition ignored_probability :: "dynamic_cost \<Rightarrow> complex_restriction \<Rightarrow> bool" where
  "ignored_probability d r \<longleftrightarrow> is_probable r
     \<and> (restriction_probability d = 0 \<or> ucast (cr_probability r) < restriction_probability d)"

fun restricted_by :: "dynamic_cost \<Rightarrow> conditional_active \<Rightarrow> 'a sif_label_scheme list \<Rightarrow> bool \<Rightarrow> u64 \<Rightarrow> u32
    \<Rightarrow> 'a sif_label_scheme \<Rightarrow> (complex_restriction \<times> u8 list) list \<Rightarrow> edge_status option
    \<Rightarrow> (bool \<times> edge_status option) result" where
  "restricted_by d active ls forward time tz pred [] st = Inr (False, st)"
| "restricted_by d active ls forward time tz pred ((r, mem) # rs) st =
     (if ignored_probability d r then restricted_by d active ls forward time tz pred rs st
      else bind_result (walk_vias ls (unat (cr_via_count r)) mem pred []) (\<lambda>(matched, p, ids).
        let all_ids = ids @ [label_edgeid p]
        in if matched \<and> label_edgeid p = (if forward then from_graphid r else to_graphid r)
           then if time \<noteq> 0 \<and> cr_has_dt r
             then if active (window_of r) time tz
               then bind_result (reset_edge_status all_ids st) (\<lambda>st'. Inr (True, st'))
               else restricted_by d active ls forward time tz pred rs st
             else if time = 0 \<and> cr_has_dt r then Inr (False, st)
             else bind_result (reset_edge_status all_ids st) (\<lambda>st'. Inr (True, st'))
           else restricted_by d active ls forward time tz pred rs st))"

definition Restricted :: "dynamic_cost \<Rightarrow> conditional_active \<Rightarrow> directed_edge \<Rightarrow> 'a sif_label_scheme
    \<Rightarrow> 'a sif_label_scheme list \<Rightarrow> routing_tile \<Rightarrow> graph_id \<Rightarrow> bool \<Rightarrow> edge_status option \<Rightarrow> u64 \<Rightarrow> u32
    \<Rightarrow> (bool \<times> edge_status option) result" where
  "Restricted d active e pred ls tile edgeid forward st time tz =
     (if ignore_turn_restrictions d then Inr (False, st)
      else if (if forward then de_end_restriction e else de_start_restriction e) AND access_mask d \<noteq> 0
      then bind_result (GetRestrictions tile forward edgeid (access_mask d)) (\<lambda>rs.
        restricted_by d active ls forward time tz pred rs st)
      else Inr (False, st))"

section \<open>Access restrictions\<close>

definition kTimedAllowed :: "6 word" where "kTimedAllowed = 6"
definition kTimedDenied :: "6 word" where "kTimedDenied = 7"
definition kDestinationAllowed :: "6 word" where "kDestinationAllowed = 8"

definition kAccessRestrictionMasks :: "u8 list" where
  "kAccessRestrictionMasks = [1, 2, 4, 8, 16, 32, 0, 0, 0, 64] @ replicate 22 0"

definition GetExemptedAccessRestrictions :: "dynamic_cost \<Rightarrow> directed_edge \<Rightarrow> routing_tile \<Rightarrow> graph_id \<Rightarrow> u8 result" where
  "GetExemptedAccessRestrictions d e tile edgeid =
     (if ignore_restrictions d \<or> de_access_restriction e AND access_mask d = 0 \<or> allow_destination_only d then Inr 0
      else fold_result (\<lambda>r exempt.
          if ar_except_destination r
          then bind_result (array_at kAccessRestrictionMasks (unat (ar_type r))) (\<lambda>m. Inr (exempt OR m))
          else Inr exempt)
        (GetAccessRestrictions tile (gid_id edgeid) (access_mask d)) 0)"

definition is_timed :: "access_restriction \<Rightarrow> bool" where
  "is_timed r \<longleftrightarrow> ar_type r = kTimedAllowed \<or> ar_type r = kTimedDenied \<or> ar_type r = kDestinationAllowed"

text \<open>The exemption for local traffic, and what a restriction adds to the mask.\<close>

definition type_mask :: "access_restriction \<Rightarrow> u8" where
  "type_mask r = (if ar_except_destination r \<and> unat (ar_type r) < length kAccessRestrictionMasks
     then kAccessRestrictionMasks ! unat (ar_type r) else 0)"

definition exempted :: "dynamic_cost \<Rightarrow> u8 \<Rightarrow> access_restriction \<Rightarrow> bool" where
  "exempted d exempt r \<longleftrightarrow> ar_except_destination r \<and> unat (ar_type r) < length kAccessRestrictionMasks
     \<and> (exempt AND type_mask r \<noteq> 0 \<or> allow_destination_only d)"

text \<open>
  The loop from the restriction \<open>i\<close> on. The result is the answer, \<^verbatim>\<open>restriction_idx\<close> and
  \<^verbatim>\<open>destonly_access_restr_mask\<close>, which are references in the code.
\<close>

fun evaluate_loop :: "dynamic_cost \<Rightarrow> (access_restriction \<Rightarrow> bool) \<Rightarrow> conditional_active \<Rightarrow> bool \<Rightarrow> u64 \<Rightarrow> u32 \<Rightarrow> nat
    \<Rightarrow> access_restriction list \<Rightarrow> bool \<Rightarrow> u8 \<Rightarrow> u8 \<Rightarrow> u8 \<Rightarrow> bool \<times> u8 \<times> u8" where
  "evaluate_loop d mode_allowed active is_dest time tz i [] time_allowed tmp idx exempt =
     (\<not> time_allowed \<or> time = 0, idx, tmp)"
| "evaluate_loop d mode_allowed active is_dest time tz i (r # rs) time_allowed tmp idx exempt =
     (let timed = (\<not> ignore_non_vehicular_restrictions d \<and> is_timed r);
          idx' = (if timed then word_of_nat i else idx);
          time_allowed' = (time_allowed \<or> timed \<and> ar_type r = kTimedAllowed);
          tmp' = tmp OR type_mask r
      in if timed \<and> time = 0
         then evaluate_loop d mode_allowed active is_dest time tz (Suc i) rs time_allowed' tmp idx' exempt
         else if timed \<and> IsConditionalActive active (ar_value r) time tz
         then if ar_type r = kTimedAllowed then (True, idx', tmp)
              else if ar_type r = kDestinationAllowed then (allow_conditional_destination d \<or> is_dest, idx', exempt)
              else (False, idx', exempt)
         else if exempted d exempt r
         then evaluate_loop d mode_allowed active is_dest time tz (Suc i) rs time_allowed' tmp' idx' exempt
         else if mode_allowed r
         then evaluate_loop d mode_allowed active is_dest time tz (Suc i) rs time_allowed' tmp' idx' exempt
         else (False, idx', exempt))"

definition EvaluateRestrictions :: "dynamic_cost \<Rightarrow> (access_restriction \<Rightarrow> bool) \<Rightarrow> conditional_active \<Rightarrow> 12 word
    \<Rightarrow> directed_edge \<Rightarrow> bool \<Rightarrow> routing_tile \<Rightarrow> graph_id \<Rightarrow> u64 \<Rightarrow> u32 \<Rightarrow> u8 \<Rightarrow> u8 \<Rightarrow> bool \<times> u8 \<times> u8" where
  "EvaluateRestrictions d mode_allowed active access_mode e is_dest tile edgeid time tz idx exempt =
     (if ignore_restrictions d \<or> de_access_restriction e AND access_mode = 0 then (True, idx, exempt)
      else evaluate_loop d mode_allowed active is_dest time tz 0
        (GetAccessRestrictions tile (gid_id edgeid) access_mode) False 0 idx exempt)"

section \<open>Closures, avoided edges, internal turns\<close>

definition kCurrentFlowMask :: u8 where "kCurrentFlowMask = 8"

text \<open>\<open>closed_now\<close> is the live traffic of the tile.\<close>

definition IsClosed :: "dynamic_cost \<Rightarrow> (directed_edge \<Rightarrow> bool) \<Rightarrow> directed_edge \<Rightarrow> bool" where
  "IsClosed d closed_now e \<longleftrightarrow> \<not> ignore_closures d \<and> dc_flow_mask d AND kCurrentFlowMask \<noteq> 0 \<and> closed_now e"

definition AvoidAsOriginEdge :: "dynamic_cost \<Rightarrow> graph_id \<Rightarrow> rat \<Rightarrow> bool" where
  "AvoidAsOriginEdge d g percent_along \<longleftrightarrow>
     (case map_of (user_exclude_edges d) (gid_value g) of None \<Rightarrow> False | Some p \<Rightarrow> percent_along \<le> p)"

definition AvoidAsDestinationEdge :: "dynamic_cost \<Rightarrow> graph_id \<Rightarrow> rat \<Rightarrow> bool" where
  "AvoidAsDestinationEdge d g percent_along \<longleftrightarrow>
     (case map_of (user_exclude_edges d) (gid_value g) of None \<Rightarrow> False | Some p \<Rightarrow> p \<le> percent_along)"

definition kShortInternalLength :: rat where "kShortInternalLength = 8"
definition kRightTurn :: u32 where "kRightTurn = 2"
definition kSharpRightTurn :: u32 where "kSharpRightTurn = 3"
definition kSharpLeftTurn :: u32 where "kSharpLeftTurn = 5"
definition kLeftTurn :: u32 where "kLeftTurn = 6"

definition TurnType :: "dynamic_cost \<Rightarrow> nat \<Rightarrow> nodeinfo \<Rightarrow> directed_edge \<Rightarrow> directed_edge option \<Rightarrow> internal_turn" where
  "TurnType d idx node e opp_pred_edge =
     (if \<not> penalize_uturns d \<or> \<not> de_internal e then No_turn
      else let t = turntype (case opp_pred_edge of None \<Rightarrow> e | Some o' \<Rightarrow> o') idx;
               short = f32 (of_nat (unat (de_length e))) \<le> kShortInternalLength
           in if ni_drive_on_right node
              then if short \<and> (t = kSharpLeftTurn \<or> t = kLeftTurn) then Left_turn else No_turn
              else if short \<and> (t = kSharpRightTurn \<or> t = kRightTurn) then Right_turn else No_turn)"

section \<open>Pedestrian access\<close>

definition pedestrian_allowed :: "pedestrian_cost \<Rightarrow> conditional_active \<Rightarrow> directed_edge \<Rightarrow> bool \<Rightarrow> 'a sif_label_scheme
    \<Rightarrow> routing_tile \<Rightarrow> graph_id \<Rightarrow> u64 \<Rightarrow> u32 \<Rightarrow> u8 \<Rightarrow> u8 \<Rightarrow> bool \<times> u8 \<times> u8" where
  "pedestrian_allowed p active e is_dest pred tile edgeid time tz idx exempt =
     (if Allowed_checks p e (pred_view pred) (gid_value edgeid)
      then EvaluateRestrictions (dyn p) (\<lambda>_. True) active (access_mask (dyn p)) e is_dest tile edgeid time tz idx exempt
      else (False, idx, exempt))"

definition pedestrian_allowed_reverse :: "pedestrian_cost \<Rightarrow> conditional_active \<Rightarrow> directed_edge \<Rightarrow> 'a sif_label_scheme
    \<Rightarrow> directed_edge \<Rightarrow> routing_tile \<Rightarrow> graph_id \<Rightarrow> u64 \<Rightarrow> u32 \<Rightarrow> u8 \<Rightarrow> u8 \<Rightarrow> bool \<times> u8 \<times> u8" where
  "pedestrian_allowed_reverse p active e pred opp tile opp_edgeid time tz idx exempt =
     (if AllowedReverse_checks p e (pred_view pred) opp (gid_value opp_edgeid)
      then EvaluateRestrictions (dyn p) (\<lambda>_. True) active (access_mask (dyn p)) opp False tile opp_edgeid time tz idx exempt
      else (False, idx, exempt))"

section \<open>Which restrictions apply to a path\<close>

text \<open>
  The declarative side: the label reached by following the predecessors along the vias, and
  the restrictions that apply to the path behind a label.
\<close>

definition pred_of :: "'a sif_label_scheme list \<Rightarrow> 'a sif_label_scheme \<Rightarrow> 'a sif_label_scheme" where
  "pred_of ls l = (if lab_predecessor l = kInvalidLabel then l else ls ! unat (lab_predecessor l))"

fun path_end :: "'a sif_label_scheme list \<Rightarrow> 'a sif_label_scheme \<Rightarrow> graph_id list \<Rightarrow> 'a sif_label_scheme option" where
  "path_end ls p [] = Some p"
| "path_end ls p (v # vs) = (if gid_value v = gid_value (label_edgeid p) then path_end ls (pred_of ls p) vs else None)"

definition applies_to :: "'a sif_label_scheme list \<Rightarrow> bool \<Rightarrow> 'a sif_label_scheme \<Rightarrow> restriction_builder \<Rightarrow> bool" where
  "applies_to ls forward p b \<longleftrightarrow>
     (case path_end ls p (rb_vias b) of None \<Rightarrow> False
      | Some q \<Rightarrow> label_edgeid q = (if forward then from_graphid (rb_fixed b) else to_graphid (rb_fixed b)))"

definition applying :: "dynamic_cost \<Rightarrow> 'a sif_label_scheme list \<Rightarrow> bool \<Rightarrow> graph_id \<Rightarrow> 'a sif_label_scheme
    \<Rightarrow> restriction_builder list \<Rightarrow> restriction_builder list" where
  "applying d ls forward g p bs =
     [b \<leftarrow> bs. (if forward then to_graphid (rb_fixed b) else from_graphid (rb_fixed b)) = g
        \<and> cr_modes (rb_fixed b) AND access_mask d \<noteq> 0 \<and> \<not> ignored_probability d (rb_fixed b) \<and> applies_to ls forward p b]"

text \<open>Without a time the first one decides, and only if it has no time window.\<close>

definition verdict :: "conditional_active \<Rightarrow> u64 \<Rightarrow> u32 \<Rightarrow> restriction_builder list \<Rightarrow> bool" where
  "verdict active time tz bs =
     (if time = 0 then bs \<noteq> [] \<and> \<not> cr_has_dt (rb_fixed (hd bs))
      else list_ex (\<lambda>b. \<not> cr_has_dt (rb_fixed b) \<or> active (window_of (rb_fixed b)) time tz) bs)"

definition chained :: "'a sif_label_scheme list \<Rightarrow> 'a sif_label_scheme \<Rightarrow> bool" where
  "chained ls l \<longleftrightarrow> lab_predecessor l = kInvalidLabel \<or> unat (lab_predecessor l) < length ls"

lemma chained_pred_of: "chained ls p \<Longrightarrow> list_all (chained ls) ls \<Longrightarrow> chained ls (pred_of ls p)"
  by (auto simp: chained_def pred_of_def list_all_iff)

lemma next_predecessor_chained: "chained ls p \<Longrightarrow> next_predecessor ls p = Inr (pred_of ls p)"
  by (auto simp: chained_def next_predecessor_def label_at_def pred_of_def)

lemma walk_vias_written:
  assumes "chained ls p" and "list_all (chained ls) ls"
  shows "\<exists>q ids'. walk_vias ls (length vias) (concat (map write_graph_id vias) @ rest) p ids
      = Inr (path_end ls p vias \<noteq> None, q, ids') \<and> (path_end ls p vias \<noteq> None \<longrightarrow> path_end ls p vias = Some q)"
  using assms(1)
proof (induction vias arbitrary: p ids)
  case (Cons v vs)
  show ?case
  proof (cases "gid_value v = gid_value (label_edgeid p)")
    case True
    then show ?thesis
      using Cons.IH [OF chained_pred_of [OF Cons.prems assms(2)]] Cons.prems
      by (simp add: next_predecessor_chained)
  qed simp
qed simp

text \<open>One restriction as the loop sees it.\<close>

lemma restricted_by_step:
  assumes "chained ls p" and "list_all (chained ls) ls" and "vias_ok b"
    and mem: "mem = concat (map write_graph_id (rb_vias b)) @ rest"
  shows "restricted_by d active ls forward time tz p ((rb_fixed b, mem) # rs) None =
    (if \<not> ignored_probability d (rb_fixed b) \<and> applies_to ls forward p b
     then if cr_has_dt (rb_fixed b)
       then if time = 0 then Inr (False, None)
         else if active (window_of (rb_fixed b)) time tz then Inr (True, None)
         else restricted_by d active ls forward time tz p rs None
       else Inr (True, None)
     else restricted_by d active ls forward time tz p rs None)"
proof -
  have count: "unat (cr_via_count (rb_fixed b)) = length (rb_vias b)" using assms(3) by (simp add: vias_ok_def)
  obtain q ids where "walk_vias ls (length (rb_vias b)) mem p [] = Inr (path_end ls p (rb_vias b) \<noteq> None, q, ids)"
    "path_end ls p (rb_vias b) \<noteq> None \<longrightarrow> path_end ls p (rb_vias b) = Some q"
    unfolding mem using walk_vias_written [OF assms(1,2)] by blast
  then show ?thesis
    by (cases "path_end ls p (rb_vias b)") (auto simp: count applies_to_def reset_edge_status_def Let_def)
qed

declare restricted_by.simps(2) [simp del]

lemma memory_behind: "vias_ok b \<Longrightarrow>
    drop 24 (restriction_memory (b # bs)) = concat (map write_graph_id (rb_vias b)) @ restriction_memory bs"
  by (simp add: restriction_memory_def write_restriction_def vias_ok_def)

lemma restricted_by_found:
  assumes "chained ls p" and "list_all (chained ls) ls" and "list_all vias_ok bs"
  shows "restricted_by d active ls forward time tz p [(r, m) \<leftarrow> found_restrictions bs. P r] None
    = Inr (verdict active time tz [b \<leftarrow> bs. P (rb_fixed b) \<and> \<not> ignored_probability d (rb_fixed b) \<and> applies_to ls forward p b], None)"
  using assms(3)
proof (induction bs)
  case (Cons b bs)
  have ok: "vias_ok b" using Cons.prems by simp
  show ?case
    using Cons by (cases "time = 0") (simp_all add: restricted_by_step [OF assms(1,2) ok memory_behind [OF ok]] verdict_def)
qed (simp add: verdict_def)

lemma Restricted_verdict:
  assumes "chained ls p" and "list_all (chained ls) ls" and "list_all vias_ok bs"
    and mem: "(if forward then rt_forward_restrictions t else rt_reverse_restrictions t) = concat (map write_restriction bs)"
  shows "Restricted d active e p ls t g forward None time tz
    = Inr (\<not> ignore_turn_restrictions d
        \<and> (if forward then de_end_restriction e else de_start_restriction e) AND access_mask d \<noteq> 0
        \<and> verdict active time tz (applying d ls forward g p bs), None)"
proof -
  have "GetRestrictions t forward g (access_mask d) = Inr [(r, m) \<leftarrow> found_restrictions bs.
      (if forward then to_graphid r else from_graphid r) = g \<and> cr_modes r AND access_mask d \<noteq> 0]"
    using restrictions_in_memory [of bs] assms(3) unfolding GetRestrictions_def mem
    by (simp add: restriction_memory_def list_all_iff)
  then show ?thesis
    unfolding Restricted_def applying_def
    using restricted_by_found [OF assms(1-3), where P = "\<lambda>r. (if forward then to_graphid r else from_graphid r) = g
      \<and> cr_modes r AND access_mask d \<noteq> 0"] by (simp add: conj_assoc)
qed

text \<open>
  C13: Complex restrictions, in both directions of the search. On the memory that the builders wrote
  and labels whose predecessors exist, the check returns without reading outside memory or
  labels. Its answer is that of the restrictions that end (start) at the edge, are for the mode, are
  not ruled out by their probability, and whose edges are those of the path behind the label:
  with a time, that one of them is unconditional or active; without a time, that the
  first of them is unconditional.
\<close>

theorem Restricted_exact:
  assumes "chained ls p" and "list_all (chained ls) ls" and "list_all vias_ok bs"
    and mem: "(if forward then rt_forward_restrictions t else rt_reverse_restrictions t) = concat (map write_restriction bs)"
  shows "Restricted d active e p ls t g forward None time tz
    = Inr (\<not> ignore_turn_restrictions d
        \<and> (if forward then de_end_restriction e else de_start_restriction e) AND access_mask d \<noteq> 0
        \<and> verdict active time tz (applying d ls forward g p bs), None)"
  by (rule Restricted_verdict [OF assms])

text \<open>
  C15: Two complex restrictions apply to the same turn, one with a time window and an
  unconditional one. On a route without a time the turn is refused or let through depending on
  which of them the tile stores first: the timed one ends the check with "not restricted".
\<close>

theorem timed_hides_unconditional:
  assumes "chained ls p" and "list_all (chained ls) ls" and "vias_ok a" and "vias_ok b"
    and "\<not> ignore_turn_restrictions d" and "de_end_restriction e AND access_mask d \<noteq> 0"
    and "applying d ls True g p [a, b] = [a, b]"
    and "cr_has_dt (rb_fixed a)" and "\<not> cr_has_dt (rb_fixed b)"
  shows "Restricted d active e p ls (t\<lparr>rt_forward_restrictions := write_restriction a @ write_restriction b\<rparr>) g True None 0 tz
      = Inr (False, None)
    \<and> Restricted d active e p ls (t\<lparr>rt_forward_restrictions := write_restriction b @ write_restriction a\<rparr>) g True None 0 tz
      = Inr (True, None)"
proof -
  have ba: "applying d ls True g p [b, a] = [b, a]"
    using assms(7) by (auto simp: applying_def split: if_splits)
  show ?thesis
    using Restricted_verdict [OF assms(1,2), where bs = "[a, b]" and forward = True]
      Restricted_verdict [OF assms(1,2), where bs = "[b, a]" and forward = True] assms ba
    by (simp add: verdict_def)
qed

section \<open>Access by time\<close>

definition timed_rule :: "dynamic_cost \<Rightarrow> access_restriction \<Rightarrow> bool" where
  "timed_rule d r \<longleftrightarrow> \<not> ignore_non_vehicular_restrictions d \<and> is_timed r"

text \<open>The first active rule decides; without one, the edge is closed outside its allowed times.\<close>

definition time_verdict :: "dynamic_cost \<Rightarrow> conditional_active \<Rightarrow> bool \<Rightarrow> u64 \<Rightarrow> u32 \<Rightarrow> access_restriction list \<Rightarrow> bool" where
  "time_verdict d active is_dest time tz rs =
     (case [r \<leftarrow> rs. timed_rule d r \<and> IsConditionalActive active (ar_value r) time tz] of
        [] \<Rightarrow> \<not> list_ex (\<lambda>r. timed_rule d r \<and> ar_type r = kTimedAllowed) rs
      | r # _ \<Rightarrow> ar_type r = kTimedAllowed
          \<or> ar_type r = kDestinationAllowed \<and> (allow_conditional_destination d \<or> is_dest))"

lemma evaluate_loop_times:
  "fst (evaluate_loop d (\<lambda>_. True) active is_dest time tz i rs allowed tmp idx exempt) =
     (time = 0 \<or> (case [r \<leftarrow> rs. timed_rule d r \<and> IsConditionalActive active (ar_value r) time tz] of
        [] \<Rightarrow> \<not> allowed \<and> \<not> list_ex (\<lambda>r. timed_rule d r \<and> ar_type r = kTimedAllowed) rs
      | r # _ \<Rightarrow> ar_type r = kTimedAllowed
          \<or> ar_type r = kDestinationAllowed \<and> (allow_conditional_destination d \<or> is_dest)))"
proof (induction rs arbitrary: i allowed tmp idx exempt)
  case (Cons r rs)
  then show ?case
    by (cases "timed_rule d r"; cases "time = 0"; cases "IsConditionalActive active (ar_value r) time tz")
      (auto simp: Let_def timed_rule_def [symmetric] kTimedAllowed_def kDestinationAllowed_def split: list.splits)
qed auto

lemma evaluate_loop_untimed:
  "fst (evaluate_loop d mode_allowed active is_dest 0 tz i rs allowed tmp idx exempt)
    = list_all (\<lambda>r. timed_rule d r \<or> exempted d exempt r \<or> mode_allowed r) rs"
  by (induction rs arbitrary: i allowed tmp idx) (auto simp: Let_def timed_rule_def)

text \<open>
  C14: Access restrictions on foot. An edge that passes the other checks is refused exactly when
  a time is given and the first of its time rules that is active denies it, or none is active
  and there are times at which it is allowed. Every other kind of restriction is ignored.
\<close>

theorem pedestrian_allowed_times:
  "fst (pedestrian_allowed c active e is_dest p t g time tz idx exempt) \<longleftrightarrow>
     Allowed_checks c e (pred_view p) (gid_value g)
     \<and> (ignore_restrictions (dyn c) \<or> de_access_restriction e AND access_mask (dyn c) = 0 \<or> time = 0
        \<or> time_verdict (dyn c) active is_dest time tz (GetAccessRestrictions t (gid_id g) (access_mask (dyn c))))"
  unfolding pedestrian_allowed_def EvaluateRestrictions_def time_verdict_def
  by (simp add: evaluate_loop_times cong: list.case_cong)

text \<open>
  Access restrictions without a time, for every mode: the edge is let through exactly if
  each restriction is a time rule, exempt for local traffic, or allowed by the mode's own check.
\<close>

theorem EvaluateRestrictions_untimed:
  "fst (EvaluateRestrictions d mode_allowed active modes e is_dest t g 0 tz idx exempt) \<longleftrightarrow>
     ignore_restrictions d \<or> de_access_restriction e AND modes = 0
     \<or> list_all (\<lambda>r. timed_rule d r \<or> exempted d exempt r \<or> mode_allowed r) (GetAccessRestrictions t (gid_id g) modes)"
  by (simp add: EvaluateRestrictions_def evaluate_loop_untimed)

section \<open>Witnesses\<close>

text \<open>The path over the edges 5 and 6, and the restrictions of \<open>Graph_Tile\<close> from 5 over 6 to 7.\<close>

definition demo_edge :: "12 word \<Rightarrow> directed_edge" where
  "demo_edge restr = (read_directed_edge (replicate 48 0))\<lparr>de_end_restriction := restr\<rparr>"

definition demo_label :: "u32 \<Rightarrow> graph_id \<Rightarrow> sif_label" where
  "demo_label i g = new_label i g (demo_edge 0) zero_cost 0 Pedestrian 0 kInvalidRestriction True False No_turn 0 False False 0"

definition timed_turn :: restriction_builder where
  "timed_turn = forbid_turn\<lparr>rb_fixed := (rb_fixed forbid_turn)\<lparr>cr_has_dt := True\<rparr>\<rparr>"

definition demo_tile :: "restriction_builder list \<Rightarrow> routing_tile" where
  "demo_tile bs = \<lparr>rt_nodes = [], rt_edges = [], rt_transitions = [], rt_access_restrictions = [],
     rt_forward_restrictions = concat (map write_restriction bs), rt_reverse_restrictions = []\<rparr>"

abbreviation demo_dynamic :: dynamic_cost where
  "demo_dynamic \<equiv> new_dynamic_cost no_options 1 False False"

lemma demo_label_facts:
  "label_edgeid (demo_label i g) = GraphId (take_bit 46 (gid_value g))" "lab_predecessor (demo_label i g) = i"
  by (simp_all add: demo_label_def new_label_def label_edgeid_def ucast_ucast_take_bit)

lemma demo_turns_ok: "vias_ok forbid_turn" "vias_ok timed_turn"
  by (simp_all add: vias_ok_def forbid_turn_def timed_turn_def no_turn_def kMaxViasPerRestriction_def)

lemma demo_dynamic_facts: "\<not> ignore_turn_restrictions demo_dynamic" "access_mask demo_dynamic = 1"
  by (simp_all only: new_dynamic_cost_def dynamic_cost.select_convs no_options_def costing_options.select_convs
      simp_thms)

lemma demo_edge_facts: "de_end_restriction (demo_edge r) = r"
  unfolding demo_edge_def by (simp del: replicate.simps)

lemmas demo_facts = demo_label_facts demo_turns_ok demo_dynamic_facts(1) demo_edge_facts demo_dynamic_facts(2)

lemma demo_applying:
  "applying demo_dynamic [demo_label kInvalidLabel (GraphId 5)] True (GraphId 7) (demo_label 0 (GraphId 6)) [timed_turn, forbid_turn]
    = [timed_turn, forbid_turn]"
  by (simp add: applying_def applies_to_def demo_facts pred_of_def kInvalidLabel_def ignored_probability_def is_probable_def
      kNoProbable_def kOnlyProbable_def timed_turn_def forbid_turn_def no_turn_def to_graphid_def from_graphid_def)

theorem timed_hides_unconditional_witness:
  "Restricted demo_dynamic (\<lambda>_ _ _. True) (demo_edge 1) (demo_label 0 (GraphId 6)) [demo_label kInvalidLabel (GraphId 5)]
      ((demo_tile [])\<lparr>rt_forward_restrictions := write_restriction timed_turn @ write_restriction forbid_turn\<rparr>)
      (GraphId 7) True None 0 0 = Inr (False, None)"
proof -
  have "chained [demo_label kInvalidLabel (GraphId 5)] (demo_label 0 (GraphId 6))"
    "list_all (chained [demo_label kInvalidLabel (GraphId 5)]) [demo_label kInvalidLabel (GraphId 5)]"
    by (simp_all add: chained_def demo_facts)
  from timed_hides_unconditional [OF this demo_facts(4,3,5) _ demo_applying, of "demo_edge 1" "\<lambda>_ _ _. True" "demo_tile []" 0]
  show ?thesis by (simp add: demo_facts timed_turn_def forbid_turn_def no_turn_def)
qed

theorem Restricted_exact_witness:
  "Restricted demo_dynamic (\<lambda>_ _ _. True) (demo_edge 1) (demo_label 0 (GraphId 6)) [demo_label kInvalidLabel (GraphId 5)]
      (demo_tile [timed_turn, forbid_turn]) (GraphId 7) True None 3600 0 = Inr (True, None)"
proof -
  have "chained [demo_label kInvalidLabel (GraphId 5)] (demo_label 0 (GraphId 6))"
    "list_all (chained [demo_label kInvalidLabel (GraphId 5)]) [demo_label kInvalidLabel (GraphId 5)]"
    "list_all vias_ok [timed_turn, forbid_turn]"
    by (simp_all add: chained_def demo_facts)
  from Restricted_exact [OF this, of True "demo_tile [timed_turn, forbid_turn]" demo_dynamic "\<lambda>_ _ _. True" "demo_edge 1"
      "GraphId 7" 3600 0]
  show ?thesis by (simp add: demo_facts demo_applying verdict_def demo_tile_def)
qed

end
