(* ===== verification/Expansion.thy ===== *)
theory Expansion
  imports Restrictions Time_Info
begin

text \<open>
  The expansion of \<^verbatim>\<open>Dijkstras\<close> (\<^verbatim>\<open>src/thor/dijkstras.cc\<close>, \<^verbatim>\<open>valhalla/thor/dijkstras.h\<close>), the search
  behind isochrones and reachability, in both directions: origins and destinations, the loop of
  \<^verbatim>\<open>Compute\<close>, the expansion of a node with its hierarchy transitions. The members that the loop
  changes are the record \<open>dijkstras\<close>; what stays fixed during a run (direction, graph, costing,
  travel mode, clock, the decisions of the derived class) is the record \<open>search\<close>.

  A costing model is a record of its virtual methods; those that \<^verbatim>\<open>DynamicCost\<close> implements itself
  are the ones of \<open>Base_Cost\<close> and \<open>Restrictions\<close>. \<^verbatim>\<open>ShouldExpand\<close> and \<^verbatim>\<open>GetExpansionHints\<close> belong to
  the derived class and are parameters; those of \<^verbatim>\<open>Isochrone\<close> are in the last section. The calls of
  \<^verbatim>\<open>ExpandingNode\<close> only inform the derived class: they are recorded in \<open>dj_events\<close>. The multimodal
  search and the tracking callback are not modelled.
\<close>

section \<open>The interface of a costing model\<close>

text \<open>
  \<open>ct_EdgeCost\<close> also gives the byte \<^verbatim>\<open>flow_sources\<close>; a costing that does not write it leaves there what
  the stack held.
\<close>

record costing =
  ct_dyn :: dynamic_cost
  ct_active :: conditional_active
  ct_closed :: "directed_edge \<Rightarrow> bool"
  ct_AllowedNode :: "nodeinfo \<Rightarrow> bool"
  ct_Allowed :: "directed_edge \<Rightarrow> bool \<Rightarrow> bd_label \<Rightarrow> routing_tile \<Rightarrow> graph_id \<Rightarrow> u64 \<Rightarrow> u32 \<Rightarrow> u8 \<Rightarrow> u8 \<Rightarrow> bool \<times> u8 \<times> u8"
  ct_AllowedReverse :: "directed_edge \<Rightarrow> bd_label \<Rightarrow> directed_edge \<Rightarrow> routing_tile \<Rightarrow> graph_id \<Rightarrow> u64 \<Rightarrow> u32 \<Rightarrow> u8 \<Rightarrow> u8
    \<Rightarrow> bool \<times> u8 \<times> u8"
  ct_EdgeCost :: "directed_edge \<Rightarrow> routing_tile \<Rightarrow> time_info \<Rightarrow> (cost \<times> u8) result"
  ct_TransitionCost :: "directed_edge \<Rightarrow> nodeinfo \<Rightarrow> bd_label \<Rightarrow> routing_tile \<Rightarrow> cost result"
  ct_TransitionCostReverse :: "nat \<Rightarrow> nodeinfo \<Rightarrow> directed_edge \<Rightarrow> directed_edge \<Rightarrow> routing_tile \<Rightarrow> graph_id \<Rightarrow> bool
    \<Rightarrow> 2 word \<Rightarrow> cost result"

datatype recommendation = Continue_expansion | Stop_expansion | Prune_expansion

section \<open>The search\<close>

record dijkstras =
  dj_labels :: "bd_label list"
  dj_queue :: bucket_queue
  dj_status :: edge_status
  dj_events :: "(graph_id \<times> bd_label) list"

record search =
  se_forward :: bool
  se_reader :: tile_reader
  se_costing :: costing
  se_mode :: travel_mode
  se_tz_diff :: "u64 \<Rightarrow> nat \<Rightarrow> nat \<Rightarrow> int"
  se_should :: "bd_label list \<Rightarrow> bd_label \<Rightarrow> recommendation"
  se_times :: "time_info list"
  se_multipath :: bool

text \<open>
  The sort cost the queue reads through its pointer to the labels. It is only asked for labels in
  the queue, which are in the list.
\<close>

definition sort_cost :: "bd_label list \<Rightarrow> u32 \<Rightarrow> rat" where
  "sort_cost ls i = lab_sortcost (ls ! unat i)"

definition kTruckAccess :: "12 word" where "kTruckAccess = 8"

definition pred_mask :: "bd_label \<Rightarrow> u8" where
  "pred_mask l = ucast (lab_destonly_mask l)"

text \<open>\<^verbatim>\<open>*es = {set, index}\<close> through a pointer into the status of a tile.\<close>

definition es_store :: "u32 \<times> nat \<Rightarrow> edge_status_info \<Rightarrow> edge_status \<Rightarrow> edge_status result" where
  "es_store p info st = (case st (fst p) of None \<Rightarrow> Inl Undefined | Some arr \<Rightarrow> put_element (fst p) (snd p) info arr st)"

definition dj_clear :: "dijkstras \<Rightarrow> dijkstras" where
  "dj_clear s = s\<lparr>dj_labels := [], dj_queue := bq_clear (dj_queue s), dj_status := es_clear (dj_status s)\<rparr>"

definition dj_initialize :: "u32 \<Rightarrow> u32 \<Rightarrow> dijkstras \<Rightarrow> dijkstras result" where
  "dj_initialize bucket_count bucket_size s =
     bind_result (bq_reuse 0 (f32 (of_nat (unat (bucket_count * bucket_size)))) bucket_size (dj_queue s))
       (\<lambda>q. Inr (s\<lparr>dj_queue := q\<rparr>))"

section \<open>Expanding an edge\<close>

text \<open>
  The opposing edge, which only the reverse search needs: its identifier, the edge and its tile.
  \<open>None\<close> is the \<^verbatim>\<open>continue\<close> for a missing tile.
\<close>

definition opposing :: "search \<Rightarrow> routing_tile \<Rightarrow> graph_id \<Rightarrow> (graph_id \<times> (directed_edge \<times> routing_tile) option) option result" where
  "opposing se tile edgeid =
     (if se_forward se then Inr (Some (gid_default, None))
      else bind_result (GetOpposingEdgeId (se_reader se) edgeid (Some tile)) (\<lambda>(opp, t2).
        case t2 of None \<Rightarrow> Inr None
        | Some t \<Rightarrow> bind_result (tile_edge t opp) (\<lambda>oe. Inr (Some (opp, Some (oe, t))))))"

text \<open>The time and the zone passed on: none where the route has no time.\<close>

definition check_time :: "time_info \<Rightarrow> nodeinfo \<Rightarrow> u64 \<times> u32" where
  "check_time ot n = (if ti_valid ot then (ucast (local_time ot), timezone n) else (0, 0))"

definition edge_allowed :: "search \<Rightarrow> directed_edge \<Rightarrow> bd_label \<Rightarrow> routing_tile \<Rightarrow> graph_id
    \<Rightarrow> graph_id \<times> (directed_edge \<times> routing_tile) option \<Rightarrow> u64 \<times> u32 \<Rightarrow> bool \<times> u8 \<times> u8" where
  "edge_allowed se e pred tile edgeid opp tm =
     (case snd opp of
        None \<Rightarrow> ct_Allowed (se_costing se) e False pred tile edgeid (fst tm) (snd tm) kInvalidRestriction (pred_mask pred)
      | Some (oe, t2) \<Rightarrow>
          ct_AllowedReverse (se_costing se) e pred oe t2 (fst opp) (fst tm) (snd tm) kInvalidRestriction (pred_mask pred))"

text \<open>The transition cost, the cost of the edge and its flow sources.\<close>

definition edge_costs :: "search \<Rightarrow> directed_edge \<Rightarrow> nodeinfo \<Rightarrow> bd_label \<Rightarrow> routing_tile
    \<Rightarrow> (directed_edge \<times> routing_tile) option \<Rightarrow> directed_edge option \<Rightarrow> time_info \<Rightarrow> (cost \<times> cost \<times> u8) result" where
  "edge_costs se e n pred tile opp opp_pred ot =
     (let ct = se_costing se
      in case opp of
           None \<Rightarrow> bind_result (ct_TransitionCost ct e n pred tile) (\<lambda>tc.
             bind_result (ct_EdgeCost ct e tile ot) (\<lambda>(ec, flow). Inr (tc, ec, flow)))
         | Some (oe, t2) \<Rightarrow> (case opp_pred of
             None \<Rightarrow> Inl Undefined
           | Some op \<Rightarrow> bind_result (ct_TransitionCostReverse ct (unat (de_localedgeidx e)) n oe op t2 (label_edgeid pred)
               (lab_has_measured_speed pred) (lab_internal_turn pred)) (\<lambda>tc.
               bind_result (ct_EdgeCost ct oe t2 ot) (\<lambda>(ec, flow). Inr (tc, ec, flow)))))"

definition edge_label_for :: "search \<Rightarrow> bd_label \<Rightarrow> u32 \<Rightarrow> graph_id \<Rightarrow> directed_edge \<Rightarrow> nodeinfo
    \<Rightarrow> graph_id \<times> (directed_edge \<times> routing_tile) option \<Rightarrow> directed_edge option \<Rightarrow> cost \<Rightarrow> cost \<Rightarrow> u32 \<Rightarrow> u8 \<Rightarrow> u8 \<Rightarrow> u8 \<Rightarrow> bd_label" where
  "edge_label_for se pred pred_idx edgeid e n opp opp_pred newcost tc path_dist flow ridx dmask =
     (let ct = se_costing se; d = ct_dyn ct;
          here = (case snd opp of None \<Rightarrow> e | Some (oe, _) \<Rightarrow> oe);
          turn = (case snd opp of
              None \<Rightarrow> TurnType d (unat (lab_opp_local_idx pred)) n e None
            | Some (oe, _) \<Rightarrow> TurnType d (unat (de_localedgeidx e)) n oe opp_pred)
      in new_bd_label pred_idx edgeid (fst opp) e newcost (se_mode se) tc path_dist False
           (lab_closure_pruning pred \<or> \<not> IsClosed d (ct_closed ct) here) (flow AND ucast kDefaultFlowMask \<noteq> 0)
           turn ridx (label_path_id pred) (de_dest_only here \<or> is_hgv d \<and> de_dest_only_hgv here)
           (de_forwardaccess here AND kTruckAccess \<noteq> 0) dmask)"

text \<open>A new label, or a better path to a temporarily labelled edge.\<close>

definition add_label :: "bd_label \<Rightarrow> u32 \<times> nat \<Rightarrow> dijkstras \<Rightarrow> dijkstras result" where
  "add_label l p s =
     (let idx = word_of_nat (length (dj_labels s)); ls = dj_labels s @ [l]
      in bind_result (es_store p (make_info Temporary idx) (dj_status s)) (\<lambda>st.
         bind_result (bq_add (sort_cost ls) idx (dj_queue s)) (\<lambda>q.
           Inr (s\<lparr>dj_labels := ls, dj_queue := q, dj_status := st\<rparr>))))"

definition improve_label :: "u32 \<Rightarrow> u32 \<Rightarrow> cost \<Rightarrow> cost \<Rightarrow> u32 \<Rightarrow> u8 \<Rightarrow> dijkstras \<Rightarrow> dijkstras result" where
  "improve_label idx pred_idx newcost tc path_dist ridx s =
     bind_result (label_at (dj_labels s) idx) (\<lambda>lab.
       if cost newcost < cost (lab_cost lab)
       then let newsort = fsub (lab_sortcost lab) (fsub (cost (lab_cost lab)) (cost newcost))
            in bind_result (bq_decrease (sort_cost (dj_labels s)) idx newsort (dj_queue s)) (\<lambda>q.
              Inr (s\<lparr>dj_queue := q, dj_labels := (dj_labels s)[unat idx :=
                update_bd_label pred_idx newcost newsort tc path_dist ridx lab]\<rparr>))
       else Inr s)"

definition expand_edge :: "search \<Rightarrow> bd_label \<Rightarrow> u32 \<Rightarrow> directed_edge option \<Rightarrow> routing_tile \<Rightarrow> nodeinfo \<Rightarrow> time_info
    \<Rightarrow> graph_id \<Rightarrow> directed_edge \<Rightarrow> u32 \<times> nat \<Rightarrow> dijkstras \<Rightarrow> dijkstras result" where
  "expand_edge se pred pred_idx opp_pred tile n ot edgeid e p s =
     (if de_is_shortcut e then Inr s
      else bind_result (es_deref p (dj_status s)) (\<lambda>info.
        bind_result (status_set info) (\<lambda>set.
          if set = Permanent \<or> (if se_forward se then de_forwardaccess e else de_reverseaccess e)
              AND access_mask (ct_dyn (se_costing se)) = 0 then Inr s
          else bind_result (opposing se tile edgeid) (\<lambda>found.
            case found of None \<Rightarrow> Inr s
            | Some opp \<Rightarrow>
              (let tm = check_time ot n; (allowed, ridx, dmask) = edge_allowed se e pred tile edgeid opp tm
               in if \<not> allowed then Inr s
                  else bind_result (Restricted (ct_dyn (se_costing se)) (ct_active (se_costing se)) e pred (dj_labels s)
                      tile edgeid True None (fst tm) (snd tm)) (\<lambda>(restricted, _).
                    if restricted then Inr s
                    else bind_result (edge_costs se e n pred tile (snd opp) opp_pred ot) (\<lambda>(tc, ec, flow).
                      let newcost = cost_add (cost_add (lab_cost pred) ec) tc;
                          path_dist = ucast (lab_path_distance pred) + ucast (de_length e)
                      in if set = Temporary then improve_label (info_index info) pred_idx newcost tc path_dist ridx s
                         else add_label (edge_label_for se pred pred_idx edgeid e n opp opp_pred newcost tc path_dist
                           flow ridx dmask) p s)))))))"

section \<open>Expanding a node\<close>

text \<open>The loop over the edges of a node; edge, identifier and status are stepped together.\<close>

fun expand_edges :: "search \<Rightarrow> bd_label \<Rightarrow> u32 \<Rightarrow> directed_edge option \<Rightarrow> routing_tile \<Rightarrow> nodeinfo \<Rightarrow> time_info
    \<Rightarrow> nat \<Rightarrow> nat \<Rightarrow> graph_id \<Rightarrow> u32 \<times> nat \<Rightarrow> dijkstras \<Rightarrow> dijkstras result" where
  "expand_edges se pred pred_idx opp_pred tile n ot 0 i edgeid p s = Inr s"
| "expand_edges se pred pred_idx opp_pred tile n ot (Suc k) i edgeid p s =
     bind_result (array_at (rt_edges tile) i) (\<lambda>e.
     bind_result (expand_edge se pred pred_idx opp_pred tile n ot edgeid e p s) (\<lambda>s'.
       expand_edges se pred pred_idx opp_pred tile n ot k (i + 1) (gid_succ edgeid) (fst p, snd p + 1) s'))"

definition offset_time :: "search \<Rightarrow> bd_label \<Rightarrow> nodeinfo \<Rightarrow> time_info \<Rightarrow> time_info result" where
  "offset_time se pred n ti =
     (if se_forward se then time_forward (se_tz_diff se) ti (secs (lab_cost pred)) (unat (timezone n))
      else time_reverse (se_tz_diff se) ti (secs (lab_cost pred)) (unat (timezone n)))"

text \<open>
  The part before the transitions. \<open>None\<close> is an early return, otherwise the tile, the node and the
  time go on to the transitions.
\<close>

definition expand_here :: "search \<Rightarrow> graph_id \<Rightarrow> bd_label \<Rightarrow> u32 \<Rightarrow> directed_edge option \<Rightarrow> bool \<Rightarrow> time_info
    \<Rightarrow> dijkstras \<Rightarrow> (dijkstras \<times> (routing_tile \<times> nodeinfo \<times> time_info) option) result" where
  "expand_here se node pred pred_idx opp_pred from_transition ti s =
     (case GetGraphTile (se_reader se) node of
        None \<Rightarrow> Inr (s, None)
      | Some tile \<Rightarrow> bind_result (tile_node tile node) (\<lambda>n.
          let s1 = (if from_transition then s else s\<lparr>dj_events := dj_events s @ [(node, pred)]\<rparr>)
          in if \<not> ct_AllowedNode (se_costing se) n then Inr (s1, None)
             else bind_result (if from_transition then Inr ti else offset_time se pred n ti) (\<lambda>ot.
               bind_result (gid_make (tileid node) (level node) (ucast (ni_edge_index n))) (\<lambda>edgeid.
                 let (p, st) = es_GetPtr edgeid (length (rt_edges tile)) (label_path_id pred) (dj_status s1)
                 in bind_result (tile_edge tile edgeid) (\<lambda>_.
                   bind_result (expand_edges se pred pred_idx opp_pred tile n ot (unat (ni_edge_count n))
                       (unat (gid_id edgeid)) edgeid p (s1\<lparr>dj_status := st\<rparr>)) (\<lambda>s2.
                     Inr (s2, Some (tile, n, ot))))))))"

fun expand_transitions :: "search \<Rightarrow> bd_label \<Rightarrow> u32 \<Rightarrow> directed_edge option \<Rightarrow> time_info \<Rightarrow> routing_tile \<Rightarrow> nat \<Rightarrow> nat
    \<Rightarrow> dijkstras \<Rightarrow> dijkstras result" where
  "expand_transitions se pred pred_idx opp_pred ot tile 0 i s = Inr s"
| "expand_transitions se pred pred_idx opp_pred ot tile (Suc k) i s =
     bind_result (array_at (rt_transitions tile) i) (\<lambda>tr.
     bind_result (expand_here se (transition_endnode tr) pred pred_idx opp_pred True ot s) (\<lambda>(s', _).
       expand_transitions se pred pred_idx opp_pred ot tile k (i + 1) s'))"

definition ExpandInner :: "search \<Rightarrow> graph_id \<Rightarrow> bd_label \<Rightarrow> u32 \<Rightarrow> directed_edge option \<Rightarrow> time_info \<Rightarrow> dijkstras
    \<Rightarrow> dijkstras result" where
  "ExpandInner se node pred pred_idx opp_pred ti s =
     bind_result (expand_here se node pred pred_idx opp_pred False ti s) (\<lambda>(s', rest).
       case rest of None \<Rightarrow> Inr s'
       | Some (tile, n, ot) \<Rightarrow>
           if ni_transition_count n = 0 then Inr s'
           else bind_result (tile_transition tile (unat (ni_transition_index n))) (\<lambda>_.
             expand_transitions se pred pred_idx opp_pred ot tile (unat (ni_transition_count n))
               (unat (ni_transition_index n)) s'))"

section \<open>The loop\<close>

text \<open>The settled label expands unless the derived class prunes it.\<close>

definition expand_settled :: "search \<Rightarrow> u32 \<Rightarrow> bd_label \<Rightarrow> directed_edge option \<Rightarrow> dijkstras \<Rightarrow> (bool \<times> dijkstras) result" where
  "expand_settled se i pred opp_pred s =
     (let decision = se_should se (dj_labels s) pred
      in bind_result
           (if decision = Prune_expansion then Inr s
            else case se_times se of [] \<Rightarrow> Inl Undefined
              | ti # _ \<Rightarrow> ExpandInner se (label_endnode pred) pred i opp_pred ti s)
           (\<lambda>s'. Inr (decision \<noteq> Stop_expansion, s')))"

text \<open>One round: whether the loop goes on, and the new state.\<close>

definition compute_step :: "search \<Rightarrow> dijkstras \<Rightarrow> (bool \<times> dijkstras) result" where
  "compute_step se s =
     bind_result (bq_pop (sort_cost (dj_labels s)) (dj_queue s)) (\<lambda>(i, q).
       let s1 = s\<lparr>dj_queue := q\<rparr>
       in if i = kInvalidLabel then Inr (False, s1)
          else bind_result (label_at (dj_labels s1) i) (\<lambda>pred.
            bind_result (es_Update (label_edgeid pred) Permanent (label_path_id pred) (dj_status s1)) (\<lambda>st.
              let s2 = s1\<lparr>dj_status := st\<rparr>
              in if se_forward se then expand_settled se i pred None s2
                 else bind_result (GetOpposingEdge (se_reader se) (label_edgeid pred)) (\<lambda>opp.
                   case opp of None \<Rightarrow> Inr (True, s2)
                   | Some oe \<Rightarrow> expand_settled se i pred (Some oe) s2))))"

text \<open>The loop with fuel for its rounds; \<open>None\<close> is running out of it.\<close>

fun compute_loop :: "nat \<Rightarrow> search \<Rightarrow> dijkstras \<Rightarrow> dijkstras result option" where
  "compute_loop 0 se s = None"
| "compute_loop (Suc fuel) se s =
     (case compute_step se s of
        Inl err \<Rightarrow> Some (Inl err)
      | Inr (goes_on, s') \<Rightarrow> if goes_on then compute_loop fuel se s' else Some (Inr s'))"

section \<open>Origins and destinations\<close>

record path_edge =
  pe_graph_id :: u64
  pe_percent_along :: rat
  pe_distance :: rat
  pe_begin_node :: bool
  pe_end_node :: bool

text \<open>\<^verbatim>\<open>float * double\<close> and \<^verbatim>\<open>float += double\<close> are computed in \<^verbatim>\<open>double\<close>.\<close>

definition partial_cost :: "cost \<Rightarrow> rat \<Rightarrow> rat \<Rightarrow> cost" where
  "partial_cost c share d =
     (let scaled = cost_scale c (f32 share) in scaled\<lparr>cost := f32 (f64 (cost scaled + d))\<rparr>)"

definition partial_length :: "directed_edge \<Rightarrow> rat \<Rightarrow> u32 result" where
  "partial_length e share = to_u32 (f64 (of_nat (unat (de_length e)) * share))"

definition location_label :: "search \<Rightarrow> graph_id \<Rightarrow> graph_id \<Rightarrow> directed_edge \<Rightarrow> directed_edge \<Rightarrow> cost \<Rightarrow> u8 \<Rightarrow> u32 \<Rightarrow> u8 \<Rightarrow> u8 \<Rightarrow> bd_label" where
  "location_label se edgeid opp_edgeid labelled e c flow path_dist path_id dmask =
     (let ct = se_costing se; d = ct_dyn ct
      in new_bd_label kInvalidLabel edgeid opp_edgeid labelled c (se_mode se) zero_cost path_dist False
           (\<not> IsClosed d (ct_closed ct) e) (flow AND ucast kDefaultFlowMask \<noteq> 0) No_turn kInvalidRestriction
           (if se_multipath se then path_id else 0) (de_dest_only e \<or> is_hgv d \<and> de_dest_only_hgv e)
           (de_forwardaccess e AND kTruckAccess \<noteq> 0) dmask)"

text \<open>The label goes to the list, the queue and the status, in the order of the code.\<close>

definition push_location :: "bd_label \<Rightarrow> graph_id \<Rightarrow> nat \<Rightarrow> u8 \<Rightarrow> dijkstras \<Rightarrow> dijkstras result" where
  "push_location l edgeid edgecount path_id s =
     (let idx = word_of_nat (length (dj_labels s)); ls = dj_labels s @ [l]
      in bind_result (bq_add (sort_cost ls) idx (dj_queue s)) (\<lambda>q.
         bind_result (es_Set edgeid Temporary idx edgecount path_id (dj_status s)) (\<lambda>st.
           Inr (s\<lparr>dj_labels := ls, dj_queue := q, dj_status := st\<rparr>))))"

definition set_origin_edge :: "search \<Rightarrow> u8 \<Rightarrow> bool \<Rightarrow> path_edge \<Rightarrow> dijkstras \<Rightarrow> dijkstras result" where
  "set_origin_edge se path_id has_other_edges pe s =
     (let ct = se_costing se; d = ct_dyn ct; rd = se_reader se
      in if has_other_edges \<and> pe_end_node pe then Inr s
         else bind_result (gid_of_value (pe_graph_id pe)) (\<lambda>edgeid.
           if AvoidAsOriginEdge d edgeid (f32 (pe_percent_along pe)) then Inr s
           else case GetGraphTile rd edgeid of None \<Rightarrow> Inr s
           | Some tile \<Rightarrow> bind_result (tile_edge tile edgeid) (\<lambda>e.
             bind_result (GetOpposingEdgeId rd edgeid None) (\<lambda>(opp_edge_id, _).
             if \<not> is_valid opp_edge_id then Inr s
             else bind_result (ct_EdgeCost ct e tile invalid_time) (\<lambda>(ec, flow).
             bind_result (partial_length e (f64 (1 - pe_percent_along pe))) (\<lambda>path_dist.
             bind_result (GetExemptedAccessRestrictions d e tile edgeid) (\<lambda>dmask.
               let c = partial_cost ec (f64 (1 - pe_percent_along pe)) (pe_distance pe);
                   l = (location_label se edgeid opp_edge_id e e c flow path_dist path_id dmask)\<lparr>lab_origin := True\<rparr>
               in push_location l edgeid (length (rt_edges tile)) (if se_multipath se then path_id else 0) s)))))))"

definition set_destination_edge :: "search \<Rightarrow> u8 \<Rightarrow> bool \<Rightarrow> path_edge \<Rightarrow> dijkstras \<Rightarrow> dijkstras result" where
  "set_destination_edge se path_id has_other_edges pe s =
     (let ct = se_costing se; d = ct_dyn ct; rd = se_reader se
      in if has_other_edges \<and> pe_begin_node pe then Inr s
         else bind_result (gid_of_value (pe_graph_id pe)) (\<lambda>edgeid.
           if AvoidAsDestinationEdge d edgeid (f32 (pe_percent_along pe)) then Inr s
           else case GetGraphTile rd edgeid of None \<Rightarrow> Inr s
           | Some tile \<Rightarrow> bind_result (tile_edge tile edgeid) (\<lambda>e.
             bind_result (GetOpposingEdgeId rd edgeid (Some tile)) (\<lambda>(opp_edge_id, opp_tile).
             if \<not> is_valid opp_edge_id then Inr s
             else case opp_tile of None \<Rightarrow> Inl Undefined
             | Some t2 \<Rightarrow> bind_result (tile_edge t2 opp_edge_id) (\<lambda>opp_dir_edge.
             bind_result (ct_EdgeCost ct e tile invalid_time) (\<lambda>(ec, flow).
             bind_result (partial_length e (pe_percent_along pe)) (\<lambda>path_dist.
             bind_result (GetExemptedAccessRestrictions d e tile edgeid) (\<lambda>dmask.
               let c = partial_cost ec (pe_percent_along pe) (pe_distance pe);
                   l = location_label se opp_edge_id edgeid opp_dir_edge e c flow path_dist path_id dmask
               in push_location l opp_edge_id (length (rt_edges t2)) (if se_multipath se then path_id else 0) s))))))))"

text \<open>One location, and all of them; \<^verbatim>\<open>path_id\<close> counts the locations in a byte.\<close>

definition set_location :: "search \<Rightarrow> u8 \<Rightarrow> path_edge list \<Rightarrow> dijkstras \<Rightarrow> dijkstras result" where
  "set_location se path_id pes s =
     (if se_forward se
      then fold_result (set_origin_edge se path_id (list_ex (\<lambda>pe. \<not> pe_end_node pe) pes)) pes s
      else fold_result (set_destination_edge se path_id (list_ex (\<lambda>pe. \<not> pe_begin_node pe) pes)) pes s)"

fun set_locations_from :: "search \<Rightarrow> u8 \<Rightarrow> path_edge list list \<Rightarrow> dijkstras \<Rightarrow> dijkstras result" where
  "set_locations_from se path_id [] s = Inr s"
| "set_locations_from se path_id (pes # locs) s =
     bind_result (set_location se path_id pes s) (set_locations_from se (path_id + 1) locs)"

definition SetLocations :: "search \<Rightarrow> path_edge list list \<Rightarrow> dijkstras \<Rightarrow> dijkstras result" where
  "SetLocations se locs s =
     (if se_multipath se \<and> unat kMaxMultiPathId < length locs
      then Inl (Runtime_error ''Max number of locations exceeded'')
      else set_locations_from se 0 locs s)"

text \<open>\<^verbatim>\<open>Compute\<close>: the hints are the bucket count of the derived class and the unit size of the costing.\<close>

definition Compute :: "nat \<Rightarrow> search \<Rightarrow> u32 \<Rightarrow> u32 \<Rightarrow> path_edge list list \<Rightarrow> dijkstras \<Rightarrow> dijkstras result option" where
  "Compute fuel se bucket_count unit_size locs s =
     (case bind_result (dj_initialize bucket_count unit_size s) (SetLocations se locs) of
        Inl err \<Rightarrow> Some (Inl err)
      | Inr s' \<Rightarrow> compute_loop fuel se s')"

section \<open>The decisions of an isochrone\<close>

text \<open>
  \<^verbatim>\<open>Isochrone\<close> (\<^verbatim>\<open>src/thor/isochrone.cc\<close>) prunes a label once both the time and the distance at its
  start are beyond the largest contour; an index past the labels cannot occur and counts as no
  predecessor here.
\<close>

definition pred_of_index :: "bd_label list \<Rightarrow> bd_label \<Rightarrow> bd_label option" where
  "pred_of_index ls l =
     (if lab_predecessor l = kInvalidLabel \<or> length ls \<le> unat (lab_predecessor l) then None
      else Some (ls ! unat (lab_predecessor l)))"

definition isochrone_should :: "rat \<Rightarrow> rat \<Rightarrow> bd_label list \<Rightarrow> bd_label \<Rightarrow> recommendation" where
  "isochrone_should max_seconds max_meters ls l =
     (let time = (case pred_of_index ls l of None \<Rightarrow> 0 | Some p \<Rightarrow> secs (lab_cost p));
          d = (case pred_of_index ls l of None \<Rightarrow> 0 | Some p \<Rightarrow> unat (lab_path_distance p))
      in if max_seconds < time \<and> max_meters < f32 (of_nat d) then Prune_expansion else Continue_expansion)"

definition kIsochroneBuckets :: u32 where "kIsochroneBuckets = 20000"

end
