(* ===== verification/Expansion_Invariant.thy ===== *)
theory Expansion_Invariant
  imports Expansion
begin

text \<open>
  What the search of \<open>Expansion\<close> keeps between its operations, and that every operation on an edge
  keeps it: the queue holds exactly one entry per unsettled label, a temporary status points to a
  queued label of its edge, labels link to settled predecessors, and new labels are paid for by
  entries of the status that were not reached before. \<open>successors\<close> is the abstract graph the search
  walks: the admitted edges out of a label with the cost of the path over them.
\<close>

section \<open>Entries of the status\<close>

definition entry :: "edge_status \<Rightarrow> u32 \<Rightarrow> nat \<Rightarrow> edge_status_info" where
  "entry st k i = (case st k of None \<Rightarrow> default_info | Some arr \<Rightarrow> if i < length arr then arr ! i else default_info)"

definition entry_set :: "edge_status \<Rightarrow> u32 \<times> nat \<Rightarrow> u32" where
  "entry_set st p = info_set (entry st (fst p) (snd p))"

definition edge_count :: "tile_reader \<Rightarrow> u32 \<Rightarrow> nat" where
  "edge_count rd k = (case rd (take_bit 25 k) of None \<Rightarrow> 0 | Some t \<Rightarrow> length (rt_edges t))"

definition arrays_ok :: "tile_reader \<Rightarrow> edge_status \<Rightarrow> bool" where
  "arrays_ok rd st \<longleftrightarrow> (\<forall>k arr. st k = Some arr \<longrightarrow> length arr = edge_count rd k)"

lemma entry_default [simp]: "info_set default_info = 0"
  by (simp add: default_info_def)

lemma entry_out_of_range: "arrays_ok rd st \<Longrightarrow> edge_count rd k \<le> i \<Longrightarrow> entry st k i = default_info"
  by (auto simp: entry_def arrays_ok_def split: option.splits)

lemma put_element_entry:
  assumes "i < length arr" and "\<And>j. j < length arr \<Longrightarrow> arr ! j = entry st k j" and "arrays_ok rd st"
    and "length arr = edge_count rd k"
  shows "\<exists>st'. put_element k i info arr st = Inr st' \<and> arrays_ok rd st' \<and> st' k \<noteq> None
    \<and> (\<forall>k'. st k' \<noteq> None \<longrightarrow> st' k' \<noteq> None)
    \<and> (\<forall>k' i'. entry st' k' i' = (if k' = k \<and> i' = i then info else entry st k' i'))"
proof -
  have "entry (st(k \<mapsto> arr[i := info])) k' i' = (if k' = k \<and> i' = i then info else entry st k' i')" for k' i'
  proof (cases "k' = k")
    case True
    then show ?thesis
      using assms(1,2,4) entry_out_of_range [OF assms(3), of k i'] by (cases "i' < length arr") (auto simp: entry_def)
  qed (simp add: entry_def)
  then show ?thesis using assms(1,3,4) by (simp add: put_element_def arrays_ok_def)
qed

lemma es_store_entry:
  assumes "arrays_ok rd st" and "st k \<noteq> None" and "i < edge_count rd k"
  shows "\<exists>st'. es_store (k, i) info st = Inr st' \<and> arrays_ok rd st' \<and> st' k \<noteq> None
    \<and> (\<forall>k'. st k' \<noteq> None \<longrightarrow> st' k' \<noteq> None)
    \<and> (\<forall>k' i'. entry st' k' i' = (if k' = k \<and> i' = i then info else entry st k' i'))"
proof -
  obtain arr where arr: "st k = Some arr" "length arr = edge_count rd k" using assms(1,2) by (auto simp: arrays_ok_def)
  have e: "arr ! j = entry st k j" if "j < length arr" for j using arr(1) that by (simp add: entry_def)
  show ?thesis
    using put_element_entry [of i arr st k rd info, OF _ e assms(1)] assms(3) arr by (simp add: es_store_def)
qed

lemma es_deref_entry:
  assumes "arrays_ok rd st" and "st k \<noteq> None" and "i < edge_count rd k"
  shows "es_deref (k, i) st = Inr (entry st k i)"
  using assms by (auto simp: es_deref_def get_element_def arrays_ok_def entry_def)

lemma es_Update_entry:
  assumes "arrays_ok rd st" and "st (status_key g p) \<noteq> None" and "unat (gid_id g) < edge_count rd (status_key g p)"
  shows "\<exists>st'. es_Update g s p st = Inr st' \<and> arrays_ok rd st' \<and> (\<forall>k'. st k' \<noteq> None \<longrightarrow> st' k' \<noteq> None)
    \<and> (\<forall>k' i'. entry st' k' i' = (if k' = status_key g p \<and> i' = unat (gid_id g)
        then (entry st k' i')\<lparr>info_set := take_bit 4 (edge_set_num s)\<rparr> else entry st k' i'))"
proof -
  let ?k = "status_key g p" and ?i = "unat (gid_id g)"
  obtain arr where arr: "st ?k = Some arr" "length arr = edge_count rd ?k" using assms(1,2) by (auto simp: arrays_ok_def)
  have e: "arr ! j = entry st ?k j" if "j < length arr" for j using arr(1) that by (simp add: entry_def)
  show ?thesis
    using put_element_entry [of ?i arr st ?k rd "(arr ! ?i)\<lparr>info_set := take_bit 4 (edge_set_num s)\<rparr>", OF _ e assms(1)]
      assms(3) arr e [of ?i] by (auto simp: es_Update_def get_element_def Let_def)
qed

lemma fresh_array_entry:
  assumes "arrays_ok rd st" and "st k = None" and "length arr = edge_count rd k" and "\<forall>x\<in>set arr. x = default_info"
  shows "arrays_ok rd (st(k \<mapsto> arr))" and "entry (st(k \<mapsto> arr)) = entry st"
  using assms by (auto simp: arrays_ok_def entry_def fun_eq_iff)

lemma es_Set_entry:
  assumes "arrays_ok rd st" and "unat (gid_id g) < edge_count rd (status_key g p)" and "m = edge_count rd (status_key g p)"
  shows "\<exists>st'. es_Set g s index m p st = Inr st' \<and> arrays_ok rd st' \<and> st' (status_key g p) \<noteq> None
    \<and> (\<forall>k'. st k' \<noteq> None \<longrightarrow> st' k' \<noteq> None)
    \<and> (\<forall>k' i'. entry st' k' i' = (if k' = status_key g p \<and> i' = unat (gid_id g) then make_info s index else entry st k' i'))"
proof (cases "st (status_key g p)")
  case None
  let ?arr = "replicate m default_info" and ?k = "status_key g p"
  let ?st = "st(?k \<mapsto> ?arr)"
  have f: "arrays_ok rd ?st" and e0: "entry ?st = entry st"
    using fresh_array_entry [OF assms(1) None, of ?arr] assms(3) by simp_all
  have e: "?arr ! j = entry ?st ?k j" if "j < length ?arr" for j using that by (simp add: entry_def)
  note put = put_element_entry [of "unat (gid_id g)" ?arr ?st ?k rd "make_info s index", OF _ e f, unfolded e0]
  obtain st' where "put_element ?k (unat (gid_id g)) (make_info s index) ?arr st = Inr st'" "arrays_ok rd st'"
    "st' ?k \<noteq> None" "\<And>k'. st k' \<noteq> None \<Longrightarrow> st' k' \<noteq> None"
    "\<And>k' i'. entry st' k' i' = (if k' = ?k \<and> i' = unat (gid_id g) then make_info s index else entry st k' i')"
    using put assms(2,3) by (auto simp: put_element_overwrites)
  then show ?thesis using None assms(3) by (simp add: es_Set_def Let_def put_element_overwrites)
next
  case (Some arr)
  have n: "length arr = edge_count rd (status_key g p)" using assms(1) Some by (auto simp: arrays_ok_def)
  have e: "arr ! j = entry st (status_key g p) j" if "j < length arr" for j using Some that by (simp add: entry_def)
  show ?thesis
    using put_element_entry [of "unat (gid_id g)" arr st "status_key g p" rd "make_info s index", OF _ e assms(1)] Some assms n
    by (simp add: es_Set_def Let_def)
qed

lemma es_GetPtr_entry:
  assumes "arrays_ok rd st" and "m = edge_count rd (status_key g p)"
  shows "\<exists>st'. es_GetPtr g m p st = ((status_key g p, unat (gid_id g)), st') \<and> arrays_ok rd st'
    \<and> st' (status_key g p) \<noteq> None \<and> (\<forall>k'. st k' \<noteq> None \<longrightarrow> st' k' \<noteq> None) \<and> entry st' = entry st"
proof (cases "st (status_key g p)")
  case None
  show ?thesis
    using fresh_array_entry [OF assms(1) None, of "replicate m default_info"] assms(2) None
    by (simp add: es_GetPtr_def Let_def)
qed (use assms in \<open>simp add: es_GetPtr_def Let_def\<close>)

section \<open>Identifiers of the edges of a node\<close>

definition edge_at :: "graph_id \<Rightarrow> nat \<Rightarrow> graph_id" where
  "edge_at g i = gid_set_id g (word_of_nat i)"

lemma tile_value_fields: "level g = level h \<Longrightarrow> tileid g = tileid h \<Longrightarrow> tile_value g = tile_value h"
proof -
  have b: "bit (tile_value x) i \<longleftrightarrow> (i < 3 \<and> bit (level x) i) \<or> (3 \<le> i \<and> i < 25 \<and> bit (tileid x) (i - 3))" for x i
    by (auto simp: tile_value_def field_bits const_masks bit_simps)
  assume "level g = level h" "tileid g = tileid h"
  then show ?thesis by (intro bit_word_eqI) (simp add: b)
qed

lemma edge_at_fields [simp]:
  "tile_value (edge_at g i) = tile_value g" "level (edge_at g i) = level g" "tileid (edge_at g i) = tileid g"
  "i < 2 ^ 21 \<Longrightarrow> unat (gid_id (edge_at g i)) = i"
proof -
  show "level (edge_at g i) = level g" "tileid (edge_at g i) = tileid g"
    by (simp_all add: edge_at_def set_id_fields)
  then show "tile_value (edge_at g i) = tile_value g" by (rule tile_value_fields)
  show "i < 2 ^ 21 \<Longrightarrow> unat (gid_id (edge_at g i)) = i"
    by (simp add: edge_at_def set_id_fields unsigned_take_bit_eq unsigned_of_nat take_bit_nat_eq_self)
qed

lemma first_edge: "i < 2 ^ 21 \<Longrightarrow> gid_make (tileid g) (level g) (word_of_nat i) = Inr (edge_at g i)"
proof -
  assume i: "i < 2 ^ 21"
  have "take_bit 21 (word_of_nat i :: u32) = word_of_nat i"
    using i by (simp add: take_bit_self_iff unsigned_of_nat take_bit_nat_eq_self)
  then show ?thesis
    using i field_bounds [of g] set_id_fields(4) [of g "word_of_nat i"]
    by (simp add: gid_make_Inr edge_at_def set_id_fields kMaxGraphId_def word_le_nat_alt unsigned_of_nat take_bit_nat_eq_self
      kMaxGraphTileId_def kMaxGraphHierarchy_def)
qed

lemma next_edge: "i + 1 < 2 ^ 21 \<Longrightarrow> gid_succ (edge_at g i) = edge_at g (i + 1)"
proof -
  assume i: "i + 1 < 2 ^ 21"
  have small: "unat (gid_value (edge_at g i)) < 2 ^ 46"
    unfolding edge_at_def by (rule set_id_fields(4))
  have "gid_succ (edge_at g i) = gid_plus_assign (edge_at g i) 1"
    by (rule gid_succ_in_range [OF small]) (use i in simp)
  also have "\<dots> = edge_at g (i + 1)"
  proof (rule gid_eqI)
    show "unat (gid_value (gid_plus_assign (edge_at g i) 1)) < 2 ^ 46" by (rule gid_plus_assign_fields(4))
    show "unat (gid_value (edge_at g (i + 1))) < 2 ^ 46" unfolding edge_at_def by (rule set_id_fields(4))
    show "gid_id (gid_plus_assign (edge_at g i) 1) = gid_id (edge_at g (i + 1))"
      using i edge_at_fields(4) [of i g] edge_at_fields(4) [of "i + 1" g]
      by (simp only: word_unat_eq_iff gid_plus_assign_fields) simp
  qed (simp_all add: gid_plus_assign_fields)
  finally show ?thesis .
qed

section \<open>Offers\<close>

text \<open>
  What an edge offers to the search, apart from its status: nothing, or the cost of the path over
  it with the other values of the label. It depends on the state only through the labels of the
  path, which the turn restrictions read.
\<close>

type_synonym visit = "routing_tile \<times> nodeinfo \<times> time_info \<times> graph_id \<times> directed_edge"

record offer =
  of_cost :: cost
  of_transition :: cost
  of_distance :: u32
  of_restriction :: u8
  of_label :: bd_label

fun offered :: "search \<Rightarrow> bd_label \<Rightarrow> u32 \<Rightarrow> directed_edge option \<Rightarrow> bd_label list \<Rightarrow> visit \<Rightarrow> offer option result" where
  "offered se pred i opp_pred ls (tile, n, ot, g, e) =
     (if de_is_shortcut e \<or> (if se_forward se then de_forwardaccess e else de_reverseaccess e)
        AND access_mask (ct_dyn (se_costing se)) = 0 then Inr None
      else bind_result (opposing se tile g) (\<lambda>found.
        case found of None \<Rightarrow> Inr None
        | Some opp \<Rightarrow>
          (let tm = check_time ot n; (allowed, ridx, dmask) = edge_allowed se e pred tile g opp tm
           in if \<not> allowed then Inr None
              else bind_result (Restricted (ct_dyn (se_costing se)) (ct_active (se_costing se)) e pred ls
                  tile g True None (fst tm) (snd tm)) (\<lambda>(restricted, _).
                if restricted then Inr None
                else bind_result (edge_costs se e n pred tile (snd opp) opp_pred ot) (\<lambda>(tc, ec, flow).
                  let c = cost_add (cost_add (lab_cost pred) ec) tc;
                      d = ucast (lab_path_distance pred) + ucast (de_length e)
                  in Inr (Some \<lparr>of_cost = c, of_transition = tc, of_distance = d, of_restriction = ridx,
                    of_label = edge_label_for se pred i g e n opp opp_pred c tc d flow ridx dmask\<rparr>))))))"

definition relax :: "u32 \<Rightarrow> edge_set \<Rightarrow> u32 \<Rightarrow> u32 \<times> nat \<Rightarrow> offer option \<Rightarrow> dijkstras \<Rightarrow> dijkstras result" where
  "relax i es j x found s =
     (case found of None \<Rightarrow> Inr s
      | Some f \<Rightarrow> if es = Temporary then improve_label j i (of_cost f) (of_transition f) (of_distance f) (of_restriction f) s
          else add_label (of_label f) x s)"

text \<open>The loop body of the code is the offer of the edge, taken or not.\<close>

lemma expand_edge_offered:
  "expand_edge se pred i opp_pred tile n ot g e x s =
     (if de_is_shortcut e then Inr s
      else bind_result (es_deref x (dj_status s)) (\<lambda>info. bind_result (status_set info) (\<lambda>set.
        if set = Permanent then Inr s
        else bind_result (offered se pred i opp_pred (dj_labels s) (tile, n, ot, g, e)) (\<lambda>found.
          relax i set (info_index info) x found s))))"
proof (cases "de_is_shortcut e")
  case False
  let ?taken = "\<lambda>info es. bind_result (offered se pred i opp_pred (dj_labels s) (tile, n, ot, g, e)) (\<lambda>found.
          relax i es (info_index info) x found s)"
  let ?code = "\<lambda>info es. bind_result (opposing se tile g) (\<lambda>found. case found of None \<Rightarrow> Inr s | Some opp \<Rightarrow>
      (let tm = check_time ot n; (allowed, ridx, dmask) = edge_allowed se e pred tile g opp tm
       in if \<not> allowed then Inr s
          else bind_result (Restricted (ct_dyn (se_costing se)) (ct_active (se_costing se)) e pred (dj_labels s)
              tile g True None (fst tm) (snd tm)) (\<lambda>(restricted, _).
            if restricted then Inr s
            else bind_result (edge_costs se e n pred tile (snd opp) opp_pred ot) (\<lambda>(tc, ec, flow).
              let newcost = cost_add (cost_add (lab_cost pred) ec) tc;
                  path_dist = ucast (lab_path_distance pred) + ucast (de_length e)
              in if es = Temporary then improve_label (info_index info) i newcost tc path_dist ridx s
                 else add_label (edge_label_for se pred i g e n opp opp_pred newcost tc path_dist flow ridx dmask) x s))))"
  have body: "?code info es = ?taken info es"
    if "\<not> (if se_forward se then de_forwardaccess e else de_reverseaccess e) AND access_mask (ct_dyn (se_costing se)) = 0" for info es
  proof (cases "opposing se tile g")
    case (Inr found)
    show ?thesis
    proof (cases found)
      case (Some opp)
      obtain allowed ridx dmask where a: "edge_allowed se e pred tile g opp (check_time ot n) = (allowed, ridx, dmask)"
        by (metis prod_cases3)
      show ?thesis
        using that False
        by (cases "Restricted (ct_dyn (se_costing se)) (ct_active (se_costing se)) e pred (dj_labels s) tile g True None
              (fst (check_time ot n)) (snd (check_time ot n))"; cases "edge_costs se e n pred tile (snd opp) opp_pred ot")
          (auto simp: Inr Some a Let_def relax_def)
    qed (use that False Inr in \<open>simp add: relax_def\<close>)
  qed (use that False in simp)
  show ?thesis
    unfolding expand_edge_def if_not_P [OF False]
  proof (intro bind_result_cong refl)
    fix info es
    show "(if es = Permanent \<or> (if se_forward se then de_forwardaccess e else de_reverseaccess e)
          AND access_mask (ct_dyn (se_costing se)) = 0 then Inr s else ?code info es)
      = (if es = Permanent then Inr s else ?taken info es)"
      using body False by (auto simp: relax_def simp del: offered.simps) (simp_all add: relax_def)
  qed
qed (simp add: expand_edge_def)

section \<open>Graphs and costings the search can trust\<close>

definition node_exists :: "tile_reader \<Rightarrow> graph_id \<Rightarrow> bool" where
  "node_exists rd g \<longleftrightarrow> (\<forall>t. GetGraphTile rd g = Some t \<longrightarrow> unat (gid_id g) < length (rt_nodes t))"

definition tile_ok :: "tile_reader \<Rightarrow> routing_tile \<Rightarrow> bool" where
  "tile_ok rd t \<longleftrightarrow>
     length (rt_edges t) < 2 ^ 21
     \<and> (\<forall>n\<in>set (rt_nodes t). unat (ni_edge_index n) < length (rt_edges t)
          \<and> unat (ni_edge_index n) + unat (ni_edge_count n) \<le> length (rt_edges t)
          \<and> unat (ni_transition_index n) + unat (ni_transition_count n) \<le> length (rt_transitions t))
     \<and> (\<forall>e\<in>set (rt_edges t). node_exists rd (endnode e))
     \<and> (\<forall>tr\<in>set (rt_transitions t). node_exists rd (transition_endnode tr))
     \<and> (\<forall>r\<in>set (rt_access_restrictions t). unat (ar_type r) < 32)
     \<and> (\<exists>bs. rt_forward_restrictions t = concat (map write_restriction bs) \<and> list_all vias_ok bs)"

definition graph_ok :: "tile_reader \<Rightarrow> bool" where
  "graph_ok rd \<longleftrightarrow> (\<forall>k t. rd k = Some t \<longrightarrow> tile_ok rd t)"

text \<open>For the reverse search: no transit lines, and the opposing edge is an edge of its tile.\<close>

definition reversible :: "tile_reader \<Rightarrow> bool" where
  "reversible rd \<longleftrightarrow> (\<forall>k t. rd k = Some t \<longrightarrow> (\<forall>e\<in>set (rt_edges t). \<not> IsTransitLine e
     \<and> (\<forall>t2. GetGraphTile rd (endnode e) = Some t2 \<longrightarrow>
          unat (ni_edge_index (rt_nodes t2 ! unat (gid_id (endnode e)))) + unat (de_opp_index e) < length (rt_edges t2))))"

text \<open>A cost of at most \<open>X\<close> whose parts are \<^verbatim>\<open>float\<close>s.\<close>

definition within_cost :: "nat \<Rightarrow> cost \<Rightarrow> bool" where
  "within_cost X c \<longleftrightarrow> f32 (cost c) = cost c \<and> cost c \<le> of_nat X \<and> 0 \<le> secs c \<and> secs c \<le> of_nat X"

definition charged :: "costing \<Rightarrow> cost \<Rightarrow> bool" where
  "charged ct c \<longleftrightarrow> (\<exists>e t ti flow. ct_EdgeCost ct e t ti = Inr (c, flow)) \<or> (\<exists>e n l t. ct_TransitionCost ct e n l t = Inr c)
     \<or> (\<exists>j n e e' t g ms it. ct_TransitionCostReverse ct j n e e' t g ms it = Inr c)"

definition costing_ok :: "nat \<Rightarrow> costing \<Rightarrow> bool" where
  "costing_ok D ct \<longleftrightarrow>
     (\<forall>e t ti. \<exists>r. ct_EdgeCost ct e t ti = Inr r) \<and> (\<forall>e n l t. \<exists>c. ct_TransitionCost ct e n l t = Inr c)
     \<and> (\<forall>j n e e' t g ms it. \<exists>c. ct_TransitionCostReverse ct j n e e' t g ms it = Inr c)
     \<and> (\<forall>c. charged ct c \<longrightarrow> within_cost D c)"

text \<open>
  The limits of a run: the range of the queue, the dearest edge and transition, the dearest
  label that expands, the dearest origin, the number of paths and of labels. Either the derived
  class prunes what is dearer than \<open>far\<close>, or the labels are too few to reach it.
\<close>

record limits =
  buckets :: nat
  step_cost :: nat
  far :: nat
  first_cost :: nat
  paths :: nat
  max_labels :: nat

definition cap :: "limits \<Rightarrow> nat" where
  "cap lm = far lm + 2 * step_cost lm"

definition search_ok :: "search \<Rightarrow> limits \<Rightarrow> bool" where
  "search_ok se lm \<longleftrightarrow>
     graph_ok (se_reader se) \<and> (se_forward se \<or> reversible (se_reader se))
     \<and> costing_ok (step_cost lm) (se_costing se)
     \<and> cap lm + buckets lm + 1 \<le> 2 ^ 24 \<and> paths lm \<le> 128 \<and> max_labels lm \<le> 2 ^ 28
     \<and> ((\<forall>ls l. se_should se ls l \<noteq> Prune_expansion \<longrightarrow> within_cost (far lm) (lab_cost l))
         \<or> first_cost lm + 2 * step_cost lm * max_labels lm \<le> far lm)
     \<and> se_times se \<noteq> []
     \<and> (\<forall>l n. within_cost (far lm) (lab_cost l) \<longrightarrow> (\<exists>ti. offset_time se l n (hd (se_times se)) = Inr ti))"

lemma search_okD:
  assumes "search_ok se lm"
  shows "graph_ok (se_reader se)" "\<not> se_forward se \<Longrightarrow> reversible (se_reader se)"
    "costing_ok (step_cost lm) (se_costing se)" "cap lm + buckets lm + 1 \<le> 2 ^ 24" "paths lm \<le> 128"
    "max_labels lm \<le> 2 ^ 28" "se_times se \<noteq> []"
    "within_cost (far lm) (lab_cost l) \<Longrightarrow> \<exists>ti. offset_time se l n (hd (se_times se)) = Inr ti"
  using assms by (auto simp: search_ok_def)

lemma within_cost_mono: "within_cost X c \<Longrightarrow> X \<le> Y \<Longrightarrow> within_cost Y c"
  by (auto simp: within_cost_def intro: order_trans)

lemma within_cost_add:
  assumes "within_cost X a" and "within_cost Y b" and "X + Y \<le> 2 ^ 24"
  shows "within_cost (X + Y) (cost_add a b)"
proof -
  have e: "f32 (of_nat (X + Y)) = of_nat (X + Y)" by (rule float32.exact_nat) (use assms(3) in simp)
  have le: "f32 (x + y) \<le> of_nat (X + Y)" if "x \<le> of_nat X" "y \<le> of_nat Y" for x y :: rat
    by (rule float32.upper) (use e that in \<open>simp_all add: float32.representable_def\<close>)
  have "0 \<le> f32 (secs a + secs b)" using assms by (intro float32.nonneg) (simp add: within_cost_def)
  then show ?thesis
    using assms le [of "cost a" "cost b"] le [of "secs a" "secs b"]
    by (simp add: within_cost_def cost_add_def float32.idem)
qed

section \<open>The invariant\<close>

definition label_key :: "bd_label \<Rightarrow> u32 \<times> nat" where
  "label_key l = (status_key (label_edgeid l) (label_path_id l), unat (gid_id (label_edgeid l)))"

definition slots :: "tile_reader \<Rightarrow> nat \<Rightarrow> (u32 \<times> nat) set" where
  "slots rd n = {(k, i). unat (drop_bit 25 k) < n \<and> i < edge_count rd k}"

definition taken :: "edge_status \<Rightarrow> (u32 \<times> nat) set" where
  "taken st = {x. entry_set st x \<noteq> 0}"

definition unreached :: "tile_reader \<Rightarrow> nat \<Rightarrow> edge_status \<Rightarrow> (u32 \<times> nat) set" where
  "unreached rd n st = slots rd n - taken st"

definition settled :: "dijkstras \<Rightarrow> u32 \<Rightarrow> bool" where
  "settled s i \<longleftrightarrow> unat i < length (dj_labels s) \<and> i \<notin># labels (dj_queue s)"

definition settled_count :: "dijkstras \<Rightarrow> nat" where
  "settled_count s = length (dj_labels s) - size (labels (dj_queue s))"

definition label_ok :: "search \<Rightarrow> limits \<Rightarrow> dijkstras \<Rightarrow> bd_label \<Rightarrow> bool" where
  "label_ok se lm s l \<longleftrightarrow>
     label_key l \<in> slots (se_reader se) (paths lm) \<and> node_exists (se_reader se) (label_endnode l)
     \<and> fst (label_key l) \<in> dom (dj_status s) \<and> label_key l \<in> taken (dj_status s)
     \<and> within_cost (cap lm) (lab_cost l)
     \<and> within_cost (first_cost lm + 2 * step_cost lm * settled_count s) (lab_cost l)
     \<and> f32 (lab_sortcost l) = lab_sortcost l \<and> lab_sortcost l \<le> of_nat (cap lm)
     \<and> (lab_predecessor l = kInvalidLabel \<or> settled s (lab_predecessor l))"

definition queue_labels_ok :: "dijkstras \<Rightarrow> bool" where
  "queue_labels_ok s \<longleftrightarrow> (\<forall>i. count (labels (dj_queue s)) i \<le> 1)
     \<and> (\<forall>i\<in>#labels (dj_queue s). unat i < length (dj_labels s))"

definition status_ok :: "search \<Rightarrow> dijkstras \<Rightarrow> bool" where
  "status_ok se s \<longleftrightarrow> arrays_ok (se_reader se) (dj_status s)
     \<and> (\<forall>k i. entry_set (dj_status s) (k, i) \<in> {0, 1, 2})
     \<and> (\<forall>k i. entry_set (dj_status s) (k, i) = 2 \<longrightarrow>
          info_index (entry (dj_status s) k i) \<in># labels (dj_queue s)
          \<and> label_key (dj_labels s ! unat (info_index (entry (dj_status s) k i))) = (k, i))
     \<and> (\<forall>k i. entry_set (dj_status s) (k, i) = 1 \<longrightarrow> (\<exists>j. settled s j \<and> label_key (dj_labels s ! unat j) = (k, i)))"

definition search_inv :: "search \<Rightarrow> limits \<Rightarrow> dijkstras \<Rightarrow> bool" where
  "search_inv se lm s \<longleftrightarrow>
     queue_ok (sort_cost (dj_labels s)) (buckets lm) (dj_queue s) \<and> queue_labels_ok s \<and> status_ok se s
     \<and> (\<forall>l\<in>set (dj_labels s). label_ok se lm s l)
     \<and> length (dj_labels s) + card (unreached (se_reader se) (paths lm) (dj_status s)) \<le> max_labels lm"

text \<open>What an operation may change: settled labels are frozen, no status goes back.\<close>

definition extends :: "dijkstras \<Rightarrow> dijkstras \<Rightarrow> bool" where
  "extends s s' \<longleftrightarrow>
     length (dj_labels s) \<le> length (dj_labels s')
     \<and> (\<forall>i. settled s i \<longrightarrow> settled s' i \<and> dj_labels s' ! unat i = dj_labels s ! unat i)
     \<and> (\<forall>j<length (dj_labels s). label_key (dj_labels s' ! j) = label_key (dj_labels s ! j)
          \<and> cost (lab_cost (dj_labels s' ! j)) \<le> cost (lab_cost (dj_labels s ! j)))
     \<and> dom (dj_status s) \<subseteq> dom (dj_status s') \<and> taken (dj_status s) \<subseteq> taken (dj_status s')
     \<and> settled_count s \<le> settled_count s'"

lemma unchanged_extends [simp]: "extends s s"
  by (simp add: extends_def)

lemma extendsD:
  assumes "extends s s'"
  shows "length (dj_labels s) \<le> length (dj_labels s')" "settled_count s \<le> settled_count s'"
    "settled s i \<Longrightarrow> settled s' i" "settled s i \<Longrightarrow> dj_labels s' ! unat i = dj_labels s ! unat i"
    "j < length (dj_labels s) \<Longrightarrow> label_key (dj_labels s' ! j) = label_key (dj_labels s ! j)"
    "j < length (dj_labels s) \<Longrightarrow> cost (lab_cost (dj_labels s' ! j)) \<le> cost (lab_cost (dj_labels s ! j))"
    "k \<in> dom (dj_status s) \<Longrightarrow> k \<in> dom (dj_status s')" "x \<in> taken (dj_status s) \<Longrightarrow> x \<in> taken (dj_status s')"
  using assms unfolding extends_def by blast+

lemma extends_trans:
  assumes "extends s s'" and "extends s' s''"
  shows "extends s s''"
  unfolding extends_def
proof (intro conjI allI impI subsetI)
  fix j assume j: "j < length (dj_labels s)"
  then have "j < length (dj_labels s')" using extendsD(1) [OF assms(1)] by simp
  then show "label_key (dj_labels s'' ! j) = label_key (dj_labels s ! j)"
    "cost (lab_cost (dj_labels s'' ! j)) \<le> cost (lab_cost (dj_labels s ! j))"
    using j extendsD(5,6) [OF assms(1)] extendsD(5,6) [OF assms(2)] by (simp, blast intro: order_trans)
qed (use extendsD [OF assms(1)] extendsD [OF assms(2)] in \<open>auto intro: le_trans\<close>)

lemma extends_label_ok:
  assumes "extends s s'" and "label_ok se lm s l"
  shows "label_ok se lm s' l"
proof -
  have "within_cost (first_cost lm + 2 * step_cost lm * settled_count s') (lab_cost l)"
    by (rule within_cost_mono [of "first_cost lm + 2 * step_cost lm * settled_count s"])
      (use assms in \<open>simp_all add: label_ok_def extends_def\<close>)
  moreover have "lab_predecessor l = kInvalidLabel \<or> settled s' (lab_predecessor l)"
    using assms by (auto simp: label_ok_def extends_def)
  moreover have "fst (label_key l) \<in> dom (dj_status s')" "label_key l \<in> taken (dj_status s')"
    using assms(2) extendsD(7,8) [OF assms(1)] by (simp_all add: label_ok_def)
  ultimately show ?thesis using assms(2) by (simp add: label_ok_def)
qed

lemma finite_slots: "finite (slots rd n)"
proof (rule finite_subset)
  show "slots rd n \<subseteq> (SIGMA k:UNIV. {..<edge_count rd k})" by (auto simp: slots_def)
qed simp

lemma finite_unreached [simp]: "finite (unreached rd n st)"
  by (rule finite_subset [OF _ finite_slots [of rd n]]) (auto simp: unreached_def)

text \<open>The queue sees the costs only of the labels it holds.\<close>

lemma queue_ok_cong:
  assumes "queue_ok sc n q" and "\<forall>l\<in>#labels q. sc l = sc' l"
  shows "queue_ok sc' n q"
  using assms unfolding queue_ok_def queue_at_def content_at_def in_place_def
  by (auto simp: in_labels Ball_def) (metis (no_types, lifting))+

section \<open>A new label\<close>

definition work :: "search \<Rightarrow> limits \<Rightarrow> dijkstras \<Rightarrow> nat" where
  "work se lm s = size (labels (dj_queue s)) + card (unreached (se_reader se) (paths lm) (dj_status s))"

definition new_label_ok :: "search \<Rightarrow> limits \<Rightarrow> dijkstras \<Rightarrow> bd_label \<Rightarrow> bool" where
  "new_label_ok se lm s l \<longleftrightarrow>
     label_key l \<in> slots (se_reader se) (paths lm) \<and> node_exists (se_reader se) (label_endnode l)
     \<and> within_cost (cap lm) (lab_cost l)
     \<and> within_cost (first_cost lm + 2 * step_cost lm * settled_count s) (lab_cost l)
     \<and> lab_sortcost l = cost (lab_cost l)
     \<and> (lab_predecessor l = kInvalidLabel \<or> settled s (lab_predecessor l))"

lemma cost_ok_cap: "cap lm + buckets lm + 1 \<le> 2 ^ 24 \<Longrightarrow> f32 c = c \<Longrightarrow> c \<le> of_nat (cap lm) \<Longrightarrow> cost_ok (buckets lm) c"
proof -
  assume "cap lm + buckets lm + 1 \<le> 2 ^ 24" "f32 c = c" "c \<le> of_nat (cap lm)"
  moreover from this have "of_nat (cap lm + buckets lm + 1) \<le> (2 ^ 24 :: rat)"
    by (metis of_nat_le_iff of_nat_numeral of_nat_power)
  ultimately show ?thesis by (simp add: cost_ok_def)
qed

lemma added_settled:
  assumes "length (dj_labels s) < 2 ^ 28" and "dj_labels s' = dj_labels s @ [l]"
    and "labels (dj_queue s') = add_mset (word_of_nat (length (dj_labels s))) (labels (dj_queue s))"
  shows "settled s' i \<longleftrightarrow> settled s i" and "settled_count s' = settled_count s"
proof -
  have "unat (word_of_nat (length (dj_labels s)) :: u32) = length (dj_labels s)"
    using assms(1) by (simp add: unsigned_of_nat take_bit_nat_eq_self)
  then show "settled s' i \<longleftrightarrow> settled s i"
    using assms by (auto simp: settled_def word_unat_eq_iff less_Suc_eq)
  show "settled_count s' = settled_count s" using assms by (simp add: settled_count_def)
qed

lemma status_okD:
  assumes "status_ok se s"
  shows "arrays_ok (se_reader se) (dj_status s)" "entry_set (dj_status s) x \<in> {0, 1, 2}"
    "entry_set (dj_status s) (k, i) = 2 \<Longrightarrow> info_index (entry (dj_status s) k i) \<in># labels (dj_queue s)"
    "entry_set (dj_status s) (k, i) = 2 \<Longrightarrow> label_key (dj_labels s ! unat (info_index (entry (dj_status s) k i))) = (k, i)"
    "entry_set (dj_status s) x = 1 \<Longrightarrow> \<exists>j. settled s j \<and> label_key (dj_labels s ! unat j) = x"
proof -
  note a = assms [unfolded status_ok_def]
  note b = conjunct2 [OF a] and c = conjunct2 [OF conjunct2 [OF a]]
  show "arrays_ok (se_reader se) (dj_status s)" by (rule conjunct1 [OF a])
  show "entry_set (dj_status s) x \<in> {0, 1, 2}" using spec [OF spec [OF conjunct1 [OF b]], of "fst x" "snd x"] by simp
  show "entry_set (dj_status s) (k, i) = 2 \<Longrightarrow> info_index (entry (dj_status s) k i) \<in># labels (dj_queue s)"
    "entry_set (dj_status s) (k, i) = 2 \<Longrightarrow> label_key (dj_labels s ! unat (info_index (entry (dj_status s) k i))) = (k, i)"
    using spec [OF spec [OF conjunct1 [OF c]], of k i] by simp_all
  show "entry_set (dj_status s) x = 1 \<Longrightarrow> \<exists>j. settled s j \<and> label_key (dj_labels s ! unat j) = x"
    using spec [OF spec [OF conjunct2 [OF c]], of "fst x" "snd x"] by simp
qed

lemma added_inv:
  fixes s l x q' st'
  defines "s' \<equiv> s\<lparr>dj_labels := dj_labels s @ [l], dj_queue := q', dj_status := st'\<rparr>"
    and "idx \<equiv> word_of_nat (length (dj_labels s)) :: u32"
  assumes inv: "search_inv se lm s" and l: "new_label_ok se lm s l" and len: "length (dj_labels s) < 2 ^ 28"
    and q: "queue_ok (sort_cost (dj_labels s @ [l])) (buckets lm) q'" "labels q' = add_mset idx (labels (dj_queue s))"
    and st: "arrays_ok (se_reader se) st'" "dom (dj_status s) \<subseteq> dom st'" "fst (label_key l) \<in> dom st'"
      "\<And>k i. entry st' k i = (if (k, i) = label_key l then make_info Temporary idx else entry (dj_status s) k i)"
    and card: "length (dj_labels s) + 1 + card (unreached (se_reader se) (paths lm) st') \<le> max_labels lm"
  shows "search_inv se lm s'" and "extends s s'"
proof -
  have c: "dj_labels s' = dj_labels s @ [l]" "dj_queue s' = q'" "dj_status s' = st'" by (simp_all add: s'_def)
  have u: "unat idx = length (dj_labels s)" using len by (simp add: idx_def unsigned_of_nat take_bit_nat_eq_self)
  have take: "take_bit 28 idx = idx" using len by (simp add: take_bit_self_iff u)
  have set: "settled s' i \<longleftrightarrow> settled s i" "settled_count s' = settled_count s" for i
    using added_settled [OF len, of s' l] q(2) by (simp_all add: c idx_def)
  have sets: "entry_set st' (k, i) = (if (k, i) = label_key l then 2 else entry_set (dj_status s) (k, i))" for k i
    by (simp add: entry_set_def st(4) make_info_def)
  have taken: "taken st' = insert (label_key l) (taken (dj_status s))"
  proof -
    have "entry_set st' x = (if x = label_key l then 2 else entry_set (dj_status s) x)" for x
      using sets [of "fst x" "snd x"] by simp
    then show ?thesis by (auto simp: taken_def simp del: split_paired_All)
  qed
  have old: "settled s j \<Longrightarrow> (dj_labels s @ [l]) ! unat j = dj_labels s ! unat j" for j
    by (simp add: settled_def nth_append)
  show ext: "extends s s'"
    unfolding extends_def
  proof (intro conjI allI impI)
    show "dom (dj_status s) \<subseteq> dom (dj_status s')" using st(2) by (simp add: c)
  qed (auto simp: set, auto simp: c old taken nth_append_left)
  have inv': "queue_labels_ok s" "status_ok se s" "\<forall>l\<in>set (dj_labels s). label_ok se lm s l"
    using inv by (simp_all add: search_inv_def)
  have fresh: "idx \<notin># labels (dj_queue s)" using inv'(1) u by (auto simp: queue_labels_ok_def)
  have ql: "queue_labels_ok s'"
    using inv'(1) fresh by (auto simp: queue_labels_ok_def c q(2) u not_in_iff less_Suc_eq)
  have "label_ok se lm s' l"
    using l st(3) by (simp add: label_ok_def new_label_ok_def set taken c within_cost_def)
  then have labels: "\<forall>l\<in>set (dj_labels s'). label_ok se lm s' l"
    using inv'(3) extends_label_ok [OF ext] by (auto simp: c)
  have waiting: "info_index (entry (dj_status s) k i) \<in># labels (dj_queue s)
      \<and> label_key (dj_labels s ! unat (info_index (entry (dj_status s) k i))) = (k, i)
      \<and> unat (info_index (entry (dj_status s) k i)) < length (dj_labels s)"
    if "entry_set (dj_status s) (k, i) = 2" for k i
    using inv'(1,2) that by (auto simp: status_ok_def queue_labels_ok_def)
  have status: "status_ok se s'"
    unfolding status_ok_def
  proof (intro conjI allI impI)
    fix k i
    show "entry_set (dj_status s') (k, i) \<in> {0, 1, 2}" using inv'(2) by (simp add: c sets status_ok_def)
    assume e: "entry_set (dj_status s') (k, i) = 2"
    show "info_index (entry (dj_status s') k i) \<in># labels (dj_queue s')"
      "label_key (dj_labels s' ! unat (info_index (entry (dj_status s') k i))) = (k, i)"
      using e waiting [of k i] take by (auto simp: c sets st(4) make_info_def q(2) u nth_append)
  next
    fix k i assume "entry_set (dj_status s') (k, i) = 1"
    then obtain j where "settled s j" "label_key (dj_labels s ! unat j) = (k, i)"
      using status_okD(5) [OF inv'(2), of "(k, i)"] by (auto simp: c sets split: if_splits)
    then show "\<exists>j. settled s' j \<and> label_key (dj_labels s' ! unat j) = (k, i)"
      using set old by (auto simp: c)
  qed (simp add: c st(1))
  show "search_inv se lm s'"
    using q(1) ql status labels card by (simp add: search_inv_def c)
qed

lemma search_invD:
  assumes "search_inv se lm s"
  shows "queue_ok (sort_cost (dj_labels s)) (buckets lm) (dj_queue s)" "queue_labels_ok s" "status_ok se s"
    "l \<in> set (dj_labels s) \<Longrightarrow> label_ok se lm s l"
    "length (dj_labels s) + card (unreached (se_reader se) (paths lm) (dj_status s)) \<le> max_labels lm"
    "j \<in># labels (dj_queue s) \<Longrightarrow> unat j < length (dj_labels s)" "count (labels (dj_queue s)) j \<le> 1"
    "unat j < length (dj_labels s) \<Longrightarrow> label_ok se lm s (dj_labels s ! unat j)"
proof -
  note a = assms [unfolded search_inv_def]
  show 1: "queue_labels_ok s" and "queue_ok (sort_cost (dj_labels s)) (buckets lm) (dj_queue s)" "status_ok se s"
    "length (dj_labels s) + card (unreached (se_reader se) (paths lm) (dj_status s)) \<le> max_labels lm"
    using a by blast+
  show 2: "l \<in> set (dj_labels s) \<Longrightarrow> label_ok se lm s l" for l using a by (elim conjE) (erule bspec)
  show "unat j < length (dj_labels s) \<Longrightarrow> label_ok se lm s (dj_labels s ! unat j)" by (rule 2) simp
  show "j \<in># labels (dj_queue s) \<Longrightarrow> unat j < length (dj_labels s)" "count (labels (dj_queue s)) j \<le> 1"
    using 1 unfolding queue_labels_ok_def by simp_all
qed

lemma add_to_queue:
  assumes inv: "search_inv se lm s" and l: "new_label_ok se lm s l" and len: "length (dj_labels s) < 2 ^ 28"
    and bound: "cap lm + buckets lm + 1 \<le> 2 ^ 24"
  shows "\<exists>q'. bq_add (sort_cost (dj_labels s @ [l])) (word_of_nat (length (dj_labels s))) (dj_queue s) = Inr q'
    \<and> queue_ok (sort_cost (dj_labels s @ [l])) (buckets lm) q'
    \<and> labels q' = add_mset (word_of_nat (length (dj_labels s))) (labels (dj_queue s)) \<and> bq_cost q' = bq_cost (dj_queue s)"
proof (rule queue.insert_law)
  show "queue_ok (sort_cost (dj_labels s @ [l])) (buckets lm) (dj_queue s)"
  proof (rule queue_ok_cong)
    show "queue_ok (sort_cost (dj_labels s)) (buckets lm) (dj_queue s)" by (rule search_invD(1) [OF inv])
    show "\<forall>i\<in>#labels (dj_queue s). sort_cost (dj_labels s) i = sort_cost (dj_labels s @ [l]) i"
      using search_invD(6) [OF inv] by (simp add: sort_cost_def nth_append_left)
  qed
  have "unat (word_of_nat (length (dj_labels s)) :: u32) = length (dj_labels s)"
    using len by (simp add: unsigned_of_nat take_bit_nat_eq_self)
  then show "cost_ok (buckets lm) (sort_cost (dj_labels s @ [l]) (word_of_nat (length (dj_labels s))))"
    using l cost_ok_cap [OF bound] by (simp add: sort_cost_def new_label_ok_def within_cost_def)
qed

lemma unreached_less:
  assumes "x \<in> slots rd n" "x \<notin> taken st" "taken st' = insert x (taken st)"
  shows "card (unreached rd n st) = card (unreached rd n st') + 1"
proof -
  have "unreached rd n st = insert x (unreached rd n st')" "x \<notin> unreached rd n st'"
    using assms by (auto simp: unreached_def)
  then show ?thesis by simp
qed

lemma written_taken:
  assumes "\<And>k i. entry st' k i = (if (k, i) = x then make_info Temporary idx else entry st k i)"
  shows "taken st' = insert x (taken st)"
proof -
  have "entry_set st' y = (if y = x then 2 else entry_set st y)" for y
    using assms [of "fst y" "snd y"] by (simp add: entry_set_def make_info_def)
  then show ?thesis by (auto simp: taken_def simp del: split_paired_All)
qed

lemma add_label_ok:
  assumes inv: "search_inv se lm s" and l: "new_label_ok se lm s l"
    and sok: "cap lm + buckets lm + 1 \<le> 2 ^ 24" "max_labels lm \<le> 2 ^ 28"
    and x: "fst (label_key l) \<in> dom (dj_status s)" "label_key l \<notin> taken (dj_status s)"
  shows "\<exists>s'. add_label l (label_key l) s = Inr s' \<and> search_inv se lm s' \<and> extends s s' \<and> work se lm s' = work se lm s
    \<and> dj_labels s' = dj_labels s @ [l] \<and> bq_cost (dj_queue s') = bq_cost (dj_queue s)
    \<and> labels (dj_queue s') = add_mset (word_of_nat (length (dj_labels s))) (labels (dj_queue s))
    \<and> taken (dj_status s') = insert (label_key l) (taken (dj_status s))"
proof -
  let ?idx = "word_of_nat (length (dj_labels s)) :: u32" and ?k = "fst (label_key l)" and ?i = "snd (label_key l)"
  have slot: "label_key l \<in> slots (se_reader se) (paths lm)" using l by (simp add: new_label_ok_def)
  note arr = status_okD(1) [OF search_invD(3) [OF inv]]
  have alloc: "dj_status s ?k \<noteq> None" using x(1) by auto
  have i: "?i < edge_count (se_reader se) ?k" using slot by (auto simp: slots_def)
  obtain st' where st: "es_store (label_key l) (make_info Temporary ?idx) (dj_status s) = Inr st'"
      "arrays_ok (se_reader se) st'" "\<forall>k. dj_status s k \<noteq> None \<longrightarrow> st' k \<noteq> None"
      "\<And>k i. entry st' k i = (if (k, i) = label_key l then make_info Temporary ?idx else entry (dj_status s) k i)"
    using es_store_entry [OF arr alloc i, of "make_info Temporary ?idx"] by (auto simp: prod_eq_iff)
  have dom: "dom (dj_status s) \<subseteq> dom st'" using st(3) by (auto simp: domIff)
  have card: "card (unreached (se_reader se) (paths lm) (dj_status s)) = card (unreached (se_reader se) (paths lm) st') + 1"
    by (rule unreached_less [OF slot x(2) written_taken [OF st(4)]])
  have room: "length (dj_labels s) + 1 + card (unreached (se_reader se) (paths lm) st') \<le> max_labels lm"
    using search_invD(5) [OF inv] card by simp
  have len: "length (dj_labels s) < 2 ^ 28" using room sok(2) by simp
  obtain q' where q: "bq_add (sort_cost (dj_labels s @ [l])) ?idx (dj_queue s) = Inr q'"
      "queue_ok (sort_cost (dj_labels s @ [l])) (buckets lm) q'" "labels q' = add_mset ?idx (labels (dj_queue s))"
      "bq_cost q' = bq_cost (dj_queue s)"
    using add_to_queue [OF inv l len sok(1)] by blast
  have "?k \<in> dom st'" using x(1) dom by blast
  note added = added_inv [OF inv l len q(2,3) st(2) dom this st(4) room]
  then show ?thesis
    using q st(1) card written_taken [OF st(4)] by (simp add: add_label_def Let_def work_def)
qed

section \<open>A better path to a waiting label\<close>

lemma label_key_update [simp]: "label_key (update_bd_label p c sc tc d r l) = label_key l"
  by (simp add: label_key_def)

lemma lower_sort:
  assumes "f32 b = b" and "c < a" and "b \<le> X"
  shows "f32 (fsub b (fsub a c)) = fsub b (fsub a c)" and "fsub b (fsub a c) \<le> X"
proof -
  have "0 \<le> fsub a c" using assms(2) by (intro float32.nonneg) simp
  then have "fsub b (fsub a c) \<le> b" using assms(1) by (intro float32.upper) (simp_all add: float32.representable_def)
  then show "fsub b (fsub a c) \<le> X" using assms(3) by simp
qed (simp add: float32.idem)

lemma improved_inv:
  fixes s i l q'
  defines "s' \<equiv> s\<lparr>dj_queue := q', dj_labels := (dj_labels s)[unat i := l]\<rparr>"
  assumes inv: "search_inv se lm s" and i: "i \<in># labels (dj_queue s)"
    and q: "queue_ok ((sort_cost (dj_labels s))(i := lab_sortcost l)) (buckets lm) q'" "labels q' = labels (dj_queue s)"
    and l: "label_ok se lm s l" "label_key l = label_key (dj_labels s ! unat i)"
      "cost (lab_cost l) \<le> cost (lab_cost (dj_labels s ! unat i))"
  shows "search_inv se lm s'" and "extends s s'" and "work se lm s' = work se lm s"
proof -
  have c: "dj_queue s' = q'" "dj_labels s' = (dj_labels s)[unat i := l]" "dj_status s' = dj_status s" by (simp_all add: s'_def)
  have set: "settled s' j \<longleftrightarrow> settled s j" "settled_count s' = settled_count s" for j
    by (simp_all add: settled_def settled_count_def c q(2))
  have len: "unat i < length (dj_labels s)" by (rule search_invD(6) [OF inv i])
  have nth: "dj_labels s' ! k = (if k = unat i then l else dj_labels s ! k)" if "k < length (dj_labels s)" for k
    using that by (simp add: c)
  have key: "label_key (dj_labels s' ! k) = label_key (dj_labels s ! k)" if "k < length (dj_labels s)" for k
    using nth [OF that] l(2) by simp
  have old: "dj_labels s' ! unat j = dj_labels s ! unat j" if "settled s j" for j
  proof -
    have "unat j \<noteq> unat i" using that i by (metis settled_def word_unat_eq_iff)
    then show ?thesis using that nth [of "unat j"] by (simp add: settled_def)
  qed
  show ext: "extends s s'"
    using nth l(2,3) by (auto simp: extends_def set old key) (simp_all add: c)
  have "queue_ok (sort_cost (dj_labels s')) (buckets lm) q'"
  proof (rule queue_ok_cong [OF q(1)])
    show "\<forall>j\<in>#labels q'. ((sort_cost (dj_labels s))(i := lab_sortcost l)) j = sort_cost (dj_labels s') j"
      using search_invD(6) [OF inv] nth by (auto simp: q(2) sort_cost_def word_unat_eq_iff)
  qed
  moreover have "queue_labels_ok s'" using search_invD(6,7) [OF inv] by (simp add: queue_labels_ok_def c q(2))
  moreover have "status_ok se s'"
    unfolding status_ok_def
  proof (intro conjI allI impI)
    fix k i assume e: "entry_set (dj_status s') (k, i) = 2"
    note w = status_okD(3,4) [OF search_invD(3) [OF inv], of k i]
    show "info_index (entry (dj_status s') k i) \<in># labels (dj_queue s')"
      "label_key (dj_labels s' ! unat (info_index (entry (dj_status s') k i))) = (k, i)"
      using w e key [OF search_invD(6) [OF inv w(1)]] by (simp_all add: c q(2))
  next
    fix k i assume "entry_set (dj_status s') (k, i) = 1"
    then obtain j where "settled s j" "label_key (dj_labels s ! unat j) = (k, i)"
      using status_okD(5) [OF search_invD(3) [OF inv], of "(k, i)"] by (auto simp: c)
    then show "\<exists>j. settled s' j \<and> label_key (dj_labels s' ! unat j) = (k, i)" using set old by metis
  qed (use status_okD(1,2) [OF search_invD(3) [OF inv]] in \<open>simp_all only: c\<close>)
  moreover have "\<forall>l\<in>set (dj_labels s'). label_ok se lm s' l"
    using extends_label_ok [OF ext] l(1) search_invD(4) [OF inv] set_update_subset_insert [of "dj_labels s" "unat i" l]
    by (auto simp: c)
  ultimately show "search_inv se lm s'" using search_invD(5) [OF inv] by (simp add: search_inv_def c)
  show "work se lm s' = work se lm s" by (simp add: work_def c q(2))
qed

lemma improve_label_ok:
  assumes inv: "search_inv se lm s" and i: "i \<in># labels (dj_queue s)" and bound: "cap lm + buckets lm + 1 \<le> 2 ^ 24"
    and c: "within_cost (cap lm) c" "within_cost (first_cost lm + 2 * step_cost lm * settled_count s) c" and j: "settled s j"
  shows "\<exists>s'. improve_label i j c tc d r s = Inr s' \<and> search_inv se lm s' \<and> extends s s' \<and> work se lm s' = work se lm s
    \<and> dj_status s' = dj_status s \<and> labels (dj_queue s') = labels (dj_queue s) \<and> bq_cost (dj_queue s') = bq_cost (dj_queue s)
    \<and> dj_labels s' = (dj_labels s)[unat i := (if cost c < cost (lab_cost (dj_labels s ! unat i))
        then update_bd_label j c (fsub (lab_sortcost (dj_labels s ! unat i)) (fsub (cost (lab_cost (dj_labels s ! unat i))) (cost c)))
          tc d r (dj_labels s ! unat i) else dj_labels s ! unat i)]"
proof -
  have len: "unat i < length (dj_labels s)" by (rule search_invD(6) [OF inv i])
  define a where "a = dj_labels s ! unat i"
  have a: "label_ok se lm s a" unfolding a_def by (rule search_invD(8) [OF inv len])
  show ?thesis
  proof (cases "cost c < cost (lab_cost a)")
    case True
    define ns where "ns = fsub (lab_sortcost a) (fsub (cost (lab_cost a)) (cost c))"
    define l where "l = update_bd_label j c ns tc d r a"
    have ns: "f32 ns = ns" "ns \<le> of_nat (cap lm)"
      using lower_sort [OF _ True, of "lab_sortcost a" "of_nat (cap lm)"] a by (simp_all add: ns_def label_ok_def)
    obtain m where m: "queue_at (sort_cost (dj_labels s)) (buckets lm) m (dj_queue s)" "bq_current (dj_queue s) \<le> buckets lm"
      using search_invD(1) [OF inv] by (auto simp: queue_ok_def)
    have ok: "cost_ok (buckets lm) (sort_cost (dj_labels s) i)" "cost_ok (buckets lm) ns"
      using a ns cost_ok_cap [OF bound] by (simp_all add: sort_cost_def a_def label_ok_def)
    have one: "count (labels (dj_queue s)) i = 1"
      using search_invD(7) [OF inv, of i] i by (metis count_greater_eq_one_iff le_antisym)
    obtain q' where q: "bq_decrease (sort_cost (dj_labels s)) i ns (dj_queue s) = Inr q'"
      "queue_at ((sort_cost (dj_labels s))(i := ns)) (buckets lm) m q'" "labels q' = labels (dj_queue s)"
      "bq_current q' = bq_current (dj_queue s)" "bq_cost q' = bq_cost (dj_queue s)"
      using decrease_at [OF m ok one] .
    have qok: "queue_ok ((sort_cost (dj_labels s))(i := lab_sortcost l)) (buckets lm) q'"
      using q(2,4) m(2) by (auto simp: queue_ok_def l_def)
    have l: "label_ok se lm s l" "label_key l = label_key (dj_labels s ! unat i)"
        "cost (lab_cost l) \<le> cost (lab_cost (dj_labels s ! unat i))"
      using a c j ns True by (simp_all add: label_ok_def l_def a_def)
    show ?thesis
      using True q(1,3,5) len improved_inv [OF inv i qok q(3) l]
      by (simp add: improve_label_def label_at_def Let_def ns_def l_def a_def)
  next
    case False
    then show ?thesis using inv len by (simp add: improve_label_def label_at_def a_def)
  qed
qed

section \<open>Every offer is made\<close>

fun visit_ok :: "search \<Rightarrow> visit \<Rightarrow> bool" where
  "visit_ok se (t, n, ot, g, e) \<longleftrightarrow>
     GetGraphTile (se_reader se) g = Some t \<and> unat (gid_id g) < length (rt_edges t) \<and> rt_edges t ! unat (gid_id g) = e
     \<and> unat (gid_value g) < 2 ^ 46"

lemma tile_in_graph: "graph_ok rd \<Longrightarrow> GetGraphTile rd g = Some t \<Longrightarrow> tile_ok rd t \<and> rd (tile_value g) = Some t"
  by (auto simp: graph_ok_def GetGraphTile_def split: if_splits)

lemma opposing_index:
  assumes "graph_ok rd" and "reversible rd" and "rd k = Some t" and "e \<in> set (rt_edges t)" and t2: "GetGraphTile rd (endnode e) = Some t2"
  shows "\<exists>m. tile_node t2 (endnode e) = Inr m
    \<and> unat (gid_id (gid_set_id (endnode e) (ucast (ni_edge_index m) + ucast (de_opp_index e)))) < length (rt_edges t2)"
proof -
  define m where "m = rt_nodes t2 ! unat (gid_id (endnode e))"
  have "tile_ok rd t" using assms(1,3) by (auto simp: graph_ok_def)
  then have node: "tile_node t2 (endnode e) = Inr m"
    using assms(4) t2 by (auto simp: tile_ok_def node_exists_def tile_node_def m_def)
  have idx: "unat (ni_edge_index m) + unat (de_opp_index e) < length (rt_edges t2)"
    using assms(2-5) by (auto simp: reversible_def m_def)
  have "length (rt_edges t2) < 2 ^ 21" using tile_in_graph [OF assms(1) t2] by (simp add: tile_ok_def)
  then have "unat (gid_id (gid_set_id (endnode e) (ucast (ni_edge_index m) + ucast (de_opp_index e)))) < length (rt_edges t2)"
    using idx by (simp add: set_id_fields unsigned_take_bit_eq unsigned_ucast_eq unat_word_ariths take_bit_nat_eq_self
      take_bit_nat_less_self_iff)
  then show ?thesis using node by blast
qed

lemma opposing_found:
  assumes "graph_ok (se_reader se)" and rev: "\<not> se_forward se \<Longrightarrow> reversible (se_reader se)" and v: "visit_ok se (t, n, ot, g, e)"
  shows "\<exists>found. opposing se t g = Inr found \<and> (\<forall>opp. found = Some opp \<longrightarrow> (snd opp = None \<longleftrightarrow> se_forward se))"
proof (cases "se_forward se")
  case False
  let ?rd = "se_reader se"
  have t: "GetGraphTile ?rd g = Some t" and e: "tile_edge t g = Inr e" and mem: "e \<in> set (rt_edges t)"
    using v by (auto simp: tile_edge_def)
  have rd: "?rd (tile_value g) = Some t" using tile_in_graph [OF assms(1) t] by simp
  have transit: "\<not> IsTransitLine e" using rev [OF False] rd mem by (auto simp: reversible_def)
  show ?thesis
  proof (cases "GetGraphTile ?rd (endnode e)")
    case (Some t2)
    then show ?thesis
      using opposing_index [OF assms(1) rev [OF False] rd mem Some] False t e transit
      by (auto simp: opposing_def GetOpposingEdgeId_def tile_edge_def)
  qed (use False t e transit in \<open>simp add: opposing_def GetOpposingEdgeId_def\<close>)
qed (simp add: opposing_def)

lemma opposing_edge_found:
  assumes "graph_ok rd" and "reversible rd" and "GetGraphTile rd g = Some t" and "unat (gid_id g) < length (rt_edges t)"
  shows "\<exists>oe. GetOpposingEdge rd g = Inr oe"
proof -
  let ?e = "rt_edges t ! unat (gid_id g)"
  have mem: "?e \<in> set (rt_edges t)" using assms(4) by simp
  have rd: "rd (tile_value g) = Some t" using tile_in_graph [OF assms(1,3)] by simp
  have transit: "\<not> IsTransitLine ?e" using assms(2) rd mem by (auto simp: reversible_def)
  show ?thesis
  proof (cases "GetGraphTile rd (endnode ?e)")
    case (Some t2)
    then show ?thesis
      using opposing_index [OF assms(1,2) rd mem Some] assms(3,4) transit
      by (auto simp: GetOpposingEdge_def GetOpposingEdgeId_def tile_edge_def)
  qed (use assms(3,4) transit in \<open>simp add: GetOpposingEdge_def GetOpposingEdgeId_def tile_edge_def is_valid_def gid_default_def\<close>)
qed

lemma edge_costs_total:
  assumes "costing_ok D (se_costing se)" and "opp = None \<or> opp_pred \<noteq> None"
  shows "\<exists>tc ec flow. edge_costs se e n pred tile opp opp_pred ot = Inr (tc, ec, flow)"
proof -
  have total: "\<exists>r. ct_EdgeCost ct e t ti = Inr r" "\<exists>c. ct_TransitionCost ct e n l t = Inr c"
    "\<exists>c. ct_TransitionCostReverse ct j n e e' t g ms it = Inr c"
    if "ct = se_costing se" for ct e t ti n l j e' g ms it
    using assms(1) that by (simp_all add: costing_ok_def)
  show ?thesis
  proof (cases opp)
    case None
    then show ?thesis
      using total(1) [OF refl, of e tile ot] total(2) [OF refl, of e n pred tile] by (auto simp: edge_costs_def)
  next
    case (Some o2)
    then obtain op where "opp_pred = Some op" using assms(2) by auto
    then show ?thesis
      using Some total(1) [OF refl, of "fst o2" "snd o2" ot]
        total(3) [OF refl, of "unat (de_localedgeidx e)" n "fst o2" op "snd o2" "label_edgeid pred" "lab_has_measured_speed pred" "lab_internal_turn pred"]
      by (cases o2) (auto simp: edge_costs_def)
  qed
qed

lemma edge_costs_charged:
  "edge_costs se e n pred tile opp opp_pred ot = Inr (tc, ec, flow) \<Longrightarrow> charged (se_costing se) tc \<and> charged (se_costing se) ec"
  unfolding edge_costs_def charged_def
  by (auto simp: Let_def bind_result_eq_Inr split: option.splits)

lemma edge_label_for_sel [simp]:
  "lab_predecessor (edge_label_for se pred i g e n opp opp_pred c tc d flow r m) = i"
  "lab_cost (edge_label_for se pred i g e n opp opp_pred c tc d flow r m) = c"
  "lab_sortcost (edge_label_for se pred i g e n opp opp_pred c tc d flow r m) = cost c"
  "label_endnode (edge_label_for se pred i g e n opp opp_pred c tc d flow r m) = endnode e"
  by (simp_all add: edge_label_for_def Let_def label_endnode_def endnode_def)

lemma path_id_kept: "ucast (ucast (label_path_id l) :: 7 word) = label_path_id l"
proof (rule bit_word_eqI)
  fix i
  show "bit (ucast (ucast (label_path_id l) :: 7 word) :: u8) i = bit (label_path_id l) i"
    using bit_imp_le_length [of "lab_path_id l" i] by (auto simp: label_path_id_def bit_ucast_iff)
qed

lemma edge_label_for_key:
  assumes "unat (gid_value g) < 2 ^ 46"
  shows "label_key (edge_label_for se pred i g e n opp opp_pred c tc d flow r m) = (status_key g (label_path_id pred), unat (gid_id g))"
proof -
  have "GraphId (take_bit 46 (gid_value g)) = g"
    using assms by (metis take_bit_self_iff graph_id.collapse)
  then show ?thesis by (simp add: label_key_def edge_label_for_def Let_def path_id_kept)
qed

lemma within_step:
  assumes "within_cost X c" "within_cost M c" "within_cost D a" "within_cost D b" and "M + 2 * D \<le> 2 ^ 24"
  shows "within_cost (M + 2 * D) (cost_add (cost_add c a) b)" and "within_cost (X + 2 * D) (cost_add (cost_add c a) b)"
proof -
  have step: "within_cost (Y + 2 * D) (cost_add (cost_add c a) b)" if "within_cost Y c" "Y + 2 * D \<le> 2 ^ 24" for Y
  proof -
    have eq: "Y + 2 * D = Y + D + D" by simp
    show ?thesis
      using that(2) unfolding eq by (intro within_cost_add [OF within_cost_add [OF that(1) assms(3)] assms(4)]) simp_all
  qed
  show far: "within_cost (M + 2 * D) (cost_add (cost_add c a) b)" by (rule step [OF assms(2,5)])
  show "within_cost (X + 2 * D) (cost_add (cost_add c a) b)"
  proof (cases "X \<le> M")
    case True
    then show ?thesis using step [OF assms(1)] assms(5) by simp
  next
    case False
    then show ?thesis by (intro within_cost_mono [OF far]) simp
  qed
qed

lemma labels_chained:
  assumes "search_inv se lm s" and "l \<in> set (dj_labels s)"
  shows "chained (dj_labels s) l"
  using search_invD(4) [OF assms] by (auto simp: chained_def label_ok_def settled_def)

lemma Restricted_total:
  assumes "search_inv se lm s" and "p \<in> set (dj_labels s)" and "tile_ok rd t"
  shows "\<exists>r. Restricted d active e p (dj_labels s) t g True None time tz = Inr (r, None)"
proof -
  obtain bs where "rt_forward_restrictions t = concat (map write_restriction bs)" "list_all vias_ok bs"
    using assms(3) by (auto simp: tile_ok_def)
  then show ?thesis
    using Restricted_verdict [OF labels_chained [OF assms(1,2)], of bs True t] labels_chained [OF assms(1)]
    by (auto simp: list_all_iff)
qed

lemma offered_made:
  assumes "offered se pred i opp_pred ls (t, n, ot, g, e) = Inr (Some f)"
  shows "\<exists>opp ec tc d flow r m. edge_costs se e n pred t (snd opp) opp_pred ot = Inr (tc, ec, flow)
    \<and> of_cost f = cost_add (cost_add (lab_cost pred) ec) tc
    \<and> of_label f = edge_label_for se pred i g e n opp opp_pred (of_cost f) tc d flow r m"
  using assms by (auto simp: bind_result_eq_Inr Let_def split: if_splits option.splits prod.splits) (metis snd_conv)+

lemma offered_cost:
  assumes "offered se pred i opp_pred ls v = Inr (Some f)"
  shows "\<exists>ec tc. of_cost f = cost_add (cost_add (lab_cost pred) ec) tc
    \<and> charged (se_costing se) ec \<and> charged (se_costing se) tc"
  using assms by (cases v) (blast dest: offered_made edge_costs_charged)

definition visit_key :: "bd_label \<Rightarrow> visit \<Rightarrow> u32 \<times> nat" where
  "visit_key pred v = (case v of (t, n, ot, g, e) \<Rightarrow> (status_key g (label_path_id pred), unat (gid_id g)))"

lemma offered_label:
  assumes "offered se pred i opp_pred ls v = Inr (Some f)" and "visit_ok se v"
  shows "label_key (of_label f) = visit_key pred v" "lab_cost (of_label f) = of_cost f"
    "lab_sortcost (of_label f) = cost (of_cost f)" "lab_predecessor (of_label f) = i"
    "label_endnode (of_label f) = endnode (snd (snd (snd (snd v))))"
proof -
  obtain t n ot g e where v: "v = (t, n, ot, g, e)" by (cases v)
  obtain opp tc d flow r m where "of_label f = edge_label_for se pred i g e n opp opp_pred (of_cost f) tc d flow r m"
    using offered_made [OF assms(1) [unfolded v]] by blast
  then show "label_key (of_label f) = visit_key pred v" "lab_cost (of_label f) = of_cost f"
    "lab_sortcost (of_label f) = cost (of_cost f)" "lab_predecessor (of_label f) = i"
    "label_endnode (of_label f) = endnode (snd (snd (snd (snd v))))"
    using assms(2) by (auto simp: v visit_key_def edge_label_for_key)
qed

lemma visit_slot:
  assumes "graph_ok (se_reader se)" and "visit_ok se v" and "label_ok se lm s pred"
  shows "visit_key pred v \<in> slots (se_reader se) (paths lm)"
proof -
  obtain t n ot g e where v: "v = (t, n, ot, g, e)" by (cases v)
  have p: "label_path_id pred \<le> kMaxMultiPathId"
  proof -
    have "unat (label_path_id pred) < 2 ^ 7"
      using unsigned_less [of "lab_path_id pred", where ?'a = nat]
      by (simp add: label_path_id_def unsigned_ucast_eq take_bit_nat_eq_self)
    then show ?thesis by (simp add: kMaxMultiPathId_def word_le_nat_alt)
  qed
  have "unat (drop_bit 25 (status_key (label_edgeid pred) (label_path_id pred))) < paths lm"
    using assms(3) by (auto simp: label_ok_def label_key_def slots_def)
  moreover have "edge_count (se_reader se) (status_key g (label_path_id pred)) = length (rt_edges t)"
    using tile_in_graph [OF assms(1)] assms(2) by (auto simp: v edge_count_def status_key_fields(1) [OF p])
  ultimately show ?thesis
    using assms(2) by (simp add: v visit_key_def slots_def status_key_fields(2) [OF p])
qed

lemma offered_ok:
  assumes sok: "search_ok se lm" and inv: "search_inv se lm s" and v: "visit_ok se v"
    and i: "settled s i" "dj_labels s ! unat i = pred" and opp: "se_forward se \<or> opp_pred \<noteq> None"
    and c: "within_cost (far lm) (lab_cost pred)" "within_cost (first_cost lm + 2 * step_cost lm * k) (lab_cost pred)"
      "k < settled_count s"
  shows "\<exists>found. offered se pred i opp_pred (dj_labels s) v = Inr found
    \<and> (\<forall>f. found = Some f \<longrightarrow> new_label_ok se lm s (of_label f))"
proof -
  obtain t n ot g e where v5: "v = (t, n, ot, g, e)" by (cases v)
  have t: "tile_ok (se_reader se) t" using v tile_in_graph [OF search_okD(1) [OF sok], of g t] by (simp add: v5)
  have mem: "pred \<in> set (dj_labels s)" using i by (auto simp: settled_def)
  have pred: "label_ok se lm s pred" by (rule search_invD(4) [OF inv mem])
  obtain found where opposing: "opposing se t g = Inr found"
      "\<forall>opp. found = Some opp \<longrightarrow> (snd opp = None \<longleftrightarrow> se_forward se)"
    using opposing_found [OF search_okD(1) [OF sok] search_okD(2) [OF sok]] v unfolding v5 by blast
  have restr: "\<exists>r. Restricted (ct_dyn (se_costing se)) (ct_active (se_costing se)) e pred (dj_labels s) t g True None time tz = Inr (r, None)"
    for time tz by (rule Restricted_total [OF inv mem t])
  have costs: "\<exists>tc ec flow. edge_costs se e n pred t (snd o2) opp_pred ot = Inr (tc, ec, flow)" if "found = Some o2" for o2
    by (rule edge_costs_total [OF search_okD(3) [OF sok]]) (use that opposing(2) opp in auto)
  have "\<exists>f. offered se pred i opp_pred (dj_labels s) v = Inr f"
  proof (cases found)
    case (Some o2)
    obtain al r m where a: "edge_allowed se e pred t g o2 (check_time ot n) = (al, r, m)" by (metis prod_cases3)
    obtain b where b: "Restricted (ct_dyn (se_costing se)) (ct_active (se_costing se)) e pred (dj_labels s) t g True None
        (fst (check_time ot n)) (snd (check_time ot n)) = Inr (b, None)" using restr by blast
    show ?thesis using costs [OF Some] by (auto simp: v5 opposing(1) Some a b Let_def)
  qed (simp add: v5 opposing(1))
  then obtain f where f: "offered se pred i opp_pred (dj_labels s) v = Inr f" ..
  have "new_label_ok se lm s (of_label f')" if "f = Some f'" for f'
  proof -
    note off = f [unfolded that]
    obtain ec tc where cost: "of_cost f' = cost_add (cost_add (lab_cost pred) ec) tc"
      "charged (se_costing se) ec" "charged (se_costing se) tc" using offered_cost [OF off] by blast
    have D: "within_cost (step_cost lm) ec" "within_cost (step_cost lm) tc"
      using search_okD(3) [OF sok] cost(2,3) by (simp_all add: costing_ok_def)
    have "far lm + 2 * step_cost lm \<le> 2 ^ 24" using search_okD(4) [OF sok] by (simp add: cap_def)
    note w = within_step [OF c(2,1) D this]
    have "within_cost (first_cost lm + 2 * step_cost lm * settled_count s) (of_cost f')"
    proof (rule within_cost_mono)
      have "2 * step_cost lm * (k + 1) \<le> 2 * step_cost lm * settled_count s" using c(3) by (intro mult_le_mono2) simp
      then show "first_cost lm + 2 * step_cost lm * k + 2 * step_cost lm \<le> first_cost lm + 2 * step_cost lm * settled_count s"
        by simp
    qed (use w(2) in \<open>simp add: cost(1)\<close>)
    moreover have "node_exists (se_reader se) (endnode e)" using t v by (auto simp: v5 tile_ok_def)
    ultimately show ?thesis
      using offered_label [OF off v] visit_slot [OF search_okD(1) [OF sok] v pred] w(1) i(1)
      by (simp add: new_label_ok_def cap_def cost(1) v5)
  qed
  then show ?thesis using f by blast
qed

end
