(* ===== verification/Expansion_Correct.thy ===== *)
theory Expansion_Correct
  imports Expansion_Invariant
begin

text \<open>
  The correctness of the search of \<open>Expansion\<close>. The labels form a tree: every label is an offer
  of its settled predecessor. The search is complete: when it ends, every offer of a label that
  expanded is to an edge with a label, and for costs in whole numbers that label is not dearer
  than the offer. It always ends: every round settles a label and pays for new ones with
  edges that were not reached.
\<close>

section \<open>What later steps cannot change\<close>

lemma pred_of_frozen:
  assumes "extends s s'" and "search_inv se lm s" and "p \<in> set (dj_labels s)"
  shows "pred_of (dj_labels s') p = pred_of (dj_labels s) p" and "pred_of (dj_labels s) p \<in> set (dj_labels s)"
  using search_invD(4) [OF assms(2,3)] extendsD(4) [OF assms(1)] assms(3)
  by (auto simp: pred_of_def label_ok_def settled_def)

lemma path_end_frozen:
  assumes "extends s s'" and "search_inv se lm s" and "p \<in> set (dj_labels s)"
  shows "path_end (dj_labels s') p vias = path_end (dj_labels s) p vias"
  using assms(3) by (induction vias arbitrary: p) (simp_all add: pred_of_frozen [OF assms(1,2)])

lemma Restricted_frozen:
  assumes ext: "extends s s'" and inv: "search_inv se lm s" "search_inv se lm s'" and p: "p \<in> set (dj_labels s)" "p \<in> set (dj_labels s')"
    and t: "tile_ok rd t"
  shows "Restricted d active e p (dj_labels s') t g True None time tz = Restricted d active e p (dj_labels s) t g True None time tz"
proof -
  obtain bs where bs: "rt_forward_restrictions t = concat (map write_restriction bs)" "list_all vias_ok bs"
    using t by (auto simp: tile_ok_def)
  have "applying d (dj_labels s') True g p bs = applying d (dj_labels s) True g p bs"
    by (simp add: applying_def applies_to_def path_end_frozen [OF ext inv(1) p(1)])
  moreover have "list_all (chained (dj_labels s)) (dj_labels s)" "list_all (chained (dj_labels s')) (dj_labels s')"
    using labels_chained [OF inv(1)] labels_chained [OF inv(2)] by (simp_all add: list_all_iff)
  ultimately show ?thesis
    using Restricted_verdict [OF labels_chained [OF inv(1) p(1)], of bs True t]
      Restricted_verdict [OF labels_chained [OF inv(2) p(2)], of bs True t] bs by simp
qed

lemma offered_frozen:
  assumes ext: "extends s s'" and inv: "search_inv se lm s" "search_inv se lm s'" and p: "p \<in> set (dj_labels s)" "p \<in> set (dj_labels s')"
    and v: "visit_ok se v" and g: "graph_ok (se_reader se)"
  shows "offered se p i opp_pred (dj_labels s') v = offered se p i opp_pred (dj_labels s) v"
proof -
  obtain t n ot g e where v5: "v = (t, n, ot, g, e)" by (cases v)
  have "tile_ok (se_reader se) t" using v tile_in_graph [OF g, of g t] by (simp add: v5)
  from Restricted_frozen [OF ext inv p this] show ?thesis by (simp add: v5 cong: if_cong)
qed

section \<open>Exact costs\<close>

text \<open>
  With costs in whole numbers nothing is rounded. Then the current cost of the queue separates
  the settled labels from the others.
\<close>

definition whole :: "rat \<Rightarrow> bool" where
  "whole c \<longleftrightarrow> (\<exists>k::nat. c = of_nat k)"

definition whole_costs :: "costing \<Rightarrow> bool" where
  "whole_costs ct \<longleftrightarrow> (\<forall>c. charged ct c \<longrightarrow> whole (cost c))"

definition exact_inv :: "dijkstras \<Rightarrow> bool" where
  "exact_inv s \<longleftrightarrow>
     (\<forall>l\<in>set (dj_labels s). whole (cost (lab_cost l)) \<and> lab_sortcost l = cost (lab_cost l))
     \<and> (\<forall>i\<in>#labels (dj_queue s). bq_cost (dj_queue s) \<le> cost (lab_cost (dj_labels s ! unat i)))
     \<and> (\<forall>i. settled s i \<longrightarrow> cost (lab_cost (dj_labels s ! unat i)) \<le> bq_cost (dj_queue s))"

lemma whole_add: "whole a \<Longrightarrow> whole b \<Longrightarrow> a + b \<le> 2 ^ 24 \<Longrightarrow> fadd a b = a + b \<and> whole (a + b)"
proof -
  assume "whole a" "whole b" and le: "a + b \<le> 2 ^ 24"
  then obtain i j :: nat where ij: "a = of_nat i" "b = of_nat j" by (auto simp: whole_def)
  have "of_nat (i + j) \<le> (of_nat (2 ^ 24) :: rat)" using le ij by simp
  then have n: "i + j \<le> 2 ^ 24" by (simp only: of_nat_le_iff)
  have "f32 (of_nat (i + j)) = of_nat (i + j)" by (rule float32.exact_nat) (use n in simp)
  then show ?thesis using ij by (auto simp: whole_def intro: exI [of _ "i + j"])
qed

lemma whole_sub:
  assumes "whole a" and "whole c" and "c \<le> a" and "a \<le> 2 ^ 24"
  shows "fsub a (fsub a c) = c"
proof -
  obtain i j :: nat where ij: "a = of_nat i" "c = of_nat j" using assms by (auto simp: whole_def)
  have ji: "j \<le> i" using assms(3) ij by simp
  have "of_nat i \<le> (of_nat (2 ^ 24) :: rat)" using assms(4) ij by simp
  then have i: "i \<le> 2 ^ 24" by (simp only: of_nat_le_iff)
  have d: "a - c = of_nat (i - j)" using ij ji by (simp add: of_nat_diff)
  have "f32 (of_nat (i - j)) = of_nat (i - j)" "f32 (of_nat j) = of_nat j"
    by (rule float32.exact_nat; use i ji in simp)+
  then show ?thesis by (simp add: d ij ji of_nat_diff)
qed

lemma offered_whole:
  assumes off: "offered se pred i opp_pred ls v = Inr (Some f)" and wc: "whole_costs (se_costing se)"
    and sok: "search_ok se lm" and p: "whole (cost (lab_cost pred))" "within_cost (far lm) (lab_cost pred)"
  shows "whole (cost (of_cost f)) \<and> cost (lab_cost pred) \<le> cost (of_cost f)"
proof -
  obtain ec tc where c: "of_cost f = cost_add (cost_add (lab_cost pred) ec) tc"
    "charged (se_costing se) ec" "charged (se_costing se) tc" using offered_cost [OF off] by blast
  have w: "whole (cost ec)" "whole (cost tc)" using wc c(2,3) by (simp_all add: whole_costs_def)
  have le: "cost ec \<le> of_nat (step_cost lm)" "cost tc \<le> of_nat (step_cost lm)" "cost (lab_cost pred) \<le> of_nat (far lm)"
    using search_okD(3) [OF sok] c(2,3) p(2) by (auto simp: costing_ok_def within_cost_def)
  have "of_nat (far lm + 2 * step_cost lm) \<le> (of_nat (2 ^ 24) :: rat)"
    using search_okD(4) [OF sok] by (simp only: of_nat_le_iff cap_def)
  then have b: "cost (lab_cost pred) + cost ec + cost tc \<le> 2 ^ 24" using le by simp
  have nonneg: "0 \<le> cost ec" "0 \<le> cost tc" using w by (auto simp: whole_def)
  have 1: "fadd (cost (lab_cost pred)) (cost ec) = cost (lab_cost pred) + cost ec \<and> whole (cost (lab_cost pred) + cost ec)"
    by (rule whole_add [OF p(1) w(1)]) (use b nonneg in linarith)
  then have "fadd (cost (lab_cost pred) + cost ec) (cost tc) = cost (lab_cost pred) + cost ec + cost tc
      \<and> whole (cost (lab_cost pred) + cost ec + cost tc)"
    using b by (intro whole_add w) simp_all
  then show ?thesis using 1 nonneg by (simp add: c(1) cost_add_def)
qed

section \<open>Visiting an edge\<close>

text \<open>
  \<open>served\<close>: the offer of a visit was taken up; with exact costs by a label that is not
  dearer. \<open>made_by\<close>: a label that the expansion of \<open>i\<close> wrote is one of its offers.
\<close>

definition served :: "bool \<Rightarrow> search \<Rightarrow> dijkstras \<Rightarrow> u32 \<Rightarrow> directed_edge option \<Rightarrow> visit \<Rightarrow> bool" where
  "served exact se s i opp_pred v \<longleftrightarrow>
     (let p = dj_labels s ! unat i in
      \<forall>f. offered se p i opp_pred (dj_labels s) v = Inr (Some f) \<longrightarrow>
        (visit_key p v \<in> taken (dj_status s)
         \<and> (exact \<longrightarrow> (\<exists>l\<in>set (dj_labels s). label_key l = visit_key p v \<and> cost (lab_cost l) \<le> cost (of_cost f)))))"

definition made_by :: "search \<Rightarrow> bd_label list \<Rightarrow> u32 \<Rightarrow> directed_edge option \<Rightarrow> visit set \<Rightarrow> bd_label \<Rightarrow> bool" where
  "made_by se ls i opp_pred V l \<longleftrightarrow> lab_predecessor l = i
     \<and> (\<exists>v\<in>V. \<exists>f. offered se (ls ! unat i) i opp_pred ls v = Inr (Some f)
          \<and> label_key l = visit_key (ls ! unat i) v \<and> lab_cost l = of_cost f)"

text \<open>
  What holds between the visits of the edges of a label: \<open>V\<close> are those visited so far since the
  state \<open>s0\<close>.
\<close>

definition expanded :: "bool \<Rightarrow> search \<Rightarrow> limits \<Rightarrow> u32 \<Rightarrow> directed_edge option \<Rightarrow> dijkstras \<Rightarrow> visit set \<Rightarrow> dijkstras \<Rightarrow> bool" where
  "expanded exact se lm i opp_pred s0 V s \<longleftrightarrow>
     search_inv se lm s \<and> extends s0 s \<and> work se lm s = work se lm s0 \<and> bq_cost (dj_queue s) = bq_cost (dj_queue s0)
     \<and> settled s = settled s0
     \<and> (\<forall>v\<in>V. visit_ok se v \<and> served exact se s i opp_pred v)
     \<and> (\<forall>l\<in>set (dj_labels s). l \<in> set (dj_labels s0) \<or> made_by se (dj_labels s) i opp_pred V l)
     \<and> (exact \<longrightarrow> exact_inv s)"

text \<open>The label being expanded.\<close>

definition expanding :: "bool \<Rightarrow> search \<Rightarrow> limits \<Rightarrow> u32 \<Rightarrow> directed_edge option \<Rightarrow> dijkstras \<Rightarrow> bool" where
  "expanding exact se lm i opp_pred s0 \<longleftrightarrow>
     (let p = dj_labels s0 ! unat i in
      search_ok se lm \<and> search_inv se lm s0 \<and> settled s0 i \<and> (se_forward se \<or> opp_pred \<noteq> None)
      \<and> within_cost (far lm) (lab_cost p)
      \<and> (\<exists>k. k < settled_count s0 \<and> within_cost (first_cost lm + 2 * step_cost lm * k) (lab_cost p))
      \<and> (exact \<longrightarrow> exact_inv s0 \<and> whole_costs (se_costing se) \<and> bq_cost (dj_queue s0) \<le> cost (lab_cost p)))"

lemma expandingD:
  assumes "expanding exact se lm i opp_pred s0" and "extends s0 s"
  shows "search_ok se lm" "search_inv se lm s0" "settled s0 i" "settled s i" "dj_labels s ! unat i = dj_labels s0 ! unat i"
    "se_forward se \<or> opp_pred \<noteq> None" "within_cost (far lm) (lab_cost (dj_labels s0 ! unat i))"
    "\<exists>k. k < settled_count s \<and> within_cost (first_cost lm + 2 * step_cost lm * k) (lab_cost (dj_labels s0 ! unat i))"
    "exact \<Longrightarrow> whole_costs (se_costing se)" "exact \<Longrightarrow> bq_cost (dj_queue s0) \<le> cost (lab_cost (dj_labels s0 ! unat i))"
    "exact \<Longrightarrow> whole (cost (lab_cost (dj_labels s0 ! unat i)))"
proof -
  note a = assms(1) [unfolded expanding_def Let_def]
  show 1: "settled s0 i" "search_ok se lm" "search_inv se lm s0" "se_forward se \<or> opp_pred \<noteq> None"
    "within_cost (far lm) (lab_cost (dj_labels s0 ! unat i))" using a by blast+
  show "exact \<Longrightarrow> whole_costs (se_costing se)" "exact \<Longrightarrow> bq_cost (dj_queue s0) \<le> cost (lab_cost (dj_labels s0 ! unat i))"
    using a by blast+
  show "settled s i" "dj_labels s ! unat i = dj_labels s0 ! unat i" using extendsD(3,4) [OF assms(2)] 1(1) by simp_all
  show "\<exists>k. k < settled_count s \<and> within_cost (first_cost lm + 2 * step_cost lm * k) (lab_cost (dj_labels s0 ! unat i))"
    using a extendsD(2) [OF assms(2)] by (meson less_le_trans)
  show "exact \<Longrightarrow> whole (cost (lab_cost (dj_labels s0 ! unat i)))"
    using a 1(1) unfolding exact_inv_def settled_def by (meson nth_mem)
qed

lemma expanded_start: "expanding exact se lm i opp_pred s0 \<Longrightarrow> expanded exact se lm i opp_pred s0 {} s0"
  by (auto simp: expanding_def expanded_def Let_def)

lemma served_mono:
  assumes ext: "extends s s'" and inv: "search_inv se lm s" "search_inv se lm s'" and i: "settled s i"
    and v: "visit_ok se v" "graph_ok (se_reader se)" and srv: "served exact se s i opp_pred v"
  shows "served exact se s' i opp_pred v"
proof -
  let ?p = "dj_labels s ! unat i"
  have same: "dj_labels s' ! unat i = ?p" "settled s' i" using extendsD(3,4) [OF ext] i by simp_all
  then have mem: "?p \<in> set (dj_labels s)" "?p \<in> set (dj_labels s')" using i by (auto simp: settled_def) (metis nth_mem)
  note fr = offered_frozen [OF ext inv mem v, of i opp_pred]
  have keep: "\<exists>l'\<in>set (dj_labels s'). label_key l' = label_key l \<and> cost (lab_cost l') \<le> cost (lab_cost l)"
    if "l \<in> set (dj_labels s)" for l
  proof -
    obtain j where j: "j < length (dj_labels s)" "l = dj_labels s ! j" using \<open>l \<in> set (dj_labels s)\<close> by (auto simp: in_set_conv_nth)
    have "dj_labels s' ! j \<in> set (dj_labels s')" using j(1) extendsD(1) [OF ext] by (intro nth_mem) simp
    then show ?thesis using extendsD(5,6) [OF ext j(1)] j(2) by auto
  qed
  show ?thesis
    unfolding served_def Let_def same(1) fr
  proof (intro allI impI conjI)
    fix f assume f: "offered se ?p i opp_pred (dj_labels s) v = Inr (Some f)"
    note old = srv [unfolded served_def Let_def, rule_format, OF f]
    show "visit_key ?p v \<in> taken (dj_status s')" by (rule extendsD(8) [OF ext conjunct1 [OF old]])
    assume exact
    then obtain l where l: "l \<in> set (dj_labels s)" "label_key l = visit_key ?p v" "cost (lab_cost l) \<le> cost (of_cost f)"
      using old by blast
    then show "\<exists>l\<in>set (dj_labels s'). label_key l = visit_key ?p v \<and> cost (lab_cost l) \<le> cost (of_cost f)"
      using keep [OF l(1)] order_trans by metis
  qed
qed

lemma made_by_mono:
  assumes ext: "extends s s'" and inv: "search_inv se lm s" "search_inv se lm s'" and i: "settled s i"
    and v: "\<forall>v\<in>V. visit_ok se v" "graph_ok (se_reader se)" and m: "made_by se (dj_labels s) i opp_pred V l" and W: "V \<subseteq> W"
  shows "made_by se (dj_labels s') i opp_pred W l"
proof -
  let ?p = "dj_labels s ! unat i"
  have same: "dj_labels s' ! unat i = ?p" "settled s' i" using extendsD(3,4) [OF ext] i by simp_all
  then have mem: "?p \<in> set (dj_labels s)" "?p \<in> set (dj_labels s')" using i by (auto simp: settled_def) (metis nth_mem)
  have "offered se ?p i opp_pred (dj_labels s') v = offered se ?p i opp_pred (dj_labels s) v" if "v \<in> V" for v
    by (rule offered_frozen [OF ext inv mem _ v(2)]) (use v(1) that in blast)
  then show ?thesis using m W unfolding made_by_def same(1) by (metis subsetD)
qed

lemma exact_added:
  assumes ex: "exact_inv s" and inv: "search_inv se lm s" and len: "length (dj_labels s) < 2 ^ 28"
    and s': "dj_labels s' = dj_labels s @ [l]" "bq_cost (dj_queue s') = bq_cost (dj_queue s)"
      "labels (dj_queue s') = add_mset (word_of_nat (length (dj_labels s))) (labels (dj_queue s))"
    and l: "whole (cost (lab_cost l))" "lab_sortcost l = cost (lab_cost l)" "bq_cost (dj_queue s) \<le> cost (lab_cost l)"
  shows "exact_inv s'"
proof -
  have u: "unat (word_of_nat (length (dj_labels s)) :: u32) = length (dj_labels s)"
    using len by (simp add: unsigned_of_nat take_bit_nat_eq_self)
  have q: "\<forall>i\<in>#labels (dj_queue s). unat i < length (dj_labels s)" using search_invD(6) [OF inv] by blast
  have set: "settled s' i \<longleftrightarrow> settled s i" for i by (rule added_settled(1) [OF len s'(1,3)])
  show ?thesis
    unfolding exact_inv_def set
  proof (intro conjI ballI allI impI)
    fix i assume "settled s i"
    then show "cost (lab_cost (dj_labels s' ! unat i)) \<le> bq_cost (dj_queue s')"
      using ex by (simp add: exact_inv_def settled_def s' nth_append)
  next
    fix i assume "i \<in># labels (dj_queue s')"
    then show "bq_cost (dj_queue s') \<le> cost (lab_cost (dj_labels s' ! unat i))"
      using ex q l(3) by (auto simp: exact_inv_def s' u nth_append)
  qed (use ex l in \<open>auto simp: exact_inv_def s'\<close>)
qed

lemma exact_improved:
  assumes ex: "exact_inv s" and inv: "search_inv se lm s" and i: "i \<in># labels (dj_queue s)"
    and s': "dj_labels s' = (dj_labels s)[unat i := l]" "bq_cost (dj_queue s') = bq_cost (dj_queue s)"
      "labels (dj_queue s') = labels (dj_queue s)"
    and l: "whole (cost (lab_cost l))" "lab_sortcost l = cost (lab_cost l)" "bq_cost (dj_queue s) \<le> cost (lab_cost l)"
  shows "exact_inv s'"
proof -
  have set: "settled s' j \<longleftrightarrow> settled s j" for j by (simp add: settled_def s')
  have other: "dj_labels s' ! unat j = dj_labels s ! unat j" if "j \<noteq> i" for j
    using that by (simp add: s' word_unat_eq_iff)
  have here: "dj_labels s' ! unat i = l" using search_invD(6) [OF inv i] by (simp add: s')
  show ?thesis
    unfolding exact_inv_def set
  proof (intro conjI ballI allI impI)
    fix j assume j: "settled s j"
    then have "j \<noteq> i" using i by (auto simp: settled_def)
    then show "cost (lab_cost (dj_labels s' ! unat j)) \<le> bq_cost (dj_queue s')"
      using ex j by (simp add: exact_inv_def other s'(2))
  next
    fix j assume "j \<in># labels (dj_queue s')"
    then show "bq_cost (dj_queue s') \<le> cost (lab_cost (dj_labels s' ! unat j))"
      using ex l(3) by (cases "j = i") (simp_all add: exact_inv_def other here s'(2,3))
  next
    fix k assume "k \<in> set (dj_labels s')"
    then have "k = l \<or> k \<in> set (dj_labels s)"
      using set_update_subset_insert [of "dj_labels s" "unat i" l] by (auto simp: s'(1))
    then show "whole (cost (lab_cost k))" "lab_sortcost k = cost (lab_cost k)" using ex l by (auto simp: exact_inv_def)
  qed
qed

lemma expanded_more:
  assumes x: "expanding exact se lm i opp_pred s0" and e: "expanded exact se lm i opp_pred s0 V s"
    and s': "search_inv se lm s'" "extends s s'" "work se lm s' = work se lm s" "bq_cost (dj_queue s') = bq_cost (dj_queue s)"
      "settled s' = settled s"
    and ex: "exact \<Longrightarrow> exact_inv s'" and W: "\<forall>w\<in>W. visit_ok se w \<and> served exact se s' i opp_pred w"
    and new: "\<forall>l\<in>set (dj_labels s'). l \<in> set (dj_labels s) \<or> made_by se (dj_labels s') i opp_pred W l"
  shows "expanded exact se lm i opp_pred s0 (V \<union> W) s'"
proof -
  have inv: "search_inv se lm s" and ext: "extends s0 s" and V: "\<forall>v\<in>V. visit_ok se v"
    using e by (simp_all add: expanded_def)
  note i = expandingD(4) [OF x ext] and g = search_okD(1) [OF expandingD(1) [OF x ext]]
  have "made_by se (dj_labels s') i opp_pred (V \<union> W) l"
    if l: "l \<in> set (dj_labels s')" "l \<notin> set (dj_labels s0)" for l
  proof (cases "l \<in> set (dj_labels s)")
    case True
    then have "made_by se (dj_labels s) i opp_pred V l" using e l(2) by (auto simp: expanded_def)
    then show ?thesis using made_by_mono [OF s'(2) inv s'(1) i V g] by blast
  next
    case False
    then have "made_by se (dj_labels s') i opp_pred W l" using new l(1) by blast
    then show ?thesis by (auto simp: made_by_def)
  qed
  moreover have "served exact se s' i opp_pred w" if "w \<in> V" for w
    by (rule served_mono [OF s'(2) inv s'(1) i _ g]) (use e that in \<open>simp_all add: expanded_def\<close>)
  ultimately show ?thesis
    using e s' ex W extends_trans [OF ext s'(2)] unfolding expanded_def by auto
qed

lemma expanded_step:
  assumes "expanding exact se lm i opp_pred s0" and "expanded exact se lm i opp_pred s0 V s" and "visit_ok se v"
    and "search_inv se lm s'" "extends s s'" "work se lm s' = work se lm s" "bq_cost (dj_queue s') = bq_cost (dj_queue s)"
      "settled s' = settled s"
    and "exact \<Longrightarrow> exact_inv s'" and "served exact se s' i opp_pred v"
    and "\<forall>l\<in>set (dj_labels s'). l \<in> set (dj_labels s) \<or> made_by se (dj_labels s') i opp_pred {v} l"
  shows "expanded exact se lm i opp_pred s0 (insert v V) s'"
  using expanded_more [OF assms(1,2,4-9), of "{v}"] assms by simp

text \<open>Allocating an array of the status, or telling the derived class, changes nothing here.\<close>

lemma same_statuses:
  assumes inv: "search_inv se lm s" and s': "dj_labels s' = dj_labels s" "dj_queue s' = dj_queue s"
    and st: "arrays_ok (se_reader se) (dj_status s')" "dom (dj_status s) \<subseteq> dom (dj_status s')" "entry (dj_status s') = entry (dj_status s)"
  shows "search_inv se lm s'" and "extends s s'" and "work se lm s' = work se lm s" and "exact_inv s' = exact_inv s"
    and "settled s' = settled s"
proof -
  have set: "settled s' = settled s" "settled_count s' = settled_count s" by (simp_all add: settled_def fun_eq_iff settled_count_def s')
  have taken: "entry_set (dj_status s') = entry_set (dj_status s)" "taken (dj_status s') = taken (dj_status s)"
    by (simp_all add: entry_set_def fun_eq_iff taken_def st(3))
  show ext: "extends s s'" using st(2) by (simp add: extends_def set taken s')
  have "status_ok se s'"
    using search_invD(3) [OF inv] st(1) unfolding status_ok_def set taken s' st(3) by blast
  moreover have "queue_labels_ok s'" using search_invD(2) [OF inv] by (simp add: queue_labels_ok_def s')
  moreover have "\<forall>l\<in>set (dj_labels s'). label_ok se lm s' l"
    using search_invD(4) [OF inv] extends_label_ok [OF ext] by (simp add: s')
  ultimately show "search_inv se lm s'"
    using search_invD(1,5) [OF inv] by (simp add: search_inv_def s' unreached_def taken)
  show "work se lm s' = work se lm s" by (simp add: work_def s' unreached_def taken)
  show "exact_inv s' = exact_inv s" by (simp add: exact_inv_def s' set)
  show "settled s' = settled s" by (rule set)
qed

lemma expanded_same:
  assumes x: "expanding exact se lm i opp_pred s0" and e: "expanded exact se lm i opp_pred s0 V s"
    and s': "dj_labels s' = dj_labels s" "dj_queue s' = dj_queue s"
    and st: "arrays_ok (se_reader se) (dj_status s')" "dom (dj_status s) \<subseteq> dom (dj_status s')" "entry (dj_status s') = entry (dj_status s)"
  shows "expanded exact se lm i opp_pred s0 V s'" and "extends s s'"
proof -
  have inv: "search_inv se lm s" using e by (simp add: expanded_def)
  note same = same_statuses [OF inv s' st]
  show "extends s s'" by (rule same(2))
  show "expanded exact se lm i opp_pred s0 V s'"
    using expanded_more [OF x e same(1-3) _ same(5), of "{}"] s' same(4) e by (auto simp: expanded_def)
qed

lemma status_set_cases:
  assumes "status_ok se s"
  shows "\<exists>es. status_set (entry (dj_status s) k i) = Inr es \<and> es \<noteq> Skipped
    \<and> (es = Permanent \<longleftrightarrow> entry_set (dj_status s) (k, i) = 1) \<and> (es = Temporary \<longleftrightarrow> entry_set (dj_status s) (k, i) = 2)
    \<and> (es = Unreached_or_reset \<longleftrightarrow> (k, i) \<notin> taken (dj_status s))"
  using status_okD(2) [OF assms, of "(k, i)"] by (auto simp: entry_set_def status_set_def taken_def)

lemma visit_edge:
  assumes x: "expanding exact se lm i opp_pred s0" and e: "expanded exact se lm i opp_pred s0 V s"
    and p: "p = dj_labels s0 ! unat i" and v: "visit_ok se (t, n, ot, g, e)" and x': "x = visit_key p (t, n, ot, g, e)"
    and alloc: "fst x \<in> dom (dj_status s)"
  shows "\<exists>s'. expand_edge se p i opp_pred t n ot g e x s = Inr s' \<and> extends s s'
    \<and> expanded exact se lm i opp_pred s0 (insert (t, n, ot, g, e) V) s'"
proof -
  let ?v = "(t, n, ot, g, e)"
  have inv: "search_inv se lm s" and ext: "extends s0 s" and ex: "exact \<Longrightarrow> exact_inv s"
    and bq: "bq_cost (dj_queue s) = bq_cost (dj_queue s0)" using e by (simp_all add: expanded_def)
  note D = expandingD [OF x ext, folded p]
  note sok = D(1) and i = D(4,5) and far = D(7)
  have mem: "p \<in> set (dj_labels s)" using i by (auto simp: settled_def)
  have pred: "label_ok se lm s p" by (rule search_invD(4) [OF inv mem])
  obtain k where k: "k < settled_count s" "within_cost (first_cost lm + 2 * step_cost lm * k) (lab_cost p)" using D(8) by blast
  obtain found where off: "offered se p i opp_pred (dj_labels s) ?v = Inr found"
    and ok: "\<And>f. found = Some f \<Longrightarrow> new_label_ok se lm s (of_label f)"
    using offered_ok [OF sok inv v i D(6) far k(2,1)] by blast
  have slot: "x \<in> slots (se_reader se) (paths lm)" unfolding x' by (rule visit_slot [OF search_okD(1) [OF sok] v pred])
  have sp: "status_ok se s" by (rule search_invD(3) [OF inv])
  obtain es where es: "status_set (entry (dj_status s) (fst x) (snd x)) = Inr es" "es \<noteq> Skipped"
      "es = Permanent \<longleftrightarrow> entry_set (dj_status s) x = 1" "es = Temporary \<longleftrightarrow> entry_set (dj_status s) x = 2"
      "es = Unreached_or_reset \<longleftrightarrow> x \<notin> taken (dj_status s)"
    using status_set_cases [OF sp, of "fst x" "snd x"] by auto
  have deref: "es_deref x (dj_status s) = Inr (entry (dj_status s) (fst x) (snd x))"
    using es_deref_entry [OF status_okD(1) [OF sp], of "fst x" "snd x"] alloc slot by (auto simp: slots_def)
  have stay: "extends s s \<and> expanded exact se lm i opp_pred s0 (insert ?v V) s" if "served exact se s i opp_pred ?v"
    using expanded_step [OF x e v inv unchanged_extends refl refl refl ex that] by simp
  have code: "expand_edge se p i opp_pred t n ot g e x s =
      (if de_is_shortcut e \<or> es = Permanent then Inr s
       else relax i es (info_index (entry (dj_status s) (fst x) (snd x))) x found s)"
    by (simp only: expand_edge_offered deref bind_result_simps es(1) off) simp
  show ?thesis
  proof (cases found)
    case None
    then have "served exact se s i opp_pred ?v" using off i(2) by (simp only: served_def Let_def) simp
    then show ?thesis using stay by (simp add: code None relax_def)
  next
    case (Some f)
    note f = off [unfolded Some] and new = ok [OF Some]
    note lab = offered_label [OF f v, folded x']
    have short: "\<not> de_is_shortcut e" using f by (auto split: if_splits)
    have wc: "within_cost (cap lm) (of_cost f)" "within_cost (first_cost lm + 2 * step_cost lm * settled_count s) (of_cost f)"
      using new lab(2) by (simp_all add: new_label_ok_def)
    have whole: "whole (cost (of_cost f))" "bq_cost (dj_queue s) \<le> cost (of_cost f)" if exact
      using offered_whole [OF f D(9) [OF that] sok D(11) [OF that] far] D(10) [OF that] bq by auto
    have frozen: "offered se p i opp_pred (dj_labels s') ?v = Inr (Some f)" "dj_labels s' ! unat i = p"
      if "extends s s'" "search_inv se lm s'" for s'
    proof -
      show same: "dj_labels s' ! unat i = p" using extendsD(4) [OF that(1) i(1)] i(2) by simp
      have "settled s' i" by (rule extendsD(3) [OF that(1) i(1)])
      then have "p \<in> set (dj_labels s')" using same by (auto simp: settled_def)
      then show "offered se p i opp_pred (dj_labels s') ?v = Inr (Some f)"
        using offered_frozen [OF that(1) inv that(2) mem _ v search_okD(1) [OF sok]] f by simp
    qed
    have srv: "served exact se s' i opp_pred ?v"
      if "extends s s'" "search_inv se lm s'" "x \<in> taken (dj_status s')"
        "exact \<Longrightarrow> \<exists>l\<in>set (dj_labels s'). label_key l = x \<and> cost (lab_cost l) \<le> cost (of_cost f)" for s'
      using that(3,4) frozen [OF that(1,2)] by (auto simp: served_def Let_def x' simp del: offered.simps)
    have made: "made_by se (dj_labels s') i opp_pred {?v} l"
      if "extends s s'" "search_inv se lm s'" "lab_predecessor l = i" "label_key l = x" "lab_cost l = of_cost f" for s' l
      using that(3-5) frozen [OF that(1,2)] by (simp add: made_by_def x' del: offered.simps)
    show ?thesis
    proof (cases es)
      case Permanent
      have "\<exists>l\<in>set (dj_labels s). label_key l = x \<and> cost (lab_cost l) \<le> cost (of_cost f)" if exact
      proof -
        obtain j where j: "settled s j" "label_key (dj_labels s ! unat j) = x"
          using status_okD(5) [OF sp] es(3) Permanent by blast
        have "cost (lab_cost (dj_labels s ! unat j)) \<le> cost (of_cost f)"
          using ex [OF that] j(1) whole(2) [OF that] by (auto simp: exact_inv_def intro: order_trans)
        then show ?thesis using j by (auto simp: settled_def)
      qed
      moreover have "x \<in> taken (dj_status s)" using es(5) Permanent by auto
      ultimately have "served exact se s i opp_pred ?v" by (intro srv [OF unchanged_extends inv])
      then show ?thesis using stay by (simp add: code Permanent)
    next
      case Temporary
      let ?j = "info_index (entry (dj_status s) (fst x) (snd x))"
      have w: "?j \<in># labels (dj_queue s)" "label_key (dj_labels s ! unat ?j) = x"
        using status_okD(3,4) [OF sp, of "fst x" "snd x"] es(4) Temporary by simp_all
      have lenj: "unat ?j < length (dj_labels s)" by (rule search_invD(6) [OF inv w(1)])
      define a where "a = dj_labels s ! unat ?j"
      define l where "l = (if cost (of_cost f) < cost (lab_cost a)
        then update_bd_label i (of_cost f) (fsub (lab_sortcost a) (fsub (cost (lab_cost a)) (cost (of_cost f))))
          (of_transition f) (of_distance f) (of_restriction f) a else a)"
      obtain s' where s': "improve_label ?j i (of_cost f) (of_transition f) (of_distance f) (of_restriction f) s = Inr s'"
          "search_inv se lm s'" "extends s s'" "work se lm s' = work se lm s" "dj_status s' = dj_status s"
          "labels (dj_queue s') = labels (dj_queue s)" "bq_cost (dj_queue s') = bq_cost (dj_queue s)"
          "dj_labels s' = (dj_labels s)[unat ?j := l]"
        using improve_label_ok [OF inv w(1) search_okD(4) [OF sok] wc i(1)] unfolding l_def a_def by blast
      have at: "l \<in> set (dj_labels s')" using set_update_memI [OF lenj] s'(8) by simp
      have key: "label_key l = x" using w(2) by (simp add: l_def a_def)
      have le: "cost (lab_cost l) \<le> cost (of_cost f)" by (simp add: l_def)
      have "x \<in> taken (dj_status s')" using es(5) Temporary s'(5) by auto
      then have served: "served exact se s' i opp_pred ?v" using at key le by (intro srv [OF s'(3,2)]) blast+
      have labels: "\<forall>b\<in>set (dj_labels s'). b \<in> set (dj_labels s) \<or> made_by se (dj_labels s') i opp_pred {?v} b"
      proof
        fix b assume "b \<in> set (dj_labels s')"
        then have "b = l \<or> b \<in> set (dj_labels s)" using set_update_subset_insert [of "dj_labels s" "unat ?j" l] s'(8) by auto
        moreover have "l \<in> set (dj_labels s) \<or> made_by se (dj_labels s') i opp_pred {?v} l"
          using made [OF s'(3,2) _ key] nth_mem [OF lenj] by (auto simp: l_def a_def)
        ultimately show "b \<in> set (dj_labels s) \<or> made_by se (dj_labels s') i opp_pred {?v} b" by blast
      qed
      have "exact_inv s'" if exact
      proof (rule exact_improved [OF ex [OF that] inv w(1) s'(8,7,6)])
        have a: "whole (cost (lab_cost a))" "lab_sortcost a = cost (lab_cost a)" "bq_cost (dj_queue s) \<le> cost (lab_cost a)"
          using ex [OF that] w(1) nth_mem [OF lenj] by (simp_all add: exact_inv_def a_def)
        have "cost (lab_cost a) \<le> of_nat (cap lm)" using search_invD(8) [OF inv lenj] by (simp add: label_ok_def within_cost_def a_def)
        moreover have "of_nat (cap lm) \<le> (of_nat (2 ^ 24) :: rat)" using search_okD(4) [OF sok] by (simp only: of_nat_le_iff)
        ultimately have big: "cost (lab_cost a) \<le> 2 ^ 24" by simp
        show "whole (cost (lab_cost l))" "bq_cost (dj_queue s) \<le> cost (lab_cost l)"
          using a whole [OF that] by (simp_all add: l_def)
        show "lab_sortcost l = cost (lab_cost l)"
          using a whole_sub [OF a(1) whole(1) [OF that] _ big] by (simp add: l_def)
      qed
      moreover have "settled s' = settled s" by (auto simp: settled_def fun_eq_iff s'(6,8))
      ultimately have "expanded exact se lm i opp_pred s0 (insert ?v V) s'"
        using expanded_step [OF x e v s'(2-4,7) _ _ served labels] by blast
      then show ?thesis
        using s'(1,3) short by (simp add: code Temporary Some relax_def)
    next
      case Unreached_or_reset
      then have free: "x \<notin> taken (dj_status s)" using es(5) by simp
      obtain s' where s': "add_label (of_label f) x s = Inr s'" "search_inv se lm s'" "extends s s'"
          "work se lm s' = work se lm s" "dj_labels s' = dj_labels s @ [of_label f]"
          "bq_cost (dj_queue s') = bq_cost (dj_queue s)"
          "labels (dj_queue s') = add_mset (word_of_nat (length (dj_labels s))) (labels (dj_queue s))"
          "taken (dj_status s') = insert x (taken (dj_status s))"
        using add_label_ok [OF inv new search_okD(4,6) [OF sok], unfolded lab(1), OF alloc free] by blast
      have len: "length (dj_labels s) < 2 ^ 28"
        using search_invD(5) [OF s'(2)] search_okD(6) [OF sok] s'(5) by simp
      have served: "served exact se s' i opp_pred ?v"
        using s'(5,8) lab(1,2) by (intro srv [OF s'(3,2)]) auto
      have labels: "\<forall>b\<in>set (dj_labels s'). b \<in> set (dj_labels s) \<or> made_by se (dj_labels s') i opp_pred {?v} b"
        using made [OF s'(3,2) lab(4,1,2)] s'(5) by auto
      have "exact_inv s'" if exact
      proof (rule exact_added [OF ex [OF that] inv _ s'(5,6,7)])
      qed (use whole [OF that] lab len in simp_all)
      moreover have "settled s' = settled s" using added_settled(1) [OF len s'(5,7)] by (simp add: fun_eq_iff)
      ultimately have "expanded exact se lm i opp_pred s0 (insert ?v V) s'"
        using expanded_step [OF x e v s'(2-4,6) _ _ served labels] by blast
      then show ?thesis
        using s'(1,3) short by (simp add: code Unreached_or_reset Some relax_def)
    qed (use es(2) in simp)
  qed
qed

section \<open>Expanding a node\<close>

lemma edge_at_valid:
  assumes "GetGraphTile rd g = Some t" and "tile_ok rd t" and "j < length (rt_edges t)"
  shows "visit_ok se (t, n, ot, edge_at g j, rt_edges t ! j) \<longleftrightarrow> GetGraphTile (se_reader se) (edge_at g j) = Some t"
    and "GetGraphTile rd (edge_at g j) = Some t" and "visit_key p (t, n, ot, edge_at g j, e) = (status_key g (label_path_id p), j)"
proof -
  have j: "j < 2 ^ 21" "j \<noteq> 2097151" using assms(2,3) by (auto simp: tile_ok_def)
  have "gid_value (edge_at g j) \<noteq> kInvalidGraphId"
  proof
    assume "gid_value (edge_at g j) = kInvalidGraphId"
    then have "unat (gid_id (edge_at g j)) = 2097151"
      by (simp add: gid_id_def kInvalidGraphId_def)
    then show False using edge_at_fields(4) [OF j(1), of g] j(2) by simp
  qed
  then show "GetGraphTile rd (edge_at g j) = Some t"
    using assms(1) by (auto simp: GetGraphTile_def is_valid_def split: if_splits)
  have "unat (gid_value (edge_at g j)) < 2 ^ 46" unfolding edge_at_def by (rule set_id_fields(4))
  then show "visit_ok se (t, n, ot, edge_at g j, rt_edges t ! j) \<longleftrightarrow> GetGraphTile (se_reader se) (edge_at g j) = Some t"
    using assms(3) edge_at_fields(4) [OF j(1), of g] by simp
  show "visit_key p (t, n, ot, edge_at g j, e) = (status_key g (label_path_id p), j)"
    using edge_at_fields(4) [OF j(1), of g] by (simp add: visit_key_def status_key_def)
qed

definition visits_at :: "graph_id \<Rightarrow> routing_tile \<Rightarrow> nodeinfo \<Rightarrow> time_info \<Rightarrow> nat \<Rightarrow> nat \<Rightarrow> visit list" where
  "visits_at g t n ot a k = map (\<lambda>j. (t, n, ot, edge_at g j, rt_edges t ! j)) [a..<a + k]"

lemma visits_at_Suc: "visits_at g t n ot a (Suc k) = (t, n, ot, edge_at g a, rt_edges t ! a) # visits_at g t n ot (a + 1) k"
proof -
  have "[a..<a + Suc k] = a # [Suc a..<Suc a + k]" using upt_conv_Cons [of a "a + Suc k"] by simp
  then show ?thesis by (simp only: visits_at_def list.map Suc_eq_plus1)
qed

lemma expand_edges_ok:
  assumes x: "expanding exact se lm i opp_pred s0" and p: "p = dj_labels s0 ! unat i"
    and t: "GetGraphTile (se_reader se) g = Some t" "tile_ok (se_reader se) t"
  shows "a + k \<le> length (rt_edges t) \<Longrightarrow> expanded exact se lm i opp_pred s0 V s \<Longrightarrow>
      status_key g (label_path_id p) \<in> dom (dj_status s) \<Longrightarrow>
    \<exists>s'. expand_edges se p i opp_pred t n ot k a (edge_at g a) (status_key g (label_path_id p), a) s = Inr s'
      \<and> extends s s' \<and> expanded exact se lm i opp_pred s0 (V \<union> set (visits_at g t n ot a k)) s'"
proof (induction k arbitrary: a V s)
  case (Suc k)
  let ?v = "(t, n, ot, edge_at g a, rt_edges t ! a)" and ?x = "(status_key g (label_path_id p), a)"
  have a: "a < length (rt_edges t)" "a + 1 < 2 ^ 21" using Suc.prems(1) t(2) by (auto simp: tile_ok_def)
  note valid = edge_at_valid [OF t a(1)]
  have v: "visit_ok se ?v" by (simp only: valid)
  obtain s1 where s1: "expand_edge se p i opp_pred t n ot (edge_at g a) (rt_edges t ! a) ?x s = Inr s1" "extends s s1"
      "expanded exact se lm i opp_pred s0 (insert ?v V) s1"
    using visit_edge [OF x Suc.prems(2) p v valid(3) [symmetric]] Suc.prems(3) by auto
  have "status_key g (label_path_id p) \<in> dom (dj_status s1)" by (rule extendsD(7) [OF s1(2) Suc.prems(3)])
  then obtain s' where s': "expand_edges se p i opp_pred t n ot k (a + 1) (edge_at g (a + 1)) (status_key g (label_path_id p), a + 1) s1 = Inr s'"
      "extends s1 s'" "expanded exact se lm i opp_pred s0 (insert ?v V \<union> set (visits_at g t n ot (a + 1) k)) s'"
    using Suc.IH [of "a + 1", OF _ s1(3)] Suc.prems(1) by auto
  have "insert ?v V \<union> set (visits_at g t n ot (a + 1) k) = V \<union> set (visits_at g t n ot a (Suc k))"
    by (simp add: visits_at_Suc)
  then show ?case
    using s' s1 a extends_trans [OF s1(2) s'(2)] by (auto simp: array_at_def next_edge simp del: expand_edge_def)
qed (auto simp: visits_at_def)

definition node_at :: "search \<Rightarrow> graph_id \<Rightarrow> (routing_tile \<times> nodeinfo) option" where
  "node_at se g = (case GetGraphTile (se_reader se) g of
     None \<Rightarrow> None
   | Some t \<Rightarrow> let n = rt_nodes t ! unat (gid_id g) in if ct_AllowedNode (se_costing se) n then Some (t, n) else None)"

definition visits_from :: "search \<Rightarrow> graph_id \<Rightarrow> time_info \<Rightarrow> visit list" where
  "visits_from se g ot = (case node_at se g of
     None \<Rightarrow> []
   | Some (t, n) \<Rightarrow> visits_at g t n ot (unat (ni_edge_index n)) (unat (ni_edge_count n)))"

lemma path_id_small: "label_path_id l \<le> kMaxMultiPathId"
proof -
  have "unat (label_path_id l) < 2 ^ 7"
    using unsigned_less [of "lab_path_id l", where ?'a = nat]
    by (simp add: label_path_id_def unsigned_ucast_eq take_bit_nat_eq_self)
  then show ?thesis by (simp add: kMaxMultiPathId_def word_le_nat_alt)
qed

lemma expanded_arrays: "expanded exact se lm i opp_pred s0 V s \<Longrightarrow> arrays_ok (se_reader se) (dj_status s)"
  unfolding expanded_def by (blast intro: status_okD(1) search_invD(3))

lemma expanded_event:
  assumes "expanding exact se lm i opp_pred s0" and "expanded exact se lm i opp_pred s0 V s"
  shows "expanded exact se lm i opp_pred s0 V (s\<lparr>dj_events := ev\<rparr>)" and "extends s (s\<lparr>dj_events := ev\<rparr>)"
proof -
  show "expanded exact se lm i opp_pred s0 V (s\<lparr>dj_events := ev\<rparr>)" "extends s (s\<lparr>dj_events := ev\<rparr>)"
    using expanded_same [OF assms, of "s\<lparr>dj_events := ev\<rparr>"] expanded_arrays [OF assms(2)] by simp_all
qed

lemma expand_here_ok:
  assumes x: "expanding exact se lm i opp_pred s0" and p: "p = dj_labels s0 ! unat i"
    and e: "expanded exact se lm i opp_pred s0 V s" and g: "node_exists (se_reader se) g"
  shows "node_at se g = None \<Longrightarrow> \<exists>s'. expand_here se g p i opp_pred via ti s = Inr (s', None)
      \<and> extends s s' \<and> expanded exact se lm i opp_pred s0 V s'"
    and "node_at se g = Some (t, n) \<Longrightarrow> (if via then Inr ti else offset_time se p n ti) = Inr ot \<Longrightarrow>
      \<exists>s'. expand_here se g p i opp_pred via ti s = Inr (s', Some (t, n, ot))
        \<and> extends s s' \<and> expanded exact se lm i opp_pred s0 (V \<union> set (visits_from se g ot)) s'"
proof -
  define s1 where "s1 = (if via then s else s\<lparr>dj_events := dj_events s @ [(g, p)]\<rparr>)"
  have s1: "expanded exact se lm i opp_pred s0 V s1" "extends s s1"
    using expanded_event [OF x e] e by (simp_all add: s1_def)
  {
    assume "node_at se g = None"
    then show "\<exists>s'. expand_here se g p i opp_pred via ti s = Inr (s', None)
        \<and> extends s s' \<and> expanded exact se lm i opp_pred s0 V s'"
      using s1 e g unfolding s1_def
      by (cases via) (auto simp: node_at_def expand_here_def tile_node_def node_exists_def Let_def split: option.splits if_splits)
  next
    assume n: "node_at se g = Some (t, n)" and ot: "(if via then Inr ti else offset_time se p n ti) = Inr ot"
    have t: "GetGraphTile (se_reader se) g = Some t" "n = rt_nodes t ! unat (gid_id g)" "ct_AllowedNode (se_costing se) n"
      using n by (auto simp: node_at_def Let_def split: option.splits if_splits)
    have tok: "tile_ok (se_reader se) t" and key: "se_reader se (tile_value g) = Some t"
      using tile_in_graph [OF search_okD(1) [OF expandingD(1) [OF x unchanged_extends]] t(1)] by simp_all
    have node: "tile_node t g = Inr n" and mem: "n \<in> set (rt_nodes t)" using g t by (auto simp: node_exists_def tile_node_def)
    let ?a = "unat (ni_edge_index n)" and ?k = "status_key g (label_path_id p)"
    have a: "?a < length (rt_edges t)" "?a + unat (ni_edge_count n) \<le> length (rt_edges t)" "?a < 2 ^ 21"
      using tok mem by (auto simp: tile_ok_def)
    have make: "gid_make (tileid g) (level g) (ucast (ni_edge_index n)) = Inr (edge_at g ?a)"
      using first_edge [OF a(3), of g] by simp
    have same_key: "status_key (edge_at g ?a) (label_path_id p) = ?k" by (simp add: status_key_def)
    have count: "length (rt_edges t) = edge_count (se_reader se) (status_key (edge_at g ?a) (label_path_id p))"
      by (simp add: same_key edge_count_def status_key_fields(1) [OF path_id_small] key)
    note arr = expanded_arrays [OF s1(1)]
    obtain st where st: "es_GetPtr (edge_at g ?a) (length (rt_edges t)) (label_path_id p) (dj_status s1) = ((?k, ?a), st)"
        "arrays_ok (se_reader se) st" "st ?k \<noteq> None" "\<forall>k. dj_status s1 k \<noteq> None \<longrightarrow> st k \<noteq> None" "entry st = entry (dj_status s1)"
      using es_GetPtr_entry [OF arr count] edge_at_fields(4) [OF a(3), of g] unfolding same_key by auto
    define s2 where "s2 = s1\<lparr>dj_status := st\<rparr>"
    have "dom (dj_status s1) \<subseteq> dom st" using st(4) by (auto simp: domIff)
    then have s2: "expanded exact se lm i opp_pred s0 V s2" "extends s1 s2"
      using expanded_same [OF x s1(1), of s2] st(2,5) by (simp_all add: s2_def)
    obtain s' where s': "expand_edges se p i opp_pred t n ot (unat (ni_edge_count n)) ?a (edge_at g ?a) (?k, ?a) s2 = Inr s'"
        "extends s2 s'" "expanded exact se lm i opp_pred s0 (V \<union> set (visits_at g t n ot ?a (unat (ni_edge_count n)))) s'"
      using expand_edges_ok [OF x p t(1) tok a(2) s2(1), of n ot] st(3) by (auto simp: s2_def domIff)
    have edge: "tile_edge t (edge_at g ?a) = Inr (rt_edges t ! ?a)"
      using a edge_at_fields(4) [OF a(3), of g] by (simp add: tile_edge_def)
    have "expand_here se g p i opp_pred via ti s = Inr (s', Some (t, n, ot))"
      using s'(1) edge_at_fields(4) [OF a(3), of g]
      by (simp add: expand_here_def t(1,3) node ot make st(1) edge Let_def s1_def [symmetric] s2_def)
    moreover have "visits_from se g ot = visits_at g t n ot ?a (unat (ni_edge_count n))" by (simp add: visits_from_def n)
    ultimately show "\<exists>s'. expand_here se g p i opp_pred via ti s = Inr (s', Some (t, n, ot))
        \<and> extends s s' \<and> expanded exact se lm i opp_pred s0 (V \<union> set (visits_from se g ot)) s'"
      using s'(2,3) extends_trans [OF extends_trans [OF s1(2) s2(2)]] by auto
  }
qed

text \<open>The edges a label expands to: those of its end node and, behind the transitions, of the other levels.\<close>

definition out_edges :: "search \<Rightarrow> bd_label \<Rightarrow> visit list" where
  "out_edges se p = (case node_at se (label_endnode p) of
     None \<Rightarrow> []
   | Some (t, n) \<Rightarrow> (case offset_time se p n (hd (se_times se)) of
       Inl _ \<Rightarrow> []
     | Inr ot \<Rightarrow> visits_from se (label_endnode p) ot
         @ concat (map (\<lambda>tr. visits_from se (transition_endnode tr) ot)
             (take (unat (ni_transition_count n)) (drop (unat (ni_transition_index n)) (rt_transitions t))))))"

lemma expand_transitions_ok:
  assumes x: "expanding exact se lm i opp_pred s0" and p: "p = dj_labels s0 ! unat i" and t: "tile_ok (se_reader se) t"
  shows "a + k \<le> length (rt_transitions t) \<Longrightarrow> expanded exact se lm i opp_pred s0 V s \<Longrightarrow>
    \<exists>s'. expand_transitions se p i opp_pred ot t k a s = Inr s' \<and> extends s s'
      \<and> expanded exact se lm i opp_pred s0
          (V \<union> set (concat (map (\<lambda>tr. visits_from se (transition_endnode tr) ot) (take k (drop a (rt_transitions t)))))) s'"
proof (induction k arbitrary: a V s)
  case (Suc k)
  let ?tr = "rt_transitions t ! a"
  have a: "a < length (rt_transitions t)" using Suc.prems(1) by simp
  then have g: "node_exists (se_reader se) (transition_endnode ?tr)" using t by (simp add: tile_ok_def)
  have "\<exists>s1 r. expand_here se (transition_endnode ?tr) p i opp_pred True ot s = Inr (s1, r) \<and> extends s s1
      \<and> expanded exact se lm i opp_pred s0 (V \<union> set (visits_from se (transition_endnode ?tr) ot)) s1"
  proof (cases "node_at se (transition_endnode ?tr)")
    case None
    then show ?thesis
      using expand_here_ok(1) [OF x p Suc.prems(2) g None, of True ot] by (auto simp: visits_from_def)
  next
    case (Some tn)
    then obtain t2 n2 where "node_at se (transition_endnode ?tr) = Some (t2, n2)" by (cases tn) simp
    from expand_here_ok(2) [OF x p Suc.prems(2) g this, of True ot ot] show ?thesis by auto
  qed
  then obtain s1 r where s1: "expand_here se (transition_endnode ?tr) p i opp_pred True ot s = Inr (s1, r)" "extends s s1"
      "expanded exact se lm i opp_pred s0 (V \<union> set (visits_from se (transition_endnode ?tr) ot)) s1" by blast
  obtain s' where s': "expand_transitions se p i opp_pred ot t k (a + 1) s1 = Inr s'" "extends s1 s'"
      "expanded exact se lm i opp_pred s0 (V \<union> set (visits_from se (transition_endnode ?tr) ot)
        \<union> set (concat (map (\<lambda>tr. visits_from se (transition_endnode tr) ot) (take k (drop (a + 1) (rt_transitions t)))))) s'"
    using Suc.IH [of "a + 1", OF _ s1(3)] Suc.prems(1) by auto
  have "take (Suc k) (drop a (rt_transitions t)) = ?tr # take k (drop (a + 1) (rt_transitions t))"
    using Cons_nth_drop_Suc [OF a] by (metis Suc_eq_plus1 take_Suc_Cons)
  then show ?case
    using s' s1 a extends_trans [OF s1(2) s'(2)] by (simp add: array_at_def Un_assoc)
qed simp

lemma ExpandInner_ok:
  assumes x: "expanding exact se lm i opp_pred s0" and p: "p = dj_labels s0 ! unat i"
  shows "\<exists>s'. ExpandInner se (label_endnode p) p i opp_pred (hd (se_times se)) s0 = Inr s' \<and> extends s0 s'
    \<and> expanded exact se lm i opp_pred s0 (set (out_edges se p)) s'"
proof -
  note D = expandingD [OF x unchanged_extends, folded p]
  have "label_ok se lm s0 p" using search_invD(8) [OF D(2), of i] D(3) by (simp add: settled_def p)
  then have g: "node_exists (se_reader se) (label_endnode p)" by (simp add: label_ok_def)
  note start = expanded_start [OF x]
  show ?thesis
  proof (cases "node_at se (label_endnode p)")
    case None
    then show ?thesis
      using expand_here_ok(1) [OF x p start g None, of False "hd (se_times se)"] by (auto simp: ExpandInner_def out_edges_def)
  next
    case (Some tn)
    then obtain t n where n: "node_at se (label_endnode p) = Some (t, n)" by (cases tn) simp
    obtain ot where ot: "offset_time se p n (hd (se_times se)) = Inr ot" using search_okD(8) [OF D(1,7)] by blast
    obtain s1 where s1: "expand_here se (label_endnode p) p i opp_pred False (hd (se_times se)) s0 = Inr (s1, Some (t, n, ot))"
        "extends s0 s1" "expanded exact se lm i opp_pred s0 (set (visits_from se (label_endnode p) ot)) s1"
      using expand_here_ok(2) [OF x p start g n, of False "hd (se_times se)" ot] ot by auto
    have t: "GetGraphTile (se_reader se) (label_endnode p) = Some t" "n = rt_nodes t ! unat (gid_id (label_endnode p))"
      using n by (auto simp: node_at_def Let_def split: option.splits if_splits)
    have tok: "tile_ok (se_reader se) t" using tile_in_graph [OF search_okD(1) [OF D(1)] t(1)] by simp
    have "n \<in> set (rt_nodes t)" using g t by (auto simp: node_exists_def)
    then have tr: "unat (ni_transition_index n) + unat (ni_transition_count n) \<le> length (rt_transitions t)"
      using tok by (simp add: tile_ok_def)
    from expand_transitions_ok [OF x p tok tr s1(3), of ot] obtain s' where
      s': "expand_transitions se p i opp_pred ot t (unat (ni_transition_count n)) (unat (ni_transition_index n)) s1 = Inr s'"
        "extends s1 s'" "expanded exact se lm i opp_pred s0 (set (out_edges se p)) s'"
      by (auto simp: out_edges_def n ot)
    have "ExpandInner se (label_endnode p) p i opp_pred (hd (se_times se)) s0 = Inr s'"
    proof (cases "ni_transition_count n = 0")
      case True
      then show ?thesis using s1(1) s'(1) by (simp add: ExpandInner_def)
    next
      case False
      then have "unat (ni_transition_index n) < length (rt_transitions t)" using tr by (simp add: word_unat_eq_iff)
      then show ?thesis using False s1(1) s'(1) by (simp add: ExpandInner_def tile_transition_def)
    qed
    then show ?thesis using s' extends_trans [OF s1(2) s'(2)] by blast
  qed
qed

section \<open>Settling a label\<close>

lemma waiting_le:
  assumes "search_inv se lm s"
  shows "size (labels (dj_queue s)) \<le> length (dj_labels s)"
proof -
  let ?q = "labels (dj_queue s)"
  have "?q \<subseteq># mset_set (set_mset ?q)"
    using search_invD(7) [OF assms] by (auto simp: subseteq_mset_def count_mset_set' not_in_iff)
  then have "size ?q \<le> card (set_mset ?q)" using size_mset_mono by fastforce
  also have "\<dots> = card (unat ` set_mset ?q)" by (rule card_image [symmetric]) (simp add: inj_on_def word_unat_eq_iff)
  also have "\<dots> \<le> card {..<length (dj_labels s)}"
    using search_invD(6) [OF assms] by (intro card_mono) auto
  finally show ?thesis by simp
qed

lemma settled_inv:
  fixes s i q' st'
  defines "s' \<equiv> s\<lparr>dj_queue := q', dj_status := st'\<rparr>" and "p \<equiv> dj_labels s ! unat i"
  assumes inv: "search_inv se lm s"
    and q: "queue_ok (sort_cost (dj_labels s)) (buckets lm) q'" "labels (dj_queue s) = add_mset i (labels q')"
    and st: "arrays_ok (se_reader se) st'" "dom (dj_status s) \<subseteq> dom st'"
      "\<And>k j. entry st' k j = (if (k, j) = label_key p then (entry (dj_status s) k j)\<lparr>info_set := 1\<rparr> else entry (dj_status s) k j)"
  shows "search_inv se lm s'" "extends s s'" "settled s' j \<longleftrightarrow> settled s j \<or> j = i" "settled_count s' = settled_count s + 1"
    "work se lm s = work se lm s' + 1" "entry_set (dj_status s') (label_key p) = 1"
proof -
  have c: "dj_labels s' = dj_labels s" "dj_queue s' = q'" "dj_status s' = st'" by (simp_all add: s'_def)
  have i: "i \<in># labels (dj_queue s)" "i \<notin># labels q'"
    using q(2) search_invD(7) [OF inv, of i] by (auto simp: not_in_iff)
  have len: "unat i < length (dj_labels s)" by (rule search_invD(6) [OF inv i(1)])
  have sets: "entry_set st' x = (if x = label_key p then 1 else entry_set (dj_status s) x)" for x
    using st(3) [of "fst x" "snd x"] by (simp add: entry_set_def)
  show set: "settled s' j \<longleftrightarrow> settled s j \<or> j = i" for j using i len by (auto simp: settled_def c q(2))
  show count: "settled_count s' = settled_count s + 1"
    using waiting_le [OF inv] by (simp add: settled_count_def c q(2))
  show "entry_set (dj_status s') (label_key p) = 1" by (simp add: c sets)
  have "label_key p \<in> taken (dj_status s)" using search_invD(8) [OF inv len] by (simp add: label_ok_def p_def)
  then have taken: "taken st' = taken (dj_status s)" by (auto simp: taken_def sets simp del: split_paired_All)
  show ext: "extends s s'" using st(2) by (simp add: extends_def set count) (simp add: c taken)
  have "status_ok se s'"
    unfolding status_ok_def
  proof (intro conjI allI impI)
    fix k j
    show "entry_set (dj_status s') (k, j) \<in> {0, 1, 2}" using status_okD(2) [OF search_invD(3) [OF inv], of "(k, j)"] by (simp add: c sets)
    assume "entry_set (dj_status s') (k, j) = 2"
    then have old: "(k, j) \<noteq> label_key p" "entry_set (dj_status s) (k, j) = 2" by (auto simp: c sets split: if_splits)
    note w = status_okD(3,4) [OF search_invD(3) [OF inv] old(2)]
    show "label_key (dj_labels s' ! unat (info_index (entry (dj_status s') k j))) = (k, j)"
      using w(2) old(1) by (simp add: c st(3))
    show "info_index (entry (dj_status s') k j) \<in># labels (dj_queue s')"
      using w old(1) by (auto simp: c st(3) q(2) p_def)
  next
    fix k j assume "entry_set (dj_status s') (k, j) = 1"
    then have "(k, j) = label_key p \<or> entry_set (dj_status s) (k, j) = 1" by (auto simp: c sets split: if_splits)
    then show "\<exists>m. settled s' m \<and> label_key (dj_labels s' ! unat m) = (k, j)"
      using set status_okD(5) [OF search_invD(3) [OF inv], of "(k, j)"] by (auto simp: c p_def)
  qed (simp add: c st(1))
  moreover have "count (labels q') j \<le> 1" for j
    using search_invD(7) [OF inv, of j] by (simp add: q(2) split: if_splits)
  then have "queue_labels_ok s'" using search_invD(6) [OF inv] by (simp add: queue_labels_ok_def c q(2))
  moreover have "\<forall>l\<in>set (dj_labels s'). label_ok se lm s' l"
    using search_invD(4) [OF inv] extends_label_ok [OF ext] by (simp add: c)
  ultimately show "search_inv se lm s'"
    using q(1) search_invD(5) [OF inv] by (simp add: search_inv_def c unreached_def taken)
  show "work se lm s = work se lm s' + 1" by (simp add: work_def c q(2) unreached_def taken)
qed

lemma settle:
  assumes sok: "search_ok se lm" and inv: "search_inv se lm s" and ne: "labels (dj_queue s) \<noteq> {#}"
  shows "\<exists>i q' st'. bq_pop (sort_cost (dj_labels s)) (dj_queue s) = Inr (i, q') \<and> i \<noteq> kInvalidLabel \<and> unat i < length (dj_labels s)
    \<and> es_Update (label_edgeid (dj_labels s ! unat i)) Permanent (label_path_id (dj_labels s ! unat i)) (dj_status s) = Inr st'
    \<and> (let s' = s\<lparr>dj_queue := q', dj_status := st'\<rparr>
       in search_inv se lm s' \<and> extends s s' \<and> (\<forall>j. settled s' j \<longleftrightarrow> settled s j \<or> j = i) \<and> settled_count s' = settled_count s + 1
         \<and> work se lm s = work se lm s' + 1
         \<and> (exact_inv s \<longrightarrow> exact_inv s' \<and> bq_cost q' \<le> cost (lab_cost (dj_labels s ! unat i))))"
proof -
  have "\<forall>l\<in>#labels (dj_queue s). cost_ok (buckets lm) (sort_cost (dj_labels s) l)"
    using search_invD(6,8) [OF inv] cost_ok_cap [OF search_okD(4) [OF sok]] by (simp add: sort_cost_def label_ok_def)
  then obtain i q' where q: "bq_pop (sort_cost (dj_labels s)) (dj_queue s) = Inr (i, q')"
      "queue_ok (sort_cost (dj_labels s)) (buckets lm) q'" "labels (dj_queue s) = add_mset i (labels q')"
      "bq_cost (dj_queue s) \<le> bq_cost q'" "sort_cost (dj_labels s) i < bq_cost q' + 1"
      "\<forall>x\<in>#labels (dj_queue s). bq_cost q' \<le> max (sort_cost (dj_labels s) x) (bq_cost (dj_queue s))"
    using queue.pop_law [OF search_invD(1) [OF inv] ne] by blast
  define p where "p = dj_labels s ! unat i"
  have i: "i \<in># labels (dj_queue s)" using q(3) by simp
  have len: "unat i < length (dj_labels s)" by (rule search_invD(6) [OF inv i])
  have p: "label_ok se lm s p" unfolding p_def by (rule search_invD(8) [OF inv len])
  have key: "label_key p = (status_key (label_edgeid p) (label_path_id p), unat (gid_id (label_edgeid p)))" by (simp add: label_key_def)
  have alloc: "dj_status s (status_key (label_edgeid p) (label_path_id p)) \<noteq> None"
    "unat (gid_id (label_edgeid p)) < edge_count (se_reader se) (status_key (label_edgeid p) (label_path_id p))"
    using p by (auto simp: label_ok_def key slots_def)
  obtain st' where st: "es_Update (label_edgeid p) Permanent (label_path_id p) (dj_status s) = Inr st'"
      "arrays_ok (se_reader se) st'" "\<forall>k. dj_status s k \<noteq> None \<longrightarrow> st' k \<noteq> None"
      "\<And>k j. entry st' k j = (if (k, j) = label_key p then (entry (dj_status s) k j)\<lparr>info_set := 1\<rparr> else entry (dj_status s) k j)"
    using es_Update_entry [OF status_okD(1) [OF search_invD(3) [OF inv]] alloc, of Permanent] by (auto simp: key)
  have dom: "dom (dj_status s) \<subseteq> dom st'" using st(3) by (auto simp: domIff)
  define s' where "s' = s\<lparr>dj_queue := q', dj_status := st'\<rparr>"
  note S = settled_inv [OF inv q(2,3) st(2) dom st(4) [unfolded p_def], folded s'_def p_def]
  have exact: "exact_inv s' \<and> bq_cost q' \<le> cost (lab_cost p)" if ex: "exact_inv s"
  proof -
    have sort: "sort_cost (dj_labels s) j = cost (lab_cost (dj_labels s ! unat j))" if "unat j < length (dj_labels s)" for j
      using ex that by (simp add: exact_inv_def sort_cost_def)
    have low: "bq_cost q' \<le> cost (lab_cost (dj_labels s ! unat j))" if "j \<in># labels (dj_queue s)" for j
    proof -
      have "bq_cost (dj_queue s) \<le> cost (lab_cost (dj_labels s ! unat j))" using ex that by (simp add: exact_inv_def)
      then show ?thesis
        using bspec [OF q(6) that] sort [OF search_invD(6) [OF inv that]] by (simp add: max_absorb1)
    qed
    obtain m where "bq_cost q' = of_nat m" using q(2) unfolding queue_ok_def queue_at_def by blast
    moreover obtain k :: nat where "cost (lab_cost p) = of_nat k" using ex nth_mem [OF len] unfolding exact_inv_def whole_def p_def by blast
    ultimately have new: "cost (lab_cost p) \<le> bq_cost q'"
      using q(5) sort [OF len] by (simp add: p_def [symmetric])
    have c: "dj_labels s' = dj_labels s" "dj_queue s' = q'" by (simp_all add: s'_def)
    have "exact_inv s'"
      unfolding exact_inv_def S(3) c
    proof (intro conjI ballI allI impI)
      fix j assume "settled s j \<or> j = i"
      then show "cost (lab_cost (dj_labels s ! unat j)) \<le> bq_cost q'"
        using ex q(4) new by (auto simp: exact_inv_def p_def intro: order_trans)
    qed (use ex low q(3) in \<open>auto simp: exact_inv_def\<close>)
    then show ?thesis using low [OF i] by (simp add: p_def)
  qed
  have "length (dj_labels s) \<le> 2 ^ 28" using search_invD(5) [OF inv] search_okD(6) [OF sok] by simp
  then have "i \<noteq> kInvalidLabel" using len by (auto simp: kInvalidLabel_def)
  then show ?thesis using q(1) len st(1) S exact by (simp add: Let_def p_def s'_def)
qed

section \<open>A round of the loop\<close>

definition opp_of :: "search \<Rightarrow> bd_label \<Rightarrow> directed_edge option" where
  "opp_of se p = (if se_forward se then None
     else case GetOpposingEdge (se_reader se) (label_edgeid p) of Inl _ \<Rightarrow> None | Inr opp \<Rightarrow> opp)"

text \<open>A label without a predecessor is an origin, every other one an offer of its settled predecessor.\<close>

definition backed :: "search \<Rightarrow> bd_label list \<Rightarrow> bd_label \<Rightarrow> bool" where
  "backed se ls l \<longleftrightarrow> lab_predecessor l = kInvalidLabel
     \<or> (let p = ls ! unat (lab_predecessor l)
        in made_by se ls (lab_predecessor l) (opp_of se p) (set (out_edges se p)) l)"

text \<open>Whether a label expands; the derived class may look at the predecessor, which is settled.\<close>

definition expands :: "search \<Rightarrow> bd_label list \<Rightarrow> bd_label \<Rightarrow> bool" where
  "expands se ls p \<longleftrightarrow> se_should se ls p \<noteq> Prune_expansion \<and> (se_forward se \<or> opp_of se p \<noteq> None)"

definition local_decisions :: "search \<Rightarrow> bool" where
  "local_decisions se \<longleftrightarrow> (\<forall>ls ls' l. pred_of_index ls l = pred_of_index ls' l \<longrightarrow> se_should se ls l = se_should se ls' l)"

definition completed :: "bool \<Rightarrow> search \<Rightarrow> dijkstras \<Rightarrow> u32 \<Rightarrow> bool" where
  "completed exact se s i \<longleftrightarrow>
     (let p = dj_labels s ! unat i
      in expands se (dj_labels s) p \<longrightarrow> (\<forall>v\<in>set (out_edges se p). served exact se s i (opp_of se p) v))"

definition run_inv :: "bool \<Rightarrow> search \<Rightarrow> limits \<Rightarrow> dijkstras \<Rightarrow> bool" where
  "run_inv exact se lm s \<longleftrightarrow>
     search_inv se lm s \<and> (exact \<longrightarrow> exact_inv s) \<and> (\<forall>l\<in>set (dj_labels s). backed se (dj_labels s) l)
     \<and> (local_decisions se \<longrightarrow> (\<forall>i. settled s i \<longrightarrow> completed exact se s i))"

lemma visits_from_ok:
  assumes "graph_ok (se_reader se)" and "node_exists (se_reader se) g" and v: "v \<in> set (visits_from se g ot)"
  shows "visit_ok se v"
proof -
  obtain t n where n: "node_at se g = Some (t, n)" using v by (cases "node_at se g") (auto simp: visits_from_def)
  then have t: "GetGraphTile (se_reader se) g = Some t" "n = rt_nodes t ! unat (gid_id g)"
    by (auto simp: node_at_def Let_def split: option.splits if_splits)
  have tok: "tile_ok (se_reader se) t" using tile_in_graph [OF assms(1) t(1)] by simp
  have "n \<in> set (rt_nodes t)" using assms(2) t by (auto simp: node_exists_def)
  then have "unat (ni_edge_index n) + unat (ni_edge_count n) \<le> length (rt_edges t)" using tok by (simp add: tile_ok_def)
  moreover obtain j where "j < unat (ni_edge_index n) + unat (ni_edge_count n)" "v = (t, n, ot, edge_at g j, rt_edges t ! j)"
    using v by (auto simp: visits_from_def n visits_at_def)
  ultimately have j: "j < length (rt_edges t)" "v = (t, n, ot, edge_at g j, rt_edges t ! j)" by simp_all
  then show ?thesis using edge_at_valid(1,2) [OF t(1) tok j(1)] by blast
qed

lemma out_edges_ok:
  assumes "graph_ok (se_reader se)" and "node_exists (se_reader se) (label_endnode p)" and v: "v \<in> set (out_edges se p)"
  shows "visit_ok se v"
proof -
  obtain t n where tn: "node_at se (label_endnode p) = Some (t, n)"
    using v by (cases "node_at se (label_endnode p)") (auto simp: out_edges_def)
  then obtain ot where "offset_time se p n (hd (se_times se)) = Inr ot"
    using v by (cases "offset_time se p n (hd (se_times se))") (simp_all add: out_edges_def)
  note n = tn this
  then have t: "GetGraphTile (se_reader se) (label_endnode p) = Some t"
    by (auto simp: node_at_def Let_def split: option.splits if_splits)
  have tok: "tile_ok (se_reader se) t" using tile_in_graph [OF assms(1) t] by simp
  consider "v \<in> set (visits_from se (label_endnode p) ot)"
    | tr where "tr \<in> set (rt_transitions t)" "v \<in> set (visits_from se (transition_endnode tr) ot)"
    using v by (auto simp: out_edges_def n dest!: in_set_takeD in_set_dropD)
  then show ?thesis
  proof cases
    case 1
    show ?thesis by (rule visits_from_ok [OF assms(1,2) 1])
  next
    case 2
    then have "node_exists (se_reader se) (transition_endnode tr)" using tok by (simp add: tile_ok_def)
    then show ?thesis by (rule visits_from_ok [OF assms(1) _ 2(2)])
  qed
qed

lemma opp_of_found:
  assumes sok: "search_ok se lm" and p: "label_ok se lm s p" and "\<not> se_forward se"
  shows "GetOpposingEdge (se_reader se) (label_edgeid p) = Inr (opp_of se p)"
proof -
  let ?g = "label_edgeid p" and ?rd = "se_reader se"
  have "unat (gid_id ?g) < edge_count ?rd (status_key ?g (label_path_id p))"
    using p by (auto simp: label_ok_def label_key_def slots_def)
  then obtain t where t: "?rd (tile_value ?g) = Some t" "unat (gid_id ?g) < length (rt_edges t)"
    by (auto simp: edge_count_def status_key_fields(1) [OF path_id_small] split: option.splits)
  have "tile_ok ?rd t" using search_okD(1) [OF sok] t(1) by (auto simp: graph_ok_def)
  then have "unat (gid_id ?g) \<noteq> 2097151" using t(2) by (auto simp: tile_ok_def)
  then have "is_valid ?g" by (auto simp: is_valid_def gid_id_def kInvalidGraphId_def)
  then have "GetGraphTile ?rd ?g = Some t" using t(1) by (simp add: GetGraphTile_def)
  then show ?thesis
    using opposing_edge_found [OF search_okD(1,2) [OF sok] _ t(2)] assms(3) by (auto simp: opp_of_def)
qed

lemma backed_mono:
  assumes ext: "extends s s'" and inv: "search_inv se lm s" "search_inv se lm s'" and sok: "search_ok se lm"
    and l: "l \<in> set (dj_labels s)" "backed se (dj_labels s) l"
  shows "backed se (dj_labels s') l"
proof (cases "lab_predecessor l = kInvalidLabel")
  case False
  let ?i = "lab_predecessor l"
  have i: "settled s ?i" using search_invD(4) [OF inv(1) l(1)] False by (simp add: label_ok_def)
  define p where "p = dj_labels s ! unat ?i"
  have same: "dj_labels s' ! unat ?i = p" using extendsD(4) [OF ext i] by (simp add: p_def)
  have "label_ok se lm s p" using search_invD(8) [OF inv(1)] i by (simp add: settled_def p_def)
  then have "node_exists (se_reader se) (label_endnode p)" by (simp add: label_ok_def)
  then have vis: "\<forall>v\<in>set (out_edges se p). visit_ok se v"
    using out_edges_ok [OF search_okD(1) [OF sok]] by blast
  have "made_by se (dj_labels s) ?i (opp_of se p) (set (out_edges se p)) l"
    using l(2) False by (simp add: backed_def p_def Let_def)
  from made_by_mono [OF ext inv i vis search_okD(1) [OF sok] this subset_refl] show ?thesis
    by (simp add: backed_def same Let_def)
qed (simp add: backed_def)

lemma pred_of_index_frozen:
  assumes ext: "extends s s'" and inv: "search_inv se lm s" and p: "p \<in> set (dj_labels s)"
  shows "pred_of_index (dj_labels s') p = pred_of_index (dj_labels s) p"
proof (cases "lab_predecessor p = kInvalidLabel")
  case False
  then have i: "settled s (lab_predecessor p)" using search_invD(4) [OF inv p] by (simp add: label_ok_def)
  then show ?thesis
    using extendsD(3,4) [OF ext i] False by (simp add: pred_of_index_def settled_def)
qed (simp add: pred_of_index_def)

lemma completed_mono:
  assumes ext: "extends s s'" and inv: "search_inv se lm s" "search_inv se lm s'" and sok: "search_ok se lm"
    and loc: "local_decisions se" and i: "settled s i" "completed exact se s i"
  shows "completed exact se s' i"
proof -
  define p where "p = dj_labels s ! unat i"
  have same: "dj_labels s' ! unat i = p" using extendsD(4) [OF ext i(1)] by (simp add: p_def)
  have mem: "p \<in> set (dj_labels s)" using i(1) by (auto simp: settled_def p_def)
  have "node_exists (se_reader se) (label_endnode p)" using search_invD(4) [OF inv(1) mem] by (simp add: label_ok_def)
  note vis = out_edges_ok [OF search_okD(1) [OF sok] this]
  have "se_should se (dj_labels s') p = se_should se (dj_labels s) p"
    using loc pred_of_index_frozen [OF ext inv(1) mem] unfolding local_decisions_def by blast
  then show ?thesis
    using i(2) served_mono [OF ext inv i(1) vis search_okD(1) [OF sok]]
    by (simp add: completed_def same p_def [symmetric] expands_def)
qed

lemma search_okD_far:
  assumes "search_ok se lm"
  shows "(\<forall>ls l. se_should se ls l \<noteq> Prune_expansion \<longrightarrow> within_cost (far lm) (lab_cost l))
    \<or> first_cost lm + 2 * step_cost lm * max_labels lm \<le> far lm"
  using assms by (simp add: search_ok_def)

lemma expands_far:
  assumes sok: "search_ok se lm" and inv: "search_inv se lm s" and p: "p \<in> set (dj_labels s)"
    and "se_should se ls p \<noteq> Prune_expansion"
  shows "within_cost (far lm) (lab_cost p)"
  using search_okD_far [OF sok]
proof
  assume small: "first_cost lm + 2 * step_cost lm * max_labels lm \<le> far lm"
  have "settled_count s \<le> max_labels lm" using search_invD(5) [OF inv] by (simp add: settled_count_def)
  then have "first_cost lm + 2 * step_cost lm * settled_count s \<le> first_cost lm + 2 * step_cost lm * max_labels lm"
    by (intro add_left_mono mult_le_mono2)
  also note small
  finally have "first_cost lm + 2 * step_cost lm * settled_count s \<le> far lm" .
  moreover have "within_cost (first_cost lm + 2 * step_cost lm * settled_count s) (lab_cost p)"
    using search_invD(4) [OF inv p] by (simp add: label_ok_def)
  ultimately show ?thesis by (rule within_cost_mono [rotated])
qed (use assms(4) in blast)

lemma run_inv_extend:
  assumes sok: "search_ok se lm" and run: "run_inv exact se lm s" and ext: "extends s s'"
    and inv: "search_inv se lm s'" "exact \<Longrightarrow> exact_inv s'"
    and new: "\<forall>l\<in>set (dj_labels s'). l \<in> set (dj_labels s) \<or> backed se (dj_labels s') l"
    and set: "\<And>j. settled s' j \<Longrightarrow> \<not> settled s j \<Longrightarrow> local_decisions se \<Longrightarrow> completed exact se s' j"
  shows "run_inv exact se lm s'"
proof -
  note old = run [unfolded run_inv_def]
  have i0: "search_inv se lm s" using old by blast
  have "backed se (dj_labels s') l" if "l \<in> set (dj_labels s')" for l
    using new that old backed_mono [OF ext i0 inv(1) sok] by blast
  moreover have "completed exact se s' j" if "local_decisions se" "settled s' j" for j
    using set [OF that(2) _ that(1)] old that(1) completed_mono [OF ext i0 inv(1) sok that(1)] by blast
  ultimately show ?thesis using inv by (simp add: run_inv_def)
qed

lemma step_ok:
  assumes sok: "search_ok se lm" and wc: "exact \<Longrightarrow> whole_costs (se_costing se)"
    and run: "run_inv exact se lm s" and ne: "labels (dj_queue s) \<noteq> {#}"
  shows "\<exists>go s'. compute_step se s = Inr (go, s') \<and> run_inv exact se lm s' \<and> extends s s' \<and> work se lm s = work se lm s' + 1
    \<and> (go \<or> (\<exists>ls l. se_should se ls l = Stop_expansion))"
proof -
  note old = run [unfolded run_inv_def]
  have inv: "search_inv se lm s" and ex: "exact \<Longrightarrow> exact_inv s" using old by blast+
  obtain i q' st' where pop: "bq_pop (sort_cost (dj_labels s)) (dj_queue s) = Inr (i, q')" "i \<noteq> kInvalidLabel" "unat i < length (dj_labels s)"
    and upd: "es_Update (label_edgeid (dj_labels s ! unat i)) Permanent (label_path_id (dj_labels s ! unat i)) (dj_status s) = Inr st'"
    and all: "let s' = s\<lparr>dj_queue := q', dj_status := st'\<rparr>
       in search_inv se lm s' \<and> extends s s' \<and> (\<forall>j. settled s' j \<longleftrightarrow> settled s j \<or> j = i) \<and> settled_count s' = settled_count s + 1
         \<and> work se lm s = work se lm s' + 1
         \<and> (exact_inv s \<longrightarrow> exact_inv s' \<and> bq_cost q' \<le> cost (lab_cost (dj_labels s ! unat i)))"
    using settle [OF sok inv ne] by blast
  define p where "p = dj_labels s ! unat i"
  define s2 where "s2 = s\<lparr>dj_queue := q', dj_status := st'\<rparr>"
  note all = all [unfolded Let_def, folded s2_def p_def]
  have s2: "search_inv se lm s2" "extends s s2" "settled s2 j \<longleftrightarrow> settled s j \<or> j = i" "settled_count s2 = settled_count s + 1"
    "work se lm s = work se lm s2 + 1" "exact \<Longrightarrow> exact_inv s2 \<and> bq_cost q' \<le> cost (lab_cost p)" for j
    using all ex by blast+
  have c: "dj_labels s2 = dj_labels s" "dj_queue s2 = q'" by (simp_all add: s2_def)
  have i2: "settled s2 i" "dj_labels s2 ! unat i = p" by (simp_all add: s2(3) c p_def)
  have mem: "p \<in> set (dj_labels s)" using pop(3) by (simp add: p_def)
  have pok: "label_ok se lm s p" by (rule search_invD(4) [OF inv mem])
  have code: "compute_step se s = (if se_forward se \<or> opp_of se p \<noteq> None then expand_settled se i p (opp_of se p) s2 else Inr (True, s2))"
  proof (cases "se_forward se")
    case True
    then show ?thesis using pop upd by (simp add: compute_step_def label_at_def Let_def s2_def p_def [symmetric] opp_of_def)
  next
    case False
    note found = opp_of_found [OF sok pok False]
    show ?thesis
      using pop upd False
      by (cases "opp_of se p") (simp_all add: compute_step_def label_at_def Let_def s2_def p_def [symmetric] found)
  qed
  have quiet: "run_inv exact se lm s2" if "\<not> expands se (dj_labels s) p"
    by (rule run_inv_extend [OF sok run s2(2,1)]) (use s2(3,6) that i2 in \<open>auto simp: c completed_def\<close>)
  show ?thesis
  proof (cases "expands se (dj_labels s) p")
    case False
    show ?thesis
    proof (cases "se_forward se \<or> opp_of se p \<noteq> None")
      case True
      then have "se_should se (dj_labels s) p = Prune_expansion" using False by (auto simp: expands_def)
      then have "compute_step se s = Inr (True, s2)" using True by (simp add: code expand_settled_def c Let_def)
      then show ?thesis using quiet [OF False] s2(2,5) by blast
    next
      case no: False
      then have "compute_step se s = Inr (True, s2)" using code by simp
      then show ?thesis using quiet [OF False] s2(2,5) by blast
    qed
  next
    case True
    note far = expands_far [OF sok inv mem, of "dj_labels s"]
    have x: "expanding exact se lm i (opp_of se p) s2"
      unfolding expanding_def Let_def i2(2)
    proof (intro conjI impI)
      show "\<exists>k. k < settled_count s2 \<and> within_cost (first_cost lm + 2 * step_cost lm * k) (lab_cost p)"
        using pok s2(4) by (intro exI [of _ "settled_count s"]) (simp add: label_ok_def)
      show "within_cost (far lm) (lab_cost p)" using far True by (simp add: expands_def)
    qed (use sok s2 i2 True wc in \<open>auto simp: expands_def c\<close>)
    obtain s' where s': "ExpandInner se (label_endnode p) p i (opp_of se p) (hd (se_times se)) s2 = Inr s'" "extends s2 s'"
        "expanded exact se lm i (opp_of se p) s2 (set (out_edges se p)) s'"
      using ExpandInner_ok [OF x i2(2) [symmetric]] by blast
    note e = s'(3) [unfolded expanded_def]
    have code': "compute_step se s = Inr (se_should se (dj_labels s) p \<noteq> Stop_expansion, s')"
      using s'(1) True search_okD(7) [OF sok]
      by (cases "se_times se") (simp_all add: code expands_def expand_settled_def c Let_def)
    have same: "dj_labels s' ! unat i = p" using extendsD(4) [OF s'(2) i2(1)] i2(2) by simp
    have "run_inv exact se lm s'"
    proof (rule run_inv_extend [OF sok run extends_trans [OF s2(2) s'(2)]])
      show "\<forall>l\<in>set (dj_labels s'). l \<in> set (dj_labels s) \<or> backed se (dj_labels s') l"
        using e same by (auto simp: backed_def made_by_def Let_def c)
      fix j assume "settled s' j" "\<not> settled s j"
      then have "j = i" using e s2(3) by simp
      then show "completed exact se s' j" using e same by (simp add: completed_def Let_def)
    qed (use e in blast)+
    moreover have "work se lm s = work se lm s' + 1" using e s2(5) by simp
    moreover have "se_should se (dj_labels s) p \<noteq> Stop_expansion \<or> (\<exists>ls l. se_should se ls l = Stop_expansion)" by blast
    ultimately show ?thesis using code' extends_trans [OF s2(2) s'(2)] by blast
  qed
qed

section \<open>The loop\<close>

text \<open>
  The loop returns. Its labels and statuses are those of a state that keeps the invariant and in
  which no label waits, unless the derived class stopped the search.
\<close>

lemma loop_ok:
  assumes sok: "search_ok se lm" and wc: "exact \<Longrightarrow> whole_costs (se_costing se)"
  shows "run_inv exact se lm s \<Longrightarrow> work se lm s < fuel \<Longrightarrow>
    \<exists>s' t. compute_loop fuel se s = Some (Inr s') \<and> run_inv exact se lm t \<and> extends s t
      \<and> dj_labels s' = dj_labels t \<and> dj_status s' = dj_status t
      \<and> (labels (dj_queue t) = {#} \<or> (\<exists>ls l. se_should se ls l = Stop_expansion))"
proof (induction fuel arbitrary: s)
  case (Suc fuel)
  show ?case
  proof (cases "labels (dj_queue s) = {#}")
    case True
    have "queue_ok (sort_cost (dj_labels s)) (buckets lm) (dj_queue s)"
      using Suc.prems(1) search_invD(1) by (auto simp: run_inv_def)
    then obtain m where m: "queue_at (sort_cost (dj_labels s)) (buckets lm) m (dj_queue s)" by (auto simp: queue_ok_def)
    have "compute_step se s = Inr (False, s\<lparr>dj_queue := (dj_queue s)\<lparr>bq_current := buckets lm,
        bq_cost := of_nat (m + buckets lm + 1)\<rparr>\<rparr>)"
      by (simp only: compute_step_def pop_exhausted [OF m True] bind_result_simps) (simp add: Let_def)
    then show ?thesis using Suc.prems(1) True by (intro exI [of _ s] exI) auto
  next
    case False
    obtain go s1 where s1: "compute_step se s = Inr (go, s1)" "run_inv exact se lm s1" "extends s s1"
        "work se lm s = work se lm s1 + 1" "go \<or> (\<exists>ls l. se_should se ls l = Stop_expansion)"
      using step_ok [OF sok wc Suc.prems(1) False] by blast
    show ?thesis
    proof (cases go)
      case True
      have "work se lm s1 < fuel" using s1(4) Suc.prems(2) by simp
      from Suc.IH [OF s1(2) this] show ?thesis using True s1(1) extends_trans [OF s1(3)] by fastforce
    next
      case no: False
      then show ?thesis using s1 by (intro exI [of _ s1]) auto
    qed
  qed
qed simp

end
