(* ===== verification/Expansion_Run.thy ===== *)
theory Expansion_Run
  imports Expansion_Correct
begin

text \<open>
  A whole run of the search of \<open>Expansion\<close>: origins or destinations are put on the queue, the loop
  runs, and the result is a tree of labels that is complete and, for costs in whole numbers,
  cheapest. The last section instantiates the theorems with a small graph.
\<close>

section \<open>Origins and destinations\<close>

definition start_inv :: "bool \<Rightarrow> search \<Rightarrow> limits \<Rightarrow> nat \<Rightarrow> dijkstras \<Rightarrow> bool" where
  "start_inv exact se lm r s \<longleftrightarrow>
     run_inv exact se lm s \<and> (\<forall>j. \<not> settled s j) \<and> bq_cost (dj_queue s) = 0
     \<and> length (dj_labels s) + r + card (unreached (se_reader se) (paths lm) (dj_status s)) \<le> max_labels lm"

lemma push_location_ok:
  assumes sok: "search_ok se lm" and start: "start_inv exact se lm (Suc r) s" and l: "new_label_ok se lm s l"
    and pred: "lab_predecessor l = kInvalidLabel" and key: "label_key l = (status_key g pid, unat (gid_id g))"
    and n: "n = edge_count (se_reader se) (status_key g pid)"
    and ex: "exact \<Longrightarrow> whole (cost (lab_cost l))"
  shows "\<exists>s'. push_location l g n pid s = Inr s' \<and> start_inv exact se lm r s'"
proof -
  let ?idx = "word_of_nat (length (dj_labels s)) :: u32"
  have run: "run_inv exact se lm s" and none: "\<And>j. \<not> settled s j" and zero: "bq_cost (dj_queue s) = 0"
    and room: "length (dj_labels s) + Suc r + card (unreached (se_reader se) (paths lm) (dj_status s)) \<le> max_labels lm"
    using start by (simp_all add: start_inv_def)
  have inv: "search_inv se lm s" and ei: "exact \<Longrightarrow> exact_inv s" using run by (simp_all add: run_inv_def)
  have len: "length (dj_labels s) < 2 ^ 28" using room search_okD(6) [OF sok] by simp
  obtain q' where q: "bq_add (sort_cost (dj_labels s @ [l])) ?idx (dj_queue s) = Inr q'"
      "queue_ok (sort_cost (dj_labels s @ [l])) (buckets lm) q'" "labels q' = add_mset ?idx (labels (dj_queue s))"
      "bq_cost q' = bq_cost (dj_queue s)"
    using add_to_queue [OF inv l len search_okD(4) [OF sok]] by blast
  have slot: "label_key l \<in> slots (se_reader se) (paths lm)" using l by (simp add: new_label_ok_def)
  then have i: "unat (gid_id g) < edge_count (se_reader se) (status_key g pid)" by (simp add: key slots_def)
  obtain st' where st: "es_Set g Temporary ?idx n pid (dj_status s) = Inr st'" "arrays_ok (se_reader se) st'"
      "st' (status_key g pid) \<noteq> None" "\<forall>k. dj_status s k \<noteq> None \<longrightarrow> st' k \<noteq> None"
      "\<And>k j. entry st' k j = (if (k, j) = label_key l then make_info Temporary ?idx else entry (dj_status s) k j)"
    using es_Set_entry [OF status_okD(1) [OF search_invD(3) [OF inv]] i n, of Temporary ?idx] by (auto simp: key)
  have dom: "dom (dj_status s) \<subseteq> dom st'" "fst (label_key l) \<in> dom st'" using st(3,4) by (auto simp: domIff key)
  have "unreached (se_reader se) (paths lm) st' \<subseteq> unreached (se_reader se) (paths lm) (dj_status s)"
    using written_taken [OF st(5)] by (auto simp: unreached_def)
  then have card: "card (unreached (se_reader se) (paths lm) st') \<le> card (unreached (se_reader se) (paths lm) (dj_status s))"
    by (rule card_mono [OF finite_unreached])
  define s' where "s' = s\<lparr>dj_labels := dj_labels s @ [l], dj_queue := q', dj_status := st'\<rparr>"
  have c: "dj_labels s' = dj_labels s @ [l]" "dj_queue s' = q'" "dj_status s' = st'" by (simp_all add: s'_def)
  have a: "search_inv se lm s'" "extends s s'"
    using added_inv [OF inv l len q(2,3) st(2) dom st(5)] room card by (simp_all add: s'_def)
  have none': "\<not> settled s' j" for j using added_settled(1) [OF len c(1)] none q(3) by (simp add: c(2))
  have "exact_inv s'" if exact
  proof (rule exact_added [OF ei [OF that] inv len c(1)])
    show "bq_cost (dj_queue s) \<le> cost (lab_cost l)" using ex [OF that] zero by (auto simp: whole_def)
  qed (use l ex [OF that] q in \<open>simp_all add: c new_label_ok_def\<close>)
  then have "run_inv exact se lm s'"
    by (intro run_inv_extend [OF sok run a(2,1)]) (use none' pred in \<open>auto simp: c(1) backed_def\<close>)
  then have "start_inv exact se lm r s'"
    using none' zero room card q(4) by (simp add: start_inv_def c)
  moreover have "push_location l g n pid s = Inr s'" by (simp add: push_location_def Let_def q(1) st(1) s'_def)
  ultimately show ?thesis by blast
qed

definition location_ok :: "bool \<Rightarrow> search \<Rightarrow> limits \<Rightarrow> path_edge \<Rightarrow> bool" where
  "location_ok exact se lm pe \<longleftrightarrow>
     0 \<le> pe_percent_along pe \<and> pe_percent_along pe \<le> 1
     \<and> (exact \<longrightarrow> (pe_percent_along pe = 0 \<or> pe_percent_along pe = 1) \<and> whole (pe_distance pe))
     \<and> 0 \<le> pe_distance pe \<and> of_nat (step_cost lm) + pe_distance pe \<le> of_nat (first_cost lm)
     \<and> (\<forall>t. GetGraphTile (se_reader se) (GraphId (pe_graph_id pe)) = Some t
          \<longrightarrow> unat (gid_id (GraphId (pe_graph_id pe))) < length (rt_edges t))"

lemma partial_cost_ok:
  assumes c: "within_cost D c" and share: "0 \<le> share" "share \<le> 1" and d: "of_nat D + d \<le> of_nat X" and D: "D \<le> X" "X \<le> 2 ^ 24"
  shows "within_cost X (partial_cost c share d)"
proof -
  have rep: "float32.representable (of_nat n)" "float64.representable (of_nat n)" if "n \<le> X" for n
    unfolding float32.representable_def float64.representable_def
    using that D(2) by (intro float32.exact_nat float64.exact_nat; simp)+
  have f: "0 \<le> f32 share" "f32 share \<le> 1" using share by (simp_all add: float32.nonneg float32.le_1)
  have part: "f32 (y * f32 share) \<le> of_nat D" if "y \<le> of_nat D" for y
  proof (rule float32.upper)
    show "float32.representable (of_nat D)" by (rule rep(1) [OF D(1)])
    show "y * f32 share \<le> of_nat D"
      using that f mult_right_mono [OF that f(1)] mult_left_le [OF f(2), of "of_nat D :: rat"] by linarith
  qed
  have "f64 (f32 (cost c * f32 share) + d) \<le> of_nat X"
    by (rule float64.upper [OF rep(2)]) (use part [of "cost c"] c d in \<open>simp_all add: within_cost_def\<close>)
  then have "f32 (f64 (f32 (cost c * f32 share) + d)) \<le> of_nat X" by (intro float32.upper rep(1)) simp_all
  moreover have "0 \<le> f32 (secs c * f32 share)" 
    using c f by (intro float32.nonneg mult_nonneg_nonneg f(1)) (simp add: within_cost_def)
  moreover have "f32 (secs c * f32 share) \<le> of_nat X"
    using part [of "secs c"] c D(1) by (simp add: within_cost_def)
  ultimately show ?thesis by (simp add: partial_cost_def within_cost_def cost_scale_def Let_def float32.idem)
qed

lemma partial_cost_whole:
  assumes c: "whole (cost c)" "within_cost D c" and share: "share = 0 \<or> share = 1" and d: "whole d" "of_nat D + d \<le> of_nat X" "X \<le> 2 ^ 24"
  shows "whole (cost (partial_cost c share d))"
proof -
  obtain i j :: nat where ij: "cost c = of_nat i" "d = of_nat j" using c(1) d(1) by (auto simp: whole_def)
  have "(of_nat (i + j) :: rat) \<le> of_nat X" using c(2) d(2) by (simp add: within_cost_def ij)
  then have le: "i + j \<le> 2 ^ 24" using d(3) by (simp only: of_nat_le_iff)
  have e: "f32 (of_nat n) = of_nat n" "f64 (of_nat n) = of_nat n" if "n \<le> i + j" for n
    using that le by (intro float32.exact_nat float64.exact_nat; simp)+
  have "f64 (of_nat i + of_nat j) = of_nat (i + j)" using e(2) [of "i + j"] by simp
  then have "cost (partial_cost c share d) = of_nat (if share = 0 then j else i + j)"
    using share e(1) [of i] e(1) [of j] e(2) [of j] e(1) [of "i + j"]
    by (auto simp: partial_cost_def cost_scale_def Let_def ij)
  then show ?thesis by (auto simp: whole_def)
qed

lemma partial_length_total:
  assumes "0 \<le> share" and "share \<le> 1"
  shows "\<exists>d. partial_length e share = Inr d"
proof -
  let ?x = "f64 (of_nat (unat (de_length e)) * share)"
  have "unat (de_length e) < 2 ^ 24" using unsigned_less [of "de_length e", where ?'a = nat] by simp
  then have n: "(of_nat (unat (de_length e)) :: rat) \<le> of_nat (2 ^ 24)" by (simp only: of_nat_le_iff)
  have lower: "0 \<le> ?x" by (intro float64.nonneg mult_nonneg_nonneg of_nat_0_le_iff assms(1))
  have "?x \<le> of_nat (2 ^ 24)"
  proof (rule float64.upper)
    show "float64.representable (of_nat (2 ^ 24))"
      unfolding float64.representable_def by (rule float64.exact_nat) simp
    show "of_nat (unat (de_length e)) * share \<le> of_nat (2 ^ 24)"
      by (rule order_trans [OF mult_left_le [OF assms(2) of_nat_0_le_iff] n])
  qed
  then have "c_trunc ?x \<le> c_trunc (of_int (2 ^ 24))" using lower by (intro c_trunc_mono_nonneg) simp_all
  then have "c_trunc ?x \<le> 2 ^ 24" by (simp only: c_trunc_of_int)
  moreover have "0 \<le> c_trunc ?x" using lower by (simp add: c_trunc_def)
  ultimately show ?thesis by (simp add: partial_length_def to_u32_def Let_def)
qed

lemma exempted_total:
  assumes "tile_ok rd t"
  shows "\<exists>m. GetExemptedAccessRestrictions d e t g = Inr m"
proof -
  have fold: "\<exists>m'. fold_result (\<lambda>r exempt. if ar_except_destination r
      then bind_result (array_at kAccessRestrictionMasks (unat (ar_type r))) (\<lambda>m. Inr (exempt OR m)) else Inr exempt) rs m = Inr m'"
    if "\<forall>r\<in>set rs. unat (ar_type r) < 32" for rs m
    using that
  proof (induction rs arbitrary: m)
    case (Cons r rs)
    have "length kAccessRestrictionMasks = 32" by (simp add: kAccessRestrictionMasks_def)
    then show ?case using Cons by (simp add: array_at_def)
  qed simp
  have "\<forall>r\<in>set (GetAccessRestrictions t (gid_id g) (access_mask d)). unat (ar_type r) < 32"
    using assms by (auto simp: tile_ok_def GetAccessRestrictions_def Let_def dest!: set_takeWhileD in_set_dropD)
  from fold [OF this] show ?thesis by (simp add: GetExemptedAccessRestrictions_def)
qed

lemma location_label_sel [simp]:
  "lab_predecessor (location_label se g og l e c flow d pid m) = kInvalidLabel"
  "lab_cost (location_label se g og l e c flow d pid m) = c"
  "lab_sortcost (location_label se g og l e c flow d pid m) = cost c"
  "label_endnode (location_label se g og l e c flow d pid m) = endnode l"
  by (simp_all add: location_label_def Let_def label_endnode_def endnode_def)

lemma key_of_short_id: "tile_value (GraphId (take_bit 46 v)) = tile_value (GraphId v)" "gid_id (GraphId (take_bit 46 v)) = gid_id (GraphId v)"
  by (rule bit_word_eqI; auto simp: tile_value_def field_bits const_masks bit_simps)+

lemma location_label_key:
  assumes "se_multipath se \<Longrightarrow> pid \<le> kMaxMultiPathId"
  shows "label_key (location_label se g og l e c flow d pid m)
    = (status_key g (if se_multipath se then pid else 0), unat (gid_id g))"
proof -
  let ?p = "if se_multipath se then pid else 0"
  have "?p \<le> kMaxMultiPathId" using assms by simp
  then have "unat ?p < 2 ^ 7" by (simp add: kMaxMultiPathId_def word_le_nat_alt)
  then have "take_bit 7 ?p = ?p" by (simp only: take_bit_self_iff)
  moreover have "(ucast (ucast ?p :: 7 word) :: u8) = take_bit 7 ?p" by (rule bit_word_eqI) (auto simp: bit_simps)
  ultimately have "(ucast (ucast ?p :: 7 word) :: u8) = ?p" by simp
  then show ?thesis
    using key_of_short_id [of "gid_value g"]
    by (simp add: label_key_def location_label_def Let_def status_key_def del: if_cancel split del: if_split)
qed

text \<open>The path of a location: its number when paths are tracked apart, else 0.\<close>

abbreviation path_of :: "search \<Rightarrow> u8 \<Rightarrow> u8" where
  "path_of se pid \<equiv> (if se_multipath se then pid else 0)"

lemma start_skip: "start_inv exact se lm (Suc r) s \<Longrightarrow> start_inv exact se lm r s"
  by (simp add: start_inv_def)

lemma location_slot:
  assumes "graph_ok rd" and "rd (tile_value g) = Some t" and "unat (gid_id g) < length (rt_edges t)"
    and "pid \<le> kMaxMultiPathId" and "unat pid < n"
  shows "(status_key g pid, unat (gid_id g)) \<in> slots rd n" and "length (rt_edges t) = edge_count rd (status_key g pid)"
proof -
  have "unat (ucast pid :: u32) = unat pid"
    using unsigned_less [of pid, where ?'a = nat] by (simp only: unsigned_ucast_eq) (rule take_bit_nat_eq_self, simp)
  then show "(status_key g pid, unat (gid_id g)) \<in> slots rd n" "length (rt_edges t) = edge_count rd (status_key g pid)"
    using assms by (simp_all add: slots_def edge_count_def status_key_fields [OF assms(4)])
qed

lemma location_cost:
  assumes sok: "search_ok se lm" and loc: "location_ok exact se lm pe" and first: "first_cost lm \<le> cap lm"
    and ec: "ct_EdgeCost (se_costing se) e t invalid_time = Inr (ec, flow)"
    and share: "share = pe_percent_along pe \<or> share = f64 (1 - pe_percent_along pe)"
    and wc: "exact \<Longrightarrow> whole_costs (se_costing se)"
  shows "0 \<le> share" "share \<le> 1" "within_cost (first_cost lm) (partial_cost ec share (pe_distance pe))"
    "exact \<Longrightarrow> whole (cost (partial_cost ec share (pe_distance pe)))"
proof -
  have ch: "charged (se_costing se) ec" using ec unfolding charged_def by blast
  then have w: "within_cost (step_cost lm) ec" using search_okD(3) [OF sok] by (simp add: costing_ok_def)
  show sh: "0 \<le> share" "share \<le> 1"
    using share loc by (auto simp: location_ok_def intro: float64.nonneg float64.le_1)
  have X: "first_cost lm \<le> 2 ^ 24" using first search_okD(4) [OF sok] by simp
  have d: "of_nat (step_cost lm) + pe_distance pe \<le> of_nat (first_cost lm)" using loc by (simp add: location_ok_def)
  have "step_cost lm \<le> cap lm" by (simp add: cap_def)
  then have cap: "step_cost lm \<le> 2 ^ 24" using search_okD(4) [OF sok] by simp
  show "within_cost (first_cost lm) (partial_cost ec share (pe_distance pe))"
  proof (rule partial_cost_ok [OF w sh d _ X])
    have "(of_nat (step_cost lm) :: rat) \<le> of_nat (first_cost lm)" using loc by (simp add: location_ok_def)
    then show "step_cost lm \<le> first_cost lm" by (simp only: of_nat_le_iff)
  qed
  assume exact
  then have "share = 0 \<or> share = 1" "whole (pe_distance pe)" using share loc by (auto simp: location_ok_def)
  moreover have "whole (cost ec)" using wc [OF \<open>exact\<close>] ch by (simp add: whole_costs_def)
  ultimately show "whole (cost (partial_cost ec share (pe_distance pe)))" using partial_cost_whole [OF _ w _ _ d X] by blast
qed

lemma pushed_location:
  assumes sok: "search_ok se lm" and start: "start_inv exact se lm (Suc r) s" and first: "first_cost lm \<le> cap lm"
    and pid: "se_multipath se \<Longrightarrow> pid \<le> kMaxMultiPathId" "unat (path_of se pid) < paths lm"
    and g: "se_reader se (tile_value g) = Some t" "unat (gid_id g) < length (rt_edges t)"
    and l: "lab_predecessor l = kInvalidLabel" "lab_sortcost l = cost (lab_cost l)"
      "label_key l = (status_key g (path_of se pid), unat (gid_id g))" "label_endnode l = endnode (rt_edges t ! unat (gid_id g))"
      "within_cost (first_cost lm) (lab_cost l)" "exact \<Longrightarrow> whole (cost (lab_cost l))"
  shows "\<exists>s'. push_location l g (length (rt_edges t)) (path_of se pid) s = Inr s' \<and> start_inv exact se lm r s'"
proof (rule push_location_ok [OF sok start _ l(1,3) _ l(6)])
  have p: "path_of se pid \<le> kMaxMultiPathId" using pid(1) by simp
  note slot = location_slot [OF search_okD(1) [OF sok] g p pid(2)]
  show "length (rt_edges t) = edge_count (se_reader se) (status_key g (path_of se pid))" by (rule slot(2))
  have "tile_ok (se_reader se) t" using search_okD(1) [OF sok] g(1) by (auto simp: graph_ok_def)
  then have "node_exists (se_reader se) (label_endnode l)" using g(2) by (simp add: l(4) tile_ok_def)
  moreover have "within_cost (cap lm) (lab_cost l)"
    "within_cost (first_cost lm + 2 * step_cost lm * settled_count s) (lab_cost l)"
    by (rule within_cost_mono [OF l(5)]; simp add: first)+
  ultimately show "new_label_ok se lm s l"
    using slot(1) l(1-3) by (simp add: new_label_ok_def)
qed

lemma set_origin_edge_ok:
  assumes sok: "search_ok se lm" and start: "start_inv exact se lm (Suc r) s" and first: "first_cost lm \<le> cap lm"
    and wc: "exact \<Longrightarrow> whole_costs (se_costing se)" and loc: "location_ok exact se lm pe"
    and pid: "se_multipath se \<Longrightarrow> pid \<le> kMaxMultiPathId" "unat (path_of se pid) < paths lm"
  shows "\<exists>s'. set_origin_edge se pid other pe s = Inr s' \<and> start_inv exact se lm r s'"
proof -
  let ?g = "GraphId (pe_graph_id pe)" and ?rd = "se_reader se"
  note skip = start_skip [OF start]
  show ?thesis
  proof (cases "GetGraphTile ?rd ?g")
    case (Some t)
    have len: "unat (gid_id ?g) < length (rt_edges t)" using loc Some by (simp add: location_ok_def)
    have t: "tile_ok ?rd t" "?rd (tile_value ?g) = Some t" using tile_in_graph [OF search_okD(1) [OF sok] Some] by simp_all
    define e where "e = rt_edges t ! unat (gid_id ?g)"
    have edge: "tile_edge t ?g = Inr e" and mem: "e \<in> set (rt_edges t)" using len by (simp_all add: tile_edge_def e_def)
    have "node_exists ?rd (endnode e)" using t(1) mem by (simp add: tile_ok_def)
    then have "\<exists>opp. GetOpposingEdgeId ?rd ?g None = Inr opp"
      by (cases "GetGraphTile ?rd (endnode e)") (auto simp: GetOpposingEdgeId_def Some edge node_exists_def tile_node_def)
    then obtain opp where opp: "GetOpposingEdgeId ?rd ?g None = Inr opp" by blast
    obtain ec flow where ec: "ct_EdgeCost (se_costing se) e t invalid_time = Inr (ec, flow)"
      using search_okD(3) [OF sok] unfolding costing_ok_def by (metis surj_pair)
    note cost = location_cost [OF sok loc first ec _ wc, of "f64 (1 - pe_percent_along pe)"]
    obtain d where d: "partial_length e (f64 (1 - pe_percent_along pe)) = Inr d" using partial_length_total [OF cost(1,2)] by auto
    obtain m where m: "GetExemptedAccessRestrictions (ct_dyn (se_costing se)) e t ?g = Inr m" using exempted_total [OF t(1)] by blast
    define l where "l = (location_label se ?g (fst opp) e e (partial_cost ec (f64 (1 - pe_percent_along pe)) (pe_distance pe)) flow d pid m)
      \<lparr>lab_origin := True\<rparr>"
    have key: "label_key l = (status_key ?g (path_of se pid), unat (gid_id ?g))"
      using location_label_key [OF pid(1)] by (simp add: l_def label_key_def label_edgeid_def label_path_id_def)
    have "\<exists>s'. push_location l ?g (length (rt_edges t)) (path_of se pid) s = Inr s' \<and> start_inv exact se lm r s'"
      by (rule pushed_location [OF sok start first pid t(2) len _ _ key])
        (use cost(3,4) location_label_sel(4) in \<open>simp_all add: l_def label_endnode_def e_def [symmetric]\<close>)
    then show ?thesis
      using skip by (cases opp) (auto simp: set_origin_edge_def Let_def Some edge opp ec d m l_def)
  qed (use skip in \<open>auto simp: set_origin_edge_def Let_def\<close>)
qed

lemma set_destination_edge_ok:
  assumes sok: "search_ok se lm" and start: "start_inv exact se lm (Suc r) s" and first: "first_cost lm \<le> cap lm"
    and wc: "exact \<Longrightarrow> whole_costs (se_costing se)" and loc: "location_ok exact se lm pe" and rev: "\<not> se_forward se"
    and pid: "se_multipath se \<Longrightarrow> pid \<le> kMaxMultiPathId" "unat (path_of se pid) < paths lm"
  shows "\<exists>s'. set_destination_edge se pid other pe s = Inr s' \<and> start_inv exact se lm r s'"
proof -
  let ?g = "GraphId (pe_graph_id pe)" and ?rd = "se_reader se"
  note skip = start_skip [OF start]
  show ?thesis
  proof (cases "GetGraphTile ?rd ?g")
    case (Some t)
    have len: "unat (gid_id ?g) < length (rt_edges t)" using loc Some by (simp add: location_ok_def)
    have t: "tile_ok ?rd t" "?rd (tile_value ?g) = Some t" using tile_in_graph [OF search_okD(1) [OF sok] Some] by simp_all
    define e where "e = rt_edges t ! unat (gid_id ?g)"
    have edge: "tile_edge t ?g = Inr e" and mem: "e \<in> set (rt_edges t)" using len by (simp_all add: tile_edge_def e_def)
    note rv = search_okD(2) [OF sok rev]
    have transit: "\<not> IsTransitLine e" using rv t(2) mem by (auto simp: reversible_def)
    show ?thesis
    proof (cases "GetGraphTile ?rd (endnode e)")
      case None
      then have "GetOpposingEdgeId ?rd ?g (Some t) = Inr (gid_default, None)"
        by (simp add: GetOpposingEdgeId_def Some edge transit)
      then show ?thesis
        using skip by (auto simp: set_destination_edge_def Let_def Some edge is_valid_def gid_default_def)
    next
      case t2: (Some t2)
      obtain n where n: "tile_node t2 (endnode e) = Inr n"
          "unat (gid_id (gid_set_id (endnode e) (ucast (ni_edge_index n) + ucast (de_opp_index e)))) < length (rt_edges t2)"
        using opposing_index [OF search_okD(1) [OF sok] rv t(2) mem t2] by blast
      define og where "og = gid_set_id (endnode e) (ucast (ni_edge_index n) + ucast (de_opp_index e))"
      have opp: "GetOpposingEdgeId ?rd ?g (Some t) = Inr (og, Some t2)"
        by (simp add: GetOpposingEdgeId_def Some edge transit t2 n(1) og_def)
      define oe where "oe = rt_edges t2 ! unat (gid_id og)"
      have oedge: "tile_edge t2 og = Inr oe" using n(2) by (simp add: tile_edge_def oe_def og_def)
      have "tile_value og = tile_value (endnode e)"
        unfolding og_def by (rule tile_value_fields) (simp_all add: set_id_fields)
      then have rd2: "?rd (tile_value og) = Some t2" using tile_in_graph [OF search_okD(1) [OF sok] t2] by simp
      obtain ec flow where ec: "ct_EdgeCost (se_costing se) e t invalid_time = Inr (ec, flow)"
        using search_okD(3) [OF sok] unfolding costing_ok_def by (metis surj_pair)
      note cost = location_cost [OF sok loc first ec _ wc, of "pe_percent_along pe"]
      obtain d where d: "partial_length e (pe_percent_along pe) = Inr d" using partial_length_total [OF cost(1,2)] by auto
      obtain m where m: "GetExemptedAccessRestrictions (ct_dyn (se_costing se)) e t ?g = Inr m" using exempted_total [OF t(1)] by blast
      define l where "l = location_label se og ?g oe e (partial_cost ec (pe_percent_along pe) (pe_distance pe)) flow d pid m"
      have key: "label_key l = (status_key og (path_of se pid), unat (gid_id og))"
        unfolding l_def by (rule location_label_key [OF pid(1)])
      have "\<exists>s'. push_location l og (length (rt_edges t2)) (path_of se pid) s = Inr s' \<and> start_inv exact se lm r s'"
        by (rule pushed_location [OF sok start first pid rd2 n(2) [folded og_def] _ _ key])
          (use cost(3,4) in \<open>simp_all add: l_def oe_def [symmetric]\<close>)
      then show ?thesis
        using skip by (auto simp: set_destination_edge_def Let_def Some edge opp oedge ec d m l_def)
    qed
  qed (use skip in \<open>auto simp: set_destination_edge_def Let_def\<close>)
qed

lemma fold_edges_ok:
  assumes step: "\<And>pe r s. pe \<in> set pes \<Longrightarrow> start_inv exact se lm (Suc r) s \<Longrightarrow> \<exists>s'. f pe s = Inr s' \<and> start_inv exact se lm r s'"
    and start: "start_inv exact se lm (length pes + r) s"
  shows "\<exists>s'. fold_result f pes s = Inr s' \<and> start_inv exact se lm r s'"
  using assms
proof (induction pes arbitrary: s)
  case (Cons pe pes)
  obtain s1 where s1: "f pe s = Inr s1" "start_inv exact se lm (length pes + r) s1"
    using Cons.prems(1) [of pe "length pes + r" s] Cons.prems(2) by auto
  obtain s' where "fold_result f pes s1 = Inr s'" "start_inv exact se lm r s'"
    using Cons.IH [OF _ s1(2)] Cons.prems(1) by auto
  then show ?case by (simp add: s1(1))
qed simp

lemma set_location_ok:
  assumes sok: "search_ok se lm" and first: "first_cost lm \<le> cap lm" and wc: "exact \<Longrightarrow> whole_costs (se_costing se)"
    and loc: "\<forall>pe\<in>set pes. location_ok exact se lm pe" and pid: "se_multipath se \<Longrightarrow> pid \<le> kMaxMultiPathId" "unat (path_of se pid) < paths lm"
    and start: "start_inv exact se lm (length pes + r) s"
  shows "\<exists>s'. set_location se pid pes s = Inr s' \<and> start_inv exact se lm r s'"
proof (cases "se_forward se")
  case True
  then show ?thesis
    unfolding set_location_def if_P [OF True]
    by (intro fold_edges_ok [OF _ start] set_origin_edge_ok [OF sok _ first wc _ pid]) (use loc in auto)
next
  case False
  then show ?thesis
    unfolding set_location_def if_not_P [OF False]
    by (intro fold_edges_ok [OF _ start] set_destination_edge_ok [OF sok _ first wc _ False pid]) (use loc in auto)
qed

lemma set_locations_ok:
  assumes sok: "search_ok se lm" and first: "first_cost lm \<le> cap lm" and wc: "exact \<Longrightarrow> whole_costs (se_costing se)"
  shows "\<forall>pes\<in>set locs. \<forall>pe\<in>set pes. location_ok exact se lm pe \<Longrightarrow>
    (if se_multipath se then unat pid + length locs \<le> paths lm else 0 < paths lm) \<Longrightarrow>
    start_inv exact se lm (length (concat locs) + r) s \<Longrightarrow>
    \<exists>s'. set_locations_from se pid locs s = Inr s' \<and> start_inv exact se lm r s'"
proof (induction locs arbitrary: pid s)
  case (Cons pes locs)
  have p: "se_multipath se \<Longrightarrow> pid \<le> kMaxMultiPathId" "unat (path_of se pid) < paths lm"
    using Cons.prems(2) search_okD(5) [OF sok] by (auto simp: kMaxMultiPathId_def word_le_nat_alt split: if_splits)
  have "start_inv exact se lm (length pes + (length (concat locs) + r)) s" using Cons.prems(3) by (simp add: ac_simps)
  then obtain s1 where s1: "set_location se pid pes s = Inr s1" "start_inv exact se lm (length (concat locs) + r) s1"
    using set_location_ok [OF sok first wc _ p] Cons.prems(1) by force
  have "if se_multipath se then unat (pid + 1) + length locs \<le> paths lm else 0 < paths lm"
    using Cons.prems(2) search_okD(5) [OF sok] by (auto simp: unat_word_ariths split: if_splits)
  from Cons.IH [OF _ this s1(2)] Cons.prems(1) show ?case by (simp add: s1(1))
qed simp

section \<open>The whole run\<close>

text \<open>
  Before a run the search is cleared and the queue holds nothing. The limits have room for the
  origins and for every edge of every path; the bucket count and the locations are those of
  the run.
\<close>

definition cleared :: "dijkstras \<Rightarrow> bool" where
  "cleared s \<longleftrightarrow> dj_labels s = [] \<and> dj_status s = Map.empty \<and> concat (bq_buckets (dj_queue s)) = [] \<and> bq_overflow (dj_queue s) = []"

definition run_ok :: "bool \<Rightarrow> search \<Rightarrow> limits \<Rightarrow> path_edge list list \<Rightarrow> bool" where
  "run_ok exact se lm locs \<longleftrightarrow>
     search_ok se lm \<and> (exact \<longrightarrow> whole_costs (se_costing se)) \<and> 0 < buckets lm \<and> first_cost lm \<le> cap lm
     \<and> (\<forall>pes\<in>set locs. \<forall>pe\<in>set pes. location_ok exact se lm pe)
     \<and> (if se_multipath se then length locs \<le> min 127 (paths lm) else 0 < paths lm)
     \<and> length (concat locs) + card (slots (se_reader se) (paths lm)) \<le> max_labels lm"

lemma cleared_start:
  assumes "run_ok exact se lm locs" and "cleared s"
  shows "\<exists>s'. dj_initialize (word_of_nat (buckets lm)) 1 s = Inr s' \<and> start_inv exact se lm (length (concat locs)) s'"
proof -
  have sok: "search_ok se lm" and n: "0 < buckets lm" using assms(1) by (simp_all add: run_ok_def)
  have b: "buckets lm + 1 \<le> 2 ^ 24" using search_okD(4) [OF sok] by simp
  have u: "unat (word_of_nat (buckets lm) :: u32) = buckets lm" using b by (simp add: unsigned_of_nat take_bit_nat_eq_self)
  have f: "f32 (of_nat (buckets lm)) = of_nat (buckets lm)" using b by (intro float32.exact_nat) simp
  have e: "concat (bq_buckets (dj_queue s)) = []" "bq_overflow (dj_queue s) = []" using assms(2) by (simp_all add: cleared_def)
  obtain q where q: "bq_reuse 0 (of_nat (buckets lm)) 1 (dj_queue s) = Inr q" "queue_at (sort_cost []) (buckets lm) 0 q"
      "bq_current q = 0" "labels q = {#}"
    using reuse_at [OF n _ _ e, of 0 "sort_cost []"] b by auto
  have "start_inv exact se lm (length (concat locs)) (s\<lparr>dj_queue := q\<rparr>)"
    using q assms unfolding start_inv_def run_inv_def search_inv_def
    by (auto simp: cleared_def queue_ok_def queue_labels_ok_def status_ok_def arrays_ok_def entry_set_def entry_def settled_def
        exact_inv_def unreached_def taken_def run_ok_def queue_at_def)
  then show ?thesis by (simp add: dj_initialize_def u f q(1))
qed

lemma run_result:
  assumes run: "run_ok exact se lm locs" and s: "cleared s" and fuel: "max_labels lm < fuel"
  shows "\<exists>s' t. Compute fuel se (word_of_nat (buckets lm)) 1 locs s = Some (Inr s') \<and> run_inv exact se lm t
    \<and> dj_labels s' = dj_labels t \<and> dj_status s' = dj_status t
    \<and> (labels (dj_queue t) = {#} \<or> (\<exists>ls l. se_should se ls l = Stop_expansion))"
proof -
  have sok: "search_ok se lm" and wc: "exact \<Longrightarrow> whole_costs (se_costing se)" and first: "first_cost lm \<le> cap lm"
    and locs: "\<forall>pes\<in>set locs. \<forall>pe\<in>set pes. location_ok exact se lm pe"
    and p: "if se_multipath se then length locs \<le> min 127 (paths lm) else 0 < paths lm"
    using run unfolding run_ok_def by blast+
  obtain s0 where s0: "dj_initialize (word_of_nat (buckets lm)) 1 s = Inr s0" "start_inv exact se lm (length (concat locs)) s0"
    using cleared_start [OF run s] by blast
  have "if se_multipath se then unat (0 :: u8) + length locs \<le> paths lm else 0 < paths lm" using p by (simp split: if_splits)
  then obtain s1 where s1: "set_locations_from se 0 locs s0 = Inr s1" "start_inv exact se lm 0 s1"
    using set_locations_ok [OF sok first wc locs, of 0 0 s0] s0(2) by auto
  have SL: "SetLocations se locs s0 = Inr s1" using p s1(1) by (auto simp: SetLocations_def kMaxMultiPathId_def split: if_splits)
  have inv: "run_inv exact se lm s1" using s1(2) by (simp add: start_inv_def)
  then have "search_inv se lm s1" by (simp add: run_inv_def)
  then have "work se lm s1 \<le> max_labels lm"
    using waiting_le search_invD(5) by (fastforce simp: work_def)
  from loop_ok [OF sok wc inv, of fuel] this fuel show ?thesis by (auto simp: Compute_def s0(1) SL)
qed

lemma result_label:
  assumes "run_inv exact se lm t" and "l \<in> set (dj_labels t)" and "lab_predecessor l \<noteq> kInvalidLabel"
  shows "unat (lab_predecessor l) < length (dj_labels t)
    \<and> (let i = lab_predecessor l; p = dj_labels t ! unat i
       in \<exists>v\<in>set (out_edges se p). \<exists>f. offered se p i (opp_of se p) (dj_labels t) v = Inr (Some f)
            \<and> label_key l = visit_key p v \<and> lab_cost l = of_cost f)"
proof -
  have inv: "search_inv se lm t" and behind: "backed se (dj_labels t) l" using assms(1,2) by (auto simp: run_inv_def)
  have "unat (lab_predecessor l) < length (dj_labels t)"
    using search_invD(4) [OF inv assms(2)] assms(3) by (auto simp: label_ok_def settled_def)
  then show ?thesis using behind assms(3) by (simp add: backed_def made_by_def Let_def)
qed

lemma result_served:
  assumes run: "run_inv exact se lm t" and none: "labels (dj_queue t) = {#}" and loc: "local_decisions se"
    and i: "unat i < length (dj_labels t)" "p = dj_labels t ! unat i" "expands se (dj_labels t) p"
    and v: "v \<in> set (out_edges se p)" "offered se p i (opp_of se p) (dj_labels t) v = Inr (Some f)"
  shows "entry_set (dj_status t) (visit_key p v) = 1"
    and "\<exists>l\<in>set (dj_labels t). label_key l = visit_key p v \<and> (exact \<longrightarrow> cost (lab_cost l) \<le> cost (of_cost f))"
proof -
  have inv: "search_inv se lm t" using run by (simp add: run_inv_def)
  have "settled t i" using none i(1) by (simp add: settled_def)
  then have "completed exact se t i" using run loc by (simp add: run_inv_def)
  then have "served exact se t i (opp_of se p) v" using i(2,3) v(1) by (simp add: completed_def Let_def)
  note srv = this [unfolded served_def Let_def i(2) [symmetric], rule_format, OF v(2)]
  let ?x = "visit_key p v"
  have "entry_set (dj_status t) ?x \<noteq> 2"
    using status_okD(3) [OF search_invD(3) [OF inv], of "fst ?x" "snd ?x"] none by auto
  moreover have "entry_set (dj_status t) ?x \<noteq> 0" using srv by (simp add: taken_def)
  ultimately show one: "entry_set (dj_status t) ?x = 1" using status_okD(2) [OF search_invD(3) [OF inv], of ?x] by auto
  obtain j where j: "settled t j" "label_key (dj_labels t ! unat j) = ?x"
    using status_okD(5) [OF search_invD(3) [OF inv] one] by blast
  then have "dj_labels t ! unat j \<in> set (dj_labels t)" by (simp add: settled_def)
  then show "\<exists>l\<in>set (dj_labels t). label_key l = ?x \<and> (exact \<longrightarrow> cost (lab_cost l) \<le> cost (of_cost f))"
    using j(2) srv by (cases exact) blast+
qed

lemma isochrone_local: "se_should se = isochrone_should a b \<Longrightarrow> local_decisions se"
  by (simp add: local_decisions_def isochrone_should_def)

lemma isochrone_never_stops: "isochrone_should a b ls l \<noteq> Stop_expansion"
  by (simp add: isochrone_should_def Let_def)

section \<open>A small graph\<close>

text \<open>
  Two nodes with an edge each way; every edge and transition costs 10. The search starts at the
  beginning of the first edge and has room for three labels.
\<close>

definition pair_node :: "21 word \<Rightarrow> nodeinfo" where
  "pair_node i = new_nodeinfo\<lparr>ni_edge_index := i, ni_edge_count := 1, ni_transition_index := 0, ni_transition_count := 0\<rparr>"

definition pair_edge :: "46 word \<Rightarrow> directed_edge" where
  "pair_edge g = new_directed_edge\<lparr>de_endnode := g, de_forwardaccess := 1\<rparr>"

definition pair_tile :: routing_tile where
  "pair_tile = \<lparr>rt_nodes = [pair_node 0, pair_node 1], rt_edges = [pair_edge 33554432, pair_edge 0], rt_transitions = [],
     rt_access_restrictions = [], rt_forward_restrictions = [], rt_reverse_restrictions = []\<rparr>"

definition pair_costing :: costing where
  "pair_costing = \<lparr>ct_dyn = demo_dynamic, ct_active = (\<lambda>_ _ _. True), ct_closed = (\<lambda>_. False), ct_AllowedNode = (\<lambda>_. True),
     ct_Allowed = (\<lambda>_ _ _ _ _ _ _ _ _. (True, kInvalidRestriction, 0)),
     ct_AllowedReverse = (\<lambda>_ _ _ _ _ _ _ _ _. (True, kInvalidRestriction, 0)),
     ct_EdgeCost = (\<lambda>_ _ _. Inr (\<lparr>cost = 10, secs = 10\<rparr>, 0)), ct_TransitionCost = (\<lambda>_ _ _ _. Inr \<lparr>cost = 10, secs = 10\<rparr>),
     ct_TransitionCostReverse = (\<lambda>_ _ _ _ _ _ _ _. Inr \<lparr>cost = 10, secs = 10\<rparr>)\<rparr>"

definition pair_search :: search where
  "pair_search = \<lparr>se_forward = True, se_reader = [0 \<mapsto> pair_tile], se_costing = pair_costing, se_mode = Pedestrian,
     se_tz_diff = (\<lambda>_ _ _. 0), se_should = isochrone_should 1000 1000, se_times = [invalid_time], se_multipath = False\<rparr>"

definition pair_limits :: limits where
  "pair_limits = \<lparr>buckets = 100, step_cost = 10, far = 70, first_cost = 10, paths = 1, max_labels = 3\<rparr>"

definition pair_start :: path_edge where
  "pair_start = \<lparr>pe_graph_id = 0, pe_percent_along = 0, pe_distance = 0, pe_begin_node = True, pe_end_node = False\<rparr>"

definition no_labels :: dijkstras where
  "no_labels = \<lparr>dj_labels = [], dj_queue = raw_queue, dj_status = Map.empty, dj_events = []\<rparr>"

lemma pair_nodes [simp]:
  "ni_edge_index (pair_node i) = i" "ni_edge_count (pair_node i) = 1" "ni_transition_index (pair_node i) = 0"
  "ni_transition_count (pair_node i) = 0" "de_endnode (pair_edge g) = g"
  by (simp_all add: pair_node_def pair_edge_def)

lemma pair_tile_sel [simp]:
  "rt_nodes pair_tile = [pair_node 0, pair_node 1]" "rt_edges pair_tile = [pair_edge 33554432, pair_edge 0]"
  "rt_transitions pair_tile = []" "rt_access_restrictions pair_tile = []" "rt_forward_restrictions pair_tile = []"
  by (simp_all add: pair_tile_def)

lemma pair_search_sel [simp]:
  "se_forward pair_search" "se_reader pair_search = [0 \<mapsto> pair_tile]" "se_costing pair_search = pair_costing"
  "se_should pair_search = isochrone_should 1000 1000" "se_times pair_search = [invalid_time]" "\<not> se_multipath pair_search"
  by (simp_all add: pair_search_def)

lemma pair_limits_sel [simp]:
  "buckets pair_limits = 100" "step_cost pair_limits = 10" "far pair_limits = 70" "first_cost pair_limits = 10"
  "paths pair_limits = 1" "max_labels pair_limits = 3"
  by (simp_all add: pair_limits_def)

lemma pair_charged: "charged pair_costing c \<Longrightarrow> c = \<lparr>cost = 10, secs = 10\<rparr>"
  by (auto simp: charged_def pair_costing_def)

lemma pair_node_exists: "endnode (pair_edge 0) = GraphId 0" "endnode (pair_edge 33554432) = GraphId 33554432"
    "node_exists [0 \<mapsto> pair_tile] (GraphId 0)" "node_exists [0 \<mapsto> pair_tile] (GraphId 33554432)"
  by (simp_all add: endnode_def node_exists_def GetGraphTile_def gid_id_def)

lemma pair_graph_ok: "graph_ok [0 \<mapsto> pair_tile]"
proof -
  have "\<exists>bs. ([] :: u8 list) = concat (map write_restriction bs) \<and> list_all vias_ok bs" by (intro exI [of _ "[]"]) simp
  then show ?thesis by (simp add: graph_ok_def tile_ok_def pair_node_exists del: Nil_eq_concat_conv)
qed

lemma pair_slots: "card (slots [0 \<mapsto> pair_tile] 1) \<le> 2"
proof -
  have "slots [0 \<mapsto> pair_tile] 1 \<subseteq> {(0, 0), (0, 1)}"
  proof (rule subrelI)
    fix k i assume "(k, i) \<in> slots [0 \<mapsto> pair_tile] 1"
    then have z: "drop_bit 25 k = 0" "take_bit 25 k = 0" and i: "i < 2"
      by (auto simp: slots_def edge_count_def unat_eq_0 split: if_splits)
    have "k = push_bit 25 (drop_bit 25 k) OR take_bit 25 k" by (rule bit_word_eqI) (auto simp: bit_simps)
    then show "(k, i) \<in> {(0, 0), (0, 1)}" using i by (auto simp: z)
  qed
  then have "card (slots [0 \<mapsto> pair_tile] 1) \<le> card {(0 :: u32, 0 :: nat), (0, 1)}" by (intro card_mono) simp_all
  then show ?thesis by simp
qed

lemma pair_run_ok: "run_ok exact pair_search pair_limits [[pair_start]]"
proof -
  have "f32 10 = 10" by (simp add: float_eval)
  then have "costing_ok 10 pair_costing"
    unfolding costing_ok_def within_cost_def by (auto dest!: pair_charged) (simp_all add: pair_costing_def)
  then have "search_ok pair_search pair_limits"
    using pair_graph_ok by (simp add: search_ok_def cap_def offset_time_def time_forward_def invalid_time_def)
  moreover have "location_ok exact pair_search pair_limits pair_start"
    by (simp add: location_ok_def pair_start_def whole_def GetGraphTile_def gid_id_def exI [of _ 0])
  moreover have "whole_costs pair_costing"
    using exI [of "\<lambda>k. 10 = rat_of_nat k" 10] by (auto simp: whole_costs_def whole_def dest!: pair_charged)
  ultimately show ?thesis using pair_slots by (simp add: run_ok_def cap_def)
qed

lemma pair_cleared: "cleared no_labels"
  by (simp add: cleared_def no_labels_def raw_queue_def)

section \<open>Properties\<close>

text \<open>
  C3: The search returns. From a cleared state, in either direction, with origins or destinations on edges of
  the graph, on a graph whose tiles are consistent and with a costing whose costs are bounded,
  \<^verbatim>\<open>Compute\<close> ends after at most as many rounds as there are origins and edges (per path): no index
  leaves its array, no status is updated that was not set, no exception is thrown.
\<close>

theorem Compute_returns:
  assumes "run_ok False se lm locs" and "cleared s" and "max_labels lm < fuel"
  shows "\<exists>s'. Compute fuel se (word_of_nat (buckets lm)) 1 locs s = Some (Inr s')"
  using run_result [OF assms] by blast

text \<open>
  C9: The labels are a tree of paths. In the result of \<^verbatim>\<open>Compute\<close> every label that is not an origin
  has a predecessor in the list, and the label is one of the offers of that predecessor: its edge
  leaves the end node of the predecessor or a node behind a transition there, was allowed and not
  restricted for the path behind the predecessor, and its cost is the cost of the predecessor
  plus that of the edge and of the transition. This holds although labels were improved after
  they were queued.
\<close>

theorem Compute_tree:
  assumes "run_ok False se lm locs" and "cleared s" and "max_labels lm < fuel"
  shows "\<exists>s'. Compute fuel se (word_of_nat (buckets lm)) 1 locs s = Some (Inr s')
    \<and> (\<forall>l\<in>set (dj_labels s'). lab_predecessor l = kInvalidLabel
        \<or> unat (lab_predecessor l) < length (dj_labels s')
          \<and> (let i = lab_predecessor l; p = dj_labels s' ! unat i
             in \<exists>v\<in>set (out_edges se p). \<exists>f. offered se p i (opp_of se p) (dj_labels s') v = Inr (Some f)
                  \<and> label_key l = visit_key p v \<and> lab_cost l = of_cost f))"
proof -
  obtain s' t where r: "Compute fuel se (word_of_nat (buckets lm)) 1 locs s = Some (Inr s')" "run_inv False se lm t"
    "dj_labels s' = dj_labels t" using run_result [OF assms] by blast
  then show ?thesis using result_label [OF r(2)] unfolding r(3) [symmetric] by blast
qed

text \<open>
  C7: The search reaches everything. When the derived class never stops the search and decides by a label
  and its predecessor (as isochrones do), in the result every offer of every label that expands
  is to an edge that is settled (status permanent) and has a label.
\<close>

theorem Compute_complete:
  assumes "run_ok False se lm locs" and "cleared s" and "max_labels lm < fuel"
    and "local_decisions se" and "\<forall>ls l. se_should se ls l \<noteq> Stop_expansion"
  shows "\<exists>s'. Compute fuel se (word_of_nat (buckets lm)) 1 locs s = Some (Inr s')
    \<and> (\<forall>i. unat i < length (dj_labels s') \<longrightarrow>
        (let p = dj_labels s' ! unat i in expands se (dj_labels s') p \<longrightarrow>
          (\<forall>v\<in>set (out_edges se p). \<forall>f. offered se p i (opp_of se p) (dj_labels s') v = Inr (Some f) \<longrightarrow>
             entry_set (dj_status s') (visit_key p v) = 1 \<and> (\<exists>l\<in>set (dj_labels s'). label_key l = visit_key p v))))"
proof -
  obtain s' t where r: "Compute fuel se (word_of_nat (buckets lm)) 1 locs s = Some (Inr s')" "run_inv False se lm t"
    "dj_labels s' = dj_labels t" "dj_status s' = dj_status t" "labels (dj_queue t) = {#}"
    using run_result [OF assms(1-3)] assms(5) by blast
  have "entry_set (dj_status t) (visit_key p v) = 1 \<and> (\<exists>l\<in>set (dj_labels t). label_key l = visit_key p v)"
    if "unat i < length (dj_labels t)" "p = dj_labels t ! unat i" "expands se (dj_labels t) p"
      "v \<in> set (out_edges se p)" "offered se p i (opp_of se p) (dj_labels t) v = Inr (Some f)" for i p v f
    using result_served [OF r(2,5) assms(4) that] by blast
  then show ?thesis using r(1,3,4) by (auto simp: Let_def)
qed

text \<open>
  C6: The labels are cheapest. When all costs are whole numbers, the origins lie at the ends of their edges
  and the search is not stopped, no offer of a label that expands is cheaper than the label its edge
  has in the result: the bucket queue, lowering of costs and \<^verbatim>\<open>float\<close> rounding
  together lose nothing. With the tree, the costs are those of Dijkstra's algorithm.
\<close>

theorem Compute_cheapest:
  assumes "run_ok True se lm locs" and "cleared s" and "max_labels lm < fuel"
    and "local_decisions se" and "\<forall>ls l. se_should se ls l \<noteq> Stop_expansion"
  shows "\<exists>s'. Compute fuel se (word_of_nat (buckets lm)) 1 locs s = Some (Inr s')
    \<and> (\<forall>i. unat i < length (dj_labels s') \<longrightarrow>
        (let p = dj_labels s' ! unat i in expands se (dj_labels s') p \<longrightarrow>
          (\<forall>v\<in>set (out_edges se p). \<forall>f. offered se p i (opp_of se p) (dj_labels s') v = Inr (Some f) \<longrightarrow>
             (\<exists>l\<in>set (dj_labels s'). label_key l = visit_key p v \<and> cost (lab_cost l) \<le> cost (of_cost f)))))"
proof -
  obtain s' t where r: "Compute fuel se (word_of_nat (buckets lm)) 1 locs s = Some (Inr s')" "run_inv True se lm t"
    "dj_labels s' = dj_labels t" "labels (dj_queue t) = {#}"
    using run_result [OF assms(1-3)] assms(5) by blast
  have "\<exists>l\<in>set (dj_labels t). label_key l = visit_key p v \<and> cost (lab_cost l) \<le> cost (of_cost f)"
    if "unat i < length (dj_labels t)" "p = dj_labels t ! unat i" "expands se (dj_labels t) p"
      "v \<in> set (out_edges se p)" "offered se p i (opp_of se p) (dj_labels t) v = Inr (Some f)" for i p v f
    using result_served(2) [OF r(2,4) assms(4) that] by simp
  then show ?thesis using r(1,3) by (auto simp: Let_def)
qed

theorem Compute_returns_witness: "\<exists>s'. Compute 4 pair_search 100 1 [[pair_start]] no_labels = Some (Inr s')"
  using Compute_returns [OF pair_run_ok pair_cleared, of 4] by simp

theorem Compute_tree_witness:
  "\<exists>s'. Compute 4 pair_search 100 1 [[pair_start]] no_labels = Some (Inr s')
    \<and> (\<forall>l\<in>set (dj_labels s'). lab_predecessor l = kInvalidLabel \<or> unat (lab_predecessor l) < length (dj_labels s'))"
  using Compute_tree [OF pair_run_ok pair_cleared, of 4] by fastforce

theorem Compute_complete_witness:
  "\<exists>s'. Compute 4 pair_search 100 1 [[pair_start]] no_labels = Some (Inr s')
    \<and> (\<forall>i. unat i < length (dj_labels s') \<longrightarrow>
        (let p = dj_labels s' ! unat i in expands pair_search (dj_labels s') p \<longrightarrow>
          (\<forall>v\<in>set (out_edges pair_search p). \<forall>f. offered pair_search p i (opp_of pair_search p) (dj_labels s') v = Inr (Some f) \<longrightarrow>
             entry_set (dj_status s') (visit_key p v) = 1 \<and> (\<exists>l\<in>set (dj_labels s'). label_key l = visit_key p v))))"
  using Compute_complete [OF pair_run_ok pair_cleared, of 4] isochrone_local [of pair_search] isochrone_never_stops
  unfolding pair_search_sel pair_limits_sel by simp

theorem Compute_cheapest_witness:
  "\<exists>s'. Compute 4 pair_search 100 1 [[pair_start]] no_labels = Some (Inr s')
    \<and> (\<forall>i. unat i < length (dj_labels s') \<longrightarrow>
        (let p = dj_labels s' ! unat i in expands pair_search (dj_labels s') p \<longrightarrow>
          (\<forall>v\<in>set (out_edges pair_search p). \<forall>f. offered pair_search p i (opp_of pair_search p) (dj_labels s') v = Inr (Some f) \<longrightarrow>
             (\<exists>l\<in>set (dj_labels s'). label_key l = visit_key p v \<and> cost (lab_cost l) \<le> cost (of_cost f)))))"
  using Compute_cheapest [OF pair_run_ok pair_cleared, of 4] isochrone_local [of pair_search] isochrone_never_stops
  unfolding pair_search_sel pair_limits_sel by simp

end
