(* ===== verification/Astar_Search.thy ===== *)
theory Astar_Search
  imports Expansion
begin

text \<open>
  \<^verbatim>\<open>UnidirectionalAStar\<close> (\<^verbatim>\<open>src/thor/unidirectional_astar.cc\<close>), the search for routes that depend on time,
  forward from the origin or in reverse from the destination, with its heuristic
  (\<^verbatim>\<open>valhalla/thor/astarheuristic.h\<close>, \<^verbatim>\<open>valhalla/midgard/distanceapproximator.h\<close>) and the limits of the
  hierarchy (\<^verbatim>\<open>valhalla/sif/hierarchylimits.h\<close>). The members the search changes are the record \<open>astar\<close>;
  what stays fixed (direction, graph, costing, mode, clock, corners of the tiles) is \<open>astar_setup\<close>.
  \<^verbatim>\<open>cosf\<close> and \<^verbatim>\<open>sqrtf\<close> of the C library and the time made from the date of a location are parameters.
  Destinations with the same edge are visited in the order of insertion, which the standard leaves
  open. The callback that tracks the expansion is not modelled.
\<close>

section \<open>Limits of the hierarchy\<close>

record hierarchy_state = hierarchy_limit +
  up_transition_count :: u32

definition StopExpanding :: "hierarchy_state \<Rightarrow> rat \<Rightarrow> bool" where
  "StopExpanding hl d \<longleftrightarrow> max_up_transitions hl < up_transition_count hl \<and> expand_within_dist hl < d"

definition StopExpanding_count :: "hierarchy_state \<Rightarrow> bool" where
  "StopExpanding_count hl \<longleftrightarrow> max_up_transitions hl < up_transition_count hl"

definition relax_limit :: "rat \<Rightarrow> rat \<Rightarrow> hierarchy_state \<Rightarrow> hierarchy_state result" where
  "relax_limit factor within_factor hl =
     (if max_up_transitions hl = kUnlimitedTransitions then Inr hl
      else bind_result (to_u32 (fmul (f32 (of_nat (unat (max_up_transitions hl)))) factor)) (\<lambda>m.
        Inr (hl\<lparr>max_up_transitions := m, expand_within_dist := fmul (expand_within_dist hl) within_factor\<rparr>)))"

definition RelaxHierarchyLimits :: "bool \<Rightarrow> hierarchy_state list \<Rightarrow> hierarchy_state list result" where
  "RelaxHierarchyLimits bidirectional hls =
     fold_result (\<lambda>hl done. bind_result
         (relax_limit (if bidirectional then 8 else 16) (if bidirectional then 2 else 4) hl)
         (\<lambda>hl'. Inr (done @ [hl']))) hls []"

text \<open>The limits in the constructor of \<^verbatim>\<open>DynamicCost\<close>, for the three levels of the hierarchy.\<close>

definition initial_limits :: "costing_options \<Rightarrow> hierarchy_state list" where
  "initial_limits co = map (\<lambda>lev. case map_of (hierarchy co) lev of
       None \<Rightarrow> \<lparr>max_up_transitions = kUnlimitedTransitions, expand_within_dist = kMaxDistance, up_transition_count = 0\<rparr>
     | Some hl \<Rightarrow> hierarchy_limit.extend hl \<lparr>up_transition_count = 0\<rparr>) [0, 1, 2]"

section \<open>The heuristic\<close>

definition kRadPerDeg :: rat where "kRadPerDeg = fdiv (f32 (314159265 / 100000000)) 180"
definition kMetersPerDegreeLat :: rat where "kMetersPerDegreeLat = 110567"

record astar_heuristic =
  ah_center :: "rat \<times> rat"
  ah_m_per_lng :: rat
  ah_costfactor :: rat

definition LngScalePerLat :: "(rat \<Rightarrow> rat) \<Rightarrow> rat \<Rightarrow> rat" where
  "LngScalePerLat cosf lat = cosf (f32 (f64 (lat * kRadPerDeg)))"

definition ah_init :: "(rat \<Rightarrow> rat) \<Rightarrow> rat \<times> rat \<Rightarrow> rat \<Rightarrow> astar_heuristic" where
  "ah_init cosf ll factor =
     \<lparr>ah_center = ll, ah_m_per_lng = f64 (LngScalePerLat cosf (snd ll) * kMetersPerDegreeLat), ah_costfactor = factor\<rparr>"

definition DistanceSquared :: "astar_heuristic \<Rightarrow> rat \<times> rat \<Rightarrow> rat" where
  "DistanceSquared h ll =
     (let a = f64 (f64 (snd ll - snd (ah_center h)) * kMetersPerDegreeLat);
          b = f64 (f64 (fst ll - fst (ah_center h)) * ah_m_per_lng h)
      in f64 (f64 (a * a) + f64 (b * b)))"

definition ah_GetDistance :: "(rat \<Rightarrow> rat) \<Rightarrow> astar_heuristic \<Rightarrow> rat \<times> rat \<Rightarrow> rat" where
  "ah_GetDistance sqrtf h ll = sqrtf (f32 (DistanceSquared h ll))"

definition ah_Get :: "astar_heuristic \<Rightarrow> rat \<Rightarrow> rat" where
  "ah_Get h d = fmul d (ah_costfactor h)"

section \<open>Members\<close>

record astar =
  as_labels :: "bd_label list"
  as_queue :: bucket_queue
  as_status :: edge_status
  as_destinations :: "(graph_id \<times> path_edge) list"
  as_limits :: "hierarchy_state list"
  as_heuristic :: astar_heuristic
  as_has_ferry :: bool
  as_best :: "int \<times> rat"
  as_mindist :: rat
  as_no_convergence :: u32

record astar_setup =
  az_forward :: bool
  az_reader :: tile_reader
  az_corner :: "u32 \<Rightarrow> rat \<times> rat"
  az_costing :: costing
  az_factor :: rat
  az_unit_size :: u32
  az_limits :: "hierarchy_state list"
  az_mode :: travel_mode
  az_time :: time_info
  az_tz_diff :: "u64 \<Rightarrow> nat \<Rightarrow> nat \<Rightarrow> int"
  az_cosf :: "rat \<Rightarrow> rat"
  az_sqrtf :: "rat \<Rightarrow> rat"

definition as_Clear :: "astar \<Rightarrow> astar" where
  "as_Clear s = s\<lparr>as_labels := [], as_destinations := [], as_queue := bq_clear (as_queue s),
     as_status := es_clear (as_status s), as_has_ferry := False\<rparr>"

definition kMaxIterationsWithoutConvergence :: u32 where "kMaxIterationsWithoutConvergence = 1800000"
definition kBucketCount :: u32 where "kBucketCount = 20000"

definition get_node_ll :: "astar_setup \<Rightarrow> routing_tile \<Rightarrow> graph_id \<Rightarrow> (rat \<times> rat) result" where
  "get_node_ll az t g = bind_result (tile_node t g) (\<lambda>n. Inr (latlng (az_corner az (tile_value g)) n))"

text \<open>\<^verbatim>\<open>BDEdgeLabel::Update\<close> without the path distance, which keeps its old value.\<close>

definition update_bd_cost :: "u32 \<Rightarrow> cost \<Rightarrow> rat \<Rightarrow> cost \<Rightarrow> u8 \<Rightarrow> bd_label \<Rightarrow> bd_label" where
  "update_bd_cost predecessor c sortcost tc restriction_idx l =
     l\<lparr>lab_predecessor := predecessor, lab_cost := c, lab_sortcost := sortcost, bl_transition_cost := tc,
       lab_restriction_idx := restriction_idx\<rparr>"

section \<open>Expanding along an edge\<close>

text \<open>
  What is known of an edge before a label is made: the tile it is in, the node it leaves, the time
  there, its identifier, the tile of its end, the opposing edge in the reverse search, the costs,
  the position of its end and its place in the status.
\<close>

record astar_edge =
  ae_tile :: routing_tile
  ae_node :: nodeinfo
  ae_time :: time_info
  ae_id :: graph_id
  ae_edge :: directed_edge
  ae_endtile :: routing_tile
  ae_opp :: "(graph_id \<times> directed_edge) option"
  ae_edge_cost :: cost
  ae_flow :: u8
  ae_transition :: cost
  ae_endpoint :: "rat \<times> rat"
  ae_status :: "u32 \<times> nat"

definition ae_opp_id :: "astar_edge \<Rightarrow> graph_id" where
  "ae_opp_id x = (case ae_opp x of None \<Rightarrow> gid_default | Some (opp, _) \<Rightarrow> opp)"

text \<open>The edge that is travelled: the opposing one in the reverse search.\<close>

definition ae_travelled :: "astar_edge \<Rightarrow> directed_edge" where
  "ae_travelled x = (case ae_opp x of None \<Rightarrow> ae_edge x | Some (_, oe) \<Rightarrow> oe)"

definition opposing_in :: "routing_tile \<Rightarrow> directed_edge \<Rightarrow> (graph_id \<times> directed_edge) result" where
  "opposing_in t e =
     bind_result (tile_node t (endnode e)) (\<lambda>m.
     bind_result (gid_make (tileid (endnode e)) (level (endnode e)) (ucast (ni_edge_index m) + ucast (de_opp_index e))) (\<lambda>opp.
     bind_result (tile_edge t opp) (\<lambda>oe. Inr (opp, oe))))"

definition astar_costs :: "astar_setup \<Rightarrow> directed_edge \<Rightarrow> nodeinfo \<Rightarrow> bd_label \<Rightarrow> directed_edge option \<Rightarrow> routing_tile
    \<Rightarrow> routing_tile \<Rightarrow> directed_edge option \<Rightarrow> time_info \<Rightarrow> (cost \<times> u8 \<times> cost) result" where
  "astar_costs az e n pred opp_pred tile endtile opp ot =
     (let ct = az_costing az
      in case opp of
           None \<Rightarrow> bind_result (ct_EdgeCost ct e tile ot) (\<lambda>(ec, flow).
             bind_result (ct_TransitionCost ct e n pred tile) (\<lambda>tc. Inr (ec, flow, tc)))
         | Some oe \<Rightarrow> bind_result (ct_EdgeCost ct oe endtile ot) (\<lambda>(ec, flow).
             case opp_pred of None \<Rightarrow> Inl Undefined
             | Some op \<Rightarrow> bind_result (ct_TransitionCostReverse ct (unat (de_localedgeidx e)) n oe op endtile
                 (label_edgeid pred) (flow AND ucast kDefaultFlowMask \<noteq> 0) (lab_internal_turn pred)) (\<lambda>tc.
                 Inr (ec, flow, tc))))"

definition look_ahead :: "astar_setup \<Rightarrow> bd_label \<Rightarrow> directed_edge option \<Rightarrow> routing_tile \<Rightarrow> nodeinfo \<Rightarrow> time_info
    \<Rightarrow> graph_id \<Rightarrow> directed_edge \<Rightarrow> u32 \<times> nat \<Rightarrow> astar_edge option result" where
  "look_ahead az pred opp_pred tile n ot edgeid e p =
     (case (if de_leaves_tile e then GetGraphTile (az_reader az) (endnode e) else Some tile) of
        None \<Rightarrow> Inr None
      | Some endtile \<Rightarrow>
          bind_result (if az_forward az then Inr None
              else bind_result (opposing_in endtile e) (\<lambda>oe. Inr (Some oe))) (\<lambda>opp.
          bind_result (astar_costs az e n pred opp_pred tile endtile (map_option snd opp) ot) (\<lambda>(ec, flow, tc).
          bind_result (get_node_ll az endtile (endnode e)) (\<lambda>ll.
            Inr (Some \<lparr>ae_tile = tile, ae_node = n, ae_time = ot, ae_id = edgeid, ae_edge = e, ae_endtile = endtile,
              ae_opp = opp, ae_edge_cost = ec, ae_flow = flow, ae_transition = tc, ae_endpoint = ll, ae_status = p\<rparr>)))))"

text \<open>
  The checks before a label is made or improved; they may reset statuses of the path. The result is
  the restriction index and the mask for destinations, or \<open>None\<close>.
\<close>

definition astar_allowed :: "astar_setup \<Rightarrow> bool \<Rightarrow> bd_label \<Rightarrow> astar_edge \<Rightarrow> bool \<times> u8 \<times> u8" where
  "astar_allowed az is_dest pred x =
     (let ct = az_costing az; time = ucast (local_time (ae_time x)); tz = timezone (ae_node x)
      in case ae_opp x of
           None \<Rightarrow> ct_Allowed ct (ae_edge x) is_dest pred (ae_tile x) (ae_id x) time tz kInvalidRestriction (pred_mask pred)
         | Some (opp, oe) \<Rightarrow> ct_AllowedReverse ct (ae_edge x) pred oe (ae_endtile x) opp time tz kInvalidRestriction
             (pred_mask pred))"

definition astar_restricted :: "astar_setup \<Rightarrow> bd_label \<Rightarrow> astar_edge \<Rightarrow> bd_label list \<Rightarrow> edge_status option
    \<Rightarrow> (bool \<times> edge_status option) result" where
  "astar_restricted az pred x ls st =
     Restricted (ct_dyn (az_costing az)) (ct_active (az_costing az)) (ae_edge x) pred ls (ae_tile x) (ae_id x)
       (az_forward az) st (ucast (local_time (ae_time x))) (timezone (ae_node x))"

definition astar_checks :: "astar_setup \<Rightarrow> bool \<Rightarrow> bd_label \<Rightarrow> astar_edge \<Rightarrow> astar \<Rightarrow> ((u8 \<times> u8) option \<times> astar) result" where
  "astar_checks az is_dest pred x s =
     (let (allowed, ridx, dmask) = astar_allowed az is_dest pred x
      in if \<not> allowed then Inr (None, s)
         else bind_result (astar_restricted az pred x (as_labels s) (Some (as_status s))) (\<lambda>(restricted, st).
           let s' = (case st of None \<Rightarrow> s | Some st' \<Rightarrow> s\<lparr>as_status := st'\<rparr>)
           in Inr (if restricted then None else Some (ridx, dmask), s')))"

text \<open>\<^verbatim>\<open>percent_traversed\<close>: the whole edge, or the part to a destination.\<close>

definition share_to :: "astar_setup \<Rightarrow> path_edge option \<Rightarrow> rat" where
  "share_to az dest = (case dest of None \<Rightarrow> 1
     | Some pe \<Rightarrow> if az_forward az then pe_percent_along pe else f64 (1 - pe_percent_along pe))"

definition cost_to :: "astar_setup \<Rightarrow> bd_label \<Rightarrow> astar_edge \<Rightarrow> path_edge option \<Rightarrow> cost" where
  "cost_to az pred x dest =
     (let c = cost_add (cost_add (lab_cost pred) (ae_transition x)) (cost_scale (ae_edge_cost x) (f32 (share_to az dest)))
      in case dest of None \<Rightarrow> c | Some pe \<Rightarrow> c\<lparr>cost := f32 (f64 (cost c + pe_distance pe))\<rparr>)"

text \<open>The distance that is stored with a label and its sort cost.\<close>

definition distance_left :: "astar_setup \<Rightarrow> astar_heuristic \<Rightarrow> path_edge option \<Rightarrow> rat \<times> rat \<Rightarrow> rat" where
  "distance_left az h dest ll = (case dest of None \<Rightarrow> ah_GetDistance (az_sqrtf az) h ll | Some _ \<Rightarrow> 0)"

definition astar_sortcost :: "astar_heuristic \<Rightarrow> cost \<Rightarrow> rat \<Rightarrow> rat" where
  "astar_sortcost h c d = fadd (cost c) (ah_Get h d)"

definition length_to :: "astar_setup \<Rightarrow> bd_label \<Rightarrow> directed_edge \<Rightarrow> path_edge option \<Rightarrow> u32 result" where
  "length_to az pred e dest =
     to_u32 (f64 (f64 (of_nat (unat (lab_path_distance pred)) + f64 (of_nat (unat (de_length e)) * share_to az dest)) + 1 / 2))"

definition astar_label :: "astar_setup \<Rightarrow> bd_label \<Rightarrow> u32 \<Rightarrow> directed_edge option \<Rightarrow> astar_edge \<Rightarrow> cost \<Rightarrow> rat \<Rightarrow> rat \<Rightarrow> u32
    \<Rightarrow> u8 \<Rightarrow> u8 \<Rightarrow> bool \<Rightarrow> bd_label" where
  "astar_label az pred i opp_pred x c sortcost d path_dist ridx dmask is_dest =
     (let ct = az_costing az; dc = ct_dyn ct; e = ae_edge x; here = ae_travelled x;
          turn = (case ae_opp x of
              None \<Rightarrow> TurnType dc (unat (lab_opp_local_idx pred)) (ae_node x) e None
            | Some (_, oe) \<Rightarrow> TurnType dc (unat (de_localedgeidx e)) (ae_node x) oe opp_pred);
          l = new_bd_label_dist i (ae_id x) (ae_opp_id x) e c sortcost d (az_mode az) (ae_transition x)
            (bl_not_thru_pruning pred \<or> \<not> de_not_thru e)
            (lab_closure_pruning pred \<or> \<not> IsClosed dc (ct_closed ct) here) (ae_flow x AND ucast kDefaultFlowMask \<noteq> 0)
            turn ridx 0 (de_dest_only here \<or> is_hgv dc \<and> de_dest_only_hgv here)
            (de_forwardaccess here AND kTruckAccess \<noteq> 0) dmask;
          l' = update_bd_label i c sortcost (ae_transition x) path_dist ridx l
      in if is_dest then l'\<lparr>lab_destination := True\<rparr> else l')"

text \<open>\<^verbatim>\<open>best_path\<close>: the cheapest label at a destination so far.\<close>

definition note_best :: "path_edge option \<Rightarrow> u32 \<Rightarrow> cost \<Rightarrow> int \<times> rat \<Rightarrow> int \<times> rat" where
  "note_best dest idx c best =
     (if dest \<noteq> None \<and> (fst best = - 1 \<or> cost c < snd best) then (sint idx, cost c) else best)"

text \<open>A label goes to the list and the queue; without a destination it is written to the status.\<close>

definition astar_push :: "bd_label \<Rightarrow> (u32 \<times> nat) option \<Rightarrow> astar \<Rightarrow> astar result" where
  "astar_push l p s =
     (let idx = word_of_nat (length (as_labels s)); ls = as_labels s @ [l]
      in bind_result (bq_add (sort_cost ls) idx (as_queue s)) (\<lambda>q.
         bind_result (case p of None \<Rightarrow> Inr (as_status s) | Some p \<Rightarrow> es_store p (make_info Temporary idx) (as_status s)) (\<lambda>st.
           Inr (s\<lparr>as_labels := ls, as_queue := q, as_status := st\<rparr>))))"

definition astar_add :: "astar_setup \<Rightarrow> bd_label \<Rightarrow> u32 \<Rightarrow> directed_edge option \<Rightarrow> astar_edge \<Rightarrow> path_edge option \<Rightarrow> astar
    \<Rightarrow> (bool \<times> astar) result" where
  "astar_add az pred i opp_pred x dest s =
     bind_result (astar_checks az (dest \<noteq> None) pred x s) (\<lambda>(ok, s1). case ok of
        None \<Rightarrow> Inr (False, s1)
      | Some (ridx, dmask) \<Rightarrow>
          (let c = cost_to az pred x dest;
               d = distance_left az (as_heuristic s1) dest (ae_endpoint x);
               sortcost = astar_sortcost (as_heuristic s1) c d;
               idx = word_of_nat (length (as_labels s1))
           in bind_result (length_to az pred (ae_edge x) dest) (\<lambda>path_dist.
              let l = astar_label az pred i opp_pred x c sortcost d path_dist ridx dmask (dest \<noteq> None);
                  s2 = s1\<lparr>as_best := note_best dest idx c (as_best s1)\<rparr>
              in bind_result (astar_push l (if dest = None then Some (ae_status x) else None) s2) (\<lambda>s3. Inr (True, s3)))))"

text \<open>A better path to an edge that has a temporary label, at \<open>j\<close>.\<close>

definition astar_update :: "astar_setup \<Rightarrow> bd_label \<Rightarrow> u32 \<Rightarrow> astar_edge \<Rightarrow> u32 \<Rightarrow> astar \<Rightarrow> (bool \<times> astar) result" where
  "astar_update az pred i x j s =
     bind_result (astar_checks az False pred x s) (\<lambda>(ok, s1). case ok of
        None \<Rightarrow> Inr (False, s1)
      | Some (ridx, dmask) \<Rightarrow> bind_result (label_at (as_labels s1) j) (\<lambda>lab.
          let newcost = cost_add (cost_add (lab_cost pred) (ae_transition x)) (ae_edge_cost x)
          in if cost newcost < cost (lab_cost lab)
             then let newsort = fsub (lab_sortcost lab) (fsub (cost (lab_cost lab)) (cost newcost))
                  in bind_result (bq_decrease (sort_cost (as_labels s1)) j newsort (as_queue s1)) (\<lambda>q.
                    Inr (True, s1\<lparr>as_queue := q, as_labels := (as_labels s1)[unat j :=
                      update_bd_cost i newcost newsort (ae_transition x) ridx lab]\<rparr>))
             else Inr (True, s1)))"

definition destinations_at :: "graph_id \<Rightarrow> astar \<Rightarrow> path_edge list" where
  "destinations_at g s = map snd (filter (\<lambda>d. fst d = g) (as_destinations s))"

fun astar_destinations :: "astar_setup \<Rightarrow> bd_label \<Rightarrow> u32 \<Rightarrow> directed_edge option \<Rightarrow> astar_edge \<Rightarrow> path_edge list
    \<Rightarrow> bool \<Rightarrow> astar \<Rightarrow> (bool \<times> astar) result" where
  "astar_destinations az pred i opp_pred x [] added s = Inr (added, s)"
| "astar_destinations az pred i opp_pred x (pe # pes) added s =
     bind_result (astar_add az pred i opp_pred x (Some pe) s) (\<lambda>(b, s').
       astar_destinations az pred i opp_pred x pes (b \<or> added) s')"

definition astar_ExpandInner :: "astar_setup \<Rightarrow> bd_label \<Rightarrow> u32 \<Rightarrow> directed_edge option \<Rightarrow> routing_tile \<Rightarrow> nodeinfo \<Rightarrow> time_info
    \<Rightarrow> graph_id \<times> directed_edge \<times> (u32 \<times> nat) \<Rightarrow> astar \<Rightarrow> (bool \<times> astar) result" where
  "astar_ExpandInner az pred i opp_pred tile n ot meta s =
     (let (edgeid, e, p) = meta
      in if de_is_shortcut e \<or> \<not> az_forward az \<and> de_reverseaccess e AND access_mask (ct_dyn (az_costing az)) = 0
         then Inr (False, s)
         else bind_result (es_deref p (as_status s)) (\<lambda>info. bind_result (status_set info) (\<lambda>set.
           if set = Permanent then Inr (True, s)
           else bind_result (look_ahead az pred opp_pred tile n ot edgeid e p) (\<lambda>found. case found of
              None \<Rightarrow> Inr (False, s)
            | Some x \<Rightarrow>
                bind_result (if set = Temporary then astar_update az pred i x (info_index info) s
                    else astar_add az pred i opp_pred x None s) (\<lambda>(added, s1).
                  astar_destinations az pred i opp_pred x
                    (destinations_at (if az_forward az then edgeid else ae_opp_id x) s1) added s1)))))"

section \<open>Expanding a node\<close>

text \<open>
  The edges of the node at the end of the label: the edge back is kept for later. The values are
  the edge back, whether another edge could be expanded, and the state.
\<close>

fun astar_edges :: "astar_setup \<Rightarrow> bd_label \<Rightarrow> u32 \<Rightarrow> directed_edge option \<Rightarrow> routing_tile \<Rightarrow> nodeinfo \<Rightarrow> time_info
    \<Rightarrow> nat \<Rightarrow> nat \<Rightarrow> graph_id \<Rightarrow> u32 \<times> nat \<Rightarrow> (graph_id \<times> directed_edge \<times> (u32 \<times> nat)) option \<Rightarrow> bool \<Rightarrow> astar
    \<Rightarrow> ((graph_id \<times> directed_edge \<times> (u32 \<times> nat)) option \<times> bool \<times> astar) result" where
  "astar_edges az pred i opp_pred tile n ot 0 j edgeid p back others s = Inr (back, others, s)"
| "astar_edges az pred i opp_pred tile n ot (Suc k) j edgeid p back others s =
     bind_result (array_at (rt_edges tile) j) (\<lambda>e.
       if lab_opp_local_idx pred = de_localedgeidx e
       then astar_edges az pred i opp_pred tile n ot k (j + 1) (gid_succ edgeid) (fst p, snd p + 1)
              (Some (edgeid, e, p)) others s
       else bind_result (astar_ExpandInner az pred i opp_pred tile n ot (edgeid, e, p) s) (\<lambda>(b, s').
              astar_edges az pred i opp_pred tile n ot k (j + 1) (gid_succ edgeid) (fst p, snd p + 1)
                back (b \<or> others) s'))"

text \<open>The edges of a node behind a transition: all of them.\<close>

fun astar_all_edges :: "astar_setup \<Rightarrow> bd_label \<Rightarrow> u32 \<Rightarrow> directed_edge option \<Rightarrow> routing_tile \<Rightarrow> nodeinfo \<Rightarrow> time_info
    \<Rightarrow> nat \<Rightarrow> nat \<Rightarrow> graph_id \<Rightarrow> u32 \<times> nat \<Rightarrow> bool \<Rightarrow> astar \<Rightarrow> (bool \<times> astar) result" where
  "astar_all_edges az pred i opp_pred tile n ot 0 j edgeid p others s = Inr (others, s)"
| "astar_all_edges az pred i opp_pred tile n ot (Suc k) j edgeid p others s =
     bind_result (array_at (rt_edges tile) j) (\<lambda>e.
     bind_result (astar_ExpandInner az pred i opp_pred tile n ot (edgeid, e, p) s) (\<lambda>(b, s').
       astar_all_edges az pred i opp_pred tile n ot k (j + 1) (gid_succ edgeid) (fst p, snd p + 1) (b \<or> others) s'))"

text \<open>\<^verbatim>\<open>EdgeMetadata::make\<close>: the first edge of the node and its place in the status.\<close>

definition first_meta :: "graph_id \<Rightarrow> nodeinfo \<Rightarrow> routing_tile \<Rightarrow> astar \<Rightarrow> (graph_id \<times> (u32 \<times> nat) \<times> astar) result" where
  "first_meta node n tile s =
     bind_result (gid_make (tileid node) (level node) (ucast (ni_edge_index n))) (\<lambda>edgeid.
       let (p, st) = es_GetPtr edgeid (length (rt_edges tile)) 0 (as_status s)
       in bind_result (tile_edge tile edgeid) (\<lambda>_. Inr (edgeid, p, s\<lparr>as_status := st\<rparr>)))"

definition count_up :: "graph_id \<Rightarrow> bool \<Rightarrow> astar \<Rightarrow> astar result" where
  "count_up node up s =
     bind_result (array_at (as_limits s) (unat (level node))) (\<lambda>hl.
       Inr (s\<lparr>as_limits := (as_limits s)[unat (level node) :=
         hl\<lparr>up_transition_count := up_transition_count hl + of_bool up\<rparr>]\<rparr>))"

fun astar_transitions :: "astar_setup \<Rightarrow> graph_id \<Rightarrow> bd_label \<Rightarrow> u32 \<Rightarrow> directed_edge option \<Rightarrow> time_info \<Rightarrow> routing_tile
    \<Rightarrow> nat \<Rightarrow> nat \<Rightarrow> bool \<Rightarrow> astar \<Rightarrow> (bool \<times> astar) result" where
  "astar_transitions az node pred i opp_pred ot tile 0 j others s = Inr (others, s)"
| "astar_transitions az node pred i opp_pred ot tile (Suc k) j others s =
     bind_result (array_at (rt_transitions tile) j) (\<lambda>tr.
     let g = transition_endnode tr
     in bind_result (if nt_up tr then Inr False
            else bind_result (array_at (as_limits s) (unat (level g))) (\<lambda>hl. Inr (StopExpanding hl (bl_distance pred)))) (\<lambda>stop.
        case (if stop then None else GetGraphTile (az_reader az) g) of
          None \<Rightarrow> astar_transitions az node pred i opp_pred ot tile k (j + 1) others s
        | Some t2 \<Rightarrow>
            bind_result (count_up node (nt_up tr) s) (\<lambda>s1.
            bind_result (tile_node t2 g) (\<lambda>n2.
            bind_result (first_meta g n2 t2 s1) (\<lambda>(edgeid, p, s2).
            bind_result (astar_all_edges az pred i opp_pred t2 n2 ot (unat (ni_edge_count n2)) (unat (gid_id edgeid))
                edgeid p others s2) (\<lambda>(others', s3).
              astar_transitions az node pred i opp_pred ot tile k (j + 1) others' s3))))))"

definition astar_offset :: "astar_setup \<Rightarrow> bd_label \<Rightarrow> nodeinfo \<Rightarrow> time_info result" where
  "astar_offset az pred n =
     (if az_forward az then time_forward (az_tz_diff az) (az_time az) (secs (lab_cost pred)) (unat (timezone n))
      else time_reverse (az_tz_diff az) (az_time az) (secs (lab_cost pred)) (unat (timezone n)))"

text \<open>A node that may not be passed: back over the edge the label came by.\<close>

definition turn_back :: "astar_setup \<Rightarrow> bd_label \<Rightarrow> u32 \<Rightarrow> directed_edge option \<Rightarrow> routing_tile \<Rightarrow> nodeinfo \<Rightarrow> time_info
    \<Rightarrow> astar \<Rightarrow> (bool \<times> astar) result" where
  "turn_back az pred i opp_pred tile n ot s =
     bind_result (GetOpposingEdgeId (az_reader az) (label_edgeid pred) (Some tile)) (\<lambda>(opp, t2).
       if \<not> is_valid opp then Inr (False, s)
       else case t2 of None \<Rightarrow> Inl Undefined
       | Some t \<Rightarrow> bind_result (tile_edge t opp) (\<lambda>oe.
           let (p, st) = es_GetPtr opp (length (rt_edges t)) 0 (as_status s)
           in astar_ExpandInner az (pred\<lparr>lab_deadend := True\<rparr>) i opp_pred t n ot (opp, oe, p) (s\<lparr>as_status := st\<rparr>)))"

definition astar_Expand :: "astar_setup \<Rightarrow> graph_id \<Rightarrow> bd_label \<Rightarrow> u32 \<Rightarrow> directed_edge option \<Rightarrow> astar \<Rightarrow> (bool \<times> astar) result" where
  "astar_Expand az node pred i opp_pred s =
     (case GetGraphTile (az_reader az) node of
        None \<Rightarrow> Inr (False, s)
      | Some tile \<Rightarrow> bind_result (tile_node tile node) (\<lambda>n. bind_result (astar_offset az pred n) (\<lambda>ot.
          if \<not> ct_AllowedNode (az_costing az) n then turn_back az pred i opp_pred tile n ot s
          else bind_result (first_meta node n tile s) (\<lambda>(edgeid, p, s1).
               bind_result (astar_edges az pred i opp_pred tile n ot (unat (ni_edge_count n)) (unat (gid_id edgeid))
                   edgeid p None False s1) (\<lambda>(back, others, s2).
               bind_result (if ni_transition_count n = 0 then Inr (others, s2)
                   else bind_result (tile_transition tile (unat (ni_transition_index n))) (\<lambda>_.
                     astar_transitions az node pred i opp_pred ot tile (unat (ni_transition_count n))
                       (unat (ni_transition_index n)) others s2)) (\<lambda>(others', s3).
                 case (if others' then None else back) of
                   None \<Rightarrow> Inr (others', s3)
                 | Some meta \<Rightarrow> bind_result
                     (astar_ExpandInner az (pred\<lparr>lab_deadend := True\<rparr>) i opp_pred tile n ot meta s3) (\<lambda>(b, s4).
                       Inr (b \<or> others', s4))))))))"

section \<open>Paths\<close>

record path_info =
  pi_mode :: "4 word"
  pi_elapsed_cost :: cost
  pi_edgeid :: graph_id
  pi_path_distance :: rat
  pi_restriction_index :: u8
  pi_transition_cost :: cost

definition cost_sub :: "cost \<Rightarrow> cost \<Rightarrow> cost" where
  "cost_sub a b = \<lparr>cost = fsub (cost a) (cost b), secs = fsub (secs a) (secs b)\<rparr>"

text \<open>The labels behind a label, itself first; \<open>None\<close> if the fuel ends before the predecessors do.\<close>

fun trace_back :: "nat \<Rightarrow> bd_label list \<Rightarrow> u32 \<Rightarrow> u32 list result option" where
  "trace_back 0 ls j = None"
| "trace_back (Suc fuel) ls j =
     (if j = kInvalidLabel then Some (Inr [])
      else case label_at ls j of
        Inl err \<Rightarrow> Some (Inl err)
      | Inr l \<Rightarrow> map_option (\<lambda>r. bind_result r (\<lambda>js. Inr (j # js))) (trace_back fuel ls (lab_predecessor l)))"

definition forward_info :: "bd_label \<Rightarrow> path_info" where
  "forward_info l = \<lparr>pi_mode = lab_mode l, pi_elapsed_cost = lab_cost l, pi_edgeid = label_edgeid l,
     pi_path_distance = f32 (of_nat (unat (lab_path_distance l))), pi_restriction_index = lab_restriction_idx l,
     pi_transition_cost = bl_transition_cost l\<rparr>"

text \<open>
  The reverse path is walked in the direction of travel: the cost of an edge is its cost
  without the transition onto it plus the transition of the edge before.
\<close>

fun reverse_infos :: "bd_label list \<Rightarrow> cost \<Rightarrow> cost \<Rightarrow> bd_label list \<Rightarrow> path_info list" where
  "reverse_infos ls c previous [] = []"
| "reverse_infos ls c previous (l # rest) =
     (let c1 = (if lab_predecessor l = kInvalidLabel then cost_add c (lab_cost l)
            else cost_add c (cost_sub (lab_cost l) (lab_cost (ls ! unat (lab_predecessor l)))));
          c2 = cost_add (cost_sub c1 (bl_transition_cost l)) previous
      in \<lparr>pi_mode = lab_mode l, pi_elapsed_cost = c2, pi_edgeid = label_opp_edgeid l,
          pi_path_distance = f32 (of_nat (unat (lab_path_distance l))), pi_restriction_index = lab_restriction_idx l,
          pi_transition_cost = previous\<rparr> # reverse_infos ls c2 (bl_transition_cost l) rest)"

definition FormPath :: "astar_setup \<Rightarrow> u32 \<Rightarrow> astar \<Rightarrow> (path_info list \<times> astar) result option" where
  "FormPath az dest s =
     map_option (\<lambda>r. bind_result r (\<lambda>js.
       let path = map (\<lambda>j. as_labels s ! unat j) js
       in Inr (if az_forward az then rev (map forward_info path) else reverse_infos (as_labels s) zero_cost zero_cost path,
            s\<lparr>as_has_ferry := (as_has_ferry s \<or> list_ex (\<lambda>l. unat (lab_use l) = kFerry) path)\<rparr>)))
       (trace_back (length (as_labels s) + 1) (as_labels s) dest)"

section \<open>The loop\<close>

datatype astar_outcome = Goes_on | No_route | Found u32

definition settle_label :: "bd_label \<Rightarrow> astar \<Rightarrow> astar result" where
  "settle_label pred s =
     (if lab_origin pred then Inr s
      else bind_result (es_Update (label_edgeid pred) Permanent 0 (as_status s)) (\<lambda>st. Inr (s\<lparr>as_status := st\<rparr>)))"

text \<open>The count of rounds without convergence: \<open>None\<close> when it is exceeded.\<close>

definition converge :: "rat \<Rightarrow> astar \<Rightarrow> astar option" where
  "converge dist2dest s =
     (if dist2dest < as_mindist s then Some (s\<lparr>as_mindist := dist2dest, as_no_convergence := 0\<rparr>)
      else if kMaxIterationsWithoutConvergence < as_no_convergence s then None
      else Some (s\<lparr>as_no_convergence := as_no_convergence s + 1\<rparr>))"

definition expand_next :: "astar_setup \<Rightarrow> u32 \<Rightarrow> bd_label \<Rightarrow> astar \<Rightarrow> astar result" where
  "expand_next az i pred s =
     bind_result (array_at (as_limits s) (unat (level (label_endnode pred)))) (\<lambda>hl.
       if StopExpanding hl (bl_distance pred) then Inr s
       else bind_result (if az_forward az then Inr None
              else case GetGraphTile (az_reader az) (label_opp_edgeid pred) of
                None \<Rightarrow> Inl Undefined
              | Some t \<Rightarrow> bind_result (tile_edge t (label_opp_edgeid pred)) (\<lambda>oe. Inr (Some oe))) (\<lambda>opp_pred.
            bind_result (astar_Expand az (label_endnode pred) pred i opp_pred s) (\<lambda>(_, s'). Inr s')))"

definition astar_step :: "astar_setup \<Rightarrow> astar \<Rightarrow> (astar_outcome \<times> astar) result" where
  "astar_step az s =
     bind_result (bq_pop (sort_cost (as_labels s)) (as_queue s)) (\<lambda>(i, q).
       let s1 = s\<lparr>as_queue := q\<rparr>
       in if i = kInvalidLabel then Inr (No_route, s1)
          else bind_result (label_at (as_labels s1) i) (\<lambda>pred.
            if lab_destination pred then Inr (Found i, s1)
            else bind_result (settle_label pred s1) (\<lambda>s2.
              case converge (bl_distance pred) s2 of
                None \<Rightarrow> Inr (if 0 \<le> fst (as_best s2) then Found (word_of_int (fst (as_best s2))) else No_route, s2)
              | Some s3 \<Rightarrow> bind_result (expand_next az i pred s3) (\<lambda>s4. Inr (Goes_on, s4)))))"

text \<open>The loop with fuel for its rounds; an outcome \<open>Goes_on\<close> is the fuel at its end.\<close>

fun astar_loop :: "nat \<Rightarrow> astar_setup \<Rightarrow> astar \<Rightarrow> (astar_outcome \<times> astar) result" where
  "astar_loop 0 az s = Inr (Goes_on, s)"
| "astar_loop (Suc fuel) az s =
     bind_result (astar_step az s) (\<lambda>(outcome, s').
       if outcome = Goes_on then astar_loop fuel az s' else Inr (outcome, s'))"

section \<open>Origins and destinations\<close>

record astar_location =
  lo_ll :: "rat \<times> rat"
  lo_edges :: "path_edge list"

text \<open>An origin that is a destination at the same point.\<close>

definition super_trivial :: "path_edge \<Rightarrow> graph_id \<Rightarrow> astar \<Rightarrow> bool" where
  "super_trivial pe edgeid s = list_ex (\<lambda>d. pe_percent_along pe = pe_percent_along d) (destinations_at edgeid s)"

text \<open>What is known of an origin: identifier, edge, the labelled edge, end point, costs, mask.\<close>

record astar_origin =
  ao_id :: graph_id
  ao_edge :: directed_edge
  ao_opp :: "(graph_id \<times> directed_edge) option"
  ao_endpoint :: "rat \<times> rat"
  ao_cost :: cost
  ao_flow :: u8
  ao_tile :: routing_tile

definition origin_label :: "astar_setup \<Rightarrow> astar_origin \<Rightarrow> cost \<Rightarrow> rat \<Rightarrow> rat \<Rightarrow> u32 \<Rightarrow> u8 \<Rightarrow> bool \<Rightarrow> bd_label" where
  "origin_label az y c sortcost d path_dist dmask is_dest =
     (let ct = az_costing az; dc = ct_dyn ct; e = ao_edge y;
          (g, og, labelled) = (case ao_opp y of None \<Rightarrow> (ao_id y, gid_default, e) | Some (opp, oe) \<Rightarrow> (opp, ao_id y, oe));
          l = new_bd_label_dist kInvalidLabel g og labelled c sortcost d (az_mode az) zero_cost False
            (\<not> IsClosed dc (ct_closed ct) e) (ao_flow y AND ucast kDefaultFlowMask \<noteq> 0) No_turn kInvalidRestriction 0
            (de_dest_only e \<or> is_hgv dc \<and> de_dest_only_hgv e) (de_forwardaccess e AND kTruckAccess \<noteq> 0) dmask;
          l1 = (if az_forward az then l else l\<lparr>lab_not_thru := False\<rparr>);
          l2 = (update_bd_label kInvalidLabel c sortcost zero_cost path_dist kInvalidRestriction l1)\<lparr>lab_origin := True\<rparr>
      in if is_dest then l2\<lparr>lab_destination := True\<rparr> else l2)"

definition add_origin :: "astar_setup \<Rightarrow> path_edge \<Rightarrow> astar_origin \<Rightarrow> path_edge option \<Rightarrow> astar \<Rightarrow> astar result" where
  "add_origin az pe y dest s =
     (let part = f64 (share_to az dest - (if az_forward az then pe_percent_along pe else f64 (1 - pe_percent_along pe)))
      in if part < 0 then Inr s
         else let c0 = cost_scale (ao_cost y) (f32 part);
                  c = c0\<lparr>cost := f32 (f64 (cost c0 + f64 (pe_distance pe + (case dest of None \<Rightarrow> 0 | Some d \<Rightarrow> pe_distance d))))\<rparr>;
                  d = distance_left az (as_heuristic s) dest (ao_endpoint y);
                  sortcost = astar_sortcost (as_heuristic s) c d
              in bind_result (to_u32 (f64 (f64 (of_nat (unat (de_length (ao_edge y))) * part) + 1 / 2))) (\<lambda>path_dist.
                 bind_result (GetExemptedAccessRestrictions (ct_dyn (az_costing az)) (ao_edge y) (ao_tile y) (ao_id y)) (\<lambda>dmask.
                   astar_push (origin_label az y c sortcost d path_dist dmask (dest \<noteq> None)) None s)))"

text \<open>The opposing edge and the end point; \<open>None\<close> where the code continues with the next origin.\<close>

definition origin_end :: "astar_setup \<Rightarrow> graph_id \<Rightarrow> routing_tile \<Rightarrow> directed_edge
    \<Rightarrow> ((graph_id \<times> directed_edge) option \<times> (rat \<times> rat)) option result" where
  "origin_end az edgeid tile e =
     (if az_forward az
      then case GetGraphTile (az_reader az) (endnode e) of
          None \<Rightarrow> Inr None
        | Some endtile \<Rightarrow> bind_result (get_node_ll az endtile (endnode e)) (\<lambda>ll. Inr (Some (None, ll)))
      else bind_result (GetOpposingEdgeId (az_reader az) edgeid None) (\<lambda>(opp, _).
        if \<not> is_valid opp then Inr None
        else bind_result (GetOpposingEdge (az_reader az) edgeid) (\<lambda>oe. case oe of
            None \<Rightarrow> Inl Undefined
          | Some oe \<Rightarrow> bind_result (get_node_ll az tile (endnode oe)) (\<lambda>ll. Inr (Some (Some (opp, oe), ll))))))"

definition set_astar_origin :: "astar_setup \<Rightarrow> bool \<Rightarrow> path_edge \<Rightarrow> astar \<Rightarrow> astar result" where
  "set_astar_origin az has_other_edges pe s =
     (let ct = az_costing az; dc = ct_dyn ct
      in bind_result (gid_of_value (pe_graph_id pe)) (\<lambda>edgeid.
         if (if az_forward az then pe_end_node pe else pe_begin_node pe) \<and> has_other_edges \<and> \<not> super_trivial pe edgeid s
            \<or> (if az_forward az then AvoidAsOriginEdge dc edgeid (f32 (pe_percent_along pe))
               else AvoidAsDestinationEdge dc edgeid (f32 (pe_percent_along pe))) then Inr s
         else case GetGraphTile (az_reader az) edgeid of None \<Rightarrow> Inl Undefined
         | Some tile \<Rightarrow> bind_result (tile_edge tile edgeid) (\<lambda>e.
             bind_result (origin_end az edgeid tile e) (\<lambda>ends. case ends of
                None \<Rightarrow> Inr s
              | Some (opp, ll) \<Rightarrow> bind_result (ct_EdgeCost ct e tile (az_time az)) (\<lambda>(ec, flow).
                  let y = \<lparr>ao_id = edgeid, ao_edge = e, ao_opp = opp, ao_endpoint = ll, ao_cost = ec, ao_flow = flow,
                        ao_tile = tile\<rparr>
                  in bind_result (add_origin az pe y None s) (\<lambda>s'.
                       fold_result (\<lambda>d. add_origin az pe y (Some d)) (destinations_at edgeid s') s'))))))"

definition SetOrigin :: "astar_setup \<Rightarrow> path_edge list \<Rightarrow> astar \<Rightarrow> astar result" where
  "SetOrigin az pes s =
     fold_result (set_astar_origin az (list_ex (\<lambda>pe. if az_forward az then \<not> pe_end_node pe else \<not> pe_begin_node pe) pes)) pes s"

definition set_astar_destination :: "astar_setup \<Rightarrow> bool \<Rightarrow> path_edge \<Rightarrow> astar \<Rightarrow> astar result" where
  "set_astar_destination az has_other_edges pe s =
     (let dc = ct_dyn (az_costing az)
      in if has_other_edges \<and> (if az_forward az then pe_begin_node pe else pe_end_node pe) then Inr s
         else bind_result (gid_of_value (pe_graph_id pe)) (\<lambda>edgeid.
           if GetGraphTile (az_reader az) edgeid = None
              \<or> (if az_forward az then AvoidAsDestinationEdge dc edgeid (f32 (pe_percent_along pe))
                 else AvoidAsOriginEdge dc edgeid (f32 (pe_percent_along pe))) then Inr s
           else Inr (s\<lparr>as_destinations := as_destinations s @ [(edgeid, pe)]\<rparr>)))"

definition SetDestination :: "astar_setup \<Rightarrow> path_edge list \<Rightarrow> astar \<Rightarrow> astar result" where
  "SetDestination az pes s =
     fold_result (set_astar_destination az
       (list_ex (\<lambda>pe. if az_forward az then \<not> pe_begin_node pe else \<not> pe_end_node pe) pes)) pes s"

section \<open>A route\<close>

definition as_Init :: "astar_setup \<Rightarrow> rat \<times> rat \<Rightarrow> rat \<times> rat \<Rightarrow> astar \<Rightarrow> astar result" where
  "as_Init az origll destll s =
     (let h = ah_init (az_cosf az) (if az_forward az then destll else origll) (az_factor az);
          mincost = ah_Get h (ah_GetDistance (az_sqrtf az) h (if az_forward az then origll else destll))
      in bind_result (bq_reuse mincost (f32 (of_nat (unat (kBucketCount * az_unit_size az)))) (az_unit_size az) (as_queue s)) (\<lambda>q.
         Inr (s\<lparr>as_heuristic := h, as_queue := q, as_status := es_clear (as_status s), as_limits := az_limits az\<rparr>)))"

definition ModifyHierarchyLimits :: "astar_setup \<Rightarrow> rat \<Rightarrow> astar \<Rightarrow> astar result" where
  "ModifyHierarchyLimits az apart s =
     (if \<not> default_hierarchy_limits (ct_dyn (az_costing az)) then Inr s
      else let factor = (if 25000 < apart \<and> apart < 100000 then min 3 (fdiv 100000 apart) else 1)
           in bind_result (array_at (as_limits s) 1) (\<lambda>hl.
             Inr (s\<lparr>as_limits := (as_limits s)[1 := hl\<lparr>expand_within_dist := fmul (expand_within_dist hl) factor\<rparr>]\<rparr>)))"

definition GetBestPath_start :: "astar_setup \<Rightarrow> astar_location \<Rightarrow> astar_location \<Rightarrow> astar \<Rightarrow> astar result" where
  "GetBestPath_start az origin destination s =
     (if lo_edges origin = [] \<or> lo_edges destination = [] then Inl Undefined
      else bind_result (as_Init az (lo_ll origin) (lo_ll destination) s) (\<lambda>s1.
        let mindist = ah_GetDistance (az_sqrtf az) (as_heuristic s1) (if az_forward az then lo_ll origin else lo_ll destination);
            startpoint = (if az_forward az then origin else destination);
            endpoint = (if az_forward az then destination else origin)
        in bind_result (SetDestination az (lo_edges endpoint) s1) (\<lambda>s2.
           bind_result (SetOrigin az (lo_edges startpoint) s2) (\<lambda>s3.
           bind_result (ModifyHierarchyLimits az mindist s3) (\<lambda>s4.
             Inr (s4\<lparr>as_best := (- 1, 0), as_mindist := mindist, as_no_convergence := 0\<rparr>))))))"

text \<open>The result is no path or one path; \<open>None\<close> is the end of the fuel, of the loop or of a path.\<close>

definition GetBestPath :: "nat \<Rightarrow> astar_setup \<Rightarrow> astar_location \<Rightarrow> astar_location \<Rightarrow> astar
    \<Rightarrow> (path_info list list \<times> astar) result option" where
  "GetBestPath fuel az origin destination s =
     (case bind_result (GetBestPath_start az origin destination s) (astar_loop fuel az) of
        Inl err \<Rightarrow> Some (Inl err)
      | Inr (outcome, s') \<Rightarrow> (case outcome of
          Goes_on \<Rightarrow> None
        | No_route \<Rightarrow> Some (Inr ([], s'))
        | Found j \<Rightarrow> map_option (\<lambda>r. bind_result r (\<lambda>(path, s2). Inr ([path], s2))) (FormPath az j s')))"

end
