(* ===== verification/Astar_Paths.thy ===== *)
theory Astar_Paths
  imports Astar_Search Expansion_Invariant
begin

text \<open>
  What a route found by \<open>Astar_Search\<close> is: a chain of labels from an origin to a destination, each
  an offer of the one before, although labels are improved after they were queued and statuses are
  reset by complex restrictions. Nothing is assumed of graph, costing or heuristic: a run that ends in
  an error is not a route. \<open>path_inv\<close> is what holds between two rounds.
\<close>

section \<open>The labels of a queue\<close>

definition place_ok :: "bucket_queue \<Rightarrow> place \<Rightarrow> bool" where
  "place_ok q p = (case p of Bucket i \<Rightarrow> i < length (bq_buckets q) | Overflow \<Rightarrow> True)"

lemma get_bucket_place: "bq_get_bucket q c = Inr p \<Longrightarrow> place_ok q p"
  by (auto simp: bq_get_bucket_def bucket_index_def place_ok_def Let_def bind_result_eq_Inr split: if_splits)

lemma labels_update:
  assumes "place_ok q p"
  shows "labels (set_content p ls q) + mset (content_of q p) = labels q + mset ls"
  using assms concat_update [of _ "bq_buckets q" ls]
  by (cases p) (auto simp: place_ok_def labels_def set_content_def content_of_def)

lemma labels_push: "place_ok q p \<Longrightarrow> labels (bq_push p l q) = add_mset l (labels q)"
  using labels_update [of q p "content_of q p @ [l]"] by (simp add: bq_push_def)

lemma current_set_content [simp]:
  "bq_current (set_content p ls q) = bq_current q" "length (bq_buckets (set_content p ls q)) = length (bq_buckets q)"
  by (simp_all add: set_content_def split: place.split)

lemma current_push [simp]:
  "bq_current (bq_push p l q) = bq_current q" "length (bq_buckets (bq_push p l q)) = length (bq_buckets q)"
  by (simp_all add: bq_push_def)

lemma add_labels:
  "bq_add sc l q = Inr q' \<Longrightarrow> labels q' = add_mset l (labels q) \<and> bq_current q' = bq_current q
     \<and> length (bq_buckets q') = length (bq_buckets q)"
  by (auto simp: bq_add_def bind_result_eq_Inr dest!: get_bucket_place labels_push)

lemma decrease_labels:
  assumes "bq_decrease sc l c q = Inr q'" and one: "count (labels q) l \<le> 1"
  shows "labels q' = labels q \<and> bq_current q' = bq_current q \<and> length (bq_buckets q') = length (bq_buckets q)"
proof -
  obtain p where p: "bq_get_bucket q (sc l) = Inr p"
    using assms(1) by (cases "bq_get_bucket q (sc l)") (simp_all add: bq_decrease_def)
  obtain r where r: "bq_get_bucket q c = Inr r"
    using assms(1) by (cases "bq_get_bucket q c") (simp_all add: bq_decrease_def p)
  have q': "(if content_of q p \<noteq> content_of q r
       then bind_result (erase_remove l (content_of (bq_push r l q) p)) (\<lambda>ls. Inr (set_content p ls (bq_push r l q)))
       else Inr q) = Inr q'" using assms(1) unfolding bq_decrease_def Let_def by (simp add: p r)
  note ok = get_bucket_place [OF p] get_bucket_place [OF r]
  show ?thesis
  proof (cases "content_of q p = content_of q r")
    case False
    then have pr: "p \<noteq> r" by auto
    obtain ls where ls: "erase_remove l (content_of q p) = Inr ls" and q'': "q' = set_content p ls (bq_push r l q)"
      using q' False by (auto simp: set_content_push(1) [OF pr] bind_result_eq_Inr)
    have mem: "l \<in># mset (content_of q p)"
    proof (rule ccontr)
      assume "l \<notin># mset (content_of q p)"
      then have "[x \<leftarrow> content_of q p. x \<noteq> l] = content_of q p" by (auto simp: filter_id_conv)
      then show False using ls by (simp add: erase_remove_def)
    qed
    have "labels (set_content p [] q) + mset (content_of q p) = labels q"
      using labels_update [OF ok(1), of "[]"] by simp
    from arg_cong [OF this, of "\<lambda>M. count M l"] have "count (mset (content_of q p)) l \<le> 1" using one by simp
    moreover have "0 < count (mset (content_of q p)) l" using mem by (simp only: count_greater_zero_iff)
    ultimately have "count (mset (content_of q p)) l = 1" by linarith
    then obtain ls' where "erase_remove l (content_of q p) = Inr ls'" "mset (content_of q p) = add_mset l (mset ls')"
      by (rule erase_remove_one)
    then have c: "mset (content_of q p) = add_mset l (mset ls)" using ls by simp
    have okp: "place_ok (bq_push r l q) p" using ok(1) by (simp add: place_ok_def split: place.splits)
    have "labels q' + mset (content_of q p) = labels (bq_push r l q) + mset ls"
      using labels_update [OF okp, of ls] by (simp add: q'' set_content_push(1) [OF pr])
    then have "labels q' = labels q" by (simp add: labels_push [OF ok(2)] c)
    then show ?thesis by (simp add: q'')
  qed (use q' in simp)
qed

lemma empty_labels:
  "bq_empty q = (e, q') \<Longrightarrow> bq_current q \<le> length (bq_buckets q) \<Longrightarrow>
    labels q' = labels q \<and> length (bq_buckets q') = length (bq_buckets q) \<and> bq_current q' \<le> length (bq_buckets q')
    \<and> bq_overflow q' = bq_overflow q \<and> (\<not> e \<longrightarrow> bq_current q' < length (bq_buckets q') \<and> bq_buckets q' ! bq_current q' \<noteq> [])"
proof (induction q rule: bq_empty.induct)
  case (1 q)
  show ?case
  proof (cases "bq_current q < length (bq_buckets q) \<and> bq_buckets q ! bq_current q = []")
    case True
    then have "bq_empty (q\<lparr>bq_current := bq_current q + 1, bq_cost := fadd (bq_cost q) (bq_size q)\<rparr>) = (e, q')"
      using 1(2) bq_empty.simps [of q] by simp
    from 1(1) [OF True this] True show ?thesis by (auto simp: labels_def)
  next
    case False
    then have "e = (bq_current q = length (bq_buckets q))" "q' = q" using 1(2) bq_empty.simps [of q] by auto
    then show ?thesis using False 1(3) by auto
  qed
qed

lemma take_back_labels:
  assumes "take_back q = (i, q')" "bq_current q < length (bq_buckets q)" "bq_buckets q ! bq_current q \<noteq> []"
  shows "labels q = add_mset i (labels q')" "bq_current q' = bq_current q" "length (bq_buckets q') = length (bq_buckets q)"
proof -
  let ?b = "bq_buckets q ! bq_current q"
  have "mset ?b = add_mset (last ?b) (mset (butlast ?b))"
    using assms(3) by (metis append_butlast_last_id mset.simps(2) mset_append union_mset_add_mset_right add.right_neutral mset.simps(1))
  then show "labels q = add_mset i (labels q')"
    using assms(1) concat_update [OF assms(2), of "butlast ?b"] by (auto simp: take_back_def Let_def labels_def)
  show "bq_current q' = bq_current q" "length (bq_buckets q') = length (bq_buckets q)"
    using assms(1) by (auto simp: take_back_def Let_def)
qed

lemma move_labels_labels:
  "move_labels sc ls q = Inr q' \<Longrightarrow> labels q' = labels q + mset [l \<leftarrow> ls. sc l < bq_maxcost q]
    \<and> bq_maxcost q' = bq_maxcost q \<and> length (bq_buckets q') = length (bq_buckets q) \<and> bq_overflow q' = bq_overflow q"
proof (induction ls arbitrary: q)
  case (Cons l ls)
  show ?case
  proof (cases "sc l < bq_maxcost q")
    case True
    then obtain i where i: "bucket_index q (sc l) = Inr i" and m: "move_labels sc ls (bq_push (Bucket i) l q) = Inr q'"
      using Cons.prems by (auto simp: bind_result_eq_Inr)
    have "place_ok q (Bucket i)" using i by (auto simp: bucket_index_def place_ok_def Let_def split: if_splits)
    then have "labels (bq_push (Bucket i) l q) = add_mset l (labels q)" by (rule labels_push)
    moreover have "bq_maxcost (bq_push (Bucket i) l q) = bq_maxcost q" "bq_overflow (bq_push (Bucket i) l q) = bq_overflow q"
      by (simp_all add: bq_push_def set_content_def)
    ultimately show ?thesis using Cons.IH [OF m] True by simp
  qed (use Cons in simp)
qed simp

lemma empty_overflow_labels:
  assumes "bq_empty_overflow sc q = Inr q'"
  shows "labels q' = labels q \<and> length (bq_buckets q') = length (bq_buckets q) \<and> bq_current q' = 0"
proof (cases "bq_overflow q")
  case Nil
  then show ?thesis using assms by (auto simp: bq_empty_overflow_def restart_def labels_def)
next
  case (Cons l ls)
  define q1 where "q1 = q\<lparr>bq_mincost := shifted_mincost (bq_mincost q) (bq_range q) (sc (min_element sc l ls)),
    bq_maxcost := f32 (f64 (shifted_mincost (bq_mincost q) (bq_range q) (sc (min_element sc l ls)) + bq_range q))\<rparr>"
  obtain q2 where q2: "move_labels sc (l # ls) q1 = Inr q2"
    and q': "q' = restart (q2\<lparr>bq_overflow := [x \<leftarrow> l # ls. \<not> sc x < bq_maxcost q1]\<rparr>)"
    using assms by (auto simp: bq_empty_overflow_def Cons Let_def q1_def bind_result_eq_Inr simp del: move_labels.simps)
  have m: "labels q2 = labels q1 + mset [x \<leftarrow> l # ls. sc x < bq_maxcost q1]"
    "length (bq_buckets q2) = length (bq_buckets q1)" "bq_overflow q2 = bq_overflow q1"
    using move_labels_labels [OF q2] by blast+
  have split: "mset [x \<leftarrow> l # ls. sc x < bq_maxcost q1] + mset [x \<leftarrow> l # ls. \<not> sc x < bq_maxcost q1] = mset (l # ls)"
    by (simp only: mset_filter multiset_partition [symmetric])
  have "labels q1 = mset (concat (bq_buckets q)) + mset (l # ls)" by (simp add: q1_def labels_def Cons)
  moreover have "mset (concat (bq_buckets q2)) + mset (bq_overflow q2) = labels q2" by (simp add: labels_def)
  moreover have "bq_overflow q2 = l # ls" by (simp add: m(3) q1_def Cons)
  ultimately have "mset (concat (bq_buckets q2)) = mset (concat (bq_buckets q)) + mset [x \<leftarrow> l # ls. sc x < bq_maxcost q1]"
    using m(1) by simp
  then have "labels q' = mset (concat (bq_buckets q)) + (mset [x \<leftarrow> l # ls. sc x < bq_maxcost q1] + mset [x \<leftarrow> l # ls. \<not> sc x < bq_maxcost q1])"
    by (simp add: q' restart_def labels_def)
  then show ?thesis using m(2) unfolding split by (simp add: labels_def Cons q' restart_def q1_def)
qed

lemma pop_labels:
  assumes "bq_pop sc q = Inr (i, q')" and "bq_current q \<le> length (bq_buckets q)"
  shows "bq_current q' \<le> length (bq_buckets q') \<and> length (bq_buckets q') = length (bq_buckets q)
    \<and> (labels q' = labels q \<and> i = kInvalidLabel \<or> labels q = add_mset i (labels q'))"
proof -
  obtain e q1 where e: "bq_empty q = (e, q1)" by fastforce
  note q1 = empty_labels [OF e assms(2)]
  show ?thesis
  proof (cases "e \<and> bq_overflow q1 \<noteq> []")
    case True
    then obtain q2 where q2: "bq_empty_overflow sc q1 = Inr q2"
      and r: "(let (e2, q3) = bq_empty q2 in if e2 then Inr (kInvalidLabel, q3) else Inr (take_back q3)) = (Inr (i, q') :: _ result)"
      using assms(1) by (auto simp: bq_pop_def e bind_result_eq_Inr)
    obtain e2 q3 where e2: "bq_empty q2 = (e2, q3)" by fastforce
    have "bq_current q2 \<le> length (bq_buckets q2)" using empty_overflow_labels [OF q2] by simp
    note q3 = empty_labels [OF e2 this]
    show ?thesis
    proof (cases e2)
      case False
      then have t: "take_back q3 = (i, q')" using r by (simp add: e2)
      note tb = take_back_labels [OF t]
      show ?thesis using tb q3 False q1 empty_overflow_labels [OF q2] by auto
    qed (use r e2 q3 q1 empty_overflow_labels [OF q2] in auto)
  next
    case False
    show ?thesis
    proof (cases e)
      case True
      then have "bq_overflow q1 = []" using False by simp
      then have "i = kInvalidLabel" "q' = q1\<lparr>bq_current := bq_current q1 - 1\<rparr>" using assms(1) True by (auto simp: bq_pop_def e)
      then show ?thesis using q1 by (auto simp: labels_def)
    next
      case no: False
      then have t: "take_back q1 = (i, q')" using assms(1) by (simp add: bq_pop_def e)
      show ?thesis using take_back_labels [OF t] q1 no by auto
    qed
  qed
qed

section \<open>Statuses and what restrictions do to them\<close>

lemma store_entry:
  assumes "es_store p info st = Inr st'"
  shows "entry st' k j = (if (k, j) = p then info else entry st k j)"
  using assms by (cases p) (auto simp: es_store_def put_element_def entry_def nth_list_update split: option.splits if_splits)

lemma deref_entry: "es_deref p st = Inr info \<Longrightarrow> entry st (fst p) (snd p) = info"
  by (auto simp: es_deref_def get_element_def entry_def split: option.splits if_splits)

lemma get_ptr_entry: "es_GetPtr g m pid st = (p, st') \<Longrightarrow> p = (status_key g pid, unat (gid_id g)) \<and> entry st' = entry st"
proof (cases "st (status_key g pid)")
  case None
  assume "es_GetPtr g m pid st = (p, st')"
  then have p: "p = (status_key g pid, unat (gid_id g))" and st: "st' = st(status_key g pid \<mapsto> replicate m default_info)"
    using None by (auto simp: es_GetPtr_def Let_def)
  have "entry st' k j = entry st k j" for k j using None by (simp add: st entry_def)
  then show ?thesis using p by (simp add: fun_eq_iff)
qed (simp add: es_GetPtr_def Let_def)

lemma update_entry:
  assumes "es_Update g t pid st = Inr st'"
  shows "entry st' k j = (if (k, j) = (status_key g pid, unat (gid_id g))
      then (entry st k j)\<lparr>info_set := take_bit 4 (edge_set_num t)\<rparr> else entry st k j)"
  using assms
  by (auto simp: es_Update_def get_element_def put_element_def entry_def Let_def bind_result_eq_Inr nth_list_update
      split: option.splits if_splits)

text \<open>A reset forgets that an edge was reached and keeps everything else.\<close>

definition weaker :: "edge_status \<Rightarrow> edge_status \<Rightarrow> bool" where
  "weaker st st' \<longleftrightarrow> (\<forall>k j. entry st' k j = entry st k j \<or> info_set (entry st' k j) = 0)"

lemma weaker_refl [simp]: "weaker st st"
  by (simp add: weaker_def)

lemma reset_weaker:
  assumes "fold_result (\<lambda>g st. es_Update g Unreached_or_reset 0 st) gs st = Inr st'"
  shows "weaker st st'"
  using assms
proof (rule fold_result_invariant)
  fix g a b assume a: "weaker st a" and b: "es_Update g Unreached_or_reset 0 a = Inr b"
  show "weaker st b"
    unfolding weaker_def
  proof (intro allI)
    fix k j
    show "entry b k j = entry st k j \<or> info_set (entry b k j) = 0"
      using a update_entry [OF b, of k j] by (auto simp: weaker_def)
  qed
qed simp

lemma reset_edge_status_weaker: "reset_edge_status ids (Some st) = Inr r \<Longrightarrow> \<exists>st'. r = Some st' \<and> weaker st st'"
  by (auto simp: reset_edge_status_def bind_result_eq_Inr intro: reset_weaker)

text \<open>The answer does not depend on the statuses, which are only changed when it is yes.\<close>

lemma restricted_by_statuses:
  "restricted_by d active ls fwd time tz p rs (Some st) = Inr (b, r) \<Longrightarrow>
    restricted_by d active ls fwd time tz p rs None = Inr (b, None) \<and> (\<exists>st'. r = Some st' \<and> weaker st st')
    \<and> (\<not> b \<longrightarrow> r = Some st)"
proof (induction rs)
  case (Cons x rs)
  obtain c mem where x: "x = (c, mem)" by fastforce
  have reset: "bind_result (reset_edge_status ids None) (\<lambda>st'. Inr (True, st')) = Inr (True, None)" for ids
    by (simp add: reset_edge_status_def)
  show ?case
  proof (cases "ignored_probability d c")
    case False
    then obtain m q ids where w: "walk_vias ls (unat (cr_via_count c)) mem p [] = Inr (m, q, ids)"
      using Cons.prems by (cases "walk_vias ls (unat (cr_via_count c)) mem p []") (auto simp: x restricted_by.simps)
    show ?thesis
    proof (cases "m \<and> label_edgeid q = (if fwd then from_graphid c else to_graphid c)")
      case True
      then show ?thesis
        using Cons.prems Cons.IH False
        by (cases "time \<noteq> 0 \<and> cr_has_dt c"; cases "active (window_of c) time tz"; cases "time = 0 \<and> cr_has_dt c")
          (auto simp: x w reset restricted_by.simps bind_result_eq_Inr dest!: reset_edge_status_weaker)
    next
      case no: False
      then show ?thesis using Cons False by (cases m; cases fwd) (simp_all add: x w restricted_by.simps Let_def)
    qed
  qed (use Cons in \<open>simp add: x restricted_by.simps\<close>)
qed (auto simp: restricted_by.simps)

lemma Restricted_statuses:
  "Restricted d active e p ls t g fwd (Some st) time tz = Inr (b, r) \<Longrightarrow>
    Restricted d active e p ls t g fwd None time tz = Inr (b, None) \<and> (\<exists>st'. r = Some st' \<and> weaker st st')
    \<and> (\<not> b \<longrightarrow> r = Some st)"
  by (auto simp: Restricted_def bind_result_eq_Inr split: if_splits dest!: restricted_by_statuses)

section \<open>Frozen labels\<close>

text \<open>
  \<open>F\<close> is a set of labels that contains the predecessors of its labels: what is asked of the path
  behind one of them depends on the labels in \<open>F\<close> only.
\<close>

definition rooted :: "u32 set \<Rightarrow> bd_label \<Rightarrow> bool" where
  "rooted F l \<longleftrightarrow> lab_predecessor l = kInvalidLabel \<or> lab_predecessor l \<in> F"

definition closed_in :: "u32 set \<Rightarrow> bd_label list \<Rightarrow> bool" where
  "closed_in F ls \<longleftrightarrow> (\<forall>j\<in>F. unat j < length ls \<and> rooted F (ls ! unat j))"

definition agree :: "u32 set \<Rightarrow> bd_label list \<Rightarrow> bd_label list \<Rightarrow> bool" where
  "agree F ls ls' \<longleftrightarrow> (\<forall>j\<in>F. unat j < length ls' \<and> ls' ! unat j = ls ! unat j)"

lemma next_predecessor_frozen:
  assumes "closed_in F ls" "agree F ls ls'" "rooted F p"
  shows "next_predecessor ls' p = next_predecessor ls p" and "next_predecessor ls p = Inr q \<Longrightarrow> rooted F q"
  using assms by (auto simp: next_predecessor_def label_at_def closed_in_def agree_def rooted_def split: if_splits)

lemma walk_vias_frozen:
  assumes "closed_in F ls" "agree F ls ls'"
  shows "rooted F p \<Longrightarrow> walk_vias ls' k mem p ids = walk_vias ls k mem p ids"
proof (induction k arbitrary: mem p ids)
  case (Suc k)
  show ?case
  proof (cases "next_predecessor ls p")
    case (Inr q)
    have "rooted F q" by (rule next_predecessor_frozen(2) [OF assms Suc.prems Inr])
    note IH = Suc.IH [OF this]
    show ?thesis
      using next_predecessor_frozen(1) [OF assms Suc.prems] Inr IH by (auto intro!: bind_result_cong split: prod.splits)
  qed (use next_predecessor_frozen(1) [OF assms Suc.prems] in \<open>auto intro!: bind_result_cong split: prod.splits\<close>)
qed simp

lemma restricted_by_frozen:
  assumes "closed_in F ls" "agree F ls ls'" "rooted F p"
  shows "restricted_by d active ls' fwd time tz p rs st = restricted_by d active ls fwd time tz p rs st"
  by (induction rs arbitrary: st) (auto simp: restricted_by.simps walk_vias_frozen [OF assms] Let_def intro!: bind_result_cong)

lemma astar_restricted_frozen:
  assumes "closed_in F ls" "agree F ls ls'" "rooted F p"
  shows "astar_restricted az p x ls' st = astar_restricted az p x ls st"
  by (simp add: astar_restricted_def Restricted_def restricted_by_frozen [OF assms])

section \<open>What a label is made of\<close>

text \<open>An edge that leaves a node, and one that leaves the node at the end of a label.\<close>

definition out_edge :: "astar_setup \<Rightarrow> graph_id \<Rightarrow> astar_edge \<Rightarrow> bool" where
  "out_edge az g x \<longleftrightarrow> (\<exists>m. GetGraphTile (az_reader az) g = Some (ae_tile x) \<and> tile_node (ae_tile x) g = Inr (ae_node x)
     \<and> m < unat (ni_edge_count (ae_node x)) \<and> unat (ni_edge_index (ae_node x)) + m < length (rt_edges (ae_tile x))
     \<and> ae_id x = edge_at g (unat (ni_edge_index (ae_node x)) + m)
     \<and> ae_edge x = rt_edges (ae_tile x) ! (unat (ni_edge_index (ae_node x)) + m))"

definition leaving :: "astar_setup \<Rightarrow> bd_label \<Rightarrow> astar_edge \<Rightarrow> bool" where
  "leaving az p x \<longleftrightarrow> (\<exists>t n. GetGraphTile (az_reader az) (label_endnode p) = Some t \<and> tile_node t (label_endnode p) = Inr n
     \<and> astar_offset az p n = Inr (ae_time x)
     \<and> (if ct_AllowedNode (az_costing az) n
        then out_edge az (label_endnode p) x
          \<or> (\<exists>j<unat (ni_transition_count n). unat (ni_transition_index n) + j < length (rt_transitions t)
               \<and> out_edge az (transition_endnode (rt_transitions t ! (unat (ni_transition_index n) + j))) x)
        else GetOpposingEdgeId (az_reader az) (label_edgeid p) (Some t) = Inr (ae_id x, Some (ae_tile x))
          \<and> tile_edge (ae_tile x) (ae_id x) = Inr (ae_edge x) \<and> ae_node x = n))"

definition back_edge :: "astar_setup \<Rightarrow> bd_label \<Rightarrow> directed_edge option" where
  "back_edge az p =
     (if az_forward az then None
      else case GetGraphTile (az_reader az) (label_opp_edgeid p) of None \<Rightarrow> None
        | Some t \<Rightarrow> (case tile_edge t (label_opp_edgeid p) of Inl _ \<Rightarrow> None | Inr oe \<Rightarrow> Some oe))"

definition dest_key :: "astar_setup \<Rightarrow> astar_edge \<Rightarrow> graph_id" where
  "dest_key az x = (if az_forward az then ae_id x else ae_opp_id x)"

text \<open>
  An offer of the label \<open>p\<close>, or of its copy marked as a dead end: along an edge that leaves its end, allowed,
  not restricted for the path behind it, at the cost of the code.
\<close>

definition offer_of :: "astar_setup \<Rightarrow> (graph_id \<times> path_edge) list \<Rightarrow> bd_label list \<Rightarrow> bd_label \<Rightarrow> astar_edge
    \<Rightarrow> path_edge option \<Rightarrow> cost \<Rightarrow> bool" where
  "offer_of az D ls p x dest c \<longleftrightarrow> (\<exists>pred\<in>{p, p\<lparr>lab_deadend := True\<rparr>}.
     leaving az p x
     \<and> look_ahead az pred (back_edge az p) (ae_tile x) (ae_node x) (ae_time x) (ae_id x) (ae_edge x) (ae_status x) = Inr (Some x)
     \<and> fst (astar_allowed az (dest \<noteq> None) pred x) \<and> astar_restricted az pred x ls None = Inr (False, None)
     \<and> (c = cost_to az pred x dest \<or> dest = None \<and> c = cost_add (cost_add (lab_cost pred) (ae_transition x)) (ae_edge_cost x))
     \<and> (\<forall>pe. dest = Some pe \<longrightarrow> (dest_key az x, pe) \<in> set D))"

definition made :: "astar_setup \<Rightarrow> (graph_id \<times> path_edge) list \<Rightarrow> bd_label list \<Rightarrow> bd_label \<Rightarrow> bool" where
  "made az D ls l \<longleftrightarrow> unat (lab_predecessor l) < length ls
     \<and> (\<exists>x dest. offer_of az D ls (ls ! unat (lab_predecessor l)) x dest (lab_cost l)
          \<and> label_edgeid l = GraphId (take_bit 46 (gid_value (ae_id x))) \<and> lab_destination l = (dest \<noteq> None)
          \<and> (dest \<noteq> None \<longrightarrow> label_opp_edgeid l = GraphId (take_bit 63 (gid_value (ae_opp_id x)))))"

definition origin_made :: "astar_setup \<Rightarrow> (graph_id \<times> path_edge) list \<Rightarrow> path_edge list \<Rightarrow> bd_label \<Rightarrow> bool" where
  "origin_made az D pes l \<longleftrightarrow> lab_predecessor l = kInvalidLabel \<and> lab_origin l
     \<and> (\<exists>pe\<in>set pes. (if az_forward az then label_edgeid l = GraphId (take_bit 46 (pe_graph_id pe))
           else label_opp_edgeid l = GraphId (take_bit 63 (pe_graph_id pe)))
          \<and> (lab_destination l \<longrightarrow> (\<exists>d. (GraphId (pe_graph_id pe), d) \<in> set D)))"

section \<open>The invariant\<close>

definition popped :: "astar \<Rightarrow> u32 set" where
  "popped s = {j. unat j < length (as_labels s) \<and> j \<notin># labels (as_queue s)}"

definition queue_inv :: "astar \<Rightarrow> bool" where
  "queue_inv s \<longleftrightarrow> bq_current (as_queue s) \<le> length (bq_buckets (as_queue s))
     \<and> (\<forall>j. count (labels (as_queue s)) j \<le> 1) \<and> (\<forall>j\<in>#labels (as_queue s). unat j < length (as_labels s))"

text \<open>A temporary status points to a label of its edge that is still in the queue.\<close>

definition points_to :: "astar \<Rightarrow> u32 \<times> nat \<Rightarrow> u32 \<Rightarrow> bool" where
  "points_to s p i \<longleftrightarrow> i \<in># labels (as_queue s)
     \<and> (let l = as_labels s ! unat i in label_key l = p \<and> \<not> lab_origin l \<and> \<not> lab_destination l)"

definition status_inv :: "astar \<Rightarrow> bool" where
  "status_inv s \<longleftrightarrow> (\<forall>k j. entry_set (as_status s) (k, j) = 2 \<longrightarrow> points_to s (k, j) (info_index (entry (as_status s) k j)))"

definition labels_inv :: "astar_setup \<Rightarrow> (graph_id \<times> path_edge) list \<Rightarrow> path_edge list \<Rightarrow> astar \<Rightarrow> bool" where
  "labels_inv az D pes s \<longleftrightarrow> (\<forall>l\<in>set (as_labels s). lab_path_id l = 0
     \<and> (origin_made az D pes l \<or> lab_predecessor l \<in> popped s \<and> made az D (as_labels s) l))"

text \<open>Popped labels have an order in which predecessors come first.\<close>

definition order_inv :: "astar \<Rightarrow> bool" where
  "order_inv s \<longleftrightarrow> (\<exists>r :: u32 \<Rightarrow> nat. \<forall>j\<in>popped s.
     let i = lab_predecessor (as_labels s ! unat j) in i = kInvalidLabel \<or> r i < r j)"

definition path_inv :: "astar_setup \<Rightarrow> (graph_id \<times> path_edge) list \<Rightarrow> path_edge list \<Rightarrow> astar \<Rightarrow> bool" where
  "path_inv az D pes s \<longleftrightarrow> as_destinations s = D \<and> queue_inv s \<and> status_inv s \<and> labels_inv az D pes s \<and> order_inv s"

definition best_inv :: "astar \<Rightarrow> bool" where
  "best_inv s \<longleftrightarrow> (0 \<le> fst (as_best s) \<longrightarrow> nat (fst (as_best s)) < length (as_labels s) \<and> fst (as_best s) < 2 ^ 28
     \<and> lab_destination (as_labels s ! nat (fst (as_best s))))"

lemma path_invD:
  assumes "path_inv az D pes s"
  shows "as_destinations s = D" "queue_inv s" "status_inv s" "labels_inv az D pes s" "order_inv s"
  using assms by (simp_all add: path_inv_def)

lemma label_invD:
  assumes "labels_inv az D pes s" and "l \<in> set (as_labels s)"
  shows "lab_path_id l = 0" "origin_made az D pes l \<or> lab_predecessor l \<in> popped s \<and> made az D (as_labels s) l"
  using assms by (simp_all add: labels_inv_def)

lemma queue_invD:
  assumes "queue_inv s"
  shows "bq_current (as_queue s) \<le> length (bq_buckets (as_queue s))" "count (labels (as_queue s)) j \<le> 1"
    "j \<in># labels (as_queue s) \<Longrightarrow> unat j < length (as_labels s)"
  using assms by (simp_all add: queue_inv_def)

lemma popped_closed: "labels_inv az D pes s \<Longrightarrow> closed_in (popped s) (as_labels s)"
  unfolding closed_in_def
proof (intro ballI conjI)
  fix j assume l: "labels_inv az D pes s" and j: "j \<in> popped s"
  show len: "unat j < length (as_labels s)" using j by (simp add: popped_def)
  show "rooted (popped s) (as_labels s ! unat j)"
    using label_invD(2) [OF l nth_mem [OF len]] by (auto simp: rooted_def origin_made_def)
qed

lemma made_frozen:
  assumes "labels_inv az D pes s" and a: "agree (popped s) (as_labels s) ls" and i: "lab_predecessor l \<in> popped s"
    and m: "made az D (as_labels s) l"
  shows "made az D ls l"
proof -
  let ?i = "lab_predecessor l"
  note c = popped_closed [OF assms(1)]
  have p: "unat ?i < length ls" "ls ! unat ?i = as_labels s ! unat ?i" using a i by (simp_all add: agree_def)
  have "rooted (popped s) (as_labels s ! unat ?i)" using c i by (simp add: closed_in_def)
  then have "rooted (popped s) q" if "q \<in> {as_labels s ! unat ?i, (as_labels s ! unat ?i)\<lparr>lab_deadend := True\<rparr>}" for q
    using that by (auto simp: rooted_def)
  then show ?thesis
    using m p astar_restricted_frozen [OF c a] unfolding made_def offer_of_def by auto
qed

text \<open>What has no effect on it, and losing statuses.\<close>

lemma path_inv_weaker:
  assumes "path_inv az D pes s" and "as_labels s' = as_labels s" "as_queue s' = as_queue s" "as_destinations s' = as_destinations s"
    and w: "weaker (as_status s) (as_status s')"
  shows "path_inv az D pes s' \<and> popped s' = popped s"
proof -
  have "popped s' = popped s" by (simp add: popped_def assms)
  moreover have "status_inv s'"
    unfolding status_inv_def
  proof (intro allI impI)
    fix k j assume e: "entry_set (as_status s') (k, j) = 2"
    then have "info_set (entry (as_status s') k j) \<noteq> 0" by (simp add: entry_set_def)
    then have "entry (as_status s') k j = entry (as_status s) k j" using w unfolding weaker_def by blast
    then show "points_to s' (k, j) (info_index (entry (as_status s') k j))"
      using e path_invD(3) [OF assms(1)] assms(2,3) by (simp add: status_inv_def points_to_def entry_set_def)
  qed
  ultimately show ?thesis
    using path_invD [OF assms(1)] assms(2-4) by (simp add: path_inv_def queue_inv_def labels_inv_def order_inv_def)
qed

lemma push_inv:
  assumes inv: "path_inv az D pes s" and len: "length (as_labels s) < 2 ^ 28" and pid: "lab_path_id l = 0"
    and l: "origin_made az D pes l \<or> lab_predecessor l \<in> popped s \<and> made az D (as_labels s) l"
    and push: "astar_push l p s = Inr s'"
    and p: "\<And>k. p = Some k \<Longrightarrow> label_key l = k \<and> \<not> lab_origin l \<and> \<not> lab_destination l"
  shows "path_inv az D pes s' \<and> popped s' = popped s \<and> as_labels s' = as_labels s @ [l] \<and> as_best s' = as_best s"
proof -
  let ?idx = "word_of_nat (length (as_labels s)) :: u32" and ?ls = "as_labels s @ [l]"
  obtain q st where q: "bq_add (sort_cost ?ls) ?idx (as_queue s) = Inr q"
    and st: "(case p of None \<Rightarrow> Inr (as_status s) | Some p \<Rightarrow> es_store p (make_info Temporary ?idx) (as_status s)) = Inr st"
    and s': "s' = s\<lparr>as_labels := ?ls, as_queue := q, as_status := st\<rparr>"
    using push by (auto simp: astar_push_def Let_def bind_result_eq_Inr)
  have idx: "unat ?idx = length (as_labels s)" using len by (simp add: unsigned_of_nat take_bit_nat_eq_self)
  have take: "take_bit 28 ?idx = ?idx" using len by (simp add: take_bit_self_iff idx)
  note Q = add_labels [OF q] and qi = queue_invD [OF path_invD(2) [OF inv]]
  have fresh: "?idx \<notin># labels (as_queue s)" using qi(3) idx by (metis less_irrefl)
  have eq_idx: "j = ?idx \<longleftrightarrow> unat j = length (as_labels s)" for j by (metis idx word_unat_eq_iff)
  have pop: "popped s' = popped s"
    using Q by (auto simp: popped_def s' eq_idx less_Suc_eq)
  have qinv: "queue_inv s'"
    using Q qi fresh idx by (auto simp: queue_inv_def s' less_Suc_eq not_in_iff)
  have agree: "agree (popped s) (as_labels s) ?ls" by (simp add: agree_def popped_def nth_append)
  note frozen = made_frozen [OF path_invD(4) [OF inv] agree]
  have old: "lab_path_id k = 0 \<and> (origin_made az D pes k \<or> lab_predecessor k \<in> popped s \<and> made az D ?ls k)"
    if "k \<in> set (as_labels s)" for k
    using label_invD [OF path_invD(4) [OF inv] that] frozen by blast
  moreover have "lab_path_id l = 0 \<and> (origin_made az D pes l \<or> lab_predecessor l \<in> popped s \<and> made az D ?ls l)"
    using pid l frozen by blast
  ultimately have linv: "labels_inv az D pes s'" by (simp add: labels_inv_def pop) (simp add: s')
  have nth: "?ls ! unat j = as_labels s ! unat j" if "j \<in> popped s \<or> j \<in># labels (as_queue s)" for j
    using that qi(3) by (auto simp: popped_def nth_append)
  have oinv: "order_inv s'"
    using path_invD(5) [OF inv] nth unfolding order_inv_def pop by (simp add: s' cong: ball_cong)
  have old_point: "points_to s' (k, j) i" if "points_to s (k, j) i" for k j i
    using that nth [of i] Q by (auto simp: points_to_def s' Let_def)
  have sinv: "status_inv s'"
    unfolding status_inv_def
  proof (intro allI impI)
    fix k j assume e: "entry_set (as_status s') (k, j) = 2"
    show "points_to s' (k, j) (info_index (entry (as_status s') k j))"
    proof (cases "p = Some (k, j)")
      case True
      then have "es_store (k, j) (make_info Temporary ?idx) (as_status s) = Inr st" using st by simp
      from store_entry [OF this, of k j] have "info_index (entry (as_status s') k j) = ?idx"
        by (simp add: s' make_info_def take)
      then show ?thesis using p [OF True] Q idx by (simp add: points_to_def s' Let_def)
    next
      case False
      have "entry st k j = entry (as_status s) k j"
      proof (cases p)
        case (Some x)
        then show ?thesis using st False store_entry [of x _ "as_status s" st k j] by simp
      qed (use st in simp)
      then show ?thesis
        using e path_invD(3) [OF inv] old_point by (simp add: status_inv_def s' entry_set_def)
    qed
  qed
  show ?thesis using path_invD(1) [OF inv] qinv sinv linv oinv pop by (simp add: path_inv_def s')
qed

lemma improve_inv:
  assumes inv: "path_inv az D pes s" and t: "points_to s p t" and dec: "bq_decrease sc t c (as_queue s) = Inr q"
    and l: "lab_predecessor l \<in> popped s" "made az D (as_labels s) l"
    and same: "label_key l = label_key (as_labels s ! unat t)" "lab_origin l = lab_origin (as_labels s ! unat t)"
      "lab_destination l = lab_destination (as_labels s ! unat t)" "lab_path_id l = lab_path_id (as_labels s ! unat t)"
  defines "s' \<equiv> s\<lparr>as_queue := q, as_labels := (as_labels s)[unat t := l]\<rparr>"
  shows "path_inv az D pes s' \<and> popped s' = popped s"
proof -
  let ?ls = "(as_labels s)[unat t := l]"
  note qi = queue_invD [OF path_invD(2) [OF inv]]
  have Q: "labels q = labels (as_queue s)" "bq_current q = bq_current (as_queue s)"
    "length (bq_buckets q) = length (bq_buckets (as_queue s))"
    using decrease_labels [OF dec qi(2)] by blast+
  have t': "t \<in># labels (as_queue s)" using t by (simp add: points_to_def)
  have tlen: "unat t < length (as_labels s)" by (rule qi(3) [OF t'])
  have pop: "popped s' = popped s" by (simp add: popped_def s'_def Q)
  have ne: "unat j \<noteq> unat t" if "j \<in> popped s" for j using that t' by (auto simp: popped_def word_unat_eq_iff [symmetric])
  have agree: "agree (popped s) (as_labels s) ?ls"
    unfolding agree_def
  proof (intro ballI conjI)
    fix j assume j: "j \<in> popped s"
    then show "unat j < length ?ls" by (simp add: popped_def)
    show "?ls ! unat j = as_labels s ! unat j" using ne [OF j] by simp
  qed
  note frozen = made_frozen [OF path_invD(4) [OF inv] agree]
  have "lab_path_id k = 0 \<and> (origin_made az D pes k \<or> lab_predecessor k \<in> popped s \<and> made az D ?ls k)"
    if "k \<in> set ?ls" for k
  proof (cases "k = l")
    case True
    then show ?thesis
      using l frozen same(4) label_invD(1) [OF path_invD(4) [OF inv] nth_mem [OF tlen]] by simp
  next
    case False
    then have "k \<in> set (as_labels s)" using that set_update_subset_insert by fastforce
    then show ?thesis using label_invD [OF path_invD(4) [OF inv]] frozen by blast
  qed
  then have linv: "labels_inv az D pes s'" by (simp add: labels_inv_def pop) (simp add: s'_def)
  have nth: "?ls ! unat j = as_labels s ! unat j" if "j \<in> popped s" for j using ne [OF that] by simp
  have oinv: "order_inv s'"
    using path_invD(5) [OF inv] nth unfolding order_inv_def pop by (simp add: s'_def cong: ball_cong)
  have "points_to s' (k, j) i" if "points_to s (k, j) i" for k j i
  proof (cases "unat i = unat t")
    case True
    then show ?thesis using that same tlen by (simp add: points_to_def s'_def Q Let_def word_unat_eq_iff [symmetric])
  qed (use that in \<open>simp add: points_to_def s'_def Q Let_def\<close>)
  then have sinv: "status_inv s'" using path_invD(3) [OF inv] by (simp add: status_inv_def s'_def)
  have "queue_inv s'" using path_invD(2) [OF inv] by (simp add: queue_inv_def s'_def Q)
  then show ?thesis using path_invD(1) [OF inv] sinv linv oinv pop by (simp add: path_inv_def s'_def)
qed

section \<open>The operations on an edge keep it\<close>

text \<open>As long as the labels fit the 28 bits of an index in the status.\<close>

definition keeps :: "(astar \<Rightarrow> bool) \<Rightarrow> astar \<Rightarrow> astar \<Rightarrow> bool" where
  "keeps P s s' \<longleftrightarrow> as_destinations s' = as_destinations s \<and> length (as_labels s) \<le> length (as_labels s')
     \<and> (length (as_labels s') \<le> 2 ^ 28 \<longrightarrow> P s \<longrightarrow> P s')"

lemma keeps_refl [simp]: "keeps P s s"
  by (simp add: keeps_def)

lemma keeps_destinations: "keeps P s s' \<Longrightarrow> as_destinations s' = as_destinations s"
  by (simp add: keeps_def)

lemma keeps_trans [trans]: "keeps P s s' \<Longrightarrow> keeps P s' s'' \<Longrightarrow> keeps P s s''"
  by (auto simp: keeps_def)

definition expanding_label :: "astar_setup \<Rightarrow> (graph_id \<times> path_edge) list \<Rightarrow> path_edge list \<Rightarrow> u32 \<Rightarrow> bd_label \<Rightarrow> astar \<Rightarrow> bool" where
  "expanding_label az D pes i p s \<longleftrightarrow> path_inv az D pes s \<and> best_inv s \<and> i \<in> popped s \<and> as_labels s ! unat i = p"

definition edge_ok :: "astar_edge \<Rightarrow> bool" where
  "edge_ok x \<longleftrightarrow> unat (gid_value (ae_id x)) < 2 ^ 46 \<and> ae_status x = (status_key (ae_id x) 0, unat (gid_id (ae_id x)))"

text \<open>An edge that can be offered by the label \<open>p\<close>, seen as \<open>pred\<close>.\<close>

definition offerable :: "astar_setup \<Rightarrow> bd_label \<Rightarrow> bd_label \<Rightarrow> astar_edge \<Rightarrow> bool" where
  "offerable az p pred x \<longleftrightarrow> pred \<in> {p, p\<lparr>lab_deadend := True\<rparr>} \<and> leaving az p x \<and> edge_ok x
     \<and> look_ahead az pred (back_edge az p) (ae_tile x) (ae_node x) (ae_time x) (ae_id x) (ae_edge x) (ae_status x) = Inr (Some x)"

lemma checks_law:
  assumes "astar_checks az is_dest pred x s = Inr (ok, s')"
  shows "(\<exists>st. s' = s\<lparr>as_status := st\<rparr> \<and> weaker (as_status s) st)
    \<and> (ok \<noteq> None \<longrightarrow> s' = s \<and> fst (astar_allowed az is_dest pred x)
        \<and> astar_restricted az pred x (as_labels s) None = Inr (False, None))"
proof -
  obtain a r d where al: "astar_allowed az is_dest pred x = (a, r, d)" by (metis prod_cases3)
  show ?thesis
  proof (cases a)
    case True
    then obtain b st where re: "astar_restricted az pred x (as_labels s) (Some (as_status s)) = Inr (b, st)"
      and r: "(ok, s') = ((if b then None else Some (r, d)), (case st of None \<Rightarrow> s | Some st' \<Rightarrow> s\<lparr>as_status := st'\<rparr>))"
      using assms by (auto simp: astar_checks_def al bind_result_eq_Inr Let_def)
    from Restricted_statuses [OF re [unfolded astar_restricted_def]]
    have st: "astar_restricted az pred x (as_labels s) None = Inr (b, None)" "\<exists>st'. st = Some st' \<and> weaker (as_status s) st'"
      "\<not> b \<longrightarrow> st = Some (as_status s)" by (auto simp: astar_restricted_def)
    show ?thesis
    proof (cases b)
      case False
      then have "ok = Some (r, d)" "s' = s" using r st(3) by simp_all
      then show ?thesis using st(1) False True by (auto simp: al intro!: exI [of _ "as_status s"])
    qed (use r st in auto)
  next
    case False
    then have "ok = None" "s' = s" using assms by (simp_all add: astar_checks_def al)
    then show ?thesis by (auto intro!: exI [of _ "as_status s"])
  qed
qed

lemma checks_keep:
  assumes "astar_checks az is_dest pred x s = Inr (ok, s')"
  shows "keeps (expanding_label az D pes i p) s s'"
proof -
  obtain st where s': "s' = s\<lparr>as_status := st\<rparr>" "weaker (as_status s) st" using checks_law [OF assms] by blast
  then have "path_inv az D pes s' \<and> popped s' = popped s" if "path_inv az D pes s"
    using path_inv_weaker [OF that, of s'] by simp
  then show ?thesis by (auto simp: keeps_def expanding_label_def s' best_inv_def)
qed

lemma same_edge:
  assumes "status_key g 0 = status_key h 0" "gid_id g = gid_id h" "unat (gid_value g) < 2 ^ 46" "unat (gid_value h) < 2 ^ 46"
  shows "g = h"
proof -
  have t: "tile_value g = tile_value h" using assms(1) status_key_eq_iff [of 0 0 g h] by (simp add: kMaxMultiPathId_def)
  have low: "take_bit 46 (gid_value g) = gid_value g" "take_bit 46 (gid_value h) = gid_value h"
    using assms(3,4) by (simp_all only: take_bit_self_iff)
  have "gid_value g = gid_value h"
  proof (rule bit_word_eqI)
    fix n
    have t': "bit (tile_value g) m = bit (tile_value h) m" and i': "bit (gid_id g) m = bit (gid_id h) m" for m
      using t assms(2) by simp_all
    show "bit (gid_value g) n = bit (gid_value h) n"
      using t' [of n] i' [of "n - 25"] arg_cong [OF low(1), of "\<lambda>w. bit w n"] arg_cong [OF low(2), of "\<lambda>w. bit w n"]
      by (cases "n < 25") (auto simp: tile_value_def field_bits const_masks bit_simps)
  qed
  then show ?thesis by (metis graph_id.collapse)
qed

lemma update_bd_cost_sel [simp]:
  "lab_predecessor (update_bd_cost i c sc tc r l) = i" "lab_cost (update_bd_cost i c sc tc r l) = c"
  "lab_origin (update_bd_cost i c sc tc r l) = lab_origin l" "lab_destination (update_bd_cost i c sc tc r l) = lab_destination l"
  "lab_path_id (update_bd_cost i c sc tc r l) = lab_path_id l" "label_edgeid (update_bd_cost i c sc tc r l) = label_edgeid l"
  "label_key (update_bd_cost i c sc tc r l) = label_key l"
  by (simp_all add: update_bd_cost_def label_edgeid_def label_key_def label_path_id_def)

lemma opp_take_bit: "ucast (ucast (v :: u64) :: 63 word) = (take_bit 63 v :: u64)"
  by (rule bit_word_eqI) (auto simp: bit_ucast_iff bit_take_bit_iff)

lemma astar_label_sel [simp]:
  "lab_predecessor (astar_label az pred i op x c sc d pd r m isd) = i"
  "lab_cost (astar_label az pred i op x c sc d pd r m isd) = c"
  "lab_origin (astar_label az pred i op x c sc d pd r m isd) = False"
  "lab_destination (astar_label az pred i op x c sc d pd r m isd) = isd"
  "lab_path_id (astar_label az pred i op x c sc d pd r m isd) = 0"
  "label_edgeid (astar_label az pred i op x c sc d pd r m isd) = GraphId (take_bit 46 (gid_value (ae_id x)))"
  "label_opp_edgeid (astar_label az pred i op x c sc d pd r m isd) = GraphId (take_bit 63 (gid_value (ae_opp_id x)))"
  by (simp_all add: astar_label_def Let_def update_bd_label_def new_bd_label_dist_def new_label_def sif_label.defs
      bd_label.defs label_edgeid_def label_opp_edgeid_def ucast_ucast_take_bit opp_take_bit)

lemma astar_label_key: "edge_ok x \<Longrightarrow> label_key (astar_label az pred i op x c sc d pd r m isd) = ae_status x"
proof -
  assume x: "edge_ok x"
  then have "take_bit 46 (gid_value (ae_id x)) = gid_value (ae_id x)" by (simp add: edge_ok_def take_bit_self_iff)
  then have "GraphId (take_bit 46 (gid_value (ae_id x))) = ae_id x" by (simp add: graph_id.expand)
  then show ?thesis using x by (simp add: label_key_def label_path_id_def edge_ok_def)
qed

lemma offer_made:
  assumes "offerable az p pred x" and i: "unat i < length ls" "ls ! unat i = p"
    and "fst (astar_allowed az (dest \<noteq> None) pred x)" "astar_restricted az pred x ls None = Inr (False, None)"
    and c: "lab_cost l = cost_to az pred x dest
      \<or> dest = None \<and> lab_cost l = cost_add (cost_add (lab_cost pred) (ae_transition x)) (ae_edge_cost x)"
    and dest: "\<And>pe. dest = Some pe \<Longrightarrow> (dest_key az x, pe) \<in> set D"
    and l: "lab_predecessor l = i" "label_edgeid l = GraphId (take_bit 46 (gid_value (ae_id x)))" "lab_destination l = (dest \<noteq> None)"
      "dest \<noteq> None \<longrightarrow> label_opp_edgeid l = GraphId (take_bit 63 (gid_value (ae_opp_id x)))"
  shows "made az D ls l"
proof -
  have "offer_of az D ls p x dest (lab_cost l)"
    unfolding offer_of_def by (rule bexI [of _ pred]) (use assms in \<open>auto simp: offerable_def\<close>)
  then show ?thesis unfolding made_def l i(2) using i(1) l by blast
qed

lemma push_best: "idx = word_of_nat n \<Longrightarrow> n < 2 ^ 28 \<Longrightarrow> sint (idx :: u32) = int n"
  by (simp add: signed_of_nat signed_take_bit_int_eq_self)

lemma astar_add_keeps:
  assumes add: "astar_add az pred i (back_edge az p) x dest s = Inr (b, s')" and x: "offerable az p pred x"
    and dest: "\<And>pe. dest = Some pe \<Longrightarrow> (dest_key az x, pe) \<in> set (as_destinations s)"
  shows "keeps (expanding_label az D pes i p) s s'"
proof -
  note not_None_eq [simp del]
  obtain ok s1 where ck: "astar_checks az (dest \<noteq> None) pred x s = Inr (ok, s1)"
    using add by (auto simp: astar_add_def bind_result_eq_Inr)
  show ?thesis
  proof (cases ok)
    case None
    then have "s' = s1" using add by (simp add: astar_add_def ck)
    then show ?thesis using checks_keep [OF ck] by simp
  next
    case (Some rd)
    obtain ridx dmask where rd: "rd = (ridx, dmask)" by fastforce
    have s1: "s1 = s" and al: "fst (astar_allowed az (dest \<noteq> None) pred x)"
      and re: "astar_restricted az pred x (as_labels s) None = Inr (False, None)"
      using checks_law [OF ck] Some by auto
    define c where "c = cost_to az pred x dest"
    define d where "d = distance_left az (as_heuristic s) dest (ae_endpoint x)"
    define idx where "idx = (word_of_nat (length (as_labels s)) :: u32)"
    define s2 where "s2 = s\<lparr>as_best := note_best dest idx c (as_best s)\<rparr>"
    obtain pd s3 where "length_to az pred (ae_edge x) dest = Inr pd"
      and push: "astar_push (astar_label az pred i (back_edge az p) x c (astar_sortcost (as_heuristic s) c d) d pd ridx dmask (dest \<noteq> None))
        (if dest = None then Some (ae_status x) else None) s2 = Inr s3" and s': "s' = s3"
      using add by (auto simp: astar_add_def ck Some rd s1 Let_def bind_result_eq_Inr c_def d_def idx_def s2_def)
    let ?l = "astar_label az pred i (back_edge az p) x c (astar_sortcost (as_heuristic s) c d) d pd ridx dmask (dest \<noteq> None)"
    have grown: "as_labels s' = as_labels s @ [?l]" "as_destinations s' = as_destinations s"
      using push by (auto simp: s' astar_push_def s2_def Let_def bind_result_eq_Inr)
    have "expanding_label az D pes i p s'" if e: "expanding_label az D pes i p s" and len: "length (as_labels s') \<le> 2 ^ 28"
    proof -
      have n: "length (as_labels s2) < 2 ^ 28" using len grown by (simp add: s2_def)
      have inv: "path_inv az D pes s2" "popped s2 = popped s"
        using e path_inv_weaker [of az D pes s s2] by (simp_all add: expanding_label_def s2_def)
      have ip: "i \<in> popped s" "unat i < length (as_labels s)" "as_labels s ! unat i = p"
        using e by (simp_all add: expanding_label_def popped_def)
      have "made az D (as_labels s) ?l"
        by (rule offer_made [OF x ip(2,3) al re]) (use dest path_invD(1) [OF inv(1)] in \<open>simp_all add: c_def s2_def\<close>)
      then have l: "origin_made az D pes ?l \<or> lab_predecessor ?l \<in> popped s2 \<and> made az D (as_labels s2) ?l"
        using ip(1) inv(2) by (simp add: s2_def)
      have pt: "label_key ?l = k \<and> \<not> lab_origin ?l \<and> \<not> lab_destination ?l"
        if "(if dest = None then Some (ae_status x) else None) = Some k" for k
        using that x astar_label_key [of x] by (auto simp: offerable_def split: if_splits)
      have "lab_path_id ?l = 0" by simp
      note P = push_inv [OF inv(1) n this l push pt]
      have best: "best_inv s'"
        using e grown n push_best [of idx "length (as_labels s)"] P
        by (auto simp: expanding_label_def best_inv_def note_best_def s2_def s' idx_def nth_append)
      have "as_labels s' ! unat i = p" using ip grown by (simp add: nth_append)
      then show ?thesis using P inv(2) ip(1) best by (simp add: expanding_label_def s')
    qed
    then show ?thesis using grown by (simp add: keeps_def)
  qed
qed

lemma label_edgeid_small: "unat (gid_value (label_edgeid l)) < 2 ^ 46"
  using unsigned_less [of "lab_edgeid l", where ?'a = nat]
  by (simp add: label_edgeid_def unsigned_ucast_eq take_bit_nat_eq_self)

lemma update_keeps:
  assumes upd: "astar_update az pred i x j s = Inr (b, s')" and x: "offerable az p pred x"
    and j: "entry_set (as_status s) (ae_status x) = 2" "j = info_index (entry (as_status s) (fst (ae_status x)) (snd (ae_status x)))"
  shows "keeps (expanding_label az D pes i p) s s'"
proof -
  obtain ok s1 where ck: "astar_checks az False pred x s = Inr (ok, s1)"
    using upd by (auto simp: astar_update_def bind_result_eq_Inr)
  show ?thesis
  proof (cases ok)
    case None
    then have "s' = s1" using upd by (simp add: astar_update_def ck)
    then show ?thesis using checks_keep [OF ck] by simp
  next
    case (Some rd)
    obtain ridx dmask where rd: "rd = (ridx, dmask)" by fastforce
    have s1: "s1 = s" and al: "fst (astar_allowed az False pred x)"
      and re: "astar_restricted az pred x (as_labels s) None = Inr (False, None)"
      using checks_law [OF ck] Some by auto
    define lab where "lab = as_labels s ! unat j"
    define c where "c = cost_add (cost_add (lab_cost pred) (ae_transition x)) (ae_edge_cost x)"
    define ns where "ns = fsub (lab_sortcost lab) (fsub (cost (lab_cost lab)) (cost c))"
    have len: "unat j < length (as_labels s)" and r: "(if cost c < cost (lab_cost lab)
        then bind_result (bq_decrease (sort_cost (as_labels s)) j ns (as_queue s)) (\<lambda>q. Inr (True, s\<lparr>as_queue := q,
          as_labels := (as_labels s)[unat j := update_bd_cost i c ns (ae_transition x) ridx lab]\<rparr>))
        else Inr (True, s)) = (Inr (b, s') :: _ result)"
      using upd by (auto simp: astar_update_def ck Some rd s1 Let_def label_at_def c_def lab_def ns_def split: if_splits)
    show ?thesis
    proof (cases "cost c < cost (lab_cost lab)")
      case True
      let ?l = "update_bd_cost i c ns (ae_transition x) ridx lab"
      obtain q where dec: "bq_decrease (sort_cost (as_labels s)) j ns (as_queue s) = Inr q"
        and s': "s' = s\<lparr>as_queue := q, as_labels := (as_labels s)[unat j := ?l]\<rparr>"
        using r True by (auto simp: bind_result_eq_Inr)
      have "expanding_label az D pes i p s'" if e: "expanding_label az D pes i p s"
      proof -
        have inv: "path_inv az D pes s" and ip: "i \<in> popped s" "unat i < length (as_labels s)" "as_labels s ! unat i = p"
          using e by (simp_all add: expanding_label_def popped_def)
        obtain k m where km: "ae_status x = (k, m)" by fastforce
        have pt: "points_to s (ae_status x) j" using path_invD(3) [OF inv] j by (simp add: status_inv_def km)
        have key: "label_key lab = ae_status x" "\<not> lab_destination lab" using pt by (simp_all add: points_to_def lab_def Let_def)
        have pid: "label_path_id lab = 0"
          using label_invD(1) [OF path_invD(4) [OF inv] nth_mem [OF len]] by (simp add: label_path_id_def lab_def)
        have xok: "edge_ok x" using x by (simp add: offerable_def)
        have "label_edgeid lab = ae_id x"
          by (rule same_edge) (use key(1) pid xok label_edgeid_small [of lab] in \<open>auto simp: label_key_def edge_ok_def word_unat_eq_iff\<close>)
        moreover have "GraphId (take_bit 46 (gid_value (ae_id x))) = ae_id x"
          using xok by (simp add: edge_ok_def take_bit_self_iff [THEN iffD2] graph_id.expand)
        ultimately have "made az D (as_labels s) ?l"
          by (intro offer_made [OF x ip(2,3), of None]) (use al re key(2) in \<open>simp_all add: c_def\<close>)
        then have "path_inv az D pes s' \<and> popped s' = popped s"
          unfolding s' by (intro improve_inv [OF inv pt dec]) (use ip(1) in \<open>simp_all add: lab_def\<close>)
        moreover have "as_labels s' ! unat i = p"
          using pt ip by (cases "unat i = unat j") (auto simp: s' points_to_def popped_def word_unat_eq_iff [symmetric])
        moreover have "best_inv s'"
          using e len by (auto simp: expanding_label_def best_inv_def s' lab_def nth_list_update)
        ultimately show ?thesis using ip(1) by (simp add: expanding_label_def)
      qed
      then show ?thesis by (simp add: keeps_def s')
    qed (use r in simp)
  qed
qed

section \<open>The expansion of a label\<close>

text \<open>An edge, its identifier and its place in the status, as the loops over edges step them.\<close>

definition expandable :: "astar_setup \<Rightarrow> bd_label \<Rightarrow> routing_tile \<Rightarrow> nodeinfo \<Rightarrow> time_info
    \<Rightarrow> graph_id \<times> directed_edge \<times> (u32 \<times> nat) \<Rightarrow> bool" where
  "expandable az p t n ot meta \<longleftrightarrow> (case meta of (g, e, ptr) \<Rightarrow>
     unat (gid_value g) < 2 ^ 46 \<and> ptr = (status_key g 0, unat (gid_id g))
     \<and> (\<forall>x. ae_tile x = t \<longrightarrow> ae_node x = n \<longrightarrow> ae_time x = ot \<longrightarrow> ae_id x = g \<longrightarrow> ae_edge x = e \<longrightarrow> leaving az p x))"

definition small_tiles :: "astar_setup \<Rightarrow> bool" where
  "small_tiles az \<longleftrightarrow> (\<forall>k t. az_reader az k = Some t \<longrightarrow> length (rt_edges t) \<le> 2 ^ 21)"

lemma look_ahead_sel:
  "look_ahead az pred op t n ot g e ptr = Inr (Some x) \<Longrightarrow>
    ae_tile x = t \<and> ae_node x = n \<and> ae_time x = ot \<and> ae_id x = g \<and> ae_edge x = e \<and> ae_status x = ptr"
  by (auto simp: look_ahead_def bind_result_eq_Inr split: option.splits prod.splits)

lemma small_tile: "small_tiles az \<Longrightarrow> GetGraphTile (az_reader az) g = Some t \<Longrightarrow> length (rt_edges t) \<le> 2 ^ 21"
  by (auto simp: small_tiles_def GetGraphTile_def split: if_splits)

lemma node_edge_expandable:
  assumes "small_tiles az" and g: "GetGraphTile (az_reader az) g = Some t" and n: "tile_node t g = Inr n"
    and leave: "\<And>x. ae_time x = ot \<Longrightarrow> out_edge az g x \<Longrightarrow> leaving az p x"
    and e: "array_at (rt_edges t) j = Inr e"
    and j: "unat (ni_edge_index n) \<le> j" "j < unat (ni_edge_index n) + unat (ni_edge_count n)"
    and edgeid: "j < length (rt_edges t) \<Longrightarrow> edgeid = edge_at g j"
  shows "expandable az p t n ot (edgeid, e, (status_key g 0, j))"
proof -
  have len: "j < length (rt_edges t)" and e': "rt_edges t ! j = e" using e by (auto simp: array_at_def split: if_splits)
  then have small: "j < 2 ^ 21" using small_tile [OF assms(1) g] by simp
  have id: "edgeid = edge_at g j" by (rule edgeid [OF len])
  have "unat (gid_value edgeid) < 2 ^ 46" unfolding id edge_at_def by (rule set_id_fields(4))
  moreover have "status_key g 0 = status_key edgeid 0" "unat (gid_id edgeid) = j"
    using small by (simp_all add: id status_key_def)
  moreover have "leaving az p x" if "ae_tile x = t" "ae_node x = n" "ae_time x = ot" "ae_id x = edgeid" "ae_edge x = e" for x
  proof (rule leave [OF that(3)])
    have "j = unat (ni_edge_index n) + (j - unat (ni_edge_index n))" "j - unat (ni_edge_index n) < unat (ni_edge_count n)"
      using j by simp_all
    then show "out_edge az g x"
      unfolding out_edge_def using that g n len e' id by (metis add.commute)
  qed
  ultimately show ?thesis by (simp add: expandable_def)
qed

text \<open>
  A relation between states that is kept by what is done with an edge is kept by the whole
  expansion of the label \<open>p\<close> at the index \<open>i\<close>.
\<close>

locale astar_expansion =
  fixes az :: astar_setup and i :: u32 and p :: bd_label and R :: "astar \<Rightarrow> astar \<Rightarrow> bool"
  assumes same: "R s s"
    and compose: "R s s' \<Longrightarrow> R s' s'' \<Longrightarrow> R s s''"
    and destinations: "R s s' \<Longrightarrow> as_destinations s' = as_destinations s"
    and added: "astar_add az pred i (back_edge az p) x dest s = Inr (b, s') \<Longrightarrow> offerable az p pred x \<Longrightarrow>
      (\<And>pe. dest = Some pe \<Longrightarrow> (dest_key az x, pe) \<in> set (as_destinations s)) \<Longrightarrow>
      (dest = None \<Longrightarrow> entry_set (as_status s) (ae_status x) \<notin> {1, 2}) \<Longrightarrow> R s s'"
    and updated: "astar_update az pred i x j s = Inr (b, s') \<Longrightarrow> offerable az p pred x \<Longrightarrow>
      entry_set (as_status s) (ae_status x) = 2 \<Longrightarrow>
      j = info_index (entry (as_status s) (fst (ae_status x)) (snd (ae_status x))) \<Longrightarrow> R s s'"
    and allocated: "az_reader az (tile_value g) = Some t \<Longrightarrow> es_GetPtr g (length (rt_edges t)) 0 (as_status s) = (ptr, st)
      \<Longrightarrow> R s (s\<lparr>as_status := st\<rparr>)"
    and counted: "R s (s\<lparr>as_limits := hls\<rparr>)"
begin

lemma destinations_related:
  assumes "offerable az p pred x"
  shows "astar_destinations az pred i (back_edge az p) x pes a s = Inr (b, s') \<Longrightarrow>
    (\<And>pe. pe \<in> set pes \<Longrightarrow> (dest_key az x, pe) \<in> set (as_destinations s)) \<Longrightarrow> R s s'"
proof (induction pes arbitrary: a s)
  case (Cons pe pes)
  obtain b1 s1 where s1: "astar_add az pred i (back_edge az p) x (Some pe) s = Inr (b1, s1)"
    and rest: "astar_destinations az pred i (back_edge az p) x pes (b1 \<or> a) s1 = Inr (b, s')"
    using Cons.prems(1) by (auto simp: bind_result_eq_Inr)
  have r: "R s s1" by (rule added [OF s1 assms]) (use Cons.prems(2) in auto)
  show ?case
    by (rule compose [OF r Cons.IH [OF rest]]) (use Cons.prems(2) destinations [OF r] in auto)
qed (simp add: same)

lemma inner_related:
  assumes "astar_ExpandInner az pred i (back_edge az p) t n ot meta s = Inr (b, s')"
    and pred: "pred \<in> {p, p\<lparr>lab_deadend := True\<rparr>}" and meta: "expandable az p t n ot meta"
  shows "R s s'"
proof -
  obtain g e ptr where m: "meta = (g, e, ptr)" by (metis prod_cases3)
  show ?thesis
  proof (cases "de_is_shortcut e \<or> \<not> az_forward az \<and> de_reverseaccess e AND access_mask (ct_dyn (az_costing az)) = 0")
    case False
    note eq = assms(1) [unfolded m astar_ExpandInner_def Let_def prod.case if_not_P [OF False]]
    obtain info where d: "es_deref ptr (as_status s) = Inr info"
      using eq by (cases "es_deref ptr (as_status s)") simp_all
    note eq1 = eq [unfolded d bind_result_simps]
    obtain es where es: "status_set info = Inr es" using eq1 by (cases "status_set info") simp_all
    note eq2 = eq1 [unfolded es bind_result_simps] and info = d es
    show ?thesis
    proof (cases "es = Permanent")
      case no: False
      note eq3 = eq2 [unfolded if_not_P [OF no]]
      obtain found where found: "look_ahead az pred (back_edge az p) t n ot g e ptr = Inr found"
        using eq3 by (cases "look_ahead az pred (back_edge az p) t n ot g e ptr") simp_all
      note eq4 = eq3 [unfolded found bind_result_simps]
      show ?thesis
      proof (cases found)
        case None
        then show ?thesis using eq4 same by simp
      next
        case (Some x)
        note sel = look_ahead_sel [OF found [unfolded Some]]
        have off: "offerable az p pred x"
          using pred meta found Some sel by (simp add: offerable_def expandable_def m edge_ok_def)
        note eq5 = eq4 [unfolded Some option.case]
        define first where "first = (if es = Temporary then astar_update az pred i x (info_index info) s
              else astar_add az pred i (back_edge az p) x None s)"
        note eq6 = eq5 [folded first_def]
        obtain y where y: "first = Inr y" using eq6 by (cases first) simp_all
        obtain a s1 where as1: "y = (a, s1)" by fastforce
        note s1 = y [unfolded first_def as1] and eq7 = eq6 [unfolded y as1 bind_result_simps prod.case]
        have rest: "astar_destinations az pred i (back_edge az p) x (destinations_at (dest_key az x) s1) a s1 = Inr (b, s')"
          using eq7 sel by (simp only: dest_key_def)
        have entry: "entry (as_status s) (fst ptr) (snd ptr) = info" by (rule deref_entry [OF info(1)])
        have "R s s1"
        proof (cases "es = Temporary")
          case True
          then have "entry_set (as_status s) (ae_status x) = 2"
            using info(2) sel entry by (auto simp: status_set_def entry_set_def split: if_splits)
          moreover have "info_index info = info_index (entry (as_status s) (fst (ae_status x)) (snd (ae_status x)))"
            using sel entry by simp
          moreover have "astar_update az pred i x (info_index info) s = Inr (a, s1)" using s1 True by simp
          ultimately show ?thesis using off by (intro updated [of pred x "info_index info" s a s1])
        next
          case False
          then have "entry_set (as_status s) (ae_status x) \<notin> {1, 2}"
            using info(2) no sel entry by (auto simp: status_set_def entry_set_def split: if_splits)
          then show ?thesis using s1 False added [of pred x None s a s1] off by simp
        qed
        moreover have "R s1 s'"
          by (rule destinations_related [OF off rest]) (auto simp: destinations_at_def)
        ultimately show ?thesis by (rule compose)
      qed
    next
      case True
      then show ?thesis using eq2 [unfolded if_P [OF True]] same by simp
    qed
  next
    case True
    then show ?thesis
      using assms(1) [unfolded m astar_ExpandInner_def Let_def prod.case if_P [OF True]] same by simp
  qed
qed

lemma all_edges_related:
  assumes tiles: "small_tiles az" and g: "GetGraphTile (az_reader az) g = Some t" and n: "tile_node t g = Inr n"
    and leave: "\<And>x. ae_time x = ot \<Longrightarrow> out_edge az g x \<Longrightarrow> leaving az p x"
  shows "astar_all_edges az p i (back_edge az p) t n ot k j edgeid (status_key g 0, j) b s = Inr (b', s') \<Longrightarrow>
    unat (ni_edge_index n) \<le> j \<Longrightarrow> j + k \<le> unat (ni_edge_index n) + unat (ni_edge_count n) \<Longrightarrow>
    (j < length (rt_edges t) \<Longrightarrow> edgeid = edge_at g j) \<Longrightarrow> R s s'"
proof (induction k arbitrary: j edgeid b s)
  case (Suc k)
  obtain e where e: "array_at (rt_edges t) j = Inr e"
    using Suc.prems(1) by (cases "array_at (rt_edges t) j") simp_all
  obtain b1 s1 where s1: "astar_ExpandInner az p i (back_edge az p) t n ot (edgeid, e, (status_key g 0, j)) s = Inr (b1, s1)"
    and rest: "astar_all_edges az p i (back_edge az p) t n ot k (j + 1) (gid_succ edgeid) (status_key g 0, j + 1) (b1 \<or> b) s1 = Inr (b', s')"
    using Suc.prems(1) by (auto simp: e bind_result_eq_Inr)
  have x: "expandable az p t n ot (edgeid, e, (status_key g 0, j))"
    by (rule node_edge_expandable [OF tiles g n leave e]) (use Suc.prems(2-4) in simp_all)
  have "gid_succ edgeid = edge_at g (j + 1)" if "j + 1 < length (rt_edges t)"
    using that Suc.prems(4) next_edge [of j g] small_tile [OF tiles g] by simp
  then have "R s1 s'" by (intro Suc.IH [OF rest]) (use Suc.prems(2,3) in simp_all)
  moreover have "R s s1" by (rule inner_related [OF s1 _ x]) simp
  ultimately show ?case by (blast intro: compose)
qed (simp add: same)

lemma edges_related:
  assumes tiles: "small_tiles az" and g: "GetGraphTile (az_reader az) g = Some t" and n: "tile_node t g = Inr n"
    and leave: "\<And>x. ae_time x = ot \<Longrightarrow> out_edge az g x \<Longrightarrow> leaving az p x"
  shows "astar_edges az p i (back_edge az p) t n ot k j edgeid (status_key g 0, j) again b s = Inr (again', b', s') \<Longrightarrow>
    unat (ni_edge_index n) \<le> j \<Longrightarrow> j + k \<le> unat (ni_edge_index n) + unat (ni_edge_count n) \<Longrightarrow>
    (j < length (rt_edges t) \<Longrightarrow> edgeid = edge_at g j) \<Longrightarrow>
    R s s' \<and> (\<forall>m. again' = Some m \<longrightarrow> again = Some m \<or> expandable az p t n ot m)"
proof (induction k arbitrary: j edgeid again b s)
  case (Suc k)
  obtain e where e: "array_at (rt_edges t) j = Inr e"
    using Suc.prems(1) by (cases "array_at (rt_edges t) j") simp_all
  have x: "expandable az p t n ot (edgeid, e, (status_key g 0, j))"
    by (rule node_edge_expandable [OF tiles g n leave e]) (use Suc.prems(2-4) in simp_all)
  have next_id: "gid_succ edgeid = edge_at g (j + 1)" if "j + 1 < length (rt_edges t)"
    using that Suc.prems(4) next_edge [of j g] small_tile [OF tiles g] by simp
  note eq = Suc.prems(1) [unfolded astar_edges.simps e bind_result_simps]
  show ?case
  proof (cases "lab_opp_local_idx p = de_localedgeidx e")
    case True
    note rest = eq [unfolded if_P [OF True] fst_conv snd_conv]
    have "R s s' \<and> (\<forall>m. again' = Some m \<longrightarrow> Some (edgeid, e, (status_key g 0, j)) = Some m \<or> expandable az p t n ot m)"
      by (rule Suc.IH [OF rest]) (use Suc.prems(2,3) next_id in simp_all)
    then show ?thesis using x by auto
  next
    case False
    note eq' = eq [unfolded if_not_P [OF False]]
    obtain b1 s1 where s1: "astar_ExpandInner az p i (back_edge az p) t n ot (edgeid, e, (status_key g 0, j)) s = Inr (b1, s1)"
      using eq' by (cases "astar_ExpandInner az p i (back_edge az p) t n ot (edgeid, e, (status_key g 0, j)) s") auto
    note rest = eq' [unfolded s1 bind_result_simps prod.case fst_conv snd_conv]
    have "R s1 s' \<and> (\<forall>m. again' = Some m \<longrightarrow> again = Some m \<or> expandable az p t n ot m)"
      by (rule Suc.IH [OF rest]) (use Suc.prems(2,3) next_id in simp_all)
    moreover have "R s s1" by (rule inner_related [OF s1 _ x]) simp
    ultimately show ?thesis by (blast intro: compose)
  qed
qed (simp add: same)

lemma first_related:
  assumes g: "GetGraphTile (az_reader az) g = Some t" and f: "first_meta g n t s = Inr (edgeid, ptr, s')"
  shows "R s s'" "edgeid = edge_at g (unat (ni_edge_index n))" "ptr = (status_key g 0, unat (ni_edge_index n))"
    "unat (gid_id edgeid) = unat (ni_edge_index n)"
proof -
  have small: "unat (ni_edge_index n) < 2 ^ 21" using unsigned_less [of "ni_edge_index n", where ?'a = nat] by simp
  have "ucast (ni_edge_index n) = (word_of_nat (unat (ni_edge_index n)) :: u32)" by simp
  then have id: "gid_make (tileid g) (level g) (ucast (ni_edge_index n)) = Inr (edge_at g (unat (ni_edge_index n)))"
    using first_edge [OF small, of g] by simp
  obtain p0 st where ptr: "es_GetPtr (edge_at g (unat (ni_edge_index n))) (length (rt_edges t)) 0 (as_status s) = (p0, st)"
    by fastforce
  have r: "edgeid = edge_at g (unat (ni_edge_index n)) \<and> ptr = p0 \<and> s' = s\<lparr>as_status := st\<rparr>"
    using f by (auto simp: first_meta_def id ptr bind_result_eq_Inr)
  have gt: "az_reader az (tile_value (edge_at g (unat (ni_edge_index n)))) = Some t"
    using g by (simp add: GetGraphTile_def split: if_splits)
  show "R s s'" using allocated [OF gt ptr] r by simp
  show "edgeid = edge_at g (unat (ni_edge_index n))" using r by simp
  show "unat (gid_id edgeid) = unat (ni_edge_index n)" using r small by simp
  show "ptr = (status_key g 0, unat (ni_edge_index n))"
    using r get_ptr_entry [OF ptr] small by (simp add: status_key_def)
qed

lemma transitions_related:
  assumes tiles: "small_tiles az"
    and leave: "\<And>m x. m < c \<Longrightarrow> a + m < length (rt_transitions t) \<Longrightarrow> ae_time x = ot \<Longrightarrow>
      out_edge az (transition_endnode (rt_transitions t ! (a + m))) x \<Longrightarrow> leaving az p x"
  shows "astar_transitions az node p i (back_edge az p) ot t k j b s = Inr (b', s') \<Longrightarrow> a \<le> j \<Longrightarrow> j + k \<le> a + c \<Longrightarrow> R s s'"
proof (induction k arbitrary: j b s)
  case (Suc k)
  obtain tr where tr: "array_at (rt_transitions t) j = Inr tr"
    using Suc.prems(1) by (cases "array_at (rt_transitions t) j") simp_all
  let ?g = "transition_endnode tr"
  note eq = Suc.prems(1) [unfolded astar_transitions.simps tr bind_result_simps Let_def]
  define stops where "stops = (if nt_up tr then Inr False
      else bind_result (array_at (as_limits s) (unat (level ?g))) (\<lambda>hl. Inr (StopExpanding hl (bl_distance p))))"
  note eq0 = eq [folded stops_def]
  obtain stop where stop: "stops = Inr stop" using eq0 by (cases stops) simp_all
  note eq1 = eq0 [unfolded stop bind_result_simps]
  show ?case
  proof (cases "if stop then None else GetGraphTile (az_reader az) ?g")
    case None
    have "astar_transitions az node p i (back_edge az p) ot t k (j + 1) b s = Inr (b', s')"
      using eq1 by (simp only: None option.case)
    then show ?thesis by (rule Suc.IH) (use Suc.prems(2,3) in simp_all)
  next
    case (Some t2)
    then have g: "GetGraphTile (az_reader az) ?g = Some t2" by (simp split: if_splits)
    note eq2 = eq1 [unfolded Some option.case]
    obtain s1 where s1: "count_up node (nt_up tr) s = Inr s1" using eq2 by (cases "count_up node (nt_up tr) s") simp_all
    note eq3 = eq2 [unfolded s1 bind_result_simps]
    obtain n2 where n2: "tile_node t2 ?g = Inr n2" using eq3 by (cases "tile_node t2 ?g") simp_all
    note eq4 = eq3 [unfolded n2 bind_result_simps]
    obtain edgeid ptr s2 where s2: "first_meta ?g n2 t2 s1 = Inr (edgeid, ptr, s2)"
      using eq4 by (cases "first_meta ?g n2 t2 s1") auto
    note f = first_related [OF g s2]
    note eq5 = eq4 [unfolded s2 bind_result_simps prod.case f(3,4)]
    obtain b1 s3 where s3: "astar_all_edges az p i (back_edge az p) t2 n2 ot (unat (ni_edge_count n2)) (unat (ni_edge_index n2))
        edgeid (status_key ?g 0, unat (ni_edge_index n2)) b s2 = Inr (b1, s3)"
      using eq5 by (cases "astar_all_edges az p i (back_edge az p) t2 n2 ot (unat (ni_edge_count n2)) (unat (ni_edge_index n2))
        edgeid (status_key ?g 0, unat (ni_edge_index n2)) b s2") auto
    note eq6 = eq5 [unfolded s3 bind_result_simps prod.case]
    have trj: "tr = rt_transitions t ! (a + (j - a))" "a + (j - a) < length (rt_transitions t)" "j - a < c"
      using tr Suc.prems(2,3) by (auto simp: array_at_def split: if_splits)
    have out: "leaving az p x" if "ae_time x = ot" "out_edge az ?g x" for x
      by (rule leave [OF trj(3,2) that(1)]) (use that(2) trj(1) in simp)
    have "R s2 s3" by (rule all_edges_related [OF tiles g n2 out s3]) (use f(2) in simp_all)
    moreover have "R s s1" using s1 counted by (auto simp: count_up_def bind_result_eq_Inr)
    moreover have "R s3 s'" by (rule Suc.IH [OF eq6]) (use Suc.prems(2,3) in simp_all)
    ultimately show ?thesis using f(1) by (blast intro: compose)
  qed
qed (simp add: same)

lemma turn_back_related:
  assumes g: "GetGraphTile (az_reader az) (label_endnode p) = Some t" and n: "tile_node t (label_endnode p) = Inr n"
    and ot: "astar_offset az p n = Inr ot" and no: "\<not> ct_AllowedNode (az_costing az) n"
    and tb: "turn_back az p i (back_edge az p) t n ot s = Inr (b, s')"
  shows "R s s'"
proof -
  obtain opp t2 where opp: "GetOpposingEdgeId (az_reader az) (label_edgeid p) (Some t) = Inr (opp, t2)"
    using tb by (cases "GetOpposingEdgeId (az_reader az) (label_edgeid p) (Some t)") (auto simp: turn_back_def)
  note eq = tb [unfolded turn_back_def opp bind_result_simps prod.case]
  show ?thesis
  proof (cases "is_valid opp")
    case True
    obtain u where u: "t2 = Some u" using eq True by (cases t2) simp_all
    obtain oe where oe: "tile_edge u opp = Inr oe" using eq True u by (cases "tile_edge u opp") simp_all
    obtain ptr st where ptr: "es_GetPtr opp (length (rt_edges u)) 0 (as_status s) = (ptr, st)" by fastforce
    have inner: "astar_ExpandInner az (p\<lparr>lab_deadend := True\<rparr>) i (back_edge az p) u n ot (opp, oe, ptr) (s\<lparr>as_status := st\<rparr>) = Inr (b, s')"
      using eq True by (simp add: u oe ptr)
    obtain h i where h: "opp = gid_set_id h i" and tile: "az_reader az (tile_value opp) = Some u"
      using opp True u
      by (auto simp: GetOpposingEdgeId_def bind_result_eq_Inr GetGraphTile_def is_valid_def gid_default_def
          tile_value_fields [OF set_id_fields(1,2)] split: option.splits if_splits)
    have small: "unat (gid_value opp) < 2 ^ 46" unfolding h by (rule set_id_fields(4))
    have "leaving az p x" if "ae_tile x = u" "ae_node x = n" "ae_time x = ot" "ae_id x = opp" "ae_edge x = oe" for x
      unfolding leaving_def using g n ot no opp u oe that by auto
    then have "expandable az p u n ot (opp, oe, ptr)"
      using small get_ptr_entry [OF ptr] by (simp add: expandable_def)
    then have "R (s\<lparr>as_status := st\<rparr>) s'" by (intro inner_related [OF inner]) simp_all
    then show ?thesis using allocated [OF tile ptr] by (blast intro: compose)
  qed (use eq same in simp)
qed

lemma Expand_related:
  assumes tiles: "small_tiles az" and expand: "astar_Expand az (label_endnode p) p i (back_edge az p) s = Inr (b, s')"
  shows "R s s'"
proof (cases "GetGraphTile (az_reader az) (label_endnode p)")
  case (Some t)
  let ?g = "label_endnode p"
  note eq = expand [unfolded astar_Expand_def Some option.case]
  obtain n where n: "tile_node t ?g = Inr n" using eq by (cases "tile_node t ?g") simp_all
  note eq1 = eq [unfolded n bind_result_simps]
  obtain ot where ot: "astar_offset az p n = Inr ot" using eq1 by (cases "astar_offset az p n") simp_all
  note eq2 = eq1 [unfolded ot bind_result_simps]
  show ?thesis
  proof (cases "ct_AllowedNode (az_costing az) n")
    case True
    then have "\<not> \<not> ct_AllowedNode (az_costing az) n" by simp
    note eq3 = eq2 [unfolded if_not_P [OF this]]
    obtain edgeid ptr s1 where s1: "first_meta ?g n t s = Inr (edgeid, ptr, s1)" using eq3 by (cases "first_meta ?g n t s") auto
    note f = first_related [OF Some s1]
    note eq4 = eq3 [unfolded s1 bind_result_simps prod.case f(3,4)]
    have leave: "leaving az p x" if "ae_time x = ot" "out_edge az ?g x" for x
      unfolding leaving_def using Some n ot True that by auto
    have leave2: "leaving az p x" if "m < unat (ni_transition_count n)" "unat (ni_transition_index n) + m < length (rt_transitions t)"
      "ae_time x = ot" "out_edge az (transition_endnode (rt_transitions t ! (unat (ni_transition_index n) + m))) x" for m x
      unfolding leaving_def using Some n ot True that by auto
    define run where "run = astar_edges az p i (back_edge az p) t n ot (unat (ni_edge_count n)) (unat (ni_edge_index n)) edgeid
      (status_key ?g 0, unat (ni_edge_index n)) None False s1"
    note eq5 = eq4 [folded run_def]
    obtain again others s2 where s2: "run = Inr (again, others, s2)" using eq5 by (cases run) auto
    have r2: "R s1 s2 \<and> (\<forall>m. again = Some m \<longrightarrow> None = Some m \<or> expandable az p t n ot m)"
      by (rule edges_related [OF tiles Some n leave s2 [unfolded run_def]]) (use f(2) in simp_all)
    note eq6 = eq5 [unfolded s2 bind_result_simps prod.case]
    define trans where "trans = (if ni_transition_count n = 0 then Inr (others, s2)
        else bind_result (tile_transition t (unat (ni_transition_index n))) (\<lambda>_. astar_transitions az ?g p i (back_edge az p) ot t
          (unat (ni_transition_count n)) (unat (ni_transition_index n)) others s2))"
    note eq7 = eq6 [folded trans_def]
    obtain others' s3 where s3: "trans = Inr (others', s3)" using eq7 by (cases trans) auto
    have r3: "R s2 s3"
    proof (cases "ni_transition_count n = 0")
      case False
      note eq8 = s3 [unfolded trans_def if_not_P [OF False]]
      obtain u where "tile_transition t (unat (ni_transition_index n)) = Inr u"
        using eq8 by (cases "tile_transition t (unat (ni_transition_index n))") simp_all
      note eq9 = eq8 [unfolded this bind_result_simps]
      show ?thesis by (rule transitions_related [OF tiles leave2 eq9 order_refl order_refl])
    qed (use s3 same in \<open>simp add: trans_def\<close>)
    note eq8 = eq7 [unfolded s3 bind_result_simps prod.case]
    have "R s3 s'"
    proof (cases "if others' then None else again")
      case (Some meta)
      obtain b2 s4 where s4: "astar_ExpandInner az (p\<lparr>lab_deadend := True\<rparr>) i (back_edge az p) t n ot meta s3 = Inr (b2, s4)"
        using eq8 [unfolded Some option.case]
        by (cases "astar_ExpandInner az (p\<lparr>lab_deadend := True\<rparr>) i (back_edge az p) t n ot meta s3") auto
      have "s' = s4" using eq8 [unfolded Some option.case s4] by simp
      moreover have "expandable az p t n ot meta" using conjunct2 [OF r2, rule_format, of meta] Some by (simp split: if_splits)
      ultimately show ?thesis using inner_related [OF s4] by simp
    qed (use eq8 same in simp)
    then show ?thesis using f(1) r2 r3 by (blast intro: compose)
  next
    case False
    then show ?thesis using turn_back_related [OF Some n ot False] eq2 by simp
  qed
qed (use expand same in \<open>simp add: astar_Expand_def\<close>)

lemma expand_next_related:
  assumes "small_tiles az" and "expand_next az i p s = Inr s'"
  shows "R s s'"
proof -
  obtain hl where hl: "array_at (as_limits s) (unat (level (label_endnode p))) = Inr hl"
    using assms(2) by (cases "array_at (as_limits s) (unat (level (label_endnode p)))") (simp_all add: expand_next_def)
  note eq = assms(2) [unfolded expand_next_def hl bind_result_simps]
  show ?thesis
  proof (cases "StopExpanding hl (bl_distance p)")
    case False
    note eq1 = eq [unfolded if_not_P [OF False]]
    define op where "op = (if az_forward az then Inr None
              else case GetGraphTile (az_reader az) (label_opp_edgeid p) of
                None \<Rightarrow> Inl Undefined
              | Some t \<Rightarrow> bind_result (tile_edge t (label_opp_edgeid p)) (\<lambda>oe. Inr (Some oe)))"
    note eq2 = eq1 [folded op_def]
    obtain y where y: "op = Inr y" using eq2 by (cases op) simp_all
    have "y = back_edge az p"
      using y by (auto simp: op_def back_edge_def bind_result_eq_Inr split: if_splits option.splits)
    note eq3 = eq2 [unfolded y this bind_result_simps]
    obtain b where "astar_Expand az (label_endnode p) p i (back_edge az p) s = Inr (b, s')"
      using eq3 by (auto simp: bind_result_eq_Inr)
    then show ?thesis by (rule Expand_related [OF assms(1)])
  qed (use eq same in simp)
qed

end

interpretation keep: astar_expansion az i p "keeps (expanding_label az D pes i p)" for az i p D pes
proof unfold_locales
  fix g t ptr st and s :: astar
  assume "es_GetPtr g (length (rt_edges t)) 0 (as_status s) = (ptr, st)"
  then have "weaker (as_status s) st" using get_ptr_entry by (simp add: weaker_def)
  then show "keeps (expanding_label az D pes i p) s (s\<lparr>as_status := st\<rparr>)"
    using path_inv_weaker [of az D pes s "s\<lparr>as_status := st\<rparr>"] by (auto simp: keeps_def expanding_label_def best_inv_def)
next
  fix s :: astar and hls
  show "keeps (expanding_label az D pes i p) s (s\<lparr>as_limits := hls\<rparr>)"
    using path_inv_weaker [of az D pes s "s\<lparr>as_limits := hls\<rparr>"] by (auto simp: keeps_def expanding_label_def best_inv_def)
qed (fact keeps_refl, erule (1) keeps_trans, erule keeps_destinations, erule (1) astar_add_keeps, blast, erule (1) update_keeps)

end
