(* ===== verification/Astar_Routes.thy ===== *)
theory Astar_Routes
  imports Astar_Paths
begin

text \<open>
  Whole runs of \<open>Astar_Search\<close>: what its rounds and its start keep of \<open>path_inv\<close>, that the path behind a
  label ends within the fuel of \<open>FormPath\<close>, and what a route is.
\<close>

section \<open>A round\<close>

lemma points_toD: "points_to s p i \<Longrightarrow> i \<in># labels (as_queue s) \<and> label_key (as_labels s ! unat i) = p
    \<and> \<not> lab_origin (as_labels s ! unat i) \<and> \<not> lab_destination (as_labels s ! unat i)"
  by (simp add: points_to_def Let_def)

text \<open>A label leaves the queue.\<close>

lemma popped_inv:
  assumes inv: "path_inv az D pes s" and len: "length (as_labels s) \<le> 2 ^ 28"
    and pop: "bq_pop sc (as_queue s) = Inr (i, q)" and i: "unat i < length (as_labels s)"
    and s': "as_labels s' = as_labels s" "as_queue s' = q" "as_destinations s' = D"
    and st: "\<And>k j. entry_set (as_status s') (k, j) = 2 \<Longrightarrow> entry (as_status s') k j = entry (as_status s) k j"
    and settled: "\<not> lab_origin (as_labels s ! unat i) \<Longrightarrow> \<not> lab_destination (as_labels s ! unat i) \<Longrightarrow>
      entry_set (as_status s') (label_key (as_labels s ! unat i)) \<noteq> 2"
  shows "path_inv az D pes s' \<and> popped s' = insert i (popped s)"
proof -
  note qi = queue_invD [OF path_invD(2) [OF inv]]
  have i_ne: "i \<noteq> kInvalidLabel"
  proof
    assume "i = kInvalidLabel"
    then have "unat i = 4294967295" by (simp add: kInvalidLabel_def)
    then show False using i len by simp
  qed
  note P = pop_labels [OF pop qi(1)]
  then have Q: "labels (as_queue s) = add_mset i (labels q)" using i_ne by blast
  have out: "i \<notin># labels q"
    using qi(2) [of i] by (simp add: Q not_in_iff)
  have popped: "popped s' = insert i (popped s)"
    using i out by (auto simp: popped_def s' Q)
  have fresh: "i \<notin> popped s" by (simp add: popped_def Q)
  have one: "count (labels q) j \<le> 1" for j using qi(2) [of j] by (simp add: Q split: if_splits)
  have "queue_inv s'"
    using P one qi(3) by (simp add: queue_inv_def s' Q)
  moreover have "status_inv s'"
    unfolding status_inv_def
  proof (intro allI impI)
    fix k j assume e: "entry_set (as_status s') (k, j) = 2"
    then have same: "entry (as_status s') k j = entry (as_status s) k j" by (rule st)
    then have pt: "points_to s (k, j) (info_index (entry (as_status s) k j))"
      using e path_invD(3) [OF inv] by (simp add: status_inv_def entry_set_def)
    note d = points_toD [OF pt]
    have "info_index (entry (as_status s) k j) \<noteq> i" using d settled e by auto
    then show "points_to s' (k, j) (info_index (entry (as_status s') k j))"
      using d by (simp add: points_to_def Let_def same s' Q)
  qed
  moreover have "labels_inv az D pes s'"
    using path_invD(4) [OF inv] by (auto simp: labels_inv_def popped s')
  moreover have "order_inv s'"
  proof -
    obtain r :: "u32 \<Rightarrow> nat" where r: "\<And>j. j \<in> popped s \<Longrightarrow> lab_predecessor (as_labels s ! unat j) = kInvalidLabel
        \<or> r (lab_predecessor (as_labels s ! unat j)) < r j"
      using path_invD(5) [OF inv] by (auto simp: order_inv_def Let_def)
    let ?r = "r(i := Suc (r (lab_predecessor (as_labels s ! unat i))))"
    have rooted: "rooted (popped s) (as_labels s ! unat j)" if "j \<in> insert i (popped s)" for j
      using that popped_closed [OF path_invD(4) [OF inv]] label_invD(2) [OF path_invD(4) [OF inv] nth_mem [OF i]]
      by (auto simp: closed_in_def rooted_def origin_made_def)
    have "lab_predecessor (as_labels s ! unat j) = kInvalidLabel \<or> ?r (lab_predecessor (as_labels s ! unat j)) < ?r j"
      if "j \<in> insert i (popped s)" for j
      using r [of j] rooted [OF that] that fresh by (auto simp: rooted_def)
    then show ?thesis unfolding order_inv_def popped s' Let_def by blast
  qed
  ultimately show ?thesis using popped s' by (simp add: path_inv_def)
qed

lemma settle_law:
  assumes "settle_label l s = Inr s'"
  shows "(\<exists>st. s' = s\<lparr>as_status := st\<rparr>)
    \<and> (entry_set (as_status s') (k, j) = 2 \<longrightarrow> entry (as_status s') k j = entry (as_status s) k j)
    \<and> (\<not> lab_origin l \<longrightarrow> lab_path_id l = 0 \<longrightarrow> entry_set (as_status s') (label_key l) \<noteq> 2)"
proof (cases "lab_origin l")
  case False
  then obtain st where st: "es_Update (label_edgeid l) Permanent 0 (as_status s) = Inr st" and s': "s' = s\<lparr>as_status := st\<rparr>"
    using assms by (auto simp: settle_label_def bind_result_eq_Inr)
  note U = update_entry [OF st]
  show ?thesis
    using U [of k j] U [of "fst (label_key l)" "snd (label_key l)"]
    by (auto simp: s' entry_set_def label_key_def label_path_id_def take_bit_word_eq_self split: if_splits)
qed (use assms in \<open>auto simp: settle_label_def intro!: exI [of _ "as_status s"]\<close>)

definition found_ok :: "astar \<Rightarrow> astar_outcome \<Rightarrow> bool" where
  "found_ok s outcome \<longleftrightarrow> (case outcome of Found j \<Rightarrow> unat j < length (as_labels s) \<and> lab_destination (as_labels s ! unat j) | _ \<Rightarrow> True)"

lemma converge_same:
  "converge d s = Some s' \<Longrightarrow> as_labels s' = as_labels s \<and> as_queue s' = as_queue s \<and> as_destinations s' = as_destinations s
    \<and> as_status s' = as_status s \<and> as_best s' = as_best s \<and> as_limits s' = as_limits s"
  by (auto simp: converge_def split: if_splits)

definition ran :: "astar_setup \<Rightarrow> (graph_id \<times> path_edge) list \<Rightarrow> path_edge list \<Rightarrow> astar_outcome \<Rightarrow> astar \<Rightarrow> astar \<Rightarrow> bool" where
  "ran az D pes outcome s s' \<longleftrightarrow> length (as_labels s) \<le> length (as_labels s')
     \<and> (length (as_labels s') \<le> 2 ^ 28 \<longrightarrow> path_inv az D pes s \<and> best_inv s \<longrightarrow>
          path_inv az D pes s' \<and> best_inv s' \<and> found_ok s' outcome)"

lemma best_found:
  assumes "best_inv s" "0 \<le> fst (as_best s)"
  shows "found_ok s (Found (word_of_int (fst (as_best s))))"
proof -
  have "unat (word_of_int (fst (as_best s)) :: u32) = nat (fst (as_best s))"
    using assms by (simp add: best_inv_def unsigned_of_int take_bit_int_eq_self)
  then show ?thesis using assms by (simp add: found_ok_def best_inv_def)
qed

lemma nothing_popped:
  assumes inv: "path_inv az D pes s" and len: "length (as_labels s) \<le> 2 ^ 28"
    and pop: "bq_pop sc (as_queue s) = Inr (kInvalidLabel, q)"
  shows "path_inv az D pes (s\<lparr>as_queue := q\<rparr>)"
proof -
  note qi = queue_invD [OF path_invD(2) [OF inv]] and P = pop_labels [OF pop queue_invD(1) [OF path_invD(2) [OF inv]]]
  have "kInvalidLabel \<notin># labels (as_queue s)"
    using qi(3) [of kInvalidLabel] len by (auto simp: kInvalidLabel_def)
  then have Q: "labels q = labels (as_queue s)" using P by auto
  then have "popped (s\<lparr>as_queue := q\<rparr>) = popped s" by (simp add: popped_def)
  then show ?thesis
    using path_invD [OF inv] P
    by (simp add: path_inv_def queue_inv_def status_inv_def points_to_def labels_inv_def order_inv_def Q)
qed

lemma step_ran:
  assumes tiles: "small_tiles az" and step: "astar_step az s = Inr (outcome, s')"
  shows "ran az D pes outcome s s'"
proof -
  obtain i q where pop: "bq_pop (sort_cost (as_labels s)) (as_queue s) = Inr (i, q)"
    using step by (auto simp: astar_step_def bind_result_eq_Inr)
  define s1 where "s1 = s\<lparr>as_queue := q\<rparr>"
  note eq = step [unfolded astar_step_def pop bind_result_simps prod.case Let_def, folded s1_def]
  show ?thesis
  proof (cases "i = kInvalidLabel")
    case True
    then have r: "outcome = No_route" "s' = s1" using eq by simp_all
    show ?thesis
      using nothing_popped [OF _ _ pop [unfolded True]] by (simp add: ran_def r found_ok_def s1_def best_inv_def)
  next
    case no: False
    note eq1 = eq [unfolded if_not_P [OF no]]
    obtain l where l: "label_at (as_labels s1) i = Inr l" using eq1 by (cases "label_at (as_labels s1) i") simp_all
    note eq2 = eq1 [unfolded l bind_result_simps]
    have i: "unat i < length (as_labels s)" "l = as_labels s ! unat i" using l by (simp_all add: label_at_def s1_def split: if_splits)
    show ?thesis
    proof (cases "lab_destination l")
      case True
      then have r: "outcome = Found i" "s' = s1" using eq2 by simp_all
      have "path_inv az D pes s1" if "path_inv az D pes s" "length (as_labels s) \<le> 2 ^ 28"
        using popped_inv [OF that pop i(1), of s1] True path_invD(1) [OF that(1)] by (simp add: s1_def i(2))
      then show ?thesis using i True by (simp add: ran_def r found_ok_def s1_def best_inv_def)
    next
      case False
      note eq3 = eq2 [unfolded if_not_P [OF False]]
      obtain s2 where s2: "settle_label l s1 = Inr s2" using eq3 by (cases "settle_label l s1") simp_all
      note eq4 = eq3 [unfolded s2 bind_result_simps]
      obtain st where st: "s2 = s1\<lparr>as_status := st\<rparr>" using settle_law [OF s2] by blast
      have inv2: "path_inv az D pes s2 \<and> popped s2 = insert i (popped s)"
        if "path_inv az D pes s" "length (as_labels s) \<le> 2 ^ 28"
        using popped_inv [OF that pop i(1), of s2] path_invD(1) [OF that(1)] settle_law [OF s2] i(2)
          label_invD(1) [OF path_invD(4) [OF that(1)] nth_mem [OF i(1)]]
        by (simp add: st s1_def)
      show ?thesis
      proof (cases "converge (bl_distance l) s2")
        case None
        then have r: "s' = s2"
          "outcome = (if 0 \<le> fst (as_best s2) then Found (word_of_int (fst (as_best s2))) else No_route)"
          using eq4 by auto
        have "best_inv s2 = best_inv s" by (simp add: best_inv_def st s1_def)
        then show ?thesis
          using inv2 best_found [of s2] by (auto simp: ran_def r st s1_def) (auto simp: found_ok_def)
      next
        case (Some s3)
        then obtain s4 where s4: "expand_next az i l s3 = Inr s4" and r: "outcome = Goes_on" "s' = s4"
          using eq4 by (auto simp: bind_result_eq_Inr)
        note c = converge_same [OF Some]
        note K = keep.expand_next_related [OF tiles s4, of D pes]
        have "expanding_label az D pes i l s3" if "path_inv az D pes s" "best_inv s" "length (as_labels s) \<le> 2 ^ 28"
          using inv2 [OF that(1,3)] path_inv_weaker [of az D pes s2 s3] c that(2) i(2)
          by (simp add: expanding_label_def best_inv_def st s1_def)
        then show ?thesis
          using K c by (auto simp: ran_def keeps_def r found_ok_def st s1_def expanding_label_def)
      qed
    qed
  qed
qed

lemma ran_trans: "ran az D pes Goes_on s s1 \<Longrightarrow> ran az D pes outcome s1 s' \<Longrightarrow> ran az D pes outcome s s'"
  by (auto simp: ran_def)

lemma loop_ran:
  assumes "small_tiles az"
  shows "astar_loop fuel az s = Inr (outcome, s') \<Longrightarrow> ran az D pes outcome s s'"
proof (induction fuel arbitrary: s)
  case 0
  then show ?case by (auto simp: ran_def found_ok_def)
next
  case (Suc fuel)
  obtain o1 s1 where s1: "astar_step az s = Inr (o1, s1)"
    and r: "(if o1 = Goes_on then astar_loop fuel az s1 else Inr (o1, s1)) = Inr (outcome, s')"
    using Suc.prems by (auto simp: bind_result_eq_Inr)
  note R = step_ran [OF assms s1, of D pes]
  show ?case
  proof (cases "o1 = Goes_on")
    case True
    then show ?thesis using Suc.IH [of s1] r R ran_trans [of az D pes s s1 outcome s'] by simp
  qed (use R r in simp)
qed

section \<open>The path behind a label\<close>

text \<open>
  A route as the positions of its labels, the destination first: each label was made from the next,
  the last one at an origin.
\<close>

fun route_chain :: "astar_setup \<Rightarrow> (graph_id \<times> path_edge) list \<Rightarrow> path_edge list \<Rightarrow> bd_label list \<Rightarrow> u32 list \<Rightarrow> bool" where
  "route_chain az D pes ls [] = False"
| "route_chain az D pes ls [j] = (unat j < length ls \<and> origin_made az D pes (ls ! unat j))"
| "route_chain az D pes ls (j # k # js) =
     (unat j < length ls \<and> lab_predecessor (ls ! unat j) = k \<and> made az D ls (ls ! unat j) \<and> route_chain az D pes ls (k # js))"

lemma trace_back_popped:
  assumes l: "labels_inv az D pes s" and len: "length (as_labels s) \<le> 2 ^ 28"
    and r: "\<And>j. j \<in> popped s \<Longrightarrow> lab_predecessor (as_labels s ! unat j) = kInvalidLabel
      \<or> r (lab_predecessor (as_labels s ! unat j)) < (r j :: nat)"
  shows "j \<in> popped s \<Longrightarrow> \<exists>js. route_chain az D pes (as_labels s) (j # js) \<and> distinct (j # js) \<and> set (j # js) \<subseteq> popped s
    \<and> (\<forall>k\<in>set js. r k < r j) \<and> (\<forall>fuel. length js + 1 < fuel \<longrightarrow> trace_back fuel (as_labels s) j = Some (Inr (j # js)))"
proof (induction "r j" arbitrary: j rule: less_induct)
  case less
  have j: "unat j < length (as_labels s)" using less.prems by (simp add: popped_def)
  let ?l = "as_labels s ! unat j"
  have valid: "j \<noteq> kInvalidLabel" using j len by (auto simp: kInvalidLabel_def)
  have at: "label_at (as_labels s) j = Inr ?l" using j by (simp add: label_at_def)
  have trace: "trace_back fuel (as_labels s) j =
      map_option (\<lambda>r. bind_result r (\<lambda>js. Inr (j # js))) (trace_back (fuel - 1) (as_labels s) (lab_predecessor ?l))"
    if "0 < fuel" for fuel using that valid at by (cases fuel) simp_all
  show ?case
  proof (cases "lab_predecessor ?l = kInvalidLabel")
    case True
    then have "origin_made az D pes ?l"
      using label_invD(2) [OF l nth_mem [OF j]] len by (auto simp: popped_def kInvalidLabel_def)
    moreover have "trace_back fuel (as_labels s) j = Some (Inr [j])" if "1 < fuel" for fuel
      using that trace [of fuel] True by (cases "fuel - 1") auto
    ultimately show ?thesis using j less.prems by (intro exI [of _ "[]"]) simp
  next
    case False
    let ?i = "lab_predecessor ?l"
    have i: "?i \<in> popped s" "made az D (as_labels s) ?l" and lt: "r ?i < r j"
      using label_invD(2) [OF l nth_mem [OF j]] False r [OF less.prems] by (auto simp: origin_made_def)
    obtain js where js: "route_chain az D pes (as_labels s) (?i # js)" "distinct (?i # js)" "set (?i # js) \<subseteq> popped s"
      "\<forall>k\<in>set js. r k < r ?i" "\<And>fuel. length js + 1 < fuel \<Longrightarrow> trace_back fuel (as_labels s) ?i = Some (Inr (?i # js))"
      using less.hyps [OF lt i(1)] by blast
    show ?thesis
    proof (intro exI [of _ "?i # js"] conjI allI impI)
      show "route_chain az D pes (as_labels s) (j # ?i # js)" using js(1) j i by simp
      show "distinct (j # ?i # js)" using js(2,4) lt by auto
      show "set (j # ?i # js) \<subseteq> popped s" using js(3) less.prems by simp
      show "\<forall>k\<in>set (?i # js). r k < r j" using js(4) lt by auto
      show "trace_back fuel (as_labels s) j = Some (Inr (j # ?i # js))" if "length (?i # js) + 1 < fuel" for fuel
        using that trace [of fuel] js(5) [of "fuel - 1"] by simp
    qed
  qed
qed

lemma few_positions: "distinct js \<Longrightarrow> (\<And>k. k \<in> set js \<Longrightarrow> unat (k :: u32) < n) \<Longrightarrow> length js \<le> n"
proof -
  assume d: "distinct js" and n: "\<And>k. k \<in> set js \<Longrightarrow> unat k < n"
  have "card (unat ` set js) \<le> card {..<n}" by (rule card_mono) (use n in auto)
  moreover have "card (unat ` set js) = card (set js)" by (intro card_image) (auto simp: inj_on_def word_unat_eq_iff)
  ultimately show ?thesis using d by (simp add: distinct_card)
qed

text \<open>The fuel of \<open>FormPath\<close>, one more than the labels, is enough.\<close>

lemma trace_back_route:
  assumes inv: "path_inv az D pes s" and len: "length (as_labels s) \<le> 2 ^ 28" and j: "unat j < length (as_labels s)"
  shows "\<exists>js. route_chain az D pes (as_labels s) (j # js) \<and> distinct (j # js)
    \<and> trace_back (length (as_labels s) + 1) (as_labels s) j = Some (Inr (j # js))"
proof -
  note l = path_invD(4) [OF inv]
  let ?l = "as_labels s ! unat j" and ?n = "length (as_labels s)"
  obtain r :: "u32 \<Rightarrow> nat" where r: "\<And>j. j \<in> popped s \<Longrightarrow> lab_predecessor (as_labels s ! unat j) = kInvalidLabel
      \<or> r (lab_predecessor (as_labels s ! unat j)) < r j"
    using path_invD(5) [OF inv] by (auto simp: order_inv_def Let_def)
  have T: "\<exists>js. route_chain az D pes (as_labels s) (i # js) \<and> distinct (i # js) \<and> set (i # js) \<subseteq> popped s
      \<and> (\<forall>fuel. length js + 1 < fuel \<longrightarrow> trace_back fuel (as_labels s) i = Some (Inr (i # js)))" if "i \<in> popped s" for i
    using trace_back_popped [where r = r, OF l len _ that] r by blast
  have valid: "j \<noteq> kInvalidLabel" using j len by (auto simp: kInvalidLabel_def)
  have at: "label_at (as_labels s) j = Inr ?l" using j by (simp add: label_at_def)
  consider "j \<in> popped s" | "origin_made az D pes ?l" | "j \<notin> popped s" "lab_predecessor ?l \<in> popped s" "made az D (as_labels s) ?l"
    using label_invD(2) [OF l nth_mem [OF j]] by blast
  then show ?thesis
  proof cases
    case 1
    obtain js where js: "route_chain az D pes (as_labels s) (j # js)" "distinct (j # js)" "set (j # js) \<subseteq> popped s"
      "\<And>fuel. length js + 1 < fuel \<Longrightarrow> trace_back fuel (as_labels s) j = Some (Inr (j # js))" using T [OF 1] by blast
    have "length (j # js) \<le> ?n" by (rule few_positions [OF js(2)]) (use js(3) in \<open>auto simp: popped_def\<close>)
    then show ?thesis using js(1,2) js(4) [of "?n + 1"] by (intro exI [of _ js]) (simp del: trace_back.simps)
  next
    case 2
    then have "lab_predecessor ?l = kInvalidLabel" by (simp add: origin_made_def)
    then have "trace_back (?n + 1) (as_labels s) j = Some (Inr [j])" using valid at j by (cases ?n) simp_all
    then show ?thesis using 2 j by (intro exI [of _ "[]"]) simp
  next
    case 3
    let ?i = "lab_predecessor ?l"
    obtain js where js: "route_chain az D pes (as_labels s) (?i # js)" "distinct (?i # js)" "set (?i # js) \<subseteq> popped s"
      "\<And>fuel. length js + 1 < fuel \<Longrightarrow> trace_back fuel (as_labels s) ?i = Some (Inr (?i # js))" using T [OF 3(2)] by blast
    have d: "distinct (j # ?i # js)" using js(2,3) 3(1) by auto
    have "length (j # ?i # js) \<le> ?n" by (rule few_positions [OF d]) (use js(3) j in \<open>auto simp: popped_def\<close>)
    then have "trace_back (?n + 1) (as_labels s) j = Some (Inr (j # ?i # js))" using js(4) [of ?n] valid at by simp
    then show ?thesis using js(1) d j 3(3) by (intro exI [of _ "?i # js"]) simp
  qed
qed

section \<open>The start\<close>

lemma gid_of_value_Inr: "gid_of_value v = Inr g \<Longrightarrow> g = GraphId v"
  by (simp add: gid_of_value_def Let_def split: if_splits)

lemma origin_label_sel [simp]:
  "lab_predecessor (origin_label az y c sc d pd m isd) = kInvalidLabel"
  "lab_origin (origin_label az y c sc d pd m isd)"
  "lab_destination (origin_label az y c sc d pd m isd) = isd"
  "lab_path_id (origin_label az y c sc d pd m isd) = 0"
  "label_edgeid (origin_label az y c sc d pd m isd)
     = GraphId (take_bit 46 (gid_value (case ao_opp y of None \<Rightarrow> ao_id y | Some (opp, _) \<Rightarrow> opp)))"
  "label_opp_edgeid (origin_label az y c sc d pd m isd)
     = GraphId (take_bit 63 (gid_value (case ao_opp y of None \<Rightarrow> gid_default | Some _ \<Rightarrow> ao_id y)))"
  by (auto simp: origin_label_def Let_def update_bd_label_def new_bd_label_dist_def new_label_def sif_label.defs
      bd_label.defs label_edgeid_def label_opp_edgeid_def ucast_ucast_take_bit opp_take_bit split: option.splits)

lemma keeps_fold:
  assumes "\<And>x s s'. x \<in> set xs \<Longrightarrow> as_destinations s = D \<Longrightarrow> f x s = Inr s' \<Longrightarrow> keeps P s s'"
  shows "fold_result f xs s = Inr s' \<Longrightarrow> as_destinations s = D \<Longrightarrow> keeps P s s'"
  using assms
proof (induction xs arbitrary: s)
  case (Cons x xs)
  obtain s1 where s1: "f x s = Inr s1" and rest: "fold_result f xs s1 = Inr s'"
    using Cons.prems(1) by (auto simp: bind_result_eq_Inr)
  have K: "keeps P s s1" by (rule Cons.prems(3) [OF _ Cons.prems(2) s1]) simp
  have "keeps P s1 s'" by (rule Cons.IH [OF rest]) (use keeps_destinations [OF K] Cons.prems in auto)
  then show ?case using K keeps_trans by blast
qed simp

lemma add_origin_keeps:
  assumes pe: "pe \<in> set pes" and D: "as_destinations s = D" and dest: "\<And>d. dest = Some d \<Longrightarrow> (GraphId (pe_graph_id pe), d) \<in> set D"
    and y: "ao_id y = GraphId (pe_graph_id pe)" "az_forward az \<longleftrightarrow> ao_opp y = None"
    and add: "add_origin az pe y dest s = Inr s'"
  shows "keeps (path_inv az D pes) s s'"
proof -
  define part where "part = f64 (share_to az dest - (if az_forward az then pe_percent_along pe else f64 (1 - pe_percent_along pe)))"
  note not_None_eq [simp del]
  note eq = add [unfolded add_origin_def Let_def, folded part_def]
  show ?thesis
  proof (cases "part < 0")
    case False
    obtain l where push: "astar_push l None s = Inr s'"
      and l: "\<exists>c sc d pd m. l = origin_label az y c sc d pd m (dest \<noteq> None)"
      using eq False by (auto simp: bind_result_eq_Inr) blast
    have made: "origin_made az D pes l"
      using l dest y unfolding origin_made_def by (auto intro!: bexI [OF _ pe] split: option.splits) blast+
    have pid: "lab_path_id l = 0" using l by auto
    have "as_labels s' = as_labels s @ [l]" "as_destinations s' = D"
      using push D by (auto simp: astar_push_def Let_def bind_result_eq_Inr)
    moreover have "path_inv az D pes s'" if "path_inv az D pes s" "length (as_labels s) < 2 ^ 28"
      using push_inv [OF that pid _ push] made by simp
    ultimately show ?thesis using D by (simp add: keeps_def)
  qed (use eq in simp)
qed

text \<open>What an edge of the start adds: a label of its own and one for each destination on it.\<close>

definition origin_added :: "astar_setup \<Rightarrow> path_edge \<Rightarrow> astar_origin \<Rightarrow> astar \<Rightarrow> astar \<Rightarrow> bool" where
  "origin_added az pe y s s' \<longleftrightarrow> ao_id y = GraphId (pe_graph_id pe) \<and> (\<exists>t e s1. GetGraphTile (az_reader az) (ao_id y) = Some t
     \<and> tile_edge t (ao_id y) = Inr e \<and> origin_end az (ao_id y) t e = Inr (Some (ao_opp y, ao_endpoint y))
     \<and> add_origin az pe y None s = Inr s1
     \<and> fold_result (\<lambda>d. add_origin az pe y (Some d)) (destinations_at (ao_id y) s1) s1 = Inr s')"

lemma set_origin_added:
  assumes set: "set_astar_origin az other pe s = Inr s'"
  shows "s' = s \<or> (\<exists>y. origin_added az pe y s s')"
proof -
  obtain g where g: "gid_of_value (pe_graph_id pe) = Inr g"
    using set by (cases "gid_of_value (pe_graph_id pe)") (simp_all add: set_astar_origin_def)
  define skipped where "skipped \<longleftrightarrow> (if az_forward az then pe_end_node pe else pe_begin_node pe) \<and> other \<and> \<not> super_trivial pe g s
            \<or> (if az_forward az then AvoidAsOriginEdge (ct_dyn (az_costing az)) g (f32 (pe_percent_along pe))
               else AvoidAsDestinationEdge (ct_dyn (az_costing az)) g (f32 (pe_percent_along pe)))"
  note eq = set [unfolded set_astar_origin_def Let_def g bind_result_simps, folded skipped_def]
  show ?thesis
  proof (cases skipped)
    case False
    note eq1 = eq [unfolded if_not_P [OF False]]
    obtain t where t: "GetGraphTile (az_reader az) g = Some t" using eq1 by (cases "GetGraphTile (az_reader az) g") simp_all
    note eq2 = eq1 [unfolded t option.case]
    obtain e where e: "tile_edge t g = Inr e" using eq2 by (cases "tile_edge t g") simp_all
    note eq3 = eq2 [unfolded e bind_result_simps]
    obtain ends where ends: "origin_end az g t e = Inr ends" using eq3 by (cases "origin_end az g t e") simp_all
    note eq4 = eq3 [unfolded ends bind_result_simps]
    show ?thesis
    proof (cases ends)
      case (Some p)
      obtain opp ll where p: "p = (opp, ll)" by (cases p)
      note eq5 = eq4 [unfolded Some p option.case prod.case]
      obtain ec flow where cost: "ct_EdgeCost (az_costing az) e t (az_time az) = Inr (ec, flow)"
        using eq5 by (cases "ct_EdgeCost (az_costing az) e t (az_time az)") auto
      define y where "y = \<lparr>ao_id = g, ao_edge = e, ao_opp = opp, ao_endpoint = ll, ao_cost = ec, ao_flow = flow, ao_tile = t\<rparr>"
      note eq6 = eq5 [unfolded cost bind_result_simps prod.case, folded y_def]
      obtain s1 where s1: "add_origin az pe y None s = Inr s1" using eq6 by (cases "add_origin az pe y None s") simp_all
      note eq7 = eq6 [unfolded s1 bind_result_simps]
      have "origin_added az pe y s s'"
        unfolding origin_added_def using gid_of_value_Inr [OF g] t e ends Some p s1 eq7 by (auto simp: y_def)
      then show ?thesis by blast
    qed (use eq4 in simp)
  qed (use eq in simp)
qed

lemma set_origin_keeps:
  assumes pe: "pe \<in> set pes" and D: "as_destinations s = D" and set: "set_astar_origin az other pe s = Inr s'"
  shows "keeps (path_inv az D pes) s s'"
proof (cases "s' = s")
  case False
  then obtain y where added: "origin_added az pe y s s'" using set_origin_added [OF set] by blast
  then obtain t e s1 where g: "ao_id y = GraphId (pe_graph_id pe)"
    and ends: "origin_end az (ao_id y) t e = Inr (Some (ao_opp y, ao_endpoint y))"
    and s1: "add_origin az pe y None s = Inr s1"
    and rest: "fold_result (\<lambda>d. add_origin az pe y (Some d)) (destinations_at (ao_id y) s1) s1 = Inr s'"
    unfolding origin_added_def by blast
  have fwd: "az_forward az \<longleftrightarrow> ao_opp y = None"
    using ends by (cases "ao_opp y") (auto simp: origin_end_def bind_result_eq_Inr split: if_splits option.splits)
  have K: "keeps (path_inv az D pes) s s1" by (rule add_origin_keeps [OF pe D _ g fwd s1]) simp
  have D1: "as_destinations s1 = D" using keeps_destinations [OF K] D by simp
  have "keeps (path_inv az D pes) s1 s'"
  proof (rule keeps_fold [OF _ rest D1])
    fix d a b assume d: "d \<in> set (destinations_at (ao_id y) s1)" and a: "as_destinations a = D" and b: "add_origin az pe y (Some d) a = Inr b"
    have "(GraphId (pe_graph_id pe), d) \<in> set D" using d D1 g by (auto simp: destinations_at_def)
    then show "keeps (path_inv az D pes) a b" by (intro add_origin_keeps [OF pe a _ g fwd b]) simp
  qed
  with K show ?thesis by (rule keeps_trans)
qed simp

lemma SetOrigin_keeps:
  "as_destinations s = D \<Longrightarrow> SetOrigin az pes s = Inr s' \<Longrightarrow> keeps (path_inv az D pes) s s'"
  unfolding SetOrigin_def by (rule keeps_fold [of pes]) (auto intro: set_origin_keeps)

text \<open>The destinations are edges of the location.\<close>

definition destinations_from :: "path_edge list \<Rightarrow> (graph_id \<times> path_edge) list \<Rightarrow> bool" where
  "destinations_from pes D \<longleftrightarrow> (\<forall>(g, pe)\<in>set D. pe \<in> set pes \<and> g = GraphId (pe_graph_id pe))"

lemma SetDestination_law:
  assumes "SetDestination az pes s = Inr s'" and "as_destinations s = []"
  shows "destinations_from pes (as_destinations s') \<and> (\<exists>D. s' = s\<lparr>as_destinations := D\<rparr>)"
proof -
  have "destinations_from pes (as_destinations t) \<and> (\<exists>D. t = s\<lparr>as_destinations := D\<rparr>) \<Longrightarrow> pe \<in> set pes \<Longrightarrow>
      set_astar_destination az other pe t = Inr t' \<Longrightarrow>
      destinations_from pes (as_destinations t') \<and> (\<exists>D. t' = s\<lparr>as_destinations := D\<rparr>)" for t pe other t'
    by (auto simp: set_astar_destination_def bind_result_eq_Inr Let_def destinations_from_def dest!: gid_of_value_Inr split: if_splits)
  then show ?thesis
    using assms(1) unfolding SetDestination_def
    by (rule fold_result_invariant [where I = "\<lambda>t. destinations_from pes (as_destinations t) \<and> (\<exists>D. t = s\<lparr>as_destinations := D\<rparr>)", rotated 2])
      (use assms(2) in \<open>auto simp: destinations_from_def intro!: exI [of _ "as_destinations s"]\<close>)
qed

text \<open>A search that was not used yet, or was cleared.\<close>

definition empty_search :: "astar \<Rightarrow> bool" where
  "empty_search s \<longleftrightarrow> as_labels s = [] \<and> as_destinations s = [] \<and> labels (as_queue s) = {#}"

definition start_of :: "astar_setup \<Rightarrow> astar_location \<Rightarrow> astar_location \<Rightarrow> astar_location" where
  "start_of az origin destination = (if az_forward az then origin else destination)"

definition end_of :: "astar_setup \<Rightarrow> astar_location \<Rightarrow> astar_location \<Rightarrow> astar_location" where
  "end_of az origin destination = (if az_forward az then destination else origin)"

lemma reuse_labels:
  assumes "bq_reuse m r b q = Inr q'" and "labels q = {#}"
  shows "labels q' = {#} \<and> bq_current q' = 0"
  using assms
  by (auto simp: bq_reuse_def Let_def bind_result_eq_Inr labels_def resize_buckets_def dest!: in_set_takeD split: if_splits)

lemma start_steps:
  assumes start: "GetBestPath_start az origin destination s = Inr s'"
  shows "\<exists>s1 s2 s3 hls m. as_Init az (lo_ll origin) (lo_ll destination) s = Inr s1
    \<and> SetDestination az (lo_edges (end_of az origin destination)) s1 = Inr s2
    \<and> SetOrigin az (lo_edges (start_of az origin destination)) s2 = Inr s3
    \<and> s' = s3\<lparr>as_limits := hls, as_best := (- 1, 0), as_mindist := m, as_no_convergence := 0\<rparr>"
proof -
  let ?pes = "lo_edges (start_of az origin destination)" and ?ends = "lo_edges (end_of az origin destination)"
  have ne: "\<not> (lo_edges origin = [] \<or> lo_edges destination = [])"
    using start by (auto simp: GetBestPath_start_def split: if_splits)
  note eq = start [unfolded GetBestPath_start_def if_not_P [OF ne] Let_def,
      folded start_of_def [of az origin destination] end_of_def [of az origin destination]]
  obtain s1 where s1: "as_Init az (lo_ll origin) (lo_ll destination) s = Inr s1"
    using eq by (cases "as_Init az (lo_ll origin) (lo_ll destination) s") simp_all
  note eq1 = eq [unfolded s1 bind_result_simps]
  obtain s2 where s2: "SetDestination az ?ends s1 = Inr s2" using eq1 by (cases "SetDestination az ?ends s1") simp_all
  note eq2 = eq1 [unfolded s2 bind_result_simps]
  obtain s3 where s3: "SetOrigin az ?pes s2 = Inr s3" using eq2 by (cases "SetOrigin az ?pes s2") simp_all
  note eq3 = eq2 [unfolded s3 bind_result_simps]
  obtain apart s4 m where s4: "ModifyHierarchyLimits az apart s3 = Inr s4"
    and s': "s' = s4\<lparr>as_best := (- 1, 0), as_mindist := m, as_no_convergence := 0\<rparr>"
    using eq3 unfolding bind_result_eq_Inr by blast
  obtain hls where "s4 = s3\<lparr>as_limits := hls\<rparr>"
  proof -
    have "s4 = s3\<lparr>as_limits := as_limits s4\<rparr>"
      using s4 by (auto simp: ModifyHierarchyLimits_def Let_def bind_result_eq_Inr split: if_splits)
    then show thesis by (rule that)
  qed
  then show ?thesis using s1 s2 s3 s' by auto
qed

lemma astar_start_inv:
  assumes "empty_search s" and start: "GetBestPath_start az origin destination s = Inr s'"
  shows "\<exists>D. destinations_from (lo_edges (end_of az origin destination)) D
    \<and> (length (as_labels s') \<le> 2 ^ 28 \<longrightarrow> path_inv az D (lo_edges (start_of az origin destination)) s' \<and> best_inv s')"
proof -
  let ?pes = "lo_edges (start_of az origin destination)" and ?ends = "lo_edges (end_of az origin destination)"
  obtain s1 s2 s3 hls m where s1: "as_Init az (lo_ll origin) (lo_ll destination) s = Inr s1"
    and s2: "SetDestination az ?ends s1 = Inr s2" and s3: "SetOrigin az ?pes s2 = Inr s3"
    and s': "s' = s3\<lparr>as_limits := hls, as_best := (- 1, 0), as_mindist := m, as_no_convergence := 0\<rparr>"
    using start_steps [OF start] by blast
  obtain q where q: "labels q = {#}" "bq_current q = 0" and s1': "as_queue s1 = q" "as_labels s1 = []" "as_destinations s1 = []"
      "as_status s1 = es_clear (as_status s)"
    using s1 assms(1) reuse_labels by (fastforce simp: as_Init_def Let_def bind_result_eq_Inr empty_search_def)
  define D where "D = as_destinations s2"
  note sd = SetDestination_law [OF s2 s1'(3)]
  have D: "destinations_from ?ends D" using sd by (simp add: D_def)
  have "entry (as_status s2) k j = default_info" for k j
    using sd s1'(4) by (auto simp: entry_def es_clear_def)
  then have "path_inv az D ?pes s2"
    using sd q s1' by (auto simp: path_inv_def queue_inv_def status_inv_def labels_inv_def order_inv_def popped_def D_def
        entry_set_def default_info_def)
  moreover have "keeps (path_inv az D ?pes) s2 s3" by (rule SetOrigin_keeps [OF _ s3]) (simp add: D_def)
  moreover have "path_inv az D ?pes s3 \<Longrightarrow> path_inv az D ?pes s'"
    using path_inv_weaker [of az D ?pes s3 s'] by (simp add: s')
  ultimately have "length (as_labels s') \<le> 2 ^ 28 \<longrightarrow> path_inv az D ?pes s' \<and> best_inv s'"
    by (auto simp: keeps_def best_inv_def s')
  then show ?thesis using D by blast
qed

section \<open>Routes\<close>

definition travelled :: "astar_setup \<Rightarrow> bd_label list \<Rightarrow> u32 list \<Rightarrow> path_info list" where
  "travelled az ls js =
     (let path = map (\<lambda>j. ls ! unat j) js
      in if az_forward az then rev (map forward_info path) else reverse_infos ls zero_cost zero_cost path)"

lemma form_path:
  assumes "path_inv az D pes s" and "length (as_labels s) \<le> 2 ^ 28" and "unat j < length (as_labels s)"
    and "FormPath az j s = Some (Inr (path, s'))"
  shows "\<exists>js. path = travelled az (as_labels s) (j # js) \<and> route_chain az D pes (as_labels s) (j # js) \<and> distinct (j # js)"
proof -
  obtain js where js: "route_chain az D pes (as_labels s) (j # js)" "distinct (j # js)"
    and t: "trace_back (length (as_labels s) + 1) (as_labels s) j = Some (Inr (j # js))"
    using trace_back_route [OF assms(1-3)] by blast
  have "path = travelled az (as_labels s) (j # js)"
    using assms(4) unfolding FormPath_def t travelled_def Let_def by simp
  then show ?thesis using js by blast
qed

lemma form_path_labels: "FormPath az j s = Some (Inr (path, s')) \<Longrightarrow> as_labels s' = as_labels s"
  by (auto simp: FormPath_def Let_def bind_result_eq_Inr)

lemma found_inv:
  assumes tiles: "small_tiles az" and e: "empty_search s" and s0: "GetBestPath_start az origin destination s = Inr s0"
    and s1: "astar_loop fuel az s0 = Inr (outcome, s1)" and len: "length (as_labels s1) \<le> 2 ^ 28"
  shows "\<exists>D. destinations_from (lo_edges (end_of az origin destination)) D
    \<and> path_inv az D (lo_edges (start_of az origin destination)) s1 \<and> found_ok s1 outcome"
proof -
  let ?pes = "lo_edges (start_of az origin destination)"
  obtain D where D: "destinations_from (lo_edges (end_of az origin destination)) D"
    and inv: "length (as_labels s0) \<le> 2 ^ 28 \<longrightarrow> path_inv az D ?pes s0 \<and> best_inv s0"
    using astar_start_inv [OF e s0] by blast
  then show ?thesis using loop_ran [OF tiles s1, of D ?pes] len by (auto simp: ran_def)
qed

lemma form_path_returns:
  assumes "small_tiles az" "empty_search s" "GetBestPath_start az origin destination s = Inr s0"
    "astar_loop fuel az s0 = Inr (Found j, s1)" "length (as_labels s1) \<le> 2 ^ 28"
  shows "\<exists>r. FormPath az j s1 = Some r"
proof -
  obtain D where "path_inv az D (lo_edges (start_of az origin destination)) s1" "unat j < length (as_labels s1)"
    using found_inv [OF assms] by (auto simp: found_ok_def)
  then obtain js where "trace_back (length (as_labels s1) + 1) (as_labels s1) j = Some (Inr (j # js))"
    using trace_back_route assms(5) by blast
  then show ?thesis by (simp add: FormPath_def del: trace_back.simps)
qed

lemma found_route:
  assumes tiles: "small_tiles az" and e: "empty_search s" and len: "length (as_labels s') \<le> 2 ^ 28"
    and r: "GetBestPath fuel az origin destination s = Some (Inr (routes, s'))"
  shows "routes = [] \<or> (\<exists>D js. routes = [travelled az (as_labels s') js] \<and> js \<noteq> [] \<and> distinct js
    \<and> destinations_from (lo_edges (end_of az origin destination)) D
    \<and> route_chain az D (lo_edges (start_of az origin destination)) (as_labels s') js
    \<and> lab_destination (as_labels s' ! unat (hd js)))"
proof -
  let ?pes = "lo_edges (start_of az origin destination)"
  obtain s0 where s0: "GetBestPath_start az origin destination s = Inr s0"
    using r by (cases "GetBestPath_start az origin destination s") (simp_all add: GetBestPath_def)
  obtain outcome s1 where s1: "astar_loop fuel az s0 = Inr (outcome, s1)"
    using r by (cases "astar_loop fuel az s0") (auto simp: GetBestPath_def s0)
  show ?thesis
  proof (cases outcome)
    case (Found j)
    then obtain path where path: "FormPath az j s1 = Some (Inr (path, s'))" "routes = [path]"
      using r by (auto simp: GetBestPath_def s0 s1 bind_result_eq_Inr)
    have same: "as_labels s' = as_labels s1" by (rule form_path_labels [OF path(1)])
    obtain D where D: "destinations_from (lo_edges (end_of az origin destination)) D" "path_inv az D ?pes s1" "found_ok s1 outcome"
      using found_inv [OF tiles e s0 s1] len same by auto
    then show ?thesis
      using form_path [of az D ?pes s1 j path s'] path len by (fastforce simp: found_ok_def Found same)
  qed (use r in \<open>auto simp: GetBestPath_def s0 s1\<close>)
qed

text \<open>The edges at both ends of a route.\<close>

lemma reverse_infos_edges: "map pi_edgeid (reverse_infos ls c p path) = map label_opp_edgeid path"
  by (induction ls c p path rule: reverse_infos.induct) (simp_all add: Let_def)

lemma travelled_edges:
  "map pi_edgeid (travelled az ls js) = (if az_forward az then rev (map (\<lambda>j. label_edgeid (ls ! unat j)) js)
     else map (\<lambda>j. label_opp_edgeid (ls ! unat j)) js)"
  by (simp add: travelled_def Let_def reverse_infos_edges rev_map comp_def forward_info_def)

lemma chain_start: "route_chain az D pes ls js \<Longrightarrow> js \<noteq> [] \<and> origin_made az D pes (ls ! unat (last js))"
  by (induction az D pes ls js rule: route_chain.induct) simp_all

lemma chain_end:
  assumes "route_chain az D pes ls js" and "lab_destination (ls ! unat (hd js))"
  shows "\<exists>(g, pe)\<in>set D. (if az_forward az then label_edgeid (ls ! unat (hd js)) = GraphId (take_bit 46 (gid_value g))
    else label_opp_edgeid (ls ! unat (hd js)) = GraphId (take_bit 63 (gid_value g)))"
proof -
  let ?l = "ls ! unat (hd js)"
  have "origin_made az D pes ?l \<or> made az D ls ?l" using assms(1) by (induction az D pes ls js rule: route_chain.induct) simp_all
  then show ?thesis
  proof
    assume "origin_made az D pes ?l"
    then obtain pe :: path_edge where e: "if az_forward az then label_edgeid ?l = GraphId (take_bit 46 (pe_graph_id pe))
           else label_opp_edgeid ?l = GraphId (take_bit 63 (pe_graph_id pe))"
      and d: "lab_destination ?l \<longrightarrow> (\<exists>d. (GraphId (pe_graph_id pe), d) \<in> set D)"
      unfolding origin_made_def by (elim conjE bexE)
    obtain d where "(GraphId (pe_graph_id pe), d) \<in> set D" using d assms(2) by blast
    with e show ?thesis by (intro bexI [of _ "(GraphId (pe_graph_id pe), d)"]) simp_all
  next
    assume "made az D ls ?l"
    then obtain x dest where o: "offer_of az D ls (ls ! unat (lab_predecessor ?l)) x dest (lab_cost ?l)"
      and l: "label_edgeid ?l = GraphId (take_bit 46 (gid_value (ae_id x)))" "dest \<noteq> None"
        "label_opp_edgeid ?l = GraphId (take_bit 63 (gid_value (ae_opp_id x)))"
      using assms(2) unfolding made_def by blast
    then obtain pe where "(dest_key az x, pe) \<in> set D" unfolding offer_of_def by blast
    then show ?thesis using l by (intro bexI [of _ "(dest_key az x, pe)"]) (simp_all add: dest_key_def)
  qed
qed

lemma short_ids:
  assumes "unat (v :: u64) < 2 ^ 46"
  shows "take_bit 46 v = v" "take_bit 63 v = v"
  using assms by (simp_all add: take_bit_self_iff)

end
