(* ===== verification/Astar_Ends.thy ===== *)
theory Astar_Ends
  imports Astar_Routes
begin

text \<open>
  That \<open>Astar_Search\<close> ends, whatever the costs, the queue and the restrictions that reset statuses
  do: a round either settles a label that is nearer to the destination than all before, of which
  there are no more than end points of edges, or counts as one without convergence.
\<close>

section \<open>Distances of labels\<close>

definition points :: "astar_setup \<Rightarrow> (rat \<times> rat) set" where
  "points az = {ll. \<exists>k t e k' t'. az_reader az k = Some t \<and> e \<in> set (rt_edges t) \<and> az_reader az k' = Some t'
     \<and> get_node_ll az t' (endnode e) = Inr ll}"

definition distances :: "astar_setup \<Rightarrow> astar_heuristic \<Rightarrow> rat set" where
  "distances az h = insert 0 (ah_GetDistance (az_sqrtf az) h ` points az)"

definition located :: "astar_setup \<Rightarrow> astar \<Rightarrow> bool" where
  "located az s \<longleftrightarrow> (\<forall>l\<in>set (as_labels s). bl_distance l \<in> distances az (as_heuristic s))"

text \<open>What the operations of an expansion do to the members of the test of convergence: nothing.\<close>

definition calm :: "astar_setup \<Rightarrow> astar \<Rightarrow> astar \<Rightarrow> bool" where
  "calm az s s' \<longleftrightarrow> as_destinations s' = as_destinations s \<and> as_heuristic s' = as_heuristic s \<and> as_mindist s' = as_mindist s
     \<and> as_no_convergence s' = as_no_convergence s \<and> (located az s \<longrightarrow> located az s')"

lemma calm_refl [simp]: "calm az s s"
  by (simp add: calm_def)

lemma calm_trans: "calm az s s' \<Longrightarrow> calm az s' s'' \<Longrightarrow> calm az s s''"
  by (simp add: calm_def)

lemma calm_destinations: "calm az s s' \<Longrightarrow> as_destinations s' = as_destinations s"
  by (simp add: calm_def)

lemma reader_tile: "GetGraphTile rd g = Some t \<Longrightarrow> rd (tile_value g) = Some t"
  by (simp add: GetGraphTile_def split: if_splits)

lemma array_elem: "array_at xs j = Inr x \<Longrightarrow> x \<in> set xs"
  by (auto simp: array_at_def split: if_splits)

lemma look_ahead_point:
  assumes "look_ahead az pred op t n ot g e ptr = Inr (Some x)" and t: "az_reader az k = Some t" and e: "e \<in> set (rt_edges t)"
  shows "ae_endpoint x \<in> points az"
proof -
  obtain t' where "(if de_leaves_tile e then GetGraphTile (az_reader az) (endnode e) else Some t) = Some t'"
    and "get_node_ll az t' (endnode e) = Inr (ae_endpoint x)"
    using assms(1) by (auto simp: look_ahead_def bind_result_eq_Inr split: option.splits)
  then have "\<exists>k'. az_reader az k' = Some t'" "get_node_ll az t' (endnode e) = Inr (ae_endpoint x)"
    using t by (auto split: if_splits dest: reader_tile)
  then show ?thesis using t e unfolding points_def by blast
qed

lemma opposing_tile:
  "GetOpposingEdgeId rd g t = Inr (opp, Some u) \<Longrightarrow> t = Some u \<or> (\<exists>k. rd k = Some u)"
  using reader_tile [of rd _ u] by (fastforce simp: GetOpposingEdgeId_def bind_result_eq_Inr split: option.splits if_splits)

lemma tile_edge_elem: "tile_edge t g = Inr e \<Longrightarrow> e \<in> set (rt_edges t)"
  by (auto simp: tile_edge_def split: if_splits)

lemma leaving_edge:
  assumes "leaving az p x"
  shows "\<exists>k. az_reader az k = Some (ae_tile x) \<and> ae_edge x \<in> set (rt_edges (ae_tile x))"
proof -
  have out: ?thesis if "out_edge az g x" for g using that by (auto simp: out_edge_def dest!: reader_tile)
  show ?thesis
    using assms out unfolding leaving_def by (auto dest!: opposing_tile tile_edge_elem dest: reader_tile split: if_splits)
qed

lemma offered_point:
  assumes "offerable az p pred x"
  shows "ae_endpoint x \<in> points az"
  using assms leaving_edge [of az p x] look_ahead_point unfolding offerable_def by blast

lemma distance_left_in: "dest = None \<Longrightarrow> ll \<in> points az \<Longrightarrow> distance_left az h dest ll \<in> distances az h"
  "dest \<noteq> None \<Longrightarrow> distance_left az h dest ll \<in> distances az h"
  by (auto simp: distance_left_def distances_def)

lemma checks_calm: "astar_checks az isd pred x s = Inr (ok, s') \<Longrightarrow> calm az s s' \<and> as_labels s' = as_labels s"
  using checks_law [of az isd pred x s ok s'] by (auto simp: calm_def located_def)

lemma push_calm:
  "astar_push l p s = Inr s' \<Longrightarrow> bl_distance l \<in> distances az (as_heuristic s) \<Longrightarrow> calm az s s'"
  by (auto simp: astar_push_def Let_def bind_result_eq_Inr calm_def located_def)

lemma astar_label_distance [simp]: "bl_distance (astar_label az pred i op x c sc d pd r m isd) = d"
  by (simp add: astar_label_def Let_def update_bd_label_def new_bd_label_dist_def new_label_def sif_label.defs bd_label.defs)

lemma origin_label_distance [simp]: "bl_distance (origin_label az y c sc d pd m isd) = d"
  by (auto simp: origin_label_def Let_def update_bd_label_def new_bd_label_dist_def new_label_def sif_label.defs bd_label.defs
      split: option.splits)

lemma add_calm:
  assumes "astar_add az pred i op x dest s = Inr (b, s')" and "ae_endpoint x \<in> points az"
  shows "calm az s s'"
proof -
  note not_None_eq [simp del]
  obtain ok s1 where ck: "astar_checks az (dest \<noteq> None) pred x s = Inr (ok, s1)"
    using assms(1) by (auto simp: astar_add_def bind_result_eq_Inr)
  note C = checks_calm [OF ck]
  show ?thesis
  proof (cases ok)
    case None
    then show ?thesis using assms(1) C by (simp add: astar_add_def ck)
  next
    case (Some rd)
    define d where "d = distance_left az (as_heuristic s1) dest (ae_endpoint x)"
    have d: "d \<in> distances az (as_heuristic s1)"
      using distance_left_in assms(2) by (cases dest) (auto simp: d_def)
    obtain ridx dmask where rd: "rd = (ridx, dmask)" by fastforce
    note eq = assms(1) [unfolded astar_add_def ck bind_result_simps prod.case Some rd option.case Let_def, folded d_def]
    obtain pd where pd: "length_to az pred (ae_edge x) dest = Inr pd"
      using eq by (cases "length_to az pred (ae_edge x) dest") simp_all
    note eq1 = eq [unfolded pd bind_result_simps]
    define s2 where "s2 = s1\<lparr>as_best := note_best dest (word_of_nat (length (as_labels s1))) (cost_to az pred x dest) (as_best s1)\<rparr>"
    obtain l p where push: "astar_push l p s2 = Inr s'" and l: "bl_distance l = d"
      using eq1 [folded s2_def] by (auto simp: bind_result_eq_Inr)
    have "calm az s1 s2" by (simp add: s2_def calm_def located_def)
    moreover have "calm az s2 s'" by (rule push_calm [OF push]) (use d l in \<open>simp add: s2_def\<close>)
    ultimately show ?thesis using C calm_trans by blast
  qed
qed

lemma update_calm:
  assumes "astar_update az pred i x j s = Inr (b, s')"
  shows "calm az s s'"
proof -
  obtain ok s1 where ck: "astar_checks az False pred x s = Inr (ok, s1)"
    using assms by (auto simp: astar_update_def bind_result_eq_Inr)
  note C = checks_calm [OF ck]
  show ?thesis
  proof (cases ok)
    case None
    then show ?thesis using assms C by (simp add: astar_update_def ck)
  next
    case (Some rd)
    obtain lab where lab: "label_at (as_labels s1) j = Inr lab"
      using assms by (cases "label_at (as_labels s1) j") (auto simp: astar_update_def ck Some split: prod.splits)
    have "s' = s1 \<or> (\<exists>q l. s' = s1\<lparr>as_queue := q, as_labels := (as_labels s1)[unat j := l]\<rparr> \<and> bl_distance l = bl_distance lab)"
      using assms by (auto simp: astar_update_def ck Some lab Let_def bind_result_eq_Inr update_bd_cost_def
        split: prod.splits if_splits) fastforce
    moreover have "calm az s1 (s1\<lparr>as_queue := q, as_labels := (as_labels s1)[unat j := l]\<rparr>)"
      if "bl_distance l = bl_distance lab" for q l
      using lab that set_update_subset_insert [of "as_labels s1" "unat j" l]
      by (fastforce simp: calm_def located_def label_at_def split: if_splits)
    ultimately have "calm az s1 s'" by (elim disjE exE conjE) simp_all
    then show ?thesis using C calm_trans by blast
  qed
qed

interpretation calm: astar_expansion az i p "calm az" for az i p
proof unfold_locales
  fix pred x dest b and s s' :: astar
  assume "astar_add az pred i (back_edge az p) x dest s = Inr (b, s')" and "offerable az p pred x"
  then show "calm az s s'" by (intro add_calm) (auto dest: offered_point)
next
  fix pred x j b and s s' :: astar
  assume "astar_update az pred i x j s = Inr (b, s')"
  then show "calm az s s'" by (rule update_calm)
qed (fact calm_refl, erule (1) calm_trans, erule calm_destinations, simp_all add: calm_def located_def)

section \<open>Rounds\<close>

text \<open>How many rounds are left: so many without convergence for each distance that is nearer than all before.\<close>

definition rounds_left :: "astar_setup \<Rightarrow> astar \<Rightarrow> nat" where
  "rounds_left az s = card {d \<in> distances az (as_heuristic s). d < as_mindist s} * 1800002
     + (1800001 - unat (as_no_convergence s))"

lemma converge_less:
  assumes "converge d s = Some s'" and d: "d \<in> distances az (as_heuristic s)" and fin: "finite (distances az (as_heuristic s))"
  shows "rounds_left az s' < rounds_left az s"
proof (cases "d < as_mindist s")
  case True
  then have s': "s' = s\<lparr>as_mindist := d, as_no_convergence := 0\<rparr>" using assms(1) by (simp add: converge_def)
  let ?V = "distances az (as_heuristic s)"
  have "card {v \<in> ?V. v < d} < card {v \<in> ?V. v < as_mindist s}"
    by (rule psubset_card_mono) (use fin d True in auto)
  then have "Suc (card {v \<in> ?V. v < d}) * 1800002 \<le> card {v \<in> ?V. v < as_mindist s} * 1800002" by (intro mult_le_mono1) simp
  then show ?thesis by (simp add: s' rounds_left_def)
next
  case False
  then have s': "s' = s\<lparr>as_no_convergence := as_no_convergence s + 1\<rparr>" and le: "as_no_convergence s \<le> 1800000"
    using assms(1) by (auto simp: converge_def kMaxIterationsWithoutConvergence_def split: if_splits)
  have "unat (as_no_convergence s) \<le> 1800000" using le by (simp add: word_le_nat_alt)
  moreover from this have "unat (as_no_convergence s + 1) = unat (as_no_convergence s) + 1"
    by (simp add: unat_arith_simps)
  ultimately show ?thesis by (simp add: s' rounds_left_def)
qed

lemma step_calm:
  assumes "small_tiles az" and "astar_step az s = Inr (Goes_on, s')" and loc: "located az s"
    and fin: "finite (distances az (as_heuristic s))"
  shows "located az s' \<and> as_heuristic s' = as_heuristic s \<and> rounds_left az s' < rounds_left az s"
proof -
  obtain i q where pop: "bq_pop (sort_cost (as_labels s)) (as_queue s) = Inr (i, q)"
    using assms(2) by (auto simp: astar_step_def bind_result_eq_Inr)
  obtain l s2 s3 where l: "label_at (as_labels s) i = Inr l" and s2: "settle_label l (s\<lparr>as_queue := q\<rparr>) = Inr s2"
    and s3: "converge (bl_distance l) s2 = Some s3" and s4: "expand_next az i l s3 = Inr s'"
    using assms(2) by (auto simp: astar_step_def pop Let_def bind_result_eq_Inr split: if_splits option.splits)
  have same2: "as_labels s2 = as_labels s" "as_heuristic s2 = as_heuristic s" "as_mindist s2 = as_mindist s"
    "as_no_convergence s2 = as_no_convergence s"
    using settle_law [OF s2, of 0 0] by auto
  have d: "bl_distance l \<in> distances az (as_heuristic s2)"
    using l loc by (auto simp: located_def label_at_def same2 split: if_splits)
  have less: "rounds_left az s3 < rounds_left az s2" by (rule converge_less [OF s3 d]) (simp add: same2 fin)
  have same3: "as_labels s3 = as_labels s" "as_heuristic s3 = as_heuristic s"
    using s3 same2 by (auto simp: converge_def split: if_splits)
  have "calm az s3 s'" by (rule calm.expand_next_related [OF assms(1) s4])
  then show ?thesis
    using loc less same2 same3 by (auto simp: calm_def located_def rounds_left_def)
qed

lemma loop_ends:
  assumes "small_tiles az"
  shows "located az s \<Longrightarrow> finite (distances az (as_heuristic s)) \<Longrightarrow> rounds_left az s < fuel \<Longrightarrow>
    astar_loop fuel az s = Inr (outcome, s') \<Longrightarrow> outcome \<noteq> Goes_on"
proof (induction fuel arbitrary: s)
  case (Suc fuel)
  obtain o1 s1 where s1: "astar_step az s = Inr (o1, s1)"
    and r: "(if o1 = Goes_on then astar_loop fuel az s1 else Inr (o1, s1)) = Inr (outcome, s')"
    using Suc.prems(4) by (auto simp: bind_result_eq_Inr)
  show ?case
  proof (cases "o1 = Goes_on")
    case True
    note c = step_calm [OF assms s1 [unfolded True] Suc.prems(1,2)]
    show ?thesis by (rule Suc.IH [of s1]) (use c r True Suc.prems in simp_all)
  qed (use r in auto)
qed simp

section \<open>The start\<close>

lemma origin_end_point:
  assumes "origin_end az g t e = Inr (Some (opp, ll))" and t: "GetGraphTile (az_reader az) g = Some t" and e: "tile_edge t g = Inr e"
  shows "ll \<in> points az"
proof (cases "az_forward az")
  case True
  then obtain t' where "GetGraphTile (az_reader az) (endnode e) = Some t'" "get_node_ll az t' (endnode e) = Inr ll"
    using assms(1) by (auto simp: origin_end_def bind_result_eq_Inr split: option.splits)
  then show ?thesis using reader_tile t tile_edge_elem [OF e] unfolding points_def by blast
next
  case False
  then obtain oe where oe: "GetOpposingEdge (az_reader az) g = Inr (Some oe)" and ll: "get_node_ll az t (endnode oe) = Inr ll"
    using assms(1) by (auto simp: origin_end_def bind_result_eq_Inr split: option.splits if_splits)
  obtain opp' u where "GetOpposingEdgeId (az_reader az) g None = Inr (opp', Some u)" "tile_edge u opp' = Inr oe"
    using oe by (auto simp: GetOpposingEdge_def bind_result_eq_Inr split: option.splits if_splits)
  then have "\<exists>k. az_reader az k = Some u" "oe \<in> set (rt_edges u)" by (auto dest!: opposing_tile tile_edge_elem)
  then show ?thesis using ll reader_tile [OF t] unfolding points_def by blast
qed

lemma add_origin_calm:
  assumes "add_origin az pe y dest s = Inr s'" and "ao_endpoint y \<in> points az"
  shows "calm az s s'"
proof -
  define d where "d = distance_left az (as_heuristic s) dest (ao_endpoint y)"
  have d: "d \<in> distances az (as_heuristic s)"
    using distance_left_in assms(2) by (cases dest) (auto simp: d_def)
  have "s' = s \<or> (\<exists>l. astar_push l None s = Inr s' \<and> bl_distance l = d)"
    using assms(1) [unfolded add_origin_def Let_def, folded d_def] by (auto simp: bind_result_eq_Inr split: if_splits)
  then show ?thesis using push_calm d by auto
qed

lemma calm_fold:
  assumes "fold_result f xs s = Inr s'" and "\<And>x a b. x \<in> set xs \<Longrightarrow> f x a = Inr b \<Longrightarrow> calm az a b"
  shows "calm az s s'"
  using assms(1) by (rule fold_result_invariant) (auto intro: calm_trans assms(2))

lemma set_origin_calm:
  assumes "set_astar_origin az other pe s = Inr s'"
  shows "calm az s s'"
proof (cases "s' = s")
  case False
  then obtain y where "origin_added az pe y s s'" using set_origin_added [OF assms] by blast
  then obtain t e s1 where t: "GetGraphTile (az_reader az) (ao_id y) = Some t" "tile_edge t (ao_id y) = Inr e"
    and ends: "origin_end az (ao_id y) t e = Inr (Some (ao_opp y, ao_endpoint y))"
    and s1: "add_origin az pe y None s = Inr s1"
    and rest: "fold_result (\<lambda>d. add_origin az pe y (Some d)) (destinations_at (ao_id y) s1) s1 = Inr s'"
    unfolding origin_added_def by blast
  have y: "ao_endpoint y \<in> points az" by (rule origin_end_point [OF ends t])
  have "calm az s s1" by (rule add_origin_calm [OF s1 y])
  moreover have "calm az s1 s'" by (rule calm_fold [OF rest]) (erule add_origin_calm [OF _ y])
  ultimately show ?thesis by (rule calm_trans)
qed simp

lemma start_located:
  assumes "empty_search s" and "GetBestPath_start az origin destination s = Inr s'"
  shows "located az s' \<and> as_no_convergence s' = 0"
proof -
  let ?pes = "lo_edges (start_of az origin destination)" and ?ends = "lo_edges (end_of az origin destination)"
  obtain s1 s2 s3 hls m where s1: "as_Init az (lo_ll origin) (lo_ll destination) s = Inr s1"
    and s2: "SetDestination az ?ends s1 = Inr s2" and s3: "SetOrigin az ?pes s2 = Inr s3"
    and s': "s' = s3\<lparr>as_limits := hls, as_best := (- 1, 0), as_mindist := m, as_no_convergence := 0\<rparr>"
    using start_steps [OF assms(2)] by blast
  have s1': "as_labels s1 = []" "as_destinations s1 = []"
    using s1 assms(1) by (auto simp: as_Init_def Let_def bind_result_eq_Inr empty_search_def)
  obtain D where "s2 = s1\<lparr>as_destinations := D\<rparr>" using SetDestination_law [OF s2 s1'(2)] by blast
  then have "located az s2" using s1' by (simp add: located_def)
  moreover have "calm az s2 s3" by (rule calm_fold [OF s3 [unfolded SetOrigin_def]]) (erule set_origin_calm)
  ultimately show ?thesis by (auto simp: calm_def located_def s')
qed

text \<open>The number of end points, for a reader whose tiles are listed.\<close>

definition tile_edges :: "astar_setup \<Rightarrow> u32 \<Rightarrow> directed_edge list" where
  "tile_edges az k = (case az_reader az k of None \<Rightarrow> [] | Some t \<Rightarrow> rt_edges t)"

definition edge_total :: "astar_setup \<Rightarrow> u32 list \<Rightarrow> nat" where
  "edge_total az ks = sum_list (map (\<lambda>k. length (tile_edges az k)) ks)"

lemma few_distances:
  assumes "\<And>k t. az_reader az k = Some t \<Longrightarrow> k \<in> set ks"
  shows "finite (distances az h) \<and> card (distances az h) \<le> edge_total az ks * length ks + 1"
proof -
  let ?E = "set (concat (map (tile_edges az) ks))"
  let ?f = "\<lambda>(e, k). projr (get_node_ll az (the (az_reader az k)) (endnode e))"
  have "card ?E \<le> length (concat (map (tile_edges az) ks))" by (rule card_length)
  then have E: "card ?E \<le> edge_total az ks" by (simp add: edge_total_def length_concat comp_def)
  have sub: "points az \<subseteq> ?f ` (?E \<times> set ks)"
  proof
    fix ll assume "ll \<in> points az"
    then obtain k t e k' t' where t: "az_reader az k = Some t" "e \<in> set (rt_edges t)" "az_reader az k' = Some t'"
      and ll: "get_node_ll az t' (endnode e) = Inr ll" unfolding points_def by blast
    have "e \<in> ?E" using t(1,2) assms [OF t(1)] by (force simp: tile_edges_def)
    moreover have "?f (e, k') = ll" using t ll by simp
    ultimately show "ll \<in> ?f ` (?E \<times> set ks)" using assms [OF t(3)] by force
  qed
  have fin: "finite (points az)" by (rule finite_subset [OF sub]) simp
  have "card (points az) \<le> card (?E \<times> set ks)" by (rule surj_card_le [OF _ sub]) simp
  also have "\<dots> \<le> edge_total az ks * length ks" using E card_length [of ks] by (simp add: card_cartesian_product mult_le_mono)
  finally have "card (points az) \<le> edge_total az ks * length ks" .
  moreover have "card (distances az h) \<le> Suc (card (points az))"
    unfolding distances_def using fin card_image_le [OF fin] card_insert_le_m1
    by (metis (no_types, lifting) card_insert_if finite_imageI le_SucI not_less_eq_eq)
  ultimately show ?thesis using fin by (simp add: distances_def)
qed

section \<open>The whole run\<close>

lemma run_ends:
  assumes tiles: "small_tiles az" and e: "empty_search s" and ks: "\<And>k t. az_reader az k = Some t \<Longrightarrow> k \<in> set ks"
    and fuel: "1800002 * (edge_total az ks * length ks + 2) \<le> fuel"
    and s0: "GetBestPath_start az origin destination s = Inr s0" and s1: "astar_loop fuel az s0 = Inr (outcome, s1)"
  shows "outcome \<noteq> Goes_on"
proof (rule loop_ends [OF tiles _ _ _ s1])
  note L = start_located [OF e s0]
  have few: "finite (distances az (as_heuristic s0)) \<and> card (distances az (as_heuristic s0)) \<le> edge_total az ks * length ks + 1"
    by (rule few_distances) (rule ks)
  show "located az s0" using L by simp
  show fin: "finite (distances az (as_heuristic s0))" using few by simp
  have "card {d \<in> distances az (as_heuristic s0). d < as_mindist s0} \<le> card (distances az (as_heuristic s0))"
    by (rule card_mono [OF fin]) auto
  then have "card {d \<in> distances az (as_heuristic s0). d < as_mindist s0} \<le> edge_total az ks * length ks + 1" using few by simp
  then have "card {d \<in> distances az (as_heuristic s0). d < as_mindist s0} * 1800002 \<le> (edge_total az ks * length ks + 1) * 1800002"
    by (rule mult_le_mono1)
  then show "rounds_left az s0 < fuel" using fuel L by (simp add: rounds_left_def)
qed

end
