(* ===== verification/Astar_Run.thy ===== *)
theory Astar_Run
  imports Astar_Ends Expansion_Run
begin

text \<open>
  The properties of \<open>Astar_Search\<close>, and a route over two edges, evaluated: the graph of the small runs, with every cost 10, and a queue of
  one bucket (its unit size makes the product with \<open>kBucketCount\<close> wrap to less than a unit).
\<close>

section \<open>A small graph\<close>

definition hop_edge :: "46 word \<Rightarrow> directed_edge" where
  "hop_edge g = (pair_edge g)\<lparr>de_leaves_tile := False, de_is_shortcut := False, de_length := 100, de_localedgeidx := 0,
     de_opp_local_idx := 0, de_end_restriction := 0\<rparr>"

definition hop_tile :: routing_tile where
  "hop_tile = pair_tile\<lparr>rt_edges := [hop_edge 33554432, hop_edge 0]\<rparr>"

definition hop_limit :: hierarchy_state where
  "hop_limit = \<lparr>max_up_transitions = kUnlimitedTransitions, expand_within_dist = 0, up_transition_count = 0\<rparr>"

definition hop_astar :: astar_setup where
  "hop_astar = \<lparr>az_forward = True, az_reader = [0 \<mapsto> hop_tile], az_corner = (\<lambda>_. (0, 0)), az_costing = pair_costing, az_factor = 0,
     az_unit_size = 214749, az_limits = replicate 3 hop_limit, az_mode = Pedestrian, az_time = invalid_time,
     az_tz_diff = (\<lambda>_ _ _. 0), az_cosf = (\<lambda>_. 1), az_sqrtf = (\<lambda>_. 0)\<rparr>"

definition hop_end :: path_edge where
  "hop_end = pair_start\<lparr>pe_graph_id := 33554432, pe_percent_along := 1 / 2\<rparr>"

definition hop_from :: astar_location where
  "hop_from = \<lparr>lo_ll = (0, 0), lo_edges = [pair_start]\<rparr>"

definition hop_to :: astar_location where
  "hop_to = \<lparr>lo_ll = (0, 0), lo_edges = [hop_end]\<rparr>"

definition no_astar :: astar where
  "no_astar = \<lparr>as_labels = [], as_queue = raw_queue, as_status = Map.empty, as_destinations = [], as_limits = [],
     as_heuristic = \<lparr>ah_center = (0, 0), ah_m_per_lng = 0, ah_costfactor = 0\<rparr>, as_has_ferry = False, as_best = (- 1, 0),
     as_mindist = 0, as_no_convergence = 0\<rparr>"

lemma hop_astar_sel [simp]:
  "az_forward hop_astar" "az_reader hop_astar = [0 \<mapsto> hop_tile]" "az_corner hop_astar = (\<lambda>_. (0, 0))"
  "az_costing hop_astar = pair_costing" "az_factor hop_astar = 0" "az_unit_size hop_astar = 214749"
  "az_limits hop_astar = replicate 3 hop_limit" "az_time hop_astar = invalid_time" "az_tz_diff hop_astar = (\<lambda>_ _ _. 0)"
  "az_cosf hop_astar = (\<lambda>_. 1)" "az_sqrtf hop_astar = (\<lambda>_. 0)" "az_mode hop_astar = Pedestrian"
  by (simp_all add: hop_astar_def)

lemma hop_edge_sel [simp]:
  "de_endnode (hop_edge g) = g" "\<not> de_leaves_tile (hop_edge g)" "\<not> de_is_shortcut (hop_edge g)" "de_length (hop_edge g) = 100"
  "de_localedgeidx (hop_edge g) = 0" "de_opp_local_idx (hop_edge g) = 0" "de_end_restriction (hop_edge g) = 0"
  "endnode (hop_edge g) = GraphId (ucast g)"
  by (simp_all add: hop_edge_def endnode_def)

lemma hop_tile_sel [simp]:
  "rt_nodes hop_tile = [pair_node 0, pair_node 1]" "rt_edges hop_tile = [hop_edge 33554432, hop_edge 0]"
  "rt_access_restrictions hop_tile = []"
  by (simp_all add: hop_tile_def)

lemma hop_costing [simp]:
  "ct_dyn pair_costing = demo_dynamic" "ct_AllowedNode pair_costing = (\<lambda>_. True)"
  "ct_Allowed pair_costing = (\<lambda>_ _ _ _ _ _ _ _ _. (True, kInvalidRestriction, 0))"
  "ct_EdgeCost pair_costing = (\<lambda>_ _ _. Inr (\<lparr>cost = 10, secs = 10\<rparr>, 0))"
  "ct_TransitionCost pair_costing = (\<lambda>_ _ _ _. Inr \<lparr>cost = 10, secs = 10\<rparr>)"
  by (simp_all add: pair_costing_def)

lemma hop_lookups [simp]:
  "gid_id (GraphId 0) = 0" "gid_id (GraphId 33554432) = 1"
  "GetGraphTile [0 \<mapsto> hop_tile] (GraphId 0) = Some hop_tile" "GetGraphTile [0 \<mapsto> hop_tile] (GraphId 33554432) = Some hop_tile"
  "tile_edge hop_tile (GraphId 0) = Inr (hop_edge 33554432)" "tile_edge hop_tile (GraphId 33554432) = Inr (hop_edge 0)"
  "tile_node hop_tile (GraphId 0) = Inr (pair_node 0)" "tile_node hop_tile (GraphId 33554432) = Inr (pair_node 1)"
  by (simp_all add: GetGraphTile_def tile_value_def is_valid_def kInvalidGraphId_def tile_edge_def tile_node_def gid_id_def)

lemma hop_allowed [simp]: "\<not> AvoidAsOriginEdge demo_dynamic g p" "\<not> AvoidAsDestinationEdge demo_dynamic g p"
    "GetExemptedAccessRestrictions demo_dynamic (hop_edge e) hop_tile g = Inr 0"
  by (simp_all add: AvoidAsOriginEdge_def AvoidAsDestinationEdge_def new_dynamic_cost_def no_options_def
      GetExemptedAccessRestrictions_def GetAccessRestrictions_def)

text \<open>The distance from a node to the destination does not matter: its square root is 0.\<close>

definition hop_ll :: "rat \<times> rat" where "hop_ll = latlng (0, 0) (pair_node 0)"

lemma hop_distance [simp]:
  "get_node_ll hop_astar hop_tile (GraphId 0) = Inr hop_ll" "get_node_ll hop_astar hop_tile (GraphId 33554432) = Inr hop_ll"
  "distance_left hop_astar h dest ll = 0"
  by (simp_all add: get_node_ll_def latlng_def hop_ll_def pair_node_def distance_left_def ah_GetDistance_def split: option.splits)

section \<open>States\<close>

definition hop_queue :: "u32 list \<Rightarrow> bucket_queue" where
  "hop_queue is = \<lparr>bq_range = 12704, bq_size = 214749, bq_inv = 5119985 / 1099511627776, bq_mincost = 0, bq_maxcost = 12704,
     bq_cost = 0, bq_buckets = [is], bq_current = 0, bq_overflow = []\<rparr>"

definition hop_state :: "bd_label list \<Rightarrow> u32 list \<Rightarrow> edge_status \<Rightarrow> int \<times> rat \<Rightarrow> u32 \<Rightarrow> astar" where
  "hop_state ls is st best n = no_astar\<lparr>as_labels := ls, as_queue := hop_queue is, as_status := st,
     as_destinations := [(GraphId 33554432, hop_end)], as_limits := replicate 3 hop_limit,
     as_heuristic := \<lparr>ah_center = (0, 0), ah_m_per_lng = 110567, ah_costfactor = 0\<rparr>, as_best := best, as_no_convergence := n\<rparr>"

lemma hop_state_sel [simp]:
  "as_labels (hop_state ls is st best n) = ls" "as_queue (hop_state ls is st best n) = hop_queue is"
  "as_status (hop_state ls is st best n) = st" "as_best (hop_state ls is st best n) = best"
  "as_no_convergence (hop_state ls is st best n) = n" "as_mindist (hop_state ls is st best n) = 0"
  "as_limits (hop_state ls is st best n) = replicate 3 hop_limit" "\<not> as_has_ferry (hop_state ls is st best n)"
  "as_destinations (hop_state ls is st best n) = [(GraphId 33554432, hop_end)]"
  by (simp_all add: hop_state_def no_astar_def)

lemma hop_state_update [simp]:
  "(hop_state ls is st best n)\<lparr>as_labels := ls', as_queue := hop_queue is', as_status := st'\<rparr> = hop_state ls' is' st' best n"
  "(hop_state ls is st best n)\<lparr>as_labels := ls', as_queue := hop_queue is'\<rparr> = hop_state ls' is' st best n"
  "(hop_state ls is st best n)\<lparr>as_queue := hop_queue is'\<rparr> = hop_state ls is' st best n"
  "(hop_state ls is st best n)\<lparr>as_status := st'\<rparr> = hop_state ls is st' best n"
  "(hop_state ls is st best n)\<lparr>as_best := best'\<rparr> = hop_state ls is st best' n"
  "(hop_state ls is st best n)\<lparr>as_no_convergence := n'\<rparr> = hop_state ls is st best n'"
  by (simp_all add: hop_state_def no_astar_def)

lemma hop_sortcost [simp]: "astar_sortcost (as_heuristic (hop_state ls is st best n)) c 0 = f32 (cost c)"
  by (simp add: astar_sortcost_def ah_Get_def)

lemma hop_add [simp]:
  "sc i \<in> {10, 25, 30} \<Longrightarrow> bq_add sc i (hop_queue is) = Inr (hop_queue (is @ [i]))"
  by (auto simp: bq_add_def bq_get_bucket_def bucket_index_def hop_queue_def Let_def float_eval bq_push_def set_content_def
      content_of_def c_trunc_def)

section \<open>The start\<close>

lemma origin_label_more [simp]:
  "lab_sortcost (origin_label az y c sc d pd m isd) = sc" "lab_cost (origin_label az y c sc d pd m isd) = c"
  "lab_path_distance (origin_label az y c sc d pd m isd) = ucast pd"
  "az_forward az \<Longrightarrow> ao_opp y = None \<Longrightarrow> lab_endnode (origin_label az y c sc d pd m isd) = de_endnode (ao_edge y)
    \<and> lab_opp_local_idx (origin_label az y c sc d pd m isd) = de_opp_local_idx (ao_edge y)"
  by (auto simp: origin_label_def Let_def update_bd_label_def new_bd_label_dist_def new_label_def sif_label.defs
      bd_label.defs split: option.splits)

definition hop_origin :: astar_origin where
  "hop_origin = \<lparr>ao_id = GraphId 0, ao_edge = hop_edge 33554432, ao_opp = None, ao_endpoint = hop_ll, ao_cost = \<lparr>cost = 10, secs = 10\<rparr>,
     ao_flow = 0, ao_tile = hop_tile\<rparr>"

definition hop_first :: bd_label where
  "hop_first = origin_label hop_astar hop_origin \<lparr>cost = 10, secs = 10\<rparr> 10 0 100 0 False"

lemma hop_init:
  "as_Init hop_astar (0, 0) (0, 0) no_astar = Inr ((hop_state [] [] Map.empty (- 1, 0) 0)\<lparr>as_destinations := []\<rparr>)"
  by (simp add: as_Init_def Let_def float_eval ah_init_def ah_GetDistance_def ah_Get_def bq_reuse_def kBucketCount_def
      LngScalePerLat_def raw_queue_def resize_buckets_def es_clear_def to_u32_def c_trunc_def kMetersPerDegreeLat_def
      no_astar_def hop_state_def hop_queue_def)

lemma hop_destination:
  "SetDestination hop_astar [hop_end] ((hop_state [] [] Map.empty (- 1, 0) 0)\<lparr>as_destinations := []\<rparr>)
    = Inr (hop_state [] [] Map.empty (- 1, 0) 0)"
  by (simp add: SetDestination_def set_astar_destination_def Let_def hop_end_def pair_start_def gid_of_value_def hop_state_def
      no_astar_def)

lemma hop_started:
  "SetOrigin hop_astar [pair_start] (hop_state [] [] Map.empty (- 1, 0) 0) = Inr (hop_state [hop_first] [0] Map.empty (- 1, 0) 0)"
  by (simp add: SetOrigin_def set_astar_origin_def pair_start_def gid_of_value_def origin_end_def add_origin_def Let_def float_eval
      share_to_def astar_push_def cost_scale_def sort_cost_def destinations_at_def hop_first_def hop_origin_def to_u32_def c_trunc_def)

lemma hop_started_at: "GetBestPath_start hop_astar hop_from hop_to no_astar = Inr (hop_state [hop_first] [0] Map.empty (- 1, 0) 0)"
proof -
  have "ModifyHierarchyLimits hop_astar 0 (hop_state [hop_first] [0] Map.empty (- 1, 0) 0)
      = Inr (hop_state [hop_first] [0] Map.empty (- 1, 0) 0)"
    by (simp add: ModifyHierarchyLimits_def Let_def array_at_def hop_limit_def hop_state_def no_astar_def numeral_3_eq_3
        list_update_append1)
  moreover have "(hop_state ls is st best n)\<lparr>as_best := best, as_mindist := 0, as_no_convergence := n\<rparr> = hop_state ls is st best n"
    for ls "is" st best n by (simp add: hop_state_def no_astar_def)
  ultimately show ?thesis
    by (simp add: GetBestPath_start_def hop_from_def hop_to_def hop_init hop_destination hop_started ah_GetDistance_def)
qed

lemma hop_pop: "is \<noteq> [] \<Longrightarrow> bq_pop sc (hop_queue is) = Inr (last is, hop_queue (butlast is))"
  by (simp add: bq_pop_def bq_empty.simps hop_queue_def take_back_def Let_def)

lemma hop_first_sel [simp]:
  "lab_sortcost hop_first = 10" "lab_cost hop_first = \<lparr>cost = 10, secs = 10\<rparr>" "lab_path_distance hop_first = 100"
  "label_endnode hop_first = GraphId 33554432" "lab_opp_local_idx hop_first = 0" "lab_origin hop_first" "\<not> lab_destination hop_first"
  "lab_predecessor hop_first = kInvalidLabel" "bl_distance hop_first = 0" "label_edgeid hop_first = GraphId 0"
  by (simp_all add: hop_first_def hop_origin_def label_endnode_def)

section \<open>The first round\<close>

definition hop_next :: astar_edge where
  "hop_next = \<lparr>ae_tile = hop_tile, ae_node = pair_node 1, ae_time = invalid_time, ae_id = GraphId 33554432, ae_edge = hop_edge 0,
     ae_endtile = hop_tile, ae_opp = None, ae_edge_cost = \<lparr>cost = 10, secs = 10\<rparr>, ae_flow = 0,
     ae_transition = \<lparr>cost = 10, secs = 10\<rparr>, ae_endpoint = hop_ll, ae_status = (0, 1)\<rparr>"

abbreviation hop_back :: bd_label where "hop_back \<equiv> hop_first\<lparr>lab_deadend := True\<rparr>"

definition hop_second :: bd_label where
  "hop_second = astar_label hop_astar hop_back 0 None hop_next \<lparr>cost = 30, secs = 30\<rparr> 30 0 200 kInvalidRestriction 0 False"

definition hop_third :: bd_label where
  "hop_third = astar_label hop_astar hop_back 0 None hop_next \<lparr>cost = 25, secs = 25\<rparr> 25 0 150 kInvalidRestriction 0 True"

definition hop_status :: edge_status where
  "hop_status = [0 \<mapsto> [default_info, make_info Temporary 1]]"

lemma hop_next_sel [simp]: "ae_opp hop_next = None" "ae_edge hop_next = hop_edge 0" "ae_endpoint hop_next = hop_ll"
    "ae_edge_cost hop_next = \<lparr>cost = 10, secs = 10\<rparr>" "ae_transition hop_next = \<lparr>cost = 10, secs = 10\<rparr>"
    "ae_status hop_next = (0, 1)" "ae_tile hop_next = hop_tile" "ae_id hop_next = GraphId 33554432" "ae_time hop_next = invalid_time"
  by (simp_all add: hop_next_def)

lemma hop_offset: "astar_offset hop_astar p n = Inr invalid_time"
  by (simp add: astar_offset_def time_forward_def invalid_time_def)

lemma hop_key: "status_key (GraphId 33554432) 0 = 0" "gid_make 0 0 1 = Inr (GraphId 33554432)" "tileid (GraphId 33554432) = 0"
    "level (GraphId 33554432) = 0"
  by (simp_all add: status_key_def tile_value_def shift_path_id_def gid_make_def kMaxGraphTileId_def kMaxGraphHierarchy_def
      kMaxGraphId_def tileid_def level_def)

lemma hop_look: "look_ahead hop_astar hop_back None hop_tile (pair_node 1) invalid_time (GraphId 33554432) (hop_edge 0) (0, Suc 0) = Inr (Some hop_next)"
  by (simp add: look_ahead_def astar_costs_def hop_next_def)

lemma hop_unrestricted: "astar_checks hop_astar d hop_back hop_next s = Inr (Some (kInvalidRestriction, 0), s)"
  by (simp add: astar_checks_def astar_allowed_def astar_restricted_def Restricted_def Let_def)

lemma astar_label_sort [simp]: "lab_sortcost (astar_label az pred i op x c sc d pd r m isd) = sc"
  by (simp add: astar_label_def Let_def update_bd_label_def new_bd_label_dist_def new_label_def sif_label.defs bd_label.defs)

definition hop_unknown :: edge_status where
  "hop_unknown = [0 \<mapsto> [default_info, default_info]]"

lemma hop_add_second:
  "astar_add hop_astar hop_back 0 None hop_next None (hop_state [hop_first] [] hop_unknown (- 1, 0) 1)
    = Inr (True, hop_state [hop_first, hop_second] [1] hop_status (- 1, 0) 1)"
  by (simp add: astar_add_def hop_unrestricted cost_to_def share_to_def cost_add_def cost_scale_def Let_def float_eval length_to_def
      to_u32_def c_trunc_def astar_push_def sort_cost_def note_best_def es_store_def put_element_def hop_unknown_def hop_status_def
      hop_second_def)

lemma hop_end_sel [simp]: "pe_percent_along hop_end = 1 / 2" "pe_distance hop_end = 0"
  by (simp_all add: hop_end_def pair_start_def)

lemma hop_add_third:
  "astar_add hop_astar hop_back 0 None hop_next (Some hop_end) (hop_state [hop_first, hop_second] [1] hop_status (- 1, 0) 1)
    = Inr (True, hop_state [hop_first, hop_second, hop_third] [1, 2] hop_status (2, 25) 1)"
  by (simp add: astar_add_def hop_unrestricted cost_to_def share_to_def cost_add_def cost_scale_def Let_def float_eval length_to_def
      to_u32_def c_trunc_def astar_push_def sort_cost_def note_best_def hop_third_def)

lemma hop_inner:
  "astar_ExpandInner hop_astar hop_back 0 None hop_tile (pair_node 1) invalid_time (GraphId 33554432, hop_edge 0, (0, Suc 0))
      (hop_state [hop_first] [] hop_unknown (- 1, 0) 1)
    = Inr (True, hop_state [hop_first, hop_second, hop_third] [1, 2] hop_status (2, 25) 1)"
proof -
  have "es_deref (0, Suc 0) hop_unknown = Inr default_info" "status_set default_info = Inr Unreached_or_reset"
    by (simp_all add: es_deref_def get_element_def hop_unknown_def status_set_def default_info_def)
  then show ?thesis
    by (simp add: astar_ExpandInner_def hop_look hop_add_second hop_add_third destinations_at_def)
qed

lemma hop_expand:
  "astar_Expand hop_astar (GraphId 33554432) hop_first 0 None (hop_state [hop_first] [] Map.empty (- 1, 0) 1)
    = Inr (True, hop_state [hop_first, hop_second, hop_third] [1, 2] hop_status (2, 25) 1)"
  using hop_inner
  by (simp add: astar_Expand_def hop_offset first_meta_def hop_key es_GetPtr_def Let_def array_at_def hop_unknown_def)

lemma hop_round:
  "astar_step hop_astar (hop_state [hop_first] [0] Map.empty (- 1, 0) 0)
    = Inr (Goes_on, hop_state [hop_first, hop_second, hop_third] [1, 2] hop_status (2, 25) 1)"
  by (simp add: astar_step_def hop_pop label_at_def settle_label_def converge_def kInvalidLabel_def kMaxIterationsWithoutConvergence_def
      expand_next_def StopExpanding_def hop_limit_def kUnlimitedTransitions_def array_at_def hop_key hop_expand)

lemma hop_found:
  "astar_step hop_astar (hop_state [hop_first, hop_second, hop_third] [1, 2] hop_status (2, 25) 1)
    = Inr (Found 2, hop_state [hop_first, hop_second, hop_third] [1] hop_status (2, 25) 1)"
  by (simp add: astar_step_def hop_pop label_at_def kInvalidLabel_def) (simp add: hop_third_def)

lemma trace_back_more: "j \<noteq> kInvalidLabel \<Longrightarrow> unat j < length ls \<Longrightarrow> trace_back (Suc k) ls j =
    map_option (\<lambda>r. bind_result r (\<lambda>js. Inr (j # js))) (trace_back k ls (lab_predecessor (ls ! unat j)))"
  by (simp add: label_at_def)

lemma hop_trace: "trace_back (Suc (Suc (Suc (Suc 0)))) [hop_first, hop_second, hop_third] 2 = Some (Inr [2, 0])"
proof -
  have third: "lab_predecessor hop_third = 0" by (simp add: hop_third_def)
  have "trace_back (Suc (Suc 0)) [hop_first, hop_second, hop_third] kInvalidLabel = Some (Inr [])" by simp
  then have "trace_back (Suc (Suc (Suc 0))) [hop_first, hop_second, hop_third] 0 = Some (Inr [0])"
    by (subst trace_back_more) (simp_all add: kInvalidLabel_def)
  then show ?thesis by (subst trace_back_more) (simp_all add: kInvalidLabel_def third)
qed

lemma hop_loop: "astar_loop 2 hop_astar (hop_state [hop_first] [0] Map.empty (- 1, 0) 0)
    = Inr (Found 2, hop_state [hop_first, hop_second, hop_third] [1] hop_status (2, 25) 1)"
  by (simp add: numeral_2_eq_2 hop_round hop_found)

definition hop_result :: astar where
  "hop_result = (hop_state [hop_first, hop_second, hop_third] [1] hop_status (2, 25) 1)\<lparr>as_has_ferry :=
     list_ex (\<lambda>l. unat (lab_use l) = kFerry) [hop_third, hop_first]\<rparr>"

lemma hop_path: "FormPath hop_astar 2 (hop_state [hop_first, hop_second, hop_third] [1] hop_status (2, 25) 1)
    = Some (Inr ([forward_info hop_first, forward_info hop_third], hop_result))"
  by (simp add: FormPath_def hop_result_def hop_trace Let_def del: trace_back.simps)

lemma hop_route:
  "GetBestPath 2 hop_astar hop_from hop_to no_astar = Some (Inr ([[forward_info hop_first, forward_info hop_third]], hop_result))"
  by (simp add: GetBestPath_def hop_started_at hop_loop hop_path)

section \<open>Properties\<close>

text \<open>
  C4: Whatever the search returns is no route or one whose labels form a chain: from the destination
  back, each label was made from the next one as an offer along an edge that leaves its end,
  allowed, not restricted for the path behind it and at the cost of the code, and the last one
  lies on an edge of the location the search started from. Nothing is assumed of graph, costing,
  restrictions or heuristic but that tiles have no more edges than an identifier can number, and
  that the labels fit the 28 bits of an index in the status.
\<close>

theorem route_is_chain:
  assumes "small_tiles az" and "empty_search s" and "length (as_labels s') \<le> 2 ^ 28"
    and "GetBestPath fuel az origin destination s = Some (Inr (routes, s'))"
  shows "routes = [] \<or> (\<exists>D js. routes = [travelled az (as_labels s') js] \<and> distinct js
    \<and> destinations_from (lo_edges (end_of az origin destination)) D
    \<and> route_chain az D (lo_edges (start_of az origin destination)) (as_labels s') js
    \<and> lab_destination (as_labels s' ! unat (hd js)))"
  using found_route [OF assms] by blast

text \<open>
  C10: In both directions a route that is returned is in the order of travel: it has edges, the first
  is one of the edges of the origin and the last one of those of the destination.
\<close>

theorem route_joins_locations:
  assumes "small_tiles az" and "empty_search s" and "length (as_labels s') \<le> 2 ^ 28"
    and "GetBestPath fuel az origin destination s = Some (Inr (routes, s'))"
    and "\<And>pe. pe \<in> set (lo_edges origin) \<union> set (lo_edges destination) \<Longrightarrow> unat (pe_graph_id pe) < 2 ^ 46"
  shows "routes = [] \<or> (\<exists>path. routes = [path] \<and> path \<noteq> []
    \<and> (\<exists>pe\<in>set (lo_edges origin). pi_edgeid (hd path) = GraphId (pe_graph_id pe))
    \<and> (\<exists>pe\<in>set (lo_edges destination). pi_edgeid (last path) = GraphId (pe_graph_id pe)))"
proof (cases "routes = []")
  case False
  then obtain D js where js: "routes = [travelled az (as_labels s') js]" "js \<noteq> []"
    and D: "destinations_from (lo_edges (end_of az origin destination)) D"
    and chain: "route_chain az D (lo_edges (start_of az origin destination)) (as_labels s') js"
    and dest: "lab_destination (as_labels s' ! unat (hd js))"
    using found_route [OF assms(1-4)] by blast
  let ?path = "travelled az (as_labels s') js"
  have ne: "?path \<noteq> []" using js(2) by (metis Nil_is_map_conv rev.simps(1) rev_rev_ident travelled_edges)
  then have ends: "pi_edgeid (hd ?path) = hd (map pi_edgeid ?path)" "pi_edgeid (last ?path) = last (map pi_edgeid ?path)"
    by (simp_all add: hd_map last_map)
  obtain g d where "(g, d) \<in> set D" and g: "if az_forward az then label_edgeid (as_labels s' ! unat (hd js)) = GraphId (take_bit 46 (gid_value g))
      else label_opp_edgeid (as_labels s' ! unat (hd js)) = GraphId (take_bit 63 (gid_value g))"
    using chain_end [OF chain dest] by blast
  then have d: "d \<in> set (lo_edges (end_of az origin destination))" "g = GraphId (pe_graph_id d)"
    using D by (auto simp: destinations_from_def)
  obtain pe where pe: "pe \<in> set (lo_edges (start_of az origin destination))"
    "if az_forward az then label_edgeid (as_labels s' ! unat (last js)) = GraphId (take_bit 46 (pe_graph_id pe))
      else label_opp_edgeid (as_labels s' ! unat (last js)) = GraphId (take_bit 63 (pe_graph_id pe))"
    using chain_start [OF chain] by (auto simp: origin_made_def)
  have small: "unat (pe_graph_id pe) < 2 ^ 46" "unat (pe_graph_id d) < 2 ^ 46"
    using assms(5) d(1) pe(1) by (auto simp: start_of_def end_of_def split: if_splits)
  show ?thesis
    using js ne ends g d pe short_ids [OF small(1)] short_ids [OF small(2)]
    by (cases "az_forward az") (auto simp: travelled_edges start_of_def end_of_def hd_map last_map hd_rev last_rev)
qed simp

text \<open>
  C5: The search for a route ends, whatever the graph, the costs, the queue and the resets of
  statuses by complex restrictions do: with \<open>edge_total az ks\<close> edges in the tiles \<open>ks\<close> of the graph
  its loop makes fewer than 1800002 rounds for every pair of an edge and a tile and two more, and
  forming the path ends as well, unless more than \<open>2 ^ 28\<close> labels were made.
\<close>

theorem route_search_ends:
  assumes "small_tiles az" and "empty_search s" and "\<And>k t. az_reader az k = Some t \<Longrightarrow> k \<in> set ks"
    and "1800002 * (edge_total az ks * length ks + 2) \<le> fuel"
  shows "(\<exists>r. GetBestPath fuel az origin destination s = Some r)
    \<or> (\<exists>s0 j s'. GetBestPath_start az origin destination s = Inr s0 \<and> astar_loop fuel az s0 = Inr (Found j, s')
         \<and> 2 ^ 28 < length (as_labels s'))"
proof (cases "bind_result (GetBestPath_start az origin destination s) (astar_loop fuel az)")
  case (Inr r)
  then obtain s0 outcome s1 where s0: "GetBestPath_start az origin destination s = Inr s0"
    and s1: "astar_loop fuel az s0 = Inr (outcome, s1)" by (cases r) (auto simp: bind_result_eq_Inr)
  have ends: "outcome \<noteq> Goes_on" by (rule run_ends [OF assms(1,2) _ assms(4) s0 s1]) (rule assms(3))
  show ?thesis
  proof (cases outcome)
    case (Found j)
    show ?thesis
    proof (cases "length (as_labels s1) \<le> 2 ^ 28")
      case True
      then have "\<exists>r. FormPath az j s1 = Some r" using form_path_returns [OF assms(1,2) s0 s1 [unfolded Found]] by simp
      then show ?thesis by (auto simp: GetBestPath_def s0 s1 Found)
    qed (use s0 s1 Found in auto)
  qed (use ends in \<open>simp_all add: GetBestPath_def s0 s1\<close>)
qed (simp add: GetBestPath_def)

section \<open>Witnesses\<close>

lemma hop_result_labels: "as_labels hop_result = [hop_first, hop_second, hop_third]"
  by (simp add: hop_result_def)

lemma hop_ok: "small_tiles hop_astar" "empty_search no_astar"
  by (auto simp: small_tiles_def empty_search_def no_astar_def raw_queue_def labels_def split: if_splits)

theorem route_is_chain_witness:
  "\<exists>D js. [[forward_info hop_first, forward_info hop_third]] = [travelled hop_astar [hop_first, hop_second, hop_third] js]
    \<and> route_chain hop_astar D [pair_start] [hop_first, hop_second, hop_third] js"
  using route_is_chain [OF hop_ok _ hop_route] by (auto simp: hop_result_labels start_of_def hop_from_def)

theorem route_joins_locations_witness:
  "pi_edgeid (forward_info hop_first) = GraphId 0 \<and> pi_edgeid (forward_info hop_third) = GraphId 33554432"
proof -
  have "unat (pe_graph_id pe) < 2 ^ 46" if "pe \<in> set (lo_edges hop_from) \<union> set (lo_edges hop_to)" for pe
    using that by (auto simp: hop_from_def hop_to_def hop_end_def pair_start_def)
  from route_joins_locations [OF hop_ok _ hop_route this] show ?thesis
    by (simp add: hop_result_labels hop_from_def hop_to_def hop_end_def pair_start_def)
qed

lemma hop_loop_more: "astar_loop (Suc (Suc n)) hop_astar (hop_state [hop_first] [0] Map.empty (- 1, 0) 0)
    = Inr (Found 2, hop_state [hop_first, hop_second, hop_third] [1] hop_status (2, 25) 1)"
  by (simp add: hop_round hop_found)

theorem route_search_ends_witness: "\<exists>r. GetBestPath 7200008 hop_astar hop_from hop_to no_astar = Some r"
proof -
  have loop: "astar_loop 7200008 hop_astar (hop_state [hop_first] [0] Map.empty (- 1, 0) 0)
      = Inr (Found 2, hop_state [hop_first, hop_second, hop_third] [1] hop_status (2, 25) 1)"
    using hop_loop_more [of 7200006] by (simp del: astar_loop.simps)
  have tiles: "\<And>k t. az_reader hop_astar k = Some t \<Longrightarrow> k \<in> set [0]" by (simp split: if_splits)
  have "edge_total hop_astar [0] = 2" by (simp add: edge_total_def tile_edges_def)
  then have "1800002 * (edge_total hop_astar [0] * length [0 :: u32] + 2) \<le> 7200008" by simp
  from route_search_ends [where origin = hop_from and destination = hop_to, OF hop_ok tiles this] show ?thesis
  proof
    assume "\<exists>s0 j s'. GetBestPath_start hop_astar hop_from hop_to no_astar = Inr s0
      \<and> astar_loop 7200008 hop_astar s0 = Inr (Found j, s') \<and> 2 ^ 28 < length (as_labels s')"
    then have "2 ^ 28 < length [hop_first, hop_second, hop_third]"
      by (auto simp only: hop_started_at loop sum.inject prod.inject hop_state_sel)
    then show ?thesis by simp
  qed
qed

end
