(* ===== verification/Tile_Speeds.thy ===== *)
theory Tile_Speeds
  imports Graph_Tile Edge_Label Time_Info
begin

text \<open>
  The speed of an edge: live traffic (\<^verbatim>\<open>valhalla/baldr/traffictile.h\<close>), predicted speeds kept as
  coefficients of a cosine transform (\<^verbatim>\<open>predictedspeeds.h/.cc\<close>), and \<^verbatim>\<open>GraphTile::GetSpeed\<close> and
  \<^verbatim>\<open>IsClosed\<close> (\<^verbatim>\<open>graphtile.h\<close>), which blend them with the speeds of the edge. \<^verbatim>\<open>cosf\<close> of the C
  library is a parameter. The traffic is what the shared memory held at the read; that another
  process may change it between two reads of one call is not modelled.

  The lemmas show which speed is used when, that blending stays within the speeds it blends,
  and that a call never reads outside the arrays of the tile.
\<close>

section \<open>Live traffic\<close>

record traffic_speed =
  overall_encoded_speed :: "7 word"
  encoded_speed1 :: "7 word"
  encoded_speed2 :: "7 word"
  encoded_speed3 :: "7 word"
  breakpoint1 :: u8
  breakpoint2 :: u8
  congestion1 :: "6 word"
  congestion2 :: "6 word"
  congestion3 :: "6 word"
  has_incidents :: bool
  ts_spare :: bool

definition UNKNOWN_TRAFFIC_SPEED_RAW :: "7 word" where "UNKNOWN_TRAFFIC_SPEED_RAW = 127"
definition UNKNOWN_TRAFFIC_SPEED_KPH :: u8 where "UNKNOWN_TRAFFIC_SPEED_KPH = 254"
definition MAX_CONGESTION_VAL :: "6 word" where "MAX_CONGESTION_VAL = 63"
definition TRAFFIC_TILE_VERSION :: u32 where "TRAFFIC_TILE_VERSION = 3"

definition no_traffic_speed :: traffic_speed where
  "no_traffic_speed = \<lparr>overall_encoded_speed = 0, encoded_speed1 = 0, encoded_speed2 = 0, encoded_speed3 = 0,
     breakpoint1 = 0, breakpoint2 = 0, congestion1 = 0, congestion2 = 0, congestion3 = 0, has_incidents = False,
     ts_spare = False\<rparr>"

definition make_traffic_speed :: "u32 \<Rightarrow> u32 \<Rightarrow> u32 \<Rightarrow> u32 \<Rightarrow> u32 \<Rightarrow> u32 \<Rightarrow> u32 \<Rightarrow> u32 \<Rightarrow> u32 \<Rightarrow> bool \<Rightarrow> traffic_speed" where
  "make_traffic_speed s s1 s2 s3 b1 b2 c1 c2 c3 incidents =
     \<lparr>overall_encoded_speed = ucast s, encoded_speed1 = ucast s1, encoded_speed2 = ucast s2, encoded_speed3 = ucast s3,
      breakpoint1 = ucast b1, breakpoint2 = ucast b2, congestion1 = ucast c1, congestion2 = ucast c2,
      congestion3 = ucast c3, has_incidents = incidents, ts_spare = False\<rparr>"

definition INVALID_SPEED :: traffic_speed where
  "INVALID_SPEED = make_traffic_speed 127 127 127 127 0 0 0 0 0 False"

definition speed_valid :: "traffic_speed \<Rightarrow> bool" where
  "speed_valid s \<longleftrightarrow> breakpoint1 s \<noteq> 0 \<and> overall_encoded_speed s \<noteq> UNKNOWN_TRAFFIC_SPEED_RAW"

definition traffic_closed :: "traffic_speed \<Rightarrow> bool" where
  "traffic_closed s \<longleftrightarrow> breakpoint1 s \<noteq> 0 \<and> overall_encoded_speed s = 0"

definition subsegment_closed :: "nat \<Rightarrow> traffic_speed \<Rightarrow> bool result" where
  "subsegment_closed k s =
     (if \<not> speed_valid s then Inr False
      else if k = 0 then Inr (encoded_speed1 s = 0 \<or> congestion1 s = MAX_CONGESTION_VAL)
      else if k = 1 then Inr (breakpoint1 s < 255 \<and> (encoded_speed2 s = 0 \<or> congestion2 s = MAX_CONGESTION_VAL))
      else if k = 2 then Inr (breakpoint2 s < 255 \<and> (encoded_speed3 s = 0 \<or> congestion3 s = MAX_CONGESTION_VAL))
      else Inl (Logic_error ''Bad subsegment''))"

definition get_overall_speed :: "traffic_speed \<Rightarrow> u8" where
  "get_overall_speed s = push_bit 1 (ucast (overall_encoded_speed s))"

definition subsegment_speed :: "nat \<Rightarrow> traffic_speed \<Rightarrow> u8 result" where
  "subsegment_speed k s =
     (if \<not> speed_valid s then Inr UNKNOWN_TRAFFIC_SPEED_KPH
      else if k = 0 then Inr (push_bit 1 (ucast (encoded_speed1 s)))
      else if k = 1 then Inr (push_bit 1 (ucast (encoded_speed2 s)))
      else if k = 2 then Inr (push_bit 1 (ucast (encoded_speed3 s)))
      else Inl (Logic_error ''Bad subsegment''))"

text \<open>The header of a traffic tile and its entries; a tile without traffic has none.\<close>

record traffic_tile =
  directed_edge_count :: u32
  traffic_tile_version :: u32
  traffic_speeds :: "traffic_speed list"

definition trafficspeed :: "traffic_tile option \<Rightarrow> u32 \<Rightarrow> traffic_speed result" where
  "trafficspeed tt offset =
     (case tt of None \<Rightarrow> Inr INVALID_SPEED
      | Some t \<Rightarrow>
          if traffic_tile_version t \<noteq> TRAFFIC_TILE_VERSION then Inr INVALID_SPEED
          else if directed_edge_count t \<le> offset
          then Inl (Runtime_error ''TrafficSpeed requested for edgeid beyond bounds of tile'')
          else array_at (traffic_speeds t) (unat offset))"

section \<open>Predicted speeds\<close>

definition kBucketsPerWeek :: nat where "kBucketsPerWeek = 2016"
definition kCoefficientCount :: nat where "kCoefficientCount = 200"
definition kSpeedBucketSizeSeconds :: nat where "kSpeedBucketSizeSeconds = 300"
definition k1OverSqrt2 :: rat where "k1OverSqrt2 = f32 (707106781 / 10 ^ 9)"
definition kPiBucketConstant :: rat where "kPiBucketConstant = fdiv (f32 (314159265 / 10 ^ 8)) 2016"
definition kSpeedNormalization :: rat where "kSpeedNormalization = f32 (31497039 / 10 ^ 9)"

text \<open>One entry of the cosine table, and the row of a bucket.\<close>

definition cos_entry :: "(rat \<Rightarrow> rat) \<Rightarrow> nat \<Rightarrow> nat \<Rightarrow> rat" where
  "cos_entry cosf bucket c =
     f32 (cosf (fmul (fmul kPiBucketConstant (fadd (of_nat bucket) (1 / 2))) (of_nat c)))"

definition cos_row :: "(rat \<Rightarrow> rat) \<Rightarrow> nat \<Rightarrow> rat list result" where
  "cos_row cosf bucket =
     (if bucket < kBucketsPerWeek then Inr (map (cos_entry cosf bucket) [0..<kCoefficientCount]) else Inl Undefined)"

type_synonym i16 = "16 word"

definition i16_rat :: "i16 \<Rightarrow> rat" where
  "i16_rat x = of_int (sint x)"

text \<open>\<^verbatim>\<open>roundf\<close> of a \<^verbatim>\<open>float\<close> cast to \<^verbatim>\<open>int16_t\<close>.\<close>

definition to_i16 :: "rat \<Rightarrow> i16 result" where
  "to_i16 x = (let i = c_round x in if - (2 ^ 15) \<le> i \<and> i < 2 ^ 15 then Inr (word_of_int i) else Inl Undefined)"

fun results :: "('a \<Rightarrow> 'b result) \<Rightarrow> 'a list \<Rightarrow> 'b list result" where
  "results f [] = Inr []"
| "results f (x # xs) = bind_result (f x) (\<lambda>y. bind_result (results f xs) (\<lambda>ys. Inr (y # ys)))"

definition accumulate_bucket :: "(rat \<Rightarrow> rat) \<Rightarrow> rat list \<Rightarrow> nat \<Rightarrow> rat list \<Rightarrow> rat list" where
  "accumulate_bucket cosf speeds bucket coefficients =
     map2 (\<lambda>x c. fadd x (fmul (cos_entry cosf bucket c) (speeds ! bucket))) coefficients [0..<kCoefficientCount]"

definition compress_speed_buckets :: "(rat \<Rightarrow> rat) \<Rightarrow> rat list \<Rightarrow> i16 list result" where
  "compress_speed_buckets cosf speeds =
     (if length speeds < kBucketsPerWeek then Inl Undefined
      else let cs = fold (accumulate_bucket cosf speeds) [0..<kBucketsPerWeek] (replicate kCoefficientCount 0)
           in results (\<lambda>x. to_i16 (fmul kSpeedNormalization x)) (cs[0 := fmul (cs ! 0) k1OverSqrt2]))"

definition decompress_speed_bucket :: "(rat \<Rightarrow> rat) \<Rightarrow> i16 list \<Rightarrow> nat \<Rightarrow> rat result" where
  "decompress_speed_bucket cosf coefficients bucket =
     (if length coefficients < kCoefficientCount then Inl Undefined
      else bind_result (cos_row cosf bucket) (\<lambda>b.
        Inr (fmul (foldl (\<lambda>speed (c, x). fadd speed (fmul (i16_rat c) x))
                (fmul (i16_rat (coefficients ! 0)) k1OverSqrt2)
                (zip (drop 1 (take kCoefficientCount coefficients)) (drop 1 b))) kSpeedNormalization)))"

record predicted_speeds =
  ps_offset :: "u32 list"
  ps_profiles :: "i16 list"

definition predicted_speed :: "(rat \<Rightarrow> rat) \<Rightarrow> predicted_speeds \<Rightarrow> nat \<Rightarrow> nat \<Rightarrow> rat result" where
  "predicted_speed cosf p idx seconds =
     bind_result (array_at (ps_offset p) idx) (\<lambda>offset.
       decompress_speed_bucket cosf (drop (unat offset) (ps_profiles p)) (seconds div kSpeedBucketSizeSeconds))"

section \<open>The speed of an edge\<close>

definition kFreeFlowMask :: u8 where "kFreeFlowMask = 1"
definition kConstrainedFlowMask :: u8 where "kConstrainedFlowMask = 2"
definition kPredictedFlowMask :: u8 where "kPredictedFlowMask = 4"
definition kCurrentFlow :: u8 where "kCurrentFlow = 8"
definition kMinValidSpeedKph :: u32 where "kMinValidSpeedKph = 1"

definition valid_speed :: "u32 \<Rightarrow> bool" where
  "valid_speed speed \<longleftrightarrow> kMinValidSpeedKph \<le> speed"

text \<open>How much live traffic counts: less the further in the future the edge is reached.\<close>

definition live_traffic_multiplier :: "u64 \<Rightarrow> rat" where
  "live_traffic_multiplier from_now = f32 (f64 (1 - min (f64 (f64 (of_nat (unat from_now)) * f64 (1 / 3600))) 1))"

definition live_coverage :: "traffic_speed \<Rightarrow> rat" where
  "live_coverage s =
     (if breakpoint1 s = 255 then 1
      else f32 (f64 (of_int ((if encoded_speed1 s \<noteq> UNKNOWN_TRAFFIC_SPEED_RAW then uint (breakpoint1 s) else 0)
        + (if encoded_speed2 s \<noteq> UNKNOWN_TRAFFIC_SPEED_RAW then uint (breakpoint2 s) - uint (breakpoint1 s) else 0)
        + (if encoded_speed3 s \<noteq> UNKNOWN_TRAFFIC_SPEED_RAW then 255 - uint (breakpoint2 s) else 0)) / 255)))"

record tile_speeds =
  sp_traffic :: "traffic_tile option"
  sp_predicted :: predicted_speeds
  sp_cosf :: "rat \<Rightarrow> rat"

text \<open>The live part: speed, share of the edge, and the source flags.\<close>

definition live_part :: "tile_speeds \<Rightarrow> nat \<Rightarrow> u8 \<Rightarrow> u64 \<Rightarrow> (nat \<times> rat \<times> u8) result" where
  "live_part ts idx fm from_now =
     (if fm AND kCurrentFlow \<noteq> 0 \<and> sp_traffic ts \<noteq> None \<and> live_traffic_multiplier from_now \<noteq> 0
      then bind_result (trafficspeed (sp_traffic ts) (word_of_nat idx)) (\<lambda>s.
        let live = unat (get_overall_speed s)
        in if speed_valid s \<and> 0 < live
           then Inr (live, fmul (live_coverage s) (live_traffic_multiplier from_now), kCurrentFlow)
           else Inr (0, 0, 0))
      else Inr (0, 0, 0))"

definition blend :: "nat \<Rightarrow> rat \<Rightarrow> rat \<Rightarrow> u32 result" where
  "blend live pct speed = to_u32 (fadd (fmul (of_nat live) pct) (fmul (fsub 1 pct) speed))"

definition is_daytime :: "u64 \<Rightarrow> bool" where
  "is_daytime seconds \<longleftrightarrow> (let s = unat seconds mod 86400 in 25200 < s \<and> s < 68400)"

definition GetSpeed :: "tile_speeds \<Rightarrow> nat \<Rightarrow> directed_edge \<Rightarrow> u8 \<Rightarrow> u64 \<Rightarrow> bool \<Rightarrow> u64 \<Rightarrow> (u32 \<times> u8) result" where
  "GetSpeed ts idx e fm seconds is_truck from_now =
     bind_result (live_part ts idx fm from_now) (\<lambda>(live, pct, src).
       if pct = 1 then Inr (word_of_nat live, src)
       else let invalid_time = (seconds = kInvalidSecondsOfWeek)
       in if \<not> invalid_time \<and> fm AND kPredictedFlowMask \<noteq> 0 \<and> de_has_predicted_speed e
          then let week = unat seconds mod 604800
               in bind_result (predicted_speed (sp_cosf ts) (sp_predicted ts) idx week) (\<lambda>speed.
                  bind_result (blend live pct (fadd (max speed (1 / 2)) (1 / 2))) (\<lambda>v.
                    Inr (v, src OR kPredictedFlowMask)))
          else if (invalid_time \<or> is_daytime seconds) \<and> fm AND kConstrainedFlowMask \<noteq> 0
               \<and> valid_speed (ucast (de_constrained_flow_speed e))
             then bind_result (blend live pct (of_nat (unat (de_constrained_flow_speed e)))) (\<lambda>v.
               Inr (v, src OR kConstrainedFlowMask))
             else if (invalid_time \<or> \<not> is_daytime seconds) \<and> fm AND kFreeFlowMask \<noteq> 0
               \<and> valid_speed (ucast (de_free_flow_speed e))
             then bind_result (blend live pct (of_nat (unat (de_free_flow_speed e)))) (\<lambda>v.
               Inr (v, src OR kFreeFlowMask))
             else bind_result (blend live pct (of_nat (unat (de_speed e)))) (\<lambda>v.
               Inr (if is_truck \<and> 0 < de_truck_speed e then min (ucast (de_truck_speed e)) v else v, src)))"

definition TileIsClosed :: "tile_speeds \<Rightarrow> nat \<Rightarrow> bool result" where
  "TileIsClosed ts idx = bind_result (trafficspeed (sp_traffic ts) (word_of_nat idx)) (\<lambda>s. Inr (traffic_closed s))"

section \<open>Blending\<close>

lemma f32_within: "\<bar>x\<bar> < 2 ^ 10 \<Longrightarrow> f32 x \<le> x + 1 / 2 ^ 15"
proof -
  assume "\<bar>x\<bar> < 2 ^ 10"
  then have "\<bar>f32 x - x\<bar> \<le> 1 / 2 ^ 15" using f32_error [of x 10] by (simp add: power_int_minus)
  then show ?thesis by (simp only: abs_le_iff) linarith
qed

text \<open>A blend of speeds up to 255 is at most 255: what rounding adds is cut off.\<close>

lemma blend_bounds:
  assumes live: "live \<le> 255" and pct: "0 \<le> pct" "pct \<le> 1" and speed: "0 \<le> speed" "speed \<le> 255"
  shows "\<exists>v. blend live pct speed = Inr v \<and> v \<le> 255"
proof -
  let ?a = "fmul (of_nat live) pct" and ?q = "fsub 1 pct" let ?b = "fmul ?q speed"
  have l: "(of_nat live :: rat) \<le> 255" using live by (simp add: of_nat_le_iff [of live 255, where ?'a = rat, simplified])
  have ap: "0 \<le> of_nat live * pct" "of_nat live * pct \<le> 255 * pct" "of_nat live * pct \<le> 255"
    using l pct mult_mono [OF l pct(2)] by (simp_all add: mult_right_mono)
  have q: "0 \<le> ?q" "?q \<le> 1 - pct + 1 / 2 ^ 15" "?q \<le> 1"
    using pct f32_within [of "1 - pct"] by (auto intro: float32.nonneg float32.le_1)
  have bp: "0 \<le> ?q * speed" "?q * speed \<le> 255" using q speed mult_mono [of ?q 1 speed 255] by simp_all
  have "?q * speed \<le> (1 - pct + 1 / 2 ^ 15) * 255" using q(1,2) speed by (intro mult_mono) simp_all
  moreover have a: "0 \<le> ?a" "?a \<le> of_nat live * pct + 1 / 2 ^ 15"
    using ap(1,3) f32_within [of "of_nat live * pct"] by (simp_all add: float32.nonneg)
  moreover have b: "0 \<le> ?b" "?b \<le> ?q * speed + 1 / 2 ^ 15"
    using bp f32_within [of "?q * speed"] by (simp_all add: float32.nonneg)
  ultimately have sum: "?a + ?b \<le> 255 + 1 / 2" "0 \<le> ?a + ?b" using ap by simp_all
  then have "fadd ?a ?b < 256" "0 \<le> fadd ?a ?b" using f32_within [of "?a + ?b"] by (auto intro: float32.nonneg)
  then have "0 \<le> c_trunc (fadd ?a ?b)" "c_trunc (fadd ?a ?b) \<le> 255" by (simp_all add: c_trunc_def floor_le_iff)
  then show ?thesis by (auto simp: blend_def to_u32_def Let_def word_le_def word_of_int_inverse uint_word_of_int)
qed

lemma blend_none: "n \<le> 255 \<Longrightarrow> blend 0 0 (of_nat n) = Inr (word_of_nat n)"
proof -
  assume n: "n \<le> 255"
  have "f32 (of_nat n) = of_nat n" by (rule float32.exact_nat) (use n in simp)
  moreover have "c_trunc (of_nat n :: rat) = int n" using c_trunc_of_int [of "int n"] by simp
  ultimately show ?thesis using n by (simp add: blend_def to_u32_def)
qed

lemma live_traffic_multiplier_bounds: "0 \<le> live_traffic_multiplier t" "live_traffic_multiplier t \<le> 1"
proof -
  let ?x = "f64 (f64 (of_nat (unat t)) * f64 (1 / 3600))"
  have "0 \<le> ?x" by (intro float64.nonneg mult_nonneg_nonneg of_nat_0_le_iff) simp_all
  then show "0 \<le> live_traffic_multiplier t" "live_traffic_multiplier t \<le> 1"
    unfolding live_traffic_multiplier_def
    by (auto intro!: float32.nonneg float64.nonneg float32.le_1 float64.le_1)
qed

lemma live_coverage_bounds:
  assumes "breakpoint1 s \<le> breakpoint2 s"
  shows "0 \<le> live_coverage s" "live_coverage s \<le> 1"
proof -
  have b: "uint (breakpoint1 s) \<le> uint (breakpoint2 s)" "uint (breakpoint2 s) \<le> 255"
    using assms uint_bounded [of "breakpoint2 s"] by (simp_all add: word_le_def)
  have z: "0 \<le> uint (breakpoint1 s)" "0 \<le> uint (breakpoint2 s)" by (rule uint_nonnegative)+
  define i where "i = ((if encoded_speed1 s \<noteq> UNKNOWN_TRAFFIC_SPEED_RAW then uint (breakpoint1 s) else 0)
    + (if encoded_speed2 s \<noteq> UNKNOWN_TRAFFIC_SPEED_RAW then uint (breakpoint2 s) - uint (breakpoint1 s) else 0)
    + (if encoded_speed3 s \<noteq> UNKNOWN_TRAFFIC_SPEED_RAW then 255 - uint (breakpoint2 s) else 0))"
  obtain x y where xy: "uint (breakpoint1 s) = x" "uint (breakpoint2 s) = y" by blast
  have "0 \<le> i" "i \<le> 255" using b z unfolding i_def xy by (auto split: if_splits)
  then have "0 \<le> of_int i / (255 :: rat)" "of_int i / (255 :: rat) \<le> 1" by simp_all
  then have "0 \<le> f32 (f64 (of_int i / 255))" "f32 (f64 (of_int i / 255)) \<le> 1"
    by - (intro float32.nonneg float64.nonneg float32.le_1 float64.le_1; assumption)+
  then show "0 \<le> live_coverage s" "live_coverage s \<le> 1" by (simp_all add: live_coverage_def i_def)
qed

text \<open>The traffic belongs to a tile with \<open>n\<close> edges, with its breakpoints in order.\<close>

definition traffic_ok :: "nat \<Rightarrow> traffic_tile option \<Rightarrow> bool" where
  "traffic_ok n tt \<longleftrightarrow> (\<forall>t. tt = Some t \<and> traffic_tile_version t = TRAFFIC_TILE_VERSION \<longrightarrow>
     unat (directed_edge_count t) = n \<and> length (traffic_speeds t) = n
     \<and> (\<forall>s\<in>set (traffic_speeds t). breakpoint1 s \<le> breakpoint2 s))"

lemma trafficspeed_ok:
  assumes "traffic_ok n tt" and "idx < n" and "n < 2 ^ 32"
  shows "\<exists>s. trafficspeed tt (word_of_nat idx) = Inr s \<and> breakpoint1 s \<le> breakpoint2 s"
proof (cases "tt = None \<or> traffic_tile_version (the tt) \<noteq> TRAFFIC_TILE_VERSION")
  case True
  then show ?thesis by (auto simp: trafficspeed_def INVALID_SPEED_def make_traffic_speed_def split: option.splits)
next
  case False
  then obtain t where t: "tt = Some t" "traffic_tile_version t = TRAFFIC_TILE_VERSION" by auto
  have w: "unat (word_of_nat idx :: u32) = idx" using assms(2,3) by (simp add: unsigned_of_nat take_bit_nat_eq_self)
  show ?thesis
    using assms(1,2) t by (auto simp: trafficspeed_def traffic_ok_def array_at_def word_le_nat_alt w not_le)
qed

lemma get_overall_speed_bound: "unat (get_overall_speed s) \<le> 255"
  using unsigned_less [of "get_overall_speed s", where ?'a = nat] by simp

lemma live_part_ok:
  assumes "traffic_ok n (sp_traffic ts)" and "idx < n" and "n < 2 ^ 32"
  shows "\<exists>live pct src. live_part ts idx fm from_now = Inr (live, pct, src) \<and> live \<le> 255 \<and> 0 \<le> pct \<and> pct \<le> 1"
proof -
  obtain s where s: "trafficspeed (sp_traffic ts) (word_of_nat idx) = Inr s" "breakpoint1 s \<le> breakpoint2 s"
    using trafficspeed_ok [OF assms] by blast
  note c = live_coverage_bounds [OF s(2)] and m = live_traffic_multiplier_bounds [of from_now]
  have "0 \<le> fmul (live_coverage s) (live_traffic_multiplier from_now)" using c m by (intro fmul_nonneg)
  moreover have "fmul (live_coverage s) (live_traffic_multiplier from_now) \<le> 1"
    using c m by (intro f32_le_1) (simp add: mult_le_one)
  ultimately show ?thesis using get_overall_speed_bound [of s] by (simp add: live_part_def s(1) Let_def)
qed

section \<open>How far a prediction can reach\<close>

lemma f32_abs:
  assumes "\<bar>x\<bar> \<le> of_int b" "0 \<le> b" "b \<le> 2 ^ 24" shows "\<bar>f32 x\<bar> \<le> of_int b"
proof -
  have e: "f32 (of_int b) = of_int b" "f32 (of_int (- b)) = of_int (- b)"
    by (rule float32.exact_int; use assms(2,3) in simp)+
  have "f32 x \<le> f32 (of_int b)" "f32 (of_int (- b)) \<le> f32 x"
    using assms(1) by (intro float32.mono; simp add: abs_le_iff)+
  then show ?thesis unfolding e by (simp add: abs_le_iff)
qed

lemma i16_rat_abs: "\<bar>i16_rat c\<bar> \<le> 32768"
proof -
  have "- 32768 \<le> sint c" "sint c < 32768" using sint_greater_eq [of c] sint_less [of c] by simp_all
  then have "\<bar>sint c\<bar> \<le> 32768" by simp
  then have "of_int \<bar>sint c\<bar> \<le> (of_int 32768 :: rat)" by (simp only: of_int_le_iff)
  then show ?thesis by (simp add: i16_rat_def)
qed

text \<open>A coefficient times a number of size at most one.\<close>

lemma term_abs:
  assumes "\<bar>x\<bar> \<le> 1" shows "\<bar>fmul (i16_rat c) x\<bar> \<le> 32768"
proof -
  have "\<bar>i16_rat c * x\<bar> \<le> 32768 * 1" unfolding abs_mult using assms i16_rat_abs [of c] by (intro mult_mono) simp_all
  then show ?thesis using f32_abs [of "i16_rat c * x" 32768] by simp
qed

lemma cos_entry_abs:
  assumes "\<And>x. \<bar>cosf x\<bar> \<le> 1" shows "\<bar>cos_entry cosf b c\<bar> \<le> 1"
  using f32_abs [of "cosf y" 1 for y] assms by (simp add: cos_entry_def)

lemma sum_abs:
  assumes "\<bar>acc\<bar> \<le> of_int (32768 * int k)" "list_all (\<lambda>(c, x). \<bar>x\<bar> \<le> 1) ts" "k + length ts \<le> 200"
  shows "\<bar>foldl (\<lambda>s (c, x). fadd s (fmul (i16_rat c) x)) acc ts\<bar> \<le> of_int (32768 * int (k + length ts))"
  using assms
proof (induction ts arbitrary: acc k)
  case (Cons t ts)
  obtain c x where t: "t = (c, x)" by force
  have "\<bar>acc + fmul (i16_rat c) x\<bar> \<le> \<bar>acc\<bar> + \<bar>fmul (i16_rat c) x\<bar>" by (rule abs_triangle_ineq)
  also have "\<dots> \<le> of_int (32768 * int (Suc k))"
    using Cons.prems(1) term_abs [of x c] Cons.prems(2) by (simp add: t)
  finally have "\<bar>fadd acc (fmul (i16_rat c) x)\<bar> \<le> of_int (32768 * int (Suc k))"
    using Cons.prems(3) by (intro f32_abs) simp_all
  from Cons.IH [OF this] show ?case using Cons.prems by (simp add: t)
qed simp

text \<open>What \<open>GetSpeed\<close> relies on: the profile of the edge lies within the array.\<close>

definition profile_ok :: "predicted_speeds \<Rightarrow> nat \<Rightarrow> bool" where
  "profile_ok p idx \<longleftrightarrow> idx < length (ps_offset p) \<and> unat (ps_offset p ! idx) + 200 \<le> length (ps_profiles p)"

lemma predicted_speed_bound:
  assumes p: "profile_ok p idx" and cosf: "\<And>x. \<bar>cosf x\<bar> \<le> 1" and week: "week < 604800"
  shows "\<exists>v. predicted_speed cosf p idx week = Inr v \<and> v \<le> 206420"
proof -
  define cs where "cs = drop (unat (ps_offset p ! idx)) (ps_profiles p)"
  define row where "row = map (cos_entry cosf (week div 300)) [0..<200]"
  have "unat (ps_offset p ! idx) + 200 \<le> length (ps_profiles p)" using p by (simp add: profile_ok_def)
  then have len: "200 \<le> length cs" unfolding cs_def length_drop by linarith
  have bucket: "week div 300 < 2016" using week by (simp add: div_less_iff_less_mult)
  let ?ts = "zip (drop 1 (take 200 cs)) (drop 1 row)"
  let ?start = "fmul (i16_rat (cs ! 0)) k1OverSqrt2"
  let ?sum = "foldl (\<lambda>s (c, x). fadd s (fmul (i16_rat c) x)) ?start ?ts"
  have root: "0 \<le> k1OverSqrt2" "k1OverSqrt2 \<le> 1" by (simp_all add: k1OverSqrt2_def float_eval)
  have norm: "0 \<le> kSpeedNormalization" "kSpeedNormalization \<le> 314971 / 10 ^ 7"
    by (simp_all add: kSpeedNormalization_def float_eval)
  have "\<bar>?start\<bar> \<le> of_int (32768 * int 1)" using term_abs [of k1OverSqrt2 "cs ! 0"] root by simp
  moreover have "list_all (\<lambda>(c, x). \<bar>x\<bar> \<le> 1) ?ts"
    using cos_entry_abs [OF cosf] by (auto simp: list_all_iff row_def dest!: set_zip_rightD in_set_dropD)
  moreover have "1 + length ?ts \<le> 200" by (simp add: row_def)
  ultimately have "\<bar>?sum\<bar> \<le> of_int (32768 * int (1 + length ?ts))" by (rule sum_abs)
  then have sum: "\<bar>?sum\<bar> \<le> 6553600" using len by (simp add: row_def)
  have "?sum * kSpeedNormalization \<le> 6553600 * (314971 / 10 ^ 7)"
    using sum norm by (intro mult_mono) simp_all
  then have "?sum * kSpeedNormalization \<le> 206420" by simp
  moreover have "f32 206420 = 206420" using float32.exact_int [of 206420] by simp
  ultimately have "fmul ?sum kSpeedNormalization \<le> 206420" using float32.mono [of "?sum * kSpeedNormalization" 206420] by simp
  moreover have "predicted_speed cosf p idx week = Inr (fmul ?sum kSpeedNormalization)"
    using p len bucket
    by (simp add: predicted_speed_def decompress_speed_bucket_def profile_ok_def array_at_def cos_row_def kBucketsPerWeek_def
        kCoefficientCount_def kSpeedBucketSizeSeconds_def cs_def row_def)
  ultimately show ?thesis by blast
qed

text \<open>A blend with a speed that may be large.\<close>

lemma blend_large:
  assumes live: "live \<le> 255" and pct: "0 \<le> pct" "pct \<le> 1" and speed: "0 \<le> speed" "speed \<le> of_int m"
    and m: "0 \<le> m" "m \<le> 2 ^ 23"
  shows "\<exists>v. blend live pct speed = Inr v \<and> uint v \<le> m + 255"
proof -
  let ?a = "fmul (of_nat live) pct" and ?q = "fsub 1 pct" let ?b = "fmul ?q speed"
  have l: "(of_nat live :: rat) \<le> 255" using live by (simp add: of_nat_le_iff [of live 255, where ?'a = rat, simplified])
  have q: "0 \<le> ?q" "?q \<le> 1" using pct by (auto intro: float32.nonneg float32.le_1)
  have "of_nat live * pct \<le> 255 * 1" using l pct by (intro mult_mono) simp_all
  then have a: "0 \<le> ?a" "?a \<le> 255"
    using f32_abs [of "of_nat live * pct" 255] pct by (auto intro: float32.nonneg simp: abs_le_iff)
  have "?q * speed \<le> 1 * of_int m" using q speed by (intro mult_mono) simp_all
  then have b: "0 \<le> ?b" "?b \<le> of_int m"
    using f32_abs [of "?q * speed" m] q speed m by (auto intro: float32.nonneg simp: abs_le_iff)
  have s: "\<bar>?a + ?b\<bar> \<le> of_int (m + 255)" using a b by simp
  have "\<bar>fadd ?a ?b\<bar> \<le> of_int (m + 255)" by (rule f32_abs [OF s]) (use m in simp_all)
  moreover have "0 \<le> fadd ?a ?b" using a b by (auto intro: float32.nonneg)
  ultimately have t: "0 \<le> c_trunc (fadd ?a ?b)" "c_trunc (fadd ?a ?b) \<le> m + 255"
    by (simp_all add: c_trunc_def floor_le_iff)
  then show ?thesis
    using m by (auto simp: blend_def to_u32_def Let_def uint_word_of_int)
qed

lemma predicted_blend:
  assumes live: "live \<le> 255" and pct: "0 \<le> pct" "pct \<le> 1" and p: "p \<le> 206420"
  shows "\<exists>v. blend live pct (fadd (max p (1 / 2)) (1 / 2)) = Inr v \<and> v \<le> 206676 \<and> (p \<le> 254 \<longrightarrow> v \<le> 255)"
proof -
  let ?s = "fadd (max p (1 / 2)) (1 / 2)"
  have s: "0 \<le> ?s" by (auto intro!: float32.nonneg)
  have e: "f32 206421 = 206421" "f32 255 = 255" using float32.exact_int [of 206421] float32.exact_int [of 255] by simp_all
  have "?s \<le> of_int 206421" using p float32.mono [of "max p (1 / 2) + 1 / 2" 206421] e(1) by simp
  then obtain v where v: "blend live pct ?s = Inr v" "uint v \<le> 206676" using blend_large [OF live pct s, of 206421] by auto
  have "v \<le> 255" if "p \<le> 254"
  proof -
    have "?s \<le> 255" using that float32.mono [of "max p (1 / 2) + 1 / 2" 255] e(2) by simp
    then show ?thesis using blend_bounds [OF live pct s] v(1) by auto
  qed
  then show ?thesis using v by (auto simp: word_le_def)
qed

section \<open>Properties\<close>

text \<open>
  C18: On live traffic that belongs to the tile, with the breakpoints of its segments in order, and for edges
  whose predicted speed has a complete profile in the tile, \<^verbatim>\<open>GetSpeed\<close> is always defined: for every mask,
  time and share of live traffic, roundings included, it reads inside the arrays and converts no number
  that is out of range. Without a prediction the speed is at most 255 km/h; with one it is, too,
  unless the coefficients of the profile decode to more than 254 km/h, which nothing prevents: then it
  is at most 206676. The cosine is any function with values between -1 and 1.
\<close>

theorem GetSpeed_bounds:
  assumes "traffic_ok n (sp_traffic ts)" and "idx < n" and "n < 2 ^ 32"
    and profile: "de_has_predicted_speed e \<Longrightarrow> profile_ok (sp_predicted ts) idx" and cosf: "\<And>x. \<bar>sp_cosf ts x\<bar> \<le> 1"
  shows "\<exists>v src. GetSpeed ts idx e fm seconds is_truck from_now = Inr (v, src) \<and> v \<le> 206676
    \<and> (v \<le> 255 \<or> de_has_predicted_speed e \<and> fm AND kPredictedFlowMask \<noteq> 0 \<and> seconds \<noteq> kInvalidSecondsOfWeek
        \<and> (\<exists>p. predicted_speed (sp_cosf ts) (sp_predicted ts) idx (unat seconds mod 604800) = Inr p \<and> 254 < p))"
proof -
  obtain live pct src where l: "live_part ts idx fm from_now = Inr (live, pct, src)" "live \<le> 255" "0 \<le> pct" "pct \<le> 1"
    using live_part_ok [OF assms(1-3)] by blast
  have b8: "\<exists>v. blend live pct (of_nat (unat w)) = Inr v \<and> v \<le> 255" for w :: u8
  proof (rule blend_bounds [OF l(2-4)])
    have "unat w \<le> 255" using unsigned_less [of w, where ?'a = nat] by simp
    then have "(of_nat (unat w) :: rat) \<le> of_nat 255" by (simp only: of_nat_le_iff)
    then show "(of_nat (unat w) :: rat) \<le> 255" by simp
  qed (rule of_nat_0_le_iff)
  obtain vc vf vs where w: "blend live pct (of_nat (unat (de_constrained_flow_speed e))) = Inr vc" "vc \<le> 255"
    "blend live pct (of_nat (unat (de_free_flow_speed e))) = Inr vf" "vf \<le> 255"
    "blend live pct (of_nat (unat (de_speed e))) = Inr vs" "vs \<le> 255"
    using b8 [of "de_constrained_flow_speed e"] b8 [of "de_free_flow_speed e"] b8 [of "de_speed e"] by blast
  have lv: "(word_of_nat live :: u32) \<le> 255" using l(2) by (simp add: word_le_nat_alt unsigned_of_nat take_bit_nat_eq_self)
  have cap: "min a vs \<le> 255" for a using w(6) by (simp add: min.coboundedI2)
  have big: "v \<le> 255 \<Longrightarrow> v \<le> 206676" for v :: u32 by (simp add: word_le_def)
  show ?thesis
  proof (cases "pct \<noteq> 1 \<and> seconds \<noteq> kInvalidSecondsOfWeek \<and> fm AND kPredictedFlowMask \<noteq> 0 \<and> de_has_predicted_speed e")
    case True
    then obtain p where p: "predicted_speed (sp_cosf ts) (sp_predicted ts) idx (unat seconds mod 604800) = Inr p" "p \<le> 206420"
      using predicted_speed_bound [OF profile, of "sp_cosf ts" "unat seconds mod 604800"] cosf by auto
    obtain v where v: "blend live pct (fadd (max p (1 / 2)) (1 / 2)) = Inr v" "v \<le> 206676" "p \<le> 254 \<longrightarrow> v \<le> 255"
      using predicted_blend [OF l(2-4) p(2)] by blast
    then show ?thesis using True p by (auto simp: GetSpeed_def l(1) Let_def not_le)
  next
    case False
    then show ?thesis using w lv cap big by (auto simp: GetSpeed_def l(1) Let_def)
  qed
qed

text \<open>
  Which speed counts without live traffic and predictions: the constrained one between 7 and 19
  o'clock and without a time, else the free flow speed, each if the mask asks for it and
  the edge has it, and otherwise the speed of the edge, which alone is capped by its truck speed. The
  source flags name the one that was taken.
\<close>

lemma GetSpeed_without_traffic:
  assumes "sp_traffic ts = None" and "\<not> de_has_predicted_speed e"
  shows "GetSpeed ts idx e fm seconds is_truck from_now =
    Inr (if (seconds = kInvalidSecondsOfWeek \<or> is_daytime seconds) \<and> fm AND kConstrainedFlowMask \<noteq> 0
           \<and> 0 < de_constrained_flow_speed e
         then (ucast (de_constrained_flow_speed e), kConstrainedFlowMask)
         else if (seconds = kInvalidSecondsOfWeek \<or> \<not> is_daytime seconds) \<and> fm AND kFreeFlowMask \<noteq> 0
           \<and> 0 < de_free_flow_speed e
         then (ucast (de_free_flow_speed e), kFreeFlowMask)
         else if is_truck \<and> 0 < de_truck_speed e then (min (ucast (de_truck_speed e)) (ucast (de_speed e)), 0)
         else (ucast (de_speed e), 0))"
proof -
  have "unat w \<le> 255" for w :: u8 using unsigned_less [of w, where ?'a = nat] by simp
  then have b: "blend 0 0 (unsigned w) = Inr (ucast w)" for w :: u8
    using blend_none [of "unat w"] by simp
  have valid: "valid_speed (ucast w) \<longleftrightarrow> 0 < w" for w :: u8
  proof -
    have "unat (ucast w :: u32) = unat w"
      using unsigned_less [of w, where ?'a = nat] by (simp add: unsigned_ucast_eq take_bit_nat_eq_self)
    then show ?thesis
      by (auto simp: valid_speed_def kMinValidSpeedKph_def word_le_nat_alt word_less_nat_alt simp del: unsigned_ucast_eq)
  qed
  have "live_part ts idx fm from_now = Inr (0, 0, 0)" using assms(1) by (simp add: live_part_def)
  then show ?thesis using assms(2) by (simp add: GetSpeed_def Let_def b valid)
qed

section \<open>Witness\<close>

text \<open>One edge without live traffic on it, a profile of zeros and a constant for the cosine.\<close>

definition still_traffic :: traffic_tile where
  "still_traffic = \<lparr>directed_edge_count = 1, traffic_tile_version = 3, traffic_speeds = [no_traffic_speed]\<rparr>"

definition still_speeds :: tile_speeds where
  "still_speeds = \<lparr>sp_traffic = Some still_traffic,
     sp_predicted = \<lparr>ps_offset = [0], ps_profiles = replicate 200 0\<rparr>, sp_cosf = (\<lambda>x. 1 / 2)\<rparr>"

theorem GetSpeed_bounds_witness:
  "\<exists>v src. GetSpeed still_speeds 0 ((read_directed_edge (replicate 48 0))\<lparr>de_has_predicted_speed := True\<rparr>) 15 0 False 0
     = Inr (v, src) \<and> v \<le> 206676"
proof -
  have "traffic_ok 1 (sp_traffic still_speeds)"
    by (simp add: traffic_ok_def still_speeds_def still_traffic_def no_traffic_speed_def)
  moreover have "profile_ok (sp_predicted still_speeds) 0" by (simp add: profile_ok_def still_speeds_def)
  ultimately show ?thesis
    using GetSpeed_bounds [of 1 still_speeds 0 "(read_directed_edge (replicate 48 0))\<lparr>de_has_predicted_speed := True\<rparr>" 15 0 False 0]
    by (auto simp: still_speeds_def)
qed

end
