(* ===== verification/Motor_Cost.thy ===== *)
theory Motor_Cost
  imports Restrictions Tile_Speeds
begin

text \<open>
  What the costing models for vehicles share: the tables of \<^verbatim>\<open>valhalla/sif/dynamiccost.h\<close>, the type of
  a turn (\<^verbatim>\<open>src/baldr/turn.cc\<close>), the duration of a turn after OSRM
  (\<^verbatim>\<open>valhalla/sif/osrm_car_duration.h\<close>), the penalties for turns back and for speed
  (\<^verbatim>\<open>DynamicCost::AddUturnPenalty\<close>, \<^verbatim>\<open>SpeedPenalty\<close>), and the turn cost that \<^verbatim>\<open>AutoCost\<close>, \<^verbatim>\<open>TruckCost\<close>,
  \<^verbatim>\<open>MotorcycleCost\<close> and \<^verbatim>\<open>MotorScooterCost\<close> each spell out in the same words. \<^verbatim>\<open>exp\<close> of the C library is a
  parameter. Reading past the end of a table is \<open>Undefined\<close>.

  The lemmas bound the tables, the turn costs and what a shaded edge costs.
\<close>

section \<open>Tables\<close>

definition kSpeedFactor :: "nat \<Rightarrow> rat result" where
  "kSpeedFactor s =
     (if s = 0 then Inr kSecPerHour else if s < 253 then Inr (fdiv kMetersPerSecond (of_nat s)) else Inl Undefined)"

definition kDensityFactor :: "4 word \<Rightarrow> rat" where
  "kDensityFactor d = fadd (f32 (85 / 100)) (fmul (of_nat (unat d)) (f32 (25 / 1000)))"

definition kTransDensityFactor :: "rat list" where
  "kTransDensityFactor = [1, 1, 1, 1, 1, f32 (11 / 10), f32 (12 / 10), f32 (13 / 10), f32 (14 / 10), f32 (16 / 10),
     f32 (19 / 10), f32 (22 / 10), 5 / 2, f32 (28 / 10), f32 (31 / 10), 7 / 2]"

definition kHighwayFactor :: "rat list" where
  "kHighwayFactor = [1, 1 / 2, 0, 0, 0, 0, 0, 0]"

definition kSurfaceFactor :: "rat list" where
  "kSurfaceFactor = [0, 0, 0, f32 (1 / 10), f32 (2 / 10), 1 / 2, 1]"

definition kMaxHighwayBiasFactor :: rat where "kMaxHighwayBiasFactor = 8"

definition kRightSideTurnCosts :: "rat list" where
  "kRightSideTurnCosts = [1 / 2, 3 / 4, 1, 3 / 2, 19 / 2, 7 / 2, 5 / 2, 3 / 4]"

definition kLeftSideTurnCosts :: "rat list" where
  "kLeftSideTurnCosts = [1 / 2, 3 / 4, 5 / 2, 7 / 2, 19 / 2, 3 / 2, 1, 3 / 4]"

definition kTCCrossing :: rat where "kTCCrossing = 2"
definition kTCRamp :: rat where "kTCRamp = 3 / 2"
definition kTCRoundabout :: rat where "kTCRoundabout = 1 / 2"
definition kTCUnfavorablePencilPointUturn :: rat where "kTCUnfavorablePencilPointUturn = 15"
definition kTCUnfavorableUturn :: rat where "kTCUnfavorableUturn = 600"

definition kRamp :: nat where "kRamp = 1"
definition kTurnChannel :: nat where "kTurnChannel = 2"
definition kImpassable :: "3 word" where "kImpassable = 7"
definition kMaxAssumedSpeed :: nat where "kMaxAssumedSpeed = 140"

text \<open>The preference for highways and for toll roads, as factors added to that of the edge.\<close>

definition highway_factor_of :: "rat \<Rightarrow> rat" where
  "highway_factor_of use =
     (if 1 / 2 \<le> use then let f = fsub (1 / 2) use in fmul (fmul f f) f
      else let f = fsub 1 (fmul use 2) in fmul kMaxHighwayBiasFactor (fmul f f))"

definition toll_factor_of :: "rat \<Rightarrow> rat \<Rightarrow> rat \<Rightarrow> rat" where
  "toll_factor_of most slope use =
     (if use < 1 / 2 then fsub most (fmul slope use) else fmul (fsub (1 / 2) use) (f32 (3 / 100)))"

section \<open>Turns\<close>

text \<open>\<^verbatim>\<open>Turn::GetType\<close>, with the ranges that fill its table.\<close>

definition turn_type_lut :: "(nat \<times> nat \<times> u32) list" where
  "turn_type_lut = [(0, 10, 0), (11, 44, 1), (45, 135, 2), (136, 159, 3), (160, 200, 4), (201, 224, 5), (225, 315, 6),
     (316, 349, 7), (350, 359, 0)]"

definition kReverseTurn :: u32 where "kReverseTurn = 4"

definition Turn_GetType :: "u32 \<Rightarrow> u32" where
  "Turn_GetType degree =
     (let a = unat degree mod 360
      in foldl (\<lambda>t (lo, hi, ty). if lo \<le> a \<and> a \<le> hi then ty else t) 0 turn_type_lut)"

definition GetTurnDegree :: "u32 \<Rightarrow> u32 \<Rightarrow> u32" where
  "GetTurnDegree from to = ((to - from) + 360) mod 360"

definition CalculateTurnDegree :: "directed_edge \<Rightarrow> nodeinfo \<Rightarrow> u32 \<Rightarrow> u32" where
  "CalculateTurnDegree e n idx_pred_opp =
     GetTurnDegree ((heading n idx_pred_opp + 180) mod 360) (heading n (ucast (de_localedgeidx e)))"

definition kTurnBias :: rat where "kTurnBias = f64 (1075 / 1000)"
definition kTurnBiasInv :: rat where "kTurnBiasInv = f64 (1 / kTurnBias)"

text \<open>One entry of the table of turn durations, all in \<^verbatim>\<open>double\<close>.\<close>

definition turn_duration :: "(rat \<Rightarrow> rat) \<Rightarrow> bool \<Rightarrow> nat \<Rightarrow> rat" where
  "turn_duration expf right angle =
     (let symmetric = (if 180 < angle then int angle - 360 else int angle);
          (b, b') = (if (0 \<le> symmetric) = right then (kTurnBiasInv, kTurnBias) else (kTurnBias, kTurnBiasInv));
          x = f64 (f64 (f64 (f64 (13 * b) * of_int \<bar>symmetric\<bar>) / 180) - f64 (13 / 2 * b'))
      in f64 (15 / 2 / f64 (1 + f64 (expf (- x)))))"

definition OSRMCarTurnDuration :: "(rat \<Rightarrow> rat) \<Rightarrow> directed_edge \<Rightarrow> nodeinfo \<Rightarrow> u32 \<Rightarrow> rat" where
  "OSRMCarTurnDuration expf e n idx_pred_opp =
     (let light = (if ni_traffic_signal n then 2 else 0);
          degree = CalculateTurnDegree e n idx_pred_opp;
          u_turn = (Turn_GetType degree = kReverseTurn)
      in f32 (if 2 < local_edge_count n \<or> u_turn
              then f64 (f64 (light + turn_duration expf (ni_drive_on_right n) (unat degree)) + (if u_turn then 20 else 0))
              else light))"

definition AddUturnPenalty :: "nat \<Rightarrow> nodeinfo \<Rightarrow> directed_edge \<Rightarrow> bool \<Rightarrow> bool \<Rightarrow> bool \<Rightarrow> bool \<Rightarrow> 2 word \<Rightarrow> rat \<Rightarrow> rat" where
  "AddUturnPenalty idx n e has_reverse has_left has_right penalize_internal internal s =
     (if ni_drive_on_right n
      then if has_reverse \<or> penalize_internal \<and> internal = internal_turn_num Left_turn \<and> has_left
           then fadd s kTCUnfavorableUturn
           else if turntype e idx = kSharpLeftTurn \<and> edge_to_right e idx \<and> \<not> edge_to_left e idx \<and> de_named e
             \<and> name_consistency e idx
           then fmul s kTCUnfavorablePencilPointUturn else s
      else if has_reverse \<or> penalize_internal \<and> internal = internal_turn_num Right_turn \<and> has_right
           then fadd s kTCUnfavorableUturn
           else if turntype e idx = kSharpRightTurn \<and> \<not> edge_to_right e idx \<and> edge_to_left e idx \<and> de_named e
             \<and> name_consistency e idx
           then fmul s kTCUnfavorablePencilPointUturn else s)"

text \<open>The turn cost before and after the factors for impact and density.\<close>

definition turn_cost :: "directed_edge \<Rightarrow> nodeinfo \<Rightarrow> nat \<Rightarrow> bool \<Rightarrow> rat" where
  "turn_cost e n idx from_ramp =
     (let t = (if edge_to_right e idx \<and> edge_to_left e idx then kTCCrossing
          else (if ni_drive_on_right n then kRightSideTurnCosts else kLeftSideTurnCosts) ! unat (turntype e idx))
      in if (use_of e = kRamp) \<noteq> from_ramp
         then let t' = fadd t kTCRamp in if de_roundabout e then fadd t' kTCRoundabout else t'
         else t)"

definition turn_seconds :: "directed_edge \<Rightarrow> nodeinfo \<Rightarrow> nat \<Rightarrow> bool \<Rightarrow> bool \<Rightarrow> 2 word \<Rightarrow> bool \<Rightarrow> rat" where
  "turn_seconds e n idx from_ramp penalize_internal internal measured =
     (let t = turntype e idx; impact = of_nat (unat (stopimpact e idx));
          has_left = (t = kLeftTurn \<or> t = kSharpLeftTurn); has_right = (t = kRightTurn \<or> t = kSharpRightTurn);
          has_reverse = (t = kReverseTurn); is_turn = (has_left \<or> has_right \<or> has_reverse);
          s0 = turn_cost e n idx from_ramp;
          s1 = (if is_turn then fmul s0 impact else s0);
          s2 = AddUturnPenalty idx n e has_reverse has_left has_right penalize_internal internal s1
      in if measured then s2
         else fmul (if is_turn then s2 else fmul s2 impact) (kTransDensityFactor ! unat (ni_density n)))"

definition add_turn :: "dynamic_cost \<Rightarrow> directed_edge \<Rightarrow> nodeinfo \<Rightarrow> nat \<Rightarrow> bool \<Rightarrow> bool \<Rightarrow> 2 word \<Rightarrow> bool \<Rightarrow> cost \<Rightarrow> cost" where
  "add_turn d e n idx from_ramp penalize_internal internal measured c =
     (if 0 < stopimpact e idx \<and> \<not> shortest d
      then c\<lparr>cost := fadd (cost c) (turn_seconds e n idx from_ramp penalize_internal internal measured)\<rparr> else c)"

definition add_secs :: "rat \<Rightarrow> cost \<Rightarrow> cost" where
  "add_secs s c = c\<lparr>secs := fadd (secs c) s\<rparr>"

section \<open>Speeds\<close>

text \<open>
  The speed an edge is costed with. With a fixed speed \<^verbatim>\<open>GetSpeed\<close> is not called and \<^verbatim>\<open>flow_sources\<close>
  stays what it was, the argument \<open>stale\<close>.
\<close>

definition edge_speed :: "dynamic_cost \<Rightarrow> tile_speeds \<Rightarrow> nat \<Rightarrow> directed_edge \<Rightarrow> time_info \<Rightarrow> bool \<Rightarrow> u8 \<Rightarrow> (nat \<times> u8) result" where
  "edge_speed d ts idx e ti is_truck stale =
     (if dc_fixed_speed d = 0
      then bind_result (GetSpeed ts idx e (dc_flow_mask d) (ucast (second_of_week ti)) is_truck (ucast (seconds_from_now ti)))
        (\<lambda>(v, src). Inr (unat v, src))
      else Inr (dc_fixed_speed d, stale))"

definition SpeedPenalty :: "dynamic_cost \<Rightarrow> tile_speeds \<Rightarrow> nat \<Rightarrow> directed_edge \<Rightarrow> time_info \<Rightarrow> u8 \<Rightarrow> nat \<Rightarrow> rat result" where
  "SpeedPenalty d ts idx e ti src speed =
     bind_result
       (if dc_top_speed d \<noteq> kMaxAssumedSpeed \<and> src AND kCurrentFlow \<noteq> 0
        then bind_result (GetSpeed ts idx e (dc_flow_mask d AND NOT kCurrentFlow) (ucast (second_of_week ti)) False 0)
          (\<lambda>(v, _). Inr (unat v))
        else Inr speed)
       (\<lambda>average. Inr (if f32 (of_nat (dc_top_speed d)) < f32 (of_nat average)
          then fmul (fsub (f32 (of_nat average)) (f32 (of_nat (dc_top_speed d)))) (f32 (5 / 100)) else 0))"

definition edge_closed :: "dynamic_cost \<Rightarrow> tile_speeds \<Rightarrow> nat \<Rightarrow> bool result" where
  "edge_closed d ts idx =
     (if \<not> ignore_closures d \<and> dc_flow_mask d AND kCurrentFlow \<noteq> 0 then TileIsClosed ts idx else Inr False)"

definition edge_length :: "directed_edge \<Rightarrow> rat" where
  "edge_length e = f32 (of_nat (unat (de_length e)))"

text \<open>\<^verbatim>\<open>(1 << idx)\<close> in a mask of edges; an index past 31 would be undefined.\<close>

definition in_mask :: "'a::len word \<Rightarrow> nat \<Rightarrow> bool" where
  "in_mask m idx \<longleftrightarrow> bit m idx"

text \<open>The factor for tracks, living streets and service roads, the same in several models.\<close>

definition road_use_factor :: "dynamic_cost \<Rightarrow> directed_edge \<Rightarrow> rat \<Rightarrow> rat" where
  "road_use_factor d e f =
     (if use_of e = kTrack then fmul f (track_factor d)
      else if use_of e = kLivingStreet then fmul f (living_street_factor d)
      else if use_of e = kServiceRoad then fmul f (dc_service_factor d) else f)"

section \<open>Options and access\<close>

text \<open>
  The four macros that fill a numeric option from a request: plain or for a field without presence,
  for \<^verbatim>\<open>float\<close> or \<^verbatim>\<open>uint32_t\<close> ranges. In every option the key in the request is the name of the field.
\<close>

datatype option_kind = Float_option | Uint_option | Float_v2 | Uint_v2

type_synonym vehicle_option = "option_kind \<times> string \<times> ranged_default"

definition parse_option :: "lexer \<Rightarrow> json \<Rightarrow> vehicle_option \<Rightarrow> costing_options \<Rightarrow> costing_options result" where
  "parse_option lx j = (\<lambda>(kind, n, r) co. case kind of
     Float_option \<Rightarrow> pbf_ranged lx j (n, n, r) co
   | Uint_option \<Rightarrow> pbf_ranged_uint lx j (n, n, r) co
   | Float_v2 \<Rightarrow> pbf_ranged_v2 lx j (n, n, r) co
   | Uint_v2 \<Rightarrow> pbf_ranged_uint_v2 lx j (n, n, r) co)"

definition options_json :: "json \<Rightarrow> string list \<Rightarrow> json" where
  "options_json doc key = (case child_path key doc of None \<Rightarrow> JNull | Some v \<Rightarrow> v)"

text \<open>What the parsers of the vehicles have in common: the base options, the ranged options, the flags.\<close>

definition parse_vehicle :: "lexer \<Rightarrow> base_config \<Rightarrow> vehicle_option list \<Rightarrow> string list \<Rightarrow> string \<Rightarrow> json \<Rightarrow> string list
    \<Rightarrow> costing_options \<Rightarrow> costing_options result" where
  "parse_vehicle lx cfg specs flags name doc key co =
     (let j = options_json doc key
      in bind_result (ParseBaseCostOptions lx cfg j (co\<lparr>costing_name := name\<rparr>)) (\<lambda>co1.
         bind_result (fold_result (parse_option lx j) specs co1) (\<lambda>co2. Inr (parse_flags lx j flags co2))))"

text \<open>The check of an edge for the search of locations, the same in every model of a motor vehicle.\<close>

definition kDisallowClosure :: u16 where "kDisallowClosure = 0x8"

definition vehicle_filter :: "dynamic_cost \<Rightarrow> bool \<Rightarrow> (directed_edge \<Rightarrow> bool) \<Rightarrow> directed_edge \<Rightarrow> u16 \<Rightarrow> bool" where
  "vehicle_filter d filter_closures closed_now e disallow \<longleftrightarrow>
     (let allow_closures = (\<not> filter_closures \<and> disallow AND kDisallowClosure = 0 \<or> dc_flow_mask d AND kCurrentFlowMask = 0)
      in Allowed_edge d e disallow \<and> \<not> de_bss_connection e \<and> (allow_closures \<or> \<not> closed_now e))"

text \<open>Turning back into the edge just left, and the turn restrictions of an edge.\<close>

definition turns_back :: "'a sif_label_scheme \<Rightarrow> directed_edge \<Rightarrow> bool" where
  "turns_back pred e \<longleftrightarrow> \<not> lab_deadend pred \<and> unat (lab_opp_local_idx pred) = unat (de_localedgeidx e)"

text \<open>
  \<^verbatim>\<open>static_cast<float>(restriction.value() * 0.01)\<close>, and the switch on the type of a restriction.
\<close>

definition centi :: "u64 \<Rightarrow> rat" where
  "centi v = f32 (f64 (f64 (of_nat (unat v)) * f64 (1 / 100)))"

definition kHazmat :: "6 word" where "kHazmat = 0"
definition kMaxHeight :: "6 word" where "kMaxHeight = 1"
definition kMaxWidth :: "6 word" where "kMaxWidth = 2"
definition kMaxLength :: "6 word" where "kMaxLength = 3"
definition kMaxWeight :: "6 word" where "kMaxWeight = 4"
definition kMaxAxleLoad :: "6 word" where "kMaxAxleLoad = 5"
definition kMaxAxles :: "6 word" where "kMaxAxles = 9"

section \<open>The options end within their ranges\<close>

abbreviation vehicle_names :: "vehicle_option list \<Rightarrow> string list" where
  "vehicle_names ss \<equiv> map (\<lambda>(k, n, r). n) ss"

lemma parse_option_step:
  assumes "parse_option lx j (k, n, r) co = Inr co'"
  shows "\<exists>v. (sane r \<longrightarrow> fits_range r v) \<and> num co' = (num co)(n \<mapsto> v)" and "transport_type co' = transport_type co"
proof -
  show "transport_type co' = transport_type co"
    using assms by (auto simp: parse_option_def pbf_ranged_def pbf_ranged_v2_def pbf_ranged_uint_def pbf_ranged_uint_v2_def
        bind_result_eq_Inr split: option_kind.splits)
  have uint: "pbf_ranged_uint_v2 lx j (n, n, r) co = Inr co' \<Longrightarrow> \<exists>v. num co' = (num co)(n \<mapsto> ranged r v)"
    by (auto simp: pbf_ranged_uint_v2_def bind_result_eq_Inr)
  show "\<exists>v. (sane r \<longrightarrow> fits_range r v) \<and> num co' = (num co)(n \<mapsto> v)"
    using assms num_pbf [of lx j n n r co co'] num_pbf_uint [of lx j n n r co co'] uint within_ranged [of r]
      within_ranged_float [of r]
    unfolding parse_option_def prod.case by (cases k; simp only: option_kind.case; blast)
qed

lemma parse_options_other:
  "fold_result (parse_option lx j) ss co = Inr co' \<Longrightarrow> n \<notin> set (vehicle_names ss) \<Longrightarrow> num co' n = num co n"
proof (induction ss arbitrary: co)
  case (Cons s ss)
  obtain k m r where s: "s = (k, m, r)" by (cases s)
  obtain co1 where "parse_option lx j s co = Inr co1" "fold_result (parse_option lx j) ss co1 = Inr co'"
    using Cons.prems(1) by (auto simp: bind_result_eq_Inr)
  then show ?case using Cons.IH [of co1] Cons.prems(2) parse_option_step(1) [of lx j k m r co co1] by (auto simp: s)
qed simp

lemma parse_options_within:
  "fold_result (parse_option lx j) ss co = Inr co' \<Longrightarrow> distinct (vehicle_names ss) \<Longrightarrow> (k, n, r) \<in> set ss \<Longrightarrow> sane r
    \<Longrightarrow> holds_range co' n r"
proof (induction ss arbitrary: co)
  case (Cons s ss)
  obtain co1 where c1: "parse_option lx j s co = Inr co1" "fold_result (parse_option lx j) ss co1 = Inr co'"
    using Cons.prems(1) by (auto simp: bind_result_eq_Inr)
  show ?case
  proof (cases "s = (k, n, r)")
    case True
    then have "n \<notin> set (vehicle_names ss)" using Cons.prems(2) by (auto simp: image_iff)
    then have "num co' n = num co1 n" using parse_options_other [OF c1(2)] by blast
    moreover obtain v where "fits_range r v" "num co1 n = Some v"
      using parse_option_step(1) [of lx j k n r co co1] c1(1) Cons.prems(4) by (auto simp: True)
    ultimately show ?thesis by (simp add: holds_range_def)
  next
    case False
    then show ?thesis using Cons.IH [OF c1(2)] Cons.prems by auto
  qed
qed simp

text \<open>The ranges of a parser: its own options and those of its base configuration.\<close>

definition good_specs :: "base_config \<Rightarrow> vehicle_option list \<Rightarrow> bool" where
  "good_specs cfg ss \<longleftrightarrow> distinct (vehicle_names ss) \<and> list_all (\<lambda>(k, n, r). sane r) ss
     \<and> list_all (\<lambda>(k, n, r). sane r \<and> n \<notin> set (vehicle_names ss)) (base_ranges cfg)"

definition all_in_range :: "base_config \<Rightarrow> vehicle_option list \<Rightarrow> costing_options \<Rightarrow> bool" where
  "all_in_range cfg ss co \<longleftrightarrow> list_all (\<lambda>(k, n, r). holds_range co n r) (base_ranges cfg)
     \<and> list_all (\<lambda>(k, n, r). holds_range co n r) ss"

lemma parse_vehicle_within:
  assumes p: "parse_vehicle lx cfg ss fs name doc key co = Inr co'" and g: "good_specs cfg ss"
  shows "all_in_range cfg ss co'"
proof -
  define j where "j = options_json doc key"
  obtain co1 co2 where b: "ParseBaseCostOptions lx cfg j (co\<lparr>costing_name := name\<rparr>) = Inr co1"
    "fold_result (parse_option lx j) ss co1 = Inr co2" "co' = parse_flags lx j fs co2"
    using p by (auto simp: parse_vehicle_def bind_result_eq_Inr j_def Let_def)
  have num: "num co' = num co2" by (simp add: b(3) options_lib)
  have "holds_range co' n r" if m: "(k, n, r) \<in> set (base_ranges cfg)" for k n r
  proof -
    have s: "sane r" "n \<notin> set (vehicle_names ss)"
      using g m unfolding good_specs_def list_all_iff by (blast dest: bspec [of _ _ "(k, n, r)"])+
    show ?thesis
      using ParseBaseCostOptions_within [OF b(1) m s(1)] parse_options_other [OF b(2) s(2)] num
      by (simp add: holds_range_def)
  qed
  moreover have "holds_range co' n r" if m: "(k, n, r) \<in> set ss" for k n r
  proof -
    have "sane r" "distinct (vehicle_names ss)" using g m by (auto simp: good_specs_def list_all_iff)
    then show ?thesis using parse_options_within [OF b(2) _ m] num by (simp add: holds_range_def)
  qed
  ultimately show ?thesis by (auto simp: all_in_range_def list_all_iff)
qed

lemma only_bad_numbers_option: "only_bad_numbers lx j (parse_option lx j s co)"
  by (cases s) (auto simp: parse_option_def only_bad_numbers_steps split: option_kind.splits)

lemma only_bad_numbers_vehicle: "only_bad_numbers lx doc (parse_vehicle lx cfg ss fs name doc key co)"
  unfolding parse_vehicle_def Let_def options_json_def
  by (rule only_bad_numbers_part [of lx key])
    (intro only_bad_numbers_bind only_bad_numbers_Inr only_bad_numbers_fold only_bad_numbers_base only_bad_numbers_option)

text \<open>A configuration that only moves the defaults keeps the ranges of the base options.\<close>

definition standard_ranges :: "base_config \<Rightarrow> bool" where
  "standard_ranges cfg \<longleftrightarrow> list_all (\<lambda>(r, lo, hi). rd_min r = lo \<and> rd_max r = hi \<and> sane r)
     ([(r cfg, 0, kMaxPenalty). r \<leftarrow> [dest_only_penalty, maneuver_penalty, alley_penalty, gate_cost, gate_penalty,
         private_access_penalty, country_crossing_cost, country_crossing_penalty, toll_booth_cost, toll_booth_penalty,
         ferry_cost, rail_ferry_cost, service_penalty]]
      @ [(r cfg, 0, 1). r \<leftarrow> [use_ferry, use_rail_ferry, use_tracks, use_living_streets, use_lit]]
      @ [(service_factor cfg, kMinFactor, kMaxFactor), (closure_factor cfg, 1, 10), (tree_canopy_factor cfg, 0, 2)])"

lemma standard_sane: "standard_ranges cfg \<Longrightarrow> list_all (\<lambda>(k, n, r). sane r) (base_ranges cfg)"
  by (simp add: standard_ranges_def base_ranges_def penalty_ranges_def preference_ranges_def comfort_ranges_def)

section \<open>Bounds of the members\<close>

lemma ferry_factor_of_ge: "0 \<le> use \<Longrightarrow> use \<le> 1 \<Longrightarrow> 1 / 2 \<le> ferry_factor_of use"
proof -
  assume u: "0 \<le> use" "use \<le> 1"
  show ?thesis
  proof (cases "use < 1 / 2")
    case True
    then have "fmul use 18 \<le> 9" by (intro f32_le) (simp_all add: float_eval)
    then have "1 \<le> 10 - fmul use 18" by simp
    then have "1 \<le> fsub 10 (fmul use 18)" by (rule f32_ge [OF small_floats(2)])
    then show ?thesis using True by (simp add: ferry_factor_of_def)
  next
    case False
    have "1 / 2 \<le> 3 / 2 - use" using u by simp
    then show ?thesis using False f32_ge [OF small_floats(1)] by (simp add: ferry_factor_of_def)
  qed
qed

lemma eighth_floats: "f32 (- 1 / 8) = - 1 / 8" "f32 (- 1 / 64) = - 1 / 64" "f32 (- 1 / 2) = - 1 / 2" "f32 (1 / 4) = 1 / 4"
  "f32 (- 9 / 64) = - 9 / 64"
  by (simp_all add: float_eval)

lemma cube_ge:
  assumes "1 / 2 \<le> use" "use \<le> 1"
  shows "- 1 / 8 \<le> (let f = fsub (1 / 2) use in fmul (fmul f f) f)"
proof -
  define f where "f = fsub (1 / 2) use"
  have "- 1 / 2 \<le> f" unfolding f_def by (rule f32_ge [OF eighth_floats(3)]) (use assms in simp)
  moreover have "f \<le> 0" unfolding f_def using f32_le [of 0 "1 / 2 - use"] assms by simp
  ultimately have f: "\<bar>f\<bar> \<le> 1 / 2" "f \<le> 0" by simp_all
  have "f * f \<le> (1 / 2) * (1 / 2)" using mult_mono [of "\<bar>f\<bar>" "1 / 2" "\<bar>f\<bar>" "1 / 2"] f(1) by simp
  then have "fmul f f \<le> 1 / 4" by (intro f32_le eighth_floats) simp
  moreover have "0 \<le> fmul f f" by (intro float32.nonneg) simp
  ultimately have "fmul f f * \<bar>f\<bar> \<le> 1 / 4 * (1 / 2)" using f by (intro mult_mono) simp_all
  then have "- 1 / 8 \<le> fmul f f * f" using f(2) by (simp add: abs_if split: if_splits)
  then have "- 1 / 8 \<le> fmul (fmul f f) f" by (rule f32_ge [OF eighth_floats(1)])
  then show ?thesis by (simp add: f_def Let_def)
qed

lemma highway_factor_ge: "0 \<le> use \<Longrightarrow> use \<le> 1 \<Longrightarrow> - 1 / 8 \<le> highway_factor_of use"
proof (cases "1 / 2 \<le> use")
  case False
  have "0 \<le> fmul kMaxHighwayBiasFactor (fmul (fsub 1 (fmul use 2)) (fsub 1 (fmul use 2)))"
    by (intro fmul_nonneg float32.nonneg) (simp_all add: kMaxHighwayBiasFactor_def)
  then show ?thesis using False by (simp add: highway_factor_of_def Let_def)
qed (use cube_ge in \<open>simp add: highway_factor_of_def\<close>)

lemma toll_factor_ge:
  assumes u: "0 \<le> use" "use \<le> 1" and t: "(most, slope) \<in> {(4, 8), (2, 4)}"
  shows "- 1 / 64 \<le> toll_factor_of most slope use"
proof (cases "use < 1 / 2")
  case True
  have m: "f32 most = most" "0 \<le> slope" "slope / 2 = most" using t by (auto simp: float_eval)
  have "slope * use \<le> slope * (1 / 2)" using True m(2) by (intro mult_left_mono) simp_all
  then have "fmul slope use \<le> most" using m by (intro f32_le) simp_all
  then have "0 \<le> fsub most (fmul slope use)" by (intro float32.nonneg) simp
  then show ?thesis using True by (simp add: toll_factor_of_def)
next
  case False
  have c: "0 \<le> f32 (3 / 100)" "f32 (3 / 100) \<le> 1 / 32" by (simp_all add: float_eval)
  have "- 1 / 2 \<le> fsub (1 / 2) use" by (rule f32_ge [OF eighth_floats(3)]) (use u in simp)
  then have "(- fsub (1 / 2) use) * f32 (3 / 100) \<le> (1 / 2) * (1 / 32)" using c by (intro mult_mono) simp_all
  then have "- 1 / 64 \<le> fsub (1 / 2) use * f32 (3 / 100)" by simp
  then show ?thesis using False f32_ge [OF eighth_floats(2)] by (simp add: toll_factor_of_def)
qed

text \<open>What every vehicle needs of the base class: factors away from zero.\<close>

definition base_ok :: "dynamic_cost \<Rightarrow> bool" where
  "base_ok d \<longleftrightarrow> list_all (\<lambda>f. 1 / 16 \<le> f) [track_factor d, living_street_factor d, dc_service_factor d]
     \<and> 0 \<le> dc_closure_factor d \<and> 1 / 2 \<le> ferry_factor d \<and> 0 \<le> canopy_factor d \<and> canopy_factor d \<le> 2 \<and> layers_ok d"

lemma base_okD:
  "base_ok d \<Longrightarrow> 1 / 16 \<le> track_factor d" "base_ok d \<Longrightarrow> 1 / 16 \<le> living_street_factor d"
  "base_ok d \<Longrightarrow> 1 / 16 \<le> dc_service_factor d" "base_ok d \<Longrightarrow> 0 \<le> dc_closure_factor d"
  "base_ok d \<Longrightarrow> 1 / 2 \<le> ferry_factor d"
  by (simp_all add: base_ok_def)

lemma apply_layer_factor_more:
  fixes lfs :: "layer_factor list"
  shows "ferry_factor (foldl apply_layer_factor d lfs) = ferry_factor d"
    and "rail_ferry_factor (foldl apply_layer_factor d lfs) = rail_ferry_factor d"
    and "dc_closure_factor (foldl apply_layer_factor d lfs) = dc_closure_factor d"
  by (induction lfs arbitrary: d) (simp_all add: apply_layer_factor_def Let_def split: option.splits)

lemma get_base_costs_more:
  "ferry_factor (get_base_costs co d) = ferry_factor_of (opt co ''use_ferry'')"
  "rail_ferry_factor (get_base_costs co d) = ferry_factor_of (opt co ''use_rail_ferry'')"
  "dc_closure_factor (get_base_costs co d) = opt co ''closure_factor''"
  by (simp_all add: get_base_costs_def Let_def apply_layer_factor_more fill_layers_def set_use_tracks_def
      set_use_living_streets_def set_use_lit_def)

lemma base_options:
  assumes r: "all_in_range cfg ss co" and s: "standard_ranges cfg"
  shows "0 \<le> opt co ''use_tracks''" "opt co ''use_tracks'' \<le> 1" "0 \<le> opt co ''use_living_streets''"
    "opt co ''use_living_streets'' \<le> 1" "kMinFactor \<le> opt co ''service_factor''" "1 \<le> opt co ''closure_factor''"
    "0 \<le> num_or 1 ''tree_canopy_factor'' co" "num_or 1 ''tree_canopy_factor'' co \<le> 2"
    and "\<not> disable_ferry cfg \<Longrightarrow> 0 \<le> opt co ''use_ferry''" "\<not> disable_ferry cfg \<Longrightarrow> opt co ''use_ferry'' \<le> 1"
    and "\<not> disable_rail_ferry cfg \<Longrightarrow> 0 \<le> opt co ''use_rail_ferry''"
    "\<not> disable_rail_ferry cfg \<Longrightarrow> opt co ''use_rail_ferry'' \<le> 1"
proof -
  have "list_all (\<lambda>(k, n, r). fits_range r (opt co n) \<and> fits_range r (num_or 1 n co)) (base_ranges cfg)"
    using r opt_within num_or_within by (fastforce simp: all_in_range_def list_all_iff)
  then have b: "list_all (\<lambda>(k, n, r). fits_range r (opt co n) \<and> fits_range r (num_or 1 n co))
      (preference_ranges cfg @ comfort_ranges cfg)"
    and "list_all (\<lambda>(k, n, r). fits_range r (opt co n) \<and> fits_range r (num_or 1 n co)) (penalty_ranges cfg)"
    by (simp_all add: base_ranges_def)
  then have p: "list_all (\<lambda>(k, n, r). fits_range r (opt co n)) (penalty_ranges cfg)"
    by (auto elim!: list.pred_mono_strong)
  show "0 \<le> opt co ''use_tracks''" "opt co ''use_tracks'' \<le> 1" "0 \<le> opt co ''use_living_streets''"
    "opt co ''use_living_streets'' \<le> 1" "kMinFactor \<le> opt co ''service_factor''" "1 \<le> opt co ''closure_factor''"
    "0 \<le> num_or 1 ''tree_canopy_factor'' co" "num_or 1 ''tree_canopy_factor'' co \<le> 2"
    using b s by (simp_all add: fits_range_def preference_ranges_def comfort_ranges_def standard_ranges_def)
  show "\<not> disable_ferry cfg \<Longrightarrow> 0 \<le> opt co ''use_ferry''" "\<not> disable_ferry cfg \<Longrightarrow> opt co ''use_ferry'' \<le> 1"
    "\<not> disable_rail_ferry cfg \<Longrightarrow> 0 \<le> opt co ''use_rail_ferry''"
    "\<not> disable_rail_ferry cfg \<Longrightarrow> opt co ''use_rail_ferry'' \<le> 1"
    using p s by (simp_all add: fits_range_def penalty_ranges_def standard_ranges_def)
qed

lemma base_ok_created:
  assumes r: "all_in_range cfg ss co" and s: "standard_ranges cfg" "\<not> disable_ferry cfg"
    and d: "0 < default_base_multiplier d" "0 < default_max_reduction d" "default_max_reduction d \<le> f32 (99 / 100)"
  shows "base_ok (get_base_costs co d)"
proof -
  note o = base_options [OF r s(1)]
  have "1 / 16 \<le> track_factor (set_use_tracks (opt co ''use_tracks'') d)"
    "1 / 16 \<le> living_street_factor (set_use_living_streets (opt co ''use_living_streets'') d)"
    using preference_factor_ge [of "opt co ''use_tracks''" 4] preference_factor_ge [of "opt co ''use_living_streets''" 3]
      o small_floats
    by (simp_all add: set_use_tracks_def set_use_living_streets_def)
  moreover have "1 / 16 \<le> opt co ''service_factor''" using o(5) constants(2) by simp
  ultimately show ?thesis
    using o ferry_factor_of_ge [OF o(9,10)] s(2) layers_ok_get_base_costs [OF d]
    by (simp add: base_ok_def get_base_costs_fields get_base_costs_more)
qed

section \<open>Factors and speeds\<close>

lemma fadd_nonneg: "0 \<le> x \<Longrightarrow> 0 \<le> y \<Longrightarrow> 0 \<le> fadd x y"
  by (intro float32.nonneg add_nonneg_nonneg)

lemma table_member: "table t i = Inr x \<Longrightarrow> x \<in> set t"
  by (auto simp: table_def split: if_splits)

lemma table_nonneg: "table t i = Inr x \<Longrightarrow> list_all (\<lambda>x. 0 \<le> x) t \<Longrightarrow> 0 \<le> x"
  by (auto dest!: table_member simp: list_all_iff)

lemma kDensityFactor_ge: "1 / 2 \<le> kDensityFactor d" "0 \<le> fsub (kDensityFactor d) (f32 (85 / 100))"
proof -
  have c: "1 / 2 \<le> f32 (85 / 100)" "0 \<le> f32 (25 / 1000)" by (simp_all add: float_eval)
  have "0 \<le> fmul (of_nat (unat d)) (f32 (25 / 1000))" using c(2) by (intro fmul_nonneg of_nat_0_le_iff)
  then have "f32 (85 / 100) \<le> kDensityFactor d" unfolding kDensityFactor_def by (intro f32_ge) simp_all
  then show "1 / 2 \<le> kDensityFactor d" "0 \<le> fsub (kDensityFactor d) (f32 (85 / 100))"
    using c(1) by (auto intro: float32.nonneg)
qed

lemma highway_surface_tables: "list_all (\<lambda>x. 0 \<le> x \<and> x \<le> 1) kHighwayFactor" "list_all (\<lambda>x. 0 \<le> x \<and> x \<le> 1) kSurfaceFactor"
  "length kHighwayFactor = 8" "length kSurfaceFactor = 7"
  by (simp_all add: kHighwayFactor_def kSurfaceFactor_def float_eval)

lemma scaled_ge:
  assumes "- 1 / 8 \<le> f" "0 \<le> x" "x \<le> 1" shows "- 1 / 8 \<le> fmul f x"
proof (rule f32_ge [OF eighth_floats(1)])
  show "- 1 / 8 \<le> f * x"
  proof (cases "0 \<le> f")
    case True
    then have "0 \<le> f * x" using assms(2) by simp
    then show ?thesis by simp
  next
    case False
    then have "- f * x \<le> (1 / 8) * 1" using assms by (intro mult_mono) simp_all
    then show ?thesis by simp
  qed
qed

lemma SpeedPenalty_nonneg: "SpeedPenalty d ts idx e ti src speed = Inr p \<Longrightarrow> 0 \<le> p"
proof -
  assume "SpeedPenalty d ts idx e ti src speed = Inr p"
  then obtain a where p: "p = (if f32 (of_nat (dc_top_speed d)) < f32 (of_nat a)
      then fmul (fsub (f32 (of_nat a)) (f32 (of_nat (dc_top_speed d)))) (f32 (5 / 100)) else 0)"
    by (auto simp: SpeedPenalty_def bind_result_eq_Inr)
  have c: "0 \<le> f32 (5 / 100)" by (simp add: float_eval)
  show ?thesis
  proof (cases "f32 (of_nat (dc_top_speed d)) < f32 (of_nat a)")
    case True
    then have "0 \<le> fsub (f32 (of_nat a)) (f32 (of_nat (dc_top_speed d)))" by (intro float32.nonneg) simp
    then have "0 \<le> fmul (fsub (f32 (of_nat a)) (f32 (of_nat (dc_top_speed d)))) (f32 (5 / 100))" using c by (intro fmul_nonneg)
    then show ?thesis using True p by simp
  qed (simp add: p)
qed

lemma kSpeedFactor_nonneg: "kSpeedFactor s = Inr p \<Longrightarrow> 0 \<le> p"
proof -
  assume "kSpeedFactor s = Inr p"
  moreover have "0 \<le> kMetersPerSecond" "0 \<le> kSecPerHour" by (simp_all add: kMetersPerSecond_def kSecPerHour_def float_eval)
  ultimately show ?thesis
    by (auto simp: kSpeedFactor_def split: if_splits intro!: float32.nonneg divide_nonneg_nonneg of_nat_0_le_iff)
qed

lemma edge_length_nonneg: "0 \<le> edge_length e"
  unfolding edge_length_def by (intro float32.nonneg of_nat_0_le_iff)

lemma pace_nonneg: "kSpeedFactor s = Inr p \<Longrightarrow> 0 \<le> fmul (edge_length e) p"
  by (intro fmul_nonneg edge_length_nonneg kSpeedFactor_nonneg)

text \<open>A discounted amount: more shade never costs more, and never less than nothing.\<close>

lemma discounted:
  assumes m: "m \<in> set comfort_models" and b: "0 \<le> base" and f: "f32 f = f" "0 \<le> f" and v: "env_le v v'"
  shows "fmul base (m d v' f) \<le> fmul base (m d v f)" and "0 \<le> fmul base (m d v' f)"
proof -
  obtain c cap where d: "m = comfort_discount c cap" "0 \<le> c" "0 \<le> cap" "cap \<le> 127 / 128"
    using model_constants [OF m] .
  note cd = comfort_discount_props [OF d(2-4) f v, where d = d, folded d(1)]
  show "fmul base (m d v' f) \<le> fmul base (m d v f)" using b cd by (intro fmul_mono) simp_all
  show "0 \<le> fmul base (m d v' f)" using b cd by (intro fmul_nonneg)
qed

text \<open>What the costs of two environments have to do with each other, and that neither is negative.\<close>

definition shade_helps :: "(cost \<times> u8) result \<Rightarrow> (cost \<times> u8) result \<Rightarrow> bool" where
  "shade_helps r r' \<longleftrightarrow> (case (r, r') of
     (Inl err, Inl err') \<Rightarrow> err = err'
   | (Inr (c, src), Inr (c', src')) \<Rightarrow> src' = src \<and> secs c' = secs c \<and> cost c' \<le> cost c \<and> 0 \<le> cost c' \<and> 0 \<le> secs c
   | _ \<Rightarrow> False)"

lemma shade_helps_bind: "(\<And>x. r = Inr x \<Longrightarrow> shade_helps (f x) (g x)) \<Longrightarrow> shade_helps (bind_result r f) (bind_result r g)"
  by (cases r) (simp_all add: shade_helps_def)

lemma shade_helps_same: "0 \<le> c \<Longrightarrow> 0 \<le> s \<Longrightarrow> shade_helps (Inr (\<lparr>cost = c, secs = s\<rparr>, src)) (Inr (\<lparr>cost = c, secs = s\<rparr>, src))"
  by (simp add: shade_helps_def)

lemma shade_helps_discount:
  assumes "m \<in> set comfort_models" "0 \<le> base" "f32 f = f" "0 \<le> f" "env_le v v'" "0 \<le> s"
  shows "shade_helps (Inr (\<lparr>cost = fmul base (m d v f), secs = s\<rparr>, src)) (Inr (\<lparr>cost = fmul base (m d v' f), secs = s\<rparr>, src))"
  using discounted [OF assms(1-5), of d] assms(6) by (simp add: shade_helps_def)

lemma shade_helps_split:
  "(\<And>a b. r = Inr (a, b) \<Longrightarrow> shade_helps (f a b) (g a b)) \<Longrightarrow>
    shade_helps (bind_result r (\<lambda>(a, b). f a b)) (bind_result r (\<lambda>(a, b). g a b))"
  by (cases r) (auto simp: shade_helps_def)

text \<open>The end of every \<^verbatim>\<open>EdgeCost\<close>: the length alone for the shortest path, or the discounted amount.\<close>

lemma shade_helps_edge:
  assumes "m \<in> set comfort_models" "env_le v v'" "0 \<le> len" "0 \<le> s" "0 \<le> base"
    and "\<And>f. r = Inr f \<Longrightarrow> 0 \<le> f \<and> f32 f = f"
  shows "shade_helps
     (if sh then Inr (\<lparr>cost = len, secs = s\<rparr>, src) else bind_result r (\<lambda>f. Inr (\<lparr>cost = fmul base (m d v f), secs = s\<rparr>, src)))
     (if sh then Inr (\<lparr>cost = len, secs = s\<rparr>, src) else bind_result r (\<lambda>f. Inr (\<lparr>cost = fmul base (m d v' f), secs = s\<rparr>, src)))"
  using shade_helps_same [OF assms(3,4)] shade_helps_discount [OF assms(1,5) _ _ assms(2,4)] assms(6)
  by (auto intro!: shade_helps_bind)

lemma shade_helps_if: "(b \<Longrightarrow> shade_helps p p') \<Longrightarrow> (\<not> b \<Longrightarrow> shade_helps q q')
    \<Longrightarrow> shade_helps (if b then p else q) (if b then p' else q')"
  by simp

lemma ferry_cost_same:
  assumes "base_ok d" "0 \<le> s"
  shows "shade_helps (Inr (\<lparr>cost = fmul s (ferry_factor d), secs = s\<rparr>, src)) (Inr (\<lparr>cost = fmul s (ferry_factor d), secs = s\<rparr>, src))"
  using assms base_okD(5) [OF assms(1)] by (intro shade_helps_same fmul_nonneg) simp_all

lemma avoid_hills_nonneg:
  assumes "0 \<le> use" "use \<le> 1" "list_all (\<lambda>x. 0 \<le> x) t" shows "list_all (\<lambda>g. 0 \<le> g) (map (fmul (fsub 1 use)) t)"
proof -
  have "0 \<le> fsub 1 use" using assms(2) by (intro float32.nonneg) simp
  then show ?thesis using assms(3) by (auto simp: list_all_iff intro!: fmul_nonneg)
qed

lemma road_use_factor_ok:
  assumes "base_ok d" "0 \<le> f" "f32 f = f"
  shows "0 \<le> road_use_factor d e f" and "f32 (road_use_factor d e f) = road_use_factor d e f"
proof -
  have "0 \<le> track_factor d" "0 \<le> living_street_factor d" "0 \<le> dc_service_factor d"
    using base_okD [OF assms(1)] by (auto intro: order_trans [of 0 "1 / 16"])
  then show "0 \<le> road_use_factor d e f" "f32 (road_use_factor d e f) = road_use_factor d e f"
    using assms(2,3) by (simp_all add: road_use_factor_def fmul_nonneg)
qed

lemma closed_factor_ok:
  assumes "base_ok d" "0 \<le> f" "f32 f = f"
  shows "0 \<le> (if is_closed then fmul f (dc_closure_factor d) else f) \<and>
    f32 (if is_closed then fmul f (dc_closure_factor d) else f) = (if is_closed then fmul f (dc_closure_factor d) else f)"
  using assms base_okD(4) [OF assms(1)] by (simp add: fmul_nonneg)

end
