(* ===== verification/Auto_Cost.thy ===== *)
theory Auto_Cost
  imports Motor_Cost
begin

text \<open>
  \<^verbatim>\<open>AutoCost\<close>, and \<^verbatim>\<open>BusCost\<close> and \<^verbatim>\<open>TaxiCost\<close> derived from it (\<^verbatim>\<open>src/sif/autocost.cc\<close>): the options of a
  request, the members computed from them, the access checks, the costs of edges and of
  transitions. A bus or a taxi is an \<open>auto_cost\<close> with its own access mask and its own checks; a taxi
  has its own edge cost, too. The members of the base class are the field \<open>au_dyn\<close>.
\<close>

section \<open>Options\<close>

definition auto_config :: base_config where
  "auto_config = base_default\<lparr>
     service_penalty := (service_penalty base_default)\<lparr>rd_def := 75\<rparr>,
     use_tracks := (use_tracks base_default)\<lparr>rd_def := 0\<rparr>\<rparr>"

definition auto_specs :: "vehicle_option list" where
  "auto_specs =
     [(Float_option, ''alley_factor'', rng kMinFactor 1 kMaxFactor),
      (Float_option, ''use_highways'', rng 0 (1 / 2) 1),
      (Float_option, ''use_tolls'', rng 0 (1 / 2) 1),
      (Float_option, ''use_distance'', rng 0 0 1),
      (Float_option, ''height'', rng 0 (f32 (16 / 10)) 10),
      (Float_option, ''width'', rng 0 (f32 (19 / 10)) 10),
      (Uint_option, ''restriction_probability'', rng 0 100 100),
      (Uint_option, ''top_speed'', rng 10 (of_nat kMaxAssumedSpeed) kMaxSpeedKph)]"

definition ParseAutoCostOptions :: "lexer \<Rightarrow> json \<Rightarrow> string list \<Rightarrow> costing_options \<Rightarrow> costing_options result" where
  "ParseAutoCostOptions lx = parse_vehicle lx auto_config auto_specs hov_flags ''auto''"

definition ParseBusCostOptions :: "lexer \<Rightarrow> json \<Rightarrow> string list \<Rightarrow> costing_options \<Rightarrow> costing_options result" where
  "ParseBusCostOptions lx doc key co =
     bind_result (ParseAutoCostOptions lx doc key co) (\<lambda>co'. Inr (co'\<lparr>costing_name := ''bus''\<rparr>))"

definition ParseTaxiCostOptions :: "lexer \<Rightarrow> json \<Rightarrow> string list \<Rightarrow> costing_options \<Rightarrow> costing_options result" where
  "ParseTaxiCostOptions lx doc key co =
     bind_result (ParseAutoCostOptions lx doc key co) (\<lambda>co'. Inr (co'\<lparr>costing_name := ''taxi''\<rparr>))"

section \<open>The costing model\<close>

record auto_cost =
  au_dyn :: dynamic_cost
  au_highway_factor :: rat
  au_alley_factor :: rat
  au_toll_factor :: rat
  au_surface_factor :: rat
  au_distance_factor :: rat
  au_inv_distance_factor :: rat
  au_height :: rat
  au_width :: rat
  au_filter_closures :: bool
  au_include_hot :: bool
  au_include_hov2 :: bool
  au_include_hov3 :: bool

definition kInvMedianSpeed :: rat where "kInvMedianSpeed = 1 / 16"
definition kTurnChannelFactor :: rat where "kTurnChannelFactor = f32 (6 / 10)"
definition kTaxiFactor :: rat where "kTaxiFactor = f32 (85 / 100)"
definition kAutoMask :: "12 word" where "kAutoMask = 1"
definition kAutoHOVMask :: "12 word" where "kAutoHOVMask = 129"
definition kTaxiAccess :: "12 word" where "kTaxiAccess = 32"
definition kBusAccess :: "12 word" where "kBusAccess = 64"

definition new_auto_cost :: "costing_options \<Rightarrow> 12 word \<Rightarrow> auto_cost" where
  "new_auto_cost co mask_bits =
     (let d = get_base_costs co (new_dynamic_cost co mask_bits True False)
      in \<lparr>au_dyn = d, au_highway_factor = highway_factor_of (opt co ''use_highways''),
          au_alley_factor = opt co ''alley_factor'',
          au_toll_factor = toll_factor_of 4 8 (opt co ''use_tolls''), au_surface_factor = 1 / 2,
          au_distance_factor = fmul (opt co ''use_distance'') kInvMedianSpeed,
          au_inv_distance_factor = fsub 1 (opt co ''use_distance''),
          au_height = opt co ''height'', au_width = opt co ''width'',
          au_filter_closures = (if ignore_closures d then False else flag co ''filter_closures''),
          au_include_hot = flag co ''include_hot'', au_include_hov2 = flag co ''include_hov2'',
          au_include_hov3 = flag co ''include_hov3''\<rparr>)"

definition CreateAutoCost :: "costing_options \<Rightarrow> auto_cost" where
  "CreateAutoCost co = new_auto_cost co kAutoHOVMask"

definition CreateBusCost :: "costing_options \<Rightarrow> auto_cost" where
  "CreateBusCost co = new_auto_cost co kBusAccess"

definition CreateTaxiCost :: "costing_options \<Rightarrow> auto_cost" where
  "CreateTaxiCost co = new_auto_cost co kTaxiAccess"

section \<open>Access\<close>

definition IsHOVAllowed :: "auto_cost \<Rightarrow> directed_edge \<Rightarrow> bool" where
  "IsHOVAllowed a e \<longleftrightarrow> \<not> is_hov_only e \<or> au_include_hov3 a \<or> au_include_hov2 a \<and> de_hov_type e = 0
     \<or> au_include_hot a \<and> de_toll e"

definition auto_filter :: "auto_cost \<Rightarrow> (directed_edge \<Rightarrow> bool) \<Rightarrow> directed_edge \<Rightarrow> u16 \<Rightarrow> bool" where
  "auto_filter a closed_now e disallow \<longleftrightarrow>
     vehicle_filter (au_dyn a) (au_filter_closures a) closed_now e disallow \<and> IsHOVAllowed a e"

definition auto_mode_allowed :: "auto_cost \<Rightarrow> access_restriction \<Rightarrow> bool" where
  "auto_mode_allowed a r \<longleftrightarrow>
     (if ar_type r = kMaxHeight then au_height a \<le> centi (ar_value r)
      else if ar_type r = kMaxWidth then au_width a \<le> centi (ar_value r) else True)"

text \<open>
  The checks before the restrictions. \<^verbatim>\<open>AutoCost\<close> lets a turn restriction pass with
  \<^verbatim>\<open>ignore_turn_restrictions_\<close>; \<^verbatim>\<open>BusCost\<close> and \<^verbatim>\<open>TaxiCost\<close> test \<^verbatim>\<open>ignore_restrictions_\<close> going forward.
\<close>

definition auto_checks :: "auto_cost \<Rightarrow> (directed_edge \<Rightarrow> bool) \<Rightarrow> bool \<Rightarrow> directed_edge \<Rightarrow> 'a sif_label_scheme \<Rightarrow> graph_id \<Rightarrow> bool" where
  "auto_checks a closed_now ignore_turns e pred edgeid \<longleftrightarrow>
     (let d = au_dyn a
      in \<not> (\<not> IsAccessible d e \<or> turns_back pred e
        \<or> in_mask (lab_restrictions pred) (unat (de_localedgeidx e)) \<and> \<not> ignore_turns
        \<or> de_surface e = kImpassable \<or> IsUserAvoidEdge d (gid_value edgeid)
        \<or> \<not> allow_destination_only d \<and> \<not> lab_dest_only pred \<and> de_dest_only e
        \<or> lab_closure_pruning pred \<and> IsClosed d closed_now e
        \<or> exclude_unpaved d \<and> \<not> lab_unpaved pred \<and> unpaved e \<or> \<not> IsHOVAllowed a e
        \<or> CheckExclusions d e (pred_view pred)))"

definition auto_checks_reverse :: "auto_cost \<Rightarrow> (directed_edge \<Rightarrow> bool) \<Rightarrow> directed_edge \<Rightarrow> 'a sif_label_scheme
    \<Rightarrow> directed_edge \<Rightarrow> graph_id \<Rightarrow> bool" where
  "auto_checks_reverse a closed_now e pred opp opp_edgeid \<longleftrightarrow>
     (let d = au_dyn a
      in \<not> (\<not> IsAccessible d opp \<or> turns_back pred e
        \<or> in_mask (de_restrictions opp) (unat (lab_opp_local_idx pred)) \<and> \<not> ignore_turn_restrictions d
        \<or> de_surface opp = kImpassable \<or> IsUserAvoidEdge d (gid_value opp_edgeid)
        \<or> \<not> allow_destination_only d \<and> \<not> lab_dest_only pred \<and> de_dest_only opp
        \<or> lab_closure_pruning pred \<and> IsClosed d closed_now opp
        \<or> exclude_unpaved d \<and> \<not> lab_unpaved pred \<and> unpaved opp \<or> \<not> IsHOVAllowed a opp
        \<or> CheckExclusions d opp (pred_view pred)))"

definition auto_allowed :: "auto_cost \<Rightarrow> conditional_active \<Rightarrow> (directed_edge \<Rightarrow> bool) \<Rightarrow> directed_edge \<Rightarrow> bool
    \<Rightarrow> 'a sif_label_scheme \<Rightarrow> routing_tile \<Rightarrow> graph_id \<Rightarrow> u64 \<Rightarrow> u32 \<Rightarrow> u8 \<Rightarrow> u8 \<Rightarrow> bool \<times> u8 \<times> u8" where
  "auto_allowed a active closed_now e is_dest pred tile edgeid time tz idx exempt =
     (if auto_checks a closed_now (ignore_turn_restrictions (au_dyn a)) e pred edgeid
      then EvaluateRestrictions (au_dyn a) (auto_mode_allowed a) active (access_mask (au_dyn a)) e is_dest tile edgeid
        time tz idx exempt
      else (False, idx, exempt))"

definition auto_allowed_reverse :: "auto_cost \<Rightarrow> conditional_active \<Rightarrow> (directed_edge \<Rightarrow> bool) \<Rightarrow> directed_edge
    \<Rightarrow> 'a sif_label_scheme \<Rightarrow> directed_edge \<Rightarrow> routing_tile \<Rightarrow> graph_id \<Rightarrow> u64 \<Rightarrow> u32 \<Rightarrow> u8 \<Rightarrow> u8 \<Rightarrow> bool \<times> u8 \<times> u8" where
  "auto_allowed_reverse a active closed_now e pred opp tile opp_edgeid time tz idx exempt =
     (if auto_checks_reverse a closed_now e pred opp opp_edgeid
      then EvaluateRestrictions (au_dyn a) (auto_mode_allowed a) active (access_mask (au_dyn a)) opp False tile opp_edgeid
        time tz idx exempt
      else (False, idx, exempt))"

definition bus_allowed :: "auto_cost \<Rightarrow> conditional_active \<Rightarrow> (directed_edge \<Rightarrow> bool) \<Rightarrow> directed_edge \<Rightarrow> bool
    \<Rightarrow> 'a sif_label_scheme \<Rightarrow> routing_tile \<Rightarrow> graph_id \<Rightarrow> u64 \<Rightarrow> u32 \<Rightarrow> u8 \<Rightarrow> u8 \<Rightarrow> bool \<times> u8 \<times> u8" where
  "bus_allowed a active closed_now e is_dest pred tile edgeid time tz idx exempt =
     (if auto_checks a closed_now (ignore_restrictions (au_dyn a)) e pred edgeid
      then EvaluateRestrictions (au_dyn a) (auto_mode_allowed a) active (access_mask (au_dyn a)) e is_dest tile edgeid
        time tz idx exempt
      else (False, idx, exempt))"

definition taxi_allowed :: "auto_cost \<Rightarrow> conditional_active \<Rightarrow> (directed_edge \<Rightarrow> bool) \<Rightarrow> directed_edge \<Rightarrow> bool
    \<Rightarrow> 'a sif_label_scheme \<Rightarrow> routing_tile \<Rightarrow> graph_id \<Rightarrow> u64 \<Rightarrow> u32 \<Rightarrow> u8 \<Rightarrow> u8 \<Rightarrow> bool \<times> u8 \<times> u8" where
  "taxi_allowed a active closed_now e is_dest pred tile edgeid time tz idx exempt =
     (if auto_checks a closed_now (ignore_restrictions (au_dyn a)) e pred edgeid
      then EvaluateRestrictions (au_dyn a) (auto_mode_allowed a) active (access_mask (au_dyn a)) e is_dest tile edgeid
        time tz idx exempt
      else (False, idx, exempt))"

section \<open>Edges\<close>

definition auto_use_factor :: "auto_cost \<Rightarrow> directed_edge \<Rightarrow> u8 \<Rightarrow> rat \<Rightarrow> rat" where
  "auto_use_factor a e src f =
     (if use_of e = kAlley then fmul f (au_alley_factor a)
      else if use_of e = kTrack then fmul f (track_factor (au_dyn a))
      else if use_of e = kLivingStreet then fmul f (living_street_factor (au_dyn a))
      else if use_of e = kServiceRoad then fmul f (dc_service_factor (au_dyn a))
      else if use_of e = kTurnChannel \<and> src AND ucast kDefaultFlowMask \<noteq> 0 then fmul f kTurnChannelFactor
      else f)"

text \<open>The factor before the discounts: use and density, preferences, surface, closure.\<close>

definition auto_factor :: "auto_cost \<Rightarrow> tile_speeds \<Rightarrow> nat \<Rightarrow> directed_edge \<Rightarrow> time_info \<Rightarrow> u8 \<Rightarrow> nat \<Rightarrow> rat result" where
  "auto_factor a ts idx e ti src speed =
     (let d = au_dyn a;
          f0 = (if use_of e = kFerry then ferry_factor d else if use_of e = kRailFerry then rail_ferry_factor d
            else kDensityFactor (de_density e))
      in bind_result (table kHighwayFactor (unat (de_classification e))) (\<lambda>highway.
         bind_result (table kSurfaceFactor (unat (de_surface e))) (\<lambda>surface.
         bind_result (SpeedPenalty d ts idx e ti src speed) (\<lambda>penalty.
         bind_result (edge_closed d ts idx) (\<lambda>is_closed.
           let f1 = fadd f0 (fadd (fadd (fadd (fmul (au_highway_factor a) highway) (fmul (au_surface_factor a) surface))
                 penalty) (fmul (of_bool (de_toll e)) (au_toll_factor a)));
               f2 = auto_use_factor a e src f1
           in Inr (if is_closed then fmul f2 (dc_closure_factor d) else f2))))))"

text \<open>\<^verbatim>\<open>EdgeCost\<close>: the cost and the flow sources it writes.\<close>

definition auto_edge_cost :: "auto_cost \<Rightarrow> tile_speeds \<Rightarrow> nat \<Rightarrow> directed_edge \<Rightarrow> time_info \<Rightarrow> environment_scores \<Rightarrow> u8
    \<Rightarrow> (cost \<times> u8) result" where
  "auto_edge_cost a ts idx e ti env stale =
     (let d = au_dyn a; len = edge_length e
      in bind_result (edge_speed d ts idx e ti False stale) (\<lambda>(speed, src).
         bind_result (kSpeedFactor (min speed (dc_top_speed d))) (\<lambda>pace.
           let sec = fmul len pace
           in if shortest d then Inr (\<lparr>cost = len, secs = sec\<rparr>, src)
              else bind_result (auto_factor a ts idx e ti src speed) (\<lambda>factor.
                Inr (\<lparr>cost = fmul (fadd (fmul sec (au_inv_distance_factor a)) (fmul len (au_distance_factor a)))
                    (auto_discount d env factor), secs = sec\<rparr>, src)))))"

definition taxi_factor :: "auto_cost \<Rightarrow> tile_speeds \<Rightarrow> nat \<Rightarrow> directed_edge \<Rightarrow> time_info \<Rightarrow> u8 \<Rightarrow> nat \<Rightarrow> rat result" where
  "taxi_factor a ts idx e ti src speed =
     (let d = au_dyn a; f0 = (if use_of e = kFerry then ferry_factor d else kDensityFactor (de_density e))
      in bind_result (SpeedPenalty d ts idx e ti src speed) (\<lambda>penalty.
         bind_result (edge_closed d ts idx) (\<lambda>is_closed.
           let f1 = fadd f0 penalty;
               f2 = (if de_forwardaccess e AND kTaxiAccess \<noteq> 0 \<and> de_forwardaccess e AND kAutoMask = 0
                 then fmul f1 kTaxiFactor else f1);
               f3 = (if use_of e = kAlley then fmul f2 (au_alley_factor a)
                 else if use_of e = kTrack then fmul f2 (track_factor d)
                 else if use_of e = kLivingStreet then fmul f2 (living_street_factor d)
                 else if use_of e = kServiceRoad then fmul f2 (dc_service_factor d) else f2)
           in Inr (if is_closed then fmul f3 (dc_closure_factor d) else f3))))"

definition taxi_edge_cost :: "auto_cost \<Rightarrow> tile_speeds \<Rightarrow> nat \<Rightarrow> directed_edge \<Rightarrow> time_info \<Rightarrow> u8 \<Rightarrow> (cost \<times> u8) result" where
  "taxi_edge_cost a ts idx e ti stale =
     (let d = au_dyn a; len = edge_length e
      in bind_result (edge_speed d ts idx e ti False stale) (\<lambda>(speed, src).
         bind_result (kSpeedFactor (min speed (dc_top_speed d))) (\<lambda>pace.
           let sec = fmul len pace
           in if shortest d then Inr (\<lparr>cost = len, secs = sec\<rparr>, src)
              else bind_result (taxi_factor a ts idx e ti src speed) (\<lambda>factor.
                Inr (\<lparr>cost = fmul sec factor, secs = sec\<rparr>, src)))))"

definition auto_AStarCostFactor :: "auto_cost \<Rightarrow> rat result" where
  "auto_AStarCostFactor a = kSpeedFactor (dc_top_speed (au_dyn a))"

section \<open>Transitions\<close>

definition auto_transition :: "(rat \<Rightarrow> rat) \<Rightarrow> auto_cost \<Rightarrow> directed_edge \<Rightarrow> nodeinfo \<Rightarrow> 'a sif_label_scheme \<Rightarrow> cost" where
  "auto_transition expf a e n pred =
     (let d = au_dyn a; idx = unat (lab_opp_local_idx pred);
          c = add_secs (OSRMCarTurnDuration expf e n (ucast (lab_opp_local_idx pred)))
            (base_transition_cost d (costing_node n) e (pred_view pred) idx);
          c' = add_turn d e n idx (unat (lab_use pred) = kRamp) True (lab_internal_turn pred) (lab_has_measured_speed pred) c
      in c'\<lparr>cost := fmul (cost c') (au_inv_distance_factor a)\<rparr>)"

definition auto_transition_reverse :: "(rat \<Rightarrow> rat) \<Rightarrow> auto_cost \<Rightarrow> nat \<Rightarrow> nodeinfo \<Rightarrow> directed_edge \<Rightarrow> directed_edge
    \<Rightarrow> bool \<Rightarrow> 2 word \<Rightarrow> cost" where
  "auto_transition_reverse expf a idx n pred e measured internal =
     (let d = au_dyn a;
          c = add_secs (OSRMCarTurnDuration expf e n (ucast (de_opp_local_idx pred)))
            (base_transition_cost d (costing_node n) e (edge_as_pred pred) idx);
          c' = add_turn d e n idx (use_of pred = kRamp) True internal measured c
      in c'\<lparr>cost := fmul (cost c') (au_inv_distance_factor a)\<rparr>)"

section \<open>The members of a parsed request\<close>

definition auto_ok :: "auto_cost \<Rightarrow> bool" where
  "auto_ok a \<longleftrightarrow> base_ok (au_dyn a) \<and> 1 / 2 \<le> rail_ferry_factor (au_dyn a) \<and> - 1 / 8 \<le> au_highway_factor a
     \<and> 1 / 16 \<le> au_alley_factor a \<and> - 1 / 64 \<le> au_toll_factor a \<and> 0 \<le> au_surface_factor a
     \<and> 0 \<le> au_distance_factor a \<and> 0 \<le> au_inv_distance_factor a"

lemma auto_good_specs: "good_specs auto_config auto_specs"
  using constants
  by (simp add: good_specs_def auto_specs_def base_ranges_def penalty_ranges_def preference_ranges_def
      comfort_ranges_def auto_config_def base_default_def sane_def fits_range_def rng_def kMaxSpeedKph_def
      kMaxAssumedSpeed_def float_eval)

lemma auto_standard: "standard_ranges auto_config" "\<not> disable_ferry auto_config" "\<not> disable_rail_ferry auto_config"
  using constants
  by (simp_all add: standard_ranges_def auto_config_def base_default_def sane_def fits_range_def rng_def float_eval)

lemma auto_options:
  assumes r: "all_in_range auto_config auto_specs co"
  shows "kMinFactor \<le> opt co ''alley_factor''" "0 \<le> opt co ''use_highways''" "opt co ''use_highways'' \<le> 1"
    "0 \<le> opt co ''use_tolls''" "opt co ''use_tolls'' \<le> 1" "0 \<le> opt co ''use_distance''" "opt co ''use_distance'' \<le> 1"
proof -
  have "list_all (\<lambda>(k, n, r). fits_range r (opt co n)) auto_specs"
    using r opt_within by (fastforce simp: all_in_range_def list_all_iff)
  then show "kMinFactor \<le> opt co ''alley_factor''" "0 \<le> opt co ''use_highways''" "opt co ''use_highways'' \<le> 1"
    "0 \<le> opt co ''use_tolls''" "opt co ''use_tolls'' \<le> 1" "0 \<le> opt co ''use_distance''" "opt co ''use_distance'' \<le> 1"
    by (simp_all add: auto_specs_def fits_range_def rng_def)
qed

lemma auto_ok_created:
  assumes r: "all_in_range auto_config auto_specs co" shows "auto_ok (new_auto_cost co m)"
proof -
  note o = auto_options [OF r] and b = base_options [OF r auto_standard(1)]
  have "base_ok (get_base_costs co (new_dynamic_cost co m True False))"
    by (rule base_ok_created [OF r auto_standard(1,2)]) (simp_all add: new_dynamic_cost_def float_eval)
  moreover have "1 / 2 \<le> ferry_factor_of (opt co ''use_rail_ferry'')"
    using b(11,12) auto_standard(3) by (intro ferry_factor_of_ge) simp_all
  moreover have "1 / 16 \<le> opt co ''alley_factor''" using o(1) constants(2) by simp
  moreover have "0 \<le> fmul (opt co ''use_distance'') kInvMedianSpeed" "0 \<le> fsub 1 (opt co ''use_distance'')"
    using o(6,7) by (auto simp: kInvMedianSpeed_def intro!: float32.nonneg)
  ultimately show ?thesis
    using highway_factor_ge [OF o(2,3)] toll_factor_ge [OF o(4,5), of 4 8]
    by (simp add: auto_ok_def new_auto_cost_def Let_def get_base_costs_more)
qed

section \<open>The cost of an edge\<close>

lemma use_factor_floats: "0 \<le> kTurnChannelFactor" "0 \<le> kTaxiFactor"
  by (simp_all add: kTurnChannelFactor_def kTaxiFactor_def float_eval)

lemma auto_use_factor_ok:
  assumes a: "auto_ok a" and f: "0 \<le> f" "f32 f = f"
  shows "0 \<le> auto_use_factor a e src f" and "f32 (auto_use_factor a e src f) = auto_use_factor a e src f"
proof -
  have "base_ok (au_dyn a)" "1 / 16 \<le> au_alley_factor a" using a by (simp_all add: auto_ok_def)
  then have "0 \<le> au_alley_factor a" "0 \<le> track_factor (au_dyn a)" "0 \<le> living_street_factor (au_dyn a)"
    "0 \<le> dc_service_factor (au_dyn a)"
    using base_okD [of "au_dyn a"] by (auto intro: order_trans [of 0 "1 / 16"])
  then show "0 \<le> auto_use_factor a e src f"
    using f use_factor_floats by (simp add: auto_use_factor_def fmul_nonneg)
  show "f32 (auto_use_factor a e src f) = auto_use_factor a e src f" using f(2) by (simp add: auto_use_factor_def)
qed

lemma auto_factor_ok:
  assumes a: "auto_ok a" and f: "auto_factor a ts idx e ti src speed = Inr f"
  shows "0 \<le> f" and "f32 f = f"
proof -
  obtain highway surface penalty is_closed where x: "table kHighwayFactor (unat (de_classification e)) = Inr highway"
    "table kSurfaceFactor (unat (de_surface e)) = Inr surface" "SpeedPenalty (au_dyn a) ts idx e ti src speed = Inr penalty"
    "edge_closed (au_dyn a) ts idx = Inr is_closed"
    using f by (auto simp: auto_factor_def bind_result_eq_Inr Let_def)
  define f0 where "f0 = (if use_of e = kFerry then ferry_factor (au_dyn a) else if use_of e = kRailFerry
    then rail_ferry_factor (au_dyn a) else kDensityFactor (de_density e))"
  define f1 where "f1 = fadd f0 (fadd (fadd (fadd (fmul (au_highway_factor a) highway) (fmul (au_surface_factor a) surface))
    penalty) (fmul (of_bool (de_toll e)) (au_toll_factor a)))"
  have b: "base_ok (au_dyn a)" using a by (simp add: auto_ok_def)
  have hs: "0 \<le> highway" "highway \<le> 1" "0 \<le> surface" "surface \<le> 1"
    using x(1,2) highway_surface_tables by (auto dest!: table_member simp: list_all_iff)
  have h: "- 1 / 8 \<le> fmul (au_highway_factor a) highway" using a hs by (intro scaled_ge) (simp_all add: auto_ok_def)
  have s: "0 \<le> fmul (au_surface_factor a) surface" using a hs by (intro fmul_nonneg) (simp_all add: auto_ok_def)
  have "- 1 / 8 \<le> fadd (fmul (au_highway_factor a) highway) (fmul (au_surface_factor a) surface)"
    by (rule f32_ge [OF eighth_floats(1)]) (use h s in simp)
  then have p: "- 1 / 8 \<le> fadd (fadd (fmul (au_highway_factor a) highway) (fmul (au_surface_factor a) surface)) penalty"
    using SpeedPenalty_nonneg [OF x(3)] by (intro f32_ge [OF eighth_floats(1)]) simp
  have "- 1 / 64 \<le> fmul (of_bool (de_toll e)) (au_toll_factor a)"
    by (rule f32_ge [OF eighth_floats(2)]) (use a in \<open>simp add: auto_ok_def\<close>)
  then have sum: "- 9 / 64 \<le> fadd (fadd (fadd (fmul (au_highway_factor a) highway) (fmul (au_surface_factor a) surface))
    penalty) (fmul (of_bool (de_toll e)) (au_toll_factor a))"
    using p by (intro f32_ge [OF eighth_floats(5)]) simp
  have "1 / 2 \<le> f0" using a base_okD(5) [OF b] kDensityFactor_ge by (simp add: f0_def auto_ok_def)
  then have f1: "0 \<le> f1" unfolding f1_def using sum by (intro float32.nonneg) simp
  have "f32 f1 = f1" by (simp add: f1_def)
  note u = auto_use_factor_ok [OF a f1 this, of e src]
  have "f = (if is_closed then fmul (auto_use_factor a e src f1) (dc_closure_factor (au_dyn a)) else auto_use_factor a e src f1)"
    using f unfolding auto_factor_def Let_def f1_def f0_def by (simp only: x bind_result_simps sum.inject)
  then show "0 \<le> f" "f32 f = f" using u base_okD(4) [OF b] by (simp_all add: fmul_nonneg)
qed

lemma auto_edge_cost_shade:
  assumes a: "auto_ok a" and v: "env_le v v'"
  shows "shade_helps (auto_edge_cost a ts idx e ti v stale) (auto_edge_cost a ts idx e ti v' stale)"
  unfolding auto_edge_cost_def Let_def
proof (rule shade_helps_split, rule shade_helps_bind, rule shade_helps_edge)
  fix sp pace assume p: "kSpeedFactor (min sp (dc_top_speed (au_dyn a))) = Inr pace"
  show sec: "0 \<le> fmul (edge_length e) pace" by (rule pace_nonneg [OF p])
  have "0 \<le> au_distance_factor a" "0 \<le> au_inv_distance_factor a" using a by (simp_all add: auto_ok_def)
  then show "0 \<le> fadd (fmul (fmul (edge_length e) pace) (au_inv_distance_factor a)) (fmul (edge_length e) (au_distance_factor a))"
    by (intro float32.nonneg add_nonneg_nonneg mult_nonneg_nonneg sec edge_length_nonneg)
qed (use auto_factor_ok [OF a] v edge_length_nonneg in \<open>auto simp: comfort_models_def\<close>)

lemma taxi_factor_ok:
  assumes a: "auto_ok a" and f: "taxi_factor a ts idx e ti src speed = Inr f"
  shows "0 \<le> f"
proof -
  obtain penalty is_closed where x: "SpeedPenalty (au_dyn a) ts idx e ti src speed = Inr penalty"
    "edge_closed (au_dyn a) ts idx = Inr is_closed"
    using f by (auto simp: taxi_factor_def bind_result_eq_Inr Let_def)
  have b: "base_ok (au_dyn a)" "0 \<le> au_alley_factor a" using a by (simp_all add: auto_ok_def)
  have z: "0 \<le> track_factor (au_dyn a)" "0 \<le> living_street_factor (au_dyn a)" "0 \<le> dc_service_factor (au_dyn a)"
    using base_okD [OF b(1)] by (auto intro: order_trans [of 0 "1 / 16"])
  define f0 where "f0 = (if use_of e = kFerry then ferry_factor (au_dyn a) else kDensityFactor (de_density e))"
  have "0 \<le> f0" using base_okD(5) [OF b(1)] kDensityFactor_ge(1) [of "de_density e"] by (simp add: f0_def)
  then have "0 \<le> fadd f0 penalty" using SpeedPenalty_nonneg [OF x(1)] by (intro float32.nonneg) simp
  then show ?thesis
    using f x z b(2) base_okD(4) [OF b(1)] use_factor_floats(2)
    by (auto simp: taxi_factor_def Let_def f0_def intro!: fmul_nonneg)
qed

lemma taxi_edge_cost_same:
  assumes a: "auto_ok a" shows "shade_helps (taxi_edge_cost a ts idx e ti stale) (taxi_edge_cost a ts idx e ti stale)"
  unfolding taxi_edge_cost_def Let_def
proof (rule shade_helps_split, rule shade_helps_bind)
  fix sp src pace assume p: "kSpeedFactor (min sp (dc_top_speed (au_dyn a))) = Inr pace"
  note sec = pace_nonneg [OF p, of e]
  show "shade_helps
     (if shortest (au_dyn a) then Inr (\<lparr>cost = edge_length e, secs = fmul (edge_length e) pace\<rparr>, src)
      else bind_result (taxi_factor a ts idx e ti src sp) (\<lambda>factor.
        Inr (\<lparr>cost = fmul (fmul (edge_length e) pace) factor, secs = fmul (edge_length e) pace\<rparr>, src)))
     (if shortest (au_dyn a) then Inr (\<lparr>cost = edge_length e, secs = fmul (edge_length e) pace\<rparr>, src)
      else bind_result (taxi_factor a ts idx e ti src sp) (\<lambda>factor.
        Inr (\<lparr>cost = fmul (fmul (edge_length e) pace) factor, secs = fmul (edge_length e) pace\<rparr>, src)))"
    using shade_helps_same [OF edge_length_nonneg sec] sec taxi_factor_ok [OF a]
    by (auto intro!: shade_helps_bind shade_helps_same fmul_nonneg)
qed

end
