(* ===== verification/Truck_Cost.thy ===== *)
theory Truck_Cost
  imports Motor_Cost
begin

text \<open>
  \<^verbatim>\<open>TruckCost\<close> (\<^verbatim>\<open>src/sif/truckcost.cc\<close>): the options of a request, the members computed from them,
  the checks of the dimensions of the truck, access, the costs of edges and of transitions.
\<close>

section \<open>Options\<close>

definition truck_config :: base_config where
  "truck_config = base_default\<lparr>
     service_penalty := (service_penalty base_default)\<lparr>rd_def := 0\<rparr>,
     use_tracks := (use_tracks base_default)\<lparr>rd_def := 0\<rparr>,
     use_living_streets := (use_living_streets base_default)\<lparr>rd_def := 0\<rparr>\<rparr>"

definition truck_specs :: "vehicle_option list" where
  "truck_specs =
     [(Float_option, ''low_class_penalty'', rng 0 30 kMaxPenalty),
      (Float_option, ''weight'', rng 0 (f32 (2177 / 100)) 100),
      (Float_option, ''axle_load'', rng 0 (f32 (907 / 100)) 40),
      (Float_option, ''height'', rng 0 (f32 (411 / 100)) 10),
      (Float_option, ''width'', rng 0 (f32 (26 / 10)) 10),
      (Float_option, ''length'', rng 0 (f32 (2164 / 100)) 50),
      (Float_option, ''use_tolls'', rng 0 (1 / 2) 1),
      (Float_option, ''use_highways'', rng 0 (1 / 2) 1),
      (Uint_v2, ''axle_count'', rng 2 5 20),
      (Float_option, ''top_speed'', rng 10 120 kMaxSpeedKph),
      (Float_option, ''hgv_no_access_penalty'', rng 0 kMaxPenalty kMaxPenalty),
      (Float_v2, ''use_truck_route'', rng 0 0 1)]"

definition ParseTruckCostOptions :: "lexer \<Rightarrow> json \<Rightarrow> string list \<Rightarrow> costing_options \<Rightarrow> costing_options result" where
  "ParseTruckCostOptions lx = parse_vehicle lx truck_config truck_specs [''hazmat''] ''truck''"

section \<open>The costing model\<close>

record truck_cost =
  tr_dyn :: dynamic_cost
  tr_toll_factor :: rat
  tr_low_class_penalty :: rat
  tr_hazmat :: bool
  tr_weight :: rat
  tr_axle_load :: rat
  tr_height :: rat
  tr_width :: rat
  tr_length :: rat
  tr_highway_factor :: rat
  tr_non_truck_route_factor :: rat
  tr_axle_count :: u8
  tr_no_hgv_access_penalty :: rat
  tr_filter_closures :: bool

definition kTruckBit :: "12 word" where "kTruckBit = 8"
definition kAutoTruckBits :: "12 word" where "kAutoTruckBits = 9"
definition kTruckRouteFactor :: rat where "kTruckRouteFactor = f32 (85 / 100)"
definition kMinNonTruckRouteFactor :: rat where "kMinNonTruckRouteFactor = 1"

definition CreateTruckCost :: "costing_options \<Rightarrow> truck_cost" where
  "CreateTruckCost co =
     (let d = get_base_costs co (new_dynamic_cost co kTruckBit True True);
          route = opt co ''use_truck_route'';
          penalty_active = (opt co ''hgv_no_access_penalty'' \<noteq> kMaxPenalty)
      in \<lparr>tr_dyn = d\<lparr>access_mask := (if penalty_active then kAutoTruckBits else kTruckBit)\<rparr>,
          tr_toll_factor = toll_factor_of 2 4 (opt co ''use_tolls''),
          tr_low_class_penalty = opt co ''low_class_penalty'', tr_hazmat = flag co ''hazmat'',
          tr_weight = opt co ''weight'', tr_axle_load = opt co ''axle_load'', tr_height = opt co ''height'',
          tr_width = opt co ''width'', tr_length = opt co ''length'',
          tr_highway_factor = highway_factor_of (opt co ''use_highways''),
          tr_non_truck_route_factor = (if route < 1 / 2 then fadd kMinNonTruckRouteFactor (fmul 2 route)
            else fadd (fsub kMinNonTruckRouteFactor 5) (fmul 12 route)),
          tr_axle_count = word_of_int (c_trunc (opt co ''axle_count'')),
          tr_no_hgv_access_penalty = fmul (of_bool penalty_active) (opt co ''hgv_no_access_penalty''),
          tr_filter_closures = (if ignore_closures d then False else flag co ''filter_closures'')\<rparr>)"

section \<open>Access\<close>

definition truck_filter :: "truck_cost \<Rightarrow> (directed_edge \<Rightarrow> bool) \<Rightarrow> directed_edge \<Rightarrow> u16 \<Rightarrow> bool" where
  "truck_filter m = vehicle_filter (tr_dyn m) (tr_filter_closures m)"

definition truck_mode_allowed :: "truck_cost \<Rightarrow> access_restriction \<Rightarrow> bool" where
  "truck_mode_allowed m r \<longleftrightarrow>
     (if ar_type r = kHazmat then \<not> (tr_hazmat m \<and> ar_value r = 0)
      else if ar_type r = kMaxAxleLoad then \<not> centi (ar_value r) < tr_axle_load m
      else if ar_type r = kMaxAxles then \<not> ucast (ar_value r) < tr_axle_count m
      else if ar_type r = kMaxHeight then \<not> centi (ar_value r) < tr_height m
      else if ar_type r = kMaxLength then \<not> centi (ar_value r) < tr_length m
      else if ar_type r = kMaxWeight then \<not> centi (ar_value r) < tr_weight m
      else if ar_type r = kMaxWidth then \<not> centi (ar_value r) < tr_width m
      else True)"

definition truck_checks :: "truck_cost \<Rightarrow> (directed_edge \<Rightarrow> bool) \<Rightarrow> directed_edge \<Rightarrow> 'a sif_label_scheme \<Rightarrow> graph_id \<Rightarrow> bool" where
  "truck_checks m closed_now e pred edgeid \<longleftrightarrow>
     (let d = tr_dyn m
      in \<not> (\<not> IsAccessible d e \<or> turns_back pred e
        \<or> in_mask (lab_restrictions pred) (unat (de_localedgeidx e)) \<and> \<not> ignore_turn_restrictions d
        \<or> de_surface e = kImpassable \<or> IsUserAvoidEdge d (gid_value edgeid)
        \<or> \<not> allow_destination_only d \<and> \<not> lab_dest_only pred \<and> de_dest_only_hgv e
        \<or> lab_closure_pruning pred \<and> IsClosed d closed_now e
        \<or> exclude_unpaved d \<and> \<not> lab_unpaved pred \<and> unpaved e \<or> CheckExclusions d e (pred_view pred)))"

definition truck_checks_reverse :: "truck_cost \<Rightarrow> (directed_edge \<Rightarrow> bool) \<Rightarrow> directed_edge \<Rightarrow> 'a sif_label_scheme
    \<Rightarrow> directed_edge \<Rightarrow> graph_id \<Rightarrow> bool" where
  "truck_checks_reverse m closed_now e pred opp opp_edgeid \<longleftrightarrow>
     (let d = tr_dyn m
      in \<not> (\<not> IsAccessible d opp \<or> turns_back pred e
        \<or> in_mask (de_restrictions opp) (unat (lab_opp_local_idx pred)) \<and> \<not> ignore_turn_restrictions d
        \<or> de_surface opp = kImpassable \<or> IsUserAvoidEdge d (gid_value opp_edgeid)
        \<or> \<not> allow_destination_only d \<and> \<not> lab_dest_only pred \<and> de_dest_only_hgv opp
        \<or> lab_closure_pruning pred \<and> IsClosed d closed_now opp
        \<or> exclude_unpaved d \<and> \<not> lab_unpaved pred \<and> unpaved opp \<or> CheckExclusions d opp (pred_view pred)))"

definition truck_allowed :: "truck_cost \<Rightarrow> conditional_active \<Rightarrow> (directed_edge \<Rightarrow> bool) \<Rightarrow> directed_edge \<Rightarrow> bool
    \<Rightarrow> 'a sif_label_scheme \<Rightarrow> routing_tile \<Rightarrow> graph_id \<Rightarrow> u64 \<Rightarrow> u32 \<Rightarrow> u8 \<Rightarrow> u8 \<Rightarrow> bool \<times> u8 \<times> u8" where
  "truck_allowed m active closed_now e is_dest pred tile edgeid time tz idx exempt =
     (if truck_checks m closed_now e pred edgeid
      then EvaluateRestrictions (tr_dyn m) (truck_mode_allowed m) active (access_mask (tr_dyn m)) e is_dest tile edgeid
        time tz idx exempt
      else (False, idx, exempt))"

definition truck_allowed_reverse :: "truck_cost \<Rightarrow> conditional_active \<Rightarrow> (directed_edge \<Rightarrow> bool) \<Rightarrow> directed_edge
    \<Rightarrow> 'a sif_label_scheme \<Rightarrow> directed_edge \<Rightarrow> routing_tile \<Rightarrow> graph_id \<Rightarrow> u64 \<Rightarrow> u32 \<Rightarrow> u8 \<Rightarrow> u8 \<Rightarrow> bool \<times> u8 \<times> u8" where
  "truck_allowed_reverse m active closed_now e pred opp tile opp_edgeid time tz idx exempt =
     (if truck_checks_reverse m closed_now e pred opp opp_edgeid
      then EvaluateRestrictions (tr_dyn m) (truck_mode_allowed m) active (access_mask (tr_dyn m)) opp False tile
        opp_edgeid time tz idx exempt
      else (False, idx, exempt))"

section \<open>Edges\<close>

definition truck_speed_limit :: "truck_cost \<Rightarrow> directed_edge \<Rightarrow> nat" where
  "truck_speed_limit m e =
     (let t = dc_top_speed (tr_dyn m); v = unat (de_truck_speed e) in if v \<noteq> 0 then min v t else t)"

definition truck_base_factor :: "truck_cost \<Rightarrow> tile_speeds \<Rightarrow> nat \<Rightarrow> directed_edge \<Rightarrow> time_info \<Rightarrow> u8 \<Rightarrow> nat \<Rightarrow> rat result" where
  "truck_base_factor m ts idx e ti src speed =
     (let d = tr_dyn m
      in if use_of e = kFerry then Inr (ferry_factor d)
         else if use_of e = kRailFerry then Inr (rail_ferry_factor d)
         else bind_result (table kHighwayFactor (unat (de_classification e))) (\<lambda>highway.
           bind_result (table kSurfaceFactor (unat (de_surface e))) (\<lambda>surface.
           bind_result (SpeedPenalty d ts idx e ti src speed) (\<lambda>penalty.
             Inr (fadd (fadd (fadd (kDensityFactor (de_density e)) (fmul (tr_highway_factor m) highway)) surface) penalty)))))"

definition truck_factor :: "truck_cost \<Rightarrow> tile_speeds \<Rightarrow> nat \<Rightarrow> directed_edge \<Rightarrow> time_info \<Rightarrow> u8 \<Rightarrow> nat \<Rightarrow> rat result" where
  "truck_factor m ts idx e ti src speed =
     (let d = tr_dyn m
      in bind_result (truck_base_factor m ts idx e ti src speed) (\<lambda>f0.
         bind_result (edge_closed d ts idx) (\<lambda>is_closed.
           let f1 = fmul f0 (if de_truck_route e then kTruckRouteFactor else tr_non_truck_route_factor m);
               f2 = (if de_toll e then fadd f1 (tr_toll_factor m) else f1);
               f3 = road_use_factor d e f2
           in Inr (if is_closed then fmul f3 (dc_closure_factor d) else f3))))"

definition truck_edge_cost :: "truck_cost \<Rightarrow> tile_speeds \<Rightarrow> nat \<Rightarrow> directed_edge \<Rightarrow> time_info \<Rightarrow> environment_scores \<Rightarrow> u8
    \<Rightarrow> (cost \<times> u8) result" where
  "truck_edge_cost m ts idx e ti env stale =
     (let d = tr_dyn m; len = edge_length e
      in bind_result (edge_speed d ts idx e ti True stale) (\<lambda>(speed, src).
         bind_result (kSpeedFactor (min speed (truck_speed_limit m e))) (\<lambda>pace.
           let sec = fmul len pace
           in if shortest d then Inr (\<lparr>cost = len, secs = sec\<rparr>, src)
              else bind_result (truck_factor m ts idx e ti src speed) (\<lambda>factor.
                Inr (\<lparr>cost = fmul sec (truck_discount d env factor), secs = sec\<rparr>, src)))))"

definition truck_AStarCostFactor :: "truck_cost \<Rightarrow> rat result" where
  "truck_AStarCostFactor m = kSpeedFactor (dc_top_speed (tr_dyn m))"

section \<open>Transitions\<close>

definition low_class :: "directed_edge \<Rightarrow> bool" where
  "low_class e \<longleftrightarrow> de_classification e = 6 \<or> de_classification e = 7"

text \<open>The penalties for minor roads and for leaving the roads trucks may use.\<close>

definition truck_penalties :: "truck_cost \<Rightarrow> bool \<Rightarrow> directed_edge \<Rightarrow> cost \<Rightarrow> cost" where
  "truck_penalties m from_hgv e c =
     (let c' = (if low_class e then c\<lparr>cost := fadd (cost c) (tr_low_class_penalty m)\<rparr> else c)
      in c'\<lparr>cost := fadd (cost c')
        (fmul (tr_no_hgv_access_penalty m) (of_bool (from_hgv \<and> de_forwardaccess e AND kTruckBit = 0)))\<rparr>)"

definition truck_transition :: "(rat \<Rightarrow> rat) \<Rightarrow> truck_cost \<Rightarrow> directed_edge \<Rightarrow> nodeinfo \<Rightarrow> 'a sif_label_scheme \<Rightarrow> cost" where
  "truck_transition expf m e n pred =
     (let d = tr_dyn m; idx = unat (lab_opp_local_idx pred);
          c = add_secs (OSRMCarTurnDuration expf e n (ucast (lab_opp_local_idx pred)))
            (base_transition_cost d (costing_node n) e (pred_view pred) idx)
      in add_turn d e n idx (unat (lab_use pred) = kRamp) True (lab_internal_turn pred) (lab_has_measured_speed pred)
           (truck_penalties m (lab_hgv_access pred) e c))"

definition truck_transition_reverse :: "(rat \<Rightarrow> rat) \<Rightarrow> truck_cost \<Rightarrow> nat \<Rightarrow> nodeinfo \<Rightarrow> directed_edge \<Rightarrow> directed_edge
    \<Rightarrow> bool \<Rightarrow> 2 word \<Rightarrow> cost" where
  "truck_transition_reverse expf m idx n pred e measured internal =
     (let d = tr_dyn m;
          c = add_secs (OSRMCarTurnDuration expf e n (ucast (de_opp_local_idx pred)))
            (base_transition_cost d (costing_node n) e (edge_as_pred pred) idx)
      in add_turn d e n idx (use_of pred = kRamp) True internal measured
           (truck_penalties m (de_forwardaccess pred AND kTruckBit \<noteq> 0) e c))"

section \<open>The members of a parsed request\<close>

definition truck_ok :: "truck_cost \<Rightarrow> bool" where
  "truck_ok m \<longleftrightarrow> base_ok (tr_dyn m) \<and> 1 / 2 \<le> rail_ferry_factor (tr_dyn m) \<and> - 1 / 8 \<le> tr_highway_factor m
     \<and> 1 \<le> tr_non_truck_route_factor m \<and> - 1 / 64 \<le> tr_toll_factor m \<and> 0 \<le> tr_low_class_penalty m
     \<and> 0 \<le> tr_no_hgv_access_penalty m"

lemma truck_good_specs: "good_specs truck_config truck_specs"
  using constants
  by (simp add: good_specs_def truck_specs_def base_ranges_def penalty_ranges_def preference_ranges_def
      comfort_ranges_def truck_config_def base_default_def sane_def fits_range_def rng_def kMaxSpeedKph_def float_eval)

lemma truck_standard: "standard_ranges truck_config" "\<not> disable_ferry truck_config" "\<not> disable_rail_ferry truck_config"
  using constants
  by (simp_all add: standard_ranges_def truck_config_def base_default_def sane_def fits_range_def rng_def float_eval)

lemma truck_options:
  assumes r: "all_in_range truck_config truck_specs co"
  shows "0 \<le> opt co ''use_highways''" "opt co ''use_highways'' \<le> 1" "0 \<le> opt co ''use_tolls''" "opt co ''use_tolls'' \<le> 1"
    "0 \<le> opt co ''use_truck_route''" "0 \<le> opt co ''low_class_penalty''" "0 \<le> opt co ''hgv_no_access_penalty''"
proof -
  have "list_all (\<lambda>(k, n, r). fits_range r (opt co n)) truck_specs"
    using r opt_within by (fastforce simp: all_in_range_def list_all_iff)
  then show "0 \<le> opt co ''use_highways''" "opt co ''use_highways'' \<le> 1" "0 \<le> opt co ''use_tolls''"
    "opt co ''use_tolls'' \<le> 1" "0 \<le> opt co ''use_truck_route''" "0 \<le> opt co ''low_class_penalty''"
    "0 \<le> opt co ''hgv_no_access_penalty''"
    by (simp_all add: truck_specs_def fits_range_def rng_def)
qed

lemma truck_ok_created:
  assumes r: "all_in_range truck_config truck_specs co" shows "truck_ok (CreateTruckCost co)"
proof -
  note o = truck_options [OF r] and b = base_options [OF r truck_standard(1)]
  have "base_ok (get_base_costs co (new_dynamic_cost co kTruckBit True True))"
    by (rule base_ok_created [OF r truck_standard(1,2)]) (simp_all add: new_dynamic_cost_def float_eval)
  then have "base_ok ((get_base_costs co (new_dynamic_cost co kTruckBit True True))\<lparr>access_mask := x\<rparr>)" for x
    by (simp add: base_ok_def layers_ok_def)
  moreover have "1 / 2 \<le> ferry_factor_of (opt co ''use_rail_ferry'')"
    using b(11,12) truck_standard(3) by (intro ferry_factor_of_ge) simp_all
  moreover have "0 \<le> fmul (of_bool x) (opt co ''hgv_no_access_penalty'')" for x
    using o(7) by (intro fmul_nonneg) simp_all
  moreover have "1 \<le> tr_non_truck_route_factor (CreateTruckCost co)"
    using unlit_factor_ge [OF o(5)]
    unfolding CreateTruckCost_def Let_def kMinNonTruckRouteFactor_def by (simp only: truck_cost.simps)
  ultimately show ?thesis
    using highway_factor_ge [OF o(1,2)] toll_factor_ge [OF o(3,4), of 2 4] o(6)
    unfolding truck_ok_def by (simp add: CreateTruckCost_def Let_def get_base_costs_more)
qed

section \<open>The cost of an edge\<close>

lemma truck_base_factor_ge:
  assumes m: "truck_ok m" and f: "truck_base_factor m ts idx e ti src speed = Inr f"
  shows "1 / 4 \<le> f"
proof -
  have b: "base_ok (tr_dyn m)" "1 / 2 \<le> rail_ferry_factor (tr_dyn m)" using m by (simp_all add: truck_ok_def)
  consider "f = ferry_factor (tr_dyn m)" | "f = rail_ferry_factor (tr_dyn m)"
    | highway surface penalty where "table kHighwayFactor (unat (de_classification e)) = Inr highway"
      "table kSurfaceFactor (unat (de_surface e)) = Inr surface"
      "SpeedPenalty (tr_dyn m) ts idx e ti src speed = Inr penalty"
      "f = fadd (fadd (fadd (kDensityFactor (de_density e)) (fmul (tr_highway_factor m) highway)) surface) penalty"
    using f by (auto simp: truck_base_factor_def bind_result_eq_Inr Let_def split: if_splits)
  then show ?thesis
  proof cases
    case 3
    have hs: "0 \<le> highway" "highway \<le> 1" "0 \<le> surface"
      using 3(1,2) highway_surface_tables by (auto dest!: table_member simp: list_all_iff)
    have "- 1 / 8 \<le> fmul (tr_highway_factor m) highway" using m hs by (intro scaled_ge) (simp_all add: truck_ok_def)
    then have "1 / 4 \<le> fadd (kDensityFactor (de_density e)) (fmul (tr_highway_factor m) highway)"
      using kDensityFactor_ge(1) [of "de_density e"] by (intro f32_ge [OF eighth_floats(4)]) simp
    then have "1 / 4 \<le> fadd (fadd (kDensityFactor (de_density e)) (fmul (tr_highway_factor m) highway)) surface"
      using hs by (intro f32_ge [OF eighth_floats(4)]) simp
    then show ?thesis
      unfolding 3(4) using SpeedPenalty_nonneg [OF 3(3)] by (intro f32_ge [OF eighth_floats(4)]) simp
  qed (use b base_okD(5) [OF b(1)] in simp_all)
qed

lemma truck_factor_ok:
  assumes m: "truck_ok m" and f: "truck_factor m ts idx e ti src speed = Inr f"
  shows "0 \<le> f \<and> f32 f = f"
proof -
  obtain f0 is_closed where x: "truck_base_factor m ts idx e ti src speed = Inr f0" "edge_closed (tr_dyn m) ts idx = Inr is_closed"
    using f by (auto simp: truck_factor_def bind_result_eq_Inr Let_def)
  have b: "base_ok (tr_dyn m)" "1 \<le> tr_non_truck_route_factor m" "- 1 / 64 \<le> tr_toll_factor m"
    using m by (simp_all add: truck_ok_def)
  define q where "q = (if de_truck_route e then kTruckRouteFactor else tr_non_truck_route_factor m)"
  have "1 / 2 \<le> q" using b(2) by (simp add: q_def kTruckRouteFactor_def float_eval)
  then have "1 / 4 * (1 / 2) \<le> f0 * q" using truck_base_factor_ge [OF m x(1)] by (intro mult_mono) simp_all
  then have f1: "1 / 8 \<le> fmul f0 q" by (intro f32_ge [OF small_floats(4)]) simp
  then have "0 \<le> fadd (fmul f0 q) (tr_toll_factor m)" using b(3) by (intro float32.nonneg) simp
  moreover define f2 where "f2 = (if de_toll e then fadd (fmul f0 q) (tr_toll_factor m) else fmul f0 q)"
  ultimately have "0 \<le> f2" "f32 f2 = f2" using f1 by simp_all
  then have u: "0 \<le> road_use_factor (tr_dyn m) e f2" "f32 (road_use_factor (tr_dyn m) e f2) = road_use_factor (tr_dyn m) e f2"
    using road_use_factor_ok [OF b(1)] by blast+
  have "f = (if is_closed then fmul (road_use_factor (tr_dyn m) e f2) (dc_closure_factor (tr_dyn m))
      else road_use_factor (tr_dyn m) e f2)"
    using f unfolding truck_factor_def Let_def f2_def q_def by (simp only: x bind_result_simps sum.inject)
  then show ?thesis using closed_factor_ok [OF b(1) u] by simp
qed

lemma truck_edge_cost_shade:
  assumes m: "truck_ok m" and v: "env_le v v'"
  shows "shade_helps (truck_edge_cost m ts idx e ti v stale) (truck_edge_cost m ts idx e ti v' stale)"
  unfolding truck_edge_cost_def Let_def
  by (rule shade_helps_split, rule shade_helps_bind, rule shade_helps_edge)
    (use truck_factor_ok [OF m] v edge_length_nonneg pace_nonneg in \<open>auto simp: comfort_models_def\<close>)

end
