(* ===== verification/Motorcycle_Cost.thy ===== *)
theory Motorcycle_Cost
  imports Motor_Cost
begin

text \<open>
  \<^verbatim>\<open>MotorcycleCost\<close> (\<^verbatim>\<open>src/sif/motorcyclecost.cc\<close>) and \<^verbatim>\<open>MotorScooterCost\<close>
  (\<^verbatim>\<open>src/sif/motorscootercost.cc\<close>): the options of a request, the members computed from them, access,
  the costs of edges and of transitions.
\<close>

section \<open>Motorcycles: options and members\<close>

definition motorcycle_config :: base_config where
  "motorcycle_config = base_default\<lparr>disable_rail_ferry := True\<rparr>"

definition motorcycle_specs :: "vehicle_option list" where
  "motorcycle_specs =
     [(Float_option, ''use_highways'', rng 0 (1 / 2) 1),
      (Float_option, ''use_tolls'', rng 0 (1 / 2) 1),
      (Float_option, ''use_trails'', rng 0 0 1),
      (Uint_option, ''top_speed'', rng 10 (of_nat kMaxAssumedSpeed) kMaxSpeedKph)]"

definition ParseMotorcycleCostOptions :: "lexer \<Rightarrow> json \<Rightarrow> string list \<Rightarrow> costing_options \<Rightarrow> costing_options result" where
  "ParseMotorcycleCostOptions lx = parse_vehicle lx motorcycle_config motorcycle_specs [] ''motorcycle''"

record motorcycle_cost =
  mc_dyn :: dynamic_cost
  mc_toll_factor :: rat
  mc_surface_factor :: rat
  mc_highway_factor :: rat
  mc_filter_closures :: bool

definition kMotorcycleAccess :: "12 word" where "kMotorcycleAccess = 1024"
definition kMinimumMotorcycleSurface :: "3 word" where "kMinimumMotorcycleSurface = kImpassable"
definition kMaxTrailBiasFactor :: rat where "kMaxTrailBiasFactor = 8"

definition surface_factor_of :: "rat \<Rightarrow> rat" where
  "surface_factor_of use_trails =
     (if 1 / 2 \<le> use_trails then let f = fsub (1 / 2) use_trails in fmul (fmul f f) f
      else let f = fsub 1 (fmul use_trails 2) in f32 (of_int (c_trunc (fmul kMaxTrailBiasFactor (fmul f f)))))"

definition CreateMotorcycleCost :: "costing_options \<Rightarrow> motorcycle_cost" where
  "CreateMotorcycleCost co =
     (let d = get_base_costs co (new_dynamic_cost co kMotorcycleAccess False False)
      in \<lparr>mc_dyn = d, mc_toll_factor = toll_factor_of 2 4 (opt co ''use_tolls''),
          mc_surface_factor = surface_factor_of (opt co ''use_trails''),
          mc_highway_factor = highway_factor_of (opt co ''use_highways''),
          mc_filter_closures = (if ignore_closures d then False else flag co ''filter_closures'')\<rparr>)"

section \<open>Motorcycles: access\<close>

definition motorcycle_filter :: "motorcycle_cost \<Rightarrow> (directed_edge \<Rightarrow> bool) \<Rightarrow> directed_edge \<Rightarrow> u16 \<Rightarrow> bool" where
  "motorcycle_filter m = vehicle_filter (mc_dyn m) (mc_filter_closures m)"

definition two_wheel_checks :: "dynamic_cost \<Rightarrow> 3 word \<Rightarrow> (directed_edge \<Rightarrow> bool) \<Rightarrow> directed_edge \<Rightarrow> 'a sif_label_scheme
    \<Rightarrow> graph_id \<Rightarrow> bool" where
  "two_wheel_checks d worst closed_now e pred edgeid \<longleftrightarrow>
     \<not> (\<not> IsAccessible d e \<or> turns_back pred e
        \<or> in_mask (lab_restrictions pred) (unat (de_localedgeidx e)) \<and> \<not> ignore_turn_restrictions d
        \<or> worst < de_surface e \<or> IsUserAvoidEdge d (gid_value edgeid)
        \<or> \<not> allow_destination_only d \<and> \<not> lab_dest_only pred \<and> de_dest_only e
        \<or> lab_closure_pruning pred \<and> IsClosed d closed_now e \<or> CheckExclusions d e (pred_view pred))"

definition two_wheel_checks_reverse :: "dynamic_cost \<Rightarrow> 3 word \<Rightarrow> (directed_edge \<Rightarrow> bool) \<Rightarrow> directed_edge
    \<Rightarrow> 'a sif_label_scheme \<Rightarrow> directed_edge \<Rightarrow> graph_id \<Rightarrow> bool" where
  "two_wheel_checks_reverse d worst closed_now e pred opp opp_edgeid \<longleftrightarrow>
     \<not> (\<not> IsAccessible d opp \<or> turns_back pred e
        \<or> in_mask (de_restrictions opp) (unat (lab_opp_local_idx pred)) \<and> \<not> ignore_turn_restrictions d
        \<or> worst < de_surface opp \<or> IsUserAvoidEdge d (gid_value opp_edgeid)
        \<or> \<not> allow_destination_only d \<and> \<not> lab_dest_only pred \<and> de_dest_only opp
        \<or> lab_closure_pruning pred \<and> IsClosed d closed_now opp \<or> CheckExclusions d opp (pred_view pred))"

definition motorcycle_allowed :: "motorcycle_cost \<Rightarrow> conditional_active \<Rightarrow> (directed_edge \<Rightarrow> bool) \<Rightarrow> directed_edge \<Rightarrow> bool
    \<Rightarrow> 'a sif_label_scheme \<Rightarrow> routing_tile \<Rightarrow> graph_id \<Rightarrow> u64 \<Rightarrow> u32 \<Rightarrow> u8 \<Rightarrow> u8 \<Rightarrow> bool \<times> u8 \<times> u8" where
  "motorcycle_allowed m active closed_now e is_dest pred tile edgeid time tz idx exempt =
     (if two_wheel_checks (mc_dyn m) kMinimumMotorcycleSurface closed_now e pred edgeid
      then EvaluateRestrictions (mc_dyn m) (\<lambda>_. True) active (access_mask (mc_dyn m)) e is_dest tile edgeid time tz idx exempt
      else (False, idx, exempt))"

definition motorcycle_allowed_reverse :: "motorcycle_cost \<Rightarrow> conditional_active \<Rightarrow> (directed_edge \<Rightarrow> bool) \<Rightarrow> directed_edge
    \<Rightarrow> 'a sif_label_scheme \<Rightarrow> directed_edge \<Rightarrow> routing_tile \<Rightarrow> graph_id \<Rightarrow> u64 \<Rightarrow> u32 \<Rightarrow> u8 \<Rightarrow> u8 \<Rightarrow> bool \<times> u8 \<times> u8" where
  "motorcycle_allowed_reverse m active closed_now e pred opp tile opp_edgeid time tz idx exempt =
     (if two_wheel_checks_reverse (mc_dyn m) kMinimumMotorcycleSurface closed_now e pred opp opp_edgeid
      then EvaluateRestrictions (mc_dyn m) (\<lambda>_. True) active (access_mask (mc_dyn m)) opp False tile opp_edgeid time tz idx
        exempt
      else (False, idx, exempt))"

section \<open>Motorcycles: edges\<close>

definition motorcycle_factor :: "motorcycle_cost \<Rightarrow> tile_speeds \<Rightarrow> nat \<Rightarrow> directed_edge \<Rightarrow> time_info \<Rightarrow> u8 \<Rightarrow> nat \<Rightarrow> rat result" where
  "motorcycle_factor m ts idx e ti src speed =
     (let d = mc_dyn m
      in bind_result (table kHighwayFactor (unat (de_classification e))) (\<lambda>highway.
         bind_result (table kSurfaceFactor (unat (de_surface e))) (\<lambda>surface.
         bind_result (SpeedPenalty d ts idx e ti src speed) (\<lambda>penalty.
         bind_result (edge_closed d ts idx) (\<lambda>is_closed.
           let f0 = fadd (fadd (kDensityFactor (de_density e)) (fmul (mc_highway_factor m) highway))
                 (fmul (mc_surface_factor m) surface);
               f1 = fadd f0 penalty;
               f2 = (if de_toll e then fadd f1 (mc_toll_factor m) else f1);
               f3 = road_use_factor d e f2
           in Inr (if is_closed then fmul f3 (dc_closure_factor d) else f3))))))"

definition motorcycle_edge_cost :: "motorcycle_cost \<Rightarrow> tile_speeds \<Rightarrow> nat \<Rightarrow> directed_edge \<Rightarrow> time_info \<Rightarrow> environment_scores
    \<Rightarrow> u8 \<Rightarrow> (cost \<times> u8) result" where
  "motorcycle_edge_cost m ts idx e ti env stale =
     (let d = mc_dyn m; len = edge_length e
      in bind_result (edge_speed d ts idx e ti False stale) (\<lambda>(speed, src).
         bind_result (kSpeedFactor (min speed (dc_top_speed d))) (\<lambda>pace.
           let sec = fmul len pace
           in if shortest d then Inr (\<lparr>cost = len, secs = sec\<rparr>, src)
              else if use_of e = kFerry then Inr (\<lparr>cost = fmul sec (ferry_factor d), secs = sec\<rparr>, src)
              else bind_result (motorcycle_factor m ts idx e ti src speed) (\<lambda>factor.
                Inr (\<lparr>cost = fmul sec (motorcycle_discount d env factor), secs = sec\<rparr>, src)))))"

definition motorcycle_AStarCostFactor :: "motorcycle_cost \<Rightarrow> rat result" where
  "motorcycle_AStarCostFactor m = kSpeedFactor (dc_top_speed (mc_dyn m))"

section \<open>Transitions of both\<close>

text \<open>\<^verbatim>\<open>TransitionCost\<close> and \<^verbatim>\<open>TransitionCostReverse\<close>, the same code in both files.\<close>

definition two_wheel_transition :: "(rat \<Rightarrow> rat) \<Rightarrow> dynamic_cost \<Rightarrow> directed_edge \<Rightarrow> nodeinfo \<Rightarrow> 'a sif_label_scheme \<Rightarrow> cost" where
  "two_wheel_transition expf d e n pred =
     (let idx = unat (lab_opp_local_idx pred);
          c = add_secs (OSRMCarTurnDuration expf e n (ucast (lab_opp_local_idx pred)))
            (base_transition_cost d (costing_node n) e (pred_view pred) idx)
      in add_turn d e n idx (unat (lab_use pred) = kRamp) False 0 (lab_has_measured_speed pred) c)"

definition two_wheel_transition_reverse :: "(rat \<Rightarrow> rat) \<Rightarrow> dynamic_cost \<Rightarrow> nat \<Rightarrow> nodeinfo \<Rightarrow> directed_edge \<Rightarrow> directed_edge
    \<Rightarrow> bool \<Rightarrow> 2 word \<Rightarrow> cost" where
  "two_wheel_transition_reverse expf d idx n pred e measured internal =
     (let c = add_secs (OSRMCarTurnDuration expf e n (ucast (de_opp_local_idx pred)))
            (base_transition_cost d (costing_node n) e (edge_as_pred pred) idx)
      in add_turn d e n idx (use_of pred = kRamp) False 0 measured c)"

section \<open>Motor scooters\<close>

definition scooter_config :: base_config where
  "scooter_config = base_default\<lparr>
     dest_only_penalty := (dest_only_penalty base_default)\<lparr>rd_def := 120\<rparr>,
     disable_toll_booth := True, disable_rail_ferry := True\<rparr>"

definition scooter_specs :: "vehicle_option list" where
  "scooter_specs =
     [(Uint_option, ''top_speed'', rng 20 45 120),
      (Float_option, ''use_hills'', rng 0 (1 / 2) 1),
      (Float_option, ''use_primary'', rng 0 (1 / 2) 1)]"

definition ParseMotorScooterCostOptions :: "lexer \<Rightarrow> json \<Rightarrow> string list \<Rightarrow> costing_options \<Rightarrow> costing_options result" where
  "ParseMotorScooterCostOptions lx = parse_vehicle lx scooter_config scooter_specs [] ''motor_scooter''"

definition scooterRoadClassFactor :: "rat list" where
  "scooterRoadClassFactor = [1, 1 / 2, f32 (2 / 10), f32 (1 / 10), f32 (5 / 100), f32 (5 / 100), 0, 1 / 2]"

definition scooterAvoidHillsStrength :: "rat list" where
  "scooterAvoidHillsStrength = [1, f32 (8 / 10), 1 / 2, f32 (2 / 10), f32 (1 / 10), 0, f32 (5 / 100), f32 (1 / 10),
     f32 (3 / 10), f32 (8 / 10), 2, 3, 9 / 2, 6, 8, 10]"

definition scooterGradeSpeedFactor :: "rat list" where
  "scooterGradeSpeedFactor = [5 / 4, f32 (12 / 10), f32 (115 / 100), f32 (11 / 10), f32 (105 / 100), 1, 1, 1,
     f32 (95 / 100), 3 / 4, f32 (6 / 10), 1 / 2, f32 (45 / 100), f32 (4 / 10), f32 (35 / 100), 1 / 4]"

definition kSurfaceSpeedFactors :: "rat list" where
  "kSurfaceSpeedFactors = [1, 1, f32 (9 / 10), f32 (6 / 10), f32 (1 / 10), 0, 0, 0]"

definition kMopedAccess :: "12 word" where "kMopedAccess = 512"
definition kMinimumScooterSurface :: "3 word" where "kMinimumScooterSurface = 4"
definition kDestinationOnlyFactor :: rat where "kDestinationOnlyFactor = f32 (2 / 10)"

record scooter_cost =
  sc_dyn :: dynamic_cost
  sc_road_factor :: rat
  sc_grade_penalty :: "rat list"
  sc_filter_closures :: bool

definition CreateMotorScooterCost :: "costing_options \<Rightarrow> scooter_cost" where
  "CreateMotorScooterCost co =
     (let d = get_base_costs co (new_dynamic_cost co kMopedAccess False False);
          avoid_hills = fsub 1 (opt co ''use_hills''); use_primary = opt co ''use_primary''
      in \<lparr>sc_dyn = d,
          sc_road_factor = (if 1 / 2 \<le> use_primary then fsub (3 / 2) use_primary else fsub 3 (fmul use_primary 5)),
          sc_grade_penalty = map (fmul avoid_hills) scooterAvoidHillsStrength,
          sc_filter_closures = (if ignore_closures d then False else flag co ''filter_closures'')\<rparr>)"

definition scooter_filter :: "scooter_cost \<Rightarrow> (directed_edge \<Rightarrow> bool) \<Rightarrow> directed_edge \<Rightarrow> u16 \<Rightarrow> bool" where
  "scooter_filter m = vehicle_filter (sc_dyn m) (sc_filter_closures m)"

definition scooter_allowed :: "scooter_cost \<Rightarrow> conditional_active \<Rightarrow> (directed_edge \<Rightarrow> bool) \<Rightarrow> directed_edge \<Rightarrow> bool
    \<Rightarrow> 'a sif_label_scheme \<Rightarrow> routing_tile \<Rightarrow> graph_id \<Rightarrow> u64 \<Rightarrow> u32 \<Rightarrow> u8 \<Rightarrow> u8 \<Rightarrow> bool \<times> u8 \<times> u8" where
  "scooter_allowed m active closed_now e is_dest pred tile edgeid time tz idx exempt =
     (if two_wheel_checks (sc_dyn m) kMinimumScooterSurface closed_now e pred edgeid
      then EvaluateRestrictions (sc_dyn m) (\<lambda>_. True) active (access_mask (sc_dyn m)) e is_dest tile edgeid time tz idx exempt
      else (False, idx, exempt))"

definition scooter_allowed_reverse :: "scooter_cost \<Rightarrow> conditional_active \<Rightarrow> (directed_edge \<Rightarrow> bool) \<Rightarrow> directed_edge
    \<Rightarrow> 'a sif_label_scheme \<Rightarrow> directed_edge \<Rightarrow> routing_tile \<Rightarrow> graph_id \<Rightarrow> u64 \<Rightarrow> u32 \<Rightarrow> u8 \<Rightarrow> u8 \<Rightarrow> bool \<times> u8 \<times> u8" where
  "scooter_allowed_reverse m active closed_now e pred opp tile opp_edgeid time tz idx exempt =
     (if two_wheel_checks_reverse (sc_dyn m) kMinimumScooterSurface closed_now e pred opp opp_edgeid
      then EvaluateRestrictions (sc_dyn m) (\<lambda>_. True) active (access_mask (sc_dyn m)) opp False tile opp_edgeid time tz idx
        exempt
      else (False, idx, exempt))"

text \<open>\<^verbatim>\<open>std::max(1.f, ...)\<close>, converted to \<^verbatim>\<open>uint32_t\<close>.\<close>

definition scooter_speed :: "scooter_cost \<Rightarrow> directed_edge \<Rightarrow> nat \<Rightarrow> nat result" where
  "scooter_speed m e speed =
     bind_result (table kSurfaceSpeedFactors (unat (de_surface e))) (\<lambda>surface.
     bind_result (table scooterGradeSpeedFactor (unat (de_weighted_grade e))) (\<lambda>grade.
       Inr (nat (c_trunc (max 1 (fmul (fmul (f32 (of_nat (min (dc_top_speed (sc_dyn m)) speed))) surface) grade))))))"

definition scooter_factor :: "scooter_cost \<Rightarrow> tile_speeds \<Rightarrow> nat \<Rightarrow> directed_edge \<Rightarrow> time_info \<Rightarrow> u8 \<Rightarrow> nat \<Rightarrow> rat result" where
  "scooter_factor m ts idx e ti src speed =
     (let d = sc_dyn m
      in bind_result (table scooterRoadClassFactor (unat (de_classification e))) (\<lambda>road.
         bind_result (table (sc_grade_penalty m) (unat (de_weighted_grade e))) (\<lambda>grade.
         bind_result (SpeedPenalty d ts idx e ti src speed) (\<lambda>penalty.
         bind_result (edge_closed d ts idx) (\<lambda>is_closed.
           let f0 = fadd (fadd (fadd (fadd 1 (fsub (kDensityFactor (de_density e)) (f32 (85 / 100))))
                 (fmul (sc_road_factor m) road)) grade) penalty;
               f1 = (if de_dest_only e then fadd f0 kDestinationOnlyFactor else f0);
               f2 = road_use_factor d e f1
           in Inr (if is_closed then fmul f2 (dc_closure_factor d) else f2))))))"

definition scooter_edge_cost :: "scooter_cost \<Rightarrow> tile_speeds \<Rightarrow> nat \<Rightarrow> directed_edge \<Rightarrow> time_info \<Rightarrow> environment_scores
    \<Rightarrow> u8 \<Rightarrow> (cost \<times> u8) result" where
  "scooter_edge_cost m ts idx e ti env stale =
     (let d = sc_dyn m; len = edge_length e
      in bind_result (edge_speed d ts idx e ti False stale) (\<lambda>(speed, src).
         if use_of e = kFerry
         then bind_result (kSpeedFactor speed) (\<lambda>pace.
           let sec = fmul len pace in Inr (\<lparr>cost = fmul sec (ferry_factor d), secs = sec\<rparr>, src))
         else bind_result (scooter_speed m e speed) (\<lambda>v.
           bind_result (kSpeedFactor v) (\<lambda>pace.
             let sec = fmul len pace
             in if shortest d then Inr (\<lparr>cost = len, secs = sec\<rparr>, src)
                else bind_result (scooter_factor m ts idx e ti src speed) (\<lambda>factor.
                  Inr (\<lparr>cost = fmul sec (motorscooter_discount d env factor), secs = sec\<rparr>, src))))))"

definition scooter_AStarCostFactor :: "scooter_cost \<Rightarrow> rat result" where
  "scooter_AStarCostFactor m = kSpeedFactor (dc_top_speed (sc_dyn m))"

section \<open>The members of a parsed request\<close>

definition motorcycle_ok :: "motorcycle_cost \<Rightarrow> bool" where
  "motorcycle_ok m \<longleftrightarrow> base_ok (mc_dyn m) \<and> - 1 / 8 \<le> mc_highway_factor m \<and> - 1 / 8 \<le> mc_surface_factor m
     \<and> - 1 / 64 \<le> mc_toll_factor m"

definition scooter_ok :: "scooter_cost \<Rightarrow> bool" where
  "scooter_ok m \<longleftrightarrow> base_ok (sc_dyn m) \<and> 0 \<le> sc_road_factor m \<and> list_all (\<lambda>g. 0 \<le> g) (sc_grade_penalty m)"

lemma two_wheel_good_specs: "good_specs motorcycle_config motorcycle_specs" "good_specs scooter_config scooter_specs"
  using constants
  by (simp_all add: good_specs_def motorcycle_specs_def scooter_specs_def base_ranges_def penalty_ranges_def
      preference_ranges_def comfort_ranges_def motorcycle_config_def scooter_config_def base_default_def sane_def
      fits_range_def rng_def kMaxSpeedKph_def kMaxAssumedSpeed_def float_eval)

lemma two_wheel_standard: "standard_ranges motorcycle_config" "\<not> disable_ferry motorcycle_config"
  "standard_ranges scooter_config" "\<not> disable_ferry scooter_config"
  using constants
  by (simp_all add: standard_ranges_def motorcycle_config_def scooter_config_def base_default_def sane_def
      fits_range_def rng_def float_eval)

lemma surface_factor_ge: "0 \<le> use \<Longrightarrow> use \<le> 1 \<Longrightarrow> - 1 / 8 \<le> surface_factor_of use"
proof (cases "1 / 2 \<le> use")
  case False
  have "0 \<le> fmul kMaxTrailBiasFactor (fmul (fsub 1 (fmul use 2)) (fsub 1 (fmul use 2)))"
    by (intro fmul_nonneg float32.nonneg) (simp_all add: kMaxTrailBiasFactor_def)
  then have "0 \<le> f32 (of_int (c_trunc (fmul kMaxTrailBiasFactor (fmul (fsub 1 (fmul use 2)) (fsub 1 (fmul use 2))))))"
    by (intro float32.nonneg) (simp add: c_trunc_def)
  then show ?thesis using False by (simp add: surface_factor_of_def Let_def)
qed (use cube_ge in \<open>simp add: surface_factor_of_def\<close>)

lemma motorcycle_ok_created:
  assumes r: "all_in_range motorcycle_config motorcycle_specs co" shows "motorcycle_ok (CreateMotorcycleCost co)"
proof -
  have "list_all (\<lambda>(k, n, r). fits_range r (opt co n)) motorcycle_specs"
    using r opt_within by (fastforce simp: all_in_range_def list_all_iff)
  then have o: "0 \<le> opt co ''use_highways''" "opt co ''use_highways'' \<le> 1" "0 \<le> opt co ''use_tolls''"
    "opt co ''use_tolls'' \<le> 1" "0 \<le> opt co ''use_trails''" "opt co ''use_trails'' \<le> 1"
    by (simp_all add: motorcycle_specs_def fits_range_def rng_def)
  have "base_ok (get_base_costs co (new_dynamic_cost co kMotorcycleAccess False False))"
    by (rule base_ok_created [OF r two_wheel_standard(1,2)]) (simp_all add: new_dynamic_cost_def float_eval)
  then show ?thesis
    using highway_factor_ge [OF o(1,2)] toll_factor_ge [OF o(3,4), of 2 4] surface_factor_ge [OF o(5,6)]
    by (simp add: motorcycle_ok_def CreateMotorcycleCost_def Let_def)
qed

lemma scooter_tables: "list_all (\<lambda>x. 0 \<le> x) scooterRoadClassFactor" "list_all (\<lambda>x. 0 \<le> x) scooterAvoidHillsStrength"
  "0 \<le> kDestinationOnlyFactor"
  by (simp_all add: scooterRoadClassFactor_def scooterAvoidHillsStrength_def kDestinationOnlyFactor_def float_eval)

lemma scooter_ok_created:
  assumes r: "all_in_range scooter_config scooter_specs co" shows "scooter_ok (CreateMotorScooterCost co)"
proof -
  have "list_all (\<lambda>(k, n, r). fits_range r (opt co n)) scooter_specs"
    using r opt_within by (fastforce simp: all_in_range_def list_all_iff)
  then have o: "0 \<le> opt co ''use_hills''" "opt co ''use_hills'' \<le> 1" "0 \<le> opt co ''use_primary''" "opt co ''use_primary'' \<le> 1"
    by (simp_all add: scooter_specs_def fits_range_def rng_def)
  have "base_ok (get_base_costs co (new_dynamic_cost co kMopedAccess False False))"
    by (rule base_ok_created [OF r two_wheel_standard(3,4)]) (simp_all add: new_dynamic_cost_def float_eval)
  moreover have "0 \<le> (if 1 / 2 \<le> opt co ''use_primary'' then fsub (3 / 2) (opt co ''use_primary'')
      else fsub 3 (fmul (opt co ''use_primary'') 5))"
  proof (cases "1 / 2 \<le> opt co ''use_primary''")
    case False
    then have "fmul (opt co ''use_primary'') 5 \<le> 3" by (intro f32_le small_floats) simp
    then show ?thesis using False by (simp add: float32.nonneg)
  qed (use o(4) in \<open>simp add: float32.nonneg\<close>)
  ultimately show ?thesis
    using avoid_hills_nonneg [OF o(1,2) scooter_tables(2)]
    by (simp add: scooter_ok_def CreateMotorScooterCost_def Let_def)
qed

section \<open>The cost of an edge\<close>

lemma motorcycle_factor_ok:
  assumes m: "motorcycle_ok m" and f: "motorcycle_factor m ts idx e ti src speed = Inr f"
  shows "0 \<le> f \<and> f32 f = f"
proof -
  let ?d = "mc_dyn m"
  obtain highway surface penalty is_closed where x: "table kHighwayFactor (unat (de_classification e)) = Inr highway"
    "table kSurfaceFactor (unat (de_surface e)) = Inr surface" "SpeedPenalty ?d ts idx e ti src speed = Inr penalty"
    "edge_closed ?d ts idx = Inr is_closed"
    using f by (auto simp: motorcycle_factor_def bind_result_eq_Inr Let_def)
  define f0 where "f0 = fadd (fadd (kDensityFactor (de_density e)) (fmul (mc_highway_factor m) highway))
    (fmul (mc_surface_factor m) surface)"
  define f2 where "f2 = (if de_toll e then fadd (fadd f0 penalty) (mc_toll_factor m) else fadd f0 penalty)"
  have b: "base_ok ?d" "- 1 / 64 \<le> mc_toll_factor m" using m by (simp_all add: motorcycle_ok_def)
  have hs: "0 \<le> highway" "highway \<le> 1" "0 \<le> surface" "surface \<le> 1"
    using x(1,2) highway_surface_tables by (auto dest!: table_member simp: list_all_iff)
  have h: "- 1 / 8 \<le> fmul (mc_highway_factor m) highway" "- 1 / 8 \<le> fmul (mc_surface_factor m) surface"
    using scaled_ge [of "mc_highway_factor m" highway] scaled_ge [of "mc_surface_factor m" surface] m hs
    by (simp_all add: motorcycle_ok_def)
  have "3 / 8 \<le> fadd (kDensityFactor (de_density e)) (fmul (mc_highway_factor m) highway)"
    using h(1) kDensityFactor_ge(1) [of "de_density e"] by (intro f32_ge) (simp_all add: float_eval)
  then have "1 / 4 \<le> f0" unfolding f0_def using h(2) by (intro f32_ge [OF eighth_floats(4)]) simp
  then have "1 / 4 \<le> fadd f0 penalty"
    using SpeedPenalty_nonneg [OF x(3)] by (intro f32_ge [OF eighth_floats(4)]) simp
  then have "0 \<le> f2" using b(2) by (simp add: f2_def float32.nonneg)
  moreover have "f32 f2 = f2" by (simp add: f2_def)
  ultimately have u: "0 \<le> road_use_factor ?d e f2" "f32 (road_use_factor ?d e f2) = road_use_factor ?d e f2"
    using road_use_factor_ok [OF b(1)] by blast+
  have "f = (if is_closed then fmul (road_use_factor ?d e f2) (dc_closure_factor ?d) else road_use_factor ?d e f2)"
    using f unfolding motorcycle_factor_def Let_def f2_def f0_def by (simp only: x bind_result_simps sum.inject)
  then show ?thesis using closed_factor_ok [OF b(1) u] by simp
qed

lemma scooter_factor_ok:
  assumes m: "scooter_ok m" and f: "scooter_factor m ts idx e ti src speed = Inr f"
  shows "0 \<le> f \<and> f32 f = f"
proof -
  let ?d = "sc_dyn m"
  obtain road grade penalty is_closed where x: "table scooterRoadClassFactor (unat (de_classification e)) = Inr road"
    "table (sc_grade_penalty m) (unat (de_weighted_grade e)) = Inr grade" "SpeedPenalty ?d ts idx e ti src speed = Inr penalty"
    "edge_closed ?d ts idx = Inr is_closed"
    using f by (auto simp: scooter_factor_def bind_result_eq_Inr Let_def)
  define f0 where "f0 = fadd (fadd (fadd (fadd 1 (fsub (kDensityFactor (de_density e)) (f32 (85 / 100))))
    (fmul (sc_road_factor m) road)) grade) penalty"
  define f1 where "f1 = (if de_dest_only e then fadd f0 kDestinationOnlyFactor else f0)"
  have b: "base_ok ?d" "0 \<le> sc_road_factor m" "list_all (\<lambda>g. 0 \<le> g) (sc_grade_penalty m)"
    using m by (simp_all add: scooter_ok_def)
  have "0 \<le> f0" unfolding f0_def
    using table_nonneg [OF x(1) scooter_tables(1)] table_nonneg [OF x(2) b(3)] b(2) SpeedPenalty_nonneg [OF x(3)]
      kDensityFactor_ge(2)
    by (intro float32.nonneg [OF add_nonneg_nonneg] float32.nonneg [OF mult_nonneg_nonneg] kDensityFactor_ge(2)) simp_all
  then have "0 \<le> f1" "f32 f1 = f1" using scooter_tables(3) by (simp_all add: f1_def f0_def float32.nonneg)
  then have u: "0 \<le> road_use_factor ?d e f1" "f32 (road_use_factor ?d e f1) = road_use_factor ?d e f1"
    using road_use_factor_ok [OF b(1)] by blast+
  have "f = (if is_closed then fmul (road_use_factor ?d e f1) (dc_closure_factor ?d) else road_use_factor ?d e f1)"
    using f unfolding scooter_factor_def Let_def f1_def f0_def by (simp only: x bind_result_simps sum.inject)
  then show ?thesis using closed_factor_ok [OF b(1) u] by simp
qed

lemma motorcycle_edge_cost_shade:
  assumes m: "motorcycle_ok m" and v: "env_le v v'"
  shows "shade_helps (motorcycle_edge_cost m ts idx e ti v stale) (motorcycle_edge_cost m ts idx e ti v' stale)"
  unfolding motorcycle_edge_cost_def Let_def
proof (rule shade_helps_split, rule shade_helps_bind)
  fix sp src pace assume p: "kSpeedFactor (min sp (dc_top_speed (mc_dyn m))) = Inr pace"
  note sec = pace_nonneg [OF p, of e]
  have b: "base_ok (mc_dyn m)" using m by (simp add: motorcycle_ok_def)
  have cm: "motorcycle_discount \<in> set comfort_models" by (simp add: comfort_models_def)
  show "shade_helps
     (if shortest (mc_dyn m) then Inr (\<lparr>cost = edge_length e, secs = fmul (edge_length e) pace\<rparr>, src)
      else if use_of e = kFerry
        then Inr (\<lparr>cost = fmul (fmul (edge_length e) pace) (ferry_factor (mc_dyn m)), secs = fmul (edge_length e) pace\<rparr>, src)
      else bind_result (motorcycle_factor m ts idx e ti src sp) (\<lambda>factor.
        Inr (\<lparr>cost = fmul (fmul (edge_length e) pace) (motorcycle_discount (mc_dyn m) v factor),
          secs = fmul (edge_length e) pace\<rparr>, src)))
     (if shortest (mc_dyn m) then Inr (\<lparr>cost = edge_length e, secs = fmul (edge_length e) pace\<rparr>, src)
      else if use_of e = kFerry
        then Inr (\<lparr>cost = fmul (fmul (edge_length e) pace) (ferry_factor (mc_dyn m)), secs = fmul (edge_length e) pace\<rparr>, src)
      else bind_result (motorcycle_factor m ts idx e ti src sp) (\<lambda>factor.
        Inr (\<lparr>cost = fmul (fmul (edge_length e) pace) (motorcycle_discount (mc_dyn m) v' factor),
          secs = fmul (edge_length e) pace\<rparr>, src)))"
    by (intro shade_helps_if shade_helps_same edge_length_nonneg sec ferry_cost_same b shade_helps_bind
        shade_helps_discount cm v) (use motorcycle_factor_ok [OF m] in auto)
qed

lemma scooter_edge_cost_shade:
  assumes m: "scooter_ok m" and v: "env_le v v'"
  shows "shade_helps (scooter_edge_cost m ts idx e ti v stale) (scooter_edge_cost m ts idx e ti v' stale)"
proof -
  have b: "base_ok (sc_dyn m)" using m by (simp add: scooter_ok_def)
  show ?thesis
    unfolding scooter_edge_cost_def Let_def
    by (rule shade_helps_split, rule shade_helps_if, rule shade_helps_bind, rule ferry_cost_same [OF b], rule pace_nonneg,
        assumption, rule shade_helps_bind, rule shade_helps_bind, rule shade_helps_edge)
      (use scooter_factor_ok [OF m] v edge_length_nonneg pace_nonneg in \<open>auto simp: comfort_models_def\<close>)
qed

end
