(* ===== verification/Bicycle_Cost.thy ===== *)
theory Bicycle_Cost
  imports Motor_Cost
begin

text \<open>
  \<^verbatim>\<open>BicycleCost\<close> (\<^verbatim>\<open>src/sif/bicyclecost.cc\<close>): the options of a request, the members computed from them
  with the tables for the type of the bicycle, access, the costs of edges and of transitions. The
  member \<^verbatim>\<open>track_factor_\<close> of the class hides the one of the base class; it is \<open>bi_track_factor\<close>.
\<close>

section \<open>Tables\<close>

datatype bicycle_type = Road_bike | Cross_bike | Hybrid_bike | Mountain_bike

fun bicycle_type_num :: "bicycle_type \<Rightarrow> nat" where
  "bicycle_type_num Road_bike = 0"
| "bicycle_type_num Cross_bike = 1"
| "bicycle_type_num Hybrid_bike = 2"
| "bicycle_type_num Mountain_bike = 3"

definition bikeRightTurnCosts :: "rat list" where
  "bikeRightTurnCosts = [f32 (15 / 100), f32 (2 / 10), f32 (3 / 10), 1 / 2, 5, 3 / 2, 1, f32 (4 / 10)]"

definition bikeLeftTurnCosts :: "rat list" where
  "bikeLeftTurnCosts = [f32 (15 / 100), f32 (4 / 10), 1, 3 / 2, 5, 1 / 2, f32 (3 / 10), f32 (2 / 10)]"

definition bikeTurnCrossing :: rat where "bikeTurnCrossing = 3 / 4"

definition kRightSideTurnPenalties :: "rat list" where
  "kRightSideTurnPenalties = [0, 1 / 4, 3 / 4, 1, 4, 9 / 4, 7 / 4, 3 / 4]"

definition kLeftSideTurnPenalties :: "rat list" where
  "kLeftSideTurnPenalties = [0, 3 / 4, 7 / 4, 9 / 4, 4, 1, 3 / 4, 1 / 4]"

definition kTruckStress :: rat where "kTruckStress = 1 / 2"
definition kBicycleStepsFactor :: rat where "kBicycleStepsFactor = 8"
definition kDefaultCyclingSpeed :: "rat list" where "kDefaultCyclingSpeed = [25, 20, 18, 16]"
definition kDismountSpeed :: rat where "kDismountSpeed = f32 (51 / 10)"
definition kMinCyclingSpeed :: rat where "kMinCyclingSpeed = 5"
definition kMaxCyclingSpeed :: rat where "kMaxCyclingSpeed = 60"

definition kRoadSurfaceSpeedFactors :: "rat list" where
  "kRoadSurfaceSpeedFactors = [1, 1, f32 (9 / 10), f32 (6 / 10), 1 / 2, f32 (3 / 10), f32 (2 / 10), 0]"

definition kHybridSurfaceSpeedFactors :: "rat list" where
  "kHybridSurfaceSpeedFactors = [1, 1, 1, f32 (8 / 10), f32 (6 / 10), f32 (4 / 10), 1 / 4, 0]"

definition kCrossSurfaceSpeedFactors :: "rat list" where
  "kCrossSurfaceSpeedFactors = [1, 1, 1, f32 (8 / 10), f32 (7 / 10), 1 / 2, f32 (4 / 10), 0]"

definition kMountainSurfaceSpeedFactors :: "rat list" where
  "kMountainSurfaceSpeedFactors = [1, 1, 1, 1, f32 (9 / 10), 3 / 4, f32 (55 / 100), 0]"

definition kWorstAllowedSurface :: "nat list" where
  "kWorstAllowedSurface = [3, 5, 4, 6]"

definition kSurfaceFactors :: "rat list" where
  "kSurfaceFactors = [1, 5 / 2, 9 / 2, 7]"

definition bikeRoadClassFactor :: "rat list" where
  "bikeRoadClassFactor = [1, f32 (4 / 10), f32 (2 / 10), f32 (1 / 10), f32 (5 / 100), f32 (5 / 100), 0, 1 / 2]"

definition bikeGradeSpeedFactor :: "rat list" where
  "bikeGradeSpeedFactor = [f32 (22 / 10), 2, f32 (19 / 10), f32 (17 / 10), f32 (14 / 10), f32 (12 / 10), 1,
     f32 (95 / 100), f32 (85 / 100), 3 / 4, f32 (65 / 100), f32 (55 / 100), 1 / 2, f32 (45 / 100), f32 (4 / 10),
     f32 (3 / 10)]"

definition kCycleLaneTransitionFactor :: "rat list" where
  "kCycleLaneTransitionFactor = [1, 1 / 2, 1 / 4, f32 (1 / 10), f32 (4 / 10), 1 / 2, 1 / 4, f32 (1 / 10)]"

definition kLivingStreetTransitionFactor :: rat where "kLivingStreetTransitionFactor = f32 (15 / 100)"

definition bikeAvoidHillsStrength :: "rat list" where
  "bikeAvoidHillsStrength = [2, 1, 1 / 2, f32 (2 / 10), f32 (1 / 10), 0, f32 (5 / 100), f32 (1 / 10), f32 (3 / 10),
     f32 (8 / 10), 2, 3, 9 / 2, 13 / 2, 10, 12]"

definition kBicycleNetworkFactor :: rat where "kBicycleNetworkFactor = f32 (95 / 100)"
definition kBicycleAccess :: "12 word" where "kBicycleAccess = 4"
definition kCycleway :: nat where "kCycleway = 20"
definition kMountainBikeUse :: nat where "kMountainBikeUse = 21"
definition kPathUse :: nat where "kPathUse = 27"

section \<open>Options\<close>

definition bicycle_config :: base_config where
  "bicycle_config = base_default\<lparr>
     alley_penalty := (alley_penalty base_default)\<lparr>rd_def := 60\<rparr>,
     gate_penalty := (gate_penalty base_default)\<lparr>rd_def := 300\<rparr>,
     disable_toll_booth := True, disable_rail_ferry := True,
     use_living_streets := (use_living_streets base_default)\<lparr>rd_def := 1 / 2\<rparr>\<rparr>"

definition bicycle_type_of :: "string \<Rightarrow> bicycle_type" where
  "bicycle_type_of t =
     (if t = ''cross'' then Cross_bike else if t = ''road'' then Road_bike
      else if t = ''mountain'' then Mountain_bike else Hybrid_bike)"

definition bicycle_preferences :: "option_spec list" where
  "bicycle_preferences =
     [(False, ''use_roads'', ''use_roads'', rng 0 (1 / 4) 1),
      (False, ''use_hills'', ''use_hills'', rng 0 (1 / 4) 1),
      (False, ''avoid_bad_surfaces'', ''avoid_bad_surfaces'', rng 0 (1 / 4) 1)]"

definition bicycle_speed_specs :: "bicycle_type \<Rightarrow> option_spec list" where
  "bicycle_speed_specs t =
     [(False, ''cycling_speed'', ''cycling_speed'',
         rng kMinCyclingSpeed (kDefaultCyclingSpeed ! bicycle_type_num t) kMaxCyclingSpeed),
      (False, ''bss_return_cost'', ''bike_share_cost'', rng 0 120 kMaxPenalty),
      (False, ''bss_return_penalty'', ''bike_share_penalty'', rng 0 0 kMaxPenalty)]"

definition ParseBicycleCostOptions :: "lexer \<Rightarrow> json \<Rightarrow> string list \<Rightarrow> costing_options \<Rightarrow> costing_options result" where
  "ParseBicycleCostOptions lx doc key co =
     (let j = options_json doc key
      in bind_result (ParseBaseCostOptions lx bicycle_config j (co\<lparr>costing_name := ''bicycle''\<rparr>)) (\<lambda>co1.
         bind_result (fold_result (parse_spec lx j) bicycle_preferences co1) (\<lambda>co2.
           let old = (case transport_type co2 of None \<Rightarrow> ''hybrid'' | Some t \<Rightarrow> t);
               t = map to_lower (case get_text [''bicycle_type''] j of None \<Rightarrow> old | Some s \<Rightarrow> s)
           in fold_result (parse_spec lx j) (bicycle_speed_specs (bicycle_type_of t)) (co2\<lparr>transport_type := Some t\<rparr>))))"

section \<open>The costing model\<close>

record bicycle_cost =
  bi_dyn :: dynamic_cost
  bi_use_roads :: rat
  bi_avoid_roads :: rat
  bi_road_factor :: rat
  bi_sidepath_factor :: rat
  bi_livingstreet_factor :: rat
  bi_track_factor :: rat
  bi_avoid_bad_surfaces :: rat
  bi_speed :: rat
  bi_type :: bicycle_type
  bi_minimal_surface_penalized :: nat
  bi_worst_allowed_surface :: nat
  bi_cyclelane_factor :: "rat list"
  bi_path_cyclelane_factor :: "rat list"
  bi_surface_speed_factor :: "rat list"
  bi_speedpenalty :: "rat list"
  bi_grade_penalty :: "rat list"

definition surface_speed_factors :: "bicycle_type \<Rightarrow> rat list" where
  "surface_speed_factors t =
     (if t = Road_bike then kRoadSurfaceSpeedFactors else if t = Hybrid_bike then kHybridSurfaceSpeedFactors
      else if t = Cross_bike then kCrossSurfaceSpeedFactors else kMountainSurfaceSpeedFactors)"

definition cyclelane_factors :: "rat \<Rightarrow> rat list" where
  "cyclelane_factors use = [1, fadd (f32 (9 / 10)) (fmul use (f32 (5 / 100))), fadd (f32 (4 / 10)) (fmul use (f32 (45 / 100))),
     fadd (f32 (15 / 100)) (fmul use (f32 (6 / 10))), fadd (f32 (7 / 10)) (fmul use (f32 (2 / 10))),
     fadd (f32 (9 / 10)) (fmul use (f32 (5 / 100))), fadd (f32 (4 / 10)) (fmul use (f32 (45 / 100))),
     fadd (f32 (15 / 100)) (fmul use (f32 (6 / 10)))]"

definition path_cyclelane_factors :: "rat \<Rightarrow> rat list" where
  "path_cyclelane_factors use = [fadd (f32 (2 / 10)) use, fadd (f32 (2 / 10)) use,
     fadd (f32 (1 / 10)) (fmul use (f32 (9 / 10))), fmul use (f32 (8 / 10))]"

text \<open>The stress of riding along traffic of a speed; the last branch is computed in \<^verbatim>\<open>double\<close>.\<close>

definition base_penalty :: "nat \<Rightarrow> rat" where
  "base_penalty s =
     (if s \<le> 40 then fdiv (of_nat s) 40
      else if s \<le> 65 then fsub (fdiv (of_nat s) 25) (f32 (6 / 10))
      else f32 (f64 (f64 (of_nat s / 50) + f32 (7 / 10))))"

definition speed_penalty :: "rat \<Rightarrow> nat \<Rightarrow> rat" where
  "speed_penalty avoid s = (if s = 0 then 0 else fadd (fmul (fsub (base_penalty s) 1) avoid) 1)"

definition CreateBicycleCost :: "costing_options \<Rightarrow> bicycle_cost" where
  "CreateBicycleCost co =
     (let d = get_base_costs co (set_default_geojson_scaling (f32 (35 / 100)) (f32 (7 / 10))
            (new_dynamic_cost co kBicycleAccess False False));
          t = bicycle_type_of (case transport_type co of None \<Rightarrow> [] | Some s \<Rightarrow> s);
          use = opt co ''use_roads''; bad = opt co ''avoid_bad_surfaces'';
          minimal = kWorstAllowedSurface ! bicycle_type_num t;
          avoid_roads = f32 (f64 (fmul (fsub 1 use) (3 / 4) + 1 / 4));
          avoid_hills = fsub 1 (opt co ''use_hills'')
      in \<lparr>bi_dyn = d, bi_use_roads = use, bi_avoid_roads = fsub 1 use,
          bi_road_factor = (if 1 / 2 \<le> use then fsub (3 / 2) use else fsub 2 (fmul use 2)),
          bi_sidepath_factor = fmul 3 (fsub 1 use), bi_livingstreet_factor = fadd (f32 (2 / 10)) (fmul use (f32 (8 / 10))),
          bi_track_factor = fadd (1 / 2) use, bi_avoid_bad_surfaces = bad, bi_speed = opt co ''cycling_speed'',
          bi_type = t, bi_minimal_surface_penalized = minimal,
          bi_worst_allowed_surface = (if bad = 1 then minimal else kSurfacePath),
          bi_cyclelane_factor = cyclelane_factors use, bi_path_cyclelane_factor = path_cyclelane_factors use,
          bi_surface_speed_factor = surface_speed_factors t,
          bi_speedpenalty = map (speed_penalty avoid_roads) [0..<253],
          bi_grade_penalty = map (fmul avoid_hills) bikeAvoidHillsStrength\<rparr>)"

section \<open>Access\<close>

definition bicycle_filter :: "bicycle_cost \<Rightarrow> directed_edge \<Rightarrow> u16 \<Rightarrow> bool" where
  "bicycle_filter b e disallow \<longleftrightarrow> Allowed_edge (bi_dyn b) e disallow \<and> \<not> de_bss_connection e \<and> use_of e \<noteq> kSteps
     \<and> (bi_avoid_bad_surfaces b \<noteq> 1 \<or> unat (de_surface e) \<le> bi_worst_allowed_surface b)"

definition bicycle_turns_back :: "'a sif_label_scheme \<Rightarrow> directed_edge \<Rightarrow> bool" where
  "bicycle_turns_back pred e \<longleftrightarrow> turns_back pred e \<and> lab_mode pred = travel_mode_num Bicycle"

definition bicycle_checks :: "bicycle_cost \<Rightarrow> directed_edge \<Rightarrow> 'a sif_label_scheme \<Rightarrow> graph_id \<Rightarrow> bool" where
  "bicycle_checks b e pred edgeid \<longleftrightarrow>
     (let d = bi_dyn b
      in \<not> (\<not> IsAccessible d e \<or> de_is_shortcut e \<or> bicycle_turns_back pred e
          \<or> \<not> ignore_turn_restrictions d \<and> in_mask (lab_restrictions pred) (unat (de_localedgeidx e))
          \<or> IsUserAvoidEdge d (gid_value edgeid) \<or> CheckExclusions d e (pred_view pred))
        \<and> \<not> is_transit_connection e \<and> unat (de_surface e) \<le> bi_worst_allowed_surface b)"

definition bicycle_checks_reverse :: "bicycle_cost \<Rightarrow> directed_edge \<Rightarrow> 'a sif_label_scheme \<Rightarrow> directed_edge \<Rightarrow> graph_id \<Rightarrow> bool" where
  "bicycle_checks_reverse b e pred opp opp_edgeid \<longleftrightarrow>
     (let d = bi_dyn b
      in \<not> (\<not> IsAccessible d opp \<or> de_is_shortcut opp \<or> is_transit_connection opp \<or> bicycle_turns_back pred e
          \<or> \<not> ignore_turn_restrictions d \<and> in_mask (de_restrictions opp) (unat (lab_opp_local_idx pred))
          \<or> IsUserAvoidEdge d (gid_value opp_edgeid) \<or> CheckExclusions d opp (pred_view pred))
        \<and> unat (de_surface e) \<le> bi_worst_allowed_surface b)"

definition bicycle_allowed :: "bicycle_cost \<Rightarrow> conditional_active \<Rightarrow> directed_edge \<Rightarrow> bool \<Rightarrow> 'a sif_label_scheme
    \<Rightarrow> routing_tile \<Rightarrow> graph_id \<Rightarrow> u64 \<Rightarrow> u32 \<Rightarrow> u8 \<Rightarrow> u8 \<Rightarrow> bool \<times> u8 \<times> u8" where
  "bicycle_allowed b active e is_dest pred tile edgeid time tz idx exempt =
     (if bicycle_checks b e pred edgeid
      then EvaluateRestrictions (bi_dyn b) (\<lambda>_. True) active (access_mask (bi_dyn b)) e is_dest tile edgeid time tz idx exempt
      else (False, idx, exempt))"

definition bicycle_allowed_reverse :: "bicycle_cost \<Rightarrow> conditional_active \<Rightarrow> directed_edge \<Rightarrow> 'a sif_label_scheme
    \<Rightarrow> directed_edge \<Rightarrow> routing_tile \<Rightarrow> graph_id \<Rightarrow> u64 \<Rightarrow> u32 \<Rightarrow> u8 \<Rightarrow> u8 \<Rightarrow> bool \<times> u8 \<times> u8" where
  "bicycle_allowed_reverse b active e pred opp tile opp_edgeid time tz idx exempt =
     (if bicycle_checks_reverse b e pred opp opp_edgeid
      then EvaluateRestrictions (bi_dyn b) (\<lambda>_. True) active (access_mask (bi_dyn b)) opp False tile opp_edgeid time tz idx
        exempt
      else (False, idx, exempt))"

section \<open>Edges\<close>

definition cycle_lane_index :: "directed_edge \<Rightarrow> nat" where
  "cycle_lane_index e = of_bool (de_shoulder e) * 4 + unat (de_cycle_lane e)"

definition roadway_stress :: "bicycle_cost \<Rightarrow> directed_edge \<Rightarrow> rat result" where
  "roadway_stress b e =
     bind_result (table bikeRoadClassFactor (unat (de_classification e))) (\<lambda>road.
     bind_result (table (bi_speedpenalty b) (unat (de_speed e))) (\<lambda>penalty.
       let lanes = f32 (of_nat (unat (de_lanecount e)));
           s1 = (if 1 < unat (de_lanecount e)
             then fadd 1 (fmul (fmul (fsub lanes 1) (f32 (5 / 100))) (bi_road_factor b)) else 1);
           s2 = (if de_truck_route e then fadd s1 kTruckStress else s1);
           s3 = fadd s2 (fmul (bi_road_factor b) road)
       in Inr (fmul s3 penalty)))"

text \<open>The factors for accommodation and stress, by the use of the edge.\<close>

definition accommodation :: "bicycle_cost \<Rightarrow> directed_edge \<Rightarrow> (rat \<times> rat) result" where
  "accommodation b e =
     (if use_of e = kCycleway \<or> use_of e = kFootway \<or> use_of e = kPathUse
      then Inr (bi_path_cyclelane_factor b ! unat (de_cycle_lane e), 1)
      else if use_of e = kMountainBikeUse \<and> bi_type b = Mountain_bike then Inr (fadd (f32 (3 / 10)) (bi_use_roads b), 1)
      else if use_of e = kLivingStreet then Inr (1, bi_livingstreet_factor b)
      else if use_of e = kTrack then Inr (1, bi_track_factor b)
      else bind_result (roadway_stress b e) (\<lambda>s. Inr (bi_cyclelane_factor b ! cycle_lane_index e, s)))"

definition bicycle_factor :: "bicycle_cost \<Rightarrow> directed_edge \<Rightarrow> rat result" where
  "bicycle_factor b e =
     bind_result (accommodation b e) (\<lambda>(accom, stress).
     bind_result (table (bi_grade_penalty b) (unat (de_weighted_grade e))) (\<lambda>grade.
       let a1 = (if de_use_sidepath e then fadd accom (bi_sidepath_factor b) else accom);
           a2 = (if de_bike_network e then fmul a1 kBicycleNetworkFactor else a1);
           f = fadd (fadd 1 grade) (fmul a2 stress);
           surface = unat (de_surface e)
       in if bi_minimal_surface_penalized b \<le> surface
          then bind_result (table kSurfaceFactors (surface - bi_minimal_surface_penalized b)) (\<lambda>bad.
            Inr (fadd f (fmul (bi_avoid_bad_surfaces b) bad)))
          else Inr f))"

definition bike_speed :: "bicycle_cost \<Rightarrow> directed_edge \<Rightarrow> nat result" where
  "bike_speed b e =
     (if de_dismount e then Inr (nat (c_trunc kDismountSpeed))
      else bind_result (table (bi_surface_speed_factor b) (unat (de_surface e))) (\<lambda>surface.
        bind_result (table bikeGradeSpeedFactor (unat (de_weighted_grade e))) (\<lambda>grade.
          Inr (nat (c_trunc (fadd (fmul (fmul (bi_speed b) surface) grade) (1 / 2)))))))"

definition bicycle_edge_cost :: "bicycle_cost \<Rightarrow> directed_edge \<Rightarrow> environment_scores \<Rightarrow> cost result" where
  "bicycle_edge_cost b e env =
     (let d = bi_dyn b; len = edge_length e
      in if use_of e = kSteps
         then bind_result (kSpeedFactor 1) (\<lambda>pace. let sec = fmul len pace
           in Inr \<lparr>cost = (if shortest d then len else fmul sec kBicycleStepsFactor), secs = sec\<rparr>)
         else if use_of e = kFerry
         then bind_result (kSpeedFactor (unat (de_speed e))) (\<lambda>pace. let sec = fmul len pace
           in Inr \<lparr>cost = (if shortest d then len else fmul sec (ferry_factor d)), secs = sec\<rparr>)
         else bind_result (bicycle_factor b e) (\<lambda>factor.
           bind_result (bike_speed b e) (\<lambda>v.
           bind_result (kSpeedFactor v) (\<lambda>pace. let sec = fmul len pace
             in Inr \<lparr>cost = (if shortest d then len else fmul sec (bicycle_discount d env factor)), secs = sec\<rparr>))))"

definition bicycle_AStarCostFactor :: "bicycle_cost \<Rightarrow> rat result" where
  "bicycle_AStarCostFactor b = kSpeedFactor (nat (c_trunc (fmul 2 (bi_speed b))))"

definition BSSCost :: cost where
  "BSSCost = \<lparr>cost = 120, secs = 0\<rparr>"

section \<open>Transitions\<close>

text \<open>The factor of the road class and the accommodation at a crossing.\<close>

definition crossing_factors :: "directed_edge \<Rightarrow> rat \<times> rat" where
  "crossing_factors e =
     (let class_factor = bikeRoadClassFactor ! unat (de_classification e)
      in if use_of e = kCycleway \<or> use_of e = kFootway \<or> use_of e = kPathUse then (f32 (1 / 10), f32 (5 / 100))
         else if use_of e = kLivingStreet then (class_factor, kLivingStreetTransitionFactor)
         else (class_factor, kCycleLaneTransitionFactor ! cycle_lane_index e))"

text \<open>The seconds and the stress of the turn.\<close>

definition bike_turn :: "directed_edge \<Rightarrow> nodeinfo \<Rightarrow> nat \<Rightarrow> rat \<times> rat" where
  "bike_turn e n idx =
     (if 0 < stopimpact e idx
      then let t = unat (turntype e idx);
               pen = (if ni_drive_on_right n then kRightSideTurnPenalties else kLeftSideTurnPenalties) ! t;
               c = (if ni_drive_on_right n then bikeRightTurnCosts else bikeLeftTurnCosts) ! t;
               c' = (if c < bikeTurnCrossing \<and> edge_to_right e idx \<and> edge_to_left e idx then bikeTurnCrossing else c)
           in (fadd 0 (fmul (f32 (of_nat (unat (stopimpact e idx)))) c'), fadd 1 pen)
      else (0, 1))"

definition bike_crossing :: "bicycle_cost \<Rightarrow> directed_edge \<Rightarrow> nodeinfo \<Rightarrow> nat \<Rightarrow> nat \<Rightarrow> cost \<Rightarrow> cost" where
  "bike_crossing b e n idx pred_class c =
     (let (class_factor, bike_accom) = crossing_factors e; (seconds, stress0) = bike_turn e n idx;
          stress1 = fmul stress0 (fadd (fadd (fmul class_factor (bi_avoid_roads b)) (bi_use_roads b)) 1);
          onto_main = (unat (de_classification e) < pred_class \<and> use_of e \<noteq> kLivingStreet);
          penalty = (if onto_main
            then fmul (fadd 0 (fmul 10 (f32 (of_nat (pred_class - unat (de_classification e))))))
              (fadd (fmul bike_accom (bi_avoid_roads b)) (bi_use_roads b))
            else 0);
          stress2 = (if onto_main then f32 (f64 (stress1 + (if ni_traffic_signal n then f64 (4 / 10) else 1))) else stress1)
      in \<lparr>cost = fadd (cost c) (if shortest (bi_dyn b) then 0 else fadd (fmul seconds (fadd stress2 1)) penalty),
          secs = fadd (secs c) seconds\<rparr>)"

definition bicycle_transition :: "bicycle_cost \<Rightarrow> directed_edge \<Rightarrow> nodeinfo \<Rightarrow> 'a sif_label_scheme \<Rightarrow> cost" where
  "bicycle_transition b e n pred =
     (let idx = unat (lab_opp_local_idx pred)
      in bike_crossing b e n idx (unat (lab_classification pred))
           (base_transition_cost (bi_dyn b) (costing_node n) e (pred_view pred) idx))"

definition bicycle_transition_reverse :: "bicycle_cost \<Rightarrow> nat \<Rightarrow> nodeinfo \<Rightarrow> directed_edge \<Rightarrow> directed_edge \<Rightarrow> cost" where
  "bicycle_transition_reverse b idx n pred e =
     bike_crossing b e n idx (unat (de_classification pred))
       (base_transition_cost (bi_dyn b) (costing_node n) e (edge_as_pred pred) idx)"

section \<open>The members of a parsed request\<close>

definition bicycle_ok :: "bicycle_cost \<Rightarrow> bool" where
  "bicycle_ok b \<longleftrightarrow> base_ok (bi_dyn b) \<and> 0 \<le> bi_use_roads b \<and> 0 \<le> bi_avoid_roads b \<and> 0 \<le> bi_road_factor b
     \<and> 0 \<le> bi_sidepath_factor b \<and> 0 \<le> bi_livingstreet_factor b \<and> 0 \<le> bi_track_factor b \<and> 0 \<le> bi_avoid_bad_surfaces b
     \<and> length (bi_cyclelane_factor b) = 8 \<and> length (bi_path_cyclelane_factor b) = 4
     \<and> list_all (\<lambda>x. 0 \<le> x) (bi_cyclelane_factor b) \<and> list_all (\<lambda>x. 0 \<le> x) (bi_path_cyclelane_factor b)
     \<and> list_all (\<lambda>x. 0 \<le> x) (bi_speedpenalty b) \<and> list_all (\<lambda>x. 0 \<le> x) (bi_grade_penalty b)"

definition bicycle_in_range :: "costing_options \<Rightarrow> bool" where
  "bicycle_in_range co \<longleftrightarrow> list_all (\<lambda>(k, n, r). holds_range co n r) (base_ranges bicycle_config)
     \<and> list_all (\<lambda>(u, k, n, r). holds_range co n r) (bicycle_preferences @
          bicycle_speed_specs (bicycle_type_of (case transport_type co of None \<Rightarrow> [] | Some t \<Rightarrow> t)))"

lemma kDefaultCyclingSpeed_ok: "sane (rng kMinCyclingSpeed (kDefaultCyclingSpeed ! bicycle_type_num t) kMaxCyclingSpeed)"
  by (cases t) (simp_all add: sane_def fits_range_def rng_def kMinCyclingSpeed_def kMaxCyclingSpeed_def
      kDefaultCyclingSpeed_def eval_nat_numeral)

lemma bicycle_names:
  "distinct (spec_names bicycle_preferences)" "distinct (spec_names (bicycle_speed_specs t))"
  "list_all (\<lambda>(k, n, r). n \<notin> set (spec_names bicycle_preferences) \<and> n \<notin> set (spec_names (bicycle_speed_specs t)))
     (base_ranges bicycle_config)"
  "(u, k, n, r) \<in> set bicycle_preferences \<Longrightarrow> n \<notin> set (spec_names (bicycle_speed_specs t)) \<and> sane r"
  "(u, k, n, r) \<in> set (bicycle_speed_specs t) \<Longrightarrow> sane r"
  using constants kDefaultCyclingSpeed_ok [of t]
  by (auto simp: bicycle_preferences_def bicycle_speed_specs_def base_ranges_def penalty_ranges_def
      preference_ranges_def comfort_ranges_def sane_def fits_range_def rng_def)

lemma bicycle_standard: "standard_ranges bicycle_config" "\<not> disable_ferry bicycle_config"
  using constants
  by (simp_all add: standard_ranges_def bicycle_config_def base_default_def sane_def fits_range_def rng_def float_eval)

lemma parse_bicycle_within:
  assumes p: "ParseBicycleCostOptions lx doc key co = Inr co'" shows "bicycle_in_range co'"
proof -
  define j where "j = options_json doc key"
  obtain co1 co2 t where b: "ParseBaseCostOptions lx bicycle_config j (co\<lparr>costing_name := ''bicycle''\<rparr>) = Inr co1"
    "fold_result (parse_spec lx j) bicycle_preferences co1 = Inr co2"
    "fold_result (parse_spec lx j) (bicycle_speed_specs (bicycle_type_of t)) (co2\<lparr>transport_type := Some t\<rparr>) = Inr co'"
    using p by (auto simp: ParseBicycleCostOptions_def bind_result_eq_Inr j_def Let_def)
  have t: "transport_type co' = Some t" using transport_type_kept [OF b(3)] by simp
  note n = bicycle_names (1) bicycle_names (2-5) [where t = "bicycle_type_of t"]
  have "holds_range co' m r" if m: "(k, m, r) \<in> set (base_ranges bicycle_config)" for k m r
  proof -
    have "sane r" using standard_sane [OF bicycle_standard(1)] m by (auto simp: list_all_iff)
    from ParseBaseCostOptions_within [OF b(1) m this] have h: "holds_range co1 m r" .
    have "m \<notin> set (spec_names bicycle_preferences)" "m \<notin> set (spec_names (bicycle_speed_specs (bicycle_type_of t)))"
      using n(3) m unfolding list_all_iff by (blast dest: bspec [of _ _ "(k, m, r)"])+
    then show ?thesis
      using h parse_specs_other [OF b(2)] parse_specs_other [OF b(3)] by (simp add: holds_range_def)
  qed
  moreover have "holds_range co' m r" if m: "(u, k, m, r) \<in> set bicycle_preferences" for u k m r
    using parse_specs_within [OF b(2) n(1) m] n(4) [OF m] parse_specs_other [OF b(3), of m] by (simp add: holds_range_def)
  moreover have "holds_range co' m r" if m: "(u, k, m, r) \<in> set (bicycle_speed_specs (bicycle_type_of t))" for u k m r
    using parse_specs_within [OF b(3) n(2) m n(5) [OF m]] .
  ultimately show ?thesis by (auto simp: bicycle_in_range_def list_all_iff t)
qed

lemma only_bad_numbers_bicycle: "only_bad_numbers lx doc (ParseBicycleCostOptions lx doc key co)"
  unfolding ParseBicycleCostOptions_def Let_def options_json_def
  by (rule only_bad_numbers_part [of lx key])
    (intro only_bad_numbers_bind only_bad_numbers_fold only_bad_numbers_base only_bad_numbers_steps)

lemma bicycle_tables:
  "list_all (\<lambda>x. 0 \<le> x) bikeAvoidHillsStrength" "list_all (\<lambda>x. 0 \<le> x) bikeRoadClassFactor"
  "list_all (\<lambda>x. 0 \<le> x) kSurfaceFactors" "0 \<le> kBicycleNetworkFactor" "0 \<le> kTruckStress" "0 \<le> kBicycleStepsFactor"
  by (simp_all add: bikeAvoidHillsStrength_def bikeRoadClassFactor_def kSurfaceFactors_def kBicycleNetworkFactor_def
      kTruckStress_def kBicycleStepsFactor_def float_eval)

lemma base_penalty_nonneg: "0 \<le> base_penalty s"
proof -
  have fl: "f32 (8 / 5) = f32 (8 / 5)" "f32 (6 / 10) \<le> 1" "0 \<le> f32 (7 / 10)" by (simp_all add: float_eval)
  have "1 \<le> fdiv (of_nat s) 25" if "40 < s"
    by (rule f32_ge [OF small_floats(2)]) (use that in \<open>simp add: le_divide_eq\<close>)
  then have "0 \<le> fsub (fdiv (of_nat s) 25) (f32 (6 / 10))" if "40 < s" using that fl(2) by (intro float32.nonneg) simp
  moreover have "0 \<le> f32 (f64 (f64 (of_nat s / 50) + f32 (7 / 10)))"
    using fl(3) by (intro float32.nonneg float64.nonneg add_nonneg_nonneg) (simp_all add: float64.nonneg)
  ultimately show ?thesis by (simp add: base_penalty_def float32.nonneg)
qed

lemma speed_penalty_nonneg:
  assumes "0 \<le> avoid" "avoid \<le> 1" shows "0 \<le> speed_penalty avoid s"
proof (cases "s = 0")
  case False
  have m1: "f32 (- 1) = - 1" by (simp add: float_eval)
  have "- 1 \<le> fsub (base_penalty s) 1" by (rule f32_ge [OF m1]) (use base_penalty_nonneg [of s] in simp)
  then have "- 1 \<le> fsub (base_penalty s) 1 * avoid"
  proof (cases "0 \<le> fsub (base_penalty s) 1")
    case True
    then have "0 \<le> fsub (base_penalty s) 1 * avoid" using assms(1) by (rule mult_nonneg_nonneg)
    then show ?thesis by simp
  next
    case False
    then have "(- fsub (base_penalty s) 1) * avoid \<le> 1 * 1" using \<open>- 1 \<le> fsub (base_penalty s) 1\<close> assms
      by (intro mult_mono) simp_all
    then show ?thesis by simp
  qed
  then have "- 1 \<le> fmul (fsub (base_penalty s) 1) avoid" by (rule f32_ge [OF m1])
  then show ?thesis using False by (simp add: speed_penalty_def float32.nonneg)
qed (simp add: speed_penalty_def)

lemma lane_factors_nonneg:
  assumes "0 \<le> use"
  shows "list_all (\<lambda>x. 0 \<le> x) (cyclelane_factors use)" "list_all (\<lambda>x. 0 \<le> x) (path_cyclelane_factors use)"
proof -
  have "0 \<le> f32 (9 / 10)" "0 \<le> f32 (5 / 100)" "0 \<le> f32 (4 / 10)" "0 \<le> f32 (45 / 100)" "0 \<le> f32 (15 / 100)"
    "0 \<le> f32 (6 / 10)" "0 \<le> f32 (7 / 10)" "0 \<le> f32 (2 / 10)" "0 \<le> f32 (1 / 10)" "0 \<le> f32 (8 / 10)"
    by (rule float32.nonneg; simp)+
  then have s: "0 \<le> fadd a (fmul use b)" "0 \<le> fmul use c" "0 \<le> fadd a use"
    if "a \<in> {f32 (9 / 10), f32 (4 / 10), f32 (15 / 100), f32 (7 / 10), f32 (1 / 10), f32 (2 / 10)}"
      "b \<in> {f32 (5 / 100), f32 (45 / 100), f32 (6 / 10), f32 (2 / 10), f32 (9 / 10)}" "c = f32 (8 / 10)" for a b c
    using that assms by (auto intro!: fadd_nonneg fmul_nonneg)
  have q: "0 \<le> fadd (f32 (1 / 10)) (fmul use (f32 (9 / 10)))" "0 \<le> fmul use (f32 (8 / 10))"
    using s(1) [of "f32 (1 / 10)" "f32 (9 / 10)" "f32 (8 / 10)"] s(2) [of "f32 (9 / 10)" "f32 (9 / 10)"] by simp_all
  show "list_all (\<lambda>x. 0 \<le> x) (path_cyclelane_factors use)"
    unfolding path_cyclelane_factors_def list.pred_inject using s(3) [of "f32 (2 / 10)" "f32 (2 / 10)"] q by simp
  have "0 \<le> fadd (f32 (9 / 10)) (fmul use (f32 (5 / 100)))" "0 \<le> fadd (f32 (4 / 10)) (fmul use (f32 (45 / 100)))"
    "0 \<le> fadd (f32 (15 / 100)) (fmul use (f32 (6 / 10)))" "0 \<le> fadd (f32 (7 / 10)) (fmul use (f32 (2 / 10)))"
    by (rule s(1) [where c = "f32 (8 / 10)"]; simp)+
  then show "list_all (\<lambda>x. 0 \<le> x) (cyclelane_factors use)"
    unfolding cyclelane_factors_def list.pred_inject by simp
qed

lemma bicycle_ok_created:
  assumes r: "bicycle_in_range co" shows "bicycle_ok (CreateBicycleCost co)"
proof -
  have "list_all (\<lambda>(u, k, n, r). fits_range r (opt co n)) bicycle_preferences"
    using r opt_within by (fastforce simp: bicycle_in_range_def list_all_iff)
  then have o: "0 \<le> opt co ''use_roads''" "opt co ''use_roads'' \<le> 1" "0 \<le> opt co ''use_hills''" "opt co ''use_hills'' \<le> 1"
    "0 \<le> opt co ''avoid_bad_surfaces''"
    by (simp_all add: bicycle_preferences_def fits_range_def rng_def)
  have range: "all_in_range bicycle_config [] co" using r by (simp add: all_in_range_def bicycle_in_range_def)
  have "base_ok (get_base_costs co (set_default_geojson_scaling (f32 (35 / 100)) (f32 (7 / 10))
      (new_dynamic_cost co kBicycleAccess False False)))"
    by (rule base_ok_created [OF range bicycle_standard])
      (simp_all add: new_dynamic_cost_def set_default_geojson_scaling_def float_eval)
  moreover have a: "0 \<le> fsub 1 (opt co ''use_roads'')" "fsub 1 (opt co ''use_roads'') \<le> 1"
    using o(1,2) by (auto intro!: float32.nonneg float32.le_1)
  then have "fmul (fsub 1 (opt co ''use_roads'')) (3 / 4) \<le> 3 / 4" by (intro f32_le) (simp_all add: float_eval)
  then have "0 \<le> f32 (f64 (fmul (fsub 1 (opt co ''use_roads'')) (3 / 4) + 1 / 4))"
    "f32 (f64 (fmul (fsub 1 (opt co ''use_roads'')) (3 / 4) + 1 / 4)) \<le> 1"
    using a by (auto intro!: float32.nonneg float64.nonneg float32.le_1 float64.le_1 add_nonneg_nonneg)
  from speed_penalty_nonneg [OF this]
  have "list_all (\<lambda>x. 0 \<le> x) (map (speed_penalty (f32 (f64 (fmul (fsub 1 (opt co ''use_roads'')) (3 / 4) + 1 / 4)))) [0..<253])"
    by (auto simp: list_all_iff)
  moreover have "0 \<le> (if 1 / 2 \<le> opt co ''use_roads'' then fsub (3 / 2) (opt co ''use_roads'')
      else fsub 2 (fmul (opt co ''use_roads'') 2))"
  proof (cases "1 / 2 \<le> opt co ''use_roads''")
    case False
    then have "fmul (opt co ''use_roads'') 2 \<le> 2" by (intro f32_le small_floats) simp
    then show ?thesis using False by (simp add: float32.nonneg)
  qed (use o(2) in \<open>simp add: float32.nonneg\<close>)
  moreover have "0 \<le> fmul 3 (fsub 1 (opt co ''use_roads''))" using a by (intro fmul_nonneg) simp_all
  moreover have "0 \<le> f32 (8 / 10)" "0 \<le> f32 (2 / 10)" by (rule float32.nonneg; simp)+
  then have "0 \<le> fadd (f32 (2 / 10)) (fmul (opt co ''use_roads'') (f32 (8 / 10)))"
    using fadd_nonneg [OF _ fmul_nonneg [OF o(1)]] by blast
  moreover have "0 \<le> fadd (1 / 2) (opt co ''use_roads'')" using o(1) by (intro float32.nonneg) simp
  moreover note lane_factors_nonneg [OF o(1)] avoid_hills_nonneg [OF o(3,4) bicycle_tables(1)]
  moreover have "length (cyclelane_factors u) = 8" "length (path_cyclelane_factors u) = 4" for u
    by (simp_all add: cyclelane_factors_def path_cyclelane_factors_def)
  ultimately show ?thesis
    using o a unfolding bicycle_ok_def CreateBicycleCost_def Let_def by (simp only: bicycle_cost.simps)
qed

section \<open>The cost of an edge\<close>

lemma cycle_lane_index_less: "cycle_lane_index e < 8" "unat (de_cycle_lane e) < 4"
  using unsigned_less [of "de_cycle_lane e", where ?'a = nat] by (simp_all add: cycle_lane_index_def)

lemma roadway_stress_nonneg:
  assumes b: "bicycle_ok b" and s: "roadway_stress b e = Inr s" shows "0 \<le> s"
proof -
  obtain road penalty where x: "table bikeRoadClassFactor (unat (de_classification e)) = Inr road"
    "table (bi_speedpenalty b) (unat (de_speed e)) = Inr penalty"
    using s by (auto simp: roadway_stress_def bind_result_eq_Inr Let_def)
  have z: "0 \<le> bi_road_factor b" "list_all (\<lambda>x. 0 \<le> x) (bi_speedpenalty b)" using b by (simp_all add: bicycle_ok_def)
  have p: "0 \<le> road" "0 \<le> penalty" using table_nonneg [OF x(1) bicycle_tables(2)] table_nonneg [OF x(2) z(2)] .
  define lanes where "lanes = f32 (of_nat (unat (de_lanecount e)))"
  define s1 where "s1 = (if 1 < unat (de_lanecount e)
    then fadd 1 (fmul (fmul (fsub lanes 1) (f32 (5 / 100))) (bi_road_factor b)) else 1)"
  have "1 \<le> lanes" if l: "1 < unat (de_lanecount e)"
  proof -
    have "(of_nat 1 :: rat) \<le> of_nat (unat (de_lanecount e))" using l by (simp only: of_nat_le_iff)
    then show ?thesis unfolding lanes_def by (intro f32_ge [OF small_floats(2)]) simp
  qed
  moreover have "0 \<le> f32 (5 / 100)" by (rule float32.nonneg) simp
  ultimately have "0 \<le> s1"
    using z(1) by (auto simp: s1_def intro!: float32.nonneg add_nonneg_nonneg mult_nonneg_nonneg)
  then have "0 \<le> (if de_truck_route e then fadd s1 kTruckStress else s1)"
    using bicycle_tables(5) by (simp add: float32.nonneg)
  then have "0 \<le> fadd (if de_truck_route e then fadd s1 kTruckStress else s1) (fmul (bi_road_factor b) road)"
    by (rule fadd_nonneg) (rule fmul_nonneg [OF z(1) p(1)])
  from fmul_nonneg [OF this p(2)] show ?thesis
    using s unfolding roadway_stress_def x bind_result_simps Let_def s1_def lanes_def by (simp only: sum.inject)
qed

lemma accommodation_nonneg:
  assumes b: "bicycle_ok b" and r: "accommodation b e = Inr (a, s)" shows "0 \<le> a" "0 \<le> s"
proof -
  have z: "0 \<le> bi_path_cyclelane_factor b ! unat (de_cycle_lane e)" "0 \<le> bi_cyclelane_factor b ! cycle_lane_index e"
    "0 \<le> bi_use_roads b" "0 \<le> bi_livingstreet_factor b" "0 \<le> bi_track_factor b"
    using b cycle_lane_index_less [of e] by (simp_all add: bicycle_ok_def list_all_length)
  have "0 \<le> f32 (3 / 10)" by (rule float32.nonneg) simp
  then have "0 \<le> fadd (f32 (3 / 10)) (bi_use_roads b)" using z(3) by (intro float32.nonneg) simp
  then show "0 \<le> a" "0 \<le> s"
    using r z roadway_stress_nonneg [OF b]
    by (auto simp: accommodation_def bind_result_eq_Inr split: if_splits)
qed

lemma bicycle_factor_ok:
  assumes b: "bicycle_ok b" and r: "bicycle_factor b e = Inr f" shows "0 \<le> f \<and> f32 f = f"
proof -
  obtain a s grade where x: "accommodation b e = Inr (a, s)" "table (bi_grade_penalty b) (unat (de_weighted_grade e)) = Inr grade"
    using r by (auto simp: bicycle_factor_def bind_result_eq_Inr)
  have z: "0 \<le> bi_sidepath_factor b" "0 \<le> bi_avoid_bad_surfaces b" "list_all (\<lambda>x. 0 \<le> x) (bi_grade_penalty b)"
    using b by (simp_all add: bicycle_ok_def)
  define a1 where "a1 = (if de_use_sidepath e then fadd a (bi_sidepath_factor b) else a)"
  define a2 where "a2 = (if de_bike_network e then fmul a1 kBicycleNetworkFactor else a1)"
  define g where "g = fadd (fadd 1 grade) (fmul a2 s)"
  have "0 \<le> a1" using accommodation_nonneg(1) [OF b x(1)] z(1) by (simp add: a1_def float32.nonneg)
  then have "0 \<le> a2" using bicycle_tables(4) by (simp add: a2_def fmul_nonneg)
  moreover have "0 \<le> fadd 1 grade" using table_nonneg [OF x(2) z(3)] by (intro float32.nonneg) simp
  ultimately have g: "0 \<le> g"
    unfolding g_def using fadd_nonneg [OF _ fmul_nonneg [OF _ accommodation_nonneg(2) [OF b x(1)]]] by blast
  have "f = g \<or> (\<exists>bad. bad \<in> set kSurfaceFactors \<and> f = fadd g (fmul (bi_avoid_bad_surfaces b) bad))"
    using r
    by (auto simp: bicycle_factor_def x Let_def g_def a2_def a1_def bind_result_eq_Inr dest!: table_member split: if_splits)
  then show ?thesis
  proof (elim disjE exE conjE)
    fix bad assume "bad \<in> set kSurfaceFactors" and f: "f = fadd g (fmul (bi_avoid_bad_surfaces b) bad)"
    then have "0 \<le> bad" using bicycle_tables(3) by (auto simp: list_all_iff)
    then have "0 \<le> fadd g (fmul (bi_avoid_bad_surfaces b) bad)"
      using g z(2) by (intro float32.nonneg add_nonneg_nonneg mult_nonneg_nonneg)
    then show ?thesis by (simp add: f)
  qed (use g in \<open>simp add: g_def\<close>)
qed

text \<open>The bicycle does not write the flow sources.\<close>

definition keep_sources :: "u8 \<Rightarrow> cost result \<Rightarrow> (cost \<times> u8) result" where
  "keep_sources src r = bind_result r (\<lambda>c. Inr (c, src))"

lemma bicycle_edge_cost_shade:
  assumes b: "bicycle_ok b" and v: "env_le v v'"
  shows "shade_helps (keep_sources src (bicycle_edge_cost b e v)) (keep_sources src (bicycle_edge_cost b e v'))"
proof -
  let ?d = "bi_dyn b" and ?len = "edge_length e"
  have bo: "base_ok ?d" using b by (simp add: bicycle_ok_def)
  have cm: "bicycle_discount \<in> set comfort_models" by (simp add: comfort_models_def)
  have push: "keep_sources src (bind_result r g) = bind_result r (\<lambda>x. keep_sources src (g x))" for r :: "'x result" and g
    by (cases r) (simp_all add: keep_sources_def)
  have wrap: "keep_sources src (Inr c) = Inr (c, src)" for c by (simp add: keep_sources_def)
  have branch: "keep_sources src (if p then r else r') = (if p then keep_sources src r else keep_sources src r')" for p r r'
    by simp
  have pick: "shade_helps (Inr (\<lparr>cost = if p then ?len else x, secs = s\<rparr>, src)) (Inr (\<lparr>cost = if p then ?len else y, secs = s\<rparr>, src))"
    if "0 \<le> s" "shade_helps (Inr (\<lparr>cost = x, secs = s\<rparr>, src)) (Inr (\<lparr>cost = y, secs = s\<rparr>, src))" for p x y s
    using that edge_length_nonneg [of e] by (simp add: shade_helps_def)
  show ?thesis
    unfolding bicycle_edge_cost_def Let_def branch push wrap
    by (intro shade_helps_if shade_helps_bind pick pace_nonneg shade_helps_same fmul_nonneg shade_helps_discount cm v)
      (use bicycle_tables(6) base_okD(5) [OF bo] bicycle_factor_ok [OF b] edge_length_nonneg kSpeedFactor_nonneg
        in \<open>auto intro: order_trans [of 0 "1 / 2"]\<close>)
qed

end
