(* ===== verification/Costing_Models.thy ===== *)
theory Costing_Models
  imports Auto_Cost Truck_Cost Motorcycle_Cost Bicycle_Cost
begin

text \<open>
  The costing models behind one interface: \<open>costing_model\<close> stands for an object of one of the classes
  derived from \<^verbatim>\<open>DynamicCost\<close>, the functions \<open>cm_...\<close> for its virtual methods. Parsing a request and
  creating the object by type are \<^verbatim>\<open>ParseCosting\<close> (\<^verbatim>\<open>src/sif/dynamiccost.cc\<close>) and \<^verbatim>\<open>CostFactory\<close>
  (\<^verbatim>\<open>valhalla/sif/costfactory.h\<close>); \<^verbatim>\<open>NoCost\<close> (\<^verbatim>\<open>src/sif/nocost.cc\<close>) is here, too. The type for transit is not
  modelled. What the tile holds for an edge beside the edge itself is the record \<open>edge_data\<close>.

  The locale \<open>shaded_costing\<close> is the contract on environment scores that every model fulfils.
\<close>

section \<open>Models\<close>

record edge_data =
  ed_speeds :: tile_speeds
  ed_index :: nat
  ed_env :: environment_scores
  ed_levels :: "(rat \<times> rat) list"

datatype costing_model =
    Auto_model auto_cost
  | Bus_model auto_cost
  | Taxi_model auto_cost
  | Truck_model truck_cost
  | Motorcycle_model motorcycle_cost
  | Scooter_model scooter_cost
  | Bicycle_model bicycle_cost
  | Pedestrian_model pedestrian_cost
  | No_model dynamic_cost

datatype costing_type =
  Auto_type | Bicycle_type | Bus_type | Taxi_type | Scooter_type | Motorcycle_type | Pedestrian_type | Truck_type
| Multimodal_type | None_type | Bikeshare_type

definition CreateNoCost :: "costing_options \<Rightarrow> dynamic_cost" where
  "CreateNoCost co = new_dynamic_cost co Base_Cost.kAllAccess False False"

fun create_model :: "costing_type \<Rightarrow> costing_options \<Rightarrow> costing_model" where
  "create_model Auto_type co = Auto_model (CreateAutoCost co)"
| "create_model Bicycle_type co = Bicycle_model (CreateBicycleCost co)"
| "create_model Bus_type co = Bus_model (CreateBusCost co)"
| "create_model Taxi_type co = Taxi_model (CreateTaxiCost co)"
| "create_model Scooter_type co = Scooter_model (CreateMotorScooterCost co)"
| "create_model Motorcycle_type co = Motorcycle_model (CreateMotorcycleCost co)"
| "create_model Pedestrian_type co = Pedestrian_model (CreatePedestrianCost co)"
| "create_model Truck_type co = Truck_model (CreateTruckCost co)"
| "create_model Multimodal_type co = No_model (CreateNoCost co)"
| "create_model None_type co = No_model (CreateNoCost co)"
| "create_model Bikeshare_type co = Pedestrian_model (CreateBikeShareCost co)"

fun parse_costing :: "costing_type \<Rightarrow> lexer \<Rightarrow> json \<Rightarrow> string list \<Rightarrow> costing_options \<Rightarrow> costing_options result" where
  "parse_costing Auto_type = ParseAutoCostOptions"
| "parse_costing Bicycle_type = ParseBicycleCostOptions"
| "parse_costing Bus_type = ParseBusCostOptions"
| "parse_costing Taxi_type = ParseTaxiCostOptions"
| "parse_costing Scooter_type = ParseMotorScooterCostOptions"
| "parse_costing Motorcycle_type = ParseMotorcycleCostOptions"
| "parse_costing Pedestrian_type = ParsePedestrianCostOptions"
| "parse_costing Truck_type = ParseTruckCostOptions"
| "parse_costing Multimodal_type = (\<lambda>lx doc key co. Inr co)"
| "parse_costing None_type = (\<lambda>lx doc key co. Inr (co\<lparr>costing_name := ''none''\<rparr>))"
| "parse_costing Bikeshare_type = (\<lambda>lx doc key co. Inr co)"

text \<open>
  The costing types of a request, \<^verbatim>\<open>kCostingTypeMapping\<close>, less the one for transit. The options of every
  type are parsed from the member of its name; \<open>old\<close> are the options the request brought along.
\<close>

fun Costing_Enum_Name :: "costing_type \<Rightarrow> string" where
  "Costing_Enum_Name Auto_type = ''auto''"
| "Costing_Enum_Name Bicycle_type = ''bicycle''"
| "Costing_Enum_Name Bus_type = ''bus''"
| "Costing_Enum_Name Taxi_type = ''taxi''"
| "Costing_Enum_Name Scooter_type = ''motor_scooter''"
| "Costing_Enum_Name Motorcycle_type = ''motorcycle''"
| "Costing_Enum_Name Pedestrian_type = ''pedestrian''"
| "Costing_Enum_Name Truck_type = ''truck''"
| "Costing_Enum_Name Multimodal_type = ''multimodal''"
| "Costing_Enum_Name None_type = ''none''"
| "Costing_Enum_Name Bikeshare_type = ''bikeshare''"

fun kCostingTypeMapping :: "costing_type \<Rightarrow> costing_type list" where
  "kCostingTypeMapping Multimodal_type = [Multimodal_type, Pedestrian_type]"
| "kCostingTypeMapping Bikeshare_type = [Bikeshare_type, Pedestrian_type, Bicycle_type]"
| "kCostingTypeMapping ty = [ty]"

fun parse_each :: "(costing_type \<Rightarrow> costing_options result) \<Rightarrow> costing_type list \<Rightarrow> (costing_type \<times> costing_options) list result" where
  "parse_each f [] = Inr []"
| "parse_each f (ty # tys) = bind_result (f ty) (\<lambda>co. bind_result (parse_each f tys) (\<lambda>cs. Inr ((ty, co) # cs)))"

definition ParseCosting :: "lexer \<Rightarrow> json \<Rightarrow> string list \<Rightarrow> costing_type \<Rightarrow> (costing_type \<Rightarrow> costing_options)
    \<Rightarrow> (costing_type \<times> costing_options) list result" where
  "ParseCosting lx doc key ty old =
     parse_each (\<lambda>t. parse_costing t lx doc (key @ [Costing_Enum_Name t]) (old t)) (kCostingTypeMapping ty)"

section \<open>The virtual methods\<close>

fun cm_dyn :: "costing_model \<Rightarrow> dynamic_cost" where
  "cm_dyn (Auto_model a) = au_dyn a"
| "cm_dyn (Bus_model a) = au_dyn a"
| "cm_dyn (Taxi_model a) = au_dyn a"
| "cm_dyn (Truck_model m) = tr_dyn m"
| "cm_dyn (Motorcycle_model m) = mc_dyn m"
| "cm_dyn (Scooter_model m) = sc_dyn m"
| "cm_dyn (Bicycle_model b) = bi_dyn b"
| "cm_dyn (Pedestrian_model p) = dyn p"
| "cm_dyn (No_model d) = d"

fun cm_mode :: "costing_model \<Rightarrow> travel_mode" where
  "cm_mode (Bicycle_model b) = Bicycle"
| "cm_mode (Pedestrian_model p) = Pedestrian"
| "cm_mode m = Drive"

text \<open>The models of a request by travel mode, a later type replacing an earlier one, and the mode of the start.\<close>

definition CreateModeCosting :: "costing_type \<Rightarrow> (costing_type \<times> costing_options) list
    \<Rightarrow> (travel_mode \<rightharpoonup> costing_model) \<times> travel_mode" where
  "CreateModeCosting ty cs =
     (let models = map (\<lambda>(t, co). create_model t co) cs
      in (fold (\<lambda>m mc. mc(cm_mode m \<mapsto> m)) models Map.empty,
          if ty = Multimodal_type \<or> ty = Bikeshare_type then Pedestrian else cm_mode (last models)))"

fun cm_closed :: "costing_model \<Rightarrow> (directed_edge \<Rightarrow> bool) \<Rightarrow> directed_edge \<Rightarrow> bool" where
  "cm_closed (Bicycle_model b) closed_now e = False"
| "cm_closed (No_model d) closed_now e = False"
| "cm_closed m closed_now e = IsClosed (cm_dyn m) closed_now e"

fun cm_allowed_node :: "costing_model \<Rightarrow> nodeinfo \<Rightarrow> bool" where
  "cm_allowed_node (No_model d) n = True"
| "cm_allowed_node m n = Allowed_node (cm_dyn m) (costing_node n)"

fun cm_filter :: "costing_model \<Rightarrow> (directed_edge \<Rightarrow> bool) \<Rightarrow> directed_edge \<Rightarrow> u16 \<Rightarrow> bool" where
  "cm_filter (Auto_model a) c e disallow = auto_filter a c e disallow"
| "cm_filter (Bus_model a) c e disallow = auto_filter a c e disallow"
| "cm_filter (Taxi_model a) c e disallow = auto_filter a c e disallow"
| "cm_filter (Truck_model m) c e disallow = truck_filter m c e disallow"
| "cm_filter (Motorcycle_model m) c e disallow = motorcycle_filter m c e disallow"
| "cm_filter (Scooter_model m) c e disallow = scooter_filter m c e disallow"
| "cm_filter (Bicycle_model b) c e disallow = bicycle_filter b e disallow"
| "cm_filter (Pedestrian_model p) c e disallow = Allowed_filter p e disallow"
| "cm_filter (No_model d) c e disallow = (\<not> (de_is_shortcut e \<or> IsTransitLine e))"

fun cm_allowed :: "costing_model \<Rightarrow> conditional_active \<Rightarrow> (directed_edge \<Rightarrow> bool) \<Rightarrow> directed_edge \<Rightarrow> bool
    \<Rightarrow> 'a sif_label_scheme \<Rightarrow> routing_tile \<Rightarrow> graph_id \<Rightarrow> u64 \<Rightarrow> u32 \<Rightarrow> u8 \<Rightarrow> u8 \<Rightarrow> bool \<times> u8 \<times> u8" where
  "cm_allowed (Auto_model a) act c e dest pred tile g time tz i x = auto_allowed a act c e dest pred tile g time tz i x"
| "cm_allowed (Bus_model a) act c e dest pred tile g time tz i x = bus_allowed a act c e dest pred tile g time tz i x"
| "cm_allowed (Taxi_model a) act c e dest pred tile g time tz i x = taxi_allowed a act c e dest pred tile g time tz i x"
| "cm_allowed (Truck_model m) act c e dest pred tile g time tz i x = truck_allowed m act c e dest pred tile g time tz i x"
| "cm_allowed (Motorcycle_model m) act c e dest pred tile g time tz i x =
     motorcycle_allowed m act c e dest pred tile g time tz i x"
| "cm_allowed (Scooter_model m) act c e dest pred tile g time tz i x = scooter_allowed m act c e dest pred tile g time tz i x"
| "cm_allowed (Bicycle_model b) act c e dest pred tile g time tz i x = bicycle_allowed b act e dest pred tile g time tz i x"
| "cm_allowed (Pedestrian_model p) act c e dest pred tile g time tz i x =
     pedestrian_allowed p act e dest pred tile g time tz i x"
| "cm_allowed (No_model d) act c e dest pred tile g time tz i x = (\<not> de_is_shortcut e, i, x)"

fun cm_allowed_reverse :: "costing_model \<Rightarrow> conditional_active \<Rightarrow> (directed_edge \<Rightarrow> bool) \<Rightarrow> directed_edge
    \<Rightarrow> 'a sif_label_scheme \<Rightarrow> directed_edge \<Rightarrow> routing_tile \<Rightarrow> graph_id \<Rightarrow> u64 \<Rightarrow> u32 \<Rightarrow> u8 \<Rightarrow> u8 \<Rightarrow> bool \<times> u8 \<times> u8" where
  "cm_allowed_reverse (Auto_model a) act c e pred opp tile g time tz i x =
     auto_allowed_reverse a act c e pred opp tile g time tz i x"
| "cm_allowed_reverse (Bus_model a) act c e pred opp tile g time tz i x =
     auto_allowed_reverse a act c e pred opp tile g time tz i x"
| "cm_allowed_reverse (Taxi_model a) act c e pred opp tile g time tz i x =
     auto_allowed_reverse a act c e pred opp tile g time tz i x"
| "cm_allowed_reverse (Truck_model m) act c e pred opp tile g time tz i x =
     truck_allowed_reverse m act c e pred opp tile g time tz i x"
| "cm_allowed_reverse (Motorcycle_model m) act c e pred opp tile g time tz i x =
     motorcycle_allowed_reverse m act c e pred opp tile g time tz i x"
| "cm_allowed_reverse (Scooter_model m) act c e pred opp tile g time tz i x =
     scooter_allowed_reverse m act c e pred opp tile g time tz i x"
| "cm_allowed_reverse (Bicycle_model b) act c e pred opp tile g time tz i x =
     bicycle_allowed_reverse b act e pred opp tile g time tz i x"
| "cm_allowed_reverse (Pedestrian_model p) act c e pred opp tile g time tz i x =
     pedestrian_allowed_reverse p act e pred opp tile g time tz i x"
| "cm_allowed_reverse (No_model d) act c e pred opp tile g time tz i x = (\<not> de_is_shortcut opp, i, x)"

text \<open>\<^verbatim>\<open>PedestrianCost::EdgeCost\<close> with its call of \<^verbatim>\<open>GetSpeed\<close> for ferries, which alone writes the flow sources.\<close>

definition pedestrian_edge_cost :: "pedestrian_cost \<Rightarrow> edge_data \<Rightarrow> directed_edge \<Rightarrow> time_info \<Rightarrow> u8 \<Rightarrow> (cost \<times> u8) result" where
  "pedestrian_edge_cost p x e ti stale =
     (if use_of e = kFerry
      then bind_result (GetSpeed (ed_speeds x) (ed_index x) e (dc_flow_mask (dyn p)) (ucast (second_of_week ti)) False 0)
        (\<lambda>(v, src). bind_result (EdgeCost p e (ed_env x) v) (\<lambda>c. Inr (c, src)))
      else bind_result (EdgeCost p e (ed_env x) 0) (\<lambda>c. Inr (c, stale)))"

fun cm_edge_cost :: "costing_model \<Rightarrow> edge_data \<Rightarrow> directed_edge \<Rightarrow> time_info \<Rightarrow> u8 \<Rightarrow> (cost \<times> u8) result" where
  "cm_edge_cost (Auto_model a) x e ti stale = auto_edge_cost a (ed_speeds x) (ed_index x) e ti (ed_env x) stale"
| "cm_edge_cost (Bus_model a) x e ti stale = auto_edge_cost a (ed_speeds x) (ed_index x) e ti (ed_env x) stale"
| "cm_edge_cost (Taxi_model a) x e ti stale = taxi_edge_cost a (ed_speeds x) (ed_index x) e ti stale"
| "cm_edge_cost (Truck_model m) x e ti stale = truck_edge_cost m (ed_speeds x) (ed_index x) e ti (ed_env x) stale"
| "cm_edge_cost (Motorcycle_model m) x e ti stale =
     motorcycle_edge_cost m (ed_speeds x) (ed_index x) e ti (ed_env x) stale"
| "cm_edge_cost (Scooter_model m) x e ti stale = scooter_edge_cost m (ed_speeds x) (ed_index x) e ti (ed_env x) stale"
| "cm_edge_cost (Bicycle_model b) x e ti stale = keep_sources stale (bicycle_edge_cost b e (ed_env x))"
| "cm_edge_cost (Pedestrian_model p) x e ti stale = pedestrian_edge_cost p x e ti stale"
| "cm_edge_cost (No_model d) x e ti stale = Inr (\<lparr>cost = edge_length e, secs = edge_length e\<rparr>, stale)"

text \<open>The levels are those of the edge and of the one before; only the pedestrian reads them.\<close>

fun cm_transition :: "(rat \<Rightarrow> rat) \<Rightarrow> costing_model \<Rightarrow> directed_edge \<Rightarrow> nodeinfo \<Rightarrow> 'a sif_label_scheme
    \<Rightarrow> (rat \<times> rat) list \<Rightarrow> (rat \<times> rat) list \<Rightarrow> cost" where
  "cm_transition expf (Auto_model a) e n pred ls prev = auto_transition expf a e n pred"
| "cm_transition expf (Bus_model a) e n pred ls prev = auto_transition expf a e n pred"
| "cm_transition expf (Taxi_model a) e n pred ls prev = auto_transition expf a e n pred"
| "cm_transition expf (Truck_model m) e n pred ls prev = truck_transition expf m e n pred"
| "cm_transition expf (Motorcycle_model m) e n pred ls prev = two_wheel_transition expf (mc_dyn m) e n pred"
| "cm_transition expf (Scooter_model m) e n pred ls prev = two_wheel_transition expf (sc_dyn m) e n pred"
| "cm_transition expf (Bicycle_model b) e n pred ls prev = bicycle_transition b e n pred"
| "cm_transition expf (Pedestrian_model p) e n pred ls prev =
     TransitionCost p e (costing_node n) (pred_view pred) ls prev"
| "cm_transition expf (No_model d) e n pred ls prev = zero_cost"

fun cm_transition_reverse :: "(rat \<Rightarrow> rat) \<Rightarrow> costing_model \<Rightarrow> nat \<Rightarrow> nodeinfo \<Rightarrow> directed_edge \<Rightarrow> directed_edge
    \<Rightarrow> bool \<Rightarrow> 2 word \<Rightarrow> (rat \<times> rat) list \<Rightarrow> (rat \<times> rat) list \<Rightarrow> cost" where
  "cm_transition_reverse expf (Auto_model a) i n pred e ms t ls prev = auto_transition_reverse expf a i n pred e ms t"
| "cm_transition_reverse expf (Bus_model a) i n pred e ms t ls prev = auto_transition_reverse expf a i n pred e ms t"
| "cm_transition_reverse expf (Taxi_model a) i n pred e ms t ls prev = auto_transition_reverse expf a i n pred e ms t"
| "cm_transition_reverse expf (Truck_model m) i n pred e ms t ls prev = truck_transition_reverse expf m i n pred e ms t"
| "cm_transition_reverse expf (Motorcycle_model m) i n pred e ms t ls prev =
     two_wheel_transition_reverse expf (mc_dyn m) i n pred e ms t"
| "cm_transition_reverse expf (Scooter_model m) i n pred e ms t ls prev =
     two_wheel_transition_reverse expf (sc_dyn m) i n pred e ms t"
| "cm_transition_reverse expf (Bicycle_model b) i n pred e ms t ls prev = bicycle_transition_reverse b i n pred e"
| "cm_transition_reverse expf (Pedestrian_model p) i n pred e ms t ls prev =
     TransitionCostReverse p i (costing_node n) pred e ls prev"
| "cm_transition_reverse expf (No_model d) i n pred e ms t ls prev = zero_cost"

section \<open>The contract on environment scores\<close>

text \<open>More shade and comfort on an edge, and nothing else changed.\<close>

definition data_le :: "edge_data \<Rightarrow> edge_data \<Rightarrow> bool" where
  "data_le x x' \<longleftrightarrow> ed_speeds x' = ed_speeds x \<and> ed_index x' = ed_index x \<and> ed_levels x' = ed_levels x
     \<and> env_le (ed_env x) (ed_env x')"

locale shaded_costing =
  fixes model_ok :: "'m \<Rightarrow> bool"
    and edge_cost :: "'m \<Rightarrow> edge_data \<Rightarrow> directed_edge \<Rightarrow> time_info \<Rightarrow> u8 \<Rightarrow> (cost \<times> u8) result"
  assumes shade: "model_ok m \<Longrightarrow> data_le x x' \<Longrightarrow> shade_helps (edge_cost m x e ti stale) (edge_cost m x' e ti stale)"
begin

lemma same_error: "model_ok m \<Longrightarrow> data_le x x' \<Longrightarrow> edge_cost m x e ti stale = Inl err \<longleftrightarrow> edge_cost m x' e ti stale = Inl err"
  using shade [of m x x' e ti stale] by (auto simp: shade_helps_def split: sum.splits)

lemma cheaper:
  assumes "model_ok m" "data_le x x'" "edge_cost m x e ti stale = Inr (c, src)"
  obtains c' where "edge_cost m x' e ti stale = Inr (c', src)" and "secs c' = secs c" and "cost c' \<le> cost c" and "0 \<le> cost c'"
    and "0 \<le> secs c"
  using shade [OF assms(1,2), of e ti stale] assms(3) by (auto simp: shade_helps_def split: sum.splits prod.splits)

text \<open>The sum of a path so far with the transition and the share of the edge that is travelled.\<close>

lemma cheaper_sum:
  assumes "model_ok m" "data_le x x'" "edge_cost m x e ti stale = Inr (c, src)" "0 \<le> share"
    and old: "cost a' \<le> cost a" "secs a' = secs a"
  shows "\<exists>c'. edge_cost m x' e ti stale = Inr (c', src)
    \<and> cost (cost_add a' (cost_add tc (cost_scale c' share))) \<le> cost (cost_add a (cost_add tc (cost_scale c share)))
    \<and> secs (cost_add a' (cost_add tc (cost_scale c' share))) = secs (cost_add a (cost_add tc (cost_scale c share)))"
proof -
  obtain c' where c': "edge_cost m x' e ti stale = Inr (c', src)" "secs c' = secs c" "cost c' \<le> cost c"
    using cheaper [OF assms(1-3)] .
  have "fmul (cost c') share \<le> fmul (cost c) share" using c'(3) assms(4) by (intro float32.mono mult_right_mono)
  then have "fadd (cost tc) (fmul (cost c') share) \<le> fadd (cost tc) (fmul (cost c) share)" by (intro float32.mono) simp
  then have "fadd (cost a') (fadd (cost tc) (fmul (cost c') share)) \<le> fadd (cost a) (fadd (cost tc) (fmul (cost c) share))"
    by (rule float32.mono [OF add_mono [OF old(1)]])
  then show ?thesis using c' old(2) by (auto simp: cost_add_def cost_scale_def)
qed

end

text \<open>Each model fulfils the contract; the taxi does because it reads no scores at all.\<close>

interpretation auto: shaded_costing auto_ok "\<lambda>a x e ti. auto_edge_cost a (ed_speeds x) (ed_index x) e ti (ed_env x)"
  by unfold_locales (simp add: data_le_def auto_edge_cost_shade)

interpretation taxi: shaded_costing auto_ok "\<lambda>a x e ti. taxi_edge_cost a (ed_speeds x) (ed_index x) e ti"
  by unfold_locales (simp add: data_le_def taxi_edge_cost_same)

interpretation truck: shaded_costing truck_ok "\<lambda>m x e ti. truck_edge_cost m (ed_speeds x) (ed_index x) e ti (ed_env x)"
  by unfold_locales (simp add: data_le_def truck_edge_cost_shade)

interpretation motorcycle: shaded_costing motorcycle_ok
  "\<lambda>m x e ti. motorcycle_edge_cost m (ed_speeds x) (ed_index x) e ti (ed_env x)"
  by unfold_locales (simp add: data_le_def motorcycle_edge_cost_shade)

interpretation scooter: shaded_costing scooter_ok
  "\<lambda>m x e ti. scooter_edge_cost m (ed_speeds x) (ed_index x) e ti (ed_env x)"
  by unfold_locales (simp add: data_le_def scooter_edge_cost_shade)

interpretation bicycle: shaded_costing bicycle_ok "\<lambda>b x e ti stale. keep_sources stale (bicycle_edge_cost b e (ed_env x))"
  by unfold_locales (simp add: data_le_def bicycle_edge_cost_shade)

text \<open>The pedestrian, whose ferry factor is not among the members \<open>ped_ok\<close> bounds.\<close>

definition walker_ok :: "pedestrian_cost \<Rightarrow> bool" where
  "walker_ok p \<longleftrightarrow> ped_ok p \<and> 1 / 2 \<le> ferry_factor (dyn p)"

lemma ped_tables_nonneg: "list_all (\<lambda>x. 0 \<le> x) kSacScaleSpeedFactor" "list_all (\<lambda>x. 0 \<le> x) kGradeBasedSpeedFactor"
  "list_all (\<lambda>x. 0 \<le> x) kSacScaleCostFactor" "0 \<le> kMetersPerSecond"
  by (simp_all add: kSacScaleSpeedFactor_def kGradeBasedSpeedFactor_def kSacScaleCostFactor_def kMetersPerSecond_def
      kSecPerHour_def float_eval)

lemma edge_seconds_nonneg:
  assumes p: "ped_ok p" and s: "edge_seconds p e = Inr s" shows "0 \<le> s"
proof -
  obtain sac grade where x: "table kSacScaleSpeedFactor (unat (de_sac_scale e)) = Inr sac"
    "table kGradeBasedSpeedFactor (unat (de_weighted_grade e)) = Inr grade"
    and s: "s = fmul (fmul (fmul (edge_length e) (speedfactor p)) sac) grade"
    using s by (auto simp: edge_seconds_def bind_result_eq_Inr edge_length_def)
  have "0 \<le> speedfactor p" using p by (auto simp: ped_ok_def intro: order_trans [of 0 "1 / 8"])
  then show ?thesis
    unfolding s using table_nonneg [OF x(1) ped_tables_nonneg(1)] table_nonneg [OF x(2) ped_tables_nonneg(2)]
    by (intro fmul_nonneg edge_length_nonneg)
qed

lemma edge_factor_nonneg:
  assumes p: "ped_ok p" and f: "edge_factor p e = Inr f" shows "0 \<le> f \<and> f32 f = f"
proof -
  obtain sac grade where x: "table kSacScaleCostFactor (unat (de_sac_scale e)) = Inr sac"
    "table (grade_penalty p) (unat (de_weighted_grade e)) = Inr grade"
    and f: "f = fmul (fmul (fadd (fadd 1 sac) grade) (use_factor p e)) (lit_factor p e)"
    using f by (auto simp: edge_factor_def bind_result_eq_Inr)
  have g: "list_all (\<lambda>g. 0 \<le> g) (grade_penalty p)" using p by (simp add: ped_ok_def)
  have "0 \<le> use_factor p e" using use_factor_ge [OF p, of e] by (auto intro: order_trans [of 0 "2 powi (- 4)"])
  moreover have "0 \<le> lit_factor p e" using lit_factor_ge [OF p, of e] by simp
  moreover have "0 \<le> fadd 1 sac" using table_nonneg [OF x(1) ped_tables_nonneg(3)] by (intro fadd_nonneg) simp_all
  then have "0 \<le> fadd (fadd 1 sac) grade" by (rule fadd_nonneg) (rule table_nonneg [OF x(2) g])
  ultimately have "0 \<le> f" unfolding f by (intro fmul_nonneg)
  then show ?thesis by (simp add: f)
qed

lemma walking_shade:
  assumes p: "walker_ok p" and v: "env_le v v'"
  shows "shade_helps (keep_sources src (EdgeCost p e v w)) (keep_sources src (EdgeCost p e v' w))"
proof -
  let ?len = "edge_length e"
  have ok: "ped_ok p" "0 \<le> ferry_factor (dyn p)" using p by (auto simp: walker_ok_def intro: order_trans [of 0 "1 / 2"])
  have cm: "pedestrian_discount \<in> set comfort_models" by (simp add: comfort_models_def)
  show ?thesis
  proof (cases "use_of e = kFerry")
    case True
    show ?thesis
    proof (cases "w = 0")
      case False
      have "0 \<le> fdiv (fmul ?len kMetersPerSecond) (f32 (of_nat (unat w)))"
        by (intro float32.nonneg divide_nonneg_nonneg mult_nonneg_nonneg edge_length_nonneg ped_tables_nonneg(4)
            of_nat_0_le_iff)
      from this fmul_nonneg [OF this ok(2)] show ?thesis
        unfolding edge_length_def using True False
        by (simp add: EdgeCost_def keep_sources_def Let_def shade_helps_def)
    qed (simp add: True EdgeCost_def keep_sources_def shade_helps_def)
  next
    case False
    have split: "keep_sources src (EdgeCost p e u w) = bind_result (edge_seconds p e) (\<lambda>s.
        if shortest (dyn p) then Inr (\<lparr>cost = ?len, secs = s\<rparr>, src)
        else bind_result (edge_factor p e) (\<lambda>f. Inr (\<lparr>cost = fmul s (pedestrian_discount (dyn p) u f), secs = s\<rparr>, src)))" for u
      using False
      by (cases "edge_seconds p e"; cases "edge_factor p e") (simp_all add: EdgeCost_def keep_sources_def edge_length_def)
    show ?thesis
      unfolding split
      by (intro shade_helps_bind shade_helps_edge cm v edge_length_nonneg)
        (use edge_seconds_nonneg [OF ok(1)] edge_factor_nonneg [OF ok(1)] in auto)
  qed
qed

lemma pedestrian_edge_cost_shade:
  assumes p: "walker_ok p" and x: "data_le x x'"
  shows "shade_helps (pedestrian_edge_cost p x e ti stale) (pedestrian_edge_cost p x' e ti stale)"
  using walking_shade [OF p, of "ed_env x" "ed_env x'"] x
  unfolding pedestrian_edge_cost_def keep_sources_def data_le_def
  by (auto intro!: shade_helps_split)

interpretation pedestrian: shaded_costing walker_ok pedestrian_edge_cost
  by unfold_locales (rule pedestrian_edge_cost_shade)

fun cm_ok :: "costing_model \<Rightarrow> bool" where
  "cm_ok (Auto_model a) = auto_ok a"
| "cm_ok (Bus_model a) = auto_ok a"
| "cm_ok (Taxi_model a) = auto_ok a"
| "cm_ok (Truck_model m) = truck_ok m"
| "cm_ok (Motorcycle_model m) = motorcycle_ok m"
| "cm_ok (Scooter_model m) = scooter_ok m"
| "cm_ok (Bicycle_model b) = bicycle_ok b"
| "cm_ok (Pedestrian_model p) = walker_ok p"
| "cm_ok (No_model d) = True"

lemma cm_edge_cost_shade:
  "cm_ok m \<Longrightarrow> data_le x x' \<Longrightarrow> shade_helps (cm_edge_cost m x e ti stale) (cm_edge_cost m x' e ti stale)"
  using auto.shade taxi.shade truck.shade motorcycle.shade scooter.shade bicycle.shade pedestrian.shade
  by (cases m) (simp_all add: edge_length_nonneg shade_helps_def)

interpretation models: shaded_costing cm_ok cm_edge_cost
  by unfold_locales (rule cm_edge_cost_shade)

section \<open>Requests\<close>

text \<open>What the parsing of any request leaves, the model created from it can work with.\<close>

lemma pedestrian_standard: "standard_ranges pedestrian_config" "\<not> disable_ferry pedestrian_config"
  using constants
  by (simp_all add: standard_ranges_def pedestrian_config_def base_default_def sane_def fits_range_def rng_def float_eval)

lemma walker_ok_created:
  assumes p: "ParsePedestrianCostOptions lx doc key co = Inr co'" shows "walker_ok (CreatePedestrianCost co')"
proof -
  have "all_in_range pedestrian_config [] co'"
    using parsed_within(1) [OF p] by (auto simp: all_in_range_def list_all_iff)
  then have "1 / 2 \<le> ferry_factor_of (opt co' ''use_ferry'')"
    using base_options(9,10) [OF _ pedestrian_standard(1)] pedestrian_standard(2) by (intro ferry_factor_of_ge) blast+
  then show ?thesis
    using CreatePedestrianCost_ok [OF p] by (simp add: walker_ok_def CreatePedestrianCost_def Let_def get_base_costs_more)
qed

lemma all_in_range_named [simp]: "all_in_range cfg ss (co\<lparr>costing_name := s\<rparr>) = all_in_range cfg ss co"
  by (simp add: all_in_range_def holds_range_def)

lemma cm_ok_parsed:
  assumes p: "parse_costing ty lx doc key co = Inr co'" and ty: "ty \<noteq> Bikeshare_type"
  shows "cm_ok (create_model ty co')"
proof (cases ty)
  case Auto_type
  then show ?thesis using p parse_vehicle_within [OF _ auto_good_specs]
    by (auto simp: ParseAutoCostOptions_def CreateAutoCost_def intro!: auto_ok_created)
next
  case Bus_type
  then show ?thesis using p parse_vehicle_within [OF _ auto_good_specs]
    by (auto simp: ParseBusCostOptions_def ParseAutoCostOptions_def CreateBusCost_def bind_result_eq_Inr
        intro!: auto_ok_created)
next
  case Taxi_type
  then show ?thesis using p parse_vehicle_within [OF _ auto_good_specs]
    by (auto simp: ParseTaxiCostOptions_def ParseAutoCostOptions_def CreateTaxiCost_def bind_result_eq_Inr
        intro!: auto_ok_created)
next
  case Truck_type
  then show ?thesis using p parse_vehicle_within [OF _ truck_good_specs]
    by (auto simp: ParseTruckCostOptions_def intro!: truck_ok_created)
next
  case Motorcycle_type
  then show ?thesis using p parse_vehicle_within [OF _ two_wheel_good_specs(1)]
    by (auto simp: ParseMotorcycleCostOptions_def intro!: motorcycle_ok_created)
next
  case Scooter_type
  then show ?thesis using p parse_vehicle_within [OF _ two_wheel_good_specs(2)]
    by (auto simp: ParseMotorScooterCostOptions_def intro!: scooter_ok_created)
next
  case Bicycle_type
  then show ?thesis using p by (simp add: bicycle_ok_created parse_bicycle_within)
next
  case Pedestrian_type
  then show ?thesis using p by (simp add: walker_ok_created)
qed (use ty in simp_all)

lemma only_bad_numbers_costing: "only_bad_numbers lx doc (parse_costing ty lx doc key co)"
  by (cases ty)
    (simp_all add: ParseAutoCostOptions_def ParseBusCostOptions_def ParseTaxiCostOptions_def ParseTruckCostOptions_def
      ParseMotorcycleCostOptions_def ParseMotorScooterCostOptions_def only_bad_numbers_vehicle only_bad_numbers_bicycle
      only_bad_numbers_pedestrian only_bad_numbers_Inr only_bad_numbers_bind)

lemma only_bad_numbers_costings: "only_bad_numbers lx doc (ParseCosting lx doc key ty old)"
proof -
  have each: "only_bad_numbers lx doc (parse_each f tys)" if "\<And>t. only_bad_numbers lx doc (f t)" for f tys
    using that by (induction tys) (simp_all add: only_bad_numbers_bind only_bad_numbers_Inr)
  show ?thesis unfolding ParseCosting_def by (rule each) (rule only_bad_numbers_costing)
qed

lemma parsed_modes:
  assumes p: "ParseCosting lx doc key ty old = Inr cs"
  shows "case fst (CreateModeCosting ty cs) mode of None \<Rightarrow> mode \<noteq> snd (CreateModeCosting ty cs) | Some m \<Rightarrow> cm_ok m"
proof (cases "ty = Bikeshare_type \<or> ty = Multimodal_type")
  case False
  then obtain co' where co': "parse_costing ty lx doc (key @ [Costing_Enum_Name ty]) (old ty) = Inr co'" "cs = [(ty, co')]"
    using p by (cases ty) (auto simp: ParseCosting_def bind_result_eq_Inr)
  then have "cm_ok (create_model ty co')" using cm_ok_parsed False by blast
  then show ?thesis using False co'(2) by (auto simp: CreateModeCosting_def Let_def)
next
  case True
  obtain c1 co' where co': "parse_costing Pedestrian_type lx doc (key @ [Costing_Enum_Name Pedestrian_type]) (old Pedestrian_type) = Inr co'"
    and cs: "cs = [(ty, c1), (Pedestrian_type, co')] \<and> ty = Multimodal_type
      \<or> (\<exists>c2. cs = [(ty, c1), (Pedestrian_type, co'), (Bicycle_type, c2)] \<and> ty = Bikeshare_type
          \<and> parse_costing Bicycle_type lx doc (key @ [Costing_Enum_Name Bicycle_type]) (old Bicycle_type) = Inr c2)"
    using p True by (auto simp: ParseCosting_def bind_result_eq_Inr)
  have "cm_ok (create_model Pedestrian_type co')" by (rule cm_ok_parsed [OF co']) simp
  moreover have "cm_ok (create_model Bicycle_type c2)"
    if "parse_costing Bicycle_type lx doc (key @ [Costing_Enum_Name Bicycle_type]) (old Bicycle_type) = Inr c2" for c2
    by (rule cm_ok_parsed [OF that]) simp
  ultimately show ?thesis using cs by (auto simp: CreateModeCosting_def)
qed

text \<open>
  C8: Whatever document a request is, and whatever costing it asks for, the models it is answered with can be
  worked with: after the options of every costing type of the request are parsed and the models created by
  travel mode, every model (and there is one for the mode the search starts in) has factors with the signs and
  bounds its costs need. That includes the requests for shared bikes, whose own object nobody parses options
  for: the pedestrian's takes its place. The parsing fails only on numbers: at a conversion to an
  unsigned integer that C++ leaves undefined, or, in the model, where a text of the document is read as a
  number that is not finite, which the checks of the ranges do not all stop.
\<close>

theorem parse_costing_ok:
  "case ParseCosting lx doc key ty old of
     Inl err \<Rightarrow> err = Undefined \<or> err = Not_finite \<and> odd_text lx doc
   | Inr cs \<Rightarrow> (case fst (CreateModeCosting ty cs) mode of
         None \<Rightarrow> mode \<noteq> snd (CreateModeCosting ty cs)
       | Some m \<Rightarrow> cm_ok m)"
  using parsed_modes [of lx doc key ty old _ mode] only_bad_numbers_costings [of lx doc key ty old]
  by (cases "ParseCosting lx doc key ty old") (simp_all add: only_bad_numbers_def bad_number_def)

text \<open>A number that is not one passes a range, and no other value that is out of it does.\<close>

lemma range_of_odd_numbers:
  "ranged_float r Not_a_number = Inl Not_finite" "ranged_float r Infinite = Inr (rd_def r)"
  by (simp_all add: ranged_float_def)

section \<open>Transitions in both directions\<close>

lemma base_transition_view:
  assumes "pred_use l = pred_use l'" "pred_toll l = pred_toll l'" "pred_destonly l = pred_destonly l'"
  shows "base_transition_cost d n e l i = base_transition_cost d n e l' i"
    and "pedestrian_transition_cost p n e l i = pedestrian_transition_cost p n e l' i"
  using assms by (simp_all add: base_transition_cost_def pedestrian_transition_cost_def enters_def)

text \<open>
  What the labels of a search keep of an edge: \<open>hgv\<close> is whether its costing is a truck's, for which an edge
  that is destination only for trucks counts as destination only.
\<close>

definition label_describes :: "bool \<Rightarrow> directed_edge \<Rightarrow> 'a sif_label_scheme \<Rightarrow> bool" where
  "label_describes hgv e l \<longleftrightarrow> lab_opp_local_idx l = de_opp_local_idx e \<and> lab_use l = de_use e
     \<and> lab_classification l = de_classification e \<and> lab_toll l = de_toll e
     \<and> lab_dest_only l = (de_dest_only e \<or> hgv \<and> de_dest_only_hgv e)
     \<and> lab_hgv_access l = (de_forwardaccess e AND kTruckBit \<noteq> 0)"

definition as_labelled :: "bool \<Rightarrow> directed_edge \<Rightarrow> directed_edge" where
  "as_labelled hgv e = (if hgv \<and> de_dest_only_hgv e then e\<lparr>de_dest_only := True\<rparr> else e)"

lemma as_labelled_fields:
  "de_opp_local_idx (as_labelled hgv e) = de_opp_local_idx e" "de_use (as_labelled hgv e) = de_use e"
  "de_classification (as_labelled hgv e) = de_classification e" "de_toll (as_labelled hgv e) = de_toll e"
  "de_forwardaccess (as_labelled hgv e) = de_forwardaccess e"
  "de_dest_only (as_labelled hgv e) = (de_dest_only e \<or> hgv \<and> de_dest_only_hgv e)"
  by (auto simp: as_labelled_def)

lemma transition_label:
  assumes l: "label_describes hgv pd l"
  shows "cm_transition expf m e n l ls prev =
    cm_transition_reverse expf m (unat (de_opp_local_idx pd)) n (as_labelled hgv pd) e
      (lab_has_measured_speed l) (lab_internal_turn l) ls prev"
proof -
  have view: "pred_use (pred_view l) = pred_use (edge_as_pred (as_labelled hgv pd))"
    "pred_toll (pred_view l) = pred_toll (edge_as_pred (as_labelled hgv pd))"
    "pred_destonly (pred_view l) = pred_destonly (edge_as_pred (as_labelled hgv pd))"
    "pred_opp_local_idx (pred_view l) = unat (de_opp_local_idx pd)"
    using l by (auto simp: label_describes_def pred_view_def edge_as_pred_def use_of_def as_labelled_fields)
  note base = base_transition_view [OF view(1-3)]
  show ?thesis
    using l
    by (cases m)
      (simp_all add: label_describes_def auto_transition_def auto_transition_reverse_def truck_transition_def
        truck_transition_reverse_def two_wheel_transition_def two_wheel_transition_reverse_def bicycle_transition_def
        bicycle_transition_reverse_def TransitionCost_def TransitionCostReverse_def Let_def use_of_def base view(4)
        as_labelled_fields)
qed

section \<open>Access against costs\<close>

lemma ignored_surface:
  "two_wheel_checks d kImpassable (\<lambda>_. shut) (e\<lparr>de_surface := s\<rparr>) pred g =
     two_wheel_checks d kImpassable (\<lambda>_. shut) (e\<lparr>de_surface := s'\<rparr>) pred g"
proof -
  have "\<not> kImpassable < s" for s :: "3 word" using unsigned_less [of s, where ?'a = nat] by (simp add: kImpassable_def word_less_nat_alt)
  then show ?thesis
    by (simp add: two_wheel_checks_def IsAccessible_def turns_back_def IsClosed_def CheckExclusions_def use_of_def)
qed

lemma beyond_surfaces: "table kSurfaceFactor (unat kImpassable) = Inl Undefined"
  by (simp add: table_def kSurfaceFactor_def kImpassable_def)

lemma impassable_factor: "motorcycle_factor m ts idx (e\<lparr>de_surface := kImpassable\<rparr>) ti src v \<noteq> Inr f"
  by (cases "table kHighwayFactor (unat (de_classification e))")
    (simp_all add: motorcycle_factor_def beyond_surfaces)

text \<open>
  A motorcycle is let onto edges whose surface is impassable, and then their cost cannot be read. The
  worst surface of \<^verbatim>\<open>MotorcycleCost\<close> is the worst there is, so the surface never decides an access check; the
  table of surface factors has no entry for it, so unless the costing is for the shortest path, or the edge
  is a ferry, the cost of such an edge is a read past the end of the table, or fails before it gets there.
\<close>

theorem motorcycle_impassable:
  "two_wheel_checks (mc_dyn m) kMinimumMotorcycleSurface (\<lambda>_. shut) (e\<lparr>de_surface := kImpassable\<rparr>) pred g =
     two_wheel_checks (mc_dyn m) kMinimumMotorcycleSurface (\<lambda>_. shut) (e\<lparr>de_surface := 0\<rparr>) pred g
   \<and> (shortest (mc_dyn m) \<or> use_of e = kFerry
      \<or> (\<exists>err. cm_edge_cost (Motorcycle_model m) x (e\<lparr>de_surface := kImpassable\<rparr>) ti stale = Inl err))"
proof (intro conjI)
  show "shortest (mc_dyn m) \<or> use_of e = kFerry
      \<or> (\<exists>err. cm_edge_cost (Motorcycle_model m) x (e\<lparr>de_surface := kImpassable\<rparr>) ti stale = Inl err)"
    using impassable_factor
    by (auto simp: motorcycle_edge_cost_def use_of_def Let_def bind_result_def split: sum.splits prod.splits if_splits)
qed (simp only: kMinimumMotorcycleSurface_def ignored_surface [of _ _ kImpassable _ _ _ 0])

text \<open>
  Buses and taxis going forward obey a turn restriction even when asked to ignore turn restrictions, and
  cars do not: the two test another of the costing's flags.
\<close>

lemma bus_obeys_turn_restriction:
  assumes "in_mask (lab_restrictions pred) (unat (de_localedgeidx e))" "\<not> ignore_restrictions (au_dyn a)"
  shows "cm_allowed (Bus_model a) act c e dest pred tile g time tz i x = (False, i, x)"
    and "cm_allowed (Taxi_model a) act c e dest pred tile g time tz i x = (False, i, x)"
  using assms by (simp_all add: bus_allowed_def taxi_allowed_def auto_checks_def Let_def)

end
