(* ===== verification/Recost.thy ===== *)
theory Recost
  imports Costing_Models
begin

text \<open>
  \<^verbatim>\<open>recost_forward\<close> (\<^verbatim>\<open>src/sif/recost.cc\<close>): a known path is walked edge by edge and costed again, with
  another costing or another time. What stays fixed during the walk is the record \<open>recost_setup\<close>, the
  variables of the loop are the record \<open>recost_state\<close>. The callback that names the edges is the list of
  its answers, the callback that takes the labels the list of labels returned beside the outcome.

  The theorems compose the walk with the contract of the costing models: more shade never makes a path
  more expensive, and changes neither its times nor whether it can be travelled.
\<close>

section \<open>The walk\<close>

record recost_setup =
  rs_reader :: tile_reader
  rs_model :: costing_model
  rs_data :: "graph_id \<Rightarrow> edge_data"
  rs_active :: conditional_active
  rs_closed :: "directed_edge \<Rightarrow> bool"
  rs_expf :: "rat \<Rightarrow> rat"
  rs_tz_diff :: "u64 \<Rightarrow> nat \<Rightarrow> nat \<Rightarrow> int"
  rs_time :: time_info
  rs_invariant :: bool
  rs_ignore_access :: bool
  rs_target_pct :: rat
  rs_stale :: u8

record recost_state =
  rc_edge :: "directed_edge option"
  rc_label :: path_label
  rc_predecessor :: u32
  rc_cost :: cost
  rc_length :: rat
  rc_source_pct :: rat

text \<open>\<^verbatim>\<open>GraphReader::directededge\<close> and \<^verbatim>\<open>nodeinfo\<close>: \<open>None\<close> is the null pointer for a missing tile.\<close>

definition reader_edge :: "tile_reader \<Rightarrow> graph_id \<Rightarrow> (directed_edge \<times> routing_tile) option result" where
  "reader_edge rd g =
     (case GetGraphTile rd g of None \<Rightarrow> Inr None | Some t \<Rightarrow> bind_result (tile_edge t g) (\<lambda>e. Inr (Some (e, t))))"

definition reader_node :: "tile_reader \<Rightarrow> graph_id \<Rightarrow> nodeinfo option result" where
  "reader_node rd g =
     (case GetGraphTile rd g of None \<Rightarrow> Inr None | Some t \<Rightarrow> bind_result (tile_node t g) (\<lambda>n. Inr (Some n)))"

text \<open>The label before the first edge, \<^verbatim>\<open>PathEdgeLabel()\<close>.\<close>

definition default_label :: path_label where
  "default_label =
     \<lparr>lab_predecessor = kInvalidLabel, lab_path_distance = 0, lab_restrictions = 0, lab_edgeid = ucast kInvalidGraphId,
      lab_opp_index = 0, lab_opp_local_idx = 0, lab_mode = 0, lab_endnode = ucast kInvalidGraphId, lab_use = 0,
      lab_classification = 0, lab_shortcut = False, lab_dest_only = False, lab_origin = False, lab_destination = False,
      lab_toll = False, lab_not_thru = False, lab_deadend = False, lab_on_complex_rest = False,
      lab_closure_pruning = False, lab_path_id = 0, lab_restriction_idx = 0, lab_internal_turn = 0, lab_unpaved = False,
      lab_has_measured_speed = False, lab_hgv_access = False, lab_bridge = False, lab_tunnel = False,
      lab_destonly_mask = 0, lab_cost = zero_cost, lab_sortcost = 0, pl_transition_cost = zero_cost\<rparr>"

definition recost_node :: "recost_setup \<Rightarrow> recost_state \<Rightarrow> nodeinfo option result" where
  "recost_node z s =
     (case rc_edge s of None \<Rightarrow> Inr None
      | Some e \<Rightarrow> bind_result (reader_node (rs_reader z) (endnode e)) (\<lambda>found.
          case found of None \<Rightarrow> Inl (Runtime_error ''Node cannot be found'') | Some n \<Rightarrow> Inr (Some n)))"

text \<open>The time at the edge, from the seconds so far.\<close>

definition recost_time :: "recost_setup \<Rightarrow> recost_state \<Rightarrow> nodeinfo option \<Rightarrow> time_info result" where
  "recost_time z s node =
     (case node of None \<Rightarrow> Inr (rs_time z)
      | Some n \<Rightarrow> time_forward (rs_tz_diff z) (rs_time z) (if rs_invariant z then 0 else secs (rc_cost s)) (unat (timezone n)))"

text \<open>The share of the edge that is travelled: less at the start and at the end of the path.\<close>

definition edge_pct :: "recost_setup \<Rightarrow> recost_state \<Rightarrow> bool \<Rightarrow> rat" where
  "edge_pct z s last_edge =
     (let p = (if rc_source_pct s \<noteq> - 1 then fsub 1 (rc_source_pct s) else 1)
      in if last_edge then max 0 (fsub p (fsub 1 (rs_target_pct z))) else p)"

definition node_access_error :: cxx_error where
  "node_access_error = Runtime_error ''This path requires different node access than this costing allows''"

definition edge_access_error :: cxx_error where
  "edge_access_error = Runtime_error ''This path requires different edge access than this costing allows''"

text \<open>The checks before an edge is costed; the result is the index of a time dependent restriction.\<close>

definition recost_access :: "recost_setup \<Rightarrow> recost_state \<Rightarrow> nodeinfo option \<Rightarrow> directed_edge \<Rightarrow> routing_tile \<Rightarrow> graph_id
    \<Rightarrow> bool \<Rightarrow> path_label \<Rightarrow> time_info \<Rightarrow> u8 result" where
  "recost_access z s node e tile edgeid last_edge pred ti =
     (if rc_predecessor s = kInvalidLabel then Inr kInvalidRestriction
      else let (allowed, ridx, _) = cm_allowed (rs_model z) (rs_active z) (rs_closed z) e last_edge pred tile edgeid
             (if ti_valid ti then ucast (local_time ti) else 0) (ucast (timezone_index ti)) kInvalidRestriction 0
           in if \<not> allowed \<and> \<not> rs_ignore_access z then Inl edge_access_error else Inr ridx)"

text \<open>The costs of an edge that may be taken, and its label.\<close>

definition recost_take :: "recost_setup \<Rightarrow> recost_state \<Rightarrow> nodeinfo option \<Rightarrow> directed_edge \<Rightarrow> graph_id \<Rightarrow> bool
    \<Rightarrow> path_label \<Rightarrow> time_info \<Rightarrow> u8 \<Rightarrow> recost_state result" where
  "recost_take z s node e edgeid last_edge pred ti ridx =
     (let m = rs_model z; pct = edge_pct z s last_edge; x = rs_data z edgeid;
          tc = (case node of None \<Rightarrow> zero_cost
            | Some n \<Rightarrow> cm_transition (rs_expf z) m e n pred (ed_levels x) (ed_levels (rs_data z (label_edgeid pred))))
      in bind_result (cm_edge_cost m x e ti (rs_stale z)) (\<lambda>(ec, flow).
         let c = cost_add (rc_cost s) (cost_add tc (cost_scale ec pct));
             len = f64 (rc_length s + fmul (edge_length e) pct)
         in bind_result (to_u32 len) (\<lambda>travelled.
            let turn = (case node of None \<Rightarrow> No_turn
                  | Some n \<Rightarrow> TurnType (cm_dyn m) (unat (lab_opp_local_idx pred)) n e None)
            in Inr \<lparr>rc_edge = Some e,
                 rc_label = new_path_label (rc_predecessor s) edgeid e c (cost c) (cm_mode m) travelled tc ridx
                   (\<not> rs_ignore_access z) (flow AND ucast kDefaultFlowMask \<noteq> 0) turn 0 False False,
                 rc_predecessor = rc_predecessor s + 1, rc_cost = c, rc_length = len, rc_source_pct = - 1\<rparr>)))"

text \<open>One turn of the loop.\<close>

definition recost_step :: "recost_setup \<Rightarrow> graph_id \<Rightarrow> bool \<Rightarrow> recost_state \<Rightarrow> recost_state result" where
  "recost_step z edgeid last_edge s =
     bind_result (recost_node z s) (\<lambda>node.
     bind_result (reader_edge (rs_reader z) edgeid) (\<lambda>found.
       case found of None \<Rightarrow> Inl (Runtime_error ''Edge cannot be found'')
       | Some (e, tile) \<Rightarrow>
         (let pred = (rc_label s)\<lparr>lab_deadend := (lab_opp_local_idx (rc_label s) = de_localedgeidx e)\<rparr>
          in if \<not> rs_ignore_access z \<and> \<not> lab_deadend pred
                \<and> (case node of None \<Rightarrow> False | Some n \<Rightarrow> \<not> cm_allowed_node (rs_model z) n)
             then Inl node_access_error
             else bind_result (recost_time z s node) (\<lambda>ti.
                  bind_result (recost_access z s node e tile edgeid last_edge pred ti) (\<lambda>ridx.
                    recost_take z s node e edgeid last_edge pred ti ridx)))))"

fun recost_loop :: "recost_setup \<Rightarrow> recost_state \<Rightarrow> graph_id list \<Rightarrow> path_label list \<times> cxx_error option" where
  "recost_loop z s [] = ([], None)"
| "recost_loop z s (g # path) =
     (if \<not> is_valid g then ([], None)
      else case recost_step z g (case path of [] \<Rightarrow> True | next # _ \<Rightarrow> \<not> is_valid next) s of
             Inl err \<Rightarrow> ([], Some err)
           | Inr s' \<Rightarrow> let (found, err) = recost_loop z s' path in (rc_label s' # found, err))"

definition recost_start :: "rat \<Rightarrow> recost_state" where
  "recost_start source_pct = \<lparr>rc_edge = None, rc_label = default_label, rc_predecessor = kInvalidLabel,
     rc_cost = zero_cost, rc_length = 0, rc_source_pct = source_pct\<rparr>"

definition recost_forward :: "recost_setup \<Rightarrow> rat \<Rightarrow> graph_id list \<Rightarrow> path_label list \<times> cxx_error option" where
  "recost_forward z source_pct path =
     (if source_pct < 0 \<or> 1 < source_pct \<or> rs_target_pct z < 0 \<or> 1 < rs_target_pct z
      then ([], Some (Logic_error ''Source and target percentages must be between 0 and 1 inclusive''))
      else case path of [] \<Rightarrow> ([], None)
        | g # _ \<Rightarrow>
          if \<not> is_valid g then ([], None)
          else case reader_edge (rs_reader z) g of
                 Inl err \<Rightarrow> ([], Some err)
               | Inr None \<Rightarrow> ([], Some (Runtime_error ''Edge cannot be found''))
               | Inr (Some (e, tile)) \<Rightarrow>
                   if \<not> rs_ignore_access z \<and> \<not> cm_filter (rs_model z) (rs_closed z) e 0 then ([], Some edge_access_error)
                   else recost_loop z (recost_start source_pct) path)"

section \<open>What access and transitions read of a label\<close>

text \<open>A label without its costs.\<close>

definition unpriced :: "path_label \<Rightarrow> path_label" where
  "unpriced l = l\<lparr>lab_cost := zero_cost, lab_sortcost := 0\<rparr>"

lemma unpriced_fields [simp]:
  "lab_restrictions (unpriced l) = lab_restrictions l" "lab_opp_local_idx (unpriced l) = lab_opp_local_idx l"
  "lab_dest_only (unpriced l) = lab_dest_only l" "lab_closure_pruning (unpriced l) = lab_closure_pruning l"
  "lab_unpaved (unpriced l) = lab_unpaved l" "lab_edgeid (unpriced l) = lab_edgeid l" "lab_use (unpriced l) = lab_use l"
  "lab_deadend (unpriced l) = lab_deadend l" "lab_mode (unpriced l) = lab_mode l"
  "lab_internal_turn (unpriced l) = lab_internal_turn l" "lab_hgv_access (unpriced l) = lab_hgv_access l"
  "lab_has_measured_speed (unpriced l) = lab_has_measured_speed l" "lab_classification (unpriced l) = lab_classification l"
  "pred_view (unpriced l) = pred_view l" "label_edgeid (unpriced l) = label_edgeid l"
  "unpriced (l\<lparr>lab_deadend := b\<rparr>) = (unpriced l)\<lparr>lab_deadend := b\<rparr>"
  by (simp_all add: unpriced_def pred_view_def label_edgeid_def)

lemma cm_allowed_unpriced: "cm_allowed m act c e dest (unpriced l) tile g time tz i x = cm_allowed m act c e dest l tile g time tz i x"
  by (cases m)
    (simp_all add: auto_allowed_def bus_allowed_def taxi_allowed_def truck_allowed_def motorcycle_allowed_def
      scooter_allowed_def bicycle_allowed_def pedestrian_allowed_def auto_checks_def two_wheel_checks_def truck_checks_def
      bicycle_checks_def turns_back_def bicycle_turns_back_def Let_def)

lemma cm_allowed_same:
  "unpriced l' = unpriced l \<Longrightarrow>
    cm_allowed m act c e dest l' tile g time tz i x = cm_allowed m act c e dest l tile g time tz i x"
  by (metis cm_allowed_unpriced)

lemma cm_transition_unpriced: "cm_transition expf m e n (unpriced l) ls prev = cm_transition expf m e n l ls prev"
  by (cases m)
    (simp_all add: auto_transition_def truck_transition_def two_wheel_transition_def bicycle_transition_def Let_def)

section \<open>Walks over more shade\<close>

definition cheaper_label :: "path_label \<Rightarrow> path_label \<Rightarrow> bool" where
  "cheaper_label l l' \<longleftrightarrow> unpriced l' = unpriced l \<and> secs (lab_cost l') = secs (lab_cost l)
     \<and> cost (lab_cost l') \<le> cost (lab_cost l) \<and> lab_sortcost l' \<le> lab_sortcost l"

definition cheaper_state :: "recost_state \<Rightarrow> recost_state \<Rightarrow> bool" where
  "cheaper_state s s' \<longleftrightarrow> rc_edge s' = rc_edge s \<and> rc_predecessor s' = rc_predecessor s \<and> rc_length s' = rc_length s
     \<and> rc_source_pct s' = rc_source_pct s \<and> cheaper_label (rc_label s) (rc_label s')
     \<and> cost (rc_cost s') \<le> cost (rc_cost s) \<and> secs (rc_cost s') = secs (rc_cost s)"

definition pct_ok :: "recost_state \<Rightarrow> bool" where
  "pct_ok s \<longleftrightarrow> rc_source_pct s \<le> 1"

lemma cheaper_label_refl: "cheaper_label l l"
  by (simp add: cheaper_label_def)

lemma edge_pct_nonneg: "pct_ok s \<Longrightarrow> 0 \<le> edge_pct z s b"
  by (auto simp: edge_pct_def pct_ok_def Let_def intro: float32.nonneg)

text \<open>A label made of a cheaper cost and otherwise alike.\<close>

lemma new_path_label_cheaper:
  "secs c' = secs c \<Longrightarrow> cost c' \<le> cost c \<Longrightarrow>
    cheaper_label (new_path_label p g e c (cost c) md d tc ri cp ms t pid dst hgv)
      (new_path_label p g e c' (cost c') md d tc ri cp ms t pid dst hgv)"
  by (simp add: cheaper_label_def unpriced_def new_path_label_def new_label_def sif_label.defs path_label.defs)

lemma cheaper_pred:
  "cheaper_label l l' \<Longrightarrow> unpriced (l'\<lparr>lab_deadend := b\<rparr>) = unpriced (l\<lparr>lab_deadend := b\<rparr>)"
  "cheaper_label l l' \<Longrightarrow> lab_opp_local_idx l' = lab_opp_local_idx l"
  "cheaper_label l l' \<Longrightarrow> label_edgeid l' = label_edgeid l"
  using unpriced_fields(2,15) by (metis cheaper_label_def unpriced_fields(16))+

lemma recost_take_cheaper:
  assumes m: "cm_ok (rs_model z)" and d: "\<And>g. data_le (rs_data z g) (data g)" and s: "cheaper_state s s'" "pct_ok s"
    and p: "unpriced pred' = unpriced pred"
  shows "case recost_take z s node e g b pred ti ridx of
     Inl err \<Rightarrow> recost_take (z\<lparr>rs_data := data\<rparr>) s' node e g b pred' ti ridx = Inl err
   | Inr t \<Rightarrow> \<exists>t'. recost_take (z\<lparr>rs_data := data\<rparr>) s' node e g b pred' ti ridx = Inr t' \<and> cheaper_state t t' \<and> pct_ok t"
proof -
  let ?z = "z\<lparr>rs_data := data\<rparr>"
  define tc where "tc = (case node of None \<Rightarrow> zero_cost
    | Some n \<Rightarrow> cm_transition (rs_expf z) (rs_model z) e n pred (ed_levels (rs_data z g))
        (ed_levels (rs_data z (label_edgeid pred))))"
  have lev: "ed_levels (data g) = ed_levels (rs_data z g)" for g using d [of g] by (simp add: data_le_def)
  have pred: "label_edgeid pred' = label_edgeid pred" "lab_opp_local_idx pred' = lab_opp_local_idx pred"
    using p by (metis unpriced_fields(2,15))+
  have tc': "(case node of None \<Rightarrow> zero_cost
    | Some n \<Rightarrow> cm_transition (rs_expf ?z) (rs_model ?z) e n pred' (ed_levels (rs_data ?z g))
        (ed_levels (rs_data ?z (label_edgeid pred')))) = tc"
    using p pred cm_transition_unpriced by (cases node; simp add: tc_def lev; metis)
  have turn: "(case node of None \<Rightarrow> No_turn
      | Some n \<Rightarrow> TurnType (cm_dyn (rs_model ?z)) (unat (lab_opp_local_idx pred')) n e None) =
    (case node of None \<Rightarrow> No_turn | Some n \<Rightarrow> TurnType (cm_dyn (rs_model z)) (unat (lab_opp_local_idx pred)) n e None)"
    by (simp add: pred split: option.split)
  have same: "edge_pct (z\<lparr>rs_data := data\<rparr>) s' b = edge_pct z s b" "rc_length s' = rc_length s" "rc_predecessor s' = rc_predecessor s"
    using s(1) by (simp_all add: edge_pct_def cheaper_state_def)
  have old: "cost (rc_cost s') \<le> cost (rc_cost s)" "secs (rc_cost s') = secs (rc_cost s)" using s(1) by (simp_all add: cheaper_state_def)
  show ?thesis
  proof (cases "cm_edge_cost (rs_model z) (rs_data z g) e ti (rs_stale z)")
    case (Inl err)
    moreover have "cm_edge_cost (rs_model z) (data g) e ti (rs_stale z) = Inl err"
      using Inl models.same_error [OF m d] by blast
    ultimately show ?thesis by (simp add: recost_take_def Let_def)
  next
    case (Inr r)
    obtain ec flow where r: "r = (ec, flow)" by (cases r)
    obtain ec' where ec': "cm_edge_cost (rs_model z) (data g) e ti (rs_stale z) = Inr (ec', flow)"
      "cost (cost_add (rc_cost s') (cost_add tc (cost_scale ec' (edge_pct z s b))))
        \<le> cost (cost_add (rc_cost s) (cost_add tc (cost_scale ec (edge_pct z s b))))"
      "secs (cost_add (rc_cost s') (cost_add tc (cost_scale ec' (edge_pct z s b))))
        = secs (cost_add (rc_cost s) (cost_add tc (cost_scale ec (edge_pct z s b))))"
      using models.cheaper_sum [OF m d Inr [unfolded r] edge_pct_nonneg [OF s(2)] old] by blast
    show ?thesis
      using Inr ec' unfolding recost_take_def Let_def r
      by (cases "to_u32 (f64 (rc_length s + fmul (edge_length e) (edge_pct z s b)))")
        (simp_all add: same pred tc' turn cheaper_state_def new_path_label_cheaper pct_ok_def flip: tc_def)
  qed
qed

lemma recost_step_cheaper:
  assumes m: "cm_ok (rs_model z)" and d: "\<And>g. data_le (rs_data z g) (data g)" and s: "cheaper_state s s'" "pct_ok s"
  shows "case recost_step z g b s of
     Inl err \<Rightarrow> recost_step (z\<lparr>rs_data := data\<rparr>) g b s' = Inl err
   | Inr t \<Rightarrow> \<exists>t'. recost_step (z\<lparr>rs_data := data\<rparr>) g b s' = Inr t' \<and> cheaper_state t t' \<and> pct_ok t"
proof -
  let ?z = "z\<lparr>rs_data := data\<rparr>"
  have l: "cheaper_label (rc_label s) (rc_label s')" using s(1) by (simp add: cheaper_state_def)
  have node: "recost_node ?z s' = recost_node z s" using s(1) by (simp add: recost_node_def cheaper_state_def split: option.split)
  have ti: "recost_time ?z s' n = recost_time z s n" for n
    using s(1) by (simp add: recost_time_def cheaper_state_def split: option.split)
  have acc: "recost_access ?z s' n e tile g b (rc_label s'\<lparr>lab_deadend := x\<rparr>) t = recost_access z s n e tile g b (rc_label s\<lparr>lab_deadend := x\<rparr>) t"
    for n e tile x t
    using s(1) by (simp add: recost_access_def cheaper_state_def cm_allowed_same [OF cheaper_pred(1) [OF l]])
  show ?thesis
  proof (cases "recost_node z s")
    case (Inr n)
    show ?thesis
    proof (cases "reader_edge (rs_reader z) g")
      case found: (Inr found)
      show ?thesis
      proof (cases found)
        case (Some et)
        obtain e tile where et: "et = (e, tile)" by (cases et)
        define pred where "pred = (rc_label s)\<lparr>lab_deadend := (lab_opp_local_idx (rc_label s) = de_localedgeidx e)\<rparr>"
        define pred' where "pred' = (rc_label s')\<lparr>lab_deadend := (lab_opp_local_idx (rc_label s) = de_localedgeidx e)\<rparr>"
        define go where "go y u q = bind_result (recost_time z s n) (\<lambda>ti.
          bind_result (recost_access z s n e tile g b pred ti) (recost_take y u n e g b q ti))" for y u q
        define shut where "shut \<longleftrightarrow> \<not> rs_ignore_access z \<and> lab_opp_local_idx (rc_label s) \<noteq> de_localedgeidx e
          \<and> (case n of None \<Rightarrow> False | Some n \<Rightarrow> \<not> cm_allowed_node (rs_model z) n)"
        have step: "recost_step z g b s = (if shut then Inl node_access_error else go z s pred)"
          using Inr found Some et by (simp add: recost_step_def go_def pred_def shut_def Let_def)
        have step': "recost_step ?z g b s' = (if shut then Inl node_access_error else go ?z s' pred')"
          using Inr found Some et
          by (cases n)
            (simp_all add: recost_step_def go_def pred_def pred'_def shut_def Let_def node ti acc cheaper_pred(2) [OF l])
        have "unpriced pred' = unpriced pred" unfolding pred'_def pred_def by (rule cheaper_pred(1) [OF l])
        note take = recost_take_cheaper [OF m d s this, of n e g b]
        have "case go z s pred of Inl err \<Rightarrow> go ?z s' pred' = Inl err
          | Inr t \<Rightarrow> \<exists>t'. go ?z s' pred' = Inr t' \<and> cheaper_state t t' \<and> pct_ok t"
        proof (cases "recost_time z s n")
          case t: (Inr ti)
          show ?thesis
          proof (cases "recost_access z s n e tile g b pred ti")
            case (Inr ridx)
            then have go: "go y u q = recost_take y u n e g b q ti ridx" for y u q by (simp add: go_def t)
            show ?thesis unfolding go by (rule take)
          qed (simp add: go_def t)
        qed (simp add: go_def)
        then show ?thesis unfolding step step' by (cases shut) simp_all
      qed (simp add: recost_step_def node Inr found)
    qed (simp add: recost_step_def node Inr)
  qed (simp add: recost_step_def node)
qed

lemma recost_loop_cheaper:
  assumes m: "cm_ok (rs_model z)" and d: "\<And>g. data_le (rs_data z g) (data g)" and s: "cheaper_state s s'" "pct_ok s"
  shows "snd (recost_loop (z\<lparr>rs_data := data\<rparr>) s' path) = snd (recost_loop z s path)
    \<and> list_all2 cheaper_label (fst (recost_loop z s path)) (fst (recost_loop (z\<lparr>rs_data := data\<rparr>) s' path))"
  using s
proof (induction path arbitrary: s s')
  case (Cons g path)
  let ?last = "case path of [] \<Rightarrow> True | next # _ \<Rightarrow> \<not> is_valid next"
  have step: "case recost_step z g ?last s of
     Inl err \<Rightarrow> recost_step (z\<lparr>rs_data := data\<rparr>) g ?last s' = Inl err
   | Inr t \<Rightarrow> \<exists>t'. recost_step (z\<lparr>rs_data := data\<rparr>) g ?last s' = Inr t' \<and> cheaper_state t t' \<and> pct_ok t"
    by (rule recost_step_cheaper [OF m d Cons.prems])
  show ?case
  proof (cases "recost_step z g ?last s")
    case (Inr t)
    then obtain t' where t': "recost_step (z\<lparr>rs_data := data\<rparr>) g ?last s' = Inr t'" "cheaper_state t t'" "pct_ok t"
      using step by auto
    then have "cheaper_label (rc_label t) (rc_label t')" by (simp add: cheaper_state_def)
    then show ?thesis using Inr t'(1) Cons.IH [OF t'(2,3)] by (simp add: split_beta)
  qed (use step in simp)
qed simp

text \<open>
  C2: More shade never makes a path dearer, for any costing. Two walks along the same path, with the same
  costing and clock, over the same graph, where the second finds at least the shade and comfort of the
  first on every edge: the second ends as the first does, with the same error if there is one, and its
  labels are those of the first but for the costs, of which the seconds are the same and the cost at
  every edge, accumulated with rounding from the start of the path, is at most that of the first.
\<close>

theorem recost_more_shade:
  assumes "cm_ok (rs_model z)" and "\<And>g. data_le (rs_data z g) (data g)"
  shows "snd (recost_forward (z\<lparr>rs_data := data\<rparr>) source_pct path) = snd (recost_forward z source_pct path)
    \<and> list_all2 cheaper_label (fst (recost_forward z source_pct path))
        (fst (recost_forward (z\<lparr>rs_data := data\<rparr>) source_pct path))"
  using recost_loop_cheaper [OF assms, of "recost_start source_pct" "recost_start source_pct" path]
  by (auto simp: recost_forward_def cheaper_state_def cheaper_label_refl pct_ok_def recost_start_def
      split: list.splits sum.splits option.splits)

section \<open>The labels of a walk\<close>

lemma recost_step_took:
  assumes "recost_step z g b s = Inr t"
  obtains node e pred ti ridx where "recost_take z s node e g b pred ti ridx = Inr t"
proof -
  obtain node found where f: "recost_node z s = Inr node" "reader_edge (rs_reader z) g = Inr found"
    using assms by (auto simp: recost_step_def bind_result_eq_Inr)
  show ?thesis
  proof (cases found)
    case None
    then show ?thesis using assms f by (simp add: recost_step_def)
  next
    case (Some et)
    obtain e tile where "et = (e, tile)" by (cases et)
    then show ?thesis
      using assms f Some that by (auto simp: recost_step_def Let_def bind_result_eq_Inr split: if_splits)
  qed
qed

lemma recost_step_label:
  assumes "recost_step z g b s = Inr t"
  shows "lab_edgeid (rc_label t) = ucast (gid_value g)" "lab_predecessor (rc_label t) = rc_predecessor s"
    "rc_predecessor t = rc_predecessor s + 1"
proof -
  obtain node e pred ti ridx where "recost_take z s node e g b pred ti ridx = Inr t"
    using recost_step_took [OF assms] .
  then show "lab_edgeid (rc_label t) = ucast (gid_value g)" "lab_predecessor (rc_label t) = rc_predecessor s"
    "rc_predecessor t = rc_predecessor s + 1"
    by (auto simp: recost_take_def Let_def bind_result_eq_Inr new_path_label_def new_label_def sif_label.defs
        path_label.defs)
qed

lemma recost_loop_labels:
  "map lab_edgeid (fst (recost_loop z s path)) = map (\<lambda>g. ucast (gid_value g)) (take (length (fst (recost_loop z s path))) path)
   \<and> map lab_predecessor (fst (recost_loop z s path)) =
       map (\<lambda>i. rc_predecessor s + word_of_nat i) [0..<length (fst (recost_loop z s path))]
   \<and> (case snd (recost_loop z s path) of
       None \<Rightarrow> length (fst (recost_loop z s path)) = length (takeWhile is_valid path)
     | Some err \<Rightarrow> length (fst (recost_loop z s path)) < length (takeWhile is_valid path))"
proof (induction path arbitrary: s)
  case (Cons g path)
  let ?last = "case path of [] \<Rightarrow> True | next # _ \<Rightarrow> \<not> is_valid next"
  show ?case
  proof (cases "recost_step z g ?last s")
    case (Inr t)
    have shift: "map (\<lambda>i. p + word_of_nat i) [0..<Suc n] = p # map (\<lambda>i. p + 1 + word_of_nat i) [0..<n]" for p :: u32 and n
      by (simp add: upt_rec [of 0 "Suc n"] map_Suc_upt [symmetric] algebra_simps del: upt_Suc)
    show ?thesis
      using Cons.IH [of t] recost_step_label [OF Inr] Inr
      by (simp add: split_beta shift del: upt_Suc split: option.splits)
  qed simp
qed simp

lemma recost_forward_cases:
  "(\<exists>err. recost_forward z source_pct path = ([], Some err)) \<or> recost_forward z source_pct path = recost_loop z (recost_start source_pct) path"
proof (cases path)
  case (Cons g rest)
  show ?thesis
  proof (cases "reader_edge (rs_reader z) g")
    case (Inr found)
    then show ?thesis by (cases found) (auto simp: recost_forward_def Cons)
  qed (simp add: recost_forward_def Cons)
qed (simp add: recost_forward_def)

text \<open>
  C12: The labels of a walk number its edges. They name the first edges of the path in order, each gives the
  one before as its predecessor and the first none, and there are as many as the path has edges before
  its first invalid identifier: all of them when the walk ends well, fewer when it ends with an error.
\<close>

theorem recost_labels:
  "(let (found, err) = recost_forward z source_pct path
    in map lab_edgeid found = map (\<lambda>g. ucast (gid_value g)) (take (length found) path)
       \<and> map lab_predecessor found = map (\<lambda>i. kInvalidLabel + word_of_nat i) [0..<length found]
       \<and> (case err of
            None \<Rightarrow> length found = length (takeWhile is_valid path)
          | Some err \<Rightarrow> found = [] \<or> length found < length (takeWhile is_valid path)))"
  using recost_forward_cases [of z source_pct path]
proof (elim disjE exE)
  assume "recost_forward z source_pct path = recost_loop z (recost_start source_pct) path"
  then show ?thesis
    using recost_loop_labels [of z "recost_start source_pct" path]
    by (simp add: split_beta recost_start_def split: option.splits)
qed simp

section \<open>Trucks\<close>

lemma penalty_unread:
  fixes m :: truck_cost and x :: rat
  defines "m' \<equiv> m\<lparr>tr_no_hgv_access_penalty := x\<rparr>"
  shows "truck_filter m' = truck_filter m" "truck_allowed m' = truck_allowed m" "truck_edge_cost m' = truck_edge_cost m"
    "tr_dyn m' = tr_dyn m" "\<not> lab_hgv_access l \<Longrightarrow> truck_transition expf m' e n l = truck_transition expf m e n l"
proof -
  have base: "truck_base_factor m' = truck_base_factor m" and lim: "truck_speed_limit m' = truck_speed_limit m"
    and checks: "truck_checks m' = truck_checks m" and mode: "truck_mode_allowed m' = truck_mode_allowed m"
    by (intro ext; simp add: m'_def truck_base_factor_def truck_speed_limit_def truck_checks_def truck_mode_allowed_def Let_def)+
  show d: "tr_dyn m' = tr_dyn m" by (simp add: m'_def)
  have fields: "tr_toll_factor m' = tr_toll_factor m" "tr_non_truck_route_factor m' = tr_non_truck_route_factor m"
    by (simp_all add: m'_def)
  have factor: "truck_factor m' = truck_factor m"
    by (intro ext) (unfold truck_factor_def base d fields, rule refl)
  show "truck_filter m' = truck_filter m" by (simp add: m'_def truck_filter_def)
  show "truck_allowed m' = truck_allowed m" by (intro ext) (unfold truck_allowed_def checks mode d, rule refl)
  show "truck_edge_cost m' = truck_edge_cost m" by (intro ext) (unfold truck_edge_cost_def factor lim d, rule refl)
  show "truck_transition expf m' e n l = truck_transition expf m e n l" if "\<not> lab_hgv_access l"
  proof -
    have "truck_penalties m' False e c = truck_penalties m False e c" for c
      by (cases "low_class e") (simp_all add: truck_penalties_def m'_def)
    then show ?thesis using that by (simp add: truck_transition_def d)
  qed
qed

definition no_hgv :: "recost_state \<Rightarrow> bool" where
  "no_hgv s \<longleftrightarrow> \<not> lab_hgv_access (rc_label s)"

lemma recost_step_no_hgv:
  assumes "recost_step z g b s = Inr t" shows "no_hgv t"
proof -
  obtain node e pred ti ridx where "recost_take z s node e g b pred ti ridx = Inr t"
    using recost_step_took [OF assms] .
  then show ?thesis
    by (auto simp: no_hgv_def recost_take_def Let_def bind_result_eq_Inr new_path_label_def new_label_def
        sif_label.defs path_label.defs)
qed

lemma recost_step_penalty:
  assumes s: "no_hgv s"
  shows "recost_step (z\<lparr>rs_model := Truck_model (m\<lparr>tr_no_hgv_access_penalty := x\<rparr>)\<rparr>) g b s =
     recost_step (z\<lparr>rs_model := Truck_model m\<rparr>) g b s"
proof -
  let ?z' = "z\<lparr>rs_model := Truck_model (m\<lparr>tr_no_hgv_access_penalty := x\<rparr>)\<rparr>" and ?z = "z\<lparr>rs_model := Truck_model m\<rparr>"
  have node: "recost_node ?z' s = recost_node ?z s"
    by (cases "rc_edge s") (simp_all add: recost_node_def)
  have ti: "recost_time ?z' s n = recost_time ?z s n" for n by (cases n) (simp_all add: recost_time_def)
  have acc: "recost_access ?z' s n e tile g b l t = recost_access ?z s n e tile g b l t" for n e tile l t
    by (simp add: recost_access_def penalty_unread)
  have take: "recost_take ?z' s n e g b (rc_label s\<lparr>lab_deadend := y\<rparr>) t r =
      recost_take ?z s n e g b (rc_label s\<lparr>lab_deadend := y\<rparr>) t r" for n e y t r
    using s by (cases n) (simp_all add: recost_take_def penalty_unread edge_pct_def no_hgv_def)
  have allowed: "cm_allowed_node (rs_model ?z') n = cm_allowed_node (rs_model ?z) n" for n by simp
  have fixed: "rs_reader ?z' = rs_reader ?z" "rs_ignore_access ?z' = rs_ignore_access ?z" by simp_all
  show ?thesis unfolding recost_step_def Let_def node ti acc allowed take fixed ..
qed

lemma recost_loop_penalty:
  "no_hgv s \<Longrightarrow> recost_loop (z\<lparr>rs_model := Truck_model (m\<lparr>tr_no_hgv_access_penalty := x\<rparr>)\<rparr>) s path =
     recost_loop (z\<lparr>rs_model := Truck_model m\<rparr>) s path"
proof (induction path arbitrary: s)
  case (Cons g path)
  let ?last = "case path of [] \<Rightarrow> True | next # _ \<Rightarrow> \<not> is_valid next"
  show ?case
    using Cons.IH recost_step_no_hgv [of "z\<lparr>rs_model := Truck_model m\<rparr>" g ?last s]
    by (cases "recost_step (z\<lparr>rs_model := Truck_model m\<rparr>) g ?last s")
      (simp_all add: recost_step_penalty [OF Cons.prems])
qed simp

text \<open>
  C35: A truck that is costed again pays nothing for leaving the roads open to trucks. Whatever the penalty
  for losing truck access, which a search charges on the transition from an edge with access to one
  without, the walk gives the same labels and the same outcome: the labels it makes never say that an
  edge has truck access.
\<close>

theorem recost_ignores_hgv_penalty:
  "recost_forward (z\<lparr>rs_model := Truck_model (m\<lparr>tr_no_hgv_access_penalty := x\<rparr>)\<rparr>) source_pct path =
     recost_forward (z\<lparr>rs_model := Truck_model m\<rparr>) source_pct path"
proof -
  have "no_hgv (recost_start source_pct)" by (simp add: no_hgv_def recost_start_def default_label_def)
  note loop = recost_loop_penalty [OF this]
  show ?thesis
    by (cases path; cases "reader_edge (rs_reader z) (hd path)")
      (simp_all add: recost_forward_def loop penalty_unread del: recost_loop.simps split: option.split)
qed

section \<open>Witnesses\<close>

text \<open>The walker who prefers shade, along one footway without and with trees.\<close>

definition demo_tile :: routing_tile where
  "demo_tile = \<lparr>rt_nodes = [], rt_edges = [demo_footway], rt_transitions = [], rt_access_restrictions = [],
     rt_forward_restrictions = [], rt_reverse_restrictions = []\<rparr>"

definition demo_data :: "environment_scores \<Rightarrow> edge_data" where
  "demo_data env = \<lparr>ed_speeds = \<lparr>sp_traffic = None, sp_predicted = \<lparr>ps_offset = [], ps_profiles = []\<rparr>, sp_cosf = (\<lambda>x. x)\<rparr>, ed_index = 0, ed_env = env, ed_levels = []\<rparr>"

definition demo_walk :: recost_setup where
  "demo_walk = \<lparr>rs_reader = (\<lambda>_. Some demo_tile), rs_model = Pedestrian_model demo_ped, rs_data = (\<lambda>_. demo_data no_scores),
     rs_active = (\<lambda>_ _ _. False), rs_closed = (\<lambda>_. False), rs_expf = (\<lambda>x. x), rs_tz_diff = (\<lambda>_ _ _. 0),
     rs_time = invalid_time, rs_invariant = False, rs_ignore_access = True, rs_target_pct = 1, rs_stale = 0\<rparr>"

theorem recost_more_shade_witness:
  "snd (recost_forward (demo_walk\<lparr>rs_data := \<lambda>_. demo_data demo_shade\<rparr>) 0 [GraphId 0]) =
     snd (recost_forward demo_walk 0 [GraphId 0])
   \<and> list_all2 cheaper_label (fst (recost_forward demo_walk 0 [GraphId 0]))
       (fst (recost_forward (demo_walk\<lparr>rs_data := \<lambda>_. demo_data demo_shade\<rparr>) 0 [GraphId 0]))"
proof (rule recost_more_shade)
  show "cm_ok (rs_model demo_walk)"
    using demo_ped_ok
    by (simp add: demo_walk_def walker_ok_def demo_ped_def demo_model_def get_base_costs_more opt_def num_or_def
        no_options_def ferry_factor_of_def float_eval)
  show "data_le (rs_data demo_walk g) (demo_data demo_shade)" for g
    using demo_env_le by (simp add: demo_walk_def demo_data_def data_le_def)
qed

end
